(* ===== verification/Prelude.thy ===== *)
theory Prelude
  imports
    Main
    "HOL-Library.List_Lexorder"
    "HOL-Library.Char_ord"
    "HOL-Library.Product_Lexorder"
    "HOL-Library.Option_ord"
    "HOL-Library.Multiset"
    "HOL-Library.Sublist"
begin

text \<open>
  The vocabulary shared by the component theories: Rust's fixed-width unsigned integers as
  natural numbers with the saturation, check or wrap-around of each operation written out;
  \<open>std::cmp::Ordering\<close> and the stable \<open>sort_by\<close>; \<open>BTreeMap\<close> as a key-sorted association
  list; the contract of a keyed map (locale \<open>keyed_map\<close>) and of a comparator that is a total
  preorder (locale \<open>comparator\<close>), which is what \<open>slice::sort_by\<close> asks of its argument.
\<close>

section \<open>Fixed-width integers\<close>

text \<open>
  \<open>usize\<close> is the 64-bit one of the supported targets. A value of a Rust integer type is a
  \<open>nat\<close>; where a bound matters a lemma states it as a hypothesis.
\<close>

abbreviation U32_MAX :: nat where
  "U32_MAX \<equiv> 4294967295"

abbreviation U64_MAX :: nat where
  "U64_MAX \<equiv> 18446744073709551615"

abbreviation USIZE_MAX :: nat where
  "USIZE_MAX \<equiv> 18446744073709551615"

abbreviation U128_MAX :: nat where
  "U128_MAX \<equiv> 340282366920938463463374607431768211455"

abbreviation I32_MAX :: int where
  "I32_MAX \<equiv> 2147483647"

named_theorems sat_simps "unfolding of the saturating operations"

definition sat_add :: "nat \<Rightarrow> nat \<Rightarrow> nat" where
  "sat_add a b = min U64_MAX (a + b)"

definition sat_mul :: "nat \<Rightarrow> nat \<Rightarrow> nat" where
  "sat_mul a b = min U64_MAX (a * b)"

text \<open>\<open>saturating_sub\<close> of an unsigned type is the truncated subtraction of \<open>nat\<close>.\<close>

abbreviation sat_sub :: "nat \<Rightarrow> nat \<Rightarrow> nat" where
  "sat_sub a b \<equiv> a - b"

definition sat_add32 :: "nat \<Rightarrow> nat \<Rightarrow> nat" where
  "sat_add32 a b = min U32_MAX (a + b)"

definition sat_mul32 :: "nat \<Rightarrow> nat \<Rightarrow> nat" where
  "sat_mul32 a b = min U32_MAX (a * b)"

definition sat_mul128 :: "nat \<Rightarrow> nat \<Rightarrow> nat" where
  "sat_mul128 a b = min U128_MAX (a * b)"

declare sat_add_def [sat_simps] sat_mul_def [sat_simps] sat_add32_def [sat_simps]
  sat_mul32_def [sat_simps] sat_mul128_def [sat_simps]

text \<open>\<open>checked_add\<close>, \<open>checked_mul\<close> and \<open>try_into\<close> at a given maximum.\<close>

definition checked :: "nat \<Rightarrow> nat \<Rightarrow> nat option" where
  "checked limit n = (if n \<le> limit then Some n else None)"

definition div_ceil :: "nat \<Rightarrow> nat \<Rightarrow> nat" where
  "div_ceil a b = (if a mod b = 0 then a div b else a div b + 1)"

definition clamp :: "nat \<Rightarrow> nat \<Rightarrow> nat \<Rightarrow> nat" where
  "clamp x lo hi = (if x < lo then lo else if hi < x then hi else x)"

text \<open>Fold of \<open>saturating_add\<close> over an iterator, from 0.\<close>

definition sat_sum :: "nat list \<Rightarrow> nat" where
  "sat_sum xs = foldl sat_add 0 xs"

text \<open>\<open>slice::get\<close>.\<close>

definition slice_get :: "'a list \<Rightarrow> nat \<Rightarrow> 'a option" where
  "slice_get xs i = (if i < length xs then Some (xs ! i) else None)"

text \<open>\<open>Iterator::find_map\<close>, also the shape of a loop that returns from its body.\<close>

fun find_map :: "('a \<Rightarrow> 'b option) \<Rightarrow> 'a list \<Rightarrow> 'b option" where
  "find_map f [] = None"
| "find_map f (x # xs) = (case f x of Some y \<Rightarrow> Some y | None \<Rightarrow> find_map f xs)"

lemma find_map_cong [fundef_cong]:
  "xs = ys \<Longrightarrow> (\<And>x. x \<in> set ys \<Longrightarrow> f x = g x) \<Longrightarrow> find_map f xs = find_map g ys"
  by (induction ys arbitrary: xs) (auto split: option.split)

lemma find_map_append: "find_map f (xs @ ys) = (case find_map f xs of Some y \<Rightarrow> Some y | None \<Rightarrow> find_map f ys)"
  by (induction xs) (auto split: option.split)

lemma find_map_concat: "find_map f (concat xss) = find_map (find_map f) xss"
  by (induction xss) (auto simp: find_map_append split: option.split)

lemma find_map_map: "find_map f (map g xs) = find_map (\<lambda>x. f (g x)) xs"
  by (induction xs) (auto split: option.split)

lemma find_map_SomeD: "find_map f xs = Some y \<Longrightarrow> \<exists>x \<in> set xs. f x = Some y"
  by (induction xs) (auto split: option.splits)

lemma find_map_None: "find_map f xs = None \<longleftrightarrow> (\<forall>x \<in> set xs. f x = None)"
  by (induction xs) (auto split: option.splits)

lemma distinct_iff_count_le: "distinct xs \<longleftrightarrow> (\<forall>x. count (mset xs) x \<le> 1)"
proof
  assume "distinct xs"
  then show "\<forall>x. count (mset xs) x \<le> 1" by (simp add: distinct_count_atmost_1)
next
  assume c: "\<forall>x. count (mset xs) x \<le> 1"
  have "count (mset xs) x = (if x \<in> set xs then 1 else 0)" for x
  proof (cases "x \<in> set xs")
    case True
    then have "count (mset xs) x \<noteq> 0" by (simp add: count_eq_zero_iff)
    then have "count (mset xs) x = 1" using c [rule_format, of x] by linarith
    then show ?thesis using True by (simp only: if_True)
  next
    case False
    then show ?thesis by (simp add: count_eq_zero_iff)
  qed
  then show "distinct xs" unfolding distinct_count_atmost_1 by blast
qed

text \<open>The wrapping sum of an iterator of \<open>u64\<close> (a build with overflow checks panics instead).\<close>

definition wrap_sum :: "nat list \<Rightarrow> nat" where
  "wrap_sum xs = sum_list xs mod 2 ^ 64"

text \<open>Decimal digits, as \<open>format!\<close> prints an unsigned integer.\<close>

fun dec :: "nat \<Rightarrow> string" where
  "dec n = (if n < 10 then [char_of (48 + n)] else dec (n div 10) @ [char_of (48 + n mod 10)])"

declare dec.simps [simp del]

text \<open>\<open>slice::windows(2)\<close> and \<open>[String]::join\<close>.\<close>

definition windows2 :: "'a list \<Rightarrow> ('a \<times> 'a) list" where
  "windows2 xs = zip xs (tl xs)"

fun join :: "string \<Rightarrow> string list \<Rightarrow> string" where
  "join sep [] = []"
| "join sep [x] = x"
| "join sep (x # y # zs) = x @ sep @ join sep (y # zs)"

lemma length_windows2 [simp]: "length (windows2 xs) = length xs - 1"
  by (simp add: windows2_def)

lemma windows2_nth: "i + 1 < length xs \<Longrightarrow> windows2 xs ! i = (xs ! i, xs ! (i + 1))"
  by (simp add: windows2_def nth_tl)

lemma slice_get_Some [simp]: "slice_get xs i = Some x \<longleftrightarrow> i < length xs \<and> xs ! i = x"
  by (auto simp: slice_get_def)

lemma slice_get_None [simp]: "slice_get xs i = None \<longleftrightarrow> length xs \<le> i"
  by (auto simp: slice_get_def)

lemma checked_eq_Some [simp]: "checked m n = Some k \<longleftrightarrow> n \<le> m \<and> k = n"
  by (auto simp: checked_def)

lemma checked_eq_None [simp]: "checked m n = None \<longleftrightarrow> m < n"
  by (auto simp: checked_def)

lemma sat_add_le [simp, intro]: "sat_add a b \<le> U64_MAX"
  by (simp add: sat_add_def)

lemma sat_mul_le [simp, intro]: "sat_mul a b \<le> U64_MAX"
  by (simp add: sat_mul_def)

lemma sat_add_exact: "a + b \<le> U64_MAX \<Longrightarrow> sat_add a b = a + b"
  by (simp add: sat_add_def)

lemma sat_add_mono: "a \<le> a' \<Longrightarrow> b \<le> b' \<Longrightarrow> sat_add a b \<le> sat_add a' b'"
  by (auto simp: sat_add_def min_def)

lemma sat_mul_mono: "a \<le> a' \<Longrightarrow> b \<le> b' \<Longrightarrow> sat_mul a b \<le> sat_mul a' b'"
  unfolding sat_mul_def by (intro min.mono mult_le_mono order_refl)

lemma sat_add_assoc: "sat_add (sat_add a b) c = sat_add a (sat_add b c)"
  by (simp add: sat_add_def min_def)

lemma foldl_sat_add: "a \<le> U64_MAX \<Longrightarrow> foldl sat_add a xs = min U64_MAX (a + sum_list xs)"
  by (induction xs arbitrary: a) (auto simp: sat_add_def min_def)

lemma sat_sum_eq: "sat_sum xs = min U64_MAX (sum_list xs)"
  by (simp add: sat_sum_def foldl_sat_add)

lemma div_ceil_le_iff: "0 < b \<Longrightarrow> div_ceil a b \<le> k \<longleftrightarrow> a \<le> k * b"
proof -
  assume b: "0 < b"
  have a: "a = (a div b) * b + a mod b" by simp
  show ?thesis
  proof (cases "a mod b = 0")
    case True
    then have "a = (a div b) * b" using a by simp
    then show ?thesis using True b
      by (metis div_ceil_def mult_le_cancel2 not_gr_zero)
  next
    case False
    then have "a \<le> k * b \<longleftrightarrow> a div b < k" using b a
      by (metis add_cancel_right_right div_less_iff_less_mult le_neq_implies_less
          less_or_eq_imp_le mod_mult_self2_is_0)
    then show ?thesis using False by (simp add: div_ceil_def Suc_le_eq)
  qed
qed

lemma clamp_bounds: "lo \<le> hi \<Longrightarrow> lo \<le> clamp x lo hi \<and> clamp x lo hi \<le> hi"
  by (auto simp: clamp_def)

section \<open>Orderings and the stable sort\<close>

datatype ordering = Less | Equal | Greater

fun then_with :: "ordering \<Rightarrow> ordering \<Rightarrow> ordering" where
  "then_with Equal o2 = o2"
| "then_with o1 _ = o1"

fun rev_ordering :: "ordering \<Rightarrow> ordering" where
  "rev_ordering Less = Greater"
| "rev_ordering Equal = Equal"
| "rev_ordering Greater = Less"

definition cmp :: "'a::linorder \<Rightarrow> 'a \<Rightarrow> ordering" where
  "cmp x y = (if x < y then Less else if x = y then Equal else Greater)"

lemma cmp_simps [simp]:
  "cmp x y = Less \<longleftrightarrow> x < y"
  "cmp x y = Equal \<longleftrightarrow> x = y"
  "cmp x y = Greater \<longleftrightarrow> y < x"
  by (auto simp: cmp_def)

lemma cmp_rev: "cmp y x = rev_ordering (cmp x y)"
  by (auto simp: cmp_def)

lemma then_with_simps [simp]:
  "then_with a b = Equal \<longleftrightarrow> a = Equal \<and> b = Equal"
  "then_with a b = Less \<longleftrightarrow> a = Less \<or> a = Equal \<and> b = Less"
  "then_with a b = Greater \<longleftrightarrow> a = Greater \<or> a = Equal \<and> b = Greater"
  by (cases a; simp)+

lemma rev_then_with [simp]:
  "rev_ordering (then_with a b) = then_with (rev_ordering a) (rev_ordering b)"
  by (cases a) simp_all

lemma rev_ordering_eq [simp]:
  "rev_ordering a = Equal \<longleftrightarrow> a = Equal"
  "rev_ordering a = Less \<longleftrightarrow> a = Greater"
  "rev_ordering a = Greater \<longleftrightarrow> a = Less"
  "rev_ordering (rev_ordering a) = a"
  by (cases a; simp)+

text \<open>\<open>slice::sort_by\<close> is a stable sort: equal elements keep their order.\<close>

fun insert_by :: "('a \<Rightarrow> 'a \<Rightarrow> ordering) \<Rightarrow> 'a \<Rightarrow> 'a list \<Rightarrow> 'a list" where
  "insert_by c x [] = [x]"
| "insert_by c x (y # ys) = (if c x y = Greater then y # insert_by c x ys else x # y # ys)"

definition sort_by :: "('a \<Rightarrow> 'a \<Rightarrow> ordering) \<Rightarrow> 'a list \<Rightarrow> 'a list" where
  "sort_by c xs = foldr (insert_by c) xs []"

text \<open>\<open>Iterator::min_by\<close> returns the first of the least elements.\<close>

fun min_by :: "('a \<Rightarrow> 'a \<Rightarrow> ordering) \<Rightarrow> 'a list \<Rightarrow> 'a option" where
  "min_by c [] = None"
| "min_by c (x # xs) = Some (foldl (\<lambda>best y. if c best y = Greater then y else best) x xs)"

lemma mset_insert_by [simp]: "mset (insert_by c x xs) = add_mset x (mset xs)"
  by (induction xs) auto

lemma mset_sort_by [simp]: "mset (sort_by c xs) = mset xs"
  unfolding sort_by_def by (induction xs) auto

lemma set_sort_by [simp]: "set (sort_by c xs) = set xs"
  by (metis mset_sort_by set_mset_mset)

lemma length_sort_by [simp]: "length (sort_by c xs) = length xs"
  by (metis mset_sort_by size_mset)

lemma distinct_sort_by [simp]: "distinct (sort_by c xs) = distinct xs"
  by (metis mset_sort_by mset_eq_imp_distinct_iff)

lemma sort_by_Cons: "sort_by c (x # xs) = insert_by c x (sort_by c xs)"
  by (simp add: sort_by_def)

lemma sort_by_Nil [simp]: "sort_by c [] = []"
  by (simp add: sort_by_def)

text \<open>
  The contract a comparator owes \<open>sort_by\<close> and \<open>min_by\<close>, on the set \<open>A\<close> of the values it is
  used on: the two argument orders agree, and "not greater" is transitive. Rust documents that a
  sort with a comparator that breaks this is unspecified and may panic.
\<close>

locale comparator =
  fixes c :: "'a \<Rightarrow> 'a \<Rightarrow> ordering" and A :: "'a set"
  assumes flip: "x \<in> A \<Longrightarrow> y \<in> A \<Longrightarrow> c y x = rev_ordering (c x y)"
    and trans: "x \<in> A \<Longrightarrow> y \<in> A \<Longrightarrow> z \<in> A \<Longrightarrow>
      c x y \<noteq> Greater \<Longrightarrow> c y z \<noteq> Greater \<Longrightarrow> c x z \<noteq> Greater"
begin

abbreviation le_by :: "'a \<Rightarrow> 'a \<Rightarrow> bool" where
  "le_by x y \<equiv> c x y \<noteq> Greater"

lemma self_equal: "x \<in> A \<Longrightarrow> c x x = Equal"
  using flip [of x x] by (cases "c x x") auto

lemma total: "x \<in> A \<Longrightarrow> y \<in> A \<Longrightarrow> le_by x y \<or> le_by y x"
  using flip [of x y] by auto

lemma sorted_insert_by:
  "x \<in> A \<Longrightarrow> set ys \<subseteq> A \<Longrightarrow> sorted_wrt le_by ys \<Longrightarrow> sorted_wrt le_by (insert_by c x ys)"
proof (induction ys)
  case Nil
  then show ?case by simp
next
  case (Cons y ys)
  have set_ins: "set (insert_by c x ys) = insert x (set ys)"
    by (metis mset_insert_by set_mset_add_mset_insert set_mset_mset)
  show ?case
  proof (cases "c x y = Greater")
    case True
    then have "le_by y x" using flip [of x y] Cons.prems by auto
    then show ?thesis using True Cons set_ins by auto
  next
    case False
    then have "\<forall>z \<in> set ys. le_by x z"
      using Cons.prems trans [of x y] by auto
    then show ?thesis using False Cons.prems by auto
  qed
qed

lemma sorted_sort_by: "set xs \<subseteq> A \<Longrightarrow> sorted_wrt le_by (sort_by c xs)"
  by (induction xs) (auto simp: sort_by_Cons sorted_insert_by)

lemma hd_sort_by_least:
  "set xs \<subseteq> A \<Longrightarrow> xs \<noteq> [] \<Longrightarrow> x \<in> set xs \<Longrightarrow> le_by (hd (sort_by c xs)) x"
proof -
  assume A: "set xs \<subseteq> A" "xs \<noteq> []" "x \<in> set xs"
  then obtain y ys where s: "sort_by c xs = y # ys"
    by (metis length_0_conv length_sort_by neq_Nil_conv)
  have "x \<in> set (y # ys)" using A s by (metis set_sort_by)
  moreover have "y \<in> A" using A s by (metis list.set_intros(1) set_sort_by subsetD)
  moreover have "sorted_wrt le_by (y # ys)" using sorted_sort_by [OF A(1)] s by simp
  ultimately show ?thesis using s self_equal by auto
qed

lemma less_precedes:
  assumes A: "set xs \<subseteq> A" and xy: "x \<in> set xs" "y \<in> set xs" and less: "c x y = Less"
  shows "\<exists>us vs ws. sort_by c xs = us @ x # vs @ y # ws"
proof -
  have "x \<noteq> y" using self_equal [of x] A xy less by auto
  obtain us vs where s: "sort_by c xs = us @ y # vs"
    using xy(2) by (metis in_set_conv_decomp set_sort_by)
  have "x \<notin> set vs"
  proof
    assume "x \<in> set vs"
    then have "le_by y x" using sorted_sort_by [OF A] unfolding s by (simp add: sorted_wrt_append)
    then show False using flip [of x y] A xy less by auto
  qed
  then have "x \<in> set us" using xy(1) \<open>x \<noteq> y\<close> s by (metis Un_iff set_ConsD set_append set_sort_by)
  then show ?thesis using s by (metis append.assoc append_Cons in_set_conv_decomp)
qed

lemma min_by_fold:
  "x \<in> A \<Longrightarrow> set xs \<subseteq> A \<Longrightarrow> b = foldl (\<lambda>best y. if c best y = Greater then y else best) x xs \<Longrightarrow>
   b \<in> insert x (set xs) \<and> (\<forall>z \<in> insert x (set xs). le_by b z)"
proof (induction xs arbitrary: x)
  case Nil
  then show ?case using self_equal by auto
next
  case (Cons y ys)
  let ?x = "if c x y = Greater then y else x"
  have x': "?x \<in> A" "set ys \<subseteq> A" using Cons.prems by auto
  have IH: "b \<in> insert ?x (set ys)" "\<forall>z \<in> insert ?x (set ys). le_by b z"
    using Cons.IH [OF x'] Cons.prems(3) by auto
  have bA: "b \<in> A" using IH(1) x' by auto
  have bx: "le_by b ?x" using IH(2) by blast
  have "le_by ?x x" "le_by ?x y"
    using flip [of x y] self_equal Cons.prems by (auto split: if_splits)
  then have "le_by b x" "le_by b y"
    using trans [OF bA x'(1)] bx Cons.prems by auto
  then show ?case using IH by (auto split: if_splits)
qed

lemma min_by_least:
  "set xs \<subseteq> A \<Longrightarrow> min_by c xs = Some b \<Longrightarrow> b \<in> set xs \<and> (\<forall>z \<in> set xs. le_by b z)"
  by (cases xs) (use min_by_fold in auto)

end

lemma min_by_None [simp]: "min_by c xs = None \<longleftrightarrow> xs = []"
  by (cases xs) auto

text \<open>Comparators built with \<open>then_with\<close> from key comparisons satisfy the contract.\<close>

lemma comparator_cmp_key: "comparator (\<lambda>x y. cmp (f x) (f y)) A"
  by unfold_locales (auto intro: cmp_rev)

lemma comparator_rev: "comparator c A \<Longrightarrow> comparator (\<lambda>x y. c y x) A"
  unfolding comparator_def by metis

lemma comparator_then_with:
  assumes a: "comparator a A" and b: "comparator b A"
  shows "comparator (\<lambda>x y. then_with (a x y) (b x y)) A"
proof
  fix x y assume xy: "x \<in> A" "y \<in> A"
  show "then_with (a y x) (b y x) = rev_ordering (then_with (a x y) (b x y))"
    by (simp only: comparator.flip [OF a xy] comparator.flip [OF b xy] rev_then_with)
next
  fix x y z
  assume xyz: "x \<in> A" "y \<in> A" "z \<in> A"
    and xy: "then_with (a x y) (b x y) \<noteq> Greater" and yz: "then_with (a y z) (b y z) \<noteq> Greater"
  note fa = comparator.flip [OF a] and ta = comparator.trans [OF a]
    and tb = comparator.trans [OF b]
  from xy yz have "a x z \<noteq> Greater" using ta [OF xyz] by auto
  moreover have "b x z \<noteq> Greater" if e: "a x z = Equal"
  proof -
    have zx: "a z x = Equal" using fa [OF xyz(1) xyz(3)] e by simp
    have "a y x \<noteq> Greater" using ta [OF xyz(2) xyz(3) xyz(1)] zx yz by auto
    moreover have "a z y \<noteq> Greater" using ta [OF xyz(3) xyz(1) xyz(2)] zx xy by auto
    ultimately have "a x y \<noteq> Less" "a y z \<noteq> Less"
      using fa [OF xyz(1,2)] fa [OF xyz(2,3)] by auto
    moreover have "a x y \<noteq> Greater" "a y z \<noteq> Greater" using xy yz by auto
    ultimately have "a x y = Equal" "a y z = Equal"
      by (metis ordering.exhaust)+
    then show ?thesis using tb [OF xyz] xy yz by auto
  qed
  ultimately show "then_with (a x z) (b x z) \<noteq> Greater" by auto
qed

section \<open>Maps\<close>

text \<open>What the code relies on of \<open>HashMap\<close> and \<open>BTreeMap\<close>.\<close>

locale keyed_map =
  fixes get :: "'m \<Rightarrow> 'k \<Rightarrow> 'v option"
    and put :: "'k \<Rightarrow> 'v \<Rightarrow> 'm \<Rightarrow> 'm"
    and del :: "'k \<Rightarrow> 'm \<Rightarrow> 'm"
    and wf :: "'m \<Rightarrow> bool"
  assumes get_put: "wf m \<Longrightarrow> get (put k v m) = (get m)(k \<mapsto> v)"
    and get_del: "wf m \<Longrightarrow> get (del k m) = (get m)(k := None)"
    and wf_put: "wf m \<Longrightarrow> wf (put k v m)"
    and wf_del: "wf m \<Longrightarrow> wf (del k m)"
begin

lemma get_put_same: "wf m \<Longrightarrow> get (put k v m) k = Some v"
  by (simp add: get_put)

lemma get_put_other: "wf m \<Longrightarrow> k' \<noteq> k \<Longrightarrow> get (put k v m) k' = get m k'"
  by (simp add: get_put)

lemma dom_put: "wf m \<Longrightarrow> dom (get (put k v m)) = insert k (dom (get m))"
  by (simp add: get_put)

lemma dom_del: "wf m \<Longrightarrow> dom (get (del k m)) = dom (get m) - {k}"
  by (simp add: get_del)

lemma del_put_get: "wf m \<Longrightarrow> get (del k (put k v m)) = (get m)(k := None)"
  by (simp add: get_put get_del wf_put)

lemma wf_fold_put: "wf m \<Longrightarrow> wf (fold (\<lambda>(k, v). put k v) kvs m)"
  by (induction kvs arbitrary: m) (auto simp: wf_put)

end

text \<open>A \<open>BTreeMap\<close> is the list of its entries, in key order.\<close>

type_synonym ('k, 'v) btree = "('k \<times> 'v) list"

definition bt_get :: "('k, 'v) btree \<Rightarrow> 'k \<Rightarrow> 'v option" where
  "bt_get m k = map_of m k"

fun bt_insert :: "'k::linorder \<Rightarrow> 'v \<Rightarrow> ('k, 'v) btree \<Rightarrow> ('k, 'v) btree" where
  "bt_insert k v [] = [(k, v)]"
| "bt_insert k v (e # m) =
     (if fst e < k then e # bt_insert k v m
      else if fst e = k then (k, v) # m
      else (k, v) # e # m)"

definition bt_remove :: "'k \<Rightarrow> ('k, 'v) btree \<Rightarrow> ('k, 'v) btree" where
  "bt_remove k m = filter (\<lambda>e. fst e \<noteq> k) m"

text \<open>\<open>get_mut\<close> followed by a write through the reference.\<close>

definition bt_modify :: "'k \<Rightarrow> ('v \<Rightarrow> 'v) \<Rightarrow> ('k, 'v) btree \<Rightarrow> ('k, 'v) btree" where
  "bt_modify k f m = map (\<lambda>e. if fst e = k then (k, f (snd e)) else e) m"

definition bt_keys :: "('k, 'v) btree \<Rightarrow> 'k list" where
  "bt_keys m = map fst m"

definition bt_values :: "('k, 'v) btree \<Rightarrow> 'v list" where
  "bt_values m = map snd m"

definition bt_wf :: "('k::linorder, 'v) btree \<Rightarrow> bool" where
  "bt_wf m \<longleftrightarrow> sorted_wrt (<) (map fst m)"

lemma bt_wf_Nil [simp]: "bt_wf []"
  by (simp add: bt_wf_def)

lemma bt_wf_Cons: "bt_wf (e # m) \<longleftrightarrow> (\<forall>k \<in> set (map fst m). fst e < k) \<and> bt_wf m"
  by (simp add: bt_wf_def)

lemma bt_wf_distinct: "bt_wf m \<Longrightarrow> distinct (map fst m)"
  by (simp add: bt_wf_def strict_sorted_iff)

lemma bt_get_Cons: "bt_get (e # m) k = (if fst e = k then Some (snd e) else bt_get m k)"
  by (cases e) (auto simp: bt_get_def)

lemma bt_get_Nil [simp]: "bt_get [] k = None"
  by (simp add: bt_get_def)

lemma bt_get_None_iff: "bt_get m k = None \<longleftrightarrow> k \<notin> set (map fst m)"
  by (simp add: bt_get_def map_of_eq_None_iff)

lemma bt_get_Some_mem: "bt_get m k = Some v \<Longrightarrow> (k, v) \<in> set m"
  by (simp add: bt_get_def map_of_SomeD)

lemma bt_get_Some_iff: "bt_wf m \<Longrightarrow> bt_get m k = Some v \<longleftrightarrow> (k, v) \<in> set m"
  by (simp add: bt_get_def bt_wf_distinct)

lemma bt_get_insert: "bt_wf m \<Longrightarrow> bt_get (bt_insert k v m) = (bt_get m)(k \<mapsto> v)"
proof (induction m)
  case Nil
  then show ?case by (auto simp: bt_get_Cons fun_eq_iff)
next
  case (Cons e m)
  have tl: "bt_wf m" using Cons.prems by (simp add: bt_wf_Cons)
  consider "fst e < k" | "fst e = k" | "k < fst e" by (rule linorder_cases)
  then show ?case
  proof cases
    case 1
    then show ?thesis using Cons.IH [OF tl] by (auto simp: bt_get_Cons fun_eq_iff)
  next
    case 2
    then show ?thesis by (auto simp: bt_get_Cons fun_eq_iff)
  next
    case 3
    then show ?thesis by (auto simp: bt_get_Cons fun_eq_iff)
  qed
qed

lemma bt_get_remove: "bt_get (bt_remove k m) = (bt_get m)(k := None)"
  by (induction m) (auto simp: bt_remove_def bt_get_Cons fun_eq_iff)

lemma keys_bt_insert [simp]: "set (map fst (bt_insert k v m)) = insert k (set (map fst m))"
  by (induction m) auto

lemma keys_bt_remove [simp]: "map fst (bt_remove k m) = filter (\<lambda>x. x \<noteq> k) (map fst m)"
  by (induction m) (auto simp: bt_remove_def)

lemma bt_wf_insert [simp]: "bt_wf m \<Longrightarrow> bt_wf (bt_insert k v m)"
proof (induction m)
  case Nil
  then show ?case by (simp add: bt_wf_Cons)
next
  case (Cons e m)
  have s: "set (map fst (bt_insert k v m)) = insert k (set (map fst m))" by (rule keys_bt_insert)
  show ?case using Cons s by (auto simp: bt_wf_Cons)
qed

lemma bt_wf_remove [simp]: "bt_wf m \<Longrightarrow> bt_wf (bt_remove k m)"
  by (simp add: bt_wf_def sorted_wrt_filter)

lemma keys_bt_modify [simp]: "map fst (bt_modify k f m) = map fst m"
  by (induction m) (auto simp: bt_modify_def)

lemma bt_wf_modify [simp]: "bt_wf (bt_modify k f m) = bt_wf m"
  by (simp add: bt_wf_def)

lemma bt_get_modify: "bt_get (bt_modify k f m) x =
    (if x = k then map_option f (bt_get m k) else bt_get m x)"
  by (induction m) (auto simp: bt_modify_def bt_get_Cons)

lemma length_bt_modify [simp]: "length (bt_modify k f m) = length m"
  by (simp add: bt_modify_def)

lemma length_bt_insert:
  "bt_wf m \<Longrightarrow> length (bt_insert k v m) = (if k \<in> set (map fst m) then length m else Suc (length m))"
  by (induction m) (auto simp: bt_wf_Cons)

lemma set_bt_insert: "set (bt_insert k v m) \<subseteq> insert (k, v) (set m)"
  by (induction m) auto

lemma set_bt_insert_wf: "bt_wf m \<Longrightarrow> set (bt_insert k v m) = insert (k, v) {e \<in> set m. fst e \<noteq> k}"
  by (induction m) (auto simp: bt_wf_Cons)

lemma set_bt_remove: "set (bt_remove k m) = {e \<in> set m. fst e \<noteq> k}"
  by (auto simp: bt_remove_def)

lemma mset_bt_insert_new:
  "k \<notin> set (map fst m) \<Longrightarrow> mset (bt_insert k v m) = add_mset (k, v) (mset m)"
  by (induction m) auto

lemma mset_bt_remove:
  "bt_wf m \<Longrightarrow> bt_get m k = Some v \<Longrightarrow> mset m = add_mset (k, v) (mset (bt_remove k m))"
proof (induction m)
  case Nil
  then show ?case by simp
next
  case (Cons e m)
  show ?case
  proof (cases "fst e = k")
    case True
    then have "k \<notin> set (map fst m)" using Cons.prems by (auto simp: bt_wf_Cons)
    then have "filter (\<lambda>e. fst e \<noteq> k) m = m" by (auto simp: filter_id_conv)
    moreover have "e = (k, v)" using True Cons.prems by (cases e) (simp add: bt_get_Cons)
    ultimately show ?thesis by (simp add: bt_remove_def)
  next
    case False
    then show ?thesis using Cons by (simp add: bt_remove_def bt_wf_Cons bt_get_Cons)
  qed
qed

lemma mset_bt_insert_old:
  "bt_wf m \<Longrightarrow> bt_get m k = Some v \<Longrightarrow>
   mset (bt_insert k w m) = add_mset (k, w) (mset (bt_remove k m))"
proof (induction m)
  case Nil
  then show ?case by simp
next
  case (Cons e m)
  show ?case
  proof (cases "fst e = k")
    case True
    then have "k \<notin> set (map fst m)" using Cons.prems by (auto simp: bt_wf_Cons)
    then have "filter (\<lambda>e. fst e \<noteq> k) m = m" by (auto simp: filter_id_conv)
    then show ?thesis using True by (simp add: bt_remove_def)
  next
    case False
    then have get: "bt_get m k = Some v" "bt_wf m"
      using Cons.prems by (auto simp: bt_get_Cons bt_wf_Cons)
    have "(k, v) \<in> set m" by (rule bt_get_Some_mem [OF get(1)])
    then have "fst e < k" using Cons.prems by (force simp: bt_wf_Cons)
    then show ?thesis using Cons.IH [OF get(2,1)] False by (simp add: bt_remove_def)
  qed
qed

lemma mset_keys_insert_new:
  "k \<notin> set (map fst m) \<Longrightarrow> mset (map fst (bt_insert k v m)) = add_mset k (mset (map fst m))"
  by (induction m) auto

lemma keys_insert_old:
  "bt_wf m \<Longrightarrow> k \<in> set (map fst m) \<Longrightarrow> map fst (bt_insert k v m) = map fst m"
  by (induction m) (auto simp: bt_wf_Cons)

lemma mset_keys_remove:
  "bt_wf m \<Longrightarrow> mset (map fst (bt_remove k m)) = mset (map fst m) - {#k#}"
proof (induction m)
  case Nil
  then show ?case by (simp add: bt_remove_def)
next
  case (Cons e m)
  show ?case
  proof (cases "fst e = k")
    case True
    then have "k \<notin> set (map fst m)" using Cons.prems by (auto simp: bt_wf_Cons)
    then have "filter (\<lambda>e. fst e \<noteq> k) m = m" by (auto simp: filter_id_conv)
    then show ?thesis using True by (simp add: bt_remove_def)
  next
    case False
    then show ?thesis using Cons by (simp add: bt_remove_def bt_wf_Cons)
  qed
qed

lemma length_bt_remove_le: "length (bt_remove k m) \<le> length m"
  by (simp add: bt_remove_def)

interpretation bt: keyed_map bt_get bt_insert bt_remove bt_wf
  by unfold_locales (auto simp: bt_get_insert bt_get_remove)

text \<open>A \<open>HashMap\<close> whose iteration order the code never observes is a partial function.\<close>

definition hm_put :: "'k \<Rightarrow> 'v \<Rightarrow> ('k \<rightharpoonup> 'v) \<Rightarrow> ('k \<rightharpoonup> 'v)" where
  "hm_put k v m = m(k \<mapsto> v)"

definition hm_del :: "'k \<Rightarrow> ('k \<rightharpoonup> 'v) \<Rightarrow> ('k \<rightharpoonup> 'v)" where
  "hm_del k m = m(k := None)"

interpretation hm: keyed_map "\<lambda>m. m" hm_put hm_del "\<lambda>_. True"
  by unfold_locales (auto simp: hm_put_def hm_del_def)

text \<open>
  A \<open>HashMap\<close> whose iteration order the code observes is the list of its entries in that order.
  Where a new key lands is not specified by Rust; the facts about the code hold for every list.
\<close>

definition hl_put :: "'k \<Rightarrow> 'v \<Rightarrow> ('k \<times> 'v) list \<Rightarrow> ('k \<times> 'v) list" where
  "hl_put k v m = (if k \<in> set (map fst m) then bt_modify k (\<lambda>_. v) m else m @ [(k, v)])"

lemma hl_get_put: "bt_get (hl_put k v m) = (bt_get m)(k \<mapsto> v)"
proof
  fix x
  have "bt_get m k \<noteq> None \<longleftrightarrow> k \<in> set (map fst m)" by (simp add: bt_get_None_iff)
  moreover have "bt_get (m @ [(k, v)]) x = (if bt_get m x = None \<and> x = k then Some v else bt_get m x)"
    by (induction m) (auto simp: bt_get_Cons)
  ultimately show "bt_get (hl_put k v m) x = ((bt_get m)(k \<mapsto> v)) x"
    by (auto simp: hl_put_def bt_get_modify)
qed

interpretation hl: keyed_map bt_get hl_put bt_remove "\<lambda>m. distinct (map fst m)"
proof
  fix m :: "('a \<times> 'b) list" and k v
  assume d: "distinct (map fst m)"
  show "bt_get (hl_put k v m) = (bt_get m)(k \<mapsto> v)" by (rule hl_get_put)
  show "bt_get (bt_remove k m) = (bt_get m)(k := None)" by (rule bt_get_remove)
  show "distinct (map fst (hl_put k v m))" using d by (simp add: hl_put_def)
  show "distinct (map fst (bt_remove k m))" using d by simp
qed

section \<open>Invariants of a step relation\<close>

text \<open>
  The contract of an invariant: it holds in the initial states and every step of the component
  keeps it. Then it holds in every reachable state.
\<close>

locale step_invariant =
  fixes init :: "'s \<Rightarrow> bool" and step :: "'s \<Rightarrow> 's \<Rightarrow> bool" and inv :: "'s \<Rightarrow> bool"
  assumes init_inv: "init s \<Longrightarrow> inv s"
    and step_inv: "inv s \<Longrightarrow> step s s' \<Longrightarrow> inv s'"
begin

lemma steps_inv: "step\<^sup>*\<^sup>* s s' \<Longrightarrow> inv s \<Longrightarrow> inv s'"
  by (induction rule: rtranclp_induct) (auto intro: step_inv)

lemma reachable_inv: "init s \<Longrightarrow> step\<^sup>*\<^sup>* s s' \<Longrightarrow> inv s'"
  by (blast intro: steps_inv init_inv)

end

section \<open>Updates by index\<close>

text \<open>\<open>for (index, x) in xs.iter().enumerate() { us[index] = f(us[index], x) }\<close>\<close>

lemma foldl_update_enumerate:
  "length us = k + length xs \<Longrightarrow>
   foldl (\<lambda>u (index, x). u[index := f (u ! index) x]) us (enumerate k xs) =
     take k us @ map2 f (drop k us) xs"
proof (induction xs arbitrary: us k)
  case Nil
  then show ?case by simp
next
  case (Cons x xs)
  have d: "drop k us = us ! k # drop (Suc k) us" and k: "k < length us"
    using Cons.prems by (auto simp: Cons_nth_drop_Suc)
  have t: "take (Suc k) (us[k := f (us ! k) x]) = take k us @ [f (us ! k) x]"
    using k by (simp add: take_Suc_conv_app_nth)
  have "length (us[k := f (us ! k) x]) = Suc k + length xs" using Cons.prems by simp
  from Cons.IH [OF this] show ?case using d t by simp
qed

lemma foldl_update_map2:
  "length us = length xs \<Longrightarrow>
   foldl (\<lambda>u (index, x). u[index := f (u ! index) x]) us (enumerate 0 xs) = map2 f us xs"
  using foldl_update_enumerate [of us 0 xs f] by simp

lemma foldl_update_length:
  "length (foldl (\<lambda>u (index, x). u[index := f (u ! index) x]) us (enumerate k xs)) = length us"
  by (induction xs arbitrary: us k) simp_all

end
