(* ===== verification/ClaimFence.thy ===== *)
theory ClaimFence
  imports Prelude
begin

text \<open>
  Coordinator leases and fencing (\<open>crates/skippy-coordinator/src/lib.rs\<close>): the claim map of a
  node, \<open>accept_claim\<close>, \<open>validate_load\<close>, the quorum size, and every state a node can reach by
  accepting and refusing claims in any order and at any time. The \<open>HashMap\<close> of claims is used
  through the \<open>keyed_map\<close> contract only.
\<close>

section \<open>Data\<close>

record coordinator_claim =
  cc_model_id :: string
  cc_package_ref :: string
  cc_manifest_sha256 :: string
  cc_topology_id :: string
  cc_run_id :: string
  cc_coordinator_id :: string
  cc_coordinator_term :: nat
  cc_participant_set_hash :: string
  cc_topology_hash :: string
  cc_lease_until_unix_ms :: nat

record load_claim_ref =
  ld_model_id :: string
  ld_package_ref :: string
  ld_manifest_sha256 :: string
  ld_topology_id :: string
  ld_run_id :: string
  ld_coordinator_id :: "string option"
  ld_coordinator_term :: nat
  ld_participant_set_hash :: string
  ld_topology_hash :: string

datatype claim_rejection =
    MissingModelId
  | MissingPackageRef
  | MissingManifestSha256
  | MissingTopologyRun
  | MissingCoordinatorId
  | MissingTerm
  | MissingHashes
  | ExpiredLease
  | StaleTerm nat nat
  | ConflictingSameTerm

datatype claim_decision =
    Accepted "nat option" coordinator_claim
  | Rejected "coordinator_claim option" claim_rejection

datatype load_rejection =
    LoadMissingTerm
  | LoadMissingCoordinatorId
  | LoadMissingClaim
  | LoadTermMismatch nat nat
  | LoadCoordinatorMismatch
  | LoadTopologyRunMismatch
  | LoadParticipantSetMismatch
  | LoadTopologyHashMismatch
  | LoadExpiredLease

record claim_key =
  ck_model_id :: string
  ck_package_ref :: string
  ck_manifest_sha256 :: string

record claim_fence =
  claims :: "claim_key \<rightharpoonup> coordinator_claim"

definition empty_fence :: claim_fence where
  "empty_fence = \<lparr>claims = (\<lambda>_. None)\<rparr>"

definition key_from_claim :: "coordinator_claim \<Rightarrow> claim_key" where
  "key_from_claim c = \<lparr>ck_model_id = cc_model_id c, ck_package_ref = cc_package_ref c,
     ck_manifest_sha256 = cc_manifest_sha256 c\<rparr>"

definition key_from_load :: "load_claim_ref \<Rightarrow> claim_key" where
  "key_from_load l = \<lparr>ck_model_id = ld_model_id l, ck_package_ref = ld_package_ref l,
     ck_manifest_sha256 = ld_manifest_sha256 l\<rparr>"

section \<open>Operations\<close>

definition quorum_requirement :: "nat \<Rightarrow> nat" where
  "quorum_requirement planned_stage_count = planned_stage_count div 2 + 1"

definition same_claim_epoch :: "coordinator_claim \<Rightarrow> coordinator_claim \<Rightarrow> bool" where
  "same_claim_epoch l r \<longleftrightarrow>
     cc_model_id l = cc_model_id r \<and> cc_package_ref l = cc_package_ref r \<and>
     cc_manifest_sha256 l = cc_manifest_sha256 r \<and> cc_topology_id l = cc_topology_id r \<and>
     cc_run_id l = cc_run_id r \<and> cc_coordinator_id l = cc_coordinator_id r \<and>
     cc_participant_set_hash l = cc_participant_set_hash r \<and>
     cc_topology_hash l = cc_topology_hash r"

definition validate_claim_shape :: "coordinator_claim \<Rightarrow> nat \<Rightarrow> claim_rejection option" where
  "validate_claim_shape c now =
     (if cc_model_id c = [] then Some MissingModelId
      else if cc_package_ref c = [] then Some MissingPackageRef
      else if cc_manifest_sha256 c = [] then Some MissingManifestSha256
      else if cc_topology_id c = [] \<or> cc_run_id c = [] then Some MissingTopologyRun
      else if cc_coordinator_id c = [] then Some MissingCoordinatorId
      else if cc_coordinator_term c = 0 then Some MissingTerm
      else if cc_participant_set_hash c = [] \<or> cc_topology_hash c = [] then Some MissingHashes
      else if cc_lease_until_unix_ms c \<le> now then Some ExpiredLease
      else None)"

definition accept_claim ::
    "claim_fence \<Rightarrow> coordinator_claim \<Rightarrow> nat \<Rightarrow> claim_decision \<times> claim_fence" where
  "accept_claim f c now =
     (case validate_claim_shape c now of
        Some reason \<Rightarrow> (Rejected None reason, f)
      | None \<Rightarrow>
          (let key = key_from_claim c;
               previous = claims f key;
               insert = f\<lparr>claims := hm_put key c (claims f)\<rparr>
           in case previous of
                Some current \<Rightarrow>
                  if cc_coordinator_term c < cc_coordinator_term current then
                    (Rejected (Some current)
                       (StaleTerm (cc_coordinator_term c) (cc_coordinator_term current)), f)
                  else if cc_coordinator_term c = cc_coordinator_term current \<and>
                          \<not> same_claim_epoch c current then
                    (Rejected (Some current) ConflictingSameTerm, f)
                  else
                    (Accepted (if cc_coordinator_term c > cc_coordinator_term current
                               then Some (cc_coordinator_term current) else None) c, insert)
              | None \<Rightarrow> (Accepted None c, insert)))"

definition validate_load :: "claim_fence \<Rightarrow> load_claim_ref \<Rightarrow> nat \<Rightarrow> load_rejection + unit" where
  "validate_load f l now =
     (if ld_coordinator_term l = 0 then Inl LoadMissingTerm
      else case ld_coordinator_id l of
        None \<Rightarrow> Inl LoadMissingCoordinatorId
      | Some coordinator_id \<Rightarrow>
          (case claims f (key_from_load l) of
             None \<Rightarrow> Inl LoadMissingClaim
           | Some c \<Rightarrow>
               if cc_coordinator_term c \<noteq> ld_coordinator_term l then
                 Inl (LoadTermMismatch (ld_coordinator_term l) (cc_coordinator_term c))
               else if cc_coordinator_id c \<noteq> coordinator_id then Inl LoadCoordinatorMismatch
               else if cc_topology_id c \<noteq> ld_topology_id l \<or> cc_run_id c \<noteq> ld_run_id l then
                 Inl LoadTopologyRunMismatch
               else if cc_participant_set_hash c \<noteq> ld_participant_set_hash l then
                 Inl LoadParticipantSetMismatch
               else if cc_topology_hash c \<noteq> ld_topology_hash l then Inl LoadTopologyHashMismatch
               else if cc_lease_until_unix_ms c < now then Inl LoadExpiredLease
               else Inr ()))"

definition current_claim_for ::
    "claim_fence \<Rightarrow> string \<Rightarrow> string \<Rightarrow> string \<Rightarrow> coordinator_claim option" where
  "current_claim_for f model package manifest =
     claims f \<lparr>ck_model_id = model, ck_package_ref = package, ck_manifest_sha256 = manifest\<rparr>"

section \<open>Facts about single steps\<close>

lemma same_claim_epoch_refl [simp]: "same_claim_epoch c c"
  by (simp add: same_claim_epoch_def)

lemma same_claim_epoch_sym: "same_claim_epoch a b \<Longrightarrow> same_claim_epoch b a"
  by (simp add: same_claim_epoch_def)

lemma same_claim_epoch_trans:
  "same_claim_epoch a b \<Longrightarrow> same_claim_epoch b c \<Longrightarrow> same_claim_epoch a c"
  by (simp add: same_claim_epoch_def)

lemma accept_claim_Accepted:
  assumes "accept_claim f c now = (Accepted s c', f')"
  shows "c' = c \<and> claims f' = (claims f)(key_from_claim c \<mapsto> c) \<and>
    validate_claim_shape c now = None \<and>
    (\<forall>cur. claims f (key_from_claim c) = Some cur \<longrightarrow>
       cc_coordinator_term cur < cc_coordinator_term c \<or>
       cc_coordinator_term cur = cc_coordinator_term c \<and> same_claim_epoch c cur)"
  using assms
  by (auto simp: accept_claim_def Let_def hm_put_def split: option.splits if_splits)

lemma accept_claim_Rejected:
  "accept_claim f c now = (Rejected r e, f') \<Longrightarrow> f' = f"
  by (auto simp: accept_claim_def Let_def split: option.splits if_splits)

section \<open>Reachable fences\<close>

text \<open>
  A node's fence with the claims it has accepted so far, newest first. Claims come in any order
  and at any time; validating a load does not change the fence.
\<close>

inductive fence_reach :: "claim_fence \<Rightarrow> coordinator_claim list \<Rightarrow> bool" where
  fence_init: "fence_reach empty_fence []"
| fence_accept: "fence_reach f h \<Longrightarrow> accept_claim f c now = (Accepted s c', f') \<Longrightarrow>
    fence_reach f' (c' # h)"
| fence_reject: "fence_reach f h \<Longrightarrow> accept_claim f c now = (Rejected r e, f') \<Longrightarrow>
    fence_reach f' h"

inductive_cases fence_reach_ConsE: "fence_reach f (c # h)"

text \<open>Every accepted claim is dominated by the stored claim of its key, which was accepted.\<close>

definition dominated :: "coordinator_claim \<Rightarrow> coordinator_claim \<Rightarrow> bool" where
  "dominated c cur \<longleftrightarrow> cc_coordinator_term c < cc_coordinator_term cur \<or>
     cc_coordinator_term c = cc_coordinator_term cur \<and> same_claim_epoch c cur"

definition fence_inv :: "claim_fence \<Rightarrow> coordinator_claim list \<Rightarrow> bool" where
  "fence_inv f h \<longleftrightarrow>
     (\<forall>k c. claims f k = Some c \<longrightarrow> key_from_claim c = k \<and> c \<in> set h \<and> cc_coordinator_term c \<noteq> 0) \<and>
     (\<forall>c \<in> set h. \<exists>cur. claims f (key_from_claim c) = Some cur \<and> dominated c cur)"

lemma fence_inv_dominated:
  "fence_inv f h \<Longrightarrow> c \<in> set h \<Longrightarrow>
   \<exists>cur. claims f (key_from_claim c) = Some cur \<and> dominated c cur"
  by (auto simp: fence_inv_def)

lemma fence_inv_stored: "fence_inv f h \<Longrightarrow> claims f k = Some c \<Longrightarrow> key_from_claim c = k \<and> c \<in> set h"
  by (auto simp: fence_inv_def)

lemma dominated_trans: "dominated a b \<Longrightarrow> dominated b c \<Longrightarrow> dominated a c"
  by (auto simp: dominated_def intro: same_claim_epoch_trans)

lemma dominated_refl [simp]: "dominated c c"
  by (simp add: dominated_def)

lemma validate_claim_shape_term: "validate_claim_shape c now = None \<Longrightarrow> cc_coordinator_term c \<noteq> 0"
  by (auto simp: validate_claim_shape_def split: if_splits)

lemma fence_inv_accept:
  assumes inv: "fence_inv f h" and step: "accept_claim f c now = (Accepted s c', f')"
  shows "fence_inv f' (c' # h)"
proof -
  note acc = accept_claim_Accepted [OF step]
  have cl: "claims f' = (claims f)(key_from_claim c \<mapsto> c)" and c': "c' = c" using acc by auto
  have dom: "dominated cur c" if "claims f (key_from_claim c) = Some cur" for cur
    using that acc by (auto simp: dominated_def intro: same_claim_epoch_sym)
  have "\<exists>cur. claims f' (key_from_claim d) = Some cur \<and> dominated d cur"
    if d: "d \<in> set (c # h)" for d
  proof (cases "key_from_claim d = key_from_claim c")
    case True
    have "dominated d c"
    proof (cases "d = c")
      case False
      then obtain cur where "claims f (key_from_claim d) = Some cur" "dominated d cur"
        using d fence_inv_dominated [OF inv, of d] by auto
      then show ?thesis using True dom dominated_trans by metis
    qed simp
    then show ?thesis using True cl by simp
  next
    case False
    then show ?thesis using d fence_inv_dominated [OF inv, of d] cl by auto
  qed
  moreover have "key_from_claim d = k \<and> d \<in> set (c # h) \<and> cc_coordinator_term d \<noteq> 0"
    if "claims f' k = Some d" for k d
    using that inv cl acc validate_claim_shape_term unfolding fence_inv_def
    by (auto split: if_splits)
  ultimately show ?thesis unfolding fence_inv_def c' by blast
qed

lemma fence_reach_inv: "fence_reach f h \<Longrightarrow> fence_inv f h"
proof (induction rule: fence_reach.induct)
  case fence_init
  show ?case by (simp add: fence_inv_def empty_fence_def)
next
  case (fence_accept f h c now s c' f')
  then show ?case by (blast intro: fence_inv_accept)
next
  case (fence_reject f h c now r e f')
  then show ?case using accept_claim_Rejected by blast
qed

section \<open>Properties\<close>

text \<open>
  (C4) No split brain: of all the claims a node ever accepts for one model package, in any order
  of arrival, two that carry the same term belong to the same epoch (same topology, run,
  coordinator, participants and topology hash).
\<close>
theorem accepted_claims_agree_per_term:
  assumes "fence_reach f h" and "a \<in> set h" and "b \<in> set h"
    and "key_from_claim a = key_from_claim b"
    and "cc_coordinator_term a = cc_coordinator_term b"
  shows "same_claim_epoch a b"
  using assms
proof (induction rule: fence_reach.induct)
  case fence_init
  then show ?case by simp
next
  case (fence_accept f h c now s c' f')
  have new: "same_claim_epoch d c"
    if d: "d \<in> set h" "key_from_claim d = key_from_claim c"
      "cc_coordinator_term d = cc_coordinator_term c" for d
  proof -
    obtain cur where cur: "claims f (key_from_claim c) = Some cur" "dominated d cur"
      using fence_inv_dominated [OF fence_reach_inv [OF fence_accept.hyps(1)] d(1)] d(2) by auto
    then have "cc_coordinator_term cur = cc_coordinator_term c" "same_claim_epoch c cur"
      using accept_claim_Accepted [OF fence_accept.hyps(2)] d(3) by (auto simp: dominated_def)
    then have "same_claim_epoch d cur" using cur(2) d(3) by (auto simp: dominated_def)
    then show ?thesis using \<open>same_claim_epoch c cur\<close>
      by (blast intro: same_claim_epoch_sym same_claim_epoch_trans)
  qed
  have "c' = c" using accept_claim_Accepted [OF fence_accept.hyps(2)] by simp
  then consider "a = c" "b = c" | "a = c" "b \<in> set h" | "a \<in> set h" "b = c"
    | "a \<in> set h" "b \<in> set h"
    using fence_accept.prems by auto
  then show ?case
  proof cases
    case 2
    then show ?thesis using new [of b] fence_accept.prems same_claim_epoch_sym by auto
  next
    case 3
    then show ?thesis using new [of a] fence_accept.prems by auto
  next
    case 4
    then show ?thesis using fence_accept by blast
  qed simp
next
  case (fence_reject f h c now r e f')
  then show ?case by simp
qed

definition demo_claim :: "nat \<Rightarrow> nat \<Rightarrow> coordinator_claim" where
  "demo_claim t lease = \<lparr>cc_model_id = ''m'', cc_package_ref = ''p'', cc_manifest_sha256 = ''s'',
     cc_topology_id = ''t'', cc_run_id = ''r'', cc_coordinator_id = ''a'', cc_coordinator_term = t,
     cc_participant_set_hash = ''h'', cc_topology_hash = ''g'', cc_lease_until_unix_ms = lease\<rparr>"

definition demo_load :: "nat \<Rightarrow> load_claim_ref" where
  "demo_load t = \<lparr>ld_model_id = ''m'', ld_package_ref = ''p'', ld_manifest_sha256 = ''s'',
     ld_topology_id = ''t'', ld_run_id = ''r'', ld_coordinator_id = Some ''a'',
     ld_coordinator_term = t, ld_participant_set_hash = ''h'', ld_topology_hash = ''g''\<rparr>"

definition demo_fence :: "claim_fence" where
  "demo_fence = \<lparr>claims = [key_from_claim (demo_claim 2 9) \<mapsto> demo_claim 2 9]\<rparr>"

lemmas demo_defs = demo_claim_def demo_load_def demo_fence_def accept_claim_def
  validate_claim_shape_def empty_fence_def key_from_claim_def key_from_load_def hm_put_def
  same_claim_epoch_def validate_load_def Let_def

lemma demo_reach: "fence_reach demo_fence [demo_claim 2 9, demo_claim 2 8, demo_claim 1 7]"
proof -
  let ?f = "\<lambda>c. \<lparr>claims = [key_from_claim c \<mapsto> c]\<rparr>"
  have "fence_reach (?f (demo_claim 1 7)) [demo_claim 1 7]"
    by (rule fence_accept [OF fence_init, where c = "demo_claim 1 7" and now = 0 and s = None])
      (simp add: demo_defs)
  then have "fence_reach (?f (demo_claim 2 8)) [demo_claim 2 8, demo_claim 1 7]"
    by (rule fence_accept [where c = "demo_claim 2 8" and now = 0 and s = "Some 1"])
      (simp add: demo_defs)
  then have "fence_reach (?f (demo_claim 2 9)) [demo_claim 2 9, demo_claim 2 8, demo_claim 1 7]"
    by (rule fence_accept [where c = "demo_claim 2 9" and now = 0 and s = None])
      (simp add: demo_defs)
  then show ?thesis by (simp add: demo_fence_def)
qed

lemma accepted_claims_agree_per_term_witness: "same_claim_epoch (demo_claim 2 9) (demo_claim 2 8)"
  by (rule accepted_claims_agree_per_term [OF demo_reach]) (simp_all add: demo_defs)

text \<open>
  (C5) Fencing: once a claim was accepted, no load under a smaller term for the same package is
  valid any more, at any time and in any later state.
\<close>
theorem superseded_loads_are_fenced:
  assumes "fence_reach f h" and "c \<in> set h" and "key_from_load l = key_from_claim c"
    and "ld_coordinator_term l < cc_coordinator_term c"
  shows "validate_load f l now \<noteq> Inr ()"
proof -
  obtain cur where "claims f (key_from_load l) = Some cur" "dominated c cur"
    using fence_inv_dominated [OF fence_reach_inv [OF assms(1)] assms(2)] assms(3) by auto
  then show ?thesis using assms(4)
    by (auto simp: validate_load_def dominated_def split: option.splits)
qed

lemma superseded_loads_are_fenced_witness: "validate_load demo_fence (demo_load 1) 0 \<noteq> Inr ()"
  by (rule superseded_loads_are_fenced [OF demo_reach, where c = "demo_claim 2 8"])
    (simp_all add: demo_defs)

text \<open>
  A load is valid exactly when it names a non-zero term, a coordinator and the topology, run
  and hashes of the stored claim, whose lease has not passed; that claim is then one the node
  accepted, and none it ever accepted for the package has a larger term.
\<close>
theorem valid_load_iff_current_claim:
  assumes "fence_reach f h"
  shows "validate_load f l now = Inr () \<longleftrightarrow>
    ld_coordinator_term l \<noteq> 0 \<and>
    (\<exists>c. claims f (key_from_load l) = Some c \<and> c \<in> set h \<and>
       cc_coordinator_term c = ld_coordinator_term l \<and> ld_coordinator_id l = Some (cc_coordinator_id c) \<and>
       cc_topology_id c = ld_topology_id l \<and> cc_run_id c = ld_run_id l \<and>
       cc_participant_set_hash c = ld_participant_set_hash l \<and>
       cc_topology_hash c = ld_topology_hash l \<and> now \<le> cc_lease_until_unix_ms c \<and>
       (\<forall>d. d \<in> set h \<and> key_from_claim d = key_from_load l \<longrightarrow>
          cc_coordinator_term d \<le> cc_coordinator_term c))"
    (is "?ok \<longleftrightarrow> ?spec")
proof
  assume ok: ?ok
  then obtain c where c: "claims f (key_from_load l) = Some c"
    by (auto simp: validate_load_def split: option.splits if_splits)
  have inv: "fence_inv f h" by (rule fence_reach_inv [OF assms])
  have "c \<in> set h" using fence_inv_stored [OF inv c] by simp
  moreover have "\<forall>d. d \<in> set h \<and> key_from_claim d = key_from_load l \<longrightarrow>
      cc_coordinator_term d \<le> cc_coordinator_term c"
    using fence_inv_dominated [OF inv] c by (fastforce simp: dominated_def)
  ultimately show ?spec using ok c
    by (auto simp: validate_load_def split: option.splits if_splits)
next
  assume ?spec
  then show ?ok by (auto simp: validate_load_def)
qed

text \<open>
  Two quorums of the planned stages always share a stage: \<open>quorum_requirement\<close> is a strict
  majority.
\<close>
theorem quorums_intersect:
  assumes "A \<subseteq> {..<n}" and "B \<subseteq> {..<n}"
    and "quorum_requirement n \<le> card A" and "quorum_requirement n \<le> card B"
  shows "A \<inter> B \<noteq> {}"
proof
  assume "A \<inter> B = {}"
  then have "card (A \<union> B) = card A + card B"
    using assms(1,2) by (simp add: card_Un_disjoint finite_subset [OF _ finite_lessThan])
  moreover have "card (A \<union> B) \<le> n"
    using assms(1,2) card_mono [of "{..<n}" "A \<union> B"] by simp
  ultimately show False using assms(3,4) by (simp add: quorum_requirement_def)
qed

end
