(* ===== verification/SchedConfig.thy ===== *)
theory SchedConfig
  imports Prelude
begin

text \<open>
  Memory components and the scheduler's configuration
  (\<open>crates/skippy-scheduler/src/config.rs\<close>).
\<close>

definition LLAMA_MAX_SEQ :: nat where
  "LLAMA_MAX_SEQ = 256"

record memory_component =
  mc_name :: string
  mc_capacity_bytes :: nat
  mc_resident_bytes :: nat
  mc_bytes_per_token :: nat
  mc_bytes_per_sequence :: nat

definition available_bytes :: "memory_component \<Rightarrow> nat" where
  "available_bytes m = sat_sub (mc_capacity_bytes m) (mc_resident_bytes m)"

definition request_bytes :: "memory_component \<Rightarrow> nat \<Rightarrow> nat \<Rightarrow> nat" where
  "request_bytes m prompt_tokens max_tokens =
     (let token_count = sat_add prompt_tokens max_tokens
      in sat_add (mc_bytes_per_sequence m) (sat_mul (mc_bytes_per_token m) token_count))"

definition reservation_bytes :: "memory_component \<Rightarrow> nat \<Rightarrow> nat" where
  "reservation_bytes m admission_tokens =
     sat_add (mc_bytes_per_sequence m) (sat_mul (mc_bytes_per_token m) admission_tokens)"

record scheduler_config =
  max_active_sequences :: nat
  reserved_sequence_ids :: nat
  max_waiting_sequences :: nat
  max_tokens_per_iteration :: nat
  prefill_chunk_tokens :: nat
  max_prefill_sequences_per_iteration :: nat
  max_consecutive_prefill_iterations :: nat
  mixed_prefill_decode :: bool
  cache_aging_cost_per_iteration :: nat
  group_waiting_prefixes :: bool
  iteration_interval_ns :: nat
  memory_components :: "memory_component list"

definition normalized :: "scheduler_config \<Rightarrow> scheduler_config" where
  "normalized c =
     (let sequence_ceiling = sat_sub LLAMA_MAX_SEQ (reserved_sequence_ids c);
          tokens = max (max_tokens_per_iteration c) 1
      in c\<lparr>max_active_sequences := clamp (max_active_sequences c) 1 (max sequence_ceiling 1),
           max_waiting_sequences := max (max_waiting_sequences c) 1,
           max_tokens_per_iteration := tokens,
           prefill_chunk_tokens := clamp (prefill_chunk_tokens c) 1 tokens,
           max_prefill_sequences_per_iteration := max (max_prefill_sequences_per_iteration c) 1,
           max_consecutive_prefill_iterations := max (max_consecutive_prefill_iterations c) 1,
           cache_aging_cost_per_iteration := max (cache_aging_cost_per_iteration c) 1\<rparr>)"

definition default_config :: scheduler_config where
  "default_config = normalized \<lparr>max_active_sequences = 32, reserved_sequence_ids = 16,
     max_waiting_sequences = 256, max_tokens_per_iteration = 2048, prefill_chunk_tokens = 256,
     max_prefill_sequences_per_iteration = USIZE_MAX,
     max_consecutive_prefill_iterations = USIZE_MAX, mixed_prefill_decode = False,
     cache_aging_cost_per_iteration = 4096, group_waiting_prefixes = True,
     iteration_interval_ns = 2000000, memory_components = []\<rparr>"

text \<open>What \<open>normalized\<close> establishes and every later use relies on.\<close>

definition config_ok :: "scheduler_config \<Rightarrow> bool" where
  "config_ok c \<longleftrightarrow> 1 \<le> max_active_sequences c \<and>
     max_active_sequences c \<le> max 1 (LLAMA_MAX_SEQ - reserved_sequence_ids c) \<and>
     1 \<le> max_waiting_sequences c \<and> 1 \<le> max_tokens_per_iteration c \<and>
     1 \<le> prefill_chunk_tokens c \<and> prefill_chunk_tokens c \<le> max_tokens_per_iteration c \<and>
     1 \<le> max_prefill_sequences_per_iteration c \<and> 1 \<le> max_consecutive_prefill_iterations c \<and>
     1 \<le> cache_aging_cost_per_iteration c"

lemma normalized_config_ok: "config_ok (normalized c)"
  by (auto simp: normalized_def config_ok_def Let_def clamp_def)

lemma clamp_id: "lo \<le> x \<Longrightarrow> x \<le> hi \<Longrightarrow> clamp x lo hi = x"
  by (simp add: clamp_def)

lemma normalized_fixpoint: "config_ok c \<Longrightarrow> normalized c = c"
  by (simp add: normalized_def config_ok_def Let_def clamp_id max.commute max_absorb2)

lemma reservation_mono: "a \<le> b \<Longrightarrow> reservation_bytes m a \<le> reservation_bytes m b"
  by (simp add: reservation_bytes_def sat_add_mono sat_mul_mono)

lemma reservation_le_max: "reservation_bytes m a \<le> U64_MAX"
  by (simp add: reservation_bytes_def)

end
