(* ===== verification/Capacity.thy ===== *)
theory Capacity
  imports Prelude
begin

text \<open>
  Capacity-aware admission and eviction (\<open>crates/skippy-scheduler/src/capacity.rs\<close>): one plan
  per memory component, the greedy eviction loop, and the order of the eviction candidates.
\<close>

section \<open>Data and operations\<close>

record evictable_cache_entry =
  ev_id :: string
  ev_units :: nat
  ev_recompute_cost :: nat
  ev_last_used :: nat

record component_capacity_snapshot =
  cs_component :: string
  cs_capacity_units :: nat
  cs_active_units :: nat
  cs_pinned_cache_units :: nat
  cs_evictable_entries :: "evictable_cache_entry list"

record capacity_demand =
  cd_request_units :: nat
  cd_minimum_free_units :: nat
  cd_target_free_units :: nat

record capacity_plan =
  cp_component :: string
  cp_admitted :: bool
  cp_victim_ids :: "string list"
  cp_required_eviction_units :: nat
  cp_evicted_units :: nat
  cp_predicted_recompute_cost :: nat
  cp_projected_free_units :: nat
  cp_admission_deficit_units :: nat

definition compare_eviction_value ::
    "evictable_cache_entry \<Rightarrow> evictable_cache_entry \<Rightarrow> ordering" where
  "compare_eviction_value l r =
     (let left_units = max (ev_units l) 1; right_units = max (ev_units r) 1
      in then_with (cmp (sat_mul128 (ev_recompute_cost l) right_units)
                        (sat_mul128 (ev_recompute_cost r) left_units))
        (then_with (cmp (ev_last_used l) (ev_last_used r))
          (then_with (cmp (ev_recompute_cost l) (ev_recompute_cost r))
            (cmp (ev_id l) (ev_id r)))))"

definition rank_eviction_candidates ::
    "evictable_cache_entry list \<Rightarrow> evictable_cache_entry list" where
  "rank_eviction_candidates entries = sort_by compare_eviction_value entries"

text \<open>The \<open>for entry in candidates\<close> loop, with its three accumulators.\<close>

fun evict_loop :: "nat \<Rightarrow> evictable_cache_entry list \<Rightarrow> string list \<Rightarrow> nat \<Rightarrow> nat \<Rightarrow>
    string list \<times> nat \<times> nat" where
  "evict_loop target [] victims evicted cost = (victims, evicted, cost)"
| "evict_loop target (e # es) victims evicted cost =
     (if target \<le> evicted then (victims, evicted, cost)
      else if ev_units e = 0 then evict_loop target es victims evicted cost
      else evict_loop target es (victims @ [ev_id e]) (sat_add evicted (ev_units e))
             (sat_add cost (ev_recompute_cost e)))"

definition protected_units :: "component_capacity_snapshot \<Rightarrow> capacity_demand \<Rightarrow> nat" where
  "protected_units s d =
     sat_add (sat_add (cs_active_units s) (cs_pinned_cache_units s)) (cd_request_units d)"

definition minimum_free :: "component_capacity_snapshot \<Rightarrow> capacity_demand \<Rightarrow> nat" where
  "minimum_free s d =
     (if cs_capacity_units s \<le> cd_minimum_free_units d
      then sat_sub (cs_capacity_units s) (protected_units s d)
      else cd_minimum_free_units d)"

definition target_free :: "component_capacity_snapshot \<Rightarrow> capacity_demand \<Rightarrow> nat" where
  "target_free s d =
     min (max (if cs_capacity_units s \<le> cd_target_free_units d
               then sat_sub (cs_capacity_units s) (protected_units s d)
               else cd_target_free_units d) (minimum_free s d)) (cs_capacity_units s)"

definition plan_component_capacity ::
    "component_capacity_snapshot \<Rightarrow> capacity_demand \<Rightarrow> capacity_plan" where
  "plan_component_capacity s d =
     (let protected = protected_units s d;
          capacity = cs_capacity_units s;
          protected_with_minimum = sat_add protected (minimum_free s d)
      in if capacity < protected_with_minimum then
           \<lparr>cp_component = cs_component s, cp_admitted = False, cp_victim_ids = [],
            cp_required_eviction_units = 0, cp_evicted_units = 0,
            cp_predicted_recompute_cost = 0,
            cp_projected_free_units = sat_sub capacity protected,
            cp_admission_deficit_units = sat_sub protected_with_minimum capacity\<rparr>
         else
           (let evictable_units = sat_sum (map ev_units (cs_evictable_entries s));
                projected_occupancy = sat_add protected evictable_units;
                eviction_target =
                  sat_sub (sat_add projected_occupancy (target_free s d)) capacity;
                (victims, evicted, cost) =
                  evict_loop eviction_target
                    (sort_by compare_eviction_value (cs_evictable_entries s)) [] 0 0
            in \<lparr>cp_component = cs_component s, cp_admitted = True, cp_victim_ids = victims,
                cp_required_eviction_units = eviction_target, cp_evicted_units = evicted,
                cp_predicted_recompute_cost = cost,
                cp_projected_free_units =
                  sat_sub capacity (sat_sub projected_occupancy evicted),
                cp_admission_deficit_units = 0\<rparr>))"

section \<open>The eviction order is a total preorder\<close>

text \<open>Units and costs of a \<open>u64\<close>: the cross products fit \<open>u128\<close>.\<close>

definition entry_ok :: "evictable_cache_entry \<Rightarrow> bool" where
  "entry_ok e \<longleftrightarrow> ev_units e \<le> U64_MAX \<and> ev_recompute_cost e \<le> U64_MAX"

lemma sat_mul128_exact: "a \<le> U64_MAX \<Longrightarrow> b \<le> U64_MAX \<Longrightarrow> sat_mul128 a b = a * b"
proof -
  assume "a \<le> U64_MAX" "b \<le> U64_MAX"
  then have "a * b \<le> U64_MAX * U64_MAX" by (rule mult_le_mono)
  also have "\<dots> \<le> U128_MAX" by simp
  finally show ?thesis by (simp add: sat_mul128_def)
qed

lemma cross_trans:
  fixes a b c :: nat
  assumes "a * ub \<le> b * ua" and "b * uc \<le> c * ub" and "0 < ub"
  shows "a * uc \<le> c * ua"
proof -
  have "(a * uc) * ub = (a * ub) * uc" by simp
  also have "\<dots> \<le> (b * ua) * uc" using assms(1) by (rule mult_le_mono1)
  also have "\<dots> = (b * uc) * ua" by simp
  also have "\<dots> \<le> (c * ub) * ua" using assms(2) by (rule mult_le_mono1)
  also have "\<dots> = (c * ua) * ub" by simp
  finally show ?thesis using assms(3) by simp
qed

lemma comparator_density:
  "comparator (\<lambda>l r. cmp (sat_mul128 (ev_recompute_cost l) (max (ev_units r) 1))
      (sat_mul128 (ev_recompute_cost r) (max (ev_units l) 1))) {e. entry_ok e}"
proof
  fix x y z assume "x \<in> {e. entry_ok e}" "y \<in> {e. entry_ok e}" "z \<in> {e. entry_ok e}"
    and "cmp (sat_mul128 (ev_recompute_cost x) (max (ev_units y) 1))
          (sat_mul128 (ev_recompute_cost y) (max (ev_units x) 1)) \<noteq> Greater"
    and "cmp (sat_mul128 (ev_recompute_cost y) (max (ev_units z) 1))
          (sat_mul128 (ev_recompute_cost z) (max (ev_units y) 1)) \<noteq> Greater"
  then show "cmp (sat_mul128 (ev_recompute_cost x) (max (ev_units z) 1))
          (sat_mul128 (ev_recompute_cost z) (max (ev_units x) 1)) \<noteq> Greater"
    by (simp add: entry_ok_def sat_mul128_exact not_less)
      (rule cross_trans [where ub = "max (ev_units y) 1"]; simp)
qed (rule cmp_rev)

interpretation eviction: comparator compare_eviction_value "{e. entry_ok e}"
  unfolding compare_eviction_value_def Let_def
  by (intro comparator_then_with comparator_cmp_key comparator_density)

section \<open>The eviction loop\<close>

text \<open>
  The loop takes the shortest prefix of the non-empty candidates whose units reach the target, or
  all of them.
\<close>

definition nonempty_entries :: "evictable_cache_entry list \<Rightarrow> evictable_cache_entry list" where
  "nonempty_entries es = filter (\<lambda>e. ev_units e \<noteq> 0) es"

definition evict_prefix :: "nat \<Rightarrow> nat \<Rightarrow> evictable_cache_entry list \<Rightarrow> nat \<Rightarrow> bool" where
  "evict_prefix target evicted0 nz k \<longleftrightarrow> k \<le> length nz \<and>
     (target \<le> min U64_MAX (evicted0 + sum_list (map ev_units (take k nz))) \<or> k = length nz) \<and>
     (\<forall>j < k. min U64_MAX (evicted0 + sum_list (map ev_units (take j nz))) < target)"

lemma evict_loop_prefix:
  assumes "evicted0 \<le> U64_MAX" "cost0 \<le> U64_MAX"
  shows "\<exists>k. evict_prefix target evicted0 (nonempty_entries es) k \<and>
    evict_loop target es victims evicted0 cost0 =
      (victims @ map ev_id (take k (nonempty_entries es)),
       min U64_MAX (evicted0 + sum_list (map ev_units (take k (nonempty_entries es)))),
       min U64_MAX (cost0 + sum_list (map ev_recompute_cost (take k (nonempty_entries es)))))"
  using assms
proof (induction target es victims evicted0 cost0 rule: evict_loop.induct)
  case (1 target victims evicted cost)
  then show ?case by (simp add: nonempty_entries_def evict_prefix_def)
next
  case (2 target e es victims evicted cost)
  show ?case
  proof (cases "target \<le> evicted \<or> ev_units e = 0")
    case True
    then show ?thesis
    proof (cases "target \<le> evicted")
      case True
      then show ?thesis using "2.prems"
        by (intro exI [of _ 0]) (simp add: evict_prefix_def)
    next
      case False
      with True show ?thesis using "2.IH"(1) "2.prems"
        by (simp add: nonempty_entries_def)
    qed
  next
    case False
    then have go: "\<not> target \<le> evicted" "ev_units e \<noteq> 0" by auto
    let ?ev = "sat_add evicted (ev_units e)" and ?co = "sat_add cost (ev_recompute_cost e)"
    let ?nz = "nonempty_entries es"
    obtain k where k: "evict_prefix target ?ev ?nz k"
      and run: "evict_loop target es (victims @ [ev_id e]) ?ev ?co =
        (victims @ [ev_id e] @ map ev_id (take k ?nz),
         min U64_MAX (?ev + sum_list (map ev_units (take k ?nz))),
         min U64_MAX (?co + sum_list (map ev_recompute_cost (take k ?nz))))"
      using "2.IH"(2) [OF go] by auto
    have nz: "nonempty_entries (e # es) = e # ?nz" using go by (simp add: nonempty_entries_def)
    have sat: "min U64_MAX (sat_add a b + c) = min U64_MAX (a + (b + c))" for a b c
      by (simp add: sat_add_def min_def)
    have "evict_prefix target evicted (e # ?nz) (Suc k)"
      using k go "2.prems" unfolding evict_prefix_def sat
      by (auto simp: less_Suc_eq_0_disj)
    then show ?thesis using run go unfolding nz sat
      by (intro exI [of _ "Suc k"]) simp
  qed
qed

lemma sum_list_nonempty_entries:
  "sum_list (map ev_units (nonempty_entries es)) = sum_list (map ev_units es)"
  by (induction es) (auto simp: nonempty_entries_def)

lemma sum_list_sort_by: "sum_list (map f (sort_by c xs)) = sum_list (map f xs)" for f :: "'a \<Rightarrow> nat"
  by (metis mset_map mset_sort_by sum_mset_sum_list)

lemma sum_list_take_le: "sum_list (map f (take k xs)) \<le> sum_list (map f xs)" for f :: "'a \<Rightarrow> nat"
  by (metis append_take_drop_id le_add1 map_append sum_list_append)

text \<open>The plan of an admitted request, in terms of the prefix that was evicted.\<close>

lemma admitted_plan:
  assumes "cp_admitted (plan_component_capacity s d)"
  defines "nz \<equiv> nonempty_entries (sort_by compare_eviction_value (cs_evictable_entries s))"
    and "plan \<equiv> plan_component_capacity s d"
  shows "\<exists>k. evict_prefix (cp_required_eviction_units plan) 0 nz k \<and>
    cp_victim_ids plan = map ev_id (take k nz) \<and>
    cp_evicted_units plan = min U64_MAX (sum_list (map ev_units (take k nz))) \<and>
    cp_required_eviction_units plan =
      sat_add (sat_add (protected_units s d) (sat_sum (map ev_units (cs_evictable_entries s))))
        (target_free s d) - cs_capacity_units s \<and>
    cp_projected_free_units plan = cs_capacity_units s -
      (sat_add (protected_units s d) (sat_sum (map ev_units (cs_evictable_entries s))) -
       cp_evicted_units plan) \<and>
    sat_add (protected_units s d) (minimum_free s d) \<le> cs_capacity_units s"
proof -
  let ?t = "sat_add (sat_add (protected_units s d)
    (sat_sum (map ev_units (cs_evictable_entries s)))) (target_free s d) - cs_capacity_units s"
  have fit: "sat_add (protected_units s d) (minimum_free s d) \<le> cs_capacity_units s"
    using assms(1) by (simp add: plan_component_capacity_def Let_def not_less split: if_splits)
  obtain k where k: "evict_prefix ?t 0 nz k"
    and run: "evict_loop ?t (sort_by compare_eviction_value (cs_evictable_entries s)) [] 0 0 =
      (map ev_id (take k nz), min U64_MAX (sum_list (map ev_units (take k nz))),
       min U64_MAX (sum_list (map ev_recompute_cost (take k nz))))"
    using evict_loop_prefix [of 0 0 ?t "sort_by compare_eviction_value (cs_evictable_entries s)" "[]"]
    unfolding nz_def by auto
  show ?thesis using k fit run
    by (intro exI [of _ k]) (simp add: plan_def plan_component_capacity_def Let_def)
qed

section \<open>Properties\<close>

text \<open>
  (C16) Admission is exact: a component that does not use the whole \<open>u64\<close> range admits a request
  if and only if active, pinned and requested units fit together with the minimum watermark; a
  watermark that fills or exceeds the pool asks only that the request itself fits. Evictable cache
  never blocks a request.
\<close>
theorem capacity_admission_exact:
  assumes "cs_capacity_units s < U64_MAX"
  shows "cp_admitted (plan_component_capacity s d) \<longleftrightarrow>
    (if cs_capacity_units s \<le> cd_minimum_free_units d
     then cs_active_units s + cs_pinned_cache_units s + cd_request_units d \<le> cs_capacity_units s
     else cs_active_units s + cs_pinned_cache_units s + cd_request_units d +
          cd_minimum_free_units d \<le> cs_capacity_units s)"
proof -
  have "cp_admitted (plan_component_capacity s d) \<longleftrightarrow>
      sat_add (protected_units s d) (minimum_free s d) \<le> cs_capacity_units s"
    by (simp add: plan_component_capacity_def Let_def not_less split: prod.splits)
  then show ?thesis using assms
    by (auto simp: minimum_free_def protected_units_def sat_add_def min_def)
qed

definition demo_snapshot :: component_capacity_snapshot where
  "demo_snapshot = \<lparr>cs_component = ''kv'', cs_capacity_units = 100, cs_active_units = 30,
     cs_pinned_cache_units = 0, cs_evictable_entries =
       [\<lparr>ev_id = ''old'', ev_units = 30, ev_recompute_cost = 300, ev_last_used = 1\<rparr>,
        \<lparr>ev_id = ''new'', ev_units = 30, ev_recompute_cost = 30, ev_last_used = 2\<rparr>]\<rparr>"

definition demo_demand :: capacity_demand where
  "demo_demand = \<lparr>cd_request_units = 20, cd_minimum_free_units = 10, cd_target_free_units = 20\<rparr>"

lemmas demo_capacity_simps = demo_snapshot_def demo_demand_def protected_units_def minimum_free_def
  target_free_def sat_add_def sat_sum_def compare_eviction_value_def Let_def sat_mul128_def sort_by_def
  cmp_def nonempty_entries_def

lemma capacity_admission_exact_witness: "cp_admitted (plan_component_capacity demo_snapshot demo_demand)"
  by (subst capacity_admission_exact) (simp_all add: demo_capacity_simps)

text \<open>
  After the planned evictions an admitted request leaves at least the minimum free, and it
  leaves the target free unless every releasable entry is already a victim.
\<close>
theorem capacity_watermarks_met:
  assumes "cp_admitted (plan_component_capacity s d)" and "cs_capacity_units s < U64_MAX"
    and "cs_active_units s + cs_pinned_cache_units s + cd_request_units d +
      sum_list (map ev_units (cs_evictable_entries s)) + cs_capacity_units s \<le> U64_MAX"
  shows "minimum_free s d \<le> cp_projected_free_units (plan_component_capacity s d) \<and>
    (target_free s d \<le> cp_projected_free_units (plan_component_capacity s d) \<or>
     mset (cp_victim_ids (plan_component_capacity s d)) =
       mset (map ev_id (nonempty_entries (cs_evictable_entries s))))"
proof -
  let ?nz = "nonempty_entries (sort_by compare_eviction_value (cs_evictable_entries s))"
  let ?plan = "plan_component_capacity s d"
  let ?p = "cs_active_units s + cs_pinned_cache_units s + cd_request_units d"
  let ?E = "sum_list (map ev_units (cs_evictable_entries s))"
  obtain k where k: "evict_prefix (cp_required_eviction_units ?plan) 0 ?nz k"
    and ids: "cp_victim_ids ?plan = map ev_id (take k ?nz)"
    and ev: "cp_evicted_units ?plan = min U64_MAX (sum_list (map ev_units (take k ?nz)))"
    and req: "cp_required_eviction_units ?plan =
      sat_add (sat_add (protected_units s d) (sat_sum (map ev_units (cs_evictable_entries s))))
        (target_free s d) - cs_capacity_units s"
    and free: "cp_projected_free_units ?plan = cs_capacity_units s -
      (sat_add (protected_units s d) (sat_sum (map ev_units (cs_evictable_entries s))) -
       cp_evicted_units ?plan)"
    and fit: "sat_add (protected_units s d) (minimum_free s d) \<le> cs_capacity_units s"
    using admitted_plan [OF assms(1)] by blast
  have nzE: "sum_list (map ev_units ?nz) = ?E"
    by (simp add: sum_list_nonempty_entries sum_list_sort_by)
  have prot: "protected_units s d = ?p" "sat_sum (map ev_units (cs_evictable_entries s)) = ?E"
    "sat_add ?p ?E = ?p + ?E"
    using assms(3) by (simp_all add: protected_units_def sat_add_def sat_sum_eq)
  have tle: "target_free s d \<le> cs_capacity_units s" by (simp add: target_free_def)
  have occ: "sat_add (?p + ?E) (target_free s d) = ?p + ?E + target_free s d"
    using assms(3) tle by (simp add: sat_add_def)
  have fit': "?p + minimum_free s d \<le> cs_capacity_units s"
    using fit assms(2) unfolding prot by (simp add: sat_add_def min_def split: if_splits)
  then have mt: "minimum_free s d \<le> target_free s d" by (simp add: target_free_def)
  have part: "sum_list (map ev_units (take k ?nz)) \<le> ?E" using sum_list_take_le nzE by metis
  then have ev': "cp_evicted_units ?plan = sum_list (map ev_units (take k ?nz))"
    using ev assms(3) by simp
  have all: "mset (map ev_id ?nz) = mset (map ev_id (nonempty_entries (cs_evictable_entries s)))"
    by (simp add: nonempty_entries_def)
  show ?thesis
  proof (cases "k = length ?nz")
    case True
    then have "cp_evicted_units ?plan = ?E" using ev' nzE by simp
    then have "minimum_free s d \<le> cp_projected_free_units ?plan"
      using free fit' unfolding prot by simp
    then show ?thesis using ids all True by simp
  next
    case False
    then have "cp_required_eviction_units ?plan \<le> cp_evicted_units ?plan"
      using k ev by (simp add: evict_prefix_def)
    then have "target_free s d \<le> cp_projected_free_units ?plan"
      using free req tle unfolding prot occ by linarith
    then show ?thesis using mt by linarith
  qed
qed

text \<open>
  The victims are the cheapest releasable entries and none is superfluous: they form a prefix
  of the non-empty entries in eviction order, no entry that stays compares as cheaper than a victim
  (recompute cost per unit, then recency, cost and id), and without the last victim the required
  units would not be reached.
\<close>
theorem eviction_greedy_and_minimal:
  assumes "cp_admitted (plan_component_capacity s d)"
    and "list_all entry_ok (cs_evictable_entries s)"
  shows "\<exists>(victims :: evictable_cache_entry list) kept. cp_victim_ids (plan_component_capacity s d) = map ev_id victims \<and>
    mset (victims @ kept) = mset (nonempty_entries (cs_evictable_entries s)) \<and>
    list_all (\<lambda>v. list_all (\<lambda>w. compare_eviction_value v w \<noteq> Greater) kept) victims \<and>
    (victims = [] \<or> sum_list (map ev_units (butlast victims))
       < cp_required_eviction_units (plan_component_capacity s d))"
proof -
  let ?sorted = "sort_by compare_eviction_value (cs_evictable_entries s)"
  let ?nz = "nonempty_entries ?sorted"
  let ?req = "cp_required_eviction_units (plan_component_capacity s d)"
  obtain k where k: "evict_prefix ?req 0 ?nz k"
    and ids: "cp_victim_ids (plan_component_capacity s d) = map ev_id (take k ?nz)"
    and req: "?req = sat_add (sat_add (protected_units s d)
        (sat_sum (map ev_units (cs_evictable_entries s)))) (target_free s d) - cs_capacity_units s"
    using admitted_plan [OF assms(1)] by blast
  have "set (cs_evictable_entries s) \<subseteq> {e. entry_ok e}"
    using assms(2) by (auto simp: list_all_iff)
  then have "sorted_wrt (\<lambda>v w. compare_eviction_value v w \<noteq> Greater) ?nz"
    using eviction.sorted_sort_by by (simp add: nonempty_entries_def sorted_wrt_filter)
  then have "sorted_wrt (\<lambda>v w. compare_eviction_value v w \<noteq> Greater) (take k ?nz @ drop k ?nz)"
    by simp
  then have cheap: "list_all (\<lambda>v. list_all (\<lambda>w. compare_eviction_value v w \<noteq> Greater) (drop k ?nz))
      (take k ?nz)"
    unfolding sorted_wrt_append by (simp add: list_all_iff)
  have "mset (take k ?nz @ drop k ?nz) = mset (nonempty_entries (cs_evictable_entries s))"
    by (simp add: nonempty_entries_def)
  moreover have "sum_list (map ev_units (butlast (take k ?nz))) < ?req" if "take k ?nz \<noteq> []"
  proof -
    have "0 < k" "k \<le> length ?nz" using that k by (auto simp: evict_prefix_def)
    then have "min U64_MAX (sum_list (map ev_units (take (k - 1) ?nz))) < ?req"
      using k by (simp add: evict_prefix_def)
    moreover have "?req \<le> U64_MAX" unfolding req using sat_add_le le_trans diff_le_self by blast
    ultimately have "sum_list (map ev_units (take (k - 1) ?nz)) < ?req" by (simp add: min_def split: if_splits)
    then show ?thesis using \<open>k \<le> length ?nz\<close> by (simp add: butlast_take)
  qed
  ultimately show ?thesis using ids cheap
    by (intro exI [of _ "take k ?nz"] exI [of _ "drop k ?nz"]) blast
qed

end
