(* ===== verification/CachePolicy.thy ===== *)
theory CachePolicy
  imports Prelude
begin

text \<open>
  Cache-aware ordering of waiting requests (\<open>crates/skippy-scheduler/src/cache_policy.rs\<close>):
  saved work and aging scores, the weighted depth-first order of the waiting prompts' radix, and
  the comparator of the final stable sort, which is shown to be a total preorder.
\<close>

section \<open>Data and scores\<close>

definition PREFIX_GROUPING_SCORE_BAND_TURNS :: nat where
  "PREFIX_GROUPING_SCORE_BAND_TURNS = 4"

record stage_cache_affinity =
  sa_stage_index :: nat
  sa_matched_tokens :: nat
  sa_prefill_cost_per_token :: nat
  sa_restore_cost :: nat
  sa_cache_epoch :: nat

record cache_affinity =
  af_stages :: "stage_cache_affinity list"

record cache_aware_candidate =
  ca_index :: nat
  ca_priority :: nat
  ca_affinity :: cache_affinity
  ca_prompt_tokens :: "int list"
  ca_enqueued_turn :: nat
  ca_order :: nat

definition stage_saved_cost :: "stage_cache_affinity \<Rightarrow> nat" where
  "stage_saved_cost s =
     sat_sub (sat_mul (sa_matched_tokens s) (sa_prefill_cost_per_token s)) (sa_restore_cost s)"

definition affinity_from_stage :: "stage_cache_affinity \<Rightarrow> cache_affinity" where
  "affinity_from_stage s = \<lparr>af_stages = [s]\<rparr>"

definition estimated_saved_cost :: "cache_affinity \<Rightarrow> nat" where
  "estimated_saved_cost a = sat_sum (map stage_saved_cost (af_stages a))"

definition affinity_matched_tokens :: "cache_affinity \<Rightarrow> nat" where
  "affinity_matched_tokens a = sat_sum (map sa_matched_tokens (af_stages a))"

definition grouping_score :: "cache_aware_candidate \<Rightarrow> nat \<Rightarrow> nat \<Rightarrow> nat" where
  "grouping_score c current_turn aging =
     (let width = sat_mul (max aging 1) PREFIX_GROUPING_SCORE_BAND_TURNS;
          age = sat_sub current_turn (ca_enqueued_turn c);
          banded_age = sat_add age (sat_sub PREFIX_GROUPING_SCORE_BAND_TURNS 1)
                         div PREFIX_GROUPING_SCORE_BAND_TURNS
      in sat_add (estimated_saved_cost (ca_affinity c)) (sat_mul banded_age width))"

definition effective_score :: "cache_aware_candidate \<Rightarrow> nat \<Rightarrow> nat \<Rightarrow> nat" where
  "effective_score c current_turn aging =
     (let age = sat_sub current_turn (ca_enqueued_turn c)
      in sat_add (estimated_saved_cost (ca_affinity c)) (sat_mul age aging))"

section \<open>Weighted radix order of the waiting prompts\<close>

definition prompt_of :: "cache_aware_candidate list \<Rightarrow> nat \<Rightarrow> int list" where
  "prompt_of cs p = ca_prompt_tokens (cs ! p)"

definition minimum_enqueue_order :: "cache_aware_candidate list \<Rightarrow> nat list \<Rightarrow> nat" where
  "minimum_enqueue_order cs positions =
     (case positions of [] \<Rightarrow> U64_MAX | p # ps \<Rightarrow>
        foldl (\<lambda>m q. min m (ca_order (cs ! q))) (ca_order (cs ! p)) ps)"

text \<open>The \<open>while depth < common_limit\<close> loop.\<close>

function skip_common :: "cache_aware_candidate list \<Rightarrow> nat list \<Rightarrow> nat \<Rightarrow> nat \<Rightarrow> nat" where
  "skip_common cs positions limit depth =
     (if depth < limit \<and>
         list_all (\<lambda>p. prompt_of cs p ! depth = prompt_of cs (hd positions) ! depth) positions
      then skip_common cs positions limit (depth + 1) else depth)"
  by pat_completeness auto
termination
  by (relation "measure (\<lambda>(_, _, limit, depth). limit - depth)") auto

declare skip_common.simps [simp del]

text \<open>The \<open>for position in positions\<close> loop that fills \<open>children\<close> and \<open>terminal\<close>.\<close>

definition group_step :: "cache_aware_candidate list \<Rightarrow> nat \<Rightarrow>
    (int, nat list) btree \<times> nat list \<Rightarrow> nat \<Rightarrow> (int, nat list) btree \<times> nat list" where
  "group_step cs depth st p =
     (case slice_get (prompt_of cs p) depth of
        Some token \<Rightarrow>
          (bt_insert token
             ((case bt_get (fst st) token of Some ps \<Rightarrow> ps | None \<Rightarrow> []) @ [p]) (fst st), snd st)
      | None \<Rightarrow> (fst st, snd st @ [p]))"

definition group_positions :: "cache_aware_candidate list \<Rightarrow> nat \<Rightarrow> nat list \<Rightarrow>
    (int, nat list) btree \<times> nat list" where
  "group_positions cs depth positions = foldl (group_step cs depth) ([], []) positions"

definition child_cmp :: "cache_aware_candidate list \<Rightarrow> int option \<Rightarrow>
    int \<times> nat list \<Rightarrow> int \<times> nat list \<Rightarrow> ordering" where
  "child_cmp cs anchor_token l r =
     then_with (cmp (Some (fst r) = anchor_token) (Some (fst l) = anchor_token))
       (then_with (cmp (length (snd r)) (length (snd l)))
         (then_with (cmp (minimum_enqueue_order cs (snd l)) (minimum_enqueue_order cs (snd r)))
           (cmp (fst l) (fst r))))"

definition sorted_children :: "cache_aware_candidate list \<Rightarrow> int list option \<Rightarrow> nat \<Rightarrow> nat list \<Rightarrow>
    (int \<times> nat list) list" where
  "sorted_children cs anchor depth positions =
     sort_by (child_cmp cs (Option.bind anchor (\<lambda>prompt. slice_get prompt depth)))
       (fst (group_positions cs depth positions))"

definition sorted_terminal :: "cache_aware_candidate list \<Rightarrow> nat \<Rightarrow> nat list \<Rightarrow> nat list" where
  "sorted_terminal cs depth positions =
     sort_by (\<lambda>p q. cmp (ca_order (cs ! p)) (ca_order (cs ! q)))
       (snd (group_positions cs depth positions))"

definition branch_depth :: "cache_aware_candidate list \<Rightarrow> nat list \<Rightarrow> nat \<Rightarrow> nat" where
  "branch_depth cs positions depth =
     skip_common cs positions
       (foldl min (length (prompt_of cs (hd positions)))
          (map (\<lambda>p. length (prompt_of cs p)) (tl positions))) depth"

subsection \<open>Grouping puts each position in exactly one bucket\<close>

lemma group_foldl:
  assumes "bt_wf m"
  shows "bt_wf (fst (foldl (group_step cs d) (m, ts) ps)) \<and>
    snd (foldl (group_step cs d) (m, ts) ps) =
      ts @ filter (\<lambda>p. slice_get (prompt_of cs p) d = None) ps \<and>
    bt_get (fst (foldl (group_step cs d) (m, ts) ps)) t =
      (let old = bt_get m t; new = filter (\<lambda>p. slice_get (prompt_of cs p) d = Some t) ps
       in if new = [] then old
          else Some ((case old of Some qs \<Rightarrow> qs | None \<Rightarrow> []) @ new))"
  using assms
proof (induction ps arbitrary: m ts)
  case Nil
  then show ?case by simp
next
  case (Cons p ps)
  show ?case
  proof (cases "slice_get (prompt_of cs p) d")
    case None
    then have "group_step cs d (m, ts) p = (m, ts @ [p])"
      by (simp add: group_step_def del: slice_get_None)
    then show ?thesis using Cons.IH [OF Cons.prems, of "ts @ [p]"] None
      by (simp add: Let_def del: slice_get_None slice_get_Some)
  next
    case (Some u)
    define m' where "m' = bt_insert u ((case bt_get m u of Some ps \<Rightarrow> ps | None \<Rightarrow> []) @ [p]) m"
    have step: "group_step cs d (m, ts) p = (m', ts)" using Some
      by (simp add: group_step_def m'_def del: slice_get_Some)
    have wf': "bt_wf m'" using Cons.prems by (simp add: m'_def)
    have get': "bt_get m' t =
        (if t = u then Some ((case bt_get m u of Some ps \<Rightarrow> ps | None \<Rightarrow> []) @ [p]) else bt_get m t)"
      using Cons.prems by (simp add: m'_def bt.get_put)
    show ?thesis using Cons.IH [OF wf', of ts] Some unfolding foldl.simps step get'
      by (auto simp: Let_def simp del: slice_get_None slice_get_Some split: option.splits)
  qed
qed

lemma group_children_wf: "bt_wf (fst (group_positions cs d ps))"
  and group_terminal: "snd (group_positions cs d ps) =
    filter (\<lambda>p. slice_get (prompt_of cs p) d = None) ps"
  and group_child: "bt_get (fst (group_positions cs d ps)) t =
    (let new = filter (\<lambda>p. slice_get (prompt_of cs p) d = Some t) ps
     in if new = [] then None else Some new)"
  using group_foldl [of "[]" cs d "[]" ps t] unfolding group_positions_def
  by (simp_all add: Let_def)

lemma sorted_children_mem:
  assumes "e \<in> set (sorted_children cs anchor d ps)"
  shows "snd e = filter (\<lambda>p. slice_get (prompt_of cs p) d = Some (fst e)) ps \<and> snd e \<noteq> []"
proof -
  have "bt_get (fst (group_positions cs d ps)) (fst e) = Some (snd e)"
    using assms group_children_wf by (simp add: sorted_children_def bt_get_Some_iff)
  then show ?thesis by (auto simp: group_child Let_def split: if_splits)
qed

lemma skip_common_ge: "depth \<le> skip_common cs ps limit depth"
proof (induction cs ps limit depth rule: skip_common.induct)
  case (1 cs ps limit depth)
  then show ?case by (subst skip_common.simps) force
qed

lemma sum_list_filter_less:
  fixes f g :: "'a \<Rightarrow> nat"
  assumes "filter P xs \<noteq> []" and "\<And>x. x \<in> set xs \<Longrightarrow> P x \<Longrightarrow> g x < f x"
  shows "sum_list (map g (filter P xs)) < sum_list (map f xs)"
  using assms
proof (induction xs)
  case Nil
  then show ?case by simp
next
  case (Cons x xs)
  show ?case
  proof (cases "filter P xs = []")
    case True
    then show ?thesis using Cons.prems by (auto intro: trans_less_add1 split: if_splits)
  next
    case False
    then have "sum_list (map g (filter P xs)) < sum_list (map f xs)"
      using Cons by simp
    then show ?thesis using Cons.prems(2) [of x] by (auto intro: add_less_mono less_le_trans)
  qed
qed

text \<open>
  \<open>append_dfs_weight_order\<close> returns what it appends to \<open>output\<close>. The source's
  \<open>depth.saturating_add(1)\<close> is \<open>depth + 1\<close>: a prompt is a slice, whose length is below
  \<open>usize::MAX\<close>.
\<close>

function append_dfs_weight_order :: "cache_aware_candidate list \<Rightarrow> int list option \<Rightarrow> nat list \<Rightarrow>
    nat \<Rightarrow> nat list" where
  "append_dfs_weight_order cs anchor positions depth =
     (if length positions \<le> 1 then positions
      else
        concat (map (\<lambda>e. append_dfs_weight_order cs anchor (snd e)
                            (branch_depth cs positions depth + 1))
                  (sorted_children cs anchor (branch_depth cs positions depth) positions))
        @ sorted_terminal cs (branch_depth cs positions depth) positions)"
  by pat_completeness auto
termination
proof (relation "measure (\<lambda>(cs, _, positions, depth).
    sum_list (map (\<lambda>p. length (prompt_of cs p) - depth) positions))", goal_cases)
  case 1
  then show ?case by simp
next
  case (2 cs anchor positions depth e)
  let ?d = "branch_depth cs positions depth"
  have d: "depth \<le> ?d" by (simp add: branch_depth_def skip_common_ge)
  have e: "snd e = filter (\<lambda>p. slice_get (prompt_of cs p) ?d = Some (fst e)) positions" "snd e \<noteq> []"
    using sorted_children_mem [OF 2(2)] by auto
  show ?case using e d by (auto intro!: sum_list_filter_less)
qed

declare append_dfs_weight_order.simps [simp del]

section \<open>The order of the candidates\<close>

definition dfs_ranks :: "cache_aware_candidate list \<Rightarrow> int list option \<Rightarrow> bool \<Rightarrow> nat list" where
  "dfs_ranks cs anchor grouping =
     (if grouping then
        foldl (\<lambda>ranks (rank, position). ranks[position := rank]) (replicate (length cs) 0)
          (enumerate 0 (append_dfs_weight_order cs anchor [0..<length cs] 0))
      else replicate (length cs) 0)"

definition rank_cmp :: "nat \<Rightarrow> nat \<Rightarrow> bool \<Rightarrow> cache_aware_candidate \<times> nat \<Rightarrow>
    cache_aware_candidate \<times> nat \<Rightarrow> ordering" where
  "rank_cmp current_turn aging grouping l r =
     then_with (cmp (ca_priority (fst r)) (ca_priority (fst l)))
       (then_with
         (if grouping then cmp (grouping_score (fst r) current_turn aging)
                            (grouping_score (fst l) current_turn aging)
          else cmp (effective_score (fst r) current_turn aging)
                   (effective_score (fst l) current_turn aging))
         (then_with
           (if grouping \<and> ca_prompt_tokens (fst l) \<noteq> ca_prompt_tokens (fst r)
            then cmp (snd l) (snd r) else Equal)
           (then_with (cmp (effective_score (fst r) current_turn aging)
                           (effective_score (fst l) current_turn aging))
             (cmp (ca_order (fst l)) (ca_order (fst r))))))"

definition ranked_candidates :: "cache_aware_candidate list \<Rightarrow> int list option \<Rightarrow> bool \<Rightarrow>
    (cache_aware_candidate \<times> nat) list" where
  "ranked_candidates cs anchor grouping = zip cs (dfs_ranks cs anchor grouping)"

definition order_cache_aware_candidates_with_anchor ::
    "cache_aware_candidate list \<Rightarrow> nat \<Rightarrow> nat \<Rightarrow> bool \<Rightarrow> int list option \<Rightarrow> nat list" where
  "order_cache_aware_candidates_with_anchor cs current_turn aging grouping anchor =
     map (\<lambda>e. ca_index (fst e))
       (sort_by (rank_cmp current_turn aging grouping) (ranked_candidates cs anchor grouping))"

definition order_cache_aware_candidates ::
    "cache_aware_candidate list \<Rightarrow> nat \<Rightarrow> nat \<Rightarrow> bool \<Rightarrow> nat list" where
  "order_cache_aware_candidates cs current_turn aging grouping =
     order_cache_aware_candidates_with_anchor cs current_turn aging grouping None"

definition select_cache_aware_candidate ::
    "cache_aware_candidate list \<Rightarrow> nat \<Rightarrow> nat \<Rightarrow> bool \<Rightarrow> nat option" where
  "select_cache_aware_candidate cs current_turn aging grouping =
     slice_get (order_cache_aware_candidates cs current_turn aging grouping) 0"

section \<open>The depth-first order is a permutation\<close>

lemma mset_concat_cong:
  "mset xs = mset ys \<Longrightarrow> mset (concat (map f xs)) = mset (concat (map f ys))"
  by (metis (no_types, lifting) mset_concat mset_map sum_mset_sum_list)

lemma mset_concat_bt_insert:
  "bt_wf m \<Longrightarrow> mset (concat (map snd (bt_insert u
     ((case bt_get m u of Some ps \<Rightarrow> ps | None \<Rightarrow> []) @ [p]) m))) = add_mset p (mset (concat (map snd m)))"
proof (induction m)
  case Nil
  then show ?case by simp
next
  case (Cons e m)
  have u: "bt_get m u = None" if "u \<le> fst e"
    using Cons.prems that by (auto simp: bt_get_None_iff bt_wf_Cons)
  show ?case using Cons u by (auto simp: bt_get_Cons bt_wf_Cons)
qed

lemma mset_group_foldl:
  "bt_wf m \<Longrightarrow> mset (concat (map snd (fst (foldl (group_step cs d) (m, ts) ps))))
      + mset (snd (foldl (group_step cs d) (m, ts) ps))
    = mset (concat (map snd m)) + mset ts + mset ps"
proof (induction ps arbitrary: m ts)
  case Nil
  then show ?case by simp
next
  case (Cons p ps)
  show ?case
  proof (cases "slice_get (prompt_of cs p) d")
    case None
    then have "group_step cs d (m, ts) p = (m, ts @ [p])"
      by (simp add: group_step_def del: slice_get_None)
    then show ?thesis using Cons.IH [OF Cons.prems, of "ts @ [p]"] by simp
  next
    case (Some u)
    let ?m = "bt_insert u ((case bt_get m u of Some ps \<Rightarrow> ps | None \<Rightarrow> []) @ [p]) m"
    have "group_step cs d (m, ts) p = (?m, ts)"
      using Some by (simp add: group_step_def del: slice_get_Some)
    then show ?thesis using Cons.IH [of ?m ts] Cons.prems mset_concat_bt_insert [of m u p] by simp
  qed
qed

lemma mset_branches:
  "mset (concat (map snd (sorted_children cs anchor d ps))) + mset (sorted_terminal cs d ps) = mset ps"
proof -
  have "mset (concat (map snd (sorted_children cs anchor d ps)))
      = mset (concat (map snd (fst (group_positions cs d ps))))"
    by (rule mset_concat_cong) (simp add: sorted_children_def)
  then show ?thesis using mset_group_foldl [of "[]" cs d "[]" ps]
    by (simp add: sorted_terminal_def group_positions_def)
qed

lemma mset_append_dfs_weight_order [simp]:
  "mset (append_dfs_weight_order cs anchor ps depth) = mset ps"
proof (induction cs anchor ps depth rule: append_dfs_weight_order.induct)
  case (1 cs anchor ps depth)
  show ?case
  proof (cases "length ps \<le> 1")
    case True
    then show ?thesis by (simp add: append_dfs_weight_order.simps)
  next
    case False
    let ?d = "branch_depth cs ps depth"
    let ?ch = "sorted_children cs anchor ?d ps"
    have "map (\<lambda>e. mset (append_dfs_weight_order cs anchor (snd e) (?d + 1))) ?ch
        = map (\<lambda>e. mset (snd e)) ?ch"
      using "1.IH" [OF False] by (intro map_cong) auto
    then have "mset (concat (map (\<lambda>e. append_dfs_weight_order cs anchor (snd e) (?d + 1)) ?ch))
        = mset (concat (map snd ?ch))"
      by (simp add: mset_concat comp_def del: map_eq_conv)
    then show ?thesis using False mset_branches [of cs anchor ?d ps]
      by (subst append_dfs_weight_order.simps) simp
  qed
qed

lemma set_append_dfs_weight_order [simp]:
  "set (append_dfs_weight_order cs anchor ps depth) = set ps"
  by (metis mset_append_dfs_weight_order set_mset_mset)

section \<open>Equal prompts are neighbours in the depth-first order\<close>

definition blocks :: "('a \<Rightarrow> 'b) \<Rightarrow> 'a list \<Rightarrow> bool" where
  "blocks f xs \<longleftrightarrow> (\<forall>k < length xs. \<forall>j < k. \<forall>i < j. f (xs ! i) = f (xs ! k) \<longrightarrow> f (xs ! j) = f (xs ! k))"

lemma blocks_short: "length xs \<le> 1 \<Longrightarrow> blocks f xs"
  by (auto simp: blocks_def)

lemma blocks_const: "(\<And>x. x \<in> set xs \<Longrightarrow> f x = v) \<Longrightarrow> blocks f xs"
  by (auto simp: blocks_def)

lemma blocks_append:
  assumes x: "blocks f xs" and y: "blocks f ys" and disj: "f ` set xs \<inter> f ` set ys = {}"
  shows "blocks f (xs @ ys)"
  unfolding blocks_def
proof (intro allI impI)
  fix i j k assume ijk: "k < length (xs @ ys)" "j < k" "i < j"
    and eq: "f ((xs @ ys) ! i) = f ((xs @ ys) ! k)"
  consider "k < length xs" | "length xs \<le> i" | "i < length xs" "length xs \<le> k" by linarith
  then show "f ((xs @ ys) ! j) = f ((xs @ ys) ! k)"
  proof cases
    case 1
    then show ?thesis using x ijk eq by (auto simp: blocks_def nth_append)
  next
    case 2
    then show ?thesis using y [unfolded blocks_def, rule_format, of "k - length xs" "j - length xs" "i - length xs"]
        ijk eq by (auto simp: nth_append)
  next
    case 3
    then have "f (xs ! i) = f (ys ! (k - length xs))" using eq by (simp add: nth_append)
    moreover have "xs ! i \<in> set xs" "ys ! (k - length xs) \<in> set ys" using 3 ijk by auto
    ultimately show ?thesis using disj by blast
  qed
qed

lemma blocks_concat:
  assumes "\<And>e. e \<in> set es \<Longrightarrow> blocks f (g e)"
    and "\<And>e x. e \<in> set es \<Longrightarrow> x \<in> set (g e) \<Longrightarrow> key (f x) = fst e"
    and "distinct (map fst es)"
  shows "blocks f (concat (map g es))"
  using assms
proof (induction es)
  case Nil
  then show ?case by (simp add: blocks_def)
next
  case (Cons e es)
  have "f ` set (g e) \<inter> f ` set (concat (map g es)) = {}"
  proof (rule ccontr)
    assume "f ` set (g e) \<inter> f ` set (concat (map g es)) \<noteq> {}"
    then obtain x y e' where "x \<in> set (g e)" "e' \<in> set es" "y \<in> set (g e')" "f x = f y" by auto
    then have "fst e = fst e'" using Cons.prems(2) by (metis list.set_intros(1,2))
    then show False using Cons.prems(3) \<open>e' \<in> set es\<close> by (simp add: rev_image_eqI)
  qed
  moreover have "blocks f (concat (map g es))"
    using Cons.prems by (intro Cons.IH) simp_all
  ultimately show ?case using Cons.prems(1) by (simp add: blocks_append)
qed

definition shared :: "cache_aware_candidate list \<Rightarrow> nat list \<Rightarrow> nat \<Rightarrow> bool" where
  "shared cs ps d \<longleftrightarrow> (\<exists>pre. length pre = d \<and> (\<forall>p \<in> set ps. take d (prompt_of cs p) = pre \<and>
     d \<le> length (prompt_of cs p)))"

lemma shared_skip_common:
  assumes "shared cs ps depth" and "\<forall>p \<in> set ps. limit \<le> length (prompt_of cs p)"
  shows "shared cs ps (skip_common cs ps limit depth)"
  using assms
proof (induction cs ps limit depth rule: skip_common.induct)
  case (1 cs ps limit depth)
  show ?case
  proof (cases "depth < limit \<and>
      list_all (\<lambda>p. prompt_of cs p ! depth = prompt_of cs (hd ps) ! depth) ps")
    case True
    obtain pre where pre: "length pre = depth" "\<forall>p \<in> set ps. take depth (prompt_of cs p) = pre"
      using "1.prems"(1) unfolding shared_def by auto
    have "\<forall>p \<in> set ps. take (depth + 1) (prompt_of cs p) = pre @ [prompt_of cs (hd ps) ! depth] \<and>
        depth + 1 \<le> length (prompt_of cs p)"
      using True pre "1.prems"(2) by (fastforce simp: list_all_iff take_Suc_conv_app_nth)
    then have "shared cs ps (depth + 1)"
      unfolding shared_def using pre(1) by (intro exI [of _ "pre @ [prompt_of cs (hd ps) ! depth]"]) simp
    then show ?thesis using "1.IH" [OF True] "1.prems"(2) True
      by (subst skip_common.simps) simp
  next
    case False
    then show ?thesis using "1.prems" by (subst skip_common.simps) auto
  qed
qed

lemma foldl_min_le: "foldl min a xs \<le> (a :: nat) \<and> (\<forall>x \<in> set xs. foldl min a xs \<le> x)"
proof (induction xs arbitrary: a)
  case Nil
  then show ?case by simp
next
  case (Cons x xs)
  then show ?case using Cons [of "min a x"] by auto
qed

lemma shared_branch_depth:
  assumes "shared cs ps depth"
  shows "shared cs ps (branch_depth cs ps depth)"
proof -
  let ?f = "\<lambda>p. length (prompt_of cs p)"
  have "\<forall>p \<in> set ps. foldl min (?f (hd ps)) (map ?f (tl ps)) \<le> ?f p"
    using foldl_min_le [of "?f (hd ps)" "map ?f (tl ps)"] by (cases ps) auto
  then show ?thesis unfolding branch_depth_def by (rule shared_skip_common [OF assms])
qed

lemma shared_child:
  assumes "shared cs ps d" and "e \<in> set (sorted_children cs anchor d ps)"
  shows "shared cs (snd e) (d + 1)"
proof -
  obtain pre where pre: "length pre = d" "\<forall>p \<in> set ps. take d (prompt_of cs p) = pre"
    using assms(1) unfolding shared_def by auto
  have e: "snd e = filter (\<lambda>p. slice_get (prompt_of cs p) d = Some (fst e)) ps"
    using sorted_children_mem [OF assms(2)] by simp
  have "\<forall>p \<in> set (snd e). take (d + 1) (prompt_of cs p) = pre @ [fst e] \<and> d + 1 \<le> length (prompt_of cs p)"
    unfolding e using pre by (auto simp: take_Suc_conv_app_nth)
  then show ?thesis unfolding shared_def using pre(1) by (intro exI [of _ "pre @ [fst e]"]) simp
qed

lemma shared_terminal_same:
  assumes "shared cs ps d" and "p \<in> set (sorted_terminal cs d ps)" and "q \<in> set (sorted_terminal cs d ps)"
  shows "prompt_of cs p = prompt_of cs q"
proof -
  obtain pre where pre: "length pre = d" "\<forall>p \<in> set ps. take d (prompt_of cs p) = pre"
    using assms(1) unfolding shared_def by auto
  have "prompt_of cs r = pre" if r: "r \<in> set (sorted_terminal cs d ps)" for r
  proof -
    have "r \<in> set ps" "length (prompt_of cs r) \<le> d"
      using r by (auto simp: sorted_terminal_def group_terminal)
    then show ?thesis using pre by (metis take_all)
  qed
  then show ?thesis using assms by simp
qed

lemma distinct_sorted_children: "distinct (map fst (sorted_children cs anchor d ps))"
proof -
  have "mset (map fst (sorted_children cs anchor d ps)) = mset (map fst (fst (group_positions cs d ps)))"
    by (simp add: sorted_children_def)
  then show ?thesis using bt_wf_distinct [OF group_children_wf] mset_eq_imp_distinct_iff by blast
qed

lemma dfs_blocks:
  "shared cs ps depth \<Longrightarrow> blocks (prompt_of cs) (append_dfs_weight_order cs anchor ps depth)"
proof (induction cs anchor ps depth rule: append_dfs_weight_order.induct)
  case (1 cs anchor ps depth)
  show ?case
  proof (cases "length ps \<le> 1")
    case True
    then show ?thesis by (simp add: append_dfs_weight_order.simps blocks_short)
  next
    case False
    let ?d = "branch_depth cs ps depth"
    let ?ch = "sorted_children cs anchor ?d ps"
    let ?g = "\<lambda>e. append_dfs_weight_order cs anchor (snd e) (?d + 1)"
    have sh: "shared cs ps ?d" by (rule shared_branch_depth [OF "1.prems"])
    have key: "slice_get (prompt_of cs x) ?d = Some (fst e)" if "e \<in> set ?ch" "x \<in> set (?g e)" for e x
    proof -
      have "x \<in> set (filter (\<lambda>p. slice_get (prompt_of cs p) ?d = Some (fst e)) ps)"
        using that sorted_children_mem [OF that(1)] by simp
      then show ?thesis by auto
    qed
    have "blocks (prompt_of cs) (concat (map ?g ?ch))"
      using "1.IH" [OF False] shared_child [OF sh] key distinct_sorted_children
      by (intro blocks_concat [where key = "\<lambda>xs. xs ! ?d"]) auto
    moreover have "blocks (prompt_of cs) (sorted_terminal cs ?d ps)"
      using shared_terminal_same [OF sh, of _ "hd (sorted_terminal cs ?d ps)"]
      by (cases "sorted_terminal cs ?d ps = []")
        (auto intro: blocks_const [where v = "prompt_of cs (hd (sorted_terminal cs ?d ps))"] simp: blocks_short)
    moreover have "prompt_of cs ` set (concat (map ?g ?ch)) \<inter> prompt_of cs ` set (sorted_terminal cs ?d ps) = {}"
      using key by (fastforce simp: sorted_terminal_def group_terminal)
    ultimately show ?thesis using False
      by (subst append_dfs_weight_order.simps) (simp add: blocks_append)
  qed
qed

section \<open>The comparator handed to the sort is a total preorder\<close>

lemma foldl_ranks:
  assumes "distinct ps" and "set ps \<subseteq> {..<length r}"
  shows "length (foldl (\<lambda>ranks (rank, position). ranks[position := rank]) r (enumerate k ps)) = length r \<and>
    (\<forall>q. q \<notin> set ps \<longrightarrow>
      foldl (\<lambda>ranks (rank, position). ranks[position := rank]) r (enumerate k ps) ! q = r ! q) \<and>
    (\<forall>i < length ps.
      foldl (\<lambda>ranks (rank, position). ranks[position := rank]) r (enumerate k ps) ! (ps ! i) = k + i)"
  using assms
proof (induction ps arbitrary: r k)
  case Nil
  then show ?case by simp
next
  case (Cons p ps)
  have d: "distinct ps" "p \<notin> set ps" "set ps \<subseteq> {..<length (r[p := k])}" "p < length r"
    using Cons.prems by auto
  show ?case using Cons.IH [OF d(1,3), of "Suc k"] d(2,4) by (auto simp: nth_Cons split: nat.splits)
qed

lemma length_dfs_ranks [simp]: "length (dfs_ranks cs anchor g) = length cs"
  using foldl_ranks [of "append_dfs_weight_order cs anchor [0..<length cs] 0" "replicate (length cs) 0" 0]
    mset_eq_imp_distinct_iff [OF mset_append_dfs_weight_order, of cs anchor "[0..<length cs]" 0]
  by (auto simp: dfs_ranks_def lessThan_atLeast0)

lemma map_fst_ranked [simp]: "map fst (ranked_candidates cs anchor g) = cs"
  by (simp add: ranked_candidates_def)

lemma ranked_position:
  assumes "e \<in> set (ranked_candidates cs anchor True)"
  obtains i where "i < length cs" "snd e = i"
    "fst e = cs ! (append_dfs_weight_order cs anchor [0..<length cs] 0 ! i)"
proof -
  let ?o = "append_dfs_weight_order cs anchor [0..<length cs] 0"
  have o: "distinct ?o" "set ?o = {0..<length cs}" "length ?o = length cs"
    using mset_eq_imp_distinct_iff [OF mset_append_dfs_weight_order, of cs anchor "[0..<length cs]" 0]
      mset_eq_length [OF mset_append_dfs_weight_order, of cs anchor "[0..<length cs]" 0] by auto
  obtain p where p: "p < length cs" "e = (cs ! p, dfs_ranks cs anchor True ! p)"
    using assms by (auto simp: ranked_candidates_def set_zip)
  then have "p \<in> set ?o" using o by simp
  then obtain i where i: "i < length cs" "?o ! i = p" using o(3) by (metis in_set_conv_nth)
  have "\<forall>i < length ?o. dfs_ranks cs anchor True ! (?o ! i) = i"
    using conjunct2 [OF conjunct2 [OF foldl_ranks [of ?o "replicate (length cs) 0" 0]]] o
    unfolding dfs_ranks_def by (simp add: lessThan_atLeast0)
  then show thesis using that [of i] i p o(3) by auto
qed

lemma shared_start: "shared cs ps 0"
  by (simp add: shared_def)

lemma prompts_convex_in_rank:
  assumes x: "x \<in> set (ranked_candidates cs anchor True)" and y: "y \<in> set (ranked_candidates cs anchor True)"
    and z: "z \<in> set (ranked_candidates cs anchor True)"
    and lt: "snd x < snd y" "snd y < snd z" and eq: "ca_prompt_tokens (fst x) = ca_prompt_tokens (fst z)"
  shows "ca_prompt_tokens (fst y) = ca_prompt_tokens (fst z)"
proof -
  let ?o = "append_dfs_weight_order cs anchor [0..<length cs] 0"
  have "length ?o = length cs"
    using mset_eq_length [OF mset_append_dfs_weight_order, of cs anchor "[0..<length cs]" 0] by simp
  then have o: "length ?o = length cs" "blocks (prompt_of cs) ?o"
    using dfs_blocks [OF shared_start, where cs = cs and ps = "[0..<length cs]" and anchor = anchor]
    by simp_all
  obtain i where i: "snd x = i" "fst x = cs ! (?o ! i)" by (rule ranked_position [OF x])
  obtain j where j: "snd y = j" "fst y = cs ! (?o ! j)" by (rule ranked_position [OF y])
  obtain k where k: "k < length cs" "snd z = k" "fst z = cs ! (?o ! k)" by (rule ranked_position [OF z])
  show ?thesis
    using o(2) [unfolded blocks_def, rule_format, of k j i] lt eq o(1) i j k
    by (simp add: prompt_of_def)
qed

lemma rank_inj:
  assumes x: "x \<in> set (ranked_candidates cs anchor True)" and y: "y \<in> set (ranked_candidates cs anchor True)"
    and eq: "snd x = snd y"
  shows "fst x = fst y"
  by (rule ranked_position [OF x], rule ranked_position [OF y]) (use eq in auto)

lemma comparator_grouped_rank:
  assumes convex: "\<And>x y z. x \<in> A \<Longrightarrow> y \<in> A \<Longrightarrow> z \<in> A \<Longrightarrow> snd x < snd y \<Longrightarrow> snd y < snd z \<Longrightarrow>
      f (fst x) = f (fst z) \<Longrightarrow> f (fst y) = f (fst z)"
    and inj: "\<And>x y. x \<in> A \<Longrightarrow> y \<in> A \<Longrightarrow> snd x = snd y \<Longrightarrow> fst x = fst y"
  shows "comparator (\<lambda>l r :: 'a \<times> nat. if f (fst l) \<noteq> f (fst r) then cmp (snd l) (snd r) else Equal) A"
proof
  fix x y :: "'a \<times> nat"
  show "(if f (fst y) \<noteq> f (fst x) then cmp (snd y) (snd x) else Equal) =
      rev_ordering (if f (fst x) \<noteq> f (fst y) then cmp (snd x) (snd y) else Equal)"
    by (auto intro: cmp_rev)
next
  fix x y z :: "'a \<times> nat"
  assume A: "x \<in> A" "y \<in> A" "z \<in> A"
    and xy: "(if f (fst x) \<noteq> f (fst y) then cmp (snd x) (snd y) else Equal) \<noteq> Greater"
    and yz: "(if f (fst y) \<noteq> f (fst z) then cmp (snd y) (snd z) else Equal) \<noteq> Greater"
  show "(if f (fst x) \<noteq> f (fst z) then cmp (snd x) (snd z) else Equal) \<noteq> Greater"
  proof (cases "f (fst x) = f (fst z)")
    case False
    consider "f (fst x) \<noteq> f (fst y)" "f (fst y) \<noteq> f (fst z)" | "f (fst x) = f (fst y)"
      | "f (fst y) = f (fst z)" by blast
    then have "snd x \<le> snd z"
    proof cases
      case 1
      then show ?thesis using xy yz by (auto simp: not_less)
    next
      case 2
      then have "snd y \<le> snd z" using yz False by (auto simp: not_less)
      then show ?thesis using convex [OF A(2,3,1)] inj [OF A(2,3)] 2 False
        by (metis le_neq_implies_less not_le)
    next
      case 3
      then have "snd x \<le> snd y" using xy False by (auto simp: not_less)
      then show ?thesis using convex [OF A(3,1,2)] inj [OF A(1,2)] 3 False
        by (metis le_neq_implies_less not_le)
    qed
    then show ?thesis by simp
  qed simp
qed

lemma rank_cmp_comparator:
  "comparator (rank_cmp t a g) (set (ranked_candidates cs anchor g))"
proof -
  let ?A = "set (ranked_candidates cs anchor g)"
  have rank: "comparator (\<lambda>l r. if g \<and> ca_prompt_tokens (fst l) \<noteq> ca_prompt_tokens (fst r)
      then cmp (snd l) (snd r) else Equal) ?A"
  proof (cases g)
    case True
    have "comparator (\<lambda>l r. if ca_prompt_tokens (fst l) \<noteq> ca_prompt_tokens (fst r)
        then cmp (snd l) (snd r) else Equal) (set (ranked_candidates cs anchor True))"
      by (rule comparator_grouped_rank)
        (erule (5) prompts_convex_in_rank, erule (2) rank_inj)
    then show ?thesis by (simp only: True simp_thms)
  next
    case False
    then show ?thesis by unfold_locales auto
  qed
  have score: "comparator (\<lambda>l r. if g then cmp (grouping_score (fst r) t a) (grouping_score (fst l) t a)
      else cmp (effective_score (fst r) t a) (effective_score (fst l) t a)) ?A"
  proof (cases g)
    case True
    show ?thesis unfolding if_P [OF True] by (rule comparator_rev [OF comparator_cmp_key])
  next
    case False
    show ?thesis unfolding if_not_P [OF False] by (rule comparator_rev [OF comparator_cmp_key])
  qed
  show ?thesis unfolding rank_cmp_def
    by (intro comparator_then_with)
      (rule rank score comparator_cmp_key comparator_rev [OF comparator_cmp_key])+
qed

interpretation ranks: comparator "rank_cmp t a g" "set (ranked_candidates cs anchor g)"
  for t a g cs anchor
  by (rule rank_cmp_comparator)

section \<open>The order is a permutation\<close>

lemma mset_cache_order:
  "mset (order_cache_aware_candidates_with_anchor cs t a g anchor) = mset (map ca_index cs)"
proof -
  let ?xs = "ranked_candidates cs anchor g"
  have "map (\<lambda>e. ca_index (fst e)) ?xs = map ca_index (map fst ?xs)"
    unfolding map_map comp_def by (rule refl)
  then have "map (\<lambda>e. ca_index (fst e)) ?xs = map ca_index cs" by (simp only: map_fst_ranked)
  moreover have "mset (map (\<lambda>e. ca_index (fst e)) (sort_by (rank_cmp t a g) ?xs))
      = mset (map (\<lambda>e. ca_index (fst e)) ?xs)"
    by (simp only: mset_map mset_sort_by)
  ultimately show ?thesis by (simp only: order_cache_aware_candidates_with_anchor_def)
qed

section \<open>Properties\<close>

text \<open>
  Ordering loses and duplicates nothing: the result is a permutation of the candidates'
  indices, with and without prefix grouping and for any anchor prompt.
\<close>

theorem cache_order_is_permutation:
  "mset (order_cache_aware_candidates_with_anchor cs t a g anchor) = mset (map ca_index cs)"
  by (rule mset_cache_order)

text \<open>
  The comparator given to \<open>sort_by\<close> obeys the contract Rust's sort asks for (argument
  flip and transitivity) although the prefix rank only applies between different prompts: equal
  prompts are neighbours in the depth-first order. So the sorted sequence is in order.
\<close>

theorem cache_comparator_total_preorder:
  "comparator (rank_cmp t a g) (set (ranked_candidates cs anchor g)) \<and>
   sorted_wrt (\<lambda>x y. rank_cmp t a g x y \<noteq> Greater)
     (sort_by (rank_cmp t a g) (ranked_candidates cs anchor g))"
  using rank_cmp_comparator ranks.sorted_sort_by [OF subset_refl] by blast

lemma rank_less_precedes:
  assumes "x \<in> set cs" and "y \<in> set cs"
    and less: "\<And>i j. rank_cmp t a g (x, i) (y, j) = Less"
  shows "\<exists>us vs ws. order_cache_aware_candidates_with_anchor cs t a g anchor =
      us @ ca_index x # vs @ ca_index y # ws"
proof -
  have ranked: "\<exists>i. (z, i) \<in> set (ranked_candidates cs anchor g)" if "z \<in> set cs" for z
    using that by (auto simp: ranked_candidates_def set_zip in_set_conv_nth)
  obtain i j where "(x, i) \<in> set (ranked_candidates cs anchor g)" "(y, j) \<in> set (ranked_candidates cs anchor g)"
    using ranked assms(1,2) by blast
  then obtain us vs ws where "sort_by (rank_cmp t a g) (ranked_candidates cs anchor g)
      = us @ (x, i) # vs @ (y, j) # ws"
    using ranks.less_precedes [OF subset_refl] less by blast
  then show ?thesis by (auto simp: order_cache_aware_candidates_with_anchor_def)
qed

text \<open>
  A request of a higher priority is ordered before every request of a lower one, whatever
  the cache affinities, ages and prefix groups are.
\<close>

theorem cache_order_respects_priority:
  fixes x y :: cache_aware_candidate
  assumes "x \<in> set cs" and "y \<in> set cs" and "ca_priority y < ca_priority x"
  shows "\<exists>us vs ws. order_cache_aware_candidates_with_anchor cs t a g anchor =
      us @ ca_index x # vs @ ca_index y # ws"
  by (rule rank_less_precedes) (use assms in \<open>auto simp: rank_cmp_def\<close>)

lemma banded_age_score:
  assumes a: "0 < a" and S: "S < age * a" "S < U64_MAX" and age: "age + 3 \<le> U64_MAX"
  shows "S < sat_mul (sat_add age (PREFIX_GROUPING_SCORE_BAND_TURNS - 1) div PREFIX_GROUPING_SCORE_BAND_TURNS)
           (sat_mul (max a 1) PREFIX_GROUPING_SCORE_BAND_TURNS)"
proof -
  let ?b = "(age + 3) div 4"
  have "0 < age" using S(1) by (cases age) auto
  then have b: "age \<le> ?b * 4" "1 \<le> ?b" by auto
  have "S < min U64_MAX (?b * min U64_MAX (a * 4))"
  proof (cases "a * 4 \<le> U64_MAX")
    case True
    have "S < (?b * 4) * a" using S(1) b(1) by (meson less_le_trans mult_le_mono1)
    then show ?thesis using True S(2) by (simp add: mult.assoc mult.commute [of a])
  next
    case False
    then have "min U64_MAX (a * 4) = U64_MAX" by simp
    moreover have "U64_MAX \<le> ?b * U64_MAX" using b(2) mult_le_mono1 [of 1 ?b U64_MAX] by simp
    ultimately show ?thesis using S(2) by simp
  qed
  moreover have "max a 1 = a" using a by simp
  ultimately show ?thesis using age
    by (simp add: sat_add_def sat_mul_def PREFIX_GROUPING_SCORE_BAND_TURNS_def)
qed

text \<open>
  Aging rules out starvation: once the turns a request has waited, times the aging score per
  turn, exceed the work that a newcomer of no higher priority can save, the request is ordered
  before the newcomer, with and without prefix grouping.
\<close>

theorem cache_order_aging_bound:
  fixes x y :: cache_aware_candidate
  assumes xy: "x \<in> set cs" "y \<in> set cs" and prio: "ca_priority y \<le> ca_priority x"
    and new: "t \<le> ca_enqueued_turn y"
    and S: "estimated_saved_cost (ca_affinity y) < (t - ca_enqueued_turn x) * a"
    and bounds: "estimated_saved_cost (ca_affinity y) < U64_MAX" "t + 3 \<le> U64_MAX"
  shows "\<exists>us vs ws. order_cache_aware_candidates_with_anchor cs t a g anchor =
      us @ ca_index x # vs @ ca_index y # ws"
proof (rule rank_less_precedes [OF xy])
  fix i j
  let ?S = "estimated_saved_cost (ca_affinity y)" and ?age = "t - ca_enqueued_turn x"
  have a: "0 < a" using S by (cases a) auto
  have sat: "s < m \<Longrightarrow> s < U64_MAX \<Longrightarrow> s < sat_add c m" for s m c
    by (auto simp: sat_add_def)
  have "grouping_score y t a = ?S" "effective_score y t a = ?S"
    using new bounds by (auto simp: grouping_score_def effective_score_def sat_add_def sat_mul_def
        PREFIX_GROUPING_SCORE_BAND_TURNS_def)
  moreover have "?S < grouping_score x t a"
    unfolding grouping_score_def Let_def
    by (rule sat [OF banded_age_score [OF a S bounds(1)]]) (use bounds in auto)
  moreover have "?S < effective_score x t a"
    unfolding effective_score_def Let_def
    by (rule sat) (use S bounds in \<open>auto simp: sat_mul_def\<close>)
  ultimately show "rank_cmp t a g (x, i) (y, j) = Less"
    using prio by (auto simp: rank_cmp_def)
qed

definition sample_old :: cache_aware_candidate where
  "sample_old = \<lparr>ca_index = 0, ca_priority = 1, ca_affinity = \<lparr>af_stages = []\<rparr>,
     ca_prompt_tokens = [7, 8, 9], ca_enqueued_turn = 0, ca_order = 0\<rparr>"

definition sample_new :: cache_aware_candidate where
  "sample_new = \<lparr>ca_index = 1, ca_priority = 1,
     ca_affinity = \<lparr>af_stages = [\<lparr>sa_stage_index = 0, sa_matched_tokens = 3,
       sa_prefill_cost_per_token = 2, sa_restore_cost = 1, sa_cache_epoch = 0\<rparr>]\<rparr>,
     ca_prompt_tokens = [1, 2, 3], ca_enqueued_turn = 10, ca_order = 1\<rparr>"

end
