(* ===== verification/Sequences.thy ===== *)
theory Sequences
  imports CachePolicy SchedConfig
begin

text \<open>
  Requests and iteration plans of the scheduler (\<open>crates/skippy-scheduler/src/sequence.rs\<close> and
  \<open>telemetry.rs\<close>). The sampling configuration belongs to the runtime and is a type parameter
  \<open>'s\<close>; an \<open>Instant\<close> is a reading of the clock as a natural number; tokens are integers.
\<close>

section \<open>Requests\<close>

datatype sequence_status = Waiting | Running | Preempted | Finished | Failed

datatype prefix_restore_kind = ResidentKv | RecurrentWholeState | KvAndRecurrentWholeState

record prefix_restore =
  pr_page_id :: string
  pr_token_count :: nat
  pr_kind :: prefix_restore_kind

record 's seqn =
  sq_id :: string
  sq_prompt_tokens :: "int list"
  sq_generated_tokens :: "int list"
  sq_max_tokens :: nat
  sq_sampling :: "'s option"
  sq_priority :: nat
  sq_admission_tokens :: nat
  sq_status :: sequence_status
  sq_prefix_restore :: "prefix_restore option"
  sq_cache_affinity :: cache_affinity
  sq_admitted_at :: "nat option"
  sq_prefill_cursor :: nat
  sq_enqueued_turn :: nat
  sq_enqueue_order :: nat

definition new_sequence :: "string \<Rightarrow> int list \<Rightarrow> nat \<Rightarrow> 's option \<Rightarrow> nat \<Rightarrow> 's seqn" where
  "new_sequence i prompt_tokens max_tokens sampling priority =
     \<lparr>sq_id = i, sq_prompt_tokens = prompt_tokens, sq_generated_tokens = [],
      sq_max_tokens = max_tokens, sq_sampling = sampling, sq_priority = priority,
      sq_admission_tokens = sat_add (length prompt_tokens) max_tokens,
      sq_status = Waiting, sq_prefix_restore = None, sq_cache_affinity = \<lparr>af_stages = []\<rparr>,
      sq_admitted_at = None, sq_prefill_cursor = 0, sq_enqueued_turn = 0, sq_enqueue_order = 0\<rparr>"

definition with_admission_tokens :: "nat \<Rightarrow> 's seqn \<Rightarrow> 's seqn" where
  "with_admission_tokens admission_tokens s =
     s\<lparr>sq_admission_tokens := max admission_tokens (length (sq_prompt_tokens s))\<rparr>"

text \<open>The prompt and all generated tokens but the last, which is not consumed yet.\<close>

definition replay_tokens :: "'s seqn \<Rightarrow> int list" where
  "replay_tokens s =
     (let replay_generated = sat_sub (length (sq_generated_tokens s)) 1
      in sq_prompt_tokens s @ take replay_generated (sq_generated_tokens s))"

definition recompute_token_count :: "'s seqn \<Rightarrow> nat" where
  "recompute_token_count s =
     sat_add (length (sq_prompt_tokens s)) (sat_sub (length (sq_generated_tokens s)) 1)"

definition pending_decode_token :: "'s seqn \<Rightarrow> int option" where
  "pending_decode_token s =
     (if sq_generated_tokens s = [] then None else Some (last (sq_generated_tokens s)))"

definition with_prefix_restore :: "prefix_restore \<Rightarrow> 's seqn \<Rightarrow> 's seqn" where
  "with_prefix_restore restore s =
     s\<lparr>sq_prefill_cursor := min (pr_token_count restore) (sat_sub (length (replay_tokens s)) 1),
       sq_prefix_restore := Some restore\<rparr>"

definition with_cache_affinity :: "cache_affinity \<Rightarrow> 's seqn \<Rightarrow> 's seqn" where
  "with_cache_affinity affinity s = s\<lparr>sq_cache_affinity := affinity\<rparr>"

definition with_prefilled_generation :: "int list \<Rightarrow> 's seqn \<Rightarrow> 's seqn" where
  "with_prefilled_generation generated s =
     (let s' = s\<lparr>sq_generated_tokens := generated\<rparr>
      in s'\<lparr>sq_prefill_cursor := recompute_token_count s'\<rparr>)"

definition is_finished :: "'s seqn \<Rightarrow> bool" where
  "is_finished s \<longleftrightarrow> sq_status s = Finished \<or> sq_status s = Failed"

definition reset_for_recompute :: "'s seqn \<Rightarrow> 's seqn" where
  "reset_for_recompute s =
     s\<lparr>sq_status := Preempted, sq_admitted_at := None,
       sq_prefill_cursor :=
         min (case sq_prefix_restore s of None \<Rightarrow> 0 | Some restore \<Rightarrow> pr_token_count restore)
             (length (replay_tokens s))\<rparr>"

section \<open>Plans, predictions and telemetry\<close>

datatype iteration_phase = Prefill | Recompute | Decode

record 's iteration_work =
  wk_sequence_id :: string
  wk_tokens :: "int list"
  wk_positions :: "int list"
  wk_sample_last :: bool
  wk_phase :: iteration_phase
  wk_sampling :: "'s option"

record iteration_prediction =
  pd_work_index :: nat
  pd_token :: int

record 's iteration_plan =
  pl_work :: "'s iteration_work list"
  pl_token_count :: nat
  pl_admitted :: nat
  pl_preempted :: nat

record scheduler_metrics =
  mt_iterations :: nat
  mt_admitted :: nat
  mt_preempted :: nat
  mt_finished :: nat
  mt_failed :: nat
  mt_cancelled :: nat
  mt_rejected_overload :: nat
  mt_prefill_tokens :: nat
  mt_recompute_tokens :: nat
  mt_decode_tokens :: nat
  mt_prefix_hits :: nat
  mt_prefix_misses :: nat
  mt_active_sequences :: nat
  mt_waiting_sequences :: nat

definition default_metrics :: scheduler_metrics where
  "default_metrics = \<lparr>mt_iterations = 0, mt_admitted = 0, mt_preempted = 0, mt_finished = 0,
     mt_failed = 0, mt_cancelled = 0, mt_rejected_overload = 0, mt_prefill_tokens = 0,
     mt_recompute_tokens = 0, mt_decode_tokens = 0, mt_prefix_hits = 0, mt_prefix_misses = 0,
     mt_active_sequences = 0, mt_waiting_sequences = 0\<rparr>"

record iteration_telemetry =
  tl_iteration :: nat
  tl_active_sequences :: nat
  tl_waiting_sequences :: nat
  tl_admitted :: nat
  tl_preempted :: nat
  tl_prefill_tokens :: nat
  tl_recompute_tokens :: nat
  tl_decode_tokens :: nat
  tl_component_used_bytes :: "(string \<times> nat) list"
  tl_component_available_bytes :: "(string \<times> nat) list"
  tl_prefix_hits :: nat
  tl_prefix_misses :: nat
  tl_finished :: nat
  tl_failed :: nat
  tl_cancelled :: nat
  tl_rejected_overload :: nat

section \<open>Basic facts\<close>

lemma length_replay_tokens [simp]:
  "length (replay_tokens s) = length (sq_prompt_tokens s) + (length (sq_generated_tokens s) - 1)"
  by (simp add: replay_tokens_def Let_def)

text \<open>Token vectors are addressable: their total length is a \<open>usize\<close>.\<close>

definition seq_len_ok :: "'s seqn \<Rightarrow> bool" where
  "seq_len_ok s \<longleftrightarrow> length (sq_prompt_tokens s) + length (sq_generated_tokens s) < USIZE_MAX"

lemma recompute_count_is_replay_length:
  "seq_len_ok s \<Longrightarrow> recompute_token_count s = length (replay_tokens s)"
  by (simp add: seq_len_ok_def recompute_token_count_def sat_add_def)

text \<open>Appending the sampled token extends the replay by the token that was pending.\<close>

lemma replay_after_token:
  "sq_generated_tokens s \<noteq> [] \<Longrightarrow>
   replay_tokens (s\<lparr>sq_generated_tokens := sq_generated_tokens s @ [t]\<rparr>) =
     replay_tokens s @ [last (sq_generated_tokens s)]"
  by (cases "sq_generated_tokens s" rule: rev_cases) (simp_all add: replay_tokens_def)

lemma with_prefix_restore_leaves_work:
  "sq_prompt_tokens s \<noteq> [] \<Longrightarrow>
   sq_prefill_cursor (with_prefix_restore r s) < length (replay_tokens (with_prefix_restore r s))"
  by (cases "sq_prompt_tokens s") (auto simp: with_prefix_restore_def)

end
