(* ===== verification/SchedulerEngine.thy ===== *)
theory SchedulerEngine
  imports Sequences
begin

text \<open>
  The continuous-batching scheduler (\<open>crates/skippy-scheduler/src/engine.rs\<close>), every operation
  of \<open>Scheduler\<close>. A clock reading taken inside an operation is a parameter of it (\<open>clock k\<close> is
  the reading of the k-th admission). Durations in \<open>f64\<close> have the type parameter \<open>'f\<close>; the
  operations the code uses on them are the record \<open>f64_ops\<close>.
\<close>

section \<open>State\<close>

datatype admission_error = QueueFull nat | DuplicateSequence string | EmptyPrompt

record scheduler_snapshot =
  sn_active_ids :: "string list"
  sn_waiting_ids :: "string list"
  sn_component_used_bytes :: "(string \<times> nat) list"

record ('s, 'f) scheduler =
  sc_config :: scheduler_config
  sc_waiting :: "'s seqn list"
  sc_active :: "(string, 's seqn) btree"
  sc_component_used_bytes :: "nat list"
  sc_metrics :: scheduler_metrics
  sc_consecutive_prefill_iterations :: nat
  sc_waiting_turn :: nat
  sc_next_waiting_order :: nat
  sc_waiting_order_dirty :: bool
  sc_decode_us_ewma_by_rows :: "(nat, 'f) btree"
  sc_mixed_prefill_viable :: bool
  sc_mixed_decode_cursor :: nat

definition new_scheduler :: "scheduler_config \<Rightarrow> ('s, 'f) scheduler" where
  "new_scheduler c =
     (let config = normalized c
      in \<lparr>sc_config = config, sc_waiting = [], sc_active = [],
          sc_component_used_bytes = replicate (length (memory_components config)) 0,
          sc_metrics = default_metrics, sc_consecutive_prefill_iterations = 0,
          sc_waiting_turn = 0, sc_next_waiting_order = 0, sc_waiting_order_dirty = False,
          sc_decode_us_ewma_by_rows = [], sc_mixed_prefill_viable = True,
          sc_mixed_decode_cursor = 0\<rparr>)"

definition refresh_counts :: "('s, 'f) scheduler \<Rightarrow> ('s, 'f) scheduler" where
  "refresh_counts st =
     st\<lparr>sc_metrics := (sc_metrics st)\<lparr>mt_active_sequences := length (sc_active st),
                                       mt_waiting_sequences := length (sc_waiting st)\<rparr>\<rparr>"

section \<open>Memory accounting\<close>

text \<open>
  \<open>self.component_used_bytes[index]\<close> panics when the vector is shorter than the components;
  the invariant below excludes it.
\<close>

definition can_reserve_memory :: "scheduler_config \<Rightarrow> nat list \<Rightarrow> 's seqn \<Rightarrow> bool" where
  "can_reserve_memory c used s =
     list_all (\<lambda>(component, u). sat_add u (reservation_bytes component (sq_admission_tokens s))
                 \<le> available_bytes component) (zip (memory_components c) used)"

definition reserve_memory :: "scheduler_config \<Rightarrow> 's seqn \<Rightarrow> nat list \<Rightarrow> nat list" where
  "reserve_memory c s used =
     foldl (\<lambda>u (index, component).
        u[index := sat_add (u ! index) (reservation_bytes component (sq_admission_tokens s))])
       used (enumerate 0 (memory_components c))"

definition release_memory :: "scheduler_config \<Rightarrow> 's seqn \<Rightarrow> nat list \<Rightarrow> nat list" where
  "release_memory c s used =
     foldl (\<lambda>u (index, component).
        u[index := sat_sub (u ! index) (reservation_bytes component (sq_admission_tokens s))])
       used (enumerate 0 (memory_components c))"

definition component_over_capacity :: "scheduler_config \<Rightarrow> nat list \<Rightarrow> bool" where
  "component_over_capacity c used =
     list_ex (\<lambda>(component, u). available_bytes component < u) (zip (memory_components c) used)"

definition component_usage :: "('s, 'f) scheduler \<Rightarrow> (string \<times> nat) list" where
  "component_usage st =
     map (\<lambda>(component, u). (mc_name component, u))
       (zip (memory_components (sc_config st)) (sc_component_used_bytes st))"

definition remove_active :: "string \<Rightarrow> ('s, 'f) scheduler \<Rightarrow> ('s, 'f) scheduler" where
  "remove_active i st =
     (case bt_get (sc_active st) i of
        None \<Rightarrow> st
      | Some s \<Rightarrow>
          st\<lparr>sc_active := bt_remove i (sc_active st),
             sc_component_used_bytes :=
               release_memory (sc_config st) s (sc_component_used_bytes st)\<rparr>)"

section \<open>Submission, lookup and cancellation\<close>

definition submit :: "'s seqn \<Rightarrow> ('s, 'f) scheduler \<Rightarrow>
    (admission_error + unit) \<times> ('s, 'f) scheduler" where
  "submit s st =
     (if sq_prompt_tokens s = [] then (Inl EmptyPrompt, st)
      else if bt_get (sc_active st) (sq_id s) \<noteq> None
          \<or> list_ex (\<lambda>queued. sq_id queued = sq_id s) (sc_waiting st)
      then (Inl (DuplicateSequence (sq_id s)), st)
      else if max_waiting_sequences (sc_config st) \<le> length (sc_waiting st)
      then (Inl (QueueFull (max_waiting_sequences (sc_config st))),
            st\<lparr>sc_metrics := (sc_metrics st)\<lparr>mt_rejected_overload :=
                 sat_add (mt_rejected_overload (sc_metrics st)) 1\<rparr>\<rparr>)
      else
        (let m = sc_metrics st;
             m' = (if sq_prefix_restore s \<noteq> None
                   then m\<lparr>mt_prefix_hits := sat_add (mt_prefix_hits m) 1\<rparr>
                   else m\<lparr>mt_prefix_misses := sat_add (mt_prefix_misses m) 1\<rparr>);
             s' = s\<lparr>sq_enqueued_turn := sc_waiting_turn st,
                    sq_enqueue_order := sc_next_waiting_order st\<rparr>
         in (Inr (),
             refresh_counts
               (st\<lparr>sc_metrics := m',
                   sc_next_waiting_order := sat_add (sc_next_waiting_order st) 1,
                   sc_waiting := sc_waiting st @ [s'],
                   sc_waiting_order_dirty := True\<rparr>))))"

definition snapshot :: "('s, 'f) scheduler \<Rightarrow> scheduler_snapshot" where
  "snapshot st = \<lparr>sn_active_ids = bt_keys (sc_active st), sn_waiting_ids = map sq_id (sc_waiting st),
     sn_component_used_bytes = component_usage st\<rparr>"

definition sequence_of :: "('s, 'f) scheduler \<Rightarrow> string \<Rightarrow> 's seqn option" where
  "sequence_of st i =
     (case bt_get (sc_active st) i of
        Some s \<Rightarrow> Some s
      | None \<Rightarrow> find (\<lambda>s. sq_id s = i) (sc_waiting st))"

text \<open>\<open>iter().position(..)\<close> followed by \<open>remove(index)\<close>.\<close>

fun remove_first_waiting :: "string \<Rightarrow> 's seqn list \<Rightarrow> 's seqn list" where
  "remove_first_waiting i [] = []"
| "remove_first_waiting i (s # ss) = (if sq_id s = i then ss else s # remove_first_waiting i ss)"

definition count_cancelled :: "('s, 'f) scheduler \<Rightarrow> ('s, 'f) scheduler" where
  "count_cancelled st =
     refresh_counts (st\<lparr>sc_metrics := (sc_metrics st)\<lparr>mt_cancelled :=
       sat_add (mt_cancelled (sc_metrics st)) 1\<rparr>\<rparr>)"

definition cancel :: "string \<Rightarrow> ('s, 'f) scheduler \<Rightarrow> bool \<times> ('s, 'f) scheduler" where
  "cancel i st =
     (if bt_get (sc_active st) i \<noteq> None
      then (True, count_cancelled (remove_active i st))
      else if list_ex (\<lambda>s. sq_id s = i) (sc_waiting st)
      then (True, count_cancelled (st\<lparr>sc_waiting := remove_first_waiting i (sc_waiting st),
                                       sc_waiting_order_dirty := True\<rparr>))
      else (False, st))"

section \<open>Admission\<close>

fun permutation_scan :: "bool list \<Rightarrow> nat list \<Rightarrow> bool" where
  "permutation_scan seen [] = True"
| "permutation_scan seen (index # rest) =
     (index < length seen \<and> \<not> seen ! index \<and> permutation_scan (seen[index := True]) rest)"

definition is_complete_permutation :: "nat list \<Rightarrow> nat \<Rightarrow> bool" where
  "is_complete_permutation order n \<longleftrightarrow>
     length order = n \<and> permutation_scan (replicate n False) order"

text \<open>\<open>order.into_iter().filter_map(|index| waiting[index].take())\<close>\<close>

fun take_in_order :: "'a option list \<Rightarrow> nat list \<Rightarrow> 'a list" where
  "take_in_order slots [] = []"
| "take_in_order slots (index # rest) =
     (case slots ! index of
        Some x \<Rightarrow> x # take_in_order (slots[index := None]) rest
      | None \<Rightarrow> take_in_order slots rest)"

definition waiting_candidate :: "nat \<times> 's seqn \<Rightarrow> cache_aware_candidate" where
  "waiting_candidate e =
     \<lparr>ca_index = fst e, ca_priority = sq_priority (snd e), ca_affinity = sq_cache_affinity (snd e),
      ca_prompt_tokens = sq_prompt_tokens (snd e), ca_enqueued_turn = sq_enqueued_turn (snd e),
      ca_order = sq_enqueue_order (snd e)\<rparr>"

definition waiting_order :: "('s, 'f) scheduler \<Rightarrow> nat list" where
  "waiting_order st =
     order_cache_aware_candidates (map waiting_candidate (enumerate 0 (sc_waiting st)))
       (sc_waiting_turn st) (cache_aging_cost_per_iteration (sc_config st))
       (group_waiting_prefixes (sc_config st))"

definition reorder_waiting :: "('s, 'f) scheduler \<Rightarrow> ('s, 'f) scheduler" where
  "reorder_waiting st =
     (if sc_waiting_order_dirty st then
        (let order = waiting_order st;
             st' = (if is_complete_permutation order (length (sc_waiting st))
                    then st\<lparr>sc_waiting := take_in_order (map Some (sc_waiting st)) order\<rparr> else st)
         in st'\<lparr>sc_waiting_order_dirty := False\<rparr>)
      else st)"

text \<open>The \<open>while let Some(sequence) = self.waiting.pop_front()\<close> loop.\<close>

fun admit_loop :: "(nat \<Rightarrow> nat) \<Rightarrow> scheduler_config \<Rightarrow> 's seqn list \<Rightarrow>
    (string, 's seqn) btree \<Rightarrow> nat list \<Rightarrow> 's seqn list \<Rightarrow> nat \<Rightarrow>
    (string, 's seqn) btree \<times> nat list \<times> 's seqn list \<times> nat" where
  "admit_loop clock c [] active used deferred admitted = (active, used, deferred, admitted)"
| "admit_loop clock c (s # waiting) active used deferred admitted =
     (if max_active_sequences c \<le> length active \<or> \<not> can_reserve_memory c used s
      then admit_loop clock c waiting active used (deferred @ [s]) admitted
      else admit_loop clock c waiting
             (bt_insert (sq_id s)
                (s\<lparr>sq_status := Running, sq_admitted_at := Some (clock admitted)\<rparr>) active)
             (reserve_memory c s used) deferred (admitted + 1))"

definition admit_waiting :: "(nat \<Rightarrow> nat) \<Rightarrow> ('s, 'f) scheduler \<Rightarrow> nat \<times> ('s, 'f) scheduler" where
  "admit_waiting clock st0 =
     (let st = reorder_waiting st0;
          (active, used, deferred, admitted) =
            admit_loop clock (sc_config st) (sc_waiting st) (sc_active st)
              (sc_component_used_bytes st) [] 0
      in (admitted, refresh_counts (st\<lparr>sc_active := active, sc_component_used_bytes := used,
                                        sc_waiting := deferred\<rparr>)))"

section \<open>Planning an iteration\<close>

definition contiguous_positions :: "nat \<Rightarrow> nat \<Rightarrow> int list" where
  "contiguous_positions start cnt =
     map (\<lambda>position. min (int position) I32_MAX) [start..<sat_add start cnt]"

text \<open>The locals of the planning loops.\<close>

record 's plan_state =
  ps_active :: "(string, 's seqn) btree"
  ps_plan :: "'s iteration_plan"
  ps_budget :: nat
  ps_prefill_sequences :: nat

definition push_work :: "string \<Rightarrow> 's seqn \<Rightarrow> 's iteration_work \<Rightarrow> nat \<Rightarrow> 's plan_state \<Rightarrow> 's plan_state" where
  "push_work i s w cnt ps =
     ps\<lparr>ps_active := bt_insert i s (ps_active ps),
        ps_plan := (ps_plan ps)\<lparr>pl_work := pl_work (ps_plan ps) @ [w],
                                 pl_token_count := pl_token_count (ps_plan ps) + cnt\<rparr>,
        ps_budget := ps_budget ps - cnt\<rparr>"

text \<open>The prefill arm, which both planning loops contain.\<close>

definition prefill_arm :: "scheduler_config \<Rightarrow> string \<Rightarrow> 's seqn \<Rightarrow> 's plan_state \<Rightarrow> 's plan_state" where
  "prefill_arm c i s ps =
     (let replay = replay_tokens s;
          cnt = min (min (prefill_chunk_tokens c) (length replay - sq_prefill_cursor s))
                    (ps_budget ps);
          start = sq_prefill_cursor s;
          end' = start + cnt;
          phase = (if sq_generated_tokens s = [] then Prefill else Recompute);
          sample_last = (end' = length replay \<and> sq_generated_tokens s = []);
          w = \<lparr>wk_sequence_id = i, wk_tokens = drop start (take end' replay),
               wk_positions = contiguous_positions start cnt, wk_sample_last = sample_last,
               wk_phase = phase, wk_sampling = sq_sampling s\<rparr>;
          ps' = push_work i (s\<lparr>sq_prefill_cursor := end'\<rparr>) w cnt ps
      in ps'\<lparr>ps_prefill_sequences := ps_prefill_sequences ps + 1\<rparr>)"

text \<open>The decode arm; \<open>base\<close> is the replay length as each loop computes it.\<close>

definition decode_arm :: "nat \<Rightarrow> string \<Rightarrow> 's seqn \<Rightarrow> int \<Rightarrow> 's plan_state \<Rightarrow> 's plan_state" where
  "decode_arm base i s token ps =
     push_work i (s\<lparr>sq_prefill_cursor := sat_add base 1\<rparr>)
       \<lparr>wk_sequence_id = i, wk_tokens = [token], wk_positions = contiguous_positions base 1,
        wk_sample_last = True, wk_phase = Decode, wk_sampling = sq_sampling s\<rparr> 1 ps"

fun plan_loop :: "scheduler_config \<Rightarrow> bool \<Rightarrow> string list \<Rightarrow> 's plan_state \<Rightarrow> 's plan_state" where
  "plan_loop c run_prefill [] ps = ps"
| "plan_loop c run_prefill (i # ids) ps =
     (if ps_budget ps = 0 then ps
      else case bt_get (ps_active ps) i of
        None \<Rightarrow> plan_loop c run_prefill ids ps
      | Some s \<Rightarrow>
          if sq_prefill_cursor s < length (replay_tokens s) then
            (if \<not> run_prefill then plan_loop c run_prefill ids ps
             else if max_prefill_sequences_per_iteration c \<le> ps_prefill_sequences ps
             then plan_loop c run_prefill ids ps
             else plan_loop c run_prefill ids (prefill_arm c i s ps))
          else if run_prefill then plan_loop c run_prefill ids ps
          else case pending_decode_token s of
            Some token \<Rightarrow>
              plan_loop c run_prefill ids (decode_arm (length (replay_tokens s)) i s token ps)
          | None \<Rightarrow> plan_loop c run_prefill ids ps)"

text \<open>The rotating decode loop of \<open>plan_mixed_iteration\<close>; it also returns \<open>decode_examined\<close>.\<close>

fun mixed_decode_loop :: "string list \<Rightarrow> nat \<Rightarrow> nat list \<Rightarrow> nat \<Rightarrow> 's plan_state \<Rightarrow>
    nat \<times> 's plan_state" where
  "mixed_decode_loop ids start [] examined ps = (examined, ps)"
| "mixed_decode_loop ids start (offset # offsets) examined ps =
     (if ps_budget ps = 0 then (examined, ps)
      else
        (let i = ids ! ((start + offset) mod length ids)
         in case bt_get (ps_active ps) i of
              None \<Rightarrow> mixed_decode_loop ids start offsets (offset + 1) ps
            | Some s \<Rightarrow>
                if sq_prefill_cursor s < recompute_token_count s
                then mixed_decode_loop ids start offsets (offset + 1) ps
                else case pending_decode_token s of
                  None \<Rightarrow> mixed_decode_loop ids start offsets (offset + 1) ps
                | Some token \<Rightarrow>
                    mixed_decode_loop ids start offsets (offset + 1)
                      (decode_arm (recompute_token_count s) i s token ps)))"

fun mixed_prefill_loop :: "scheduler_config \<Rightarrow> string list \<Rightarrow> 's plan_state \<Rightarrow> 's plan_state" where
  "mixed_prefill_loop c [] ps = ps"
| "mixed_prefill_loop c (i # ids) ps =
     (if ps_budget ps = 0 \<or> max_prefill_sequences_per_iteration c \<le> ps_prefill_sequences ps then ps
      else case bt_get (ps_active ps) i of
        None \<Rightarrow> mixed_prefill_loop c ids ps
      | Some s \<Rightarrow>
          if length (replay_tokens s) \<le> sq_prefill_cursor s then mixed_prefill_loop c ids ps
          else mixed_prefill_loop c ids (prefill_arm c i s ps))"

definition plan_mixed_iteration :: "('s, 'f) scheduler \<Rightarrow> 's iteration_plan \<Rightarrow>
    's iteration_plan \<times> ('s, 'f) scheduler" where
  "plan_mixed_iteration st plan =
     (let ids = bt_keys (sc_active st);
          start = (if ids = [] then 0 else sc_mixed_decode_cursor st mod length ids);
          ps0 = \<lparr>ps_active = sc_active st, ps_plan = plan,
                 ps_budget = max_tokens_per_iteration (sc_config st), ps_prefill_sequences = 0\<rparr>;
          (examined, ps1) = mixed_decode_loop ids start [0..<length ids] 0 ps0;
          cursor = (if ids \<noteq> [] then (start + examined) mod length ids
                    else sc_mixed_decode_cursor st);
          ps2 = mixed_prefill_loop (sc_config st) ids ps1
      in (ps_plan ps2,
          st\<lparr>sc_active := ps_active ps2, sc_mixed_decode_cursor := cursor,
             sc_consecutive_prefill_iterations := 0\<rparr>))"

definition wants_prefill :: "'s seqn \<Rightarrow> bool" where
  "wants_prefill s \<longleftrightarrow> sq_prefill_cursor s < recompute_token_count s"

definition live_decode :: "'s seqn \<Rightarrow> bool" where
  "live_decode s \<longleftrightarrow> recompute_token_count s \<le> sq_prefill_cursor s \<and> pending_decode_token s \<noteq> None"

definition calibrated_decode_rows :: "('s, 'f) scheduler \<Rightarrow> nat" where
  "calibrated_decode_rows st =
     min (length (filter live_decode (bt_values (sc_active st))))
       (max_tokens_per_iteration (sc_config st))"

definition run_prefill_phase :: "('s, 'f) scheduler \<Rightarrow> bool" where
  "run_prefill_phase st =
     (let ids = bt_keys (sc_active st);
          has_prefill = list_ex (\<lambda>i. case bt_get (sc_active st) i of
             Some s \<Rightarrow> wants_prefill s | None \<Rightarrow> False) ids;
          has_live_decode = list_ex (\<lambda>i. case bt_get (sc_active st) i of
             Some s \<Rightarrow> live_decode s | None \<Rightarrow> False) ids
      in has_prefill \<and>
         (\<not> has_live_decode \<or>
          sc_consecutive_prefill_iterations st < max_consecutive_prefill_iterations (sc_config st)))"

definition plan_separate_iteration :: "('s, 'f) scheduler \<Rightarrow> 's iteration_plan \<Rightarrow>
    's iteration_plan \<times> ('s, 'f) scheduler" where
  "plan_separate_iteration st plan =
     (let ids = bt_keys (sc_active st);
          has_live_decode = list_ex (\<lambda>i. case bt_get (sc_active st) i of
             Some s \<Rightarrow> live_decode s | None \<Rightarrow> False) ids;
          ps = plan_loop (sc_config st) (run_prefill_phase st) ids
                 \<lparr>ps_active = sc_active st, ps_plan = plan,
                  ps_budget = max_tokens_per_iteration (sc_config st), ps_prefill_sequences = 0\<rparr>;
          work = pl_work (ps_plan ps);
          consecutive =
            (if list_ex (\<lambda>w. wk_phase w \<noteq> Decode) work then
               (if has_live_decode then sat_add (sc_consecutive_prefill_iterations st) 1 else 0)
             else if list_ex (\<lambda>w. wk_phase w = Decode) work then 0
             else sc_consecutive_prefill_iterations st)
      in (ps_plan ps,
          st\<lparr>sc_active := ps_active ps, sc_consecutive_prefill_iterations := consecutive\<rparr>))"

definition plan_iteration :: "(nat \<Rightarrow> nat) \<Rightarrow> ('s, 'f) scheduler \<Rightarrow>
    's iteration_plan \<times> ('s, 'f) scheduler" where
  "plan_iteration clock st0 =
     (let st1 = st0\<lparr>sc_waiting_turn := sat_add (sc_waiting_turn st0) 1\<rparr>;
          (admitted, st) = admit_waiting clock st1;
          plan = \<lparr>pl_work = [], pl_token_count = 0, pl_admitted = admitted, pl_preempted = 0\<rparr>;
          rows = calibrated_decode_rows st
      in if mixed_prefill_decode (sc_config st) \<and> sc_mixed_prefill_viable st \<and> 0 < rows
            \<and> bt_get (sc_decode_us_ewma_by_rows st) rows \<noteq> None
         then plan_mixed_iteration st plan
         else plan_separate_iteration st plan)"

section \<open>Duration feedback\<close>

record 'f f64_ops =
  f_elapsed_us :: "nat \<Rightarrow> 'f"
  f_lit :: "nat \<Rightarrow> nat \<Rightarrow> 'f"
  f_is_finite :: "'f \<Rightarrow> bool"
  f_le :: "'f \<Rightarrow> 'f \<Rightarrow> bool"
  f_lt :: "'f \<Rightarrow> 'f \<Rightarrow> bool"
  f_add :: "'f \<Rightarrow> 'f \<Rightarrow> 'f"
  f_sub :: "'f \<Rightarrow> 'f \<Rightarrow> 'f"
  f_mul :: "'f \<Rightarrow> 'f \<Rightarrow> 'f"
  f_max :: "'f \<Rightarrow> 'f \<Rightarrow> 'f"
  f_clamp :: "'f \<Rightarrow> 'f \<Rightarrow> 'f \<Rightarrow> 'f"

text \<open>\<open>f_lit a b\<close> is the literal a/b: 0.25, 0.20, 8000.0, 20000.0.\<close>

definition update_duration_ewma :: "'f f64_ops \<Rightarrow> 'f \<Rightarrow> 'f \<Rightarrow> 'f" where
  "update_duration_ewma F estimate sample =
     (if \<not> f_is_finite F sample \<or> f_le F sample (f_lit F 0 1) then estimate
      else f_add F estimate (f_mul F (f_lit F 1 4) (f_sub F sample estimate)))"

definition observe_iteration_duration :: "'f f64_ops \<Rightarrow> 's iteration_plan \<Rightarrow> nat \<Rightarrow>
    ('s, 'f) scheduler \<Rightarrow> ('s, 'f) scheduler" where
  "observe_iteration_duration F plan elapsed st =
     (let elapsed_us = f_elapsed_us F elapsed
      in if \<not> f_is_finite F elapsed_us \<or> f_le F elapsed_us (f_lit F 0 1) then st
         else
           (let prefill_tokens = sum_list (map (\<lambda>w. length (wk_tokens w))
                  (filter (\<lambda>w. wk_phase w \<noteq> Decode) (pl_work plan)));
                decode_rows = length (filter (\<lambda>w. wk_phase w = Decode) (pl_work plan));
                ewma = sc_decode_us_ewma_by_rows st
            in if decode_rows = 0 then st
               else if prefill_tokens = 0 then
                 st\<lparr>sc_decode_us_ewma_by_rows := bt_insert decode_rows
                      (update_duration_ewma F
                         (case bt_get ewma decode_rows of Some e \<Rightarrow> e | None \<Rightarrow> elapsed_us)
                         elapsed_us) ewma\<rparr>
               else case bt_get ewma decode_rows of
                 None \<Rightarrow> st
               | Some predicted \<Rightarrow>
                   (let observed = f_max F (f_sub F elapsed_us predicted) (f_lit F 1 1);
                        allowed = f_clamp F (f_mul F predicted (f_lit F 20 100))
                                    (f_lit F 8000 1) (f_lit F 20000 1)
                    in if f_lt F allowed observed then st\<lparr>sc_mixed_prefill_viable := False\<rparr>
                       else st)))"

section \<open>Completing an iteration\<close>

text \<open>
  The fold over the predictions: a slot for each row of the plan, emptied again and marked when a
  second prediction names it.
\<close>

definition place_prediction :: "int option list \<times> bool list \<Rightarrow> iteration_prediction \<Rightarrow>
    int option list \<times> bool list" where
  "place_prediction st p =
     (if length (fst st) \<le> pd_work_index p then st
      else if fst st ! pd_work_index p \<noteq> None
      then ((fst st)[pd_work_index p := None], (snd st)[pd_work_index p := True])
      else if \<not> snd st ! pd_work_index p
      then ((fst st)[pd_work_index p := Some (pd_token p)], snd st)
      else st)"

definition predicted_tokens :: "nat \<Rightarrow> iteration_prediction list \<Rightarrow> int option list" where
  "predicted_tokens n predictions =
     fst (foldl place_prediction (replicate n None, replicate n False) predictions)"

text \<open>One turn of the loop over the work; the state is the active map and \<open>terminal\<close>.\<close>

definition complete_work :: "int option list \<Rightarrow> (string, 's seqn) btree \<times> (string \<times> bool) list \<Rightarrow>
    nat \<times> 's iteration_work \<Rightarrow> (string, 's seqn) btree \<times> (string \<times> bool) list" where
  "complete_work predicted st e =
     (let (index, w) = e; i = wk_sequence_id w
      in if \<not> wk_sample_last w then st
         else case bt_get (fst st) i of
           None \<Rightarrow> st
         | Some s \<Rightarrow>
             (case Option.bind (slice_get predicted index) (\<lambda>t. t) of
                None \<Rightarrow> (bt_insert i (s\<lparr>sq_status := Failed\<rparr>) (fst st), snd st @ [(i, True)])
              | Some t \<Rightarrow>
                  if t < 0
                  then (bt_insert i (s\<lparr>sq_status := Finished\<rparr>) (fst st), snd st @ [(i, False)])
                  else
                    (let s' = s\<lparr>sq_generated_tokens := sq_generated_tokens s @ [t]\<rparr>
                     in if sq_max_tokens s' \<le> length (sq_generated_tokens s')
                        then (bt_insert i (s'\<lparr>sq_status := Finished\<rparr>) (fst st), snd st @ [(i, False)])
                        else (bt_insert i s' (fst st), snd st))))"

definition retire :: "('s, 'f) scheduler \<Rightarrow> string \<times> bool \<Rightarrow> ('s, 'f) scheduler" where
  "retire st e =
     (let st' = remove_active (fst e) st; m = sc_metrics st'
      in st'\<lparr>sc_metrics := if snd e then m\<lparr>mt_failed := sat_add (mt_failed m) 1\<rparr>
                            else m\<lparr>mt_finished := sat_add (mt_finished m) 1\<rparr>\<rparr>)"

definition phase_tokens :: "iteration_phase \<Rightarrow> 's iteration_plan \<Rightarrow> nat" where
  "phase_tokens p plan =
     sum_list (map (\<lambda>w. length (wk_tokens w)) (filter (\<lambda>w. wk_phase w = p) (pl_work plan)))"

definition count_iteration :: "'s iteration_plan \<Rightarrow> ('s, 'f) scheduler \<Rightarrow> ('s, 'f) scheduler" where
  "count_iteration plan st =
     (let m = sc_metrics st
      in refresh_counts (st\<lparr>sc_metrics :=
           m\<lparr>mt_iterations := sat_add (mt_iterations m) 1,
             mt_admitted := sat_add (mt_admitted m) (pl_admitted plan),
             mt_prefill_tokens := sat_add (mt_prefill_tokens m) (phase_tokens Prefill plan),
             mt_recompute_tokens := sat_add (mt_recompute_tokens m) (phase_tokens Recompute plan),
             mt_decode_tokens := sat_add (mt_decode_tokens m) (phase_tokens Decode plan)\<rparr>\<rparr>))"

definition iteration_report :: "'s iteration_plan \<Rightarrow> ('s, 'f) scheduler \<Rightarrow> iteration_telemetry" where
  "iteration_report plan st =
     (let m = sc_metrics st
      in \<lparr>tl_iteration = mt_iterations m, tl_active_sequences = length (sc_active st),
          tl_waiting_sequences = length (sc_waiting st), tl_admitted = pl_admitted plan,
          tl_preempted = pl_preempted plan, tl_prefill_tokens = phase_tokens Prefill plan,
          tl_recompute_tokens = phase_tokens Recompute plan,
          tl_decode_tokens = phase_tokens Decode plan,
          tl_component_used_bytes = component_usage st,
          tl_component_available_bytes =
            map (\<lambda>c. (mc_name c, available_bytes c)) (memory_components (sc_config st)),
          tl_prefix_hits = mt_prefix_hits m, tl_prefix_misses = mt_prefix_misses m,
          tl_finished = mt_finished m, tl_failed = mt_failed m, tl_cancelled = mt_cancelled m,
          tl_rejected_overload = mt_rejected_overload m\<rparr>)"

definition complete_iteration :: "'s iteration_plan \<Rightarrow> iteration_prediction list \<Rightarrow>
    ('s, 'f) scheduler \<Rightarrow> iteration_telemetry \<times> ('s, 'f) scheduler" where
  "complete_iteration plan predictions st =
     (let predicted = predicted_tokens (length (pl_work plan)) predictions;
          (active, terminal) =
            foldl (complete_work predicted) (sc_active st, []) (enumerate 0 (pl_work plan));
          st' = count_iteration plan (foldl retire (st\<lparr>sc_active := active\<rparr>) terminal)
      in (iteration_report plan st', st'))"

section \<open>Preemption\<close>

text \<open>The least priority first, then the most recently admitted.\<close>

definition victim_cmp :: "nat \<Rightarrow> 's seqn \<Rightarrow> 's seqn \<Rightarrow> ordering" where
  "victim_cmp now l r =
     then_with (cmp (sq_priority l) (sq_priority r))
       (cmp (case sq_admitted_at r of Some t \<Rightarrow> t | None \<Rightarrow> now)
            (case sq_admitted_at l of Some t \<Rightarrow> t | None \<Rightarrow> now))"

definition preemption_victim :: "nat \<Rightarrow> (string, 's seqn) btree \<Rightarrow> string option" where
  "preemption_victim now active = map_option sq_id (min_by (victim_cmp now) (bt_values active))"

function preempt_loop :: "nat \<Rightarrow> ('s, 'f) scheduler \<Rightarrow> string list \<Rightarrow>
    string list \<times> ('s, 'f) scheduler" where
  "preempt_loop now st preempted =
     (if \<not> component_over_capacity (sc_config st) (sc_component_used_bytes st) then (preempted, st)
      else case preemption_victim now (sc_active st) of
        None \<Rightarrow> (preempted, st)
      | Some victim \<Rightarrow>
          (case bt_get (sc_active st) victim of
             None \<Rightarrow> (preempted, st)
           | Some s \<Rightarrow>
               preempt_loop now
                 (st\<lparr>sc_active := bt_remove victim (sc_active st),
                     sc_component_used_bytes :=
                       release_memory (sc_config st) s (sc_component_used_bytes st),
                     sc_waiting := (reset_for_recompute s)\<lparr>sq_enqueue_order := sc_next_waiting_order st\<rparr>
                       # sc_waiting st,
                     sc_next_waiting_order := sat_add (sc_next_waiting_order st) 1,
                     sc_waiting_order_dirty := True,
                     sc_metrics := (sc_metrics st)\<lparr>mt_preempted :=
                       sat_add (mt_preempted (sc_metrics st)) 1\<rparr>\<rparr>)
                 (preempted @ [victim])))"
  by pat_completeness auto

lemma bt_remove_shorter: "bt_get m k = Some v \<Longrightarrow> length (bt_remove k m) < length m"
proof -
  assume "bt_get m k = Some v"
  then have "(k, v) \<in> set m" by (rule bt_get_Some_mem)
  then show ?thesis unfolding bt_remove_def by (intro length_filter_less [of "(k, v)"]) simp_all
qed

termination preempt_loop
  by (relation "measure (\<lambda>(_, st, _). length (sc_active st))") (auto simp: bt_remove_shorter)

declare preempt_loop.simps [simp del]

text \<open>\<open>iter_mut().zip(..)\<close> overwrites the common prefix.\<close>

fun overwrite_prefix :: "'a list \<Rightarrow> 'a list \<Rightarrow> 'a list" where
  "overwrite_prefix (x # xs) (y # ys) = y # overwrite_prefix xs ys"
| "overwrite_prefix xs ys = xs"

definition preempt_for_component_pressure :: "nat \<Rightarrow> nat list \<Rightarrow> ('s, 'f) scheduler \<Rightarrow>
    string list \<times> ('s, 'f) scheduler" where
  "preempt_for_component_pressure now used st =
     (let (preempted, st') = preempt_loop now
            (st\<lparr>sc_component_used_bytes := overwrite_prefix (sc_component_used_bytes st) used\<rparr>) []
      in (preempted, refresh_counts st'))"

end
