(* ===== verification/SchedulerInvariant.thy ===== *)
theory SchedulerInvariant
  imports SchedulerEngine
begin

text \<open>
  The invariant of the scheduler's state, its preservation by every operation, and what each
  operation does to the ids of the requests.
\<close>

section \<open>The waiting queue is permuted by the reordering\<close>

lemma permutation_scan_distinct:
  "permutation_scan seen is \<longleftrightarrow>
     distinct is \<and> (\<forall>i \<in> set is. i < length seen \<and> \<not> seen ! i)"
  by (induction "is" arbitrary: seen) (auto simp: nth_list_update split: if_splits)

lemma is_complete_permutation_iff:
  "is_complete_permutation order n \<longleftrightarrow> mset order = mset [0..<n]"
proof
  assume "is_complete_permutation order n"
  then have "length order = n" "distinct order" "set order \<subseteq> {0..<n}"
    by (auto simp: is_complete_permutation_def permutation_scan_distinct)
  moreover from this have "set order = {0..<n}"
    by (metis card_atLeastLessThan card_subset_eq distinct_card finite_atLeastLessThan diff_zero)
  ultimately show "mset order = mset [0..<n]"
    by (metis distinct_upt set_eq_iff_mset_eq_distinct set_upt)
next
  assume m: "mset order = mset [0..<n]"
  then have "length order = n" "set order = {0..<n}" "distinct order"
    using mset_eq_length [OF m] mset_eq_setD [OF m] mset_eq_imp_distinct_iff [OF m] by auto
  then show "is_complete_permutation order n"
    by (simp add: is_complete_permutation_def permutation_scan_distinct)
qed

lemma waiting_order_complete:
  "is_complete_permutation (waiting_order st) (length (sc_waiting st))"
proof -
  have "map ca_index (map waiting_candidate (enumerate 0 (sc_waiting st))) = [0..<length (sc_waiting st)]"
    by (simp add: waiting_candidate_def comp_def)
  then have "mset (waiting_order st) = mset [0..<length (sc_waiting st)]"
    unfolding waiting_order_def order_cache_aware_candidates_def
    using mset_cache_order [of "map waiting_candidate (enumerate 0 (sc_waiting st))"]
    by (simp only:)
  then show ?thesis by (simp only: is_complete_permutation_iff)
qed

lemma take_in_order_eq:
  "distinct is \<Longrightarrow> \<forall>i \<in> set is. i < length slots \<and> slots ! i \<noteq> None \<Longrightarrow>
   take_in_order slots is = map (\<lambda>i. the (slots ! i)) is"
proof (induction "is" arbitrary: slots)
  case Nil
  then show ?case by simp
next
  case (Cons i "is")
  then have i: "i \<notin> set is" and "distinct is" by simp_all
  have "\<forall>j \<in> set is. j < length (slots[i := None]) \<and> slots[i := None] ! j \<noteq> None"
    using Cons.prems i by (metis length_list_update list.set_intros(2) nth_list_update_neq)
  then have "take_in_order (slots[i := None]) is = map (\<lambda>j. the (slots[i := None] ! j)) is"
    by (rule Cons.IH [OF \<open>distinct is\<close>])
  also have "\<dots> = map (\<lambda>j. the (slots ! j)) is"
    using i by (intro map_cong refl) (metis nth_list_update_neq)
  finally show ?case using Cons.prems(2) by auto
qed

lemma mset_take_in_order:
  assumes "is_complete_permutation order (length xs)"
  shows "mset (take_in_order (map Some xs) order) = mset xs"
proof -
  have m: "mset order = mset [0..<length xs]" using assms by (simp only: is_complete_permutation_iff)
  then have o: "distinct order" "set order = {0..<length xs}"
    using mset_eq_setD [OF m] mset_eq_imp_distinct_iff [OF m] by auto
  then have "take_in_order (map Some xs) order = map (\<lambda>i. the (map Some xs ! i)) order"
    by (intro take_in_order_eq) auto
  also have "\<dots> = map ((!) xs) order" using o(2) by auto
  finally have "mset (take_in_order (map Some xs) order) = image_mset ((!) xs) (mset order)" by simp
  also have "\<dots> = mset (map ((!) xs) [0..<length xs])" unfolding m by simp
  finally show ?thesis by (simp only: map_nth)
qed

lemma reorder_waiting_simps [simp]:
  "sc_config (reorder_waiting st) = sc_config st"
  "sc_active (reorder_waiting st) = sc_active st"
  "sc_component_used_bytes (reorder_waiting st) = sc_component_used_bytes st"
  "sc_metrics (reorder_waiting st) = sc_metrics st"
  "mset (sc_waiting (reorder_waiting st)) = mset (sc_waiting st)"
  by (auto simp: reorder_waiting_def Let_def mset_take_in_order)

lemma set_reorder_waiting [simp]: "set (sc_waiting (reorder_waiting st)) = set (sc_waiting st)"
  by (metis reorder_waiting_simps(5) set_mset_mset)

section \<open>The invariant\<close>

definition active_ok :: "(string, 's seqn) btree \<Rightarrow> bool" where
  "active_ok m \<longleftrightarrow> bt_wf m \<and> (\<forall>(i, s) \<in> set m.
     sq_id s = i \<and> sq_status s = Running \<and> sq_admitted_at s \<noteq> None \<and> sq_prompt_tokens s \<noteq> [])"

definition all_ids :: "('s, 'f) scheduler \<Rightarrow> string multiset" where
  "all_ids st = mset (bt_keys (sc_active st)) + mset (map sq_id (sc_waiting st))"

definition unique_ids :: "('s, 'f) scheduler \<Rightarrow> bool" where
  "unique_ids st \<longleftrightarrow> distinct (bt_keys (sc_active st) @ map sq_id (sc_waiting st))"

definition scheduler_core :: "('s, 'f) scheduler \<Rightarrow> bool" where
  "scheduler_core st \<longleftrightarrow> config_ok (sc_config st) \<and>
     length (sc_component_used_bytes st) = length (memory_components (sc_config st)) \<and>
     active_ok (sc_active st) \<and>
     (\<forall>s \<in> set (sc_waiting st). sq_prompt_tokens s \<noteq> []) \<and>
     unique_ids st \<and>
     length (sc_active st) \<le> max_active_sequences (sc_config st)"

definition scheduler_ok :: "('s, 'f) scheduler \<Rightarrow> bool" where
  "scheduler_ok st \<longleftrightarrow> scheduler_core st \<and>
     mt_active_sequences (sc_metrics st) = length (sc_active st) \<and>
     mt_waiting_sequences (sc_metrics st) = length (sc_waiting st)"

lemma unique_ids_iff: "unique_ids st \<longleftrightarrow> (\<forall>i. count (all_ids st) i \<le> 1)"
  unfolding unique_ids_def all_ids_def
  by (simp only: distinct_iff_count_le mset_append)

lemma unique_ids_mono: "all_ids st' \<subseteq># all_ids st \<Longrightarrow> unique_ids st \<Longrightarrow> unique_ids st'"
  unfolding unique_ids_iff by (meson mset_subset_eq_count order_trans)

lemma refresh_counts_simps [simp]:
  "sc_config (refresh_counts st) = sc_config st"
  "sc_active (refresh_counts st) = sc_active st"
  "sc_waiting (refresh_counts st) = sc_waiting st"
  "sc_component_used_bytes (refresh_counts st) = sc_component_used_bytes st"
  "all_ids (refresh_counts st) = all_ids st"
  by (simp_all add: refresh_counts_def all_ids_def)

lemma refresh_counts_ok: "scheduler_core st \<Longrightarrow> scheduler_ok (refresh_counts st)"
  by (simp add: scheduler_ok_def scheduler_core_def unique_ids_def refresh_counts_def)

lemma active_ok_insert:
  "active_ok m \<Longrightarrow> sq_id s = i \<Longrightarrow> sq_status s = Running \<Longrightarrow> sq_admitted_at s \<noteq> None \<Longrightarrow>
   sq_prompt_tokens s \<noteq> [] \<Longrightarrow> active_ok (bt_insert i s m)"
  using set_bt_insert [of i s m] by (auto simp: active_ok_def)

lemma active_ok_remove: "active_ok m \<Longrightarrow> active_ok (bt_remove i m)"
  by (auto simp: active_ok_def set_bt_remove)

lemma active_ok_get:
  "active_ok m \<Longrightarrow> bt_get m i = Some s \<Longrightarrow> sq_id s = i \<and> sq_status s = Running \<and>
     sq_admitted_at s \<noteq> None \<and> sq_prompt_tokens s \<noteq> []"
  by (auto simp: active_ok_def dest: bt_get_Some_mem)

lemma reserve_memory_eq:
  "length used = length (memory_components c) \<Longrightarrow> reserve_memory c s used =
     map2 (\<lambda>u component. sat_add u (reservation_bytes component (sq_admission_tokens s)))
       used (memory_components c)"
  unfolding reserve_memory_def by (rule foldl_update_map2)

lemma release_memory_eq:
  "length used = length (memory_components c) \<Longrightarrow> release_memory c s used =
     map2 (\<lambda>u component. sat_sub u (reservation_bytes component (sq_admission_tokens s)))
       used (memory_components c)"
  unfolding release_memory_def by (rule foldl_update_map2)

lemma length_reserve_memory [simp]: "length (reserve_memory c s used) = length used"
  unfolding reserve_memory_def by (rule foldl_update_length)

lemma length_release_memory [simp]: "length (release_memory c s used) = length used"
  unfolding release_memory_def by (rule foldl_update_length)

text \<open>Admission: the loop only moves sequences from the queue to the active map.\<close>

lemma admit_loop_invariant:
  assumes "admit_loop clock c waiting active used deferred admitted = (active', used', deferred', n)"
    and "active_ok active" and "distinct (map fst active @ map sq_id (deferred @ waiting))"
    and "\<forall>s \<in> set (deferred @ waiting). sq_prompt_tokens s \<noteq> []"
  shows "active_ok active' \<and> length used' = length used \<and>
    mset (map fst active') + mset (map sq_id deferred') =
      mset (map fst active) + mset (map sq_id (deferred @ waiting)) \<and>
    (\<forall>s \<in> set deferred'. sq_prompt_tokens s \<noteq> []) \<and>
    (length active \<le> max_active_sequences c \<longrightarrow> length active' \<le> max_active_sequences c)"
  using assms
proof (induction clock c waiting active used deferred admitted rule: admit_loop.induct)
  case (1 clock c active used deferred admitted)
  then show ?case by simp
next
  case (2 clock c s waiting active used deferred admitted)
  show ?case
  proof (cases "max_active_sequences c \<le> length active \<or> \<not> can_reserve_memory c used s")
    case True
    then show ?thesis using "2.IH"(1) [OF True] "2.prems" by simp
  next
    case False
    let ?s = "s\<lparr>sq_status := Running, sq_admitted_at := Some (clock admitted)\<rparr>"
    let ?m = "bt_insert (sq_id s) ?s active"
    have new: "sq_id s \<notin> set (map fst active)" using "2.prems"(3) by auto
    have "bt_wf active" using "2.prems"(2) by (simp add: active_ok_def)
    then have len: "length ?m = Suc (length active)" using new by (simp add: length_bt_insert)
    have keys: "mset (map fst ?m) = add_mset (sq_id s) (mset (map fst active))"
      by (rule mset_keys_insert_new [OF new])
    have ok: "active_ok ?m" using "2.prems" by (intro active_ok_insert) auto
    have dist: "distinct (map fst ?m @ map sq_id (deferred @ waiting))"
    proof -
      have "mset (map fst ?m @ map sq_id (deferred @ waiting)) =
          mset (map fst active @ map sq_id (deferred @ s # waiting))" using keys by simp
      then show ?thesis using "2.prems"(3) mset_eq_imp_distinct_iff by blast
    qed
    have "admit_loop clock c waiting ?m (reserve_memory c s used) deferred (admitted + 1)
        = (active', used', deferred', n)" using "2.prems"(1) False by simp
    from "2.IH"(2) [OF False this ok dist] "2.prems"(4)
    show ?thesis using keys len False by simp
  qed
qed

lemma admit_waiting_core:
  assumes "scheduler_core st"
  shows "scheduler_core (snd (admit_waiting clock st)) \<and>
    scheduler_ok (snd (admit_waiting clock st)) \<and>
    all_ids (snd (admit_waiting clock st)) = all_ids st \<and>
    sc_config (snd (admit_waiting clock st)) = sc_config st"
proof -
  let ?st = "reorder_waiting st"
  obtain active used deferred n where loop: "admit_loop clock (sc_config st) (sc_waiting ?st)
      (sc_active st) (sc_component_used_bytes st) [] 0 = (active, used, deferred, n)"
    by (metis prod_cases4)
  have m: "mset (map sq_id (sc_waiting ?st)) = mset (map sq_id (sc_waiting st))"
    by (simp only: mset_map reorder_waiting_simps)
  then have "mset (map fst (sc_active st) @ map sq_id ([] @ sc_waiting ?st)) =
      mset (bt_keys (sc_active st) @ map sq_id (sc_waiting st))" by (simp add: bt_keys_def)
  then have dist: "distinct (map fst (sc_active st) @ map sq_id ([] @ sc_waiting ?st))"
    using assms mset_eq_imp_distinct_iff unfolding scheduler_core_def unique_ids_def by blast
  have "set (sc_waiting ?st) = set (sc_waiting st)" by (metis reorder_waiting_simps(5) set_mset_mset)
  then have prompts: "\<forall>s \<in> set ([] @ sc_waiting ?st). sq_prompt_tokens s \<noteq> []"
    using assms by (simp add: scheduler_core_def)
  have inv: "active_ok active \<and> length used = length (sc_component_used_bytes st) \<and>
      mset (map fst active) + mset (map sq_id deferred) =
        mset (map fst (sc_active st)) + mset (map sq_id ([] @ sc_waiting ?st)) \<and>
      (\<forall>s \<in> set deferred. sq_prompt_tokens s \<noteq> []) \<and>
      (length (sc_active st) \<le> max_active_sequences (sc_config st) \<longrightarrow>
       length active \<le> max_active_sequences (sc_config st))"
    by (rule admit_loop_invariant [OF loop _ dist prompts]) (use assms in \<open>simp add: scheduler_core_def\<close>)
  let ?new = "?st\<lparr>sc_active := active, sc_component_used_bytes := used, sc_waiting := deferred\<rparr>"
  have eq: "snd (admit_waiting clock st) = refresh_counts ?new"
    by (simp add: admit_waiting_def Let_def loop)
  have ids: "all_ids ?new = all_ids st" using inv m by (simp add: all_ids_def bt_keys_def)
  then have "unique_ids ?new"
    using assms unique_ids_mono [of ?new st] by (simp add: scheduler_core_def)
  then have "scheduler_core ?new" using inv assms by (simp add: scheduler_core_def)
  then show ?thesis using refresh_counts_ok [of ?new] ids unfolding eq by (simp add: scheduler_ok_def)
qed

section \<open>Planning only moves prefill cursors\<close>

definition erase_cursors :: "(string, 's seqn) btree \<Rightarrow> (string, 's seqn) btree" where
  "erase_cursors m = map (\<lambda>e. (fst e, (snd e)\<lparr>sq_prefill_cursor := 0\<rparr>)) m"

lemma keys_erase [simp]: "map fst (erase_cursors m) = map fst m"
  by (simp add: erase_cursors_def comp_def)

lemma active_ok_erase: "active_ok (erase_cursors m) = active_ok m"
  by (auto simp: active_ok_def bt_wf_def erase_cursors_def comp_def)

lemma erase_cursors_insert:
  "bt_wf m \<Longrightarrow> bt_get m i = Some s \<Longrightarrow>
   erase_cursors (bt_insert i (s\<lparr>sq_prefill_cursor := k\<rparr>) m) = erase_cursors m"
proof (induction m)
  case Nil
  then show ?case by simp
next
  case (Cons e m)
  show ?case
  proof (cases "fst e = i")
    case True
    then show ?thesis using Cons.prems by (auto simp: erase_cursors_def bt_get_Cons)
  next
    case False
    then have get: "bt_get m i = Some s" using Cons.prems by (simp add: bt_get_Cons)
    then have "(i, s) \<in> set m" by (rule bt_get_Some_mem)
    then have "fst e < i" using Cons.prems by (force simp: bt_wf_Cons)
    then show ?thesis using Cons.IH get Cons.prems(1) by (simp add: erase_cursors_def bt_wf_Cons)
  qed
qed

lemma bt_wf_erase: "erase_cursors m = erase_cursors m' \<Longrightarrow> bt_wf m = bt_wf m'"
  by (metis bt_wf_def keys_erase)

lemma erase_push_work:
  "bt_wf (ps_active ps) \<Longrightarrow> bt_get (ps_active ps) i = Some s \<Longrightarrow>
   erase_cursors (ps_active (push_work i (s\<lparr>sq_prefill_cursor := k\<rparr>) w n ps)) =
     erase_cursors (ps_active ps)"
  by (simp add: push_work_def erase_cursors_insert)

lemma erase_arms:
  assumes "bt_wf (ps_active ps)" and "bt_get (ps_active ps) i = Some s"
  shows "erase_cursors (ps_active (prefill_arm c i s ps)) = erase_cursors (ps_active ps)"
    and "erase_cursors (ps_active (decode_arm base i s t ps)) = erase_cursors (ps_active ps)"
  using assms by (simp_all add: prefill_arm_def decode_arm_def Let_def erase_push_work)

lemma erase_plan_loop:
  "bt_wf (ps_active ps) \<Longrightarrow>
   erase_cursors (ps_active (plan_loop c rp ids ps)) = erase_cursors (ps_active ps)"
  by (induction c rp ids ps rule: plan_loop.induct)
    (simp_all add: erase_arms bt_wf_erase [OF erase_arms(1)] bt_wf_erase [OF erase_arms(2)] split: option.split)

lemma erase_mixed_decode_loop:
  "bt_wf (ps_active ps) \<Longrightarrow>
   erase_cursors (ps_active (snd (mixed_decode_loop ids start offs k ps))) = erase_cursors (ps_active ps)"
  by (induction ids start offs k ps rule: mixed_decode_loop.induct)
    (simp_all add: Let_def erase_arms bt_wf_erase [OF erase_arms(2)] split: option.split)

lemma erase_mixed_prefill_loop:
  "bt_wf (ps_active ps) \<Longrightarrow>
   erase_cursors (ps_active (mixed_prefill_loop c ids ps)) = erase_cursors (ps_active ps)"
  by (induction c ids ps rule: mixed_prefill_loop.induct)
    (simp_all add: erase_arms bt_wf_erase [OF erase_arms(1)] split: option.split)

text \<open>The two plans agree with the state before them up to the cursors.\<close>

lemma plan_mixed_state:
  assumes "bt_wf (sc_active st)"
  shows "erase_cursors (sc_active (snd (plan_mixed_iteration st plan))) = erase_cursors (sc_active st) \<and>
    sc_config (snd (plan_mixed_iteration st plan)) = sc_config st \<and>
    sc_waiting (snd (plan_mixed_iteration st plan)) = sc_waiting st \<and>
    sc_metrics (snd (plan_mixed_iteration st plan)) = sc_metrics st \<and>
    sc_component_used_bytes (snd (plan_mixed_iteration st plan)) = sc_component_used_bytes st"
proof -
  let ?ids = "bt_keys (sc_active st)"
  let ?ps0 = "\<lparr>ps_active = sc_active st, ps_plan = plan,
                 ps_budget = max_tokens_per_iteration (sc_config st), ps_prefill_sequences = 0\<rparr>"
  let ?start = "if ?ids = [] then 0 else sc_mixed_decode_cursor st mod length ?ids"
  let ?r = "mixed_decode_loop ?ids ?start [0..<length ?ids] 0 ?ps0"
  have e: "erase_cursors (ps_active (snd ?r)) = erase_cursors (sc_active st)"
    using erase_mixed_decode_loop [of ?ps0 ?ids ?start "[0..<length ?ids]" 0] assms by simp
  then have "bt_wf (ps_active (snd ?r))" using bt_wf_erase [OF e] assms by simp
  then have "erase_cursors (ps_active (mixed_prefill_loop (sc_config st) ?ids (snd ?r)))
      = erase_cursors (sc_active st)"
    using erase_mixed_prefill_loop [of "snd ?r"] e by simp
  then show ?thesis
    by (simp only: plan_mixed_iteration_def Let_def split_beta snd_conv) simp
qed

lemma plan_separate_state:
  assumes "bt_wf (sc_active st)"
  shows "erase_cursors (sc_active (snd (plan_separate_iteration st plan))) = erase_cursors (sc_active st) \<and>
    sc_config (snd (plan_separate_iteration st plan)) = sc_config st \<and>
    sc_waiting (snd (plan_separate_iteration st plan)) = sc_waiting st \<and>
    sc_metrics (snd (plan_separate_iteration st plan)) = sc_metrics st \<and>
    sc_component_used_bytes (snd (plan_separate_iteration st plan)) = sc_component_used_bytes st"
  by (simp add: plan_separate_iteration_def Let_def erase_plan_loop assms)

text \<open>The state in which \<open>plan_iteration\<close> makes its plan, after the admissions.\<close>

definition admitted_state :: "(nat \<Rightarrow> nat) \<Rightarrow> ('s, 'f) scheduler \<Rightarrow> ('s, 'f) scheduler" where
  "admitted_state clock st =
     snd (admit_waiting clock (st\<lparr>sc_waiting_turn := sat_add (sc_waiting_turn st) 1\<rparr>))"

lemma admitted_state_ok:
  "scheduler_core st \<Longrightarrow> scheduler_ok (admitted_state clock st) \<and>
     all_ids (admitted_state clock st) = all_ids st \<and>
     sc_config (admitted_state clock st) = sc_config st"
  using admit_waiting_core [of "st\<lparr>sc_waiting_turn := sat_add (sc_waiting_turn st) 1\<rparr>" clock]
  by (simp add: admitted_state_def scheduler_core_def unique_ids_def all_ids_def)

lemma plan_iteration_state:
  assumes "bt_wf (sc_active (admitted_state clock st))"
  shows "erase_cursors (sc_active (snd (plan_iteration clock st))) =
      erase_cursors (sc_active (admitted_state clock st)) \<and>
    sc_config (snd (plan_iteration clock st)) = sc_config (admitted_state clock st) \<and>
    sc_waiting (snd (plan_iteration clock st)) = sc_waiting (admitted_state clock st) \<and>
    sc_metrics (snd (plan_iteration clock st)) = sc_metrics (admitted_state clock st) \<and>
    sc_component_used_bytes (snd (plan_iteration clock st)) =
      sc_component_used_bytes (admitted_state clock st)"
  using plan_mixed_state [OF assms] plan_separate_state [OF assms]
  by (simp add: plan_iteration_def Let_def split_beta admitted_state_def)

lemma plan_iteration_ok:
  assumes "scheduler_core st"
  shows "scheduler_ok (snd (plan_iteration clock st)) \<and> all_ids (snd (plan_iteration clock st)) = all_ids st
    \<and> sc_config (snd (plan_iteration clock st)) = sc_config st"
proof -
  let ?a = "admitted_state clock st" and ?p = "snd (plan_iteration clock st)"
  have a: "scheduler_ok ?a" "all_ids ?a = all_ids st" "sc_config ?a = sc_config st"
    using admitted_state_ok [OF assms] by auto
  then have "bt_wf (sc_active ?a)" by (simp add: scheduler_ok_def scheduler_core_def active_ok_def)
  from plan_iteration_state [OF this]
  have p: "erase_cursors (sc_active ?p) = erase_cursors (sc_active ?a)" "sc_config ?p = sc_config ?a"
    "sc_waiting ?p = sc_waiting ?a" "sc_metrics ?p = sc_metrics ?a"
    "sc_component_used_bytes ?p = sc_component_used_bytes ?a" by auto
  have k: "map fst (sc_active ?p) = map fst (sc_active ?a)" using p(1) by (metis keys_erase)
  then have len: "length (sc_active ?p) = length (sc_active ?a)" by (metis length_map)
  have ids: "all_ids ?p = all_ids ?a" using k p(3) by (simp add: all_ids_def bt_keys_def)
  have "active_ok (sc_active ?p)"
    using a(1) p(1) active_ok_erase by (metis scheduler_core_def scheduler_ok_def)
  then show ?thesis using a p len ids
    by (simp add: scheduler_ok_def scheduler_core_def unique_ids_iff)
qed

section \<open>Completion removes exactly the terminal sequences\<close>

definition running_or_terminal :: "string set \<Rightarrow> (string, 's seqn) btree \<Rightarrow> bool" where
  "running_or_terminal T m \<longleftrightarrow> bt_wf m \<and> (\<forall>(i, s) \<in> set m. sq_id s = i \<and> sq_admitted_at s \<noteq> None \<and>
     sq_prompt_tokens s \<noteq> [] \<and> (sq_status s = Running \<or> i \<in> T))"

lemma running_or_terminal_insert:
  assumes "running_or_terminal T m" and "bt_get m i = Some s" and "sq_id s' = sq_id s"
    and "sq_admitted_at s' = sq_admitted_at s" and "sq_prompt_tokens s' = sq_prompt_tokens s"
    and "sq_status s' = sq_status s \<and> T' = T \<or> T' = insert i T"
  shows "running_or_terminal T' (bt_insert i s' m) \<and> map fst (bt_insert i s' m) = map fst m"
proof -
  have mem: "(i, s) \<in> set m" using assms(2) by (rule bt_get_Some_mem)
  then have i: "i \<in> set (map fst m)" by force
  have wf: "bt_wf m" using assms(1) by (simp add: running_or_terminal_def)
  let ?ok = "\<lambda>U (i, s). sq_id s = i \<and> sq_admitted_at s \<noteq> None \<and> sq_prompt_tokens s \<noteq> [] \<and>
      (sq_status s = Running \<or> i \<in> U)"
  have old: "\<forall>e \<in> set m. ?ok T e" using assms(1) by (simp add: running_or_terminal_def)
  have "\<forall>e \<in> set m. ?ok T' e" using old assms(6) by auto
  moreover have "?ok T' (i, s')" using bspec [OF old mem] assms(3-6) by auto
  ultimately have ins: "\<forall>e \<in> insert (i, s') (set m). ?ok T' e" by (simp only: ball_simps simp_thms)
  have "\<forall>e \<in> set (bt_insert i s' m). ?ok T' e"
    by (rule ballI) (rule bspec [OF ins subsetD [OF set_bt_insert]])
  then have "running_or_terminal T' (bt_insert i s' m)"
    unfolding running_or_terminal_def using wf by simp
  then show ?thesis using keys_insert_old [OF wf i] by simp
qed

lemma complete_work_invariant:
  assumes "running_or_terminal (set (map fst (snd a))) (fst a)" and "set (map fst (snd a)) \<subseteq> set (map fst (fst a))"
  shows "running_or_terminal (set (map fst (snd (complete_work pr a e)))) (fst (complete_work pr a e)) \<and>
    set (map fst (snd (complete_work pr a e))) \<subseteq> set (map fst (fst a)) \<and>
    map fst (fst (complete_work pr a e)) = map fst (fst a)"
proof -
  obtain k w where e: "e = (k, w)" by (cases e)
  show ?thesis
  proof (cases "\<not> wk_sample_last w \<or> bt_get (fst a) (wk_sequence_id w) = None")
    case True
    then show ?thesis using assms by (auto simp: complete_work_def e Let_def split: option.split)
  next
    case False
    then obtain s where last: "wk_sample_last w" and s: "bt_get (fst a) (wk_sequence_id w) = Some s" by auto
    let ?i = "wk_sequence_id w"
    have i: "?i \<in> set (map fst (fst a))" using bt_get_Some_mem [OF s] by force
    note ins = running_or_terminal_insert [OF assms(1) s]
    show ?thesis
      using i assms(2) last s
        ins [of "s\<lparr>sq_status := Failed\<rparr>" "insert ?i (set (map fst (snd a)))"]
        ins [of "s\<lparr>sq_status := Finished\<rparr>" "insert ?i (set (map fst (snd a)))"]
        ins [of "s\<lparr>sq_generated_tokens := sq_generated_tokens s @ [t]\<rparr>" "set (map fst (snd a))" for t]
        ins [of "s\<lparr>sq_generated_tokens := sq_generated_tokens s @ [t], sq_status := Finished\<rparr>"
              "insert ?i (set (map fst (snd a)))" for t]
      by (auto simp: complete_work_def e Let_def split: option.split)
  qed
qed

lemma complete_fold_invariant:
  assumes "running_or_terminal (set (map fst (snd a))) (fst a)" and "set (map fst (snd a)) \<subseteq> set (map fst (fst a))"
  shows "running_or_terminal (set (map fst (snd (foldl (complete_work pr) a es)))) (fst (foldl (complete_work pr) a es)) \<and>
    set (map fst (snd (foldl (complete_work pr) a es))) \<subseteq> set (map fst (fst a)) \<and>
    map fst (fst (foldl (complete_work pr) a es)) = map fst (fst a)"
  using assms
proof (induction es arbitrary: a)
  case Nil
  then show ?case by simp
next
  case (Cons e es)
  from complete_work_invariant [OF Cons.prems, of pr e] Cons.IH [of "complete_work pr a e"]
  show ?case by simp
qed

lemma remove_active_simps [simp]:
  fixes st :: "('s, 'f) scheduler"
  shows
  "sc_config (remove_active i st) = sc_config st"
  "sc_waiting (remove_active i st) = sc_waiting st"
  "sc_metrics (remove_active i st) = sc_metrics st"
  "length (sc_component_used_bytes (remove_active i st)) = length (sc_component_used_bytes st)"
  "sc_active (remove_active i st) = bt_remove i (sc_active st)"
proof -
  have "bt_remove i m = m" if "bt_get m i = None" for m :: "(string, 's seqn) btree"
    using that unfolding bt_remove_def bt_get_None_iff by (auto simp: filter_id_conv)
  then show "sc_active (remove_active i st) = bt_remove i (sc_active st)"
    by (simp add: remove_active_def split: option.split)
qed (simp_all add: remove_active_def split: option.split)

lemma foldl_retire:
  fixes st :: "('s, 'f) scheduler"
  shows
  "sc_config (foldl retire st es) = sc_config st \<and> sc_waiting (foldl retire st es) = sc_waiting st \<and>
   length (sc_component_used_bytes (foldl retire st es)) = length (sc_component_used_bytes st) \<and>
   sc_active (foldl retire st es) = filter (\<lambda>e. fst e \<notin> set (map fst es)) (sc_active st)"
proof (induction es arbitrary: st)
  case Nil
  then show ?case by simp
next
  case (Cons e es)
  have "filter (\<lambda>x. fst x \<notin> set (map fst es)) (bt_remove (fst e) m) =
      filter (\<lambda>x. fst x \<notin> set (map fst (e # es))) m" for m :: "(string, 's seqn) btree"
    unfolding bt_remove_def filter_filter by (rule filter_cong) auto
  then show ?case using Cons.IH [of "retire st e"] by (simp add: retire_def Let_def)
qed

text \<open>The ids that an iteration ends, in the order of its rows.\<close>

definition terminal_ids :: "'s iteration_plan \<Rightarrow> iteration_prediction list \<Rightarrow> ('s, 'f) scheduler \<Rightarrow> string list" where
  "terminal_ids plan predictions st =
     map fst (snd (foldl (complete_work (predicted_tokens (length (pl_work plan)) predictions))
       (sc_active st, []) (enumerate 0 (pl_work plan))))"

lemma count_iteration_simps [simp]:
  "sc_config (count_iteration plan st) = sc_config st"
  "sc_active (count_iteration plan st) = sc_active st"
  "sc_waiting (count_iteration plan st) = sc_waiting st"
  "sc_component_used_bytes (count_iteration plan st) = sc_component_used_bytes st"
  by (simp_all add: count_iteration_def Let_def)

lemma count_iteration_ok: "scheduler_core st \<Longrightarrow> scheduler_ok (count_iteration plan st)"
  unfolding count_iteration_def Let_def
  by (rule refresh_counts_ok) (simp add: scheduler_core_def unique_ids_def)

lemma complete_iteration_ok:
  assumes core: "scheduler_core st"
  shows "scheduler_ok (snd (complete_iteration plan ps st)) \<and>
    sc_config (snd (complete_iteration plan ps st)) = sc_config st \<and>
    set (terminal_ids plan ps st) \<subseteq> set (bt_keys (sc_active st)) \<and>
    all_ids (snd (complete_iteration plan ps st)) =
      filter_mset (\<lambda>i. i \<notin> set (terminal_ids plan ps st)) (all_ids st)"
proof -
  let ?pr = "predicted_tokens (length (pl_work plan)) ps"
  let ?r = "foldl (complete_work ?pr) (sc_active st, []) (enumerate 0 (pl_work plan))"
  let ?T = "set (terminal_ids plan ps st)"
  let ?f = "foldl retire (st\<lparr>sc_active := fst ?r\<rparr>) (snd ?r)"
  have T: "?T = set (map fst (snd ?r))" by (simp add: terminal_ids_def)
  have "running_or_terminal (set (map fst (snd (sc_active st, [])))) (fst (sc_active st, []))"
    using core by (auto simp: scheduler_core_def active_ok_def running_or_terminal_def)
  from complete_fold_invariant [OF this, of ?pr "enumerate 0 (pl_work plan)"]
  have r: "running_or_terminal ?T (fst ?r)" "?T \<subseteq> set (bt_keys (sc_active st))"
    "map fst (fst ?r) = map fst (sc_active st)" by (auto simp: T bt_keys_def)
  have eq: "snd (complete_iteration plan ps st) = count_iteration plan ?f"
    by (simp add: complete_iteration_def Let_def split_beta)
  have f: "sc_active ?f = filter (\<lambda>e. fst e \<notin> ?T) (fst ?r)"
    "sc_config ?f = sc_config st" "sc_waiting ?f = sc_waiting st"
    "length (sc_component_used_bytes ?f) = length (sc_component_used_bytes st)"
    using foldl_retire [of "st\<lparr>sc_active := fst ?r\<rparr>" "snd ?r"] by (simp_all add: T)
  have keys: "bt_keys (sc_active ?f) = filter (\<lambda>i. i \<notin> ?T) (bt_keys (sc_active st))"
    unfolding f(1) bt_keys_def r(3) [symmetric] filter_map comp_def by (rule refl)
  have "filter (\<lambda>i. i \<notin> ?T) (map sq_id (sc_waiting st)) = map sq_id (sc_waiting st)"
    using core r(2) by (auto simp: filter_id_conv scheduler_core_def unique_ids_def)
  then have ids: "all_ids ?f = filter_mset (\<lambda>i. i \<notin> ?T) (all_ids st)"
    using keys f(3) unfolding all_ids_def filter_union_mset mset_filter [symmetric] by simp
  have "active_ok (sc_active ?f)"
    using r(1) unfolding f(1) active_ok_def running_or_terminal_def
    by (auto simp: bt_wf_def sorted_wrt_filter sorted_wrt_map)
  moreover have "length (sc_active ?f) \<le> length (sc_active st)"
    using keys unfolding bt_keys_def by (metis length_filter_le length_map)
  moreover have "unique_ids ?f"
    using core unique_ids_mono [of ?f st] ids by (simp add: scheduler_core_def)
  ultimately have "scheduler_core ?f" using core f by (simp add: scheduler_core_def)
  then show ?thesis using count_iteration_ok ids r(2) f(2) unfolding eq
    by (simp add: all_ids_def)
qed

section \<open>Preemption, cancellation, submission\<close>

text \<open>One turn of the preemption loop: the victim goes to the front of the queue.\<close>

definition preempted_state :: "string \<Rightarrow> 's seqn \<Rightarrow> ('s, 'f) scheduler \<Rightarrow> ('s, 'f) scheduler" where
  "preempted_state v s st =
     st\<lparr>sc_active := bt_remove v (sc_active st),
        sc_component_used_bytes := release_memory (sc_config st) s (sc_component_used_bytes st),
        sc_waiting := (reset_for_recompute s)\<lparr>sq_enqueue_order := sc_next_waiting_order st\<rparr> # sc_waiting st,
        sc_next_waiting_order := sat_add (sc_next_waiting_order st) 1, sc_waiting_order_dirty := True,
        sc_metrics := (sc_metrics st)\<lparr>mt_preempted := sat_add (mt_preempted (sc_metrics st)) 1\<rparr>\<rparr>"

lemma preempted_state_simps [simp]:
  "sc_config (preempted_state v s st) = sc_config st"
  "sc_active (preempted_state v s st) = bt_remove v (sc_active st)"
  "sc_component_used_bytes (preempted_state v s st) =
     release_memory (sc_config st) s (sc_component_used_bytes st)"
  "sc_waiting (preempted_state v s st) =
     (reset_for_recompute s)\<lparr>sq_enqueue_order := sc_next_waiting_order st\<rparr> # sc_waiting st"
  by (simp_all add: preempted_state_def)

text \<open>Induction along the loop.\<close>

lemma preempt_loop_induct [case_names stop step]:
  assumes "\<And>st pre. preempt_loop now st pre = (pre, st) \<Longrightarrow>
      \<not> component_over_capacity (sc_config st) (sc_component_used_bytes st) \<or>
      (\<forall>v s. preemption_victim now (sc_active st) = Some v \<longrightarrow> bt_get (sc_active st) v \<noteq> Some s) \<Longrightarrow> P st pre"
    and "\<And>st pre v s. preemption_victim now (sc_active st) = Some v \<Longrightarrow> bt_get (sc_active st) v = Some s \<Longrightarrow>
      preempt_loop now st pre = preempt_loop now (preempted_state v s st) (pre @ [v]) \<Longrightarrow>
      P (preempted_state v s st) (pre @ [v]) \<Longrightarrow> P st pre"
  shows "P st pre"
proof (induction now\<equiv>now st pre rule: preempt_loop.induct)
  case (1 st pre)
  show ?case
  proof (cases "component_over_capacity (sc_config st) (sc_component_used_bytes st) \<and>
      (\<exists>v s. preemption_victim now (sc_active st) = Some v \<and> bt_get (sc_active st) v = Some s)")
    case False
    then show ?thesis
      by (intro assms(1)) (subst preempt_loop.simps, auto split: option.split)
  next
    case True
    then obtain v s where v: "component_over_capacity (sc_config st) (sc_component_used_bytes st)"
      "preemption_victim now (sc_active st) = Some v" "bt_get (sc_active st) v = Some s" by auto
    have "preempt_loop now st pre = preempt_loop now (preempted_state v s st) (pre @ [v])"
      using v by (subst preempt_loop.simps) (simp add: preempted_state_def)
    then show ?thesis
      using "1" [OF _ v(2,3)] v(1) by (intro assms(2) [OF v(2,3)]) (simp_all add: preempted_state_def)
  qed
qed

lemma preempted_state_core:
  assumes core: "scheduler_core st" and get: "bt_get (sc_active st) v = Some s"
  shows "scheduler_core (preempted_state v s st)" and "all_ids (preempted_state v s st) = all_ids st"
proof -
  let ?s = "(reset_for_recompute s)\<lparr>sq_enqueue_order := sc_next_waiting_order st\<rparr>"
  have ok: "active_ok (sc_active st)" using core by (simp add: scheduler_core_def)
  have s: "sq_id s = v" "sq_prompt_tokens s \<noteq> []" using active_ok_get [OF ok get] by auto
  have id: "sq_id ?s = v" "sq_prompt_tokens ?s \<noteq> []" using s by (auto simp: reset_for_recompute_def)
  have "v \<in> set (map fst (sc_active st))" using bt_get_Some_mem [OF get] by force
  then have "mset (map fst (bt_remove v (sc_active st))) = mset (map fst (sc_active st)) - {#v#}"
    "v \<in># mset (map fst (sc_active st))"
    using ok mset_keys_remove [of "sc_active st" v] by (auto simp: active_ok_def)
  then show ids: "all_ids (preempted_state v s st) = all_ids st"
    using id(1) by (simp add: all_ids_def bt_keys_def)
  have "unique_ids (preempted_state v s st)" using ids core by (simp add: scheduler_core_def unique_ids_iff)
  moreover have "length (bt_remove v (sc_active st)) \<le> max_active_sequences (sc_config st)"
    using length_bt_remove_le [of v "sc_active st"] core by (simp add: scheduler_core_def)
  ultimately show "scheduler_core (preempted_state v s st)"
    using core ok id by (simp add: scheduler_core_def active_ok_remove)
qed

lemma preempt_loop_core:
  "scheduler_core st \<Longrightarrow> scheduler_core (snd (preempt_loop now st pre)) \<and>
     all_ids (snd (preempt_loop now st pre)) = all_ids st \<and>
     sc_config (snd (preempt_loop now st pre)) = sc_config st"
  by (induction st pre rule: preempt_loop_induct [where now = now]) (simp_all add: preempted_state_core)

lemma length_overwrite_prefix [simp]: "length (overwrite_prefix xs ys) = length xs"
  by (induction xs ys rule: overwrite_prefix.induct) simp_all

lemma preempt_ok:
  assumes "scheduler_core st"
  shows "scheduler_ok (snd (preempt_for_component_pressure now used st)) \<and>
    all_ids (snd (preempt_for_component_pressure now used st)) = all_ids st \<and>
    sc_config (snd (preempt_for_component_pressure now used st)) = sc_config st"
proof -
  let ?st = "st\<lparr>sc_component_used_bytes := overwrite_prefix (sc_component_used_bytes st) used\<rparr>"
  have "scheduler_core ?st" "all_ids ?st = all_ids st"
    using assms by (simp_all add: scheduler_core_def unique_ids_def all_ids_def)
  then show ?thesis using preempt_loop_core [of ?st now "[]"]
    by (simp add: preempt_for_component_pressure_def Let_def split_beta refresh_counts_ok)
qed

lemma mset_remove_first_waiting:
  "list_ex (\<lambda>s. sq_id s = i) ss \<Longrightarrow>
   mset (map sq_id (remove_first_waiting i ss)) = mset (map sq_id ss) - {#i#}"
proof (induction ss)
  case Nil
  then show ?case by simp
next
  case (Cons s ss)
  show ?case
  proof (cases "sq_id s = i")
    case True
    then show ?thesis by simp
  next
    case False
    then have "i \<in># mset (map sq_id ss)" using Cons.prems by (auto simp: list_ex_iff)
    then show ?thesis using Cons False by simp
  qed
qed

lemma set_remove_first_waiting: "set (remove_first_waiting i ss) \<subseteq> set ss"
  by (induction ss) auto

lemma count_cancelled_simps [simp]:
  "sc_config (count_cancelled st) = sc_config st"
  "sc_active (count_cancelled st) = sc_active st"
  "sc_waiting (count_cancelled st) = sc_waiting st"
  "sc_component_used_bytes (count_cancelled st) = sc_component_used_bytes st"
  "all_ids (count_cancelled st) = all_ids st"
  by (simp_all add: count_cancelled_def all_ids_def refresh_counts_def)

lemma count_cancelled_ok: "scheduler_core st \<Longrightarrow> scheduler_ok (count_cancelled st)"
  unfolding count_cancelled_def
  by (rule refresh_counts_ok) (simp add: scheduler_core_def unique_ids_def)

lemma cancel_ok:
  assumes core: "scheduler_ok st"
  shows "scheduler_ok (snd (cancel i st)) \<and> all_ids (snd (cancel i st)) = all_ids st - {#i#} \<and>
    (fst (cancel i st) \<longleftrightarrow> i \<in># all_ids st) \<and> sc_config (snd (cancel i st)) = sc_config st"
proof -
  have core: "scheduler_core st" using assms by (simp add: scheduler_ok_def)
  then have ok: "active_ok (sc_active st)" by (simp add: scheduler_core_def)
  consider (active) "bt_get (sc_active st) i \<noteq> None"
    | (waiting) "bt_get (sc_active st) i = None" "list_ex (\<lambda>s. sq_id s = i) (sc_waiting st)"
    | (absent) "bt_get (sc_active st) i = None" "\<not> list_ex (\<lambda>s. sq_id s = i) (sc_waiting st)" by blast
  then show ?thesis
  proof cases
    case active
    let ?r = "remove_active i st"
    have mem: "i \<in># mset (map fst (sc_active st))" using active by (auto simp: bt_get_None_iff)
    have "all_ids ?r = all_ids st - {#i#}"
      using mset_keys_remove [of "sc_active st" i] ok mem
      by (simp add: all_ids_def bt_keys_def active_ok_def)
    moreover have "scheduler_core ?r"
      using core calculation unique_ids_mono [of ?r st] active_ok_remove [OF ok]
      by (auto simp: scheduler_core_def intro: order_trans [OF length_bt_remove_le])
    ultimately show ?thesis using active mem
      by (simp add: cancel_def count_cancelled_ok) (simp add: all_ids_def bt_keys_def)
  next
    case waiting
    let ?r = "st\<lparr>sc_waiting := remove_first_waiting i (sc_waiting st), sc_waiting_order_dirty := True\<rparr>"
    have mem: "i \<in># mset (map sq_id (sc_waiting st))" using waiting by (auto simp: list_ex_iff)
    then have "all_ids ?r = all_ids st - {#i#}"
      using mset_remove_first_waiting [OF waiting(2)] by (simp add: all_ids_def)
    moreover have "scheduler_core ?r"
      using core calculation unique_ids_mono [of ?r st] set_remove_first_waiting [of i "sc_waiting st"]
      by (auto simp: scheduler_core_def)
    ultimately show ?thesis using waiting mem
      by (simp add: cancel_def count_cancelled_ok) (simp add: all_ids_def)
  next
    case absent
    then have "i \<notin># all_ids st"
      by (auto simp: all_ids_def bt_keys_def bt_get_None_iff list_ex_iff)
    then show ?thesis using absent assms by (simp add: cancel_def diff_single_trivial)
  qed
qed

lemma submit_ok:
  assumes "scheduler_ok st"
  shows "scheduler_ok (snd (submit s st)) \<and> sc_config (snd (submit s st)) = sc_config st \<and>
    all_ids (snd (submit s st)) =
      (if fst (submit s st) = Inr () then add_mset (sq_id s) (all_ids st) else all_ids st)"
proof (cases "fst (submit s st)")
  case (Inl e)
  then show ?thesis using assms
    by (auto simp: submit_def Let_def scheduler_ok_def scheduler_core_def unique_ids_def all_ids_def
        split: if_splits)
next
  case (Inr u)
  then have new: "sq_prompt_tokens s \<noteq> []" "bt_get (sc_active st) (sq_id s) = None"
    "\<not> list_ex (\<lambda>q. sq_id q = sq_id s) (sc_waiting st)"
    by (auto simp: submit_def split: if_splits)
  define m where "m = (if sq_prefix_restore s \<noteq> None
      then (sc_metrics st)\<lparr>mt_prefix_hits := sat_add (mt_prefix_hits (sc_metrics st)) 1\<rparr>
      else (sc_metrics st)\<lparr>mt_prefix_misses := sat_add (mt_prefix_misses (sc_metrics st)) 1\<rparr>)"
  let ?n = "st\<lparr>sc_metrics := m, sc_next_waiting_order := sat_add (sc_next_waiting_order st) 1,
      sc_waiting := sc_waiting st @ [s\<lparr>sq_enqueued_turn := sc_waiting_turn st,
        sq_enqueue_order := sc_next_waiting_order st\<rparr>], sc_waiting_order_dirty := True\<rparr>"
  have eq: "submit s st = (Inr (), refresh_counts ?n)"
    using Inr by (auto simp: submit_def Let_def m_def split: if_splits)
  have "scheduler_core ?n" using assms new
    by (auto simp: scheduler_ok_def scheduler_core_def unique_ids_def bt_get_None_iff bt_keys_def
        list_ex_iff)
  moreover have "all_ids ?n = add_mset (sq_id s) (all_ids st)" by (simp add: all_ids_def)
  ultimately show ?thesis using refresh_counts_ok unfolding eq by simp
qed

lemma observe_ok:
  "scheduler_ok st \<Longrightarrow> scheduler_ok (observe_iteration_duration F plan elapsed st) \<and>
     all_ids (observe_iteration_duration F plan elapsed st) = all_ids st \<and>
     sc_config (observe_iteration_duration F plan elapsed st) = sc_config st"
  by (auto simp: observe_iteration_duration_def Let_def scheduler_ok_def scheduler_core_def
      unique_ids_def all_ids_def split: option.split)

section \<open>The scheduler as a state machine\<close>

text \<open>
  Any caller, any order of calls: the plan given to \<open>complete_iteration\<close> and the predictions are
  arbitrary, and so are the sequences submitted and the memory pressure reported.
\<close>

inductive scheduler_step :: "('s, 'f) scheduler \<Rightarrow> ('s, 'f) scheduler \<Rightarrow> bool" where
  step_submit: "scheduler_step st (snd (submit s st))"
| step_plan: "scheduler_step st (snd (plan_iteration clock st))"
| step_observe: "scheduler_step st (observe_iteration_duration F plan elapsed st)"
| step_complete: "scheduler_step st (snd (complete_iteration plan predictions st))"
| step_preempt: "scheduler_step st (snd (preempt_for_component_pressure now used st))"
| step_cancel: "scheduler_step st (snd (cancel i st))"

inductive_cases scheduler_stepE: "scheduler_step st st'"

lemma new_scheduler_ok: "scheduler_ok (new_scheduler c)"
  by (simp add: new_scheduler_def Let_def scheduler_ok_def scheduler_core_def active_ok_def
      unique_ids_def bt_keys_def default_metrics_def normalized_config_ok)

interpretation sched: step_invariant "\<lambda>st. \<exists>c. st = new_scheduler c" scheduler_step scheduler_ok
proof
  fix st :: "('a, 'b) scheduler"
  show "\<exists>c. st = new_scheduler c \<Longrightarrow> scheduler_ok st" using new_scheduler_ok by auto
next
  fix st st' :: "('a, 'b) scheduler"
  assume ok: "scheduler_ok st" and step: "scheduler_step st st'"
  have core: "scheduler_core st" using ok by (simp add: scheduler_ok_def)
  note ops = conjunct1 [OF submit_ok [OF ok]] conjunct1 [OF plan_iteration_ok [OF core]]
    conjunct1 [OF observe_ok [OF ok]] conjunct1 [OF complete_iteration_ok [OF core]]
    conjunct1 [OF preempt_ok [OF core]] conjunct1 [OF cancel_ok [OF ok]]
  from step show "scheduler_ok st'"
    by (cases rule: scheduler_step.cases) (simp_all only: ops)
qed

section \<open>Properties\<close>

text \<open>
  (C6) In every state that any sequence of calls reaches, no sequence id is queued or active twice,
  the active sequences are within the configured maximum and filed under their own id in state
  running, the memory vector has one entry per component, and the two gauges are the true counts.
\<close>

theorem scheduler_invariant_reachable:
  fixes st :: "('s, 'f) scheduler"
  assumes "scheduler_step\<^sup>*\<^sup>* (new_scheduler c) st"
  shows "distinct (bt_keys (sc_active st) @ map sq_id (sc_waiting st)) \<and>
    length (sc_active st) \<le> max_active_sequences (sc_config st) \<and>
    (\<forall>i s. bt_get (sc_active st) i = Some s \<longrightarrow> sq_id s = i \<and> sq_status s = Running) \<and>
    length (sc_component_used_bytes st) = length (memory_components (sc_config st)) \<and>
    mt_active_sequences (sc_metrics st) = length (sc_active st) \<and>
    mt_waiting_sequences (sc_metrics st) = length (sc_waiting st)"
proof -
  have "scheduler_ok st" using assms by (intro sched.reachable_inv) auto
  then show ?thesis using active_ok_get
    by (auto simp: scheduler_ok_def scheduler_core_def unique_ids_def)
qed

lemma scheduler_invariant_reachable_witness:
  "distinct (bt_keys (sc_active (snd (submit (new_sequence ''a'' [1, 2] 4 None 1)
      (new_scheduler default_config :: (unit, nat) scheduler)))) @ [''a''])"
proof -
  let ?st = "snd (submit (new_sequence ''a'' [1, 2] 4 None 1)
      (new_scheduler default_config :: (unit, nat) scheduler))"
  have "scheduler_step\<^sup>*\<^sup>* (new_scheduler default_config) ?st"
    by (rule r_into_rtranclp) (rule step_submit)
  from scheduler_invariant_reachable [OF this]
  have "distinct (bt_keys (sc_active ?st) @ map sq_id (sc_waiting ?st))" by blast
  moreover have "map sq_id (sc_waiting ?st) = [''a'']"
    by (simp add: submit_def new_scheduler_def Let_def new_sequence_def default_config_def
        normalized_def bt_get_def refresh_counts_def)
  ultimately show ?thesis by (simp only:)
qed


end
