(* ===== verification/SchedulerMemory.thy ===== *)
theory SchedulerMemory
  imports SchedulerInvariant
begin

text \<open>
  The scheduler's memory accounting: between pressure reports the recorded use of every component
  is exactly the sum of the active reservations and stays within its available bytes; a pressure
  report is relieved by preemption.
\<close>

section \<open>Exact accounting\<close>

definition reserved_bytes :: "memory_component \<Rightarrow> (string, 's seqn) btree \<Rightarrow> nat" where
  "reserved_bytes c m =
     sum_mset (image_mset (\<lambda>e. reservation_bytes c (sq_admission_tokens (snd e))) (mset m))"

definition accounted :: "('s, 'f) scheduler \<Rightarrow> bool" where
  "accounted st \<longleftrightarrow>
     sc_component_used_bytes st =
       map (\<lambda>c. reserved_bytes c (sc_active st)) (memory_components (sc_config st)) \<and>
     list_all (\<lambda>c. reserved_bytes c (sc_active st) \<le> available_bytes c \<and> mc_capacity_bytes c < U64_MAX)
       (memory_components (sc_config st))"

lemma reserved_insert_new:
  "i \<notin> set (map fst m) \<Longrightarrow> reserved_bytes c (bt_insert i s m) =
     reserved_bytes c m + reservation_bytes c (sq_admission_tokens s)"
  unfolding reserved_bytes_def mset_bt_insert_new by simp

lemma reserved_remove:
  "bt_wf m \<Longrightarrow> bt_get m i = Some s \<Longrightarrow> reserved_bytes c m =
     reserved_bytes c (bt_remove i m) + reservation_bytes c (sq_admission_tokens s)"
  unfolding reserved_bytes_def by (simp add: mset_bt_remove [of m i s])

lemma reserved_insert_old:
  "bt_wf m \<Longrightarrow> bt_get m i = Some s \<Longrightarrow> sq_admission_tokens s' = sq_admission_tokens s \<Longrightarrow>
   reserved_bytes c (bt_insert i s' m) = reserved_bytes c m"
  unfolding reserved_bytes_def by (simp add: mset_bt_insert_old mset_bt_remove [of m i s])

lemma reserved_erase: "reserved_bytes c (erase_cursors m) = reserved_bytes c m"
  by (simp add: reserved_bytes_def erase_cursors_def image_mset.compositionality comp_def)

lemma map2_map_same: "map2 f (map g xs) xs = map (\<lambda>x. f (g x) x) xs"
  by (induction xs) simp_all

lemma zip_map_same: "zip xs (map g xs) = map (\<lambda>x. (x, g x)) xs"
  by (induction xs) simp_all

text \<open>One admission.\<close>

lemma reserve_accounted:
  assumes used: "used = map (\<lambda>c. reserved_bytes c m) (memory_components cfg)"
    and cap: "list_all (\<lambda>c. mc_capacity_bytes c < U64_MAX) (memory_components cfg)"
    and can: "can_reserve_memory cfg used s" and new: "i \<notin> set (map fst m)"
    and tokens: "sq_admission_tokens s' = sq_admission_tokens s"
  shows "reserve_memory cfg s used = map (\<lambda>c. reserved_bytes c (bt_insert i s' m)) (memory_components cfg) \<and>
    list_all (\<lambda>c. reserved_bytes c (bt_insert i s' m) \<le> available_bytes c) (memory_components cfg)"
proof -
  have fits: "sat_add (reserved_bytes c m) (reservation_bytes c (sq_admission_tokens s)) \<le> available_bytes c"
    if "c \<in> set (memory_components cfg)" for c
    using can that by (auto simp: can_reserve_memory_def used zip_map_same list_all_iff)
  have exact: "sat_add (reserved_bytes c m) (reservation_bytes c (sq_admission_tokens s)) =
      reserved_bytes c (bt_insert i s' m)"
    if "c \<in> set (memory_components cfg)" for c
  proof -
    have "available_bytes c < U64_MAX" using cap that by (auto simp: list_all_iff available_bytes_def)
    then show ?thesis using fits [OF that]
      by (simp add: sat_add_def min_def reserved_insert_new [OF new] tokens split: if_splits)
  qed
  then have "map (\<lambda>c. sat_add (reserved_bytes c m) (reservation_bytes c (sq_admission_tokens s)))
      (memory_components cfg) = map (\<lambda>c. reserved_bytes c (bt_insert i s' m)) (memory_components cfg)"
    by simp
  moreover have "list_all (\<lambda>c. reserved_bytes c (bt_insert i s' m) \<le> available_bytes c) (memory_components cfg)"
    using fits exact by (simp add: list_all_iff)
  ultimately show ?thesis by (simp add: reserve_memory_eq used map2_map_same)
qed

text \<open>The admission loop.\<close>

lemma admit_loop_accounted:
  assumes "admit_loop clock c waiting active used deferred admitted = (active', used', deferred', n)"
    and "used = map (\<lambda>k. reserved_bytes k active) (memory_components c)"
    and "list_all (\<lambda>k. reserved_bytes k active \<le> available_bytes k) (memory_components c)"
    and "list_all (\<lambda>c. mc_capacity_bytes c < U64_MAX) (memory_components c)"
    and "distinct (map fst active @ map sq_id waiting)"
  shows "used' = map (\<lambda>k. reserved_bytes k active') (memory_components c) \<and>
    list_all (\<lambda>k. reserved_bytes k active' \<le> available_bytes k) (memory_components c)"
  using assms
proof (induction clock c waiting active used deferred admitted rule: admit_loop.induct)
  case (1 clock c active used deferred admitted)
  from "1.prems"(1) have "active' = active" "used' = used" by simp_all
  then show ?case using "1.prems"(2,3) by (simp only:)
next
  case (2 clock c s waiting active used deferred admitted)
  show ?case
  proof (cases "max_active_sequences c \<le> length active \<or> \<not> can_reserve_memory c used s")
    case True
    then show ?thesis using "2.IH"(1) [OF True] "2.prems" by simp
  next
    case False
    let ?s = "s\<lparr>sq_status := Running, sq_admitted_at := Some (clock admitted)\<rparr>"
    have new: "sq_id s \<notin> set (map fst active)" using "2.prems"(5) by auto
    have res: "reserve_memory c s used =
          map (\<lambda>k. reserved_bytes k (bt_insert (sq_id s) ?s active)) (memory_components c) \<and>
        list_all (\<lambda>k. reserved_bytes k (bt_insert (sq_id s) ?s active) \<le> available_bytes k) (memory_components c)"
      using "2.prems"(2,4) False new by (intro reserve_accounted) auto
    have "mset (map fst (bt_insert (sq_id s) ?s active) @ map sq_id waiting) =
        mset (map fst active @ map sq_id (s # waiting))"
      using mset_keys_insert_new [OF new, of ?s] by simp
    then have dist: "distinct (map fst (bt_insert (sq_id s) ?s active) @ map sq_id waiting)"
      using "2.prems"(5) mset_eq_imp_distinct_iff by blast
    show ?thesis
      by (rule "2.IH"(2) [OF False _ _ _ "2.prems"(4) dist])
        (use "2.prems"(1) False res in simp_all)
  qed
qed

lemma accounted_cong:
  "sc_config st' = sc_config st \<Longrightarrow> sc_component_used_bytes st' = sc_component_used_bytes st \<Longrightarrow>
   (\<And>c. reserved_bytes c (sc_active st') = reserved_bytes c (sc_active st)) \<Longrightarrow>
   accounted st \<Longrightarrow> accounted st'"
  by (simp add: accounted_def)

lemma admit_waiting_accounted:
  assumes core: "scheduler_core st" and acc: "accounted st"
  shows "accounted (snd (admit_waiting clock st))"
proof -
  let ?st = "reorder_waiting st"
  obtain active used deferred n where loop: "admit_loop clock (sc_config st) (sc_waiting ?st)
      (sc_active st) (sc_component_used_bytes st) [] 0 = (active, used, deferred, n)"
    by (metis prod_cases4)
  have "mset (map sq_id (sc_waiting ?st)) = mset (map sq_id (sc_waiting st))"
    by (simp only: mset_map reorder_waiting_simps)
  then have "mset (map fst (sc_active st) @ map sq_id (sc_waiting ?st)) =
      mset (bt_keys (sc_active st) @ map sq_id (sc_waiting st))" by (simp add: bt_keys_def)
  then have dist: "distinct (map fst (sc_active st) @ map sq_id (sc_waiting ?st))"
    using core mset_eq_imp_distinct_iff unfolding scheduler_core_def unique_ids_def by blast
  have "used = map (\<lambda>k. reserved_bytes k active) (memory_components (sc_config st)) \<and>
    list_all (\<lambda>k. reserved_bytes k active \<le> available_bytes k) (memory_components (sc_config st))"
    by (rule admit_loop_accounted [OF loop _ _ _ dist])
      (use acc in \<open>auto simp: accounted_def list_all_iff\<close>)
  moreover have "snd (admit_waiting clock st) = refresh_counts (?st\<lparr>sc_active := active,
      sc_component_used_bytes := used, sc_waiting := deferred\<rparr>)"
    by (simp add: admit_waiting_def Let_def loop)
  ultimately show ?thesis using acc by (simp add: accounted_def list_all_iff)
qed

lemma plan_iteration_accounted:
  assumes core: "scheduler_core st" and acc: "accounted st"
  shows "accounted (snd (plan_iteration clock st))"
proof -
  let ?a = "admitted_state clock st"
  have acc_a: "accounted ?a" unfolding admitted_state_def
    by (rule admit_waiting_accounted)
      (use core acc in \<open>auto simp: scheduler_core_def unique_ids_def accounted_def\<close>)
  have "bt_wf (sc_active ?a)"
    using admitted_state_ok [OF core, of clock] by (simp add: scheduler_ok_def scheduler_core_def active_ok_def)
  note p = plan_iteration_state [OF \<open>bt_wf (sc_active ?a)\<close>]
  have "reserved_bytes c (sc_active (snd (plan_iteration clock st))) = reserved_bytes c (sc_active ?a)" for c
    using arg_cong [OF conjunct1 [OF p], of "reserved_bytes c"] by (simp only: reserved_erase)
  then show ?thesis using p accounted_cong [OF _ _ _ acc_a] by blast
qed

lemma remove_active_accounted:
  assumes "accounted st" and "bt_wf (sc_active st)"
  shows "accounted (remove_active i st) \<and> bt_wf (sc_active (remove_active i st))"
proof (cases "bt_get (sc_active st) i")
  case None
  then show ?thesis using assms by (simp add: remove_active_def)
next
  case (Some s)
  note r = reserved_remove [OF assms(2) Some]
  show ?thesis using assms Some
    by (auto simp: remove_active_def accounted_def release_memory_eq map2_map_same list_all_iff r)
qed

lemma complete_iteration_accounted:
  assumes core: "scheduler_core st" and acc: "accounted st"
  shows "accounted (snd (complete_iteration plan ps st))"
proof -
  let ?pr = "predicted_tokens (length (pl_work plan)) ps"
  have work: "bt_wf (fst (complete_work ?pr a e)) \<and>
      (\<forall>c. reserved_bytes c (fst (complete_work ?pr a e)) = reserved_bytes c (fst a))"
    if "bt_wf (fst a)" for a :: "(string, 'a seqn) btree \<times> (string \<times> bool) list" and e
    using that by (auto simp: complete_work_def Let_def split_beta reserved_insert_old split: option.split)
  have fold: "bt_wf (fst (foldl (complete_work ?pr) a es)) \<and>
      (\<forall>c. reserved_bytes c (fst (foldl (complete_work ?pr) a es)) = reserved_bytes c (fst a))"
    if "bt_wf (fst a)" for a :: "(string, 'a seqn) btree \<times> (string \<times> bool) list" and es
    using that by (induction es arbitrary: a) (simp_all add: work)
  have retire: "accounted (foldl retire st es)" if "accounted st" "bt_wf (sc_active st)"
    for st :: "('a, 'b) scheduler" and es
    using that
  proof (induction es arbitrary: st)
    case (Cons e es)
    have "accounted (retire st e) \<and> bt_wf (sc_active (retire st e))"
      using remove_active_accounted [OF Cons.prems, of "fst e"] by (simp add: retire_def Let_def accounted_def)
    then show ?case using Cons.IH by simp
  qed simp
  have wf: "bt_wf (sc_active st)" using core by (simp add: scheduler_core_def active_ok_def)
  let ?r = "foldl (complete_work ?pr) (sc_active st, []) (enumerate 0 (pl_work plan))"
  have "accounted (st\<lparr>sc_active := fst ?r\<rparr>)" "bt_wf (fst ?r)"
    using fold [of "(sc_active st, [])" "enumerate 0 (pl_work plan)"] wf acc by (simp_all add: accounted_def)
  then have "accounted (foldl retire (st\<lparr>sc_active := fst ?r\<rparr>) (snd ?r))" by (intro retire) simp_all
  then show ?thesis
    by (simp add: complete_iteration_def Let_def split_beta accounted_def)
qed

lemma cancel_accounted:
  assumes core: "scheduler_core st" and acc: "accounted st"
  shows "accounted (snd (cancel i st))"
  using remove_active_accounted [of st i] assms
  by (auto simp: cancel_def accounted_def scheduler_core_def active_ok_def)

lemma submit_accounted: "accounted st \<Longrightarrow> accounted (snd (submit s st))"
  by (auto simp: submit_def Let_def accounted_def)

lemma observe_accounted: "accounted st \<Longrightarrow> accounted (observe_iteration_duration F plan elapsed st)"
  by (auto simp: observe_iteration_duration_def Let_def accounted_def split: option.split)

section \<open>Preemption\<close>

lemma victim_cmp_comparator: "comparator (victim_cmp now) UNIV"
  unfolding victim_cmp_def
  by (intro comparator_then_with)
    (rule comparator_cmp_key comparator_rev [OF comparator_cmp_key [where
      f = "\<lambda>s. case sq_admitted_at s of Some t \<Rightarrow> t | None \<Rightarrow> now"]])+

interpretation victims: comparator "victim_cmp now" UNIV for now
  by (rule victim_cmp_comparator)

lemma preemption_victim_Some:
  assumes "preemption_victim now m = Some v" and "active_ok m"
  shows "\<exists>s. bt_get m v = Some s \<and> (\<forall>i u. bt_get m i = Some u \<longrightarrow> sq_priority s \<le> sq_priority u)"
proof -
  obtain s where s: "min_by (victim_cmp now) (bt_values m) = Some s" "v = sq_id s"
    using assms(1) by (auto simp: preemption_victim_def)
  from victims.min_by_least [OF _ s(1)]
  have least: "s \<in> set (bt_values m)" "\<forall>z \<in> set (bt_values m). victim_cmp now s z \<noteq> Greater" by auto
  then obtain i where "(i, s) \<in> set m" by (auto simp: bt_values_def)
  then have "bt_get m v = Some s"
    using assms(2) s(2) bt_get_Some_iff by (fastforce simp: active_ok_def)
  moreover have "sq_priority s \<le> sq_priority u" if "bt_get m j = Some u" for j u
  proof -
    have "u \<in> set (bt_values m)" using bt_get_Some_mem [OF that] by (force simp: bt_values_def)
    then show ?thesis using least(2) by (force simp: victim_cmp_def)
  qed
  ultimately show ?thesis by blast
qed

lemma preemption_victim_None: "preemption_victim now m = None \<Longrightarrow> m = []"
  by (simp add: preemption_victim_def bt_values_def)

definition preempted_by :: "('s, 'f) scheduler \<Rightarrow> string list \<Rightarrow> ('s, 'f) scheduler \<Rightarrow> bool" where
  "preempted_by st vs st' \<longleftrightarrow>
     map sq_id (sc_waiting st') = rev vs @ map sq_id (sc_waiting st) \<and>
     mset (bt_keys (sc_active st)) = mset vs + mset (bt_keys (sc_active st')) \<and>
     set (sc_active st') \<subseteq> set (sc_active st) \<and>
     (\<forall>v s i u. v \<in> set vs \<longrightarrow> bt_get (sc_active st) v = Some s \<longrightarrow>
        bt_get (sc_active st') i = Some u \<longrightarrow> sq_priority s \<le> sq_priority u)"

lemma preempted_by_step:
  assumes core: "scheduler_core st" and victim: "preemption_victim now (sc_active st) = Some v"
    and get: "bt_get (sc_active st) v = Some s" and rest: "preempted_by (preempted_state v s st) vs f"
  shows "preempted_by st (v # vs) f"
proof -
  have ok: "active_ok (sc_active st)" using core by (simp add: scheduler_core_def)
  then have wf: "bt_wf (sc_active st)" by (simp add: active_ok_def)
  have least: "\<forall>i u. bt_get (sc_active st) i = Some u \<longrightarrow> sq_priority s \<le> sq_priority u"
    using preemption_victim_Some [OF victim ok] get by auto
  have "v \<in># mset (map fst (sc_active st))" using bt_get_Some_mem [OF get] by force
  then have keys: "mset (bt_keys (sc_active st)) =
      add_mset v (mset (bt_keys (sc_active (preempted_state v s st))))"
    using mset_keys_remove [OF wf, of v] by (simp add: bt_keys_def)
  have id: "sq_id (reset_for_recompute s) = v"
    using active_ok_get [OF ok get] by (simp add: reset_for_recompute_def)
  have sub: "set (sc_active f) \<subseteq> set (sc_active st)" using rest by (auto simp: preempted_by_def set_bt_remove)
  show ?thesis
    unfolding preempted_by_def
  proof (intro conjI allI impI)
    fix w t i u
    assume w: "w \<in> set (v # vs)" "bt_get (sc_active st) w = Some t" and u: "bt_get (sc_active f) i = Some u"
    show "sq_priority t \<le> sq_priority u"
    proof (cases "w = v")
      case True
      have "(i, u) \<in> set (sc_active st)" using sub bt_get_Some_mem [OF u] by auto
      then have "bt_get (sc_active st) i = Some u" using wf by (simp add: bt_get_Some_iff)
      then show ?thesis using get least w(2) True by auto
    next
      case False
      then have "bt_get (sc_active (preempted_state v s st)) w = Some t" using w(2) by (simp add: bt_get_remove)
      then show ?thesis using rest w(1) u False unfolding preempted_by_def by auto
    qed
  qed (use rest keys id sub in \<open>simp_all add: preempted_by_def\<close>)
qed

lemma preempt_loop_result:
  "scheduler_core st \<Longrightarrow> \<exists>vs. fst (preempt_loop now st pre) = pre @ vs \<and>
     preempted_by st vs (snd (preempt_loop now st pre)) \<and>
     (\<not> component_over_capacity (sc_config st) (sc_component_used_bytes (snd (preempt_loop now st pre)))
      \<or> sc_active (snd (preempt_loop now st pre)) = [])"
proof (induction st pre rule: preempt_loop_induct [where now = now])
  case (stop st pre)
  have "active_ok (sc_active st)" using stop.prems by (simp add: scheduler_core_def)
  then have "\<not> component_over_capacity (sc_config st) (sc_component_used_bytes st) \<or> sc_active st = []"
    using stop.hyps(2) preemption_victim_None preemption_victim_Some by (metis option.exhaust)
  then show ?case using stop.hyps(1) by (intro exI [of _ "[]"]) (auto simp: preempted_by_def)
next
  case (step st pre v s)
  obtain vs where vs: "fst (preempt_loop now st pre) = pre @ v # vs"
    "preempted_by (preempted_state v s st) vs (snd (preempt_loop now st pre))"
    "\<not> component_over_capacity (sc_config st) (sc_component_used_bytes (snd (preempt_loop now st pre)))
      \<or> sc_active (snd (preempt_loop now st pre)) = []"
    using step.IH [OF preempted_state_core(1) [OF step.prems step.hyps(2)]] unfolding step.hyps(3) by auto
  show ?case using vs(1,3) preempted_by_step [OF step.prems step.hyps(1,2) vs(2)] by auto
qed

section \<open>Properties\<close>

text \<open>
  (C34) A pressure report is relieved: afterwards no component is over capacity, or nothing is
  active any more. The victims leave the active map and are queued in front, none is lost, and no
  victim has a higher priority than a sequence that stays active.
\<close>

theorem preemption_relieves_pressure:
  fixes st :: "('s, 'f) scheduler"
  assumes "scheduler_ok st"
  shows "\<exists>vs st'. preempt_for_component_pressure now used st = (vs, st') \<and>
    (\<not> component_over_capacity (sc_config st') (sc_component_used_bytes st') \<or> sc_active st' = []) \<and>
    map sq_id (sc_waiting st') = rev vs @ map sq_id (sc_waiting st) \<and>
    mset (bt_keys (sc_active st)) = mset vs + mset (bt_keys (sc_active st')) \<and>
    (\<forall>v s i u. v \<in> set vs \<longrightarrow> bt_get (sc_active st) v = Some s \<longrightarrow>
        bt_get (sc_active st') i = Some u \<longrightarrow> sq_priority s \<le> sq_priority u)"
proof -
  let ?st = "st\<lparr>sc_component_used_bytes := overwrite_prefix (sc_component_used_bytes st) used\<rparr>"
  have core: "scheduler_core ?st"
    using assms by (simp add: scheduler_ok_def scheduler_core_def unique_ids_def)
  let ?r = "preempt_loop now ?st []"
  have "sc_config (snd ?r) = sc_config st" using preempt_loop_core [OF core] by simp
  then show ?thesis
    using preempt_loop_result [OF core, of now "[]"]
    by (intro exI [of _ "fst ?r"] exI [of _ "refresh_counts (snd ?r)"])
      (auto simp: preempt_for_component_pressure_def split_beta preempted_by_def)
qed

lemma preemption_relieves_pressure_witness:
  "\<exists>vs st'. preempt_for_component_pressure 0 [] (new_scheduler default_config :: (unit, nat) scheduler) = (vs, st')
     \<and> map sq_id (sc_waiting st') = rev vs"
  using preemption_relieves_pressure [OF new_scheduler_ok [of default_config], of 0 "[]"]
  by (auto simp: new_scheduler_def Let_def)

end
