(* ===== verification/SchedulerPlan.thy ===== *)
theory SchedulerPlan
  imports SchedulerMemory
begin

text \<open>
  What an iteration plan holds: every row is the next chunk or the pending token of an active
  sequence at the right positions, no sequence has two rows, the token budget is kept, and the
  cursors of the state are advanced by exactly the planned tokens.
\<close>

section \<open>The specification of a plan\<close>

text \<open>The cursor after the row \<open>w\<close> of the sequence \<open>s\<close>.\<close>

definition cursor_after :: "'s seqn \<Rightarrow> 's iteration_work \<Rightarrow> nat" where
  "cursor_after s w =
     (if wk_phase w = Decode then length (replay_tokens s) + 1
      else sq_prefill_cursor s + length (wk_tokens w))"

text \<open>The row \<open>w\<close> is the right work for the sequence \<open>s\<close>.\<close>

definition row_ok :: "scheduler_config \<Rightarrow> 's seqn \<Rightarrow> 's iteration_work \<Rightarrow> bool" where
  "row_ok c s w \<longleftrightarrow> wk_sampling w = sq_sampling s \<and> wk_tokens w \<noteq> [] \<and>
     (if wk_phase w = Decode then
        length (replay_tokens s) \<le> sq_prefill_cursor s \<and> pending_decode_token s \<noteq> None \<and>
        wk_tokens w = [last (sq_generated_tokens s)] \<and>
        wk_positions w = contiguous_positions (length (replay_tokens s)) 1 \<and> wk_sample_last w
      else
        sq_prefill_cursor s < length (replay_tokens s) \<and>
        length (wk_tokens w) \<le> prefill_chunk_tokens c \<and>
        prefix (wk_tokens w) (drop (sq_prefill_cursor s) (replay_tokens s)) \<and>
        wk_positions w = contiguous_positions (sq_prefill_cursor s) (length (wk_tokens w)) \<and>
        wk_phase w = (if sq_generated_tokens s = [] then Prefill else Recompute) \<and>
        (wk_sample_last w \<longleftrightarrow> cursor_after s w = length (replay_tokens s) \<and> sq_generated_tokens s = []))"

definition row_tokens :: "'s iteration_work list \<Rightarrow> nat" where
  "row_tokens ws = sum_list (map (\<lambda>w. length (wk_tokens w)) ws)"

text \<open>
  The loop state \<open>ps'\<close> is \<open>ps\<close> plus the rows \<open>ws\<close>: right rows for distinct sequences of \<open>ps\<close>,
  paid from the budget, and every other sequence untouched.
\<close>

definition planned :: "scheduler_config \<Rightarrow> 's plan_state \<Rightarrow> 's iteration_work list \<Rightarrow> 's plan_state \<Rightarrow> bool" where
  "planned c ps ws ps' \<longleftrightarrow>
     pl_work (ps_plan ps') = pl_work (ps_plan ps) @ ws \<and>
     pl_token_count (ps_plan ps') = pl_token_count (ps_plan ps) + row_tokens ws \<and>
     pl_admitted (ps_plan ps') = pl_admitted (ps_plan ps) \<and>
     ps_budget ps' + row_tokens ws = ps_budget ps \<and>
     distinct (map wk_sequence_id ws) \<and> bt_wf (ps_active ps') \<and>
     (\<forall>w \<in> set ws. \<exists>s. bt_get (ps_active ps) (wk_sequence_id w) = Some s \<and> row_ok c s w \<and>
        bt_get (ps_active ps') (wk_sequence_id w) = Some (s\<lparr>sq_prefill_cursor := cursor_after s w\<rparr>)) \<and>
     (\<forall>i. i \<notin> wk_sequence_id ` set ws \<longrightarrow> bt_get (ps_active ps') i = bt_get (ps_active ps) i)"

lemma planned_refl: "bt_wf (ps_active ps) \<Longrightarrow> planned c ps [] ps"
  by (simp add: planned_def row_tokens_def)

lemma planned_trans:
  assumes a: "planned c ps ws ps1" and b: "planned c ps1 vs ps2"
    and disj: "wk_sequence_id ` set ws \<inter> wk_sequence_id ` set vs = {}"
  shows "planned c ps (ws @ vs) ps2"
  unfolding planned_def
proof (intro conjI ballI allI impI)
  fix w assume w: "w \<in> set (ws @ vs)"
  show "\<exists>s. bt_get (ps_active ps) (wk_sequence_id w) = Some s \<and> row_ok c s w \<and>
        bt_get (ps_active ps2) (wk_sequence_id w) = Some (s\<lparr>sq_prefill_cursor := cursor_after s w\<rparr>)"
  proof (cases "w \<in> set ws")
    case True
    then have "wk_sequence_id w \<notin> wk_sequence_id ` set vs" using disj by blast
    then show ?thesis using a b True unfolding planned_def by metis
  next
    case False
    then have v: "w \<in> set vs" using w by simp
    then have "wk_sequence_id w \<notin> wk_sequence_id ` set ws" using disj by blast
    then show ?thesis using a b v unfolding planned_def by metis
  qed
next
  fix i assume "i \<notin> wk_sequence_id ` set (ws @ vs)"
  then show "bt_get (ps_active ps2) i = bt_get (ps_active ps) i"
    using a b by (simp add: planned_def image_Un)
qed (use a b disj in \<open>auto simp: planned_def row_tokens_def image_iff\<close>)

section \<open>The arms\<close>

lemma push_work_planned:
  assumes "bt_wf (ps_active ps)" and "bt_get (ps_active ps) i = Some s" and "wk_sequence_id w = i"
    and "row_ok c s w" and "length (wk_tokens w) = n" and "n \<le> ps_budget ps" and "k = cursor_after s w"
  shows "planned c ps [w] (push_work i (s\<lparr>sq_prefill_cursor := k\<rparr>) w n ps)"
  using assms by (auto simp: planned_def push_work_def row_tokens_def bt.get_put)

lemma planned_prefills_irrelevant:
  "planned c ps ws (ps'\<lparr>ps_prefill_sequences := k\<rparr>) = planned c ps ws ps'"
  by (simp add: planned_def)

lemma prefill_arm_planned:
  assumes wf: "bt_wf (ps_active ps)" and s: "bt_get (ps_active ps) i = Some s"
    and b: "ps_budget ps \<noteq> 0" and c: "config_ok c" and cur: "sq_prefill_cursor s < length (replay_tokens s)"
  shows "\<exists>w. wk_sequence_id w = i \<and> wk_phase w \<noteq> Decode \<and> planned c ps [w] (prefill_arm c i s ps)"
proof -
  define n where "n = min (min (prefill_chunk_tokens c) (length (replay_tokens s) - sq_prefill_cursor s)) (ps_budget ps)"
  define w where "w = \<lparr>wk_sequence_id = i,
     wk_tokens = drop (sq_prefill_cursor s) (take (sq_prefill_cursor s + n) (replay_tokens s)),
     wk_positions = contiguous_positions (sq_prefill_cursor s) n,
     wk_sample_last = (sq_prefill_cursor s + n = length (replay_tokens s) \<and> sq_generated_tokens s = []),
     wk_phase = (if sq_generated_tokens s = [] then Prefill else Recompute), wk_sampling = sq_sampling s\<rparr>"
  have "1 \<le> prefill_chunk_tokens c" using c by (simp add: config_ok_def)
  then have n: "0 < n" "n \<le> prefill_chunk_tokens c" "n \<le> ps_budget ps"
    "sq_prefill_cursor s + n \<le> length (replay_tokens s)" using b cur by (auto simp: n_def)
  have tk: "wk_tokens w = take n (drop (sq_prefill_cursor s) (replay_tokens s))"
    by (simp add: w_def drop_take)
  have len: "length (wk_tokens w) = n" unfolding tk using n(4) by simp
  have ph: "wk_phase w \<noteq> Decode" by (simp add: w_def)
  have cur': "cursor_after s w = sq_prefill_cursor s + n" using ph len by (simp add: cursor_after_def)
  have "wk_tokens w \<noteq> []" using len n(1) by auto
  moreover have "prefix (wk_tokens w) (drop (sq_prefill_cursor s) (replay_tokens s))"
    unfolding tk by (rule take_is_prefix)
  ultimately have row: "row_ok c s w"
    unfolding row_ok_def cur' len using ph cur n(2) by (simp add: w_def)
  have "prefill_arm c i s ps = (push_work i (s\<lparr>sq_prefill_cursor := sq_prefill_cursor s + n\<rparr>) w n ps)
      \<lparr>ps_prefill_sequences := ps_prefill_sequences ps + 1\<rparr>"
    by (simp add: prefill_arm_def Let_def n_def w_def)
  moreover have "planned c ps [w] (push_work i (s\<lparr>sq_prefill_cursor := sq_prefill_cursor s + n\<rparr>) w n ps)"
    by (rule push_work_planned [OF wf s _ row len n(3) cur' [symmetric]]) (simp add: w_def)
  ultimately show ?thesis using ph by (intro exI [of _ w]) (simp add: planned_prefills_irrelevant w_def)
qed

lemma decode_arm_planned:
  assumes wf: "bt_wf (ps_active ps)" and s: "bt_get (ps_active ps) i = Some s"
    and b: "ps_budget ps \<noteq> 0" and cur: "length (replay_tokens s) \<le> sq_prefill_cursor s"
    and t: "pending_decode_token s = Some t" and len: "seq_len_ok s" and base: "base = length (replay_tokens s)"
  shows "\<exists>w. wk_sequence_id w = i \<and> wk_phase w = Decode \<and> planned c ps [w] (decode_arm base i s t ps)"
proof -
  let ?w = "\<lparr>wk_sequence_id = i, wk_tokens = [t], wk_positions = contiguous_positions base 1,
        wk_sample_last = True, wk_phase = Decode, wk_sampling = sq_sampling s\<rparr>"
  have "row_ok c s ?w" using cur t base by (auto simp: row_ok_def pending_decode_token_def split: if_splits)
  moreover have "sat_add base 1 = cursor_after s ?w"
    using len base by (auto simp: cursor_after_def sat_add_def seq_len_ok_def min_def)
  ultimately have "planned c ps [?w] (decode_arm base i s t ps)"
    unfolding decode_arm_def using b by (intro push_work_planned [OF wf s]) simp_all
  then show ?thesis by (intro exI [of _ ?w]) simp
qed

section \<open>The loops\<close>

definition lengths_ok :: "(string, 's seqn) btree \<Rightarrow> bool" where
  "lengths_ok m \<longleftrightarrow> (\<forall>i s. bt_get m i = Some s \<longrightarrow> seq_len_ok s)"

lemma planned_lengths:
  assumes "planned c ps ws ps'" and "lengths_ok (ps_active ps)"
  shows "lengths_ok (ps_active ps')"
  unfolding lengths_ok_def
proof (intro allI impI)
  fix i s assume s: "bt_get (ps_active ps') i = Some s"
  show "seq_len_ok s"
  proof (cases "i \<in> wk_sequence_id ` set ws")
    case True
    then obtain t k where "bt_get (ps_active ps) i = Some t" "s = t\<lparr>sq_prefill_cursor := k\<rparr>"
      using assms(1) s unfolding planned_def by fastforce
    then show ?thesis using assms(2) by (auto simp: lengths_ok_def seq_len_ok_def)
  next
    case False
    then show ?thesis using assms s by (simp add: planned_def lengths_ok_def)
  qed
qed

lemma planned_wf: "planned c ps ws ps' \<Longrightarrow> bt_wf (ps_active ps')"
  by (simp add: planned_def)

text \<open>A loop that made the row \<open>w\<close> for \<open>i\<close> and then runs over other ids.\<close>

lemma planned_Cons:
  assumes "planned c ps [w] ps1" and "planned c ps1 ws ps2" and "wk_sequence_id ` set ws \<subseteq> set ids"
    and "wk_sequence_id w \<notin> set ids"
  shows "planned c ps (w # ws) ps2"
  using planned_trans [OF assms(1,2)] assms(3,4) by auto

lemma plan_loop_planned:
  assumes "bt_wf (ps_active ps)" and "config_ok c" and "distinct ids" and "lengths_ok (ps_active ps)"
  shows "\<exists>ws. planned c ps ws (plan_loop c rp ids ps) \<and> wk_sequence_id ` set ws \<subseteq> set ids \<and>
    (\<forall>w \<in> set ws. wk_phase w \<noteq> Decode \<longleftrightarrow> rp)"
  using assms
proof (induction c rp ids ps rule: plan_loop.induct)
  case (1 c rp ps)
  then show ?case by (intro exI [of _ "[]"]) (simp add: planned_refl)
next
  case (2 c rp i ids ps)
  have skip: ?case if "plan_loop c rp (i # ids) ps = plan_loop c rp ids ps"
    "\<exists>ws. planned c ps ws (plan_loop c rp ids ps) \<and> wk_sequence_id ` set ws \<subseteq> set ids \<and>
      (\<forall>w \<in> set ws. wk_phase w \<noteq> Decode \<longleftrightarrow> rp)" using that by auto
  have step: ?case if eq: "plan_loop c rp (i # ids) ps = plan_loop c rp ids ps1"
    and w: "\<exists>w. wk_sequence_id w = i \<and> (wk_phase w \<noteq> Decode \<longleftrightarrow> rp) \<and> planned c ps [w] ps1"
    and IH: "bt_wf (ps_active ps1) \<Longrightarrow> lengths_ok (ps_active ps1) \<Longrightarrow>
      \<exists>ws. planned c ps1 ws (plan_loop c rp ids ps1) \<and> wk_sequence_id ` set ws \<subseteq> set ids \<and>
        (\<forall>w \<in> set ws. wk_phase w \<noteq> Decode \<longleftrightarrow> rp)" for ps1
  proof -
    obtain w where w: "wk_sequence_id w = i" "wk_phase w \<noteq> Decode \<longleftrightarrow> rp" "planned c ps [w] ps1"
      using w by blast
    obtain ws where ws: "planned c ps1 ws (plan_loop c rp ids ps1)" "wk_sequence_id ` set ws \<subseteq> set ids"
      "\<forall>w \<in> set ws. wk_phase w \<noteq> Decode \<longleftrightarrow> rp"
      using IH [OF planned_wf [OF w(3)] planned_lengths [OF w(3) "2.prems"(4)]] by blast
    have "planned c ps (w # ws) (plan_loop c rp (i # ids) ps)"
      using planned_Cons [OF w(3) ws(1,2)] w(1) "2.prems"(3) eq by simp
    then show ?thesis using w ws by (intro exI [of _ "w # ws"]) auto
  qed
  show ?case
  proof (cases "ps_budget ps = 0")
    case True
    then show ?thesis using "2.prems" by (intro exI [of _ "[]"]) (simp add: planned_refl)
  next
    case b: False
    show ?thesis
    proof (cases "bt_get (ps_active ps) i")
      case None
      then show ?thesis using "2.IH"(1) [OF b None] "2.prems" b by (intro skip) simp_all
    next
      case s: (Some s)
      show ?thesis
      proof (cases "sq_prefill_cursor s < length (replay_tokens s)")
        case cur: True
        show ?thesis
        proof (cases "rp \<and> ps_prefill_sequences ps < max_prefill_sequences_per_iteration c")
          case True
          then show ?thesis
            using "2.IH"(4) [OF b s cur] "2.prems" b s cur
              prefill_arm_planned [OF "2.prems"(1) s b "2.prems"(2) cur]
            by (intro step [of "prefill_arm c i s ps"]) auto
        next
          case False
          then show ?thesis using "2.IH"(2,3) [OF b s cur] "2.prems" b s cur by (intro skip) (cases rp; auto)+
        qed
      next
        case cur: False
        show ?thesis
        proof (cases "\<not> rp \<and> pending_decode_token s \<noteq> None")
          case True
          then obtain t where t: "pending_decode_token s = Some t" by auto
          have len: "seq_len_ok s" using "2.prems"(4) s by (simp add: lengths_ok_def)
          show ?thesis
            using True "2.IH"(7) [OF b s cur _ t] "2.prems" b s cur t
              decode_arm_planned [OF "2.prems"(1) s b _ t len refl, of c]
            by (intro step [of "decode_arm (length (replay_tokens s)) i s t ps"]) auto
        next
          case False
          then show ?thesis using "2.IH"(5,6) [OF b s cur] "2.prems" b s cur by (intro skip) (cases rp; auto)+
        qed
      qed
    qed
  qed
qed

lemma mixed_prefill_loop_planned:
  assumes "bt_wf (ps_active ps)" and "config_ok c" and "distinct ids"
  shows "\<exists>ws. planned c ps ws (mixed_prefill_loop c ids ps) \<and> wk_sequence_id ` set ws \<subseteq> set ids \<and>
    (\<forall>w \<in> set ws. wk_phase w \<noteq> Decode)"
  using assms
proof (induction c ids ps rule: mixed_prefill_loop.induct)
  case (1 c ps)
  then show ?case by (intro exI [of _ "[]"]) (simp add: planned_refl)
next
  case (2 c i ids ps)
  show ?case
  proof (cases "ps_budget ps = 0 \<or> max_prefill_sequences_per_iteration c \<le> ps_prefill_sequences ps")
    case True
    then show ?thesis using "2.prems" by (intro exI [of _ "[]"]) (auto simp: planned_refl)
  next
    case b: False
    show ?thesis
    proof (cases "bt_get (ps_active ps) i")
      case None
      then show ?thesis using "2.IH"(1) [OF b None] "2.prems" b by fastforce
    next
      case s: (Some s)
      show ?thesis
      proof (cases "length (replay_tokens s) \<le> sq_prefill_cursor s")
        case True
        then show ?thesis using "2.IH"(2) [OF b s True] "2.prems" b s by fastforce
      next
        case cur: False
        let ?ps1 = "prefill_arm c i s ps"
        obtain w where w: "wk_sequence_id w = i" "wk_phase w \<noteq> Decode" "planned c ps [w] ?ps1"
          using prefill_arm_planned [OF "2.prems"(1) s _ "2.prems"(2)] b cur by auto
        obtain ws where ws: "planned c ?ps1 ws (mixed_prefill_loop c ids ?ps1)"
          "wk_sequence_id ` set ws \<subseteq> set ids" "\<forall>w \<in> set ws. wk_phase w \<noteq> Decode"
          using "2.IH"(3) [OF b s cur planned_wf [OF w(3)]] "2.prems" by auto
        have "planned c ps (w # ws) (mixed_prefill_loop c (i # ids) ps)"
          using planned_Cons [OF w(3) ws(1,2)] w(1) "2.prems"(3) b s cur by simp
        then show ?thesis using w ws by (intro exI [of _ "w # ws"]) auto
      qed
    qed
  qed
qed

lemma mixed_decode_loop_planned:
  assumes "bt_wf (ps_active ps)" and "distinct (map (\<lambda>k. ids ! ((start + k) mod length ids)) offs)"
    and "lengths_ok (ps_active ps)"
  shows "\<exists>ws. planned c ps ws (snd (mixed_decode_loop ids start offs k ps)) \<and>
    wk_sequence_id ` set ws \<subseteq> set (map (\<lambda>k. ids ! ((start + k) mod length ids)) offs) \<and>
    (\<forall>w \<in> set ws. wk_phase w = Decode)"
  using assms
proof (induction ids start offs k ps rule: mixed_decode_loop.induct)
  case (1 ids start k ps)
  then show ?case by (intro exI [of _ "[]"]) (simp add: planned_refl)
next
  case (2 ids start off offs k ps)
  let ?at = "\<lambda>k. ids ! ((start + k) mod length ids)"
  let ?i = "?at off"
  show ?case
  proof (cases "ps_budget ps = 0")
    case True
    then show ?thesis using "2.prems" by (intro exI [of _ "[]"]) (auto simp: planned_refl)
  next
    case b: False
    show ?thesis
    proof (cases "\<exists>s t. bt_get (ps_active ps) ?i = Some s \<and> recompute_token_count s \<le> sq_prefill_cursor s
        \<and> pending_decode_token s = Some t")
      case False
      then have eq: "mixed_decode_loop ids start (off # offs) k ps = mixed_decode_loop ids start offs (off + 1) ps"
        using b by (auto simp: Let_def split: option.split)
      have "\<exists>ws. planned c ps ws (snd (mixed_decode_loop ids start offs (off + 1) ps)) \<and>
          wk_sequence_id ` set ws \<subseteq> set (map ?at offs) \<and> (\<forall>w \<in> set ws. wk_phase w = Decode)"
      proof (cases "bt_get (ps_active ps) ?i")
        case None
        then show ?thesis using "2.IH"(1) [OF b refl None] "2.prems" by simp
      next
        case s: (Some s)
        show ?thesis
        proof (cases "sq_prefill_cursor s < recompute_token_count s")
          case True
          then show ?thesis using "2.IH"(2) [OF b refl s True] "2.prems" by simp
        next
          case cur: False
          then have "pending_decode_token s = None" using False s by auto
          then show ?thesis using "2.IH"(3) [OF b refl s cur] "2.prems" by simp
        qed
      qed
      then obtain ws where ws: "planned c ps ws (snd (mixed_decode_loop ids start offs (off + 1) ps))"
        "wk_sequence_id ` set ws \<subseteq> set (map ?at offs)" "\<forall>w \<in> set ws. wk_phase w = Decode" by blast
      have "wk_sequence_id ` set ws \<subseteq> set (map ?at (off # offs))" using ws(2) by auto
      with ws(1,3) show ?thesis unfolding eq by blast
    next
      case True
      then obtain s t where s: "bt_get (ps_active ps) ?i = Some s"
        and cur: "recompute_token_count s \<le> sq_prefill_cursor s" and t: "pending_decode_token s = Some t"
        by blast
      have len: "seq_len_ok s" using "2.prems"(3) s by (simp add: lengths_ok_def)
      let ?ps1 = "decode_arm (recompute_token_count s) ?i s t ps"
      note base = recompute_count_is_replay_length [OF len]
      obtain w where w: "wk_sequence_id w = ?i" "wk_phase w = Decode" "planned c ps [w] ?ps1"
        using decode_arm_planned [OF "2.prems"(1) s b _ t len base, of c] cur base by (metis (no_types))
      obtain ws where ws: "planned c ?ps1 ws (snd (mixed_decode_loop ids start offs (off + 1) ?ps1))"
        "wk_sequence_id ` set ws \<subseteq> set (map ?at offs)" "\<forall>w \<in> set ws. wk_phase w = Decode"
        using "2.IH"(4) [OF b refl s _ t planned_wf [OF w(3)] _ planned_lengths [OF w(3) "2.prems"(3)]]
          cur "2.prems"(2) by auto
      have "planned c ps (w # ws) (snd (mixed_decode_loop ids start (off # offs) k ps))"
        using planned_Cons [OF w(3) ws(1,2)] w(1) "2.prems"(2) b s cur t by (simp add: Let_def)
      then show ?thesis using w ws by (intro exI [of _ "w # ws"]) auto
    qed
  qed
qed

text \<open>Rotating the ids visits each of them once.\<close>

lemma distinct_rotation:
  assumes "distinct ids"
  shows "distinct (map (\<lambda>k. ids ! ((start + k) mod length ids)) [0..<length ids])"
proof -
  have le: "y \<le> x" if "x < n" "y < n" "(start + x) mod n = (start + y) mod n" for x y n :: nat
  proof (rule ccontr)
    assume "\<not> y \<le> x"
    then have "n dvd (start + y) - (start + x)"
      using that by (subst mod_eq_dvd_iff_nat [symmetric]) auto
    then show False using \<open>\<not> y \<le> x\<close> that(2) by (auto dest: dvd_imp_le)
  qed
  have "inj_on (\<lambda>k. (start + k) mod n) {0..<n}" for n :: nat
    by (rule inj_onI) (metis atLeastLessThan_iff le le_antisym)
  then have inj: "inj_on (\<lambda>k. (start + k) mod length ids) {0..<length ids}" .
  show ?thesis unfolding distinct_map
  proof (intro conjI inj_onI)
    fix x y assume xy: "x \<in> set [0..<length ids]" "y \<in> set [0..<length ids]"
      and eq: "ids ! ((start + x) mod length ids) = ids ! ((start + y) mod length ids)"
    then have "0 < length ids" by auto
    then have "(start + x) mod length ids = (start + y) mod length ids"
      using eq assms by (simp add: nth_eq_iff_index_eq)
    then show "x = y" using inj xy by (auto dest: inj_onD)
  qed simp
qed

section \<open>Whole plans\<close>

text \<open>The rows of \<open>plan\<close> are right for the state \<open>a\<close>, and \<open>m\<close> is the active map after them.\<close>

definition plan_correct :: "('s, 'f) scheduler \<Rightarrow> 's iteration_plan \<Rightarrow> (string, 's seqn) btree \<Rightarrow> bool" where
  "plan_correct a plan m \<longleftrightarrow>
     distinct (map wk_sequence_id (pl_work plan)) \<and>
     pl_token_count plan = row_tokens (pl_work plan) \<and>
     pl_token_count plan \<le> max_tokens_per_iteration (sc_config a) \<and>
     (\<forall>w \<in> set (pl_work plan). \<exists>s. bt_get (sc_active a) (wk_sequence_id w) = Some s \<and>
        row_ok (sc_config a) s w \<and>
        bt_get m (wk_sequence_id w) = Some (s\<lparr>sq_prefill_cursor := cursor_after s w\<rparr>)) \<and>
     (\<forall>i. i \<notin> wk_sequence_id ` set (pl_work plan) \<longrightarrow> bt_get m i = bt_get (sc_active a) i)"

definition start_state :: "('s, 'f) scheduler \<Rightarrow> 's iteration_plan \<Rightarrow> 's plan_state" where
  "start_state st plan = \<lparr>ps_active = sc_active st, ps_plan = plan,
     ps_budget = max_tokens_per_iteration (sc_config st), ps_prefill_sequences = 0\<rparr>"

lemma planned_correct:
  assumes "planned (sc_config st) (start_state st plan) ws ps" and "pl_work plan = []" and "pl_token_count plan = 0"
  shows "plan_correct st (ps_plan ps) (ps_active ps) \<and> pl_work (ps_plan ps) = ws \<and>
    pl_admitted (ps_plan ps) = pl_admitted plan"
  using assms unfolding planned_def plan_correct_def start_state_def by auto

lemma plan_separate_correct:
  assumes "bt_wf (sc_active st)" and "config_ok (sc_config st)" and "lengths_ok (sc_active st)"
    and "pl_work plan = []" and "pl_token_count plan = 0"
  shows "plan_correct st (fst (plan_separate_iteration st plan)) (sc_active (snd (plan_separate_iteration st plan))) \<and>
    (\<forall>w \<in> set (pl_work (fst (plan_separate_iteration st plan))).
       wk_phase w \<noteq> Decode \<longleftrightarrow> run_prefill_phase st)"
proof -
  let ?ids = "bt_keys (sc_active st)"
  let ?ps = "plan_loop (sc_config st) (run_prefill_phase st) ?ids (start_state st plan)"
  have d: "distinct ?ids" using bt_wf_distinct [OF assms(1)] by (simp add: bt_keys_def)
  obtain ws where ws: "planned (sc_config st) (start_state st plan) ws ?ps"
    "\<forall>w \<in> set ws. wk_phase w \<noteq> Decode \<longleftrightarrow> run_prefill_phase st"
    using plan_loop_planned [OF _ assms(2) d, of "start_state st plan" "run_prefill_phase st"] assms(1,3)
    by (auto simp: start_state_def)
  have "fst (plan_separate_iteration st plan) = ps_plan ?ps"
    "sc_active (snd (plan_separate_iteration st plan)) = ps_active ?ps"
    by (simp_all add: plan_separate_iteration_def Let_def start_state_def)
  then show ?thesis using planned_correct [OF ws(1) assms(4,5)] ws(2) by simp
qed

lemma plan_mixed_correct:
  assumes "bt_wf (sc_active st)" and "config_ok (sc_config st)" and "lengths_ok (sc_active st)"
    and "pl_work plan = []" and "pl_token_count plan = 0"
  shows "plan_correct st (fst (plan_mixed_iteration st plan)) (sc_active (snd (plan_mixed_iteration st plan)))"
proof -
  let ?c = "sc_config st"
  let ?ids = "bt_keys (sc_active st)"
  let ?start = "if ?ids = [] then 0 else sc_mixed_decode_cursor st mod length ?ids"
  let ?ps0 = "start_state st plan"
  let ?ps1 = "snd (mixed_decode_loop ?ids ?start [0..<length ?ids] 0 ?ps0)"
  let ?ps2 = "mixed_prefill_loop ?c ?ids ?ps1"
  have d: "distinct ?ids" using bt_wf_distinct [OF assms(1)] by (simp add: bt_keys_def)
  obtain ws where ws: "planned ?c ?ps0 ws ?ps1" "\<forall>w \<in> set ws. wk_phase w = Decode"
    using mixed_decode_loop_planned [OF _ distinct_rotation [OF d, of ?start], of ?ps0 ?c 0] assms(1,3)
    by (auto simp: start_state_def)
  obtain vs where vs: "planned ?c ?ps1 vs ?ps2" "\<forall>w \<in> set vs. wk_phase w \<noteq> Decode"
    using mixed_prefill_loop_planned [OF planned_wf [OF ws(1)] assms(2) d] by blast
  have "wk_sequence_id ` set ws \<inter> wk_sequence_id ` set vs = {}"
  proof (rule ccontr)
    assume "\<not> ?thesis"
    then obtain w v where wv: "w \<in> set ws" "v \<in> set vs" "wk_sequence_id w = wk_sequence_id v" by auto
    obtain s where s: "row_ok ?c s w"
      "bt_get (ps_active ?ps1) (wk_sequence_id w) = Some (s\<lparr>sq_prefill_cursor := cursor_after s w\<rparr>)"
      using ws(1) wv(1) unfolding planned_def by blast
    obtain t where t: "bt_get (ps_active ?ps1) (wk_sequence_id v) = Some t" "row_ok ?c t v"
      using vs(1) wv(2) unfolding planned_def by blast
    have "t = s\<lparr>sq_prefill_cursor := length (replay_tokens s) + 1\<rparr>"
      using s(2) t(1) wv(3) ws(2) wv(1) by (simp add: cursor_after_def)
    then show False using t(2) vs(2) wv(2) by (simp add: row_ok_def)
  qed
  then have p: "planned ?c ?ps0 (ws @ vs) ?ps2" by (rule planned_trans [OF ws(1) vs(1)])
  have "fst (plan_mixed_iteration st plan) = ps_plan ?ps2"
    "sc_active (snd (plan_mixed_iteration st plan)) = ps_active ?ps2"
    by (simp_all only: plan_mixed_iteration_def Let_def split_beta fst_conv snd_conv start_state_def) simp_all
  then show ?thesis using planned_correct [OF p assms(4,5)] by simp
qed

section \<open>The admitted state\<close>

text \<open>A predicate on sequences that admission and queueing do not change.\<close>

definition all_sequences :: "('s, 'f) scheduler \<Rightarrow> 's seqn set" where
  "all_sequences st = snd ` set (sc_active st) \<union> set (sc_waiting st)"

lemma admit_loop_all:
  assumes "admit_loop clock c waiting active used deferred admitted = (active', used', deferred', n)"
    and "\<forall>s \<in> snd ` set active \<union> set waiting \<union> set deferred. P s"
    and "\<And>s st t. P s \<Longrightarrow> P (s\<lparr>sq_status := st, sq_admitted_at := t\<rparr>)"
  shows "\<forall>s \<in> snd ` set active' \<union> set deferred'. P s"
  using assms(1,2)
proof (induction clock c waiting active used deferred admitted rule: admit_loop.induct)
  case (1 clock c active used deferred admitted)
  then show ?case by simp
next
  case (2 clock c s waiting active used deferred admitted)
  show ?case
  proof (cases "max_active_sequences c \<le> length active \<or> \<not> can_reserve_memory c used s")
    case True
    then show ?thesis using "2.IH"(1) [OF True] "2.prems" by simp
  next
    case False
    let ?s = "s\<lparr>sq_status := Running, sq_admitted_at := Some (clock admitted)\<rparr>"
    have "P ?s" using "2.prems"(2) assms(3) by simp
    then have "\<forall>s \<in> snd ` set (bt_insert (sq_id s) ?s active) \<union> set waiting \<union> set deferred. P s"
      using "2.prems"(2) set_bt_insert [of "sq_id s" ?s active] by fastforce
    then show ?thesis using "2.IH"(2) [OF False] "2.prems"(1) False by simp
  qed
qed

lemma admitted_state_all:
  assumes "\<forall>s \<in> all_sequences st. P s"
    and "\<And>s st t. P s \<Longrightarrow> P (s\<lparr>sq_status := st, sq_admitted_at := t\<rparr>)"
  shows "\<forall>s \<in> all_sequences (admitted_state clock st). P s"
proof -
  let ?st = "reorder_waiting (st\<lparr>sc_waiting_turn := sat_add (sc_waiting_turn st) 1\<rparr>)"
  obtain active used deferred n where loop: "admit_loop clock (sc_config ?st) (sc_waiting ?st)
      (sc_active ?st) (sc_component_used_bytes ?st) [] 0 = (active, used, deferred, n)"
    by (metis prod_cases4)
  have "\<forall>s \<in> snd ` set (sc_active ?st) \<union> set (sc_waiting ?st) \<union> set []. P s"
    using assms(1) by (simp add: all_sequences_def)
  from admit_loop_all [OF loop this assms(2)] loop show ?thesis
    by (simp add: admitted_state_def admit_waiting_def Let_def all_sequences_def)
qed

lemma seq_len_ok_update: "seq_len_ok s \<Longrightarrow> seq_len_ok (s\<lparr>sq_status := st, sq_admitted_at := t\<rparr>)"
  by (simp add: seq_len_ok_def)

lemma all_sequences_get: "bt_get (sc_active st) i = Some s \<Longrightarrow> s \<in> all_sequences st"
  using bt_get_Some_mem by (force simp: all_sequences_def)

lemma admitted_state_lengths:
  assumes "\<forall>s \<in> all_sequences st. seq_len_ok s"
  shows "lengths_ok (sc_active (admitted_state clock st))"
  using admitted_state_all [OF assms seq_len_ok_update] all_sequences_get
  unfolding lengths_ok_def by blast

lemma plan_iteration_cases:
  "\<exists>p. pl_work p = [] \<and> pl_token_count p = 0 \<and>
     (plan_iteration clock st = plan_mixed_iteration (admitted_state clock st) p \<and>
      mixed_prefill_decode (sc_config (admitted_state clock st)) \<and>
      0 < calibrated_decode_rows (admitted_state clock st) \<or>
      plan_iteration clock st = plan_separate_iteration (admitted_state clock st) p)"
  unfolding plan_iteration_def admitted_state_def Let_def split_beta
  by (rule exI [of _ "\<lparr>pl_work = [], pl_token_count = 0, pl_admitted =
        fst (admit_waiting clock (st\<lparr>sc_waiting_turn := sat_add (sc_waiting_turn st) 1\<rparr>)),
        pl_preempted = 0\<rparr>"]) simp

lemma plan_iteration_correct:
  assumes ok: "scheduler_ok st" and len: "\<forall>s \<in> all_sequences st. seq_len_ok s"
  shows "plan_correct (admitted_state clock st) (fst (plan_iteration clock st)) (sc_active (snd (plan_iteration clock st))) \<and>
    (\<not> mixed_prefill_decode (sc_config st) \<longrightarrow>
      (\<forall>w \<in> set (pl_work (fst (plan_iteration clock st))).
        wk_phase w \<noteq> Decode \<longleftrightarrow> run_prefill_phase (admitted_state clock st)))"
proof -
  let ?a = "admitted_state clock st"
  have "scheduler_ok ?a" and cfg: "sc_config ?a = sc_config st"
    using admitted_state_ok ok by (auto simp: scheduler_ok_def)
  then have a: "bt_wf (sc_active ?a)" "config_ok (sc_config ?a)"
    by (auto simp: scheduler_ok_def scheduler_core_def active_ok_def)
  note l = admitted_state_lengths [OF len, of clock]
  have sep: "plan_correct ?a (fst (plan_separate_iteration ?a p)) (sc_active (snd (plan_separate_iteration ?a p))) \<and>
      (\<forall>w \<in> set (pl_work (fst (plan_separate_iteration ?a p))). wk_phase w \<noteq> Decode \<longleftrightarrow> run_prefill_phase ?a)"
    if "pl_work p = []" "pl_token_count p = 0" for p by (rule plan_separate_correct [OF a l that])
  have mix: "plan_correct ?a (fst (plan_mixed_iteration ?a p)) (sc_active (snd (plan_mixed_iteration ?a p)))"
    if "pl_work p = []" "pl_token_count p = 0" for p by (rule plan_mixed_correct [OF a l that])
  show ?thesis using plan_iteration_cases [of clock st] sep mix cfg by metis
qed

section \<open>Progress\<close>

abbreviation rows :: "'s plan_state \<Rightarrow> 's iteration_work list" where
  "rows ps \<equiv> pl_work (ps_plan ps)"

lemma arms_prefix:
  "prefix (rows ps) (rows (prefill_arm c i s ps))" "prefix (rows ps) (rows (decode_arm b i s t ps))"
  by (simp_all add: prefill_arm_def decode_arm_def push_work_def Let_def)

lemma plan_loop_prefix: "prefix (rows ps) (rows (plan_loop c rp ids ps))"
proof (induction ids arbitrary: ps rp)
  case (Cons i ids)
  show ?case
    by (simp add: Cons prefix_order.trans [OF arms_prefix(1) Cons] prefix_order.trans [OF arms_prefix(2) Cons]
        del: length_replay_tokens split: option.split)
qed simp

lemma mixed_decode_prefix: "prefix (rows ps) (rows (snd (mixed_decode_loop ids start offs k ps)))"
proof (induction offs arbitrary: k ps)
  case (Cons off offs)
  show ?case
    by (simp add: Let_def Cons prefix_order.trans [OF arms_prefix(2) Cons] split: option.split)
qed simp

lemma mixed_prefill_prefix: "prefix (rows ps) (rows (mixed_prefill_loop c ids ps))"
proof (induction ids arbitrary: ps)
  case (Cons i ids)
  show ?case
    by (simp add: Cons prefix_order.trans [OF arms_prefix(1) Cons]
        del: length_replay_tokens split: option.split)
qed simp

lemma arm_work_nonempty:
  "pl_work (ps_plan (prefill_arm c i s ps)) \<noteq> []" "pl_work (ps_plan (decode_arm b i s t ps)) \<noteq> []"
  by (simp_all add: prefill_arm_def decode_arm_def push_work_def Let_def)

lemma plan_loop_progress:
  assumes "ps_budget ps \<noteq> 0" and "ps_prefill_sequences ps < max_prefill_sequences_per_iteration c"
    and "i \<in> set ids" and "bt_get (ps_active ps) i = Some s"
    and "if rp then sq_prefill_cursor s < length (replay_tokens s)
         else length (replay_tokens s) \<le> sq_prefill_cursor s \<and> pending_decode_token s \<noteq> None"
  shows "pl_work (ps_plan (plan_loop c rp ids ps)) \<noteq> []"
  using assms
proof (induction ids)
  case Nil
  then show ?case by simp
next
  case (Cons j ids)
  have grow: "pl_work (ps_plan ps1) \<noteq> [] \<Longrightarrow> pl_work (ps_plan (plan_loop c b ids ps1)) \<noteq> []" for ps1 b
    using plan_loop_prefix [of ps1 c b ids] by auto
  show ?case
  proof (cases "plan_loop c rp (j # ids) ps = plan_loop c rp ids ps \<and> i \<noteq> j")
    case True
    then show ?thesis using Cons by simp
  next
    case False
    then show ?thesis using Cons.prems
      by (auto simp: grow arm_work_nonempty simp del: length_replay_tokens split: option.splits if_splits)
  qed
qed

lemma mixed_decode_progress:
  assumes "ps_budget ps \<noteq> 0" and "off \<in> set offs" and "bt_get (ps_active ps) (ids ! ((start + off) mod length ids)) = Some s"
    and "recompute_token_count s \<le> sq_prefill_cursor s" and "pending_decode_token s \<noteq> None"
  shows "pl_work (ps_plan (snd (mixed_decode_loop ids start offs k ps))) \<noteq> []"
  using assms
proof (induction offs arbitrary: k)
  case Nil
  then show ?case by simp
next
  case (Cons o1 offs)
  have grow: "pl_work (ps_plan ps1) \<noteq> [] \<Longrightarrow>
      pl_work (ps_plan (snd (mixed_decode_loop ids start offs k ps1))) \<noteq> []" for ps1 k
    using mixed_decode_prefix [of ps1 ids start offs k] by auto
  show ?case
  proof (cases "mixed_decode_loop ids start (o1 # offs) k ps = mixed_decode_loop ids start offs (o1 + 1) ps \<and> off \<noteq> o1")
    case True
    then show ?thesis using Cons by simp
  next
    case False
    then show ?thesis using Cons.prems
      by (auto simp: Let_def grow arm_work_nonempty split: option.splits if_splits)
  qed
qed

text \<open>Some work can be done for the sequence.\<close>

definition runnable :: "'s seqn \<Rightarrow> bool" where
  "runnable s \<longleftrightarrow> wants_prefill s \<or> live_decode s"

lemma runnable_iff_not_stalled:
  "runnable s \<longleftrightarrow> sq_prefill_cursor s < recompute_token_count s \<or> sq_generated_tokens s \<noteq> []"
  by (auto simp: runnable_def wants_prefill_def live_decode_def pending_decode_token_def)

lemma plan_separate_progress:
  assumes "config_ok (sc_config st)" and "lengths_ok (sc_active st)"
    and i: "bt_get (sc_active st) i = Some s" and "runnable s"
  shows "pl_work (fst (plan_separate_iteration st plan)) \<noteq> []"
proof -
  let ?ids = "bt_keys (sc_active st)"
  have mem: "j \<in> set ?ids" if "bt_get (sc_active st) j = Some t" for j t
    using bt_get_Some_mem [OF that] by (force simp: bt_keys_def)
  have len: "recompute_token_count t = length (replay_tokens t)" if "bt_get (sc_active st) j = Some t" for j t
    using recompute_count_is_replay_length assms(2) that by (auto simp: lengths_ok_def)
  have "\<exists>j t. bt_get (sc_active st) j = Some t \<and> (if run_prefill_phase st then wants_prefill t else live_decode t)"
  proof (cases "run_prefill_phase st")
    case True
    then show ?thesis by (auto simp: run_prefill_phase_def Let_def list_ex_iff split: option.splits)
  next
    case False
    have has: "list_ex (\<lambda>i. case bt_get (sc_active st) i of Some s \<Rightarrow> P s | None \<Rightarrow> False) ?ids \<longleftrightarrow>
        (\<exists>j t. bt_get (sc_active st) j = Some t \<and> P t)" for P
      using mem by (fastforce simp: list_ex_iff split: option.splits)
    show ?thesis using False assms(4) i unfolding run_prefill_phase_def Let_def has runnable_def by auto
  qed
  then obtain j t where j: "bt_get (sc_active st) j = Some t"
    "if run_prefill_phase st then wants_prefill t else live_decode t" by blast
  have c: "1 \<le> max_tokens_per_iteration (sc_config st)" "1 \<le> max_prefill_sequences_per_iteration (sc_config st)"
    using assms(1) by (simp_all add: config_ok_def)
  have "pl_work (ps_plan (plan_loop (sc_config st) (run_prefill_phase st) ?ids (start_state st plan))) \<noteq> []"
    using j c len [OF j(1)] mem [OF j(1)]
    by (intro plan_loop_progress [of _ _ j _ t])
      (simp_all add: start_state_def wants_prefill_def live_decode_def split: if_splits)
  then show ?thesis by (simp add: plan_separate_iteration_def Let_def start_state_def)
qed

lemma rotation_hits:
  assumes "m < n" and "start < (n :: nat)"
  shows "\<exists>off < n. (start + off) mod n = m"
proof (cases "start \<le> m")
  case True
  then show ?thesis using assms by (intro exI [of _ "m - start"]) auto
next
  case False
  then have "start + (m + n - start) = m + n" using assms by simp
  then show ?thesis using assms False
    by (intro exI [of _ "m + n - start"]) (simp add: add.commute)
qed

lemma plan_mixed_progress:
  assumes "bt_wf (sc_active st)" and "config_ok (sc_config st)" and "0 < calibrated_decode_rows st"
  shows "pl_work (fst (plan_mixed_iteration st plan)) \<noteq> []"
proof -
  let ?ids = "bt_keys (sc_active st)"
  let ?start = "if ?ids = [] then 0 else sc_mixed_decode_cursor st mod length ?ids"
  obtain s where "s \<in> set (bt_values (sc_active st))" "live_decode s"
    using assms(3) by (auto simp: calibrated_decode_rows_def filter_empty_conv)
  then obtain i where i: "(i, s) \<in> set (sc_active st)" by (auto simp: bt_values_def)
  then have get: "bt_get (sc_active st) i = Some s" using assms(1) by (simp add: bt_get_Some_iff)
  have "i \<in> set ?ids" using i by (force simp: bt_keys_def)
  then obtain m where m: "m < length ?ids" "?ids ! m = i" by (metis in_set_conv_nth)
  then have "?start < length ?ids" by (auto intro: mod_less_divisor)
  then obtain off where off: "off < length ?ids" "(?start + off) mod length ?ids = m"
    using rotation_hits m(1) by blast
  have "rows (snd (mixed_decode_loop ?ids ?start [0..<length ?ids] 0 (start_state st plan))) \<noteq> []"
    by (rule mixed_decode_progress [of _ off])
      (use off m get assms(2) \<open>live_decode s\<close> in \<open>auto simp: start_state_def config_ok_def live_decode_def\<close>)
  then have "rows (mixed_prefill_loop (sc_config st) ?ids
      (snd (mixed_decode_loop ?ids ?start [0..<length ?ids] 0 (start_state st plan)))) \<noteq> []"
    using mixed_prefill_prefix by (metis prefix_Nil)
  then show ?thesis
    by (simp only: plan_mixed_iteration_def Let_def split_beta fst_conv start_state_def) simp
qed

lemma plan_iteration_progress:
  assumes ok: "scheduler_ok st" and len: "\<forall>s \<in> all_sequences st. seq_len_ok s"
    and i: "bt_get (sc_active (admitted_state clock st)) i = Some s" "runnable s"
  shows "pl_work (fst (plan_iteration clock st)) \<noteq> []"
proof -
  let ?a = "admitted_state clock st"
  have "scheduler_ok ?a" using admitted_state_ok ok by (auto simp: scheduler_ok_def)
  then have a: "bt_wf (sc_active ?a)" "config_ok (sc_config ?a)"
    by (auto simp: scheduler_ok_def scheduler_core_def active_ok_def)
  show ?thesis
    using plan_iteration_cases [of clock st] plan_mixed_progress [OF a]
      plan_separate_progress [OF a(2) admitted_state_lengths [OF len] i] by metis
qed

section \<open>Completion, row by row\<close>

text \<open>The table of predictions: a row has a token iff exactly one prediction names it.\<close>

definition named :: "nat \<Rightarrow> iteration_prediction list \<Rightarrow> int list" where
  "named k ps = map pd_token (filter (\<lambda>p. pd_work_index p = k) ps)"

definition table_of :: "nat \<Rightarrow> iteration_prediction list \<Rightarrow> int option list \<times> bool list \<Rightarrow> bool" where
  "table_of n ps r \<longleftrightarrow> length (fst r) = n \<and> length (snd r) = n \<and>
     (\<forall>k < n. fst r ! k = (case named k ps of [t] \<Rightarrow> Some t | _ \<Rightarrow> None) \<and>
        (snd r ! k \<longleftrightarrow> 2 \<le> length (named k ps)))"

lemma named_snoc:
  "named k (ps @ [p]) = (if pd_work_index p = k then named k ps @ [pd_token p] else named k ps)"
  by (simp add: named_def)

lemma table_of_place:
  assumes r: "table_of n ps r"
  shows "table_of n (ps @ [p]) (place_prediction r p)"
proof (cases "pd_work_index p < n")
  case False
  then have "place_prediction r p = r" using r by (simp add: place_prediction_def table_of_def)
  then show ?thesis using r False by (auto simp: table_of_def named_snoc)
next
  case True
  let ?k = "pd_work_index p"
  have len: "length (fst r) = n" "length (snd r) = n" using r by (simp_all add: table_of_def)
  have k: "fst r ! ?k = (case named ?k ps of [t] \<Rightarrow> Some t | _ \<Rightarrow> None)"
    "snd r ! ?k \<longleftrightarrow> 2 \<le> length (named ?k ps)" using r True by (simp_all add: table_of_def)
  have other: "\<forall>j < n. j \<noteq> ?k \<longrightarrow> fst r ! j = (case named j (ps @ [p]) of [t] \<Rightarrow> Some t | _ \<Rightarrow> None) \<and>
      (snd r ! j \<longleftrightarrow> 2 \<le> length (named j (ps @ [p])))"
    using r by (simp add: table_of_def named_snoc)
  consider (none) "named ?k ps = []" | (one) t where "named ?k ps = [t]"
    | (more) a b c where "named ?k ps = a # b # c" by (metis list.exhaust)
  then show ?thesis
  proof cases
    case none
    then have "place_prediction r p = ((fst r)[?k := Some (pd_token p)], snd r)"
      using k True len by (simp add: place_prediction_def)
    then show ?thesis using other len none k True by (auto simp: table_of_def named_snoc nth_list_update)
  next
    case one
    then have "place_prediction r p = ((fst r)[?k := None], (snd r)[?k := True])"
      using k True len by (simp add: place_prediction_def)
    then show ?thesis using other len one True by (auto simp: table_of_def named_snoc nth_list_update)
  next
    case more
    then have eq: "place_prediction r p = r" using k True len by (simp add: place_prediction_def)
    have here: "fst r ! ?k = (case named ?k (ps @ [p]) of [t] \<Rightarrow> Some t | _ \<Rightarrow> None) \<and>
        (snd r ! ?k \<longleftrightarrow> 2 \<le> length (named ?k (ps @ [p])))" using k more by (simp add: named_snoc)
    show ?thesis unfolding table_of_def eq using other here len by blast
  qed
qed

lemma place_predictions:
  "table_of n ps (foldl place_prediction (replicate n None, replicate n False) ps)"
proof (induction ps rule: rev_induct)
  case Nil
  then show ?case by (simp add: table_of_def named_def)
next
  case (snoc p ps)
  then show ?case using table_of_place by simp
qed

lemma predicted_token_iff:
  "k < n \<Longrightarrow> predicted_tokens n ps ! k = (case named k ps of [t] \<Rightarrow> Some t | _ \<Rightarrow> None)"
  "length (predicted_tokens n ps) = n"
  using place_predictions [of n ps] by (simp_all add: predicted_tokens_def table_of_def)

text \<open>What becomes of an active sequence \<open>s\<close> whose row \<open>w\<close> has the prediction \<open>t\<close>.\<close>

definition row_outcome :: "'s seqn \<Rightarrow> 's iteration_work \<Rightarrow> int option \<Rightarrow> 's seqn option" where
  "row_outcome s w predicted =
     (if \<not> wk_sample_last w then Some s
      else case predicted of
        None \<Rightarrow> None
      | Some t \<Rightarrow>
          if t < 0 \<or> sq_max_tokens s \<le> length (sq_generated_tokens s) + 1 then None
          else Some (s\<lparr>sq_generated_tokens := sq_generated_tokens s @ [t]\<rparr>))"

text \<open>The sequence that a state of the loop over the work stands for: dropped when terminal.\<close>

definition surviving :: "(string, 's seqn) btree \<times> (string \<times> bool) list \<Rightarrow> string \<Rightarrow> 's seqn option" where
  "surviving a i = (if i \<in> set (map fst (snd a)) then None else bt_get (fst a) i)"

lemma complete_work_other:
  assumes "bt_wf (fst a)"
  shows "bt_wf (fst (complete_work pr a e)) \<and>
    (wk_sequence_id (snd e) \<noteq> i \<longrightarrow> surviving (complete_work pr a e) i = surviving a i)"
  using assms by (auto simp: complete_work_def split_beta Let_def surviving_def bt.get_put split: option.split)

lemma complete_fold_other:
  assumes "bt_wf (fst a)" and "\<forall>e \<in> set es. wk_sequence_id (snd e) \<noteq> i"
  shows "bt_wf (fst (foldl (complete_work pr) a es)) \<and>
    surviving (foldl (complete_work pr) a es) i = surviving a i"
  using assms
proof (induction es arbitrary: a)
  case Nil
  then show ?case by simp
next
  case (Cons e es)
  then show ?case using complete_work_other [of a pr e i] by simp
qed

lemma complete_work_own:
  assumes "bt_wf (fst a)" and "surviving a (wk_sequence_id w) = Some s" and "k < length pr"
  shows "surviving (complete_work pr a (k, w)) (wk_sequence_id w) = row_outcome s w (pr ! k)"
proof -
  have s: "bt_get (fst a) (wk_sequence_id w) = Some s" "wk_sequence_id w \<notin> set (map fst (snd a))"
    using assms(2) by (auto simp: surviving_def split: if_splits)
  have "slice_get pr k = Some (pr ! k)" using assms(3) by simp
  then show ?thesis using s assms(1)
    by (auto simp: complete_work_def Let_def surviving_def row_outcome_def bt.get_put
        simp del: slice_get_Some split: option.split)
qed

lemma bt_get_filter: "bt_get (filter (\<lambda>e. fst e \<notin> T) m) i = (if i \<in> T then None else bt_get m i)"
  by (induction m) (auto simp: bt_get_Cons)

lemma complete_iteration_get:
  "bt_get (sc_active (snd (complete_iteration plan ps st))) i =
     surviving (foldl (complete_work (predicted_tokens (length (pl_work plan)) ps)) (sc_active st, [])
       (enumerate 0 (pl_work plan))) i"
  by (simp add: complete_iteration_def Let_def split_beta surviving_def bt_get_filter
      foldl_retire)

lemma complete_row_outcome:
  assumes wf: "bt_wf (sc_active st)" and dist: "distinct (map wk_sequence_id (pl_work plan))"
    and k: "k < length (pl_work plan)" "pl_work plan ! k = w"
    and s: "bt_get (sc_active st) (wk_sequence_id w) = Some s"
  shows "bt_get (sc_active (snd (complete_iteration plan ps st))) (wk_sequence_id w) =
    row_outcome s w (case named k ps of [t] \<Rightarrow> Some t | _ \<Rightarrow> None)"
proof -
  let ?ws = "pl_work plan" and ?i = "wk_sequence_id w"
  let ?pr = "predicted_tokens (length ?ws) ps"
  have split: "enumerate 0 ?ws = enumerate 0 (take k ?ws) @ (k, w) # enumerate (Suc k) (drop (Suc k) ?ws)"
  proof -
    have "?ws = take k ?ws @ w # drop (Suc k) ?ws" using k id_take_nth_drop by blast
    then show ?thesis using k(1) by (metis (no_types, lifting) add_0 enumerate_append_eq enumerate_simps(2)
        length_take min.absorb4)
  qed
  have "distinct (map wk_sequence_id (take k ?ws @ w # drop (Suc k) ?ws))"
    using dist k id_take_nth_drop by metis
  then have other: "\<forall>v \<in> set (take k ?ws) \<union> set (drop (Suc k) ?ws). wk_sequence_id v \<noteq> ?i"
    by (simp add: image_iff) (metis Un_iff)
  have pre: "\<forall>e \<in> set (enumerate 0 (take k ?ws)). wk_sequence_id (snd e) \<noteq> ?i"
    and post: "\<forall>e \<in> set (enumerate (Suc k) (drop (Suc k) ?ws)). wk_sequence_id (snd e) \<noteq> ?i"
    using other by (metis UnI1 UnI2 list.set_map map_snd_enumerate imageI)+
  let ?a = "foldl (complete_work ?pr) (sc_active st, []) (enumerate 0 (take k ?ws))"
  have a: "bt_wf (fst ?a)" "surviving ?a ?i = Some s"
    using complete_fold_other [OF _ pre, of "(sc_active st, [])" ?pr] wf s by (simp_all add: surviving_def)
  have b: "bt_wf (fst (complete_work ?pr ?a (k, w)))" using complete_work_other [OF a(1)] by blast
  have "surviving (foldl (complete_work ?pr) (sc_active st, []) (enumerate 0 ?ws)) ?i =
      row_outcome s w (?pr ! k)"
    unfolding split using complete_fold_other [OF b post, of ?pr] complete_work_own [OF a, of k ?pr] k(1)
    by (simp add: predicted_token_iff(2))
  then show ?thesis using k(1) by (simp add: complete_iteration_get predicted_token_iff(1))
qed

text \<open>A completed row leaves the cursor within the tokens to replay.\<close>

lemma row_keeps_aligned:
  assumes out: "row_outcome (t\<lparr>sq_prefill_cursor := cursor_after t w\<rparr>) w p = Some s"
    and row: "row_ok c t w"
  shows "sq_prefill_cursor s \<le> length (replay_tokens s)"
proof (cases "wk_sample_last w")
  case False
  then have s: "s = t\<lparr>sq_prefill_cursor := cursor_after t w\<rparr>" and "wk_phase w \<noteq> Decode"
    using out row by (auto simp: row_outcome_def row_ok_def split: if_splits)
  then have pre: "prefix (wk_tokens w) (drop (sq_prefill_cursor t) (replay_tokens t))"
    "sq_prefill_cursor t < length (replay_tokens t)"
    using row unfolding row_ok_def by presburger+
  then show ?thesis using prefix_length_le [OF pre(1)] \<open>wk_phase w \<noteq> Decode\<close>
    by (simp add: s cursor_after_def)
next
  case True
  then obtain x where s: "s = t\<lparr>sq_prefill_cursor := cursor_after t w,
      sq_generated_tokens := sq_generated_tokens t @ [x]\<rparr>"
    using out by (auto simp: row_outcome_def split: option.splits if_splits)
  show ?thesis
  proof (cases "wk_phase w = Decode")
    case True
    then have "sq_generated_tokens t \<noteq> []"
      using row by (auto simp: row_ok_def pending_decode_token_def split: if_splits)
    then show ?thesis using True by (cases "sq_generated_tokens t") (simp_all add: s cursor_after_def)
  next
    case False
    then have "cursor_after t w = length (replay_tokens t)" using row True by (simp add: row_ok_def)
    then show ?thesis by (simp add: s)
  qed
qed

lemma complete_untouched:
  assumes wf: "bt_wf (sc_active st)" and "i \<notin> wk_sequence_id ` set (pl_work plan)"
  shows "bt_get (sc_active (snd (complete_iteration plan ps st))) i = bt_get (sc_active st) i"
proof -
  have "\<forall>e \<in> set (enumerate 0 (pl_work plan)). wk_sequence_id (snd e) \<noteq> i"
    using assms(2) by (metis imageI list.set_map map_snd_enumerate)
  from complete_fold_other [OF _ this, of "(sc_active st, [])"] wf
  show ?thesis by (simp add: complete_iteration_get surviving_def)
qed

section \<open>Properties\<close>

text \<open>
  (C1) An iteration plan is right: every row is for an active sequence and holds its next replay
  chunk (a prefix of what is missing, at most one chunk) or its pending token, at the contiguous
  positions that follow the sequence's cursor; only the row that ends a fresh prompt and the decode
  rows sample; no sequence has two rows; the token count is the sum of the rows and within the
  budget; the cursors advance by exactly the planned tokens and no other sequence changes; and
  without mixed batching prefill and decode are never in one plan.
\<close>

theorem plan_rows_correct:
  fixes st :: "('s, 'f) scheduler"
  assumes "scheduler_ok st" and "\<forall>s \<in> all_sequences st. seq_len_ok s"
    and "plan_iteration clock st = (plan, st')"
  shows "distinct (map wk_sequence_id (pl_work plan)) \<and>
    pl_token_count plan = row_tokens (pl_work plan) \<and>
    pl_token_count plan \<le> max_tokens_per_iteration (sc_config st) \<and>
    (\<forall>w \<in> set (pl_work plan). \<exists>s.
       bt_get (sc_active (admitted_state clock st)) (wk_sequence_id w) = Some s \<and>
       row_ok (sc_config st) s w \<and>
       bt_get (sc_active st') (wk_sequence_id w) = Some (s\<lparr>sq_prefill_cursor := cursor_after s w\<rparr>)) \<and>
    (\<forall>i. i \<notin> wk_sequence_id ` set (pl_work plan) \<longrightarrow>
       bt_get (sc_active st') i = bt_get (sc_active (admitted_state clock st)) i) \<and>
    (\<not> mixed_prefill_decode (sc_config st) \<longrightarrow>
       (\<forall>w \<in> set (pl_work plan). wk_phase w \<noteq> Decode) \<or> (\<forall>w \<in> set (pl_work plan). wk_phase w = Decode))"
proof -
  have "sc_config (admitted_state clock st) = sc_config st"
    using admitted_state_ok [of st clock] assms(1) by (simp add: scheduler_ok_def)
  then show ?thesis using plan_iteration_correct [OF assms(1,2), of clock] assms(3)
    by (cases "run_prefill_phase (admitted_state clock st)") (auto simp: plan_correct_def)
qed

text \<open>
  (C35) The scheduler makes progress: if after admission some active sequence has prompt or replay
  tokens left or a pending token, the plan is not empty.
\<close>

theorem plan_makes_progress:
  fixes st :: "('s, 'f) scheduler"
  assumes "scheduler_ok st" and "\<forall>s \<in> all_sequences st. seq_len_ok s"
    and "bt_get (sc_active (admitted_state clock st)) i = Some s"
    and "sq_prefill_cursor s < length (replay_tokens s) \<or> sq_generated_tokens s \<noteq> []"
  shows "pl_work (fst (plan_iteration clock st)) \<noteq> []"
proof -
  have "seq_len_ok s" using admitted_state_lengths [OF assms(2)] assms(3) by (auto simp: lengths_ok_def)
  then have "runnable s"
    using assms(4) by (simp only: runnable_iff_not_stalled recompute_count_is_replay_length)
  then show ?thesis by (rule plan_iteration_progress [OF assms(1-3)])
qed

text \<open>
  Completion maps predictions to rows: a row that samples takes its token iff exactly one
  prediction names it; without one the sequence fails and leaves; a negative token or reaching
  \<open>max_tokens\<close> finishes it; otherwise the token is appended. A sequence without a row is unchanged.
\<close>

theorem completion_row_outcome:
  fixes st :: "('s, 'f) scheduler"
  assumes "scheduler_ok st" and "distinct (map wk_sequence_id (pl_work plan))"
    and "k < length (pl_work plan)" and "pl_work plan ! k = w"
    and "bt_get (sc_active st) (wk_sequence_id w) = Some s"
  shows "bt_get (sc_active (snd (complete_iteration plan ps st))) (wk_sequence_id w) =
    (if \<not> wk_sample_last w then Some s
     else case map pd_token (filter (\<lambda>p. pd_work_index p = k) ps) of
       [t] \<Rightarrow> if t < 0 \<or> sq_max_tokens s \<le> length (sq_generated_tokens s) + 1 then None
              else Some (s\<lparr>sq_generated_tokens := sq_generated_tokens s @ [t]\<rparr>)
     | _ \<Rightarrow> None)"
  using complete_row_outcome [OF _ assms(2-5), of ps] assms(1)
  by (auto simp: scheduler_ok_def scheduler_core_def active_ok_def row_outcome_def named_def
      split: list.splits)

text \<open>
  The positions stay aligned with the tokens: if no cursor is beyond the tokens to replay,
  then after planning an iteration and completing that plan, whatever the predictions, again none
  is: a decoded sequence is exactly at its end, so nothing is replayed twice and nothing skipped.
\<close>

theorem iteration_keeps_cursors_aligned:
  fixes st :: "('s, 'f) scheduler"
  assumes ok: "scheduler_ok st" and len: "\<forall>s \<in> all_sequences st. seq_len_ok s"
    and aligned: "\<forall>s \<in> all_sequences st. sq_prefill_cursor s \<le> length (replay_tokens s)"
    and plan: "plan_iteration clock st = (plan, st')"
    and get: "bt_get (sc_active (snd (complete_iteration plan ps st'))) i = Some s"
  shows "sq_prefill_cursor s \<le> length (replay_tokens s)"
proof -
  let ?a = "admitted_state clock st"
  have st': "st' = snd (plan_iteration clock st)" "plan = fst (plan_iteration clock st)"
    using plan by simp_all
  have pc: "plan_correct ?a plan (sc_active st')"
    unfolding st' using plan_iteration_correct [OF ok len] by blast
  have "scheduler_ok st'" unfolding st' using plan_iteration_ok [of st clock] ok by (simp add: scheduler_ok_def)
  then have wf: "bt_wf (sc_active st')" by (simp add: scheduler_ok_def scheduler_core_def active_ok_def)
  have "\<forall>s \<in> all_sequences ?a. sq_prefill_cursor s \<le> length (replay_tokens s)"
    by (rule admitted_state_all [OF aligned]) (simp add: replay_tokens_def)
  then have al: "sq_prefill_cursor t \<le> length (replay_tokens t)" if "bt_get (sc_active ?a) j = Some t" for j t
    using all_sequences_get [OF that] by (rule bspec)
  show ?thesis
  proof (cases "i \<in> wk_sequence_id ` set (pl_work plan)")
    case False
    then have "bt_get (sc_active ?a) i = Some s"
      using complete_untouched [OF wf False] get pc by (simp add: plan_correct_def)
    then show ?thesis by (rule al)
  next
    case True
    then obtain k w where k: "k < length (pl_work plan)" "pl_work plan ! k = w" "i = wk_sequence_id w"
      by (auto simp: in_set_conv_nth)
    then have "w \<in> set (pl_work plan)" by auto
    then obtain t where t: "bt_get (sc_active ?a) i = Some t" "row_ok (sc_config ?a) t w"
      "bt_get (sc_active st') i = Some (t\<lparr>sq_prefill_cursor := cursor_after t w\<rparr>)"
      using pc k(3) unfolding plan_correct_def by blast
    have out: "row_outcome (t\<lparr>sq_prefill_cursor := cursor_after t w\<rparr>) w
        (case named k ps of [x] \<Rightarrow> Some x | _ \<Rightarrow> None) = Some s"
      using complete_row_outcome [OF wf _ k(1,2), of _ ps] t(3) get k(3) pc by (simp add: plan_correct_def)
    show ?thesis using out t(2) by (rule row_keeps_aligned)
  qed
qed

section \<open>Witnesses\<close>

text \<open>One request, admitted.\<close>

definition demo_sequence :: "unit seqn" where
  "demo_sequence = new_sequence ''a'' [1, 2, 3] 4 None 1"

definition demo_scheduler :: "(unit, nat) scheduler" where
  "demo_scheduler = snd (submit demo_sequence (new_scheduler default_config))"

lemma demo_scheduler_ok: "scheduler_ok demo_scheduler"
  unfolding demo_scheduler_def using submit_ok [OF new_scheduler_ok] by blast

lemma demo_waiting: "sc_waiting demo_scheduler = [demo_sequence]" "sc_active demo_scheduler = []"
  by (simp_all add: demo_scheduler_def demo_sequence_def submit_def new_scheduler_def Let_def
      new_sequence_def default_config_def normalized_def refresh_counts_def)

lemma demo_lengths: "\<forall>s \<in> all_sequences demo_scheduler. seq_len_ok s"
  by (simp add: all_sequences_def demo_waiting seq_len_ok_def demo_sequence_def new_sequence_def)

lemma demo_admitted:
  "\<exists>s. bt_get (sc_active (admitted_state (\<lambda>_. 0) demo_scheduler)) ''a'' = Some s \<and>
     sq_prefill_cursor s = 0 \<and> sq_prompt_tokens s = [1, 2, 3] \<and> sq_generated_tokens s = []"
proof -
  let ?st = "demo_scheduler\<lparr>sc_waiting_turn := sat_add (sc_waiting_turn demo_scheduler) 1\<rparr>"
  have "set (sc_waiting (reorder_waiting ?st)) = {demo_sequence}"
    "mset (sc_waiting (reorder_waiting ?st)) = {#demo_sequence#}"
    by (simp_all add: demo_waiting)
  then have w: "sc_waiting (reorder_waiting ?st) = [demo_sequence]"
    by (metis mset_single_iff)
  have c: "max_active_sequences (sc_config demo_scheduler) = 32" "memory_components (sc_config demo_scheduler) = []"
    by (simp_all add: demo_scheduler_def submit_def new_scheduler_def Let_def demo_sequence_def
        new_sequence_def default_config_def normalized_def refresh_counts_def clamp_def LLAMA_MAX_SEQ_def)
  show ?thesis
    by (simp add: admitted_state_def admit_waiting_def Let_def w [unfolded One_nat_def] c demo_waiting can_reserve_memory_def
        bt_get_Cons) (simp add: demo_sequence_def new_sequence_def)
qed

lemma plan_makes_progress_witness:
  "pl_work (fst (plan_iteration (\<lambda>_. 0) demo_scheduler)) \<noteq> []"
proof -
  obtain s where s: "bt_get (sc_active (admitted_state (\<lambda>_. 0) demo_scheduler)) ''a'' = Some s"
    "sq_prefill_cursor s = 0" "sq_prompt_tokens s = [1, 2, 3]" using demo_admitted by blast
  show ?thesis by (rule plan_makes_progress [OF demo_scheduler_ok demo_lengths s(1)]) (simp add: s)
qed

lemma plan_rows_correct_witness:
  "pl_token_count (fst (plan_iteration (\<lambda>_. 0) demo_scheduler)) =
     row_tokens (pl_work (fst (plan_iteration (\<lambda>_. 0) demo_scheduler)))"
  using plan_rows_correct [OF demo_scheduler_ok demo_lengths prod.collapse [symmetric]] by blast

text \<open>A state with a running sequence, for the properties of completion.\<close>

definition demo_running :: "unit seqn" where
  "demo_running = demo_sequence\<lparr>sq_status := Running, sq_admitted_at := Some 0, sq_prefill_cursor := 3\<rparr>"

definition demo_busy :: "(unit, nat) scheduler" where
  "demo_busy = (new_scheduler default_config)\<lparr>sc_active := [(''a'', demo_running)],
     sc_metrics := default_metrics\<lparr>mt_active_sequences := 1\<rparr>\<rparr>"

definition demo_plan :: "unit iteration_plan" where
  "demo_plan = \<lparr>pl_work = [\<lparr>wk_sequence_id = ''a'', wk_tokens = [1, 2, 3], wk_positions = [0, 1, 2],
     wk_sample_last = True, wk_phase = Prefill, wk_sampling = None\<rparr>], pl_token_count = 3,
     pl_admitted = 1, pl_preempted = 0\<rparr>"

lemma demo_busy_ok: "scheduler_ok demo_busy"
  using new_scheduler_ok [of default_config]
  by (simp add: demo_busy_def scheduler_ok_def scheduler_core_def active_ok_def bt_wf_def unique_ids_def
      bt_keys_def new_scheduler_def Let_def demo_running_def demo_sequence_def new_sequence_def
      default_config_def normalized_def config_ok_def LLAMA_MAX_SEQ_def clamp_def)


end
