(* ===== verification/SchedulerRuns.thy ===== *)
theory SchedulerRuns
  imports SchedulerPlan
begin

text \<open>
  What holds along runs of the scheduler: which requests an operation removes, how every operation
  moves the recorded memory use, and the sequences that no later iteration can run.
\<close>

section \<open>The requests that an iteration ends\<close>

text \<open>
  The row at \<open>k\<close> ends the sequence \<open>s\<close>: it samples, and not exactly one prediction names it, or the
  one token is negative or the last one that the request may produce.
\<close>

definition row_ends :: "'s iteration_plan \<Rightarrow> iteration_prediction list \<Rightarrow> 's seqn \<Rightarrow> nat \<Rightarrow> bool" where
  "row_ends plan ps s k \<longleftrightarrow> k < length (pl_work plan) \<and>
     wk_sequence_id (pl_work plan ! k) = sq_id s \<and> wk_sample_last (pl_work plan ! k) \<and>
     (\<forall>t. map pd_token (filter (\<lambda>p. pd_work_index p = k) ps) = [t] \<longrightarrow>
        t < 0 \<or> sq_max_tokens s \<le> length (sq_generated_tokens s) + 1)"

lemma row_outcome_None:
  "row_outcome s w (case named k ps of [t] \<Rightarrow> Some t | _ \<Rightarrow> None) = None \<longleftrightarrow>
   wk_sample_last w \<and> (\<forall>t. named k ps = [t] \<longrightarrow> t < 0 \<or> sq_max_tokens s \<le> length (sq_generated_tokens s) + 1)"
  by (auto simp: row_outcome_def split: list.split)

lemma completed_get:
  assumes ok: "scheduler_ok st" and dist: "distinct (map wk_sequence_id (pl_work plan))"
    and s: "bt_get (sc_active st) i = Some s"
  shows "bt_get (sc_active (snd (complete_iteration plan ps st))) i = None \<longleftrightarrow> (\<exists>k. row_ends plan ps s k)"
proof -
  have act: "active_ok (sc_active st)" using ok by (simp add: scheduler_ok_def scheduler_core_def)
  then have wf: "bt_wf (sc_active st)" by (simp add: active_ok_def)
  have id: "sq_id s = i" using active_ok_get [OF act s] by simp
  show ?thesis
  proof (cases "i \<in> wk_sequence_id ` set (pl_work plan)")
    case False
    then have "\<not> row_ends plan ps s k" for k
      by (auto simp: row_ends_def id)
    then show ?thesis using complete_untouched [OF wf False] s by simp
  next
    case True
    then obtain k where k: "k < length (pl_work plan)" "wk_sequence_id (pl_work plan ! k) = i"
      by (auto simp: in_set_conv_nth)
    have only: "k' = k" if "row_ends plan ps s k'" for k'
      using that k dist nth_eq_iff_index_eq [OF dist, of k' k] by (simp add: row_ends_def id)
    note out = complete_row_outcome [OF wf dist k(1) refl, unfolded k(2), OF s]
    have "bt_get (sc_active (snd (complete_iteration plan ps st))) i = None \<longleftrightarrow> row_ends plan ps s k"
      unfolding out row_outcome_None by (simp add: row_ends_def named_def k id)
    then show ?thesis using only by blast
  qed
qed

lemma active_not_waiting:
  "scheduler_core st \<Longrightarrow> bt_get (sc_active st) i = Some s \<Longrightarrow> i \<notin> set (map sq_id (sc_waiting st))"
  using bt_get_Some_mem [of "sc_active st" i s]
  by (force simp: scheduler_core_def unique_ids_def bt_keys_def)

lemma active_in_ids: "i \<in> set (bt_keys m) \<longleftrightarrow> bt_get m i \<noteq> None"
  by (auto simp: bt_get_None_iff bt_keys_def)

lemma complete_waiting: "sc_waiting (snd (complete_iteration plan ps st)) = sc_waiting st"
  by (simp add: complete_iteration_def Let_def split_beta foldl_retire)

lemma completed_ids:
  assumes ok: "scheduler_ok st" and dist: "distinct (map wk_sequence_id (pl_work plan))"
  shows "all_ids (snd (complete_iteration plan ps st)) =
    filter_mset (\<lambda>i. \<not> (\<exists>s k. bt_get (sc_active st) i = Some s \<and> row_ends plan ps s k)) (all_ids st)"
proof -
  let ?st = "snd (complete_iteration plan ps st)" and ?T = "set (terminal_ids plan ps st)"
  have core: "scheduler_core st" using ok by (simp add: scheduler_ok_def)
  note c = complete_iteration_ok [OF core, of plan ps]
  have keys: "i \<in> set (bt_keys (sc_active ?st)) \<longleftrightarrow> i \<notin> ?T" if "bt_get (sc_active st) i = Some s" for i s
  proof -
    have "i \<in># all_ids ?st \<longleftrightarrow> i \<notin> ?T"
      using c that by (simp add: all_ids_def active_in_ids)
    then show ?thesis using active_not_waiting [OF core that] by (simp add: all_ids_def complete_waiting)
  qed
  have "i \<in> ?T \<longleftrightarrow> (\<exists>s k. bt_get (sc_active st) i = Some s \<and> row_ends plan ps s k)" for i
  proof (cases "bt_get (sc_active st) i")
    case None
    then show ?thesis using c by (auto simp: active_in_ids)
  next
    case (Some s)
    then show ?thesis using keys [OF Some] completed_get [OF ok dist Some, of ps] by (auto simp: active_in_ids)
  qed
  then show ?thesis using c by simp
qed

section \<open>How the operations move the recorded memory use\<close>

text \<open>
  The use of the component \<open>k\<close> at place \<open>n\<close> grows or shrinks with what the active sequences reserve.
  A release stops at zero, which it reaches only after a report below the reservations.
\<close>

definition use_of :: "nat \<Rightarrow> ('s, 'f) scheduler \<Rightarrow> nat" where
  "use_of n st = sc_component_used_bytes st ! n"

definition reserved_of :: "nat \<Rightarrow> ('s, 'f) scheduler \<Rightarrow> nat" where
  "reserved_of n st = reserved_bytes (memory_components (sc_config st) ! n) (sc_active st)"

definition fills :: "nat \<Rightarrow> ('s, 'f) scheduler \<Rightarrow> ('s, 'f) scheduler \<Rightarrow> bool" where
  "fills n st st' \<longleftrightarrow> reserved_of n st \<le> reserved_of n st' \<and>
     use_of n st' = use_of n st + (reserved_of n st' - reserved_of n st) \<and>
     (reserved_of n st < reserved_of n st' \<longrightarrow>
        use_of n st' \<le> available_bytes (memory_components (sc_config st) ! n))"

definition drains :: "nat \<Rightarrow> ('s, 'f) scheduler \<Rightarrow> ('s, 'f) scheduler \<Rightarrow> bool" where
  "drains n st st' \<longleftrightarrow> reserved_of n st' \<le> reserved_of n st \<and>
     use_of n st' = use_of n st - (reserved_of n st - reserved_of n st')"

lemma drains_refl: "use_of n st' = use_of n st \<Longrightarrow> reserved_of n st' = reserved_of n st \<Longrightarrow> drains n st st'"
  by (simp add: drains_def)

lemma drains_trans: "drains n st st1 \<Longrightarrow> drains n st1 st2 \<Longrightarrow> drains n st st2"
  by (auto simp: drains_def)

text \<open>Releasing one sequence.\<close>

lemma release_drains:
  assumes "bt_wf (sc_active st)" and "bt_get (sc_active st) i = Some s"
    and "n < length (memory_components (sc_config st))"
    and "length (sc_component_used_bytes st) = length (memory_components (sc_config st))"
    and "sc_active st' = bt_remove i (sc_active st)" and "sc_config st' = sc_config st"
    and "sc_component_used_bytes st' = release_memory (sc_config st) s (sc_component_used_bytes st)"
  shows "drains n st st'"
  using reserved_remove [OF assms(1,2)] assms(3-)
  by (simp add: drains_def use_of_def reserved_of_def release_memory_eq)

lemma remove_active_drains:
  assumes "bt_wf (sc_active st)" and "n < length (memory_components (sc_config st))"
    and "length (sc_component_used_bytes st) = length (memory_components (sc_config st))"
  shows "drains n st (remove_active i st)"
proof (cases "bt_get (sc_active st) i")
  case None
  then show ?thesis by (simp add: remove_active_def drains_refl)
next
  case (Some s)
  show ?thesis by (rule release_drains [OF assms(1) Some assms(2,3)]) (simp_all add: remove_active_def Some)
qed

lemma retire_drains:
  assumes "bt_wf (sc_active st)" and "n < length (memory_components (sc_config st))"
    and "length (sc_component_used_bytes st) = length (memory_components (sc_config st))"
  shows "drains n st (foldl retire st es)"
  using assms
proof (induction es arbitrary: st)
  case Nil
  then show ?case by (simp add: drains_refl)
next
  case (Cons e es)
  let ?st = "retire st e"
  have r: "sc_active ?st = bt_remove (fst e) (sc_active st)" "sc_config ?st = sc_config st"
    "sc_component_used_bytes ?st = sc_component_used_bytes (remove_active (fst e) st)"
    by (simp_all add: retire_def Let_def)
  have "drains n st ?st"
    using remove_active_drains [OF Cons.prems, of "fst e"] by (simp add: drains_def use_of_def reserved_of_def r)
  moreover have "drains n ?st (foldl retire ?st es)"
    using Cons.prems by (intro Cons.IH) (simp_all add: r)
  ultimately show ?case by (simp add: drains_trans)
qed

text \<open>Completing an iteration only rewrites sequences that keep their reservation, then retires.\<close>

lemma complete_fold_reserved:
  "bt_wf (fst a) \<Longrightarrow> bt_wf (fst (foldl (complete_work pr) a es)) \<and>
     (\<forall>c. reserved_bytes c (fst (foldl (complete_work pr) a es)) = reserved_bytes c (fst a))"
proof (induction es arbitrary: a)
  case Nil
  then show ?case by simp
next
  case (Cons e es)
  have "bt_wf (fst (complete_work pr a e)) \<and>
      (\<forall>c. reserved_bytes c (fst (complete_work pr a e)) = reserved_bytes c (fst a))"
    using Cons.prems
    by (auto simp: complete_work_def Let_def split_beta reserved_insert_old split: option.split)
  then show ?case using Cons.IH by simp
qed

lemma complete_drains:
  assumes core: "scheduler_core st" and n: "n < length (memory_components (sc_config st))"
  shows "drains n st (snd (complete_iteration plan ps st))"
proof -
  let ?pr = "predicted_tokens (length (pl_work plan)) ps"
  let ?r = "foldl (complete_work ?pr) (sc_active st, []) (enumerate 0 (pl_work plan))"
  let ?m = "st\<lparr>sc_active := fst ?r\<rparr>"
  have r: "bt_wf (fst ?r)" "\<forall>c. reserved_bytes c (fst ?r) = reserved_bytes c (sc_active st)"
    using complete_fold_reserved [of "(sc_active st, [])" ?pr "enumerate 0 (pl_work plan)"] core
    by (simp_all add: scheduler_core_def active_ok_def)
  have "drains n st ?m" using r(2) by (simp add: drains_def use_of_def reserved_of_def)
  moreover have "drains n ?m (foldl retire ?m (snd ?r))"
    using r(1) n core by (intro retire_drains) (simp_all add: scheduler_core_def)
  ultimately have "drains n st (foldl retire ?m (snd ?r))" by (rule drains_trans)
  then show ?thesis
    by (simp add: complete_iteration_def Let_def split_beta drains_def use_of_def reserved_of_def)
qed

lemma cancel_drains:
  assumes core: "scheduler_core st" and n: "n < length (memory_components (sc_config st))"
  shows "drains n st (snd (cancel i st))"
  using remove_active_drains [of st n i] core n
  by (auto simp: cancel_def drains_def use_of_def reserved_of_def scheduler_core_def active_ok_def)

text \<open>Preemption after a report: what the report says, less what the victims held.\<close>

lemma preempt_loop_drains:
  "scheduler_core st \<Longrightarrow> n < length (memory_components (sc_config st)) \<Longrightarrow>
   drains n st (snd (preempt_loop now st pre))"
proof (induction st pre rule: preempt_loop_induct [where now = now])
  case (stop st pre)
  then show ?case by (simp add: drains_refl)
next
  case (step st pre v s)
  have "bt_wf (sc_active st)" using step.prems by (simp add: scheduler_core_def active_ok_def)
  then have "drains n st (preempted_state v s st)"
    by (rule release_drains [OF _ step.hyps(2)]) (use step.prems in \<open>simp_all add: scheduler_core_def\<close>)
  moreover have "drains n (preempted_state v s st) (snd (preempt_loop now (preempted_state v s st) (pre @ [v])))"
    using step.prems preempted_state_core [OF step.prems(1) step.hyps(2)] by (intro step.IH) simp_all
  ultimately show ?case unfolding step.hyps(3) by (rule drains_trans)
qed

text \<open>Admission: what is admitted fits, so nothing saturates.\<close>

lemma reserve_level:
  assumes n: "n < length (memory_components c)" and len: "length used = length (memory_components c)"
    and cap: "mc_capacity_bytes (memory_components c ! n) < U64_MAX"
    and can: "can_reserve_memory c used s"
  shows "reserve_memory c s used ! n =
      used ! n + reservation_bytes (memory_components c ! n) (sq_admission_tokens s) \<and>
    reserve_memory c s used ! n \<le> available_bytes (memory_components c ! n)"
proof -
  let ?k = "memory_components c ! n"
  have "(?k, used ! n) \<in> set (zip (memory_components c) used)"
    using n len by (metis length_zip min.idem nth_mem nth_zip)
  then have fits: "sat_add (used ! n) (reservation_bytes ?k (sq_admission_tokens s)) \<le> available_bytes ?k"
    using can by (force simp: can_reserve_memory_def list_all_iff)
  have "available_bytes ?k < U64_MAX" using cap by (auto simp: available_bytes_def)
  then show ?thesis using fits n len
    by (simp add: reserve_memory_eq sat_add_def min_def split: if_splits)
qed

lemma admit_loop_fills:
  assumes "admit_loop clock c waiting active used deferred admitted = (active', used', deferred', m)"
    and "n < length (memory_components c)" and "length used = length (memory_components c)"
    and "mc_capacity_bytes (memory_components c ! n) < U64_MAX"
    and "distinct (map fst active @ map sq_id waiting)"
  shows "\<exists>r. reserved_bytes (memory_components c ! n) active' = reserved_bytes (memory_components c ! n) active + r \<and>
    used' ! n = used ! n + r \<and> (r \<noteq> 0 \<longrightarrow> used' ! n \<le> available_bytes (memory_components c ! n))"
  using assms
proof (induction clock c waiting active used deferred admitted rule: admit_loop.induct)
  case (1 clock c active used deferred admitted)
  then show ?case by simp
next
  case (2 clock c s waiting active used deferred admitted)
  show ?case
  proof (cases "max_active_sequences c \<le> length active \<or> \<not> can_reserve_memory c used s")
    case True
    then show ?thesis using "2.IH"(1) [OF True] "2.prems" by simp
  next
    case False
    let ?s = "s\<lparr>sq_status := Running, sq_admitted_at := Some (clock admitted)\<rparr>"
    let ?m = "bt_insert (sq_id s) ?s active"
    have new: "sq_id s \<notin> set (map fst active)" using "2.prems"(5) by auto
    have "mset (map fst ?m @ map sq_id waiting) = mset (map fst active @ map sq_id (s # waiting))"
      using mset_keys_insert_new [OF new, of ?s] by simp
    then have "distinct (map fst ?m @ map sq_id waiting)"
      using "2.prems"(5) mset_eq_imp_distinct_iff by blast
    with "2.IH"(2) [OF False _ _ _ _ this] "2.prems" False
    obtain r where r: "reserved_bytes (memory_components c ! n) active' =
        reserved_bytes (memory_components c ! n) ?m + r" "used' ! n = reserve_memory c s used ! n + r"
      "r \<noteq> 0 \<longrightarrow> used' ! n \<le> available_bytes (memory_components c ! n)" by auto
    have can: "can_reserve_memory c used s" using False by simp
    show ?thesis using r reserve_level [OF "2.prems"(2-4) can] reserved_insert_new [OF new]
      by (intro exI [of _ "reservation_bytes (memory_components c ! n) (sq_admission_tokens s) + r"])
        (cases "r = 0"; simp)
  qed
qed

lemma plan_fills:
  assumes core: "scheduler_core st" and n: "n < length (memory_components (sc_config st))"
    and cap: "mc_capacity_bytes (memory_components (sc_config st) ! n) < U64_MAX"
  shows "fills n st (snd (plan_iteration clock st))"
proof -
  let ?a = "admitted_state clock st" and ?q = "st\<lparr>sc_waiting_turn := sat_add (sc_waiting_turn st) 1\<rparr>"
  let ?w = "sc_waiting (reorder_waiting ?q)"
  obtain active used deferred m where loop: "admit_loop clock (sc_config st) ?w
      (sc_active st) (sc_component_used_bytes st) [] 0 = (active, used, deferred, m)"
    by (metis prod_cases4)
  have "mset (map sq_id ?w) = mset (map sq_id (sc_waiting st))"
    by (simp only: mset_map reorder_waiting_simps) simp
  then have "mset (map fst (sc_active st) @ map sq_id ?w) =
      mset (bt_keys (sc_active st) @ map sq_id (sc_waiting st))" by (simp add: bt_keys_def)
  then have dist: "distinct (map fst (sc_active st) @ map sq_id ?w)"
    using core mset_eq_imp_distinct_iff unfolding scheduler_core_def unique_ids_def by blast
  have a: "sc_active ?a = active" "sc_component_used_bytes ?a = used"
    using loop by (simp_all add: admitted_state_def admit_waiting_def Let_def)
  have ok: "scheduler_ok ?a" "sc_config ?a = sc_config st" using admitted_state_ok [OF core] by auto
  then have "bt_wf (sc_active ?a)" by (simp add: scheduler_ok_def scheduler_core_def active_ok_def)
  note p = plan_iteration_state [OF this]
  have "reserved_bytes c (sc_active (snd (plan_iteration clock st))) = reserved_bytes c active" for c
    using arg_cong [OF conjunct1 [OF p], of "reserved_bytes c"] a(1) by (simp only: reserved_erase)
  moreover obtain r where "reserved_bytes (memory_components (sc_config st) ! n) active =
      reserved_bytes (memory_components (sc_config st) ! n) (sc_active st) + r"
    "used ! n = sc_component_used_bytes st ! n + r"
    "r \<noteq> 0 \<longrightarrow> used ! n \<le> available_bytes (memory_components (sc_config st) ! n)"
    using admit_loop_fills [OF loop n _ cap dist] core by (auto simp: scheduler_core_def)
  ultimately show ?thesis using p a(2) ok(2) by (simp add: fills_def use_of_def reserved_of_def)
qed

lemma submit_quiet:
  "sc_active (snd (submit s st)) = sc_active st \<and> sc_config (snd (submit s st)) = sc_config st \<and>
   sc_component_used_bytes (snd (submit s st)) = sc_component_used_bytes st"
  by (simp add: submit_def Let_def)

lemma observe_quiet:
  "sc_active (observe_iteration_duration F plan elapsed st) = sc_active st \<and>
   sc_waiting (observe_iteration_duration F plan elapsed st) = sc_waiting st \<and>
   sc_config (observe_iteration_duration F plan elapsed st) = sc_config st \<and>
   sc_component_used_bytes (observe_iteration_duration F plan elapsed st) = sc_component_used_bytes st"
  by (auto simp: observe_iteration_duration_def Let_def split: option.split)

lemma nth_overwrite_prefix:
  "n < length xs \<Longrightarrow> overwrite_prefix xs ys ! n = (if n < length ys then ys ! n else xs ! n)"
  by (induction xs ys arbitrary: n rule: overwrite_prefix.induct) (auto simp: nth_Cons split: nat.split)

lemma report_drains:
  assumes core: "scheduler_core st" and n: "n < length (memory_components (sc_config st))"
  shows "drains n (st\<lparr>sc_component_used_bytes := overwrite_prefix (sc_component_used_bytes st) used\<rparr>)
    (snd (preempt_for_component_pressure now used st))"
proof -
  let ?st = "st\<lparr>sc_component_used_bytes := overwrite_prefix (sc_component_used_bytes st) used\<rparr>"
  have "scheduler_core ?st" using core by (simp add: scheduler_core_def unique_ids_def)
  then have "drains n ?st (snd (preempt_loop now ?st []))" using n by (intro preempt_loop_drains) simp_all
  then show ?thesis
    by (simp add: preempt_for_component_pressure_def split_beta drains_def use_of_def reserved_of_def)
qed

section \<open>Runs without a pressure report\<close>

inductive metered_step :: "('s, 'f) scheduler \<Rightarrow> ('s, 'f) scheduler \<Rightarrow> bool" where
  metered_submit: "metered_step st (snd (submit s st))"
| metered_plan: "metered_step st (snd (plan_iteration clock st))"
| metered_observe: "metered_step st (observe_iteration_duration F plan elapsed st)"
| metered_complete: "metered_step st (snd (complete_iteration plan predictions st))"
| metered_cancel: "metered_step st (snd (cancel i st))"

definition within_u64 :: "scheduler_config \<Rightarrow> bool" where
  "within_u64 c \<longleftrightarrow> (\<forall>k \<in> set (memory_components c). mc_capacity_bytes k < U64_MAX)"

lemma components_normalized [simp]: "memory_components (normalized c) = memory_components c"
  by (simp add: normalized_def Let_def)

interpretation metered: step_invariant "\<lambda>st. \<exists>c. st = new_scheduler c \<and> within_u64 c" metered_step
  "\<lambda>st. scheduler_ok st \<and> accounted st"
proof
  fix st :: "('a, 'b) scheduler"
  assume "\<exists>c. st = new_scheduler c \<and> within_u64 c"
  then obtain c where c: "st = new_scheduler c" "within_u64 c" by blast
  have "accounted st" using c(2)
    by (simp add: accounted_def c(1) new_scheduler_def Let_def reserved_bytes_def within_u64_def
        list_all_iff map_replicate_const)
  then show "scheduler_ok st \<and> accounted st" using new_scheduler_ok c(1) by simp
next
  fix st st' :: "('a, 'b) scheduler"
  assume ok: "scheduler_ok st \<and> accounted st" and step: "metered_step st st'"
  then have s: "scheduler_ok st" "accounted st" and core: "scheduler_core st" by (simp_all add: scheduler_ok_def)
  note ops = conjunct1 [OF submit_ok [OF s(1)]] conjunct1 [OF plan_iteration_ok [OF core]]
    conjunct1 [OF observe_ok [OF s(1)]] conjunct1 [OF complete_iteration_ok [OF core]]
    conjunct1 [OF cancel_ok [OF s(1)]]
  note acc = submit_accounted [OF s(2)] plan_iteration_accounted [OF core s(2)] observe_accounted [OF s(2)]
    complete_iteration_accounted [OF core s(2)] cancel_accounted [OF core s(2)]
  from step show "scheduler_ok st' \<and> accounted st'"
    by (cases rule: metered_step.cases) (simp_all only: ops acc simp_thms)
qed

section \<open>Sequences with nothing to run\<close>

text \<open>Restored over its whole prompt, nothing generated, and no token of the prompt left to replay.\<close>

definition covered :: "'s seqn \<Rightarrow> bool" where
  "covered s \<longleftrightarrow> sq_generated_tokens s = [] \<and>
     (\<exists>r. sq_prefix_restore s = Some r \<and> length (sq_prompt_tokens s) \<le> pr_token_count r)"

definition stalled :: "'s seqn \<Rightarrow> bool" where
  "stalled s \<longleftrightarrow> covered s \<and> length (sq_prompt_tokens s) \<le> sq_prefill_cursor s"

lemma reset_covered:
  "covered s \<Longrightarrow> stalled ((reset_for_recompute s)\<lparr>sq_enqueue_order := k\<rparr>)"
  by (auto simp: covered_def stalled_def reset_for_recompute_def)

lemma stalled_no_work:
  assumes "stalled s"
  shows "length (replay_tokens s) \<le> sq_prefill_cursor s" and "pending_decode_token s = None"
  using assms by (simp_all add: stalled_def covered_def pending_decode_token_def)

text \<open>The planning loops pass such a sequence by.\<close>

definition passes :: "string \<Rightarrow> 's plan_state \<Rightarrow> bool" where
  "passes v ps \<longleftrightarrow> bt_wf (ps_active ps) \<and> (\<forall>s. bt_get (ps_active ps) v = Some s \<longrightarrow> stalled s) \<and>
     v \<notin> wk_sequence_id ` set (pl_work (ps_plan ps))"

lemma arms_pass:
  assumes "passes v ps" and "i \<noteq> v"
  shows "passes v (prefill_arm c i s ps)" and "passes v (decode_arm base i s t ps)"
  using assms by (auto simp: passes_def prefill_arm_def decode_arm_def push_work_def Let_def bt.get_put)

lemma passes_get:
  assumes "passes v ps" and "bt_get (ps_active ps) v = Some s"
  shows "\<not> sq_prefill_cursor s < length (replay_tokens s)" and "length (replay_tokens s) \<le> sq_prefill_cursor s"
    and "pending_decode_token s = None"
proof -
  have "stalled s" using assms by (simp add: passes_def)
  from stalled_no_work [OF this] show "\<not> sq_prefill_cursor s < length (replay_tokens s)"
    and "length (replay_tokens s) \<le> sq_prefill_cursor s" and "pending_decode_token s = None"
    by (simp_all only: not_less)
qed

lemma plan_loop_skips:
  "passes v ps \<Longrightarrow> plan_loop c rp (v # ids) ps = (if ps_budget ps = 0 then ps else plan_loop c rp ids ps)"
  using passes_get [of v ps] by (simp del: length_replay_tokens not_less split: option.split)

lemma plan_loop_passes: "passes v ps \<Longrightarrow> passes v (plan_loop c rp ids ps)"
proof (induction ids arbitrary: ps rp)
  case (Cons i ids)
  show ?case
  proof (cases "i = v")
    case True
    then show ?thesis using Cons plan_loop_skips [OF Cons.prems] by simp
  next
    case False
    then show ?thesis using Cons arms_pass [OF Cons.prems False]
      by (simp del: length_replay_tokens split: option.split)
  qed
qed simp

lemma mixed_decode_passes: "passes v ps \<Longrightarrow> passes v (snd (mixed_decode_loop ids start offs k ps))"
proof (induction offs arbitrary: k ps)
  case (Cons off offs)
  let ?i = "ids ! ((start + off) mod length ids)"
  show ?case
  proof (cases "?i = v")
    case True
    then show ?thesis using Cons passes_get [OF Cons.prems] by (simp add: Let_def split: option.split)
  next
    case False
    then show ?thesis using Cons arms_pass(2) [OF Cons.prems False]
      by (simp add: Let_def split: option.split)
  qed
qed simp

lemma mixed_prefill_passes: "passes v ps \<Longrightarrow> passes v (mixed_prefill_loop c ids ps)"
proof (induction ids arbitrary: ps)
  case (Cons i ids)
  show ?case
  proof (cases "i = v")
    case True
    then show ?thesis using Cons passes_get [OF Cons.prems]
      by (simp del: length_replay_tokens split: option.split)
  next
    case False
    then show ?thesis using Cons arms_pass(1) [OF Cons.prems False]
      by (simp del: length_replay_tokens split: option.split)
  qed
qed simp

text \<open>So an iteration never plans a row for it, and it stays as it is.\<close>

lemma plan_loops_pass:
  assumes start: "\<And>p. pl_work p = [] \<Longrightarrow> passes v (start_state (admitted_state clock st) p)"
  shows "\<exists>ps. passes v ps \<and> fst (plan_iteration clock st) = ps_plan ps \<and>
    sc_active (snd (plan_iteration clock st)) = ps_active ps"
proof -
  let ?a = "admitted_state clock st"
  let ?ids = "bt_keys (sc_active ?a)"
  obtain p where p: "pl_work p = []" "plan_iteration clock st = plan_mixed_iteration ?a p \<or>
      plan_iteration clock st = plan_separate_iteration ?a p"
    using plan_iteration_cases [of clock st] by blast
  note s = start [OF p(1)]
  from p(2) show ?thesis
  proof
    assume eq: "plan_iteration clock st = plan_separate_iteration ?a p"
    let ?ps = "plan_loop (sc_config ?a) (run_prefill_phase ?a) ?ids (start_state ?a p)"
    have "fst (plan_separate_iteration ?a p) = ps_plan ?ps"
      "sc_active (snd (plan_separate_iteration ?a p)) = ps_active ?ps"
      by (simp_all add: plan_separate_iteration_def Let_def start_state_def)
    then show ?thesis using plan_loop_passes [OF s] eq by metis
  next
    assume eq: "plan_iteration clock st = plan_mixed_iteration ?a p"
    let ?b = "if ?ids = [] then 0 else sc_mixed_decode_cursor ?a mod length ?ids"
    let ?ps = "mixed_prefill_loop (sc_config ?a) ?ids
      (snd (mixed_decode_loop ?ids ?b [0..<length ?ids] 0 (start_state ?a p)))"
    have "fst (plan_mixed_iteration ?a p) = ps_plan ?ps" "sc_active (snd (plan_mixed_iteration ?a p)) = ps_active ?ps"
      by (simp_all only: plan_mixed_iteration_def Let_def split_beta fst_conv snd_conv start_state_def) simp_all
    then show ?thesis using mixed_prefill_passes [OF mixed_decode_passes [OF s]] eq by metis
  qed
qed

lemma plan_iteration_passes:
  assumes core: "scheduler_core st" and all: "\<forall>s \<in> all_sequences st. sq_id s = v \<longrightarrow> stalled s"
  shows "v \<notin> wk_sequence_id ` set (pl_work (fst (plan_iteration clock st)))"
    and "\<forall>s \<in> all_sequences (snd (plan_iteration clock st)). sq_id s = v \<longrightarrow> stalled s"
proof -
  let ?a = "admitted_state clock st" and ?st = "snd (plan_iteration clock st)"
  have seqs: "\<forall>s \<in> all_sequences ?a. sq_id s = v \<longrightarrow> stalled s"
    by (rule admitted_state_all [OF all]) (simp add: stalled_def covered_def)
  have ok: "active_ok (sc_active ?a)"
    using admitted_state_ok [OF core, of clock] by (simp add: scheduler_ok_def scheduler_core_def)
  then have wf: "bt_wf (sc_active ?a)" by (simp add: active_ok_def)
  have "passes v (start_state ?a p)" if "pl_work p = []" for p
    unfolding passes_def using that seqs wf active_ok_get [OF ok] all_sequences_get [of ?a]
    by (fastforce simp: start_state_def)
  then obtain ps where ps: "passes v ps" "fst (plan_iteration clock st) = ps_plan ps" "sc_active ?st = ps_active ps"
    using plan_loops_pass by blast
  then show "v \<notin> wk_sequence_id ` set (pl_work (fst (plan_iteration clock st)))" by (simp add: passes_def)
  have "active_ok (sc_active ?st)"
    using plan_iteration_ok [OF core] by (simp add: scheduler_ok_def scheduler_core_def)
  then have "stalled s" if "(i, s) \<in> set (sc_active ?st)" "sq_id s = v" for i s
    using ps(1,3) that active_ok_get [of "sc_active ?st" i s] by (auto simp: passes_def bt_get_Some_iff)
  moreover have "sc_waiting ?st = sc_waiting ?a" using plan_iteration_state [OF wf] by blast
  ultimately show "\<forall>s \<in> all_sequences ?st. sq_id s = v \<longrightarrow> stalled s"
    using seqs by (auto simp: all_sequences_def)
qed

section \<open>Runs of an engine\<close>

text \<open>
  The engine's caller keeps the last plan until it completes it; otherwise the order of the calls is
  free. A run that serves the request \<open>v\<close> does not cancel it.
\<close>

inductive engine_step :: "string \<Rightarrow> ('s, 'f) scheduler \<times> 's iteration_plan option \<Rightarrow>
    ('s, 'f) scheduler \<times> 's iteration_plan option \<Rightarrow> bool" for v where
  engine_submit: "engine_step v (st, p) (snd (submit s st), p)"
| engine_plan: "engine_step v (st, p) (snd (plan_iteration clock st), Some (fst (plan_iteration clock st)))"
| engine_observe: "engine_step v (st, p) (observe_iteration_duration F plan elapsed st, p)"
| engine_complete: "engine_step v (st, Some plan) (snd (complete_iteration plan predictions st), None)"
| engine_preempt: "engine_step v (st, p) (snd (preempt_for_component_pressure now used st), p)"
| engine_cancel: "i \<noteq> v \<Longrightarrow> engine_step v (st, p) (snd (cancel i st), p)"

text \<open>
  The request is queued or active with nothing to run; a plan made before may still hold a row for
  it, but only while it is queued.
\<close>

definition stuck :: "string \<Rightarrow> ('s, 'f) scheduler \<times> 's iteration_plan option \<Rightarrow> bool" where
  "stuck v e \<longleftrightarrow> scheduler_ok (fst e) \<and> v \<in># all_ids (fst e) \<and>
     (\<forall>s \<in> all_sequences (fst e). sq_id s = v \<longrightarrow> stalled s) \<and>
     (\<forall>plan. snd e = Some plan \<longrightarrow> v \<in> wk_sequence_id ` set (pl_work plan) \<longrightarrow>
        bt_get (sc_active (fst e)) v = None)"

lemma stuckI:
  assumes "stuck v (st, p)" and "scheduler_ok st'" and "v \<in># all_ids st'"
    and "\<And>s. s \<in> all_sequences st' \<Longrightarrow> sq_id s = v \<Longrightarrow> s \<in> all_sequences st"
    and "bt_get (sc_active st) v = None \<Longrightarrow> bt_get (sc_active st') v = None"
  shows "stuck v (st', p)"
proof -
  have "\<forall>s \<in> all_sequences st'. sq_id s = v \<longrightarrow> stalled s" using assms(1,4) by (auto simp: stuck_def)
  then show ?thesis using assms(1-3,5) by (simp add: stuck_def)
qed

lemma submit_stuck:
  assumes "stuck v (st, p)"
  shows "stuck v (snd (submit s st), p)"
proof (rule stuckI [OF assms])
  have ok: "scheduler_ok st" and v: "v \<in># all_ids st" using assms by (simp_all add: stuck_def)
  note ops = submit_ok [OF ok, of s]
  show "scheduler_ok (snd (submit s st))" "v \<in># all_ids (snd (submit s st))" using ops v by auto
  fix u assume u: "u \<in> all_sequences (snd (submit s st))" "sq_id u = v"
  show "u \<in> all_sequences st"
  proof (cases "fst (submit s st) = Inr ()")
    case True
    then have "unique_ids (snd (submit s st))" "all_ids (snd (submit s st)) = add_mset (sq_id s) (all_ids st)"
      using ops by (simp_all add: scheduler_ok_def scheduler_core_def)
    then have "sq_id s \<noteq> v" using v
      by (auto simp: unique_ids_iff dest!: spec [of _ v]) (simp add: not_in_iff [symmetric])
    then show ?thesis using u by (auto simp: submit_def Let_def all_sequences_def split: if_splits)
  next
    case False
    then show ?thesis using u by (auto simp: submit_def Let_def all_sequences_def split: if_splits)
  qed
qed (simp add: submit_quiet)

lemma cancel_stuck:
  assumes "stuck v (st, p)" and "i \<noteq> v"
  shows "stuck v (snd (cancel i st), p)"
proof (rule stuckI [OF assms(1)])
  have ok: "scheduler_ok st" and v: "v \<in># all_ids st" using assms by (simp_all add: stuck_def)
  note ops = cancel_ok [OF ok, of i]
  show "scheduler_ok (snd (cancel i st))" using ops by simp
  show "v \<in># all_ids (snd (cancel i st))" using ops v assms(2) by (simp add: in_diff_count)
  show "u \<in> all_sequences st" if "u \<in> all_sequences (snd (cancel i st))" for u
    using that set_remove_first_waiting [of i "sc_waiting st"]
    by (auto simp: cancel_def all_sequences_def set_bt_remove split: if_splits)
  show "bt_get (sc_active st) v = None \<Longrightarrow> bt_get (sc_active (snd (cancel i st))) v = None"
    by (simp add: cancel_def bt_get_remove)
qed

lemma plan_stuck:
  assumes "stuck v (st, p)"
  shows "stuck v (snd (plan_iteration clock st), Some (fst (plan_iteration clock st)))"
proof -
  have core: "scheduler_core st" and all: "\<forall>s \<in> all_sequences st. sq_id s = v \<longrightarrow> stalled s"
    using assms by (simp_all add: stuck_def scheduler_ok_def)
  show ?thesis
    using plan_iteration_ok [OF core, of clock] plan_iteration_passes [OF core all] assms by (simp add: stuck_def)
qed

lemma observe_stuck:
  assumes "stuck v (st, p)"
  shows "stuck v (observe_iteration_duration F plan elapsed st, p)"
  using assms observe_ok [of st F plan elapsed] observe_quiet [of F plan elapsed st]
  by (intro stuckI [OF assms]) (simp_all add: stuck_def all_sequences_def)

lemma complete_stuck:
  assumes "stuck v (st, Some plan)"
  shows "stuck v (snd (complete_iteration plan ps st), None)"
proof -
  let ?st = "snd (complete_iteration plan ps st)"
  have core: "scheduler_core st" and ok: "active_ok (sc_active st)" and wf: "bt_wf (sc_active st)"
    and v: "v \<in># all_ids st" and all: "\<forall>s \<in> all_sequences st. sq_id s = v \<longrightarrow> stalled s"
    using assms by (simp_all add: stuck_def scheduler_ok_def scheduler_core_def active_ok_def)
  note c = complete_iteration_ok [OF core, of plan ps]
  have ok': "active_ok (sc_active ?st)" using c by (simp add: scheduler_ok_def scheduler_core_def)
  have same: "bt_get (sc_active ?st) v = bt_get (sc_active st) v"
  proof (cases "v \<in> wk_sequence_id ` set (pl_work plan)")
    case False
    then show ?thesis by (rule complete_untouched [OF wf])
  next
    case True
    then have none: "bt_get (sc_active st) v = None" using assms by (simp add: stuck_def)
    have "v \<in> set (map sq_id (sc_waiting st))" using v none by (auto simp: all_ids_def active_in_ids)
    then have "bt_get (sc_active ?st) v = None"
      using active_not_waiting [of ?st v] c
      by (cases "bt_get (sc_active ?st) v") (auto simp: scheduler_ok_def complete_waiting)
    then show ?thesis using none by simp
  qed
  have "v \<in># all_ids ?st"
    using v same by (simp add: all_ids_def active_in_ids complete_waiting)
  moreover have "stalled s" if s: "s \<in> all_sequences ?st" "sq_id s = v" for s
  proof (cases "s \<in> set (sc_waiting ?st)")
    case True
    then show ?thesis using all s(2) by (simp add: all_sequences_def complete_waiting)
  next
    case False
    then obtain i where i: "(i, s) \<in> set (sc_active ?st)" using s(1) by (auto simp: all_sequences_def)
    then have "bt_get (sc_active ?st) i = Some s" using ok' by (simp add: active_ok_def bt_get_Some_iff)
    then have "bt_get (sc_active st) v = Some s" using active_ok_get [OF ok'] s(2) same by fastforce
    then show ?thesis using all s(2) all_sequences_get by blast
  qed
  ultimately show ?thesis using c by (simp add: stuck_def)
qed

text \<open>Preemption resets what it queues, and leaves the rest of the active map and the queue alone.\<close>

lemma preempt_loop_sequences:
  assumes "\<And>s k. A s \<Longrightarrow> B ((reset_for_recompute s)\<lparr>sq_enqueue_order := k\<rparr>)"
    and "\<forall>s \<in> snd ` set (sc_active st). A s" and "\<forall>s \<in> set (sc_waiting st). B s"
  shows "set (sc_active (snd (preempt_loop now st pre))) \<subseteq> set (sc_active st) \<and>
    (\<forall>s \<in> set (sc_waiting (snd (preempt_loop now st pre))). B s)"
  using assms(2,3)
proof (induction st pre rule: preempt_loop_induct [where now = now])
  case (stop st pre)
  then show ?case by simp
next
  case (step st pre v s)
  have sub: "set (bt_remove v (sc_active st)) \<subseteq> set (sc_active st)" by (auto simp: set_bt_remove)
  have "A s" using bt_get_Some_mem [OF step.hyps(2)] step.prems(1) by force
  then have b: "\<forall>u \<in> set (sc_waiting (preempted_state v s st)). B u" using assms(1) step.prems(2) by simp
  have a: "\<forall>u \<in> snd ` set (sc_active (preempted_state v s st)). A u" using step.prems(1) sub by auto
  have "set (sc_active (snd (preempt_loop now (preempted_state v s st) (pre @ [v])))) \<subseteq>
      set (bt_remove v (sc_active st)) \<and>
    (\<forall>u \<in> set (sc_waiting (snd (preempt_loop now (preempted_state v s st) (pre @ [v])))). B u)"
    using step.IH [OF a b] by simp
  then show ?case unfolding step.hyps(3) using subset_trans [OF _ sub] by blast
qed

lemma preempt_sequences:
  assumes "\<And>s k. A s \<Longrightarrow> B ((reset_for_recompute s)\<lparr>sq_enqueue_order := k\<rparr>)"
    and "\<forall>s \<in> snd ` set (sc_active st). A s" and "\<forall>s \<in> set (sc_waiting st). B s"
  shows "set (sc_active (snd (preempt_for_component_pressure now used st))) \<subseteq> set (sc_active st)"
    and "\<forall>s \<in> set (sc_waiting (snd (preempt_for_component_pressure now used st))). B s"
  using preempt_loop_sequences [where A = A and B = B and now = now and pre = "[]" and
      st = "st\<lparr>sc_component_used_bytes := overwrite_prefix (sc_component_used_bytes st) used\<rparr>"] assms
  by (simp_all add: preempt_for_component_pressure_def split_beta)

lemma stalled_covered: "stalled s \<Longrightarrow> covered s"
  by (simp add: stalled_def)

lemma id_reset [simp]: "sq_id (reset_for_recompute s) = sq_id s"
  by (simp add: reset_for_recompute_def)

lemma preempt_stuck:
  assumes "stuck v (st, p)"
  shows "stuck v (snd (preempt_for_component_pressure now used st), p)"
proof -
  let ?st = "snd (preempt_for_component_pressure now used st)"
  have core: "scheduler_core st" and v: "v \<in># all_ids st"
    and all: "\<forall>s \<in> all_sequences st. sq_id s = v \<longrightarrow> stalled s"
    using assms by (simp_all add: stuck_def scheduler_ok_def)
  note ops = preempt_ok [OF core, of now used]
  note seqs = preempt_sequences [of "\<lambda>s. sq_id s = v \<longrightarrow> stalled s" "\<lambda>s. sq_id s = v \<longrightarrow> stalled s" st now used]
  have sub: "set (sc_active ?st) \<subseteq> set (sc_active st)"
    and waiting: "\<forall>s \<in> set (sc_waiting ?st). sq_id s = v \<longrightarrow> stalled s"
    using all by (intro seqs; simp add: all_sequences_def reset_covered stalled_covered)+
  have "\<forall>s \<in> all_sequences ?st. sq_id s = v \<longrightarrow> stalled s"
    using all sub waiting by (auto simp: all_sequences_def)
  moreover have "bt_get (sc_active ?st) v = None" if "bt_get (sc_active st) v = None"
    using that sub unfolding bt_get_None_iff by auto
  ultimately show ?thesis using assms ops v by (simp add: stuck_def)
qed

lemma engine_steps_stuck: "(engine_step v)\<^sup>*\<^sup>* e e' \<Longrightarrow> stuck v e \<Longrightarrow> stuck v e'"
proof (induction rule: rtranclp_induct)
  case (step e1 e2)
  note ops = submit_stuck plan_stuck observe_stuck complete_stuck preempt_stuck cancel_stuck
  from step(2) step.IH [OF step.prems] show ?case
    by (cases rule: engine_step.cases) (auto intro: ops)
qed

text \<open>The preemption of a covered sequence leaves it stuck.\<close>

lemma preempted_is_stuck:
  assumes ok: "scheduler_ok st" and s: "bt_get (sc_active st) v = Some s" "covered s"
    and pre: "preempt_for_component_pressure now used st = (vs, st')" "v \<in> set vs"
  shows "stuck v (st', pending)"
proof -
  have core: "scheduler_core st" using ok by (simp add: scheduler_ok_def)
  then have act: "active_ok (sc_active st)" by (simp add: scheduler_core_def)
  let ?q = "st\<lparr>sc_component_used_bytes := overwrite_prefix (sc_component_used_bytes st) used\<rparr>"
  have qcore: "scheduler_core ?q" using core by (simp add: scheduler_core_def unique_ids_def)
  have st': "st' = snd (preempt_for_component_pressure now used st)" using pre(1) by simp
  have ops: "scheduler_ok st'" using preempt_ok [OF core, of now used] by (simp add: st')
  have pb: "preempted_by ?q vs (snd (preempt_loop now ?q []))"
    using preempt_loop_result [OF qcore, of now "[]"] pre(1)
    by (auto simp: preempt_for_component_pressure_def split_beta)
  have "sc_waiting st' = sc_waiting (snd (preempt_loop now ?q []))"
    by (simp add: st' preempt_for_component_pressure_def split_beta)
  then have queued: "v \<in> set (map sq_id (sc_waiting st'))" using pb pre(2) by (simp add: preempted_by_def)
  then have none: "bt_get (sc_active st') v = None"
    using active_not_waiting [of st' v] ops by (cases "bt_get (sc_active st') v") (auto simp: scheduler_ok_def)
  have "u = s" if "(i, u) \<in> set (sc_active st)" "sq_id u = v" for i u
  proof -
    have "bt_get (sc_active st) i = Some u" using that(1) act by (simp add: active_ok_def bt_get_Some_iff)
    then show ?thesis using active_ok_get [OF act] that(2) s(1) by fastforce
  qed
  then have A: "\<forall>u \<in> snd ` set (sc_active st). sq_id u = v \<longrightarrow> covered u" using s(2) by auto
  have B: "\<forall>u \<in> set (sc_waiting st). sq_id u = v \<longrightarrow> stalled u"
    using active_not_waiting [OF core s(1)] by auto
  have waiting: "\<forall>u \<in> set (sc_waiting st'). sq_id u = v \<longrightarrow> stalled u"
    unfolding st' by (rule preempt_sequences(2) [OF _ A B]) (simp add: reset_covered)
  have "stalled u" if u: "u \<in> all_sequences st'" "sq_id u = v" for u
  proof (cases "u \<in> set (sc_waiting st')")
    case True
    then show ?thesis using waiting u(2) by blast
  next
    case False
    then obtain i where i: "(i, u) \<in> set (sc_active st')" using u(1) by (auto simp: all_sequences_def)
    have "active_ok (sc_active st')" using ops by (simp add: scheduler_ok_def scheduler_core_def)
    then have "bt_get (sc_active st') v = Some u"
      using i u(2) active_ok_get [of "sc_active st'" i u] by (auto simp: active_ok_def bt_get_Some_iff)
    then show ?thesis using none by simp
  qed
  moreover have "v \<in># all_ids st'" using queued by (simp add: all_ids_def)
  ultimately show ?thesis using ops none by (simp add: stuck_def)
qed

lemma scheduler_steps_ok: "scheduler_step\<^sup>*\<^sup>* (new_scheduler c) st \<Longrightarrow> scheduler_ok st"
  by (rule sched.reachable_inv) auto

lemma scheduler_steps_config:
  "scheduler_step\<^sup>*\<^sup>* st st' \<Longrightarrow> scheduler_ok st \<Longrightarrow> sc_config st' = sc_config st"
proof (induction rule: rtranclp_induct)
  case (step st1 st2)
  have ok: "scheduler_ok st1" using step.hyps(1) step.prems by (rule sched.steps_inv)
  then have core: "scheduler_core st1" by (simp add: scheduler_ok_def)
  note ops = submit_ok [OF ok] plan_iteration_ok [OF core] observe_ok [OF ok] complete_iteration_ok [OF core]
    preempt_ok [OF core] cancel_ok [OF ok]
  have "sc_config st2 = sc_config st1" using step.hyps(2)
    by (cases rule: scheduler_step.cases) (simp_all only: ops)
  then show ?case using step.IH [OF step.prems] by simp
qed simp

lemma metered_is_step: "metered_step st st' \<Longrightarrow> scheduler_step st st'"
  by (cases rule: metered_step.cases) (auto intro: scheduler_step.intros)

lemma metered_are_steps: "metered_step\<^sup>*\<^sup>* st st' \<Longrightarrow> scheduler_step\<^sup>*\<^sup>* st st'"
  by (induction rule: rtranclp_induct) (auto intro: rtranclp.rtrancl_into_rtrancl metered_is_step)

lemma config_new: "sc_config (new_scheduler c) = normalized c"
  by (simp add: new_scheduler_def Let_def)

lemma reachable_components:
  "scheduler_step\<^sup>*\<^sup>* (new_scheduler c) st \<Longrightarrow> memory_components (sc_config st) = memory_components c"
  by (simp add: scheduler_steps_config [OF _ new_scheduler_ok] config_new)

section \<open>Properties\<close>

text \<open>
  (C2) Requests are conserved. Planning and preemption keep the multiset of queued and active ids; an
  accepted submission adds exactly its id and a rejected one nothing; a cancellation removes exactly
  its id and returns whether it was there. Completing an iteration whose rows are for distinct
  sequences keeps the queue and removes exactly the active requests that a row ends: the row samples,
  and either not exactly one prediction names it, or the one token is negative or the last of the
  request's allowance.
\<close>

theorem requests_conserved:
  fixes st :: "('s, 'f) scheduler"
  assumes "scheduler_ok st"
  shows "all_ids (snd (plan_iteration clock st)) = all_ids st \<and>
    all_ids (snd (preempt_for_component_pressure now used st)) = all_ids st \<and>
    all_ids (snd (submit s st)) =
      (if fst (submit s st) = Inr () then add_mset (sq_id s) (all_ids st) else all_ids st) \<and>
    all_ids (snd (cancel i st)) = all_ids st - {#i#} \<and> (fst (cancel i st) \<longleftrightarrow> i \<in># all_ids st) \<and>
    sc_waiting (snd (complete_iteration plan ps st)) = sc_waiting st \<and>
    (distinct (map wk_sequence_id (pl_work plan)) \<longrightarrow>
     all_ids (snd (complete_iteration plan ps st)) =
       filter_mset (\<lambda>i. \<not> (\<exists>s k. bt_get (sc_active st) i = Some s \<and> row_ends plan ps s k)) (all_ids st))"
  using assms by (simp add: scheduler_ok_def plan_iteration_ok preempt_ok submit_ok cancel_ok
      completed_ids complete_waiting)

text \<open>The running sequence of \<open>demo_busy\<close> goes on with a token and ends without a prediction.\<close>

lemma requests_conserved_witness:
  "all_ids (snd (complete_iteration demo_plan [\<lparr>pd_work_index = 0, pd_token = 7\<rparr>] demo_busy)) = {#''a''#} \<and>
   all_ids (snd (complete_iteration demo_plan [] demo_busy)) = {#}"
proof -
  have busy: "all_ids demo_busy = {#''a''#}" "bt_get (sc_active demo_busy) i = Some s \<longleftrightarrow> i = ''a'' \<and> s = demo_running" for i s
    by (auto simp: demo_busy_def all_ids_def bt_keys_def new_scheduler_def Let_def bt_get_Cons)
  have "distinct (map wk_sequence_id (pl_work demo_plan))" by (simp add: demo_plan_def)
  then have out: "all_ids (snd (complete_iteration demo_plan ps demo_busy)) =
      filter_mset (\<lambda>i. \<not> (\<exists>k. i = ''a'' \<and> row_ends demo_plan ps demo_running k)) {#''a''#}" for ps
    using requests_conserved [OF demo_busy_ok, of "\<lambda>_. 0" 0 "[]" demo_running undefined demo_plan ps] busy by simp
  have "\<not> row_ends demo_plan [\<lparr>pd_work_index = 0, pd_token = 7\<rparr>] demo_running k" "row_ends demo_plan [] demo_running 0" for k
    by (simp_all add: row_ends_def demo_plan_def demo_running_def demo_sequence_def new_sequence_def)
  then show ?thesis unfolding out by auto
qed

text \<open>
  (C3) Memory safety of admission. In every run without a pressure report, the recorded use of every
  component is exactly the sum of what the active sequences reserve there, and it stays within the
  component's available bytes: admission never overcommits, and every completion and cancellation
  releases what was reserved. (Capacities are below the largest 64-bit number, where sums saturate.)
\<close>

theorem memory_accounting_exact:
  fixes st :: "('s, 'f) scheduler"
  assumes "metered_step\<^sup>*\<^sup>* (new_scheduler c) st" and "within_u64 c" and "n < length (memory_components c)"
  shows "sc_component_used_bytes st ! n =
      (\<Sum>(i, s) \<leftarrow> sc_active st. reservation_bytes (memory_components c ! n) (sq_admission_tokens s)) \<and>
    sc_component_used_bytes st ! n \<le> available_bytes (memory_components c ! n)"
proof -
  have "accounted st" using metered.reachable_inv [OF _ assms(1)] assms(2) by blast
  moreover have "memory_components (sc_config st) = memory_components c"
    by (rule reachable_components [OF metered_are_steps [OF assms(1)]])
  ultimately show ?thesis using assms(3)
    by (simp add: accounted_def reserved_bytes_def list_all_length case_prod_unfold sum_mset_sum_list
        flip: mset_map)
qed

text \<open>
  What every operation does to the recorded use of a component, in every reachable state, pressure
  reports included. Planning adds what the admitted sequences reserve and stays within the available
  bytes when it adds anything; completion and cancellation subtract what the sequences that leave
  reserve; submission and duration feedback change nothing; a pressure report replaces the use by
  the reported bytes, less what the victims reserve.
\<close>

lemma memory_use_laws:
  fixes st :: "('s, 'f) scheduler"
  assumes "scheduler_step\<^sup>*\<^sup>* (new_scheduler c) st" and "within_u64 c" and "n < length (memory_components c)"
  shows "fills n st (snd (plan_iteration clock st)) \<and>
    drains n st (snd (complete_iteration plan ps st)) \<and>
    drains n st (snd (cancel i st)) \<and>
    use_of n (snd (submit s st)) = use_of n st \<and> sc_active (snd (submit s st)) = sc_active st \<and>
    use_of n (observe_iteration_duration F plan elapsed st) = use_of n st \<and>
    sc_active (observe_iteration_duration F plan elapsed st) = sc_active st \<and>
    (let st' = snd (preempt_for_component_pressure now used st)
     in reserved_of n st' \<le> reserved_of n st \<and>
        use_of n st' = (if n < length used then used ! n else use_of n st) - (reserved_of n st - reserved_of n st'))"
proof -
  have ok: "scheduler_ok st" using assms(1) by (rule scheduler_steps_ok)
  then have core: "scheduler_core st" by (simp add: scheduler_ok_def)
  note comps = reachable_components [OF assms(1)]
  have n: "n < length (memory_components (sc_config st))" using assms(3) comps by simp
  then have len: "n < length (sc_component_used_bytes st)" using core by (simp add: scheduler_core_def)
  have cap: "mc_capacity_bytes (memory_components (sc_config st) ! n) < U64_MAX"
    using assms(2,3) comps by (simp add: within_u64_def)
  have "fills n st (snd (plan_iteration clock st))" by (rule plan_fills [OF core n cap])
  moreover have "drains n st (snd (complete_iteration plan ps st))" by (rule complete_drains [OF core n])
  moreover have "drains n st (snd (cancel i st))" by (rule cancel_drains [OF core n])
  ultimately show ?thesis
    using report_drains [OF core n, of used now] len submit_quiet [of s st] observe_quiet [of F plan elapsed st]
    by (simp add: Let_def use_of_def drains_def reserved_of_def nth_overwrite_prefix)
qed

text \<open>
  (C36) A defect of preemption. A sequence that is restored from a cached prefix which covers its
  whole prompt, and that is preempted before it has produced a token, is reset to a cursor at the
  end of the prompt (\<open>with_prefix_restore\<close> keeps one token to replay for exactly this case,
  \<open>reset_for_recompute\<close> does not). It then has neither prefill nor a pending token, and in no later
  run, however the engine's caller goes on, is it given a row, does it produce a token or does it leave the
  scheduler, unless it is cancelled.
\<close>

theorem preempted_full_restore_never_runs:
  fixes st :: "('s, 'f) scheduler"
  assumes "scheduler_step\<^sup>*\<^sup>* (new_scheduler c) st0"
    and "bt_get (sc_active st0) v = Some s0" and "sq_generated_tokens s0 = []"
    and "sq_prefix_restore s0 = Some r" and "length (sq_prompt_tokens s0) \<le> pr_token_count r"
    and "preempt_for_component_pressure now used st0 = (vs, st1)" and "v \<in> set vs"
    and "(engine_step v)\<^sup>*\<^sup>* (st1, pending) (st, pending')"
  shows "v \<in># all_ids st \<and>
    v \<notin> wk_sequence_id ` set (pl_work (fst (plan_iteration clock st))) \<and>
    (\<forall>s \<in> all_sequences st. sq_id s = v \<longrightarrow> sq_generated_tokens s = [])"
proof -
  have "covered s0" using assms(3-5) by (simp add: covered_def)
  then have "stuck v (st1, pending)"
    by (rule preempted_is_stuck [OF scheduler_steps_ok [OF assms(1)] assms(2) _ assms(6,7)])
  then have stuck: "stuck v (st, pending')" by (rule engine_steps_stuck [OF assms(8)])
  then have "scheduler_core st" "\<forall>s \<in> all_sequences st. sq_id s = v \<longrightarrow> stalled s"
    by (simp_all add: stuck_def scheduler_ok_def)
  from plan_iteration_passes(1) [OF this, of clock] stuck show ?thesis
    by (auto simp: stuck_def stalled_def covered_def)
qed

section \<open>Witnesses\<close>

text \<open>
  A machine with one component of 1000 bytes, 100 of them resident; a request restored over its
  whole prompt, which reserves 5 + 10 * 7 bytes.
\<close>

definition demo_metered_config :: scheduler_config where
  "demo_metered_config = default_config\<lparr>memory_components := [\<lparr>mc_name = ''kv'', mc_capacity_bytes = 1000,
     mc_resident_bytes = 100, mc_bytes_per_token = 10, mc_bytes_per_sequence = 5\<rparr>]\<rparr>"

definition demo_restored :: "unit seqn" where
  "demo_restored = with_prefix_restore
     \<lparr>pr_page_id = ''p'', pr_token_count = 3, pr_kind = ResidentKv\<rparr> demo_sequence"

definition demo_queued :: "(unit, nat) scheduler" where
  "demo_queued = snd (submit demo_restored (new_scheduler demo_metered_config))"

definition demo_served :: "(unit, nat) scheduler" where
  "demo_served = snd (plan_iteration (\<lambda>_. 0) demo_queued)"

lemma demo_queued_simps:
  "sc_waiting demo_queued = [demo_restored]" "sc_active demo_queued = []"
  "sc_config demo_queued = normalized demo_metered_config" "sc_component_used_bytes demo_queued = [0]"
  by (simp_all add: demo_queued_def demo_restored_def with_prefix_restore_def demo_sequence_def submit_def
      new_scheduler_def Let_def new_sequence_def demo_metered_config_def default_config_def normalized_def
      refresh_counts_def)

lemma demo_queued_ok: "scheduler_core demo_queued"
  using conjunct1 [OF submit_ok [OF new_scheduler_ok]] unfolding demo_queued_def scheduler_ok_def by blast

lemma demo_restored_simps:
  "sq_generated_tokens demo_restored = []" "sq_prompt_tokens demo_restored = [1, 2, 3]"
  "sq_id demo_restored = ''a''" "sq_admission_tokens demo_restored = 7"
  "sq_prefix_restore demo_restored = Some \<lparr>pr_page_id = ''p'', pr_token_count = 3, pr_kind = ResidentKv\<rparr>"
  by (simp_all add: demo_restored_def with_prefix_restore_def demo_sequence_def new_sequence_def sat_add_def)

lemma demo_admits:
  "sc_active (admitted_state (\<lambda>_. 0) demo_queued) =
     [(''a'', demo_restored\<lparr>sq_status := Running, sq_admitted_at := Some 0\<rparr>)]"
proof -
  let ?st = "demo_queued\<lparr>sc_waiting_turn := sat_add (sc_waiting_turn demo_queued) 1\<rparr>"
  have "mset (sc_waiting (reorder_waiting ?st)) = {#demo_restored#}" by (simp add: demo_queued_simps)
  then have w: "sc_waiting (reorder_waiting ?st) = [demo_restored]" by (metis mset_single_iff)
  have "max_active_sequences (sc_config demo_queued) = 32"
    by (simp add: demo_queued_simps demo_metered_config_def default_config_def normalized_def Let_def clamp_def LLAMA_MAX_SEQ_def)
  moreover have "can_reserve_memory (sc_config demo_queued) [0] demo_restored"
    by (simp add: demo_queued_simps can_reserve_memory_def demo_metered_config_def normalized_def Let_def
        available_bytes_def reservation_bytes_def demo_restored_simps sat_add_def sat_mul_def)
  ultimately show ?thesis
    by (simp add: admitted_state_def admit_waiting_def Let_def w [unfolded One_nat_def] demo_queued_simps demo_restored_simps)
qed

lemma demo_served_active:
  "\<exists>s. sc_active demo_served = [(''a'', s)] \<and> sq_id s = ''a'' \<and> sq_admission_tokens s = 7 \<and>
     sq_generated_tokens s = [] \<and> sq_prompt_tokens s = [1, 2, 3] \<and>
     sq_prefix_restore s = Some \<lparr>pr_page_id = ''p'', pr_token_count = 3, pr_kind = ResidentKv\<rparr>"
proof -
  let ?t = "demo_restored\<lparr>sq_status := Running, sq_admitted_at := Some 0\<rparr>"
  have "bt_wf (sc_active (admitted_state (\<lambda>_. 0) demo_queued))" by (simp add: demo_admits bt_wf_def)
  from plan_iteration_state [OF this]
  have e: "erase_cursors (sc_active demo_served) = erase_cursors [(''a'', ?t)]"
    by (simp only: demo_served_def demo_admits)
  then obtain s where s: "sc_active demo_served = [(''a'', s)]" "s\<lparr>sq_prefill_cursor := 0\<rparr> = ?t\<lparr>sq_prefill_cursor := 0\<rparr>"
    by (auto simp: erase_cursors_def)
  show ?thesis
    using s(1) arg_cong [OF s(2), of sq_id] arg_cong [OF s(2), of sq_admission_tokens]
      arg_cong [OF s(2), of sq_generated_tokens] arg_cong [OF s(2), of sq_prompt_tokens]
      arg_cong [OF s(2), of sq_prefix_restore]
    by (simp add: demo_restored_simps)
qed

lemma demo_served_run: "metered_step\<^sup>*\<^sup>* (new_scheduler demo_metered_config) demo_served"
proof -
  have "metered_step (new_scheduler demo_metered_config) demo_queued"
    unfolding demo_queued_def by (rule metered_submit)
  moreover have "metered_step demo_queued demo_served" unfolding demo_served_def by (rule metered_plan)
  ultimately show ?thesis by auto
qed

lemma demo_within: "within_u64 demo_metered_config" "length (memory_components demo_metered_config) = 1"
  by (simp_all add: within_u64_def demo_metered_config_def)

lemma demo_component:
  "reservation_bytes (memory_components demo_metered_config ! 0) 7 = 75"
  "available_bytes (memory_components demo_metered_config ! 0) = 900"
  by (simp_all add: demo_metered_config_def reservation_bytes_def available_bytes_def sat_add_def sat_mul_def)

text \<open>The admitted request uses 75 of 900 bytes.\<close>

lemma memory_accounting_exact_witness:
  "metered_step\<^sup>*\<^sup>* (new_scheduler demo_metered_config) demo_served \<and>
   sc_component_used_bytes demo_served ! 0 = 75"
proof -
  have "sc_component_used_bytes demo_served ! 0 =
      (\<Sum>(i, s) \<leftarrow> sc_active demo_served. reservation_bytes (memory_components demo_metered_config ! 0) (sq_admission_tokens s))"
    using memory_accounting_exact [OF demo_served_run demo_within(1), of 0] by (simp add: demo_within)
  then show ?thesis using demo_served_active demo_served_run demo_component by auto
qed

text \<open>A report of 2000 bytes: the one active request is preempted, and 75 bytes of them are released.\<close>

definition demo_pressed :: "(unit, nat) scheduler" where
  "demo_pressed = snd (preempt_for_component_pressure 5 [2000] demo_served)"

lemma demo_preempts:
  "preempt_for_component_pressure 5 [2000] demo_served = ([''a''], demo_pressed)" "sc_active demo_pressed = []"
proof -
  obtain s where s: "sc_active demo_served = [(''a'', s)]" "sq_id s = ''a''" using demo_served_active by blast
  have run: "scheduler_step\<^sup>*\<^sup>* (new_scheduler demo_metered_config) demo_served"
    by (rule metered_are_steps [OF demo_served_run])
  have ok: "scheduler_ok demo_served" by (rule scheduler_steps_ok [OF run])
  note comps = reachable_components [OF run]
  obtain u where u: "sc_component_used_bytes demo_served = [u]"
    using ok comps demo_within(2) by (auto simp: scheduler_ok_def scheduler_core_def length_Suc_conv)
  obtain k where k: "memory_components (sc_config demo_served) = [k]" "available_bytes k = 900"
    using comps demo_component(2) by (simp add: demo_metered_config_def)
  let ?q = "demo_served\<lparr>sc_component_used_bytes := [2000]\<rparr>"
  have over: "component_over_capacity (sc_config ?q) (sc_component_used_bytes ?q)"
    by (simp add: component_over_capacity_def k)
  have victim: "preemption_victim 5 (sc_active ?q) = Some ''a''" "bt_get (sc_active ?q) ''a'' = Some s"
    by (simp_all add: preemption_victim_def s bt_values_def bt_get_Cons)
  have step: "preempt_loop 5 ?q [] = preempt_loop 5 (preempted_state ''a'' s ?q) [''a'']"
    using over victim by (subst preempt_loop.simps) (simp add: preempted_state_def)
  have "sc_active (preempted_state ''a'' s ?q) = []" by (simp add: s bt_remove_def)
  then have stop: "preempt_loop 5 (preempted_state ''a'' s ?q) [''a''] = ([''a''], preempted_state ''a'' s ?q)"
    by (subst preempt_loop.simps) (simp add: preemption_victim_def bt_values_def)
  have "preempt_for_component_pressure 5 [2000] demo_served = ([''a''], refresh_counts (preempted_state ''a'' s ?q))"
    by (simp add: preempt_for_component_pressure_def u step stop)
  then show "preempt_for_component_pressure 5 [2000] demo_served = ([''a''], demo_pressed)"
    and "sc_active demo_pressed = []" by (simp_all add: demo_pressed_def s bt_remove_def)
qed

text \<open>
  The request is preempted in the middle of its first iteration. The iteration is completed with a
  token for its row, the memory pressure is gone, and the next iterations pass it by.
\<close>

definition demo_later :: "(unit, nat) scheduler" where
  "demo_later = snd (preempt_for_component_pressure 7 [0] (snd (complete_iteration
     (fst (plan_iteration (\<lambda>_. 0) demo_queued)) [\<lparr>pd_work_index = 0, pd_token = 9\<rparr>] demo_pressed)))"

lemma preempted_full_restore_never_runs_witness:
  "''a'' \<in># all_ids demo_later \<and>
   ''a'' \<notin> wk_sequence_id ` set (pl_work (fst (plan_iteration (\<lambda>_. 8) demo_later)))"
proof -
  let ?p = "fst (plan_iteration (\<lambda>_. 0) demo_queued)"
  have run: "scheduler_step\<^sup>*\<^sup>* (new_scheduler demo_metered_config) demo_served"
    by (rule metered_are_steps [OF demo_served_run])
  obtain s where s: "bt_get (sc_active demo_served) ''a'' = Some s" "sq_generated_tokens s = []"
    "sq_prefix_restore s = Some \<lparr>pr_page_id = ''p'', pr_token_count = 3, pr_kind = ResidentKv\<rparr>"
    "sq_prompt_tokens s = [1, 2, 3]"
    using demo_served_active by (auto simp: bt_get_Cons)
  have "engine_step ''a'' (demo_pressed, Some ?p)
      (snd (complete_iteration ?p [\<lparr>pd_work_index = 0, pd_token = 9\<rparr>] demo_pressed), None)"
    by (rule engine_complete)
  then have "(engine_step ''a'')\<^sup>*\<^sup>* (demo_pressed, Some ?p) (demo_later, None)"
    unfolding demo_later_def by (meson engine_preempt r_into_rtranclp rtranclp.rtrancl_into_rtrancl)
  from preempted_full_restore_never_runs [OF run s(1-3) _ demo_preempts(1) _ this] s(4) show ?thesis by simp
qed

end
