(* ===== verification/TopologyTypes.thy ===== *)
theory TopologyTypes
  imports Prelude
begin

text \<open>
  The data of the stage topology planner (\<open>crates/skippy-topology/src/lib.rs\<close>) and the validation
  of a request (\<open>validation.rs\<close>). Layer indices are \<open>u32\<close> values below the maximum, so
  \<open>index + 1\<close> does not wrap.
\<close>

section \<open>Requests\<close>

record layer_range =
  lr_start :: nat
  lr_end :: nat

definition contains_layer :: "layer_range \<Rightarrow> nat \<Rightarrow> bool" where
  "contains_layer r layer \<longleftrightarrow> lr_start r \<le> layer \<and> layer < lr_end r"

definition contains_boundary :: "layer_range \<Rightarrow> nat \<Rightarrow> bool" where
  "contains_boundary r boundary \<longleftrightarrow> lr_start r < boundary \<and> boundary < lr_end r"

definition intersects :: "layer_range \<Rightarrow> nat \<Rightarrow> nat \<Rightarrow> bool" where
  "intersects r start stop \<longleftrightarrow> lr_start r < stop \<and> start < lr_end r"

datatype exact_state_mobility = MobilityUntested | MobilityAccepted | MobilityRejectedTooLarge

datatype split_constraint_kind = SharedKvProducerConsumer

datatype sideband_kind = TokenIds | Rwkv7VFirst | Gemma3nAltup

record split_constraint =
  spc_kind :: split_constraint_kind
  spc_range :: layer_range
  spc_forbidden_boundaries :: "nat list"
  spc_reject_boundary_inside :: bool
  spc_reason :: string

record sideband_requirement =
  sb_kind :: sideband_kind
  sb_first_required_layer :: nat
  sb_reason :: string

record family_capability_record =
  fam_family_id :: string
  fam_layer_count :: nat
  fam_activation_width :: nat
  fam_exact_state_mobility :: exact_state_mobility
  fam_recurrent_ranges :: "layer_range list"
  fam_split_constraints :: "split_constraint list"
  fam_sidebands :: "sideband_requirement list"

record layer_spec =
  ly_index :: nat
  ly_attention :: bool
  ly_recurrent :: bool
  ly_parameter_bytes :: nat

record node_spec =
  nd_node_id :: string
  nd_cached_slice_bytes :: nat
  nd_vram_bytes :: nat

record node_placement_signal =
  pg_node_id :: string
  pg_cached_slice_bytes :: nat
  pg_missing_artifact_bytes :: nat
  pg_rtt_ms :: "nat option"
  pg_artifact_transfer_supported :: bool
  pg_availability_score :: nat

record planner_policy =
  allow_recurrent_state_transfer :: bool

record topology_plan_request =
  tr_topology_id :: string
  tr_model_id :: string
  tr_layers :: "layer_spec list"
  tr_nodes :: "node_spec list"
  tr_family :: "family_capability_record option"
  tr_policy :: planner_policy

section \<open>Plans\<close>

datatype stage_role = Driver | Embedding | Intermediate | Readout

datatype boundary_decision = BoundaryAccepted | BoundaryRejected

datatype state_affinity = Stateless | AttentionKv | Recurrent | MixedState

datatype migration_policy =
  FreelyMovable | CostedKv | StickyRecurrentOwner | RecurrentStateTransferPermitted

datatype diagnostic_severity = Info | Warning | SeverityError

datatype plan_reason_code =
    ActivationOnlyBoundary | AttentionKvCosted | RecurrentOwnerSticky
  | RecurrentStateTransferAllowed | RecurrentStateTransferRejected | SharedKvRegionCut
  | TokenSidebandRequired | ActivationSidebandRequired | ExactStateMobilityAccepted
  | ExactStateMobilityRejected | CacheLocalityPreferred | ArtifactTransferPenalty
  | NetworkPipelineCost | PeerAvailabilityPreferred

record stage_plan =
  sg_stage_id :: string
  sg_stage_index :: nat
  sg_node_id :: string
  sg_roles :: "stage_role list"
  sg_layer_start :: nat
  sg_layer_end :: nat
  sg_layer_count :: nat
  sg_parameter_bytes :: nat
  sg_state_affinity :: state_affinity
  sg_migration_policy :: migration_policy
  sg_reason_codes :: "plan_reason_code list"
  sg_cached_slice_bytes :: nat
  sg_missing_artifact_bytes :: nat
  sg_rtt_ms :: "nat option"

record boundary_plan =
  bd_producer_stage_index :: nat
  bd_consumer_stage_index :: nat
  bd_layer_boundary :: nat
  bd_decision :: boundary_decision
  bd_raw_activation_bytes_per_token :: nat
  bd_wire_payload_bytes_per_token :: nat
  bd_reason_codes :: "plan_reason_code list"
  bd_messages :: "string list"

record plan_diagnostic =
  dg_severity :: diagnostic_severity
  dg_code :: plan_reason_code
  dg_message :: string

record topology_plan =
  tp_topology_id :: string
  tp_model_id :: string
  tp_family_id :: "string option"
  tp_stages :: "stage_plan list"
  tp_boundaries :: "boundary_plan list"
  tp_diagnostics :: "plan_diagnostic list"

section \<open>Validation\<close>

datatype plan_error =
    EmptyLayers
  | EmptyNodes
  | NonContiguousLayers nat nat
  | InvalidSplitBoundary nat nat nat
  | NonAscendingSplitBoundary nat nat
  | NotEnoughNodesForSplits nat nat
  | InvalidStageCount nat
  | NoAcceptedBalancedSplit nat
  | FamilyLayerCountMismatch string nat nat

fun check_contiguous :: "nat \<Rightarrow> layer_spec list \<Rightarrow> plan_error option" where
  "check_contiguous expected [] = None"
| "check_contiguous expected (l # ls) =
     (if ly_index l \<noteq> expected then Some (NonContiguousLayers expected (ly_index l))
      else check_contiguous (expected + 1) ls)"

text \<open>\<open>Ok(())\<close> is \<open>None\<close>; \<open>layers.len() as u32\<close> truncates.\<close>

definition validate_request :: "topology_plan_request \<Rightarrow> plan_error option" where
  "validate_request r =
     (if tr_layers r = [] then Some EmptyLayers
      else if tr_nodes r = [] then Some EmptyNodes
      else case tr_family r of
        Some family \<Rightarrow>
          (let found = length (tr_layers r) mod 2 ^ 32
           in if fam_layer_count family \<noteq> found
              then Some (FamilyLayerCountMismatch (fam_family_id family) (fam_layer_count family) found)
              else check_contiguous (ly_index (hd (tr_layers r))) (tr_layers r))
      | None \<Rightarrow> check_contiguous (ly_index (hd (tr_layers r))) (tr_layers r))"

lemma check_contiguous_None:
  "check_contiguous k ls = None \<longleftrightarrow> map ly_index ls = [k..<k + length ls]"
proof (induction ls arbitrary: k)
  case (Cons l ls)
  have "[k..<k + length (l # ls)] = k # [Suc k..<Suc k + length ls]"
    by (simp add: upt_conv_Cons del: upt_Suc)
  then show ?case using Cons.IH [of "Suc k"] by (auto simp del: upt_Suc)
qed simp

text \<open>A valid request numbers its layers consecutively.\<close>

lemma valid_request:
  assumes "validate_request r = None"
  shows "tr_layers r \<noteq> []" and "tr_nodes r \<noteq> []"
    and "map ly_index (tr_layers r) =
      [ly_index (hd (tr_layers r))..<ly_index (hd (tr_layers r)) + length (tr_layers r)]"
  using assms by (auto simp: validate_request_def check_contiguous_None Let_def split: if_splits option.splits)

lemma valid_layer_index:
  assumes "validate_request r = None" and "i < length (tr_layers r)"
  shows "ly_index (tr_layers r ! i) = ly_index (hd (tr_layers r)) + i"
  using arg_cong [OF valid_request(3) [OF assms(1)], of "\<lambda>xs. xs ! i"] assms(2) by simp

end
