(* ===== verification/EdgeOrder.thy ===== *)
theory EdgeOrder
  imports TopologyTypes
begin

text \<open>
  Ordering the nodes of a pipeline by measured edges (\<open>crates/skippy-topology/src/edge_order.rs\<close>):
  exhaustive search up to eight nodes, greedy beyond. The sum of edge costs in \<open>order_score\<close> is
  the wrapping sum of \<open>u64\<close>.
\<close>

section \<open>Costs\<close>

definition UNKNOWN_EDGE_RTT_MS :: nat where
  "UNKNOWN_EDGE_RTT_MS = 10000"

definition MAX_EXHAUSTIVE_STAGE_COUNT :: nat where
  "MAX_EXHAUSTIVE_STAGE_COUNT = 8"

record stage_edge_signal =
  eg_source_node_id :: string
  eg_target_node_id :: string
  eg_rtt_ms :: "nat option"
  eg_large_frame_bytes_per_sec :: "nat option"
  eg_direct_prediction_return_supported :: bool

definition placement_signal_for :: "node_placement_signal list \<Rightarrow> string \<Rightarrow> node_placement_signal option" where
  "placement_signal_for signals i = find (\<lambda>s. pg_node_id s = i) signals"

definition edge_signal_for :: "stage_edge_signal list \<Rightarrow> string \<Rightarrow> string \<Rightarrow> stage_edge_signal option" where
  "edge_signal_for edges source target =
     find (\<lambda>e. eg_source_node_id e = source \<and> eg_target_node_id e = target) edges"

definition node_latency_cost_by_id :: "string \<Rightarrow> node_placement_signal list \<Rightarrow> nat" where
  "node_latency_cost_by_id i signals =
     (case Option.bind (find (\<lambda>s. pg_node_id s = i) signals) pg_rtt_ms of
        Some rtt \<Rightarrow> rtt | None \<Rightarrow> UNKNOWN_EDGE_RTT_MS)"

definition node_latency_cost :: "node_spec \<Rightarrow> node_placement_signal list \<Rightarrow> nat" where
  "node_latency_cost node signals = node_latency_cost_by_id (nd_node_id node) signals"

definition edge_cost :: "string \<Rightarrow> string \<Rightarrow> node_placement_signal list \<Rightarrow> stage_edge_signal list \<Rightarrow> nat" where
  "edge_cost source target signals edges =
     (case edge_signal_for edges source target of
        Some e \<Rightarrow> (case eg_rtt_ms e of Some rtt \<Rightarrow> rtt | None \<Rightarrow> UNKNOWN_EDGE_RTT_MS)
      | None \<Rightarrow> max (sat_add (node_latency_cost_by_id source signals)
                             (node_latency_cost_by_id target signals)) UNKNOWN_EDGE_RTT_MS)"

type_synonym indexed_node = "nat \<times> node_spec"

definition order_score :: "indexed_node list \<Rightarrow> node_placement_signal list \<Rightarrow> stage_edge_signal list \<Rightarrow>
    nat \<times> nat list" where
  "order_score order signals edges =
     (wrap_sum (map (\<lambda>(a, b). edge_cost (nd_node_id (snd a)) (nd_node_id (snd b)) signals edges)
        (windows2 order)),
      map fst order)"

section \<open>Exhaustive search\<close>

definition swap_at :: "'a list \<Rightarrow> nat \<Rightarrow> nat \<Rightarrow> 'a list" where
  "swap_at xs i j = xs[i := xs ! j, j := xs ! i]"

text \<open>
  \<open>permute(start, vals, visit)\<close>: the vals are swapped in place and swapped back; the first
  argument is the number of positions from \<open>start\<close> on, the last two the slice and the state
  captured by \<open>visit\<close>.
\<close>

fun permute :: "nat \<Rightarrow> ('s \<Rightarrow> 'a list \<Rightarrow> 's) \<Rightarrow> nat \<Rightarrow> 'a list \<Rightarrow> 's \<Rightarrow> 'a list \<times> 's" where
  "permute 0 visit start vals st = (vals, visit st vals)"
| "permute (Suc r) visit start vals st =
     foldl (\<lambda>(vs, st) index.
        (let (vs', st') = permute r visit (start + 1) (swap_at vs start index) st
         in (swap_at vs' start index, st')))
       (vals, st) [start..<length vals]"

definition keep_best :: "('a list \<Rightarrow> 'b::linorder) \<Rightarrow> 'b \<times> 'a list \<Rightarrow> 'a list \<Rightarrow> 'b \<times> 'a list" where
  "keep_best score best order = (if score order < fst best then (score order, order) else best)"

definition best_exhaustive_order :: "indexed_node list \<Rightarrow> node_placement_signal list \<Rightarrow>
    stage_edge_signal list \<Rightarrow> indexed_node list" where
  "best_exhaustive_order nodes signals edges =
     (let score = (\<lambda>order. order_score order signals edges)
      in snd (snd (permute (length nodes) (keep_best score) 0 nodes (score nodes, nodes))))"

section \<open>Greedy search\<close>

text \<open>The two scans for the first least cost below \<open>u64::MAX\<close>; the default is position 0.\<close>

fun scan_least :: "('a \<Rightarrow> nat) \<Rightarrow> nat \<Rightarrow> 'a list \<Rightarrow> nat \<times> nat \<Rightarrow> nat \<times> nat" where
  "scan_least cost index [] best = best"
| "scan_least cost index (x # xs) best =
     scan_least cost (index + 1) xs (if cost x < snd best then (index, cost x) else best)"

definition remove_at :: "nat \<Rightarrow> 'a list \<Rightarrow> 'a list" where
  "remove_at i xs = take i xs @ drop (Suc i) xs"

lemma scan_least_bound: "fst best < index + length xs \<Longrightarrow> fst (scan_least cost index xs best) < index + length xs"
proof (induction xs arbitrary: index best)
  case Nil
  then show ?case by simp
next
  case (Cons x xs)
  show ?case using Cons.IH [of "if cost x < snd best then (index, cost x) else best" "index + 1"] Cons.prems
    by (auto split: if_splits)
qed

lemma scan_least_in_range:
  "xs \<noteq> [] \<Longrightarrow> fst (scan_least cost 0 xs (0, m)) < length xs"
  using scan_least_bound [of "(0, m)" 0 xs cost] by simp

lemma length_remove_at: "i < length xs \<Longrightarrow> length (remove_at i xs) = length xs - 1"
  by (simp add: remove_at_def)

function greedy_loop :: "node_placement_signal list \<Rightarrow> stage_edge_signal list \<Rightarrow>
    indexed_node list \<Rightarrow> indexed_node list \<Rightarrow> indexed_node list" where
  "greedy_loop signals edges remaining ordered =
     (if remaining = [] then ordered
      else
        (let source = nd_node_id (snd (last ordered));
             pick = fst (scan_least (\<lambda>c. edge_cost source (nd_node_id (snd c)) signals edges) 0
                      remaining (0, U64_MAX))
         in greedy_loop signals edges (remove_at pick remaining) (ordered @ [remaining ! pick])))"
  by pat_completeness auto
termination
  by (relation "measure (\<lambda>(_, _, remaining, _). length remaining)")
    (auto simp: length_remove_at scan_least_in_range)

declare greedy_loop.simps [simp del]

definition greedy_order :: "indexed_node list \<Rightarrow> node_placement_signal list \<Rightarrow> stage_edge_signal list \<Rightarrow>
    indexed_node list" where
  "greedy_order nodes signals edges =
     (let start = fst (scan_least (\<lambda>n. node_latency_cost (snd n) signals) 0 nodes (0, U64_MAX))
      in greedy_loop signals edges (remove_at start nodes) [nodes ! start])"

definition order_pipeline_nodes :: "indexed_node list \<Rightarrow> node_placement_signal list \<Rightarrow>
    stage_edge_signal list \<Rightarrow> indexed_node list" where
  "order_pipeline_nodes nodes signals edges =
     (if length nodes < 2 \<or> edges = [] then nodes
      else if length nodes \<le> MAX_EXHAUSTIVE_STAGE_COUNT then best_exhaustive_order nodes signals edges
      else greedy_order nodes signals edges)"

definition edge_diagnostic :: "stage_edge_signal list \<Rightarrow> stage_plan \<times> stage_plan \<Rightarrow> plan_diagnostic list" where
  "edge_diagnostic edges w =
     (let (source, target) = w
      in case edge_signal_for edges (sg_node_id source) (sg_node_id target) of
        None \<Rightarrow> []
      | Some e \<Rightarrow>
          (case eg_rtt_ms e of
             None \<Rightarrow> []
           | Some rtt \<Rightarrow>
               [\<lparr>dg_severity = Info, dg_code = NetworkPipelineCost,
                 dg_message = ''pipeline edge '' @ sg_node_id source @ '' -> '' @ sg_node_id target
                   @ '' after '' @ sg_stage_id source @ '' has measured rtt '' @ dec rtt @ '' ms''\<rparr>]))"

definition append_edge_diagnostics :: "stage_edge_signal list \<Rightarrow> topology_plan \<Rightarrow> topology_plan" where
  "append_edge_diagnostics edges plan =
     (if edges = [] then plan
      else plan\<lparr>tp_diagnostics := tp_diagnostics plan
             @ concat (map (edge_diagnostic edges) (windows2 (tp_stages plan)))\<rparr>)"

section \<open>The permutations visited\<close>

fun visits :: "nat \<Rightarrow> nat \<Rightarrow> 'a list \<Rightarrow> 'a list list" where
  "visits 0 start vals = [vals]"
| "visits (Suc r) start vals =
     concat (map (\<lambda>index. visits r (start + 1) (swap_at vals start index)) [start..<length vals])"

lemma length_swap_at [simp]: "length (swap_at xs i j) = length xs"
  by (simp add: swap_at_def)

lemma swap_at_swap_at: "i < length xs \<Longrightarrow> j < length xs \<Longrightarrow> swap_at (swap_at xs i j) i j = xs"
  by (rule nth_equalityI) (auto simp: swap_at_def nth_list_update)

lemma mset_swap_at: "i < length xs \<Longrightarrow> j < length xs \<Longrightarrow> mset (swap_at xs i j) = mset xs"
  unfolding swap_at_def by (rule mset_swap)

lemma take_swap_at: "i \<le> j \<Longrightarrow> i < length xs \<Longrightarrow> j < length xs \<Longrightarrow> take i (swap_at xs i j) = take i xs"
  by (simp add: swap_at_def)

text \<open>\<open>permute\<close> restores the slice and shows \<open>visit\<close> every element of \<open>visits\<close>, in order.\<close>

lemma permute_visits:
  "start + r = length vals \<Longrightarrow>
   permute r visit start vals st = (vals, foldl visit st (visits r start vals))"
proof (induction r arbitrary: start vals st)
  case 0
  then show ?case by simp
next
  case (Suc r)
  have "foldl (\<lambda>(vs, st) index.
        (let (vs', st') = permute r visit (start + 1) (swap_at vs start index) st
         in (swap_at vs' start index, st'))) (vals, st) is =
      (vals, foldl visit st (concat (map (\<lambda>index. visits r (start + 1) (swap_at vals start index)) is)))"
    if "\<forall>i \<in> set is. start \<le> i \<and> i < length vals" for "is"
    using that
  proof (induction "is" arbitrary: st)
    case Nil
    then show ?case by simp
  next
    case (Cons i "is")
    have "start + 1 + r = length (swap_at vals start i)" using Suc.prems by simp
    note inner = Suc.IH [OF this]
    have "start < length vals" using Suc.prems by simp
    then have "swap_at (swap_at vals start i) start i = vals" using Cons.prems by (simp add: swap_at_swap_at)
    then show ?case using Cons inner by simp
  qed
  then show ?case by simp
qed

lemma visits_sound:
  "start + r = length vals \<Longrightarrow> ys \<in> set (visits r start vals) \<Longrightarrow>
   mset ys = mset vals \<and> take start ys = take start vals"
proof (induction r arbitrary: start vals)
  case 0
  then show ?case by simp
next
  case (Suc r)
  then obtain i where i: "start \<le> i" "i < length vals" "ys \<in> set (visits r (start + 1) (swap_at vals start i))"
    by auto
  then have "mset ys = mset (swap_at vals start i) \<and> take (start + 1) ys = take (start + 1) (swap_at vals start i)"
    using Suc.prems(1) by (intro Suc.IH) simp_all
  moreover from this have "take start ys = take start (swap_at vals start i)"
    by (metis le_add1 min_absorb1 take_take)
  ultimately show ?case using i Suc.prems(1) by (simp add: mset_swap_at take_swap_at)
qed

lemma visits_complete:
  "start + r = length vals \<Longrightarrow> mset ys = mset vals \<Longrightarrow> take start ys = take start vals \<Longrightarrow>
   ys \<in> set (visits r start vals)"
proof (induction r arbitrary: start vals)
  case 0
  then show ?case by (metis add_0_right list.set_intros(1) mset_eq_length take_all_iff order_refl visits.simps(1))
next
  case (Suc r)
  have len: "length ys = length vals" using Suc.prems(2) mset_eq_length by blast
  have s: "start < length vals" using Suc.prems(1) by simp
  have "mset (drop start ys) = mset (drop start vals)"
    using Suc.prems(2,3) by (metis add_left_cancel append_take_drop_id mset_append)
  moreover have "ys ! start \<in> set (drop start ys)" using s len by (metis Cons_nth_drop_Suc list.set_intros(1))
  ultimately have "ys ! start \<in> set (drop start vals)" by (metis set_mset_mset)
  then obtain j where j: "j < length (drop start vals)" "drop start vals ! j = ys ! start"
    by (metis in_set_conv_nth)
  let ?i = "start + j"
  have i: "start \<le> ?i" "?i < length vals" "vals ! ?i = ys ! start" using j s by auto
  have "swap_at vals start ?i ! start = ys ! start"
    using i s by (cases "j = 0") (simp_all add: swap_at_def)
  then have tk: "take (start + 1) ys = take (start + 1) (swap_at vals start ?i)"
    using s len i(1,2) Suc.prems(3) take_swap_at [OF i(1) s i(2)] by (simp add: take_Suc_conv_app_nth)
  have "ys \<in> set (visits r (start + 1) (swap_at vals start ?i))"
    using tk Suc.prems(1,2) i(2) s by (intro Suc.IH) (simp_all add: mset_swap_at)
  then show ?case using i(1,2) by auto
qed

lemma set_visits: "set (visits (length vals) 0 vals) = {ys. mset ys = mset vals}"
proof (intro equalityI subsetI CollectI)
  fix ys assume "ys \<in> set (visits (length vals) 0 vals)"
  then show "mset ys = mset vals" using visits_sound [of 0 "length vals" vals ys] by simp
next
  fix ys assume "ys \<in> {ys. mset ys = mset vals}"
  then show "ys \<in> set (visits (length vals) 0 vals)"
    using visits_complete [of 0 "length vals" vals ys] by simp
qed

section \<open>The best order\<close>

lemma foldl_keep_best:
  assumes "fst b = score (snd b)"
  shows "fst (foldl (keep_best score) b xs) = score (snd (foldl (keep_best score) b xs))"
    and "snd (foldl (keep_best score) b xs) \<in> insert (snd b) (set xs)"
    and "x \<in> insert (snd b) (set xs) \<Longrightarrow> fst (foldl (keep_best score) b xs) \<le> score x"
proof -
  have "fst (foldl (keep_best score) b xs) = score (snd (foldl (keep_best score) b xs)) \<and>
      snd (foldl (keep_best score) b xs) \<in> insert (snd b) (set xs) \<and>
      (\<forall>x \<in> insert (snd b) (set xs). fst (foldl (keep_best score) b xs) \<le> score x)"
    using assms
  proof (induction xs arbitrary: b)
    case Nil
    then show ?case by simp
  next
    case (Cons y ys)
    let ?b = "keep_best score b y"
    have b: "fst ?b = score (snd ?b)" "snd ?b = y \<or> snd ?b = snd b" "fst ?b \<le> score y" "fst ?b \<le> fst b"
      using Cons.prems by (auto simp: keep_best_def)
    have IH: "fst (foldl (keep_best score) ?b ys) = score (snd (foldl (keep_best score) ?b ys))"
      "snd (foldl (keep_best score) ?b ys) \<in> insert (snd ?b) (set ys)"
      "\<forall>x \<in> insert (snd ?b) (set ys). fst (foldl (keep_best score) ?b ys) \<le> score x"
      using Cons.IH [OF b(1)] by blast+
    have "fst (foldl (keep_best score) ?b ys) \<le> fst ?b" using IH(3) b(1) by auto
    then show ?case using IH b Cons.prems by (auto intro: order_trans)
  qed
  then show "fst (foldl (keep_best score) b xs) = score (snd (foldl (keep_best score) b xs))"
    "snd (foldl (keep_best score) b xs) \<in> insert (snd b) (set xs)"
    "x \<in> insert (snd b) (set xs) \<Longrightarrow> fst (foldl (keep_best score) b xs) \<le> score x" by blast+
qed

lemma best_exhaustive_order_least:
  "mset (best_exhaustive_order nodes signals edges) = mset nodes"
  "mset ys = mset nodes \<Longrightarrow>
     order_score (best_exhaustive_order nodes signals edges) signals edges \<le> order_score ys signals edges"
proof -
  define score where "score = (\<lambda>order. order_score order signals edges)"
  define r where "r = foldl (keep_best score) (score nodes, nodes) (visits (length nodes) 0 nodes)"
  have eq: "best_exhaustive_order nodes signals edges = snd r"
    by (simp add: best_exhaustive_order_def permute_visits r_def score_def)
  have b: "fst (score nodes, nodes) = score (snd (score nodes, nodes))" by simp
  note k = foldl_keep_best(3) [where score = score and b = "(score nodes, nodes)" and
      xs = "visits (length nodes) 0 nodes", OF b, folded r_def]
  have k1: "fst r = score (snd r)" "snd r \<in> insert nodes (set (visits (length nodes) 0 nodes))"
    using foldl_keep_best(1,2) [where score = score and b = "(score nodes, nodes)" and
      xs = "visits (length nodes) 0 nodes", OF b] by (simp_all add: r_def)
  have "snd r \<in> insert nodes {ys. mset ys = mset nodes}" using k1(2) by (simp add: set_visits)
  then show "mset (best_exhaustive_order nodes signals edges) = mset nodes" unfolding eq by auto
  assume "mset ys = mset nodes"
  then have "fst r \<le> score ys" using k by (simp add: set_visits)
  then show "order_score (best_exhaustive_order nodes signals edges) signals edges \<le> order_score ys signals edges"
    using k1(1) unfolding eq by (simp add: score_def)
qed

lemma mset_remove_at: "i < length xs \<Longrightarrow> add_mset (xs ! i) (mset (remove_at i xs)) = mset xs"
  by (simp add: remove_at_def) (metis id_take_nth_drop mset.simps(2) mset_append union_mset_add_mset_right)

lemma mset_greedy_loop: "mset (greedy_loop signals edges remaining ordered) = mset ordered + mset remaining"
proof (induction signals edges remaining ordered rule: greedy_loop.induct)
  case (1 signals edges remaining ordered)
  show ?case
  proof (cases "remaining = []")
    case True
    then show ?thesis by (simp add: greedy_loop.simps)
  next
    case False
    let ?n = "fst (scan_least (\<lambda>c. edge_cost (nd_node_id (snd (last ordered))) (nd_node_id (snd c)) signals edges)
        0 remaining (0, U64_MAX))"
    have "mset remaining = add_mset (remaining ! ?n) (mset (remove_at ?n remaining))"
      by (rule mset_remove_at [symmetric]) (rule scan_least_in_range [OF False])
    then show ?thesis using "1.IH" [OF False refl refl] False
      by (subst greedy_loop.simps) (simp add: Let_def)
  qed
qed

lemma mset_greedy_order:
  assumes "nodes \<noteq> []"
  shows "mset (greedy_order nodes signals edges) = mset nodes"
proof -
  let ?s = "fst (scan_least (\<lambda>n. node_latency_cost (snd n) signals) 0 nodes (0, U64_MAX))"
  have "mset nodes = add_mset (nodes ! ?s) (mset (remove_at ?s nodes))"
    by (rule mset_remove_at [symmetric]) (rule scan_least_in_range [OF assms])
  then show ?thesis by (simp add: greedy_order_def Let_def mset_greedy_loop)
qed

lemma mset_order_pipeline_nodes: "mset (order_pipeline_nodes nodes signals edges) = mset nodes"
  by (cases nodes) (simp_all add: order_pipeline_nodes_def best_exhaustive_order_least mset_greedy_order)

section \<open>Properties\<close>

text \<open>
  (C37) Pipeline ordering is a permutation of the nodes, and with two to eight nodes and measured
  edges it is the best of all permutations: least total edge cost, ties broken by the least
  sequence of original positions.
\<close>

theorem pipeline_order_optimal:
  fixes nodes :: "indexed_node list"
  assumes "2 \<le> length nodes" and "length nodes \<le> 8" and "edges \<noteq> []"
  shows "mset (order_pipeline_nodes nodes signals edges) = mset nodes \<and>
    (\<forall>ys. mset ys = mset nodes \<longrightarrow>
       order_score (order_pipeline_nodes nodes signals edges) signals edges \<le> order_score ys signals edges)"
  using assms best_exhaustive_order_least
  by (simp add: order_pipeline_nodes_def MAX_EXHAUSTIVE_STAGE_COUNT_def)

definition demo_nodes :: "indexed_node list" where
  "demo_nodes = [(0, \<lparr>nd_node_id = ''a'', nd_cached_slice_bytes = 0, nd_vram_bytes = 8\<rparr>),
                 (1, \<lparr>nd_node_id = ''b'', nd_cached_slice_bytes = 0, nd_vram_bytes = 8\<rparr>)]"

definition demo_edges :: "stage_edge_signal list" where
  "demo_edges = [\<lparr>eg_source_node_id = ''b'', eg_target_node_id = ''a'', eg_rtt_ms = Some 3,
     eg_large_frame_bytes_per_sec = None, eg_direct_prediction_return_supported = False\<rparr>]"

lemma pipeline_order_optimal_witness:
  "order_score (order_pipeline_nodes demo_nodes [] demo_edges) [] demo_edges
     \<le> order_score (rev demo_nodes) [] demo_edges"
  using pipeline_order_optimal [of demo_nodes demo_edges "[]"]
  by (simp add: demo_nodes_def demo_edges_def)

end
