(* ===== verification/Planning.thy ===== *)
theory Planning
  imports EdgeOrder
begin

text \<open>
  The contiguous stage planners (\<open>crates/skippy-topology/src/planning.rs\<close>) and the artifact
  diagnostics (\<open>artifact_diagnostics.rs\<close>). Byte sums are the wrapping sums of a release build.
\<close>

section \<open>Scores and reason codes of a node\<close>

definition has_package_aware_signal :: "node_placement_signal \<Rightarrow> bool" where
  "has_package_aware_signal s \<longleftrightarrow> 0 < pg_cached_slice_bytes s \<or> 0 < pg_missing_artifact_bytes s \<or>
     pg_rtt_ms s \<noteq> None \<or> pg_artifact_transfer_supported s \<or> 0 < pg_availability_score s"

definition effective_cached :: "node_spec \<Rightarrow> node_placement_signal option \<Rightarrow> nat" where
  "effective_cached node sig =
     (case sig of Some s \<Rightarrow> max (pg_cached_slice_bytes s) (nd_cached_slice_bytes node)
      | None \<Rightarrow> nd_cached_slice_bytes node)"

text \<open>All the terms are products of a \<open>u64\<close> with a small constant: no \<open>i128\<close> operation saturates.\<close>

definition node_package_score :: "node_spec \<Rightarrow> node_placement_signal option \<Rightarrow> int" where
  "node_package_score node sig =
     (let score = int (nd_vram_bytes node) + int (effective_cached node sig) * 2
      in case sig of
        None \<Rightarrow> score
      | Some s \<Rightarrow>
          score - int (pg_missing_artifact_bytes s) * 4
          - (if 0 < pg_missing_artifact_bytes s \<and> \<not> pg_artifact_transfer_supported s
             then int (pg_missing_artifact_bytes s) * 4 else 0)
          - (case pg_rtt_ms s of Some rtt \<Rightarrow> int rtt * (16 * 1024 * 1024) | None \<Rightarrow> 0)
          + int (pg_availability_score s) * (1024 * 1024))"

definition node_reason_codes :: "node_spec \<Rightarrow> node_placement_signal option \<Rightarrow> plan_reason_code list" where
  "node_reason_codes node sig =
     (if 0 < effective_cached node sig then [CacheLocalityPreferred] else [])
     @ (case sig of None \<Rightarrow> []
        | Some s \<Rightarrow>
            (if 0 < pg_missing_artifact_bytes s then [ArtifactTransferPenalty] else [])
            @ (case pg_rtt_ms s of Some rtt \<Rightarrow> if 0 < rtt then [NetworkPipelineCost] else [] | None \<Rightarrow> [])
            @ (if 0 < pg_availability_score s then [PeerAvailabilityPreferred] else []))"

section \<open>Classification of layers\<close>

definition classify_layers_with_family :: "layer_spec list \<Rightarrow> family_capability_record option \<Rightarrow> state_affinity" where
  "classify_layers_with_family layers family =
     (let has_attention = list_ex ly_attention layers;
          has_recurrent = list_ex (\<lambda>l. ly_recurrent l \<or>
            (case family of Some f \<Rightarrow> list_ex (\<lambda>r. contains_layer r (ly_index l)) (fam_recurrent_ranges f)
             | None \<Rightarrow> False)) layers
      in if has_attention then (if has_recurrent then MixedState else AttentionKv)
         else (if has_recurrent then Recurrent else Stateless))"

definition classify_layers :: "layer_spec list \<Rightarrow> state_affinity" where
  "classify_layers layers = classify_layers_with_family layers None"

fun migration_policy_for :: "state_affinity \<Rightarrow> planner_policy \<Rightarrow> migration_policy" where
  "migration_policy_for Stateless p = FreelyMovable"
| "migration_policy_for AttentionKv p = CostedKv"
| "migration_policy_for _ p =
     (if allow_recurrent_state_transfer p then RecurrentStateTransferPermitted else StickyRecurrentOwner)"

definition stage_reason_codes :: "state_affinity \<Rightarrow> migration_policy \<Rightarrow> family_capability_record option \<Rightarrow>
    plan_reason_code list" where
  "stage_reason_codes affinity migration family =
     (let codes = (case migration of FreelyMovable \<Rightarrow> [] | CostedKv \<Rightarrow> [AttentionKvCosted]
                   | StickyRecurrentOwner \<Rightarrow> [RecurrentOwnerSticky]
                   | RecurrentStateTransferPermitted \<Rightarrow> [RecurrentStateTransferAllowed]);
          codes' = (if (affinity = Recurrent \<or> affinity = MixedState)
                       \<and> RecurrentOwnerSticky \<notin> set codes \<and> RecurrentStateTransferAllowed \<notin> set codes
                    then codes @ [RecurrentOwnerSticky] else codes)
      in codes' @ (case family of None \<Rightarrow> []
           | Some f \<Rightarrow> (case fam_exact_state_mobility f of
                 MobilityAccepted \<Rightarrow> [ExactStateMobilityAccepted]
               | MobilityRejectedTooLarge \<Rightarrow> [ExactStateMobilityRejected]
               | MobilityUntested \<Rightarrow> [])))"

definition stage_roles :: "nat \<Rightarrow> nat \<Rightarrow> stage_role list" where
  "stage_roles stage_index stage_count =
     (if stage_index = 0 then [Driver, Embedding] else [])
     @ (if stage_index + 1 = stage_count then [Readout]
        else if 0 < stage_index then [Intermediate] else [])"

section \<open>Boundaries\<close>

definition wire_payload_bytes_per_token :: "nat \<Rightarrow> nat" where
  "wire_payload_bytes_per_token activation_width = activation_width * 4"

definition activation_payload_multiplier_for_boundary :: "family_capability_record \<Rightarrow> nat \<Rightarrow> nat" where
  "activation_payload_multiplier_for_boundary f boundary =
     (if list_ex (\<lambda>s. sb_kind s = Gemma3nAltup \<and> boundary \<le> sb_first_required_layer s) (fam_sidebands f) then 4
      else if list_ex (\<lambda>s. sb_kind s = Rwkv7VFirst \<and> boundary \<le> sb_first_required_layer s) (fam_sidebands f)
      then 2 else 1)"

text \<open>A constraint of the family rejects the boundary.\<close>

definition constraint_rejects :: "nat \<Rightarrow> split_constraint \<Rightarrow> bool" where
  "constraint_rejects boundary c \<longleftrightarrow> boundary \<in> set (spc_forbidden_boundaries c) \<or>
     spc_reject_boundary_inside c \<and> contains_boundary (spc_range c) boundary"

definition apply_constraint :: "nat \<Rightarrow> boundary_decision \<times> plan_reason_code list \<times> string list \<Rightarrow>
    split_constraint \<Rightarrow> boundary_decision \<times> plan_reason_code list \<times> string list" where
  "apply_constraint boundary st c =
     (let (decision, codes, messages) = st
      in if constraint_rejects boundary c
         then (BoundaryRejected,
               codes @ [case spc_kind c of SharedKvProducerConsumer \<Rightarrow> SharedKvRegionCut],
               messages @ [spc_reason c])
         else st)"

definition apply_sideband :: "nat \<Rightarrow> boundary_decision \<times> plan_reason_code list \<times> string list \<Rightarrow>
    sideband_requirement \<Rightarrow> boundary_decision \<times> plan_reason_code list \<times> string list" where
  "apply_sideband boundary st s =
     (let (decision, codes, messages) = st
      in if boundary \<le> sb_first_required_layer s
         then (decision,
               codes @ [case sb_kind s of TokenIds \<Rightarrow> TokenSidebandRequired
                        | _ \<Rightarrow> ActivationSidebandRequired],
               messages @ [sb_reason s])
         else st)"

definition apply_family_boundary_rules :: "family_capability_record \<Rightarrow> nat \<Rightarrow>
    boundary_decision \<times> plan_reason_code list \<times> string list \<Rightarrow>
    boundary_decision \<times> plan_reason_code list \<times> string list" where
  "apply_family_boundary_rules f boundary st =
     foldl (apply_sideband boundary) (foldl (apply_constraint boundary) st (fam_split_constraints f))
       (fam_sidebands f)"

definition boundary_for :: "family_capability_record option \<Rightarrow> stage_plan \<times> stage_plan \<Rightarrow> boundary_plan" where
  "boundary_for family w =
     (let (producer, consumer) = w;
          boundary = sg_layer_end producer;
          sticky = (sg_migration_policy producer = StickyRecurrentOwner
                    \<or> sg_migration_policy consumer = StickyRecurrentOwner);
          codes = ActivationOnlyBoundary # (if sticky then [RecurrentOwnerSticky] else []);
          messages =
            (''activation boundary after layer '' @ dec boundary @ ''; send activation frame from ''
               @ sg_stage_id producer @ '' to '' @ sg_stage_id consumer)
            # (if sticky
               then [''recurrent state remains with the owning stage; only activation crosses this boundary'']
               else []);
          (decision, codes', messages') =
            (case family of
               Some f \<Rightarrow> apply_family_boundary_rules f boundary (BoundaryAccepted, codes, messages)
             | None \<Rightarrow> (BoundaryAccepted, codes, messages));
          (raw, wire) =
            (case family of
               Some f \<Rightarrow>
                 (let m = activation_payload_multiplier_for_boundary f boundary
                  in (fam_activation_width f * 4 * m,
                      wire_payload_bytes_per_token (fam_activation_width f) * m))
             | None \<Rightarrow> (0, 0))
      in \<lparr>bd_producer_stage_index = sg_stage_index producer,
          bd_consumer_stage_index = sg_stage_index consumer, bd_layer_boundary = boundary,
          bd_decision = decision, bd_raw_activation_bytes_per_token = raw,
          bd_wire_payload_bytes_per_token = wire, bd_reason_codes = codes', bd_messages = messages'\<rparr>)"

definition boundaries_for :: "stage_plan list \<Rightarrow> family_capability_record option \<Rightarrow> boundary_plan list" where
  "boundaries_for stages family = map (boundary_for family) (windows2 stages)"

section \<open>Diagnostics\<close>

definition cached_artifact_bytes_for_stage :: "stage_plan \<Rightarrow> nat" where
  "cached_artifact_bytes_for_stage s = min (sg_cached_slice_bytes s) (sg_parameter_bytes s)"

definition missing_artifact_bytes_for_stage :: "stage_plan \<Rightarrow> nat" where
  "missing_artifact_bytes_for_stage s = min (sg_missing_artifact_bytes s) (sg_parameter_bytes s)"

definition missing_bytes_by_transfer_support ::
    "stage_plan list \<Rightarrow> node_placement_signal list \<Rightarrow> bool \<Rightarrow> nat" where
  "missing_bytes_by_transfer_support stages signals supported =
     wrap_sum (map missing_artifact_bytes_for_stage
       (filter (\<lambda>s. case placement_signal_for signals (sg_node_id s) of
            Some sig \<Rightarrow> pg_artifact_transfer_supported sig = supported | None \<Rightarrow> False) stages))"

definition artifact_diagnostics :: "stage_plan list \<Rightarrow> node_placement_signal list \<Rightarrow> plan_diagnostic list" where
  "artifact_diagnostics stages signals =
     (let cached = wrap_sum (map cached_artifact_bytes_for_stage stages);
          missing = wrap_sum (map missing_artifact_bytes_for_stage stages)
      in if cached = 0 \<and> missing = 0 then []
         else
           (let peer = missing_bytes_by_transfer_support stages signals True;
                remote = sat_sub missing peer
            in [\<lparr>dg_severity = Info,
                 dg_code = (if 0 < missing then ArtifactTransferPenalty else CacheLocalityPreferred),
                 dg_message = ''artifact cold-start plan: cached='' @ dec cached @ '' bytes, missing=''
                   @ dec missing @ '' bytes, peer-transfer-eligible='' @ dec peer
                   @ '' bytes, remote-download-fallback='' @ dec remote @ '' bytes''\<rparr>]))"

definition sticky_diagnostic :: "stage_plan \<Rightarrow> plan_diagnostic list" where
  "sticky_diagnostic s =
     (if sg_migration_policy s = StickyRecurrentOwner then
        [\<lparr>dg_severity = Info, dg_code = RecurrentOwnerSticky,
          dg_message = sg_stage_id s @ '' owns recurrent state for layers '' @ dec (sg_layer_start s)
            @ ''..'' @ dec (sg_layer_end s) @ ''; route future tokens back to '' @ sg_node_id s
            @ '' and only transfer activations across stage boundaries''\<rparr>]
      else [])"

definition mobility_diagnostic :: "family_capability_record \<Rightarrow> plan_diagnostic list" where
  "mobility_diagnostic f =
     (case fam_exact_state_mobility f of
        MobilityAccepted \<Rightarrow>
          [\<lparr>dg_severity = Info, dg_code = ExactStateMobilityAccepted,
            dg_message = fam_family_id f @ '' exact state mobility is within current payload policy''\<rparr>]
      | MobilityRejectedTooLarge \<Rightarrow>
          [\<lparr>dg_severity = Warning, dg_code = ExactStateMobilityRejected,
            dg_message = fam_family_id f @ '' exact state mobility is rejected for normal routing; route activations and keep live state sticky''\<rparr>]
      | MobilityUntested \<Rightarrow> [])"

definition boundary_diagnostic :: "boundary_plan \<Rightarrow> plan_diagnostic list" where
  "boundary_diagnostic b =
     (if bd_decision b = BoundaryRejected then
        [\<lparr>dg_severity = SeverityError,
          dg_code = (case find (\<lambda>c. c = SharedKvRegionCut) (bd_reason_codes b) of
                       Some c \<Rightarrow> c | None \<Rightarrow> RecurrentStateTransferRejected),
          dg_message = ''boundary at layer '' @ dec (bd_layer_boundary b) @ '' is rejected: ''
            @ join ''; '' (bd_messages b)\<rparr>]
      else [])"

definition diagnostics_for :: "stage_plan list \<Rightarrow> boundary_plan list \<Rightarrow> node_placement_signal list \<Rightarrow>
    family_capability_record option \<Rightarrow> planner_policy \<Rightarrow> plan_diagnostic list" where
  "diagnostics_for stages boundaries signals family policy =
     artifact_diagnostics stages signals
     @ concat (map sticky_diagnostic stages)
     @ (if allow_recurrent_state_transfer policy then
          [\<lparr>dg_severity = Warning, dg_code = RecurrentStateTransferAllowed,
            dg_message = ''recurrent state transfer is enabled; this should be reserved for explicit recompute-or-transfer flows, not normal routing''\<rparr>]
        else [])
     @ (case family of Some f \<Rightarrow> mobility_diagnostic f | None \<Rightarrow> [])
     @ concat (map boundary_diagnostic boundaries)"

section \<open>Plans from ranges\<close>

text \<open>
  \<open>request.layers[start..end]\<close>, its \<open>first\<close>/\<open>last\<close> and \<open>request.nodes[stage_index]\<close> panic on an
  empty or out-of-range slice; the ranges of every caller cover the layers (\<open>covers\<close> in
  \<open>PlanningProperties\<close>), which excludes it. The casts of a stage's index and layer count to \<open>u32\<close>
  lose nothing for fewer than 2^32 layers, and a layer index is itself a \<open>u32\<close>; they are left out.
\<close>

definition stage_for :: "topology_plan_request \<Rightarrow> nat \<Rightarrow> node_placement_signal list \<Rightarrow>
    nat \<times> nat \<times> nat \<Rightarrow> stage_plan" where
  "stage_for r stage_count signals e =
     (let (stage_index, start, stop) = e;
          layers = drop start (take stop (tr_layers r));
          affinity = classify_layers_with_family layers (tr_family r);
          migration = migration_policy_for affinity (tr_policy r);
          node = tr_nodes r ! stage_index;
          sig = placement_signal_for signals (nd_node_id node)
      in \<lparr>sg_stage_id = ''stage-'' @ dec stage_index, sg_stage_index = stage_index,
          sg_node_id = nd_node_id node, sg_roles = stage_roles stage_index stage_count,
          sg_layer_start = ly_index (hd layers), sg_layer_end = ly_index (last layers) + 1,
          sg_layer_count = stop - start, sg_parameter_bytes = wrap_sum (map ly_parameter_bytes layers),
          sg_state_affinity = affinity, sg_migration_policy = migration,
          sg_reason_codes = stage_reason_codes affinity migration (tr_family r) @ node_reason_codes node sig,
          sg_cached_slice_bytes = effective_cached node sig,
          sg_missing_artifact_bytes = (case sig of Some s \<Rightarrow> pg_missing_artifact_bytes s | None \<Rightarrow> 0),
          sg_rtt_ms = Option.bind sig pg_rtt_ms\<rparr>)"

definition plan_ranges_with_signals :: "topology_plan_request \<Rightarrow> (nat \<times> nat) list \<Rightarrow>
    node_placement_signal list \<Rightarrow> topology_plan" where
  "plan_ranges_with_signals r ranges signals =
     (let stages = map (stage_for r (length ranges) signals) (enumerate 0 ranges);
          boundaries = boundaries_for stages (tr_family r)
      in \<lparr>tp_topology_id = tr_topology_id r, tp_model_id = tr_model_id r,
          tp_family_id = map_option fam_family_id (tr_family r), tp_stages = stages,
          tp_boundaries = boundaries,
          tp_diagnostics = diagnostics_for stages boundaries signals (tr_family r) (tr_policy r)\<rparr>)"

definition plan_ranges :: "topology_plan_request \<Rightarrow> (nat \<times> nat) list \<Rightarrow> topology_plan" where
  "plan_ranges r ranges = plan_ranges_with_signals r ranges []"

section \<open>Even and weighted plans\<close>

fun even_loop :: "nat \<Rightarrow> nat \<Rightarrow> nat \<Rightarrow> nat list \<Rightarrow> (nat \<times> nat) list" where
  "even_loop base remainder next_layer [] = []"
| "even_loop base remainder next_layer (stage_index # rest) =
     (let layer_count = base + (if stage_index < remainder then 1 else 0)
      in (next_layer, next_layer + layer_count)
         # even_loop base remainder (next_layer + layer_count) rest)"

definition stage_count_of :: "topology_plan_request \<Rightarrow> nat" where
  "stage_count_of r = min (length (tr_nodes r)) (length (tr_layers r))"

definition even_ranges :: "topology_plan_request \<Rightarrow> (nat \<times> nat) list" where
  "even_ranges r =
     even_loop (length (tr_layers r) div stage_count_of r) (length (tr_layers r) mod stage_count_of r) 0
       [0..<stage_count_of r]"

definition plan_even_contiguous :: "topology_plan_request \<Rightarrow> plan_error + topology_plan" where
  "plan_even_contiguous r =
     (case validate_request r of Some e \<Rightarrow> Inl e | None \<Rightarrow> Inr (plan_ranges r (even_ranges r)))"

definition weighted_span :: "nat \<Rightarrow> nat \<Rightarrow> nat \<Rightarrow> nat \<Rightarrow> nat \<Rightarrow> nat" where
  "weighted_span total_layers total_weight vram_bytes remaining_stages remaining_layers =
     (let wanted = (if remaining_stages = 1 then remaining_layers
                    else (let q = total_layers * vram_bytes div total_weight
                          in if q \<le> USIZE_MAX then q else USIZE_MAX))
      in min (max wanted 1) (remaining_layers - (remaining_stages - 1)))"

text \<open>\<open>remaining_stages\<close> is the length of the rest of the nodes.\<close>

fun weighted_loop :: "nat \<Rightarrow> nat \<Rightarrow> nat \<Rightarrow> node_spec list \<Rightarrow> (nat \<times> nat) list" where
  "weighted_loop total_layers total_weight layer_start [] = []"
| "weighted_loop total_layers total_weight layer_start (node # nodes) =
     (let layer_end = layer_start
            + weighted_span total_layers total_weight (nd_vram_bytes node) (length (node # nodes))
                (total_layers - layer_start)
      in (layer_start, layer_end) # weighted_loop total_layers total_weight layer_end nodes)"

definition weighted_ranges :: "topology_plan_request \<Rightarrow> (nat \<times> nat) list" where
  "weighted_ranges r =
     (let nodes = take (stage_count_of r) (tr_nodes r);
          total_weight = wrap_sum (map nd_vram_bytes nodes)
      in if total_weight = 0 then even_ranges r
         else weighted_loop (length (tr_layers r)) total_weight 0 nodes)"

definition plan_weighted_contiguous_with_signals ::
    "topology_plan_request \<Rightarrow> node_placement_signal list \<Rightarrow> plan_error + topology_plan" where
  "plan_weighted_contiguous_with_signals r signals =
     (case validate_request r of Some e \<Rightarrow> Inl e
      | None \<Rightarrow> Inr (plan_ranges_with_signals r (weighted_ranges r) signals))"

definition plan_weighted_contiguous :: "topology_plan_request \<Rightarrow> plan_error + topology_plan" where
  "plan_weighted_contiguous r = plan_weighted_contiguous_with_signals r []"

section \<open>Package-aware plans\<close>

definition package_cmp :: "node_placement_signal list \<Rightarrow> indexed_node \<Rightarrow> indexed_node \<Rightarrow> ordering" where
  "package_cmp signals l r =
     then_with
       (cmp (node_package_score (snd r) (placement_signal_for signals (nd_node_id (snd r))))
            (node_package_score (snd l) (placement_signal_for signals (nd_node_id (snd l)))))
       (then_with (cmp (fst l) (fst r)) (cmp (nd_node_id (snd l)) (nd_node_id (snd r))))"

definition package_nodes :: "topology_plan_request \<Rightarrow> node_placement_signal list \<Rightarrow>
    stage_edge_signal list \<Rightarrow> node_spec list" where
  "package_nodes r signals edges =
     (let sorted = map snd (sort_by (package_cmp signals) (enumerate 0 (tr_nodes r)))
      in map snd (order_pipeline_nodes (enumerate 0 sorted) signals edges))"

definition plan_package_aware_contiguous_with_transport :: "topology_plan_request \<Rightarrow>
    node_placement_signal list \<Rightarrow> stage_edge_signal list \<Rightarrow> plan_error + topology_plan" where
  "plan_package_aware_contiguous_with_transport r signals edges =
     (case validate_request r of
        Some e \<Rightarrow> Inl e
      | None \<Rightarrow>
          if \<not> list_ex (\<lambda>n. 0 < nd_cached_slice_bytes n) (tr_nodes r)
             \<and> \<not> list_ex has_package_aware_signal signals \<and> edges = []
          then plan_weighted_contiguous r
          else
            (case plan_weighted_contiguous_with_signals
                    (r\<lparr>tr_nodes := package_nodes r signals edges\<rparr>) signals of
               Inl e \<Rightarrow> Inl e
             | Inr plan \<Rightarrow> Inr (append_edge_diagnostics edges plan)))"

definition plan_package_aware_contiguous_with_signals ::
    "topology_plan_request \<Rightarrow> node_placement_signal list \<Rightarrow> plan_error + topology_plan" where
  "plan_package_aware_contiguous_with_signals r signals =
     plan_package_aware_contiguous_with_transport r signals []"

definition plan_package_aware_contiguous :: "topology_plan_request \<Rightarrow> plan_error + topology_plan" where
  "plan_package_aware_contiguous r = plan_package_aware_contiguous_with_signals r []"

section \<open>Explicit and balanced splits\<close>

text \<open>The loop over the splits; it returns the boundaries pushed after \<open>layer_start\<close>.\<close>

fun check_splits :: "nat \<Rightarrow> nat \<Rightarrow> nat \<Rightarrow> nat list \<Rightarrow> plan_error + nat list" where
  "check_splits layer_start layer_end previous [] = Inr []"
| "check_splits layer_start layer_end previous (boundary # rest) =
     (if boundary \<le> layer_start \<or> layer_end \<le> boundary
      then Inl (InvalidSplitBoundary boundary layer_start layer_end)
      else if boundary \<le> previous then Inl (NonAscendingSplitBoundary previous boundary)
      else case check_splits layer_start layer_end boundary rest of
        Inl e \<Rightarrow> Inl e
      | Inr bs \<Rightarrow> Inr (boundary # bs))"

definition first_layer :: "topology_plan_request \<Rightarrow> nat" where
  "first_layer r = ly_index (hd (tr_layers r))"

definition end_layer :: "topology_plan_request \<Rightarrow> nat" where
  "end_layer r = ly_index (last (tr_layers r)) + 1"

definition split_ranges :: "nat \<Rightarrow> nat list \<Rightarrow> (nat \<times> nat) list" where
  "split_ranges first boundaries = map (\<lambda>(a, b). (a - first, b - first)) (windows2 boundaries)"

definition plan_contiguous_with_splits :: "topology_plan_request \<Rightarrow> nat list \<Rightarrow> plan_error + topology_plan" where
  "plan_contiguous_with_splits r splits =
     (case validate_request r of
        Some e \<Rightarrow> Inl e
      | None \<Rightarrow>
          (case check_splits (first_layer r) (end_layer r) (first_layer r) splits of
             Inl e \<Rightarrow> Inl e
           | Inr bs \<Rightarrow>
               (let boundaries = first_layer r # bs @ [end_layer r];
                    stage_count = length boundaries - 1
                in if length (tr_nodes r) < stage_count
                   then Inl (NotEnoughNodesForSplits stage_count (length (tr_nodes r)))
                   else Inr (plan_ranges r (split_ranges (first_layer r) boundaries)))))"

definition all_accepted :: "topology_plan \<Rightarrow> bool" where
  "all_accepted plan = list_all (\<lambda>b. bd_decision b = BoundaryAccepted) (tp_boundaries plan)"

definition accepted_boundaries :: "topology_plan_request \<Rightarrow> nat list" where
  "accepted_boundaries r =
     filter (\<lambda>b. case plan_contiguous_with_splits r [b] of Inr plan \<Rightarrow> all_accepted plan | Inl _ \<Rightarrow> False)
       [first_layer r + 1..<end_layer r]"

definition abs_diff :: "nat \<Rightarrow> nat \<Rightarrow> nat" where
  "abs_diff a b = (if a \<le> b then b - a else a - b)"

definition split_score :: "nat \<Rightarrow> nat \<Rightarrow> nat \<Rightarrow> nat list \<Rightarrow> nat" where
  "split_score layer_start layer_end stage_count selected =
     sum_list (map (\<lambda>(index, boundary).
       abs_diff ((boundary - layer_start) * stage_count) ((layer_end - layer_start) * (index + 1)))
       (enumerate 0 selected))"

definition offer_split :: "nat \<Rightarrow> nat \<Rightarrow> nat \<Rightarrow> nat list \<Rightarrow> (nat \<times> nat list) option \<Rightarrow>
    (nat \<times> nat list) option" where
  "offer_split layer_start layer_end stage_count selected best =
     (let score = split_score layer_start layer_end stage_count selected
      in case best of
        None \<Rightarrow> Some (score, selected)
      | Some (best_score, best_splits) \<Rightarrow>
          if score < best_score \<or> score = best_score \<and> selected < best_splits
          then Some (score, selected) else best)"

fun choose_balanced_splits :: "nat list \<Rightarrow> nat \<Rightarrow> nat \<Rightarrow> nat list \<Rightarrow> nat \<Rightarrow> nat \<Rightarrow> nat \<Rightarrow>
    (nat \<times> nat list) option \<Rightarrow> (nat \<times> nat list) option" where
  "choose_balanced_splits accepted 0 next_index selected layer_start layer_end stage_count best =
     offer_split layer_start layer_end stage_count selected best"
| "choose_balanced_splits accepted (Suc r) next_index selected layer_start layer_end stage_count best =
     (if length accepted - next_index < Suc r then best
      else foldl (\<lambda>best index.
             choose_balanced_splits accepted r (index + 1) (selected @ [accepted ! index])
               layer_start layer_end stage_count best)
           best [next_index..<length accepted - Suc r + 1])"

definition plan_balanced_accepted_contiguous :: "topology_plan_request \<Rightarrow> nat \<Rightarrow> plan_error + topology_plan" where
  "plan_balanced_accepted_contiguous r stage_count =
     (case validate_request r of
        Some e \<Rightarrow> Inl e
      | None \<Rightarrow>
          if stage_count < 2 then Inl (InvalidStageCount stage_count)
          else if length (tr_nodes r) < stage_count
          then Inl (NotEnoughNodesForSplits stage_count (length (tr_nodes r)))
          else if length (tr_layers r) < stage_count then Inl (NoAcceptedBalancedSplit stage_count)
          else
            (case choose_balanced_splits (accepted_boundaries r) (stage_count - 1) 0 []
                    (first_layer r) (end_layer r) stage_count None of
               None \<Rightarrow> Inl (NoAcceptedBalancedSplit stage_count)
             | Some (_, splits) \<Rightarrow>
                 (case plan_contiguous_with_splits r splits of
                    Inl e \<Rightarrow> Inl e
                  | Inr plan \<Rightarrow>
                      if \<not> all_accepted plan then Inl (NoAcceptedBalancedSplit stage_count)
                      else Inr plan)))"

end
