(* ===== verification/PlanningProperties.thy ===== *)
theory PlanningProperties
  imports Planning
begin

text \<open>
  Correctness of the stage planners: the stages partition the layers, even plans are balanced,
  explicit splits are validated exactly, the balanced search finds the optimum among the accepted
  splits, and a boundary is rejected exactly when a constraint of the family forbids it.
\<close>

section \<open>Partitions\<close>

lemma in_set_tlD: "x \<in> set (tl xs) \<Longrightarrow> x \<in> set xs"
  by (cases xs) auto

text \<open>The ranges follow each other without gap or overlap from \<open>lo\<close> to \<open>hi\<close>, none empty.\<close>

fun covers :: "nat \<Rightarrow> nat \<Rightarrow> (nat \<times> nat) list \<Rightarrow> bool" where
  "covers lo hi [] = (lo = hi)"
| "covers lo hi ((a, b) # rs) = (a = lo \<and> a < b \<and> covers b hi rs)"

lemma covers_le: "covers lo hi rs \<Longrightarrow> lo \<le> hi"
  by (induction lo hi rs rule: covers.induct) auto

lemma covers_mem: "covers lo hi rs \<Longrightarrow> (a, b) \<in> set rs \<Longrightarrow> lo \<le> a \<and> a < b \<and> b \<le> hi"
proof (induction lo hi rs rule: covers.induct)
  case (2 lo hi c d rs)
  then show ?case using covers_le [of d hi rs] by auto
qed simp

lemma covers_shift: "covers lo hi rs \<Longrightarrow> covers (k + lo) (k + hi) (map (\<lambda>(a, b). (k + a, k + b)) rs)"
  by (induction lo hi rs rule: covers.induct) auto

definition stage_range :: "stage_plan \<Rightarrow> nat \<times> nat" where
  "stage_range s = (sg_layer_start s, sg_layer_end s)"

lemma stage_for_range:
  assumes "validate_request r = None" and "a < b" and "b \<le> length (tr_layers r)"
  shows "stage_range (stage_for r n sigs (i, a, b)) = (first_layer r + a, first_layer r + b)"
proof -
  let ?ls = "drop a (take b (tr_layers r))"
  have ne: "?ls \<noteq> []" "length ?ls = b - a" using assms by auto
  have "hd ?ls = tr_layers r ! a" using assms by (simp add: hd_drop_conv_nth)
  moreover have "last ?ls = tr_layers r ! (b - 1)"
    using assms ne by (simp add: last_conv_nth)
  ultimately show ?thesis
    using assms valid_layer_index [OF assms(1), of a] valid_layer_index [OF assms(1), of "b - 1"]
    by (simp add: stage_for_def Let_def stage_range_def first_layer_def)
qed

lemma plan_ranges_stages:
  assumes valid: "validate_request r = None" and cov: "covers 0 (length (tr_layers r)) ranges"
  shows "map stage_range (tp_stages (plan_ranges_with_signals r ranges sigs)) =
      map (\<lambda>(a, b). (first_layer r + a, first_layer r + b)) ranges \<and>
    map sg_node_id (tp_stages (plan_ranges_with_signals r ranges sigs)) =
      map (\<lambda>i. nd_node_id (tr_nodes r ! i)) [0..<length ranges] \<and>
    map sg_stage_index (tp_stages (plan_ranges_with_signals r ranges sigs)) = [0..<length ranges]"
proof -
  have st: "tp_stages (plan_ranges_with_signals r ranges sigs) =
      map (stage_for r (length ranges) sigs) (enumerate 0 ranges)"
    by (simp add: plan_ranges_with_signals_def Let_def)
  have "map stage_range (map (stage_for r (length ranges) sigs) (enumerate 0 ranges)) =
      map (\<lambda>e. case snd e of (a, b) \<Rightarrow> (first_layer r + a, first_layer r + b)) (enumerate 0 ranges)"
    unfolding map_map comp_def
  proof (rule map_cong [OF refl])
    fix e assume "e \<in> set (enumerate 0 ranges)"
    then have "snd e \<in> set ranges" by (metis imageI list.set_map map_snd_enumerate)
    then show "stage_range (stage_for r (length ranges) sigs e) =
        (case snd e of (a, b) \<Rightarrow> (first_layer r + a, first_layer r + b))"
      using covers_mem [OF cov] stage_for_range [OF valid] by (cases e) auto
  qed
  also have "\<dots> = map (\<lambda>(a, b). (first_layer r + a, first_layer r + b)) (map snd (enumerate 0 ranges))"
    by (simp add: comp_def del: map_snd_enumerate)
  finally have "map stage_range (tp_stages (plan_ranges_with_signals r ranges sigs)) =
      map (\<lambda>(a, b). (first_layer r + a, first_layer r + b)) ranges"
    unfolding st by (simp only: map_snd_enumerate)
  moreover have "map sg_node_id (tp_stages (plan_ranges_with_signals r ranges sigs)) =
      map (\<lambda>i. nd_node_id (tr_nodes r ! i)) (map fst (enumerate 0 ranges))"
    unfolding st by (simp add: stage_for_def Let_def split_beta comp_def del: map_fst_enumerate)
  moreover have "map sg_stage_index (tp_stages (plan_ranges_with_signals r ranges sigs)) = map fst (enumerate 0 ranges)"
    unfolding st by (simp add: stage_for_def Let_def split_beta comp_def del: map_fst_enumerate)
  ultimately show ?thesis by simp
qed

section \<open>The ranges of each planner\<close>

lemma even_loop_covers:
  "0 < base \<Longrightarrow>
   covers k (k + base * length is + length (filter (\<lambda>i. i < m) is)) (even_loop base m k is)"
proof (induction "is" arbitrary: k)
  case (Cons i "is")
  let ?c = "base + (if i < m then 1 else 0)"
  have eq: "k + base * length (i # is) + length (filter (\<lambda>i. i < m) (i # is)) =
      k + ?c + base * length is + length (filter (\<lambda>i. i < m) is)" by simp
  show ?case unfolding eq using Cons.IH [of "k + ?c"] Cons.prems by (simp add: Let_def)
qed simp

lemma length_even_loop [simp]: "length (even_loop base m k is) = length is"
  by (induction "is" arbitrary: k) (simp_all add: Let_def)

lemma even_loop_sizes:
  "(a, b) \<in> set (even_loop base m k is) \<Longrightarrow> b - a = base \<or> b - a = base + 1"
  by (induction "is" arbitrary: k) (auto simp: Let_def split: if_splits)

lemma stage_count_bounds:
  assumes "validate_request r = None"
  shows "0 < stage_count_of r" "stage_count_of r \<le> length (tr_nodes r)" "stage_count_of r \<le> length (tr_layers r)"
  using valid_request(1,2) [OF assms] by (auto simp: stage_count_of_def)

lemma even_ranges_cover:
  assumes "validate_request r = None"
  shows "covers 0 (length (tr_layers r)) (even_ranges r)" and "length (even_ranges r) = stage_count_of r"
proof -
  let ?n = "length (tr_layers r)" and ?k = "stage_count_of r"
  note k = stage_count_bounds [OF assms]
  have "0 < ?n div ?k" using k by (simp add: div_greater_zero_iff)
  moreover have "length (filter (\<lambda>i. i < ?n mod ?k) [0..<?k]) = ?n mod ?k"
  proof -
    have "?n mod ?k \<le> ?k" using k(1) by (simp add: less_imp_le)
    then have "[0..<?k] = [0..<?n mod ?k] @ [?n mod ?k..<?k]" by (metis le0 le_add_diff_inverse upt_add_eq_append)
    then show ?thesis by (simp add: filter_id_conv filter_empty_conv)
  qed
  moreover have "?n div ?k * ?k + ?n mod ?k = ?n" by simp
  ultimately show "covers 0 ?n (even_ranges r)"
    using even_loop_covers [of "?n div ?k" 0 "[0..<?k]" "?n mod ?k"] by (simp add: even_ranges_def)
  show "length (even_ranges r) = ?k" by (simp add: even_ranges_def)
qed

lemma weighted_span_bounds:
  assumes "0 < k" and "k \<le> remaining"
  shows "1 \<le> weighted_span n w v k remaining" "weighted_span n w v k remaining \<le> remaining - (k - 1)"
    "k = 1 \<Longrightarrow> weighted_span n w v k remaining = remaining"
  using assms by (auto simp: weighted_span_def Let_def)

lemma weighted_loop_covers:
  "nodes \<noteq> [] \<Longrightarrow> k + length nodes \<le> n \<Longrightarrow> covers k n (weighted_loop n w k nodes)"
proof (induction nodes arbitrary: k)
  case (Cons node nodes)
  let ?s = "weighted_span n w (nd_vram_bytes node) (length (node # nodes)) (n - k)"
  have b: "1 \<le> ?s" "?s \<le> n - k - length nodes"
    using weighted_span_bounds(1,2) [of "length (node # nodes)" "n - k"] Cons.prems by auto
  show ?case
  proof (cases "nodes = []")
    case True
    then show ?thesis using weighted_span_bounds(3) [of 1 "n - k"] Cons.prems by (simp add: Let_def)
  next
    case False
    then have "covers (k + ?s) n (weighted_loop n w (k + ?s) nodes)"
      using b Cons.prems by (intro Cons.IH) auto
    then show ?thesis using b by (simp add: Let_def)
  qed
qed simp

lemma length_weighted_loop [simp]: "length (weighted_loop n w k nodes) = length nodes"
  by (induction nodes arbitrary: k) (simp_all add: Let_def)

lemma weighted_ranges_cover:
  assumes "validate_request r = None"
  shows "covers 0 (length (tr_layers r)) (weighted_ranges r)" and "length (weighted_ranges r) = stage_count_of r"
  using even_ranges_cover [OF assms] stage_count_bounds [OF assms]
  by (auto simp: weighted_ranges_def Let_def intro!: weighted_loop_covers)

lemma check_splits_Inr:
  "check_splits lo hi prev splits = Inr bs \<longleftrightarrow>
     bs = splits \<and> sorted_wrt (<) (prev # splits) \<and> (\<forall>b \<in> set splits. lo < b \<and> b < hi)"
proof (induction splits arbitrary: prev bs)
  case Nil
  then show ?case by auto
next
  case (Cons b splits)
  have tr: "sorted_wrt (<) (prev # b # splits) \<longleftrightarrow> prev < b \<and> sorted_wrt (<) (b # splits)" by auto
  show ?case
  proof (cases "sorted_wrt (<) (b # splits) \<and> (\<forall>b \<in> set splits. lo < b \<and> b < hi)")
    case True
    then have "check_splits lo hi b splits = Inr splits" using Cons.IH by blast
    then show ?thesis unfolding tr using True by auto
  next
    case False
    then have "\<And>bs. check_splits lo hi b splits \<noteq> Inr bs" using Cons.IH by blast
    then obtain e where "check_splits lo hi b splits = Inl e" by (metis sum.exhaust)
    then show ?thesis unfolding tr using False by auto
  qed
qed

lemma split_ranges_cover:
  "sorted_wrt (<) (a # bs @ [hi]) \<Longrightarrow> lo \<le> a \<Longrightarrow> covers (a - lo) (hi - lo) (split_ranges lo (a # bs @ [hi]))"
proof (induction bs arbitrary: a)
  case Nil
  then show ?case by (auto simp: split_ranges_def windows2_def)
next
  case (Cons b bs)
  then have "covers (b - lo) (hi - lo) (split_ranges lo (b # bs @ [hi]))" by (intro Cons.IH) auto
  then show ?case using Cons.prems by (auto simp: split_ranges_def windows2_def)
qed

lemma end_layer_eq:
  assumes "validate_request r = None"
  shows "end_layer r = first_layer r + length (tr_layers r)"
  using valid_layer_index [OF assms, of "length (tr_layers r) - 1"] valid_request(1) [OF assms]
  by (simp add: end_layer_def first_layer_def last_conv_nth)

lemma plan_contiguous_with_splits_Inr:
  "plan_contiguous_with_splits r splits = Inr p \<longleftrightarrow>
     validate_request r = None \<and> sorted_wrt (<) splits \<and>
     (\<forall>b \<in> set splits. first_layer r < b \<and> b < end_layer r) \<and>
     length splits + 1 \<le> length (tr_nodes r) \<and>
     p = plan_ranges r (split_ranges (first_layer r) (first_layer r # splits @ [end_layer r]))"
proof (cases "validate_request r")
  case (Some e)
  then show ?thesis by (simp add: plan_contiguous_with_splits_def)
next
  case None
  show ?thesis
  proof (cases "check_splits (first_layer r) (end_layer r) (first_layer r) splits")
    case (Inl e)
    then have "\<not> (sorted_wrt (<) (first_layer r # splits) \<and> (\<forall>b \<in> set splits. first_layer r < b \<and> b < end_layer r))"
      using check_splits_Inr by (metis Inl_Inr_False)
    then show ?thesis using None Inl by (auto simp: plan_contiguous_with_splits_def)
  next
    case (Inr bs)
    then have "bs = splits" "sorted_wrt (<) (first_layer r # splits)"
      "\<forall>b \<in> set splits. first_layer r < b \<and> b < end_layer r" by (auto simp: check_splits_Inr)
    then show ?thesis using None Inr by (auto simp: plan_contiguous_with_splits_def Let_def)
  qed
qed

section \<open>Boundaries\<close>

lemma foldl_apply_sideband: "fst (foldl (apply_sideband b) st ss) = fst st"
  by (induction ss arbitrary: st) (auto simp: apply_sideband_def split_beta Let_def)

lemma foldl_apply_constraint:
  "fst (foldl (apply_constraint b) st cs) =
     (if list_ex (constraint_rejects b) cs then BoundaryRejected else fst st)"
  by (induction cs arbitrary: st) (auto simp: apply_constraint_def split_beta Let_def)

lemma foldl_constraint_codes:
  "list_ex (constraint_rejects b) cs \<or> SharedKvRegionCut \<in> set (fst (snd st)) \<Longrightarrow>
   SharedKvRegionCut \<in> set (fst (snd (foldl (apply_constraint b) st cs)))"
  by (induction cs arbitrary: st)
    (auto simp: apply_constraint_def split_beta Let_def split: split_constraint_kind.split)

lemma foldl_sideband_codes:
  "c \<in> set (fst (snd st)) \<Longrightarrow> c \<in> set (fst (snd (foldl (apply_sideband b) st ss)))"
  by (induction ss arbitrary: st) (auto simp: apply_sideband_def split_beta Let_def)

text \<open>The constraints that a family, if known, puts on a boundary.\<close>

definition boundary_forbidden :: "family_capability_record option \<Rightarrow> nat \<Rightarrow> bool" where
  "boundary_forbidden family b = (case family of None \<Rightarrow> False
     | Some f \<Rightarrow> list_ex (constraint_rejects b) (fam_split_constraints f))"

lemma boundary_for_decision:
  "bd_decision (boundary_for family w) =
     (if boundary_forbidden family (sg_layer_end (fst w)) then BoundaryRejected else BoundaryAccepted)"
  "bd_layer_boundary (boundary_for family w) = sg_layer_end (fst w)"
  by (auto simp: boundary_for_def split_beta Let_def boundary_forbidden_def apply_family_boundary_rules_def
      foldl_apply_sideband foldl_apply_constraint split: option.split)

lemma boundary_for_codes:
  "boundary_forbidden family (sg_layer_end (fst w)) \<Longrightarrow>
   SharedKvRegionCut \<in> set (bd_reason_codes (boundary_for family w))"
  by (auto simp: boundary_for_def split_beta Let_def boundary_forbidden_def apply_family_boundary_rules_def
      intro!: foldl_sideband_codes foldl_constraint_codes split: option.splits)

text \<open>The inner boundaries of a partition.\<close>

lemma covers_boundaries:
  "covers lo hi (map stage_range ss) \<Longrightarrow> map (\<lambda>w. sg_layer_end (fst w)) (windows2 ss) = map sg_layer_start (tl ss)"
proof (induction ss arbitrary: lo)
  case Nil
  then show ?case by (simp add: windows2_def)
next
  case (Cons s ss)
  then show ?case by (cases ss) (auto simp: windows2_def stage_range_def)
qed

lemma plan_boundaries:
  "tp_boundaries (plan_ranges_with_signals r ranges sigs) =
     map (boundary_for (tr_family r)) (windows2 (tp_stages (plan_ranges_with_signals r ranges sigs)))"
  by (simp add: plan_ranges_with_signals_def Let_def boundaries_for_def)

lemma split_plan_accepted:
  assumes "plan_contiguous_with_splits r splits = Inr p"
  shows "map bd_layer_boundary (tp_boundaries p) = splits \<and>
    (all_accepted p \<longleftrightarrow> (\<forall>b \<in> set splits. \<not> boundary_forbidden (tr_family r) b))"
proof -
  from assms have p: "validate_request r = None" "sorted_wrt (<) splits"
    "\<forall>b \<in> set splits. first_layer r < b \<and> b < end_layer r"
    "p = plan_ranges_with_signals r (split_ranges (first_layer r) (first_layer r # splits @ [end_layer r])) []"
    by (auto simp: plan_contiguous_with_splits_Inr plan_ranges_def)
  let ?bs = "first_layer r # splits @ [end_layer r]"
  let ?rs = "split_ranges (first_layer r) ?bs"
  have e: "end_layer r = first_layer r + length (tr_layers r)" "0 < length (tr_layers r)"
    using end_layer_eq valid_request(1) p(1) by auto
  have sorted: "sorted_wrt (<) ?bs" using p(2,3) e by (auto simp: sorted_wrt_append)
  have cov: "covers 0 (length (tr_layers r)) ?rs"
    using split_ranges_cover [OF sorted order_refl] e by simp
  have ranges: "map stage_range (tp_stages p) = map (\<lambda>(a, b). (first_layer r + a, first_layer r + b)) ?rs"
    using plan_ranges_stages [OF p(1) cov] p(4) by blast
  have ge: "\<forall>x \<in> set ?bs. first_layer r \<le> x" using p(3) e by auto
  have "map (\<lambda>(a, b). (first_layer r + a, first_layer r + b)) ?rs = windows2 ?bs"
    unfolding split_ranges_def map_map
  proof (rule map_idI)
    fix w assume "w \<in> set (windows2 ?bs)"
    then have "(fst w, snd w) \<in> set (zip ?bs (tl ?bs))" by (simp add: windows2_def)
    then have "fst w \<in> set ?bs" "snd w \<in> set ?bs"
      by (rule set_zip_leftD, rule in_set_tlD [OF set_zip_rightD])
    then show "((\<lambda>(a, b). (first_layer r + a, first_layer r + b)) \<circ> (\<lambda>(a, b). (a - first_layer r, b - first_layer r))) w = w"
      using ge by (cases w) auto
  qed
  then have st: "map stage_range (tp_stages p) = windows2 ?bs" using ranges by simp
  have "map sg_layer_start (tp_stages p) = map fst (map stage_range (tp_stages p))"
    by (simp add: stage_range_def comp_def)
  also have "\<dots> = map fst (zip ?bs (splits @ [end_layer r]))" unfolding st windows2_def by simp
  also have "\<dots> = first_layer r # splits" by (simp add: map_fst_zip_take)
  finally have starts: "map sg_layer_start (tl (tp_stages p)) = splits" by (metis list.sel(3) map_tl)
  have "covers (first_layer r + 0) (first_layer r + length (tr_layers r)) (map stage_range (tp_stages p))"
    unfolding ranges by (rule covers_shift [OF cov])
  from covers_boundaries [OF this]
  have bnd: "map (\<lambda>w. sg_layer_end (fst w)) (windows2 (tp_stages p)) = splits" using starts by simp
  have tb: "tp_boundaries p = map (boundary_for (tr_family r)) (windows2 (tp_stages p))"
    unfolding p(4) by (rule plan_boundaries)
  have "map bd_layer_boundary (tp_boundaries p) = splits"
    unfolding tb using bnd by (simp add: boundary_for_decision comp_def)
  moreover have "all_accepted p \<longleftrightarrow> (\<forall>b \<in> set (map (\<lambda>w. sg_layer_end (fst w)) (windows2 (tp_stages p))).
      \<not> boundary_forbidden (tr_family r) b)"
    unfolding all_accepted_def tb by (auto simp: list_all_iff boundary_for_decision)
  ultimately show ?thesis using bnd by simp
qed

section \<open>The balanced search\<close>

text \<open>The selections that \<open>choose_balanced_splits\<close> offers, in its order.\<close>

fun picks :: "nat list \<Rightarrow> nat \<Rightarrow> nat \<Rightarrow> nat list list" where
  "picks accepted 0 k = [[]]"
| "picks accepted (Suc r) k =
     (if length accepted - k < Suc r then []
      else concat (map (\<lambda>i. map ((#) (accepted ! i)) (picks accepted r (i + 1)))
             [k..<length accepted - Suc r + 1]))"

lemma choose_is_fold:
  "choose_balanced_splits accepted r k selected lo hi n best =
     foldl (\<lambda>b s. offer_split lo hi n (selected @ s) b) best (picks accepted r k)"
proof (induction r arbitrary: k selected best)
  case 0
  then show ?case by simp
next
  case (Suc r)
  have "foldl (\<lambda>best i. choose_balanced_splits accepted r (i + 1) (selected @ [accepted ! i]) lo hi n best) best is =
      foldl (\<lambda>b s. offer_split lo hi n (selected @ s) b) best
        (concat (map (\<lambda>i. map ((#) (accepted ! i)) (picks accepted r (i + 1))) is))" for "is"
    by (induction "is" arbitrary: best) (simp_all add: Suc.IH foldl_map)
  then show ?case by simp
qed

lemma mem_drop_iff: "x \<in> set (drop m xs) \<longleftrightarrow> (\<exists>j. m \<le> j \<and> j < length xs \<and> xs ! j = x)"
proof
  assume "x \<in> set (drop m xs)"
  then obtain i where "i < length xs - m" "drop m xs ! i = x" by (auto simp: in_set_conv_nth)
  then show "\<exists>j. m \<le> j \<and> j < length xs \<and> xs ! j = x" by (intro exI [of _ "m + i"]) auto
next
  assume "\<exists>j. m \<le> j \<and> j < length xs \<and> xs ! j = x"
  then obtain j where "m \<le> j" "j < length xs" "xs ! j = x" by blast
  then have "drop m xs ! (j - m) = x" "j - m < length (drop m xs)" by auto
  then show "x \<in> set (drop m xs)" by (metis nth_mem)
qed

lemma picks_iff:
  assumes acc: "sorted_wrt (<) accepted"
  shows "s \<in> set (picks accepted r k) \<longleftrightarrow>
    sorted_wrt (<) s \<and> set s \<subseteq> set (drop k accepted) \<and> length s = r"
proof (induction r arbitrary: s k)
  case 0
  then show ?case by auto
next
  case (Suc r)
  have nth_mono: "i < j \<Longrightarrow> j < length accepted \<Longrightarrow> accepted ! i < accepted ! j" for i j
    using acc by (simp add: sorted_wrt_nth_less)
  have mem_drop: "x \<in> set (drop m accepted) \<longleftrightarrow> (\<exists>j. m \<le> j \<and> j < length accepted \<and> accepted ! j = x)" for x m
    by (rule mem_drop_iff)
  show ?case
  proof
    assume "s \<in> set (picks accepted (Suc r) k)"
    then obtain i xs where s: "s = accepted ! i # xs" "k \<le> i" "i < length accepted - r" "xs \<in> set (picks accepted r (i + 1))"
      by (auto split: if_splits)
    then have xs: "sorted_wrt (<) xs" "set xs \<subseteq> set (drop (i + 1) accepted)" "length xs = r"
      using Suc.IH by blast+
    have "\<forall>y \<in> set xs. accepted ! i < y"
      using xs(2) nth_mono unfolding subset_iff mem_drop by fastforce
    moreover have "set s \<subseteq> set (drop k accepted)"
    proof
      fix t assume "t \<in> set s"
      then consider "t = accepted ! i" | "t \<in> set (drop (i + 1) accepted)" using s(1) xs(2) by auto
      then show "t \<in> set (drop k accepted)"
      proof cases
        case 1
        then show ?thesis using s(2,3) unfolding mem_drop by (intro exI [of _ i]) auto
      next
        case 2
        then obtain j where "i + 1 \<le> j" "j < length accepted" "accepted ! j = t" unfolding mem_drop by blast
        then show ?thesis using s(2) unfolding mem_drop by (intro exI [of _ j]) auto
      qed
    qed
    ultimately show "sorted_wrt (<) s \<and> set s \<subseteq> set (drop k accepted) \<and> length s = Suc r"
      using s(1) xs by simp
  next
    assume s: "sorted_wrt (<) s \<and> set s \<subseteq> set (drop k accepted) \<and> length s = Suc r"
    then obtain x xs where x: "s = x # xs" "length xs = r" by (cases s) auto
    then obtain i where i: "k \<le> i" "i < length accepted" "accepted ! i = x"
      using s mem_drop [of x k] by auto
    have sub: "set xs \<subseteq> set (drop (i + 1) accepted)"
    proof
      fix y assume y: "y \<in> set xs"
      then obtain j where j: "k \<le> j" "j < length accepted" "accepted ! j = y"
        using s x(1) mem_drop [of y k] by auto
      have "x < y" using s x(1) y by simp
      then have "i < j" using nth_mono [of j i] i j by (metis less_asym linorder_neqE_nat)
      then show "y \<in> set (drop (i + 1) accepted)"
        unfolding mem_drop using j by (intro exI [of _ j]) auto
    qed
    have "distinct xs" using s x(1) by (simp add: strict_sorted_iff)
    then have "r \<le> length (drop (i + 1) accepted)"
      using sub x(2) by (metis card_length card_mono distinct_card finite_set le_trans)
    then have len: "i < length accepted - Suc r + 1" "\<not> length accepted - k < Suc r" using i by auto
    have "xs \<in> set (picks accepted r (i + 1))" using sub s x Suc.IH by simp
    then show "s \<in> set (picks accepted (Suc r) k)"
      using len i x(1) by (auto simp: image_iff simp del: upt_Suc intro!: bexI [of _ i])
  qed
qed

lemma offer_split_None: "offer_split lo hi n s None = Some (split_score lo hi n s, s)"
  by (simp add: offer_split_def Let_def)

lemma offer_split_Some: "offer_split lo hi n s (Some m) = Some (min (split_score lo hi n s, s) m)"
  by (cases m) (auto simp: offer_split_def Let_def min_def less_eq_prod_def)

lemma foldl_offer:
  "let b = foldl (\<lambda>b s. offer_split lo hi n s b) best ss in
     (b = None \<longleftrightarrow> best = None \<and> ss = []) \<and>
     (\<forall>m. b = Some m \<longrightarrow> (best = Some m \<or> (\<exists>s \<in> set ss. m = (split_score lo hi n s, s))) \<and>
        (\<forall>s \<in> set ss. m \<le> (split_score lo hi n s, s)) \<and> (\<forall>m0. best = Some m0 \<longrightarrow> m \<le> m0))"
proof (induction ss arbitrary: best)
  case Nil
  then show ?case by simp
next
  case (Cons s ss)
  let ?o = "offer_split lo hi n s best"
  obtain m1 where m1: "?o = Some m1" "m1 \<le> (split_score lo hi n s, s)"
    "best = Some m1 \<or> m1 = (split_score lo hi n s, s)" "\<And>m0. best = Some m0 \<Longrightarrow> m1 \<le> m0"
  proof (cases best)
    case None
    then show ?thesis using that [of "(split_score lo hi n s, s)"] by (simp add: offer_split_None)
  next
    case (Some m)
    then show ?thesis using that [of "min (split_score lo hi n s, s) m"]
      by (simp add: offer_split_Some) (auto simp: min_def)
  qed
  show ?case
    using Cons.IH [of ?o] m1 by (auto simp: Let_def simp del: less_eq_prod_simp intro: order_trans)
qed

text \<open>An accepted selection of \<open>k\<close> splits.\<close>

definition accepted_split :: "topology_plan_request \<Rightarrow> nat \<Rightarrow> nat list \<Rightarrow> bool" where
  "accepted_split r k splits \<longleftrightarrow> length splits = k \<and>
     (\<exists>p. plan_contiguous_with_splits r splits = Inr p \<and> all_accepted p)"

lemma accepted_split_iff:
  assumes "validate_request r = None" and "k + 1 \<le> length (tr_nodes r)"
  shows "accepted_split r k splits \<longleftrightarrow> length splits = k \<and> sorted_wrt (<) splits \<and>
    (\<forall>b \<in> set splits. first_layer r < b \<and> b < end_layer r \<and> \<not> boundary_forbidden (tr_family r) b)"
proof
  assume "accepted_split r k splits"
  then obtain p where p: "length splits = k" "plan_contiguous_with_splits r splits = Inr p" "all_accepted p"
    by (auto simp: accepted_split_def)
  from split_plan_accepted [OF p(2)] p(3) have "\<forall>b \<in> set splits. \<not> boundary_forbidden (tr_family r) b" by blast
  then show "length splits = k \<and> sorted_wrt (<) splits \<and>
    (\<forall>b \<in> set splits. first_layer r < b \<and> b < end_layer r \<and> \<not> boundary_forbidden (tr_family r) b)"
    using p(1,2) by (auto simp: plan_contiguous_with_splits_Inr)
next
  assume s: "length splits = k \<and> sorted_wrt (<) splits \<and>
    (\<forall>b \<in> set splits. first_layer r < b \<and> b < end_layer r \<and> \<not> boundary_forbidden (tr_family r) b)"
  then obtain p where p: "plan_contiguous_with_splits r splits = Inr p"
    using assms by (auto simp: plan_contiguous_with_splits_Inr)
  then have "all_accepted p" using split_plan_accepted [OF p] s by blast
  then show "accepted_split r k splits" using s p by (auto simp: accepted_split_def)
qed

lemma set_accepted_boundaries:
  assumes "validate_request r = None" and "2 \<le> length (tr_nodes r)"
  shows "set (accepted_boundaries r) =
    {b. first_layer r < b \<and> b < end_layer r \<and> \<not> boundary_forbidden (tr_family r) b}"
proof -
  have one: "(case plan_contiguous_with_splits r [b] of Inr plan \<Rightarrow> all_accepted plan | Inl _ \<Rightarrow> False) \<longleftrightarrow>
      accepted_split r 1 [b]" for b
    by (auto simp: accepted_split_def split: sum.split)
  have acc: "accepted_split r 1 [b] \<longleftrightarrow> first_layer r < b \<and> b < end_layer r \<and> \<not> boundary_forbidden (tr_family r) b" for b
    using accepted_split_iff [OF assms(1), of 1 "[b]"] assms(2) by simp
  show ?thesis unfolding accepted_boundaries_def one acc by auto
qed

lemma sorted_accepted_boundaries: "sorted_wrt (<) (accepted_boundaries r)"
  by (simp add: accepted_boundaries_def sorted_wrt_filter)

lemma balanced_choice:
  assumes valid: "validate_request r = None" and k: "2 \<le> k" "k \<le> length (tr_nodes r)"
  defines "b \<equiv> choose_balanced_splits (accepted_boundaries r) (k - 1) 0 [] (first_layer r) (end_layer r) k None"
  shows "(b = None \<longleftrightarrow> (\<nexists>splits. accepted_split r (k - 1) splits)) \<and>
    (\<forall>score splits. b = Some (score, splits) \<longrightarrow> accepted_split r (k - 1) splits \<and>
       (\<forall>other. accepted_split r (k - 1) other \<longrightarrow>
          (split_score (first_layer r) (end_layer r) k splits, splits) \<le>
          (split_score (first_layer r) (end_layer r) k other, other)))"
proof -
  let ?ss = "picks (accepted_boundaries r) (k - 1) 0"
  have ss: "s \<in> set ?ss \<longleftrightarrow> accepted_split r (k - 1) s" for s
    using picks_iff [OF sorted_accepted_boundaries, of s r "k - 1" 0] valid k
    by (auto simp: accepted_split_iff set_accepted_boundaries)
  have "b = foldl (\<lambda>b s. offer_split (first_layer r) (end_layer r) k s b) None ?ss"
    unfolding b_def choose_is_fold by simp
  then have eq: "foldl (\<lambda>b s. offer_split (first_layer r) (end_layer r) k s b) None ?ss = b" ..
  note f = foldl_offer [where lo = "first_layer r" and hi = "end_layer r" and n = k and best = None and ss = ?ss,
      unfolded Let_def eq]
  have b: "(b = None \<longleftrightarrow> ?ss = [])" using f by blast
  have b2: "(\<exists>s \<in> set ?ss. m = (split_score (first_layer r) (end_layer r) k s, s)) \<and>
        (\<forall>s \<in> set ?ss. m \<le> (split_score (first_layer r) (end_layer r) k s, s))" if "b = Some m" for m
    using conjunct2 [OF f, THEN spec, THEN mp, OF that] by blast
  have "?ss = [] \<longleftrightarrow> (\<nexists>s. s \<in> set ?ss)" by auto
  then have none: "b = None \<longleftrightarrow> (\<nexists>s. accepted_split r (k - 1) s)" unfolding b ss .
  have some: "accepted_split r (k - 1) splits \<and> (\<forall>other. accepted_split r (k - 1) other \<longrightarrow>
          (split_score (first_layer r) (end_layer r) k splits, splits) \<le>
          (split_score (first_layer r) (end_layer r) k other, other))" if "b = Some (score, splits)" for score splits
    using b2 [OF that] unfolding Ball_def Bex_def ss by auto
  show ?thesis using none some by blast
qed

section \<open>Properties\<close>

lemma plan_ranges_partition:
  assumes "validate_request r = None" and "covers 0 (length (tr_layers r)) ranges"
    and "length ranges \<le> length (tr_nodes r)"
  shows "covers (first_layer r) (end_layer r) (map stage_range (tp_stages (plan_ranges_with_signals r ranges sigs))) \<and>
    map sg_node_id (tp_stages (plan_ranges_with_signals r ranges sigs)) =
      take (length ranges) (map nd_node_id (tr_nodes r))"
proof -
  have "map (\<lambda>i. nd_node_id (tr_nodes r ! i)) [0..<length ranges] = take (length ranges) (map nd_node_id (tr_nodes r))"
    using assms(3) by (intro nth_equalityI) auto
  then show ?thesis using plan_ranges_stages [OF assms(1,2), of sigs] covers_shift [OF assms(2), of "first_layer r"]
      end_layer_eq [OF assms(1)] by simp
qed

text \<open>The result is a plan whose stages partition the layers over distinct nodes.\<close>

definition partitions :: "topology_plan_request \<Rightarrow> topology_plan \<Rightarrow> bool" where
  "partitions r p \<longleftrightarrow> covers (first_layer r) (end_layer r) (map stage_range (tp_stages p)) \<and>
     mset (map sg_node_id (tp_stages p)) \<subseteq># mset (map nd_node_id (tr_nodes r))"

lemma mset_take_subset: "mset (take k xs) \<subseteq># mset xs"
  by (metis append_take_drop_id mset_append mset_subset_eq_add_left)

lemma partitions_ranges:
  assumes "validate_request r = None" and "covers 0 (length (tr_layers r)) ranges"
    and "length ranges \<le> length (tr_nodes r)"
  shows "partitions r (plan_ranges_with_signals r ranges sigs)"
  using plan_ranges_partition [OF assms, of sigs] mset_take_subset [of "length ranges" "map nd_node_id (tr_nodes r)"]
  by (simp add: partitions_def del: mset_map)

lemma weighted_partitions:
  "plan_weighted_contiguous_with_signals r sigs = Inr p \<Longrightarrow> partitions r p"
  using partitions_ranges weighted_ranges_cover stage_count_bounds
  by (auto simp: plan_weighted_contiguous_with_signals_def split: option.splits)

lemma mset_package_nodes: "mset (package_nodes r sigs edges) = mset (tr_nodes r)"
proof -
  let ?s = "map snd (sort_by (package_cmp sigs) (enumerate 0 (tr_nodes r)))"
  have "mset (package_nodes r sigs edges) = image_mset snd (mset (enumerate 0 ?s))"
    unfolding package_nodes_def Let_def mset_map mset_order_pipeline_nodes by (rule refl)
  also have "\<dots> = mset (map snd (enumerate 0 ?s))" by (simp only: mset_map)
  also have "\<dots> = image_mset snd (mset (enumerate 0 (tr_nodes r)))" by (simp only: map_snd_enumerate mset_map mset_sort_by)
  also have "\<dots> = mset (tr_nodes r)" by (simp only: mset_map [symmetric] map_snd_enumerate)
  finally show ?thesis .
qed

lemma package_partitions:
  assumes "plan_package_aware_contiguous_with_transport r sigs edges = Inr p"
  shows "partitions r p"
proof -
  let ?r = "r\<lparr>tr_nodes := package_nodes r sigs edges\<rparr>"
  have "partitions ?r q \<Longrightarrow> partitions r (append_edge_diagnostics edges q)" for q
    using mset_package_nodes [of r sigs edges]
    by (simp add: partitions_def append_edge_diagnostics_def first_layer_def end_layer_def)
  then show ?thesis using assms weighted_partitions [of ?r sigs] weighted_partitions [of r "[]"]
    by (auto simp: plan_package_aware_contiguous_with_transport_def plan_weighted_contiguous_def
        split: option.splits if_splits sum.splits)
qed

lemma splits_partitions:
  assumes "plan_contiguous_with_splits r splits = Inr p"
  shows "partitions r p"
proof -
  from assms have p: "validate_request r = None" "sorted_wrt (<) splits"
    "\<forall>b \<in> set splits. first_layer r < b \<and> b < end_layer r" "length splits + 1 \<le> length (tr_nodes r)"
    "p = plan_ranges_with_signals r (split_ranges (first_layer r) (first_layer r # splits @ [end_layer r])) []"
    by (auto simp: plan_contiguous_with_splits_Inr plan_ranges_def)
  have e: "end_layer r = first_layer r + length (tr_layers r)" "0 < length (tr_layers r)"
    using end_layer_eq valid_request(1) p(1) by auto
  have "sorted_wrt (<) (first_layer r # splits @ [end_layer r])" using p(2,3) e by (auto simp: sorted_wrt_append)
  from split_ranges_cover [OF this order_refl] show ?thesis
    unfolding p(5) using p(1,4) e(1) by (intro partitions_ranges) (simp_all add: split_ranges_def)
qed

text \<open>
  (C7) Every plan that any planner returns partitions the layers: its stages are non-empty
  contiguous layer ranges that follow each other from the first layer to the last, on nodes of the
  request none of which is used more often than it was offered.
\<close>

theorem plans_partition_layers:
  fixes r :: topology_plan_request
  assumes "plan_even_contiguous r = Inr p \<or> plan_weighted_contiguous r = Inr p \<or>
    plan_package_aware_contiguous_with_transport r sigs edges = Inr p \<or>
    plan_contiguous_with_splits r splits = Inr p \<or> plan_balanced_accepted_contiguous r k = Inr p"
  shows "covers (first_layer r) (end_layer r) (map stage_range (tp_stages p)) \<and>
    mset (map sg_node_id (tp_stages p)) \<subseteq># mset (map nd_node_id (tr_nodes r))"
proof -
  have "partitions r p" if "plan_even_contiguous r = Inr p"
    using that partitions_ranges [of r "even_ranges r" "[]"] even_ranges_cover stage_count_bounds
    by (auto simp: plan_even_contiguous_def plan_ranges_def split: option.splits)
  moreover have "partitions r p" if "plan_balanced_accepted_contiguous r k = Inr p"
    using that splits_partitions
    by (auto simp: plan_balanced_accepted_contiguous_def split: option.splits if_splits sum.splits)
  ultimately show ?thesis
    using assms weighted_partitions package_partitions splits_partitions
    unfolding partitions_def [symmetric] plan_weighted_contiguous_def by blast
qed

text \<open>
  The even plan uses as many nodes as it can, in the request's order, and no two stages differ
  by more than one layer.
\<close>

theorem even_plan_balanced:
  fixes r :: topology_plan_request
  assumes "plan_even_contiguous r = Inr p"
  shows "map sg_node_id (tp_stages p) =
      take (min (length (tr_nodes r)) (length (tr_layers r))) (map nd_node_id (tr_nodes r)) \<and>
    (\<forall>s t. s \<in> set (tp_stages p) \<longrightarrow> t \<in> set (tp_stages p) \<longrightarrow>
       sg_layer_end s - sg_layer_start s \<le> sg_layer_end t - sg_layer_start t + 1)"
proof -
  have v: "validate_request r = None" and p: "p = plan_ranges_with_signals r (even_ranges r) []"
    using assms by (auto simp: plan_even_contiguous_def plan_ranges_def split: option.splits)
  note cov = even_ranges_cover [OF v]
  have size: "sg_layer_end s - sg_layer_start s \<in> {length (tr_layers r) div stage_count_of r,
      length (tr_layers r) div stage_count_of r + 1}" if "s \<in> set (tp_stages p)" for s
  proof -
    have "stage_range s \<in> set (map stage_range (tp_stages p))" using that by simp
    then obtain a b where "(a, b) \<in> set (even_ranges r)" "stage_range s = (first_layer r + a, first_layer r + b)"
      using plan_ranges_stages [OF v cov(1), of "[]"] p by auto
    then show ?thesis using even_loop_sizes by (auto simp: stage_range_def even_ranges_def)
  qed
  have "map sg_node_id (tp_stages p) = take (stage_count_of r) (map nd_node_id (tr_nodes r))"
    using plan_ranges_partition [OF v cov(1)] cov(2) stage_count_bounds [OF v] p by simp
  moreover have "sg_layer_end s - sg_layer_start s \<le> sg_layer_end t - sg_layer_start t + 1"
    if "s \<in> set (tp_stages p)" "t \<in> set (tp_stages p)" for s t
    using size [OF that(1)] size [OF that(2)] by auto
  ultimately show ?thesis unfolding stage_count_of_def by blast
qed

text \<open>
  Explicit splits are validated exactly: a plan is returned iff the request is valid, the
  splits ascend strictly inside the layer range and there are enough nodes, and then its boundaries
  are exactly the splits, each rejected iff a constraint of the family forbids it.
\<close>

theorem explicit_splits_exact:
  "(\<exists>p. plan_contiguous_with_splits r splits = Inr p) =
     (validate_request r = None \<and> sorted_wrt (<) (first_layer r # splits @ [end_layer r]) \<and>
      length splits + 1 \<le> length (tr_nodes r)) \<and>
   (\<forall>p. plan_contiguous_with_splits r splits = Inr p \<longrightarrow>
      map bd_layer_boundary (tp_boundaries p) = splits \<and>
      (all_accepted p \<longleftrightarrow> (\<nexists>b. b \<in> set splits \<and> boundary_forbidden (tr_family r) b)))"
proof -
  have "first_layer r < end_layer r" if "validate_request r = None"
    using that end_layer_eq valid_request(1) by auto
  then have "sorted_wrt (<) (first_layer r # splits @ [end_layer r]) \<longleftrightarrow>
      sorted_wrt (<) splits \<and> (\<forall>b \<in> set splits. first_layer r < b \<and> b < end_layer r)"
    if "validate_request r = None"
    using that by (auto simp: sorted_wrt_append)
  moreover have "map bd_layer_boundary (tp_boundaries p) = splits \<and>
      (all_accepted p \<longleftrightarrow> (\<nexists>b. b \<in> set splits \<and> boundary_forbidden (tr_family r) b))"
    if "plan_contiguous_with_splits r splits = Inr p" for p
    using split_plan_accepted [OF that] by blast
  ultimately show ?thesis by (auto simp only: plan_contiguous_with_splits_Inr simp_thms ex_simps)
qed

text \<open>
  (C8) The balanced planner is optimal: for a valid request with at least two stages and enough
  nodes it returns a plan iff some accepted selection of splits exists; the plan has all its
  boundaries accepted, and its splits have the least distance from the even partition among all
  accepted selections, ties broken by the lexicographically least splits.
\<close>

theorem balanced_plan_optimal:
  fixes r :: topology_plan_request
  assumes "validate_request r = None" and "2 \<le> k" and "k \<le> length (tr_nodes r)" and "k \<le> length (tr_layers r)"
  shows "(\<forall>p. plan_balanced_accepted_contiguous r k = Inr p \<longrightarrow>
       all_accepted p \<and> length (tp_boundaries p) = k - 1 \<and>
       (\<forall>other. accepted_split r (k - 1) other \<longrightarrow>
          (split_score (first_layer r) (end_layer r) k (map bd_layer_boundary (tp_boundaries p)),
           map bd_layer_boundary (tp_boundaries p))
          \<le> (split_score (first_layer r) (end_layer r) k other, other))) \<and>
    (plan_balanced_accepted_contiguous r k = Inl (NoAcceptedBalancedSplit k) \<longleftrightarrow>
       (\<nexists>splits. accepted_split r (k - 1) splits)) \<and>
    (plan_balanced_accepted_contiguous r k = Inl (NoAcceptedBalancedSplit k) \<or>
       (\<exists>p. plan_balanced_accepted_contiguous r k = Inr p))"
proof -
  let ?b = "choose_balanced_splits (accepted_boundaries r) (k - 1) 0 [] (first_layer r) (end_layer r) k None"
  note c = balanced_choice [OF assms(1-3)]
  show ?thesis
  proof (cases ?b)
    case None
    then show ?thesis using c assms by (simp add: plan_balanced_accepted_contiguous_def)
  next
    case (Some m)
    obtain score splits where m: "m = (score, splits)" by (cases m)
    have acc: "accepted_split r (k - 1) splits"
      "\<forall>other. accepted_split r (k - 1) other \<longrightarrow>
          (split_score (first_layer r) (end_layer r) k splits, splits) \<le>
          (split_score (first_layer r) (end_layer r) k other, other)"
      using c Some m by blast+
    then obtain p where p: "plan_contiguous_with_splits r splits = Inr p" "all_accepted p" "length splits = k - 1"
      by (auto simp: accepted_split_def)
    have eq: "plan_balanced_accepted_contiguous r k = Inr p"
      using Some m p assms by (simp add: plan_balanced_accepted_contiguous_def)
    have bnd: "map bd_layer_boundary (tp_boundaries p) = splits" using split_plan_accepted [OF p(1)] by blast
    then have "length (tp_boundaries p) = k - 1" using p(3) by (metis length_map)
    then show ?thesis using eq p(2) acc bnd by (auto simp del: less_eq_prod_simp)
  qed
qed

section \<open>Witnesses\<close>

definition demo_layer :: "nat \<Rightarrow> layer_spec" where
  "demo_layer i = \<lparr>ly_index = i, ly_attention = True, ly_recurrent = False, ly_parameter_bytes = 10\<rparr>"

definition demo_family :: family_capability_record where
  "demo_family = \<lparr>fam_family_id = ''demo'', fam_layer_count = 4, fam_activation_width = 8,
     fam_exact_state_mobility = MobilityUntested, fam_recurrent_ranges = [],
     fam_split_constraints = [\<lparr>spc_kind = SharedKvProducerConsumer, spc_range = \<lparr>lr_start = 0, lr_end = 4\<rparr>,
       spc_forbidden_boundaries = [2], spc_reject_boundary_inside = False, spc_reason = ''shared''\<rparr>],
     fam_sidebands = []\<rparr>"

definition demo_request :: topology_plan_request where
  "demo_request = \<lparr>tr_topology_id = ''t'', tr_model_id = ''m'',
     tr_layers = [demo_layer 0, demo_layer 1, demo_layer 2, demo_layer 3],
     tr_nodes = map snd demo_nodes, tr_family = Some demo_family,
     tr_policy = \<lparr>allow_recurrent_state_transfer = False\<rparr>\<rparr>"

lemma demo_valid: "validate_request demo_request = None"
  by (simp add: demo_request_def demo_family_def demo_layer_def demo_nodes_def validate_request_def Let_def)

lemma plans_partition_layers_witness:
  "covers 0 4 (map stage_range (tp_stages (plan_ranges demo_request (even_ranges demo_request))))"
proof -
  have "plan_even_contiguous demo_request = Inr (plan_ranges demo_request (even_ranges demo_request))"
    by (simp add: plan_even_contiguous_def demo_valid)
  from plans_partition_layers [OF disjI1 [OF this]] show ?thesis
    by (simp add: first_layer_def end_layer_def) (simp add: demo_request_def demo_layer_def)
qed

lemma balanced_plan_optimal_witness:
  "\<exists>p. plan_balanced_accepted_contiguous demo_request 2 = Inr p \<and> all_accepted p"
proof -
  have n: "length (tr_nodes demo_request) = 2" "length (tr_layers demo_request) = 4"
    by (simp_all add: demo_request_def demo_nodes_def)
  have "accepted_split demo_request 1 [1]"
    using accepted_split_iff [OF demo_valid, of 1 "[1]"] n
    by (simp add: first_layer_def end_layer_def boundary_forbidden_def)
      (simp add: demo_request_def demo_layer_def demo_family_def constraint_rejects_def)
  then have "\<exists>s. accepted_split demo_request (2 - 1) s" by auto
  then show ?thesis using balanced_plan_optimal [OF demo_valid, of 2] n by auto
qed

end
