(* ===== verification/FamilyCapability.thy ===== *)
theory FamilyCapability
  imports TopologyTypes
begin

text \<open>
  The family capabilities of \<open>crates/skippy-topology/src/family_capability.rs\<close>: one record per
  reviewed model family, and the inference of a family from the name of a model. A \<open>String\<close> is
  the list of its UTF-8 bytes, each one \<open>char\<close>; the functions here treat bytes above 127 as the
  source does, since \<open>to_ascii_lowercase\<close>, \<open>replace\<close> of ASCII characters, \<open>contains\<close> and the digit
  tests only look at ASCII bytes. The registry of reviewed records, a JSON file embedded at build
  time and parsed by \<open>serde_json\<close>, is the parameter \<open>registry\<close>.
\<close>

section \<open>Strings\<close>

abbreviation str_contains :: "string \<Rightarrow> string \<Rightarrow> bool" where
  "str_contains s pat \<equiv> sublist pat s"

abbreviation starts_with :: "string \<Rightarrow> string \<Rightarrow> bool" where
  "starts_with s pat \<equiv> prefix pat s"

definition ascii_lower :: "char \<Rightarrow> char" where
  "ascii_lower c = (if 65 \<le> (of_char c :: nat) \<and> (of_char c :: nat) \<le> 90
     then char_of ((of_char c :: nat) + 32) else c)"

abbreviation to_ascii_lowercase :: "string \<Rightarrow> string" where
  "to_ascii_lowercase s \<equiv> map ascii_lower s"

definition is_ascii_digit :: "char \<Rightarrow> bool" where
  "is_ascii_digit c \<longleftrightarrow> 48 \<le> (of_char c :: nat) \<and> (of_char c :: nat) \<le> 57"

text \<open>\<open>replace([..], "")\<close> removes every character of the given set.\<close>

abbreviation strip_chars :: "char list \<Rightarrow> string \<Rightarrow> string" where
  "strip_chars cs s \<equiv> filter (\<lambda>c. c \<notin> set cs) s"

section \<open>Capability records\<close>

definition whole_range :: "nat \<Rightarrow> layer_range" where
  "whole_range n = \<lparr>lr_start = 0, lr_end = n\<rparr>"

definition dense_family_capability ::
  "string \<Rightarrow> nat \<Rightarrow> nat \<Rightarrow> exact_state_mobility \<Rightarrow> family_capability_record" where
  "dense_family_capability family_id n w mobility =
    \<lparr>fam_family_id = family_id, fam_layer_count = n, fam_activation_width = w,
     fam_exact_state_mobility = mobility, fam_recurrent_ranges = [],
     fam_split_constraints = [], fam_sidebands = []\<rparr>"

definition qwen3_dense_capability :: "nat \<Rightarrow> nat \<Rightarrow> family_capability_record" where
  "qwen3_dense_capability n w = dense_family_capability ''qwen3_dense'' n w MobilityAccepted"

definition qwen2moe_capability :: "nat \<Rightarrow> nat \<Rightarrow> family_capability_record" where
  "qwen2moe_capability n w = dense_family_capability ''qwen2moe'' n w MobilityAccepted"

definition qwen3moe_capability :: "nat \<Rightarrow> nat \<Rightarrow> family_capability_record" where
  "qwen3moe_capability n w = dense_family_capability ''qwen3moe'' n w MobilityAccepted"

definition laguna_capability :: "nat \<Rightarrow> nat \<Rightarrow> family_capability_record" where
  "laguna_capability n w = dense_family_capability ''laguna'' n w MobilityUntested"

definition llama_capability :: "nat \<Rightarrow> nat \<Rightarrow> family_capability_record" where
  "llama_capability n w = dense_family_capability ''llama'' n w MobilityUntested"

definition deepseek2_capability :: "nat \<Rightarrow> nat \<Rightarrow> family_capability_record" where
  "deepseek2_capability n w = dense_family_capability ''deepseek2'' n w MobilityUntested"

definition deepseek2ocr_capability :: "nat \<Rightarrow> nat \<Rightarrow> family_capability_record" where
  "deepseek2ocr_capability n w = dense_family_capability ''deepseek2ocr'' n w MobilityAccepted"

definition deepseek3_capability :: "nat \<Rightarrow> nat \<Rightarrow> family_capability_record" where
  "deepseek3_capability n w = dense_family_capability ''deepseek3'' n w MobilityUntested"

definition glm47_flash_capability :: "nat \<Rightarrow> nat \<Rightarrow> family_capability_record" where
  "glm47_flash_capability n w = dense_family_capability ''glm47_flash'' n w MobilityUntested"

definition glm4_capability :: "nat \<Rightarrow> nat \<Rightarrow> family_capability_record" where
  "glm4_capability n w = dense_family_capability ''glm4'' n w MobilityAccepted"

definition gemma2_capability :: "nat \<Rightarrow> nat \<Rightarrow> family_capability_record" where
  "gemma2_capability n w = dense_family_capability ''gemma2'' n w MobilityAccepted"

definition gemma3_capability :: "nat \<Rightarrow> nat \<Rightarrow> family_capability_record" where
  "gemma3_capability n w = dense_family_capability ''gemma3'' n w MobilityAccepted"

definition gemma4_a4b_capability :: "nat \<Rightarrow> nat \<Rightarrow> family_capability_record" where
  "gemma4_a4b_capability n w = dense_family_capability ''gemma4_a4b'' n w MobilityUntested"

definition olmo_capability :: "nat \<Rightarrow> nat \<Rightarrow> family_capability_record" where
  "olmo_capability n w = dense_family_capability ''olmo'' n w MobilityUntested"

definition minimax_m27_capability :: "nat \<Rightarrow> nat \<Rightarrow> family_capability_record" where
  "minimax_m27_capability n w = dense_family_capability ''minimax_m27'' n w MobilityAccepted"

text \<open>Shared-KV families: the consumers must stay with the layers that produce their cache.\<close>

definition gemma3n_capability :: "nat \<Rightarrow> nat \<Rightarrow> family_capability_record" where
  "gemma3n_capability n w =
    \<lparr>fam_family_id = ''gemma3n'', fam_layer_count = n, fam_activation_width = w,
     fam_exact_state_mobility = MobilityAccepted, fam_recurrent_ranges = [],
     fam_split_constraints = [\<lparr>spc_kind = SharedKvProducerConsumer,
       spc_range = \<lparr>lr_start = min n 20 - 2, lr_end = n\<rparr>,
       spc_forbidden_boundaries = [], spc_reject_boundary_inside = True,
       spc_reason = ''Gemma3n layers 20+ reuse KV produced by layers 18/19; keep the final slice start at or before layer 18 unless KV replay or transfer is added''\<rparr>],
     fam_sidebands = [\<lparr>sb_kind = Gemma3nAltup, sb_first_required_layer = n,
       sb_reason = ''Gemma3n downstream slices require the full AltUp activation sideband in addition to the boundary hidden state''\<rparr>]\<rparr>"

definition gemma4_e4b_capability :: "nat \<Rightarrow> nat \<Rightarrow> family_capability_record" where
  "gemma4_e4b_capability n w =
    \<lparr>fam_family_id = ''gemma4_e4b'', fam_layer_count = n, fam_activation_width = w,
     fam_exact_state_mobility = MobilityUntested, fam_recurrent_ranges = [],
     fam_split_constraints = [\<lparr>spc_kind = SharedKvProducerConsumer,
       spc_range = \<lparr>lr_start = n div 2, lr_end = n\<rparr>,
       spc_forbidden_boundaries = [12, 14], spc_reject_boundary_inside = True,
       spc_reason = ''Gemma4 E4B has reviewed unsafe cuts and upper layers reuse KV produced at the start of the upper stack; keep the final slice start on an accepted boundary at or before that producer pair unless KV replay or transfer is added''\<rparr>],
     fam_sidebands = [\<lparr>sb_kind = TokenIds, sb_first_required_layer = n,
       sb_reason = ''Gemma4 E4B downstream slices require token-id sideband to rebuild the auxiliary per-layer input path''\<rparr>]\<rparr>"

text \<open>Hybrid and recurrent families: the whole trunk, or the listed ranges, own recurrent state.\<close>

definition falcon_h1_capability :: "nat \<Rightarrow> nat \<Rightarrow> family_capability_record" where
  "falcon_h1_capability n w =
    \<lparr>fam_family_id = ''falcon_h1'', fam_layer_count = n, fam_activation_width = w,
     fam_exact_state_mobility = MobilityRejectedTooLarge, fam_recurrent_ranges = [whole_range n],
     fam_split_constraints = [],
     fam_sidebands = []\<rparr>"

definition qwen35_series_capability :: "string \<Rightarrow> nat \<Rightarrow> nat \<Rightarrow> family_capability_record" where
  "qwen35_series_capability family_id n w =
    \<lparr>fam_family_id = family_id, fam_layer_count = n, fam_activation_width = w,
     fam_exact_state_mobility = MobilityRejectedTooLarge, fam_recurrent_ranges = [whole_range n],
     fam_split_constraints = [],
     fam_sidebands = []\<rparr>"

definition inkling_capability :: "nat \<Rightarrow> nat \<Rightarrow> family_capability_record" where
  "inkling_capability n w =
    \<lparr>fam_family_id = ''inkling'', fam_layer_count = n, fam_activation_width = w,
     fam_exact_state_mobility = MobilityRejectedTooLarge, fam_recurrent_ranges = [whole_range n],
     fam_split_constraints = [],
     fam_sidebands = []\<rparr>"

definition qwen3next_capability :: "nat \<Rightarrow> nat \<Rightarrow> layer_range list \<Rightarrow> family_capability_record" where
  "qwen3next_capability n w ranges =
    \<lparr>fam_family_id = ''qwen3next'', fam_layer_count = n, fam_activation_width = w,
     fam_exact_state_mobility = MobilityRejectedTooLarge, fam_recurrent_ranges = ranges,
     fam_split_constraints = [],
     fam_sidebands = []\<rparr>"

definition qwen4exp_capability :: "nat \<Rightarrow> nat \<Rightarrow> family_capability_record" where
  "qwen4exp_capability n w =
    \<lparr>fam_family_id = ''qwen4exp'', fam_layer_count = n, fam_activation_width = w,
     fam_exact_state_mobility = MobilityRejectedTooLarge, fam_recurrent_ranges = [whole_range n],
     fam_split_constraints = [],
     fam_sidebands = [\<lparr>sb_kind = TokenIds, sb_first_required_layer = 1,
       sb_reason = ''Qwen4Exp downstream PLE layers require original token ids to compute n-gram rows and preserve token history in attention cache cells''\<rparr>]\<rparr>"

text \<open>
  The loop of \<open>kimi_linear_capability\<close>. The guard \<open>start < U32_MAX\<close> is implied by the code's for
  the \<open>u32\<close> layer count it has; it makes the function total on \<open>nat\<close>.
\<close>

function kimi_ranges :: "nat \<Rightarrow> nat \<Rightarrow> layer_range list" where
  "kimi_ranges n start =
    (if start < n \<and> start < U32_MAX then
       (let stop = min (sat_add32 start 3) (n - 1) in
        (if start < stop then [\<lparr>lr_start = start, lr_end = stop\<rparr>] else [])
        @ kimi_ranges n (sat_add32 start 4))
     else [])"
  by pat_completeness auto
termination kimi_ranges
  by (relation "measure (\<lambda>(n, start). U32_MAX - start)") (auto simp: sat_add32_def)

declare kimi_ranges.simps [simp del]

definition kimi_linear_capability :: "nat \<Rightarrow> nat \<Rightarrow> family_capability_record" where
  "kimi_linear_capability n w =
    \<lparr>fam_family_id = ''kimi_linear'', fam_layer_count = n, fam_activation_width = w,
     fam_exact_state_mobility = MobilityRejectedTooLarge, fam_recurrent_ranges = kimi_ranges n 0,
     fam_split_constraints = [],
     fam_sidebands = []\<rparr>"

definition recurrent_family_capability :: "string \<Rightarrow> nat \<Rightarrow> nat \<Rightarrow> family_capability_record" where
  "recurrent_family_capability family_id n w =
    \<lparr>fam_family_id = family_id, fam_layer_count = n, fam_activation_width = w,
     fam_exact_state_mobility = MobilityAccepted, fam_recurrent_ranges = [whole_range n],
     fam_split_constraints = [],
     fam_sidebands = []\<rparr>"

definition rwkv6_capability :: "nat \<Rightarrow> nat \<Rightarrow> family_capability_record" where
  "rwkv6_capability n w =
    \<lparr>fam_family_id = ''rwkv6'', fam_layer_count = n, fam_activation_width = w,
     fam_exact_state_mobility = MobilityRejectedTooLarge, fam_recurrent_ranges = [whole_range n],
     fam_split_constraints = [],
     fam_sidebands = []\<rparr>"

definition rwkv7_capability :: "nat \<Rightarrow> nat \<Rightarrow> family_capability_record" where
  "rwkv7_capability n w =
    \<lparr>fam_family_id = ''rwkv7'', fam_layer_count = n, fam_activation_width = w,
     fam_exact_state_mobility = MobilityRejectedTooLarge, fam_recurrent_ranges = [whole_range n],
     fam_split_constraints = [],
     fam_sidebands = [\<lparr>sb_kind = Rwkv7VFirst, sb_first_required_layer = n,
       sb_reason = ''RWKV7 downstream slices require the layer-0 v_first activation sideband in addition to the boundary hidden state''\<rparr>]\<rparr>"

section \<open>Layer specifications\<close>

definition dense_attention_layers :: "nat \<Rightarrow> nat \<Rightarrow> layer_spec list" where
  "dense_attention_layers count' bytes = map (\<lambda>index.
     \<lparr>ly_index = index, ly_attention = True, ly_recurrent = False, ly_parameter_bytes = bytes\<rparr>)
     [0..<count']"

definition falcon_h1_layers :: "nat \<Rightarrow> nat \<Rightarrow> layer_spec list" where
  "falcon_h1_layers count' bytes = map (\<lambda>index.
     \<lparr>ly_index = index, ly_attention = True, ly_recurrent = True, ly_parameter_bytes = bytes\<rparr>)
     [0..<count']"

definition qwen3next_layers :: "nat \<Rightarrow> nat list \<Rightarrow> nat \<Rightarrow> layer_spec list" where
  "qwen3next_layers count' recurrent_layers bytes = map (\<lambda>index.
     (let recurrent = index \<in> set recurrent_layers in
      \<lparr>ly_index = index, ly_attention = \<not> recurrent, ly_recurrent = recurrent,
       ly_parameter_bytes = bytes\<rparr>))
     [0..<count']"

section \<open>The registry of reviewed records\<close>

record reviewed_capability_record =
  rv_model_id :: "string option"
  rv_source_repo :: "string option"
  rv_source_revision :: "string option"
  rv_source_file :: "string option"
  rv_canonical_ref :: "string option"
  rv_distribution_id :: "string option"
  rv_selector :: "string option"
  rv_capability :: family_capability_record

definition mentions :: "string \<Rightarrow> string \<Rightarrow> bool" where
  "mentions identity v \<longleftrightarrow> str_contains identity (to_ascii_lowercase v)"

definition reviewed_record_matches :: "reviewed_capability_record \<Rightarrow> string \<Rightarrow> bool" where
  "reviewed_record_matches r identity \<longleftrightarrow>
    (\<exists>v \<in> set (List.map_filter id
        [rv_model_id r, rv_canonical_ref r,
         (case rv_distribution_id r of Some v \<Rightarrow> if 12 \<le> length v then Some v else None
          | None \<Rightarrow> None)]).
       v \<noteq> [] \<and> mentions identity v)
    \<or> (case (rv_source_repo r, rv_source_revision r, rv_source_file r) of
         (Some repo, Some revision, Some file) \<Rightarrow>
           mentions identity repo \<and> mentions identity revision \<and> mentions identity file
       | (Some repo, None, Some file) \<Rightarrow> mentions identity repo \<and> mentions identity file
       | _ \<Rightarrow> False)"

definition capability_for_request ::
  "family_capability_record \<Rightarrow> nat \<Rightarrow> nat \<Rightarrow> family_capability_record" where
  "capability_for_request c n w =
    (let stored = fam_layer_count c in
     c\<lparr>fam_layer_count := n,
       fam_activation_width :=
         (if fam_activation_width c = 0 \<and> w \<noteq> 0 then w else fam_activation_width c),
       fam_recurrent_ranges := map (\<lambda>r.
         if lr_start r = 0 \<and> lr_end r = stored then r\<lparr>lr_end := n\<rparr> else r)
         (fam_recurrent_ranges c),
       fam_sidebands := map (\<lambda>s.
         if sb_first_required_layer s = stored then s\<lparr>sb_first_required_layer := n\<rparr> else s)
         (fam_sidebands c)\<rparr>)"

definition reviewed_capability_for_identity ::
  "reviewed_capability_record list \<Rightarrow> string \<Rightarrow> nat \<Rightarrow> nat \<Rightarrow> family_capability_record option" where
  "reviewed_capability_for_identity registry model_identity n w =
    map_option (\<lambda>r. capability_for_request (rv_capability r) n w)
      (find (\<lambda>r. reviewed_record_matches r (to_ascii_lowercase model_identity)) registry)"

section \<open>Qwen3 releases\<close>

datatype qwen3_release_kind = PointRelease char | UnreviewedDotted

text \<open>What follows one occurrence of the marker \<open>qwen3\<close>.\<close>

definition release_after_marker :: "string \<Rightarrow> qwen3_release_kind option" where
  "release_after_marker rest =
    (if starts_with rest ''.'' then
       (let dotted = tl rest in
        if length (takeWhile is_ascii_digit dotted) \<noteq> 1 then Some UnreviewedDotted
        else Some (PointRelease (hd dotted)))
     else
       (let digits = length (takeWhile is_ascii_digit rest) in
        if digits \<noteq> 1 \<or> starts_with (drop digits rest) ''b'' \<or> starts_with (drop digits rest) ''.''
        then None
        else Some (PointRelease (hd rest))))"

text \<open>\<open>match_indices("qwen3").find_map(..)\<close>: the matches are found left to right, each after the end of the last.\<close>

function qwen3_release :: "string \<Rightarrow> qwen3_release_kind option" where
  "qwen3_release s =
    (if starts_with s ''qwen3'' then
       (case release_after_marker (drop 5 s) of
          Some r \<Rightarrow> Some r
        | None \<Rightarrow> qwen3_release (drop 5 s))
     else (case s of [] \<Rightarrow> None | _ # rest \<Rightarrow> qwen3_release rest))"
  by pat_completeness auto
termination qwen3_release
  by (relation "measure length") (auto simp: prefix_def)

declare qwen3_release.simps [simp del]

definition QWEN35_SERIES_POINT_RELEASES :: "char list" where
  "QWEN35_SERIES_POINT_RELEASES = ''568''"

definition is_qwen35_series :: "string \<Rightarrow> bool" where
  "is_qwen35_series release_form = (case qwen3_release release_form of
      Some (PointRelease release) \<Rightarrow> release \<in> set QWEN35_SERIES_POINT_RELEASES
    | _ \<Rightarrow> False)"

definition unknown_qwen3_point_release :: "string \<Rightarrow> bool" where
  "unknown_qwen3_point_release release_form = (case qwen3_release release_form of
      Some (PointRelease release) \<Rightarrow> release \<notin> set QWEN35_SERIES_POINT_RELEASES
    | Some UnreviewedDotted \<Rightarrow> True
    | None \<Rightarrow> False)"

text \<open>What has to follow an \<open>a\<close>: digits, perhaps a dot and more digits, at least one digit in all, then \<open>b\<close>.\<close>

definition active_suffix :: "string \<Rightarrow> bool" where
  "active_suffix s =
    (let rest = dropWhile is_ascii_digit s;
         saw_digit = takeWhile is_ascii_digit s \<noteq> [];
         dotted = starts_with rest ''.'';
         saw_digit' = (saw_digit \<or> dotted \<and> takeWhile is_ascii_digit (tl rest) \<noteq> []);
         rest' = (if dotted then dropWhile is_ascii_digit (tl rest) else rest)
     in saw_digit' \<and> starts_with rest' ''b'')"

fun active_scan :: "string \<Rightarrow> bool" where
  "active_scan [] = False"
| "active_scan (c # rest) = (c = CHR ''a'' \<and> active_suffix rest \<or> active_scan rest)"

definition is_qwen3_active_parameter_moe :: "string \<Rightarrow> bool" where
  "is_qwen3_active_parameter_moe compact \<longleftrightarrow> str_contains compact ''qwen3'' \<and> active_scan compact"

definition qwen35_series_family_id :: "string \<Rightarrow> string \<Rightarrow> string option" where
  "qwen35_series_family_id release_form compact =
    (if \<not> is_qwen35_series release_form then None
     else if str_contains compact ''moe'' \<or> is_qwen3_active_parameter_moe compact
     then Some ''qwen35moe''
     else Some ''qwen35'')"

section \<open>The inference of a family from a name\<close>

definition or_else :: "'a option \<Rightarrow> 'a option \<Rightarrow> 'a option" where
  "or_else a b = (case a of Some x \<Rightarrow> Some x | None \<Rightarrow> b)"

definition infer_granite_gemma_capability ::
  "string \<Rightarrow> nat \<Rightarrow> nat \<Rightarrow> family_capability_record option" where
  "infer_granite_gemma_capability compact n w = (
     if str_contains compact ''granitehybrid'' then
       Some (recurrent_family_capability ''granite_hybrid'' n w)
     else if str_contains compact ''granitemoe'' then
       Some (dense_family_capability ''granite_moe'' n w MobilityAccepted)
     else if str_contains compact ''granite'' then
       Some (dense_family_capability ''granite'' n w MobilityAccepted)
     else if str_contains compact ''gemma4'' \<and> str_contains compact ''e4b'' then
       Some (gemma4_e4b_capability n w)
     else if str_contains compact ''gemma4'' \<and> str_contains compact ''a4b'' then
       Some (gemma4_a4b_capability n w)
     else if str_contains compact ''gemma4'' then
       Some (dense_family_capability ''gemma4'' n w MobilityUntested)
     else if str_contains compact ''gemma3n'' then
       Some (gemma3n_capability n w)
     else if str_contains compact ''gemma3'' then
       Some (gemma3_capability n w)
     else if str_contains compact ''gemma2'' then
       Some (gemma2_capability n w)
     else if compact = ''gemma''
       \<or> str_contains compact ''gemmait'' then
       Some (dense_family_capability ''gemma'' n w MobilityAccepted)
     else None)"

definition infer_falcon_minimax_glm_deepseek_capability ::
  "string \<Rightarrow> nat \<Rightarrow> nat \<Rightarrow> family_capability_record option" where
  "infer_falcon_minimax_glm_deepseek_capability compact n w = (
     if str_contains compact ''falconh1'' then
       Some (falcon_h1_capability n w)
     else if str_contains compact ''minimaxm27''
       \<or> str_contains compact ''minimaxm2.7''
       \<or> str_contains compact ''minimaxm2'' then
       Some (minimax_m27_capability n w)
     else if str_contains compact ''glm47flash''
       \<or> str_contains compact ''glm4.7flash'' then
       Some (glm47_flash_capability n w)
     else if str_contains compact ''glm4moe'' then
       Some (dense_family_capability ''glm4_moe'' n w MobilityAccepted)
     else if str_contains compact ''glm4'' then
       Some (glm4_capability n w)
     else if str_contains compact ''deepseek2ocr''
       \<or> str_contains compact ''deepseekocr'' then
       Some (deepseek2ocr_capability n w)
     else if str_contains compact ''deepseekcoderv2''
       \<or> str_contains compact ''deepseekv2''
       \<or> str_contains compact ''deepseek2'' then
       Some (deepseek2_capability n w)
     else if str_contains compact ''deepseekv3''
       \<or> str_contains compact ''deepseek3'' then
       Some (deepseek3_capability n w)
     else None)"

definition infer_mistral_olmo_llama_capability ::
  "string \<Rightarrow> nat \<Rightarrow> nat \<Rightarrow> family_capability_record option" where
  "infer_mistral_olmo_llama_capability compact n w = (
     if str_contains compact ''mistral4'' then
       Some (dense_family_capability ''mistral4'' n w MobilityUntested)
     else if str_contains compact ''mistral3''
       \<or> str_contains compact ''ministral3'' then
       Some (dense_family_capability ''mistral'' n w MobilityAccepted)
     else if str_contains compact ''olmoe'' then
       Some (dense_family_capability ''olmoe'' n w MobilityAccepted)
     else if str_contains compact ''olmo2'' then
       Some (dense_family_capability ''olmo2'' n w MobilityAccepted)
     else if str_contains compact ''olmo'' then
       Some (olmo_capability n w)
     else if str_contains compact ''laguna'' then
       Some (laguna_capability n w)
     else if str_contains compact ''llama4'' then
       Some (dense_family_capability ''llama4'' n w MobilityUntested)
     else if str_contains compact ''llama'' then
       Some (llama_capability n w)
     else None)"

definition infer_qwen_next_capability ::
  "string \<Rightarrow> nat \<Rightarrow> nat \<Rightarrow> family_capability_record option" where
  "infer_qwen_next_capability compact n w = (
     if str_contains compact ''qwen3next''
       \<or> str_contains compact ''qwen3codernext'' then
       Some (qwen3next_capability n w [whole_range n])
     else None)"

definition infer_recurrent_capability ::
  "string \<Rightarrow> nat \<Rightarrow> nat \<Rightarrow> family_capability_record option" where
  "infer_recurrent_capability compact n w = (
     if str_contains compact ''inkling'' then
       Some (inkling_capability n w)
     else if str_contains compact ''kimilinear'' then
       Some (kimi_linear_capability n w)
     else if str_contains compact ''jamba'' then
       Some (recurrent_family_capability ''jamba'' n w)
     else if str_contains compact ''lfm2moe'' then
       Some (recurrent_family_capability ''lfm2moe'' n w)
     else if str_contains compact ''lfm2'' then
       Some (recurrent_family_capability ''lfm2'' n w)
     else if str_contains compact ''mamba2'' then
       Some (recurrent_family_capability ''mamba2'' n w)
     else if str_contains compact ''mamba'' then
       Some (recurrent_family_capability ''mamba'' n w)
     else if str_contains compact ''rwkv6qwen2'' then
       Some (recurrent_family_capability ''rwkv6qwen2'' n w)
     else if str_contains compact ''rwkv6'' then
       Some (rwkv6_capability n w)
     else if str_contains compact ''rwkv7'' then
       Some (rwkv7_capability n w)
     else None)"

definition infer_qwen_capability ::
  "string \<Rightarrow> string \<Rightarrow> nat \<Rightarrow> nat \<Rightarrow> family_capability_record option" where
  "infer_qwen_capability release_form compact n w = (
     if str_contains compact ''qwen4exp''
       \<or> str_contains compact ''qwen3.8flashnext''
       \<or> str_contains compact ''qwen38flashnext'' then
       Some (qwen4exp_capability n w)
     else if str_contains compact ''qwen2moe'' then
       Some (qwen2moe_capability n w)
     else case qwen35_series_family_id release_form compact of
       Some family_id \<Rightarrow> Some (qwen35_series_capability family_id n w)
     | None \<Rightarrow> (if str_contains compact ''qwen3moe''
       \<or> is_qwen3_active_parameter_moe compact then
       Some (qwen3moe_capability n w)
     else if str_contains compact ''qwen2vl'' then
       Some (dense_family_capability ''qwen2vl'' n w MobilityUntested)
     else if str_contains compact ''qwen3vlmoe'' then
       Some (dense_family_capability ''qwen3vlmoe'' n w MobilityAccepted)
     else if str_contains compact ''qwen3vl'' then
       Some (dense_family_capability ''qwen3vl'' n w MobilityUntested)
     else if str_contains compact ''qwen3'' then
       Some (qwen3_dense_capability n w)
     else if str_contains compact ''qwen2'' then
       Some (dense_family_capability ''qwen2'' n w MobilityAccepted)
     else None))"

definition infer_hunyuan_phi_gpt_capability ::
  "string \<Rightarrow> nat \<Rightarrow> nat \<Rightarrow> family_capability_record option" where
  "infer_hunyuan_phi_gpt_capability compact n w = (
     if str_contains compact ''hunyuanmoe'' then
       Some (dense_family_capability ''hunyuan_moe'' n w MobilityAccepted)
     else if str_contains compact ''hunyuanvl'' then
       Some (dense_family_capability ''hunyuan_vl'' n w MobilityUntested)
     else if str_contains compact ''hunyuandense'' then
       Some (dense_family_capability ''hunyuan_dense'' n w MobilityAccepted)
     else if str_contains compact ''phimoe'' then
       Some (dense_family_capability ''phimoe'' n w MobilityAccepted)
     else if str_contains compact ''phi2'' then
       Some (dense_family_capability ''phi2'' n w MobilityRejectedTooLarge)
     else if str_contains compact ''phi3''
       \<or> compact = ''phi''
       \<or> str_contains compact ''phimini'' then
       Some (dense_family_capability ''phi'' n w MobilityAccepted)
     else if str_contains compact ''gptneox'' then
       Some (dense_family_capability ''gptneox'' n w MobilityAccepted)
     else if str_contains compact ''gpt2'' then
       Some (dense_family_capability ''gpt2'' n w MobilityAccepted)
     else None)"

definition infer_mid_remaining_capability ::
  "string \<Rightarrow> nat \<Rightarrow> nat \<Rightarrow> family_capability_record option" where
  "infer_mid_remaining_capability compact n w = (
     if str_contains compact ''museglimmer'' then
       Some (dense_family_capability ''muse_glimmer'' n w MobilityUntested)
     else if str_contains compact ''mpt'' then
       Some (dense_family_capability ''mpt'' n w MobilityAccepted)
     else if str_contains compact ''bloom'' then
       Some (dense_family_capability ''bloom'' n w MobilityAccepted)
     else if str_contains compact ''baichuan'' then
       Some (dense_family_capability ''baichuan'' n w MobilityAccepted)
     else if str_contains compact ''commandr'' then
       Some (dense_family_capability ''command_r'' n w MobilityAccepted)
     else if str_contains compact ''cohere2'' then
       Some (dense_family_capability ''cohere2'' n w MobilityAccepted)
     else if str_contains compact ''falcon'' then
       Some (dense_family_capability ''falcon'' n w MobilityAccepted)
     else if str_contains compact ''internlm2'' then
       Some (dense_family_capability ''internlm2'' n w MobilityAccepted)
     else None)"

definition infer_exaone_stable_starcoder_capability ::
  "string \<Rightarrow> nat \<Rightarrow> nat \<Rightarrow> family_capability_record option" where
  "infer_exaone_stable_starcoder_capability compact n w = (
     if str_contains compact ''exaonemoe'' then
       Some (dense_family_capability ''exaone_moe'' n w MobilityRejectedTooLarge)
     else if str_contains compact ''exaone4'' then
       Some (dense_family_capability ''exaone4'' n w MobilityAccepted)
     else if str_contains compact ''exaone'' then
       Some (dense_family_capability ''exaone'' n w MobilityAccepted)
     else if str_contains compact ''stablelm'' then
       Some (dense_family_capability ''stablelm'' n w MobilityAccepted)
     else if str_contains compact ''starcoder2'' then
       Some (dense_family_capability ''starcoder2'' n w MobilityAccepted)
     else None)"

definition infer_remaining_family_capability ::
  "string \<Rightarrow> nat \<Rightarrow> nat \<Rightarrow> family_capability_record option" where
  "infer_remaining_family_capability compact n w =
    or_else (infer_hunyuan_phi_gpt_capability compact n w)
    (or_else (infer_mid_remaining_capability compact n w)
      (infer_exaone_stable_starcoder_capability compact n w))"

definition compact_form :: "string \<Rightarrow> string" where
  "compact_form identity = strip_chars ''_-/ '' (to_ascii_lowercase identity)"

definition release_form_of :: "string \<Rightarrow> string" where
  "release_form_of identity = strip_chars ''_/ '' (to_ascii_lowercase identity)"

definition infer_family_capability ::
  "reviewed_capability_record list \<Rightarrow> string \<Rightarrow> nat \<Rightarrow> nat \<Rightarrow> family_capability_record option" where
  "infer_family_capability registry model_identity n w =
    (case reviewed_capability_for_identity registry model_identity n w of
       Some capability \<Rightarrow> Some capability
     | None \<Rightarrow>
       (let compact = compact_form model_identity;
            release_form = release_form_of model_identity
        in if unknown_qwen3_point_release release_form then None
           else
             or_else (infer_granite_gemma_capability compact n w)
            (or_else (infer_falcon_minimax_glm_deepseek_capability compact n w)
            (or_else (infer_mistral_olmo_llama_capability compact n w)
            (or_else (infer_qwen_next_capability compact n w)
            (or_else (infer_recurrent_capability compact n w)
            (or_else (infer_qwen_capability release_form compact n w)
              (infer_remaining_family_capability compact n w))))))))"

end
