(* ===== verification/FamilyProperties.thy ===== *)
theory FamilyProperties
  imports FamilyCapability PlanningProperties
begin

text \<open>
  What the family capabilities promise the planner: a capability is always given for the layers
  that were asked for, releases of Qwen3 that nobody reviewed are not guessed, the name patterns
  are the languages their comments describe, and the layer rules of the special families are the
  intended sets of layers and boundaries.
\<close>

section \<open>Shape of the constructed records\<close>

named_theorems family_defs "the constructors of family capabilities"

declare dense_family_capability_def [family_defs] whole_range_def [family_defs]
  qwen3_dense_capability_def [family_defs] qwen2moe_capability_def [family_defs]
  qwen3moe_capability_def [family_defs] laguna_capability_def [family_defs]
  llama_capability_def [family_defs] deepseek2_capability_def [family_defs]
  deepseek2ocr_capability_def [family_defs] deepseek3_capability_def [family_defs]
  glm47_flash_capability_def [family_defs] glm4_capability_def [family_defs]
  gemma2_capability_def [family_defs] gemma3_capability_def [family_defs]
  gemma4_a4b_capability_def [family_defs] olmo_capability_def [family_defs]
  minimax_m27_capability_def [family_defs] gemma3n_capability_def [family_defs]
  gemma4_e4b_capability_def [family_defs] falcon_h1_capability_def [family_defs]
  qwen35_series_capability_def [family_defs] inkling_capability_def [family_defs]
  qwen3next_capability_def [family_defs] qwen4exp_capability_def [family_defs]
  kimi_linear_capability_def [family_defs] recurrent_family_capability_def [family_defs]
  rwkv6_capability_def [family_defs] rwkv7_capability_def [family_defs]

definition well_sized :: "nat \<Rightarrow> nat \<Rightarrow> family_capability_record \<Rightarrow> bool" where
  "well_sized n w c \<longleftrightarrow> fam_layer_count c = n \<and> fam_activation_width c = w
     \<and> list_all (\<lambda>r. lr_end r \<le> n) (fam_recurrent_ranges c)
     \<and> list_all (\<lambda>s. lr_end (spc_range s) = n) (fam_split_constraints c)"

lemma kimi_ranges_bound: "list_all (\<lambda>r. lr_end r \<le> n) (kimi_ranges n start)"
proof (induction n start rule: kimi_ranges.induct)
  case (1 n start)
  then show ?case by (subst kimi_ranges.simps) (auto simp: Let_def)
qed

lemma well_sized_constructors [intro]:
  "well_sized n w (dense_family_capability f n w m)" "well_sized n w (qwen3_dense_capability n w)"
  "well_sized n w (qwen2moe_capability n w)" "well_sized n w (qwen3moe_capability n w)"
  "well_sized n w (laguna_capability n w)" "well_sized n w (llama_capability n w)"
  "well_sized n w (deepseek2_capability n w)" "well_sized n w (deepseek2ocr_capability n w)"
  "well_sized n w (deepseek3_capability n w)" "well_sized n w (glm47_flash_capability n w)"
  "well_sized n w (glm4_capability n w)" "well_sized n w (gemma2_capability n w)"
  "well_sized n w (gemma3_capability n w)" "well_sized n w (gemma4_a4b_capability n w)"
  "well_sized n w (olmo_capability n w)" "well_sized n w (minimax_m27_capability n w)"
  "well_sized n w (gemma3n_capability n w)" "well_sized n w (gemma4_e4b_capability n w)"
  "well_sized n w (falcon_h1_capability n w)" "well_sized n w (qwen35_series_capability f n w)"
  "well_sized n w (inkling_capability n w)" "well_sized n w (qwen3next_capability n w [whole_range n])"
  "well_sized n w (qwen4exp_capability n w)" "well_sized n w (kimi_linear_capability n w)"
  "well_sized n w (recurrent_family_capability f n w)" "well_sized n w (rwkv6_capability n w)"
  "well_sized n w (rwkv7_capability n w)"
  by (simp_all add: well_sized_def family_defs kimi_ranges_bound)

definition gives_well_sized :: "nat \<Rightarrow> nat \<Rightarrow> family_capability_record option \<Rightarrow> bool" where
  "gives_well_sized n w r \<longleftrightarrow> (\<forall>c. r = Some c \<longrightarrow> well_sized n w c)"

lemma gives_well_sized_simps [simp]:
  "gives_well_sized n w None" "gives_well_sized n w (Some c) = well_sized n w c"
  by (simp_all add: gives_well_sized_def)

lemma gives_well_sized_or_else [intro]:
  "\<lbrakk>gives_well_sized n w a; gives_well_sized n w b\<rbrakk> \<Longrightarrow> gives_well_sized n w (or_else a b)"
  by (auto simp: gives_well_sized_def or_else_def split: option.splits)

lemma infer_steps_well_sized [intro]:
  "gives_well_sized n w (infer_granite_gemma_capability s n w)"
  "gives_well_sized n w (infer_falcon_minimax_glm_deepseek_capability s n w)"
  "gives_well_sized n w (infer_mistral_olmo_llama_capability s n w)"
  "gives_well_sized n w (infer_qwen_next_capability s n w)"
  "gives_well_sized n w (infer_recurrent_capability s n w)"
  "gives_well_sized n w (infer_qwen_capability t s n w)"
  "gives_well_sized n w (infer_hunyuan_phi_gpt_capability s n w)"
  "gives_well_sized n w (infer_mid_remaining_capability s n w)"
  "gives_well_sized n w (infer_exaone_stable_starcoder_capability s n w)"
  unfolding infer_granite_gemma_capability_def infer_falcon_minimax_glm_deepseek_capability_def
    infer_mistral_olmo_llama_capability_def infer_qwen_next_capability_def
    infer_recurrent_capability_def infer_qwen_capability_def infer_hunyuan_phi_gpt_capability_def
    infer_mid_remaining_capability_def infer_exaone_stable_starcoder_capability_def
  by (simp_all add: well_sized_constructors split: option.split)

lemma infer_remaining_well_sized [intro]:
  "gives_well_sized n w (infer_remaining_family_capability s n w)"
  unfolding infer_remaining_family_capability_def by blast

lemma infer_well_sized:
  assumes "reviewed_capability_for_identity registry identity n w = None"
  shows "gives_well_sized n w (infer_family_capability registry identity n w)"
  unfolding infer_family_capability_def assms
  by (auto simp: Let_def intro!: gives_well_sized_or_else)

section \<open>Rescaling a reviewed record\<close>

lemma rescaled_fields [simp]:
  "fam_layer_count (capability_for_request c n w) = n"
  "fam_split_constraints (capability_for_request c n w) = fam_split_constraints c"
  "fam_family_id (capability_for_request c n w) = fam_family_id c"
  by (simp_all add: capability_for_request_def Let_def)

lemma rescaled_whole_trunk:
  assumes "whole_range (fam_layer_count c) \<in> set (fam_recurrent_ranges c)" and "i < n"
  shows "list_ex (\<lambda>r. contains_layer r i) (fam_recurrent_ranges (capability_for_request c n w))"
proof -
  let ?f = "\<lambda>r. if lr_start r = 0 \<and> lr_end r = fam_layer_count c then r\<lparr>lr_end := n\<rparr> else r"
  have "?f (whole_range (fam_layer_count c)) \<in> set (fam_recurrent_ranges (capability_for_request c n w))"
    using assms(1) unfolding capability_for_request_def Let_def by (simp del: if_image_distrib)
  then show ?thesis using assms(2)
    by (auto simp: list_ex_iff contains_layer_def whole_range_def
        intro!: bexI [of _ "\<lparr>lr_start = 0, lr_end = n\<rparr>"])
qed

lemma inferred_layer_count:
  assumes "infer_family_capability registry identity n w = Some c"
  shows "fam_layer_count c = n"
proof (cases "reviewed_capability_for_identity registry identity n w")
  case None
  then show ?thesis
    using infer_well_sized [OF None] assms by (auto simp: gives_well_sized_def well_sized_def)
next
  case (Some c')
  then have "c' = c" using assms by (simp add: infer_family_capability_def)
  then show ?thesis using Some by (auto simp: reviewed_capability_for_identity_def)
qed

text \<open>
  Whatever capability the inference gives for a name, it is a capability for the layers that
  were asked for, so that attaching it to a request of that many layers never makes the request
  fail; and when no reviewed record answers, its recurrent ranges stay inside the model, its
  shared-KV regions reach to the end of it, and it has the width that was asked for.
\<close>
theorem inferred_capability_fits_request:
  fixes r :: topology_plan_request
  assumes "infer_family_capability registry identity n w = Some c"
  shows "(length (tr_layers r) = n \<and> n \<le> U32_MAX \<longrightarrow>
      validate_request (r\<lparr>tr_family := Some c\<rparr>) = validate_request (r\<lparr>tr_family := None\<rparr>))
    \<and> (reviewed_capability_for_identity registry identity n w = None \<longrightarrow> well_sized n w c)"
proof (intro conjI)
  show "length (tr_layers r) = n \<and> n \<le> U32_MAX \<longrightarrow>
      validate_request (r\<lparr>tr_family := Some c\<rparr>) = validate_request (r\<lparr>tr_family := None\<rparr>)"
    using inferred_layer_count [OF assms] by (auto simp: validate_request_def Let_def)
  show "reviewed_capability_for_identity registry identity n w = None \<longrightarrow> well_sized n w c"
    using infer_well_sized [of registry identity n w] assms by (auto simp: gives_well_sized_def)
qed

text \<open>
  A capability answered by the registry is one of its matching records, adjusted to the
  request: where the record made its whole trunk recurrent the whole requested trunk is, a
  sideband first required at the record's end is required at every boundary of the request, a
  reviewed width other than zero is kept, and the split constraints are taken over verbatim (their
  ranges are not rescaled to the requested number of layers).
\<close>
theorem reviewed_record_rescaled:
  assumes "reviewed_capability_for_identity registry identity n w = Some c"
  shows "\<exists>rec \<in> set registry. reviewed_record_matches rec (to_ascii_lowercase identity)
    \<and> (whole_range (fam_layer_count (rv_capability rec)) \<in> set (fam_recurrent_ranges (rv_capability rec))
      \<longrightarrow> (\<forall>i < n. list_ex (\<lambda>r. contains_layer r i) (fam_recurrent_ranges c)))
    \<and> (\<forall>s \<in> set (fam_sidebands (rv_capability rec)).
      sb_first_required_layer s = fam_layer_count (rv_capability rec) \<longrightarrow>
      s\<lparr>sb_first_required_layer := n\<rparr> \<in> set (fam_sidebands c))
    \<and> fam_activation_width c = (if fam_activation_width (rv_capability rec) = 0 then w
      else fam_activation_width (rv_capability rec))
    \<and> fam_split_constraints c = fam_split_constraints (rv_capability rec)"
proof -
  obtain rec where f: "find (\<lambda>r. reviewed_record_matches r (to_ascii_lowercase identity)) registry = Some rec"
      and c: "c = capability_for_request (rv_capability rec) n w"
    using assms by (auto simp: reviewed_capability_for_identity_def)
  have m: "rec \<in> set registry" "reviewed_record_matches rec (to_ascii_lowercase identity)"
    using f by (auto simp: find_Some_iff)
  have sides: "\<forall>s \<in> set (fam_sidebands (rv_capability rec)).
      sb_first_required_layer s = fam_layer_count (rv_capability rec) \<longrightarrow>
      s\<lparr>sb_first_required_layer := n\<rparr> \<in> set (fam_sidebands c)"
    by (force simp: c capability_for_request_def Let_def)
  have trunk: "whole_range (fam_layer_count (rv_capability rec)) \<in> set (fam_recurrent_ranges (rv_capability rec))
      \<longrightarrow> (\<forall>i < n. list_ex (\<lambda>r. contains_layer r i) (fam_recurrent_ranges c))"
    unfolding c using rescaled_whole_trunk by blast
  show ?thesis
    by (rule bexI [OF _ m(1)], intro conjI m(2) trunk sides) (simp_all add: c capability_for_request_def Let_def)
qed

section \<open>Release gating\<close>

lemma no_marker_before:
  assumes "\<not> sublist ''qwen3'' (x # pre @ ''qwen'')"
  shows "\<not> prefix ''qwen3'' (x # pre @ ''qwen3'' @ rest)"
proof
  assume "prefix ''qwen3'' (x # pre @ ''qwen3'' @ rest)"
  then obtain t where eq: "x # pre @ ''qwen3'' @ rest = ''qwen3'' @ t" by (auto simp: prefix_def)
  have "''qwen3'' = take 5 (x # pre @ ''qwen3'' @ rest)" by (simp only: eq) simp
  also have "\<dots> = take 5 ((x # pre @ ''qwen'') @ CHR ''3'' # rest)" by simp
  also have "\<dots> = take 5 (x # pre @ ''qwen'')" by (simp only: take_append) simp
  finally have "prefix ''qwen3'' (x # pre @ ''qwen'')" by (metis take_is_prefix)
  then show False using assms by (blast intro: prefix_imp_sublist)
qed

lemma qwen3_release_first:
  assumes "\<not> sublist ''qwen3'' (pre @ ''qwen'')"
  shows "qwen3_release (pre @ ''qwen3'' @ rest) =
    (case release_after_marker rest of Some r \<Rightarrow> Some r | None \<Rightarrow> qwen3_release rest)"
  using assms
proof (induction pre)
  case Nil
  then show ?case by (subst qwen3_release.simps) (simp split: option.split)
next
  case (Cons x pre)
  have "\<not> sublist ''qwen3'' (pre @ ''qwen'')" using Cons.prems by (auto simp: sublist_Cons_right)
  note IH = Cons.IH [OF this]
  have "\<not> prefix ''qwen3'' (x # pre @ ''qwen3'' @ rest)"
    using no_marker_before Cons.prems by simp
  then show ?case
    by (subst qwen3_release.simps) (simp only: append_Cons [of x pre] if_False list.case IH)
qed

lemma digits_span:
  assumes "\<forall>d \<in> set ds. is_ascii_digit d" and "rest = [] \<or> \<not> is_ascii_digit (hd rest)"
  shows "takeWhile is_ascii_digit (ds @ rest) = ds" and "dropWhile is_ascii_digit (ds @ rest) = rest"
  using assms by (cases rest; simp add: takeWhile_append2)+

lemma dotted_release:
  assumes "\<forall>d \<in> set ds. is_ascii_digit d" and "rest = [] \<or> \<not> is_ascii_digit (hd rest)"
  shows "release_after_marker (''.'' @ ds @ rest) =
    Some (if length ds = 1 then PointRelease (hd ds) else UnreviewedDotted)"
  using digits_span [OF assms] by (cases ds) (simp_all add: release_after_marker_def)

definition reviewed_point_releases :: "string list" where
  "reviewed_point_releases = map (\<lambda>c. [c]) QWEN35_SERIES_POINT_RELEASES"

lemma reviewed_point_releases_iff:
  "ds \<in> set reviewed_point_releases \<longleftrightarrow>
    length ds = 1 \<and> hd ds \<in> set QWEN35_SERIES_POINT_RELEASES"
  by (cases ds) (auto simp: reviewed_point_releases_def length_Suc_conv)

text \<open>
  A name whose first Qwen3 marker carries a dotted version is treated as the Qwen3.5 series
  exactly for the versions 5, 6 and 8; any other dotted version, of one digit or of several, for
  which no reviewed record matches gets no capability at all, whatever else the name contains.
\<close>
theorem unreviewed_release_not_inferred:
  assumes "release_form_of identity = pre @ ''qwen3.'' @ ds @ rest"
    and "\<not> sublist ''qwen3'' (pre @ ''qwen'')"
    and "\<forall>d \<in> set ds. is_ascii_digit d" and "rest = [] \<or> \<not> is_ascii_digit (hd rest)"
  shows "(is_qwen35_series (release_form_of identity) \<longleftrightarrow> ds \<in> {''5'', ''6'', ''8''})
    \<and> (ds \<notin> {''5'', ''6'', ''8''} \<longrightarrow>
      infer_family_capability registry identity n w =
      reviewed_capability_for_identity registry identity n w)"
proof -
  have rel: "qwen3_release (release_form_of identity) =
      Some (if length ds = 1 then PointRelease (hd ds) else UnreviewedDotted)"
    using qwen3_release_first [OF assms(2), of "''.'' @ ds @ rest"] dotted_release [OF assms(3,4)] assms(1)
    by simp
  have reviewed: "ds \<in> {''5'', ''6'', ''8''} \<longleftrightarrow> length ds = 1 \<and> hd ds \<in> set QWEN35_SERIES_POINT_RELEASES"
    by (cases ds) (auto simp: QWEN35_SERIES_POINT_RELEASES_def)
  have A: "is_qwen35_series (release_form_of identity) \<longleftrightarrow> ds \<in> {''5'', ''6'', ''8''}"
    unfolding reviewed by (simp add: is_qwen35_series_def rel)
  have B: "ds \<notin> {''5'', ''6'', ''8''} \<longrightarrow>
      infer_family_capability registry identity n w =
      reviewed_capability_for_identity registry identity n w"
    unfolding reviewed
    by (simp add: infer_family_capability_def unknown_qwen3_point_release_def rel split: option.split)
  show ?thesis using A B by blast
qed

section \<open>Active-parameter names\<close>

text \<open>The parameter counts of a mixture name, such as \<open>3\<close> or \<open>2.7\<close>.\<close>

definition parameter_count :: "string \<Rightarrow> bool" where
  "parameter_count num \<longleftrightarrow> (\<exists>ds es. (\<forall>d \<in> set (ds @ es). is_ascii_digit d) \<and> ds @ es \<noteq> []
     \<and> (num = ds @ es \<or> num = ds @ ''.'' @ es))"

lemma not_digits [simp]: "\<not> is_ascii_digit (CHR ''.'')" "\<not> is_ascii_digit (CHR ''b'')"
  by (simp_all add: is_ascii_digit_def)

lemma active_suffix_iff:
  "active_suffix s \<longleftrightarrow> (\<exists>num post. s = num @ ''b'' @ post \<and> parameter_count num)" (is "?l \<longleftrightarrow> ?r")
proof
  let ?ds = "takeWhile is_ascii_digit s" and ?t = "dropWhile is_ascii_digit s"
  let ?es = "takeWhile is_ascii_digit (tl ?t)"
  have dig: "\<forall>d \<in> set ?ds. is_ascii_digit d" "\<forall>d \<in> set ?es. is_ascii_digit d"
    using set_takeWhileD by fast+
  have s: "s = ?ds @ ?t" by simp
  assume a: ?l
  show ?r
  proof (cases "starts_with ?t ''.''")
    case True
    then have t: "?t = ''.'' @ ?es @ dropWhile is_ascii_digit (tl ?t)" by (cases ?t) auto
    from a True have "prefix ''b'' (dropWhile is_ascii_digit (tl ?t))" and ne: "?ds @ ?es \<noteq> []"
      by (auto simp: active_suffix_def Let_def)
    then obtain post where "dropWhile is_ascii_digit (tl ?t) = ''b'' @ post" by (auto simp: prefix_def)
    with s t have "s = (?ds @ ''.'' @ ?es) @ ''b'' @ post" by (metis append.assoc)
    moreover have "parameter_count (?ds @ ''.'' @ ?es)"
      unfolding parameter_count_def using dig ne by (intro exI [of _ ?ds] exI [of _ ?es]) auto
    ultimately show ?thesis by blast
  next
    case False
    from a False have "prefix ''b'' ?t" and ne: "?ds \<noteq> []" by (auto simp: active_suffix_def Let_def)
    then obtain post where "?t = ''b'' @ post" by (auto simp: prefix_def)
    with s have "s = ?ds @ ''b'' @ post" by metis
    moreover have "parameter_count ?ds"
      unfolding parameter_count_def using dig ne by (intro exI [of _ ?ds] exI [of _ "[]"]) auto
    ultimately show ?thesis by blast
  qed
next
  assume ?r
  then obtain num post where "s = num @ ''b'' @ post" "parameter_count num" by blast
  then obtain ds es where d: "\<forall>d \<in> set ds. is_ascii_digit d" "\<forall>d \<in> set es. is_ascii_digit d"
      and ne: "ds @ es \<noteq> []"
      and s: "s = (ds @ es) @ ''b'' @ post \<or> s = ds @ ''.'' @ es @ ''b'' @ post"
    unfolding parameter_count_def by (metis append.assoc Un_iff set_append)
  have plain: "takeWhile is_ascii_digit ((ds @ es) @ ''b'' @ post) = ds @ es"
      "dropWhile is_ascii_digit ((ds @ es) @ ''b'' @ post) = ''b'' @ post"
    using d by (intro digits_span; auto)+
  have dot: "takeWhile is_ascii_digit (ds @ ''.'' @ es @ ''b'' @ post) = ds"
      "dropWhile is_ascii_digit (ds @ ''.'' @ es @ ''b'' @ post) = ''.'' @ es @ ''b'' @ post"
    using d by (intro digits_span; auto)+
  have tail: "takeWhile is_ascii_digit (es @ ''b'' @ post) = es"
      "dropWhile is_ascii_digit (es @ ''b'' @ post) = ''b'' @ post"
    using d by (intro digits_span; auto)+
  from s show ?l
  proof
    assume "s = (ds @ es) @ ''b'' @ post"
    then show ?l using plain ne by (simp add: active_suffix_def Let_def)
  next
    assume "s = ds @ ''.'' @ es @ ''b'' @ post"
    then show ?l using dot tail ne by (auto simp: active_suffix_def Let_def)
  qed
qed

lemma active_scan_iff:
  "active_scan s \<longleftrightarrow> (\<exists>pre num post. s = pre @ ''a'' @ num @ ''b'' @ post \<and> parameter_count num)"
proof (induction s)
  case (Cons c s)
  show ?case
  proof
    assume "active_scan (c # s)"
    then consider "c = CHR ''a''" "active_suffix s" | "active_scan s" by auto
    then show "\<exists>pre num post. c # s = pre @ ''a'' @ num @ ''b'' @ post \<and> parameter_count num"
    proof cases
      case 1
      then obtain num post where "s = num @ ''b'' @ post" "parameter_count num"
        by (auto simp: active_suffix_iff)
      then show ?thesis using 1(1) by (intro exI [of _ "[]"] exI [of _ num] exI [of _ post]) simp
    next
      case 2
      then obtain pre num post where "s = pre @ ''a'' @ num @ ''b'' @ post" "parameter_count num"
        using Cons.IH by blast
      then show ?thesis by (intro exI [of _ "c # pre"] exI [of _ num] exI [of _ post]) simp
    qed
  next
    assume "\<exists>pre num post. c # s = pre @ ''a'' @ num @ ''b'' @ post \<and> parameter_count num"
    then obtain pre num post where *: "c # s = pre @ ''a'' @ num @ ''b'' @ post" "parameter_count num"
      by blast
    show "active_scan (c # s)"
    proof (cases pre)
      case Nil
      then show ?thesis using * by (auto simp: active_suffix_iff)
    next
      case (Cons x pre')
      then have "s = pre' @ ''a'' @ num @ ''b'' @ post" using *(1) by simp
      then have "active_scan s" using Cons.IH *(2) by blast
      then show ?thesis by simp
    qed
  qed
qed simp

text \<open>
  The byte scan that recognises an active-parameter mixture (\<open>A3B\<close>, \<open>A2.7B\<close>) accepts
  exactly the compacted names that mention \<open>qwen3\<close> and contain an \<open>a\<close>, then a count with at
  least one digit and at most one dot, then a \<open>b\<close>.
\<close>
theorem active_parameter_names:
  "is_qwen3_active_parameter_moe compact \<longleftrightarrow>
    (\<exists>p q. compact = p @ ''qwen3'' @ q) \<and>
    (\<exists>pre num post. compact = pre @ ''a'' @ num @ ''b'' @ post \<and> parameter_count num)"
  by (simp add: is_qwen3_active_parameter_moe_def active_scan_iff sublist_def)

section \<open>Layer rules of the special families\<close>

lemma kimi_ranges_layers:
  assumes "n \<le> U32_MAX"
  shows "list_ex (\<lambda>r. contains_layer r i) (kimi_ranges n start) \<longleftrightarrow>
    start \<le> i \<and> i + 1 < n \<and> (i - start) mod 4 \<noteq> 3"
  using assms
proof (induction n start rule: kimi_ranges.induct)
  case (1 n start)
  show ?case
  proof (cases "start < n")
    case True
    then have go: "start < n \<and> start < U32_MAX" using "1.prems" by simp
    note IH = "1.IH" [OF go refl "1.prems"]
    have head: "list_ex (\<lambda>r. contains_layer r i)
        (let stop = min (sat_add32 start 3) (n - 1) in
         if start < stop then [\<lparr>lr_start = start, lr_end = stop\<rparr>] else []) \<longleftrightarrow>
      start \<le> i \<and> i < start + 3 \<and> i + 1 < n"
      using "1.prems" by (auto simp: Let_def contains_layer_def sat_add32_def)
    have next4: "sat_add32 start 4 \<le> i \<and> i + 1 < n \<and> (i - sat_add32 start 4) mod 4 \<noteq> 3 \<longleftrightarrow>
      start + 4 \<le> i \<and> i + 1 < n \<and> (i - (start + 4)) mod 4 \<noteq> 3"
      using "1.prems" by (auto simp: sat_add32_def min_def)
    have split4: "(start \<le> i \<and> i < start + 3) \<or> (start + 4 \<le> i \<and> (i - (start + 4)) mod 4 \<noteq> 3) \<longleftrightarrow>
      start \<le> i \<and> (i - start) mod 4 \<noteq> 3"
    proof (cases "start + 4 \<le> i")
      case True
      then have "i - start = (i - (start + 4)) + 4" by simp
      then have "(i - start) mod 4 = (i - (start + 4)) mod 4" by (metis mod_add_self2)
      then show ?thesis using True by simp
    next
      case False
      then show ?thesis by (cases "start \<le> i") (auto simp: le_less_Suc_eq)
    qed
    show ?thesis
      unfolding kimi_ranges.simps [of n start] using go head IH next4 split4
      by (simp only: simp_thms if_True Let_def list_ex_append) blast
  next
    case False
    then show ?thesis by (subst kimi_ranges.simps) simp
  qed
qed

lemma family_decision:
  "fst (apply_family_boundary_rules c b (BoundaryAccepted, codes, messages)) = BoundaryRejected \<longleftrightarrow>
    list_ex (constraint_rejects b) (fam_split_constraints c)"
  by (simp add: apply_family_boundary_rules_def foldl_apply_sideband foldl_apply_constraint)

text \<open>
  The layer rules of the special families: in a Kimi-linear model of \<open>n\<close> layers the
  recurrent layers are those before the last whose index is not 3 modulo 4; a Gemma4 E4B model is
  never cut at layers 12 and 14 nor above its middle, and a Gemma3n model never above the two
  producer layers (18 and 19 in a model of at least 20 layers), while every other inner boundary is
  accepted.
\<close>
theorem special_family_rules:
  assumes "n \<le> U32_MAX" and "0 < b" and "b < n"
  shows "(list_ex (\<lambda>r. contains_layer r i) (fam_recurrent_ranges (kimi_linear_capability n w)) \<longleftrightarrow>
      i + 1 < n \<and> i mod 4 \<noteq> 3)
    \<and> (fst (apply_family_boundary_rules (gemma4_e4b_capability n w) b
        (BoundaryAccepted, codes, messages)) = BoundaryRejected \<longleftrightarrow> b = 12 \<or> b = 14 \<or> n div 2 < b)
    \<and> (fst (apply_family_boundary_rules (gemma3n_capability n w) b
        (BoundaryAccepted, codes, messages)) = BoundaryRejected \<longleftrightarrow>
      (if 20 \<le> n then 18 < b else n < b + 2))"
proof (intro conjI)
  show "list_ex (\<lambda>r. contains_layer r i) (fam_recurrent_ranges (kimi_linear_capability n w)) \<longleftrightarrow>
      i + 1 < n \<and> i mod 4 \<noteq> 3"
    using kimi_ranges_layers [OF assms(1), of i 0] by (simp add: kimi_linear_capability_def)
  show "fst (apply_family_boundary_rules (gemma4_e4b_capability n w) b
        (BoundaryAccepted, codes, messages)) = BoundaryRejected \<longleftrightarrow> b = 12 \<or> b = 14 \<or> n div 2 < b"
    using assms
    by (auto simp: family_decision gemma4_e4b_capability_def constraint_rejects_def contains_boundary_def)
  show "fst (apply_family_boundary_rules (gemma3n_capability n w) b
        (BoundaryAccepted, codes, messages)) = BoundaryRejected \<longleftrightarrow>
      (if 20 \<le> n then 18 < b else n < b + 2)"
    using assms
    by (auto simp: family_decision gemma3n_capability_def constraint_rejects_def contains_boundary_def)
qed

section \<open>Examples\<close>

lemma unknown_release_name: "release_form_of ''Qwen3.9-32B'' = [] @ ''qwen3.'' @ ''9'' @ ''-32b''"
  by code_simp

lemma hybrid_name: "infer_family_capability [] ''Qwen3.6-35B-A3B'' 40 2048 =
    Some (qwen35_series_capability ''qwen35moe'' 40 2048)"
  by code_simp

definition forty_layers :: topology_plan_request where
  "forty_layers = \<lparr>tr_topology_id = ''t'', tr_model_id = ''m'', tr_layers = dense_attention_layers 40 1,
     tr_nodes = [\<lparr>nd_node_id = ''a'', nd_cached_slice_bytes = 0, nd_vram_bytes = 0\<rparr>], tr_family = None,
     tr_policy = \<lparr>allow_recurrent_state_transfer = False\<rparr>\<rparr>"

definition reviewed_falcon :: reviewed_capability_record where
  "reviewed_falcon = \<lparr>rv_model_id = Some ''tiiuae/Falcon-H1'', rv_source_repo = None,
     rv_source_revision = None, rv_source_file = None, rv_canonical_ref = None,
     rv_distribution_id = None, rv_selector = None, rv_capability = falcon_h1_capability 24 2048\<rparr>"

lemma reviewed_falcon_found:
  "reviewed_capability_for_identity [reviewed_falcon] ''tiiuae/falcon-h1-gguf'' 30 0 =
     Some (falcon_h1_capability 30 2048)"
  by code_simp

end
