(* ===== verification/RadixTree.thy ===== *)
theory RadixTree
  imports Prelude
begin

text \<open>
  The nodes of the compressed token radix tree of \<open>crates/skippy-cache/src/radix.rs\<close>: lookup,
  insertion with node splitting, pruning, prefix matching, traversal. A node owns the tokens of
  the edge that leads to it, two optional payload components, and its children in a
  \<open>BTreeMap\<close> keyed by the first token of their edge. A reference \<open>&mut RadixNode\<close> into the tree
  is the path of tokens that leads to it; a write through the reference is \<open>modify_at\<close>.
\<close>

section \<open>Nodes\<close>

datatype component_kind = ResidentKv | KvRecurrent

record 'v component_entry =
  ce_value :: 'v
  ce_logical_bytes :: nat
  ce_last_used :: nat
  ce_active_refs :: nat

record ('r, 'e) radix_components =
  rc_resident :: "'r component_entry option"
  rc_recurrent :: "'e component_entry option"

definition no_components :: "('r, 'e) radix_components" where
  "no_components = \<lparr>rc_resident = None, rc_recurrent = None\<rparr>"

datatype ('r, 'e) radix_node =
  RadixNode (rn_edge: "int list") (rn_components: "('r, 'e) radix_components")
    (rn_children: "(int \<times> ('r, 'e) radix_node) list")

definition new_node :: "int list \<Rightarrow> ('r, 'e) radix_node" where
  "new_node edge = RadixNode edge no_components []"

definition root_node :: "('r, 'e) radix_node" where
  "root_node = new_node []"

definition node_is_empty :: "('r, 'e) radix_node \<Rightarrow> bool" where
  "node_is_empty n \<longleftrightarrow> rc_resident (rn_components n) = None \<and> rc_recurrent (rn_components n) = None
     \<and> rn_children n = []"

definition component_present :: "('r, 'e) radix_node \<Rightarrow> component_kind \<Rightarrow> bool" where
  "component_present n k = (case k of
      ResidentKv \<Rightarrow> rc_resident (rn_components n) \<noteq> None
    | KvRecurrent \<Rightarrow> rc_recurrent (rn_components n) \<noteq> None)"

text \<open>A child is smaller than its parent: every walk down the tree ends.\<close>

lemma child_size [intro]: "kc \<in> set kids \<Longrightarrow> size (snd kc) < size (RadixNode e c kids)"
proof (induction kids)
  case (Cons x kids)
  then show ?case by (cases x; cases "kc = x") auto
qed simp

lemma got_child_size [intro]: "bt_get kids k = Some c \<Longrightarrow> size c < size (RadixNode e cs kids)"
  using child_size [of "(k, c)" kids e cs] by (auto dest: bt_get_Some_mem)

section \<open>Lookup and writes\<close>

function node_at :: "('r, 'e) radix_node \<Rightarrow> int list \<Rightarrow> ('r, 'e) radix_node option" where
  "node_at n [] = Some n"
| "node_at (RadixNode e c kids) (t # ts) =
     (case bt_get kids t of
        None \<Rightarrow> None
      | Some child \<Rightarrow>
          if prefix (rn_edge child) (t # ts)
          then node_at child (drop (length (rn_edge child)) (t # ts))
          else None)"
  by pat_completeness auto
termination node_at
  by (relation "measure (\<lambda>(n, ts). size n)") (auto simp del: radix_node.size)

function modify_at :: "(('r, 'e) radix_node \<Rightarrow> ('r, 'e) radix_node) \<Rightarrow> ('r, 'e) radix_node \<Rightarrow>
    int list \<Rightarrow> ('r, 'e) radix_node" where
  "modify_at f n [] = f n"
| "modify_at f (RadixNode e c kids) (t # ts) =
     (case bt_get kids t of
        None \<Rightarrow> RadixNode e c kids
      | Some child \<Rightarrow>
          if prefix (rn_edge child) (t # ts)
          then RadixNode e c (bt_modify t
                 (\<lambda>_. modify_at f child (drop (length (rn_edge child)) (t # ts))) kids)
          else RadixNode e c kids)"
  by pat_completeness auto
termination modify_at
  by (relation "measure (\<lambda>(f, n, ts). size n)") (auto simp del: radix_node.size)

definition set_components :: "(('r, 'e) radix_components \<Rightarrow> ('r, 'e) radix_components) \<Rightarrow>
    ('r, 'e) radix_node \<Rightarrow> ('r, 'e) radix_node" where
  "set_components g n = RadixNode (rn_edge n) (g (rn_components n)) (rn_children n)"

section \<open>Insertion of a path\<close>

definition common_prefix_len :: "int list \<Rightarrow> int list \<Rightarrow> nat" where
  "common_prefix_len l r = length (takeWhile (\<lambda>(a, b). a = b) (zip l r))"

function ensure_node :: "('r, 'e) radix_node \<Rightarrow> int list \<Rightarrow> nat \<Rightarrow> ('r, 'e) radix_node \<times> nat" where
  "ensure_node n [] splits = (n, splits)"
| "ensure_node (RadixNode e c kids) (first # ts) splits =
     (case bt_get kids first of
        None \<Rightarrow> (RadixNode e c (bt_insert first (new_node (first # ts)) kids), splits)
      | Some child \<Rightarrow>
          (let tokens = first # ts; common = common_prefix_len (rn_edge child) tokens
           in if common = length (rn_edge child) then
                (let r = ensure_node child (drop common tokens) splits
                 in (RadixNode e c (bt_modify first (\<lambda>_. fst r) kids), snd r))
              else
                (let existing = RadixNode (drop common (rn_edge child)) (rn_components child)
                                  (rn_children child);
                     split = RadixNode (take common (rn_edge child)) no_components
                               (bt_insert (hd (rn_edge existing)) existing []);
                     rest = bt_remove first kids
                 in if common = length tokens
                    then (RadixNode e c (bt_insert first split rest), sat_add splits 1)
                    else
                      (let new_edge = drop common tokens;
                           split' = RadixNode (rn_edge split) no_components
                             (bt_insert (hd new_edge) (new_node new_edge) (rn_children split))
                       in (RadixNode e c (bt_insert first split' rest), sat_add splits 1)))))"
  by pat_completeness auto
termination ensure_node
  by (relation "measure (\<lambda>(n, ts, s). size n)") (auto simp del: radix_node.size)

section \<open>Pruning\<close>

text \<open>The loop that joins a bare node with its only child.\<close>

function collapse :: "('r, 'e) radix_node \<Rightarrow> ('r, 'e) radix_node" where
  "collapse (RadixNode e c kids) =
     (if rc_resident c = None \<and> rc_recurrent c = None then
        (case kids of
           [kg] \<Rightarrow> collapse (RadixNode (e @ rn_edge (snd kg)) (rn_components (snd kg))
                              (rn_children (snd kg)))
         | _ \<Rightarrow> RadixNode e c kids)
      else RadixNode e c kids)"
  by pat_completeness auto
termination collapse
proof (relation "measure (\<lambda>n. sum_list (map (size \<circ> snd) (rn_children n)))", goal_cases)
  case (2 e c kids kg rest)
  have "sum_list (map (size \<circ> snd) ks) < size (RadixNode e' c' ks)" for e' c' and ks :: "(int \<times> ('r, 'e) radix_node) list"
    by (induction ks) auto
  from this [of "rn_children (snd kg)" "rn_edge (snd kg)" "rn_components (snd kg)"] 2
  show ?case by (cases "snd kg") simp
qed simp

function normalize_children :: "('r, 'e) radix_node \<Rightarrow> ('r, 'e) radix_node" where
  "normalize_children (RadixNode e c kids) =
     RadixNode e c (filter (\<lambda>kc. \<not> node_is_empty (snd kc))
       (map (\<lambda>kc. (fst kc, collapse (normalize_children (snd kc)))) kids))"
  by pat_completeness auto
termination normalize_children
  by (relation "measure size") (auto simp del: radix_node.size)

declare collapse.simps [simp del] normalize_children.simps [simp del]

section \<open>Traversals\<close>

text \<open>
  The recursive walks visit a node and then its children in key order; \<open>path\<close> is the tokens above
  the node, so that \<open>path @ rn_edge n\<close> is the full key of the node.
\<close>

function nearest_resident_descendant :: "('r, 'e) radix_node \<Rightarrow> int list \<Rightarrow> int list option" where
  "nearest_resident_descendant (RadixNode e c kids) node_path =
     (if rc_resident c \<noteq> None then Some node_path
      else find_map (\<lambda>kc. nearest_resident_descendant (snd kc) (node_path @ rn_edge (snd kc))) kids)"
  by pat_completeness auto
termination nearest_resident_descendant
  by (relation "measure (\<lambda>(n, p). size n)") (auto simp del: radix_node.size)

function find_path :: "(('r, 'e) radix_components \<Rightarrow> 'v component_entry option) \<Rightarrow> ('v \<Rightarrow> bool) \<Rightarrow>
    int list \<Rightarrow> ('r, 'e) radix_node \<Rightarrow> (int list \<times> nat) option" where
  "find_path get predicate path (RadixNode e c kids) =
     (case get c of
        Some entry \<Rightarrow>
          if predicate (ce_value entry) then Some (path @ e, ce_logical_bytes entry)
          else find_map (\<lambda>kc. find_path get predicate (path @ e) (snd kc)) kids
      | None \<Rightarrow> find_map (\<lambda>kc. find_path get predicate (path @ e) (snd kc)) kids)"
  by pat_completeness auto
termination find_path
  by (relation "measure (\<lambda>(g, p, q, n). size n)") (auto simp del: radix_node.size)

definition find_resident_path where
  "find_resident_path predicate path n = find_path rc_resident predicate path n"

definition find_recurrent_path where
  "find_recurrent_path predicate path n = find_path rc_recurrent predicate path n"

record victim =
  vc_namespace :: string
  vc_tokens :: "int list"
  vc_logical_bytes :: nat
  vc_last_used :: nat

text \<open>\<open>(last_used, logical_bytes)\<close> of an unreferenced component.\<close>

definition victim_candidate :: "component_kind \<Rightarrow> ('r, 'e) radix_components \<Rightarrow> (nat \<times> nat) option" where
  "victim_candidate kind c = (case kind of
      ResidentKv \<Rightarrow> (case rc_resident c of
          Some e \<Rightarrow> if ce_active_refs e = 0 then Some (ce_last_used e, ce_logical_bytes e) else None
        | None \<Rightarrow> None)
    | KvRecurrent \<Rightarrow> (case rc_recurrent c of
          Some e \<Rightarrow> if ce_active_refs e = 0 then Some (ce_last_used e, ce_logical_bytes e) else None
        | None \<Rightarrow> None))"

definition offer_victim :: "string \<Rightarrow> int list \<Rightarrow> (nat \<times> nat) option \<Rightarrow> victim option \<Rightarrow> victim option" where
  "offer_victim namespace path candidate victim =
     (case candidate of
        None \<Rightarrow> victim
      | Some (last_used, logical_bytes) \<Rightarrow>
          (let replace = (case victim of
              Some v \<Rightarrow> (last_used, namespace, path) < (vc_last_used v, vc_namespace v, vc_tokens v)
            | None \<Rightarrow> True)
           in if replace then Some \<lparr>vc_namespace = namespace, vc_tokens = path,
                vc_logical_bytes = logical_bytes, vc_last_used = last_used\<rparr>
              else victim))"

function collect_lru_victim :: "string \<Rightarrow> component_kind \<Rightarrow> int list \<Rightarrow> ('r, 'e) radix_node \<Rightarrow>
    victim option \<Rightarrow> victim option" where
  "collect_lru_victim namespace kind path (RadixNode e c kids) victim =
     foldl (\<lambda>v kc. collect_lru_victim namespace kind (path @ e) (snd kc) v)
       (offer_victim namespace (path @ e) (victim_candidate kind c) victim) kids"
  by pat_completeness auto
termination collect_lru_victim
  by (relation "measure (\<lambda>(ns, k, p, n, v). size n)") (auto simp del: radix_node.size)

record 'v radix_eviction_candidate =
  ec_namespace :: string
  ec_tokens :: "int list"
  ec_logical_bytes :: nat
  ec_last_used :: nat
  ec_value :: 'v

function collect_resident_eviction_candidates :: "string \<Rightarrow> int list \<Rightarrow> ('r, 'e) radix_node \<Rightarrow>
    'r radix_eviction_candidate list" where
  "collect_resident_eviction_candidates namespace path (RadixNode e c kids) =
     (case rc_resident c of
        Some entry \<Rightarrow> if ce_active_refs entry = 0
          then [\<lparr>ec_namespace = namespace, ec_tokens = path @ e,
                 ec_logical_bytes = ce_logical_bytes entry, ec_last_used = ce_last_used entry,
                 ec_value = ce_value entry\<rparr>]
          else []
      | None \<Rightarrow> [])
     @ concat (map (\<lambda>kc. collect_resident_eviction_candidates namespace (path @ e) (snd kc)) kids)"
  by pat_completeness auto
termination collect_resident_eviction_candidates
  by (relation "measure (\<lambda>(ns, p, n). size n)") (auto simp del: radix_node.size)

record unified_radix_cache_stats =
  st_namespaces :: nat
  st_nodes :: nat
  st_token_edges :: nat
  st_splits :: nat
  st_resident_entries :: nat
  st_resident_tokens :: nat
  st_resident_logical_bytes :: nat
  st_resident_active_refs :: nat
  st_resident_pinned_tokens :: nat
  st_recurrent_entries :: nat
  st_recurrent_logical_bytes :: nat
  st_recurrent_active_refs :: nat
  st_resident_evictions :: nat
  st_recurrent_evictions :: nat

text \<open>What one node adds to the statistics; \<open>depth\<close> counts the tokens down to the node.\<close>

definition count_node :: "bool \<Rightarrow> nat \<Rightarrow> int list \<Rightarrow> ('r, 'e) radix_components \<Rightarrow>
    unified_radix_cache_stats \<Rightarrow> unified_radix_cache_stats" where
  "count_node is_root depth edge c stats =
     (let s1 = (if is_root then stats
          else stats\<lparr>st_nodes := sat_add (st_nodes stats) 1,
                     st_token_edges := sat_add (st_token_edges stats) (length edge)\<rparr>);
          s2 = (case rc_resident c of
              None \<Rightarrow> s1
            | Some entry \<Rightarrow> s1\<lparr>st_resident_entries := sat_add (st_resident_entries s1) 1,
                st_resident_tokens := sat_add (st_resident_tokens s1) depth,
                st_resident_logical_bytes :=
                  sat_add (st_resident_logical_bytes s1) (ce_logical_bytes entry),
                st_resident_active_refs :=
                  sat_add (st_resident_active_refs s1) (ce_active_refs entry),
                st_resident_pinned_tokens := (if 0 < ce_active_refs entry
                  then sat_add (st_resident_pinned_tokens s1) depth
                  else st_resident_pinned_tokens s1)\<rparr>)
      in (case rc_recurrent c of
            None \<Rightarrow> s2
          | Some entry \<Rightarrow> s2\<lparr>st_recurrent_entries := sat_add (st_recurrent_entries s2) 1,
              st_recurrent_logical_bytes :=
                sat_add (st_recurrent_logical_bytes s2) (ce_logical_bytes entry),
              st_recurrent_active_refs :=
                sat_add (st_recurrent_active_refs s2) (ce_active_refs entry)\<rparr>))"

function accumulate_stats :: "('r, 'e) radix_node \<Rightarrow> bool \<Rightarrow> nat \<Rightarrow> unified_radix_cache_stats \<Rightarrow>
    unified_radix_cache_stats" where
  "accumulate_stats (RadixNode e c kids) is_root parent_depth stats =
     (let depth = sat_add parent_depth (length e)
      in foldl (\<lambda>s kc. accumulate_stats (snd kc) False depth s)
           (count_node is_root depth e c stats) kids)"
  by pat_completeness auto
termination accumulate_stats
  by (relation "measure (\<lambda>(n, r, d, s). size n)") (auto simp del: radix_node.size)

declare nearest_resident_descendant.simps [simp del] find_path.simps [simp del]
  collect_lru_victim.simps [simp del] collect_resident_eviction_candidates.simps [simp del]
  accumulate_stats.simps [simp del]

section \<open>Prefix search\<close>

text \<open>The state of the loop of \<open>resident_backing_prefix\<close> when it ends: node, rest of the query, tokens consumed, path, best match.\<close>

function backing_loop :: "('r, 'e) radix_node \<Rightarrow> int list \<Rightarrow> nat \<Rightarrow> int list \<Rightarrow>
    (nat \<times> int list) option \<Rightarrow>
    ('r, 'e) radix_node \<times> int list \<times> nat \<times> int list \<times> (nat \<times> int list) option" where
  "backing_loop n [] consumed path best = (n, [], consumed, path, best)"
| "backing_loop (RadixNode e c kids) (first # rest) consumed path best =
     (case bt_get kids first of
        None \<Rightarrow>
          (RadixNode e c kids, first # rest, consumed, path,
           if 0 < consumed
           then (case nearest_resident_descendant (RadixNode e c kids) path of
                   Some stored \<Rightarrow> Some (consumed, stored)
                 | None \<Rightarrow> best)
           else best)
      | Some child \<Rightarrow>
          (let common = common_prefix_len (rn_edge child) (first # rest)
           in if common < length (rn_edge child) then
                (RadixNode e c kids, first # rest, consumed, path,
                 if 0 < common
                 then (case nearest_resident_descendant child (path @ rn_edge child) of
                         Some stored \<Rightarrow> Some (sat_add consumed common, stored)
                       | None \<Rightarrow> best)
                 else best)
              else
                (let consumed' = sat_add consumed common; path' = path @ rn_edge child
                 in backing_loop child (drop common (first # rest)) consumed' path'
                      (if rc_resident (rn_components child) \<noteq> None
                       then Some (consumed', path') else best))))"
  by pat_completeness auto
termination backing_loop
  by (relation "measure (\<lambda>(n, r, c, p, b). size n)") (auto simp del: radix_node.size)

definition resident_backing_prefix :: "('r, 'e) radix_node \<Rightarrow> int list \<Rightarrow> (nat \<times> int list) option" where
  "resident_backing_prefix root tokens =
     (let (n, remaining, consumed, path, best) =
          backing_loop root tokens 0 []
            (if rc_resident (rn_components root) \<noteq> None then Some (0, []) else None);
          best' = (if remaining = []
            then (case nearest_resident_descendant n path of
                    Some stored \<Rightarrow> Some (consumed, stored)
                  | None \<Rightarrow> best)
            else best)
      in (case best' of
            Some (matched, stored) \<Rightarrow> if 0 < matched then Some (matched, stored) else None
          | None \<Rightarrow> None))"

function prefix_loop :: "component_kind \<Rightarrow> ('r, 'e) radix_node \<Rightarrow> int list \<Rightarrow> nat \<Rightarrow> nat option \<Rightarrow> nat option" where
  "prefix_loop kind n [] consumed best = best"
| "prefix_loop kind (RadixNode e c kids) (first # rest) consumed best =
     (case bt_get kids first of
        None \<Rightarrow> best
      | Some child \<Rightarrow>
          (let common = common_prefix_len (rn_edge child) (first # rest)
           in if common \<noteq> length (rn_edge child) then best
              else
                (let consumed' = sat_add consumed common
                 in prefix_loop kind child (drop common (first # rest)) consumed'
                      (if component_present child kind then Some consumed' else best))))"
  by pat_completeness auto
termination prefix_loop
  by (relation "measure (\<lambda>(k, n, r, c, b). size n)") (auto simp del: radix_node.size)

definition longest_component_prefix :: "('r, 'e) radix_node \<Rightarrow> int list \<Rightarrow> component_kind \<Rightarrow> nat option" where
  "longest_component_prefix root tokens kind =
     (case prefix_loop kind root tokens 0 (if component_present root kind then Some 0 else None) of
        Some matched \<Rightarrow> if 0 < matched then Some matched else None
      | None \<Rightarrow> None)"

end
