(* ===== verification/RadixTreeProps.thy ===== *)
theory RadixTreeProps
  imports RadixTree
begin

text \<open>
  The radix tree as a map from token sequences to payload components: \<open>comps_at\<close> reads the
  components stored at a path, and insertion of a path, a write at a path and pruning act on that
  map as they should. \<open>radix_wf\<close> is the shape the code relies on; \<open>radix_canonical\<close> says that
  nothing is left to prune.
\<close>

section \<open>Well-formed trees\<close>

function radix_wf :: "('r, 'e) radix_node \<Rightarrow> bool" where
  "radix_wf (RadixNode e c kids) \<longleftrightarrow> bt_wf kids \<and>
     (\<forall>kc \<in> set kids. rn_edge (snd kc) \<noteq> [] \<and> fst kc = hd (rn_edge (snd kc)) \<and> radix_wf (snd kc))"
  by pat_completeness auto
termination radix_wf
  by (relation "measure size") (auto simp del: radix_node.size)

definition needed :: "('r, 'e) radix_node \<Rightarrow> bool" where
  "needed n \<longleftrightarrow> rc_resident (rn_components n) \<noteq> None \<or> rc_recurrent (rn_components n) \<noteq> None
     \<or> 2 \<le> length (rn_children n)"

function radix_canonical :: "('r, 'e) radix_node \<Rightarrow> bool" where
  "radix_canonical (RadixNode e c kids) \<longleftrightarrow>
     (\<forall>kc \<in> set kids. needed (snd kc) \<and> radix_canonical (snd kc))"
  by pat_completeness auto
termination radix_canonical
  by (relation "measure size") (auto simp del: radix_node.size)

lemma radix_wf_edge: "radix_wf (RadixNode e c kids) = radix_wf (RadixNode e' c' kids)"
  by simp

lemma new_node_sel [simp]:
  "rn_edge (new_node e) = e" "rn_components (new_node e) = no_components" "rn_children (new_node e) = []"
  by (simp_all add: new_node_def)

lemma radix_wf_new [simp]: "radix_wf (new_node e)" "radix_wf root_node"
  by (simp_all add: new_node_def root_node_def)

lemma radix_wf_child:
  assumes "radix_wf (RadixNode e c kids)" and "bt_get kids t = Some child"
  shows "radix_wf child" and "rn_edge child \<noteq> []" and "hd (rn_edge child) = t"
  using assms bt_get_Some_mem [OF assms(2)] by force+

section \<open>The map of a tree\<close>

definition comps_at :: "('r, 'e) radix_node \<Rightarrow> int list \<Rightarrow> ('r, 'e) radix_components" where
  "comps_at n ts = (case node_at n ts of Some m \<Rightarrow> rn_components m | None \<Rightarrow> no_components)"

definition comps_edge :: "('r, 'e) radix_node \<Rightarrow> int list \<Rightarrow> ('r, 'e) radix_components" where
  "comps_edge n ts = (if prefix (rn_edge n) ts then comps_at n (drop (length (rn_edge n)) ts)
     else no_components)"

lemma comps_at_Nil [simp]: "comps_at n [] = rn_components n"
  by (simp add: comps_at_def)

lemma comps_at_Cons [simp]: "comps_at (RadixNode e c kids) (t # ts) =
    (case bt_get kids t of None \<Rightarrow> no_components | Some child \<Rightarrow> comps_edge child (t # ts))"
  by (simp add: comps_at_def comps_edge_def split: option.split)

lemma comps_at_edge: "comps_at (RadixNode e c kids) ts = comps_at (RadixNode e' c kids) ts"
  by (cases ts) auto

lemma comps_at_childless: "comps_at (RadixNode e no_components []) ts = no_components"
  by (cases ts) auto

lemma comps_edge_new [simp]: "comps_edge (new_node e) ts = no_components"
  by (simp add: comps_edge_def new_node_def comps_at_childless)

lemma comps_at_new [simp]: "comps_at (new_node e) ts = no_components"
  by (simp add: new_node_def comps_at_childless)

lemma comps_edge_extend:
  "comps_edge (RadixNode (p @ q) c kids) ts =
    (if prefix p ts then comps_edge (RadixNode q c kids) (drop (length p) ts) else no_components)"
proof -
  have "prefix (p @ q) ts \<longleftrightarrow> prefix p ts \<and> prefix q (drop (length p) ts)"
    by (auto simp: prefix_def)
  then show ?thesis
    by (auto simp: comps_edge_def comps_at_edge [of "p @ q" c kids _ q] add.commute)
qed

section \<open>Common prefixes\<close>

lemma common_prefix_split:
  "l = take (common_prefix_len l r) l @ drop (common_prefix_len l r) l"
  "take (common_prefix_len l r) r = take (common_prefix_len l r) l"
  "common_prefix_len l r \<le> length l" "common_prefix_len l r \<le> length r"
  by (induction l r rule: list_induct2') (auto simp: common_prefix_len_def)

lemma common_prefix_diverges:
  "common_prefix_len l r < length l \<Longrightarrow> common_prefix_len l r < length r \<Longrightarrow>
   l ! common_prefix_len l r \<noteq> r ! common_prefix_len l r"
  by (induction l r rule: list_induct2') (auto simp: common_prefix_len_def)

lemma common_prefix_full: "common_prefix_len l r = length l \<longleftrightarrow> prefix l r"
  by (induction l r rule: list_induct2') (auto simp: common_prefix_len_def)

lemma common_prefix_pos: "l \<noteq> [] \<Longrightarrow> r \<noteq> [] \<Longrightarrow> hd l = hd r \<Longrightarrow> 0 < common_prefix_len l r"
  by (cases l; cases r) (auto simp: common_prefix_len_def)

text \<open>What a split works with: the shared part, and the two rests.\<close>

lemma split_parts:
  assumes "rn_edge child \<noteq> []" and "hd (rn_edge child) = first"
    and "common_prefix_len (rn_edge child) (first # ts) \<noteq> length (rn_edge child)"
  obtains p q r where "rn_edge child = p @ q" "first # ts = p @ r" "p \<noteq> []" "q \<noteq> []"
    "common_prefix_len (rn_edge child) (first # ts) = length p" "hd p = first"
    "r \<noteq> [] \<Longrightarrow> hd r \<noteq> hd q"
proof -
  let ?k = "common_prefix_len (rn_edge child) (first # ts)"
  let ?p = "take ?k (rn_edge child)" and ?q = "drop ?k (rn_edge child)" and ?r = "drop ?k (first # ts)"
  note s = common_prefix_split [of "rn_edge child" "first # ts"]
  have k: "?k < length (rn_edge child)" using s(3) assms(3) by linarith
  have pos: "0 < ?k" using common_prefix_pos [of "rn_edge child" "first # ts"] assms by simp
  have "hd ?r \<noteq> hd ?q" if "?r \<noteq> []"
  proof -
    have k': "?k < length (first # ts)" using that by (simp only: drop_eq_Nil not_le)
    show ?thesis using common_prefix_diverges [OF k k']
      unfolding hd_drop_conv_nth [OF k] hd_drop_conv_nth [OF k'] by (rule not_sym)
  qed
  moreover have "first # ts = ?p @ ?r" using s(2) by (metis append_take_drop_id)
  moreover have "?p \<noteq> []" "hd ?p = first" using pos assms(1,2) by (auto simp: hd_take)
  moreover have "length ?p = ?k" using s(3) by simp
  ultimately show ?thesis using that [of ?p ?q ?r] k by simp
qed

section \<open>Insertion of a path\<close>

definition split_node :: "int list \<Rightarrow> int list \<Rightarrow> int list \<Rightarrow> ('r, 'e) radix_node \<Rightarrow> ('r, 'e) radix_node" where
  "split_node p q r child = RadixNode p no_components
     ((if r = [] then (\<lambda>m. m) else bt_insert (hd r) (new_node r))
       [(hd q, RadixNode q (rn_components child) (rn_children child))])"

lemma ensure_node_split:
  assumes "bt_get kids first = Some child" and "rn_edge child = p @ q" and "first # ts = p @ r"
    and "q \<noteq> []" and "common_prefix_len (rn_edge child) (first # ts) = length p"
  shows "ensure_node (RadixNode e c kids) (first # ts) splits =
    (RadixNode e c (bt_insert first (split_node p q r child) (bt_remove first kids)), sat_add splits 1)"
proof -
  have d: "drop (length p) (first # ts) = r" by (simp only: assms(3)) simp
  have l: "length p = Suc (length ts) \<longleftrightarrow> r = []"
    using arg_cong [OF assms(3), of length] by auto
  have e: "take (length p) (rn_edge child) = p" "drop (length p) (rn_edge child) = q"
    "length p \<noteq> length (rn_edge child)"
    using assms(2,4) by auto
  show ?thesis by (simp add: Let_def assms(1,5) d l e split_node_def)
qed

lemma comps_edge_split:
  assumes "rn_edge child = p @ q" and "q \<noteq> []" and "r \<noteq> [] \<Longrightarrow> hd r \<noteq> hd q"
  shows "comps_edge (split_node p q r child) ts = comps_edge child ts"
proof -
  have child: "child = RadixNode (p @ q) (rn_components child) (rn_children child)"
    using assms(1) by (cases child) simp
  have "comps_at (split_node p q r child) us = comps_edge (RadixNode q (rn_components child) (rn_children child)) us"
    for us
  proof (cases us)
    case Nil
    then show ?thesis using assms(2) by (simp add: split_node_def comps_edge_def no_components_def)
  next
    case (Cons a us')
    have "\<not> prefix q us" if "a \<noteq> hd q" using that Cons assms(2) by (cases q) auto
    then show ?thesis using Cons assms(3)
      by (auto simp: split_node_def bt_get_insert bt_wf_Cons bt_get_Cons comps_edge_def)
  qed
  then have "comps_edge (split_node p q r child) ts =
      (if prefix p ts then comps_edge (RadixNode q (rn_components child) (rn_children child))
        (drop (length p) ts) else no_components)"
    by (simp add: comps_edge_def [of "split_node p q r child"]) (simp add: split_node_def)
  then show ?thesis using comps_edge_extend [of p q "rn_components child" "rn_children child" ts]
    by (subst child) simp
qed

lemma radix_wf_split:
  assumes "rn_edge child = p @ q" and "q \<noteq> []" and "radix_wf child"
  shows "radix_wf (split_node p q r child)"
proof -
  have q: "radix_wf (RadixNode q (rn_components child) (rn_children child))"
    using assms(3) by (cases child) simp
  show ?thesis
  proof (cases "r = []")
    case True
    then show ?thesis using q assms(2) by (simp add: split_node_def bt_wf_Cons)
  next
    case False
    let ?m = "[(hd q, RadixNode q (rn_components child) (rn_children child))]"
    have wf: "bt_wf (bt_insert (hd r) (new_node r) ?m)" by (simp add: bt_wf_Cons)
    have kids: "rn_edge (snd kc) \<noteq> [] \<and> fst kc = hd (rn_edge (snd kc)) \<and> radix_wf (snd kc)"
      if "kc \<in> set (bt_insert (hd r) (new_node r) ?m)" for kc
    proof -
      have "kc = (hd r, new_node r) \<or> kc = (hd q, RadixNode q (rn_components child) (rn_children child))"
        using that set_bt_insert [of "hd r" "new_node r" ?m] by auto
      then show ?thesis using False q assms(2) by (auto simp del: radix_wf.simps)
    qed
    show ?thesis unfolding split_node_def radix_wf.simps using False wf kids
      by (simp del: bt_insert.simps radix_wf.simps)
  qed
qed

text \<open>Replacing the child of a key by another one with the same edge.\<close>

lemma radix_wf_replace:
  assumes "radix_wf (RadixNode e c kids)" and "bt_get kids t = Some child"
    and "radix_wf child'" and "rn_edge child' = rn_edge child"
  shows "radix_wf (RadixNode e c (bt_modify t (\<lambda>_. child') kids))"
  using assms(1,3,4) radix_wf_child [OF assms(1,2)]
  by (simp del: bt_wf_modify add: bt_wf_def [of "bt_modify t (\<lambda>_. child') kids"])
    (auto simp: bt_modify_def bt_wf_def)

lemma ensure_node_wf:
  assumes "radix_wf n"
  shows "radix_wf (fst (ensure_node n ts splits)) \<and> rn_edge (fst (ensure_node n ts splits)) = rn_edge n"
  using assms
proof (induction n ts splits rule: ensure_node.induct)
  case (1 n splits)
  then show ?case by simp
next
  case (2 e c kids first ts splits)
  show ?case
  proof (cases "bt_get kids first")
    case None
    then show ?thesis using 2(2) set_bt_insert [of first "new_node (first # ts)" kids]
      by (fastforce simp: new_node_def)
  next
    case (Some child)
    note ch = radix_wf_child [OF 2(2) Some]
    show ?thesis
    proof (cases "common_prefix_len (rn_edge child) (first # ts) = length (rn_edge child)")
      case True
      have "radix_wf (fst (ensure_node child (drop (length (rn_edge child)) (first # ts)) splits))
        \<and> rn_edge (fst (ensure_node child (drop (length (rn_edge child)) (first # ts)) splits)) = rn_edge child"
        using 2(1) [OF Some refl refl True ch(1)] True by simp
      then show ?thesis using Some True radix_wf_replace [OF 2(2) Some]
        by (simp add: Let_def del: radix_wf.simps)
    next
      case False
      then obtain p q r where s: "rn_edge child = p @ q" "first # ts = p @ r" "p \<noteq> []" "q \<noteq> []"
          "common_prefix_len (rn_edge child) (first # ts) = length p" "hd p = first"
        using split_parts [OF ch(2,3)] by metis
      have "radix_wf (split_node p q r child)" by (rule radix_wf_split [OF s(1,4) ch(1)])
      moreover have "rn_edge (split_node p q r child) = p" by (simp add: split_node_def)
      ultimately show ?thesis
        unfolding ensure_node_split [OF Some s(1,2,4,5)]
        using 2(2) s(3,6) set_bt_insert [of first "split_node p q r child" "bt_remove first kids"]
        by (auto simp: set_bt_remove)
    qed
  qed
qed

lemma ensure_node_comps:
  assumes "radix_wf n"
  shows "comps_at (fst (ensure_node n ts splits)) = comps_at n"
  using assms
proof (induction n ts splits rule: ensure_node.induct)
  case (1 n splits)
  then show ?case by simp
next
  case (2 e c kids first ts splits)
  have wf: "bt_wf kids" using 2(2) by simp
  show ?case
  proof
    fix us
    show "comps_at (fst (ensure_node (RadixNode e c kids) (first # ts) splits)) us =
        comps_at (RadixNode e c kids) us"
    proof (cases us)
      case Nil
      then show ?thesis by (auto simp: Let_def split: option.split)
    next
      case (Cons a us')
      show ?thesis
      proof (cases "bt_get kids first")
        case None
        then show ?thesis using Cons wf by (auto simp: bt_get_insert)
      next
        case (Some child)
        note ch = radix_wf_child [OF 2(2) Some]
        show ?thesis
        proof (cases "common_prefix_len (rn_edge child) (first # ts) = length (rn_edge child)")
          case True
          have IH: "comps_at (fst (ensure_node child (drop (length (rn_edge child)) (first # ts)) splits))
              = comps_at child"
            using 2(1) [OF Some refl refl True ch(1)] True by simp
          have "rn_edge (fst (ensure_node child (drop (length (rn_edge child)) (first # ts)) splits)) = rn_edge child"
            using ensure_node_wf [OF ch(1)] by blast
          then show ?thesis using Some True Cons IH
            by (auto simp: Let_def bt_get_modify comps_edge_def)
        next
          case False
          then obtain p q r where s: "rn_edge child = p @ q" "first # ts = p @ r" "p \<noteq> []" "q \<noteq> []"
              "common_prefix_len (rn_edge child) (first # ts) = length p" "r \<noteq> [] \<Longrightarrow> hd r \<noteq> hd q"
            using split_parts [OF ch(2,3)] by metis
          show ?thesis
            unfolding ensure_node_split [OF Some s(1,2,4,5)]
            using Cons wf Some comps_edge_split [OF s(1,4,6)]
            by (auto simp: bt_get_insert bt_get_remove)
        qed
      qed
    qed
  qed
qed

lemma ensure_node_reaches:
  assumes "radix_wf n"
  shows "node_at (fst (ensure_node n ts splits)) ts \<noteq> None"
  using assms
proof (induction n ts splits rule: ensure_node.induct)
  case (1 n splits)
  then show ?case by simp
next
  case (2 e c kids first ts splits)
  have wf: "bt_wf kids" using 2(2) by simp
  show ?case
  proof (cases "bt_get kids first")
    case None
    then show ?thesis using wf by (simp add: bt_get_insert new_node_def)
  next
    case (Some child)
    note ch = radix_wf_child [OF 2(2) Some]
    show ?thesis
    proof (cases "common_prefix_len (rn_edge child) (first # ts) = length (rn_edge child)")
      case True
      then have "prefix (rn_edge child) (first # ts)" by (simp add: common_prefix_full)
      moreover have "rn_edge (fst (ensure_node child (drop (length (rn_edge child)) (first # ts)) splits)) = rn_edge child"
        using ensure_node_wf [OF ch(1)] by blast
      ultimately show ?thesis using Some True 2(1) [OF Some refl refl True ch(1)]
        by (simp add: Let_def bt_get_modify)
    next
      case False
      then obtain p q r where s: "rn_edge child = p @ q" "first # ts = p @ r" "p \<noteq> []" "q \<noteq> []"
          "common_prefix_len (rn_edge child) (first # ts) = length p" "r \<noteq> [] \<Longrightarrow> hd r \<noteq> hd q"
        using split_parts [OF ch(2,3)] by metis
      have "node_at (split_node p q r child) r \<noteq> None"
      proof (cases r)
        case (Cons a r')
        then show ?thesis using s(6) by (auto simp: split_node_def bt_get_Cons new_node_def)
      qed simp
      moreover have "rn_edge (split_node p q r child) = p" by (simp add: split_node_def)
      moreover have "bt_get (bt_insert first (split_node p q r child) (bt_remove first kids)) first =
          Some (split_node p q r child)"
        using wf by (simp add: bt_get_insert)
      moreover have "prefix p (first # ts)" "drop (length p) (first # ts) = r"
        by (simp_all only: s(2)) simp_all
      ultimately show ?thesis
        unfolding ensure_node_split [OF Some s(1,2,4,5)] by simp
    qed
  qed
qed

section \<open>Writes at a path\<close>

lemma set_components_sel [simp]:
  "rn_edge (set_components g n) = rn_edge n" "rn_children (set_components g n) = rn_children n"
  "rn_components (set_components g n) = g (rn_components n)"
  by (simp_all add: set_components_def)

lemma modify_at_edge [simp]: "rn_edge (modify_at (set_components g) n ts) = rn_edge n"
  by (cases "(set_components g, n, ts)" rule: modify_at.cases) (auto split: option.split)

lemma modify_at_wf:
  assumes "radix_wf n"
  shows "radix_wf (modify_at (set_components g) n ts)"
  using assms
proof (induction "set_components g" n ts rule: modify_at.induct)
  case (1 n)
  then show ?case by (cases n) (simp add: set_components_def)
next
  case (2 e c kids t ts)
  show ?case
  proof (cases "bt_get kids t")
    case (Some child)
    note ch = radix_wf_child [OF 2(2) Some]
    show ?thesis
    proof (cases "prefix (rn_edge child) (t # ts)")
      case True
      show ?thesis using Some True radix_wf_replace [OF 2(2) Some 2(1) [OF Some True ch(1)]]
        by (simp del: radix_wf.simps)
    qed (use Some 2(2) in simp)
  qed (use 2(2) in simp)
qed

lemma modify_at_comps:
  assumes "radix_wf n" and "node_at n ts \<noteq> None"
  shows "comps_at (modify_at (set_components g) n ts) = (comps_at n)(ts := g (comps_at n ts))"
  using assms
proof (induction "set_components g" n ts rule: modify_at.induct)
  case (1 n)
  show ?case
  proof
    fix us
    show "comps_at (modify_at (set_components g) n []) us = ((comps_at n)([] := g (comps_at n []))) us"
      by (cases n; cases us) (simp_all add: set_components_def)
  qed
next
  case (2 e c kids t ts)
  obtain child where Some: "bt_get kids t = Some child" and pre: "prefix (rn_edge child) (t # ts)"
      and at: "node_at child (drop (length (rn_edge child)) (t # ts)) \<noteq> None"
    using 2(3) by (auto split: option.splits if_splits)
  note ch = radix_wf_child [OF 2(2) Some]
  note IH = 2(1) [OF Some pre ch(1) at]
  have eq: "t # ts = rn_edge child @ drop (length (rn_edge child)) (t # ts)"
    using pre by (metis append_take_drop_id prefix_def append_eq_conv_conj)
  show ?case
  proof
    fix us
    show "comps_at (modify_at (set_components g) (RadixNode e c kids) (t # ts)) us =
      ((comps_at (RadixNode e c kids))(t # ts := g (comps_at (RadixNode e c kids) (t # ts)))) us"
    proof (cases us)
      case Nil
      then show ?thesis using Some pre by simp
    next
      case (Cons a us')
      have same: "drop (length (rn_edge child)) us = drop (length (rn_edge child)) (t # ts) \<longleftrightarrow> us = t # ts"
        if "prefix (rn_edge child) us"
        using that eq by (metis append_take_drop_id prefix_def append_eq_conv_conj)
      show ?thesis
        using Cons Some pre IH same
        by (auto simp: bt_get_modify comps_edge_def simp del: drop_Suc_Cons)
    qed
  qed
qed

section \<open>Pruning\<close>

lemma node_is_empty_comps: "node_is_empty n \<Longrightarrow> comps_edge n ts = no_components"
proof -
  assume "node_is_empty n"
  then have "n = RadixNode (rn_edge n) no_components []"
    by (cases n) (auto simp: node_is_empty_def no_components_def intro: radix_components.equality)
  then show ?thesis by (metis comps_at_childless comps_edge_def)
qed

lemma only_child:
  assumes "radix_wf (RadixNode e c [kg])"
  shows "radix_wf (snd kg)" and "rn_edge (snd kg) \<noteq> []" and "fst kg = hd (rn_edge (snd kg))"
  using assms by auto

lemma collapse_step:
  assumes "radix_wf (RadixNode e c [kg])" and "rc_resident c = None" and "rc_recurrent c = None"
  shows "comps_edge (RadixNode (e @ rn_edge (snd kg)) (rn_components (snd kg)) (rn_children (snd kg))) ts =
    comps_edge (RadixNode e c [kg]) ts"
proof -
  obtain k g where kg: "kg = (k, g)" by (cases kg)
  have c: "c = no_components" using assms(2,3) by (auto simp: no_components_def intro: radix_components.equality)
  have g: "RadixNode (rn_edge g) (rn_components g) (rn_children g) = g" by (cases g) simp
  note o = only_child [OF assms(1)]
  have "comps_at (RadixNode e c [kg]) us = comps_edge g us" for us
  proof (cases us)
    case Nil
    then show ?thesis using o(2) kg by (simp add: comps_edge_def c)
  next
    case (Cons a us')
    then have "\<not> prefix (rn_edge g) us" if "a \<noteq> k" using that o(2,3) kg by (cases "rn_edge g") auto
    then show ?thesis using Cons kg by (auto simp: bt_get_Cons comps_edge_def)
  qed
  then show ?thesis using kg g
    by (simp add: comps_edge_extend comps_edge_def [of "RadixNode e c [(k, g)]"])
qed

lemma collapse_props:
  assumes "radix_wf n"
  shows "radix_wf (collapse n) \<and> comps_edge (collapse n) = comps_edge n
    \<and> (rn_edge n \<noteq> [] \<longrightarrow> rn_edge (collapse n) \<noteq> [] \<and> hd (rn_edge (collapse n)) = hd (rn_edge n))"
  using assms
proof (induction n rule: collapse.induct)
  case (1 e c kids)
  show ?case
  proof (cases "rc_resident c = None \<and> rc_recurrent c = None \<and> length kids = 1")
    case False
    then have "collapse (RadixNode e c kids) = RadixNode e c kids"
      by (subst collapse.simps) (auto split: list.split)
    then show ?thesis using 1(2) by simp
  next
    case True
    then obtain kg where kg: "kids = [kg]" by (auto simp: length_Suc_conv)
    let ?n = "RadixNode (e @ rn_edge (snd kg)) (rn_components (snd kg)) (rn_children (snd kg))"
    have eq: "collapse (RadixNode e c kids) = collapse ?n"
      using True kg by (subst collapse.simps) simp
    note o = only_child [OF 1(2) [unfolded kg]]
    have wf: "radix_wf ?n" using o(1) by (cases "snd kg") simp
    have "comps_edge ?n = comps_edge (RadixNode e c kids)"
      using collapse_step [OF 1(2) [unfolded kg]] True kg by auto
    then show ?thesis unfolding eq using 1(1) [OF _ kg refl wf] True o(2) by auto
  qed
qed

lemma collapse_canonical:
  assumes "radix_canonical n"
  shows "radix_canonical (collapse n) \<and> (node_is_empty (collapse n) \<or> needed (collapse n))"
  using assms
proof (induction n rule: collapse.induct)
  case (1 e c kids)
  show ?case
  proof (cases "rc_resident c = None \<and> rc_recurrent c = None \<and> length kids = 1")
    case False
    then have "collapse (RadixNode e c kids) = RadixNode e c kids"
      by (subst collapse.simps) (auto split: list.split)
    moreover have "2 \<le> length kids \<or> kids = []" if "rc_resident c = None" "rc_recurrent c = None"
      using False that by (cases kids; cases "tl kids") auto
    ultimately show ?thesis using 1(2) by (auto simp: node_is_empty_def needed_def)
  next
    case True
    then obtain kg where kg: "kids = [kg]" by (auto simp: length_Suc_conv)
    let ?n = "RadixNode (e @ rn_edge (snd kg)) (rn_components (snd kg)) (rn_children (snd kg))"
    have eq: "collapse (RadixNode e c kids) = collapse ?n"
      using True kg by (subst collapse.simps) simp
    have "radix_canonical ?n" using 1(2) kg by (cases "snd kg") simp
    then show ?thesis unfolding eq using 1(1) [OF _ kg] True by auto
  qed
qed

lemma map_of_filter_map:
  "distinct (map fst kids) \<Longrightarrow>
   bt_get (filter (\<lambda>kc. P (snd kc)) (map (\<lambda>kc. (fst kc, f (snd kc))) kids)) t =
     (case bt_get kids t of None \<Rightarrow> None | Some x \<Rightarrow> if P (f x) then Some (f x) else None)"
proof (induction kids)
  case (Cons kc kids)
  show ?case
  proof (cases "fst kc = t")
    case True
    then have "t \<notin> set (map fst kids)" using Cons.prems by auto
    then have "bt_get kids t = None" by (simp add: bt_get_None_iff)
    then show ?thesis using Cons True by (auto simp: bt_get_Cons)
  next
    case False
    then show ?thesis using Cons by (auto simp: bt_get_Cons)
  qed
qed simp

lemma normalize_edge [simp]: "rn_edge (normalize_children n) = rn_edge n"
  "rn_components (normalize_children n) = rn_components n"
  by (cases n; simp add: normalize_children.simps)+

lemma normalize_props:
  assumes "radix_wf n"
  shows "radix_wf (normalize_children n) \<and> comps_at (normalize_children n) = comps_at n"
  using assms
proof (induction n rule: normalize_children.induct)
  case (1 e c kids)
  let ?f = "\<lambda>n. collapse (normalize_children n)"
  let ?kids = "filter (\<lambda>kc. \<not> node_is_empty (snd kc)) (map (\<lambda>kc. (fst kc, ?f (snd kc))) kids)"
  have wf: "bt_wf kids" using 1(2) by simp
  have child: "radix_wf (?f (snd kc)) \<and> comps_edge (?f (snd kc)) = comps_edge (snd kc)
      \<and> rn_edge (?f (snd kc)) \<noteq> [] \<and> hd (rn_edge (?f (snd kc))) = fst kc" if kc: "kc \<in> set kids" for kc
  proof -
    have w: "radix_wf (snd kc)" "rn_edge (snd kc) \<noteq> []" "fst kc = hd (rn_edge (snd kc))"
      using 1(2) kc by auto
    note IH = 1(1) [OF kc w(1)]
    have "comps_edge (normalize_children (snd kc)) = comps_edge (snd kc)"
      using IH by (intro ext) (simp add: comps_edge_def)
    then show ?thesis using collapse_props [of "normalize_children (snd kc)"] IH w by auto
  qed
  have "sorted_wrt (<) (map fst ?kids)"
    using wf sorted_wrt_filter [of "(<)" "map fst kids"]
    by (simp add: bt_wf_def sorted_wrt_map sorted_wrt_filter)
  then have "bt_wf ?kids" by (simp add: bt_wf_def)
  then have "radix_wf (normalize_children (RadixNode e c kids))"
    using child by (auto simp: normalize_children.simps)
  moreover have "comps_at (normalize_children (RadixNode e c kids)) us = comps_at (RadixNode e c kids) us" for us
  proof (cases us)
    case Nil
    then show ?thesis by simp
  next
    case (Cons a us')
    show ?thesis
    proof (cases "bt_get kids a")
      case None
      then show ?thesis using Cons map_of_filter_map [OF bt_wf_distinct [OF wf], of "\<lambda>x. \<not> node_is_empty x" ?f a]
        by (simp add: normalize_children.simps)
    next
      case (Some x)
      have x: "comps_edge (?f x) = comps_edge x" using child [OF bt_get_Some_mem [OF Some]] by simp
      show ?thesis using Cons Some x map_of_filter_map [OF bt_wf_distinct [OF wf], of "\<lambda>x. \<not> node_is_empty x" ?f a]
          node_is_empty_comps [of "?f x" us]
        by (simp add: normalize_children.simps)
    qed
  qed
  ultimately show ?case by auto
qed

lemma normalize_canonical: "radix_canonical (normalize_children n)"
proof (induction n rule: normalize_children.induct)
  case (1 e c kids)
  have "radix_canonical (collapse (normalize_children (snd kc)))
      \<and> (node_is_empty (collapse (normalize_children (snd kc))) \<or> needed (collapse (normalize_children (snd kc))))"
    if "kc \<in> set kids" for kc
    using collapse_canonical [OF 1 [OF that]] .
  then show ?case by (auto simp: normalize_children.simps)
qed

section \<open>Insertion leaves nothing to prune\<close>

definition has_component :: "('r, 'e) radix_components \<Rightarrow> bool" where
  "has_component c \<longleftrightarrow> rc_resident c \<noteq> None \<or> rc_recurrent c \<noteq> None"

lemma needed_iff: "needed n \<longleftrightarrow> has_component (rn_components n) \<or> 2 \<le> length (rn_children n)"
  by (auto simp: needed_def has_component_def)

lemma length_bt_remove: "bt_wf m \<Longrightarrow> bt_get m k = Some v \<Longrightarrow> Suc (length (bt_remove k m)) = length m"
  using arg_cong [OF mset_bt_remove, of m k v size] by simp

lemma length_reinsert:
  assumes "bt_wf m" and "bt_get m k = Some v"
  shows "length (bt_insert k w (bt_remove k m)) = length m"
proof -
  have "k \<notin> set (map fst (bt_remove k m))" by (simp only: keys_bt_remove) simp
  then show ?thesis using length_bt_insert [of "bt_remove k m" k w] assms length_bt_remove [OF assms]
    by (simp only: bt_wf_remove if_False)
qed

lemma modify_at_below:
  "ts \<noteq> [] \<Longrightarrow> rn_components (modify_at f n ts) = rn_components n
    \<and> length (rn_children (modify_at f n ts)) = length (rn_children n)"
  by (cases "(f, n, ts)" rule: modify_at.cases) (auto split: option.split)

lemma ensure_node_below:
  assumes "radix_wf n"
  shows "rn_components (fst (ensure_node n ts splits)) = rn_components n
    \<and> length (rn_children n) \<le> length (rn_children (fst (ensure_node n ts splits)))"
proof -
  have "rn_components (fst (ensure_node n ts splits)) = rn_components n"
    using fun_cong [OF ensure_node_comps [OF assms, of ts splits], of "[]"] by simp
  moreover have "length (rn_children n) \<le> length (rn_children (fst (ensure_node n ts splits)))"
  proof (cases "(n, ts, splits)" rule: ensure_node.cases)
    case (2 e c kids first ts splits)
    have wf: "bt_wf kids" using assms 2 by simp
    show ?thesis
    proof (cases "bt_get kids first")
      case None
      then show ?thesis using 2 wf by (simp add: length_bt_insert)
    next
      case (Some child)
      then show ?thesis using 2 length_reinsert [OF wf Some] by (auto simp: Let_def)
    qed
  qed simp
  ultimately show ?thesis by blast
qed

lemma modify_needed:
  assumes "\<And>c. has_component (g c)" and "needed n"
  shows "needed (modify_at (set_components g) n ts)"
  using assms modify_at_below [of ts "set_components g" n]
  by (cases "ts = []") (auto simp: needed_iff)

lemma ensure_modify_needed:
  assumes "\<And>c. has_component (g c)" and "radix_wf n" and "needed n"
  shows "needed (modify_at (set_components g) (fst (ensure_node n ts splits)) ts)"
proof -
  have "needed (fst (ensure_node n ts splits))"
    using assms(3) ensure_node_below [OF assms(2), of ts splits] by (auto simp: needed_iff)
  then show ?thesis by (rule modify_needed [OF assms(1)])
qed

lemma modify_canonical:
  assumes "\<And>c. has_component (g c)" and "radix_canonical n"
  shows "radix_canonical (modify_at (set_components g) n ts)"
  using assms(2)
proof (induction "set_components g" n ts rule: modify_at.induct)
  case (1 n)
  then show ?case by (cases n) (simp add: set_components_def)
next
  case (2 e c kids t ts)
  show ?case
  proof (cases "bt_get kids t")
    case (Some child)
    have child: "radix_canonical child" "needed child"
      using 2(2) bt_get_Some_mem [OF Some] by auto
    show ?thesis
    proof (cases "prefix (rn_edge child) (t # ts)")
      case True
      then show ?thesis
        using Some 2(2) 2(1) [OF Some True child(1)] modify_needed [OF assms(1) child(2)]
        by (auto simp: bt_modify_def)
    qed (use Some 2(2) in simp)
  qed (use 2(2) in simp)
qed

lemma canonical_replace:
  assumes "radix_canonical (RadixNode e c kids)" and "radix_canonical x" and "needed x"
    and "\<And>kc. kc \<in> set ks \<Longrightarrow> kc \<in> set kids \<or> kc = (k, x)"
  shows "radix_canonical (RadixNode e' c' ks)"
  unfolding radix_canonical.simps
proof
  fix kc assume "kc \<in> set ks"
  then show "needed (snd kc) \<and> radix_canonical (snd kc)"
    using assms(1-3) assms(4) [of kc] by (cases "kc = (k, x)") auto
qed

lemma canonical_new [simp]: "radix_canonical (new_node e)"
  by (simp add: new_node_def)

lemma ensure_modify_canonical:
  assumes g: "\<And>c. has_component (g c)" and "radix_wf n" and "radix_canonical n"
  shows "radix_canonical (modify_at (set_components g) (fst (ensure_node n ts splits)) ts)"
  using assms(2,3)
proof (induction n ts splits rule: ensure_node.induct)
  case (1 n splits)
  then show ?case by (cases n) (simp add: set_components_def)
next
  case (2 e c kids first ts splits)
  have wf: "bt_wf kids" using 2(2) by simp
  show ?case
  proof (cases "bt_get kids first")
    case None
    then show ?thesis
      using 2(3) wf g set_bt_insert [of first "new_node (first # ts)" kids]
      by (fastforce simp: bt_get_insert bt_modify_def needed_iff new_node_def set_components_def)
  next
    case (Some child)
    note ch = radix_wf_child [OF 2(2) Some]
    have child: "radix_canonical child" "needed child" using 2(3) bt_get_Some_mem [OF Some] by auto
    show ?thesis
    proof (cases "common_prefix_len (rn_edge child) (first # ts) = length (rn_edge child)")
      case True
      let ?rest = "drop (length (rn_edge child)) (first # ts)"
      let ?E = "fst (ensure_node child ?rest splits)"
      have pre: "prefix (rn_edge child) (first # ts)" using True by (simp add: common_prefix_full)
      have edge: "rn_edge ?E = rn_edge child" using ensure_node_wf [OF ch(1)] by blast
      have can: "radix_canonical (modify_at (set_components g) ?E ?rest)"
        using 2(1) [OF Some refl refl True ch(1) child(1)] True by simp
      have need: "needed (modify_at (set_components g) ?E ?rest)"
        by (rule ensure_modify_needed [OF g ch(1) child(2)])
      have eq: "modify_at (set_components g) (fst (ensure_node (RadixNode e c kids) (first # ts) splits)) (first # ts)
          = RadixNode e c (bt_modify first (\<lambda>_. modify_at (set_components g) ?E ?rest)
              (bt_modify first (\<lambda>_. ?E) kids))"
        using Some True pre edge by (simp add: Let_def bt_get_modify)
      show ?thesis unfolding eq
        by (rule canonical_replace [OF 2(3) can need, where k = first])
          (auto simp: bt_modify_def split: if_splits)
    next
      case False
      then obtain p q r where s: "rn_edge child = p @ q" "first # ts = p @ r" "p \<noteq> []" "q \<noteq> []"
          "common_prefix_len (rn_edge child) (first # ts) = length p" "r \<noteq> [] \<Longrightarrow> hd r \<noteq> hd q"
        using split_parts [OF ch(2,3)] by metis
      let ?S = "split_node p q r child" and ?X = "RadixNode q (rn_components child) (rn_children child)"
      let ?M = "modify_at (set_components g) ?S r"
      have X: "radix_canonical ?X" "needed ?X" using child by (cases child; simp add: needed_iff)+
      have M: "radix_canonical ?M \<and> needed ?M"
      proof (cases r)
        case Nil
        then show ?thesis using X g by (simp add: split_node_def set_components_def needed_iff)
      next
        case (Cons a r')
        have ne: "hd q \<noteq> a" using s(6) Cons by auto
        have "needed (modify_at (set_components g) (new_node r) [])"
          "radix_canonical (modify_at (set_components g) (new_node r) [])"
          using g by (simp_all add: needed_iff set_components_def)
        then show ?thesis using X Cons ne
          by (auto simp: split_node_def bt_get_Cons bt_modify_def needed_iff)
      qed
      have get: "bt_get (bt_insert first ?S (bt_remove first kids)) first = Some ?S"
        using wf by (simp add: bt_get_insert)
      have pre: "prefix p (first # ts)" "drop (length p) (first # ts) = r"
        by (simp_all only: s(2)) simp_all
      have S: "rn_edge ?S = p" by (simp add: split_node_def)
      have "modify_at (set_components g) (fst (ensure_node (RadixNode e c kids) (first # ts) splits)) (first # ts)
          = RadixNode e c (bt_modify first (\<lambda>_. ?M) (bt_insert first ?S (bt_remove first kids)))"
        unfolding ensure_node_split [OF Some s(1,2,4,5)] using get pre S by simp
      moreover have "kc \<in> set kids \<or> kc = (first, ?M)"
        if kc: "kc \<in> set (bt_modify first (\<lambda>_. ?M) (bt_insert first ?S (bt_remove first kids)))" for kc
        using kc set_bt_insert_wf [of "bt_remove first kids" first ?S] wf
        by (auto simp: bt_modify_def set_bt_remove split: if_splits)
      ultimately show ?thesis using canonical_replace [OF 2(3)] M by metis
    qed
  qed
qed

end
