(* ===== verification/RadixCache.thy ===== *)
theory RadixCache
  imports RadixTreeProps
begin

text \<open>
  \<open>UnifiedRadixCache\<close> of \<open>crates/skippy-cache/src/radix.rs\<close>: one radix tree per namespace, shared
  by the resident-KV and the recurrent-state components. The operations of the two components are
  textually the same code at a different field of the node, so each is one definition that takes
  the field's reader \<open>get\<close> and its update \<open>upd\<close>; the named operations of the source are its two
  instances. A method that changes the cache returns its result and the new cache. Predicates
  passed as closures are pure functions.
\<close>

section \<open>State\<close>

record ('r, 'e) unified_radix_cache =
  ux_clock :: nat
  ux_splits :: nat
  ux_resident_evictions :: nat
  ux_recurrent_evictions :: nat
  ux_roots :: "(string \<times> ('r, 'e) radix_node) list"

record 'v radix_match =
  rm_matched_tokens :: nat
  rm_stored_tokens :: "int list"
  rm_logical_bytes :: nat
  rm_active_refs :: nat
  rm_value :: 'v

record 'v radix_eviction =
  re_namespace :: string
  re_tokens :: "int list"
  re_logical_bytes :: nat
  re_value :: 'v

text \<open>The two \<open>bail!\<close>s of an insertion.\<close>

datatype radix_error = EmptyKey | ActiveEntry

type_synonym ('r, 'e, 'v) slot_get = "('r, 'e) radix_components \<Rightarrow> 'v component_entry option"
type_synonym ('r, 'e, 'v) slot_upd = "('v component_entry option \<Rightarrow> 'v component_entry option) \<Rightarrow>
    ('r, 'e) radix_components \<Rightarrow> ('r, 'e) radix_components"

definition new_cache :: "('r, 'e) unified_radix_cache" where
  "new_cache = \<lparr>ux_clock = 0, ux_splits = 0, ux_resident_evictions = 0, ux_recurrent_evictions = 0,
     ux_roots = []\<rparr>"

definition entry_at :: "('r, 'e, 'v) slot_get \<Rightarrow> ('r, 'e) radix_node \<Rightarrow> int list \<Rightarrow> 'v component_entry option" where
  "entry_at get root tokens = Option.bind (node_at root tokens) (\<lambda>n. get (rn_components n))"

definition write_entry :: "('r, 'e, 'v) slot_upd \<Rightarrow> 'v component_entry option \<Rightarrow> ('r, 'e) radix_node \<Rightarrow>
    int list \<Rightarrow> ('r, 'e) radix_node" where
  "write_entry upd entry root tokens = modify_at (set_components (upd (\<lambda>_. entry))) root tokens"

definition cached_entry :: "('r, 'e, 'v) slot_get \<Rightarrow> string \<Rightarrow> int list \<Rightarrow> ('r, 'e) unified_radix_cache \<Rightarrow>
    'v component_entry option" where
  "cached_entry get namespace tokens st =
     Option.bind (bt_get (ux_roots st) namespace) (\<lambda>root. entry_at get root tokens)"

section \<open>Insertion and removal\<close>

definition place_component :: "('r, 'e, 'v) slot_get \<Rightarrow> ('r, 'e, 'v) slot_upd \<Rightarrow> string \<Rightarrow> int list \<Rightarrow>
    nat \<Rightarrow> 'v \<Rightarrow> ('r, 'e) unified_radix_cache \<Rightarrow> 'v option \<times> ('r, 'e) unified_radix_cache" where
  "place_component get upd namespace tokens bytes v st =
     (let last_used = sat_add (ux_clock st) 1;
          root = (case bt_get (ux_roots st) namespace of Some r \<Rightarrow> r | None \<Rightarrow> root_node);
          (root', splits) = ensure_node root tokens (ux_splits st);
          old = entry_at get root' tokens;
          entry = \<lparr>ce_value = v, ce_logical_bytes = bytes, ce_last_used = last_used, ce_active_refs = 0\<rparr>
      in (map_option ce_value old,
          st\<lparr>ux_clock := last_used, ux_splits := splits,
             ux_roots := hl_put namespace (write_entry upd (Some entry) root' tokens) (ux_roots st)\<rparr>))"

definition insert_component :: "('r, 'e, 'v) slot_get \<Rightarrow> ('r, 'e, 'v) slot_upd \<Rightarrow> string \<Rightarrow> int list \<Rightarrow>
    nat \<Rightarrow> 'v \<Rightarrow> ('r, 'e) unified_radix_cache \<Rightarrow>
    (radix_error + 'v option) \<times> ('r, 'e) unified_radix_cache" where
  "insert_component get upd namespace tokens bytes v st =
     (if tokens = [] then (Inl EmptyKey, st)
      else if (case cached_entry get namespace tokens st of
                 Some entry \<Rightarrow> 0 < ce_active_refs entry | None \<Rightarrow> False)
      then (Inl ActiveEntry, st)
      else (let r = place_component get upd namespace tokens bytes v st in (Inr (fst r), snd r)))"

definition insert_resident where
  "insert_resident = insert_component rc_resident rc_resident_update"

definition insert_recurrent where
  "insert_recurrent = insert_component rc_recurrent rc_recurrent_update"

definition insert_resident_if_vacant :: "string \<Rightarrow> int list \<Rightarrow> nat \<Rightarrow> 'r \<Rightarrow>
    ('r, 'e) unified_radix_cache \<Rightarrow> (radix_error + 'r option) \<times> ('r, 'e) unified_radix_cache" where
  "insert_resident_if_vacant namespace tokens bytes v st =
     (if tokens = [] then (Inl EmptyKey, st)
      else if cached_entry rc_resident namespace tokens st \<noteq> None then (Inr (Some v), st)
      else (Inr None, snd (place_component rc_resident rc_resident_update namespace tokens bytes v st)))"

definition remove_component :: "('r, 'e, 'v) slot_get \<Rightarrow> ('r, 'e, 'v) slot_upd \<Rightarrow> string \<Rightarrow> int list \<Rightarrow>
    ('r, 'e) unified_radix_cache \<Rightarrow> 'v option \<times> ('r, 'e) unified_radix_cache" where
  "remove_component get upd namespace tokens st =
     (case bt_get (ux_roots st) namespace of
        None \<Rightarrow> (None, st)
      | Some root \<Rightarrow>
          (case entry_at get root tokens of
             None \<Rightarrow> (None, st)
           | Some entry \<Rightarrow>
               (let root' = normalize_children (write_entry upd None root tokens)
                in (Some (ce_value entry),
                    st\<lparr>ux_roots := (if node_is_empty root' then bt_remove namespace (ux_roots st)
                                    else hl_put namespace root' (ux_roots st))\<rparr>))))"

definition remove_resident where
  "remove_resident = remove_component rc_resident rc_resident_update"

definition remove_recurrent where
  "remove_recurrent = remove_component rc_recurrent rc_recurrent_update"

definition remove_recurrent_if :: "string \<Rightarrow> int list \<Rightarrow> ('e \<Rightarrow> bool) \<Rightarrow>
    ('r, 'e) unified_radix_cache \<Rightarrow> 'e option \<times> ('r, 'e) unified_radix_cache" where
  "remove_recurrent_if namespace tokens predicate st =
     (if (case cached_entry rc_recurrent namespace tokens st of
            Some entry \<Rightarrow> ce_active_refs entry = 0 \<and> predicate (ce_value entry) | None \<Rightarrow> False)
      then remove_recurrent namespace tokens st else (None, st))"

definition eviction_of :: "string \<Rightarrow> int list \<Rightarrow> nat \<Rightarrow> 'v option \<times> ('r, 'e) unified_radix_cache \<Rightarrow>
    'v radix_eviction option \<times> ('r, 'e) unified_radix_cache" where
  "eviction_of namespace tokens bytes r =
     (map_option (\<lambda>v. \<lparr>re_namespace = namespace, re_tokens = tokens, re_logical_bytes = bytes,
        re_value = v\<rparr>) (fst r), snd r)"

definition remove_resident_where :: "('r \<Rightarrow> bool) \<Rightarrow> ('r, 'e) unified_radix_cache \<Rightarrow>
    'r radix_eviction option \<times> ('r, 'e) unified_radix_cache" where
  "remove_resident_where predicate st =
     (case find_map (\<lambda>nr. map_option (Pair (fst nr)) (find_resident_path predicate [] (snd nr)))
             (ux_roots st) of
        None \<Rightarrow> (None, st)
      | Some (namespace, tokens, bytes) \<Rightarrow>
          eviction_of namespace tokens bytes (remove_resident namespace tokens st))"

definition remove_recurrent_where :: "('e \<Rightarrow> bool) \<Rightarrow> ('r, 'e) unified_radix_cache \<Rightarrow>
    'e radix_eviction option \<times> ('r, 'e) unified_radix_cache" where
  "remove_recurrent_where predicate st =
     (case find_map (\<lambda>nr. map_option (Pair (fst nr)) (find_recurrent_path predicate [] (snd nr)))
             (ux_roots st) of
        None \<Rightarrow> (None, st)
      | Some (namespace, tokens, bytes) \<Rightarrow>
          eviction_of namespace tokens bytes (remove_recurrent namespace tokens st))"

section \<open>Eviction\<close>

definition lru_victim :: "component_kind \<Rightarrow> ('r, 'e) unified_radix_cache \<Rightarrow> victim option" where
  "lru_victim kind st =
     foldl (\<lambda>v nr. collect_lru_victim (fst nr) kind [] (snd nr) v) None (ux_roots st)"

definition evict_resident_candidate :: "string \<Rightarrow> int list \<Rightarrow> ('r, 'e) unified_radix_cache \<Rightarrow>
    'r radix_eviction option \<times> ('r, 'e) unified_radix_cache" where
  "evict_resident_candidate namespace tokens st =
     (case cached_entry rc_resident namespace tokens st of
        None \<Rightarrow> (None, st)
      | Some entry \<Rightarrow>
          if 0 < ce_active_refs entry then (None, st)
          else (case remove_resident namespace tokens st of
                  (None, st') \<Rightarrow> (None, st')
                | (Some v, st') \<Rightarrow>
                    (Some \<lparr>re_namespace = namespace, re_tokens = tokens,
                           re_logical_bytes = ce_logical_bytes entry, re_value = v\<rparr>,
                     st'\<lparr>ux_resident_evictions := sat_add (ux_resident_evictions st') 1\<rparr>)))"

definition evict_lru_resident :: "('r, 'e) unified_radix_cache \<Rightarrow>
    'r radix_eviction option \<times> ('r, 'e) unified_radix_cache" where
  "evict_lru_resident st =
     (case lru_victim ResidentKv st of
        None \<Rightarrow> (None, st)
      | Some victim \<Rightarrow> evict_resident_candidate (vc_namespace victim) (vc_tokens victim) st)"

definition evict_lru_recurrent :: "('r, 'e) unified_radix_cache \<Rightarrow>
    'e radix_eviction option \<times> ('r, 'e) unified_radix_cache" where
  "evict_lru_recurrent st =
     (case lru_victim KvRecurrent st of
        None \<Rightarrow> (None, st)
      | Some victim \<Rightarrow>
          (case remove_recurrent (vc_namespace victim) (vc_tokens victim) st of
             (None, st') \<Rightarrow> (None, st')
           | (Some v, st') \<Rightarrow>
               (Some \<lparr>re_namespace = vc_namespace victim, re_tokens = vc_tokens victim,
                      re_logical_bytes = vc_logical_bytes victim, re_value = v\<rparr>,
                st'\<lparr>ux_recurrent_evictions := sat_add (ux_recurrent_evictions st') 1\<rparr>)))"

definition lru_candidate :: "component_kind \<Rightarrow> ('r, 'e, 'v) slot_get \<Rightarrow> ('r, 'e) unified_radix_cache \<Rightarrow>
    'v radix_eviction option" where
  "lru_candidate kind get st =
     Option.bind (lru_victim kind st) (\<lambda>victim.
       map_option (\<lambda>entry. \<lparr>re_namespace = vc_namespace victim, re_tokens = vc_tokens victim,
           re_logical_bytes = vc_logical_bytes victim, re_value = ce_value entry\<rparr>)
         (cached_entry get (vc_namespace victim) (vc_tokens victim) st))"

definition lru_resident_candidate where
  "lru_resident_candidate = lru_candidate ResidentKv rc_resident"

definition lru_recurrent_candidate where
  "lru_recurrent_candidate = lru_candidate KvRecurrent rc_recurrent"

definition resident_eviction_candidates :: "('r, 'e) unified_radix_cache \<Rightarrow> 'r radix_eviction_candidate list" where
  "resident_eviction_candidates st =
     concat (map (\<lambda>nr. collect_resident_eviction_candidates (fst nr) [] (snd nr)) (ux_roots st))"

section \<open>Lookups and references\<close>

definition match_of :: "nat \<Rightarrow> int list \<Rightarrow> 'v component_entry \<Rightarrow> 'v radix_match" where
  "match_of matched stored entry =
     \<lparr>rm_matched_tokens = matched, rm_stored_tokens = stored,
      rm_logical_bytes = ce_logical_bytes entry, rm_active_refs = ce_active_refs entry,
      rm_value = ce_value entry\<rparr>"

text \<open>The write through the found entry; \<open>acquire\<close> also takes a reference.\<close>

definition touch_entry :: "('r, 'e, 'v) slot_get \<Rightarrow> ('r, 'e, 'v) slot_upd \<Rightarrow> bool \<Rightarrow> string \<Rightarrow> nat \<Rightarrow>
    int list \<Rightarrow> ('r, 'e) unified_radix_cache \<Rightarrow> 'v radix_match option \<times> ('r, 'e) unified_radix_cache" where
  "touch_entry get upd acquire namespace matched stored st =
     (case bt_get (ux_roots st) namespace of
        None \<Rightarrow> (None, st)
      | Some root \<Rightarrow>
          (case entry_at get root stored of
             None \<Rightarrow> (None, st)
           | Some entry \<Rightarrow>
               (let entry' = entry\<lparr>ce_last_used := ux_clock st,
                      ce_active_refs := (if acquire then sat_add32 (ce_active_refs entry) 1
                                         else ce_active_refs entry)\<rparr>
                in (Some (match_of matched stored entry'),
                    st\<lparr>ux_roots := hl_put namespace (write_entry upd (Some entry') root stored)
                                    (ux_roots st)\<rparr>))))"

definition tick :: "('r, 'e) unified_radix_cache \<Rightarrow> ('r, 'e) unified_radix_cache" where
  "tick st = st\<lparr>ux_clock := sat_add (ux_clock st) 1\<rparr>"

definition resident_match :: "string \<Rightarrow> int list \<Rightarrow> ('r, 'e) unified_radix_cache \<Rightarrow> (nat \<times> int list) option" where
  "resident_match namespace tokens st =
     Option.bind (bt_get (ux_roots st) namespace) (\<lambda>root. resident_backing_prefix root tokens)"

definition recurrent_match :: "string \<Rightarrow> int list \<Rightarrow> ('r, 'e) unified_radix_cache \<Rightarrow> (nat \<times> int list) option" where
  "recurrent_match namespace tokens st =
     Option.bind (bt_get (ux_roots st) namespace) (\<lambda>root.
       map_option (\<lambda>matched. (matched, take matched tokens))
         (longest_component_prefix root tokens KvRecurrent))"

definition touch_match :: "('r, 'e, 'v) slot_get \<Rightarrow> ('r, 'e, 'v) slot_upd \<Rightarrow> bool \<Rightarrow> string \<Rightarrow>
    (nat \<times> int list) option \<Rightarrow> ('r, 'e) unified_radix_cache \<Rightarrow>
    'v radix_match option \<times> ('r, 'e) unified_radix_cache" where
  "touch_match get upd acquire namespace m st =
     (case m of None \<Rightarrow> (None, st)
      | Some (matched, stored) \<Rightarrow> touch_entry get upd acquire namespace matched stored st)"

definition peek_match :: "('r, 'e, 'v) slot_get \<Rightarrow> string \<Rightarrow> (nat \<times> int list) option \<Rightarrow>
    ('r, 'e) unified_radix_cache \<Rightarrow> 'v radix_match option" where
  "peek_match get namespace m st =
     Option.bind m (\<lambda>(matched, stored).
       map_option (match_of matched stored) (cached_entry get namespace stored st))"

definition peek_resident where
  "peek_resident namespace tokens st =
     peek_match rc_resident namespace (resident_match namespace tokens st) st"

definition peek_recurrent where
  "peek_recurrent namespace tokens st =
     peek_match rc_recurrent namespace (recurrent_match namespace tokens st) st"

definition resident_exact where
  "resident_exact namespace tokens st =
     touch_entry rc_resident rc_resident_update False namespace (length tokens) tokens (tick st)"

definition recurrent_exact where
  "recurrent_exact namespace tokens st =
     touch_entry rc_recurrent rc_recurrent_update False namespace (length tokens) tokens (tick st)"

definition lookup_resident where
  "lookup_resident namespace tokens st =
     touch_match rc_resident rc_resident_update False namespace (resident_match namespace tokens st) (tick st)"

definition lookup_recurrent where
  "lookup_recurrent namespace tokens st =
     touch_match rc_recurrent rc_recurrent_update False namespace (recurrent_match namespace tokens st) (tick st)"

definition acquire_resident where
  "acquire_resident namespace tokens st =
     touch_match rc_resident rc_resident_update True namespace (resident_match namespace tokens st) (tick st)"

definition acquire_recurrent where
  "acquire_recurrent namespace tokens st =
     touch_match rc_recurrent rc_recurrent_update True namespace (recurrent_match namespace tokens st) (tick st)"

definition release_component :: "('r, 'e, 'v) slot_get \<Rightarrow> ('r, 'e, 'v) slot_upd \<Rightarrow> string \<Rightarrow> int list \<Rightarrow>
    ('r, 'e) unified_radix_cache \<Rightarrow> bool \<times> ('r, 'e) unified_radix_cache" where
  "release_component get upd namespace tokens st =
     (case bt_get (ux_roots st) namespace of
        None \<Rightarrow> (False, st)
      | Some root \<Rightarrow>
          (case entry_at get root tokens of
             None \<Rightarrow> (False, st)
           | Some entry \<Rightarrow>
               if ce_active_refs entry = 0 then (False, st)
               else
                 (let clock = sat_add (ux_clock st) 1;
                      entry' = entry\<lparr>ce_active_refs := ce_active_refs entry - 1, ce_last_used := clock\<rparr>
                  in (True, st\<lparr>ux_clock := clock,
                       ux_roots := hl_put namespace (write_entry upd (Some entry') root tokens)
                                     (ux_roots st)\<rparr>))))"

definition release_resident where
  "release_resident = release_component rc_resident rc_resident_update"

definition release_recurrent where
  "release_recurrent = release_component rc_recurrent rc_recurrent_update"

definition release_resident_where :: "('r \<Rightarrow> bool) \<Rightarrow> ('r, 'e) unified_radix_cache \<Rightarrow>
    bool \<times> ('r, 'e) unified_radix_cache" where
  "release_resident_where predicate st =
     (case find_map (\<lambda>nr. map_option (Pair (fst nr)) (find_resident_path predicate [] (snd nr)))
             (ux_roots st) of
        None \<Rightarrow> (False, st)
      | Some (namespace, tokens, _) \<Rightarrow> release_resident namespace tokens st)"

section \<open>Statistics\<close>

definition radix_stats :: "('r, 'e) unified_radix_cache \<Rightarrow> unified_radix_cache_stats" where
  "radix_stats st =
     foldl (\<lambda>s nr. accumulate_stats (snd nr) True 0 s)
       \<lparr>st_namespaces = length (ux_roots st), st_nodes = 0, st_token_edges = 0,
        st_splits = ux_splits st, st_resident_entries = 0, st_resident_tokens = 0,
        st_resident_logical_bytes = 0, st_resident_active_refs = 0, st_resident_pinned_tokens = 0,
        st_recurrent_entries = 0, st_recurrent_logical_bytes = 0, st_recurrent_active_refs = 0,
        st_resident_evictions = ux_resident_evictions st,
        st_recurrent_evictions = ux_recurrent_evictions st\<rparr>
       (ux_roots st)"

definition epoch :: "('r, 'e) unified_radix_cache \<Rightarrow> nat" where
  "epoch st = ux_clock st"

end
