(* ===== verification/RadixRefinement.thy ===== *)
theory RadixRefinement
  imports RadixCache
begin

text \<open>
  The cache as a map: \<open>cache_view\<close> gives the components stored under a namespace and a token
  sequence. Every operation of the cache acts on that map as on a plain map: the compressed tree,
  its splits and its pruning are invisible. The laws of a component's field are the locale
  \<open>component_slot\<close>, interpreted for the resident and the recurrent component.
\<close>

section \<open>Valid caches and their map\<close>

definition valid_root :: "('r, 'e) radix_node \<Rightarrow> bool" where
  "valid_root root \<longleftrightarrow> radix_wf root \<and> radix_canonical root \<and> rn_edge root = []
     \<and> rn_components root = no_components"

definition radix_valid :: "('r, 'e) unified_radix_cache \<Rightarrow> bool" where
  "radix_valid st \<longleftrightarrow> distinct (map fst (ux_roots st))
     \<and> (\<forall>nr \<in> set (ux_roots st). valid_root (snd nr) \<and> rn_children (snd nr) \<noteq> [])"

definition cache_view :: "('r, 'e) unified_radix_cache \<Rightarrow> string \<Rightarrow> int list \<Rightarrow> ('r, 'e) radix_components" where
  "cache_view st namespace tokens = (case bt_get (ux_roots st) namespace of
      None \<Rightarrow> no_components | Some root \<Rightarrow> comps_at root tokens)"

definition view_put :: "string \<Rightarrow> int list \<Rightarrow> 'c \<Rightarrow> (string \<Rightarrow> int list \<Rightarrow> 'c) \<Rightarrow> string \<Rightarrow> int list \<Rightarrow> 'c" where
  "view_put namespace tokens c m = m(namespace := (m namespace)(tokens := c))"

lemma view_put_same [simp]: "view_put n t c m n t = c"
  by (simp add: view_put_def)

lemma view_put_other: "(n', t') \<noteq> (n, t) \<Longrightarrow> view_put n t c m n' t' = m n' t'"
  by (auto simp: view_put_def)

lemma view_put_id: "view_put n t (m n t) m = m"
  by (simp add: view_put_def)

lemma valid_root_node [simp]: "valid_root root_node"
  by (simp add: valid_root_def) (simp add: root_node_def)

lemma radix_valid_get: "radix_valid st \<Longrightarrow> bt_get (ux_roots st) n = Some root \<Longrightarrow>
    valid_root root \<and> rn_children root \<noteq> []"
  using bt_get_Some_mem [of "ux_roots st" n root] by (auto simp: radix_valid_def)

lemma radix_valid_new [simp]: "radix_valid new_cache"
  by (simp add: radix_valid_def new_cache_def)

text \<open>Storing a tree under a namespace.\<close>

lemma set_hl_put: "set (hl_put k v m) \<subseteq> insert (k, v) (set m)"
  by (auto simp: hl_put_def bt_modify_def split: if_splits)

lemma store_valid:
  assumes "radix_valid st" and "valid_root root" and "rn_children root \<noteq> []"
    and "ux_roots st' = hl_put namespace root (ux_roots st)"
  shows "radix_valid st'"
  using assms set_hl_put [of namespace root "ux_roots st"] hl.wf_put [of "ux_roots st" namespace root]
  by (fastforce simp: radix_valid_def)

lemma store_view:
  assumes "ux_roots st' = hl_put namespace root (ux_roots st)"
    and "comps_at root = (cache_view st namespace)(tokens := c)"
  shows "cache_view st' = view_put namespace tokens c (cache_view st)"
  using assms by (auto simp: cache_view_def hl_get_put view_put_def fun_eq_iff)

section \<open>The field of a component\<close>

locale component_slot =
  fixes get :: "('r, 'e) radix_components \<Rightarrow> 'v component_entry option"
    and upd :: "('v component_entry option \<Rightarrow> 'v component_entry option) \<Rightarrow>
      ('r, 'e) radix_components \<Rightarrow> ('r, 'e) radix_components"
  assumes get_none: "get no_components = None"
    and get_upd: "get (upd f c) = f (get c)"
    and upd_same: "f (get c) = get c \<Longrightarrow> upd f c = c"
    and upd_upd: "upd f (upd g c) = upd (f \<circ> g) c"
    and present: "get c \<noteq> None \<Longrightarrow> has_component c"
begin

lemma entry_at_comps: "entry_at get root tokens = get (comps_at root tokens)"
  by (simp add: entry_at_def comps_at_def get_none split: option.split)

lemma cached_entry_view: "cached_entry get namespace tokens st = get (cache_view st namespace tokens)"
  by (simp add: cached_entry_def cache_view_def entry_at_comps get_none split: option.split)

lemma has_component_upd: "has_component (upd (\<lambda>_. Some e) c)"
  by (rule present) (simp add: get_upd)

lemma entry_reaches: "entry_at get root tokens = Some e \<Longrightarrow> node_at root tokens \<noteq> None"
  by (auto simp: entry_at_def bind_eq_Some_conv)

text \<open>Writing an entry at a path that exists.\<close>

lemma write_existing:
  assumes "valid_root root" and "node_at root tokens \<noteq> None" and "tokens \<noteq> []"
  shows "valid_root (write_entry upd (Some e) root tokens)"
    and "comps_at (write_entry upd x root tokens) =
      (comps_at root)(tokens := upd (\<lambda>_. x) (comps_at root tokens))"
    and "length (rn_children (write_entry upd x root tokens)) = length (rn_children root)"
    and "radix_wf (write_entry upd x root tokens)" and "rn_edge (write_entry upd x root tokens) = []"
    and "rn_components (write_entry upd x root tokens) = no_components"
proof -
  have root: "radix_wf root" "radix_canonical root" "rn_edge root = []" "rn_components root = no_components"
    using assms(1) by (auto simp: valid_root_def)
  note below = modify_at_below [OF assms(3)]
  show "comps_at (write_entry upd x root tokens) =
      (comps_at root)(tokens := upd (\<lambda>_. x) (comps_at root tokens))"
    unfolding write_entry_def by (rule modify_at_comps [OF root(1) assms(2)])
  have kids: "length (rn_children (write_entry upd x root tokens)) = length (rn_children root)"
    and edge: "rn_edge (write_entry upd x root tokens) = []"
    and comps: "rn_components (write_entry upd x root tokens) = no_components"
    and wf: "radix_wf (write_entry upd x root tokens)"
    for x unfolding write_entry_def using root by (auto simp: below intro: modify_at_wf)
  show "length (rn_children (write_entry upd x root tokens)) = length (rn_children root)"
    and "radix_wf (write_entry upd x root tokens)" and "rn_edge (write_entry upd x root tokens) = []"
    and "rn_components (write_entry upd x root tokens) = no_components"
    by (rule kids wf edge comps)+
  show "valid_root (write_entry upd (Some e) root tokens)"
    unfolding valid_root_def using edge comps wf modify_canonical [where g = "upd (\<lambda>_. Some e)", OF has_component_upd root(2)]
    by (simp add: write_entry_def)
qed

text \<open>Inserting a path and writing an entry at its end.\<close>

lemma write_new:
  fixes splits :: nat
  assumes "valid_root root" and "tokens \<noteq> []"
  defines "root' \<equiv> fst (ensure_node root tokens splits)"
  shows "valid_root (write_entry upd (Some e) root' tokens)"
    and "comps_at (write_entry upd (Some e) root' tokens) =
      (comps_at root)(tokens := upd (\<lambda>_. Some e) (comps_at root tokens))"
    and "rn_children (write_entry upd (Some e) root' tokens) \<noteq> []"
    and "entry_at get root' tokens = get (comps_at root tokens)"
proof -
  have root: "radix_wf root" "radix_canonical root" "rn_edge root = []" "rn_components root = no_components"
    using assms(1) by (auto simp: valid_root_def)
  have r': "radix_wf root'" "rn_edge root' = []" "comps_at root' = comps_at root"
    "node_at root' tokens \<noteq> None" "rn_components root' = no_components"
    unfolding root'_def
    using ensure_node_wf [OF root(1), of tokens splits] ensure_node_comps [OF root(1), of tokens splits]
      ensure_node_reaches [OF root(1), of tokens splits] ensure_node_below [OF root(1), of tokens splits] root
    by auto
  note below = modify_at_below [OF assms(2)]
  show "valid_root (write_entry upd (Some e) root' tokens)"
    unfolding valid_root_def write_entry_def
    using r' modify_at_wf [OF r'(1)]
      ensure_modify_canonical [where g = "upd (\<lambda>_. Some e)", OF has_component_upd root(1,2), of tokens splits]
    by (simp add: root'_def below)
  show "comps_at (write_entry upd (Some e) root' tokens) =
      (comps_at root)(tokens := upd (\<lambda>_. Some e) (comps_at root tokens))"
    unfolding write_entry_def by (simp add: modify_at_comps [OF r'(1,4)] r'(3))
  have "rn_children root' \<noteq> []"
    using r'(4) assms(2) by (cases root'; cases tokens) auto
  then show "rn_children (write_entry upd (Some e) root' tokens) \<noteq> []"
    unfolding write_entry_def by (metis below length_0_conv)
  show "entry_at get root' tokens = get (comps_at root tokens)"
    by (simp add: entry_at_comps r'(3))
qed

section \<open>Operations on the map\<close>

lemma place_component_refines:
  assumes "radix_valid st" and "tokens \<noteq> []"
    and r: "place_component get upd namespace tokens bytes v st = (old, st')"
  shows "radix_valid st'"
    and "old = map_option ce_value (get (cache_view st namespace tokens))"
    and "cache_view st' = view_put namespace tokens
      (upd (\<lambda>_. Some \<lparr>ce_value = v, ce_logical_bytes = bytes, ce_last_used = sat_add (ux_clock st) 1,
        ce_active_refs = 0\<rparr>) (cache_view st namespace tokens)) (cache_view st)"
    and "ux_clock st' = sat_add (ux_clock st) 1"
proof -
  let ?root = "case bt_get (ux_roots st) namespace of Some r \<Rightarrow> r | None \<Rightarrow> root_node"
  let ?e = "\<lparr>ce_value = v, ce_logical_bytes = bytes, ce_last_used = sat_add (ux_clock st) 1,
        ce_active_refs = 0\<rparr>"
  have root: "valid_root ?root"
    using radix_valid_get [OF assms(1)] by (auto split: option.split)
  have view: "comps_at ?root = cache_view st namespace"
    by (auto simp: cache_view_def fun_eq_iff root_node_def split: option.split)
  let ?r' = "fst (ensure_node ?root tokens (ux_splits st))"
  note w = write_new [OF root assms(2), where splits = "ux_splits st"]
  have st': "st' = st\<lparr>ux_clock := sat_add (ux_clock st) 1,
      ux_splits := snd (ensure_node ?root tokens (ux_splits st)),
      ux_roots := hl_put namespace (write_entry upd (Some ?e) ?r' tokens) (ux_roots st)\<rparr>"
    and old: "old = map_option ce_value (entry_at get ?r' tokens)"
    using r by (auto simp: place_component_def Let_def split_beta)
  show "radix_valid st'" by (rule store_valid [OF assms(1) w(1,3)]) (simp add: st')
  show "old = map_option ce_value (get (cache_view st namespace tokens))"
    using old w(4) view by simp
  show "cache_view st' = view_put namespace tokens (upd (\<lambda>_. Some ?e) (cache_view st namespace tokens))
      (cache_view st)"
    by (rule store_view [where root = "write_entry upd (Some ?e) ?r' tokens"])
      (simp add: st', simp add: w(2) [unfolded view])
  show "ux_clock st' = sat_add (ux_clock st) 1" by (simp add: st')
qed

lemma touch_entry_refines:
  assumes "radix_valid st" and "stored \<noteq> []"
    and r: "touch_entry get upd acquire namespace matched stored st = (m, st')"
  shows "radix_valid st' \<and> (case get (cache_view st namespace stored) of
      None \<Rightarrow> m = None \<and> st' = st
    | Some entry \<Rightarrow>
        (let entry' = entry\<lparr>ce_last_used := ux_clock st, ce_active_refs :=
           (if acquire then sat_add32 (ce_active_refs entry) 1 else ce_active_refs entry)\<rparr>
         in m = Some (match_of matched stored entry') \<and> ux_clock st' = ux_clock st
            \<and> cache_view st' = view_put namespace stored
                (upd (\<lambda>_. Some entry') (cache_view st namespace stored)) (cache_view st)))"
proof (cases "get (cache_view st namespace stored)")
  case None
  then have "m = None \<and> st' = st"
    using r by (auto simp: touch_entry_def cache_view_def entry_at_comps split: option.splits)
  then show ?thesis using None assms(1) by simp
next
  case (Some entry)
  then obtain root where root: "bt_get (ux_roots st) namespace = Some root"
      and get: "get (comps_at root stored) = Some entry"
    using get_none by (auto simp: cache_view_def split: option.splits)
  have v: "valid_root root" "rn_children root \<noteq> []" using radix_valid_get [OF assms(1) root] by auto
  have at: "node_at root stored \<noteq> None" by (rule entry_reaches) (simp add: entry_at_comps get)
  let ?e = "entry\<lparr>ce_last_used := ux_clock st, ce_active_refs :=
           (if acquire then sat_add32 (ce_active_refs entry) 1 else ce_active_refs entry)\<rparr>"
  note w = write_existing [OF v(1) at assms(2)]
  have st': "st' = st\<lparr>ux_roots := hl_put namespace (write_entry upd (Some ?e) root stored) (ux_roots st)\<rparr>"
    and m: "m = Some (match_of matched stored ?e)"
    using r root get by (auto simp: touch_entry_def entry_at_comps Let_def)
  have "radix_valid st'"
    by (rule store_valid [OF assms(1) w(1)]) (use w(3) v(2) in \<open>auto simp: st' simp flip: length_greater_0_conv\<close>)
  moreover have "cache_view st' = view_put namespace stored
      (upd (\<lambda>_. Some ?e) (cache_view st namespace stored)) (cache_view st)"
    by (rule store_view [where root = "write_entry upd (Some ?e) root stored"])
      (simp_all add: st' w(2) cache_view_def root fun_eq_iff)
  ultimately show ?thesis using Some m by (simp add: Let_def st')
qed

lemma release_refines:
  assumes "radix_valid st" and "tokens \<noteq> []"
    and r: "release_component get upd namespace tokens st = (b, st')"
  shows "radix_valid st' \<and> (case get (cache_view st namespace tokens) of
      None \<Rightarrow> \<not> b \<and> st' = st
    | Some entry \<Rightarrow>
        if ce_active_refs entry = 0 then \<not> b \<and> st' = st
        else b \<and> ux_clock st' = sat_add (ux_clock st) 1 \<and> cache_view st' = view_put namespace tokens
          (upd (\<lambda>_. Some (entry\<lparr>ce_active_refs := ce_active_refs entry - 1,
             ce_last_used := sat_add (ux_clock st) 1\<rparr>)) (cache_view st namespace tokens)) (cache_view st))"
proof (cases "get (cache_view st namespace tokens)")
  case None
  then have "\<not> b \<and> st' = st"
    using r by (auto simp: release_component_def cache_view_def entry_at_comps split: option.splits)
  then show ?thesis using None assms(1) by simp
next
  case (Some entry)
  then obtain root where root: "bt_get (ux_roots st) namespace = Some root"
      and get: "get (comps_at root tokens) = Some entry"
    using get_none by (auto simp: cache_view_def split: option.splits)
  show ?thesis
  proof (cases "ce_active_refs entry = 0")
    case True
    then show ?thesis using r root get Some assms(1)
      by (simp add: release_component_def entry_at_comps)
  next
    case False
    have v: "valid_root root" "rn_children root \<noteq> []" using radix_valid_get [OF assms(1) root] by auto
    have at: "node_at root tokens \<noteq> None" by (rule entry_reaches) (simp add: entry_at_comps get)
    let ?e = "entry\<lparr>ce_active_refs := ce_active_refs entry - 1, ce_last_used := sat_add (ux_clock st) 1\<rparr>"
    note w = write_existing [OF v(1) at assms(2)]
    have st': "st' = st\<lparr>ux_clock := sat_add (ux_clock st) 1,
        ux_roots := hl_put namespace (write_entry upd (Some ?e) root tokens) (ux_roots st)\<rparr>" and b: b
      using r root get False by (auto simp: release_component_def entry_at_comps Let_def)
    have "radix_valid st'"
      by (rule store_valid [OF assms(1) w(1)]) (use w(3) v(2) in \<open>auto simp: st' simp flip: length_greater_0_conv\<close>)
    moreover have "cache_view st' = view_put namespace tokens
        (upd (\<lambda>_. Some ?e) (cache_view st namespace tokens)) (cache_view st)"
      by (rule store_view [where root = "write_entry upd (Some ?e) root tokens"])
        (simp_all add: st' w(2) cache_view_def root fun_eq_iff)
    ultimately show ?thesis using Some b False by (simp add: st')
  qed
qed

lemma remove_refines:
  assumes "radix_valid st" and "tokens \<noteq> []"
    and r: "remove_component get upd namespace tokens st = (v, st')"
  shows "radix_valid st' \<and> v = map_option ce_value (get (cache_view st namespace tokens))
    \<and> cache_view st' = view_put namespace tokens (upd (\<lambda>_. None) (cache_view st namespace tokens)) (cache_view st)
    \<and> ux_clock st' = ux_clock st \<and> (v = None \<longrightarrow> st' = st)"
proof (cases "get (cache_view st namespace tokens)")
  case None
  then have "v = None \<and> st' = st"
    using r by (auto simp: remove_component_def cache_view_def entry_at_comps split: option.splits)
  then show ?thesis using None assms(1) upd_same [of "\<lambda>_. None"] by (simp add: view_put_id)
next
  case (Some entry)
  then obtain root where root: "bt_get (ux_roots st) namespace = Some root"
      and get: "get (comps_at root tokens) = Some entry"
    using get_none by (auto simp: cache_view_def split: option.splits)
  have v: "valid_root root" "rn_children root \<noteq> []" using radix_valid_get [OF assms(1) root] by auto
  have at: "node_at root tokens \<noteq> None" by (rule entry_reaches) (simp add: entry_at_comps get)
  note w = write_existing [OF v(1) at assms(2)]
  let ?r' = "normalize_children (write_entry upd None root tokens)"
  have norm: "radix_wf ?r'" "comps_at ?r' = (comps_at root)(tokens := upd (\<lambda>_. None) (comps_at root tokens))"
    using normalize_props [OF w(4) [of None]] w(2) [of None] by auto
  have valid: "valid_root ?r'"
    unfolding valid_root_def using norm(1) normalize_canonical w(5,6) by simp
  have view: "comps_at ?r' = (cache_view st namespace)(tokens := upd (\<lambda>_. None) (cache_view st namespace tokens))"
    using norm(2) root by (auto simp: cache_view_def fun_eq_iff)
  have st': "st' = st\<lparr>ux_roots := (if node_is_empty ?r' then bt_remove namespace (ux_roots st)
        else hl_put namespace ?r' (ux_roots st))\<rparr>" and res: "v = Some (ce_value entry)"
    using r root get by (auto simp: remove_component_def entry_at_comps Let_def)
  have "radix_valid st' \<and> cache_view st' = view_put namespace tokens
      (upd (\<lambda>_. None) (cache_view st namespace tokens)) (cache_view st)"
  proof (cases "node_is_empty ?r'")
    case True
    have "comps_at ?r' = (\<lambda>_. no_components)"
      using node_is_empty_comps [OF True] valid by (auto simp: comps_edge_def valid_root_def fun_eq_iff)
    then have "cache_view st' = view_put namespace tokens
        (upd (\<lambda>_. None) (cache_view st namespace tokens)) (cache_view st)"
      using True view
      by (auto simp: st' cache_view_def view_put_def fun_eq_iff bt_get_remove)
    moreover have "radix_valid st'"
      using assms(1) True by (auto simp: st' radix_valid_def set_bt_remove)
    ultimately show ?thesis by blast
  next
    case False
    have "rn_children ?r' \<noteq> []"
      using False valid by (auto simp: node_is_empty_def valid_root_def no_components_def)
    then have "radix_valid st'"
      by (intro store_valid [OF assms(1) valid]) (simp_all add: st' False)
    moreover have "cache_view st' = view_put namespace tokens
        (upd (\<lambda>_. None) (cache_view st namespace tokens)) (cache_view st)"
      by (rule store_view [OF _ view]) (simp add: st' False)
    ultimately show ?thesis by blast
  qed
  then show ?thesis using Some res by (simp add: st')
qed

end

interpretation resident: component_slot rc_resident rc_resident_update
  by unfold_locales (auto simp: no_components_def has_component_def intro: radix_components.equality)

interpretation recurrent: component_slot rc_recurrent rc_recurrent_update
  by unfold_locales (auto simp: no_components_def has_component_def intro: radix_components.equality)

end
