(* ===== verification/RadixSearch.thy ===== *)
theory RadixSearch
  imports RadixRefinement
begin

text \<open>
  What the searches of the radix tree find: the recurrent search finds the longest stored prefix
  of the query, the search for a resident descendant finds one whenever there is one, and the walks
  over the tree visit exactly the stored keys.
\<close>

section \<open>Reading along a query\<close>

definition slot_present :: "component_kind \<Rightarrow> ('r, 'e) radix_components \<Rightarrow> bool" where
  "slot_present kind c = (case kind of ResidentKv \<Rightarrow> rc_resident c \<noteq> None | KvRecurrent \<Rightarrow> rc_recurrent c \<noteq> None)"

lemma component_present_iff [simp]: "component_present n kind = slot_present kind (rn_components n)"
  by (simp add: component_present_def slot_present_def split: component_kind.split)

lemma slot_present_none [simp]: "\<not> slot_present kind no_components"
  by (simp add: slot_present_def no_components_def split: component_kind.split)

lemma prefix_take: "prefix p (take m ts) \<longleftrightarrow> prefix p ts \<and> length p \<le> min m (length ts)"
  by (auto simp: prefix_def min_def) (metis append_take_drop_id append.assoc, metis append_eq_conv_conj take_all_iff
      append_take_drop_id min.absorb1 take_append take_take nle_le)

lemma comps_at_take:
  assumes "0 < m"
  shows "comps_at (RadixNode e c kids) (take m (t # ts)) = (case bt_get kids t of
      None \<Rightarrow> no_components
    | Some child \<Rightarrow> if prefix (rn_edge child) (t # ts) \<and> length (rn_edge child) \<le> m
        then comps_at child (take (m - length (rn_edge child)) (drop (length (rn_edge child)) (t # ts)))
        else no_components)"
proof -
  obtain k where m: "m = Suc k" using assms by (cases m) auto
  have "prefix (rn_edge x) (t # take k ts) \<longleftrightarrow> prefix (rn_edge x) (t # ts) \<and> length (rn_edge x) \<le> m"
    for x :: "('a, 'b) radix_node"
    using prefix_take [of "rn_edge x" m "t # ts"] prefix_length_le [of "rn_edge x" "t # ts"] m by auto
  moreover have "drop j (t # take k ts) = take (m - j) (drop j (t # ts))" for j
    using drop_take [of j m "t # ts"] m by simp
  ultimately show ?thesis using m by (simp add: comps_edge_def split: option.split)
qed

section \<open>The recurrent search\<close>

lemma prefix_loop_result:
  assumes "radix_wf n" and "consumed + length ts \<le> U64_MAX"
  shows "(prefix_loop kind n ts consumed best = best \<and>
        (\<forall>m. 0 < m \<and> m \<le> length ts \<longrightarrow> \<not> slot_present kind (comps_at n (take m ts))))
    \<or> (\<exists>m. 0 < m \<and> m \<le> length ts \<and> prefix_loop kind n ts consumed best = Some (consumed + m)
        \<and> slot_present kind (comps_at n (take m ts))
        \<and> (\<forall>k. m < k \<and> k \<le> length ts \<longrightarrow> \<not> slot_present kind (comps_at n (take k ts))))"
  using assms
proof (induction kind n ts consumed best rule: prefix_loop.induct)
  case (1 kind n consumed best)
  then show ?case by simp
next
  case (2 kind e c kids first rest consumed best)
  let ?ts = "first # rest"
  show ?case
  proof (cases "bt_get kids first")
    case None
    then show ?thesis by (auto simp: comps_at_take)
  next
    case (Some child)
    note ch = radix_wf_child [OF 2(2) Some]
    let ?l = "length (rn_edge child)"
    show ?thesis
    proof (cases "prefix (rn_edge child) ?ts")
      case False
      then have "common_prefix_len (rn_edge child) ?ts \<noteq> ?l" by (simp add: common_prefix_full)
      then have "prefix_loop kind (RadixNode e c kids) ?ts consumed best = best" using Some by (simp add: Let_def)
      moreover have "\<not> slot_present kind (comps_at (RadixNode e c kids) (take m ?ts))" if "0 < m" for m
        using comps_at_take [OF that, of e c kids first rest] Some False by simp
      ultimately show ?thesis by blast
    next
      case True
      then have common: "common_prefix_len (rn_edge child) ?ts = ?l" by (simp add: common_prefix_full)
      have l: "0 < ?l" "?l \<le> length ?ts" using ch(2) prefix_length_le [OF True] by auto
      have sat: "sat_add consumed ?l = consumed + ?l" using 2(3) l by (intro sat_add_exact) simp
      let ?rest = "drop ?l ?ts"
      let ?best = "if slot_present kind (rn_components child) then Some (consumed + ?l) else best"
      have run: "prefix_loop kind (RadixNode e c kids) ?ts consumed best =
          prefix_loop kind child ?rest (consumed + ?l) ?best"
        using Some common sat by (simp add: Let_def)
      have IH: "(prefix_loop kind child ?rest (consumed + ?l) ?best = ?best \<and>
          (\<forall>m. 0 < m \<and> m \<le> length ?rest \<longrightarrow> \<not> slot_present kind (comps_at child (take m ?rest))))
        \<or> (\<exists>m. 0 < m \<and> m \<le> length ?rest \<and>
            prefix_loop kind child ?rest (consumed + ?l) ?best = Some (consumed + ?l + m)
          \<and> slot_present kind (comps_at child (take m ?rest))
          \<and> (\<forall>k. m < k \<and> k \<le> length ?rest \<longrightarrow> \<not> slot_present kind (comps_at child (take k ?rest))))"
      proof -
        have c: "\<not> common_prefix_len (rn_edge child) ?ts \<noteq> ?l" using common by simp
        have b: "sat_add consumed (common_prefix_len (rn_edge child) ?ts)
            + length (drop (common_prefix_len (rn_edge child) ?ts) ?ts) \<le> U64_MAX"
          unfolding common sat using 2(3) l by (simp del: drop_Suc_Cons)
        show ?thesis using 2(1) [OF Some refl c refl ch(1) b]
          unfolding common sat component_present_iff .
      qed
      have at: "comps_at (RadixNode e c kids) (take m ?ts) =
          (if ?l \<le> m then comps_at child (take (m - ?l) ?rest) else no_components)" if "0 < m" for m
        using comps_at_take [OF that, of e c kids first rest] Some True by simp
      from IH show ?thesis
      proof
        assume a: "prefix_loop kind child ?rest (consumed + ?l) ?best = ?best \<and>
          (\<forall>m. 0 < m \<and> m \<le> length ?rest \<longrightarrow> \<not> slot_present kind (comps_at child (take m ?rest)))"
        have none: "\<not> slot_present kind (comps_at (RadixNode e c kids) (take m ?ts))"
          if "m \<le> length ?ts" "0 < m" "m \<noteq> ?l" for m
          using at [OF that(2)] a that by (cases "?l < m") auto
        show ?thesis
        proof (cases "slot_present kind (rn_components child)")
          case True
          then show ?thesis using a run none at [OF l(1)] l
            by (intro disjI2 exI [of _ ?l]) (auto simp del: take_Suc_Cons drop_Suc_Cons)
        next
          case False
          then have "\<not> slot_present kind (comps_at (RadixNode e c kids) (take m ?ts))"
            if "m \<le> length ?ts" "0 < m" for m
            using none [OF that] at [OF l(1)] by (cases "m = ?l") auto
          then show ?thesis using a run False by (intro disjI1) simp
        qed
      next
        assume "\<exists>m. 0 < m \<and> m \<le> length ?rest \<and>
            prefix_loop kind child ?rest (consumed + ?l) ?best = Some (consumed + ?l + m)
          \<and> slot_present kind (comps_at child (take m ?rest))
          \<and> (\<forall>k. m < k \<and> k \<le> length ?rest \<longrightarrow> \<not> slot_present kind (comps_at child (take k ?rest)))"
        then obtain m where m: "0 < m" "m \<le> length ?rest"
            "prefix_loop kind child ?rest (consumed + ?l) ?best = Some (consumed + ?l + m)"
            "slot_present kind (comps_at child (take m ?rest))"
            "\<And>k. m < k \<Longrightarrow> k \<le> length ?rest \<Longrightarrow> \<not> slot_present kind (comps_at child (take k ?rest))"
          by blast
        have "\<not> slot_present kind (comps_at (RadixNode e c kids) (take k ?ts))"
          if "?l + m < k" "k \<le> length ?ts" for k
          using m(5) [of "k - ?l"] at [of k] that by auto
        then show ?thesis using m(1-4) run at [of "?l + m"] l
          by (intro disjI2 exI [of _ "?l + m"]) (auto simp del: take_Suc_Cons drop_Suc_Cons simp: ac_simps)
      qed
    qed
  qed
qed

lemma longest_component_prefix_iff:
  assumes "valid_root root" and "length ts \<le> U64_MAX"
  shows "longest_component_prefix root ts kind = Some m \<longleftrightarrow>
    0 < m \<and> m \<le> length ts \<and> slot_present kind (comps_at root (take m ts))
    \<and> (\<forall>k. m < k \<and> k \<le> length ts \<longrightarrow> \<not> slot_present kind (comps_at root (take k ts)))"
proof -
  have wf: "radix_wf root" and none: "\<not> slot_present kind (rn_components root)"
    using assms(1) by (auto simp: valid_root_def)
  note loop = prefix_loop_result [OF wf, of 0 ts kind None]
  show ?thesis
  proof (cases "longest_component_prefix root ts kind")
    case None
    then have "\<forall>m. 0 < m \<and> m \<le> length ts \<longrightarrow> \<not> slot_present kind (comps_at root (take m ts))"
      using loop assms(2) none by (auto simp: longest_component_prefix_def split: option.splits if_splits)
    then show ?thesis using None by auto
  next
    case (Some j)
    then have j: "0 < j" "j \<le> length ts" "slot_present kind (comps_at root (take j ts))"
      "\<And>k. j < k \<Longrightarrow> k \<le> length ts \<Longrightarrow> \<not> slot_present kind (comps_at root (take k ts))"
      using loop assms(2) none by (auto simp: longest_component_prefix_def split: option.splits if_splits)
    show ?thesis
    proof
      assume "longest_component_prefix root ts kind = Some m"
      then show "0 < m \<and> m \<le> length ts \<and> slot_present kind (comps_at root (take m ts))
        \<and> (\<forall>k. m < k \<and> k \<le> length ts \<longrightarrow> \<not> slot_present kind (comps_at root (take k ts)))"
        using Some j by auto
    next
      assume a: "0 < m \<and> m \<le> length ts \<and> slot_present kind (comps_at root (take m ts))
        \<and> (\<forall>k. m < k \<and> k \<le> length ts \<longrightarrow> \<not> slot_present kind (comps_at root (take k ts)))"
      have "\<not> m < j" "\<not> j < m" using a j by blast+
      then show "longest_component_prefix root ts kind = Some m" using Some by simp
    qed
  qed
qed

lemma longest_component_prefix_None:
  assumes "valid_root root" and "length ts \<le> U64_MAX" and "longest_component_prefix root ts kind = None"
    and "0 < k" and "k \<le> length ts"
  shows "\<not> slot_present kind (comps_at root (take k ts))"
  using prefix_loop_result [of root 0 ts kind None] assms
  by (auto simp: longest_component_prefix_def valid_root_def split: option.splits if_splits)

section \<open>Children and keys\<close>

lemma comps_at_child:
  assumes "radix_wf (RadixNode e c kids)" and "kc \<in> set kids"
  shows "comps_at (RadixNode e c kids) (rn_edge (snd kc) @ us) = comps_at (snd kc) us"
proof -
  obtain t ts where edge: "rn_edge (snd kc) = t # ts" "fst kc = t"
    using assms by (cases "rn_edge (snd kc)") auto
  have "kc = (t, snd kc)" using edge(2) by (cases kc) simp
  then have "(t, snd kc) \<in> set kids" using assms(2) by metis
  then have "bt_get kids t = Some (snd kc)" using assms(1) by (simp add: bt_get_Some_iff)
  then show ?thesis using edge by (simp add: comps_edge_def)
qed

lemma comps_at_below:
  assumes "radix_wf (RadixNode e c kids)" and "comps_at (RadixNode e c kids) us \<noteq> no_components" and "us \<noteq> []"
  obtains kc us' where "kc \<in> set kids" "us = rn_edge (snd kc) @ us'"
    "comps_at (RadixNode e c kids) us = comps_at (snd kc) us'"
proof -
  obtain t ts where us: "us = t # ts" using assms(3) by (cases us) auto
  then obtain child where child: "bt_get kids t = Some child" "prefix (rn_edge child) us"
    using assms(2) by (auto simp: comps_edge_def split: option.splits if_splits)
  then obtain us' where "us = rn_edge child @ us'" by (auto simp: prefix_def)
  then show ?thesis
    using that [of "(t, child)" us'] comps_at_child [OF assms(1) bt_get_Some_mem [OF child(1)]]
      bt_get_Some_mem [OF child(1)] by simp
qed

text \<open>The nodes of a tree in the order of the walks, with their full keys.\<close>

function radix_items :: "int list \<Rightarrow> ('r, 'e) radix_node \<Rightarrow> (int list \<times> ('r, 'e) radix_components) list" where
  "radix_items path (RadixNode e c kids) =
     (path @ e, c) # concat (map (\<lambda>kc. radix_items (path @ e) (snd kc)) kids)"
  by pat_completeness auto
termination radix_items
  by (relation "measure (\<lambda>(p, n). size n)") (auto simp del: radix_node.size)

declare radix_items.simps [simp del]

lemma radix_items_sound:
  assumes "radix_wf n" and "(p, c) \<in> set (radix_items path n)"
  shows "\<exists>us. p = path @ rn_edge n @ us \<and> c = comps_at n us"
  using assms
proof (induction path n rule: radix_items.induct)
  case (1 path e cs kids)
  have "(p, c) = (path @ e, cs) \<or> (\<exists>kc \<in> set kids. (p, c) \<in> set (radix_items (path @ e) (snd kc)))"
    using 1(3) by (auto simp: radix_items.simps)
  then show ?case
  proof
    assume "(p, c) = (path @ e, cs)"
    then show ?thesis by (intro exI [of _ "[]"]) simp
  next
    assume "\<exists>kc \<in> set kids. (p, c) \<in> set (radix_items (path @ e) (snd kc))"
    then obtain kc where kc: "kc \<in> set kids" "(p, c) \<in> set (radix_items (path @ e) (snd kc))" by blast
    then obtain us where "p = (path @ e) @ rn_edge (snd kc) @ us" "c = comps_at (snd kc) us"
      using 1(1) [OF kc(1) _ kc(2)] 1(2) by auto
    then show ?thesis using comps_at_child [OF 1(2) kc(1)]
      by (intro exI [of _ "rn_edge (snd kc) @ us"]) simp
  qed
qed

lemma radix_items_complete:
  assumes "radix_wf n" and "comps_at n us \<noteq> no_components"
  shows "(path @ rn_edge n @ us, comps_at n us) \<in> set (radix_items path n)"
  using assms
proof (induction path n arbitrary: us rule: radix_items.induct)
  case (1 path e c kids)
  show ?case
  proof (cases "us = []")
    case True
    then show ?thesis by (simp add: radix_items.simps)
  next
    case False
    then obtain kc us' where kc: "kc \<in> set kids" "us = rn_edge (snd kc) @ us'"
        "comps_at (RadixNode e c kids) us = comps_at (snd kc) us'"
      using comps_at_below [OF 1(2,3)] by metis
    have "((path @ e) @ rn_edge (snd kc) @ us', comps_at (snd kc) us') \<in> set (radix_items (path @ e) (snd kc))"
      by (rule 1(1) [OF kc(1)]) (use 1(2,3) kc in auto)
    then show ?thesis using kc by (auto simp: radix_items.simps)
  qed
qed

lemma root_items:
  assumes "valid_root root"
  shows "(p, c) \<in> set (radix_items [] root) \<Longrightarrow> c = comps_at root p"
    and "comps_at root p \<noteq> no_components \<Longrightarrow> (p, comps_at root p) \<in> set (radix_items [] root)"
  using radix_items_sound [of root p c "[]"] radix_items_complete [of root p "[]"] assms
  by (auto simp: valid_root_def)

text \<open>The walks are folds and searches over the list of nodes.\<close>

lemma foldl_concat_map: "foldl f a (concat (map g xs)) = foldl (\<lambda>a x. foldl f a (g x)) a xs"
  by (induction xs arbitrary: a) auto

lemma collect_lru_victim_items:
  "collect_lru_victim namespace kind path n v =
    foldl (\<lambda>v pc. offer_victim namespace (fst pc) (victim_candidate kind (snd pc)) v) v (radix_items path n)"
proof (induction namespace kind path n v rule: collect_lru_victim.induct)
  case (1 namespace kind path e c kids v)
  show ?case
    by (simp add: collect_lru_victim.simps radix_items.simps foldl_concat_map 1 cong: foldl_cong)
qed

lemma find_path_items:
  "find_path get predicate path n =
    find_map (\<lambda>pc. case get (snd pc) of
        Some entry \<Rightarrow> if predicate (ce_value entry) then Some (fst pc, ce_logical_bytes entry) else None
      | None \<Rightarrow> None) (radix_items path n)"
proof (induction get predicate path n rule: find_path.induct)
  case (1 get predicate path e c kids)
  let ?f = "\<lambda>pc. case get (snd pc) of
        Some entry \<Rightarrow> if predicate (ce_value entry) then Some (fst pc, ce_logical_bytes entry) else None
      | None \<Rightarrow> None"
  have kids: "find_map (\<lambda>kc. find_path get predicate (path @ e) (snd kc)) kids =
      find_map (\<lambda>kc. find_map ?f (radix_items (path @ e) (snd kc))) kids"
    if "case get c of None \<Rightarrow> True | Some entry \<Rightarrow> \<not> predicate (ce_value entry)"
    using 1 that by (intro find_map_cong refl) (auto split: option.splits)
  show ?case
    using kids by (simp add: find_path.simps [of get predicate path e c kids] radix_items.simps
        find_map_concat find_map_map split: option.split)
qed

section \<open>The resident search\<close>

abbreviation resident_below :: "('r, 'e) radix_node \<Rightarrow> int list \<Rightarrow> bool" where
  "resident_below n us \<equiv> rc_resident (comps_at n us) \<noteq> None"

lemma nearest_Some:
  assumes "radix_wf n" and "nearest_resident_descendant n path = Some stored"
  shows "\<exists>us. stored = path @ us \<and> resident_below n us"
  using assms
proof (induction n path rule: nearest_resident_descendant.induct)
  case (1 e c kids path)
  show ?case
  proof (cases "rc_resident c = None")
    case False
    then show ?thesis using 1(3) by (intro exI [of _ "[]"]) (simp add: nearest_resident_descendant.simps)
  next
    case True
    then have "find_map (\<lambda>kc. nearest_resident_descendant (snd kc) (path @ rn_edge (snd kc))) kids = Some stored"
      using 1(3) by (simp add: nearest_resident_descendant.simps)
    from find_map_SomeD [OF this] obtain kc where kc: "kc \<in> set kids"
      and near: "nearest_resident_descendant (snd kc) (path @ rn_edge (snd kc)) = Some stored" by blast
    have "radix_wf (snd kc)" using 1(2) kc by simp
    then obtain us where "stored = (path @ rn_edge (snd kc)) @ us" "resident_below (snd kc) us"
      using 1(1) [OF _ kc _ near] True by auto
    then show ?thesis using comps_at_child [OF 1(2) kc]
      by (intro exI [of _ "rn_edge (snd kc) @ us"]) simp
  qed
qed

lemma nearest_None:
  assumes "radix_wf n" and "nearest_resident_descendant n path = None"
  shows "\<not> resident_below n us"
  using assms
proof (induction n path arbitrary: us rule: nearest_resident_descendant.induct)
  case (1 e c kids path)
  have none: "rc_resident c = None"
    and kids: "\<And>kc. kc \<in> set kids \<Longrightarrow> nearest_resident_descendant (snd kc) (path @ rn_edge (snd kc)) = None"
    using 1(3) by (auto simp: nearest_resident_descendant.simps find_map_None split: if_splits)
  show ?case
  proof (cases "us = [] \<or> comps_at (RadixNode e c kids) us = no_components")
    case True
    then show ?thesis using none by (auto simp: no_components_def)
  next
    case False
    then obtain kc us' where kc: "kc \<in> set kids" "comps_at (RadixNode e c kids) us = comps_at (snd kc) us'"
      using comps_at_below [OF 1(2), of us] by metis
    have "radix_wf (snd kc)" using 1(2) kc(1) by simp
    then have "\<not> resident_below (snd kc) us'" using 1(1) none kids [OF kc(1)] kc(1) by blast
    then show ?thesis using kc(2) by simp
  qed
qed

text \<open>The end of \<open>resident_backing_prefix\<close>, after its loop.\<close>

fun finish_search :: "('r, 'e) radix_node \<times> int list \<times> nat \<times> int list \<times> (nat \<times> int list) option \<Rightarrow>
    (nat \<times> int list) option" where
  "finish_search (n, remaining, consumed, path, best) =
     (if remaining = []
      then (case nearest_resident_descendant n path of Some stored \<Rightarrow> Some (consumed, stored) | None \<Rightarrow> best)
      else best)"

text \<open>Every node of a pruned tree leads to a stored key.\<close>

lemma needed_has_key:
  assumes "radix_wf n" and "radix_canonical n" and "needed n"
  shows "\<exists>us. has_component (comps_at n us)"
  using assms
proof (induction n rule: radix_canonical.induct)
  case (1 e c kids)
  show ?case
  proof (cases "has_component c")
    case True
    then show ?thesis by (intro exI [of _ "[]"]) simp
  next
    case False
    then obtain kc where kc: "kc \<in> set kids" using 1(4) by (cases kids) (auto simp: needed_iff)
    obtain us where "has_component (comps_at (snd kc) us)" using 1(1) [OF kc] 1(2,3) kc by auto
    then show ?thesis using comps_at_child [OF 1(2) kc] by metis
  qed
qed

section \<open>The least recently used entry\<close>

definition cache_items :: "('r, 'e) unified_radix_cache \<Rightarrow> (string \<times> int list \<times> ('r, 'e) radix_components) list" where
  "cache_items st = concat (map (\<lambda>nr. map (Pair (fst nr)) (radix_items [] (snd nr))) (ux_roots st))"

lemma cache_items_view:
  assumes "radix_valid st"
  shows "(ns, p, c) \<in> set (cache_items st) \<Longrightarrow> c = cache_view st ns p"
    and "cache_view st ns p \<noteq> no_components \<Longrightarrow> (ns, p, cache_view st ns p) \<in> set (cache_items st)"
proof -
  have d: "distinct (map fst (ux_roots st))" using assms by (simp add: radix_valid_def)
  show "(ns, p, c) \<in> set (cache_items st) \<Longrightarrow> c = cache_view st ns p"
  proof -
    assume "(ns, p, c) \<in> set (cache_items st)"
    then obtain root where root: "(ns, root) \<in> set (ux_roots st)" "(p, c) \<in> set (radix_items [] root)"
      by (auto simp: cache_items_def)
    have "bt_get (ux_roots st) ns = Some root" using root(1) d by (simp add: bt_get_def)
    then show ?thesis using root_items(1) [OF _ root(2)] radix_valid_get [OF assms] by (simp add: cache_view_def)
  qed
  show "cache_view st ns p \<noteq> no_components \<Longrightarrow> (ns, p, cache_view st ns p) \<in> set (cache_items st)"
  proof -
    assume ne: "cache_view st ns p \<noteq> no_components"
    then obtain root where root: "bt_get (ux_roots st) ns = Some root" "comps_at root p \<noteq> no_components"
      by (auto simp: cache_view_def split: option.splits)
    have "(p, comps_at root p) \<in> set (radix_items [] root)"
      using root_items(2) [OF _ root(2)] radix_valid_get [OF assms root(1)] by blast
    then show ?thesis using bt_get_Some_mem [OF root(1)] root(1)
      by (force simp: cache_items_def cache_view_def)
  qed
qed

definition victim_key :: "victim \<Rightarrow> nat \<times> string \<times> int list" where
  "victim_key v = (vc_last_used v, vc_namespace v, vc_tokens v)"

lemma fold_offer:
  fixes items :: "(string \<times> int list \<times> ('r, 'e) radix_components) list" and kind :: component_kind
  defines "run \<equiv> \<lambda>items. foldl (\<lambda>v (ns, p, c). offer_victim ns p (victim_candidate kind c) v) None items"
  shows "case run items of
      None \<Rightarrow> \<forall>(ns, p, c) \<in> set items. victim_candidate kind c = None
    | Some v \<Rightarrow> (\<exists>c. (vc_namespace v, vc_tokens v, c) \<in> set items
          \<and> victim_candidate kind c = Some (vc_last_used v, vc_logical_bytes v))
        \<and> (\<forall>(ns, p, c) \<in> set items. \<forall>lu b. victim_candidate kind c = Some (lu, b) \<longrightarrow>
            victim_key v \<le> (lu, ns, p))"
proof (induction items rule: rev_induct)
  case Nil
  then show ?case by (simp add: run_def)
next
  case (snoc x items)
  obtain ns p c where x: "x = (ns, p, c)" by (cases x)
  have run: "run (items @ [(ns, p, c)]) = offer_victim ns p (victim_candidate kind c) (run items)"
    by (simp add: run_def)
  show ?case
  proof (cases "victim_candidate kind c")
    case None
    then have "run (items @ [(ns, p, c)]) = run items" by (simp add: run offer_victim_def)
    then show ?thesis using snoc x None by (auto split: option.splits)
  next
    case (Some lb)
    obtain lu b where lb: "lb = (lu, b)" by (cases lb)
    show ?thesis
    proof (cases "run items")
      case None
      then show ?thesis using snoc x Some lb
        by (auto simp: run offer_victim_def victim_key_def)
    next
      case old: (Some v)
      show ?thesis
      proof (cases "(lu, ns, p) < victim_key v")
        case True
        then have r: "run (items @ [(ns, p, c)]) = Some \<lparr>vc_namespace = ns, vc_tokens = p,
            vc_logical_bytes = b, vc_last_used = lu\<rparr>"
          using Some lb old by (simp add: run offer_victim_def victim_key_def)
        have "(lu, ns, p) \<le> (lu', ns', p')"
          if "(ns', p', c') \<in> set items" "victim_candidate kind c' = Some (lu', b')" for ns' p' c' lu' b'
        proof -
          have "victim_key v \<le> (lu', ns', p')" using snoc old that by fastforce
          then show ?thesis using True by order
        qed
        then show ?thesis using Some lb x by (auto simp: r victim_key_def simp del: less_eq_prod_simp)
      next
        case False
        then have r: "run (items @ [(ns, p, c)]) = Some v"
          using Some lb old False by (simp add: run offer_victim_def victim_key_def del: less_prod_simp)
        have "victim_key v \<le> (lu, ns, p)" using False by order
        then show ?thesis using snoc old Some lb x by (auto simp: r)
      qed
    qed
  qed
qed

lemma lru_victim_items:
  "lru_victim kind st =
    foldl (\<lambda>v (ns, p, c). offer_victim ns p (victim_candidate kind c) v) None (cache_items st)"
proof -
  have "foldl (\<lambda>v (ns, p, c). offer_victim ns p (victim_candidate kind c) v) v (map (Pair n) xs) =
    foldl (\<lambda>v pc. offer_victim n (fst pc) (victim_candidate kind (snd pc)) v) v xs"
    for n v and xs :: "(int list \<times> ('a, 'b) radix_components) list"
    by (induction xs arbitrary: v) (auto simp: split_beta)
  then show ?thesis
    by (simp add: lru_victim_def cache_items_def foldl_concat_map collect_lru_victim_items)
qed

end
