(* ===== verification/RadixExact.thy ===== *)
theory RadixExact
  imports RadixSearch
begin

text \<open>
  Exactly what the resident search of the radix tree finds: the walk follows the query as far as
  any stored key goes with it, whatever the key stores, and answers from there.
\<close>

section \<open>The keys below a prefix\<close>

definition any_below :: "('r, 'e) radix_node \<Rightarrow> int list \<Rightarrow> bool" where
  "any_below n us \<longleftrightarrow> (\<exists>vs. comps_at n (us @ vs) \<noteq> no_components)"

lemma resident_is_any: "resident_below n (us @ vs) \<Longrightarrow> any_below n us"
  by (auto simp: any_below_def no_components_def intro!: exI [of _ vs])

text \<open>In a pruned tree every node leads to a stored key.\<close>

lemma canonical_any:
  assumes "radix_wf n" and "radix_canonical n" and "needed n"
  shows "any_below n []"
proof -
  obtain us where "has_component (comps_at n us)" using needed_has_key [OF assms] by blast
  then have "comps_at n us \<noteq> no_components" by (auto simp: has_component_def no_components_def)
  then show ?thesis unfolding any_below_def by (metis append_Nil)
qed

text \<open>Keys under a child.\<close>

lemma comps_below_child:
  assumes "bt_get kids t = Some child" and "us \<noteq> []" and "hd us = t"
  shows "comps_at (RadixNode e c kids) us = comps_edge child us"
  using assms by (cases us) auto

lemma any_below_prefix: "any_below n us \<Longrightarrow> prefix vs us \<Longrightarrow> any_below n vs"
  by (auto simp: any_below_def prefix_def)

lemma any_below_child:
  assumes "radix_wf (RadixNode e c kids)" and "bt_get kids t = Some child"
  shows "any_below (RadixNode e c kids) (rn_edge child @ us) \<longleftrightarrow> any_below child us"
    and "resident_below (RadixNode e c kids) (rn_edge child @ us) \<longleftrightarrow> resident_below child us"
  using comps_at_child [OF assms(1) bt_get_Some_mem [OF assms(2)]] by (simp_all add: any_below_def)

section \<open>The walk\<close>

text \<open>
  What the search returns from a node: the walk ends at the depth \<open>d\<close>, the greatest at which some key
  goes with the query. If a resident key does, the first such one is sliced to \<open>d\<close>; otherwise the
  longest resident key that the query itself starts with is used, and the earlier match if there is none.
\<close>

definition walked :: "('r, 'e) radix_node \<Rightarrow> int list \<Rightarrow> nat \<Rightarrow> int list \<Rightarrow> (nat \<times> int list) option \<Rightarrow> nat \<Rightarrow>
    (nat \<times> int list) option \<Rightarrow> bool" where
  "walked n ts consumed path best d r \<longleftrightarrow> d \<le> length ts \<and>
     (0 < d \<longrightarrow> any_below n (take d ts)) \<and>
     (\<forall>k. d < k \<and> k \<le> length ts \<longrightarrow> \<not> any_below n (take k ts)) \<and>
     (if 0 < consumed + d \<and> (\<exists>us. resident_below n (take d ts @ us))
      then \<exists>us. r = Some (consumed + d, path @ take d ts @ us) \<and> resident_below n (take d ts @ us)
      else if \<exists>j. 0 < j \<and> j \<le> length ts \<and> resident_below n (take j ts)
      then \<exists>j. 0 < j \<and> j \<le> length ts \<and> resident_below n (take j ts) \<and> r = Some (consumed + j, path @ take j ts) \<and>
        (\<forall>k. j < k \<and> k \<le> length ts \<longrightarrow> \<not> resident_below n (take k ts))
      else r = best)"

text \<open>Where the walk ends, \<open>nearest_resident_descendant\<close> decides.\<close>

lemma walked_end:
  assumes "d \<le> length ts" and "0 < d \<longrightarrow> any_below n (take d ts)"
    and "\<And>k. d < k \<Longrightarrow> k \<le> length ts \<Longrightarrow> \<not> any_below n (take k ts)"
    and "\<And>j. 0 < j \<Longrightarrow> j \<le> d \<Longrightarrow> \<not> resident_below n (take j ts)"
    and "0 < consumed + d \<Longrightarrow> \<exists>us. resident_below n (take d ts @ us) \<Longrightarrow>
      \<exists>us. r = Some (consumed + d, path @ take d ts @ us) \<and> resident_below n (take d ts @ us)"
    and "\<not> (0 < consumed + d \<and> (\<exists>us. resident_below n (take d ts @ us))) \<Longrightarrow> r = best"
  shows "walked n ts consumed path best d r"
proof -
  have "\<not> resident_below n (take j ts)" if "0 < j" "j \<le> length ts" for j
    using assms(3) [of j] assms(4) [OF that(1)] resident_is_any [of n "take j ts" "[]"] that by fastforce
  then show ?thesis unfolding walked_def using assms by auto
qed

text \<open>Going down to a child.\<close>

lemma walked_child:
  assumes wf: "radix_wf (RadixNode e c kids)" and child: "bt_get kids t = Some child" and any: "any_below child []"
    and ts: "ts = rn_edge child @ rest" and edge: "rn_edge child \<noteq> []"
    and sub: "walked child rest (consumed + length (rn_edge child)) (path @ rn_edge child)
      (if rc_resident (rn_components child) \<noteq> None
       then Some (consumed + length (rn_edge child), path @ rn_edge child) else best) d r"
  shows "walked (RadixNode e c kids) ts consumed path best (length (rn_edge child) + d) r"
proof -
  let ?n = "RadixNode e c kids" and ?l = "length (rn_edge child)"
  note below = any_below_child [OF wf child]
  have comps: "comps_at ?n (rn_edge child @ us) = comps_at child us" for us
    using comps_at_child [OF wf bt_get_Some_mem [OF child]] by simp
  have take: "take (?l + k) ts = rn_edge child @ take k rest" for k by (simp add: ts)
  have l: "0 < ?l" using edge by simp
  have high: "any_below ?n (take k ts) \<longleftrightarrow> any_below child (take (k - ?l) rest)"
    "resident_below ?n (take k ts) \<longleftrightarrow> resident_below child (take (k - ?l) rest)" if "?l \<le> k" for k
    using that take [of "k - ?l"] below by simp_all
  have low: "\<not> resident_below ?n (take k ts)" if k: "0 < k" "k < ?l" for k
  proof -
    have "take k ts \<noteq> []" "hd (take k ts) = t"
      using k edge radix_wf_child(3) [OF wf child] by (auto simp: ts hd_append)
    moreover have "\<not> prefix (rn_edge child) (take k ts)"
      using k prefix_length_le [of "rn_edge child" "take k ts"] by auto
    ultimately show ?thesis
      by (simp add: comps_below_child [OF child] comps_edge_def no_components_def)
  qed
  have at_l: "resident_below ?n (take ?l ts) \<longleftrightarrow> rc_resident (rn_components child) \<noteq> None"
    using high(2) [of ?l] by simp
  have deep_iff: "resident_below ?n (take (?l + d) ts @ us) \<longleftrightarrow> resident_below child (take d rest @ us)" for us
    using below(2) [of "take d rest @ us"] by (simp add: take)
  have d: "d \<le> length rest" "any_below child (take d rest)"
    "\<And>k. d < k \<Longrightarrow> k \<le> length rest \<Longrightarrow> \<not> any_below child (take k rest)"
    using sub any by (cases "d = 0"; auto simp: walked_def)+
  have len: "?l + d \<le> length ts" using d(1) by (simp add: ts)
  have reach: "any_below ?n (take (?l + d) ts)" using d(2) by (simp add: take below(1))
  have past: "\<not> any_below ?n (take k ts)" if "?l + d < k" "k \<le> length ts" for k
    using high(1) [of k] d(3) [of "k - ?l"] that by (simp add: ts)
  have case_intro: "walked ?n ts consumed path best (?l + d) r"
    if "if \<exists>us. resident_below child (take d rest @ us)
      then \<exists>us. r = Some (consumed + (?l + d), path @ take (?l + d) ts @ us) \<and> resident_below child (take d rest @ us)
      else if \<exists>j. 0 < j \<and> j \<le> length ts \<and> resident_below ?n (take j ts)
      then \<exists>j. 0 < j \<and> j \<le> length ts \<and> resident_below ?n (take j ts) \<and> r = Some (consumed + j, path @ take j ts) \<and>
        (\<forall>k. j < k \<and> k \<le> length ts \<longrightarrow> \<not> resident_below ?n (take k ts))
      else r = best"
    using that len reach past l unfolding walked_def deep_iff by auto
  have case_key: "walked ?n ts consumed path best (?l + d) r"
    if "\<not> (\<exists>us. resident_below child (take d rest @ us))" "resident_below ?n (take j ts)"
      "\<And>k. j < k \<Longrightarrow> k \<le> length ts \<Longrightarrow> \<not> resident_below ?n (take k ts)"
      "r = Some (consumed + j, path @ take j ts)" "0 < j" "j \<le> length ts" for j
  proof (rule case_intro)
    have c: "\<exists>j. 0 < j \<and> j \<le> length ts \<and> resident_below ?n (take j ts)" using that by blast
    show "if \<exists>us. resident_below child (take d rest @ us)
      then \<exists>us. r = Some (consumed + (?l + d), path @ take (?l + d) ts @ us) \<and> resident_below child (take d rest @ us)
      else if \<exists>j. 0 < j \<and> j \<le> length ts \<and> resident_below ?n (take j ts)
      then \<exists>j. 0 < j \<and> j \<le> length ts \<and> resident_below ?n (take j ts) \<and> r = Some (consumed + j, path @ take j ts) \<and>
        (\<forall>k. j < k \<and> k \<le> length ts \<longrightarrow> \<not> resident_below ?n (take k ts))
      else r = best"
      unfolding if_not_P [OF that(1)] if_P [OF c] using that(2-) by blast
  qed
  consider (deep) "\<exists>us. resident_below child (take d rest @ us)"
    | (key) "\<not> (\<exists>us. resident_below child (take d rest @ us))"
        "\<exists>j. 0 < j \<and> j \<le> length rest \<and> resident_below child (take j rest)"
    | (none) "\<not> (\<exists>us. resident_below child (take d rest @ us))"
        "\<not> (\<exists>j. 0 < j \<and> j \<le> length rest \<and> resident_below child (take j rest))" by blast
  then show ?thesis
  proof cases
    case deep
    then obtain us where us: "r = Some (consumed + ?l + d, (path @ rn_edge child) @ take d rest @ us)"
      "resident_below child (take d rest @ us)" using sub l by (auto simp: walked_def)
    then have "\<exists>us. r = Some (consumed + (?l + d), path @ take (?l + d) ts @ us) \<and> resident_below child (take d rest @ us)"
      by (intro exI [of _ us]) (simp add: take)
    then show ?thesis using deep by (intro case_intro) simp
  next
    case key
    then obtain j where j: "0 < j" "j \<le> length rest" "resident_below child (take j rest)"
      "r = Some (consumed + ?l + j, (path @ rn_edge child) @ take j rest)"
      "\<forall>k. j < k \<and> k \<le> length rest \<longrightarrow> \<not> resident_below child (take k rest)"
      using sub unfolding walked_def by auto
    have at: "resident_below ?n (take (?l + j) ts)" using j(3) by (simp add: take comps)
    moreover have "\<not> resident_below ?n (take k ts)" if "?l + j < k" "k \<le> length ts" for k
    proof -
      have "j < k - ?l \<and> k - ?l \<le> length rest" using that by (auto simp: ts)
      then have "\<not> resident_below child (take (k - ?l) rest)" using j(5) by blast
      then show ?thesis using high(2) [of k] that by simp
    qed
    moreover have "r = Some (consumed + (?l + j), path @ take (?l + j) ts)" using j(4) by (simp add: take)
    moreover have "0 < ?l + j" "?l + j \<le> length ts" using l j(2) by (simp_all add: ts)
    ultimately show ?thesis by (rule case_key [OF key(1)])
  next
    case none
    then have r: "r = (if rc_resident (rn_components child) \<noteq> None
       then Some (consumed + ?l, path @ rn_edge child) else best)"
      using sub unfolding walked_def by presburger
    have above: "\<not> resident_below ?n (take k ts)" if "?l < k" "k \<le> length ts" for k
    proof -
      have "0 < k - ?l" "k - ?l \<le> length rest" using that by (simp_all add: ts)
      then have "\<not> resident_below child (take (k - ?l) rest)" using none(2) by blast
      then show ?thesis using high(2) [of k] that by simp
    qed
    show ?thesis
    proof (cases "rc_resident (rn_components child) = None")
      case True
      then have "\<not> resident_below ?n (take k ts)" if "0 < k" "k \<le> length ts" for k
        using low above at_l that by (cases k ?l rule: linorder_cases) auto
      then have c: "\<not> (\<exists>j. 0 < j \<and> j \<le> length ts \<and> resident_below ?n (take j ts))" by blast
      have "r = best" using r True by simp
      then show ?thesis by (intro case_intro) (simp only: if_not_P [OF none(1)] if_not_P [OF c])
    next
      case False
      then have "resident_below ?n (take ?l ts)" "r = Some (consumed + ?l, path @ take ?l ts)"
        using at_l r by (simp_all add: ts)
      moreover have "?l \<le> length ts" by (simp add: ts)
      ultimately show ?thesis using l above by (intro case_key [OF none(1)])
    qed
  qed
qed

section \<open>The search\<close>

lemma nearest_cases:
  assumes "radix_wf n"
  shows "(\<exists>us. resident_below n us) \<Longrightarrow>
      \<exists>us. nearest_resident_descendant n path = Some (path @ us) \<and> resident_below n us"
    and "\<not> (\<exists>us. resident_below n us) \<Longrightarrow> nearest_resident_descendant n path = None"
proof -
  show "\<exists>us. nearest_resident_descendant n path = Some (path @ us) \<and> resident_below n us"
    if "\<exists>us. resident_below n us"
    using that nearest_Some [OF assms, of path] nearest_None [OF assms, of path]
    by (cases "nearest_resident_descendant n path") blast+
  show "nearest_resident_descendant n path = None" if "\<not> (\<exists>us. resident_below n us)"
    using that nearest_Some [OF assms, of path] by (cases "nearest_resident_descendant n path") blast+
qed

text \<open>The query leaves the tree inside the edge of a child.\<close>

lemma walked_partial:
  fixes e :: "int list" and c :: "('r, 'e) radix_components"
  assumes wf: "radix_wf (RadixNode e c kids)" and child: "bt_get kids first = Some child"
    and any: "any_below child []"
    and part: "common_prefix_len (rn_edge child) (first # rest) < length (rn_edge child)"
    and r: "r = (case nearest_resident_descendant child (path @ rn_edge child) of
      Some stored \<Rightarrow> Some (consumed + common_prefix_len (rn_edge child) (first # rest), stored) | None \<Rightarrow> best)"
  shows "walked (RadixNode e c kids) (first # rest) consumed path best
    (common_prefix_len (rn_edge child) (first # rest)) r"
proof -
  let ?n = "RadixNode e c kids" and ?ts = "first # rest"
  let ?common = "common_prefix_len (rn_edge child) ?ts"
  let ?rest = "drop ?common (rn_edge child)"
  note below = any_below_child [OF wf child]
  have comps: "comps_at ?n (rn_edge child @ us) = comps_at child us" for us
    using comps_at_child [OF wf bt_get_Some_mem [OF child]] by simp
  have le: "?common \<le> length ?ts" by (rule common_prefix_split(4))
  have edge: "rn_edge child = take ?common ?ts @ ?rest" unfolding common_prefix_split(2) by simp
  have under: "\<exists>zs. take (Suc k) ?ts @ us = rn_edge child @ zs"
    if "comps_at ?n (take (Suc k) ?ts @ us) \<noteq> no_components" for k us
    using that comps_below_child [OF child, of "take (Suc k) ?ts @ us" e c]
    by (auto simp: comps_edge_def prefix_def split: if_splits)
  have past: "\<not> any_below ?n (take k ?ts)" if k: "?common < k" "k \<le> length ?ts" for k
  proof
    assume "any_below ?n (take k ?ts)"
    then obtain us where us: "comps_at ?n (take k ?ts @ us) \<noteq> no_components" by (auto simp: any_below_def)
    obtain k' where k': "k = Suc k'" using k(1) by (cases k) auto
    obtain zs where zs: "take k ?ts @ us = rn_edge child @ zs" using under us unfolding k' by blast
    have "rn_edge child ! ?common = (take k ?ts @ us) ! ?common" unfolding zs using part by (simp add: nth_append)
    also have "\<dots> = ?ts ! ?common" using k by (simp add: nth_append del: take_Suc_Cons)
    finally show False using common_prefix_diverges [OF part] k by simp
  qed
  have reach: "any_below ?n (take ?common ?ts)"
    by (rule any_below_prefix [of _ "rn_edge child"])
      (use any below(1) [of "[]"] edge in \<open>auto simp: prefix_def\<close>)
  have pos: "0 < ?common"
    using radix_wf_child [OF wf child] by (intro common_prefix_pos) auto
  then obtain c' where c': "?common = Suc c'" by (cases ?common) auto
  have short: "\<not> resident_below ?n (take j ?ts)" if j: "0 < j" "j \<le> ?common" for j
  proof
    assume res: "resident_below ?n (take j ?ts)"
    obtain k' where k': "j = Suc k'" using j(1) by (cases j) auto
    have "comps_at ?n (take j ?ts @ []) \<noteq> no_components" using res by (auto simp: no_components_def)
    then obtain zs where "take j ?ts = rn_edge child @ zs" using under [of k' "[]"] unfolding k' by auto
    then have "length (rn_edge child) \<le> j" by (metis length_append length_take le_add1 min.bounded_iff)
    then show False using j(2) part by simp
  qed
  have inside: "\<exists>zs. resident_below child zs" if "resident_below ?n (take ?common ?ts @ us)" for us
  proof -
    have "comps_at ?n (take ?common ?ts @ us) \<noteq> no_components" using that by (auto simp: no_components_def)
    then obtain zs where "take ?common ?ts @ us = rn_edge child @ zs" using under [of c' us] unfolding c' by blast
    then show ?thesis using that comps by auto
  qed
  show ?thesis
  proof (cases "\<exists>us. resident_below child us")
    case True
    then obtain us where us: "nearest_resident_descendant child (path @ rn_edge child) = Some ((path @ rn_edge child) @ us)"
      "resident_below child us" using nearest_cases(1) [OF radix_wf_child(1) [OF wf child]] by blast
    have split: "rn_edge child @ us = take ?common ?ts @ ?rest @ us" using edge by (metis append.assoc)
    have "r = Some (consumed + ?common, path @ take ?common ?ts @ ?rest @ us)"
      unfolding r us(1) option.case using split by simp
    moreover have "resident_below ?n (take ?common ?ts @ ?rest @ us)" using us(2) comps unfolding split [symmetric] by simp
    ultimately have res: "\<exists>us. r = Some (consumed + ?common, path @ take ?common ?ts @ us) \<and>
        resident_below ?n (take ?common ?ts @ us)" by blast
    then have cond: "0 < consumed + ?common \<and> (\<exists>us. resident_below ?n (take ?common ?ts @ us))" using pos by auto
    show ?thesis by (rule walked_end [OF le _ past short]) (use reach res cond in blast)+
  next
    case False
    then have "r = best"
      unfolding r nearest_cases(2) [OF radix_wf_child(1) [OF wf child] False] by simp
    moreover have "\<not> (\<exists>us. resident_below ?n (take ?common ?ts @ us))" using False inside by blast
    ultimately show ?thesis by (intro walked_end [OF le _ past short]) (use reach in blast)+
  qed
qed

lemma backing_walks:
  assumes "radix_wf n" and "radix_canonical n" and "consumed + length ts \<le> U64_MAX" and "0 < consumed \<or> ts \<noteq> []"
  shows "\<exists>d. walked n ts consumed path best d (finish_search (backing_loop n ts consumed path best))"
  using assms
proof (induction n ts consumed path best rule: backing_loop.induct)
  case (1 n consumed path best)
  have "walked n [] consumed path best 0 (finish_search (backing_loop n [] consumed path best))"
  proof (cases "\<exists>us. resident_below n us")
    case True
    then obtain us where "nearest_resident_descendant n path = Some (path @ us)" "resident_below n us"
      using nearest_cases(1) [OF 1(1)] by blast
    then show ?thesis using 1(4) True by (intro walked_end) auto
  next
    case False
    then show ?thesis using nearest_cases(2) [OF 1(1) False, of path] by (intro walked_end) auto
  qed
  then show ?case ..
next
  case (2 e c kids first rest consumed path best)
  let ?ts = "first # rest" and ?n = "RadixNode e c kids"
  let ?r = "finish_search (backing_loop ?n ?ts consumed path best)"
  show ?case
  proof (cases "bt_get kids first")
    case None
    have no: "\<not> any_below ?n (take k ?ts)" if "0 < k" for k
      using that None by (cases k) (auto simp: any_below_def)
    have "walked ?n ?ts consumed path best 0 ?r"
    proof (cases "\<exists>us. resident_below ?n us")
      case True
      then obtain us where us: "nearest_resident_descendant ?n path = Some (path @ us)" "resident_below ?n us"
        using nearest_cases(1) [OF 2(2)] by blast
      then have "?r = (if 0 < consumed then Some (consumed, path @ us) else best)" using None by simp
      then show ?thesis using no us(2) by (intro walked_end) auto
    next
      case False
      then have "?r = best" using None nearest_cases(2) [OF 2(2) False, of path] by simp
      then show ?thesis using no False by (intro walked_end) auto
    qed
    then show ?thesis ..
  next
    case (Some child)
    note ch = radix_wf_child [OF 2(2) Some]
    have can: "radix_canonical child" "needed child"
      using 2(3) bt_get_Some_mem [OF Some] by (auto dest: bspec)
    have any: "any_below child []" by (rule canonical_any [OF ch(1) can])
    let ?common = "common_prefix_len (rn_edge child) ?ts"
    have le: "?common \<le> length ?ts" by (rule common_prefix_split(4))
    have pos: "0 < ?common" using common_prefix_pos [OF ch(2), of ?ts] ch(3) by simp
    have sat: "sat_add consumed ?common = consumed + ?common" using 2(4) le by (intro sat_add_exact) simp
    show ?thesis
    proof (cases "?common < length (rn_edge child)")
      case True
      have "?r = (case nearest_resident_descendant child (path @ rn_edge child) of
          Some stored \<Rightarrow> Some (consumed + ?common, stored) | None \<Rightarrow> best)"
        using Some True pos sat by (simp add: Let_def split: option.split)
      then have "walked ?n ?ts consumed path best ?common ?r"
        by (rule walked_partial [OF 2(2) Some any True])
      then show ?thesis ..
    next
      case False
      then have common: "?common = length (rn_edge child)"
        using common_prefix_split(3) [of "rn_edge child" ?ts] by simp
      then have "prefix (rn_edge child) ?ts" by (simp add: common_prefix_full)
      then obtain rest' where ts: "?ts = rn_edge child @ rest'" by (auto simp: prefix_def)
      let ?c = "consumed + length (rn_edge child)" and ?path = "path @ rn_edge child"
      let ?best = "if rc_resident (rn_components child) \<noteq> None then Some (?c, ?path) else best"
      have len: "?c + length rest' \<le> U64_MAX" using 2(4) arg_cong [OF ts, of length] by simp
      have drop: "drop ?common ?ts = rest'" unfolding common unfolding ts by simp
      have b: "sat_add consumed ?common + length (drop ?common ?ts) \<le> U64_MAX"
        unfolding sat drop unfolding common by (rule len)
      have p: "0 < sat_add consumed ?common \<or> drop ?common ?ts \<noteq> []" using pos sat by simp
      have "\<exists>d. walked child rest' ?c ?path ?best d (finish_search (backing_loop child rest' ?c ?path ?best))"
        using 2(1) [OF Some refl False refl refl ch(1) can(1) b p] unfolding sat drop unfolding common .
      moreover have "backing_loop ?n ?ts consumed path best = backing_loop child rest' ?c ?path ?best"
        using Some False by (simp add: Let_def sat drop [simplified]) (simp add: common)
      ultimately show ?thesis using walked_child [OF 2(2) Some any ts ch(2)] by metis
    qed
  qed
qed

end
