(* ===== verification/RadixProperties.thy ===== *)
theory RadixProperties
  imports RadixExact
begin

text \<open>
  The promises of the prefix cache: its operations are those of a plain map with a clock, searches
  return the right prefix, eviction takes the least recently used unreferenced entry, and an entry
  somebody holds a reference to is never evicted or replaced.
\<close>

section \<open>The abstract cache: a clock and a map\<close>

type_synonym ('r, 'e) map_cache = "nat \<times> (string \<Rightarrow> int list \<Rightarrow> ('r, 'e) radix_components)"

definition cache_abs :: "('r, 'e) unified_radix_cache \<Rightarrow> ('r, 'e) map_cache" where
  "cache_abs st = (ux_clock st, cache_view st)"

definition spec_write :: "('r, 'e, 'v) slot_upd \<Rightarrow> string \<Rightarrow> int list \<Rightarrow> 'v component_entry option \<Rightarrow>
    nat \<Rightarrow> ('r, 'e) map_cache \<Rightarrow> ('r, 'e) map_cache" where
  "spec_write upd ns ts e clock a = (clock, view_put ns ts (upd (\<lambda>_. e) (snd a ns ts)) (snd a))"

definition spec_insert :: "('r, 'e, 'v) slot_get \<Rightarrow> ('r, 'e, 'v) slot_upd \<Rightarrow> string \<Rightarrow> int list \<Rightarrow> nat \<Rightarrow> 'v \<Rightarrow>
    ('r, 'e) map_cache \<Rightarrow> (radix_error + 'v option) \<times> ('r, 'e) map_cache" where
  "spec_insert get upd ns ts bytes v a =
     (let old = get (snd a ns ts); clock = sat_add (fst a) 1;
          new = \<lparr>ce_value = v, ce_logical_bytes = bytes, ce_last_used = clock, ce_active_refs = 0\<rparr>
      in if ts = [] then (Inl EmptyKey, a)
         else if \<exists>e. old = Some e \<and> 0 < ce_active_refs e then (Inl ActiveEntry, a)
         else (Inr (map_option ce_value old), spec_write upd ns ts (Some new) clock a))"

definition spec_remove :: "('r, 'e, 'v) slot_get \<Rightarrow> ('r, 'e, 'v) slot_upd \<Rightarrow> string \<Rightarrow> int list \<Rightarrow>
    ('r, 'e) map_cache \<Rightarrow> 'v option \<times> ('r, 'e) map_cache" where
  "spec_remove get upd ns ts a =
     (map_option ce_value (get (snd a ns ts)), spec_write upd ns ts None (fst a) a)"

definition spec_exact :: "('r, 'e, 'v) slot_get \<Rightarrow> ('r, 'e, 'v) slot_upd \<Rightarrow> string \<Rightarrow> int list \<Rightarrow>
    ('r, 'e) map_cache \<Rightarrow> 'v radix_match option \<times> ('r, 'e) map_cache" where
  "spec_exact get upd ns ts a =
     (let clock = sat_add (fst a) 1
      in case get (snd a ns ts) of
           None \<Rightarrow> (None, (clock, snd a))
         | Some e \<Rightarrow> (Some (match_of (length ts) ts e),
             spec_write upd ns ts (Some (e\<lparr>ce_last_used := clock\<rparr>)) clock a))"

definition spec_release :: "('r, 'e, 'v) slot_get \<Rightarrow> ('r, 'e, 'v) slot_upd \<Rightarrow> string \<Rightarrow> int list \<Rightarrow>
    ('r, 'e) map_cache \<Rightarrow> bool \<times> ('r, 'e) map_cache" where
  "spec_release get upd ns ts a =
     (let clock = sat_add (fst a) 1
      in case get (snd a ns ts) of
           None \<Rightarrow> (False, a)
         | Some e \<Rightarrow>
             if ce_active_refs e = 0 then (False, a)
             else (True, spec_write upd ns ts
               (Some (e\<lparr>ce_active_refs := ce_active_refs e - 1, ce_last_used := clock\<rparr>)) clock a))"

section \<open>The operations refine the map\<close>

lemma tick_simps [simp]: "radix_valid (tick st) = radix_valid st" "cache_view (tick st) = cache_view st"
  "ux_clock (tick st) = sat_add (ux_clock st) 1" "ux_roots (tick st) = ux_roots st"
  by (auto simp: tick_def radix_valid_def cache_view_def fun_eq_iff)

lemma view_empty_key: "radix_valid st \<Longrightarrow> cache_view st ns [] = no_components"
  using radix_valid_get [of st ns] by (auto simp: cache_view_def valid_root_def split: option.split)

context component_slot
begin

lemma insert_spec:
  assumes "radix_valid st"
  shows "map_prod id cache_abs (insert_component get upd ns ts bytes v st) =
      spec_insert get upd ns ts bytes v (cache_abs st)
    \<and> radix_valid (snd (insert_component get upd ns ts bytes v st))"
proof (cases "ts = [] \<or> (\<exists>e. get (cache_view st ns ts) = Some e \<and> 0 < ce_active_refs e)")
  case True
  then show ?thesis using assms
    by (auto simp: insert_component_def spec_insert_def cached_entry_view cache_abs_def Let_def split: option.splits)
next
  case False
  obtain old st' where r: "place_component get upd ns ts bytes v st = (old, st')" by fastforce
  then have "insert_component get upd ns ts bytes v st = (Inr old, st')"
    using False by (auto simp: insert_component_def cached_entry_view split: option.splits)
  then show ?thesis using place_component_refines [OF assms _ r] False
    by (simp add: spec_insert_def cache_abs_def spec_write_def Let_def)
qed

lemma remove_spec:
  assumes "radix_valid st"
  shows "map_prod id cache_abs (remove_component get upd ns ts st) = spec_remove get upd ns ts (cache_abs st)
    \<and> radix_valid (snd (remove_component get upd ns ts st))"
proof (cases "ts = []")
  case True
  then have "get (cache_view st ns ts) = None" using view_empty_key [OF assms] get_none by simp
  then have "remove_component get upd ns ts st = (None, st)"
    by (auto simp: remove_component_def cache_view_def entry_at_comps split: option.splits)
  then show ?thesis using assms \<open>get (cache_view st ns ts) = None\<close> upd_same [of "\<lambda>_. None"]
    by (simp add: spec_remove_def cache_abs_def spec_write_def view_put_id)
next
  case False
  obtain v st' where r: "remove_component get upd ns ts st = (v, st')" by fastforce
  show ?thesis using remove_refines [OF assms False r] r
    by (simp add: spec_remove_def cache_abs_def spec_write_def)
qed

lemma no_entry_at_root:
  assumes "radix_valid st"
  shows "get (cache_view st ns []) = None"
  using view_empty_key [OF assms] get_none by simp

lemma touch_none:
  assumes "get (cache_view st ns stored) = None"
  shows "touch_entry get upd acquire ns matched stored st = (None, st)"
  using assms by (auto simp: touch_entry_def cache_view_def entry_at_comps split: option.split)

lemma exact_spec:
  assumes "radix_valid st"
  shows "map_prod id cache_abs (touch_entry get upd False ns (length ts) ts (tick st)) =
      spec_exact get upd ns ts (cache_abs st)
    \<and> radix_valid (snd (touch_entry get upd False ns (length ts) ts (tick st)))"
proof (cases "ts = []")
  case True
  then have "get (cache_view (tick st) ns ts) = None" using no_entry_at_root [OF assms] by simp
  from touch_none [OF this] this show ?thesis using assms by (simp add: spec_exact_def cache_abs_def Let_def)
next
  case False
  obtain m st' where r: "touch_entry get upd False ns (length ts) ts (tick st) = (m, st')" by fastforce
  have "radix_valid (tick st)" using assms by simp
  from touch_entry_refines [OF this False r] show ?thesis using r
    by (auto simp: spec_exact_def cache_abs_def spec_write_def Let_def match_of_def split: option.splits)
qed

lemma release_spec:
  assumes "radix_valid st"
  shows "map_prod id cache_abs (release_component get upd ns ts st) = spec_release get upd ns ts (cache_abs st)
    \<and> radix_valid (snd (release_component get upd ns ts st))"
proof (cases "ts = []")
  case True
  then have none: "get (cache_view st ns ts) = None" using no_entry_at_root [OF assms] by simp
  then have "release_component get upd ns ts st = (False, st)"
    by (auto simp: release_component_def cache_view_def entry_at_comps split: option.splits)
  then show ?thesis using none assms by (simp add: spec_release_def cache_abs_def Let_def)
next
  case False
  obtain b st' where r: "release_component get upd ns ts st = (b, st')" by fastforce
  show ?thesis using release_refines [OF assms False r] r
    by (auto simp: spec_release_def cache_abs_def spec_write_def Let_def split: option.splits if_splits)
qed

lemma touch_valid:
  assumes "radix_valid st"
  shows "radix_valid (snd (touch_entry get upd acquire ns matched stored st))"
proof (cases "stored = []")
  case True
  then show ?thesis using touch_none no_entry_at_root [OF assms] assms by (simp add: touch_none)
next
  case False
  obtain m st' where r: "touch_entry get upd acquire ns matched stored st = (m, st')" by fastforce
  show ?thesis using touch_entry_refines [OF assms False r] r by simp
qed

end

lemmas slot_specs = resident.insert_spec recurrent.insert_spec resident.remove_spec recurrent.remove_spec
  resident.exact_spec recurrent.exact_spec resident.release_spec recurrent.release_spec

lemmas slot_ops = insert_resident_def insert_recurrent_def remove_resident_def remove_recurrent_def
  resident_exact_def recurrent_exact_def release_resident_def release_recurrent_def

text \<open>
  (C21) The compressed radix tree is invisible: on a valid cache, inserting, removing, reading an
  exact key and releasing a reference, of the resident and of the recurrent component, return
  what the same operation of a plain map with a clock returns, and leave the cache that the map
  operation leaves. Splits and pruning never touch another key or the other component.
\<close>
theorem radix_cache_refines_map:
  fixes st :: "('r, 'e) unified_radix_cache"
  assumes "radix_valid st"
  shows "map_prod id cache_abs (insert_resident ns ts bytes v st) =
      spec_insert rc_resident rc_resident_update ns ts bytes v (cache_abs st)
    \<and> map_prod id cache_abs (insert_recurrent ns ts bytes w st) =
      spec_insert rc_recurrent rc_recurrent_update ns ts bytes w (cache_abs st)
    \<and> map_prod id cache_abs (remove_resident ns ts st) =
      spec_remove rc_resident rc_resident_update ns ts (cache_abs st)
    \<and> map_prod id cache_abs (remove_recurrent ns ts st) =
      spec_remove rc_recurrent rc_recurrent_update ns ts (cache_abs st)
    \<and> map_prod id cache_abs (resident_exact ns ts st) =
      spec_exact rc_resident rc_resident_update ns ts (cache_abs st)
    \<and> map_prod id cache_abs (recurrent_exact ns ts st) =
      spec_exact rc_recurrent rc_recurrent_update ns ts (cache_abs st)
    \<and> map_prod id cache_abs (release_resident ns ts st) =
      spec_release rc_resident rc_resident_update ns ts (cache_abs st)
    \<and> map_prod id cache_abs (release_recurrent ns ts st) =
      spec_release rc_recurrent rc_recurrent_update ns ts (cache_abs st)"
  unfolding slot_ops using slot_specs [OF assms] by blast

lemma radix_cache_refines_map_witness:
  "snd (cache_abs (snd (insert_resident ''n'' [1, 2, 3] 8 True (new_cache :: (bool, unit) unified_radix_cache)))) ''n'' [1, 2]
     = no_components"
proof -
  have "snd (map_prod id cache_abs (insert_resident ''n'' [1, 2, 3] 8 True (new_cache :: (bool, unit) unified_radix_cache)))
      = snd (spec_insert rc_resident rc_resident_update ''n'' [1, 2, 3] 8 True (cache_abs (new_cache :: (bool, unit) unified_radix_cache)))"
    using radix_cache_refines_map [OF radix_valid_new] by metis
  then show ?thesis
    by (simp add: spec_insert_def spec_write_def cache_abs_def Let_def view_put_def)
      (simp add: new_cache_def cache_view_def no_components_def)
qed

section \<open>Searches\<close>

text \<open>
  The recurrent search returns the longest prefix of the query that is stored as a recurrent
  entry, with that entry's fields, and nothing exactly when no non-empty prefix is stored.
\<close>
theorem recurrent_search_longest:
  assumes "radix_valid st" and "length ts \<le> U64_MAX"
  shows "case peek_recurrent ns ts st of
      None \<Rightarrow> \<forall>k. 0 < k \<and> k \<le> length ts \<longrightarrow> rc_recurrent (cache_view st ns (take k ts)) = None
    | Some r \<Rightarrow>
        (let m = rm_matched_tokens r
         in 0 < m \<and> m \<le> length ts \<and> rm_stored_tokens r = take m ts
          \<and> (\<exists>e. rc_recurrent (cache_view st ns (take m ts)) = Some e \<and> r = match_of m (take m ts) e)
          \<and> (\<forall>k. m < k \<and> k \<le> length ts \<longrightarrow> rc_recurrent (cache_view st ns (take k ts)) = None))"
proof (cases "bt_get (ux_roots st) ns")
  case None
  then have "cache_view st ns us = no_components" for us by (simp add: cache_view_def)
  then show ?thesis using None by (simp add: peek_recurrent_def recurrent_match_def peek_match_def no_components_def)
next
  case (Some root)
  have valid: "valid_root root" using radix_valid_get [OF assms(1) Some] by blast
  have view: "cache_view st ns us = comps_at root us" for us using Some by (simp add: cache_view_def)
  note iff = longest_component_prefix_iff [OF valid assms(2), of KvRecurrent]
  show ?thesis
  proof (cases "longest_component_prefix root ts KvRecurrent")
    case None
    then have "\<not> slot_present KvRecurrent (comps_at root (take k ts))" if "0 < k" "k \<le> length ts" for k
      using longest_component_prefix_None [OF valid assms(2) _ that] by simp
    then show ?thesis using None Some
      by (simp add: peek_recurrent_def recurrent_match_def peek_match_def view slot_present_def)
  next
    case m: (Some m)
    from m have m': "0 < m" "m \<le> length ts" "slot_present KvRecurrent (comps_at root (take m ts))"
      "\<forall>k. m < k \<and> k \<le> length ts \<longrightarrow> \<not> slot_present KvRecurrent (comps_at root (take k ts))"
      unfolding iff by auto
    obtain e where e: "rc_recurrent (comps_at root (take m ts)) = Some e"
      using m'(3) by (auto simp: slot_present_def)
    then have "peek_recurrent ns ts st = Some (match_of m (take m ts) e)"
      using m Some by (simp add: peek_recurrent_def recurrent_match_def peek_match_def
          recurrent.cached_entry_view view)
    then show ?thesis using m' e by (simp add: match_of_def view slot_present_def)
  qed
qed

text \<open>Some entry, resident or recurrent, is stored under a key that starts with the tokens.\<close>

definition key_below :: "('r, 'e) unified_radix_cache \<Rightarrow> string \<Rightarrow> int list \<Rightarrow> bool" where
  "key_below st ns us \<longleftrightarrow> (\<exists>vs. cache_view st ns (us @ vs) \<noteq> no_components)"

lemma resident_walk:
  assumes "radix_valid st" and "length ts \<le> U64_MAX" and "bt_get (ux_roots st) ns = Some root" and "ts \<noteq> []"
  shows "\<exists>d r. walked root ts 0 [] None d r \<and> resident_backing_prefix root ts =
    (case r of Some (m, stored) \<Rightarrow> if 0 < m then Some (m, stored) else None | None \<Rightarrow> None)"
proof -
  have root: "radix_wf root" "radix_canonical root" "rn_components root = no_components"
    using radix_valid_get [OF assms(1,3)] by (auto simp: valid_root_def)
  let ?r = "finish_search (backing_loop root ts 0 [] None)"
  have "resident_backing_prefix root ts =
      (case ?r of Some (m, stored) \<Rightarrow> if 0 < m then Some (m, stored) else None | None \<Rightarrow> None)"
    using root(3) by (cases "backing_loop root ts 0 [] None")
      (simp add: resident_backing_prefix_def no_components_def)
  moreover obtain d where "walked root ts 0 [] None d ?r"
    using backing_walks [OF root(1,2), of 0 ts "[]" None] assms(2,4) by auto
  ultimately show ?thesis by blast
qed

text \<open>
  (C23) Exactly what the resident search finds. The search follows the query to the depth \<open>d\<close>, the
  most tokens with which any stored key starts, resident or recurrent. If a resident key starts
  with those tokens, the match is \<open>d\<close> tokens of such a key; otherwise it is the longest resident
  key that the query starts with, and nothing if there is none. In a namespace without recurrent entries that
  is the longest prefix of the query which a resident key backs; a recurrent key that goes further
  with the query hides the resident keys that share a shorter prefix.
\<close>

theorem resident_search_exact:
  fixes st :: "('r, 'e) unified_radix_cache"
  assumes "radix_valid st" and "length ts \<le> U64_MAX"
  shows "\<exists>d \<le> length ts. (0 < d \<longrightarrow> key_below st ns (take d ts)) \<and>
    (\<forall>k. d < k \<and> k \<le> length ts \<longrightarrow> \<not> key_below st ns (take k ts)) \<and>
    (if 0 < d \<and> (\<exists>us. rc_resident (cache_view st ns (take d ts @ us)) \<noteq> None)
     then \<exists>us e. rc_resident (cache_view st ns (take d ts @ us)) = Some e \<and>
       peek_resident ns ts st = Some (match_of d (take d ts @ us) e)
     else if \<exists>j. 0 < j \<and> j \<le> length ts \<and> rc_resident (cache_view st ns (take j ts)) \<noteq> None
     then \<exists>j e. 0 < j \<and> j \<le> length ts \<and> rc_resident (cache_view st ns (take j ts)) = Some e \<and>
       peek_resident ns ts st = Some (match_of j (take j ts) e) \<and>
       (\<forall>k. j < k \<and> k \<le> length ts \<longrightarrow> rc_resident (cache_view st ns (take k ts)) = None)
     else peek_resident ns ts st = None)"
proof (cases "bt_get (ux_roots st) ns")
  case None
  then have "cache_view st ns us = no_components" for us by (simp add: cache_view_def)
  then show ?thesis using None
    by (intro exI [of _ 0])
      (simp add: peek_resident_def resident_match_def peek_match_def no_components_def key_below_def)
next
  case (Some root)
  have view: "cache_view st ns us = comps_at root us" for us using Some by (simp add: cache_view_def)
  then have below: "key_below st ns us \<longleftrightarrow> any_below root us" for us by (simp add: key_below_def any_below_def)
  have peek: "peek_resident ns ts st = Option.bind (resident_backing_prefix root ts) (\<lambda>(m, stored).
      map_option (match_of m stored) (rc_resident (comps_at root stored)))"
    using Some by (simp add: peek_resident_def resident_match_def peek_match_def resident.cached_entry_view view)
  show ?thesis
  proof (cases "ts = []")
    case True
    then have "peek_resident ns ts st = None"
      unfolding peek by (simp add: resident_backing_prefix_def Let_def split: option.split)
    then show ?thesis using True by simp
  next
    case False
    obtain d r where w: "walked root ts 0 [] None d r" and run: "resident_backing_prefix root ts =
        (case r of Some (m, stored) \<Rightarrow> if 0 < m then Some (m, stored) else None | None \<Rightarrow> None)"
      using resident_walk [OF assms Some False] by blast
    let ?deep = "0 < d \<and> (\<exists>us. rc_resident (comps_at root (take d ts @ us)) \<noteq> None)"
    let ?key = "\<exists>j. 0 < j \<and> j \<le> length ts \<and> rc_resident (comps_at root (take j ts)) \<noteq> None"
    have res: "if ?deep then \<exists>us. r = Some (d, take d ts @ us) \<and> resident_below root (take d ts @ us)
      else if ?key then \<exists>j. 0 < j \<and> j \<le> length ts \<and> resident_below root (take j ts) \<and> r = Some (j, take j ts) \<and>
        (\<forall>k. j < k \<and> k \<le> length ts \<longrightarrow> \<not> resident_below root (take k ts))
      else r = None" using w unfolding walked_def add_0 append_Nil by (elim conjE)
    have found: "peek_resident ns ts st = Some (match_of m us e)"
      if "r = Some (m, us)" "0 < m" "rc_resident (comps_at root us) = Some e" for m us e
      using that by (simp add: peek run)
    have final: "if ?deep then \<exists>us e. rc_resident (comps_at root (take d ts @ us)) = Some e \<and>
        peek_resident ns ts st = Some (match_of d (take d ts @ us) e)
      else if ?key then \<exists>j e. 0 < j \<and> j \<le> length ts \<and> rc_resident (comps_at root (take j ts)) = Some e \<and>
        peek_resident ns ts st = Some (match_of j (take j ts) e) \<and>
        (\<forall>k. j < k \<and> k \<le> length ts \<longrightarrow> rc_resident (comps_at root (take k ts)) = None)
      else peek_resident ns ts st = None"
    proof -
      consider (deep) "?deep" | (key) "\<not> ?deep" "?key" | (none) "\<not> ?deep" "\<not> ?key" by blast
      then show ?thesis
      proof cases
        case deep
        then show ?thesis using res found unfolding if_P [OF deep] by blast
      next
        case key
        then obtain j where j: "0 < j" "j \<le> length ts" "resident_below root (take j ts)" "r = Some (j, take j ts)"
          "\<forall>k. j < k \<and> k \<le> length ts \<longrightarrow> \<not> resident_below root (take k ts)"
          using res unfolding if_not_P [OF key(1)] if_P [OF key(2)] by blast
        then obtain e where "rc_resident (comps_at root (take j ts)) = Some e" by blast
        then show ?thesis using j found [OF j(4,1)] unfolding if_not_P [OF key(1)] if_P [OF key(2)] by blast
      next
        case none
        then have "r = None" using res by (simp only: if_not_P if_False)
        then have "peek_resident ns ts st = None" by (simp add: peek run)
        then show ?thesis unfolding if_not_P [OF none(1)] if_not_P [OF none(2)] .
      qed
    qed
    have pre: "d \<le> length ts" "0 < d \<longrightarrow> any_below root (take d ts)"
      "\<forall>k. d < k \<and> k \<le> length ts \<longrightarrow> \<not> any_below root (take k ts)"
      using w unfolding walked_def by blast+
    show ?thesis unfolding view below by (intro exI [of _ d] conjI) (rule pre final)+
  qed
qed

section \<open>Eviction\<close>

lemma victim_candidate_slot:
  "victim_candidate ResidentKv c = (case rc_resident c of
     Some e \<Rightarrow> if ce_active_refs e = 0 then Some (ce_last_used e, ce_logical_bytes e) else None | None \<Rightarrow> None)"
  "victim_candidate KvRecurrent c = (case rc_recurrent c of
     Some e \<Rightarrow> if ce_active_refs e = 0 then Some (ce_last_used e, ce_logical_bytes e) else None | None \<Rightarrow> None)"
  by (simp_all add: victim_candidate_def)

lemma victim_candidate_none [simp]: "victim_candidate kind no_components = None"
  by (cases kind) (simp_all add: victim_candidate_def no_components_def)

lemma lru_victim_least:
  assumes "radix_valid st"
  shows "case lru_victim kind st of
      None \<Rightarrow> \<forall>ns ts. victim_candidate kind (cache_view st ns ts) = None
    | Some v \<Rightarrow> victim_candidate kind (cache_view st (vc_namespace v) (vc_tokens v)) =
          Some (vc_last_used v, vc_logical_bytes v)
        \<and> (\<forall>ns ts lu b. victim_candidate kind (cache_view st ns ts) = Some (lu, b) \<longrightarrow>
            victim_key v \<le> (lu, ns, ts))"
proof -
  note items = cache_items_view [OF assms]
  have mem: "(ns, ts, cache_view st ns ts) \<in> set (cache_items st)"
    if "victim_candidate kind (cache_view st ns ts) \<noteq> None" for ns ts
    using items(2) [of ns ts] that victim_candidate_none by metis
  show ?thesis
  proof (cases "lru_victim kind st")
    case None
    then have "\<forall>(ns, p, c) \<in> set (cache_items st). victim_candidate kind c = None"
      using fold_offer [of "cache_items st" kind] unfolding lru_victim_items by simp
    then have "victim_candidate kind (cache_view st ns ts) = None" for ns ts using mem by fastforce
    then show ?thesis using None by simp
  next
    case (Some v)
    have f: "\<exists>c. (vc_namespace v, vc_tokens v, c) \<in> set (cache_items st)
          \<and> victim_candidate kind c = Some (vc_last_used v, vc_logical_bytes v)"
      "\<And>ns p c lu b. (ns, p, c) \<in> set (cache_items st) \<Longrightarrow> victim_candidate kind c = Some (lu, b) \<Longrightarrow>
            victim_key v \<le> (lu, ns, p)"
      using fold_offer [of "cache_items st" kind] Some unfolding lru_victim_items
      by (auto simp del: less_eq_prod_simp)
    have "victim_key v \<le> (lu, ns, ts)" if "victim_candidate kind (cache_view st ns ts) = Some (lu, b)" for ns ts lu b
      using f(2) [OF mem that] that by simp
    then show ?thesis using Some f(1) items(1) by (auto simp del: less_eq_prod_simp)
  qed
qed

text \<open>
  Evicting the least recently used resident entry removes the entry with the least last use
  (ties by namespace and key) among those nobody references, and reports its key, its size and its
  value; every other entry stays as it was. It returns nothing exactly when every resident entry
  is referenced, and the choice does not depend on the order of the namespaces in the hash map.
\<close>
theorem lru_eviction_least_recent:
  assumes "radix_valid st" and "evict_lru_resident st = (r, st')"
  shows "case r of
      None \<Rightarrow> st' = st \<and> (\<forall>ns ts e. rc_resident (cache_view st ns ts) = Some e \<longrightarrow> 0 < ce_active_refs e)
    | Some ev \<Rightarrow>
        (let ns = re_namespace ev; ts = re_tokens ev
         in (\<exists>e. rc_resident (cache_view st ns ts) = Some e \<and> ce_active_refs e = 0
              \<and> re_logical_bytes ev = ce_logical_bytes e \<and> re_value ev = ce_value e
              \<and> (\<forall>ns' ts' e'. rc_resident (cache_view st ns' ts') = Some e' \<and> ce_active_refs e' = 0 \<longrightarrow>
                  (ce_last_used e, ns, ts) \<le> (ce_last_used e', ns', ts')))
          \<and> cache_view st' = view_put ns ts ((cache_view st ns ts)\<lparr>rc_resident := None\<rparr>) (cache_view st)
          \<and> radix_valid st')"
proof (cases "lru_victim ResidentKv st")
  case None
  have "0 < ce_active_refs e" if "rc_resident (cache_view st ns ts) = Some e" for ns ts e
  proof (rule ccontr)
    assume "\<not> 0 < ce_active_refs e"
    then have "victim_candidate ResidentKv (cache_view st ns ts) \<noteq> None"
      using that by (simp add: victim_candidate_slot)
    then show False using lru_victim_least [OF assms(1), of ResidentKv] None by simp
  qed
  then show ?thesis using assms(2) None by (auto simp: evict_lru_resident_def)
next
  case (Some v)
  let ?ns = "vc_namespace v" and ?ts = "vc_tokens v"
  have v: "victim_candidate ResidentKv (cache_view st ?ns ?ts) = Some (vc_last_used v, vc_logical_bytes v)"
    and least: "\<And>ns ts lu b. victim_candidate ResidentKv (cache_view st ns ts) = Some (lu, b) \<Longrightarrow>
            victim_key v \<le> (lu, ns, ts)"
    using lru_victim_least [OF assms(1), of ResidentKv] Some by (auto simp del: less_eq_prod_simp)
  obtain e where e: "rc_resident (cache_view st ?ns ?ts) = Some e" "ce_active_refs e = 0"
      "vc_last_used v = ce_last_used e" "vc_logical_bytes v = ce_logical_bytes e"
    using v by (auto simp: victim_candidate_slot split: option.splits if_splits)
  obtain x st1 where rm: "remove_resident ?ns ?ts st = (x, st1)" by fastforce
  have ne: "?ts \<noteq> []" using e(1) view_empty_key [OF assms(1)] by (auto simp: no_components_def)
  have rem: "radix_valid st1 \<and> x = Some (ce_value e)
    \<and> cache_view st1 = view_put ?ns ?ts ((cache_view st ?ns ?ts)\<lparr>rc_resident := None\<rparr>) (cache_view st)"
    using resident.remove_refines [OF assms(1) ne rm [unfolded remove_resident_def]] e(1) by simp
  have r: "r = Some \<lparr>re_namespace = ?ns, re_tokens = ?ts, re_logical_bytes = ce_logical_bytes e, re_value = ce_value e\<rparr>"
    and st': "st' = st1\<lparr>ux_resident_evictions := sat_add (ux_resident_evictions st1) 1\<rparr>"
    using assms(2) Some e rm rem
    by (auto simp: evict_lru_resident_def evict_resident_candidate_def resident.cached_entry_view)
  have "cache_view st' = cache_view st1" "radix_valid st' = radix_valid st1"
    by (auto simp: st' cache_view_def radix_valid_def fun_eq_iff)
  moreover have "(ce_last_used e, ?ns, ?ts) \<le> (ce_last_used e', ns', ts')"
    if "rc_resident (cache_view st ns' ts') = Some e'" "ce_active_refs e' = 0" for ns' ts' e'
    using least [of ns' ts'] that e(3) by (simp add: victim_candidate_slot victim_key_def del: less_eq_prod_simp)
  ultimately show ?thesis using e rem by (simp add: r Let_def del: less_eq_prod_simp)
qed

section \<open>References protect entries\<close>

definition slot_pins :: "('r, 'e, 'v) slot_get \<Rightarrow> ('r, 'e) radix_components \<Rightarrow> ('r, 'e) radix_components \<Rightarrow> bool" where
  "slot_pins get c c' \<longleftrightarrow> (\<forall>e. get c = Some e \<and> 0 < ce_active_refs e \<longrightarrow>
     (\<exists>e'. get c' = Some e' \<and> ce_value e' = ce_value e \<and> ce_logical_bytes e' = ce_logical_bytes e
        \<and> 0 < ce_active_refs e'))"

text \<open>Every referenced entry of the one cache is in the other, with its value and still referenced.\<close>

definition keeps_pins :: "('r, 'e) unified_radix_cache \<Rightarrow> ('r, 'e) unified_radix_cache \<Rightarrow> bool" where
  "keeps_pins st st' \<longleftrightarrow> (\<forall>ns ts. slot_pins rc_resident (cache_view st ns ts) (cache_view st' ns ts)
     \<and> slot_pins rc_recurrent (cache_view st ns ts) (cache_view st' ns ts))"

lemma slot_pins_refl [simp]: "slot_pins get c c"
  by (auto simp: slot_pins_def)

lemma slot_pins_trans: "slot_pins get a b \<Longrightarrow> slot_pins get b c \<Longrightarrow> slot_pins get a c"
  by (fastforce simp: slot_pins_def)

lemma keeps_pins_trans: "keeps_pins st st1 \<Longrightarrow> keeps_pins st1 st2 \<Longrightarrow> keeps_pins st st2"
  unfolding keeps_pins_def by (blast intro: slot_pins_trans)

lemma keeps_pins_view: "cache_view st' = cache_view st \<Longrightarrow> keeps_pins st st'"
  by (simp add: keeps_pins_def)

lemma keeps_pins_put:
  assumes "cache_view st' = view_put ns ts c (cache_view st)"
    and "slot_pins rc_resident (cache_view st ns ts) c" and "slot_pins rc_recurrent (cache_view st ns ts) c"
  shows "keeps_pins st st'"
proof -
  have "slot_pins rc_resident (cache_view st n t) (view_put ns ts c (cache_view st) n t)
      \<and> slot_pins rc_recurrent (cache_view st n t) (view_put ns ts c (cache_view st) n t)" for n t
    using assms(2,3) by (cases "(n, t) = (ns, ts)") (auto simp: view_put_other)
  then show ?thesis unfolding keeps_pins_def assms(1) by blast
qed

lemma keeps_pins_resident:
  assumes "cache_view st' = view_put ns ts (rc_resident_update (\<lambda>_. x) (cache_view st ns ts)) (cache_view st)"
    and "\<And>e. rc_resident (cache_view st ns ts) = Some e \<Longrightarrow> 0 < ce_active_refs e \<Longrightarrow>
      \<exists>e'. x = Some e' \<and> ce_value e' = ce_value e \<and> ce_logical_bytes e' = ce_logical_bytes e \<and> 0 < ce_active_refs e'"
  shows "keeps_pins st st'"
  by (rule keeps_pins_put [OF assms(1)]) (use assms(2) in \<open>auto simp: slot_pins_def\<close>)

lemma keeps_pins_recurrent:
  assumes "cache_view st' = view_put ns ts (rc_recurrent_update (\<lambda>_. x) (cache_view st ns ts)) (cache_view st)"
    and "\<And>e. rc_recurrent (cache_view st ns ts) = Some e \<Longrightarrow> 0 < ce_active_refs e \<Longrightarrow>
      \<exists>e'. x = Some e' \<and> ce_value e' = ce_value e \<and> ce_logical_bytes e' = ce_logical_bytes e \<and> 0 < ce_active_refs e'"
  shows "keeps_pins st st'"
  by (rule keeps_pins_put [OF assms(1)]) (use assms(2) in \<open>auto simp: slot_pins_def\<close>)

text \<open>The operations that a cache policy uses: insertions, lookups, acquisitions, evictions, quarantine.\<close>

inductive policy_step :: "('r, 'e) unified_radix_cache \<Rightarrow> ('r, 'e) unified_radix_cache \<Rightarrow> bool" where
  "policy_step st (snd (insert_resident ns ts bytes v st))"
| "policy_step st (snd (insert_resident_if_vacant ns ts bytes v st))"
| "policy_step st (snd (insert_recurrent ns ts bytes w st))"
| "policy_step st (snd (remove_recurrent_if ns ts p st))"
| "policy_step st (snd (evict_resident_candidate ns ts st))"
| "policy_step st (snd (evict_lru_resident st))"
| "policy_step st (snd (evict_lru_recurrent st))"
| "policy_step st (snd (resident_exact ns ts st))"
| "policy_step st (snd (recurrent_exact ns ts st))"
| "policy_step st (snd (lookup_resident ns ts st))"
| "policy_step st (snd (lookup_recurrent ns ts st))"
| "policy_step st (snd (acquire_resident ns ts st))"
| "policy_step st (snd (acquire_recurrent ns ts st))"

text \<open>All operations: also the releases and the removals the owner of an entry asks for.\<close>

inductive radix_step :: "('r, 'e) unified_radix_cache \<Rightarrow> ('r, 'e) unified_radix_cache \<Rightarrow> bool" where
  "policy_step st st' \<Longrightarrow> radix_step st st'"
| "radix_step st (snd (remove_resident ns ts st))"
| "radix_step st (snd (remove_recurrent ns ts st))"
| "radix_step st (snd (remove_resident_where p st))"
| "radix_step st (snd (remove_recurrent_where q st))"
| "radix_step st (snd (release_resident ns ts st))"
| "radix_step st (snd (release_recurrent ns ts st))"
| "radix_step st (snd (release_resident_where p st))"

definition good_step :: "('r, 'e) unified_radix_cache \<Rightarrow> ('r, 'e) unified_radix_cache \<Rightarrow> bool" where
  "good_step st st' \<longleftrightarrow> radix_valid st' \<and> keeps_pins st st'"

lemma good_step_refl: "radix_valid st \<Longrightarrow> good_step st st"
  by (simp add: good_step_def keeps_pins_view)

lemma same_roots: "ux_roots st' = ux_roots st \<Longrightarrow> cache_view st' = cache_view st \<and> radix_valid st' = radix_valid st"
  by (auto simp: cache_view_def radix_valid_def fun_eq_iff)

lemma good_insert_resident:
  assumes "radix_valid st"
  shows "good_step st (snd (insert_resident ns ts bytes v st))"
proof -
  note spec = resident.insert_spec [OF assms, of ns ts bytes v]
  then have v: "radix_valid (snd (insert_resident ns ts bytes v st))" by (simp add: insert_resident_def)
  have eq: "cache_view (snd (insert_resident ns ts bytes v st)) =
      snd (snd (spec_insert rc_resident rc_resident_update ns ts bytes v (cache_abs st)))"
    using spec unfolding insert_resident_def cache_abs_def [of "snd (insert_component rc_resident rc_resident_update ns ts bytes v st)"]
    by (metis cache_abs_def snd_conv snd_map_prod)
  have "keeps_pins st (snd (insert_resident ns ts bytes v st))"
  proof (cases "ts = [] \<or> (\<exists>e. rc_resident (cache_view st ns ts) = Some e \<and> 0 < ce_active_refs e)")
    case True
    then show ?thesis by (intro keeps_pins_view) (auto simp: eq spec_insert_def cache_abs_def Let_def)
  next
    case False
    show ?thesis
      by (rule keeps_pins_resident) (use False in \<open>auto simp: eq spec_insert_def spec_write_def cache_abs_def Let_def\<close>)
  qed
  then show ?thesis using v by (simp add: good_step_def)
qed

lemma good_insert_recurrent:
  assumes "radix_valid st"
  shows "good_step st (snd (insert_recurrent ns ts bytes v st))"
proof -
  note spec = recurrent.insert_spec [OF assms, of ns ts bytes v]
  then have v: "radix_valid (snd (insert_recurrent ns ts bytes v st))" by (simp add: insert_recurrent_def)
  have eq: "cache_view (snd (insert_recurrent ns ts bytes v st)) =
      snd (snd (spec_insert rc_recurrent rc_recurrent_update ns ts bytes v (cache_abs st)))"
    using spec unfolding insert_recurrent_def by (metis cache_abs_def snd_conv snd_map_prod)
  have "keeps_pins st (snd (insert_recurrent ns ts bytes v st))"
  proof (cases "ts = [] \<or> (\<exists>e. rc_recurrent (cache_view st ns ts) = Some e \<and> 0 < ce_active_refs e)")
    case True
    then show ?thesis by (intro keeps_pins_view) (auto simp: eq spec_insert_def cache_abs_def Let_def)
  next
    case False
    show ?thesis
      by (rule keeps_pins_recurrent) (use False in \<open>auto simp: eq spec_insert_def spec_write_def cache_abs_def Let_def\<close>)
  qed
  then show ?thesis using v by (simp add: good_step_def)
qed

lemma good_insert_vacant:
  assumes "radix_valid st"
  shows "good_step st (snd (insert_resident_if_vacant ns ts bytes v st))"
proof (cases "ts = [] \<or> rc_resident (cache_view st ns ts) \<noteq> None")
  case True
  then show ?thesis using good_step_refl [OF assms]
    by (auto simp: insert_resident_if_vacant_def resident.cached_entry_view)
next
  case False
  obtain old st' where r: "place_component rc_resident rc_resident_update ns ts bytes v st = (old, st')" by fastforce
  note p = resident.place_component_refines [OF assms _ r]
  have "keeps_pins st st'" by (rule keeps_pins_resident [OF p(3)]) (use False in auto)
  then show ?thesis using False r p(1)
    by (simp add: insert_resident_if_vacant_def resident.cached_entry_view good_step_def)
qed

lemma good_remove_resident:
  assumes "radix_valid st" and "\<And>e. rc_resident (cache_view st ns ts) = Some e \<Longrightarrow> ce_active_refs e = 0"
  shows "good_step st (snd (remove_resident ns ts st))"
proof -
  note spec = resident.remove_spec [OF assms(1), of ns ts]
  then have v: "radix_valid (snd (remove_resident ns ts st))" by (simp add: remove_resident_def)
  have "cache_view (snd (remove_resident ns ts st)) =
      snd (snd (spec_remove rc_resident rc_resident_update ns ts (cache_abs st)))"
    using spec unfolding remove_resident_def by (metis cache_abs_def snd_conv snd_map_prod)
  then have "keeps_pins st (snd (remove_resident ns ts st))"
    by (intro keeps_pins_resident [of _ ns ts None]) (use assms(2) in \<open>auto simp: spec_remove_def spec_write_def cache_abs_def\<close>)
  then show ?thesis using v by (simp add: good_step_def)
qed

lemma good_remove_recurrent:
  assumes "radix_valid st" and "\<And>e. rc_recurrent (cache_view st ns ts) = Some e \<Longrightarrow> ce_active_refs e = 0"
  shows "good_step st (snd (remove_recurrent ns ts st))"
proof -
  note spec = recurrent.remove_spec [OF assms(1), of ns ts]
  then have v: "radix_valid (snd (remove_recurrent ns ts st))" by (simp add: remove_recurrent_def)
  have "cache_view (snd (remove_recurrent ns ts st)) =
      snd (snd (spec_remove rc_recurrent rc_recurrent_update ns ts (cache_abs st)))"
    using spec unfolding remove_recurrent_def by (metis cache_abs_def snd_conv snd_map_prod)
  then have "keeps_pins st (snd (remove_recurrent ns ts st))"
    by (intro keeps_pins_recurrent [of _ ns ts None]) (use assms(2) in \<open>auto simp: spec_remove_def spec_write_def cache_abs_def\<close>)
  then show ?thesis using v by (simp add: good_step_def)
qed

lemma good_touch_resident:
  assumes "radix_valid st"
  shows "good_step st (snd (touch_entry rc_resident rc_resident_update acquire ns matched stored (tick st)))"
proof (cases "rc_resident (cache_view st ns stored)")
  case None
  then show ?thesis using resident.touch_none [of "tick st" ns stored acquire matched] assms
    by (simp add: good_step_def keeps_pins_view)
next
  case (Some e)
  have ne: "stored \<noteq> []" using Some view_empty_key [OF assms] by (auto simp: no_components_def)
  obtain m st' where r: "touch_entry rc_resident rc_resident_update acquire ns matched stored (tick st) = (m, st')"
    by fastforce
  have "radix_valid (tick st)" using assms by simp
  note t = resident.touch_entry_refines [OF this ne r]
  have "keeps_pins st st'"
    by (rule keeps_pins_resident) (use t Some in \<open>auto simp: Let_def sat_add32_def\<close>)
  then show ?thesis using t r by (simp add: good_step_def)
qed

lemma good_touch_recurrent:
  assumes "radix_valid st"
  shows "good_step st (snd (touch_entry rc_recurrent rc_recurrent_update acquire ns matched stored (tick st)))"
proof (cases "rc_recurrent (cache_view st ns stored)")
  case None
  then show ?thesis using recurrent.touch_none [of "tick st" ns stored acquire matched] assms
    by (simp add: good_step_def keeps_pins_view)
next
  case (Some e)
  have ne: "stored \<noteq> []" using Some view_empty_key [OF assms] by (auto simp: no_components_def)
  obtain m st' where r: "touch_entry rc_recurrent rc_recurrent_update acquire ns matched stored (tick st) = (m, st')"
    by fastforce
  have "radix_valid (tick st)" using assms by simp
  note t = recurrent.touch_entry_refines [OF this ne r]
  have "keeps_pins st st'"
    by (rule keeps_pins_recurrent) (use t Some in \<open>auto simp: Let_def sat_add32_def\<close>)
  then show ?thesis using t r by (simp add: good_step_def)
qed

lemma good_tick: "radix_valid st \<Longrightarrow> good_step st (tick st)"
  by (simp add: good_step_def keeps_pins_view)

lemma good_counters:
  "good_step st st1 \<Longrightarrow> ux_roots st2 = ux_roots st1 \<Longrightarrow> good_step st st2"
  using same_roots [of st2 st1] by (simp add: good_step_def keeps_pins_def)

lemma good_evict_candidate:
  assumes "radix_valid st"
  shows "good_step st (snd (evict_resident_candidate ns ts st))"
proof (cases "\<exists>e. rc_resident (cache_view st ns ts) = Some e \<and> ce_active_refs e = 0")
  case False
  then show ?thesis using good_step_refl [OF assms]
    by (auto simp: evict_resident_candidate_def resident.cached_entry_view split: option.split)
next
  case True
  then have good: "good_step st (snd (remove_resident ns ts st))" by (intro good_remove_resident [OF assms]) auto
  obtain x st' where r: "remove_resident ns ts st = (x, st')" by fastforce
  show ?thesis using True good r good_counters [OF good]
    by (auto simp: evict_resident_candidate_def resident.cached_entry_view split: option.split)
qed

lemma policy_step_good:
  assumes "policy_step st st'" and "radix_valid st"
  shows "good_step st st'"
  using assms
proof (induction rule: policy_step.induct)
  case (4 st ns ts p)
  show ?case
  proof (cases "\<exists>e. rc_recurrent (cache_view st ns ts) = Some e \<and> ce_active_refs e = 0 \<and> p (ce_value e)")
    case True
    then show ?thesis using good_remove_recurrent [OF 4, of ns ts]
      by (auto simp: remove_recurrent_if_def recurrent.cached_entry_view)
  next
    case False
    then show ?thesis using good_step_refl [OF 4]
      by (auto simp: remove_recurrent_if_def recurrent.cached_entry_view split: option.splits)
  qed
next
  case (6 st)
  then show ?case by (auto simp: evict_lru_resident_def good_step_refl good_evict_candidate split: option.split)
next
  case (7 st)
  show ?case
  proof (cases "lru_victim KvRecurrent st")
    case None
    then show ?thesis using good_step_refl [OF 7] by (simp add: evict_lru_recurrent_def)
  next
    case (Some v)
    have "victim_candidate KvRecurrent (cache_view st (vc_namespace v) (vc_tokens v)) \<noteq> None"
      using lru_victim_least [OF 7, of KvRecurrent] Some by simp
    then have good: "good_step st (snd (remove_recurrent (vc_namespace v) (vc_tokens v) st))"
      by (intro good_remove_recurrent [OF 7]) (auto simp: victim_candidate_slot split: option.splits if_splits)
    obtain x st1 where r: "remove_recurrent (vc_namespace v) (vc_tokens v) st = (x, st1)" by fastforce
    show ?thesis using Some good r good_counters [OF good]
      by (auto simp: evict_lru_recurrent_def split: option.split)
  qed
qed (auto simp: good_insert_resident good_insert_vacant good_insert_recurrent good_evict_candidate
    resident_exact_def recurrent_exact_def lookup_resident_def lookup_recurrent_def acquire_resident_def
    acquire_recurrent_def touch_match_def good_touch_resident good_touch_recurrent good_tick
    split: option.split prod.split)

lemma radix_step_valid:
  assumes "radix_step st st'" and "radix_valid st"
  shows "radix_valid st'"
  using assms
proof (induction rule: radix_step.induct)
  case (1 st st')
  then show ?case using policy_step_good by (auto simp: good_step_def)
qed (auto simp: remove_resident_where_def remove_recurrent_where_def release_resident_where_def eviction_of_def
    remove_resident_def remove_recurrent_def release_resident_def release_recurrent_def
    resident.remove_spec recurrent.remove_spec resident.release_spec recurrent.release_spec
    split: option.split prod.split)

interpretation radix: step_invariant "\<lambda>st. st = new_cache" radix_step radix_valid
  by unfold_locales (auto intro: radix_step_valid)

text \<open>
  Every cache reachable from the empty one by any operations is valid: the trees are well
  formed and fully pruned, so no bare node with a single child and no empty leaf or namespace is
  ever left behind.
\<close>
theorem radix_cache_reachable_valid: "radix_step\<^sup>*\<^sup>* new_cache st \<Longrightarrow> radix_valid st"
  by (rule radix.reachable_inv [OF refl])

text \<open>
  (C22) No insertion, lookup, acquisition, eviction or quarantine ever removes or replaces an entry
  somebody holds a reference to: after any sequence of them the entry is still there with its
  value and size, and still referenced.
\<close>
theorem referenced_entries_survive:
  assumes "policy_step\<^sup>*\<^sup>* st st'" and "radix_valid st"
  shows "keeps_pins st st' \<and> radix_valid st'"
  using assms
proof (induction rule: rtranclp_induct)
  case base
  then show ?case by (simp add: keeps_pins_view)
next
  case (step st1 st2)
  then have "good_step st1 st2" by (auto intro: policy_step_good)
  then show ?case using step keeps_pins_trans unfolding good_step_def by blast
qed

section \<open>Acquiring and releasing\<close>

lemma view_put_put [simp]: "view_put ns ts c (view_put ns ts c' m) = view_put ns ts c m"
  by (simp add: view_put_def)

text \<open>
  An acquired resident entry is pinned and the release undoes the acquisition: while it is
  held the eviction of the entry is refused, and releasing it restores the number of references
  and leaves everything but the last use of that entry as it was before the acquisition.
\<close>
theorem acquire_release_roundtrip:
  fixes st :: "('r, 'e) unified_radix_cache"
  assumes "radix_valid st" and "acquire_resident ns ts st = (Some r, st1)"
    and "\<And>us e. rc_resident (cache_view st ns us) = Some e \<Longrightarrow> ce_active_refs e < U32_MAX"
  shows "\<exists>e st2 used. rc_resident (cache_view st ns (rm_stored_tokens r)) = Some e
    \<and> rm_active_refs r = ce_active_refs e + 1 \<and> rm_value r = ce_value e
    \<and> evict_resident_candidate ns (rm_stored_tokens r) st1 = (None, st1)
    \<and> release_resident ns (rm_stored_tokens r) st1 = (True, st2)
    \<and> cache_view st2 = view_put ns (rm_stored_tokens r)
        ((cache_view st ns (rm_stored_tokens r))\<lparr>rc_resident := Some (e\<lparr>ce_last_used := used\<rparr>)\<rparr>) (cache_view st)"
proof -
  obtain m stored where m: "resident_match ns ts st = Some (m, stored)"
      and touch: "touch_entry rc_resident rc_resident_update True ns m stored (tick st) = (Some r, st1)"
    using assms(2) by (auto simp: acquire_resident_def touch_match_def split: option.splits)
  have valid: "radix_valid (tick st)" using assms(1) by simp
  have some: "rc_resident (cache_view (tick st) ns stored) \<noteq> None"
    using resident.touch_none [of "tick st" ns stored True m] touch by fastforce
  then have ne: "stored \<noteq> []" using view_empty_key [OF assms(1)] by (auto simp: no_components_def)
  obtain e where e: "rc_resident (cache_view st ns stored) = Some e" using some by auto
  let ?e = "e\<lparr>ce_last_used := ux_clock (tick st), ce_active_refs := sat_add32 (ce_active_refs e) 1\<rparr>"
  have refs: "sat_add32 (ce_active_refs e) 1 = ce_active_refs e + 1"
    using assms(3) [OF e] by (simp add: sat_add32_def min_def)
  have t: "radix_valid st1" "r = match_of m stored ?e"
    "cache_view st1 = view_put ns stored ((cache_view st ns stored)\<lparr>rc_resident := Some ?e\<rparr>) (cache_view st)"
    using resident.touch_entry_refines [OF valid ne touch] e by (auto simp: Let_def)
  have held: "rc_resident (cache_view st1 ns stored) = Some ?e" by (simp add: t(3))
  obtain b st2 where rel: "release_resident ns stored st1 = (b, st2)" by fastforce
  have "b" and view2: "cache_view st2 = view_put ns stored ((cache_view st1 ns stored)\<lparr>rc_resident :=
      Some (?e\<lparr>ce_active_refs := ce_active_refs e, ce_last_used := sat_add (ux_clock st1) 1\<rparr>)\<rparr>) (cache_view st1)"
    using resident.release_refines [OF t(1) ne rel [unfolded release_resident_def]] held refs by auto
  have "cache_view st2 = view_put ns stored ((cache_view st ns stored)\<lparr>rc_resident :=
      Some (e\<lparr>ce_last_used := sat_add (ux_clock st1) 1\<rparr>)\<rparr>) (cache_view st)"
    unfolding view2 by (simp add: t(3))
  moreover have "evict_resident_candidate ns stored st1 = (None, st1)"
    using held refs by (simp add: evict_resident_candidate_def resident.cached_entry_view)
  moreover have "rm_stored_tokens r = stored" "rm_active_refs r = ce_active_refs e + 1" "rm_value r = ce_value e"
    by (simp_all add: t(2) match_of_def refs [simplified])
  ultimately show ?thesis using e rel \<open>b\<close> by auto
qed

section \<open>A resident prefix the search misses\<close>

definition mixed_cache :: "(bool, unit) unified_radix_cache" where
  "mixed_cache = snd (insert_recurrent ''n'' [1, 2, 4, 5] 4 ()
     (snd (insert_resident ''n'' [1, 2, 3] 8 True new_cache)))"

lemmas run_insert = insert_recurrent_def insert_resident_def insert_component_def place_component_def
  cached_entry_def entry_at_def write_entry_def root_node_def new_node_def common_prefix_len_def
  set_components_def no_components_def hl_put_def bt_get_Cons bt_modify_def bt_remove_def sat_add_def

lemma mixed_cache_eq:
  "mixed_cache = \<lparr>ux_clock = 2, ux_splits = 1, ux_resident_evictions = 0, ux_recurrent_evictions = 0,
     ux_roots = [(''n'', RadixNode [] no_components
       [(1, RadixNode [1, 2] no_components
         [(3, RadixNode [3] \<lparr>rc_resident = Some \<lparr>ce_value = True, ce_logical_bytes = 8,
                ce_last_used = 1, ce_active_refs = 0\<rparr>, rc_recurrent = None\<rparr> []),
          (4, RadixNode [4, 5] \<lparr>rc_resident = None, rc_recurrent = Some \<lparr>ce_value = (),
                ce_logical_bytes = 4, ce_last_used = 2, ce_active_refs = 0\<rparr>\<rparr> [])])])]\<rparr>"
  by (simp add: mixed_cache_def new_cache_def run_insert Let_def)

lemma mixed_cache_views:
  "rc_resident (cache_view mixed_cache ''n'' [1, 2, 3]) = Some \<lparr>ce_value = True, ce_logical_bytes = 8,
     ce_last_used = 1, ce_active_refs = 0\<rparr>"
  "rc_recurrent (cache_view mixed_cache ''n'' [1, 2, 4, 5]) = Some \<lparr>ce_value = (), ce_logical_bytes = 4,
     ce_last_used = 2, ce_active_refs = 0\<rparr>"
  by (simp_all add: mixed_cache_eq cache_view_def bt_get_Cons comps_edge_def)

lemma comps_at_leaf: "comps_at (RadixNode e c []) us = (if us = [] then c else no_components)"
  by (cases us) auto

lemma mixed_cache_below:
  "key_below mixed_cache ''n'' [1, 2, 4]" "\<not> key_below mixed_cache ''n'' [1, 2, 4, 9]"
  "rc_resident (cache_view mixed_cache ''n'' ([1, 2, 4] @ us)) = None"
  "rc_resident (cache_view mixed_cache ''n'' [1]) = None" "rc_resident (cache_view mixed_cache ''n'' [1, 2]) = None"
proof -
  show "key_below mixed_cache ''n'' [1, 2, 4]"
    unfolding key_below_def
    by (rule exI [of _ "[5]"]) (simp add: mixed_cache_eq cache_view_def bt_get_Cons comps_edge_def no_components_def)
qed (auto simp: key_below_def mixed_cache_eq cache_view_def bt_get_Cons comps_edge_def no_components_def
    comps_at_leaf split: if_splits)

section \<open>Examples\<close>

lemma mixed_cache_steps: "policy_step\<^sup>*\<^sup>* new_cache mixed_cache"
  unfolding mixed_cache_def
  by (rule rtranclp.rtrancl_into_rtrancl [OF rtranclp.rtrancl_into_rtrancl [OF rtranclp.rtrancl_refl]])
    (rule policy_step.intros)+

lemma mixed_cache_valid: "radix_valid mixed_cache"
proof -
  have "good_step (new_cache :: (bool, unit) unified_radix_cache) (snd (insert_resident ''n'' [1, 2, 3] 8 True new_cache))"
    by (rule good_insert_resident) simp
  then have "radix_valid (snd (insert_resident ''n'' [1, 2, 3] 8 True (new_cache :: (bool, unit) unified_radix_cache)))"
    by (simp add: good_step_def)
  from good_insert_recurrent [OF this] show ?thesis unfolding mixed_cache_def good_step_def by blast
qed

lemma referenced_entries_survive_witness: "keeps_pins new_cache mixed_cache"
  using referenced_entries_survive [OF mixed_cache_steps] by simp

text \<open>
  With a resident entry at \<open>[1, 2, 3]\<close> and a recurrent entry at \<open>[1, 2, 4, 5]\<close>, a query for
  \<open>[1, 2, 4, 9]\<close> follows the recurrent entry and misses the two tokens it shares with the resident one.
\<close>

lemma resident_search_exact_witness:
  "peek_resident ''n'' [1, 2, 4, 9] mixed_cache = None \<and>
   rc_resident (cache_view mixed_cache ''n'' [1, 2, 3]) \<noteq> None"
proof -
  let ?ts = "[1, 2, 4, 9 :: int]"
  let ?res = "\<lambda>us. rc_resident (cache_view mixed_cache ''n'' us)"
  have len: "length ?ts \<le> U64_MAX" by simp
  obtain d where d: "d \<le> length ?ts" "0 < d \<longrightarrow> key_below mixed_cache ''n'' (take d ?ts)"
    "\<forall>k. d < k \<and> k \<le> length ?ts \<longrightarrow> \<not> key_below mixed_cache ''n'' (take k ?ts)"
    and search: "if 0 < d \<and> (\<exists>us. ?res (take d ?ts @ us) \<noteq> None)
     then \<exists>us e. ?res (take d ?ts @ us) = Some e \<and>
       peek_resident ''n'' ?ts mixed_cache = Some (match_of d (take d ?ts @ us) e)
     else if \<exists>j. 0 < j \<and> j \<le> length ?ts \<and> ?res (take j ?ts) \<noteq> None
     then \<exists>j e. 0 < j \<and> j \<le> length ?ts \<and> ?res (take j ?ts) = Some e \<and>
       peek_resident ''n'' ?ts mixed_cache = Some (match_of j (take j ?ts) e) \<and>
       (\<forall>k. j < k \<and> k \<le> length ?ts \<longrightarrow> ?res (take k ?ts) = None)
     else peek_resident ''n'' ?ts mixed_cache = None"
    using resident_search_exact [OF mixed_cache_valid len, of "''n''"] by (elim exE conjE) (rule that)
  have "\<not> d < 3"
  proof
    assume "d < 3"
    then have "\<not> key_below mixed_cache ''n'' (take 3 ?ts)" using d(3) [rule_format, of 3] by simp
    then show False using mixed_cache_below(1) by simp
  qed
  moreover have "d \<noteq> 4"
  proof
    assume "d = 4"
    then show False using d(2) mixed_cache_below(2) by simp
  qed
  ultimately have d3: "d = 3" using d(1) by simp
  have no: "\<not> (0 < d \<and> (\<exists>us. ?res (take d ?ts @ us) \<noteq> None))"
    using mixed_cache_below(3) by (simp add: d3)
  have none: "?res (take j ?ts) = None" if "0 < j" "j \<le> length ?ts" for j
  proof -
    have j: "j = 1 \<or> j = 2 \<or> j = 3 \<or> j = 4" using that by auto
    have "?res (take 1 ?ts) = None" "?res (take 2 ?ts) = None" "?res (take 3 ?ts) = None"
      "?res (take 4 ?ts) = None"
      using mixed_cache_below(4,5) mixed_cache_below(3) [of "[]"] mixed_cache_below(3) [of "[9]"] by simp_all
    then show ?thesis using j by (elim disjE) (simp_all only:)
  qed
  have no': "\<not> (\<exists>j. 0 < j \<and> j \<le> length ?ts \<and> ?res (take j ?ts) \<noteq> None)"
    by (rule notI, elim exE conjE) (erule notE, rule none)
  have "peek_resident ''n'' ?ts mixed_cache = None" using search unfolding if_not_P [OF no] if_not_P [OF no'] .
  then show ?thesis by (simp add: mixed_cache_views)
qed

end
