(* ===== verification/WireBase.thy ===== *)
theory WireBase
  imports Prelude "HOL-Library.Word"
begin

unbundle bit_operations_syntax

text \<open>
  The vocabulary of the binary stage protocol (src/crates/skippy-protocol/src/binary): machine
  integers as words, little-endian byte strings (\<open>to_le_bytes\<close>, \<open>from_le_bytes\<close>), the errors of
  \<open>std::io\<close>, readers and writers. An \<open>f32\<close> is its bit pattern, a word of 32 bits. A reader is a
  function from the bytes still unread to an error or a value and the bytes left; a writer is the
  bytes that reached the stream and the outcome, because a writer that fails has already sent what
  it wrote before. The underlying stream is one that never fails by itself: a \<open>Vec<u8>\<close> or a
  \<open>Cursor\<close>. The locales \<open>wire_format\<close> and \<open>delimited_format\<close> are the contract of a pair of a
  writer and a reader.
\<close>

section \<open>Machine words and bytes\<close>

type_synonym byte = "8 word"
type_synonym u16 = "16 word"
type_synonym u32 = "32 word"
type_synonym u64 = "64 word"
type_synonym i32 = "32 word"
type_synonym i64 = "64 word"
type_synonym f32 = "32 word"

text \<open>A Rust \<open>String\<close> is its bytes.\<close>

type_synonym rust_string = "byte list"

primrec le_bytes :: "nat \<Rightarrow> 'a::len word \<Rightarrow> byte list" where
  "le_bytes 0 w = []"
| "le_bytes (Suc n) w = ucast w # le_bytes n (drop_bit 8 w)"

primrec le_word :: "byte list \<Rightarrow> 'a::len word" where
  "le_word [] = 0"
| "le_word (b # bs) = ucast b OR push_bit 8 (le_word bs)"

lemma length_le_bytes [simp]: "length (le_bytes n w) = n"
  by (induction n arbitrary: w) auto

lemma le_word_le_bytes: "le_word (le_bytes n w) = take_bit (8 * n) w"
proof (induction n arbitrary: w)
  case 0
  then show ?case by simp
next
  case (Suc n)
  show ?case
    by (rule bit_word_eqI) (auto simp: Suc bit_simps)
qed

lemma take_bit_le_word: "take_bit (8 * length bs) (le_word bs :: 'a::len word) = le_word bs"
proof (induction bs)
  case Nil
  then show ?case by simp
next
  case (Cons b bs)
  have "bit (le_word bs :: 'a word) i \<Longrightarrow> i < 8 * length bs" for i
    by (subst (asm) Cons [symmetric]) (simp add: bit_simps)
  moreover have "bit b i \<Longrightarrow> i < 8" for i
    using bit_imp_le_length [of b i] by simp
  ultimately show ?case
    by (intro bit_word_eqI) (fastforce simp: bit_simps)
qed

lemma le_bytes_le_word:
  "8 * length bs \<le> LENGTH('a::len) \<Longrightarrow> le_bytes (length bs) (le_word bs :: 'a word) = bs"
proof (induction bs)
  case Nil
  then show ?case by simp
next
  case (Cons b bs)
  have hi: "bit (le_word bs :: 'a word) i \<Longrightarrow> i < 8 * length bs" for i
    by (subst (asm) take_bit_le_word [symmetric]) (simp add: bit_simps)
  have b8: "bit b i \<Longrightarrow> i < 8" for i
    using bit_imp_le_length [of b i] by simp
  have head: "ucast (ucast b OR push_bit 8 (le_word bs) :: 'a word) = b"
    using Cons.prems by (intro bit_word_eqI) (auto simp: bit_simps)
  have tail: "drop_bit 8 (ucast b OR push_bit 8 (le_word bs) :: 'a word) = le_word bs"
    using Cons.prems by (intro bit_word_eqI) (auto simp: bit_simps dest: hi b8)
  show ?case using Cons head tail by simp
qed

lemma le_word_32 [simp]: "le_word (le_bytes 4 w) = (w :: 32 word)"
  using le_word_le_bytes [of 4 w] by (simp add: take_bit_word_eq_self)

lemma le_word_64 [simp]: "le_word (le_bytes 8 w) = (w :: 64 word)"
  using le_word_le_bytes [of 8 w] by (simp add: take_bit_word_eq_self)

lemma le_word_16 [simp]: "le_word (le_bytes 2 w) = (w :: 16 word)"
  using le_word_le_bytes [of 2 w] by (simp add: take_bit_word_eq_self)

text \<open>\<open>usize::try_from\<close> of a signed word: \<open>None\<close> when it is negative.\<close>

definition usize_of_signed :: "'a::len word \<Rightarrow> nat option" where
  "usize_of_signed v = (if sint v < 0 then None else Some (nat (sint v)))"

text \<open>\<open>i32::try_from\<close> of a \<open>usize\<close>.\<close>

definition i32_of_usize :: "nat \<Rightarrow> i32 option" where
  "i32_of_usize n = (if int n \<le> I32_MAX then Some (word_of_nat n) else None)"

lemma sint_word_of_nat_32: "int n \<le> I32_MAX \<Longrightarrow> sint (word_of_nat n :: 32 word) = int n"
  by (simp add: signed_of_nat signed_take_bit_int_eq_self)

lemma usize_of_signed_of_nat [simp]:
  "int n \<le> I32_MAX \<Longrightarrow> usize_of_signed (word_of_nat n :: 32 word) = Some n"
  by (simp add: usize_of_signed_def sint_word_of_nat_32)

lemma i32_of_usize_Some [simp]: "int n \<le> I32_MAX \<Longrightarrow> i32_of_usize n = Some (word_of_nat n)"
  by (simp add: i32_of_usize_def)

section \<open>Slices of bytes\<close>

text \<open>
  \<open>as_chunks::<N>().0\<close> and \<open>chunks_exact(n)\<close> drop the remainder; \<open>chunks(n)\<close> keeps it. The size of
  a chunk is not 0: both panic then.
\<close>

function as_chunks :: "nat \<Rightarrow> 'a list \<Rightarrow> 'a list list" where
  "as_chunks n xs =
     (if n = 0 \<or> length xs < n then [] else take n xs # as_chunks n (drop n xs))"
  by auto
termination by (relation "measure (\<lambda>(n, xs). length xs)") auto

declare as_chunks.simps [simp del]

function chunks_of :: "nat \<Rightarrow> 'a list \<Rightarrow> 'a list list" where
  "chunks_of n xs =
     (if n = 0 \<or> xs = [] then [] else take n xs # chunks_of n (drop n xs))"
  by auto
termination by (relation "measure (\<lambda>(n, xs). length xs)") auto

declare chunks_of.simps [simp del]

lemma as_chunks_short: "length xs < n \<Longrightarrow> as_chunks n xs = []"
  by (simp add: as_chunks.simps)

lemma as_chunks_Nil [simp]: "as_chunks n [] = []"
  by (cases n) (simp_all add: as_chunks.simps)

lemma as_chunks_append: "length a = n \<Longrightarrow> 0 < n \<Longrightarrow> as_chunks n (a @ xs) = a # as_chunks n xs"
  by (simp add: as_chunks.simps [of n "a @ xs"])

lemma as_chunks_concat_append:
  "0 < n \<Longrightarrow> (\<And>x. x \<in> set xs \<Longrightarrow> length (f x) = n) \<Longrightarrow>
   as_chunks n (concat (map f xs) @ ys) = map f xs @ as_chunks n ys"
  by (induction xs) (simp_all add: as_chunks_append)

lemma as_chunks_concat:
  "0 < n \<Longrightarrow> (\<And>x. x \<in> set xs \<Longrightarrow> length (f x) = n) \<Longrightarrow> as_chunks n (concat (map f xs)) = map f xs"
  using as_chunks_concat_append [of n xs f "[]"] by simp

lemma length_as_chunks: "0 < n \<Longrightarrow> length (as_chunks n xs) = length xs div n"
proof (induction n xs rule: as_chunks.induct)
  case (1 n xs)
  show ?case
  proof (cases "length xs < n")
    case True
    then show ?thesis by (simp add: as_chunks_short)
  next
    case False
    then have "length (as_chunks n xs) = Suc ((length xs - n) div n)"
      using 1 by (subst as_chunks.simps) simp
    also have "\<dots> = length xs div n"
      using False 1(2) by (simp add: le_div_geq)
    finally show ?thesis .
  qed
qed

lemma as_chunks_mem: "c \<in> set (as_chunks n xs) \<Longrightarrow> length c = n"
proof (induction n xs rule: as_chunks.induct)
  case (1 n xs)
  then show ?case by (subst (asm) (2) as_chunks.simps) (auto split: if_splits)
qed

lemma concat_as_chunks: "0 < n \<Longrightarrow> n dvd length xs \<Longrightarrow> concat (as_chunks n xs) = xs"
proof (induction n xs rule: as_chunks.induct)
  case (1 n xs)
  show ?case
  proof (cases "length xs < n")
    case True
    then have "xs = []" using 1(3) by (auto dest: dvd_imp_le)
    then show ?thesis by simp
  next
    case False
    then have "n dvd length xs - n" using 1(3) by simp
    then show ?thesis using False 1 by (subst as_chunks.simps) simp
  qed
qed

lemma concat_chunks_of: "0 < n \<Longrightarrow> concat (chunks_of n xs) = xs"
proof (induction n xs rule: chunks_of.induct)
  case (1 n xs)
  then show ?case by (subst chunks_of.simps) simp
qed

lemma concat_map_chunks_of:
  "0 < n \<Longrightarrow> concat (map (\<lambda>c. concat (map f c)) (chunks_of n xs)) = concat (map f xs)"
proof (induction n xs rule: chunks_of.induct)
  case (1 n xs)
  have "concat (map f (take n xs)) @ concat (map f (drop n xs)) = concat (map f xs)"
    by (metis append_take_drop_id concat_append map_append)
  then show ?case using 1 by (subst chunks_of.simps) simp
qed

section \<open>Errors and results\<close>

datatype error_kind = InvalidData | InvalidInput | UnexpectedEof

datatype io_error = Io_error (err_kind: error_kind) (err_message: string)

definition invalid_data :: "string \<Rightarrow> io_error" where
  "invalid_data m = Io_error InvalidData m"

definition invalid_input :: "string \<Rightarrow> io_error" where
  "invalid_input m = Io_error InvalidInput m"

text \<open>The error of \<open>read_exact\<close> at the end of the stream.\<close>

definition unexpected_eof :: io_error where
  "unexpected_eof = Io_error UnexpectedEof ''failed to fill whole buffer''"

type_synonym 'a io_result = "io_error + 'a"

text \<open>The operator \<open>?\<close>.\<close>

definition res_bind :: "'e + 'a \<Rightarrow> ('a \<Rightarrow> 'e + 'b) \<Rightarrow> 'e + 'b" where
  "res_bind m f = (case m of Inl e \<Rightarrow> Inl e | Inr x \<Rightarrow> f x)"

lemma res_bind_simps [simp]:
  "res_bind (Inl e) f = Inl e"
  "res_bind (Inr x) f = f x"
  by (simp_all add: res_bind_def)

lemma res_bind_Inr: "res_bind m f = Inr y \<longleftrightarrow> (\<exists>x. m = Inr x \<and> f x = Inr y)"
  by (cases m) auto

lemma res_bind_cong [fundef_cong]:
  "m = m' \<Longrightarrow> (\<And>x. m' = Inr x \<Longrightarrow> f x = g x) \<Longrightarrow> res_bind m f = res_bind m' g"
  by (cases m') auto

text \<open>\<open>if c { return Err(e) }\<close> and \<open>ok_or_else\<close>.\<close>

definition ensure :: "bool \<Rightarrow> 'e \<Rightarrow> 'e + unit" where
  "ensure c e = (if c then Inr () else Inl e)"

definition ok_or :: "'a option \<Rightarrow> 'e \<Rightarrow> 'e + 'a" where
  "ok_or x e = (case x of None \<Rightarrow> Inl e | Some y \<Rightarrow> Inr y)"

lemma ensure_Inr [simp]: "ensure c e = Inr u \<longleftrightarrow> c"
  by (simp add: ensure_def)

lemma ensure_True [simp]: "ensure True e = Inr ()"
  by (simp add: ensure_def)

lemma ensure_False [simp]: "ensure False e = Inl e"
  by (simp add: ensure_def)

lemma ok_or_Inr [simp]: "ok_or x e = Inr y \<longleftrightarrow> x = Some y"
  by (cases x) (simp_all add: ok_or_def)

lemma ok_or_Some [simp]: "ok_or (Some y) e = Inr y"
  by (simp add: ok_or_def)

section \<open>UTF-8\<close>

text \<open>
  \<open>String::from_utf8\<close> accepts the well-formed byte sequences of the Unicode standard (table 3-7).
\<close>

definition utf8_cont :: "byte \<Rightarrow> bool" where
  "utf8_cont b \<longleftrightarrow> 0x80 \<le> b \<and> b \<le> 0xBF"

fun utf8_valid :: "byte list \<Rightarrow> bool" where
  "utf8_valid [] \<longleftrightarrow> True"
| "utf8_valid (a # bs) \<longleftrightarrow>
     (if a \<le> 0x7F then utf8_valid bs
      else if 0xC2 \<le> a \<and> a \<le> 0xDF then
        (case bs of b # r \<Rightarrow> utf8_cont b \<and> utf8_valid r | _ \<Rightarrow> False)
      else if 0xE0 \<le> a \<and> a \<le> 0xEF then
        (case bs of b # c # r \<Rightarrow>
             utf8_cont b \<and> (a = 0xE0 \<longrightarrow> 0xA0 \<le> b) \<and> (a = 0xED \<longrightarrow> b \<le> 0x9F) \<and>
             utf8_cont c \<and> utf8_valid r
         | _ \<Rightarrow> False)
      else if 0xF0 \<le> a \<and> a \<le> 0xF4 then
        (case bs of b # c # d # r \<Rightarrow>
             utf8_cont b \<and> (a = 0xF0 \<longrightarrow> 0x90 \<le> b) \<and> (a = 0xF4 \<longrightarrow> b \<le> 0x8F) \<and>
             utf8_cont c \<and> utf8_cont d \<and> utf8_valid r
         | _ \<Rightarrow> False)
      else False)"

definition from_utf8 :: "byte list \<Rightarrow> string \<Rightarrow> rust_string io_result" where
  "from_utf8 bs message = (if utf8_valid bs then Inr bs else Inl (invalid_data message))"

lemma from_utf8_valid [simp]: "utf8_valid bs \<Longrightarrow> from_utf8 bs m = Inr bs"
  by (simp add: from_utf8_def)

lemma from_utf8_Inr: "from_utf8 bs m = Inr s \<longleftrightarrow> s = bs \<and> utf8_valid bs"
  by (auto simp: from_utf8_def)

section \<open>Readers\<close>

type_synonym 'a reader = "byte list \<Rightarrow> io_error + 'a \<times> byte list"

definition rd_ok :: "'a \<Rightarrow> 'a reader" where
  "rd_ok x s = Inr (x, s)"

definition rd_bind :: "'a reader \<Rightarrow> ('a \<Rightarrow> 'b reader) \<Rightarrow> 'b reader" where
  "rd_bind p f s = (case p s of Inl e \<Rightarrow> Inl e | Inr (x, s') \<Rightarrow> f x s')"

definition rd_try :: "'a io_result \<Rightarrow> 'a reader" where
  "rd_try m s = (case m of Inl e \<Rightarrow> Inl e | Inr x \<Rightarrow> Inr (x, s))"

definition read_exact :: "nat \<Rightarrow> byte list reader" where
  "read_exact n s = (if n \<le> length s then Inr (take n s, drop n s) else Inl unexpected_eof)"

text \<open>\<open>for _ in 0..n { values.push(read(..)?) }\<close>\<close>

primrec rd_repeat :: "nat \<Rightarrow> 'a reader \<Rightarrow> 'a list reader" where
  "rd_repeat 0 p = rd_ok []"
| "rd_repeat (Suc n) p = rd_bind p (\<lambda>x. rd_bind (rd_repeat n p) (\<lambda>xs. rd_ok (x # xs)))"

lemma rd_ok_app: "rd_ok x s = Inr (x, s)"
  by (simp add: rd_ok_def)

lemma rd_try_simps [simp]:
  "rd_try (Inl e) s = Inl e"
  "rd_try (Inr x) s = Inr (x, s)"
  by (simp_all add: rd_try_def)

lemma rd_try_Inr [simp]: "rd_try m s = Inr (x, r) \<longleftrightarrow> m = Inr x \<and> r = s"
  by (cases m) auto

lemma rd_bind_step: "p s = Inr (x, s') \<Longrightarrow> rd_bind p f s = f x s'"
  by (simp add: rd_bind_def)

lemma rd_bind_stop: "p s = Inl e \<Longrightarrow> rd_bind p f s = Inl e"
  by (simp add: rd_bind_def)

lemma rd_bind_Inr:
  "rd_bind p f s = Inr (y, s') \<longleftrightarrow> (\<exists>x t. p s = Inr (x, t) \<and> f x t = Inr (y, s'))"
  by (auto simp: rd_bind_def split: sum.split prod.split)

lemma rd_bind_ok [simp]: "rd_bind (rd_ok x) f = f x"
  by (rule ext) (simp add: rd_bind_def rd_ok_app)

lemma rd_bind_ok_app [simp]: "rd_bind (\<lambda>s. Inr (x, s)) f = f x"
  by (rule ext) (simp add: rd_bind_def)

lemma rd_bind_assoc: "rd_bind (rd_bind p f) g = rd_bind p (\<lambda>x. rd_bind (f x) g)"
  by (rule ext) (simp add: rd_bind_def split: sum.split prod.split)

lemma rd_bind_rd_ok: "rd_bind p rd_ok = p"
  by (rule ext) (simp add: rd_bind_def rd_ok_app split: sum.split prod.split)

lemma rd_bind_try_Inr [simp]: "rd_bind (rd_try (Inr x)) f = f x"
  by (rule ext) (simp add: rd_bind_def)

lemma rd_bind_try: "rd_bind (rd_try m) f s = (case m of Inl e \<Rightarrow> Inl e | Inr x \<Rightarrow> f x s)"
  by (cases m) (simp_all add: rd_bind_def)

lemma read_exact_append [simp]: "length a = n \<Longrightarrow> read_exact n (a @ r) = Inr (a, r)"
  by (simp add: read_exact_def)

lemma read_exact_Inr: "read_exact n s = Inr (a, r) \<longleftrightarrow> s = a @ r \<and> length a = n"
  by (auto simp: read_exact_def)

section \<open>Writers\<close>

type_synonym writer = "byte list \<times> unit io_result"

definition wr_ok :: "byte list \<Rightarrow> writer" where
  "wr_ok bs = (bs, Inr ())"

definition wr_then :: "writer \<Rightarrow> writer \<Rightarrow> writer" where
  "wr_then a b = (case snd a of Inl e \<Rightarrow> a | Inr _ \<Rightarrow> (fst a @ fst b, snd b))"

text \<open>The steps of a writer, one after another, and a check between two of them.\<close>

definition wr_all :: "writer list \<Rightarrow> writer" where
  "wr_all ws = foldr wr_then ws (wr_ok [])"

definition wr_try :: "'a io_result \<Rightarrow> ('a \<Rightarrow> writer) \<Rightarrow> writer" where
  "wr_try m k = (case m of Inl e \<Rightarrow> ([], Inl e) | Inr x \<Rightarrow> k x)"

definition wr_check :: "unit io_result \<Rightarrow> writer" where
  "wr_check m = ([], m)"

definition written :: "writer \<Rightarrow> bool" where
  "written w \<longleftrightarrow> snd w = Inr ()"

lemma wr_ok_simps [simp]:
  "fst (wr_ok bs) = bs"
  "written (wr_ok bs)"
  by (simp_all add: wr_ok_def written_def)

lemma written_then [simp]: "written (wr_then a b) \<longleftrightarrow> written a \<and> written b"
  by (auto simp: wr_then_def written_def split: sum.split)

lemma fst_then [simp]: "written a \<Longrightarrow> fst (wr_then a b) = fst a @ fst b"
  by (auto simp: wr_then_def written_def split: sum.split)

lemma fst_then_stop: "\<not> written a \<Longrightarrow> wr_then a b = a"
  by (auto simp: wr_then_def written_def split: sum.split)

lemma written_all [simp]:
  "written (wr_all [])"
  "written (wr_all (w # ws)) \<longleftrightarrow> written w \<and> written (wr_all ws)"
  by (simp_all add: wr_all_def)

lemma fst_all [simp]:
  "fst (wr_all []) = []"
  "written w \<Longrightarrow> fst (wr_all (w # ws)) = fst w @ fst (wr_all ws)"
  by (simp_all add: wr_all_def)

lemma written_all_map: "written (wr_all (map f xs)) \<longleftrightarrow> (\<forall>x \<in> set xs. written (f x))"
  by (induction xs) auto

lemma fst_all_map:
  "(\<And>x. x \<in> set xs \<Longrightarrow> written (f x)) \<Longrightarrow> fst (wr_all (map f xs)) = concat (map (\<lambda>x. fst (f x)) xs)"
  by (induction xs) auto

lemma wr_try_simps [simp]:
  "wr_try (Inl e) k = ([], Inl e)"
  "wr_try (Inr x) k = k x"
  by (simp_all add: wr_try_def)

lemma written_try: "written (wr_try m k) \<longleftrightarrow> (\<exists>x. m = Inr x \<and> written (k x))"
  by (cases m) (auto simp: written_def)

lemma written_check [simp]: "written (wr_check m) \<longleftrightarrow> m = Inr ()"
  by (simp add: wr_check_def written_def)

lemma fst_check [simp]: "fst (wr_check m) = []"
  by (simp add: wr_check_def)

section \<open>The contract of a wire format\<close>

text \<open>
  The reader of a self-delimiting format depends on the bytes it consumes only: whatever follows is
  left alone, and a proper prefix of them is the end of the stream, never another value.
\<close>

definition self_delimiting :: "'a reader \<Rightarrow> bool" where
  "self_delimiting p \<longleftrightarrow> (\<forall>s x r. p s = Inr (x, r) \<longrightarrow>
     (\<exists>c. s = c @ r \<and> (\<forall>t. p (c @ t) = Inr (x, t)) \<and>
          (\<forall>c'. strict_prefix c' c \<longrightarrow> p c' = Inl unexpected_eof)))"

lemma self_delimitingD:
  assumes "self_delimiting p" and "p s = Inr (x, r)"
  shows "\<exists>c. s = c @ r \<and> (\<forall>t. p (c @ t) = Inr (x, t)) \<and>
             (\<forall>c'. strict_prefix c' c \<longrightarrow> p c' = Inl unexpected_eof)"
  using assms unfolding self_delimiting_def by blast

named_theorems delimiting "self-delimiting readers"

lemma self_delimiting_ok [delimiting]: "self_delimiting (rd_ok x)"
  by (auto simp: rd_ok_app self_delimiting_def)

lemma self_delimiting_try [delimiting]: "self_delimiting (rd_try m)"
  by (cases m) (auto simp: self_delimiting_def)

lemma self_delimiting_read_exact [delimiting]: "self_delimiting (read_exact n)"
  unfolding self_delimiting_def
proof (intro allI impI)
  fix s x r
  assume "read_exact n s = Inr (x, r)"
  then have s: "s = x @ r" and n: "length x = n" by (simp_all add: read_exact_Inr)
  have "read_exact n c' = Inl unexpected_eof" if "strict_prefix c' x" for c'
    using prefix_length_less [OF that] n by (simp add: read_exact_def)
  then show "\<exists>c. s = c @ r \<and> (\<forall>t. read_exact n (c @ t) = Inr (x, t)) \<and>
      (\<forall>c'. strict_prefix c' c \<longrightarrow> read_exact n c' = Inl unexpected_eof)"
    using s n by auto
qed

lemma self_delimiting_bind [delimiting]:
  assumes p: "self_delimiting p" and f: "\<And>x. self_delimiting (f x)"
  shows "self_delimiting (rd_bind p f)"
  unfolding self_delimiting_def
proof (intro allI impI)
  fix s y r
  assume "rd_bind p f s = Inr (y, r)"
  then obtain x t where px: "p s = Inr (x, t)" and fy: "f x t = Inr (y, r)"
    by (auto simp: rd_bind_Inr)
  obtain c where c: "s = c @ t" "\<And>u. p (c @ u) = Inr (x, u)"
      "\<And>c'. strict_prefix c' c \<Longrightarrow> p c' = Inl unexpected_eof"
    using self_delimitingD [OF p px] by blast
  obtain d where d: "t = d @ r" "\<And>u. f x (d @ u) = Inr (y, u)"
      "\<And>d'. strict_prefix d' d \<Longrightarrow> f x d' = Inl unexpected_eof"
    using self_delimitingD [OF f fy] by blast
  have "rd_bind p f c' = Inl unexpected_eof" if h: "strict_prefix c' (c @ d)" for c'
  proof (cases "strict_prefix c' c")
    case True
    then show ?thesis by (simp add: rd_bind_def c(3))
  next
    case False
    then obtain e where e: "c' = c @ e" "prefix e d"
      using h by (auto simp: strict_prefix_def prefix_append)
    then have "strict_prefix e d" using h by (auto simp: strict_prefix_def)
    then show ?thesis using e by (simp add: rd_bind_def c(2) d(3))
  qed
  moreover have "rd_bind p f ((c @ d) @ u) = Inr (y, u)" for u
    by (simp add: rd_bind_def c(2) d(2))
  ultimately show "\<exists>c. s = c @ r \<and> (\<forall>t. rd_bind p f (c @ t) = Inr (y, t)) \<and>
      (\<forall>c'. strict_prefix c' c \<longrightarrow> rd_bind p f c' = Inl unexpected_eof)"
    using c(1) d(1) by (intro exI [of _ "c @ d"]) auto
qed

lemma self_delimiting_if [delimiting]:
  "self_delimiting p \<Longrightarrow> self_delimiting q \<Longrightarrow> self_delimiting (if b then p else q)"
  by simp

lemma self_delimiting_repeat [delimiting]: "self_delimiting p \<Longrightarrow> self_delimiting (rd_repeat n p)"
  by (induction n) (simp_all add: delimiting)

locale wire_format =
  fixes enc :: "'a \<Rightarrow> byte list" and dec :: "'a reader" and wf :: "'a \<Rightarrow> bool"
  assumes dec_enc: "wf x \<Longrightarrow> dec (enc x @ r) = Inr (x, r)"
begin

lemma dec_bind: "wf x \<Longrightarrow> rd_bind dec f (enc x @ r) = f x r"
  by (simp add: rd_bind_def dec_enc)

lemma enc_prefix_free:
  assumes "wf x" and "wf y" and "prefix (enc x) (enc y)"
  shows "x = y"
proof -
  obtain r where r: "enc y = enc x @ r" using assms(3) by (auto simp: prefix_def)
  have "dec (enc y) = Inr (y, [])" using dec_enc [OF assms(2), of "[]"] by simp
  moreover have "dec (enc y) = Inr (x, r)" unfolding r by (rule dec_enc [OF assms(1)])
  ultimately show ?thesis by simp
qed

lemma repeat_enc:
  "\<forall>x \<in> set xs. wf x \<Longrightarrow> rd_repeat (length xs) dec (concat (map enc xs) @ r) = Inr (xs, r)"
  by (induction xs) (simp_all add: rd_bind_def dec_enc rd_ok_app)

end

locale delimited_format = wire_format +
  assumes delimited: "self_delimiting dec"
begin

lemma truncated: 
  assumes "wf x" and "strict_prefix c (enc x)"
  shows "dec c = Inl unexpected_eof"
proof -
  obtain d where d: "enc x @ [] = d @ []" "\<And>c'. strict_prefix c' d \<Longrightarrow> dec c' = Inl unexpected_eof"
    using self_delimitingD [OF delimited dec_enc [OF assms(1), of "[]"]] by blast
  then show ?thesis using assms(2) by simp
qed

end

end
