(* ===== verification/WireTypes.thy ===== *)
theory WireTypes
  imports WireBase
begin

unbundle bit_operations_syntax

text \<open>
  The types of the binary stage protocol and their pure operations
  (src/crates/skippy-protocol/src/binary/types.rs and the codec enumerations of
  src/crates/skippy-protocol/src/config.rs): message and reply kinds with their wire numbers, the
  state header and its phase, request epochs, sampling configuration, stage messages with their
  estimated size, replies, and the statistics that stages merge on the way back.
\<close>

section \<open>Constants\<close>

definition STAGE_STATE_VERSION :: i32 where
  "STAGE_STATE_VERSION = 16"

definition MAX_STAGE_LOGIT_BIAS :: nat where
  "MAX_STAGE_LOGIT_BIAS = 256"

definition MAX_STAGE_SAMPLERS :: nat where
  "MAX_STAGE_SAMPLERS = 16"

definition MAX_STAGE_DRY_SEQUENCE_BREAKERS :: nat where
  "MAX_STAGE_DRY_SEQUENCE_BREAKERS = 8"

definition MAX_STAGE_SAMPLING_STRING_BYTES :: nat where
  "MAX_STAGE_SAMPLING_STRING_BYTES = 64"

definition MAX_STAGE_PREDICTED_TOKENS :: nat where
  "MAX_STAGE_PREDICTED_TOKENS = 262144"

definition MAX_STAGE_SIDEBAND_VALUES :: nat where
  "MAX_STAGE_SIDEBAND_VALUES = 1048576"

definition MAX_STAGE_CHAT_SAMPLING_METADATA_BYTES :: nat where
  "MAX_STAGE_CHAT_SAMPLING_METADATA_BYTES = 8 * 1024 * 1024"

definition MAX_STAGE_STATE_IMPORT_BYTES :: nat where
  "MAX_STAGE_STATE_IMPORT_BYTES = 512 * 1024 * 1024"

definition MAX_STAGE_ACTIVATION_BYTES :: nat where
  "MAX_STAGE_ACTIVATION_BYTES = 512 * 1024 * 1024"

definition MAX_STAGE_DECODED_ACTIVATION_BYTES :: nat where
  "MAX_STAGE_DECODED_ACTIVATION_BYTES = 512 * 1024 * 1024"

definition STAGE_ACTIVATION_FRAME_VERSION :: u32 where
  "STAGE_ACTIVATION_FRAME_VERSION = 2"

definition STAGE_ACTIVATION_IDENTITY_BYTES :: nat where
  "STAGE_ACTIVATION_IDENTITY_BYTES = 32"

definition MAX_STAGE_ACTIVATION_DIMS :: nat where
  "MAX_STAGE_ACTIVATION_DIMS = 4"

definition MAX_STAGE_ACTIVATION_PARTS :: nat where
  "MAX_STAGE_ACTIVATION_PARTS = 16"

definition STAGE_ACTIVATION_PART_OPTIONAL :: u32 where
  "STAGE_ACTIVATION_PART_OPTIONAL = 1"

definition READY_MAGIC :: i32 where
  "READY_MAGIC = 0x53524459"

definition LLAMA_TOKEN_NULL :: i32 where
  "LLAMA_TOKEN_NULL = - 1"

definition STAGE_STATE_HEADER_BYTES :: nat where
  "STAGE_STATE_HEADER_BYTES = 10 * 4"

definition STAGE_SAMPLING_CONFIG_BASE_BYTES :: nat where
  "STAGE_SAMPLING_CONFIG_BASE_BYTES = 28 * 4"

definition STAGE_LOGIT_BIAS_WIRE_BYTES :: nat where
  "STAGE_LOGIT_BIAS_WIRE_BYTES = 4 + 4"

definition STAGE_WIRE_FIXED_HEADER_BYTES :: nat where
  "STAGE_WIRE_FIXED_HEADER_BYTES = 6 * 4 + STAGE_STATE_HEADER_BYTES + 2 * 8"

lemmas wire_limits = MAX_STAGE_LOGIT_BIAS_def MAX_STAGE_SAMPLERS_def
  MAX_STAGE_DRY_SEQUENCE_BREAKERS_def MAX_STAGE_SAMPLING_STRING_BYTES_def
  MAX_STAGE_PREDICTED_TOKENS_def MAX_STAGE_SIDEBAND_VALUES_def
  MAX_STAGE_CHAT_SAMPLING_METADATA_BYTES_def MAX_STAGE_STATE_IMPORT_BYTES_def
  MAX_STAGE_ACTIVATION_BYTES_def

text \<open>The flags of a state header (module \<open>state_flags\<close>) and of a sampling configuration.\<close>

definition FLAG_FINAL_CHUNK :: i32 where
  "FLAG_FINAL_CHUNK = push_bit 0 1"

definition FLAG_LIGHT_CONTEXT :: i32 where
  "FLAG_LIGHT_CONTEXT = push_bit 1 1"

definition FLAG_SAMPLING :: i32 where
  "FLAG_SAMPLING = push_bit 3 1"

definition FLAG_CHAT_SAMPLING_METADATA :: i32 where
  "FLAG_CHAT_SAMPLING_METADATA = push_bit 5 1"

definition SAMPLING_ENABLED :: u32 where
  "SAMPLING_ENABLED = push_bit 0 1"

lemmas flag_defs = FLAG_FINAL_CHUNK_def FLAG_LIGHT_CONTEXT_def FLAG_SAMPLING_def
  FLAG_CHAT_SAMPLING_METADATA_def SAMPLING_ENABLED_def

section \<open>Activation codecs\<close>

datatype stage_activation_codec = RawF32V1 | F16RneV1 | Bf16RneV1 | S8RowF32RneV1

fun binary_wire_id :: "stage_activation_codec \<Rightarrow> i32" where
  "binary_wire_id RawF32V1 = 1"
| "binary_wire_id F16RneV1 = 2"
| "binary_wire_id Bf16RneV1 = 3"
| "binary_wire_id S8RowF32RneV1 = 4"

definition from_binary_wire_id :: "i32 \<Rightarrow> stage_activation_codec option" where
  "from_binary_wire_id value =
     (if value = 1 then Some RawF32V1
      else if value = 2 then Some F16RneV1
      else if value = 3 then Some Bf16RneV1
      else if value = 4 then Some S8RowF32RneV1
      else None)"

lemma from_binary_wire_id_id [simp]: "from_binary_wire_id (binary_wire_id c) = Some c"
  by (cases c) (simp_all add: from_binary_wire_id_def)

datatype stage_activation_codec_policy = Fixed | AutoLosslessV1

fun permits :: "stage_activation_codec_policy \<Rightarrow> stage_activation_codec \<Rightarrow> stage_activation_codec \<Rightarrow> bool"
where
  "permits Fixed configured_codec frame_codec \<longleftrightarrow> configured_codec = frame_codec"
| "permits AutoLosslessV1 configured_codec frame_codec \<longleftrightarrow>
     configured_codec = RawF32V1 \<and> frame_codec \<in> {RawF32V1, Bf16RneV1, F16RneV1}"

fun policy_compatible :: "stage_activation_codec_policy \<Rightarrow> stage_activation_codec \<Rightarrow> bool" where
  "policy_compatible Fixed configured_codec \<longleftrightarrow> True"
| "policy_compatible AutoLosslessV1 configured_codec \<longleftrightarrow> configured_codec = RawF32V1"

section \<open>Message kinds\<close>

datatype wire_message_kind =
    PrefillEmbd
  | DecodeEmbd
  | Stop
  | PrefillFinalEmbd
  | DecodeReplayEmbd
  | DecodeReplayFinalEmbd
  | StateImport
  | DecodeReadout
  | DecodeLightCtx
  | VerifyWindow
  | RetireVerifyWindow
  | DiscardStaleWindows
  | StateExport
  | ConfigureGeneration
  | ProbePrefill
  | RestorePrefill
  | TryRestorePrefill
  | TryRestorePrefillDecode
  | TrimSession
  | PredictionReturnOpen

fun wire_message_kind_id :: "wire_message_kind \<Rightarrow> i32" where
  "wire_message_kind_id PrefillEmbd = 1"
| "wire_message_kind_id DecodeEmbd = 2"
| "wire_message_kind_id Stop = 3"
| "wire_message_kind_id PrefillFinalEmbd = 4"
| "wire_message_kind_id DecodeReplayEmbd = 5"
| "wire_message_kind_id DecodeReplayFinalEmbd = 6"
| "wire_message_kind_id StateImport = 7"
| "wire_message_kind_id DecodeReadout = 8"
| "wire_message_kind_id DecodeLightCtx = 9"
| "wire_message_kind_id VerifyWindow = 21"
| "wire_message_kind_id RetireVerifyWindow = 22"
| "wire_message_kind_id DiscardStaleWindows = 23"
| "wire_message_kind_id StateExport = 13"
| "wire_message_kind_id ConfigureGeneration = 14"
| "wire_message_kind_id ProbePrefill = 15"
| "wire_message_kind_id RestorePrefill = 16"
| "wire_message_kind_id TryRestorePrefill = 17"
| "wire_message_kind_id TryRestorePrefillDecode = 18"
| "wire_message_kind_id TrimSession = 19"
| "wire_message_kind_id PredictionReturnOpen = 20"

definition wire_message_kind_try_from :: "i32 \<Rightarrow> wire_message_kind io_result" where
  "wire_message_kind_try_from value =
     (if value = 1 then Inr PrefillEmbd
      else if value = 2 then Inr DecodeEmbd
      else if value = 3 then Inr Stop
      else if value = 4 then Inr PrefillFinalEmbd
      else if value = 5 then Inr DecodeReplayEmbd
      else if value = 6 then Inr DecodeReplayFinalEmbd
      else if value = 7 then Inr StateImport
      else if value = 8 then Inr DecodeReadout
      else if value = 9 then Inr DecodeLightCtx
      else if value = 13 then Inr StateExport
      else if value = 14 then Inr ConfigureGeneration
      else if value = 15 then Inr ProbePrefill
      else if value = 16 then Inr RestorePrefill
      else if value = 17 then Inr TryRestorePrefill
      else if value = 18 then Inr TryRestorePrefillDecode
      else if value = 19 then Inr TrimSession
      else if value = 20 then Inr PredictionReturnOpen
      else if value = 21 then Inr VerifyWindow
      else if value = 22 then Inr RetireVerifyWindow
      else if value = 23 then Inr DiscardStaleWindows
      else Inl (invalid_data ''unknown stage message kind''))"

lemma wire_message_kind_try_from_id [simp]: "wire_message_kind_try_from (wire_message_kind_id k) = Inr k"
  by (cases k) (simp_all add: wire_message_kind_try_from_def)

definition is_prefill :: "wire_message_kind \<Rightarrow> bool" where
  "is_prefill k \<longleftrightarrow> k \<in> {PrefillEmbd, PrefillFinalEmbd}"

definition is_decode_replay :: "wire_message_kind \<Rightarrow> bool" where
  "is_decode_replay k \<longleftrightarrow> k \<in> {DecodeReplayEmbd, DecodeReplayFinalEmbd}"

definition is_decode_light_context :: "wire_message_kind \<Rightarrow> bool" where
  "is_decode_light_context k \<longleftrightarrow> k = DecodeLightCtx"

definition requires_predicted_reply :: "wire_message_kind \<Rightarrow> bool" where
  "requires_predicted_reply k \<longleftrightarrow>
     k \<in> {DecodeEmbd, DecodeReadout, DecodeLightCtx, VerifyWindow, PrefillFinalEmbd, DecodeReplayFinalEmbd}"

definition is_session_control :: "wire_message_kind \<Rightarrow> bool" where
  "is_session_control k \<longleftrightarrow> k = TrimSession"

definition is_verify_retirement :: "wire_message_kind \<Rightarrow> bool" where
  "is_verify_retirement k \<longleftrightarrow> k = RetireVerifyWindow"

definition is_stale_window_discard :: "wire_message_kind \<Rightarrow> bool" where
  "is_stale_window_discard k \<longleftrightarrow> k = DiscardStaleWindows"

definition is_generation_control :: "wire_message_kind \<Rightarrow> bool" where
  "is_generation_control k \<longleftrightarrow> k = ConfigureGeneration"

definition is_prefix_cache_control :: "wire_message_kind \<Rightarrow> bool" where
  "is_prefix_cache_control k \<longleftrightarrow> k \<in> {ProbePrefill, RestorePrefill, TryRestorePrefill, TryRestorePrefillDecode}"

definition is_activationless_prefix_cache_control :: "wire_message_kind \<Rightarrow> bool" where
  "is_activationless_prefix_cache_control k \<longleftrightarrow> k \<in> {ProbePrefill, RestorePrefill, TryRestorePrefill}"

lemmas kind_predicates = is_prefill_def is_decode_replay_def is_decode_light_context_def
  requires_predicted_reply_def is_session_control_def is_verify_retirement_def
  is_stale_window_discard_def is_generation_control_def is_prefix_cache_control_def
  is_activationless_prefix_cache_control_def

datatype wire_reply_kind = Ack | PredictedToken | PredictedTokens

fun wire_reply_kind_id :: "wire_reply_kind \<Rightarrow> i32" where
  "wire_reply_kind_id Ack = 1"
| "wire_reply_kind_id PredictedToken = 2"
| "wire_reply_kind_id PredictedTokens = 3"

definition wire_reply_kind_try_from :: "i32 \<Rightarrow> wire_reply_kind io_result" where
  "wire_reply_kind_try_from value =
     (if value = 1 then Inr Ack
      else if value = 2 then Inr PredictedToken
      else if value = 3 then Inr PredictedTokens
      else Inl (invalid_data ''unknown stage reply kind''))"

lemma wire_reply_kind_try_from_id [simp]: "wire_reply_kind_try_from (wire_reply_kind_id k) = Inr k"
  by (cases k) (simp_all add: wire_reply_kind_try_from_def)

datatype wire_stage_phase = PhasePrefill | PhaseDecode | PhaseDecodeReplay | PhaseDecodeLight

fun wire_stage_phase_id :: "wire_stage_phase \<Rightarrow> i32" where
  "wire_stage_phase_id PhasePrefill = 1"
| "wire_stage_phase_id PhaseDecode = 2"
| "wire_stage_phase_id PhaseDecodeReplay = 3"
| "wire_stage_phase_id PhaseDecodeLight = 4"

definition expected_phase :: "wire_message_kind \<Rightarrow> wire_stage_phase" where
  "expected_phase kind =
     (if is_prefill kind \<or> kind \<in> {StateImport, StateExport} \<or> is_session_control kind \<or>
         is_verify_retirement kind \<or> is_generation_control kind \<or> is_prefix_cache_control kind
      then PhasePrefill
      else if is_decode_replay kind then PhaseDecodeReplay
      else if is_decode_light_context kind then PhaseDecodeLight
      else PhaseDecode)"

section \<open>The state header and request epochs\<close>

record stage_state_header =
  hd_version :: i32
  hd_seq_id :: i32
  hd_phase :: i32
  hd_flags :: i32
  hd_checkpoint_generation :: i32
  hd_prompt_token_count :: i32
  hd_decode_step :: i32
  hd_current_token :: i32
  hd_source_stage_index :: i32
  hd_activation_codec :: stage_activation_codec

definition stage_state_header_new :: "wire_message_kind \<Rightarrow> stage_state_header" where
  "stage_state_header_new kind =
     (let header = \<lparr>hd_version = STAGE_STATE_VERSION, hd_seq_id = 0,
            hd_phase = wire_stage_phase_id (expected_phase kind), hd_flags = 0,
            hd_checkpoint_generation = 0, hd_prompt_token_count = 0, hd_decode_step = - 1,
            hd_current_token = LLAMA_TOKEN_NULL, hd_source_stage_index = - 1,
            hd_activation_codec = RawF32V1\<rparr>;
          header = (if kind \<in> {PrefillFinalEmbd, DecodeReplayFinalEmbd}
            then header\<lparr>hd_flags := hd_flags header OR FLAG_FINAL_CHUNK\<rparr> else header)
      in if is_decode_light_context kind
         then header\<lparr>hd_flags := hd_flags header OR FLAG_LIGHT_CONTEXT\<rparr> else header)"

definition matches_kind :: "stage_state_header \<Rightarrow> wire_message_kind \<Rightarrow> bool" where
  "matches_kind state kind =
     (if kind \<in> {StateImport, StateExport} \<or> is_session_control kind \<or> is_verify_retirement kind \<or>
         is_stale_window_discard kind \<or> is_generation_control kind
      then True
      else if hd_phase state \<noteq> wire_stage_phase_id (expected_phase kind) then False
      else
        let expected_final = (kind \<in> {PrefillFinalEmbd, DecodeReplayFinalEmbd});
            actual_final = (hd_flags state AND FLAG_FINAL_CHUNK \<noteq> 0);
            expected_light = is_decode_light_context kind;
            actual_light = (hd_flags state AND FLAG_LIGHT_CONTEXT \<noteq> 0)
        in expected_final = actual_final \<and> expected_light = actual_light)"

lemma matches_kind_new: "matches_kind (stage_state_header_new k) k"
  by (cases k) (simp_all add: matches_kind_def stage_state_header_new_def kind_predicates
      expected_phase_def flag_defs Let_def)

record stage_request_epoch =
  ep_request_id :: u64
  ep_session_id :: u64
  ep_checkpoint_generation :: i32
  ep_prompt_token_count :: i32
  ep_decode_step :: i32

definition same_flow :: "stage_request_epoch \<Rightarrow> stage_request_epoch \<Rightarrow> bool" where
  "same_flow e other \<longleftrightarrow> ep_request_id e = ep_request_id other \<and> ep_session_id e = ep_session_id other"

definition is_stale_for :: "stage_request_epoch \<Rightarrow> stage_request_epoch \<Rightarrow> bool" where
  "is_stale_for e current \<longleftrightarrow> same_flow e current \<and>
     (sint (ep_checkpoint_generation e), sint (ep_prompt_token_count e), sint (ep_decode_step e))
     < (sint (ep_checkpoint_generation current), sint (ep_prompt_token_count current),
        sint (ep_decode_step current))"

section \<open>Sampling configuration\<close>

record stage_logit_bias =
  lb_token_id :: i32
  lb_bias :: f32

record stage_sampling_config =
  sc_flags :: u32
  sc_seed :: u32
  sc_temperature :: f32
  sc_top_p :: f32
  sc_top_k :: i32
  sc_min_p :: f32
  sc_presence_penalty :: f32
  sc_frequency_penalty :: f32
  sc_repeat_penalty :: f32
  sc_penalty_last_n :: i32
  sc_logit_bias :: "stage_logit_bias list"
  sc_typical_p :: f32
  sc_top_nsigma :: f32
  sc_dynatemp_range :: f32
  sc_dynatemp_exponent :: f32
  sc_dry_multiplier :: f32
  sc_dry_base :: f32
  sc_dry_allowed_length :: i32
  sc_dry_penalty_last_n :: i32
  sc_dry_sequence_breakers :: "rust_string list"
  sc_xtc_probability :: f32
  sc_xtc_threshold :: f32
  sc_mirostat_mode :: i32
  sc_mirostat_entropy :: f32
  sc_mirostat_learning_rate :: f32
  sc_samplers :: "rust_string list"
  sc_reasoning_budget_tokens :: i32
  sc_ignore_eos :: bool

definition sampling_enabled :: "stage_sampling_config \<Rightarrow> bool" where
  "sampling_enabled s \<longleftrightarrow> sc_flags s AND SAMPLING_ENABLED \<noteq> 0"

text \<open>The bytes of an ASCII literal.\<close>

definition ascii_bytes :: "string \<Rightarrow> rust_string" where
  "ascii_bytes s = map (\<lambda>c. word_of_nat (of_char c)) s"

definition default_sampling_config :: stage_sampling_config where
  "default_sampling_config = \<lparr>sc_flags = 0, sc_seed = 0, sc_temperature = 0x3F800000,
     sc_top_p = 0x3F800000, sc_top_k = 0, sc_min_p = 0, sc_presence_penalty = 0,
     sc_frequency_penalty = 0, sc_repeat_penalty = 0x3F800000, sc_penalty_last_n = - 1,
     sc_logit_bias = [], sc_typical_p = 0x3F800000, sc_top_nsigma = 0xBF800000,
     sc_dynatemp_range = 0, sc_dynatemp_exponent = 0x3F800000, sc_dry_multiplier = 0,
     sc_dry_base = 0x3FE00000, sc_dry_allowed_length = 2, sc_dry_penalty_last_n = 64,
     sc_dry_sequence_breakers = [[10], [58], [34], [42]],
     sc_xtc_probability = 0, sc_xtc_threshold = 0x3DCCCCCD, sc_mirostat_mode = 0,
     sc_mirostat_entropy = 0x40A00000, sc_mirostat_learning_rate = 0x3DCCCCCD,
     sc_samplers = [ascii_bytes ''penalties'', ascii_bytes ''dry'', ascii_bytes ''top_n_sigma'',
        ascii_bytes ''top_k'', ascii_bytes ''typical_p'', ascii_bytes ''top_p'',
        ascii_bytes ''min_p'', ascii_bytes ''xtc'', ascii_bytes ''temperature''],
     sc_reasoning_budget_tokens = - 1, sc_ignore_eos = False\<rparr>"

section \<open>Stage messages\<close>

record stage_wire_message =
  msg_kind :: wire_message_kind
  msg_pos_start :: i32
  msg_token_count :: i32
  msg_state :: stage_state_header
  msg_request_id :: u64
  msg_session_id :: u64
  msg_sampling :: "stage_sampling_config option"
  msg_chat_sampling_metadata :: "rust_string option"
  msg_tokens :: "i32 list"
  msg_positions :: "i32 list"
  msg_activation :: "byte list"
  msg_raw_bytes :: "byte list"

text \<open>\<open>u64::try_from\<close> of the committed position: \<open>None\<close> when it is negative.\<close>

definition authoritative_session_position :: "stage_wire_message \<Rightarrow> nat option" where
  "authoritative_session_position m =
     (if msg_kind m \<notin> {DecodeEmbd, DecodeReadout, DecodeLightCtx, VerifyWindow} then None
      else usize_of_signed (msg_pos_start m))"

definition verify_window_id :: "stage_wire_message \<Rightarrow> i32 option" where
  "verify_window_id m = (if msg_kind m = VerifyWindow then Some (hd_seq_id (msg_state m)) else None)"

definition verify_window_base_position :: "stage_wire_message \<Rightarrow> i32 option" where
  "verify_window_base_position m = (if msg_kind m = VerifyWindow then Some (msg_pos_start m) else None)"

definition verify_window_token_count :: "stage_wire_message \<Rightarrow> i32 option" where
  "verify_window_token_count m = (if msg_kind m = VerifyWindow then Some (msg_token_count m) else None)"

definition sampling_string_list_wire_bytes :: "rust_string list \<Rightarrow> nat \<Rightarrow> nat" where
  "sampling_string_list_wire_bytes values maximum_count =
     sum_list (map (\<lambda>v. 4 + length v) (take maximum_count values))"

definition payload_wire_bytes :: "stage_wire_message \<Rightarrow> nat" where
  "payload_wire_bytes m =
     (if msg_kind m = StateImport then length (msg_raw_bytes m)
      else sat_add (sat_add (sat_mul (length (msg_tokens m)) 4) (sat_mul (length (msg_positions m)) 4))
             (length (msg_activation m)))"

definition estimated_wire_bytes :: "stage_wire_message \<Rightarrow> nat" where
  "estimated_wire_bytes m =
     (let sampling_bytes = (case msg_sampling m of None \<Rightarrow> 0
            | Some sampling \<Rightarrow> STAGE_SAMPLING_CONFIG_BASE_BYTES
                + min (length (sc_logit_bias sampling)) MAX_STAGE_LOGIT_BIAS * STAGE_LOGIT_BIAS_WIRE_BYTES
                + sampling_string_list_wire_bytes (sc_dry_sequence_breakers sampling) MAX_STAGE_DRY_SEQUENCE_BREAKERS
                + sampling_string_list_wire_bytes (sc_samplers sampling) MAX_STAGE_SAMPLERS);
          chat_metadata_bytes = (case msg_chat_sampling_metadata m of None \<Rightarrow> 0
            | Some metadata \<Rightarrow> 4 + length metadata)
      in sat_add (sat_add (sat_add STAGE_WIRE_FIXED_HEADER_BYTES sampling_bytes) chat_metadata_bytes)
           (payload_wire_bytes m))"

definition request_epoch :: "stage_wire_message \<Rightarrow> stage_request_epoch" where
  "request_epoch m = \<lparr>ep_request_id = msg_request_id m, ep_session_id = msg_session_id m,
     ep_checkpoint_generation = hd_checkpoint_generation (msg_state m),
     ep_prompt_token_count = hd_prompt_token_count (msg_state m),
     ep_decode_step = hd_decode_step (msg_state m)\<rparr>"

definition stop_with_identity :: "u64 \<Rightarrow> u64 \<Rightarrow> stage_wire_message" where
  "stop_with_identity request_id session_id = \<lparr>msg_kind = Stop, msg_pos_start = 0, msg_token_count = 0,
     msg_state = stage_state_header_new Stop, msg_request_id = request_id, msg_session_id = session_id,
     msg_sampling = None, msg_chat_sampling_metadata = None, msg_tokens = [], msg_positions = [],
     msg_activation = [], msg_raw_bytes = []\<rparr>"

definition stop_message :: stage_wire_message where
  "stop_message = stop_with_identity 0 0"

definition configure_generation :: "u64 \<Rightarrow> u64 \<Rightarrow> i32 \<Rightarrow> stage_sampling_config option \<Rightarrow>
    rust_string option \<Rightarrow> stage_wire_message" where
  "configure_generation request_id session_id prompt_token_count sampling chat_sampling_metadata =
     \<lparr>msg_kind = ConfigureGeneration, msg_pos_start = 0, msg_token_count = 0,
      msg_state = (stage_state_header_new ConfigureGeneration)\<lparr>hd_prompt_token_count := prompt_token_count\<rparr>,
      msg_request_id = request_id, msg_session_id = session_id, msg_sampling = sampling,
      msg_chat_sampling_metadata = chat_sampling_metadata, msg_tokens = [], msg_positions = [],
      msg_activation = [], msg_raw_bytes = []\<rparr>"

section \<open>Replies and their statistics\<close>

record stage_reply_stats =
  kv_lookup_hits :: i64
  kv_lookup_misses :: i64
  kv_lookup_errors :: i64
  kv_imported_pages :: i64
  kv_imported_tokens :: i64
  kv_recorded_pages :: i64
  kv_recorded_bytes :: i64
  kv_hit_stage_mask :: i64
  kv_record_stage_mask :: i64
  verify_window_compute_us :: i64
  verify_window_forward_write_us :: i64
  verify_window_downstream_wait_us :: i64
  verify_window_total_us :: i64
  verify_window_stage_count :: i64
  verify_window_request_count :: i64
  verify_window_token_count :: i64
  verify_window_max_tokens :: i64
  prefill_edge_write_us_max :: i64
  prefill_edge_wait_us_max :: i64
  prefill_edge_total_us_max :: i64
  prefill_edge_stage_index :: i64
  prefill_edge_activation_bytes_max :: i64
  prefill_edge_observation_count :: i64
  prefill_compute_us_at_slowest_rate :: i64
  prefill_compute_stage_index :: i64
  prefill_compute_token_count_at_slowest_rate :: i64
  prefill_compute_observation_count :: i64

record stage_native_mtp_draft =
  draft_token_ids :: "i32 list"
  draft_proposal_compute_us :: i64

record stage_reply_window =
  window_id :: i32

record stage_reply =
  rep_kind :: wire_reply_kind
  rep_predicted :: i32
  rep_predicted_tokens :: "i32 list"
  rep_native_mtp_draft :: "stage_native_mtp_draft option"
  rep_window :: stage_reply_window
  rep_stats :: stage_reply_stats

definition default_reply_stats :: stage_reply_stats where
  "default_reply_stats = \<lparr>kv_lookup_hits = 0,
     kv_lookup_misses = 0,
     kv_lookup_errors = 0,
     kv_imported_pages = 0,
     kv_imported_tokens = 0,
     kv_recorded_pages = 0,
     kv_recorded_bytes = 0,
     kv_hit_stage_mask = 0,
     kv_record_stage_mask = 0,
     verify_window_compute_us = 0,
     verify_window_forward_write_us = 0,
     verify_window_downstream_wait_us = 0,
     verify_window_total_us = 0,
     verify_window_stage_count = 0,
     verify_window_request_count = 0,
     verify_window_token_count = 0,
     verify_window_max_tokens = 0,
     prefill_edge_write_us_max = 0,
     prefill_edge_wait_us_max = 0,
     prefill_edge_total_us_max = 0,
     prefill_edge_stage_index = 0,
     prefill_edge_activation_bytes_max = 0,
     prefill_edge_observation_count = 0,
     prefill_compute_us_at_slowest_rate = 0,
     prefill_compute_stage_index = 0,
     prefill_compute_token_count_at_slowest_rate = 0,
     prefill_compute_observation_count = 0\<rparr>"

text \<open>
  \<open>Ord::max\<close> and \<open>saturating_add\<close> of \<open>i64\<close>; \<open>+=\<close> wraps around (a build with overflow checks panics
  instead). \<open>i64::try_from\<close> of a \<open>usize\<close> with the maximum for what does not fit.
\<close>

definition smax :: "i64 \<Rightarrow> i64 \<Rightarrow> i64" where
  "smax a b = (if sint b < sint a then a else b)"

definition I64_MAX :: int where
  "I64_MAX = 9223372036854775807"

definition sat_add_i64 :: "i64 \<Rightarrow> i64 \<Rightarrow> i64" where
  "sat_add_i64 a b = word_of_int (max (- I64_MAX - 1) (min I64_MAX (sint a + sint b)))"

definition i64_of_usize :: "nat \<Rightarrow> i64" where
  "i64_of_usize n = word_of_int (min I64_MAX (int n))"

definition better_prefill_calibration_sample :: "i64 \<Rightarrow> i64 \<Rightarrow> i64 \<Rightarrow> i64 \<Rightarrow> bool" where
  "better_prefill_calibration_sample candidate_us candidate_tokens current_us current_tokens =
     (if sint candidate_us \<le> 0 \<or> sint candidate_tokens \<le> 0 then False
      else if sint current_us \<le> 0 \<or> sint current_tokens \<le> 0 then True
      else if candidate_tokens \<noteq> current_tokens then sint current_tokens < sint candidate_tokens
      else sint current_us * sint candidate_tokens < sint candidate_us * sint current_tokens)"

definition merge_stats :: "stage_reply_stats \<Rightarrow> stage_reply_stats \<Rightarrow> stage_reply_stats" where
  "merge_stats self other =
     (let self = self\<lparr>kv_lookup_hits := kv_lookup_hits self + kv_lookup_hits other,
            kv_lookup_misses := kv_lookup_misses self + kv_lookup_misses other,
            kv_lookup_errors := kv_lookup_errors self + kv_lookup_errors other,
            kv_imported_pages := kv_imported_pages self + kv_imported_pages other,
            kv_imported_tokens := kv_imported_tokens self + kv_imported_tokens other,
            kv_recorded_pages := kv_recorded_pages self + kv_recorded_pages other,
            kv_recorded_bytes := kv_recorded_bytes self + kv_recorded_bytes other,
            kv_hit_stage_mask := kv_hit_stage_mask self OR kv_hit_stage_mask other,
            kv_record_stage_mask := kv_record_stage_mask self OR kv_record_stage_mask other,
            verify_window_compute_us := verify_window_compute_us self + verify_window_compute_us other,
            verify_window_forward_write_us := verify_window_forward_write_us self + verify_window_forward_write_us other,
            verify_window_downstream_wait_us := verify_window_downstream_wait_us self + verify_window_downstream_wait_us other,
            verify_window_total_us := verify_window_total_us self + verify_window_total_us other,
            verify_window_stage_count := verify_window_stage_count self + verify_window_stage_count other,
            verify_window_request_count := verify_window_request_count self + verify_window_request_count other,
            verify_window_token_count := verify_window_token_count self + verify_window_token_count other,
            verify_window_max_tokens := smax (verify_window_max_tokens self) (verify_window_max_tokens other),
            prefill_edge_write_us_max := smax (prefill_edge_write_us_max self) (prefill_edge_write_us_max other),
            prefill_edge_wait_us_max := smax (prefill_edge_wait_us_max self) (prefill_edge_wait_us_max other)\<rparr>;
          self = (if sint (prefill_edge_total_us_max self) < sint (prefill_edge_total_us_max other)
            then self\<lparr>prefill_edge_total_us_max := prefill_edge_total_us_max other,
                   prefill_edge_stage_index := prefill_edge_stage_index other,
                   prefill_edge_activation_bytes_max := prefill_edge_activation_bytes_max other\<rparr>
            else self);
          self = self\<lparr>prefill_edge_observation_count :=
                   prefill_edge_observation_count self + prefill_edge_observation_count other\<rparr>;
          self = (if better_prefill_calibration_sample
                (prefill_compute_us_at_slowest_rate other) (prefill_compute_token_count_at_slowest_rate other)
                (prefill_compute_us_at_slowest_rate self) (prefill_compute_token_count_at_slowest_rate self)
            then self\<lparr>prefill_compute_us_at_slowest_rate := prefill_compute_us_at_slowest_rate other,
                   prefill_compute_stage_index := prefill_compute_stage_index other,
                   prefill_compute_token_count_at_slowest_rate := prefill_compute_token_count_at_slowest_rate other\<rparr>
            else self)
      in self\<lparr>prefill_compute_observation_count :=
           prefill_compute_observation_count self + prefill_compute_observation_count other\<rparr>)"

definition observe_prefill_edge_transport :: "stage_reply_stats \<Rightarrow> u32 \<Rightarrow> i64 \<Rightarrow> i64 \<Rightarrow> nat \<Rightarrow> stage_reply_stats"
where
  "observe_prefill_edge_transport self stage_index write_us wait_us activation_bytes =
     (let write_us = smax write_us 0;
          wait_us = smax wait_us 0;
          total_us = sat_add_i64 write_us wait_us;
          self = self\<lparr>prefill_edge_write_us_max := smax (prefill_edge_write_us_max self) write_us,
                   prefill_edge_wait_us_max := smax (prefill_edge_wait_us_max self) wait_us\<rparr>;
          self = (if sint (prefill_edge_total_us_max self) < sint total_us
            then self\<lparr>prefill_edge_total_us_max := total_us,
                   prefill_edge_stage_index := ucast stage_index,
                   prefill_edge_activation_bytes_max := i64_of_usize activation_bytes\<rparr>
            else self)
      in self\<lparr>prefill_edge_observation_count := sat_add_i64 (prefill_edge_observation_count self) 1\<rparr>)"

definition observe_prefill_compute :: "stage_reply_stats \<Rightarrow> u32 \<Rightarrow> i64 \<Rightarrow> nat \<Rightarrow> stage_reply_stats" where
  "observe_prefill_compute self stage_index compute_us token_count =
     (let compute_us = smax compute_us 0;
          token_count = smax (i64_of_usize token_count) 1;
          self = (if better_prefill_calibration_sample compute_us token_count
                (prefill_compute_us_at_slowest_rate self) (prefill_compute_token_count_at_slowest_rate self)
            then self\<lparr>prefill_compute_us_at_slowest_rate := compute_us,
                   prefill_compute_stage_index := ucast stage_index,
                   prefill_compute_token_count_at_slowest_rate := token_count\<rparr>
            else self)
      in self\<lparr>prefill_compute_observation_count := sat_add_i64 (prefill_compute_observation_count self) 1\<rparr>)"

definition stats_is_empty :: "stage_reply_stats \<Rightarrow> bool" where
  "stats_is_empty s \<longleftrightarrow>
     kv_lookup_hits s = 0 \<and>
     kv_lookup_misses s = 0 \<and>
     kv_lookup_errors s = 0 \<and>
     kv_imported_pages s = 0 \<and>
     kv_imported_tokens s = 0 \<and>
     kv_recorded_pages s = 0 \<and>
     kv_recorded_bytes s = 0 \<and>
     kv_hit_stage_mask s = 0 \<and>
     kv_record_stage_mask s = 0 \<and>
     verify_window_compute_us s = 0 \<and>
     verify_window_forward_write_us s = 0 \<and>
     verify_window_downstream_wait_us s = 0 \<and>
     verify_window_total_us s = 0 \<and>
     verify_window_stage_count s = 0 \<and>
     verify_window_request_count s = 0 \<and>
     verify_window_token_count s = 0 \<and>
     verify_window_max_tokens s = 0 \<and>
     prefill_edge_observation_count s = 0 \<and>
     prefill_compute_observation_count s = 0"

end
