(* ===== verification/ActivationCodec.thy ===== *)
theory ActivationCodec
  imports Complex_Main WireTypes
begin

unbundle bit_operations_syntax

text \<open>
  The payload codecs of activations (src/crates/skippy-protocol/src/binary/activation_codec.rs):
  shapes and size limits, raw binary32, binary16 and bfloat16 with rounding to nearest even, and
  signed 8-bit rows with an inline scale. The conversions to 16 bits are bit manipulation in the
  source and here. The 8-bit rows use floating-point arithmetic: a finite float is its rational
  value and every operation rounds its exact result to nearest even, as IEEE 754 prescribes.
\<close>

section \<open>Shapes and limits\<close>

record activation_shape =
  primary_rows :: nat
  sideband_rows :: nat
  columns :: nat

definition activation_shape_new :: "nat \<Rightarrow> nat \<Rightarrow> nat \<Rightarrow> activation_shape" where
  "activation_shape_new p s c = \<lparr>primary_rows = p, sideband_rows = s, columns = c\<rparr>"

definition shape_rows :: "activation_shape \<Rightarrow> nat io_result" where
  "shape_rows shape = ok_or (checked USIZE_MAX (primary_rows shape + sideband_rows shape))
     (invalid_data ''activation row count overflow'')"

definition shape_elements :: "activation_shape \<Rightarrow> nat io_result" where
  "shape_elements shape =
     res_bind (shape_rows shape) (\<lambda>rows.
     res_bind (ensure (columns shape \<noteq> 0) (invalid_data ''activation columns must be positive'')) (\<lambda>_.
     ok_or (checked USIZE_MAX (rows * columns shape))
       (invalid_data ''activation element count overflow'')))"

definition decoded_bytes :: "activation_shape \<Rightarrow> nat io_result" where
  "decoded_bytes shape =
     res_bind (shape_elements shape) (\<lambda>elements.
     ok_or (checked USIZE_MAX (elements * 4)) (invalid_data ''decoded activation byte count overflow''))"

definition validate_decoded_limit :: "activation_shape \<Rightarrow> nat io_result" where
  "validate_decoded_limit shape =
     res_bind (decoded_bytes shape) (\<lambda>bytes.
     res_bind (ensure (bytes \<le> MAX_STAGE_DECODED_ACTIVATION_BYTES)
       (invalid_data ''decoded activation payload byte count exceeds maximum'')) (\<lambda>_.
     Inr bytes))"

definition checked_wire_bytes :: "nat \<Rightarrow> nat \<Rightarrow> nat io_result" where
  "checked_wire_bytes n bytes_per_value =
     res_bind (ok_or (checked USIZE_MAX (n * bytes_per_value))
       (invalid_data ''activation wire byte count overflow'')) (\<lambda>bytes.
     res_bind (ensure (bytes \<le> MAX_STAGE_ACTIVATION_BYTES)
       (invalid_data ''activation payload byte count exceeds maximum'')) (\<lambda>_.
     Inr bytes))"

definition validate_payload_bytes :: "nat \<Rightarrow> nat \<Rightarrow> unit io_result" where
  "validate_payload_bytes actual expected =
     ensure (actual = expected) (invalid_data ''activation payload size mismatch'')"

definition s8_row_bytes :: "activation_shape \<Rightarrow> nat io_result" where
  "s8_row_bytes shape = ok_or (checked USIZE_MAX (columns shape + 4))
     (invalid_data ''S8 row byte count overflow'')"

definition encoded_len :: "stage_activation_codec \<Rightarrow> activation_shape \<Rightarrow> nat io_result" where
  "encoded_len codec shape =
     res_bind (shape_rows shape) (\<lambda>rows. case codec of
         RawF32V1 \<Rightarrow> res_bind (shape_elements shape) (\<lambda>elements. checked_wire_bytes elements 4)
       | F16RneV1 \<Rightarrow> res_bind (shape_elements shape) (\<lambda>elements. checked_wire_bytes elements 2)
       | Bf16RneV1 \<Rightarrow> res_bind (shape_elements shape) (\<lambda>elements. checked_wire_bytes elements 2)
       | S8RowF32RneV1 \<Rightarrow> res_bind (s8_row_bytes shape) (\<lambda>row_bytes. checked_wire_bytes rows row_bytes))"

section \<open>Floats as bit patterns\<close>

definition is_finite :: "f32 \<Rightarrow> bool" where
  "is_finite v \<longleftrightarrow> v AND 0x7F800000 \<noteq> 0x7F800000"

definition validate_finite :: "f32 list \<Rightarrow> unit io_result" where
  "validate_finite vs =
     ensure (\<not> list_ex (\<lambda>v. \<not> is_finite v) vs) (invalid_data ''activation values must be finite'')"

definition f32_to_bf16_bits :: "f32 \<Rightarrow> u16" where
  "f32_to_bf16_bits bits =
     (let lsb = drop_bit 16 bits AND 1
      in ucast (drop_bit 16 (bits + (0x7FFF + lsb))))"

definition bf16_bits_to_f32 :: "u16 \<Rightarrow> f32" where
  "bf16_bits_to_f32 bits = push_bit 16 (ucast bits)"

definition f32_to_f16_bits :: "f32 \<Rightarrow> u16" where
  "f32_to_f16_bits bits =
     (let sign = ucast (drop_bit 16 bits AND 0x8000) :: u16;
          exponent = drop_bit 23 bits AND 0xFF;
          mantissa = bits AND 0x7FFFFF
      in if exponent = 0 then sign
         else if exponent = 0xFF then sign OR 0x7C00 OR (if mantissa \<noteq> 0 then 1 else 0)
         else
           let half_exponent = uint exponent - 127 + 15
           in if 31 \<le> half_exponent then sign OR 0x7C00
              else if half_exponent \<le> 0 then
                (if half_exponent < -10 then sign
                 else
                   let mantissa = mantissa OR 0x800000;
                       shift = nat (14 - half_exponent);
                       half_mantissa = drop_bit shift mantissa;
                       remainder = mantissa AND (push_bit shift 1 - 1);
                       halfway = push_bit (shift - 1) 1;
                       half_mantissa =
                         (if halfway < remainder \<or> remainder = halfway \<and> half_mantissa AND 1 \<noteq> 0
                          then half_mantissa + 1 else half_mantissa)
                   in sign OR ucast half_mantissa)
              else
                let half_mantissa = drop_bit 13 mantissa;
                    remainder = mantissa AND 0x1FFF
                in if 0x1000 < remainder \<or> remainder = 0x1000 \<and> half_mantissa AND 1 \<noteq> 0
                   then
                     let half_mantissa = half_mantissa + 1
                     in if half_mantissa = 0x400 then
                          let rounded_exponent = half_exponent + 1
                          in if 31 \<le> rounded_exponent then sign OR 0x7C00
                             else sign OR push_bit 10 (word_of_int rounded_exponent)
                        else sign OR push_bit 10 (word_of_int half_exponent) OR ucast half_mantissa
                   else sign OR push_bit 10 (word_of_int half_exponent) OR ucast half_mantissa)"

text \<open>
  The loop that normalises a subnormal mantissa. It does not end at 0, which its caller excludes;
  for every other mantissa of ten bits ten turns are enough (\<open>f16_normalize_total\<close>).
\<close>

primrec f16_normalize :: "nat \<Rightarrow> u32 \<Rightarrow> int \<Rightarrow> (u32 \<times> int) option" where
  "f16_normalize 0 mantissa exponent =
     (if mantissa AND 0x400 = 0 then None else Some (mantissa, exponent))"
| "f16_normalize (Suc fuel) mantissa exponent =
     (if mantissa AND 0x400 = 0 then f16_normalize fuel (push_bit 1 mantissa) (exponent - 1)
      else Some (mantissa, exponent))"

definition f16_bits_to_f32 :: "u16 \<Rightarrow> f32" where
  "f16_bits_to_f32 bits =
     (let sign = push_bit 16 (ucast (bits AND 0x8000)) :: u32;
          exponent = drop_bit 10 bits AND 0x1F;
          mantissa = ucast (bits AND 0x03FF) :: u32
      in if exponent = 0 \<and> mantissa = 0 then sign
         else if exponent = 0 then
           (case f16_normalize 10 mantissa (- 14) of
              Some (mantissa, exponent) \<Rightarrow>
                sign OR push_bit 23 (word_of_int (exponent + 127)) OR push_bit 13 (mantissa AND 0x03FF)
            | None \<Rightarrow> sign)
         else if exponent = 0x1F then sign OR 0x7F800000 OR push_bit 13 mantissa
         else sign OR push_bit 23 (ucast exponent + 112) OR push_bit 13 mantissa)"

section \<open>Raw and 16-bit payloads\<close>

definition encode_raw_f32 :: "f32 list \<Rightarrow> byte list io_result" where
  "encode_raw_f32 vs =
     res_bind (checked_wire_bytes (length vs) 4) (\<lambda>_. Inr (concat (map (le_bytes 4) vs)))"

definition decode_raw_f32 :: "byte list \<Rightarrow> nat \<Rightarrow> f32 list io_result" where
  "decode_raw_f32 payload elements =
     res_bind (checked_wire_bytes elements 4) (\<lambda>expected.
     res_bind (validate_payload_bytes (length payload) expected) (\<lambda>_.
     Inr (map le_word (as_chunks 4 payload))))"

text \<open>A loop that pushes what each item gives and returns at the first error.\<close>

fun collect_results :: "('a \<Rightarrow> 'e + 'b) \<Rightarrow> 'a list \<Rightarrow> 'e + 'b list" where
  "collect_results f [] = Inr []"
| "collect_results f (x # xs) = res_bind (f x) (\<lambda>y. res_bind (collect_results f xs) (\<lambda>ys. Inr (y # ys)))"

definition encode_f16_value :: "f32 \<Rightarrow> byte list io_result" where
  "encode_f16_value v =
     (let bits = f32_to_f16_bits v;
          rounded = f16_bits_to_f32 bits
      in res_bind (ensure (is_finite rounded) (invalid_data ''F16 activation value is out of range''))
           (\<lambda>_. Inr (le_bytes 2 bits)))"

definition encode_f16 :: "f32 list \<Rightarrow> byte list io_result" where
  "encode_f16 vs =
     res_bind (checked_wire_bytes (length vs) 2) (\<lambda>_.
     res_bind (collect_results encode_f16_value vs) (\<lambda>bytes. Inr (concat bytes)))"

definition decode_half :: "(u16 \<Rightarrow> f32) \<Rightarrow> byte list \<Rightarrow> f32 io_result" where
  "decode_half to_f32 bytes =
     (let v = to_f32 (le_word bytes)
      in res_bind (ensure (is_finite v) (invalid_data ''activation payload contains non-finite value''))
           (\<lambda>_. Inr v))"

definition decode_f16 :: "byte list \<Rightarrow> nat \<Rightarrow> f32 list io_result" where
  "decode_f16 payload elements =
     res_bind (checked_wire_bytes elements 2) (\<lambda>expected.
     res_bind (validate_payload_bytes (length payload) expected) (\<lambda>_.
     collect_results (decode_half f16_bits_to_f32) (as_chunks 2 payload)))"

definition encode_bf16_value :: "f32 \<Rightarrow> byte list io_result" where
  "encode_bf16_value v =
     (let bits = f32_to_bf16_bits v
      in res_bind (ensure (is_finite (bf16_bits_to_f32 bits))
           (invalid_data ''BF16 activation value is out of range''))
           (\<lambda>_. Inr (le_bytes 2 bits)))"

definition encode_bf16 :: "f32 list \<Rightarrow> byte list io_result" where
  "encode_bf16 vs =
     res_bind (checked_wire_bytes (length vs) 2) (\<lambda>_.
     res_bind (collect_results encode_bf16_value vs) (\<lambda>bytes. Inr (concat bytes)))"

definition decode_bf16 :: "byte list \<Rightarrow> nat \<Rightarrow> f32 list io_result" where
  "decode_bf16 payload elements =
     res_bind (checked_wire_bytes elements 2) (\<lambda>expected.
     res_bind (validate_payload_bytes (length payload) expected) (\<lambda>_.
     collect_results (decode_half bf16_bits_to_f32) (as_chunks 2 payload)))"

section \<open>Rounding to nearest even\<close>

definition pow2 :: "int \<Rightarrow> rat" where
  "pow2 k = (if 0 \<le> k then 2 ^ nat k else 1 / 2 ^ nat (- k))"

definition round_half_even :: "rat \<Rightarrow> int" where
  "round_half_even x =
     (let f = \<lfloor>x\<rfloor>; d = x - of_int f
      in if d < 1 / 2 then f else if 1 / 2 < d then f + 1 else if even f then f else f + 1)"

fun int_bits :: "int \<Rightarrow> int" where
  "int_bits n = (if n \<le> 0 then 0 else 1 + int_bits (n div 2))"

declare int_bits.simps [simp del]

text \<open>The exponent \<open>k\<close> with \<open>2 ^ k \<le> x < 2 ^ (k + 1)\<close>, for a positive rational.\<close>

definition binary_exponent :: "rat \<Rightarrow> int" where
  "binary_exponent x =
     (case quotient_of x of (n, d) \<Rightarrow>
        let k = int_bits n - int_bits d
        in if pow2 k \<le> x then k else k - 1)"

text \<open>
  The nearest value with \<open>p\<close> significant bits and no bit below \<open>2 ^ emin\<close>, ties to even; the
  exponent is not bounded above.
\<close>

definition ieee_round :: "int \<Rightarrow> int \<Rightarrow> rat \<Rightarrow> rat" where
  "ieee_round p emin x =
     (if x = 0 then 0
      else let e = max (binary_exponent \<bar>x\<bar> - (p - 1)) emin
           in of_int (round_half_even (x / pow2 e)) * pow2 e)"

definition f64_round :: "rat \<Rightarrow> rat" where
  "f64_round x = ieee_round 53 (- 1074) x"

text \<open>The value of a finite \<open>f32\<close> and the \<open>f32\<close> of a sign and a non-negative rational.\<close>

definition f32_value :: "f32 \<Rightarrow> rat" where
  "f32_value bits =
     (let e = uint (drop_bit 23 bits AND 0xFF);
          m = uint (bits AND 0x7FFFFF);
          a = (if e = 0 then of_int m * pow2 (- 149) else of_int (m + 2 ^ 23) * pow2 (e - 150))
      in if bits AND 0x80000000 = 0 then a else - a)"

definition f32_of_rat :: "bool \<Rightarrow> rat \<Rightarrow> f32" where
  "f32_of_rat negative x =
     (let r = ieee_round 24 (- 149) x;
          sign = (if negative then 0x80000000 else 0)
      in if pow2 128 \<le> r then sign OR 0x7F800000
         else if r < pow2 (- 126) then sign OR word_of_int \<lfloor>r / pow2 (- 149)\<rfloor>
         else let e = binary_exponent r
              in sign OR push_bit 23 (word_of_int (e + 127)) OR
                   word_of_int (\<lfloor>r / pow2 (e - 23)\<rfloor> - 2 ^ 23))"

section \<open>Signed 8-bit rows\<close>

text \<open>\<open>f32::abs\<close>, and \<open>f32::max\<close> of two finite values.\<close>

definition f32_abs :: "f32 \<Rightarrow> f32" where
  "f32_abs v = v AND 0x7FFFFFFF"

definition f32_max :: "f32 \<Rightarrow> f32 \<Rightarrow> f32" where
  "f32_max a b = (if f32_value a < f32_value b then b else a)"

text \<open>
  The quotient is below 2 to the 53 in absolute value: its floor is an \<open>f64\<close> and an \<open>i64\<close>. The
  cast to \<open>i8\<close> keeps the bits.
\<close>

definition round_to_even_i8 :: "rat \<Rightarrow> byte" where
  "round_to_even_i8 v =
     (let floor = \<lfloor>v\<rfloor>;
          fraction = f64_round (v - of_int floor);
          rounded = (if fraction < 1 / 2 then floor
                     else if 1 / 2 < fraction then floor + 1
                     else if even floor then floor
                     else floor + 1)
      in word_of_int (max (- 127) (min 127 rounded)))"

definition s8_scale :: "f32 \<Rightarrow> f32" where
  "s8_scale max_abs =
     (if f32_value max_abs = 0 then 0x3F800000
      else f32_max (f32_of_rat False (f64_round (f32_value max_abs / 127))) 1)"

text \<open>\<open>f32::from(quantized) * scale\<close>, for a positive finite scale.\<close>

definition s8_dequantize :: "byte \<Rightarrow> f32 \<Rightarrow> f32" where
  "s8_dequantize quantized scale =
     f32_of_rat (sint quantized < 0) (of_int \<bar>sint quantized\<bar> * f32_value scale)"

definition s8_scale_ok :: "f32 \<Rightarrow> bool" where
  "s8_scale_ok scale \<longleftrightarrow> is_finite scale \<and> 0 < f32_value scale"

definition encode_s8_value :: "f32 \<Rightarrow> f32 \<Rightarrow> byte io_result" where
  "encode_s8_value scale v =
     (let quantized = round_to_even_i8 (f64_round (f32_value v / f32_value scale))
      in res_bind (ensure (is_finite (s8_dequantize quantized scale))
           (invalid_data ''S8 activation value is out of range'')) (\<lambda>_. Inr quantized))"

definition encode_s8_row :: "f32 list \<Rightarrow> byte list io_result" where
  "encode_s8_row row =
     (let max_abs = foldl (\<lambda>m v. f32_max m (f32_abs v)) 0 row;
          scale = s8_scale max_abs
      in res_bind (ensure (s8_scale_ok scale)
           (invalid_data ''S8 activation row scale is not finite and positive'')) (\<lambda>_.
         res_bind (collect_results (encode_s8_value scale) row) (\<lambda>bytes.
         Inr (le_bytes 4 scale @ bytes))))"

definition encode_s8_rows :: "activation_shape \<Rightarrow> f32 list \<Rightarrow> byte list io_result" where
  "encode_s8_rows shape vs =
     res_bind (shape_rows shape) (\<lambda>rows.
     res_bind (s8_row_bytes shape) (\<lambda>row_bytes.
     res_bind (checked_wire_bytes rows row_bytes) (\<lambda>_.
     res_bind (collect_results encode_s8_row (as_chunks (columns shape) vs)) (\<lambda>bytes.
     Inr (concat bytes)))))"

definition decode_s8_value :: "f32 \<Rightarrow> byte \<Rightarrow> f32 io_result" where
  "decode_s8_value scale quantized =
     res_bind (ensure (sint quantized \<noteq> - 128)
       (invalid_data ''S8 activation payload contains reserved -128 value'')) (\<lambda>_.
     let decoded = s8_dequantize quantized scale
     in res_bind (ensure (is_finite decoded)
          (invalid_data ''activation payload contains non-finite value'')) (\<lambda>_. Inr decoded))"

definition decode_s8_row :: "byte list \<Rightarrow> f32 list io_result" where
  "decode_s8_row row =
     (let scale = le_word (take 4 row)
      in res_bind (ensure (s8_scale_ok scale)
           (invalid_data ''S8 activation row scale is not finite and positive'')) (\<lambda>_.
         collect_results (decode_s8_value scale) (drop 4 row)))"

definition decode_s8_rows :: "activation_shape \<Rightarrow> byte list \<Rightarrow> f32 list io_result" where
  "decode_s8_rows shape payload =
     res_bind (shape_rows shape) (\<lambda>rows.
     res_bind (s8_row_bytes shape) (\<lambda>row_bytes.
     res_bind (checked_wire_bytes rows row_bytes) (\<lambda>expected.
     res_bind (validate_payload_bytes (length payload) expected) (\<lambda>_.
     res_bind (shape_elements shape) (\<lambda>_.
     res_bind (collect_results decode_s8_row (as_chunks row_bytes payload)) (\<lambda>rows.
     Inr (concat rows)))))))"

section \<open>The codecs\<close>

definition encode_activation :: "stage_activation_codec \<Rightarrow> activation_shape \<Rightarrow> f32 list \<Rightarrow> byte list io_result"
where
  "encode_activation codec shape vs =
     res_bind (shape_elements shape) (\<lambda>elements.
     res_bind (validate_decoded_limit shape) (\<lambda>_.
     res_bind (ensure (length vs = elements) (invalid_data ''activation value count does not match shape'')) (\<lambda>_.
     case codec of
       RawF32V1 \<Rightarrow> encode_raw_f32 vs
     | F16RneV1 \<Rightarrow> res_bind (validate_finite vs) (\<lambda>_. encode_f16 vs)
     | Bf16RneV1 \<Rightarrow> res_bind (validate_finite vs) (\<lambda>_. encode_bf16 vs)
     | S8RowF32RneV1 \<Rightarrow> res_bind (validate_finite vs) (\<lambda>_. encode_s8_rows shape vs))))"

definition decode_activation :: "stage_activation_codec \<Rightarrow> activation_shape \<Rightarrow> byte list \<Rightarrow> f32 list io_result"
where
  "decode_activation codec shape payload =
     res_bind (shape_elements shape) (\<lambda>elements.
     res_bind (validate_decoded_limit shape) (\<lambda>_.
     case codec of
       RawF32V1 \<Rightarrow> decode_raw_f32 payload elements
     | F16RneV1 \<Rightarrow> decode_f16 payload elements
     | Bf16RneV1 \<Rightarrow> decode_bf16 payload elements
     | S8RowF32RneV1 \<Rightarrow> decode_s8_rows shape payload))"

end
