(* ===== verification/WireCodec.thy ===== *)
theory WireCodec
  imports WireTypes
begin

unbundle bit_operations_syntax

text \<open>
  The stage codec below the level of a message (src/crates/skippy-protocol/src/binary/codec.rs):
  scalars, batched \<open>i32\<close> slices, the state header, sampling configurations, statistics, the ready
  handshake and replies. Each writer is followed by its reader and by the lemma that the reader
  undoes it.
\<close>

section \<open>Scalars\<close>

definition read_i32 :: "i32 reader" where
  "read_i32 = rd_bind (read_exact 4) (\<lambda>bytes. rd_ok (le_word bytes))"

definition write_i32 :: "i32 \<Rightarrow> writer" where
  "write_i32 value = wr_ok (le_bytes 4 value)"

definition read_i64 :: "i64 reader" where
  "read_i64 = rd_bind (read_exact 8) (\<lambda>bytes. rd_ok (le_word bytes))"

definition write_i64 :: "i64 \<Rightarrow> writer" where
  "write_i64 value = wr_ok (le_bytes 8 value)"

definition read_u32 :: "u32 reader" where
  "read_u32 = rd_bind (read_exact 4) (\<lambda>bytes. rd_ok (le_word bytes))"

definition write_u32 :: "u32 \<Rightarrow> writer" where
  "write_u32 value = wr_ok (le_bytes 4 value)"

definition read_f32 :: "f32 reader" where
  "read_f32 = rd_bind (read_exact 4) (\<lambda>bytes. rd_ok (le_word bytes))"

definition write_f32 :: "f32 \<Rightarrow> writer" where
  "write_f32 value = wr_ok (le_bytes 4 value)"

definition read_u64 :: "u64 reader" where
  "read_u64 = rd_bind (read_exact 8) (\<lambda>bytes. rd_ok (le_word bytes))"

definition write_u64 :: "u64 \<Rightarrow> writer" where
  "write_u64 value = wr_ok (le_bytes 8 value)"

lemmas write_scalars = write_i32_def write_i64_def write_u32_def write_f32_def write_u64_def

named_theorems rd_steps "one step of a reader over the bytes its writer sends"
named_theorems rd_results "the whole of a reader over the bytes its writer sends"

declare rd_ok_app [rd_steps, rd_results]

lemma read_scalar_append [rd_results]:
  "read_i32 (le_bytes 4 a @ r) = Inr (a, r)"
  "read_u32 (le_bytes 4 a @ r) = Inr (a, r)"
  "read_f32 (le_bytes 4 a @ r) = Inr (a, r)"
  "read_i64 (le_bytes 8 b @ r) = Inr (b, r)"
  "read_u64 (le_bytes 8 b @ r) = Inr (b, r)"
  by (simp_all add: read_i32_def read_u32_def read_f32_def read_i64_def read_u64_def rd_bind_def rd_ok_app)

lemma read_scalar_step [rd_steps]:
  "rd_bind read_i32 f (le_bytes 4 a @ r) = f a r"
  "rd_bind read_u32 f (le_bytes 4 a @ r) = f a r"
  "rd_bind read_f32 f (le_bytes 4 a @ r) = f a r"
  "rd_bind read_i64 g (le_bytes 8 b @ r) = g b r"
  "rd_bind read_u64 g (le_bytes 8 b @ r) = g b r"
  by (simp_all add: rd_bind_def rd_results)

lemma read_scalar_delimiting [delimiting]:
  "self_delimiting read_i32" "self_delimiting read_u32" "self_delimiting read_f32"
  "self_delimiting read_i64" "self_delimiting read_u64"
  by (simp_all add: read_i32_def read_u32_def read_f32_def read_i64_def read_u64_def delimiting)

lemma read_exact_step [rd_steps]: "length a = n \<Longrightarrow> rd_bind (read_exact n) f (a @ r) = f a r"
  by (simp add: rd_bind_def)

lemma written_scalars [simp]:
  "written (write_i32 a)" "written (write_u32 a)" "written (write_f32 a)"
  "written (write_i64 b)" "written (write_u64 b)"
  by (simp_all add: write_scalars)

lemma fst_scalars [simp]:
  "fst (write_i32 a) = le_bytes 4 a" "fst (write_u32 a) = le_bytes 4 a"
  "fst (write_f32 a) = le_bytes 4 a" "fst (write_i64 b) = le_bytes 8 b"
  "fst (write_u64 b) = le_bytes 8 b"
  by (simp_all add: write_scalars)

interpretation i32_format: delimited_format "le_bytes 4" read_i32 "\<lambda>_. True"
  by unfold_locales (simp_all add: rd_results delimiting)

text \<open>The checked lengths of the wire.\<close>

definition checked_i32_len :: "i32 \<Rightarrow> nat \<Rightarrow> string \<Rightarrow> string \<Rightarrow> nat io_result" where
  "checked_i32_len v limit negative_message too_large_message =
     (case usize_of_signed v of
        None \<Rightarrow> Inl (invalid_data negative_message)
      | Some n \<Rightarrow> if limit < n then Inl (invalid_data too_large_message) else Inr n)"

definition checked_u32_len :: "u32 \<Rightarrow> nat \<Rightarrow> string \<Rightarrow> nat io_result" where
  "checked_u32_len v limit too_large_message =
     (if limit < unat v then Inl (invalid_data too_large_message) else Inr (unat v))"

lemma checked_i32_len_of_nat:
  "n \<le> limit \<Longrightarrow> int limit \<le> I32_MAX \<Longrightarrow> checked_i32_len (word_of_nat n) limit m1 m2 = Inr n"
  by (simp add: checked_i32_len_def)

lemma checked_i32_len_Inr:
  "checked_i32_len v limit m1 m2 = Inr n \<longleftrightarrow> usize_of_signed v = Some n \<and> n \<le> limit"
  by (auto simp: checked_i32_len_def split: option.splits)

lemma unat_word_of_nat_32: "n < 2 ^ 32 \<Longrightarrow> unat (word_of_nat n :: 32 word) = n"
  by (simp add: unsigned_of_nat take_bit_nat_eq_self)

lemma checked_u32_len_of_nat:
  "n \<le> limit \<Longrightarrow> limit < 2 ^ 32 \<Longrightarrow> checked_u32_len (word_of_nat n) limit m = Inr n"
  by (simp add: checked_u32_len_def unat_word_of_nat_32)

lemma checked_u32_len_Inr: "checked_u32_len v limit m = Inr n \<longleftrightarrow> n = unat v \<and> n \<le> limit"
  by (auto simp: checked_u32_len_def)

section \<open>Batched slices of i32\<close>

definition VALUES_PER_CHUNK :: nat where
  "VALUES_PER_CHUNK = 4096"

function read_i32_values_loop :: "i32 list \<Rightarrow> nat \<Rightarrow> i32 list reader" where
  "read_i32_values_loop values remaining =
     (if remaining = 0 then rd_ok values
      else
        let chunk_values = min remaining VALUES_PER_CHUNK
        in rd_bind (read_exact (chunk_values * 4)) (\<lambda>bytes.
             read_i32_values_loop (values @ map le_word (as_chunks 4 bytes)) (remaining - chunk_values)))"
  by auto
termination by (relation "measure snd") (auto simp: VALUES_PER_CHUNK_def)

declare read_i32_values_loop.simps [simp del]

definition read_i32_values :: "nat \<Rightarrow> i32 list reader" where
  "read_i32_values n = read_i32_values_loop [] n"

definition write_i32_slice :: "i32 list \<Rightarrow> writer" where
  "write_i32_slice values =
     wr_all (map (\<lambda>chunk. wr_ok (concat (map (le_bytes 4) chunk))) (chunks_of VALUES_PER_CHUNK values))"

lemma read_i32_batch:
  "rd_bind (read_exact (n * 4)) (\<lambda>bytes. f (map le_word (as_chunks 4 bytes))) = rd_bind (rd_repeat n read_i32) f"
proof (induction n arbitrary: f)
  case 0
  show ?case by (rule ext) (simp add: rd_bind_def read_exact_def)
next
  case (Suc n)
  show ?case
  proof
    fix s
    show "rd_bind (read_exact (Suc n * 4)) (\<lambda>bytes. f (map le_word (as_chunks 4 bytes))) s =
        rd_bind (rd_repeat (Suc n) read_i32) f s"
    proof (cases "length s < 4")
      case True
      then show ?thesis by (simp add: rd_bind_def read_exact_def read_i32_def)
    next
      case False
      define a b where ab: "a = take 4 s" "b = drop 4 s"
      then have s: "s = a @ b" and a: "length a = 4" using False by auto
      have i: "read_i32 (a @ b) = Inr (le_word a, b)" using a by (simp add: read_i32_def rd_bind_def rd_ok_app)
      have l: "length (take (n * 4) b) = n * 4" if "n * 4 \<le> length b" using that by simp
      have "rd_bind (rd_repeat (Suc n) read_i32) f (a @ b) =
          rd_bind (rd_repeat n read_i32) (\<lambda>xs. f (le_word a # xs)) b"
        by (simp add: rd_bind_def rd_ok_app i split: sum.split)
      also have "\<dots> = rd_bind (read_exact (n * 4)) (\<lambda>bytes. f (le_word a # map le_word (as_chunks 4 bytes))) b"
        using Suc [of "\<lambda>xs. f (le_word a # xs)"] by simp
      also have "\<dots> = rd_bind (read_exact (Suc n * 4)) (\<lambda>bytes. f (map le_word (as_chunks 4 bytes))) (a @ b)"
        using a by (simp add: rd_bind_def read_exact_def as_chunks_append)
      finally show ?thesis by (simp add: s)
    qed
  qed
qed

lemma rd_repeat_add:
  "rd_bind (rd_repeat (m + n) p) f =
   rd_bind (rd_repeat m p) (\<lambda>xs. rd_bind (rd_repeat n p) (\<lambda>ys. f (xs @ ys)))"
  by (induction m arbitrary: f) (simp_all add: rd_bind_assoc)

lemma read_i32_values_loop_eq:
  "read_i32_values_loop vs n = rd_bind (rd_repeat n read_i32) (\<lambda>xs. rd_ok (vs @ xs))"
proof (induction vs n rule: read_i32_values_loop.induct)
  case (1 vs n)
  show ?case
  proof (cases "n = 0")
    case True
    then show ?thesis by (simp add: read_i32_values_loop.simps)
  next
    case False
    let ?c = "min n VALUES_PER_CHUNK"
    have "read_i32_values_loop vs n = rd_bind (read_exact (?c * 4)) (\<lambda>bytes.
        rd_bind (rd_repeat (n - ?c) read_i32) (\<lambda>xs. rd_ok ((vs @ map le_word (as_chunks 4 bytes)) @ xs)))"
      using False 1 by (subst read_i32_values_loop.simps) (simp add: Let_def)
    also have "\<dots> = rd_bind (rd_repeat ?c read_i32) (\<lambda>ys.
        rd_bind (rd_repeat (n - ?c) read_i32) (\<lambda>xs. rd_ok (vs @ ys @ xs)))"
      using read_i32_batch [of ?c "\<lambda>ys. rd_bind (rd_repeat (n - ?c) read_i32) (\<lambda>xs. rd_ok (vs @ ys @ xs))"]
      by simp
    also have "\<dots> = rd_bind (rd_repeat n read_i32) (\<lambda>xs. rd_ok (vs @ xs))"
      using rd_repeat_add [of ?c "n - ?c" read_i32 "\<lambda>xs. rd_ok (vs @ xs)"] by simp
    finally show ?thesis .
  qed
qed

lemma read_i32_values_repeat: "read_i32_values n = rd_repeat n read_i32"
  by (simp add: read_i32_values_def read_i32_values_loop_eq rd_bind_rd_ok)

lemma write_i32_slice_eq: "write_i32_slice values = wr_ok (concat (map (le_bytes 4) values))"
proof -
  have "written (write_i32_slice values)"
    by (simp add: write_i32_slice_def written_all_map)
  moreover have "fst (write_i32_slice values) = concat (map (le_bytes 4) values)"
    unfolding write_i32_slice_def
    by (subst fst_all_map) (simp_all add: VALUES_PER_CHUNK_def concat_map_chunks_of)
  ultimately show ?thesis by (simp add: written_def wr_ok_def prod_eq_iff)
qed

lemma written_i32_slice [simp]: "written (write_i32_slice values)"
  by (simp add: write_i32_slice_eq)

lemma fst_i32_slice [simp]: "fst (write_i32_slice values) = concat (map (le_bytes 4) values)"
  by (simp add: write_i32_slice_eq)

lemma read_i32_repeat_append [rd_results]:
  "n = length xs \<Longrightarrow> rd_repeat n read_i32 (concat (map (le_bytes 4) xs) @ r) = Inr (xs, r)"
  using i32_format.repeat_enc [of xs] by simp

lemma read_i32_repeat_step [rd_steps]:
  "n = length xs \<Longrightarrow> rd_bind (rd_repeat n read_i32) f (concat (map (le_bytes 4) xs) @ r) = f xs r"
  by (simp add: rd_bind_def rd_results)

section \<open>State header\<close>

definition write_state_header :: "stage_state_header \<Rightarrow> writer" where
  "write_state_header state = wr_all [
     write_i32 (hd_version state), write_i32 (hd_seq_id state), write_i32 (hd_phase state),
     write_i32 (hd_flags state), write_i32 (hd_checkpoint_generation state),
     write_i32 (hd_prompt_token_count state), write_i32 (hd_decode_step state),
     write_i32 (hd_current_token state), write_i32 (hd_source_stage_index state),
     write_i32 (binary_wire_id (hd_activation_codec state))]"

definition read_state_header :: "stage_state_header reader" where
  "read_state_header =
     rd_bind read_i32 (\<lambda>version.
     rd_bind read_i32 (\<lambda>seq_id.
     rd_bind read_i32 (\<lambda>phase.
     rd_bind read_i32 (\<lambda>flags.
     rd_bind read_i32 (\<lambda>checkpoint_generation.
     rd_bind read_i32 (\<lambda>prompt_token_count.
     rd_bind read_i32 (\<lambda>decode_step.
     rd_bind read_i32 (\<lambda>current_token.
     rd_bind read_i32 (\<lambda>source_stage_index.
     rd_bind read_i32 (\<lambda>codec_id.
     rd_bind (rd_try (ok_or (from_binary_wire_id codec_id) (invalid_data ''unknown stage activation codec'')))
       (\<lambda>activation_codec.
     rd_ok \<lparr>hd_version = version, hd_seq_id = seq_id, hd_phase = phase, hd_flags = flags,
       hd_checkpoint_generation = checkpoint_generation, hd_prompt_token_count = prompt_token_count,
       hd_decode_step = decode_step, hd_current_token = current_token,
       hd_source_stage_index = source_stage_index, hd_activation_codec = activation_codec\<rparr>)))))))))))"

lemma written_state_header [simp]: "written (write_state_header h)"
  by (simp add: write_state_header_def)

lemma length_state_header [simp]: "length (fst (write_state_header h)) = STAGE_STATE_HEADER_BYTES"
  by (simp add: write_state_header_def STAGE_STATE_HEADER_BYTES_def)

lemma read_state_header_append [rd_results]: "read_state_header (fst (write_state_header h) @ r) = Inr (h, r)"
  by (simp add: write_state_header_def read_state_header_def rd_steps)

lemma read_state_header_step [rd_steps]: "rd_bind read_state_header f (fst (write_state_header h) @ r) = f h r"
  by (simp add: rd_bind_def rd_results)

lemma read_state_header_delimiting [delimiting]: "self_delimiting read_state_header"
  unfolding read_state_header_def by (intro delimiting)

section \<open>Sampling configuration\<close>

definition write_string_list :: "rust_string list \<Rightarrow> nat \<Rightarrow> writer" where
  "write_string_list values maximum_count =
     (let count = min (length values) maximum_count
      in wr_then (write_u32 (word_of_nat count))
           (wr_all (map (\<lambda>bytes. wr_all [
              wr_check (ensure (length bytes \<le> MAX_STAGE_SAMPLING_STRING_BYTES)
                (invalid_data ''sampling string exceeds maximum length'')),
              write_u32 (word_of_nat (length bytes)),
              wr_ok bytes]) (take count values))))"

definition read_string :: "rust_string reader" where
  "read_string =
     rd_bind read_u32 (\<lambda>len.
     rd_bind (rd_try (ensure (unat len \<le> MAX_STAGE_SAMPLING_STRING_BYTES)
        (invalid_data ''sampling string exceeds maximum length''))) (\<lambda>_.
     rd_bind (read_exact (unat len)) (\<lambda>bytes.
     rd_try (from_utf8 bytes ''sampling string is not UTF-8''))))"

definition read_string_list :: "nat \<Rightarrow> rust_string list reader" where
  "read_string_list maximum_count =
     rd_bind read_u32 (\<lambda>count.
     rd_bind (rd_try (ensure (unat count \<le> maximum_count)
        (invalid_data ''sampling string count exceeds maximum''))) (\<lambda>_.
     rd_repeat (unat count) read_string))"

definition sampling_string :: "rust_string \<Rightarrow> bool" where
  "sampling_string s \<longleftrightarrow> utf8_valid s \<and> length s \<le> MAX_STAGE_SAMPLING_STRING_BYTES"

definition enc_string :: "rust_string \<Rightarrow> byte list" where
  "enc_string s = le_bytes 4 (word_of_nat (length s) :: u32) @ s"

lemma read_string_append: "sampling_string s \<Longrightarrow> read_string (enc_string s @ r) = Inr (s, r)"
  by (simp add: read_string_def enc_string_def sampling_string_def rd_steps unat_word_of_nat_32
      wire_limits)

lemma read_string_delimiting [delimiting]: "self_delimiting read_string"
  unfolding read_string_def by (intro delimiting)

interpretation string_format: delimited_format enc_string read_string sampling_string
  by unfold_locales (simp_all add: read_string_append delimiting)

lemma take_min_length [simp]:
  "take (min n (length xs)) xs = take n xs"
  "take (min (length xs) n) xs = take n xs"
  by (simp_all add: min_def)

lemma written_string_list:
  "written (write_string_list values n) \<longleftrightarrow>
   (\<forall>s \<in> set (take n values). length s \<le> MAX_STAGE_SAMPLING_STRING_BYTES)"
  by (simp add: write_string_list_def Let_def written_all_map)

lemma fst_string_list:
  "written (write_string_list values n) \<Longrightarrow>
   fst (write_string_list values n) = le_bytes 4 (word_of_nat (min (length values) n) :: u32) @
     concat (map enc_string (take n values))"
  unfolding written_string_list
  by (simp add: write_string_list_def Let_def fst_all_map enc_string_def
      cong: map_cong)

lemma read_string_list_step [rd_steps]:
  assumes "written (write_string_list values n)" and "\<forall>s \<in> set (take n values). utf8_valid s" and "n < 2 ^ 32"
  shows "rd_bind (read_string_list n) f (fst (write_string_list values n) @ r) = f (take n values) r"
proof -
  have ok: "\<forall>s \<in> set (take n values). sampling_string s"
    using assms(1,2) by (simp add: written_string_list sampling_string_def)
  have len: "min (length values) n = length (take n values)" by simp
  have c: "unat (word_of_nat (min (length values) n) :: u32) = length (take n values)"
    using assms(3) by (simp add: unat_word_of_nat_32)
  show ?thesis
    using string_format.repeat_enc [OF ok] assms(1)
    by (simp add: fst_string_list read_string_list_def rd_bind_def rd_results c)
qed

lemma length_string_list:
  "written (write_string_list values n) \<Longrightarrow>
   length (fst (write_string_list values n)) = 4 + sampling_string_list_wire_bytes values n"
  by (simp add: fst_string_list sampling_string_list_wire_bytes_def length_concat enc_string_def o_def)

lemma read_string_list_delimiting [delimiting]: "self_delimiting (read_string_list n)"
  unfolding read_string_list_def by (intro delimiting)

definition write_logit_bias :: "stage_logit_bias list \<Rightarrow> writer" where
  "write_logit_bias logit_bias =
     (let count = min (length logit_bias) MAX_STAGE_LOGIT_BIAS
      in wr_then (write_u32 (word_of_nat count))
           (wr_all (map (\<lambda>bias. wr_all [write_i32 (lb_token_id bias), write_f32 (lb_bias bias)])
              (take count logit_bias))))"

definition read_logit_bias :: "stage_logit_bias list reader" where
  "read_logit_bias =
     rd_bind read_u32 (\<lambda>logit_bias_count.
     rd_bind (rd_try (ensure (unat logit_bias_count \<le> MAX_STAGE_LOGIT_BIAS)
        (invalid_data ''logit bias count exceeds maximum''))) (\<lambda>_.
     rd_repeat (unat logit_bias_count)
       (rd_bind read_i32 (\<lambda>token_id. rd_bind read_f32 (\<lambda>bias.
          rd_ok \<lparr>lb_token_id = token_id, lb_bias = bias\<rparr>)))))"

definition enc_bias :: "stage_logit_bias \<Rightarrow> byte list" where
  "enc_bias b = le_bytes 4 (lb_token_id b) @ le_bytes 4 (lb_bias b)"

interpretation bias_format: wire_format enc_bias
    "rd_bind read_i32 (\<lambda>token_id. rd_bind read_f32 (\<lambda>bias. rd_ok \<lparr>lb_token_id = token_id, lb_bias = bias\<rparr>))"
    "\<lambda>_. True"
  by unfold_locales (simp add: enc_bias_def rd_steps)

lemma written_logit_bias [simp]: "written (write_logit_bias bs)"
  by (simp add: write_logit_bias_def Let_def written_all_map)

lemma fst_logit_bias:
  "fst (write_logit_bias bs) = le_bytes 4 (word_of_nat (min (length bs) MAX_STAGE_LOGIT_BIAS) :: u32) @
     concat (map enc_bias (take MAX_STAGE_LOGIT_BIAS bs))"
  by (simp add: write_logit_bias_def Let_def fst_all_map enc_bias_def cong: map_cong)

lemma read_logit_bias_step [rd_steps]:
  "rd_bind read_logit_bias f (fst (write_logit_bias bs) @ r) = f (take MAX_STAGE_LOGIT_BIAS bs) r"
proof -
  have c: "unat (word_of_nat (min (length bs) MAX_STAGE_LOGIT_BIAS) :: u32) =
      length (take MAX_STAGE_LOGIT_BIAS bs)"
    by (simp add: unat_word_of_nat_32 wire_limits)
  show ?thesis
    using bias_format.repeat_enc [of "take MAX_STAGE_LOGIT_BIAS bs"]
    by (simp add: fst_logit_bias read_logit_bias_def rd_bind_def rd_results c)
qed

lemma length_logit_bias:
  "length (fst (write_logit_bias bs)) =
   4 + min (length bs) MAX_STAGE_LOGIT_BIAS * STAGE_LOGIT_BIAS_WIRE_BYTES"
  by (simp add: fst_logit_bias length_concat enc_bias_def o_def sum_list_triv
      STAGE_LOGIT_BIAS_WIRE_BYTES_def)

lemma read_logit_bias_delimiting [delimiting]: "self_delimiting read_logit_bias"
  unfolding read_logit_bias_def by (intro delimiting)

definition write_sampling_config :: "stage_sampling_config \<Rightarrow> writer" where
  "write_sampling_config sampling = wr_all [
     write_u32 (sc_flags sampling),
     write_u32 (sc_seed sampling),
     write_f32 (sc_temperature sampling),
     write_f32 (sc_top_p sampling),
     write_i32 (sc_top_k sampling),
     write_f32 (sc_min_p sampling),
     write_f32 (sc_presence_penalty sampling),
     write_f32 (sc_frequency_penalty sampling),
     write_f32 (sc_repeat_penalty sampling),
     write_i32 (sc_penalty_last_n sampling),
     write_logit_bias (sc_logit_bias sampling),
     write_f32 (sc_typical_p sampling),
     write_f32 (sc_top_nsigma sampling),
     write_f32 (sc_dynatemp_range sampling),
     write_f32 (sc_dynatemp_exponent sampling),
     write_f32 (sc_dry_multiplier sampling),
     write_f32 (sc_dry_base sampling),
     write_i32 (sc_dry_allowed_length sampling),
     write_i32 (sc_dry_penalty_last_n sampling),
     write_string_list (sc_dry_sequence_breakers sampling) MAX_STAGE_DRY_SEQUENCE_BREAKERS,
     write_f32 (sc_xtc_probability sampling),
     write_f32 (sc_xtc_threshold sampling),
     write_i32 (sc_mirostat_mode sampling),
     write_f32 (sc_mirostat_entropy sampling),
     write_f32 (sc_mirostat_learning_rate sampling),
     write_string_list (sc_samplers sampling) MAX_STAGE_SAMPLERS,
     write_i32 (sc_reasoning_budget_tokens sampling),
     write_u32 (if sc_ignore_eos sampling then 1 else 0)]"

definition read_sampling_config :: "stage_sampling_config reader" where
  "read_sampling_config =
     rd_bind read_u32 (\<lambda>flags.
     rd_bind read_u32 (\<lambda>seed.
     rd_bind read_f32 (\<lambda>temperature.
     rd_bind read_f32 (\<lambda>top_p.
     rd_bind read_i32 (\<lambda>top_k.
     rd_bind read_f32 (\<lambda>min_p.
     rd_bind read_f32 (\<lambda>presence_penalty.
     rd_bind read_f32 (\<lambda>frequency_penalty.
     rd_bind read_f32 (\<lambda>repeat_penalty.
     rd_bind read_i32 (\<lambda>penalty_last_n.
     rd_bind read_logit_bias (\<lambda>logit_bias.
     rd_bind read_f32 (\<lambda>typical_p.
     rd_bind read_f32 (\<lambda>top_nsigma.
     rd_bind read_f32 (\<lambda>dynatemp_range.
     rd_bind read_f32 (\<lambda>dynatemp_exponent.
     rd_bind read_f32 (\<lambda>dry_multiplier.
     rd_bind read_f32 (\<lambda>dry_base.
     rd_bind read_i32 (\<lambda>dry_allowed_length.
     rd_bind read_i32 (\<lambda>dry_penalty_last_n.
     rd_bind (read_string_list MAX_STAGE_DRY_SEQUENCE_BREAKERS) (\<lambda>dry_sequence_breakers.
     rd_bind read_f32 (\<lambda>xtc_probability.
     rd_bind read_f32 (\<lambda>xtc_threshold.
     rd_bind read_i32 (\<lambda>mirostat_mode.
     rd_bind read_f32 (\<lambda>mirostat_entropy.
     rd_bind read_f32 (\<lambda>mirostat_learning_rate.
     rd_bind (read_string_list MAX_STAGE_SAMPLERS) (\<lambda>samplers.
     rd_bind read_i32 (\<lambda>reasoning_budget_tokens.
     rd_bind read_u32 (\<lambda>ignore_eos.
     rd_ok \<lparr>sc_flags = flags,
       sc_seed = seed,
       sc_temperature = temperature,
       sc_top_p = top_p,
       sc_top_k = top_k,
       sc_min_p = min_p,
       sc_presence_penalty = presence_penalty,
       sc_frequency_penalty = frequency_penalty,
       sc_repeat_penalty = repeat_penalty,
       sc_penalty_last_n = penalty_last_n,
       sc_logit_bias = logit_bias,
       sc_typical_p = typical_p,
       sc_top_nsigma = top_nsigma,
       sc_dynatemp_range = dynatemp_range,
       sc_dynatemp_exponent = dynatemp_exponent,
       sc_dry_multiplier = dry_multiplier,
       sc_dry_base = dry_base,
       sc_dry_allowed_length = dry_allowed_length,
       sc_dry_penalty_last_n = dry_penalty_last_n,
       sc_dry_sequence_breakers = dry_sequence_breakers,
       sc_xtc_probability = xtc_probability,
       sc_xtc_threshold = xtc_threshold,
       sc_mirostat_mode = mirostat_mode,
       sc_mirostat_entropy = mirostat_entropy,
       sc_mirostat_learning_rate = mirostat_learning_rate,
       sc_samplers = samplers,
       sc_reasoning_budget_tokens = reasoning_budget_tokens,
       sc_ignore_eos = (ignore_eos \<noteq> 0)\<rparr>))))))))))))))))))))))))))))"

text \<open>What arrives of a sampling configuration: the lists are cut to what the wire carries.\<close>

definition wire_sampling :: "stage_sampling_config \<Rightarrow> stage_sampling_config" where
  "wire_sampling s = s\<lparr>sc_logit_bias := take MAX_STAGE_LOGIT_BIAS (sc_logit_bias s),
     sc_dry_sequence_breakers := take MAX_STAGE_DRY_SEQUENCE_BREAKERS (sc_dry_sequence_breakers s),
     sc_samplers := take MAX_STAGE_SAMPLERS (sc_samplers s)\<rparr>"

definition sampling_utf8 :: "stage_sampling_config \<Rightarrow> bool" where
  "sampling_utf8 s \<longleftrightarrow> (\<forall>x \<in> set (sc_dry_sequence_breakers s). utf8_valid x) \<and>
     (\<forall>x \<in> set (sc_samplers s). utf8_valid x)"

lemma written_sampling_config:
  "written (write_sampling_config s) \<longleftrightarrow>
   written (write_string_list (sc_dry_sequence_breakers s) MAX_STAGE_DRY_SEQUENCE_BREAKERS) \<and>
   written (write_string_list (sc_samplers s) MAX_STAGE_SAMPLERS)"
  by (simp add: write_sampling_config_def)

lemma read_sampling_config_append:
  assumes "written (write_sampling_config s)" and "sampling_utf8 s"
  shows "read_sampling_config (fst (write_sampling_config s) @ r) = Inr (wire_sampling s, r)"
proof -
  note w = assms(1) [unfolded written_sampling_config]
  have u: "\<forall>x \<in> set (take n (sc_dry_sequence_breakers s)). utf8_valid x"
    "\<forall>x \<in> set (take n (sc_samplers s)). utf8_valid x" for n
    using assms(2) by (auto simp: sampling_utf8_def dest: in_set_takeD)
  have b: "MAX_STAGE_DRY_SEQUENCE_BREAKERS < 2 ^ 32" "MAX_STAGE_SAMPLERS < 2 ^ 32"
    by (simp_all add: wire_limits)
  note steps = read_string_list_step [OF w [THEN conjunct1] u(1) b(1)]
    read_string_list_step [OF w [THEN conjunct2] u(2) b(2)]
  show ?thesis
    using w by (simp add: write_sampling_config_def read_sampling_config_def rd_steps steps wire_sampling_def)
qed

lemma read_sampling_config_step [rd_steps]:
  "written (write_sampling_config s) \<Longrightarrow> sampling_utf8 s \<Longrightarrow>
   rd_bind read_sampling_config f (fst (write_sampling_config s) @ r) = f (wire_sampling s) r"
  by (simp add: rd_bind_def read_sampling_config_append)

lemma length_sampling_config:
  assumes "written (write_sampling_config s)"
  shows "length (fst (write_sampling_config s)) = STAGE_SAMPLING_CONFIG_BASE_BYTES
     + min (length (sc_logit_bias s)) MAX_STAGE_LOGIT_BIAS * STAGE_LOGIT_BIAS_WIRE_BYTES
     + sampling_string_list_wire_bytes (sc_dry_sequence_breakers s) MAX_STAGE_DRY_SEQUENCE_BREAKERS
     + sampling_string_list_wire_bytes (sc_samplers s) MAX_STAGE_SAMPLERS"
  using assms [unfolded written_sampling_config]
  by (simp add: write_sampling_config_def length_string_list length_logit_bias
      STAGE_SAMPLING_CONFIG_BASE_BYTES_def)

lemma read_sampling_config_delimiting [delimiting]: "self_delimiting read_sampling_config"
  unfolding read_sampling_config_def by (intro delimiting)

section \<open>Ready handshake\<close>

definition send_ready :: writer where
  "send_ready = write_i32 READY_MAGIC"

definition recv_ready :: "unit reader" where
  "recv_ready = rd_bind read_i32 (\<lambda>magic.
     rd_try (ensure (magic = READY_MAGIC) (invalid_data ''stage ready magic mismatch'')))"

section \<open>Reply statistics\<close>

definition REPLY_STATS_FIELD_COUNT :: nat where
  "REPLY_STATS_FIELD_COUNT = 27"

definition REPLY_STATS_WIRE_BYTES :: nat where
  "REPLY_STATS_WIRE_BYTES = REPLY_STATS_FIELD_COUNT * 8"

definition reply_stats_fields :: "stage_reply_stats \<Rightarrow> i64 list" where
  "reply_stats_fields stats = [
     kv_lookup_hits stats,
     kv_lookup_misses stats,
     kv_lookup_errors stats,
     kv_imported_pages stats,
     kv_imported_tokens stats,
     kv_recorded_pages stats,
     kv_recorded_bytes stats,
     kv_hit_stage_mask stats,
     kv_record_stage_mask stats,
     verify_window_compute_us stats,
     verify_window_forward_write_us stats,
     verify_window_downstream_wait_us stats,
     verify_window_total_us stats,
     verify_window_stage_count stats,
     verify_window_request_count stats,
     verify_window_token_count stats,
     verify_window_max_tokens stats,
     prefill_edge_write_us_max stats,
     prefill_edge_wait_us_max stats,
     prefill_edge_total_us_max stats,
     prefill_edge_stage_index stats,
     prefill_edge_activation_bytes_max stats,
     prefill_edge_observation_count stats,
     prefill_compute_us_at_slowest_rate stats,
     prefill_compute_stage_index stats,
     prefill_compute_token_count_at_slowest_rate stats,
     prefill_compute_observation_count stats]"

definition reply_stats_from_fields :: "i64 list \<Rightarrow> stage_reply_stats" where
  "reply_stats_from_fields fs = \<lparr>
     kv_lookup_hits = fs ! 0,
     kv_lookup_misses = fs ! 1,
     kv_lookup_errors = fs ! 2,
     kv_imported_pages = fs ! 3,
     kv_imported_tokens = fs ! 4,
     kv_recorded_pages = fs ! 5,
     kv_recorded_bytes = fs ! 6,
     kv_hit_stage_mask = fs ! 7,
     kv_record_stage_mask = fs ! 8,
     verify_window_compute_us = fs ! 9,
     verify_window_forward_write_us = fs ! 10,
     verify_window_downstream_wait_us = fs ! 11,
     verify_window_total_us = fs ! 12,
     verify_window_stage_count = fs ! 13,
     verify_window_request_count = fs ! 14,
     verify_window_token_count = fs ! 15,
     verify_window_max_tokens = fs ! 16,
     prefill_edge_write_us_max = fs ! 17,
     prefill_edge_wait_us_max = fs ! 18,
     prefill_edge_total_us_max = fs ! 19,
     prefill_edge_stage_index = fs ! 20,
     prefill_edge_activation_bytes_max = fs ! 21,
     prefill_edge_observation_count = fs ! 22,
     prefill_compute_us_at_slowest_rate = fs ! 23,
     prefill_compute_stage_index = fs ! 24,
     prefill_compute_token_count_at_slowest_rate = fs ! 25,
     prefill_compute_observation_count = fs ! 26\<rparr>"

definition write_reply_stats :: "stage_reply_stats \<Rightarrow> writer" where
  "write_reply_stats stats = wr_ok (concat (map (le_bytes 8) (reply_stats_fields stats)))"

definition read_reply_stats :: "stage_reply_stats reader" where
  "read_reply_stats = rd_bind (read_exact REPLY_STATS_WIRE_BYTES) (\<lambda>bytes.
     rd_ok (reply_stats_from_fields (map le_word (as_chunks 8 bytes))))"

lemma reply_stats_from_fields_fields [simp]: "reply_stats_from_fields (reply_stats_fields s) = s"
  by (cases s) (simp add: reply_stats_from_fields_def reply_stats_fields_def nth_Cons')

lemma length_reply_stats_fields [simp]: "length (reply_stats_fields s) = REPLY_STATS_FIELD_COUNT"
  by (simp add: reply_stats_fields_def REPLY_STATS_FIELD_COUNT_def)

lemma read_reply_stats_step [rd_steps]: "rd_bind read_reply_stats f (fst (write_reply_stats s) @ r) = f s r"
proof -
  have "length (concat (map (le_bytes 8) (reply_stats_fields s))) = REPLY_STATS_WIRE_BYTES"
    by (simp add: length_concat o_def sum_list_triv REPLY_STATS_WIRE_BYTES_def)
  then show ?thesis
    by (simp add: write_reply_stats_def read_reply_stats_def rd_bind_def rd_ok_app as_chunks_concat o_def)
qed

lemma written_reply_stats [simp]: "written (write_reply_stats s)"
  by (simp add: write_reply_stats_def)

lemma read_reply_stats_delimiting [delimiting]: "self_delimiting read_reply_stats"
  unfolding read_reply_stats_def by (intro delimiting)

section \<open>Replies\<close>

definition write_reply_window :: "stage_reply_window \<Rightarrow> writer" where
  "write_reply_window w = write_i32 (window_id w)"

definition read_reply_window :: "stage_reply_window reader" where
  "read_reply_window = rd_bind read_i32 (\<lambda>i. rd_ok \<lparr>window_id = i\<rparr>)"

definition write_reply_header :: "wire_reply_kind \<Rightarrow> i32 \<Rightarrow> i32 list \<Rightarrow> stage_reply_window \<Rightarrow> writer" where
  "write_reply_header kind predicted predicted_tokens window = wr_all [
     write_i32 (wire_reply_kind_id kind),
     write_i32 predicted,
     wr_try (ok_or (i32_of_usize (length predicted_tokens)) (invalid_input ''too many predicted tokens'')) write_i32,
     wr_all (map write_i32 predicted_tokens),
     write_reply_window window]"

definition write_native_mtp_draft :: "stage_native_mtp_draft option \<Rightarrow> writer" where
  "write_native_mtp_draft draft = (case draft of
       None \<Rightarrow> write_i32 0
     | Some draft \<Rightarrow> wr_all [
         wr_check (ensure (length (draft_token_ids draft) \<le> MAX_STAGE_PREDICTED_TOKENS)
           (invalid_input ''too many native MTP draft tokens'')),
         write_i32 1,
         wr_try (ok_or (i32_of_usize (length (draft_token_ids draft)))
           (invalid_input ''too many native MTP draft tokens'')) write_i32,
         wr_all (map write_i32 (draft_token_ids draft)),
         write_i64 (draft_proposal_compute_us draft)])"

definition read_native_mtp_draft :: "stage_native_mtp_draft option reader" where
  "read_native_mtp_draft = rd_bind read_i32 (\<lambda>marker.
     if marker = 0 then rd_ok None
     else if marker = 1 then
       rd_bind read_i32 (\<lambda>count.
       rd_bind (rd_try (checked_i32_len count MAX_STAGE_PREDICTED_TOKENS
          ''negative native MTP draft token count'' ''native MTP draft token count exceeds maximum''))
         (\<lambda>token_count.
       rd_bind (rd_repeat token_count read_i32) (\<lambda>token_ids.
       rd_bind read_i64 (\<lambda>proposal_compute_us.
       rd_ok (Some \<lparr>draft_token_ids = token_ids, draft_proposal_compute_us = proposal_compute_us\<rparr>)))))
     else rd_try (Inl (invalid_data ''unknown native MTP draft reply marker'')))"

definition send_reply_message :: "stage_reply \<Rightarrow> writer" where
  "send_reply_message reply = wr_all [
     wr_check (ensure (length (rep_predicted_tokens reply) \<le> MAX_STAGE_PREDICTED_TOKENS)
       (invalid_input ''too many predicted tokens'')),
     write_reply_header (rep_kind reply) (rep_predicted reply) (rep_predicted_tokens reply) (rep_window reply),
     write_native_mtp_draft (rep_native_mtp_draft reply),
     write_reply_stats (rep_stats reply)]"

definition send_reply_ack_with_stats :: "stage_reply_stats \<Rightarrow> writer" where
  "send_reply_ack_with_stats stats = send_reply_message
     \<lparr>rep_kind = Ack, rep_predicted = 0, rep_predicted_tokens = [], rep_native_mtp_draft = None,
      rep_window = \<lparr>window_id = 0\<rparr>, rep_stats = stats\<rparr>"

definition send_reply_ack :: writer where
  "send_reply_ack = send_reply_ack_with_stats default_reply_stats"

definition send_reply_predicted_with_tokens_window_and_stats ::
    "i32 \<Rightarrow> i32 list \<Rightarrow> stage_reply_window \<Rightarrow> stage_reply_stats \<Rightarrow> writer" where
  "send_reply_predicted_with_tokens_window_and_stats predicted predicted_tokens window stats = wr_all [
     wr_check (ensure (length predicted_tokens \<le> MAX_STAGE_PREDICTED_TOKENS)
       (invalid_input ''too many predicted tokens'')),
     write_reply_header PredictedToken predicted predicted_tokens window,
     write_native_mtp_draft None,
     write_reply_stats stats]"

definition send_reply_predicted_with_tokens_and_stats :: "i32 \<Rightarrow> i32 list \<Rightarrow> stage_reply_stats \<Rightarrow> writer" where
  "send_reply_predicted_with_tokens_and_stats predicted predicted_tokens stats =
     send_reply_predicted_with_tokens_window_and_stats predicted predicted_tokens \<lparr>window_id = 0\<rparr> stats"

definition send_reply_predicted_with_stats :: "i32 \<Rightarrow> stage_reply_stats \<Rightarrow> writer" where
  "send_reply_predicted_with_stats predicted stats =
     send_reply_predicted_with_tokens_window_and_stats predicted [predicted] \<lparr>window_id = 0\<rparr> stats"

definition send_reply_predicted :: "i32 \<Rightarrow> writer" where
  "send_reply_predicted predicted = send_reply_predicted_with_stats predicted default_reply_stats"

definition send_reply_predicted_tokens_with_window_and_stats ::
    "i32 list \<Rightarrow> stage_reply_window \<Rightarrow> stage_reply_stats \<Rightarrow> writer" where
  "send_reply_predicted_tokens_with_window_and_stats predicted_tokens window stats = wr_all [
     wr_check (ensure (length predicted_tokens \<le> MAX_STAGE_PREDICTED_TOKENS)
       (invalid_input ''too many predicted tokens'')),
     write_reply_header PredictedTokens (case predicted_tokens of [] \<Rightarrow> 0 | t # _ \<Rightarrow> t) predicted_tokens window,
     write_native_mtp_draft None,
     write_reply_stats stats]"

definition send_reply_predicted_tokens_with_stats :: "i32 list \<Rightarrow> stage_reply_stats \<Rightarrow> writer" where
  "send_reply_predicted_tokens_with_stats predicted_tokens stats =
     send_reply_predicted_tokens_with_window_and_stats predicted_tokens \<lparr>window_id = 0\<rparr> stats"

definition recv_reply :: "stage_reply reader" where
  "recv_reply =
     rd_bind read_i32 (\<lambda>kind_id.
     rd_bind (rd_try (wire_reply_kind_try_from kind_id)) (\<lambda>kind.
     rd_bind read_i32 (\<lambda>predicted.
     rd_bind read_i32 (\<lambda>count.
     rd_bind (rd_try (checked_i32_len count MAX_STAGE_PREDICTED_TOKENS
        ''negative predicted token count'' ''predicted token count exceeds maximum'')) (\<lambda>predicted_count.
     rd_bind (rd_repeat predicted_count read_i32) (\<lambda>predicted_tokens.
     rd_bind read_reply_window (\<lambda>window.
     rd_bind read_native_mtp_draft (\<lambda>native_mtp_draft.
     rd_bind read_reply_stats (\<lambda>stats.
     rd_ok \<lparr>rep_kind = kind, rep_predicted = predicted, rep_predicted_tokens = predicted_tokens,
       rep_native_mtp_draft = native_mtp_draft, rep_window = window, rep_stats = stats\<rparr>)))))))))"

lemma fst_map_write_i32: "fst (wr_all (map write_i32 xs)) = concat (map (le_bytes 4) xs)"
  by (subst fst_all_map) simp_all

lemma written_map_write_i32 [simp]: "written (wr_all (map write_i32 xs))"
  by (simp add: written_all_map)

lemma i32_of_limit: "n \<le> MAX_STAGE_PREDICTED_TOKENS \<Longrightarrow> int n \<le> I32_MAX"
  by (simp add: wire_limits)

lemma read_native_mtp_draft_step [rd_steps]:
  assumes "written (write_native_mtp_draft d)"
  shows "rd_bind read_native_mtp_draft f (fst (write_native_mtp_draft d) @ r) = f d r"
proof (cases d)
  case None
  then show ?thesis
    by (simp add: write_native_mtp_draft_def read_native_mtp_draft_def rd_bind_def rd_results)
next
  case (Some x)
  have n: "length (draft_token_ids x) \<le> MAX_STAGE_PREDICTED_TOKENS"
    using assms by (simp add: Some write_native_mtp_draft_def)
  have "read_native_mtp_draft (fst (write_native_mtp_draft d) @ r) = Inr (d, r)"
    using n i32_of_limit [OF n]
    by (simp add: Some write_native_mtp_draft_def read_native_mtp_draft_def rd_steps fst_map_write_i32
        checked_i32_len_of_nat wire_limits)
  then show ?thesis by (simp add: rd_bind_def)
qed

lemma written_native_mtp_draft:
  "written (write_native_mtp_draft d) \<longleftrightarrow>
   (\<forall>x. d = Some x \<longrightarrow> length (draft_token_ids x) \<le> MAX_STAGE_PREDICTED_TOKENS)"
  by (auto simp: write_native_mtp_draft_def wire_limits split: option.split)

lemma written_reply_header:
  "n = length ts \<Longrightarrow> n \<le> MAX_STAGE_PREDICTED_TOKENS \<Longrightarrow> written (write_reply_header k p ts w)"
  by (simp add: write_reply_header_def write_reply_window_def wire_limits)

lemma written_reply:
  "written (send_reply_message r) \<longleftrightarrow>
   length (rep_predicted_tokens r) \<le> MAX_STAGE_PREDICTED_TOKENS \<and>
   written (write_native_mtp_draft (rep_native_mtp_draft r))"
  by (auto simp: send_reply_message_def written_reply_header)

lemma recv_reply_append:
  assumes "written (send_reply_message reply)"
  shows "recv_reply (fst (send_reply_message reply) @ r) = Inr (reply, r)"
proof -
  note w = assms [unfolded written_reply]
  note n = w [THEN conjunct1] and d = w [THEN conjunct2]
  show ?thesis
    using n i32_of_limit [OF n] d
    by (simp add: send_reply_message_def written_reply_header write_reply_header_def
        write_reply_window_def recv_reply_def read_reply_window_def rd_bind_assoc rd_steps fst_map_write_i32
        checked_i32_len_of_nat wire_limits)
qed

lemma read_native_mtp_draft_delimiting [delimiting]: "self_delimiting read_native_mtp_draft"
  unfolding read_native_mtp_draft_def by (intro delimiting)

lemma read_reply_window_delimiting [delimiting]: "self_delimiting read_reply_window"
  unfolding read_reply_window_def by (intro delimiting)

lemma recv_reply_delimiting [delimiting]: "self_delimiting recv_reply"
  unfolding recv_reply_def by (intro delimiting)

interpretation reply_format: delimited_format
    "\<lambda>reply. fst (send_reply_message reply)" recv_reply "\<lambda>reply. written (send_reply_message reply)"
  by unfold_locales (simp_all add: recv_reply_append delimiting)

end
