(* ===== verification/ActivationFrame.thy ===== *)
theory ActivationFrame
  imports ActivationCodec WireCodec
begin

unbundle bit_operations_syntax

text \<open>
  Activation frames (src/crates/skippy-protocol/src/binary/activation.rs): a descriptor with one
  entry per tensor part, its validation, its wire form, and the frame that follows the descriptor
  with each part encoded under the codec of the message. An array field of a descriptor is a list
  whose length is fixed by \<open>desc_arrays\<close>.
\<close>

section \<open>Descriptors\<close>

definition GGML_TYPE_F32 :: u32 where
  "GGML_TYPE_F32 = 0"

definition GGML_TYPE_F16 :: u32 where
  "GGML_TYPE_F16 = 1"

definition GGML_TYPE_I32 :: u32 where
  "GGML_TYPE_I32 = 26"

definition GGML_TYPE_BF16 :: u32 where
  "GGML_TYPE_BF16 = 30"

definition FRAME_FIXED_HEADER_BYTES :: nat where
  "FRAME_FIXED_HEADER_BYTES = 68"

definition PART_HEADER_BYTES :: nat where
  "PART_HEADER_BYTES = 128"

record stage_activation_part_desc =
  pd_identity :: "byte list"
  pd_ggml_type :: u32
  pd_rank :: u32
  pd_token_axis :: i32
  pd_flags :: u32
  pd_dimensions :: "i64 list"
  pd_byte_strides :: "u64 list"
  pd_payload_offset :: u64
  pd_payload_bytes :: u64

record stage_activation_desc =
  ad_version :: u32
  ad_producer_stage_index :: i32
  ad_layer_start :: i32
  ad_layer_end :: i32
  ad_token_count :: u32
  ad_sequence_count :: u32
  ad_payload_bytes :: u64
  ad_frontier_identity :: "byte list"
  ad_parts :: "stage_activation_part_desc list"

record stage_activation_frame =
  fr_desc :: stage_activation_desc
  fr_payload :: "byte list"

definition part_is_optional :: "stage_activation_part_desc \<Rightarrow> bool" where
  "part_is_optional part \<longleftrightarrow> pd_flags part AND STAGE_ACTIVATION_PART_OPTIONAL \<noteq> 0"

definition part_arrays :: "stage_activation_part_desc \<Rightarrow> bool" where
  "part_arrays part \<longleftrightarrow> length (pd_identity part) = STAGE_ACTIVATION_IDENTITY_BYTES \<and>
     length (pd_dimensions part) = MAX_STAGE_ACTIVATION_DIMS \<and>
     length (pd_byte_strides part) = MAX_STAGE_ACTIVATION_DIMS"

definition desc_arrays :: "stage_activation_desc \<Rightarrow> bool" where
  "desc_arrays desc \<longleftrightarrow> length (ad_frontier_identity desc) = STAGE_ACTIVATION_IDENTITY_BYTES \<and>
     list_all part_arrays (ad_parts desc)"

section \<open>Validation\<close>

definition ggml_type_bytes :: "u32 \<Rightarrow> nat io_result" where
  "ggml_type_bytes ggml_type =
     (if ggml_type = GGML_TYPE_F32 \<or> ggml_type = GGML_TYPE_I32 then Inr 4
      else if ggml_type = GGML_TYPE_F16 \<or> ggml_type = GGML_TYPE_BF16 then Inr 2
      else Inl (invalid_data ''activation part has unsupported ggml type''))"

fun validate_axes :: "stage_activation_part_desc \<Rightarrow> nat list \<Rightarrow> nat \<Rightarrow> nat \<Rightarrow> nat io_result" where
  "validate_axes part [] elements expected_stride = Inr elements"
| "validate_axes part (axis # axes) elements expected_stride =
     res_bind (ok_or (usize_of_signed (pd_dimensions part ! axis))
       (invalid_data ''activation part dimension is not positive'')) (\<lambda>dimension.
     res_bind (ensure (dimension \<noteq> 0) (invalid_data ''activation part dimension is not positive'')) (\<lambda>_.
     res_bind (ensure (unat (pd_byte_strides part ! axis) = expected_stride)
       (invalid_data ''activation part is not densely packed'')) (\<lambda>_.
     res_bind (ok_or (checked USIZE_MAX (elements * dimension))
       (invalid_data ''activation part element count overflow'')) (\<lambda>elements.
     res_bind (ok_or (checked USIZE_MAX (expected_stride * dimension))
       (invalid_data ''activation part stride overflow'')) (\<lambda>expected_stride.
     validate_axes part axes elements expected_stride)))))"

definition validate_part :: "stage_activation_desc \<Rightarrow> stage_activation_part_desc list \<Rightarrow>
    stage_activation_part_desc \<Rightarrow> nat \<Rightarrow> nat io_result" where
  "validate_part desc before part payload_offset =
     res_bind (ensure (pd_flags part AND NOT STAGE_ACTIVATION_PART_OPTIONAL = 0)
       (invalid_data ''activation part has unsupported flags'')) (\<lambda>_.
     res_bind (ensure (\<not> list_ex (\<lambda>candidate. pd_identity candidate = pd_identity part) before)
       (invalid_data ''activation frame has duplicate part identities'')) (\<lambda>_.
     let rank = unat (pd_rank part)
     in res_bind (ok_or (usize_of_signed (pd_token_axis part))
          (invalid_data ''activation part has a negative token axis'')) (\<lambda>token_axis.
        res_bind (ensure (\<not> (rank = 0 \<or> MAX_STAGE_ACTIVATION_DIMS < rank \<or> rank \<le> token_axis))
          (invalid_data ''activation part shape is invalid'')) (\<lambda>_.
        res_bind (ensure (sint (pd_dimensions part ! token_axis) = int (unat (ad_token_count desc)))
          (invalid_data ''activation part token dimension does not match frame'')) (\<lambda>_.
        res_bind (ggml_type_bytes (pd_ggml_type part)) (\<lambda>element_bytes.
        res_bind (validate_axes part [0..<rank] 1 element_bytes) (\<lambda>elements.
        res_bind (ok_or (checked USIZE_MAX (elements * element_bytes))
          (invalid_data ''activation part byte count overflow'')) (\<lambda>part_bytes.
        res_bind (ensure (unat (pd_payload_offset part) = payload_offset \<and>
            unat (pd_payload_bytes part) = part_bytes)
          (invalid_data ''activation part payload layout is inconsistent'')) (\<lambda>_.
        ok_or (checked USIZE_MAX (payload_offset + part_bytes))
          (invalid_data ''activation payload byte count overflow''))))))))))"

fun validate_parts :: "stage_activation_desc \<Rightarrow> stage_activation_part_desc list \<Rightarrow>
    stage_activation_part_desc list \<Rightarrow> nat \<Rightarrow> nat io_result" where
  "validate_parts desc before [] payload_offset = Inr payload_offset"
| "validate_parts desc before (part # parts) payload_offset =
     res_bind (validate_part desc before part payload_offset) (\<lambda>payload_offset.
     validate_parts desc (before @ [part]) parts payload_offset)"

definition validate_descriptor :: "stage_activation_desc \<Rightarrow> nat option \<Rightarrow> unit io_result" where
  "validate_descriptor desc payload_len =
     res_bind (ensure (ad_version desc = STAGE_ACTIVATION_FRAME_VERSION)
       (invalid_data ''unsupported activation frame version'')) (\<lambda>_.
     res_bind (ensure (\<not> (ad_parts desc = [] \<or> MAX_STAGE_ACTIVATION_PARTS < length (ad_parts desc)))
       (invalid_data ''activation frame part count is invalid'')) (\<lambda>_.
     let expected_payload_bytes = unat (ad_payload_bytes desc)
     in res_bind (ensure (expected_payload_bytes \<le> MAX_STAGE_DECODED_ACTIVATION_BYTES)
          (invalid_data ''decoded activation payload byte count exceeds maximum'')) (\<lambda>_.
        res_bind (ensure (case payload_len of None \<Rightarrow> True | Some actual \<Rightarrow> actual = expected_payload_bytes)
          (invalid_data ''activation payload byte count mismatch'')) (\<lambda>_.
        res_bind (validate_parts desc [] (ad_parts desc) 0) (\<lambda>payload_offset.
        ensure (payload_offset = expected_payload_bytes)
          (invalid_data ''activation descriptor payload size mismatch''))))))"

section \<open>Sizes of parts\<close>

definition part_shape :: "stage_activation_part_desc \<Rightarrow> activation_shape io_result" where
  "part_shape part =
     (let elements = unat (pd_payload_bytes part) div 4
      in res_bind (ok_or (usize_of_signed (pd_dimensions part ! 0))
           (invalid_data ''activation part first dimension exceeds usize'')) (\<lambda>columns.
         res_bind (ensure (\<not> (columns = 0 \<or> \<not> columns dvd elements))
           (invalid_data ''activation part shape is invalid'')) (\<lambda>_.
         Inr (activation_shape_new (elements div columns) 0 columns))))"

definition part_wire_bytes :: "stage_activation_codec \<Rightarrow> stage_activation_part_desc \<Rightarrow> nat io_result" where
  "part_wire_bytes codec part =
     (if pd_ggml_type part = GGML_TYPE_F32 then res_bind (part_shape part) (encoded_len codec)
      else Inr (unat (pd_payload_bytes part)))"

definition part_payload :: "stage_activation_part_desc \<Rightarrow> byte list \<Rightarrow> byte list io_result" where
  "part_payload part payload =
     (let start = unat (pd_payload_offset part); bytes = unat (pd_payload_bytes part)
      in res_bind (ok_or (checked USIZE_MAX (start + bytes))
           (invalid_data ''activation part payload range overflow'')) (\<lambda>end_offset.
         ok_or (if end_offset \<le> length payload then Some (take bytes (drop start payload)) else None)
           (invalid_data ''activation part payload range exceeds frame'')))"

fun add_part_wire_bytes :: "stage_activation_codec \<Rightarrow> stage_activation_part_desc list \<Rightarrow> nat \<Rightarrow> nat io_result"
where
  "add_part_wire_bytes codec [] sum_bytes = Inr sum_bytes"
| "add_part_wire_bytes codec (part # parts) sum_bytes =
     res_bind (part_wire_bytes codec part) (\<lambda>bytes.
     res_bind (ok_or (checked USIZE_MAX (sum_bytes + bytes))
       (invalid_data ''activation frame wire size overflow'')) (\<lambda>sum_bytes.
     add_part_wire_bytes codec parts sum_bytes))"

definition activation_frame_wire_bytes :: "stage_activation_codec \<Rightarrow> stage_activation_desc \<Rightarrow> nat io_result"
where
  "activation_frame_wire_bytes codec desc =
     res_bind (validate_descriptor desc None) (\<lambda>_.
     res_bind (ok_or (checked USIZE_MAX (length (ad_parts desc) * PART_HEADER_BYTES))
       (invalid_data ''activation frame header size overflow'')) (\<lambda>part_headers.
     res_bind (ok_or (checked USIZE_MAX (FRAME_FIXED_HEADER_BYTES + part_headers))
       (invalid_data ''activation frame header size overflow'')) (\<lambda>header_bytes.
     res_bind (add_part_wire_bytes codec (ad_parts desc) header_bytes) (\<lambda>sum_bytes.
     res_bind (ensure (sum_bytes \<le> MAX_STAGE_ACTIVATION_BYTES)
       (invalid_data ''activation frame wire byte count exceeds maximum'')) (\<lambda>_.
     Inr sum_bytes)))))"

section \<open>Descriptors on the wire\<close>

definition write_part_descriptor :: "stage_activation_part_desc \<Rightarrow> byte list" where
  "write_part_descriptor part =
     pd_identity part @ le_bytes 4 (pd_ggml_type part) @ le_bytes 4 (pd_rank part) @
     le_bytes 4 (pd_token_axis part) @ le_bytes 4 (pd_flags part) @
     concat (map (le_bytes 8) (pd_dimensions part)) @ concat (map (le_bytes 8) (pd_byte_strides part)) @
     le_bytes 8 (pd_payload_offset part) @ le_bytes 8 (pd_payload_bytes part)"

definition write_descriptor :: "stage_activation_desc \<Rightarrow> byte list io_result" where
  "write_descriptor desc =
     res_bind (ok_or (checked U32_MAX (length (ad_parts desc)))
       (invalid_data ''activation frame part count exceeds u32'')) (\<lambda>part_count.
     Inr (le_bytes 4 (ad_version desc) @ le_bytes 4 (ad_producer_stage_index desc) @
        le_bytes 4 (ad_layer_start desc) @ le_bytes 4 (ad_layer_end desc) @
        le_bytes 4 (ad_token_count desc) @ le_bytes 4 (ad_sequence_count desc) @
        le_bytes 4 (word_of_nat part_count :: u32) @ le_bytes 8 (ad_payload_bytes desc) @
        ad_frontier_identity desc @ concat (map write_part_descriptor (ad_parts desc))))"

definition read_part_descriptor :: "stage_activation_part_desc reader" where
  "read_part_descriptor =
     rd_bind (read_exact STAGE_ACTIVATION_IDENTITY_BYTES) (\<lambda>identity.
     rd_bind read_u32 (\<lambda>ggml_type.
     rd_bind read_u32 (\<lambda>rank.
     rd_bind read_i32 (\<lambda>token_axis.
     rd_bind read_u32 (\<lambda>flags.
     rd_bind (rd_repeat MAX_STAGE_ACTIVATION_DIMS read_i64) (\<lambda>dimensions.
     rd_bind (rd_repeat MAX_STAGE_ACTIVATION_DIMS read_u64) (\<lambda>byte_strides.
     rd_bind read_u64 (\<lambda>payload_offset.
     rd_bind read_u64 (\<lambda>payload_bytes.
     rd_ok \<lparr>pd_identity = identity, pd_ggml_type = ggml_type, pd_rank = rank,
       pd_token_axis = token_axis, pd_flags = flags, pd_dimensions = dimensions,
       pd_byte_strides = byte_strides, pd_payload_offset = payload_offset,
       pd_payload_bytes = payload_bytes\<rparr>)))))))))"

definition read_descriptor_fields :: "stage_activation_desc reader" where
  "read_descriptor_fields =
     rd_bind read_u32 (\<lambda>version.
     rd_bind read_i32 (\<lambda>producer_stage_index.
     rd_bind read_i32 (\<lambda>layer_start.
     rd_bind read_i32 (\<lambda>layer_end.
     rd_bind read_u32 (\<lambda>token_count.
     rd_bind read_u32 (\<lambda>sequence_count.
     rd_bind read_u32 (\<lambda>parts_word.
     rd_bind (rd_try (ensure (\<not> (unat parts_word = 0 \<or> MAX_STAGE_ACTIVATION_PARTS < unat parts_word))
       (invalid_data ''activation frame part count is invalid''))) (\<lambda>_.
     rd_bind read_u64 (\<lambda>payload_bytes.
     rd_bind (read_exact STAGE_ACTIVATION_IDENTITY_BYTES) (\<lambda>frontier_identity.
     rd_bind (rd_repeat (unat parts_word) read_part_descriptor) (\<lambda>parts.
     rd_ok \<lparr>ad_version = version, ad_producer_stage_index = producer_stage_index,
       ad_layer_start = layer_start, ad_layer_end = layer_end, ad_token_count = token_count,
       ad_sequence_count = sequence_count, ad_payload_bytes = payload_bytes,
       ad_frontier_identity = frontier_identity, ad_parts = parts\<rparr>)))))))))))"

text \<open>The position of the cursor after the descriptor is what was consumed of the input.\<close>

definition read_descriptor :: "byte list \<Rightarrow> (stage_activation_desc \<times> nat) io_result" where
  "read_descriptor encoded =
     res_bind (read_descriptor_fields encoded) (\<lambda>(desc, rest). Inr (desc, length encoded - length rest))"

section \<open>Frames\<close>

definition encode_part :: "stage_activation_codec \<Rightarrow> byte list \<Rightarrow> stage_activation_part_desc \<Rightarrow> byte list io_result"
where
  "encode_part codec payload part =
     res_bind (part_payload part payload) (\<lambda>bytes.
     if pd_ggml_type part = GGML_TYPE_F32 then
       res_bind (part_shape part) (\<lambda>shape.
         encode_activation codec shape (map le_word (as_chunks 4 bytes)))
     else Inr bytes)"

definition encode_activation_frame :: "stage_activation_codec \<Rightarrow> stage_activation_desc \<Rightarrow> byte list \<Rightarrow>
    byte list io_result" where
  "encode_activation_frame codec desc payload =
     res_bind (validate_descriptor desc (Some (length payload))) (\<lambda>_.
     res_bind (activation_frame_wire_bytes codec desc) (\<lambda>_.
     res_bind (write_descriptor desc) (\<lambda>header.
     res_bind (collect_results (encode_part codec payload) (ad_parts desc)) (\<lambda>parts.
     Inr (header @ concat parts)))))"

fun decode_parts :: "stage_activation_codec \<Rightarrow> byte list \<Rightarrow> stage_activation_part_desc list \<Rightarrow> nat \<Rightarrow>
    byte list \<Rightarrow> byte list io_result" where
  "decode_parts codec encoded [] wire_offset payload = Inr payload"
| "decode_parts codec encoded (part # parts) wire_offset payload =
     res_bind (part_wire_bytes codec part) (\<lambda>wire_bytes.
     res_bind (ok_or (checked USIZE_MAX (wire_offset + wire_bytes))
       (invalid_data ''activation part wire range overflow'')) (\<lambda>end_offset.
     res_bind (ok_or (if end_offset \<le> length encoded then Some (take wire_bytes (drop wire_offset encoded)) else None)
       (invalid_data ''activation part wire range exceeds frame'')) (\<lambda>bytes.
     res_bind (if pd_ggml_type part = GGML_TYPE_F32 then
         res_bind (part_shape part) (\<lambda>shape.
         res_bind (decode_activation codec shape bytes) (\<lambda>vs. Inr (concat (map (le_bytes 4) vs))))
       else Inr bytes) (\<lambda>decoded.
     decode_parts codec encoded parts end_offset (payload @ decoded)))))"

definition decode_activation_frame :: "stage_activation_codec \<Rightarrow> byte list \<Rightarrow> stage_activation_frame io_result"
where
  "decode_activation_frame codec encoded =
     res_bind (read_descriptor encoded) (\<lambda>(desc, header_bytes).
     res_bind (validate_descriptor desc None) (\<lambda>_.
     res_bind (activation_frame_wire_bytes codec desc) (\<lambda>sum_bytes.
     res_bind (ensure (sum_bytes = length encoded) (invalid_data ''activation frame wire byte count mismatch'')) (\<lambda>_.
     res_bind (decode_parts codec encoded (ad_parts desc) header_bytes []) (\<lambda>payload.
     res_bind (validate_descriptor desc (Some (length payload))) (\<lambda>_.
     Inr \<lparr>fr_desc = desc, fr_payload = payload\<rparr>))))))"

definition encode_raw_activation_frame :: "stage_activation_frame \<Rightarrow> byte list io_result" where
  "encode_raw_activation_frame frame = encode_activation_frame RawF32V1 (fr_desc frame) (fr_payload frame)"

definition decode_raw_activation_frame :: "byte list \<Rightarrow> stage_activation_frame io_result" where
  "decode_raw_activation_frame encoded = decode_activation_frame RawF32V1 encoded"

section \<open>Choice of a lossless codec\<close>

text \<open>
  The part loop of \<open>codec_is_lossless\<close>: \<open>Ok(false)\<close> at the first float part that is not restored
  bit for bit, an error only when a part lies outside the payload.
\<close>

fun parts_lossless :: "stage_activation_codec \<Rightarrow> byte list \<Rightarrow> stage_activation_part_desc list \<Rightarrow> bool io_result"
where
  "parts_lossless codec payload [] = Inr True"
| "parts_lossless codec payload (part # parts) =
     (if pd_ggml_type part \<noteq> GGML_TYPE_F32 then parts_lossless codec payload parts
      else
        res_bind (part_payload part payload) (\<lambda>bytes.
        res_bind (part_shape part) (\<lambda>shape.
        case encode_activation codec shape (map le_word (as_chunks 4 bytes)) of
          Inl _ \<Rightarrow> Inr False
        | Inr encoded \<Rightarrow>
            (case decode_activation codec shape encoded of
               Inl _ \<Rightarrow> Inr False
             | Inr decoded \<Rightarrow>
                 if concat (map (le_bytes 4) decoded) \<noteq> bytes then Inr False
                 else parts_lossless codec payload parts))))"

definition codec_is_lossless :: "stage_activation_codec \<Rightarrow> stage_activation_desc \<Rightarrow> byte list \<Rightarrow> bool io_result"
where
  "codec_is_lossless codec desc payload = parts_lossless codec payload (ad_parts desc)"

fun prefer_codecs :: "stage_activation_desc \<Rightarrow> byte list \<Rightarrow> stage_activation_codec list \<Rightarrow>
    stage_activation_codec list \<Rightarrow> stage_activation_codec \<Rightarrow> nat \<Rightarrow> stage_activation_codec io_result" where
  "prefer_codecs desc payload permitted [] selected selected_bytes = Inr selected"
| "prefer_codecs desc payload permitted (codec # preference) selected selected_bytes =
     (if codec \<notin> set permitted then prefer_codecs desc payload permitted preference selected selected_bytes
      else
        res_bind (codec_is_lossless codec desc payload) (\<lambda>lossless.
        if \<not> lossless then prefer_codecs desc payload permitted preference selected selected_bytes
        else
          res_bind (activation_frame_wire_bytes codec desc) (\<lambda>wire_bytes.
          if wire_bytes < selected_bytes
          then prefer_codecs desc payload permitted preference codec wire_bytes
          else prefer_codecs desc payload permitted preference selected selected_bytes)))"

definition select_lossless_activation_codec :: "stage_activation_desc \<Rightarrow> byte list \<Rightarrow>
    stage_activation_codec list \<Rightarrow> stage_activation_codec io_result" where
  "select_lossless_activation_codec desc payload permitted_codecs =
     res_bind (validate_descriptor desc (Some (length payload))) (\<lambda>_.
     res_bind (ensure (RawF32V1 \<in> set permitted_codecs)
       (invalid_data ''lossless activation selection requires RawF32 fallback'')) (\<lambda>_.
     res_bind (activation_frame_wire_bytes RawF32V1 desc) (\<lambda>selected_bytes.
     prefer_codecs desc payload permitted_codecs [Bf16RneV1, F16RneV1, S8RowF32RneV1, RawF32V1]
       RawF32V1 selected_bytes)))"

end
