(* ===== verification/StageMessage.thy ===== *)
theory StageMessage
  imports ActivationFrame
begin

unbundle bit_operations_syntax

text \<open>
  Stage messages on the wire (\<open>write_stage_message\<close> and \<open>read_stage_message_inner\<close> of
  src/crates/skippy-protocol/src/binary/codec.rs), the closest path between two stages: a fixed
  prefix, the state header whose flags announce the optional parts, the optional sampling
  configuration and chat metadata, then raw state bytes, or token and position sidebands and the
  activation frame.
\<close>

section \<open>Writing\<close>

definition validate_activation_frame_header :: "stage_activation_frame \<Rightarrow> i32 \<Rightarrow> i32 \<Rightarrow> unit io_result" where
  "validate_activation_frame_header frame token_count source_stage_index =
     res_bind (ensure (\<not> (sint token_count < 0 \<or> ad_token_count (fr_desc frame) \<noteq> token_count))
       (invalid_data ''activation frame token count does not match stage message'')) (\<lambda>_.
     ensure (ad_producer_stage_index (fr_desc frame) = source_stage_index)
       (invalid_data ''activation frame producer does not match stage message''))"

definition set_flag :: "bool \<Rightarrow> i32 \<Rightarrow> stage_state_header \<Rightarrow> stage_state_header" where
  "set_flag present flag state =
     (if present then state\<lparr>hd_flags := hd_flags state OR flag\<rparr>
      else state\<lparr>hd_flags := hd_flags state AND NOT flag\<rparr>)"

definition wire_state :: "stage_wire_message \<Rightarrow> stage_state_header" where
  "wire_state message =
     (let state = msg_state message;
          state = set_flag (msg_sampling message \<noteq> None) FLAG_SAMPLING state
      in set_flag (msg_chat_sampling_metadata message \<noteq> None) FLAG_CHAT_SAMPLING_METADATA state)"

definition activationless :: "wire_message_kind \<Rightarrow> stage_state_header \<Rightarrow> bool" where
  "activationless kind state \<longleftrightarrow> kind = StateImport \<or> kind = Stop \<or>
     sint (hd_source_stage_index state) < 0 \<or> is_activationless_prefix_cache_control kind"

definition message_activation_bytes :: "stage_wire_message \<Rightarrow> stage_state_header \<Rightarrow> i32 io_result" where
  "message_activation_bytes message state =
     (if activationless (msg_kind message) state then
        res_bind (ensure (msg_activation message = [])
          (invalid_input ''activationless stage message contains activation payload'')) (\<lambda>_. Inr 0)
      else
        res_bind (ensure (length (msg_activation message) \<le> MAX_STAGE_ACTIVATION_BYTES)
          (invalid_input ''activation payload byte count exceeds maximum'')) (\<lambda>_.
        res_bind (decode_activation_frame (hd_activation_codec state) (msg_activation message)) (\<lambda>frame.
        res_bind (validate_activation_frame_header frame (msg_token_count message)
          (hd_source_stage_index state)) (\<lambda>_.
        ok_or (i32_of_usize (length (msg_activation message)))
          (invalid_input ''activation payload byte count exceeds maximum'')))))"

definition write_chat_metadata :: "rust_string \<Rightarrow> writer" where
  "write_chat_metadata bytes = wr_all [
     wr_check (ensure (length bytes \<le> MAX_STAGE_CHAT_SAMPLING_METADATA_BYTES)
       (invalid_input ''chat sampling metadata is too large'')),
     wr_try (ok_or (checked U32_MAX (length bytes)) (invalid_input ''chat sampling metadata is too large''))
       (\<lambda>n. write_u32 (word_of_nat n)),
     wr_ok bytes]"

definition write_payload :: "stage_wire_message \<Rightarrow> writer" where
  "write_payload message =
     (if msg_kind message = StateImport then
        wr_try (ok_or (usize_of_signed (msg_token_count message))
          (invalid_input ''state import raw byte count mismatch'')) (\<lambda>raw_byte_count. wr_all [
            wr_check (ensure (raw_byte_count = length (msg_raw_bytes message))
              (invalid_input ''state import raw byte count mismatch'')),
            wr_check (ensure (raw_byte_count \<le> MAX_STAGE_STATE_IMPORT_BYTES)
              (invalid_input ''state import raw byte count exceeds maximum'')),
            wr_ok (msg_raw_bytes message)])
      else wr_all [
        write_i32_slice (msg_tokens message),
        write_i32_slice (msg_positions message),
        wr_ok (msg_activation message)])"

definition write_stage_message :: "stage_wire_message \<Rightarrow> writer" where
  "write_stage_message message =
     (let state = wire_state message in wr_all [
        write_i32 (wire_message_kind_id (msg_kind message)),
        write_i32 (msg_pos_start message),
        write_i32 (msg_token_count message),
        wr_check (ensure (length (msg_tokens message) \<le> MAX_STAGE_SIDEBAND_VALUES)
          (invalid_input ''too many tokens'')),
        wr_try (ok_or (i32_of_usize (length (msg_tokens message))) (invalid_input ''too many tokens'')) write_i32,
        wr_check (ensure (length (msg_positions message) \<le> MAX_STAGE_SIDEBAND_VALUES)
          (invalid_input ''too many position sideband values'')),
        wr_try (ok_or (i32_of_usize (length (msg_positions message)))
          (invalid_input ''too many position sideband values'')) write_i32,
        wr_try (message_activation_bytes message state) (\<lambda>activation_wire_byte_count.
          wr_then (write_state_header state) (write_i32 activation_wire_byte_count)),
        write_u64 (msg_request_id message),
        write_u64 (msg_session_id message),
        (case msg_sampling message of None \<Rightarrow> wr_all [] | Some sampling \<Rightarrow> write_sampling_config sampling),
        (case msg_chat_sampling_metadata message of None \<Rightarrow> wr_all [] | Some bytes \<Rightarrow> write_chat_metadata bytes),
        write_payload message])"

section \<open>Reading\<close>

definition read_chat_metadata :: "rust_string reader" where
  "read_chat_metadata =
     rd_bind read_u32 (\<lambda>len_word.
     rd_bind (rd_try (checked_u32_len len_word MAX_STAGE_CHAT_SAMPLING_METADATA_BYTES
       ''chat sampling metadata length exceeds maximum'')) (\<lambda>len.
     rd_bind (read_exact len) (\<lambda>bytes.
     rd_try (from_utf8 bytes ''chat sampling metadata is not UTF-8''))))"

definition rd_optional :: "bool \<Rightarrow> 'a reader \<Rightarrow> 'a option reader" where
  "rd_optional present p = (if present then rd_bind p (\<lambda>x. rd_ok (Some x)) else rd_ok None)"

definition admitted_activation_bytes :: "(stage_activation_codec \<times> stage_activation_codec_policy) option \<Rightarrow>
    wire_message_kind \<Rightarrow> stage_state_header \<Rightarrow> nat \<Rightarrow> nat io_result" where
  "admitted_activation_bytes expected_codec kind state activation_wire_byte_count =
     (if activationless kind state then
        res_bind (ensure (activation_wire_byte_count = 0)
          (invalid_data ''activationless stage message contains activation payload'')) (\<lambda>_. Inr 0)
      else
        res_bind (ensure (\<not> (case expected_codec of None \<Rightarrow> False
            | Some (configured, policy) \<Rightarrow> \<not> permits policy configured (hd_activation_codec state)))
          (invalid_data ''stage activation codec mismatch'')) (\<lambda>_.
        Inr activation_wire_byte_count))"

definition normalise_activation :: "stage_state_header \<Rightarrow> i32 \<Rightarrow> byte list \<Rightarrow> byte list io_result" where
  "normalise_activation state token_count wire_activation =
     (if wire_activation = [] then Inr []
      else
        res_bind (decode_activation_frame (hd_activation_codec state) wire_activation) (\<lambda>frame.
        res_bind (validate_activation_frame_header frame token_count (hd_source_stage_index state)) (\<lambda>_.
        encode_raw_activation_frame frame)))"

text \<open>The payload of a message that is not a stop: what the reader does after the checks of its counts.\<close>

definition read_payload :: "stage_wire_message \<Rightarrow> nat \<Rightarrow> nat \<Rightarrow> nat \<Rightarrow> stage_wire_message reader" where
  "read_payload message token_sideband_count position_sideband_count activation_bytes =
     (if msg_kind message = StateImport then
        rd_bind (rd_try (checked_i32_len (msg_token_count message) MAX_STAGE_STATE_IMPORT_BYTES
          ''negative wire count'' ''state import byte count exceeds maximum'')) (\<lambda>raw_byte_count.
        rd_bind (read_exact raw_byte_count) (\<lambda>raw_bytes.
        rd_ok (message\<lparr>msg_raw_bytes := raw_bytes\<rparr>)))
      else
        rd_bind (read_i32_values token_sideband_count) (\<lambda>tokens.
        rd_bind (read_i32_values position_sideband_count) (\<lambda>positions.
        rd_bind (read_exact activation_bytes) (\<lambda>wire_activation.
        rd_bind (rd_try (normalise_activation (msg_state message) (msg_token_count message) wire_activation))
          (\<lambda>activation.
        rd_ok (message\<lparr>msg_tokens := tokens, msg_positions := positions, msg_activation := activation\<rparr>))))))"

definition read_message_body :: "stage_wire_message \<Rightarrow> i32 \<Rightarrow> i32 \<Rightarrow> nat \<Rightarrow> stage_wire_message reader" where
  "read_message_body message token_sideband_word position_sideband_word activation_bytes =
     (if msg_kind message = Stop then rd_ok message
      else
        rd_bind (rd_try (ensure (\<not> (sint (msg_token_count message) < 0 \<or> sint token_sideband_word < 0 \<or>
          sint position_sideband_word < 0)) (invalid_data ''negative wire count''))) (\<lambda>_.
        rd_bind (rd_try (checked_i32_len token_sideband_word MAX_STAGE_SIDEBAND_VALUES
          ''negative wire count'' ''token sideband count exceeds maximum'')) (\<lambda>token_sideband_count.
        rd_bind (rd_try (checked_i32_len position_sideband_word MAX_STAGE_SIDEBAND_VALUES
          ''negative wire count'' ''position sideband count exceeds maximum'')) (\<lambda>position_sideband_count.
        read_payload message token_sideband_count position_sideband_count activation_bytes))))"

definition read_stage_message_inner :: "(stage_activation_codec \<times> stage_activation_codec_policy) option \<Rightarrow>
    stage_wire_message reader" where
  "read_stage_message_inner expected_codec =
     rd_bind read_i32 (\<lambda>kind_id.
     rd_bind (rd_try (wire_message_kind_try_from kind_id)) (\<lambda>kind.
     rd_bind read_i32 (\<lambda>pos_start.
     rd_bind read_i32 (\<lambda>token_count.
     rd_bind read_i32 (\<lambda>token_sideband_word.
     rd_bind read_i32 (\<lambda>position_sideband_word.
     rd_bind read_state_header (\<lambda>state.
     rd_bind (rd_try (ensure (hd_version state = STAGE_STATE_VERSION)
       (invalid_data ''unsupported stage state version''))) (\<lambda>_.
     rd_bind read_i32 (\<lambda>activation_word.
     rd_bind (rd_try (checked_i32_len activation_word MAX_STAGE_ACTIVATION_BYTES
       ''negative activation payload byte count'' ''activation payload byte count exceeds maximum''))
       (\<lambda>activation_wire_byte_count.
     rd_bind read_u64 (\<lambda>request_id.
     rd_bind read_u64 (\<lambda>session_id.
     rd_bind (rd_try (admitted_activation_bytes expected_codec kind state activation_wire_byte_count))
       (\<lambda>activation_bytes.
     rd_bind (rd_optional (hd_flags state AND FLAG_SAMPLING \<noteq> 0) read_sampling_config) (\<lambda>sampling.
     rd_bind (rd_optional (hd_flags state AND FLAG_CHAT_SAMPLING_METADATA \<noteq> 0) read_chat_metadata)
       (\<lambda>chat_sampling_metadata.
     let message = \<lparr>msg_kind = kind, msg_pos_start = pos_start, msg_token_count = token_count,
           msg_state = state, msg_request_id = request_id, msg_session_id = session_id,
           msg_sampling = sampling, msg_chat_sampling_metadata = chat_sampling_metadata,
           msg_tokens = [], msg_positions = [], msg_activation = [], msg_raw_bytes = []\<rparr>
     in read_message_body message token_sideband_word position_sideband_word activation_bytes)))))))))))))))"

definition read_stage_message :: "i32 \<Rightarrow> stage_wire_message reader" where
  "read_stage_message n_embd = read_stage_message_inner None"

definition read_stage_message_for_codec :: "i32 \<Rightarrow> stage_activation_codec \<Rightarrow> stage_wire_message reader" where
  "read_stage_message_for_codec n_embd expected_codec = read_stage_message_inner (Some (expected_codec, Fixed))"

definition read_stage_message_for_codec_policy :: "i32 \<Rightarrow> stage_activation_codec \<Rightarrow>
    stage_activation_codec_policy \<Rightarrow> stage_wire_message reader" where
  "read_stage_message_for_codec_policy n_embd configured_codec policy =
     read_stage_message_inner (Some (configured_codec, policy))"

text \<open>The frame of a message that was read.\<close>

definition message_activation_frame :: "stage_wire_message \<Rightarrow> stage_activation_frame option io_result" where
  "message_activation_frame m =
     (if msg_activation m = [] then Inr None
      else res_bind (decode_raw_activation_frame (msg_activation m)) (\<lambda>frame. Inr (Some frame)))"

definition take_activation_frame :: "stage_wire_message \<Rightarrow>
    stage_activation_frame option io_result \<times> stage_wire_message" where
  "take_activation_frame m =
     (if msg_activation m = [] then (Inr None, m)
      else (res_bind (decode_raw_activation_frame (msg_activation m)) (\<lambda>frame. Inr (Some frame)),
            m\<lparr>msg_activation := []\<rparr>))"

end
