(* ===== verification/ActivationExact.thy ===== *)
theory ActivationExact
  imports ActivationCodec
begin

unbundle bit_operations_syntax

text \<open>
  What the payload codecs keep: sizes, the shape of what is decoded, that decoding accepts whatever
  encoding produced, and the exactness of the conversions between binary32 and the two 16-bit
  formats.
\<close>

section \<open>Loops over values\<close>

lemma collect_results_Inr:
  "collect_results f xs = Inr ys \<longleftrightarrow> list_all2 (\<lambda>x y. f x = Inr y) xs ys"
proof (induction xs arbitrary: ys)
  case Nil
  then show ?case by auto
next
  case (Cons x xs)
  then show ?case by (cases ys) (auto simp: res_bind_Inr)
qed

lemma collect_results_length: "collect_results f xs = Inr ys \<Longrightarrow> length ys = length xs"
  by (auto simp: collect_results_Inr dest: list_all2_lengthD)

lemma collect_results_map: "collect_results f (map g xs) = collect_results (\<lambda>x. f (g x)) xs"
  by (induction xs) auto

lemma collect_results_ok: "(\<And>x. x \<in> set xs \<Longrightarrow> f x = Inr (g x)) \<Longrightarrow> collect_results f xs = Inr (map g xs)"
  by (induction xs) auto

text \<open>What one loop wrote, the other loop reads, item by item.\<close>

lemma collect_results_chain:
  assumes "collect_results f xs = Inr ys"
    and "\<And>x y. x \<in> set xs \<Longrightarrow> f x = Inr y \<Longrightarrow> \<exists>z. g y = Inr z"
  shows "\<exists>zs. collect_results g ys = Inr zs"
  using assms
proof (induction xs arbitrary: ys)
  case Nil
  then show ?case by simp
next
  case (Cons x xs)
  obtain y ys' where y: "f x = Inr y" "collect_results f xs = Inr ys'" "ys = y # ys'"
    using Cons.prems(1) by (auto simp: res_bind_Inr)
  obtain z where "g y = Inr z" using Cons.prems(2) [of x y] y(1) by auto
  moreover obtain zs where "collect_results g ys' = Inr zs"
    using Cons.IH [OF y(2)] Cons.prems(2) by (meson list.set_intros(2))
  ultimately show ?case by (simp add: y(3))
qed

lemma collect_results_mem:
  "collect_results f xs = Inr ys \<Longrightarrow> y \<in> set ys \<Longrightarrow> \<exists>x \<in> set xs. f x = Inr y"
  by (induction xs arbitrary: ys) (auto simp: res_bind_Inr)

lemma as_chunks_concat_parts:
  "0 < n \<Longrightarrow> (\<And>b. b \<in> set bs \<Longrightarrow> length b = n) \<Longrightarrow> as_chunks n (concat bs) = bs"
  using as_chunks_concat [of n bs "\<lambda>b. b"] by simp

lemma length_concat_parts: "(\<And>b. b \<in> set bs \<Longrightarrow> length b = n) \<Longrightarrow> length (concat bs) = length bs * n"
  by (induction bs) auto

lemma checked_Inr: "ok_or (checked m n) e = Inr k \<longleftrightarrow> k = n \<and> n \<le> m"
  by (auto simp: checked_def)

lemma checked_wire_bytes_Inr:
  "checked_wire_bytes n k = Inr b \<longleftrightarrow> b = n * k \<and> b \<le> USIZE_MAX \<and> b \<le> MAX_STAGE_ACTIVATION_BYTES"
  by (auto simp: checked_wire_bytes_def res_bind_Inr checked_Inr simp del: ok_or_Inr)

section \<open>Sizes\<close>

lemma map_le_word_chunks:
  "length b = 4 * n \<Longrightarrow> length (map (le_word :: byte list \<Rightarrow> f32) (as_chunks 4 b)) = n"
  by (simp add: length_as_chunks)

lemma le_bytes_le_word_chunks:
  assumes "4 dvd length b"
  shows "concat (map (le_bytes 4) (map (le_word :: byte list \<Rightarrow> f32) (as_chunks 4 b))) = b"
proof -
  have "map (le_bytes 4) (map (le_word :: byte list \<Rightarrow> f32) (as_chunks 4 b)) = as_chunks 4 b"
    unfolding map_map
  proof (rule map_idI)
    fix c
    assume "c \<in> set (as_chunks 4 b)"
    then have "length c = 4" by (rule as_chunks_mem)
    then show "(le_bytes 4 \<circ> (le_word :: byte list \<Rightarrow> f32)) c = c"
      using le_bytes_le_word [of c, where 'a = 32] by simp
  qed
  then show ?thesis using assms by (simp add: concat_as_chunks)
qed

lemma chunks_le_bytes_32: "map le_word (as_chunks 4 (concat (map (le_bytes 4) vs))) = (vs :: f32 list)"
  by (simp add: as_chunks_concat o_def)

lemma encode_halves_length:
  assumes "collect_results f vs = Inr bytes" and "\<And>v b. f v = Inr b \<Longrightarrow> length b = 2"
  shows "length (concat bytes) = length vs * 2"
proof -
  have "length b = 2" if "b \<in> set bytes" for b
    using collect_results_mem [OF assms(1) that] assms(2) by blast
  then have "length (concat bytes) = length bytes * 2" by (rule length_concat_parts)
  then show ?thesis using collect_results_length [OF assms(1)] by simp
qed

lemma encode_f16_value_length: "encode_f16_value v = Inr b \<Longrightarrow> length b = 2"
  by (auto simp: encode_f16_value_def res_bind_Inr Let_def)

lemma encode_bf16_value_length: "encode_bf16_value v = Inr b \<Longrightarrow> length b = 2"
  by (auto simp: encode_bf16_value_def res_bind_Inr Let_def)

lemma encode_s8_row_length: "encode_s8_row row = Inr b \<Longrightarrow> length b = length row + 4"
  by (auto simp: encode_s8_row_def res_bind_Inr Let_def dest: collect_results_length)

lemma shape_elements_Inr:
  "shape_elements shape = Inr n \<longleftrightarrow>
   primary_rows shape + sideband_rows shape \<le> USIZE_MAX \<and> columns shape \<noteq> 0 \<and>
   n = (primary_rows shape + sideband_rows shape) * columns shape \<and> n \<le> USIZE_MAX"
  by (auto simp: shape_elements_def shape_rows_def res_bind_Inr checked_Inr simp del: ok_or_Inr)

lemma shape_rows_Inr:
  "shape_rows shape = Inr n \<longleftrightarrow>
   n = primary_rows shape + sideband_rows shape \<and> n \<le> USIZE_MAX"
  by (auto simp: shape_rows_def checked_Inr simp del: ok_or_Inr)

lemma s8_rows_length:
  assumes e: "shape_elements shape = Inr (length vs)" and r: "shape_rows shape = Inr rows"
    and b: "collect_results encode_s8_row (as_chunks (columns shape) vs) = Inr bytes"
  shows "length (concat bytes) = rows * (columns shape + 4)" and "length bytes = rows"
    and "\<forall>b \<in> set bytes. length b = columns shape + 4"
proof -
  have c: "0 < columns shape" and n: "length vs = rows * columns shape"
    using e r by (auto simp: shape_elements_Inr shape_rows_Inr)
  have l: "length b = columns shape + 4" if "b \<in> set bytes" for b
    using collect_results_mem [OF b that] as_chunks_mem encode_s8_row_length by metis
  then show "\<forall>b \<in> set bytes. length b = columns shape + 4" by blast
  show k: "length bytes = rows"
    using collect_results_length [OF b] c n by (simp add: length_as_chunks)
  show "length (concat bytes) = rows * (columns shape + 4)"
    using length_concat_parts [of bytes "columns shape + 4"] l k by simp
qed

lemma encode_activation_length:
  assumes "encode_activation codec shape vs = Inr b"
  shows "shape_elements shape = Inr (length vs) \<and> encoded_len codec shape = Inr (length b)"
proof -
  have e: "shape_elements shape = Inr (length vs)"
    using assms by (auto simp: encode_activation_def res_bind_Inr)
  obtain rows where r: "shape_rows shape = Inr rows"
    using e by (auto simp: shape_elements_def res_bind_Inr)
  have "encoded_len codec shape = Inr (length b)"
  proof (cases codec)
    case RawF32V1
    then show ?thesis using assms e r
      by (auto simp: encode_activation_def encoded_len_def encode_raw_f32_def res_bind_Inr
          checked_wire_bytes_Inr length_concat o_def sum_list_triv)
  next
    case F16RneV1
    then show ?thesis using assms e r
      by (auto simp: encode_activation_def encoded_len_def encode_f16_def res_bind_Inr
          checked_wire_bytes_Inr dest!: encode_halves_length [OF _ encode_f16_value_length])
  next
    case Bf16RneV1
    then show ?thesis using assms e r
      by (auto simp: encode_activation_def encoded_len_def encode_bf16_def res_bind_Inr
          checked_wire_bytes_Inr dest!: encode_halves_length [OF _ encode_bf16_value_length])
  next
    case S8RowF32RneV1
    obtain bytes rb w where s: "s8_row_bytes shape = Inr rb" "checked_wire_bytes rows rb = Inr w"
        "collect_results encode_s8_row (as_chunks (columns shape) vs) = Inr bytes" "b = concat bytes"
      using assms S8RowF32RneV1 e r
      by (auto simp: encode_activation_def encode_s8_rows_def res_bind_Inr)
    have rb: "rb = columns shape + 4" using s(1) by (auto simp: s8_row_bytes_def checked_Inr simp del: ok_or_Inr)
    then have "w = length b"
      using s8_rows_length(1) [OF e r s(3)] s(2,4) by (simp add: checked_wire_bytes_Inr)
    then show ?thesis using S8RowF32RneV1 r s(1,2) by (simp add: encoded_len_def)
  qed
  with e show ?thesis by simp
qed

lemma decode_activation_length:
  assumes "decode_activation codec shape b = Inr vs"
  shows "shape_elements shape = Inr (length vs) \<and> encoded_len codec shape = Inr (length b)"
proof -
  obtain n where e: "shape_elements shape = Inr n"
    using assms by (auto simp: decode_activation_def res_bind_Inr)
  obtain rows where r: "shape_rows shape = Inr rows"
    using e by (auto simp: shape_elements_def res_bind_Inr)
  have "n = length vs \<and> encoded_len codec shape = Inr (length b)"
  proof (cases codec)
    case RawF32V1
    then show ?thesis using assms e r
      by (auto simp: decode_activation_def encoded_len_def decode_raw_f32_def res_bind_Inr
          validate_payload_bytes_def checked_wire_bytes_Inr length_as_chunks)
  next
    case F16RneV1
    then show ?thesis using assms e r
      by (auto simp: decode_activation_def encoded_len_def decode_f16_def res_bind_Inr
          validate_payload_bytes_def checked_wire_bytes_Inr length_as_chunks dest!: collect_results_length)
  next
    case Bf16RneV1
    then show ?thesis using assms e r
      by (auto simp: decode_activation_def encoded_len_def decode_bf16_def res_bind_Inr
          validate_payload_bytes_def checked_wire_bytes_Inr length_as_chunks dest!: collect_results_length)
  next
    case S8RowF32RneV1
    obtain rb w rvs where s: "s8_row_bytes shape = Inr rb" "checked_wire_bytes rows rb = Inr w"
        "w = length b" "collect_results decode_s8_row (as_chunks rb b) = Inr rvs" "vs = concat rvs"
      using assms S8RowF32RneV1 e r
      by (auto simp: decode_activation_def decode_s8_rows_def validate_payload_bytes_def res_bind_Inr)
    have rb: "rb = columns shape + 4" using s(1) by (auto simp: s8_row_bytes_def checked_Inr simp del: ok_or_Inr)
    have "length x = columns shape" if x: "x \<in> set rvs" for x
    proof -
      obtain c where c: "c \<in> set (as_chunks rb b)" "decode_s8_row c = Inr x"
        using collect_results_mem [OF s(4) x] by blast
      have "length x = length (drop 4 c)"
        using c(2) by (auto simp: decode_s8_row_def Let_def res_bind_Inr dest: collect_results_length)
      then show ?thesis using as_chunks_mem [OF c(1)] rb by simp
    qed
    then have "length vs = length rvs * columns shape" unfolding s(5) by (rule length_concat_parts)
    moreover have "length rvs = rows"
      using collect_results_length [OF s(4)] s(2,3) rb by (simp add: length_as_chunks checked_wire_bytes_Inr)
    ultimately have "n = length vs" using e r by (simp add: shape_elements_Inr shape_rows_Inr)
    moreover have "encoded_len codec shape = Inr (length b)"
      using S8RowF32RneV1 r s(1-3) by (simp add: encoded_len_def)
    ultimately show ?thesis by simp
  qed
  with e show ?thesis by simp
qed

section \<open>Decoding accepts what encoding produced\<close>

lemma decode_activation_raw:
  assumes "encode_activation RawF32V1 shape vs = Inr b"
  shows "decode_activation RawF32V1 shape b = Inr vs"
proof -
  have "checked_wire_bytes (length vs) 4 = Inr (length vs * 4)" and "b = concat (map (le_bytes 4) vs)"
    and "shape_elements shape = Inr (length vs)" and "\<exists>n. validate_decoded_limit shape = Inr n"
    using assms by (auto simp: encode_activation_def encode_raw_f32_def res_bind_Inr checked_wire_bytes_Inr)
  then show ?thesis
    by (auto simp: decode_activation_def decode_raw_f32_def validate_payload_bytes_def length_concat
        o_def sum_list_triv as_chunks_concat)
qed

lemma decode_halves_accept:
  assumes enc: "collect_results f vs = Inr bytes"
    and len: "\<And>v b. f v = Inr b \<Longrightarrow> length b = 2"
    and ok: "\<And>v b. f v = Inr b \<Longrightarrow> \<exists>x. g b = Inr x"
  shows "\<exists>xs. collect_results g (as_chunks 2 (concat bytes)) = Inr xs"
proof -
  have "as_chunks 2 (concat bytes) = bytes"
    using collect_results_mem [OF enc] len by (intro as_chunks_concat_parts) auto
  moreover have "\<exists>xs. collect_results g bytes = Inr xs"
    by (rule collect_results_chain [OF enc]) (rule ok)
  ultimately show ?thesis by simp
qed

lemma decode_f16_value_accept: "encode_f16_value v = Inr b \<Longrightarrow> \<exists>x. decode_half f16_bits_to_f32 b = Inr x"
  by (auto simp: encode_f16_value_def decode_half_def res_bind_Inr Let_def)

lemma decode_bf16_value_accept: "encode_bf16_value v = Inr b \<Longrightarrow> \<exists>x. decode_half bf16_bits_to_f32 b = Inr x"
  by (auto simp: encode_bf16_value_def decode_half_def res_bind_Inr Let_def)

lemma sint_round_to_even_i8: "sint (round_to_even_i8 x) \<in> {- 127..127}"
proof -
  have "sint (word_of_int (max (- 127) (min 127 k)) :: byte) = max (- 127) (min 127 k)" for k
    by (simp add: signed_of_int signed_take_bit_int_eq_self)
  then show ?thesis by (auto simp: round_to_even_i8_def Let_def)
qed

lemma decode_s8_value_accept:
  "encode_s8_value scale v = Inr q \<Longrightarrow> \<exists>x. decode_s8_value scale q = Inr x"
  using sint_round_to_even_i8 [of "f64_round (f32_value v / f32_value scale)"]
  by (auto simp: encode_s8_value_def decode_s8_value_def res_bind_Inr Let_def)

lemma decode_s8_row_accept:
  assumes "encode_s8_row row = Inr b"
  shows "\<exists>x. decode_s8_row b = Inr x"
proof -
  obtain scale bytes where s: "s8_scale_ok scale" "collect_results (encode_s8_value scale) row = Inr bytes"
      "b = le_bytes 4 scale @ bytes"
    using assms by (auto simp: encode_s8_row_def Let_def res_bind_Inr)
  have "\<exists>x. collect_results (decode_s8_value scale) bytes = Inr x"
    by (rule collect_results_chain [OF s(2)]) (rule decode_s8_value_accept)
  then obtain x where "collect_results (decode_s8_value scale) bytes = Inr x" ..
  then show ?thesis using s(1,3) by (simp add: decode_s8_row_def Let_def)
qed

lemma decode_activation_accept:
  assumes "encode_activation codec shape vs = Inr b"
  shows "\<exists>xs. decode_activation codec shape b = Inr xs"
proof -
  note l = encode_activation_length [OF assms]
  have v: "\<exists>n. validate_decoded_limit shape = Inr n"
    using assms by (auto simp: encode_activation_def res_bind_Inr)
  obtain rows where r: "shape_rows shape = Inr rows"
    using l by (auto simp: shape_elements_def res_bind_Inr)
  show ?thesis
  proof (cases codec)
    case RawF32V1
    then show ?thesis using assms decode_activation_raw by blast
  next
    case F16RneV1
    then obtain bytes where e: "collect_results encode_f16_value vs = Inr bytes" and b: "b = concat bytes"
      using assms by (auto simp: encode_activation_def encode_f16_def res_bind_Inr)
    have "\<exists>xs. collect_results (decode_half f16_bits_to_f32) (as_chunks 2 (concat bytes)) = Inr xs"
      by (rule decode_halves_accept [OF e]) (rule encode_f16_value_length decode_f16_value_accept, assumption)+
    then obtain xs where "collect_results (decode_half f16_bits_to_f32) (as_chunks 2 b) = Inr xs"
      unfolding b ..
    then show ?thesis using F16RneV1 l v r
      by (auto simp: decode_activation_def decode_f16_def encoded_len_def validate_payload_bytes_def)
  next
    case Bf16RneV1
    then obtain bytes where e: "collect_results encode_bf16_value vs = Inr bytes" and b: "b = concat bytes"
      using assms by (auto simp: encode_activation_def encode_bf16_def res_bind_Inr)
    have "\<exists>xs. collect_results (decode_half bf16_bits_to_f32) (as_chunks 2 (concat bytes)) = Inr xs"
      by (rule decode_halves_accept [OF e]) (rule encode_bf16_value_length decode_bf16_value_accept, assumption)+
    then obtain xs where "collect_results (decode_half bf16_bits_to_f32) (as_chunks 2 b) = Inr xs"
      unfolding b ..
    then show ?thesis using Bf16RneV1 l v r
      by (auto simp: decode_activation_def decode_bf16_def encoded_len_def validate_payload_bytes_def)
  next
    case S8RowF32RneV1
    obtain bytes rb w where s: "s8_row_bytes shape = Inr rb" "checked_wire_bytes rows rb = Inr w"
        "collect_results encode_s8_row (as_chunks (columns shape) vs) = Inr bytes" "b = concat bytes"
      using assms S8RowF32RneV1 l r
      by (auto simp: encode_activation_def encode_s8_rows_def res_bind_Inr)
    have rb: "rb = columns shape + 4" using s(1) by (auto simp: s8_row_bytes_def checked_Inr simp del: ok_or_Inr)
    note len = s8_rows_length [OF l [THEN conjunct1] r s(3)]
    have "as_chunks rb b = bytes" unfolding s(4) rb using len(3) by (intro as_chunks_concat_parts) auto
    moreover have "\<exists>xs. collect_results decode_s8_row bytes = Inr xs"
      by (rule collect_results_chain [OF s(3)]) (rule decode_s8_row_accept)
    moreover have "w = length b" using len(1) s(2,4) rb by (simp add: checked_wire_bytes_Inr)
    ultimately show ?thesis using S8RowF32RneV1 l v r s(1,2)
      by (auto simp: decode_activation_def decode_s8_rows_def validate_payload_bytes_def)
  qed
qed

section \<open>The 16-bit formats are exact on their own values\<close>

lemma bit_masks:
  "bit (0x8000 :: int) n \<longleftrightarrow> n = 15"
  "bit (0x400 :: int) n \<longleftrightarrow> n = 10"
  using bit_exp_iff [of 15 n, where 'a = int] bit_exp_iff [of 10 n, where 'a = int] by auto

lemma bf16_exact: "f32_to_bf16_bits (bf16_bits_to_f32 h) = h"
proof -
  define u k where u: "u = (ucast h :: u32)" and k: "k = 0x7FFF + (drop_bit 16 (push_bit 16 u) AND 1)"
  have hu: "unat u < 65536" using unsigned_less [of h, where 'a = nat] by (simp add: u unsigned_ucast_eq take_bit_nat_eq_self)
  have "drop_bit 16 (push_bit 16 u) AND 1 = 0 \<or> drop_bit 16 (push_bit 16 u) AND (1 :: u32) = 1"
    by (simp add: and_one_eq mod_2_eq_odd)
  then have "k = 0x7FFF \<or> k = 0x8000" by (auto simp: k)
  then have hk: "unat k < 65536" by auto
  have p: "unat (push_bit 16 u) = unat u * 65536"
    using hu by (simp add: push_bit_eq_mult unat_mult_lem [THEN iffD1])
  have "unat (push_bit 16 u + k) = unat u * 65536 + unat k"
    using hu hk p by (subst unat_add_lem [THEN iffD1]) simp_all
  then have "unat (drop_bit 16 (push_bit 16 u + k)) = unat u"
    using hk by (simp add: drop_bit_eq_div unat_div_distrib)
  then have "drop_bit 16 (push_bit 16 u + k) = u" by (simp add: word_unat_eq_iff)
  moreover have "ucast (ucast h :: u32) = h" by (intro bit_word_eqI) (auto simp: bit_simps)
  ultimately show ?thesis by (simp add: f32_to_bf16_bits_def bf16_bits_to_f32_def Let_def u k)
qed

lemma f32_fields:
  fixes b :: u16
  assumes E: "E AND mask 8 = (E :: u32)" and X: "X AND mask 23 = (X :: u32)"
  defines "F \<equiv> push_bit 16 (ucast (b AND 0x8000 :: u16)) OR push_bit 23 E OR X"
  shows "ucast (drop_bit 16 F AND 0x8000) = b AND 0x8000"
    and "drop_bit 23 F AND 0xFF = E" and "F AND 0x7FFFFF = X"
proof -
  have c: "(0xFF :: u32) = mask 8" "(0x7FFFFF :: u32) = mask 23"
    by (simp_all add: mask_eq_exp_minus_1)
  have e: "bit E n \<Longrightarrow> n < 8" for n
    by (subst (asm) E [symmetric]) (simp add: bit_simps)
  have x: "bit X n \<Longrightarrow> n < 23" for n
    by (subst (asm) X [symmetric]) (simp add: bit_simps)
  show "ucast (drop_bit 16 F AND 0x8000) = b AND 0x8000"
    unfolding F_def c by (intro bit_word_eqI) (auto simp: bit_simps bit_masks dest: e x)
  show "drop_bit 23 F AND 0xFF = E"
    unfolding F_def c by (intro bit_word_eqI) (auto simp: bit_simps bit_masks dest: e x)
  show "F AND 0x7FFFFF = X"
    unfolding F_def c by (intro bit_word_eqI) (auto simp: bit_simps bit_masks dest: e x)
qed

lemma f16_fields:
  "(b :: u16) AND 0x8000 OR push_bit 10 (drop_bit 10 b AND 0x1F) OR ucast (ucast (b AND 0x3FF) :: u32) = b"
proof -
  have c: "(0x1F :: u16) = mask 5" "(0x3FF :: u16) = mask 10"
    by (simp_all add: mask_eq_exp_minus_1)
  show ?thesis
    unfolding c
  proof (rule bit_word_eqI)
    fix n
    assume "n < LENGTH(16)"
    then show "bit (b AND 0x8000 OR push_bit 10 (drop_bit 10 b AND mask 5) OR
        ucast (ucast (b AND mask 10) :: u32)) n \<longleftrightarrow> bit b n"
      by (auto simp: bit_simps bit_masks)
  qed
qed

lemma highest_bit:
  assumes "(m :: 'a::len word) \<noteq> 0"
  shows "\<exists>j. bit m j \<and> (\<forall>i. j < i \<longrightarrow> \<not> bit m i)"
proof -
  have fin: "finite {i. bit m i}"
    by (rule finite_subset [of _ "{..<LENGTH('a)}"]) (auto dest: bit_imp_le_length)
  have "{i. bit m i} \<noteq> {}" using assms by (auto simp: bit_eq_iff)
  then have "bit m (Max {i. bit m i})" using Max_in [OF fin] by blast
  moreover have "\<not> bit m i" if "Max {i. bit m i} < i" for i
    using Max_ge [OF fin, of i] that by (auto simp: not_le [symmetric])
  ultimately show ?thesis by blast
qed

lemma f16_normalize_steps:
  assumes "bit m (10 - d)" and "d \<le> 10" and "\<forall>i. 10 - d < i \<longrightarrow> \<not> bit m i" and "d \<le> fuel"
  shows "f16_normalize fuel m e = Some (push_bit d m, e - int d)"
  using assms
proof (induction d arbitrary: m e fuel)
  case 0
  have "m AND 0x400 \<noteq> 0"
  proof
    assume z: "m AND 0x400 = 0"
    have "bit (m AND 0x400) 10" using 0(1) by (simp add: bit_simps bit_masks)
    then show False by (simp add: z)
  qed
  then show ?case by (cases fuel) simp_all
next
  case (Suc d)
  obtain f where f: "fuel = Suc f" using Suc.prems(4) by (cases fuel) auto
  have "\<not> bit m 10" using Suc.prems(2,3) by auto
  then have z: "m AND 0x400 = 0" by (intro bit_word_eqI) (auto simp: bit_simps bit_masks)
  have "f16_normalize f (push_bit 1 m) (e - 1) = Some (push_bit d (push_bit 1 m), e - 1 - int d)"
  proof (rule Suc.IH)
    have "10 - d - 1 = 10 - Suc d" by simp
    then show "bit (push_bit 1 m) (10 - d)"
      using Suc.prems(1,2) by (subst bit_push_bit_iff) auto
    show "d \<le> 10" "d \<le> f" using Suc.prems(2,4) f by simp_all
    show "\<forall>i. 10 - d < i \<longrightarrow> \<not> bit (push_bit 1 m) i"
    proof (intro allI impI notI)
      fix i
      assume i: "10 - d < i" "bit (push_bit 1 m) i"
      then have "bit m (i - 1)" by (subst (asm) bit_push_bit_iff) simp
      then show False using Suc.prems(2,3) i(1) by auto
    qed
  qed
  then show ?case using z by (simp add: f push_bit_push_bit)
qed


lemma f16_normalize_total:
  assumes "m \<noteq> 0" and "m AND mask 10 = m"
  obtains d where "1 \<le> d" "d \<le> 10" "bit m (10 - d)" "\<forall>i. 10 - d < i \<longrightarrow> \<not> bit m i"
    "\<And>e. f16_normalize 10 m e = Some (push_bit d m, e - int d)"
proof -
  obtain j where j: "bit m j" "\<forall>i. j < i \<longrightarrow> \<not> bit m i" using highest_bit [OF assms(1)] by blast
  have "j < 10" using j(1) by (subst (asm) assms(2) [symmetric]) (simp add: bit_simps)
  then have d: "10 - (10 - j) = j" "1 \<le> 10 - j" by simp_all
  show thesis
    by (rule that [of "10 - j"]) (use d j f16_normalize_steps [of m "10 - j" 10] in auto)
qed

lemma half_normal:
  fixes e b :: u16
  assumes e5: "e AND mask 5 = e" and e0: "e \<noteq> 0" and e31: "e \<noteq> 0x1F" and M: "M AND mask 10 = (M :: u32)"
  shows "f32_to_f16_bits (push_bit 16 (ucast (b AND 0x8000)) OR push_bit 23 (ucast e + 112) OR push_bit 13 M) =
    b AND 0x8000 OR push_bit 10 e OR ucast M"
proof -
  let ?E = "ucast e + 112 :: u32" and ?X = "push_bit 13 M"
  have "uint e \<noteq> 31" "uint e \<noteq> 0" using e0 e31 by (auto simp: word_uint_eq_iff)
  moreover have "uint e < 32" using e5 by (simp add: mask_eq_iff)
  moreover have "0 \<le> uint e" by (rule unsigned_greater_eq)
  ultimately have u: "0 < uint e" "uint e < 31" by linarith+
  have uc: "uint (ucast e :: u32) = uint e" using u by (simp add: unsigned_ucast_eq take_bit_int_eq_self)
  have uE: "uint ?E = uint e + 112"
    using u uc by (simp add: uint_word_ariths)
  have E: "?E AND mask 8 = ?E" using u by (simp add: mask_eq_iff uE)
  have m10: "bit M n \<Longrightarrow> n < 10" for n by (subst (asm) M [symmetric]) (simp add: bit_simps)
  have X: "?X AND mask 23 = ?X" by (intro bit_word_eqI) (auto simp: bit_simps dest: m10)
  have rem: "?X AND 0x1FFF = 0"
  proof -
    have c: "(0x1FFF :: u32) = mask 13" by (simp add: mask_eq_exp_minus_1)
    show ?thesis unfolding c by (intro bit_word_eqI) (auto simp: bit_simps)
  qed
  have half: "drop_bit 13 ?X = M" by (intro bit_word_eqI) (auto simp: bit_simps dest: m10)
  have E0: "?E \<noteq> 0" "?E \<noteq> 0xFF" using uE u by (auto simp: word_uint_eq_iff)
  have we: "word_of_int (uint e) = e" by simp
  note f = f32_fields [OF E X, of b]
  show ?thesis
    unfolding f32_to_f16_bits_def Let_def f rem half
    using E0 u by (simp add: uE we or.assoc)
qed

lemma half_subnormal:
  fixes b :: u16
  assumes M: "M AND mask 10 = (M :: u32)" and d: "1 \<le> d" "d \<le> 10"
    and hi: "bit M (10 - d)" "\<forall>i. 10 - d < i \<longrightarrow> \<not> bit M i"
  shows "f32_to_f16_bits (push_bit 16 (ucast (b AND 0x8000)) OR
      push_bit 23 (word_of_int (- 14 - int d + 127)) OR push_bit 13 (push_bit d M AND 0x03FF)) =
    b AND 0x8000 OR ucast M"
proof -
  let ?E = "word_of_int (- 14 - int d + 127) :: u32" and ?X = "push_bit 13 (push_bit d M AND 0x03FF)"
  have uw: "uint (word_of_int k :: u32) = k" if "0 \<le> k" "k < 256" for k
    using that by (simp add: uint_word_of_int_eq take_bit_int_eq_self)
  have uE: "uint ?E = 113 - int d" using d uw [of "- 14 - int d + 127"] by linarith
  have E: "?E AND mask 8 = ?E" unfolding mask_eq_iff uE using d by simp
  have c: "(0x03FF :: u32) = mask 10" by (simp add: mask_eq_exp_minus_1)
  have X: "?X AND mask 23 = ?X" unfolding c by (intro bit_word_eqI) (auto simp: bit_simps)
  have E0: "?E \<noteq> 0" "?E \<noteq> 0xFF" using uE d by (auto simp: word_uint_eq_iff)
  have h: "uint ?E - 127 + 15 = 1 - int d" unfolding uE by simp
  have sh: "nat (14 - (1 - int d)) = 13 + d" by simp
  have full: "?X OR 0x800000 = push_bit (13 + d) M"
  proof -
    have k: "bit (0x800000 :: int) n \<longleftrightarrow> n = 23" for n using bit_exp_iff [of 23 n, where 'a = int] by simp
    show ?thesis unfolding c
    proof (rule bit_word_eqI)
      fix n
      assume n: "n < LENGTH(32)"
      have a: "bit ?X n \<longleftrightarrow> 13 \<le> n \<and> n < 23 \<and> d \<le> n - 13 \<and> bit M (n - 13 - d)" using n by (auto simp: bit_simps c)
      have r: "bit (push_bit (13 + d) M) n \<longleftrightarrow> 13 + d \<le> n \<and> bit M (n - 13 - d)" using n by (auto simp: bit_simps)
      have t: "23 < n \<Longrightarrow> 13 + d \<le> n \<Longrightarrow> \<not> bit M (n - 13 - d)"
        using hi(2) [rule_format, of "n - 13 - d"] d by auto
      have s: "13 + d \<le> 23" "bit M (23 - 13 - d)" using d hi(1) by simp_all
      show "bit (push_bit 13 (push_bit d M AND mask 10) OR 0x800000) n \<longleftrightarrow> bit (push_bit (13 + d) M) n"
        using a r t s n by (cases n "23::nat" rule: linorder_cases) (auto simp: bit_or_iff k c)
    qed
  qed
  have m10: "bit M n \<Longrightarrow> n \<le> 10 - d" for n using hi(2) by (meson not_le)
  have half: "drop_bit (13 + d) (push_bit (13 + d) M) = M"
    using d by (intro bit_word_eqI) (auto simp: bit_simps dest: m10)
  have rem: "push_bit (13 + d) M AND (push_bit (13 + d) 1 - 1) = 0"
  proof -
    have "push_bit (13 + d) 1 - 1 = (mask (13 + d) :: u32)" by (simp add: mask_eq_exp_minus_1 push_bit_eq_mult)
    then show ?thesis by (intro bit_word_eqI) (auto simp: bit_simps)
  qed
  note f = f32_fields [OF E X, of b]
  have "bit (push_bit (13 + d - 1) (1 :: u32)) (13 + d - 1)"
    using d by (subst bit_push_bit_iff) auto
  then have g: "push_bit (13 + d - 1) (1 :: u32) \<noteq> 0" by (metis bit_0_eq bot_apply bot_bool_def)
  show ?thesis
    unfolding f32_to_f16_bits_def Let_def f h sh full half rem
    using E0 d g by simp
qed

lemma f16_exact:
  assumes "drop_bit 10 b AND 0x1F \<noteq> 0x1F"
  shows "f32_to_f16_bits (f16_bits_to_f32 b) = b"
proof -
  define e where "e = drop_bit 10 b AND 0x1F"
  define M where "M = (ucast (b AND 0x03FF) :: u32)"
  have c: "(0x1F :: u16) = mask 5" "(0x3FF :: u16) = mask 10" by (simp_all add: mask_eq_exp_minus_1)
  have e5: "e AND mask 5 = e" unfolding e_def c by (intro bit_word_eqI) (auto simp: bit_simps)
  have M10: "M AND mask 10 = M" unfolding M_def c by (intro bit_word_eqI) (auto simp: bit_simps)
  have b: "b AND 0x8000 OR push_bit 10 e OR ucast M = b" using f16_fields [of b] by (simp add: e_def M_def)
  note z = f32_fields [of 0 0 b, simplified]
  consider "e = 0" "M = 0" | "e = 0" "M \<noteq> 0" | "e \<noteq> 0" by blast
  then show ?thesis
  proof cases
    case 1
    have "f32_to_f16_bits (push_bit 16 (ucast (b AND 0x8000))) = b AND 0x8000"
      unfolding f32_to_f16_bits_def Let_def using z by simp
    then show ?thesis using b 1 by (simp add: f16_bits_to_f32_def e_def [symmetric] M_def [symmetric] Let_def)
  next
    case 2
    obtain d where d: "1 \<le> d" "d \<le> 10" "bit M (10 - d)" "\<forall>i. 10 - d < i \<longrightarrow> \<not> bit M i"
        "\<And>e. f16_normalize 10 M e = Some (push_bit d M, e - int d)"
      using f16_normalize_total [OF 2(2) M10] by blast
    show ?thesis
      using half_subnormal [OF M10 d(1-4), of b] b 2 d(5)
      by (simp add: f16_bits_to_f32_def e_def [symmetric] M_def [symmetric] Let_def or.assoc)
  next
    case 3
    show ?thesis
      using half_normal [OF e5 3 _ M10, of b] b 3 assms
      by (simp add: f16_bits_to_f32_def e_def [symmetric] M_def [symmetric] Let_def or.assoc)
  qed
qed

end
