(* ===== verification/FrameProps.thy ===== *)
theory FrameProps
  imports ActivationFrame ActivationExact
begin

unbundle bit_operations_syntax

text \<open>
  Activation frames are self-describing: a descriptor that passes validation lays its parts one
  after another over the payload, its wire form is read back, and a frame that was encoded decodes
  to the same descriptor and, when the codec restores each float part, to the same payload.
\<close>

section \<open>The layout a valid descriptor gives\<close>

fun parts_layout :: "nat \<Rightarrow> stage_activation_part_desc list \<Rightarrow> nat \<Rightarrow> bool" where
  "parts_layout offset [] final \<longleftrightarrow> offset = final"
| "parts_layout offset (part # parts) final \<longleftrightarrow>
     unat (pd_payload_offset part) = offset \<and>
     (pd_ggml_type part = GGML_TYPE_F32 \<longrightarrow> 4 dvd unat (pd_payload_bytes part)) \<and>
     parts_layout (offset + unat (pd_payload_bytes part)) parts final"

lemma validate_part_layout:
  assumes "validate_part desc before part offset = Inr next_offset"
  shows "unat (pd_payload_offset part) = offset \<and>
    next_offset = offset + unat (pd_payload_bytes part) \<and>
    (pd_ggml_type part = GGML_TYPE_F32 \<longrightarrow> 4 dvd unat (pd_payload_bytes part))"
proof -
  obtain eb el pb where "ggml_type_bytes (pd_ggml_type part) = Inr eb" "pb = el * eb"
      "unat (pd_payload_offset part) = offset" "unat (pd_payload_bytes part) = pb"
      "next_offset = offset + pb"
    using assms unfolding validate_part_def Let_def
    by (auto simp: res_bind_Inr checked_Inr simp del: ok_or_Inr)
  then show ?thesis by (auto simp: ggml_type_bytes_def split: if_splits)
qed

lemma validate_parts_layout:
  "validate_parts desc before parts offset = Inr final \<Longrightarrow> parts_layout offset parts final"
proof (induction desc before parts offset rule: validate_parts.induct)
  case (1 desc before offset)
  then show ?case by simp
next
  case (2 desc before part parts offset)
  then obtain k where k: "validate_part desc before part offset = Inr k"
      "validate_parts desc (before @ [part]) parts k = Inr final"
    by (auto simp: res_bind_Inr)
  then show ?case using 2(1) [OF k] validate_part_layout [OF k(1)] by simp
qed

lemma validate_descriptor_layout:
  assumes "validate_descriptor desc p = Inr ()"
  shows "ad_version desc = STAGE_ACTIVATION_FRAME_VERSION \<and> ad_parts desc \<noteq> [] \<and>
    length (ad_parts desc) \<le> MAX_STAGE_ACTIVATION_PARTS \<and>
    unat (ad_payload_bytes desc) \<le> MAX_STAGE_DECODED_ACTIVATION_BYTES \<and>
    parts_layout 0 (ad_parts desc) (unat (ad_payload_bytes desc)) \<and>
    (\<forall>n. p = Some n \<longrightarrow> n = unat (ad_payload_bytes desc))"
  using assms unfolding validate_descriptor_def
  by (auto simp: res_bind_Inr Let_def dest!: validate_parts_layout)

lemma validate_descriptor_None:
  "validate_descriptor desc (Some n) = Inr () \<longleftrightarrow>
   validate_descriptor desc None = Inr () \<and> n = unat (ad_payload_bytes desc)"
  unfolding validate_descriptor_def by (auto simp: res_bind_Inr Let_def)

lemma parts_layout_le: "parts_layout offset parts final \<Longrightarrow> offset \<le> final"
  by (induction offset parts final rule: parts_layout.induct) auto

lemma part_payload_in:
  assumes "parts_layout offset (part # parts) (length payload)" and "length payload \<le> USIZE_MAX"
  shows "part_payload part payload = Inr (take (unat (pd_payload_bytes part)) (drop offset payload))"
    and "offset + unat (pd_payload_bytes part) \<le> length payload"
  using assms parts_layout_le [of "offset + unat (pd_payload_bytes part)" parts "length payload"]
  by (simp_all add: part_payload_def Let_def checked_def)

text \<open>The parts partition the payload.\<close>

fun part_slices :: "nat \<Rightarrow> stage_activation_part_desc list \<Rightarrow> byte list \<Rightarrow> byte list list" where
  "part_slices offset [] payload = []"
| "part_slices offset (part # parts) payload =
     take (unat (pd_payload_bytes part)) (drop offset payload) #
     part_slices (offset + unat (pd_payload_bytes part)) parts payload"

lemma concat_part_slices:
  "parts_layout offset parts (length payload) \<Longrightarrow> concat (part_slices offset parts payload) = drop offset payload"
proof (induction offset parts payload rule: part_slices.induct)
  case (2 offset part parts payload)
  then have "concat (part_slices offset (part # parts) payload) =
      take (unat (pd_payload_bytes part)) (drop offset payload) @
      drop (unat (pd_payload_bytes part)) (drop offset payload)"
    by (simp add: add.commute)
  then show ?case by (simp only: append_take_drop_id)
qed simp

section \<open>Descriptors are read back\<close>

lemma read_i64_repeat_step [rd_steps]:
  "n = length xs \<Longrightarrow> rd_bind (rd_repeat n read_i64) f (concat (map (le_bytes 8) xs) @ r) = f xs r"
  by (induction xs arbitrary: n f) (simp_all add: rd_bind_assoc rd_steps)

lemma read_u64_repeat_step [rd_steps]:
  "n = length xs \<Longrightarrow> rd_bind (rd_repeat n read_u64) f (concat (map (le_bytes 8) xs) @ r) = f xs r"
  by (induction xs arbitrary: n f) (simp_all add: rd_bind_assoc rd_steps)

lemma read_part_descriptor_append:
  "part_arrays part \<Longrightarrow> read_part_descriptor (write_part_descriptor part @ r) = Inr (part, r)"
  by (simp add: part_arrays_def read_part_descriptor_def write_part_descriptor_def rd_steps)

lemma read_part_descriptor_delimiting [delimiting]: "self_delimiting read_part_descriptor"
  unfolding read_part_descriptor_def by (intro delimiting)

interpretation part_format: delimited_format write_part_descriptor read_part_descriptor part_arrays
  by unfold_locales (simp_all add: read_part_descriptor_append delimiting)

lemma length_write_part_descriptor: "part_arrays part \<Longrightarrow> length (write_part_descriptor part) = PART_HEADER_BYTES"
  by (simp add: part_arrays_def write_part_descriptor_def PART_HEADER_BYTES_def length_concat o_def
      sum_list_triv MAX_STAGE_ACTIVATION_DIMS_def STAGE_ACTIVATION_IDENTITY_BYTES_def)

lemma write_descriptor_Inr:
  assumes "write_descriptor desc = Inr header" and "desc_arrays desc"
  shows "length header = FRAME_FIXED_HEADER_BYTES + length (ad_parts desc) * PART_HEADER_BYTES"
proof -
  have "length b = PART_HEADER_BYTES" if "b \<in> set (map write_part_descriptor (ad_parts desc))" for b
    using that assms(2) by (auto simp: desc_arrays_def list_all_iff length_write_part_descriptor)
  from length_concat_parts [of "map write_part_descriptor (ad_parts desc)", OF this]
  have "length (concat (map write_part_descriptor (ad_parts desc))) = length (ad_parts desc) * PART_HEADER_BYTES"
    by simp
  then show ?thesis
    using assms by (auto simp: write_descriptor_def res_bind_Inr desc_arrays_def FRAME_FIXED_HEADER_BYTES_def
        STAGE_ACTIVATION_IDENTITY_BYTES_def)
qed

lemma read_descriptor_append:
  assumes w: "write_descriptor desc = Inr header" and a: "desc_arrays desc"
    and n: "ad_parts desc \<noteq> []" "length (ad_parts desc) \<le> MAX_STAGE_ACTIVATION_PARTS"
  shows "read_descriptor_fields (header @ r) = Inr (desc, r)"
proof -
  have h: "header = le_bytes 4 (ad_version desc) @ le_bytes 4 (ad_producer_stage_index desc) @
        le_bytes 4 (ad_layer_start desc) @ le_bytes 4 (ad_layer_end desc) @
        le_bytes 4 (ad_token_count desc) @ le_bytes 4 (ad_sequence_count desc) @
        le_bytes 4 (word_of_nat (length (ad_parts desc)) :: u32) @ le_bytes 8 (ad_payload_bytes desc) @
        ad_frontier_identity desc @ concat (map write_part_descriptor (ad_parts desc))"
    using w by (auto simp: write_descriptor_def res_bind_Inr checked_Inr simp del: ok_or_Inr)
  have u: "unat (word_of_nat (length (ad_parts desc)) :: u32) = length (ad_parts desc)"
    using n(2) by (intro unat_word_of_nat_32) (simp add: MAX_STAGE_ACTIVATION_PARTS_def)
  have p: "rd_bind (rd_repeat (length (ad_parts desc)) read_part_descriptor) f
      (concat (map write_part_descriptor (ad_parts desc)) @ r) = f (ad_parts desc) r" for f :: "_ \<Rightarrow> 'b reader"
    using part_format.repeat_enc [of "ad_parts desc" r] a
    by (simp add: rd_bind_def desc_arrays_def list_all_iff)
  show ?thesis
    using n a by (simp add: h read_descriptor_fields_def rd_steps u p desc_arrays_def not_less)
qed

lemma read_repeat_all:
  assumes "rd_repeat n p s = Inr (xs, r)" and "\<And>s x r. p s = Inr (x, r) \<Longrightarrow> P x"
  shows "length xs = n \<and> list_all P xs"
  using assms(1)
proof (induction n arbitrary: s xs)
  case 0
  then show ?case by (simp add: rd_ok_app)
next
  case (Suc n)
  obtain x s' ys where "p s = Inr (x, s')" "rd_repeat n p s' = Inr (ys, r)" "xs = x # ys"
    using Suc.prems by (auto simp: rd_bind_Inr rd_ok_app)
  then show ?case using Suc.IH [of s' ys] assms(2) by simp
qed

lemma read_part_descriptor_arrays: "read_part_descriptor s = Inr (part, r) \<Longrightarrow> part_arrays part"
  unfolding read_part_descriptor_def
  by (auto simp: rd_bind_Inr rd_ok_app part_arrays_def read_exact_Inr dest!: read_repeat_all [where P = "\<lambda>_. True"])

lemma read_descriptor_arrays: "read_descriptor_fields s = Inr (desc, r) \<Longrightarrow> desc_arrays desc"
  unfolding read_descriptor_fields_def
  by (auto simp: rd_bind_Inr rd_ok_app desc_arrays_def read_exact_Inr
      dest!: read_repeat_all [where P = part_arrays and p = read_part_descriptor, OF _ read_part_descriptor_arrays])

section \<open>Encoded frames\<close>

lemma part_shape_elements:
  assumes "part_shape part = Inr shape"
  shows "columns shape \<noteq> 0 \<and> (primary_rows shape + sideband_rows shape) * columns shape =
    unat (pd_payload_bytes part) div 4"
  using assms by (auto simp: part_shape_def Let_def res_bind_Inr activation_shape_new_def)

lemma encode_part_length:
  assumes "encode_part codec payload part = Inr b"
    and "part_payload part payload = Inr seg" and "length seg = unat (pd_payload_bytes part)"
  shows "part_wire_bytes codec part = Inr (length b)"
proof (cases "pd_ggml_type part = GGML_TYPE_F32")
  case True
  then obtain shape where s: "part_shape part = Inr shape"
      "encode_activation codec shape (map le_word (as_chunks 4 seg)) = Inr b"
    using assms(1,2) by (auto simp: encode_part_def res_bind_Inr)
  then show ?thesis using True encode_activation_length [OF s(2)] by (simp add: part_wire_bytes_def)
next
  case False
  then show ?thesis using assms by (auto simp: encode_part_def part_wire_bytes_def)
qed

lemma encode_parts_wire:
  assumes "collect_results (encode_part codec payload) parts = Inr bs"
    and "parts_layout offset parts (length payload)" and "length payload \<le> USIZE_MAX"
    and "add_part_wire_bytes codec parts t = Inr t'"
  shows "t' = t + length (concat bs) \<and> t' \<le> max t USIZE_MAX"
  using assms(1,2,4)
proof (induction parts arbitrary: bs offset t)
  case Nil
  then show ?case by simp
next
  case (Cons part parts)
  obtain b bs' where b: "encode_part codec payload part = Inr b"
      "collect_results (encode_part codec payload) parts = Inr bs'" "bs = b # bs'"
    using Cons.prems(1) by (auto simp: res_bind_Inr)
  note pay = part_payload_in [OF Cons.prems(2) assms(3)]
  have "part_wire_bytes codec part = Inr (length b)"
    using encode_part_length [OF b(1) pay(1)] pay(2) by simp
  then have t: "add_part_wire_bytes codec parts (t + length b) = Inr t'" "t + length b \<le> USIZE_MAX"
    using Cons.prems(3) by (auto simp: res_bind_Inr checked_Inr simp del: ok_or_Inr)
  have lay: "parts_layout (offset + unat (pd_payload_bytes part)) parts (length payload)"
    using Cons.prems(2) by simp
  show ?case using Cons.IH [OF b(2) lay t(1)] t(2) b(3) by simp
qed

lemma activation_frame_wire_bytes_Inr:
  "activation_frame_wire_bytes codec desc = Inr n \<longleftrightarrow>
   validate_descriptor desc None = Inr () \<and>
   add_part_wire_bytes codec (ad_parts desc)
     (FRAME_FIXED_HEADER_BYTES + length (ad_parts desc) * PART_HEADER_BYTES) = Inr n \<and>
   length (ad_parts desc) * PART_HEADER_BYTES \<le> USIZE_MAX \<and>
   FRAME_FIXED_HEADER_BYTES + length (ad_parts desc) * PART_HEADER_BYTES \<le> USIZE_MAX \<and>
   n \<le> MAX_STAGE_ACTIVATION_BYTES"
  unfolding activation_frame_wire_bytes_def
  by (auto simp: res_bind_Inr checked_Inr simp del: ok_or_Inr)

lemma encode_activation_frame_Inr:
  assumes "encode_activation_frame codec desc payload = Inr encoded" and a: "desc_arrays desc"
  obtains header bs where "validate_descriptor desc None = Inr ()"
    and "length payload = unat (ad_payload_bytes desc)"
    and "write_descriptor desc = Inr header"
    and "collect_results (encode_part codec payload) (ad_parts desc) = Inr bs"
    and "encoded = header @ concat bs"
    and "activation_frame_wire_bytes codec desc = Inr (length encoded)"
proof -
  obtain n header bs where v: "validate_descriptor desc (Some (length payload)) = Inr ()"
      and n: "activation_frame_wire_bytes codec desc = Inr n" and h: "write_descriptor desc = Inr header"
      and b: "collect_results (encode_part codec payload) (ad_parts desc) = Inr bs"
      and e: "encoded = header @ concat bs"
    using assms(1) unfolding encode_activation_frame_def by (auto simp: res_bind_Inr)
  note v2 = v [unfolded validate_descriptor_None]
  note lay = validate_descriptor_layout [OF v]
  have pl: "parts_layout 0 (ad_parts desc) (length payload)" using lay v2 by simp
  have le: "length payload \<le> USIZE_MAX"
    using lay by (auto simp: MAX_STAGE_DECODED_ACTIVATION_BYTES_def)
  have "n = length encoded"
    using encode_parts_wire [OF b pl le] n write_descriptor_Inr [OF h a] e
    by (auto simp: activation_frame_wire_bytes_Inr)
  then show thesis using that v2 h b e n by blast
qed

text \<open>What a part decodes to, from the bytes it was encoded to.\<close>

definition decode_part :: "stage_activation_codec \<Rightarrow> stage_activation_part_desc \<Rightarrow> byte list \<Rightarrow> byte list io_result"
where
  "decode_part codec part bytes =
     (if pd_ggml_type part = GGML_TYPE_F32 then
        res_bind (part_shape part) (\<lambda>shape.
        res_bind (decode_activation codec shape bytes) (\<lambda>vs. Inr (concat (map (le_bytes 4) vs))))
      else Inr bytes)"

lemma decode_part_length:
  assumes "decode_part codec part bytes = Inr d" and "part_wire_bytes codec part = Inr (length bytes)"
    and "pd_ggml_type part = GGML_TYPE_F32 \<longrightarrow> 4 dvd unat (pd_payload_bytes part)"
  shows "length d = unat (pd_payload_bytes part)"
proof (cases "pd_ggml_type part = GGML_TYPE_F32")
  case True
  then obtain shape vs where s: "part_shape part = Inr shape" "decode_activation codec shape bytes = Inr vs"
      "d = concat (map (le_bytes 4) vs)"
    using assms(1) by (auto simp: decode_part_def res_bind_Inr)
  have "length vs = unat (pd_payload_bytes part) div 4"
    using decode_activation_length [OF s(2)] part_shape_elements [OF s(1)] by (simp add: shape_elements_Inr)
  then show ?thesis using True assms(3) s(3) by (simp add: length_concat o_def sum_list_triv)
next
  case False
  then show ?thesis using assms by (simp add: decode_part_def part_wire_bytes_def)
qed

lemma encode_part_decodes:
  assumes e: "encode_part codec payload part = Inr b"
    and p: "part_payload part payload = Inr seg" and l: "length seg = unat (pd_payload_bytes part)"
    and d: "pd_ggml_type part = GGML_TYPE_F32 \<longrightarrow> 4 dvd unat (pd_payload_bytes part)"
  shows "\<exists>x. decode_part codec part b = Inr x \<and> length x = length seg"
proof (cases "pd_ggml_type part = GGML_TYPE_F32")
  case True
  then obtain shape where s: "part_shape part = Inr shape"
      "encode_activation codec shape (map le_word (as_chunks 4 seg)) = Inr b"
    using e p by (auto simp: encode_part_def res_bind_Inr)
  obtain vs where "decode_activation codec shape b = Inr vs" using decode_activation_accept [OF s(2)] by blast
  then have "decode_part codec part b = Inr (concat (map (le_bytes 4) vs))"
    using True s(1) by (simp add: decode_part_def)
  then show ?thesis using decode_part_length [OF _ encode_part_length [OF e p l] d] l by auto
next
  case False
  then show ?thesis using e p by (auto simp: encode_part_def decode_part_def)
qed

lemma decode_parts_Inr:
  "decode_parts codec encoded (part # parts) offset acc = Inr payload \<longleftrightarrow>
   (\<exists>n d. part_wire_bytes codec part = Inr n \<and> offset + n \<le> USIZE_MAX \<and> offset + n \<le> length encoded \<and>
      decode_part codec part (take n (drop offset encoded)) = Inr d \<and>
      decode_parts codec encoded parts (offset + n) (acc @ d) = Inr payload)"
  by (auto simp: res_bind_Inr checked_Inr decode_part_def [symmetric] simp del: ok_or_Inr
      split: if_splits) (auto simp: ok_or_def decode_part_def)

section \<open>Encoded frames decode\<close>

lemma decode_parts_encoded:
  assumes "collect_results (encode_part codec payload) parts = Inr bs"
    and "parts_layout offset parts (length payload)" and "length payload \<le> USIZE_MAX"
    and "encoded = pre @ concat bs" and "length encoded \<le> USIZE_MAX"
  shows "\<exists>ds. decode_parts codec encoded parts (length pre) acc = Inr (acc @ concat ds) \<and>
    list_all2 (\<lambda>part d. \<exists>b. encode_part codec payload part = Inr b \<and> decode_part codec part b = Inr d) parts ds \<and>
    offset + length (concat ds) = length payload"
  using assms(1,2,4)
proof (induction parts arbitrary: bs offset pre acc)
  case Nil
  then show ?case by auto
next
  case (Cons part parts)
  obtain b bs' where b: "encode_part codec payload part = Inr b"
      "collect_results (encode_part codec payload) parts = Inr bs'" "bs = b # bs'"
    using Cons.prems(1) by (auto simp: res_bind_Inr)
  note pay = part_payload_in [OF Cons.prems(2) assms(3)]
  let ?n = "unat (pd_payload_bytes part)"
  have l: "length (take ?n (drop offset payload)) = ?n" using pay(2) by simp
  have four: "pd_ggml_type part = GGML_TYPE_F32 \<longrightarrow> 4 dvd ?n"
    and lay: "parts_layout (offset + ?n) parts (length payload)" using Cons.prems(2) by simp_all
  have wb: "part_wire_bytes codec part = Inr (length b)" using encode_part_length [OF b(1) pay(1) l] .
  obtain d where d: "decode_part codec part b = Inr d" "length d = ?n"
    using encode_part_decodes [OF b(1) pay(1) l four] l by auto
  have e: "encoded = (pre @ b) @ concat bs'" using Cons.prems(3) b(3) by simp
  obtain ds where ds: "decode_parts codec encoded parts (length (pre @ b)) (acc @ d) = Inr ((acc @ d) @ concat ds)"
      "list_all2 (\<lambda>part d. \<exists>b. encode_part codec payload part = Inr b \<and> decode_part codec part b = Inr d) parts ds"
      "offset + ?n + length (concat ds) = length payload"
    using Cons.IH [OF b(2) lay e] by blast
  have "decode_parts codec encoded (part # parts) (length pre) acc = Inr (acc @ concat (d # ds))"
    unfolding decode_parts_Inr using wb d ds(1) e assms(5) by (intro exI [of _ "length b"] exI [of _ d]) auto
  then show ?case using ds(2,3) b(1) d by (intro exI [of _ "d # ds"]) auto
qed

definition part_lossless :: "stage_activation_codec \<Rightarrow> byte list \<Rightarrow> stage_activation_part_desc \<Rightarrow> bool" where
  "part_lossless codec payload part \<longleftrightarrow>
     (\<forall>seg b. part_payload part payload = Inr seg \<longrightarrow> encode_part codec payload part = Inr b \<longrightarrow>
        decode_part codec part b = Inr seg)"

lemma lossless_slices:
  assumes "list_all2 (\<lambda>part d. \<exists>b. encode_part codec payload part = Inr b \<and> decode_part codec part b = Inr d) parts ds"
    and "parts_layout offset parts (length payload)" and "length payload \<le> USIZE_MAX"
    and "list_all (part_lossless codec payload) parts"
  shows "ds = part_slices offset parts payload"
  using assms(1,2,4)
proof (induction arbitrary: offset rule: list_all2_induct)
  case Nil
  then show ?case by simp
next
  case (Cons part parts d ds)
  have "decode_part codec part b = Inr (take (unat (pd_payload_bytes part)) (drop offset payload))"
    if "encode_part codec payload part = Inr b" for b
    using Cons.prems(2) that part_payload_in(1) [OF Cons.prems(1) assms(3)] by (simp add: part_lossless_def)
  then show ?case using Cons by auto
qed

lemma frame_limits:
  assumes "activation_frame_wire_bytes codec desc = Inr n"
  shows "n \<le> USIZE_MAX"
  using assms by (auto simp: activation_frame_wire_bytes_Inr MAX_STAGE_ACTIVATION_BYTES_def)

lemma frame_decodes:
  assumes enc: "encode_activation_frame codec desc payload = Inr encoded" and a: "desc_arrays desc"
  obtains decoded where "decode_activation_frame codec encoded = Inr \<lparr>fr_desc = desc, fr_payload = decoded\<rparr>"
    and "length decoded = length payload"
    and "list_all (part_lossless codec payload) (ad_parts desc) \<Longrightarrow> decoded = payload"
proof -
  obtain header bs where v: "validate_descriptor desc None = Inr ()"
      and l: "length payload = unat (ad_payload_bytes desc)" and h: "write_descriptor desc = Inr header"
      and b: "collect_results (encode_part codec payload) (ad_parts desc) = Inr bs"
      and e: "encoded = header @ concat bs"
      and n: "activation_frame_wire_bytes codec desc = Inr (length encoded)"
    using encode_activation_frame_Inr [OF enc a] by blast
  note lay = validate_descriptor_layout [OF v]
  have pl: "parts_layout 0 (ad_parts desc) (length payload)" using lay l by simp
  have le: "length payload \<le> USIZE_MAX" using lay l by (auto simp: MAX_STAGE_DECODED_ACTIVATION_BYTES_def)
  obtain ds where ds: "decode_parts codec encoded (ad_parts desc) (length header) [] = Inr (concat ds)"
      "list_all2 (\<lambda>part d. \<exists>b. encode_part codec payload part = Inr b \<and> decode_part codec part b = Inr d) (ad_parts desc) ds"
      "length (concat ds) = length payload"
    using decode_parts_encoded [OF b pl le e frame_limits [OF n], of "[]"] by auto
  have r: "read_descriptor encoded = Inr (desc, length header)"
    using read_descriptor_append [OF h a] lay by (simp add: read_descriptor_def e)
  have w: "validate_descriptor desc (Some (length (concat ds))) = Inr ()"
    unfolding validate_descriptor_None using v ds(3) l by simp
  have "decode_activation_frame codec encoded = Inr \<lparr>fr_desc = desc, fr_payload = concat ds\<rparr>"
    using r v n ds(1) w by (simp add: decode_activation_frame_def)
  moreover have "concat ds = payload" if "list_all (part_lossless codec payload) (ad_parts desc)"
    using lossless_slices [OF ds(2) pl le that] concat_part_slices [OF pl] by simp
  ultimately show thesis using that ds(3) by blast
qed

section \<open>The codec chosen as lossless restores the frame\<close>

lemma part_lossless_raw:
  assumes "pd_ggml_type part = GGML_TYPE_F32 \<longrightarrow> 4 dvd unat (pd_payload_bytes part)"
  shows "part_lossless RawF32V1 payload part"
  unfolding part_lossless_def
proof (intro allI impI)
  fix seg b
  assume p: "part_payload part payload = Inr seg" and e: "encode_part RawF32V1 payload part = Inr b"
  have l: "length seg = unat (pd_payload_bytes part)"
    using p by (auto simp: part_payload_def Let_def res_bind_Inr checked_def split: if_splits)
  show "decode_part RawF32V1 part b = Inr seg"
  proof (cases "pd_ggml_type part = GGML_TYPE_F32")
    case True
    then obtain shape where s: "part_shape part = Inr shape"
        "encode_activation RawF32V1 shape (map le_word (as_chunks 4 seg)) = Inr b"
      using e p by (auto simp: encode_part_def res_bind_Inr)
    then show ?thesis
      using True assms l decode_activation_raw [OF s(2)]
      by (simp add: decode_part_def le_bytes_le_word_chunks del: map_map)
  next
    case False
    then show ?thesis using e p by (auto simp: encode_part_def decode_part_def)
  qed
qed

lemma layout_all_raw:
  "parts_layout offset parts final \<Longrightarrow> list_all (part_lossless RawF32V1 payload) parts"
  by (induction offset parts final rule: parts_layout.induct) (auto intro: part_lossless_raw)

lemma parts_lossless_float:
  assumes "parts_lossless codec payload (part # parts) = Inr True" and "pd_ggml_type part = GGML_TYPE_F32"
  shows "\<exists>seg shape b vs. part_payload part payload = Inr seg \<and> part_shape part = Inr shape \<and>
    encode_activation codec shape (map le_word (as_chunks 4 seg)) = Inr b \<and>
    decode_activation codec shape b = Inr vs \<and> concat (map (le_bytes 4) vs) = seg \<and>
    parts_lossless codec payload parts = Inr True"
proof -
  obtain seg shape where p: "part_payload part payload = Inr seg" "part_shape part = Inr shape"
      and c: "(case encode_activation codec shape (map le_word (as_chunks 4 seg)) of
          Inl _ \<Rightarrow> Inr False
        | Inr b \<Rightarrow> (case decode_activation codec shape b of
             Inl _ \<Rightarrow> Inr False
           | Inr vs \<Rightarrow> if concat (map (le_bytes 4) vs) \<noteq> seg then Inr False
               else parts_lossless codec payload parts)) = Inr True"
    using assms by (auto simp: res_bind_Inr)
  obtain b where b: "encode_activation codec shape (map le_word (as_chunks 4 seg)) = Inr b"
    using c by (cases "encode_activation codec shape (map le_word (as_chunks 4 seg))") auto
  obtain vs where d: "decode_activation codec shape b = Inr vs"
    using c b by (cases "decode_activation codec shape b") auto
  have s: "concat (map (le_bytes 4) vs) = seg" "parts_lossless codec payload parts = Inr True"
    using c b d by (auto split: if_splits)
  show ?thesis using p b d s by blast
qed

lemma parts_lossless_True:
  "parts_lossless codec payload parts = Inr True \<Longrightarrow> list_all (part_lossless codec payload) parts"
proof (induction codec payload parts rule: parts_lossless.induct)
  case (1 codec payload)
  then show ?case by simp
next
  case (2 codec payload part parts)
  show ?case
  proof (cases "pd_ggml_type part = GGML_TYPE_F32")
    case False
    then have "part_lossless codec payload part"
      by (auto simp: part_lossless_def encode_part_def decode_part_def)
    then show ?thesis using 2 False by simp
  next
    case True
    obtain seg shape b vs where s: "part_payload part payload = Inr seg" "part_shape part = Inr shape"
        "encode_activation codec shape (map le_word (as_chunks 4 seg)) = Inr b"
        "decode_activation codec shape b = Inr vs" "concat (map (le_bytes 4) vs) = seg"
        "parts_lossless codec payload parts = Inr True"
      using parts_lossless_float [OF 2(3) True] by blast
    have "part_lossless codec payload part"
      using True s by (auto simp: part_lossless_def encode_part_def decode_part_def)
    moreover have "list_all (part_lossless codec payload) parts"
      using 2(2) [OF _ s(1-4)] True s by simp
    ultimately show ?thesis by simp
  qed
qed

lemma prefer_codecs_result:
  assumes "prefer_codecs desc payload permitted preference selected n = Inr codec"
    and "activation_frame_wire_bytes selected desc = Inr n"
  shows "(codec = selected \<or> codec \<in> set permitted \<and> codec_is_lossless codec desc payload = Inr True) \<and>
    (\<exists>k. activation_frame_wire_bytes codec desc = Inr k \<and> k \<le> n \<and>
       (\<forall>other \<in> set preference. other \<in> set permitted \<longrightarrow> codec_is_lossless other desc payload = Inr True \<longrightarrow>
          (\<exists>j. activation_frame_wire_bytes other desc = Inr j \<and> k \<le> j)))"
  using assms
proof (induction desc payload permitted preference selected n rule: prefer_codecs.induct)
  case (1 desc payload permitted selected n)
  then show ?case by auto
next
  case (2 desc payload permitted c preference selected n)
  show ?case
  proof (cases "c \<in> set permitted")
    case False
    then show ?thesis using 2(1) [OF False] 2(5,6) by auto
  next
    case True
    obtain l where l: "codec_is_lossless c desc payload = Inr l"
      using 2(5) True by (auto simp: res_bind_Inr)
    show ?thesis
    proof (cases l)
      case False
      then show ?thesis using 2(2) [of l] 2(5,6) True l by auto
    next
      case lossless: True
      obtain w where w: "activation_frame_wire_bytes c desc = Inr w"
        using 2(5) True l lossless by (auto simp: res_bind_Inr)
      show ?thesis
      proof (cases "w < n")
        case less: True
        have "prefer_codecs desc payload permitted preference c w = Inr codec"
          using 2(5) True l lossless w less by simp
        from 2(3) [OF _ l _ w less this w] show ?thesis using True l lossless w less by force
      next
        case False
        have "prefer_codecs desc payload permitted preference selected n = Inr codec"
          using 2(5) True l lossless w False by simp
        from 2(4) [OF _ l _ w False this 2(6)] show ?thesis using True l lossless w False by force
      qed
    qed
  qed
qed

end
