(* ===== verification/MessageProps.thy ===== *)
theory MessageProps
  imports StageMessage FrameProps
begin

unbundle bit_operations_syntax

text \<open>
  The lemmas behind the properties of stage messages: what a frame that was decoded gives when it is
  encoded again as raw floats, what the flags of a header say, what arrives of a message
  (\<open>received\<close>), the conditions on a message that only the reader checks (\<open>receivable\<close>), and the
  composition of the readers over the bytes of the writers.
\<close>

section \<open>Frames encoded again as raw floats\<close>

lemma decode_activation_frame_Inr:
  assumes "decode_activation_frame codec encoded = Inr frame"
  shows "desc_arrays (fr_desc frame) \<and>
    validate_descriptor (fr_desc frame) (Some (length (fr_payload frame))) = Inr () \<and>
    activation_frame_wire_bytes codec (fr_desc frame) = Inr (length encoded)"
proof -
  obtain desc rest payload where "read_descriptor_fields encoded = Inr (desc, rest)"
      "activation_frame_wire_bytes codec desc = Inr (length encoded)"
      "validate_descriptor desc (Some (length payload)) = Inr ()"
      "frame = \<lparr>fr_desc = desc, fr_payload = payload\<rparr>"
    using assms unfolding decode_activation_frame_def read_descriptor_def by (auto simp: res_bind_Inr)
  then show ?thesis using read_descriptor_arrays by auto
qed

lemma add_part_wire_bytes_shapes:
  "add_part_wire_bytes codec parts t = Inr n \<Longrightarrow> part \<in> set parts \<Longrightarrow> \<exists>k. part_wire_bytes codec part = Inr k"
  by (induction codec parts t rule: add_part_wire_bytes.induct) (auto simp: res_bind_Inr)

lemma unat_u64_le: "unat (x :: 64 word) \<le> USIZE_MAX"
  using unsigned_less [of x, where 'a = nat] by simp

lemma part_raw_shape:
  assumes "part_shape part = Inr shape" and "4 dvd unat (pd_payload_bytes part)"
    and "unat (pd_payload_bytes part) \<le> MAX_STAGE_ACTIVATION_BYTES"
  shows "shape_elements shape = Inr (unat (pd_payload_bytes part) div 4)"
    and "encoded_len RawF32V1 shape = Inr (unat (pd_payload_bytes part))"
    and "validate_decoded_limit shape = Inr (unat (pd_payload_bytes part))"
proof -
  note s = part_shape_elements [OF assms(1)]
  let ?rows = "primary_rows shape + sideband_rows shape"
  have n: "unat (pd_payload_bytes part) \<le> USIZE_MAX" by (rule unat_u64_le)
  have "?rows * 1 \<le> ?rows * columns shape" using s by (intro mult_le_mono2) simp
  then have "?rows \<le> ?rows * columns shape" by simp
  then have r: "?rows \<le> USIZE_MAX" and e: "?rows * columns shape \<le> USIZE_MAX"
    using s n by linarith+
  then show el: "shape_elements shape = Inr (unat (pd_payload_bytes part) div 4)"
    using s by (simp add: shape_elements_Inr)
  have "shape_rows shape = Inr ?rows" using r by (simp add: shape_rows_Inr)
  then show "encoded_len RawF32V1 shape = Inr (unat (pd_payload_bytes part))"
    using el assms(2,3) n by (simp add: encoded_len_def checked_wire_bytes_Inr)
  show "validate_decoded_limit shape = Inr (unat (pd_payload_bytes part))"
    using el assms(2,3) n
    by (simp add: validate_decoded_limit_def decoded_bytes_def checked_def
        MAX_STAGE_ACTIVATION_BYTES_def MAX_STAGE_DECODED_ACTIVATION_BYTES_def)
qed

lemma part_wire_bytes_raw:
  assumes "pd_ggml_type part = GGML_TYPE_F32 \<Longrightarrow> \<exists>shape. part_shape part = Inr shape"
    and "pd_ggml_type part = GGML_TYPE_F32 \<longrightarrow> 4 dvd unat (pd_payload_bytes part)"
    and "unat (pd_payload_bytes part) \<le> MAX_STAGE_ACTIVATION_BYTES"
  shows "part_wire_bytes RawF32V1 part = Inr (unat (pd_payload_bytes part))"
  using assms part_raw_shape(2) by (fastforce simp: part_wire_bytes_def)

lemma add_part_wire_bytes_raw:
  assumes "parts_layout offset parts final" and "t + (final - offset) \<le> MAX_STAGE_ACTIVATION_BYTES"
    and "\<And>part. part \<in> set parts \<Longrightarrow> pd_ggml_type part = GGML_TYPE_F32 \<Longrightarrow> \<exists>shape. part_shape part = Inr shape"
  shows "add_part_wire_bytes RawF32V1 parts t = Inr (t + (final - offset))"
  using assms
proof (induction offset parts final arbitrary: t rule: parts_layout.induct)
  case (1 offset final)
  then show ?case by simp
next
  case (2 offset part parts final)
  let ?n = "unat (pd_payload_bytes part)"
  have le: "offset + ?n \<le> final" using 2(2) by (auto dest: parts_layout_le)
  have w: "part_wire_bytes RawF32V1 part = Inr ?n"
    using 2(2-4) le by (intro part_wire_bytes_raw) auto
  have "t + ?n + (final - (offset + ?n)) = t + (final - offset)" using le by simp
  moreover have "add_part_wire_bytes RawF32V1 parts (t + ?n) = Inr (t + ?n + (final - (offset + ?n)))"
    using 2(2-4) le by (intro 2(1)) auto
  moreover have "t + ?n \<le> USIZE_MAX"
    using 2(3) le by (simp add: MAX_STAGE_ACTIVATION_BYTES_def)
  ultimately show ?case using w by (simp add: checked_def)
qed

lemma encode_part_raw:
  assumes "parts_layout offset parts (length payload)" and "length payload \<le> MAX_STAGE_ACTIVATION_BYTES"
    and "\<And>part. part \<in> set parts \<Longrightarrow> pd_ggml_type part = GGML_TYPE_F32 \<Longrightarrow> \<exists>shape. part_shape part = Inr shape"
  shows "\<exists>bs. collect_results (encode_part RawF32V1 payload) parts = Inr bs"
  using assms(1,3)
proof (induction parts arbitrary: offset)
  case Nil
  then show ?case by simp
next
  case (Cons part parts)
  let ?n = "unat (pd_payload_bytes part)"
  have u: "length payload \<le> USIZE_MAX" using assms(2) by (simp add: MAX_STAGE_ACTIVATION_BYTES_def)
  note pay = part_payload_in [OF Cons.prems(1) u]
  have "\<exists>b. encode_part RawF32V1 payload part = Inr b"
  proof (cases "pd_ggml_type part = GGML_TYPE_F32")
    case True
    obtain shape where s: "part_shape part = Inr shape" using Cons.prems(2) [of part] True by auto
    have four: "4 dvd ?n" using Cons.prems(1) True by simp
    have le: "?n \<le> MAX_STAGE_ACTIVATION_BYTES" using pay(2) assms(2) by simp
    note r = part_raw_shape [OF s four le]
    have "length (take ?n (drop offset payload)) = 4 * (?n div 4)" using pay(2) four by simp
    note l = map_le_word_chunks [OF this]
    have "checked_wire_bytes (?n div 4) 4 = Inr ?n"
      using four le unat_u64_le [of "pd_payload_bytes part"] by (simp add: checked_wire_bytes_Inr)
    then show ?thesis
      using True s r l pay(1) by (simp add: encode_part_def encode_activation_def encode_raw_f32_def)
  next
    case False
    then show ?thesis using pay(1) by (simp add: encode_part_def)
  qed
  moreover have "\<exists>bs. collect_results (encode_part RawF32V1 payload) parts = Inr bs"
    using Cons.prems by (intro Cons.IH [of "offset + ?n"]) auto
  ultimately show ?case by auto
qed

definition raw_frame_bytes :: "stage_activation_frame \<Rightarrow> nat" where
  "raw_frame_bytes frame = FRAME_FIXED_HEADER_BYTES + length (ad_parts (fr_desc frame)) * PART_HEADER_BYTES
     + length (fr_payload frame)"

lemma encode_raw_decoded:
  assumes d: "decode_activation_frame codec encoded = Inr frame"
    and small: "raw_frame_bytes frame \<le> MAX_STAGE_ACTIVATION_BYTES"
  shows "\<exists>b. encode_raw_activation_frame frame = Inr b \<and> length b = raw_frame_bytes frame \<and>
    decode_raw_activation_frame b = Inr frame"
proof -
  let ?desc = "fr_desc frame" and ?payload = "fr_payload frame"
  note f = decode_activation_frame_Inr [OF d]
  note a = f [THEN conjunct1] and v = f [THEN conjunct2, THEN conjunct1]
  note lay = validate_descriptor_layout [OF v]
  have pl: "parts_layout 0 (ad_parts ?desc) (length ?payload)" using lay by simp
  have shapes: "\<exists>shape. part_shape part = Inr shape"
    if "part \<in> set (ad_parts ?desc)" "pd_ggml_type part = GGML_TYPE_F32" for part
    using f that by (auto simp: activation_frame_wire_bytes_Inr part_wire_bytes_def res_bind_Inr
        dest!: add_part_wire_bytes_shapes)
  have hdr: "length (ad_parts ?desc) * PART_HEADER_BYTES \<le> USIZE_MAX"
      "FRAME_FIXED_HEADER_BYTES + length (ad_parts ?desc) * PART_HEADER_BYTES \<le> USIZE_MAX"
    using small by (auto simp: raw_frame_bytes_def MAX_STAGE_ACTIVATION_BYTES_def)
  have wb: "activation_frame_wire_bytes RawF32V1 ?desc = Inr (raw_frame_bytes frame)"
    using add_part_wire_bytes_raw [OF pl _ shapes, of "FRAME_FIXED_HEADER_BYTES + length (ad_parts ?desc) * PART_HEADER_BYTES"]
      small hdr v
    by (simp add: activation_frame_wire_bytes_Inr raw_frame_bytes_def validate_descriptor_None)
  have pm: "length ?payload \<le> MAX_STAGE_ACTIVATION_BYTES" using small by (simp add: raw_frame_bytes_def)
  obtain bs where bs: "collect_results (encode_part RawF32V1 ?payload) (ad_parts ?desc) = Inr bs"
    using encode_part_raw [OF pl pm shapes] by blast
  obtain header where h: "write_descriptor ?desc = Inr header"
    using lay by (auto simp: write_descriptor_def checked_def MAX_STAGE_ACTIVATION_PARTS_def)
  have e: "encode_activation_frame RawF32V1 ?desc ?payload = Inr (header @ concat bs)"
    using v wb bs h by (simp add: encode_activation_frame_def)
  have n: "length (header @ concat bs) = raw_frame_bytes frame"
    using encode_activation_frame_Inr [OF e a] wb by (metis sum.inject(2))
  have "decode_activation_frame RawF32V1 (header @ concat bs) = Inr frame"
    using frame_decodes [OF e a] layout_all_raw [OF pl]
    by (metis stage_activation_frame.surjective old.unit.exhaust)
  then show ?thesis using e n by (simp add: encode_raw_activation_frame_def decode_raw_activation_frame_def)
qed

lemma encode_part_raw_is_payload:
  assumes "encode_part RawF32V1 payload part = Inr b" and "part_payload part payload = Inr seg"
    and "length seg = unat (pd_payload_bytes part)"
    and "pd_ggml_type part = GGML_TYPE_F32 \<longrightarrow> 4 dvd unat (pd_payload_bytes part)"
  shows "b = seg"
  using assms by (auto simp: encode_part_def encode_activation_def encode_raw_f32_def res_bind_Inr
      le_bytes_le_word_chunks simp del: map_map split: if_splits)

lemma raw_frame_is_payload:
  assumes e: "encode_raw_activation_frame frame = Inr b" and a: "desc_arrays (fr_desc frame)"
  shows "\<exists>header. write_descriptor (fr_desc frame) = Inr header \<and> b = header @ fr_payload frame"
proof -
  let ?payload = "fr_payload frame" and ?parts = "ad_parts (fr_desc frame)"
  obtain header bs where v: "validate_descriptor (fr_desc frame) None = Inr ()"
      and l: "length ?payload = unat (ad_payload_bytes (fr_desc frame))"
      and h: "write_descriptor (fr_desc frame) = Inr header"
      and b: "collect_results (encode_part RawF32V1 ?payload) ?parts = Inr bs" "b = header @ concat bs"
    using encode_activation_frame_Inr [OF e [unfolded encode_raw_activation_frame_def] a] by blast
  note lay = validate_descriptor_layout [OF v]
  have pl: "parts_layout 0 ?parts (length ?payload)" using lay l by simp
  have le: "length ?payload \<le> USIZE_MAX" using lay l by (auto simp: MAX_STAGE_DECODED_ACTIVATION_BYTES_def)
  have "bs = part_slices offset parts ?payload"
    if "collect_results (encode_part RawF32V1 ?payload) parts = Inr bs" "parts_layout offset parts (length ?payload)"
    for parts offset bs
    using that
  proof (induction parts arbitrary: offset bs)
    case Nil
    then show ?case by simp
  next
    case (Cons part parts)
    obtain x xs where x: "encode_part RawF32V1 ?payload part = Inr x"
        "collect_results (encode_part RawF32V1 ?payload) parts = Inr xs" "bs = x # xs"
      using Cons.prems(1) by (auto simp: res_bind_Inr)
    note pay = part_payload_in [OF Cons.prems(2) le]
    have "x = take (unat (pd_payload_bytes part)) (drop offset ?payload)"
      by (rule encode_part_raw_is_payload [OF x(1) pay(1)]) (use pay(2) Cons.prems(2) in auto)
    then show ?case using Cons.IH [OF x(2)] Cons.prems(2) x(3) by simp
  qed
  from this [OF b(1) pl] have "concat bs = ?payload" using concat_part_slices [OF pl] by simp
  then show ?thesis using h b(2) by simp
qed

lemma raw_frame_size:
  assumes "encode_raw_activation_frame frame = Inr b" and "desc_arrays (fr_desc frame)"
  shows "length b = raw_frame_bytes frame \<and> raw_frame_bytes frame \<le> MAX_STAGE_ACTIVATION_BYTES"
proof -
  obtain header where h: "write_descriptor (fr_desc frame) = Inr header" "b = header @ fr_payload frame"
    using raw_frame_is_payload [OF assms] by blast
  have l: "length b = raw_frame_bytes frame"
    using h write_descriptor_Inr [OF h(1) assms(2)] by (simp add: raw_frame_bytes_def)
  moreover have "activation_frame_wire_bytes RawF32V1 (fr_desc frame) = Inr (length b)"
    using encode_activation_frame_Inr [OF assms(1) [unfolded encode_raw_activation_frame_def] assms(2)] by blast
  ultimately show ?thesis by (simp add: activation_frame_wire_bytes_Inr)
qed

section \<open>Flags of the header\<close>

lemma and_bit_zero: "(w :: 32 word) AND push_bit n 1 = 0 \<longleftrightarrow> \<not> (n < 32 \<and> bit w n)"
proof
  assume z: "w AND push_bit n 1 = 0"
  show "\<not> (n < 32 \<and> bit w n)"
  proof
    assume "n < 32 \<and> bit w n"
    then have "bit (w AND push_bit n 1) n" by (auto simp only: bit_and_iff bit_push_bit_iff) auto
    then show False unfolding z by simp
  qed
next
  assume n: "\<not> (n < 32 \<and> bit w n)"
  show "w AND push_bit n 1 = 0"
  proof (rule bit_word_eqI)
    fix k
    assume k: "k < LENGTH(32)"
    have "bit (push_bit n (1 :: 32 word)) k \<Longrightarrow> k = n"
      by (auto simp only: bit_push_bit_iff bit_1_iff)
    then have "\<not> bit (w AND push_bit n 1) k" using n k by (auto simp only: bit_and_iff) auto
    then show "bit (w AND push_bit n 1) k \<longleftrightarrow> bit 0 k" by simp
  qed
qed

lemma wire_state_flags:
  "hd_flags (wire_state m) AND FLAG_SAMPLING \<noteq> 0 \<longleftrightarrow> msg_sampling m \<noteq> None"
  "hd_flags (wire_state m) AND FLAG_CHAT_SAMPLING_METADATA \<noteq> 0 \<longleftrightarrow> msg_chat_sampling_metadata m \<noteq> None"
  unfolding wire_state_def Let_def set_flag_def FLAG_SAMPLING_def FLAG_CHAT_SAMPLING_METADATA_def and_bit_zero
  by (auto simp: bit_simps)

lemma wire_state_simps [simp]:
  "hd_version (wire_state m) = hd_version (msg_state m)"
  "hd_source_stage_index (wire_state m) = hd_source_stage_index (msg_state m)"
  "hd_activation_codec (wire_state m) = hd_activation_codec (msg_state m)"
  by (simp_all add: wire_state_def Let_def set_flag_def)

lemma activationless_wire_state [simp]: "activationless k (wire_state m) = activationless k (msg_state m)"
  by (simp add: activationless_def)

section \<open>What arrives of a message\<close>

definition received_activation :: "stage_wire_message \<Rightarrow> byte list" where
  "received_activation m =
     (if activationless (msg_kind m) (msg_state m) then []
      else case decode_activation_frame (hd_activation_codec (msg_state m)) (msg_activation m) of
          Inl _ \<Rightarrow> []
        | Inr frame \<Rightarrow> (case encode_raw_activation_frame frame of Inl _ \<Rightarrow> [] | Inr b \<Rightarrow> b))"

definition received :: "stage_wire_message \<Rightarrow> stage_wire_message" where
  "received m = m\<lparr>msg_state := wire_state m,
     msg_sampling := map_option wire_sampling (msg_sampling m),
     msg_tokens := (if msg_kind m = Stop \<or> msg_kind m = StateImport then [] else msg_tokens m),
     msg_positions := (if msg_kind m = Stop \<or> msg_kind m = StateImport then [] else msg_positions m),
     msg_activation := received_activation m,
     msg_raw_bytes := (if msg_kind m = StateImport then msg_raw_bytes m else [])\<rparr>"

text \<open>The reader of a stop message does not read the sidebands its writer sends.\<close>

definition unread_sidebands :: "stage_wire_message \<Rightarrow> byte list" where
  "unread_sidebands m =
     (if msg_kind m = Stop
      then concat (map (le_bytes 4) (msg_tokens m)) @ concat (map (le_bytes 4) (msg_positions m)) else [])"

definition codec_admitted :: "(stage_activation_codec \<times> stage_activation_codec_policy) option \<Rightarrow>
    stage_wire_message \<Rightarrow> bool" where
  "codec_admitted expected m \<longleftrightarrow> activationless (msg_kind m) (msg_state m) \<or>
     (case expected of None \<Rightarrow> True
      | Some (configured, policy) \<Rightarrow> permits policy configured (hd_activation_codec (msg_state m)))"

text \<open>
  What the reader asks of a message beyond what its writer checks: the version, a count that is not
  negative, an admitted codec, and a frame that still fits the wire as raw floats. That strings are
  UTF-8 is the invariant of the type \<open>String\<close>.
\<close>

definition receivable :: "(stage_activation_codec \<times> stage_activation_codec_policy) option \<Rightarrow>
    stage_wire_message \<Rightarrow> bool" where
  "receivable expected m \<longleftrightarrow>
     hd_version (msg_state m) = STAGE_STATE_VERSION \<and>
     (msg_kind m \<noteq> Stop \<longrightarrow> 0 \<le> sint (msg_token_count m)) \<and>
     codec_admitted expected m \<and>
     (\<forall>s. msg_sampling m = Some s \<longrightarrow> sampling_utf8 s) \<and>
     (\<forall>s. msg_chat_sampling_metadata m = Some s \<longrightarrow> utf8_valid s) \<and>
     (\<not> activationless (msg_kind m) (msg_state m) \<longrightarrow>
        (\<forall>frame. decode_activation_frame (hd_activation_codec (msg_state m)) (msg_activation m) = Inr frame \<longrightarrow>
           raw_frame_bytes frame \<le> MAX_STAGE_ACTIVATION_BYTES))"

lemma message_activation_bytes_Inr:
  "message_activation_bytes m state = Inr w \<longleftrightarrow>
   (if activationless (msg_kind m) state then msg_activation m = [] \<and> w = 0
    else length (msg_activation m) \<le> MAX_STAGE_ACTIVATION_BYTES \<and> w = word_of_nat (length (msg_activation m)) \<and>
      (\<exists>frame. decode_activation_frame (hd_activation_codec state) (msg_activation m) = Inr frame \<and>
         validate_activation_frame_header frame (msg_token_count m) (hd_source_stage_index state) = Inr ()))"
  by (auto simp: message_activation_bytes_def res_bind_Inr i32_of_usize_def wire_limits split: if_splits)

lemma decode_activation_frame_nonempty: "decode_activation_frame codec [] \<noteq> Inr frame"
  by (simp add: decode_activation_frame_def read_descriptor_def read_descriptor_fields_def rd_bind_def
      read_u32_def read_exact_def)

lemma normalise_received:
  assumes w: "message_activation_bytes m (msg_state m) = Inr w" and r: "receivable expected m"
  shows "normalise_activation (wire_state m) (msg_token_count m) (msg_activation m) = Inr (received_activation m)"
proof (cases "activationless (msg_kind m) (msg_state m)")
  case True
  then show ?thesis using w by (simp add: message_activation_bytes_Inr normalise_activation_def received_activation_def)
next
  case False
  obtain frame where f: "decode_activation_frame (hd_activation_codec (msg_state m)) (msg_activation m) = Inr frame"
      "validate_activation_frame_header frame (msg_token_count m) (hd_source_stage_index (msg_state m)) = Inr ()"
    using w False by (auto simp: message_activation_bytes_Inr)
  have "raw_frame_bytes frame \<le> MAX_STAGE_ACTIVATION_BYTES" using r False f(1) by (simp add: receivable_def)
  from encode_raw_decoded [OF f(1) this]
  obtain b where b: "encode_raw_activation_frame frame = Inr b" by blast
  have "msg_activation m \<noteq> []" using f(1) decode_activation_frame_nonempty by metis
  then show ?thesis using f b False by (simp add: normalise_activation_def received_activation_def)
qed

section \<open>The bytes of a message\<close>

lemma written_stage_message:
  "written (write_stage_message m) \<longleftrightarrow>
   length (msg_tokens m) \<le> MAX_STAGE_SIDEBAND_VALUES \<and>
   length (msg_positions m) \<le> MAX_STAGE_SIDEBAND_VALUES \<and>
   (\<exists>w. message_activation_bytes m (wire_state m) = Inr w) \<and>
   (\<forall>s. msg_sampling m = Some s \<longrightarrow> written (write_sampling_config s)) \<and>
   (\<forall>s. msg_chat_sampling_metadata m = Some s \<longrightarrow> written (write_chat_metadata s)) \<and>
   written (write_payload m)"
  by (auto simp: write_stage_message_def Let_def written_try i32_of_usize_def wire_limits split: option.splits)

lemma fst_stage_message:
  assumes "written (write_stage_message m)" and "message_activation_bytes m (wire_state m) = Inr w"
  shows "fst (write_stage_message m) =
     le_bytes 4 (wire_message_kind_id (msg_kind m)) @ le_bytes 4 (msg_pos_start m) @
     le_bytes 4 (msg_token_count m) @ le_bytes 4 (word_of_nat (length (msg_tokens m)) :: i32) @
     le_bytes 4 (word_of_nat (length (msg_positions m)) :: i32) @
     fst (write_state_header (wire_state m)) @ le_bytes 4 w @
     le_bytes 8 (msg_request_id m) @ le_bytes 8 (msg_session_id m) @
     (case msg_sampling m of None \<Rightarrow> [] | Some s \<Rightarrow> fst (write_sampling_config s)) @
     (case msg_chat_sampling_metadata m of None \<Rightarrow> [] | Some s \<Rightarrow> fst (write_chat_metadata s)) @
     fst (write_payload m)"
proof -
  note h = assms(1) [unfolded written_stage_message]
  have n: "int (length (msg_tokens m)) \<le> I32_MAX" "int (length (msg_positions m)) \<le> I32_MAX"
    using h by (simp_all add: wire_limits)
  have s: "written (case msg_sampling m of None \<Rightarrow> wr_all [] | Some s \<Rightarrow> write_sampling_config s)"
    and c: "written (case msg_chat_sampling_metadata m of None \<Rightarrow> wr_all [] | Some s \<Rightarrow> write_chat_metadata s)"
    using h by (auto split: option.split)
  have fs: "fst (case msg_sampling m of None \<Rightarrow> wr_all [] | Some s \<Rightarrow> write_sampling_config s) =
      (case msg_sampling m of None \<Rightarrow> [] | Some s \<Rightarrow> fst (write_sampling_config s))"
    and fc: "fst (case msg_chat_sampling_metadata m of None \<Rightarrow> wr_all [] | Some s \<Rightarrow> write_chat_metadata s) =
      (case msg_chat_sampling_metadata m of None \<Rightarrow> [] | Some s \<Rightarrow> fst (write_chat_metadata s))"
    by (auto split: option.split)
  show ?thesis
    using h n s c assms(2) by (simp add: write_stage_message_def Let_def fs fc)
qed

lemma read_optional_step:
  fixes f :: "'a option \<Rightarrow> 'b reader"
  assumes "present \<longleftrightarrow> x \<noteq> None"
    and "\<And>v (g :: 'a \<Rightarrow> 'b reader) t. x = Some v \<Longrightarrow> rd_bind p g (enc v @ t) = g (h v) t"
  shows "rd_bind (rd_optional present p) f ((case x of None \<Rightarrow> [] | Some v \<Rightarrow> enc v) @ r) = f (map_option h x) r"
proof (cases x)
  case None
  then show ?thesis using assms(1) by (simp add: rd_optional_def)
next
  case (Some v)
  then show ?thesis using assms(1) by (simp add: rd_optional_def rd_bind_assoc assms(2) [OF Some])
qed

lemma read_chat_metadata_step:
  assumes "written (write_chat_metadata s)" and "utf8_valid s"
  shows "rd_bind read_chat_metadata f (fst (write_chat_metadata s) @ r) = f s r"
proof -
  have n: "length s \<le> MAX_STAGE_CHAT_SAMPLING_METADATA_BYTES" using assms(1) by (simp add: write_chat_metadata_def)
  then have "length s \<le> U32_MAX" by (simp add: wire_limits)
  then have "fst (write_chat_metadata s) = le_bytes 4 (word_of_nat (length s) :: u32) @ s"
    using n by (simp add: write_chat_metadata_def checked_def)
  then show ?thesis
    using n assms(2)
    by (simp add: read_chat_metadata_def rd_bind_assoc rd_steps checked_u32_len_of_nat wire_limits)
qed

lemma read_payload_append:
  assumes w: "written (write_payload m)" and a: "normalise_activation (msg_state base) (msg_token_count m) (msg_activation m) = Inr act"
    and b: "msg_kind base = msg_kind m" "msg_token_count base = msg_token_count m"
  shows "read_payload base (length (msg_tokens m)) (length (msg_positions m)) (length (msg_activation m))
      (fst (write_payload m) @ r) =
    Inr (if msg_kind m = StateImport then base\<lparr>msg_raw_bytes := msg_raw_bytes m\<rparr>
         else base\<lparr>msg_tokens := msg_tokens m, msg_positions := msg_positions m, msg_activation := act\<rparr>, r)"
proof (cases "msg_kind m = StateImport")
  case True
  have n: "usize_of_signed (msg_token_count m) = Some (length (msg_raw_bytes m))"
    "length (msg_raw_bytes m) \<le> MAX_STAGE_STATE_IMPORT_BYTES"
    using w True by (auto simp: write_payload_def written_try)
  then show ?thesis
    using True b by (simp add: write_payload_def read_payload_def rd_steps checked_i32_len_def)
next
  case False
  then show ?thesis
    using a b by (simp add: write_payload_def read_payload_def read_i32_values_repeat rd_steps)
qed

lemma sint_small_nat: "n \<le> MAX_STAGE_SIDEBAND_VALUES \<Longrightarrow> \<not> sint (word_of_nat n :: i32) < 0"
  by (simp add: sint_word_of_nat_32 wire_limits)

lemma stage_message_bytes_read:
  assumes w: "written (write_stage_message m)" and rec: "receivable expected m"
  shows "read_stage_message_inner expected (fst (write_stage_message m) @ r) =
    Inr (received m, unread_sidebands m @ r)"
proof -
  note h = w [unfolded written_stage_message]
  obtain c where c: "message_activation_bytes m (wire_state m) = Inr c" using h by blast
  then have c': "message_activation_bytes m (msg_state m) = Inr c"
    by (simp add: message_activation_bytes_Inr split: if_splits)
  have ver: "hd_version (msg_state m) = STAGE_STATE_VERSION" using rec by (simp add: receivable_def)
  have cnt: "checked_i32_len c MAX_STAGE_ACTIVATION_BYTES m1 m2 = Inr (length (msg_activation m))" for m1 m2
    using c' by (auto simp: message_activation_bytes_Inr wire_limits checked_i32_len_def
        sint_word_of_nat_32 usize_of_signed_def split: if_splits)
  have adm: "admitted_activation_bytes expected (msg_kind m) (wire_state m) (length (msg_activation m)) =
      Inr (length (msg_activation m))"
    using c' rec by (auto simp: admitted_activation_bytes_def receivable_def codec_admitted_def
        message_activation_bytes_Inr split: option.splits if_splits)
  have samp: "rd_bind read_sampling_config g (fst (write_sampling_config s) @ t) = g (wire_sampling s) t"
    if "msg_sampling m = Some s" for g :: "_ \<Rightarrow> stage_wire_message reader" and s t
    using h rec that by (intro read_sampling_config_step) (auto simp: receivable_def)
  have chat: "rd_bind read_chat_metadata g (fst (write_chat_metadata s) @ t) = g s t"
    if "msg_chat_sampling_metadata m = Some s" for g :: "_ \<Rightarrow> stage_wire_message reader" and s t
    using h rec that by (intro read_chat_metadata_step) (auto simp: receivable_def)
  have opt1: "rd_bind (rd_optional (hd_flags (wire_state m) AND FLAG_SAMPLING \<noteq> 0) read_sampling_config) f
      ((case msg_sampling m of None \<Rightarrow> [] | Some s \<Rightarrow> fst (write_sampling_config s)) @ t) =
      f (map_option wire_sampling (msg_sampling m)) t" for f :: "_ \<Rightarrow> stage_wire_message reader" and t
    by (rule read_optional_step [OF wire_state_flags(1)])
      (use h rec in \<open>auto simp: receivable_def intro: read_sampling_config_step\<close>)
  have opt2: "rd_bind (rd_optional (hd_flags (wire_state m) AND FLAG_CHAT_SAMPLING_METADATA \<noteq> 0) read_chat_metadata) f
      ((case msg_chat_sampling_metadata m of None \<Rightarrow> [] | Some s \<Rightarrow> fst (write_chat_metadata s)) @ t) =
      f (msg_chat_sampling_metadata m) t" for f :: "_ \<Rightarrow> stage_wire_message reader" and t
    using read_optional_step [OF wire_state_flags(2), of m read_chat_metadata "\<lambda>s. fst (write_chat_metadata s)" "\<lambda>s. s" f t]
      h rec by (auto simp: receivable_def read_chat_metadata_step option.map_ident)
  note toks = h [THEN conjunct1] and poss = h [THEN conjunct2, THEN conjunct1]
  have len: "checked_i32_len (word_of_nat n) MAX_STAGE_SIDEBAND_VALUES m1 m2 = Inr n"
    if "n \<le> MAX_STAGE_SIDEBAND_VALUES" for n m1 m2
    using that by (intro checked_i32_len_of_nat) (simp_all add: wire_limits)
  have norm: "normalise_activation (wire_state m) (msg_token_count m) (msg_activation m) = Inr (received_activation m)"
    by (rule normalise_received [OF c' rec])
  note pay = read_payload_append [of m _ "received_activation m"]
  have pw: "written (write_payload m)" using h by blast
  show ?thesis
  proof (cases "msg_kind m = Stop")
    case True
    have "fst (write_payload m) = unread_sidebands m"
      using True c' by (simp add: write_payload_def unread_sidebands_def message_activation_bytes_Inr activationless_def)
    moreover have "received_activation m = []" using True by (simp add: received_activation_def activationless_def)
    ultimately show ?thesis
      using True by (simp add: read_stage_message_inner_def read_message_body_def fst_stage_message [OF w c] rd_steps ver cnt adm [unfolded True] opt1 opt2
          Let_def received_def wire_message_kind_try_from_def)
  next
    case False
    have tc: "\<not> sint (msg_token_count m) < 0" using rec False by (simp add: receivable_def not_less)
    have ra: "msg_kind m = StateImport \<Longrightarrow> received_activation m = []"
      by (simp add: received_activation_def activationless_def)
    show ?thesis
      using False pw norm
      by (simp add: read_stage_message_inner_def read_message_body_def fst_stage_message [OF w c] rd_steps ver cnt adm opt1 opt2
          Let_def received_def tc sint_small_nat toks poss len pay unread_sidebands_def)
        (auto simp: ra intro!: stage_wire_message.equality)
  qed
qed

section \<open>The readers are self-delimiting\<close>

lemma rd_optional_delimiting [delimiting]: "self_delimiting p \<Longrightarrow> self_delimiting (rd_optional b p)"
  unfolding rd_optional_def by (intro delimiting)

lemma read_chat_metadata_delimiting [delimiting]: "self_delimiting read_chat_metadata"
  unfolding read_chat_metadata_def by (intro delimiting)

lemma read_payload_delimiting [delimiting]: "self_delimiting (read_payload m a b c)"
  unfolding read_payload_def read_i32_values_repeat by (intro delimiting)

lemma read_message_body_delimiting [delimiting]: "self_delimiting (read_message_body m a b c)"
  unfolding read_message_body_def by (intro delimiting)

lemma read_stage_message_delimiting [delimiting]: "self_delimiting (read_stage_message_inner expected)"
  unfolding read_stage_message_inner_def Let_def by (intro delimiting)

section \<open>What the reader accepts\<close>

lemma read_string_Inr: "read_string s = Inr (x, r) \<Longrightarrow> sampling_string x"
  by (auto simp: read_string_def rd_bind_Inr read_exact_Inr from_utf8_Inr sampling_string_def)

lemma read_string_list_Inr:
  "read_string_list n s = Inr (xs, r) \<Longrightarrow> length xs \<le> n \<and> list_all sampling_string xs"
  by (auto simp: read_string_list_def rd_bind_Inr dest!: read_repeat_all [where P = sampling_string, OF _ read_string_Inr])

lemma read_logit_bias_Inr: "read_logit_bias s = Inr (xs, r) \<Longrightarrow> length xs \<le> MAX_STAGE_LOGIT_BIAS"
  unfolding read_logit_bias_def
  by (auto simp: rd_bind_Inr dest!: read_repeat_all [where P = "\<lambda>_. True"])

lemma read_sampling_config_Inr:
  assumes "read_sampling_config s = Inr (x, r)"
  shows "length (sc_logit_bias x) \<le> MAX_STAGE_LOGIT_BIAS \<and>
    (length (sc_dry_sequence_breakers x) \<le> MAX_STAGE_DRY_SEQUENCE_BREAKERS \<and>
       list_all sampling_string (sc_dry_sequence_breakers x)) \<and>
    (length (sc_samplers x) \<le> MAX_STAGE_SAMPLERS \<and> list_all sampling_string (sc_samplers x))"
  using assms unfolding read_sampling_config_def
  by (elim rd_bind_Inr [THEN iffD1, THEN exE] exE conjE)
    (simp add: rd_ok_app, auto dest!: read_string_list_Inr read_logit_bias_Inr)

lemma set_flag_consistent:
  assumes "hd_flags state AND push_bit n 1 \<noteq> 0 \<longleftrightarrow> present"
  shows "set_flag present (push_bit n 1) state = state"
proof -
  have one: "bit (push_bit n (1 :: 32 word)) k \<longleftrightarrow> k = n \<and> n < 32" for k
    by (auto simp only: bit_push_bit_iff bit_1_iff) auto
  have b: "present \<longleftrightarrow> n < 32 \<and> bit (hd_flags state) n" using assms unfolding and_bit_zero by blast
  have "hd_flags state OR push_bit n 1 = hd_flags state" if present
    using that b by (intro bit_word_eqI) (auto simp only: bit_or_iff one)
  moreover have "hd_flags state AND NOT (push_bit n 1) = hd_flags state" if "\<not> present"
    using that b by (intro bit_word_eqI) (auto simp only: bit_and_iff bit_not_iff one, auto simp: bit_simps)
  ultimately show ?thesis by (auto simp: set_flag_def)
qed

lemma wire_state_consistent:
  assumes "hd_flags (msg_state m) AND FLAG_SAMPLING \<noteq> 0 \<longleftrightarrow> msg_sampling m \<noteq> None"
    and "hd_flags (msg_state m) AND FLAG_CHAT_SAMPLING_METADATA \<noteq> 0 \<longleftrightarrow> msg_chat_sampling_metadata m \<noteq> None"
  shows "wire_state m = msg_state m"
proof -
  have s: "set_flag (msg_sampling m \<noteq> None) FLAG_SAMPLING (msg_state m) = msg_state m"
    using assms(1) unfolding FLAG_SAMPLING_def by (rule set_flag_consistent)
  have c: "set_flag (msg_chat_sampling_metadata m \<noteq> None) FLAG_CHAT_SAMPLING_METADATA (msg_state m) = msg_state m"
    using assms(2) unfolding FLAG_CHAT_SAMPLING_METADATA_def by (rule set_flag_consistent)
  show ?thesis unfolding wire_state_def Let_def s c ..
qed

lemma rd_optional_Inr:
  "rd_optional present p s = Inr (x, r) \<Longrightarrow>
   (present \<longleftrightarrow> x \<noteq> None) \<and> (\<forall>v. x = Some v \<longrightarrow> (\<exists>s' r'. p s' = Inr (v, r')))"
  by (auto simp: rd_optional_def rd_bind_Inr rd_ok_app split: if_splits)

lemma read_chat_metadata_Inr:
  "read_chat_metadata s = Inr (x, r) \<Longrightarrow> utf8_valid x \<and> length x \<le> MAX_STAGE_CHAT_SAMPLING_METADATA_BYTES"
  by (auto simp: read_chat_metadata_def rd_bind_Inr read_exact_Inr from_utf8_Inr checked_u32_len_Inr)

text \<open>The invariant of a message that was read.\<close>

definition accepted_message :: "(stage_activation_codec \<times> stage_activation_codec_policy) option \<Rightarrow>
    stage_wire_message \<Rightarrow> bool" where
  "accepted_message expected m \<longleftrightarrow>
     hd_version (msg_state m) = STAGE_STATE_VERSION \<and> wire_state m = msg_state m \<and> codec_admitted expected m \<and>
     (\<forall>s. msg_sampling m = Some s \<longrightarrow> length (sc_logit_bias s) \<le> MAX_STAGE_LOGIT_BIAS \<and>
        (length (sc_dry_sequence_breakers s) \<le> MAX_STAGE_DRY_SEQUENCE_BREAKERS \<and>
           list_all sampling_string (sc_dry_sequence_breakers s)) \<and>
        (length (sc_samplers s) \<le> MAX_STAGE_SAMPLERS \<and> list_all sampling_string (sc_samplers s))) \<and>
     (\<forall>s. msg_chat_sampling_metadata m = Some s \<longrightarrow>
        utf8_valid s \<and> length s \<le> MAX_STAGE_CHAT_SAMPLING_METADATA_BYTES) \<and>
     (msg_kind m = Stop \<or> 0 \<le> sint (msg_token_count m)) \<and>
     length (msg_tokens m) \<le> MAX_STAGE_SIDEBAND_VALUES \<and> length (msg_positions m) \<le> MAX_STAGE_SIDEBAND_VALUES \<and>
     (msg_kind m = Stop \<or> msg_kind m = StateImport \<longrightarrow> msg_tokens m = [] \<and> msg_positions m = []) \<and>
     (if msg_kind m = StateImport
      then int (length (msg_raw_bytes m)) = sint (msg_token_count m) \<and>
        length (msg_raw_bytes m) \<le> MAX_STAGE_STATE_IMPORT_BYTES
      else msg_raw_bytes m = []) \<and>
     (activationless (msg_kind m) (msg_state m) \<longrightarrow> msg_activation m = []) \<and>
     (msg_activation m \<noteq> [] \<longrightarrow> (\<exists>frame wire.
        decode_activation_frame (hd_activation_codec (msg_state m)) wire = Inr frame \<and>
        validate_activation_frame_header frame (msg_token_count m) (hd_source_stage_index (msg_state m)) = Inr () \<and>
        encode_raw_activation_frame frame = Inr (msg_activation m)))"

lemma normalise_activation_Inr:
  assumes "normalise_activation state tc wire = Inr act"
  shows "(act \<noteq> [] \<longrightarrow> (\<exists>frame. decode_activation_frame (hd_activation_codec state) wire = Inr frame \<and>
        validate_activation_frame_header frame tc (hd_source_stage_index state) = Inr () \<and>
        encode_raw_activation_frame frame = Inr act)) \<and> (wire = [] \<longrightarrow> act = [])"
  using assms by (auto simp: normalise_activation_def res_bind_Inr split: if_splits)

lemma read_payload_Inr:
  assumes "read_payload base tc pc ab s = Inr (m, r)"
  shows "if msg_kind base = StateImport
    then \<exists>raw. m = base\<lparr>msg_raw_bytes := raw\<rparr> \<and> usize_of_signed (msg_token_count base) = Some (length raw) \<and>
      length raw \<le> MAX_STAGE_STATE_IMPORT_BYTES
    else \<exists>tokens positions wire act.
      m = base\<lparr>msg_tokens := tokens, msg_positions := positions, msg_activation := act\<rparr> \<and>
      length tokens = tc \<and> length positions = pc \<and> length wire = ab \<and>
      normalise_activation (msg_state base) (msg_token_count base) wire = Inr act"
proof (cases "msg_kind base = StateImport")
  case True
  then show ?thesis
    using assms by (auto simp: read_payload_def rd_bind_Inr rd_ok_app read_exact_Inr checked_i32_len_Inr)
next
  case False
  obtain tokens positions wire act t1 t2 t3 where
      "rd_repeat tc read_i32 s = Inr (tokens, t1)" "rd_repeat pc read_i32 t1 = Inr (positions, t2)"
      "t2 = wire @ t3" "length wire = ab"
      "normalise_activation (msg_state base) (msg_token_count base) wire = Inr act"
      "m = base\<lparr>msg_tokens := tokens, msg_positions := positions, msg_activation := act\<rparr>"
    using assms False
    by (auto simp: read_payload_def rd_bind_Inr rd_ok_app read_exact_Inr read_i32_values_repeat)
  then show ?thesis
    using False by (auto dest!: read_repeat_all [where P = "\<lambda>_. True"])
qed

lemma read_message_body_Inr:
  assumes "read_message_body base tw pw ab s = Inr (m, r)"
  shows "msg_kind base = Stop \<and> m = base \<or>
    msg_kind base \<noteq> Stop \<and> \<not> sint (msg_token_count base) < 0 \<and>
    (\<exists>tn pn. tn \<le> MAX_STAGE_SIDEBAND_VALUES \<and> pn \<le> MAX_STAGE_SIDEBAND_VALUES \<and>
       read_payload base tn pn ab s = Inr (m, r))"
  using assms by (auto simp: read_message_body_def rd_bind_Inr rd_ok_app checked_i32_len_Inr split: if_splits)

lemma read_stage_message_inner_Inr:
  assumes "read_stage_message_inner expected s = Inr (m, r)"
  shows "\<exists>n ab base tw pw t1 t2 t3.
    hd_version (msg_state base) = STAGE_STATE_VERSION \<and>
    admitted_activation_bytes expected (msg_kind base) (msg_state base) n = Inr ab \<and>
    rd_optional (hd_flags (msg_state base) AND FLAG_SAMPLING \<noteq> 0) read_sampling_config t1 =
      Inr (msg_sampling base, t2) \<and>
    rd_optional (hd_flags (msg_state base) AND FLAG_CHAT_SAMPLING_METADATA \<noteq> 0) read_chat_metadata t2 =
      Inr (msg_chat_sampling_metadata base, t3) \<and>
    msg_tokens base = [] \<and> msg_positions base = [] \<and> msg_activation base = [] \<and> msg_raw_bytes base = [] \<and>
    read_message_body base tw pw ab t3 = Inr (m, r)"
  using assms unfolding read_stage_message_inner_def Let_def rd_bind_Inr rd_try_Inr ensure_Inr
  by (elim exE conjE) (intro exI conjI; (assumption | simp))

lemma admitted_activation_bytes_Inr:
  "admitted_activation_bytes expected kind state n = Inr ab \<longleftrightarrow>
   ab = n \<and> (if activationless kind state then n = 0
     else case expected of None \<Rightarrow> True | Some (configured, policy) \<Rightarrow> permits policy configured (hd_activation_codec state))"
  by (auto simp: admitted_activation_bytes_def res_bind_Inr split: option.split)

lemma accepted_message_read:
  assumes "read_stage_message_inner expected s = Inr (m, r)"
  shows "accepted_message expected m"
proof -
  obtain n ab base tw pw t1 t2 t3 where
      ver: "hd_version (msg_state base) = STAGE_STATE_VERSION"
      and ab: "admitted_activation_bytes expected (msg_kind base) (msg_state base) n = Inr ab"
      and samp: "rd_optional (hd_flags (msg_state base) AND FLAG_SAMPLING \<noteq> 0) read_sampling_config t1 =
        Inr (msg_sampling base, t2)"
      and chat: "rd_optional (hd_flags (msg_state base) AND FLAG_CHAT_SAMPLING_METADATA \<noteq> 0) read_chat_metadata t2 =
        Inr (msg_chat_sampling_metadata base, t3)"
      and base: "msg_tokens base = []" "msg_positions base = []" "msg_activation base = []" "msg_raw_bytes base = []"
      and body: "read_message_body base tw pw ab t3 = Inr (m, r)"
    using read_stage_message_inner_Inr [OF assms] by blast
  have state: "wire_state base = msg_state base"
    by (rule wire_state_consistent) (use rd_optional_Inr [OF samp] rd_optional_Inr [OF chat] in blast)+
  have adm: "codec_admitted expected base"
    using ab by (auto simp: admitted_activation_bytes_Inr codec_admitted_def split: if_splits)
  have less: "activationless (msg_kind base) (msg_state base) \<Longrightarrow> ab = 0"
    using ab by (simp add: admitted_activation_bytes_Inr)
  have o1: "\<forall>s. msg_sampling base = Some s \<longrightarrow> length (sc_logit_bias s) \<le> MAX_STAGE_LOGIT_BIAS \<and>
        (length (sc_dry_sequence_breakers s) \<le> MAX_STAGE_DRY_SEQUENCE_BREAKERS \<and>
           list_all sampling_string (sc_dry_sequence_breakers s)) \<and>
        (length (sc_samplers s) \<le> MAX_STAGE_SAMPLERS \<and> list_all sampling_string (sc_samplers s))"
    using rd_optional_Inr [OF samp] by (blast dest: read_sampling_config_Inr)
  have o2: "\<forall>s. msg_chat_sampling_metadata base = Some s \<longrightarrow>
        utf8_valid s \<and> length s \<le> MAX_STAGE_CHAT_SAMPLING_METADATA_BYTES"
    using rd_optional_Inr [OF chat] by (blast dest: read_chat_metadata_Inr)
  note common = ver state adm o1 o2 base
  have kept: "accepted_message expected base" if "msg_kind base = Stop"
    using common that by (simp add: accepted_message_def)
  from read_message_body_Inr [OF body] show ?thesis
  proof (elim disjE conjE exE)
    assume "msg_kind base = Stop" "m = base"
    then show ?thesis using kept by simp
  next
    fix tn pn
    assume k: "msg_kind base \<noteq> Stop" "\<not> sint (msg_token_count base) < 0"
      and n: "tn \<le> MAX_STAGE_SIDEBAND_VALUES" "pn \<le> MAX_STAGE_SIDEBAND_VALUES"
      and p: "read_payload base tn pn ab t3 = Inr (m, r)"
    show ?thesis
    proof (cases "msg_kind base = StateImport")
      case True
      then obtain raw where m: "m = base\<lparr>msg_raw_bytes := raw\<rparr>"
          "usize_of_signed (msg_token_count base) = Some (length raw)" "length raw \<le> MAX_STAGE_STATE_IMPORT_BYTES"
        using read_payload_Inr [OF p] by auto
      have "wire_state m = wire_state base" using m(1) by (simp add: wire_state_def)
      moreover have "codec_admitted expected m"
        using adm m(1) by (simp add: codec_admitted_def split: option.splits prod.splits)
      ultimately show ?thesis
        using common k True m by (auto simp: accepted_message_def usize_of_signed_def split: if_splits)
    next
      case False
      then obtain tokens positions wire act where
          m: "m = base\<lparr>msg_tokens := tokens, msg_positions := positions, msg_activation := act\<rparr>"
          and l: "length tokens = tn" "length positions = pn" "length wire = ab"
          and a: "normalise_activation (msg_state base) (msg_token_count base) wire = Inr act"
        using read_payload_Inr [OF p] by auto
      have "wire_state m = wire_state base" using m by (simp add: wire_state_def)
      moreover have "codec_admitted expected m"
        using adm m by (simp add: codec_admitted_def split: option.splits prod.splits)
      ultimately show ?thesis
        using common k False m l n less normalise_activation_Inr [OF a]
        by (simp add: accepted_message_def) blast
    qed
  qed
qed

lemma written_sampling_accepted:
  "list_all sampling_string (sc_dry_sequence_breakers s) \<Longrightarrow> list_all sampling_string (sc_samplers s) \<Longrightarrow>
   written (write_sampling_config s) \<and> sampling_utf8 s"
  by (auto simp: written_sampling_config written_string_list list_all_iff sampling_string_def sampling_utf8_def
      dest: in_set_takeD)

lemma accepted_frame:
  assumes a: "accepted_message expected m" and act: "msg_activation m \<noteq> []"
    and raw: "hd_activation_codec (msg_state m) = RawF32V1"
  obtains frame where "decode_activation_frame RawF32V1 (msg_activation m) = Inr frame"
    and "validate_activation_frame_header frame (msg_token_count m) (hd_source_stage_index (msg_state m)) = Inr ()"
    and "encode_raw_activation_frame frame = Inr (msg_activation m)"
    and "raw_frame_bytes frame \<le> MAX_STAGE_ACTIVATION_BYTES" and "length (msg_activation m) \<le> MAX_STAGE_ACTIVATION_BYTES"
proof -
  obtain frame wire where f: "decode_activation_frame (hd_activation_codec (msg_state m)) wire = Inr frame"
      "validate_activation_frame_header frame (msg_token_count m) (hd_source_stage_index (msg_state m)) = Inr ()"
      "encode_raw_activation_frame frame = Inr (msg_activation m)"
    using a act unfolding accepted_message_def by blast
  have d: "desc_arrays (fr_desc frame)" using decode_activation_frame_Inr [OF f(1)] by blast
  note sz = raw_frame_size [OF f(3) d]
  then have "decode_activation_frame RawF32V1 (msg_activation m) = Inr frame"
    using encode_raw_decoded [OF f(1)] f(3) by (auto simp: decode_raw_activation_frame_def)
  then show thesis using that f sz by simp
qed

text \<open>Everything of an accepted message but its activation can be written as it is.\<close>

lemma accepted_parts:
  assumes a: "accepted_message expected m"
  shows "msg_sampling m = Some s \<Longrightarrow> written (write_sampling_config s) \<and> sampling_utf8 s \<and> wire_sampling s = s"
    and "msg_chat_sampling_metadata m = Some c \<Longrightarrow> written (write_chat_metadata c) \<and> utf8_valid c"
    and "written (write_payload m)"
proof -
  note acc = a [unfolded accepted_message_def]
  show "written (write_sampling_config s) \<and> sampling_utf8 s \<and> wire_sampling s = s" if "msg_sampling m = Some s"
    using acc that written_sampling_accepted [of s] by (auto simp: wire_sampling_def)
  show "written (write_chat_metadata c) \<and> utf8_valid c" if "msg_chat_sampling_metadata m = Some c"
    using acc that by (auto simp: write_chat_metadata_def written_try checked_def wire_limits)
  show "written (write_payload m)"
    using acc by (auto simp: write_payload_def written_try usize_of_signed_def wire_limits)
qed

lemma accepted_activation_bounded:
  assumes a: "accepted_message expected m"
  shows "length (msg_activation m) \<le> MAX_STAGE_ACTIVATION_BYTES"
proof (cases "msg_activation m = []")
  case False
  then obtain frame wire where f: "decode_activation_frame (hd_activation_codec (msg_state m)) wire = Inr frame"
      "encode_raw_activation_frame frame = Inr (msg_activation m)"
    using a unfolding accepted_message_def by blast
  have "desc_arrays (fr_desc frame)" using decode_activation_frame_Inr [OF f(1)] by blast
  from raw_frame_size [OF f(2) this] show ?thesis by simp
qed simp

lemma accepted_written_iff:
  assumes a: "accepted_message expected m"
  shows "written (write_stage_message m) \<longleftrightarrow> activationless (msg_kind m) (msg_state m) \<or>
    (\<exists>frame. decode_activation_frame (hd_activation_codec (msg_state m)) (msg_activation m) = Inr frame \<and>
       validate_activation_frame_header frame (msg_token_count m) (hd_source_stage_index (msg_state m)) = Inr ())"
proof -
  note acc = a [unfolded accepted_message_def]
  have "written (write_stage_message m) \<longleftrightarrow> (\<exists>w. message_activation_bytes m (msg_state m) = Inr w)"
    using acc accepted_parts [OF a] by (simp add: written_stage_message)
  then show ?thesis using acc accepted_activation_bounded [OF a]
    by (cases "activationless (msg_kind m) (msg_state m)") (simp_all add: message_activation_bytes_Inr)
qed

lemma accepted_resent:
  assumes a: "accepted_message expected m"
    and act: "activationless (msg_kind m) (msg_state m) \<or>
      msg_activation m \<noteq> [] \<and> hd_activation_codec (msg_state m) = RawF32V1"
  shows "written (write_stage_message m) \<and> receivable None m \<and> received m = m"
proof -
  note acc = a [unfolded accepted_message_def] and parts = accepted_parts [OF a]
  have samp: "map_option wire_sampling (msg_sampling m) = msg_sampling m"
    using parts(1) by (cases "msg_sampling m") auto
  have act1: "written (write_stage_message m) \<and> received_activation m = msg_activation m \<and>
      (\<not> activationless (msg_kind m) (msg_state m) \<longrightarrow>
        (\<forall>frame. decode_activation_frame (hd_activation_codec (msg_state m)) (msg_activation m) = Inr frame \<longrightarrow>
           raw_frame_bytes frame \<le> MAX_STAGE_ACTIVATION_BYTES))"
  proof (cases "activationless (msg_kind m) (msg_state m)")
    case True
    then show ?thesis using acc accepted_written_iff [OF a] by (simp add: received_activation_def)
  next
    case False
    then obtain frame where "decode_activation_frame RawF32V1 (msg_activation m) = Inr frame"
        "validate_activation_frame_header frame (msg_token_count m) (hd_source_stage_index (msg_state m)) = Inr ()"
        "encode_raw_activation_frame frame = Inr (msg_activation m)"
        "raw_frame_bytes frame \<le> MAX_STAGE_ACTIVATION_BYTES"
      using accepted_frame [OF a] act by blast
    then show ?thesis using act False accepted_written_iff [OF a] by (simp add: received_activation_def)
  qed
  moreover have "receivable None m"
    using acc act1 parts by (auto simp: receivable_def codec_admitted_def)
  moreover have "received m = m"
    using acc act1 samp by (intro stage_wire_message.equality) (auto simp: received_def)
  ultimately show ?thesis by blast
qed

section \<open>Sizes\<close>

lemma sampling_strings_bound:
  assumes "written (write_string_list vs n)"
  shows "sampling_string_list_wire_bytes vs n \<le> n * (4 + MAX_STAGE_SAMPLING_STRING_BYTES)"
proof -
  have "sum_list (map (\<lambda>v. 4 + length v) (take n vs)) \<le>
      sum_list (map (\<lambda>v. 4 + MAX_STAGE_SAMPLING_STRING_BYTES) (take n vs))"
    using assms by (intro sum_list_mono) (simp add: written_string_list)
  also have "\<dots> = length (take n vs) * (4 + MAX_STAGE_SAMPLING_STRING_BYTES)" by (simp add: sum_list_triv)
  also have "\<dots> \<le> n * (4 + MAX_STAGE_SAMPLING_STRING_BYTES)" by (intro mult_le_mono1) simp
  finally show ?thesis by (simp add: sampling_string_list_wire_bytes_def)
qed

lemma sampling_config_bound:
  assumes "written (write_sampling_config s)"
  shows "length (fst (write_sampling_config s)) \<le> 4096"
  using sampling_strings_bound [of "sc_dry_sequence_breakers s"] sampling_strings_bound [of "sc_samplers s"] assms
  by (fastforce simp: length_sampling_config written_sampling_config wire_limits
      STAGE_SAMPLING_CONFIG_BASE_BYTES_def STAGE_LOGIT_BIAS_WIRE_BYTES_def)

lemma write_chat_metadata_Inr:
  "written (write_chat_metadata s) \<Longrightarrow>
   length (fst (write_chat_metadata s)) = 4 + length s \<and> length s \<le> MAX_STAGE_CHAT_SAMPLING_METADATA_BYTES"
  by (auto simp: write_chat_metadata_def checked_def wire_limits)

lemma write_payload_length:
  assumes w: "written (write_stage_message m)"
  shows "length (fst (write_payload m)) = payload_wire_bytes m \<and> payload_wire_bytes m \<le> 1073741824"
proof -
  note h = w [unfolded written_stage_message]
  obtain c where c: "message_activation_bytes m (wire_state m) = Inr c" using h by blast
  show ?thesis
  proof (cases "msg_kind m = StateImport")
    case True
    have "written (write_payload m)" using h by blast
    then show ?thesis using True
      by (auto simp: write_payload_def written_try payload_wire_bytes_def wire_limits)
  next
    case False
    have a: "length (msg_activation m) \<le> 536870912"
      using c by (auto simp: message_activation_bytes_Inr wire_limits split: if_splits)
    then show ?thesis
      using False h by (simp add: write_payload_def payload_wire_bytes_def length_concat o_def sum_list_triv
          wire_limits sat_add_def sat_mul_def)
  qed
qed

lemma message_length:
  assumes w: "written (write_stage_message m)"
  shows "length (fst (write_stage_message m)) = estimated_wire_bytes m"
proof -
  note h = w [unfolded written_stage_message]
  obtain c where c: "message_activation_bytes m (wire_state m) = Inr c" using h by blast
  define sb where "sb = length (case msg_sampling m of None \<Rightarrow> [] | Some s \<Rightarrow> fst (write_sampling_config s))"
  define cb where "cb = length (case msg_chat_sampling_metadata m of None \<Rightarrow> [] | Some s \<Rightarrow> fst (write_chat_metadata s))"
  have sb: "sb = (case msg_sampling m of None \<Rightarrow> 0
            | Some sampling \<Rightarrow> STAGE_SAMPLING_CONFIG_BASE_BYTES
                + min (length (sc_logit_bias sampling)) MAX_STAGE_LOGIT_BIAS * STAGE_LOGIT_BIAS_WIRE_BYTES
                + sampling_string_list_wire_bytes (sc_dry_sequence_breakers sampling) MAX_STAGE_DRY_SEQUENCE_BREAKERS
                + sampling_string_list_wire_bytes (sc_samplers sampling) MAX_STAGE_SAMPLERS)"
    using h by (auto simp: sb_def length_sampling_config split: option.split)
  have sb4: "sb \<le> 4096"
    using h by (auto simp: sb_def sampling_config_bound split: option.split)
  have cb: "cb = (case msg_chat_sampling_metadata m of None \<Rightarrow> 0 | Some metadata \<Rightarrow> 4 + length metadata)"
    and cb8: "cb \<le> 8388612"
    using h by (auto simp: cb_def wire_limits dest!: write_chat_metadata_Inr split: option.split)
  have "length (fst (write_stage_message m)) = STAGE_WIRE_FIXED_HEADER_BYTES + sb + cb + length (fst (write_payload m))"
    by (simp add: fst_stage_message [OF w c] sb_def cb_def STAGE_WIRE_FIXED_HEADER_BYTES_def)
  also have "\<dots> = estimated_wire_bytes m"
    using sb4 cb8 write_payload_length [OF w]
    by (simp add: estimated_wire_bytes_def sb [symmetric] cb [symmetric] sat_add_def
        STAGE_WIRE_FIXED_HEADER_BYTES_def STAGE_STATE_HEADER_BYTES_def)
  finally show ?thesis .
qed

end
