(* ===== verification/WireProperties.thy ===== *)
theory WireProperties imports MessageProps begin

unbundle bit_operations_syntax

text \<open>
  The properties of the binary stage protocol: what one stage writes is what the next one reads,
  byte for byte and frame for frame; nothing shorter is taken for a message; what was accepted can
  be sent on; and the activation codec picked as lossless restores the payload.
\<close>

section \<open>The codec picked as lossless\<close>

lemma parts_lossless_encode:
  assumes "parts_lossless codec payload parts = Inr True"
    and "parts_layout offset parts (length payload)" and "length payload \<le> USIZE_MAX"
  shows "\<exists>bs. collect_results (encode_part codec payload) parts = Inr bs"
  using assms(1,2)
proof (induction parts arbitrary: offset)
  case Nil
  then show ?case by simp
next
  case (Cons part parts)
  note pay = part_payload_in [OF Cons.prems(2) assms(3)]
  have "(\<exists>b. encode_part codec payload part = Inr b) \<and> parts_lossless codec payload parts = Inr True"
  proof (cases "pd_ggml_type part = GGML_TYPE_F32")
    case False
    then show ?thesis using Cons.prems(1) pay(1) by (simp add: encode_part_def)
  next
    case True
    then show ?thesis using parts_lossless_float [OF Cons.prems(1) True] pay(1)
      by (auto simp: encode_part_def)
  qed
  then show ?case using Cons.IH [of "offset + unat (pd_payload_bytes part)"] Cons.prems(2) by auto
qed

lemma frame_encodes:
  assumes v: "validate_descriptor desc (Some (length payload)) = Inr ()"
    and k: "activation_frame_wire_bytes codec desc = Inr k"
    and c: "codec = RawF32V1 \<or> codec_is_lossless codec desc payload = Inr True"
  shows "\<exists>encoded. encode_activation_frame codec desc payload = Inr encoded"
proof -
  note lay = validate_descriptor_layout [OF v]
  have pl: "parts_layout 0 (ad_parts desc) (length payload)" using lay by simp
  have le: "length payload \<le> USIZE_MAX" "length payload \<le> MAX_STAGE_ACTIVATION_BYTES"
    using lay by (auto simp: MAX_STAGE_DECODED_ACTIVATION_BYTES_def MAX_STAGE_ACTIVATION_BYTES_def)
  have shapes: "\<exists>shape. part_shape part = Inr shape"
    if "part \<in> set (ad_parts desc)" "pd_ggml_type part = GGML_TYPE_F32" for part
    using k that by (auto simp: activation_frame_wire_bytes_Inr part_wire_bytes_def res_bind_Inr
        dest!: add_part_wire_bytes_shapes)
  have "\<exists>bs. collect_results (encode_part codec payload) (ad_parts desc) = Inr bs"
    using c
  proof
    assume "codec = RawF32V1"
    then show ?thesis using encode_part_raw [OF pl le(2) shapes] by simp
  next
    assume "codec_is_lossless codec desc payload = Inr True"
    then show ?thesis using parts_lossless_encode [OF _ pl le(1)] by (simp add: codec_is_lossless_def)
  qed
  moreover have "\<exists>header. write_descriptor desc = Inr header"
    using lay by (auto simp: write_descriptor_def checked_def MAX_STAGE_ACTIVATION_PARTS_def)
  ultimately show ?thesis using v k by (auto simp: encode_activation_frame_def)
qed

text \<open>
  (C20) \<open>select_lossless_activation_codec\<close> is lossless and picks the smallest. The codec it returns
  is permitted, the frame can be encoded under it, the encoded frame decodes to the same descriptor
  and the same payload bit for bit, and no permitted codec that \<open>codec_is_lossless\<close> finds exact
  takes fewer bytes on the wire.
\<close>

theorem selected_codec_restores_frame:
  assumes "select_lossless_activation_codec desc payload permitted = Inr codec" and "desc_arrays desc"
  shows "codec \<in> set permitted \<and>
    (\<exists>encoded. encode_activation_frame codec desc payload = Inr encoded \<and>
       decode_activation_frame codec encoded = Inr \<lparr>fr_desc = desc, fr_payload = payload\<rparr> \<and>
       (\<forall>other. other \<in> set permitted \<and> codec_is_lossless other desc payload = Inr True \<longrightarrow>
          (\<exists>n. activation_frame_wire_bytes other desc = Inr n \<and> length encoded \<le> n)))"
proof -
  obtain n where v: "validate_descriptor desc (Some (length payload)) = Inr ()"
      and raw: "RawF32V1 \<in> set permitted" "activation_frame_wire_bytes RawF32V1 desc = Inr n"
      and p: "prefer_codecs desc payload permitted [Bf16RneV1, F16RneV1, S8RowF32RneV1, RawF32V1] RawF32V1 n = Inr codec"
    using assms(1) by (auto simp: select_lossless_activation_codec_def res_bind_Inr)
  note res = prefer_codecs_result [OF p raw(2)]
  obtain k where k: "activation_frame_wire_bytes codec desc = Inr k"
      and small: "\<forall>other \<in> set [Bf16RneV1, F16RneV1, S8RowF32RneV1, RawF32V1]. other \<in> set permitted \<longrightarrow>
        codec_is_lossless other desc payload = Inr True \<longrightarrow>
        (\<exists>j. activation_frame_wire_bytes other desc = Inr j \<and> k \<le> j)"
    using res by blast
  have c: "codec = RawF32V1 \<or> codec_is_lossless codec desc payload = Inr True" using res by blast
  obtain encoded where e: "encode_activation_frame codec desc payload = Inr encoded"
    using frame_encodes [OF v k c] by blast
  have len: "length encoded = k" using encode_activation_frame_Inr [OF e assms(2)] k by (metis sum.inject(2))
  have pl: "parts_layout 0 (ad_parts desc) (length payload)" using validate_descriptor_layout [OF v] by simp
  have "list_all (part_lossless codec payload) (ad_parts desc)"
    using c layout_all_raw [OF pl] parts_lossless_True by (auto simp: codec_is_lossless_def)
  then have d: "decode_activation_frame codec encoded = Inr \<lparr>fr_desc = desc, fr_payload = payload\<rparr>"
    using frame_decodes [OF e assms(2)] by metis
  have "other \<in> set [Bf16RneV1, F16RneV1, S8RowF32RneV1, RawF32V1]" for other :: stage_activation_codec
    by (cases other) simp_all
  then show ?thesis using res raw(1) e d small len by blast
qed

definition example_part :: stage_activation_part_desc where
  "example_part = \<lparr>pd_identity = replicate 32 7, pd_ggml_type = 0, pd_rank = 1, pd_token_axis = 0,
     pd_flags = 0, pd_dimensions = [2, 0, 0, 0], pd_byte_strides = [4, 0, 0, 0],
     pd_payload_offset = 0, pd_payload_bytes = 8\<rparr>"

definition example_desc :: stage_activation_desc where
  "example_desc = \<lparr>ad_version = 2, ad_producer_stage_index = 0, ad_layer_start = 0, ad_layer_end = 4,
     ad_token_count = 2, ad_sequence_count = 1, ad_payload_bytes = 8,
     ad_frontier_identity = replicate 32 9, ad_parts = [example_part]\<rparr>"

text \<open>The floats 1.0 and -2.5: both are exact in bfloat16.\<close>

definition example_payload :: "byte list" where
  "example_payload = [0, 0, 0x80, 0x3F, 0, 0, 0x20, 0xC0]"

lemma example_arrays: "desc_arrays example_desc"
  by (simp add: desc_arrays_def part_arrays_def example_desc_def example_part_def
      STAGE_ACTIVATION_IDENTITY_BYTES_def MAX_STAGE_ACTIVATION_DIMS_def)

lemma example_valid: "validate_descriptor example_desc (Some (length example_payload)) = Inr ()"
  by (simp add: validate_descriptor_def validate_part_def example_desc_def example_part_def example_payload_def
      STAGE_ACTIVATION_FRAME_VERSION_def MAX_STAGE_ACTIVATION_PARTS_def MAX_STAGE_DECODED_ACTIVATION_BYTES_def
      STAGE_ACTIVATION_PART_OPTIONAL_def MAX_STAGE_ACTIVATION_DIMS_def ggml_type_bytes_def GGML_TYPE_F32_def
      usize_of_signed_def checked_def)

lemmas frame_eval = example_desc_def example_part_def example_payload_def
  STAGE_ACTIVATION_FRAME_VERSION_def MAX_STAGE_ACTIVATION_PARTS_def MAX_STAGE_DECODED_ACTIVATION_BYTES_def
  STAGE_ACTIVATION_PART_OPTIONAL_def MAX_STAGE_ACTIVATION_DIMS_def ggml_type_bytes_def GGML_TYPE_F32_def
  FRAME_FIXED_HEADER_BYTES_def PART_HEADER_BYTES_def MAX_STAGE_ACTIVATION_BYTES_def checked_def

lemma example_shape: "part_shape example_part = Inr (activation_shape_new (Suc 0) 0 2)"
  by (simp add: part_shape_def example_part_def usize_of_signed_def)

lemma example_slice: "part_payload example_part example_payload = Inr example_payload"
  by (simp add: part_payload_def example_part_def example_payload_def checked_def)

lemma example_values: "map le_word (as_chunks 4 example_payload) = [0x3F800000 :: f32, 0xC0200000]"
  by (simp add: example_payload_def as_chunks.simps)

lemma example_shape_facts:
  "shape_elements (activation_shape_new (Suc 0) 0 2) = Inr 2"
  "shape_rows (activation_shape_new (Suc 0) 0 2) = Inr (Suc 0)"
  "validate_decoded_limit (activation_shape_new (Suc 0) 0 2) = Inr 8"
  by (simp_all add: shape_elements_Inr shape_rows_Inr activation_shape_new_def validate_decoded_limit_def
      decoded_bytes_def shape_elements_def shape_rows_def checked_def MAX_STAGE_DECODED_ACTIVATION_BYTES_def)

lemma example_wire_bytes:
  "activation_frame_wire_bytes RawF32V1 example_desc = Inr 204"
  "activation_frame_wire_bytes Bf16RneV1 example_desc = Inr 200"
proof -
  have v: "validate_descriptor example_desc None = Inr ()"
    using example_valid by (simp add: validate_descriptor_None)
  have p: "ad_parts example_desc = [example_part]" "pd_ggml_type example_part = GGML_TYPE_F32"
    by (simp_all add: example_desc_def example_part_def GGML_TYPE_F32_def)
  show "activation_frame_wire_bytes RawF32V1 example_desc = Inr 204"
    "activation_frame_wire_bytes Bf16RneV1 example_desc = Inr 200"
    by (simp_all add: activation_frame_wire_bytes_Inr v p part_wire_bytes_def example_shape encoded_len_def
        example_shape_facts [simplified] checked_wire_bytes_def checked_def FRAME_FIXED_HEADER_BYTES_def PART_HEADER_BYTES_def
        MAX_STAGE_ACTIVATION_BYTES_def)
qed

lemma le_bytes_unfold:
  "le_bytes 2 w = [ucast w, ucast (drop_bit 8 w)]"
  "le_bytes 4 w = [ucast w, ucast (drop_bit 8 w), ucast (drop_bit 16 w), ucast (drop_bit 24 w)]"
  by (simp_all add: eval_nat_numeral drop_bit_drop_bit)

lemma example_bf16: "codec_is_lossless Bf16RneV1 example_desc example_payload = Inr True"
proof -
  have p: "ad_parts example_desc = [example_part]" "pd_ggml_type example_part = GGML_TYPE_F32"
    by (simp_all add: example_desc_def example_part_def GGML_TYPE_F32_def)
  have e: "encode_activation Bf16RneV1 (activation_shape_new (Suc 0) 0 2) [0x3F800000, 0xC0200000] =
      Inr [0x80, 0x3F, 0x20, 0xC0]"
    by (simp add: encode_activation_def example_shape_facts [simplified] encode_bf16_def validate_finite_def is_finite_def
        checked_wire_bytes_def checked_def MAX_STAGE_ACTIVATION_BYTES_def encode_bf16_value_def
        f32_to_bf16_bits_def bf16_bits_to_f32_def le_bytes_unfold)
  have d: "decode_activation Bf16RneV1 (activation_shape_new (Suc 0) 0 2) [0x80, 0x3F, 0x20, 0xC0] =
      Inr [0x3F800000, 0xC0200000]"
    by (simp add: decode_activation_def example_shape_facts [simplified] decode_bf16_def validate_payload_bytes_def is_finite_def
        checked_wire_bytes_def checked_def MAX_STAGE_ACTIVATION_BYTES_def decode_half_def as_chunks.simps
        bf16_bits_to_f32_def)
  have b: "concat (map (le_bytes 4) [0x3F800000 :: f32, 0xC0200000]) = example_payload"
    by (simp add: example_payload_def le_bytes_unfold)
  show ?thesis
    using b by (simp add: codec_is_lossless_def p example_slice example_shape example_values e d)
qed

lemma example_raw: "codec_is_lossless RawF32V1 example_desc example_payload = Inr True"
proof -
  have p: "ad_parts example_desc = [example_part]" "pd_ggml_type example_part = GGML_TYPE_F32"
    by (simp_all add: example_desc_def example_part_def GGML_TYPE_F32_def)
  have e: "encode_activation RawF32V1 (activation_shape_new (Suc 0) 0 2) [0x3F800000, 0xC0200000] = Inr example_payload"
    by (simp add: encode_activation_def example_shape_facts [simplified] encode_raw_f32_def
        checked_wire_bytes_def checked_def MAX_STAGE_ACTIVATION_BYTES_def example_payload_def le_bytes_unfold)
  have b: "concat (map (le_bytes 4) [0x3F800000 :: f32, 0xC0200000]) = example_payload"
    by (simp add: example_payload_def le_bytes_unfold)
  show ?thesis
    using b by (simp add: codec_is_lossless_def p example_slice example_shape example_values e
        decode_activation_raw [OF e])
qed

lemma example_selected:
  "select_lossless_activation_codec example_desc example_payload [RawF32V1, Bf16RneV1] = Inr Bf16RneV1"
  by (simp add: select_lossless_activation_codec_def example_valid example_wire_bytes example_bf16 example_raw)

theorem selected_codec_restores_frame_witness:
  "\<exists>encoded. encode_activation_frame Bf16RneV1 example_desc example_payload = Inr encoded \<and>
     decode_activation_frame Bf16RneV1 encoded = Inr \<lparr>fr_desc = example_desc, fr_payload = example_payload\<rparr>"
  using selected_codec_restores_frame [OF example_selected example_arrays] by blast

lemma example_encoded:
  obtains b where "encode_activation_frame Bf16RneV1 example_desc example_payload = Inr b"
    and "decode_activation_frame Bf16RneV1 b = Inr \<lparr>fr_desc = example_desc, fr_payload = example_payload\<rparr>"
    and "length b = 200"
proof -
  have "\<exists>b. encode_activation_frame Bf16RneV1 example_desc example_payload = Inr b"
    by (rule frame_encodes [OF example_valid example_wire_bytes(2)]) (simp add: example_bf16)
  then obtain b where b: "encode_activation_frame Bf16RneV1 example_desc example_payload = Inr b" ..
  have "list_all (part_lossless Bf16RneV1 example_payload) (ad_parts example_desc)"
    using example_bf16 by (intro parts_lossless_True) (simp add: codec_is_lossless_def)
  then have "decode_activation_frame Bf16RneV1 b = Inr \<lparr>fr_desc = example_desc, fr_payload = example_payload\<rparr>"
    using frame_decodes [OF b example_arrays] by metis
  moreover have "length b = 200"
    using encode_activation_frame_Inr [OF b example_arrays] example_wire_bytes(2) by (metis sum.inject(2))
  ultimately show thesis using that b by blast
qed

definition example_message :: "byte list \<Rightarrow> stage_wire_message" where
  "example_message activation = \<lparr>msg_kind = VerifyWindow, msg_pos_start = 40, msg_token_count = 2,
     msg_state = (stage_state_header_new VerifyWindow)
       \<lparr>hd_seq_id := 3, hd_source_stage_index := 0, hd_activation_codec := Bf16RneV1\<rparr>,
     msg_request_id = 7, msg_session_id = 11, msg_sampling = Some default_sampling_config,
     msg_chat_sampling_metadata = Some [123, 125], msg_tokens = [5, 6], msg_positions = [],
     msg_activation = activation, msg_raw_bytes = []\<rparr>"

lemma default_sampling_written: "written (write_sampling_config default_sampling_config)"
  by (simp add: written_sampling_config written_string_list default_sampling_config_def ascii_bytes_def
      wire_limits)

lemma default_sampling_utf8: "sampling_utf8 default_sampling_config"
  by (simp add: sampling_utf8_def default_sampling_config_def ascii_bytes_def)

lemma example_message_written:
  assumes "decode_activation_frame Bf16RneV1 b = Inr \<lparr>fr_desc = example_desc, fr_payload = example_payload\<rparr>"
    and "length b = 200"
  shows "written (write_stage_message (example_message b)) \<and>
    receivable (Some (RawF32V1, AutoLosslessV1)) (example_message b)"
proof -
  let ?m = "example_message b"
  have al: "\<not> activationless (msg_kind ?m) (msg_state ?m)"
    by (simp add: activationless_def example_message_def stage_state_header_new_def Let_def kind_predicates)
  have "written (write_stage_message ?m)"
    using assms al
    by (simp add: written_stage_message message_activation_bytes_Inr)
      (simp add: example_message_def wire_limits default_sampling_written write_chat_metadata_def checked_def
        write_payload_def stage_state_header_new_def Let_def kind_predicates
        validate_activation_frame_header_def example_desc_def)
  moreover have "receivable (Some (RawF32V1, AutoLosslessV1)) ?m"
    using assms al
    by (simp add: receivable_def codec_admitted_def)
      (simp add: example_message_def default_sampling_utf8 stage_state_header_new_def Let_def kind_predicates
        raw_frame_bytes_def example_desc_def example_payload_def FRAME_FIXED_HEADER_BYTES_def PART_HEADER_BYTES_def wire_limits)
  ultimately show ?thesis ..
qed

section \<open>Messages\<close>

text \<open>
  (C19) What a stage writes is what the next stage reads. Whenever \<open>write_stage_message\<close> succeeds on
  a message that is \<open>receivable\<close>, the reader takes exactly its bytes off the stream (whatever
  follows is left, and for a stop message the sidebands are left too) and gives the message with
  its lists cut to the wire's limits and its flags set for the optional parts; and the activation
  frame of the message it gives is the frame the sender's bytes decode to, whatever codec the
  sender used.
\<close>

theorem stage_message_roundtrip:
  assumes "written (write_stage_message m)" and "receivable expected m"
  shows "read_stage_message_inner expected (fst (write_stage_message m) @ rest) =
      Inr (received m, unread_sidebands m @ rest) \<and>
    (\<not> activationless (msg_kind m) (msg_state m) \<longrightarrow>
      (\<exists>frame. decode_activation_frame (hd_activation_codec (msg_state m)) (msg_activation m) = Inr frame \<and>
         message_activation_frame (received m) = Inr (Some frame)))"
proof
  show "read_stage_message_inner expected (fst (write_stage_message m) @ rest) =
      Inr (received m, unread_sidebands m @ rest)"
    by (rule stage_message_bytes_read [OF assms])
  show "\<not> activationless (msg_kind m) (msg_state m) \<longrightarrow>
      (\<exists>frame. decode_activation_frame (hd_activation_codec (msg_state m)) (msg_activation m) = Inr frame \<and>
         message_activation_frame (received m) = Inr (Some frame))"
  proof
    assume al: "\<not> activationless (msg_kind m) (msg_state m)"
    obtain frame where f: "decode_activation_frame (hd_activation_codec (msg_state m)) (msg_activation m) = Inr frame"
      using assms(1) al by (auto simp: written_stage_message message_activation_bytes_Inr)
    then have "raw_frame_bytes frame \<le> MAX_STAGE_ACTIVATION_BYTES" using assms(2) al by (simp add: receivable_def)
    from encode_raw_decoded [OF f this] obtain b where
        b: "encode_raw_activation_frame frame = Inr b" "decode_raw_activation_frame b = Inr frame" by blast
    have "b \<noteq> []" using b(2) decode_activation_frame_nonempty by (metis decode_raw_activation_frame_def)
    then have "message_activation_frame (received m) = Inr (Some frame)"
      using al f b by (simp add: message_activation_frame_def received_def received_activation_def)
    then show "\<exists>frame. decode_activation_frame (hd_activation_codec (msg_state m)) (msg_activation m) = Inr frame \<and>
        message_activation_frame (received m) = Inr (Some frame)"
      using f by blast
  qed
qed

theorem stage_message_roundtrip_witness:
  "\<exists>b. encode_activation_frame Bf16RneV1 example_desc example_payload = Inr b \<and>
     read_stage_message_inner (Some (RawF32V1, AutoLosslessV1)) (fst (write_stage_message (example_message b)) @ [1, 2]) =
       Inr (received (example_message b), [1, 2])"
proof -
  obtain b where b: "encode_activation_frame Bf16RneV1 example_desc example_payload = Inr b"
      "decode_activation_frame Bf16RneV1 b = Inr \<lparr>fr_desc = example_desc, fr_payload = example_payload\<rparr>"
      "length b = 200"
    by (rule example_encoded)
  note w = example_message_written [OF b(2,3)]
  have "unread_sidebands (example_message b) = []" by (simp add: unread_sidebands_def example_message_def)
  then show ?thesis
    using stage_message_roundtrip [OF w [THEN conjunct1] w [THEN conjunct2], of "[1, 2]"] b(1) by auto
qed

text \<open>
  A truncated message is never taken for another one: every proper prefix of the bytes of a
  message (one that leaves no sidebands unread) makes the reader report the end of the stream.
\<close>

theorem truncated_message_is_eof:
  assumes "written (write_stage_message m)" and "receivable expected m" and "unread_sidebands m = []"
    and "strict_prefix c (fst (write_stage_message m))"
  shows "read_stage_message_inner expected c = Inl unexpected_eof"
proof -
  have "read_stage_message_inner expected (fst (write_stage_message m)) = Inr (received m, [])"
    using stage_message_bytes_read [OF assms(1,2), of "[]"] assms(3) by simp
  from self_delimitingD [OF read_stage_message_delimiting this] show ?thesis using assms(4) by auto
qed

lemma stop_written: "written (write_stage_message (stop_with_identity 7 11)) \<and> receivable expected (stop_with_identity 7 11)"
  by (simp add: written_stage_message message_activation_bytes_Inr receivable_def codec_admitted_def
      activationless_def write_payload_def stop_with_identity_def stage_state_header_new_def Let_def kind_predicates)

text \<open>
  (C32) Type safety of the reader, and what can be sent on. Every message it accepts satisfies the
  invariant of accepted messages (version, flags that agree with the optional parts, UTF-8 strings,
  bounded lists, a frame whose descriptor is valid and belongs to the message). The reader keeps the
  activation in raw form under the codec of the header, so the writer takes an accepted message
  exactly when the activation is absent by kind or is a frame of the message under that codec, and never when it
  is empty and not absent by kind. Under the raw codec a non-empty activation always is such a frame; then,
  and without an activation, the message is read back unchanged.
\<close>

theorem accepted_messages_resend:
  assumes "read_stage_message_inner expected s = Inr (m, r)"
  shows "accepted_message expected m \<and>
    (written (write_stage_message m) \<longleftrightarrow> activationless (msg_kind m) (msg_state m) \<or>
       (\<exists>frame. decode_activation_frame (hd_activation_codec (msg_state m)) (msg_activation m) = Inr frame \<and>
          validate_activation_frame_header frame (msg_token_count m) (hd_source_stage_index (msg_state m)) = Inr ())) \<and>
    (\<not> activationless (msg_kind m) (msg_state m) \<and> msg_activation m = [] \<longrightarrow>
       \<not> written (write_stage_message m)) \<and>
    (activationless (msg_kind m) (msg_state m) \<or>
       msg_activation m \<noteq> [] \<and> hd_activation_codec (msg_state m) = RawF32V1 \<longrightarrow>
     written (write_stage_message m) \<and>
     read_stage_message_inner None (fst (write_stage_message m) @ t) = Inr (m, t))"
proof -
  have a: "accepted_message expected m" by (rule accepted_message_read [OF assms])
  have "written (write_stage_message m) \<and> read_stage_message_inner None (fst (write_stage_message m) @ t) = Inr (m, t)"
    if "activationless (msg_kind m) (msg_state m) \<or>
       msg_activation m \<noteq> [] \<and> hd_activation_codec (msg_state m) = RawF32V1"
  proof -
    have "unread_sidebands m = []" using a by (simp add: accepted_message_def unread_sidebands_def)
    then show ?thesis using accepted_resent [OF a that] stage_message_bytes_read [of m None t] by simp
  qed
  then show ?thesis using a accepted_written_iff [OF a] decode_activation_frame_nonempty by fastforce
qed

theorem accepted_messages_resend_witness:
  "accepted_message None (received (stop_with_identity 7 11)) \<and>
   written (write_stage_message (received (stop_with_identity 7 11)))"
proof -
  let ?m = "stop_with_identity 7 11"
  have "read_stage_message_inner None (fst (write_stage_message ?m) @ []) = Inr (received ?m, unread_sidebands ?m @ [])"
    using stop_written by (intro stage_message_bytes_read) blast+
  from accepted_messages_resend [OF this] show ?thesis
    by (simp add: activationless_def received_def stop_with_identity_def)
qed

text \<open>
  \<open>estimated_wire_bytes\<close> is exact: it is the number of bytes \<open>write_stage_message\<close> sends, for
  every message it accepts.
\<close>

theorem estimated_wire_bytes_exact:
  assumes "written (write_stage_message m)"
  shows "length (fst (write_stage_message m)) = estimated_wire_bytes m"
  by (rule message_length [OF assms])

section \<open>Replies and half floats\<close>

text \<open>
  A reply that is sent is received: kind, predictions, native draft, window and all the
  statistics, with the rest of the stream left alone.
\<close>

theorem reply_roundtrip:
  assumes "written (send_reply_message reply)"
  shows "recv_reply (fst (send_reply_message reply) @ rest) = Inr (reply, rest)"
  by (rule recv_reply_append [OF assms])

definition example_reply :: stage_reply where
  "example_reply = \<lparr>rep_kind = PredictedTokens, rep_predicted = 42, rep_predicted_tokens = [42, - 1],
     rep_native_mtp_draft = Some \<lparr>draft_token_ids = [43, 44], draft_proposal_compute_us = 12345\<rparr>,
     rep_window = \<lparr>window_id = 3\<rparr>, rep_stats = default_reply_stats\<lparr>kv_lookup_hits := 5\<rparr>\<rparr>"

text \<open>
  Both 16-bit formats are exact on their own values: converting any bfloat16, and any binary16
  that is finite (subnormals included), to binary32 and back gives the same bits.
\<close>

theorem half_floats_exact:
  "f32_to_bf16_bits (bf16_bits_to_f32 b) = b \<and>
   (f32_to_f16_bits (f16_bits_to_f32 b) = b \<or> drop_bit 10 b AND 0x1F = 0x1F)"
  using bf16_exact f16_exact by blast

end
