(* ===== verification/Placement.thy ===== *)
theory Placement
  imports Prelude
begin

text \<open>
  The memory and latency planner of \<open>crates/skippy-coordinator/src/topology.rs\<close> (\<open>plan_topology\<close> and
  what it calls) with its two submodules: \<open>topology/performance.rs\<close>, the dynamic program that cuts
  the layers for throughput, and \<open>topology/locked.rs\<close>, the planner for pinned stages. A slice out of
  bounds and a division by zero panic in Rust; where a public function can reach one from its
  arguments, the result is an \<open>outcome\<close> with \<open>Panic\<close>. The slices inside \<open>fit_candidate\<close> and
  \<open>fit_locked_candidate\<close> are in bounds by construction (lemmas in \<open>PlacementFit\<close>). The 128-bit sums
  are natural numbers: they cannot overflow, since a slice of \<open>u64\<close> values has at most \<open>2 ^ 32\<close> of them.
\<close>

section \<open>Data\<close>

datatype 'a outcome = Panic | Done (outcome_value: 'a)

definition outcome_bind :: "'a outcome \<Rightarrow> ('a \<Rightarrow> 'b outcome) \<Rightarrow> 'b outcome" where
  "outcome_bind x f = (case x of Panic \<Rightarrow> Panic | Done a \<Rightarrow> f a)"

lemma outcome_bind_simps [simp]:
  "outcome_bind (Done a) f = f a"
  "outcome_bind Panic f = Panic"
  "outcome_bind x f = Done b \<longleftrightarrow> (\<exists>a. x = Done a \<and> f a = Done b)"
  by (cases x; simp add: outcome_bind_def)+

definition MINIMUM_AUTO_CONTEXT_LENGTH :: nat where
  "MINIMUM_AUTO_CONTEXT_LENGTH = 65536"

definition CONTEXT_STEPS :: "nat list" where
  "CONTEXT_STEPS = [512, 1024, 2048, 4096, 8192, 16384, 32768, 65536, 131072]"

definition FLOOR_CTX_PER_SESSION :: nat where
  "FLOOR_CTX_PER_SESSION = 4096"

definition TOPOLOGY_LLAMA_MAX_SEQ :: nat where
  "TOPOLOGY_LLAMA_MAX_SEQ = 256"

definition SEQUENCE_IDS_PER_LANE_WITH_RESIDENT_CACHE :: nat where
  "SEQUENCE_IDS_PER_LANE_WITH_RESIDENT_CACHE = 3"

definition KV_COMPUTE_RESERVE_NUMERATOR :: nat where
  "KV_COMPUTE_RESERVE_NUMERATOR = 100"

definition KV_COMPUTE_RESERVE_DENOMINATOR :: nat where
  "KV_COMPUTE_RESERVE_DENOMINATOR = 85"

definition NANOS_PER_SECOND :: nat where
  "NANOS_PER_SECOND = 1000000000"

record placement_node =
  pn_node_id :: string
  pn_detected_vram_bytes :: nat
  pn_max_vram_bytes :: "nat option"
  pn_runtime_headroom_bytes :: nat
  pn_stage_transfer_latency_ms :: "nat option"
  pn_decode_bytes_per_second :: "nat option"

record placement_input =
  pi_native_context_length :: nat
  pi_layer_count :: nat
  pi_model_weight_bytes :: nat
  pi_layer_weight_bytes :: "nat list"
  pi_kv_bytes_per_token :: nat
  pi_recurrent_bytes_per_sequence_by_layer :: "nat list"
  pi_reserved_sequence_ids :: nat
  pi_minimum_nodes :: nat
  pi_nodes :: "placement_node list"
  pi_context_length_override :: "nat option"
  pi_parallel_lanes_override :: "nat option"
  pi_target_decode_tpot_ms :: "nat option"
  pi_auto_balance :: bool

record placed_stage =
  ps_stage_id :: string
  ps_stage_index :: nat
  ps_node_id :: string
  ps_layer_start :: nat
  ps_layer_end :: nat
  ps_parameter_bytes :: nat

record stage_decode_estimate =
  de_stage_index :: nat
  de_node_id :: string
  de_layer_start :: nat
  de_layer_end :: nat
  de_decode_nanos :: nat

record throughput_estimate =
  te_stages :: "stage_decode_estimate list"
  te_bottleneck_decode_nanos :: nat

record placement_plan =
  pp_context_length :: nat
  pp_parallel_lanes :: nat
  pp_stages :: "placed_stage list"
  pp_estimated_decode_network_ms_per_token :: "nat option"
  pp_decode_tpot_target_met :: "bool option"
  pp_throughput :: "throughput_estimate option"

datatype placement_error =
    MissingNativeContext
  | MissingLayers
  | MissingModelWeights
  | MissingKvBytesPerToken
  | MissingNodes
  | ContextBelowMinimum nat nat
  | ContextExceedsNative nat nat
  | ZeroParallelLanes
  | NoSequenceIdCapacity
  | ParallelLanesExceedSequenceCapacity nat nat
  | NoValidTopology nat
  | LockedStageCount nat nat
  | LockedUnknownNode string
  | LockedDuplicateNode string
  | LockedNonContiguousRange nat nat nat
  | LockedInvalidRange nat nat nat
  | LockedIncompleteCoverage nat nat
  | LockedTopologyDoesNotFit nat

record usable_node =
  un_node_id :: string
  un_usable_vram_bytes :: nat
  un_stage_transfer_latency_ms :: "nat option"
  un_decode_bytes_per_second :: "nat option"

record placement_candidate =
  ca_plan :: placement_plan
  ca_minimum_remaining_vram :: nat
  ca_total_remaining_vram :: nat

record locked_topology_stage =
  lk_node_id :: string
  lk_layer_start :: nat
  lk_layer_end :: nat

section \<open>Input, contexts and lanes\<close>

definition validate_placement_input :: "placement_input \<Rightarrow> placement_error + unit" where
  "validate_placement_input input =
     (if pi_native_context_length input = 0 then Inl MissingNativeContext
      else if pi_layer_count input = 0 then Inl MissingLayers
      else if pi_model_weight_bytes input = 0 then Inl MissingModelWeights
      else
        let recurrent_only =
              length (pi_recurrent_bytes_per_sequence_by_layer input) = pi_layer_count input \<and>
              list_all (\<lambda>bytes. 0 < bytes) (pi_recurrent_bytes_per_sequence_by_layer input)
        in if pi_kv_bytes_per_token input = 0 \<and> \<not> recurrent_only then Inl MissingKvBytesPerToken
           else if pi_nodes input = [] then Inl MissingNodes
           else Inr ())"

definition minimum_valid_context :: "nat \<Rightarrow> nat" where
  "minimum_valid_context native_context = clamp native_context 1 MINIMUM_AUTO_CONTEXT_LENGTH"

text \<open>\<open>sort_unstable\<close> on integers, then \<open>dedup\<close>, which drops repeated neighbours.\<close>

definition context_candidates :: "nat \<Rightarrow> nat \<Rightarrow> nat option \<Rightarrow> placement_error + nat list" where
  "context_candidates native_context minimum_context override_context =
     (case override_context of
        Some requested \<Rightarrow>
          if native_context < requested then Inl (ContextExceedsNative requested native_context)
          else Inr [requested]
      | None \<Rightarrow>
          Inr (rev (remdups_adj (sort
            (filter (\<lambda>context. minimum_context \<le> context \<and> context \<le> native_context) CONTEXT_STEPS
             @ [native_context])))))"

definition sequence_capacity :: "nat \<Rightarrow> nat" where
  "sequence_capacity reserved_sequence_ids =
     sat_sub TOPOLOGY_LLAMA_MAX_SEQ reserved_sequence_ids div SEQUENCE_IDS_PER_LANE_WITH_RESIDENT_CACHE"

definition parallel_lane_candidates :: "nat option \<Rightarrow> nat \<Rightarrow> nat \<Rightarrow> nat \<Rightarrow> placement_error + nat list" where
  "parallel_lane_candidates override_lanes context_length kv_bytes_per_token reserved_sequence_ids =
     (let capacity = sequence_capacity reserved_sequence_ids
      in if capacity = 0 then Inl NoSequenceIdCapacity
         else
           case override_lanes of
             Some lanes \<Rightarrow>
               if lanes = 0 then Inl ZeroParallelLanes
               else if capacity < lanes then Inl (ParallelLanesExceedSequenceCapacity lanes capacity)
               else Inr [lanes]
           | None \<Rightarrow>
               let max_seq = clamp (context_length div FLOOR_CTX_PER_SESSION) 1 capacity
               in Inr (rev [1..<max_seq + 1]))"

section \<open>Nodes and their subsets\<close>

definition usable_node_of :: "placement_node \<Rightarrow> usable_node" where
  "usable_node_of node =
     (let capped = (case pn_max_vram_bytes node of
                      Some m \<Rightarrow> min (pn_detected_vram_bytes node) m
                    | None \<Rightarrow> pn_detected_vram_bytes node)
      in \<lparr>un_node_id = pn_node_id node,
          un_usable_vram_bytes = sat_sub capped (pn_runtime_headroom_bytes node),
          un_stage_transfer_latency_ms = pn_stage_transfer_latency_ms node,
          un_decode_bytes_per_second = pn_decode_bytes_per_second node\<rparr>)"

definition usable_node_cmp :: "usable_node \<Rightarrow> usable_node \<Rightarrow> ordering" where
  "usable_node_cmp left right =
     then_with (cmp (un_usable_vram_bytes right) (un_usable_vram_bytes left))
       (cmp (un_node_id left) (un_node_id right))"

definition usable_nodes :: "placement_node list \<Rightarrow> usable_node list" where
  "usable_nodes nodes = sort_by usable_node_cmp (map usable_node_of nodes)"

text \<open>The subsets the visitor is called on, in the order of the calls.\<close>

function visit_node_subsets :: "'a list \<Rightarrow> nat \<Rightarrow> nat \<Rightarrow> 'a list \<Rightarrow> 'a list list" where
  "visit_node_subsets nodes n start current =
     (if length current = n then [current]
      else
        let needed = n - length current
        in if sat_sub (length nodes) start < needed then []
           else concat (map (\<lambda>index. visit_node_subsets nodes n (index + 1) (current @ [nodes ! index]))
                         [start..<length nodes - needed + 1]))"
  by pat_completeness auto

termination
  by (relation "measure (\<lambda>(nodes, n, start, current). length nodes + 1 - start)") auto

declare visit_node_subsets.simps [simp del]

definition for_each_node_subset :: "'a list \<Rightarrow> nat \<Rightarrow> 'a list list" where
  "for_each_node_subset nodes n = visit_node_subsets nodes n 0 []"

section \<open>Bytes per layer\<close>

definition layer_weight_bytes :: "placement_input \<Rightarrow> nat list" where
  "layer_weight_bytes input =
     (if length (pi_layer_weight_bytes input) = pi_layer_count input then pi_layer_weight_bytes input
      else replicate (pi_layer_count input)
             (div_ceil (pi_model_weight_bytes input) (pi_layer_count input)))"

definition recurrent_bytes_by_layer :: "placement_input \<Rightarrow> nat list" where
  "recurrent_bytes_by_layer input =
     (if length (pi_recurrent_bytes_per_sequence_by_layer input) = pi_layer_count input
      then pi_recurrent_bytes_per_sequence_by_layer input
      else replicate (pi_layer_count input) 0)"

definition candidate_bytes_per_layer :: "nat \<Rightarrow> nat \<Rightarrow> nat \<Rightarrow> nat \<Rightarrow> nat option" where
  "candidate_bytes_per_layer weight_per_layer kv_per_layer context_length parallel_lanes =
     Option.bind (checked U128_MAX (kv_per_layer * context_length)) (\<lambda>kv_bytes.
     Option.bind (checked U128_MAX (kv_bytes * KV_COMPUTE_RESERVE_NUMERATOR)) (\<lambda>reserved.
     Option.bind (checked U128_MAX (weight_per_layer + div_ceil reserved KV_COMPUTE_RESERVE_DENOMINATOR))
       (\<lambda>total. checked U64_MAX total)))"

text \<open>Collecting an iterator of options: \<open>None\<close> as soon as an item is.\<close>

fun collect_options :: "('a \<Rightarrow> 'b option) \<Rightarrow> 'a list \<Rightarrow> 'b list option" where
  "collect_options f [] = Some []"
| "collect_options f (x # xs) =
     (case f x of None \<Rightarrow> None | Some y \<Rightarrow> map_option ((#) y) (collect_options f xs))"

definition layer_bytes :: "nat \<Rightarrow> nat \<Rightarrow> nat \<Rightarrow> nat \<times> nat \<Rightarrow> nat option" where
  "layer_bytes kv_per_layer context_length parallel_lanes layer =
     (let (weight, recurrent_bytes) = layer
      in Option.bind (candidate_bytes_per_layer weight kv_per_layer context_length parallel_lanes) (\<lambda>base.
         Option.bind (checked U64_MAX (recurrent_bytes * parallel_lanes)) (\<lambda>recurrent.
         checked U64_MAX (base + recurrent))))"

definition layer_required_bytes :: "nat list \<Rightarrow> nat list \<Rightarrow> nat \<Rightarrow> nat \<Rightarrow> nat \<Rightarrow> nat list option" where
  "layer_required_bytes layer_weights recurrent_by_layer kv_per_layer context_length parallel_lanes =
     collect_options (layer_bytes kv_per_layer context_length parallel_lanes)
       (zip layer_weights recurrent_by_layer)"

text \<open>The bytes a placement at a context and a number of lanes charges to each layer.\<close>

definition required_for :: "placement_input \<Rightarrow> nat \<Rightarrow> nat \<Rightarrow> nat list option" where
  "required_for input context_length parallel_lanes =
     layer_required_bytes (layer_weight_bytes input) (recurrent_bytes_by_layer input)
       (div_ceil (pi_kv_bytes_per_token input) (pi_layer_count input)) context_length parallel_lanes"

definition sum_u64 :: "nat list \<Rightarrow> nat" where
  "sum_u64 values = sat_sum values"

fun count_fitting :: "nat list \<Rightarrow> nat \<Rightarrow> nat \<Rightarrow> nat" where
  "count_fitting [] running capacity = 0"
| "count_fitting (bytes # rest) running capacity =
     (let next_total = sat_add running bytes
      in if capacity < next_total then 0 else Suc (count_fitting rest next_total capacity))"

definition max_contiguous_layers_from :: "nat list \<Rightarrow> nat \<Rightarrow> nat \<Rightarrow> nat \<Rightarrow> nat" where
  "max_contiguous_layers_from layer_required start limit capacity =
     count_fitting (take limit (drop start layer_required)) 0 capacity"

text \<open>\<open>values[start..end]\<close> for a range in bounds.\<close>

definition layer_slice :: "'a list \<Rightarrow> nat \<Rightarrow> nat \<Rightarrow> 'a list" where
  "layer_slice values start stop = take (stop - start) (drop start values)"

section \<open>Throughput\<close>

definition idle_basis_points :: "throughput_estimate \<Rightarrow> nat list" where
  "idle_basis_points estimate =
     (let bottleneck = max 1 (te_bottleneck_decode_nanos estimate)
      in map (\<lambda>stage.
           let busy = min (de_decode_nanos stage) bottleneck
           in ((bottleneck - busy) * 10000) div bottleneck) (te_stages estimate))"

definition stage_nanos :: "nat \<Rightarrow> nat \<Rightarrow> nat" where
  "stage_nanos bytes bytes_per_second = div_ceil (bytes * NANOS_PER_SECOND) bytes_per_second"

definition decode_nanos :: "nat \<Rightarrow> nat \<Rightarrow> nat" where
  "decode_nanos bytes bytes_per_second = min U64_MAX (stage_nanos bytes bytes_per_second)"

definition find_node :: "usable_node list \<Rightarrow> string \<Rightarrow> usable_node option" where
  "find_node nodes node_id = find (\<lambda>node. un_node_id node = node_id) nodes"

definition positive_speed :: "usable_node \<Rightarrow> nat option" where
  "positive_speed node = Option.bind (un_decode_bytes_per_second node)
     (\<lambda>speed. if 0 < speed then Some speed else None)"

definition node_speed :: "usable_node list \<Rightarrow> string \<Rightarrow> nat option" where
  "node_speed nodes node_id = Option.bind (find_node nodes node_id) positive_speed"

definition estimate_stage :: "usable_node list \<Rightarrow> nat list \<Rightarrow> placed_stage \<Rightarrow> nat \<Rightarrow> stage_decode_estimate" where
  "estimate_stage nodes layer_weights stage speed =
     \<lparr>de_stage_index = ps_stage_index stage, de_node_id = ps_node_id stage,
      de_layer_start = ps_layer_start stage, de_layer_end = ps_layer_end stage,
      de_decode_nanos = decode_nanos
        (sum_u64 (layer_slice layer_weights (ps_layer_start stage) (ps_layer_end stage))) speed\<rparr>"

fun estimate_stages :: "usable_node list \<Rightarrow> nat list \<Rightarrow> placed_stage list \<Rightarrow>
    stage_decode_estimate list option outcome" where
  "estimate_stages nodes layer_weights [] = Done (Some [])"
| "estimate_stages nodes layer_weights (stage # stages) =
     (case node_speed nodes (ps_node_id stage) of
        None \<Rightarrow> Done None
      | Some speed \<Rightarrow>
          if ps_layer_end stage < ps_layer_start stage \<or> length layer_weights < ps_layer_end stage then Panic
          else outcome_bind (estimate_stages nodes layer_weights stages) (\<lambda>rest.
            Done (map_option ((#) (estimate_stage nodes layer_weights stage speed)) rest)))"

definition estimate_throughput :: "placed_stage list \<Rightarrow> usable_node list \<Rightarrow> nat list \<Rightarrow>
    throughput_estimate option outcome" where
  "estimate_throughput stages nodes layer_weights =
     outcome_bind (estimate_stages nodes layer_weights stages) (\<lambda>estimates.
     Done (map_option (\<lambda>estimates.
       \<lparr>te_stages = estimates,
        te_bottleneck_decode_nanos = fold max (map de_decode_nanos estimates) 0\<rparr>) estimates))"

section \<open>The balanced cut\<close>

fun prefix_sums_from :: "nat \<Rightarrow> nat list \<Rightarrow> nat list" where
  "prefix_sums_from acc [] = [acc]"
| "prefix_sums_from acc (v # vs) = acc # prefix_sums_from (acc + v) vs"

definition prefix_sums :: "nat list \<Rightarrow> nat list" where
  "prefix_sums values = prefix_sums_from 0 values"

definition range_sum :: "nat list \<Rightarrow> nat \<Rightarrow> nat \<Rightarrow> nat" where
  "range_sum sums start stop = sums ! stop - sums ! start"

text \<open>
  A row of the two tables: the pair \<open>(best[stage][end], cut[stage][end])\<close> for each \<open>end\<close>. The cells
  outside the loops' ranges keep their initial values. A stage is its speed and its capacity.
\<close>

type_synonym cut_cell = "nat \<times> nat"

definition unreachable :: nat where
  "unreachable = U128_MAX"

definition first_row :: "nat list \<Rightarrow> nat list \<Rightarrow> nat \<Rightarrow> nat \<Rightarrow> nat \<times> nat \<Rightarrow> cut_cell list" where
  "first_row weight_prefix required_prefix layer_count stage_count stage =
     (let (speed, capacity) = stage
      in map (\<lambda>stop.
           if 1 \<le> stop \<and> stop \<le> layer_count - (stage_count - 1)
              \<and> range_sum required_prefix 0 stop \<le> capacity
           then (stage_nanos (range_sum weight_prefix 0 stop) speed, 0) else (unreachable, 0))
         [0..<layer_count + 1])"

definition improve_cell :: "nat list \<Rightarrow> nat list \<Rightarrow> nat \<times> nat \<Rightarrow> cut_cell list \<Rightarrow> nat \<Rightarrow> cut_cell \<Rightarrow> nat \<Rightarrow>
    cut_cell" where
  "improve_cell weight_prefix required_prefix stage previous_row stop cell start =
     (let (speed, capacity) = stage; previous = fst (previous_row ! start)
      in if previous = unreachable then cell
         else if capacity < range_sum required_prefix start stop then cell
         else
           let bottleneck = max previous (stage_nanos (range_sum weight_prefix start stop) speed)
           in if bottleneck \<le> fst cell then (bottleneck, start) else cell)"

definition next_row :: "nat list \<Rightarrow> nat list \<Rightarrow> nat \<Rightarrow> nat \<Rightarrow> nat \<Rightarrow> nat \<times> nat \<Rightarrow> cut_cell list \<Rightarrow>
    cut_cell list" where
  "next_row weight_prefix required_prefix layer_count stage_count index stage previous_row =
     (let later_stages = stage_count - 1 - index
      in map (\<lambda>stop.
           if index + 1 \<le> stop \<and> stop \<le> layer_count - later_stages
           then foldl (improve_cell weight_prefix required_prefix stage previous_row stop) (unreachable, 0)
                  [index..<stop]
           else (unreachable, 0))
         [0..<layer_count + 1])"

text \<open>The rows of the stages after the first, latest stage first.\<close>

fun later_rows :: "nat list \<Rightarrow> nat list \<Rightarrow> nat \<Rightarrow> nat \<Rightarrow> nat \<Rightarrow> (nat \<times> nat) list \<Rightarrow> cut_cell list list \<Rightarrow>
    cut_cell list list" where
  "later_rows weight_prefix required_prefix layer_count stage_count index [] rows = rows"
| "later_rows weight_prefix required_prefix layer_count stage_count index (stage # stages) rows =
     later_rows weight_prefix required_prefix layer_count stage_count (index + 1) stages
       (next_row weight_prefix required_prefix layer_count stage_count index stage (hd rows) # rows)"

text \<open>The ends of the stages read off the cuts, from the last stage back.\<close>

fun trace_ends :: "cut_cell list list \<Rightarrow> nat \<Rightarrow> nat list" where
  "trace_ends [] stop = []"
| "trace_ends (row # rows) stop = trace_ends rows (snd (row ! stop)) @ [stop]"

definition stage_limits :: "usable_node list \<Rightarrow> placed_stage \<Rightarrow> (nat \<times> nat) option" where
  "stage_limits nodes stage =
     Option.bind (find_node nodes (ps_node_id stage)) (\<lambda>node.
     Option.bind (positive_speed node) (\<lambda>speed. Some (speed, un_usable_vram_bytes node)))"

fun balanced_stages :: "nat list \<Rightarrow> nat \<Rightarrow> placed_stage list \<Rightarrow> nat list \<Rightarrow> placed_stage list" where
  "balanced_stages weight_prefix start (stage # stages) (stop # ends) =
     stage\<lparr>ps_layer_start := start mod 2 ^ 32, ps_layer_end := stop mod 2 ^ 32,
           ps_parameter_bytes := range_sum weight_prefix start stop mod 2 ^ 64\<rparr>
       # balanced_stages weight_prefix stop stages ends"
| "balanced_stages weight_prefix start stages ends = []"

definition balance_stages :: "placed_stage list \<Rightarrow> usable_node list \<Rightarrow> nat list \<Rightarrow> nat list \<Rightarrow>
    placed_stage list option" where
  "balance_stages stages nodes layer_weights layer_required =
     (let layer_count = length layer_weights; stage_count = length stages
      in if stage_count = 0 \<or> layer_count < stage_count \<or> length layer_required \<noteq> layer_count then None
         else
           Option.bind (collect_options (stage_limits nodes) stages) (\<lambda>limits.
           let weight_prefix = prefix_sums layer_weights;
               required_prefix = prefix_sums layer_required;
               rows = later_rows weight_prefix required_prefix layer_count stage_count 1 (tl limits)
                        [first_row weight_prefix required_prefix layer_count stage_count (hd limits)]
           in if fst (hd rows ! layer_count) = unreachable then None
              else Some (balanced_stages weight_prefix 0 stages (trace_ends rows layer_count))))"

section \<open>Fitting stages into memory\<close>

text \<open>The loop over the nodes: the next layer, the stages so far and the memory that remains.\<close>

primrec fit_stages :: "nat list \<Rightarrow> nat list \<Rightarrow> nat \<Rightarrow> usable_node list \<Rightarrow> nat \<Rightarrow> nat \<Rightarrow> placed_stage list \<Rightarrow>
    nat \<Rightarrow> nat \<Rightarrow> (nat \<times> placed_stage list \<times> nat \<times> nat) option" where
  "fit_stages layer_weights layer_required layer_count [] stage_index next_layer stages
     minimum_remaining total_remaining = Some (next_layer, stages, minimum_remaining, total_remaining)"
| "fit_stages layer_weights layer_required layer_count (node # later) stage_index next_layer stages
     minimum_remaining total_remaining =
     (let remaining_layers = layer_count - next_layer;
          remaining_nodes = length (node # later);
          min_for_later = sat_sub remaining_nodes 1;
          assignable = sat_sub remaining_layers min_for_later;
          layer_span = min assignable
            (max_contiguous_layers_from layer_required next_layer assignable (un_usable_vram_bytes node))
      in if layer_span = 0 then None
         else
           let layer_end = next_layer + layer_span;
               required_bytes = sum_u64 (layer_slice layer_required next_layer layer_end)
           in if un_usable_vram_bytes node < required_bytes then None
              else
                let remaining = un_usable_vram_bytes node - required_bytes
                in fit_stages layer_weights layer_required layer_count later (stage_index + 1) layer_end
                     (stages @ [\<lparr>ps_stage_id = ''stage-'' @ dec stage_index, ps_stage_index = stage_index,
                        ps_node_id = un_node_id node, ps_layer_start = next_layer, ps_layer_end = layer_end,
                        ps_parameter_bytes = sum_u64 (layer_slice layer_weights next_layer layer_end)\<rparr>])
                     (min minimum_remaining remaining) (total_remaining + remaining))"

definition estimate_decode_network_ms_per_token :: "usable_node list \<Rightarrow> nat option" where
  "estimate_decode_network_ms_per_token nodes =
     (case List.map_filter un_stage_transfer_latency_ms nodes of
        [] \<Rightarrow> None
      | latency # latencies \<Rightarrow> Some (sat_mul32 (fold max latencies latency) (length nodes)))"

definition decode_tpot_target_met :: "nat option \<Rightarrow> nat option \<Rightarrow> bool option" where
  "decode_tpot_target_met estimate target =
     Option.bind estimate (\<lambda>e. Option.bind target (\<lambda>t. Some (e \<le> t)))"

definition candidate_for :: "placement_input \<Rightarrow> usable_node list \<Rightarrow> nat \<Rightarrow> nat \<Rightarrow>
    placed_stage list \<Rightarrow> nat \<Rightarrow> nat \<Rightarrow> placement_candidate" where
  "candidate_for input nodes context_length parallel_lanes stages minimum_remaining total_remaining =
     (let estimated = estimate_decode_network_ms_per_token nodes
      in \<lparr>ca_plan = \<lparr>pp_context_length = context_length, pp_parallel_lanes = parallel_lanes, pp_stages = stages,
            pp_estimated_decode_network_ms_per_token = estimated,
            pp_decode_tpot_target_met = decode_tpot_target_met estimated (pi_target_decode_tpot_ms input),
            pp_throughput = None\<rparr>,
          ca_minimum_remaining_vram = minimum_remaining, ca_total_remaining_vram = total_remaining\<rparr>)"

definition fit_candidate :: "placement_input \<Rightarrow> usable_node list \<Rightarrow> nat \<Rightarrow> nat \<Rightarrow> placement_candidate option" where
  "fit_candidate input nodes context_length parallel_lanes =
     (let layer_count = pi_layer_count input
      in if layer_count < length nodes then None
         else
           Option.bind (required_for input context_length parallel_lanes) (\<lambda>layer_required.
           Option.bind (fit_stages (layer_weight_bytes input) layer_required layer_count
             (sort_by usable_node_cmp nodes) 0 0 [] U64_MAX 0) (\<lambda>(next_layer, stages, minimum_remaining, total_remaining).
           if next_layer \<noteq> layer_count then None
           else Some (candidate_for input nodes context_length parallel_lanes stages
                        minimum_remaining total_remaining))))"

section \<open>Choosing a candidate\<close>

definition candidate_cmp :: "placement_candidate \<Rightarrow> placement_candidate \<Rightarrow> ordering" where
  "candidate_cmp a b =
     then_with (cmp (ca_minimum_remaining_vram a) (ca_minimum_remaining_vram b))
       (then_with (cmp (ca_total_remaining_vram a) (ca_total_remaining_vram b))
          (cmp (map ps_node_id (pp_stages (ca_plan b))) (map ps_node_id (pp_stages (ca_plan a)))))"

definition network_estimate :: "placement_candidate \<Rightarrow> nat" where
  "network_estimate candidate =
     (case pp_estimated_decode_network_ms_per_token (ca_plan candidate) of Some n \<Rightarrow> n | None \<Rightarrow> 0)"

definition latency_aware_planning :: "usable_node list \<Rightarrow> bool" where
  "latency_aware_planning nodes = list_ex (\<lambda>node. un_stage_transfer_latency_ms node \<noteq> None) nodes"

definition candidate_has_required_stage0 :: "placement_candidate \<Rightarrow> string option \<Rightarrow> bool" where
  "candidate_has_required_stage0 candidate required_stage0 =
     (case required_stage0 of
        None \<Rightarrow> True
      | Some node_id \<Rightarrow>
          (case pp_stages (ca_plan candidate) of [] \<Rightarrow> False | stage # _ \<Rightarrow> ps_node_id stage = node_id))"

definition candidate_better_for_same_shape :: "placement_candidate \<Rightarrow> placement_candidate \<Rightarrow> bool" where
  "candidate_better_for_same_shape candidate current \<longleftrightarrow>
     network_estimate candidate < network_estimate current
     \<or> network_estimate candidate = network_estimate current \<and> candidate_cmp candidate current = Greater"

definition target_met :: "placement_input \<Rightarrow> placement_candidate \<Rightarrow> bool" where
  "target_met input candidate =
     (case decode_tpot_target_met (pp_estimated_decode_network_ms_per_token (ca_plan candidate))
             (pi_target_decode_tpot_ms input) of Some met \<Rightarrow> met | None \<Rightarrow> True)"

definition latency_candidate_ordering :: "placement_input \<Rightarrow> placement_candidate \<Rightarrow> placement_candidate \<Rightarrow>
    ordering" where
  "latency_candidate_ordering input a b =
     then_with (cmp (target_met input a) (target_met input b))
       (then_with (cmp (network_estimate b) (network_estimate a))
          (then_with (cmp (pp_context_length (ca_plan a)) (pp_context_length (ca_plan b)))
             (then_with (cmp (pp_parallel_lanes (ca_plan a)) (pp_parallel_lanes (ca_plan b)))
                (candidate_cmp a b))))"

definition latency_candidate_better :: "placement_input \<Rightarrow> placement_candidate \<Rightarrow> placement_candidate \<Rightarrow> bool" where
  "latency_candidate_better input candidate current \<longleftrightarrow>
     latency_candidate_ordering input candidate current = Greater"

text \<open>\<open>best.is_none_or(|current| better(candidate, current))\<close> and the assignment it guards.\<close>

definition keep_better :: "('a \<Rightarrow> 'a \<Rightarrow> bool) \<Rightarrow> 'a option \<Rightarrow> 'a \<Rightarrow> 'a option" where
  "keep_better better best candidate =
     (case best of None \<Rightarrow> Some candidate
      | Some current \<Rightarrow> if better candidate current then Some candidate else best)"

section \<open>The search\<close>

definition visit_subset :: "placement_input \<Rightarrow> string option \<Rightarrow> nat \<Rightarrow> nat \<Rightarrow> placement_candidate option \<Rightarrow>
    usable_node list \<Rightarrow> placement_candidate option" where
  "visit_subset input required_stage0 context_length parallel_lanes best nodes =
     (case fit_candidate input nodes context_length parallel_lanes of
        None \<Rightarrow> best
      | Some candidate \<Rightarrow>
          if \<not> candidate_has_required_stage0 candidate required_stage0 then best
          else keep_better candidate_better_for_same_shape best candidate)"

definition best_for_shape :: "placement_input \<Rightarrow> string option \<Rightarrow> usable_node list \<Rightarrow> nat \<Rightarrow> nat \<Rightarrow> nat \<Rightarrow>
    placement_candidate option" where
  "best_for_shape input required_stage0 nodes context_length node_count parallel_lanes =
     foldl (visit_subset input required_stage0 context_length parallel_lanes) None
       (for_each_node_subset nodes node_count)"

text \<open>
  The loops over node counts and lanes of one context. \<open>Inl\<close> is the early return of a plan, \<open>Inr\<close>
  the best candidate so far of the latency-aware search.
\<close>

fun search_shapes :: "placement_input \<Rightarrow> string option \<Rightarrow> usable_node list \<Rightarrow> nat \<Rightarrow> (nat \<times> nat) list \<Rightarrow>
    placement_candidate option \<Rightarrow> placement_plan + placement_candidate option" where
  "search_shapes input required_stage0 nodes context_length [] best = Inr best"
| "search_shapes input required_stage0 nodes context_length ((node_count, parallel_lanes) # shapes) best =
     (case best_for_shape input required_stage0 nodes context_length node_count parallel_lanes of
        None \<Rightarrow> search_shapes input required_stage0 nodes context_length shapes best
      | Some candidate \<Rightarrow>
          if latency_aware_planning nodes
          then search_shapes input required_stage0 nodes context_length shapes
                 (keep_better (latency_candidate_better input) best candidate)
          else Inl (ca_plan candidate))"

definition shapes_for :: "placement_input \<Rightarrow> usable_node list \<Rightarrow> nat list \<Rightarrow> (nat \<times> nat) list" where
  "shapes_for input nodes lane_candidates =
     concat (map (\<lambda>node_count. map (Pair node_count) lane_candidates)
       [max (pi_minimum_nodes input) 1..<min (length nodes) (pi_layer_count input) + 1])"

fun search_contexts :: "placement_input \<Rightarrow> string option \<Rightarrow> usable_node list \<Rightarrow> nat list \<Rightarrow>
    placement_candidate option \<Rightarrow> placement_error + placement_plan" where
  "search_contexts input required_stage0 nodes [] best =
     (case best of
        Some candidate \<Rightarrow> Inr (ca_plan candidate)
      | None \<Rightarrow> Inl (NoValidTopology (minimum_valid_context (pi_native_context_length input))))"
| "search_contexts input required_stage0 nodes (context_length # contexts) best =
     (case parallel_lane_candidates (pi_parallel_lanes_override input) context_length
             (pi_kv_bytes_per_token input) (pi_reserved_sequence_ids input) of
        Inl e \<Rightarrow> Inl e
      | Inr lane_candidates \<Rightarrow>
          (case search_shapes input required_stage0 nodes context_length
                  (shapes_for input nodes lane_candidates) best of
             Inl plan \<Rightarrow> Inr plan
           | Inr best \<Rightarrow> search_contexts input required_stage0 nodes contexts best))"

definition plan_topology_with_required_stage0 :: "placement_input \<Rightarrow> string option \<Rightarrow>
    placement_error + placement_plan" where
  "plan_topology_with_required_stage0 input required_stage0 =
     (case validate_placement_input input of
        Inl e \<Rightarrow> Inl e
      | Inr _ \<Rightarrow>
          (case context_candidates (pi_native_context_length input)
                  (minimum_valid_context (pi_native_context_length input)) (pi_context_length_override input) of
             Inl e \<Rightarrow> Inl e
           | Inr contexts \<Rightarrow> search_contexts input required_stage0 (usable_nodes (pi_nodes input)) contexts None))"

section \<open>Finishing a plan\<close>

definition estimate_plan_throughput :: "placement_input \<Rightarrow> placement_plan \<Rightarrow> throughput_estimate option outcome" where
  "estimate_plan_throughput input plan =
     (if length (pi_layer_weight_bytes input) \<noteq> pi_layer_count input \<and> pi_layer_count input = 0 then Panic
      else estimate_throughput (pp_stages plan) (usable_nodes (pi_nodes input)) (layer_weight_bytes input))"

text \<open>With no layers the first division by the layer count panics.\<close>

definition rebalance_topology :: "placement_input \<Rightarrow> placement_plan \<Rightarrow> placement_plan option outcome" where
  "rebalance_topology input current =
     (if pi_layer_count input = 0 then Panic
      else
        let nodes = usable_nodes (pi_nodes input); layer_weights = layer_weight_bytes input
        in case required_for input (pp_context_length current) (pp_parallel_lanes current) of
             None \<Rightarrow> Done None
           | Some layer_required \<Rightarrow>
               (case balance_stages (pp_stages current) nodes layer_weights layer_required of
                  None \<Rightarrow> Done None
                | Some stages \<Rightarrow>
                    if list_all (\<lambda>(balanced, existing). ps_layer_end balanced = ps_layer_end existing)
                         (zip stages (pp_stages current))
                    then Done None
                    else outcome_bind (estimate_throughput stages nodes layer_weights) (\<lambda>throughput.
                      Done (Some (current\<lparr>pp_stages := stages, pp_throughput := throughput\<rparr>)))))"

definition finish_plan :: "placement_input \<Rightarrow> placement_plan \<Rightarrow> placement_plan outcome" where
  "finish_plan input plan =
     outcome_bind
       (if pi_auto_balance input
        then outcome_bind (rebalance_topology input plan) (\<lambda>rebalanced.
               Done (case rebalanced of Some p \<Rightarrow> p | None \<Rightarrow> plan))
        else Done plan) (\<lambda>plan.
     outcome_bind (estimate_plan_throughput input plan) (\<lambda>throughput.
     Done (plan\<lparr>pp_throughput := throughput\<rparr>)))"

definition plan_placement_for :: "placement_input \<Rightarrow> string option \<Rightarrow> (placement_error + placement_plan) outcome" where
  "plan_placement_for input required_stage0 =
     (case plan_topology_with_required_stage0 input required_stage0 of
        Inl e \<Rightarrow> Done (Inl e)
      | Inr plan \<Rightarrow> outcome_bind (finish_plan input plan) (\<lambda>plan. Done (Inr plan)))"

definition plan_topology :: "placement_input \<Rightarrow> (placement_error + placement_plan) outcome" where
  "plan_topology input = plan_placement_for input None"

definition plan_topology_with_stage0 :: "placement_input \<Rightarrow> string \<Rightarrow> (placement_error + placement_plan) outcome" where
  "plan_topology_with_stage0 input stage0_node_id = plan_placement_for input (Some stage0_node_id)"

section \<open>Pinned stages\<close>

fun validate_locked_loop :: "locked_topology_stage list \<Rightarrow> nat \<Rightarrow> nat \<Rightarrow> string list \<Rightarrow> placement_error + nat" where
  "validate_locked_loop [] stage_index expected_start seen_nodes = Inr expected_start"
| "validate_locked_loop (stage # stages) stage_index expected_start seen_nodes =
     (if lk_layer_end stage \<le> lk_layer_start stage
      then Inl (LockedInvalidRange stage_index (lk_layer_start stage) (lk_layer_end stage))
      else if lk_layer_start stage \<noteq> expected_start
      then Inl (LockedNonContiguousRange stage_index expected_start (lk_layer_start stage))
      else if lk_node_id stage \<in> set seen_nodes then Inl (LockedDuplicateNode (lk_node_id stage))
      else validate_locked_loop stages (stage_index + 1) (lk_layer_end stage) (lk_node_id stage # seen_nodes))"

definition validate_locked_stages :: "placement_input \<Rightarrow> locked_topology_stage list \<Rightarrow> placement_error + unit" where
  "validate_locked_stages input locked_stages =
     (let minimum_nodes = max (pi_minimum_nodes input) 1
      in if length locked_stages < minimum_nodes
         then Inl (LockedStageCount minimum_nodes (length locked_stages))
         else
           case validate_locked_loop locked_stages 0 0 [] of
             Inl e \<Rightarrow> Inl e
           | Inr expected_start \<Rightarrow>
               if expected_start \<noteq> pi_layer_count input
               then Inl (LockedIncompleteCoverage expected_start (pi_layer_count input)) else Inr ())"

fun locked_stage_nodes :: "usable_node list \<Rightarrow> locked_topology_stage list \<Rightarrow> placement_error + usable_node list" where
  "locked_stage_nodes nodes [] = Inr []"
| "locked_stage_nodes nodes (stage # stages) =
     (case find_node nodes (lk_node_id stage) of
        None \<Rightarrow> Inl (LockedUnknownNode (lk_node_id stage))
      | Some node \<Rightarrow>
          (case locked_stage_nodes nodes stages of Inl e \<Rightarrow> Inl e | Inr rest \<Rightarrow> Inr (node # rest)))"

primrec fit_locked_stages :: "nat list \<Rightarrow> nat list \<Rightarrow> (locked_topology_stage \<times> usable_node) list \<Rightarrow> nat \<Rightarrow>
    placed_stage list \<Rightarrow> nat \<Rightarrow> nat \<Rightarrow> (placed_stage list \<times> nat \<times> nat) option" where
  "fit_locked_stages layer_weights layer_required [] stage_index stages minimum_remaining total_remaining =
     Some (stages, minimum_remaining, total_remaining)"
| "fit_locked_stages layer_weights layer_required (entry # rest) stage_index stages
     minimum_remaining total_remaining =
     (let (locked, node) = entry; start = lk_layer_start locked; stop = lk_layer_end locked;
          required_bytes = sum_u64 (layer_slice layer_required start stop)
      in if un_usable_vram_bytes node < required_bytes then None
         else
           let remaining = un_usable_vram_bytes node - required_bytes
           in fit_locked_stages layer_weights layer_required rest (stage_index + 1)
                (stages @ [\<lparr>ps_stage_id = ''stage-'' @ dec stage_index, ps_stage_index = stage_index,
                   ps_node_id = lk_node_id locked, ps_layer_start = start, ps_layer_end = stop,
                   ps_parameter_bytes = sum_u64 (layer_slice layer_weights start stop)\<rparr>])
                (min minimum_remaining remaining) (total_remaining + remaining))"

definition fit_locked_candidate :: "placement_input \<Rightarrow> locked_topology_stage list \<Rightarrow> usable_node list \<Rightarrow> nat \<Rightarrow>
    nat \<Rightarrow> placement_candidate option" where
  "fit_locked_candidate input locked_stages nodes context_length parallel_lanes =
     Option.bind (required_for input context_length parallel_lanes) (\<lambda>layer_required.
     Option.bind (fit_locked_stages (layer_weight_bytes input) layer_required (zip locked_stages nodes) 0 []
       U64_MAX 0) (\<lambda>(stages, minimum_remaining, total_remaining).
     Some (candidate_for input nodes context_length parallel_lanes stages minimum_remaining total_remaining)))"

fun search_locked :: "placement_input \<Rightarrow> locked_topology_stage list \<Rightarrow> usable_node list \<Rightarrow> nat list \<Rightarrow>
    placement_error + placement_plan" where
  "search_locked input locked_stages locked_nodes [] =
     Inl (LockedTopologyDoesNotFit (minimum_valid_context (pi_native_context_length input)))"
| "search_locked input locked_stages locked_nodes (context_length # contexts) =
     (case parallel_lane_candidates (pi_parallel_lanes_override input) context_length
             (pi_kv_bytes_per_token input) (pi_reserved_sequence_ids input) of
        Inl e \<Rightarrow> Inl e
      | Inr lane_candidates \<Rightarrow>
          (case find_map (fit_locked_candidate input locked_stages locked_nodes context_length) lane_candidates of
             Some candidate \<Rightarrow> Inr (ca_plan candidate)
           | None \<Rightarrow> search_locked input locked_stages locked_nodes contexts))"

definition plan_locked_topology :: "placement_input \<Rightarrow> locked_topology_stage list \<Rightarrow>
    (placement_error + placement_plan) outcome" where
  "plan_locked_topology input locked_stages =
     (case validate_placement_input input of
        Inl e \<Rightarrow> Done (Inl e)
      | Inr _ \<Rightarrow>
      (case validate_locked_stages input locked_stages of
         Inl e \<Rightarrow> Done (Inl e)
       | Inr _ \<Rightarrow>
      (case context_candidates (pi_native_context_length input)
              (minimum_valid_context (pi_native_context_length input)) (pi_context_length_override input) of
         Inl e \<Rightarrow> Done (Inl e)
       | Inr contexts \<Rightarrow>
      (case locked_stage_nodes (usable_nodes (pi_nodes input)) locked_stages of
         Inl e \<Rightarrow> Done (Inl e)
       | Inr locked_nodes \<Rightarrow>
      (case search_locked input locked_stages locked_nodes contexts of
         Inl e \<Rightarrow> Done (Inl e)
       | Inr plan \<Rightarrow>
           outcome_bind (estimate_plan_throughput input plan) (\<lambda>throughput.
           Done (Inr (plan\<lparr>pp_throughput := throughput\<rparr>))))))))"

end
