(* ===== verification/PlacementBalance.thy ===== *)
theory PlacementBalance
  imports Placement
begin

text \<open>
  The balanced cut of \<open>topology/performance.rs\<close> against its specification. A cut gives each stage a
  non-empty range of layers that fits its node; its bottleneck is the largest stage time. The lemmas
  characterise one cell of the tables (\<open>foldl_improve_cell\<close>), one row, and the traced cut, and end in
  \<open>balance_stages_Some\<close> and \<open>balance_stages_None\<close>.
\<close>

section \<open>Cuts\<close>

definition layer_sum :: "nat list \<Rightarrow> nat \<Rightarrow> nat \<Rightarrow> nat" where
  "layer_sum values start stop = sum_list (layer_slice values start stop)"

text \<open>A cut is the list of the ends, for stages with the given capacities and speeds.\<close>

fun cut_fits :: "nat list \<Rightarrow> nat list \<Rightarrow> nat \<Rightarrow> nat list \<Rightarrow> bool" where
  "cut_fits layer_required [] start ends \<longleftrightarrow> ends = []"
| "cut_fits layer_required (capacity # capacities) start [] \<longleftrightarrow> False"
| "cut_fits layer_required (capacity # capacities) start (stop # ends) \<longleftrightarrow>
     start < stop \<and> layer_sum layer_required start stop \<le> capacity \<and>
     cut_fits layer_required capacities stop ends"

fun cut_bottleneck :: "nat list \<Rightarrow> nat list \<Rightarrow> nat \<Rightarrow> nat list \<Rightarrow> nat" where
  "cut_bottleneck layer_weights (speed # speeds) start (stop # ends) =
     max (stage_nanos (layer_sum layer_weights start stop) speed)
       (cut_bottleneck layer_weights speeds stop ends)"
| "cut_bottleneck layer_weights speeds start ends = 0"

lemma cut_fits_length: "cut_fits q stages start ends \<Longrightarrow> length ends = length stages"
  by (induction q stages start ends rule: cut_fits.induct) auto

lemma cut_fits_snoc:
  "cut_fits q (stages @ [stage]) start (ends @ [stop]) \<longleftrightarrow>
     cut_fits q stages start ends \<and> List.last (start # ends) < stop \<and>
     layer_sum q (List.last (start # ends)) stop \<le> stage"
proof (induction q stages start ends rule: cut_fits.induct)
  case (1 q start ends)
  then show ?case by (cases ends) auto
next
  case (2 q s ss start)
  then show ?case by (cases ss) auto
qed auto

lemma cut_bottleneck_snoc:
  "length ends = length stages \<Longrightarrow>
   cut_bottleneck w (stages @ [stage]) start (ends @ [stop]) =
     max (cut_bottleneck w stages start ends)
       (stage_nanos (layer_sum w (List.last (start # ends)) stop) stage)"
proof (induction w stages start ends rule: cut_bottleneck.induct)
  case (1 w s ss start e es)
  then show ?case by (simp add: max.assoc)
qed auto

lemma cut_fits_last: "cut_fits q stages start ends \<Longrightarrow> start + length stages \<le> List.last (start # ends)"
  by (induction q stages start ends rule: cut_fits.induct) auto

lemma cut_fits_snocE:
  assumes "cut_fits q (stages @ [stage]) start ends"
  obtains es stop where "ends = es @ [stop]" "cut_fits q stages start es"
    "List.last (start # es) < stop" "layer_sum q (List.last (start # es)) stop \<le> stage"
proof -
  have "ends \<noteq> []" using cut_fits_length [OF assms] by auto
  then obtain es stop where e: "ends = es @ [stop]" by (metis rev_exhaust)
  then show thesis using that assms cut_fits_snoc by blast
qed

section \<open>Prefix sums\<close>

lemma length_prefix_sums_from [simp]: "length (prefix_sums_from acc vs) = Suc (length vs)"
  by (induction acc vs rule: prefix_sums_from.induct) auto

lemma prefix_sums_from_nth: "i \<le> length vs \<Longrightarrow> prefix_sums_from acc vs ! i = acc + sum_list (take i vs)"
proof (induction acc vs arbitrary: i rule: prefix_sums_from.induct)
  case (2 acc v vs)
  then show ?case by (cases i) auto
qed auto

lemma range_sum_prefix:
  assumes "start \<le> stop" "stop \<le> length vs"
  shows "range_sum (prefix_sums vs) start stop = layer_sum vs start stop"
proof -
  have "take stop vs = take start vs @ take (stop - start) (drop start vs)"
    using assms by (metis le_add_diff_inverse take_add)
  then show ?thesis
    using assms by (simp add: range_sum_def prefix_sums_def prefix_sums_from_nth layer_sum_def layer_slice_def)
qed

section \<open>The tables\<close>

text \<open>
  \<open>reaches\<close>: a start the loop body does not skip. \<open>cell_value\<close>: the bottleneck it offers.
\<close>

definition reaches :: "nat list \<Rightarrow> nat \<times> nat \<Rightarrow> cut_cell list \<Rightarrow> nat \<Rightarrow> nat \<Rightarrow> bool" where
  "reaches required_prefix stage previous_row stop start \<longleftrightarrow>
     fst (previous_row ! start) \<noteq> unreachable \<and> range_sum required_prefix start stop \<le> snd stage"

definition cell_value :: "nat list \<Rightarrow> nat \<times> nat \<Rightarrow> cut_cell list \<Rightarrow> nat \<Rightarrow> nat \<Rightarrow> nat" where
  "cell_value weight_prefix stage previous_row stop start =
     max (fst (previous_row ! start)) (stage_nanos (range_sum weight_prefix start stop) (fst stage))"

lemma improve_cell_alt:
  "improve_cell wp rp stage row stop cell start =
     (if reaches rp stage row stop start \<and> cell_value wp stage row stop start \<le> fst cell
      then (cell_value wp stage row stop start, start) else cell)"
  by (cases stage) (auto simp: improve_cell_def reaches_def cell_value_def Let_def)

lemma foldl_improve_cell:
  assumes "cell = foldl (improve_cell wp rp stage row stop) (unreachable, 0) starts"
  shows "fst cell \<le> unreachable \<and>
    (\<forall>start \<in> set starts. reaches rp stage row stop start \<longrightarrow> fst cell \<le> cell_value wp stage row stop start) \<and>
    (cell = (unreachable, 0) \<or>
      snd cell \<in> set starts \<and> reaches rp stage row stop (snd cell) \<and>
      fst cell = cell_value wp stage row stop (snd cell))"
  using assms
proof (induction starts arbitrary: cell rule: rev_induct)
  case (snoc start starts)
  let ?c = "foldl (improve_cell wp rp stage row stop) (unreachable, 0) starts"
  have IH: "fst ?c \<le> unreachable"
    "\<forall>start \<in> set starts. reaches rp stage row stop start \<longrightarrow> fst ?c \<le> cell_value wp stage row stop start"
    "?c = (unreachable, 0) \<or> snd ?c \<in> set starts \<and> reaches rp stage row stop (snd ?c) \<and>
      fst ?c = cell_value wp stage row stop (snd ?c)"
    using snoc.IH [OF refl] by blast+
  have c: "cell = (if reaches rp stage row stop start \<and> cell_value wp stage row stop start \<le> fst ?c
      then (cell_value wp stage row stop start, start) else ?c)"
    unfolding snoc.prems foldl_append foldl_Cons foldl_Nil by (rule improve_cell_alt)
  show ?case
  proof (cases "reaches rp stage row stop start \<and> cell_value wp stage row stop start \<le> fst ?c")
    case True
    then have "cell = (cell_value wp stage row stop start, start)" using c by simp
    then show ?thesis using True IH by fastforce
  next
    case False
    then have "cell = ?c" using c by auto
    then show ?thesis using False IH by auto
  qed
qed simp

text \<open>
  The invariant of the rows built for the first stages: no cut ending at a cell does better than the
  cell, and the cut traced from a reached cell fits and has the value of the cell.
\<close>

definition rows_ok :: "nat list \<Rightarrow> nat list \<Rightarrow> (nat \<times> nat) list \<Rightarrow> nat \<Rightarrow> cut_cell list list \<Rightarrow> bool" where
  "rows_ok w q front later rows \<longleftrightarrow>
     (\<forall>stop. length front \<le> stop \<and> stop \<le> length w - later \<longrightarrow>
        (\<forall>ends. cut_fits q (map snd front) 0 ends \<and> List.last (0 # ends) = stop \<longrightarrow>
           fst (hd rows ! stop) \<le> cut_bottleneck w (map fst front) 0 ends) \<and>
        (fst (hd rows ! stop) \<noteq> unreachable \<longrightarrow>
           cut_fits q (map snd front) 0 (trace_ends rows stop) \<and>
           cut_bottleneck w (map fst front) 0 (trace_ends rows stop) = fst (hd rows ! stop)))"

lemma first_row_ok:
  assumes "length q = length w" "n = Suc later" "later < length w"
  shows "rows_ok w q [stage] later
    [first_row (prefix_sums w) (prefix_sums q) (length w) n stage]"
proof -
  let ?row = "first_row (prefix_sums w) (prefix_sums q) (length w) n stage"
  have row: "?row ! stop = (if layer_sum q 0 stop \<le> snd stage
      then (stage_nanos (layer_sum w 0 stop) (fst stage), 0) else (unreachable, 0))"
    if "1 \<le> stop" "stop \<le> length w - later" for stop
  proof -
    have "stop < length w + 1" "stop \<le> length q" "n - 1 = later" using that assms by auto
    then show ?thesis using that assms(1) by (simp add: first_row_def case_prod_beta range_sum_prefix del: upt_Suc)
  qed
  show ?thesis
    unfolding rows_ok_def
  proof (intro allI impI)
    fix stop assume stop: "length [stage] \<le> stop \<and> stop \<le> length w - later"
    have ends: "cut_fits q (map snd [stage]) 0 ends \<longleftrightarrow> (\<exists>e. ends = [e] \<and> 0 < e \<and> layer_sum q 0 e \<le> snd stage)" for ends
      by (cases ends) auto
    show "(\<forall>ends. cut_fits q (map snd [stage]) 0 ends \<and> List.last (0 # ends) = stop \<longrightarrow>
           fst (hd [?row] ! stop) \<le> cut_bottleneck w (map fst [stage]) 0 ends) \<and>
        (fst (hd [?row] ! stop) \<noteq> unreachable \<longrightarrow>
           cut_fits q (map snd [stage]) 0 (trace_ends [?row] stop) \<and>
           cut_bottleneck w (map fst [stage]) 0 (trace_ends [?row] stop) = fst (hd [?row] ! stop))"
      using stop by (auto simp: row ends [simplified])
  qed
qed

lemma cut_sum_mono: "start \<le> start' \<Longrightarrow> layer_sum q start' stop \<le> layer_sum q start stop"
proof -
  assume a: "start \<le> start'"
  have "drop start' q = drop (start' - start) (drop start q)" using a by simp
  then have "layer_slice q start' stop = drop (start' - start) (layer_slice q start stop)"
    using a by (auto simp: layer_slice_def drop_take)
  then have "layer_sum q start stop = sum_list (take (start' - start) (layer_slice q start stop)) + layer_sum q start' stop"
    unfolding layer_sum_def by (metis append_take_drop_id sum_list_append)
  then show ?thesis by simp
qed

lemma next_row_ok:
  assumes rows: "rows_ok w q front (Suc later) rows" and len: "length q = length w"
    and n: "n = length front + Suc later" and bound: "n \<le> length w" and ne: "front \<noteq> []"
  shows "rows_ok w q (front @ [stage]) later
    (next_row (prefix_sums w) (prefix_sums q) (length w) n (length front) stage (hd rows) # rows)"
  unfolding rows_ok_def
proof (intro allI impI)
  let ?row = "next_row (prefix_sums w) (prefix_sums q) (length w) n (length front) stage (hd rows)"
  let ?wp = "prefix_sums w" and ?rp = "prefix_sums q"
  fix stop assume stop: "length (front @ [stage]) \<le> stop \<and> stop \<le> length w - later"
  define cell where "cell = foldl (improve_cell ?wp ?rp stage (hd rows) stop) (unreachable, 0) [length front..<stop]"
  have "n - 1 - length front = later" "stop < length w + 1" using n stop by auto
  then have at: "?row ! stop = cell" using stop by (simp add: next_row_def cell_def del: upt_Suc)
  note c = foldl_improve_cell [OF cell_def]
  have prev: "(\<forall>ends. cut_fits q (map snd front) 0 ends \<and> List.last (0 # ends) = start \<longrightarrow>
        fst (hd rows ! start) \<le> cut_bottleneck w (map fst front) 0 ends) \<and>
      (fst (hd rows ! start) \<noteq> unreachable \<longrightarrow> cut_fits q (map snd front) 0 (trace_ends rows start) \<and>
        cut_bottleneck w (map fst front) 0 (trace_ends rows start) = fst (hd rows ! start))"
    if "length front \<le> start" "start < stop" for start
    using rows that stop bound n unfolding rows_ok_def by auto
  have sums: "range_sum ?wp start stop = layer_sum w start stop" "range_sum ?rp start stop = layer_sum q start stop"
    if "start < stop" for start
    using that stop len bound n by (auto simp: range_sum_prefix)
  have low: "fst cell \<le> cut_bottleneck w (map fst (front @ [stage])) 0 ends"
    if fits: "cut_fits q (map snd (front @ [stage])) 0 ends" and at_end: "List.last (0 # ends) = stop" for ends
  proof -
    from fits [unfolded map_append list.map] obtain es e where e: "ends = es @ [e]" "cut_fits q (map snd front) 0 es"
        "List.last (0 # es) < e" "layer_sum q (List.last (0 # es)) e \<le> snd stage"
      by (rule cut_fits_snocE)
    let ?start = "List.last (0 # es)"
    have es: "e = stop" "length front \<le> ?start" "?start < stop"
      using e at_end cut_fits_last [OF e(2)] by auto
    have b: "cut_bottleneck w (map fst (front @ [stage])) 0 ends =
        max (cut_bottleneck w (map fst front) 0 es) (stage_nanos (layer_sum w ?start stop) (fst stage))"
      using cut_bottleneck_snoc [of es "map fst front" w "fst stage" 0 stop] cut_fits_length [OF e(2)] e(1) es(1) by simp
    have p: "fst (hd rows ! ?start) \<le> cut_bottleneck w (map fst front) 0 es" using prev [OF es(2,3)] e(2) by blast
    show ?thesis
    proof (cases "fst (hd rows ! ?start) = unreachable")
      case True
      then show ?thesis using c p b by linarith
    next
      case False
      then have "reaches ?rp stage (hd rows) stop ?start"
        using e(4) es sums(2) [OF es(3)] by (simp add: reaches_def)
      then have "fst cell \<le> cell_value ?wp stage (hd rows) stop ?start" using c es by auto
      then show ?thesis using p b sums(1) [OF es(3)] by (simp add: cell_value_def)
    qed
  qed
  have tr: "cut_fits q (map snd (front @ [stage])) 0 (trace_ends (?row # rows) stop) \<and>
      cut_bottleneck w (map fst (front @ [stage])) 0 (trace_ends (?row # rows) stop) = fst cell"
    if reached: "fst cell \<noteq> unreachable"
  proof -
    let ?start = "snd cell"
    have r: "?start \<in> set [length front..<stop]" "reaches ?rp stage (hd rows) stop ?start"
        "fst cell = cell_value ?wp stage (hd rows) stop ?start"
      using c reached by auto
    then have s: "length front \<le> ?start" "?start < stop" by auto
    have t: "cut_fits q (map snd front) 0 (trace_ends rows ?start)"
        "cut_bottleneck w (map fst front) 0 (trace_ends rows ?start) = fst (hd rows ! ?start)"
      using prev [OF s] r(2) by (auto simp: reaches_def)
    have "rows \<noteq> []" using t(1) ne cut_fits_length by fastforce
    then have l: "List.last (0 # trace_ends rows ?start) = ?start" by (cases rows) auto
    have te: "trace_ends (?row # rows) stop = trace_ends rows ?start @ [stop]" by (simp add: at)
    have "length (trace_ends rows ?start) = length (map fst front)" using cut_fits_length [OF t(1)] by simp
    from cut_bottleneck_snoc [OF this, of w "fst stage" 0 stop] cut_fits_snoc [of q "map snd front" "snd stage" 0 "trace_ends rows ?start" stop]
    show ?thesis
      unfolding te map_append list.map l
      using t s r sums [OF s(2)] by (simp add: reaches_def cell_value_def)
  qed
  show "(\<forall>ends. cut_fits q (map snd (front @ [stage])) 0 ends \<and> List.last (0 # ends) = stop \<longrightarrow>
      fst (hd (?row # rows) ! stop) \<le> cut_bottleneck w (map fst (front @ [stage])) 0 ends) \<and>
    (fst (hd (?row # rows) ! stop) \<noteq> unreachable \<longrightarrow>
      cut_fits q (map snd (front @ [stage])) 0 (trace_ends (?row # rows) stop) \<and>
      cut_bottleneck w (map fst (front @ [stage])) 0 (trace_ends (?row # rows) stop) = fst (hd (?row # rows) ! stop))"
    using low tr by (simp add: at)
qed

lemma later_rows_ok:
  assumes "rows_ok w q front (length stages) rows" "length q = length w"
    and "n = length front + length stages" "n \<le> length w" "front \<noteq> []"
  shows "rows_ok w q (front @ stages) 0
    (later_rows (prefix_sums w) (prefix_sums q) (length w) n (length front) stages rows)"
  using assms
proof (induction stages arbitrary: front rows)
  case (Cons stage stages)
  let ?row = "next_row (prefix_sums w) (prefix_sums q) (length w) n (length front) stage (hd rows)"
  have "rows_ok w q (front @ [stage]) (length stages) (?row # rows)"
    using Cons.prems by (intro next_row_ok) auto
  from Cons.IH [OF this] Cons.prems show ?case by simp
qed simp

section \<open>The balanced stages\<close>

lemma div_ceil_le: "0 < b \<Longrightarrow> div_ceil a b \<le> a"
  by (auto simp: div_ceil_le_iff)

lemma stage_nanos_le: "0 < speed \<Longrightarrow> stage_nanos bytes speed \<le> bytes * NANOS_PER_SECOND"
  by (simp add: stage_nanos_def div_ceil_le)

lemma layer_sum_le: "layer_sum w start stop \<le> sum_list w"
proof -
  have "sum_list w = sum_list (take start w) + (sum_list (take (stop - start) (drop start w)) +
      sum_list (drop (stop - start) (drop start w)))"
    by (metis append_take_drop_id sum_list_append)
  then show ?thesis by (simp add: layer_sum_def layer_slice_def)
qed

lemma cut_bottleneck_le:
  "\<forall>speed \<in> set stages. 0 < speed \<Longrightarrow> cut_bottleneck w stages start ends \<le> sum_list w * NANOS_PER_SECOND"
proof (induction w stages start ends rule: cut_bottleneck.induct)
  case (1 w stage stages start stop ends)
  have "stage_nanos (layer_sum w start stop) stage \<le> layer_sum w start stop * NANOS_PER_SECOND"
    using 1 by (intro stage_nanos_le) auto
  also have "\<dots> \<le> sum_list w * NANOS_PER_SECOND" using layer_sum_le by (rule mult_le_mono1)
  finally show ?case using 1 by simp
qed auto

lemma collect_options_Some:
  "collect_options f xs = Some ys \<longleftrightarrow> length ys = length xs \<and> (\<forall>i < length xs. f (xs ! i) = Some (ys ! i))"
proof (induction xs arbitrary: ys)
  case (Cons x xs)
  then show ?case by (cases ys) (auto simp: All_less_Suc2 split: option.splits)
qed auto

lemma stage_limits_positive: "stage_limits nodes stage = Some limits \<Longrightarrow> 0 < fst limits"
  by (auto simp: stage_limits_def positive_speed_def bind_eq_Some_conv split: if_splits)

lemma collect_limits_positive:
  "collect_options (stage_limits nodes) stages = Some limits \<Longrightarrow> \<forall>speed \<in> set (map fst limits). 0 < speed"
  unfolding collect_options_Some set_map by (metis imageE in_set_conv_nth stage_limits_positive)

text \<open>What \<open>balance_stages\<close> computes, once the speeds are known.\<close>

lemma balance_rows_ok:
  assumes "stages \<noteq> []" "length stages \<le> length w" "length q = length w"
    and "collect_options (stage_limits nodes) stages = Some limits"
  shows "rows_ok w q limits 0 (later_rows (prefix_sums w) (prefix_sums q) (length w) (length stages) 1 (tl limits)
    [first_row (prefix_sums w) (prefix_sums q) (length w) (length stages) (hd limits)])"
proof -
  have len: "length limits = length stages" using assms(4) by (simp add: collect_options_Some)
  then obtain l ls where l: "limits = l # ls" using assms(1) by (cases limits) auto
  have n: "length stages = Suc (length ls)" using len l by simp
  have "rows_ok w q [l] (length ls) [first_row (prefix_sums w) (prefix_sums q) (length w) (length stages) l]"
    using assms n by (intro first_row_ok) auto
  from later_rows_ok [OF this assms(3)] show ?thesis using n assms(2) l by simp
qed

lemma balance_stages_Some:
  assumes "balance_stages stages nodes w q = Some balanced"
  shows "\<exists>limits ends. collect_options (stage_limits nodes) stages = Some limits \<and>
    balanced = balanced_stages (prefix_sums w) 0 stages ends \<and>
    length q = length w \<and> cut_fits q (map snd limits) 0 ends \<and> List.last (0 # ends) = length w \<and>
    (\<forall>other. cut_fits q (map snd limits) 0 other \<and> List.last (0 # other) = length w \<longrightarrow>
       cut_bottleneck w (map fst limits) 0 ends \<le> cut_bottleneck w (map fst limits) 0 other)"
proof -
  have a: "stages \<noteq> []" "length stages \<le> length w" "length q = length w"
    using assms by (auto simp: balance_stages_def Let_def split: if_splits)
  obtain limits where l: "collect_options (stage_limits nodes) stages = Some limits"
    using assms a by (auto simp: balance_stages_def Let_def bind_eq_Some_conv split: if_splits)
  define rows where "rows = later_rows (prefix_sums w) (prefix_sums q) (length w) (length stages) 1 (tl limits)
    [first_row (prefix_sums w) (prefix_sums q) (length w) (length stages) (hd limits)]"
  have r: "fst (hd rows ! length w) \<noteq> unreachable"
      "balanced = balanced_stages (prefix_sums w) 0 stages (trace_ends rows (length w))"
    using assms a l by (auto simp: balance_stages_def Let_def rows_def split: if_splits)
  note ok = balance_rows_ok [OF a l, folded rows_def, unfolded rows_ok_def, rule_format, of "length w"]
  have len: "length limits = length stages" using l by (simp add: collect_options_Some)
  let ?ends = "trace_ends rows (length w)"
  have f: "cut_fits q (map snd limits) 0 ?ends" "cut_bottleneck w (map fst limits) 0 ?ends = fst (hd rows ! length w)"
      "\<And>other. cut_fits q (map snd limits) 0 other \<Longrightarrow> List.last (0 # other) = length w \<Longrightarrow>
         fst (hd rows ! length w) \<le> cut_bottleneck w (map fst limits) 0 other"
    using ok r(1) len a(2) by auto
  have "rows \<noteq> []" using f(1) cut_fits_length len a(1) by fastforce
  then have "List.last (0 # ?ends) = length w" by (cases rows) auto
  then show ?thesis using l r(2) a(3) f by metis
qed

lemma balance_stages_None:
  assumes "balance_stages stages nodes w q = None" "stages \<noteq> []" "length q = length w"
    and l: "collect_options (stage_limits nodes) stages = Some limits"
    and bound: "sum_list w * NANOS_PER_SECOND < U128_MAX"
    and other: "cut_fits q (map snd limits) 0 ends" "List.last (0 # ends) = length w"
  shows False
proof -
  have len: "length limits = length stages" using l by (simp add: collect_options_Some)
  have le: "length stages \<le> length w" using cut_fits_last [OF other(1)] other(2) len by simp
  define rows where "rows = later_rows (prefix_sums w) (prefix_sums q) (length w) (length stages) 1 (tl limits)
    [first_row (prefix_sums w) (prefix_sums q) (length w) (length stages) (hd limits)]"
  have "fst (hd rows ! length w) = unreachable"
    using assms(1-4) le by (auto simp: balance_stages_def Let_def rows_def split: if_splits)
  moreover have "fst (hd rows ! length w) \<le> cut_bottleneck w (map fst limits) 0 ends"
    using balance_rows_ok [OF assms(2) le assms(3) l, folded rows_def, unfolded rows_ok_def, rule_format, of "length w"]
      other len le by auto
  ultimately show False
    using cut_bottleneck_le [OF collect_limits_positive [OF l], of w 0 ends] bound by (simp add: unreachable_def)
qed

end
