(* ===== verification/PlacementFit.thy ===== *)
theory PlacementFit
  imports PlacementBalance
begin

text \<open>
  The greedy packing of \<open>fit_candidate\<close> against the cuts of \<open>PlacementBalance\<close>: it succeeds exactly
  when some cut fits the nodes in descending order of memory (\<open>fit_stages_complete\<close>,
  \<open>fit_candidate_None\<close>), and the stages it builds are such a cut (\<open>fit_stages_cut\<close>,
  \<open>fit_candidate_Some\<close>).
\<close>

section \<open>Greedy packing\<close>

lemma count_fitting_le: "count_fitting xs running capacity \<le> length xs"
  by (induction xs running capacity rule: count_fitting.induct) (auto simp: Let_def)

lemma count_fitting_iff:
  assumes "running \<le> capacity" "capacity < U64_MAX" "j \<le> length xs"
  shows "j \<le> count_fitting xs running capacity \<longleftrightarrow> running + sum_list (take j xs) \<le> capacity"
  using assms
proof (induction xs running capacity arbitrary: j rule: count_fitting.induct)
  case (2 x xs running capacity)
  show ?case
  proof (cases j)
    case (Suc i)
    show ?thesis
    proof (cases "capacity < sat_add running x")
      case True
      then have "capacity < running + x" using 2(3) by (simp add: sat_add_def split: if_splits)
      then show ?thesis using True Suc by (simp add: Let_def)
    next
      case False
      then have s: "sat_add running x = running + x" "running + x \<le> capacity"
        using 2(3) by (auto simp: sat_add_def min_def split: if_splits)
      then show ?thesis using 2 False Suc by (simp add: Let_def add.assoc)
    qed
  qed (use 2 in simp)
qed simp

text \<open>The first layers that fit a capacity, counted from a start.\<close>

lemma max_contiguous_iff:
  assumes "capacity < U64_MAX" "j \<le> limit" "start + limit \<le> length q"
  shows "j \<le> max_contiguous_layers_from q start limit capacity \<longleftrightarrow> layer_sum q start (start + j) \<le> capacity"
  unfolding max_contiguous_layers_from_def
  using assms by (subst count_fitting_iff) (auto simp: layer_sum_def layer_slice_def min_def)

lemma max_contiguous_le: "max_contiguous_layers_from q start limit capacity \<le> limit"
  unfolding max_contiguous_layers_from_def using count_fitting_le [of "take limit (drop start q)" 0 capacity] by simp

text \<open>The stages for a cut, as the loop numbers and fills them.\<close>

fun cut_stages :: "nat list \<Rightarrow> nat \<Rightarrow> nat \<Rightarrow> string list \<Rightarrow> nat list \<Rightarrow> placed_stage list" where
  "cut_stages layer_weights stage_index start (node_id # node_ids) (stop # ends) =
     \<lparr>ps_stage_id = ''stage-'' @ dec stage_index, ps_stage_index = stage_index, ps_node_id = node_id,
      ps_layer_start = start, ps_layer_end = stop,
      ps_parameter_bytes = sum_u64 (layer_slice layer_weights start stop)\<rparr>
       # cut_stages layer_weights (stage_index + 1) stop node_ids ends"
| "cut_stages layer_weights stage_index start node_ids ends = []"

lemma cut_stages_ids [simp]:
  "length ends = length ids \<Longrightarrow> map ps_node_id (cut_stages w i start ids ends) = ids"
  "length ends = length ids \<Longrightarrow> map ps_layer_end (cut_stages w i start ids ends) = ends"
  "length ends = length ids \<Longrightarrow> length (cut_stages w i start ids ends) = length ids"
  by (induction w i start ids ends rule: cut_stages.induct) auto

lemma sum_u64_le_iff: "capacity < U64_MAX \<Longrightarrow> sum_u64 xs \<le> capacity \<longleftrightarrow> sum_list xs \<le> capacity"
  by (auto simp: sum_u64_def sat_sum_eq)

definition stage_over :: "nat list \<Rightarrow> nat \<Rightarrow> usable_node \<Rightarrow> nat \<Rightarrow> nat \<Rightarrow> placed_stage" where
  "stage_over layer_weights stage_index node start stop =
     \<lparr>ps_stage_id = ''stage-'' @ dec stage_index, ps_stage_index = stage_index, ps_node_id = un_node_id node,
      ps_layer_start = start, ps_layer_end = stop,
      ps_parameter_bytes = sum_u64 (layer_slice layer_weights start stop)\<rparr>"

lemma fit_stages_Cons:
  assumes "span = min (n - start - length later)
    (max_contiguous_layers_from q start (n - start - length later) (un_usable_vram_bytes node))"
    and "left = un_usable_vram_bytes node - sum_u64 (layer_slice q start (start + span))"
  shows "fit_stages w q n (node # later) i start acc mn tot =
    (if span = 0 \<or> un_usable_vram_bytes node < sum_u64 (layer_slice q start (start + span)) then None
     else fit_stages w q n later (i + 1) (start + span) (acc @ [stage_over w i node start (start + span)])
       (min mn left) (tot + left))"
proof -
  have len: "sat_sub (length (node # later)) 1 = length later" by simp
  have both: "(if a then x else if b then x else y) = (if a \<or> b then x else y)" for a b and x y :: 'z by auto
  show ?thesis unfolding assms stage_over_def by (simp only: fit_stages.simps Let_def len both)
qed

lemma fit_stages_cut:
  assumes "fit_stages w q n nodes i start acc mn tot = Some (stop, stages, mn', tot')"
    and "\<forall>node \<in> set nodes. un_usable_vram_bytes node < U64_MAX"
  shows "\<exists>ends. cut_fits q (map un_usable_vram_bytes nodes) start ends \<and> List.last (start # ends) = stop \<and>
    stages = acc @ cut_stages w i start (map un_node_id nodes) ends"
  using assms
proof (induction nodes arbitrary: i start acc mn tot)
  case (Cons node later)
  define span where "span = min (n - start - length later)
    (max_contiguous_layers_from q start (n - start - length later) (un_usable_vram_bytes node))"
  let ?stop = "start + span" and ?c = "un_usable_vram_bytes node"
  let ?left = "?c - sum_u64 (layer_slice q start ?stop)" and ?stage = "stage_over w i node start ?stop"
  note step = fit_stages_Cons [OF span_def refl]
  have s: "0 < span" "sum_u64 (layer_slice q start ?stop) \<le> ?c" and
      rest: "fit_stages w q n later (i + 1) ?stop (acc @ [?stage]) (min mn ?left) (tot + ?left) = Some (stop, stages, mn', tot')"
    using Cons.prems(1) unfolding step by (simp_all split: if_splits)
  obtain ends where e: "cut_fits q (map un_usable_vram_bytes later) ?stop ends" "List.last (?stop # ends) = stop"
      "stages = (acc @ [?stage]) @ cut_stages w (i + 1) ?stop (map un_node_id later) ends"
    using Cons.IH [OF rest] Cons.prems(2) by auto
  have "layer_sum q start ?stop \<le> ?c"
    using s(2) Cons.prems(2) by (simp add: sum_u64_le_iff layer_sum_def)
  then show ?case using e s(1) by (intro exI [of _ "?stop # ends"]) (simp add: stage_over_def)
qed simp

lemma layer_le_sum:
  assumes "start \<le> p" "p < stop" "stop \<le> length q"
  shows "q ! p \<le> layer_sum q start stop"
proof -
  have "q ! p = layer_slice q start stop ! (p - start)" "p - start < length (layer_slice q start stop)"
    using assms by (auto simp: layer_slice_def)
  then have "q ! p \<in> set (layer_slice q start stop)" by (metis nth_mem)
  then show ?thesis unfolding layer_sum_def by (rule member_le_sum_list) simp
qed

lemma cut_layer_fits:
  assumes "cut_fits q capacities start ends" "List.last (start # ends) = length q" "start \<le> p" "p < length q"
  shows "\<exists>capacity \<in> set capacities. q ! p \<le> capacity"
  using assms
proof (induction q capacities start ends rule: cut_fits.induct)
  case (3 q capacity capacities start stop ends)
  have "stop \<le> length q" using cut_fits_last [of q capacities stop ends] 3(2,3) by simp
  then show ?case
  proof (cases "p < stop")
    case True
    then have "q ! p \<le> layer_sum q start stop" using 3 \<open>stop \<le> length q\<close> by (intro layer_le_sum) auto
    then show ?thesis using 3 by auto
  next
    case False
    then show ?thesis using 3 by auto
  qed
qed auto

lemma fit_stages_complete:
  assumes "cut_fits q (map un_usable_vram_bytes nodes) start ends" "List.last (start # ends) = length q"
    and "start \<le> p" "p + length nodes \<le> length q"
    and "sorted_wrt (\<lambda>a b. un_usable_vram_bytes b \<le> un_usable_vram_bytes a) nodes"
    and "\<forall>node \<in> set nodes. un_usable_vram_bytes node < U64_MAX"
  shows "\<exists>stages mn' tot'. fit_stages w q (length q) nodes i p acc mn tot = Some (length q, stages, mn', tot')"
  using assms
proof (induction nodes arbitrary: start ends i p acc mn tot)
  case Nil
  then show ?case by auto
next
  case (Cons node later)
  let ?c = "un_usable_vram_bytes node" and ?n = "length q"
  obtain e es where e: "ends = e # es" "start < e" "layer_sum q start e \<le> ?c"
      "cut_fits q (map un_usable_vram_bytes later) e es" "List.last (e # es) = ?n"
    using Cons.prems(1,2) by (cases ends) auto
  define assignable where "assignable = ?n - p - length later"
  have asg: "1 \<le> assignable" "p + assignable + length later = ?n" using Cons.prems(4) by (auto simp: assignable_def)
  let ?count = "max_contiguous_layers_from q p assignable ?c"
  define span where "span = min assignable ?count"
  have cap: "?c < U64_MAX" using Cons.prems(6) by simp
  have iff: "j \<le> span \<longleftrightarrow> layer_sum q p (p + j) \<le> ?c" if "j \<le> assignable" for j
    using max_contiguous_iff [OF cap that] asg that by (simp add: span_def)
  have "\<exists>capacity \<in> set (map un_usable_vram_bytes (node # later)). q ! p \<le> capacity"
    using cut_layer_fits [OF Cons.prems(1-3)] asg by simp
  then have "q ! p \<le> ?c" using Cons.prems(5) by fastforce
  moreover have "layer_sum q p (p + 1) = q ! p"
    using asg by (simp add: layer_sum_def layer_slice_def take_Suc_conv_app_nth hd_drop_conv_nth take_Suc)
  ultimately have pos: "1 \<le> span" using iff [of 1] asg by simp
  have "layer_sum q p (p + span) \<le> ?c" using iff [of span] by (simp add: span_def)
  then have room: "\<not> ?c < sum_u64 (layer_slice q p (p + span))"
    using cap by (simp add: sum_u64_le_iff layer_sum_def not_less)
  have "e \<le> p + span"
  proof (cases "e \<le> p")
    case False
    have "e + length later \<le> ?n" using cut_fits_last [OF e(4)] e(5) by simp
    then have j: "e - p \<le> assignable" using asg False by simp
    have "layer_sum q p e \<le> ?c" using cut_sum_mono [of start p q e] Cons.prems(3) e(3) by simp
    then show ?thesis using iff [OF j] False by simp
  qed simp
  moreover have "p + span + length later \<le> ?n" using asg by (simp add: span_def)
  moreover have "fit_stages w q ?n (node # later) i p acc mn tot =
      fit_stages w q ?n later (i + 1) (p + span) (acc @ [stage_over w i node p (p + span)])
        (min mn (?c - sum_u64 (layer_slice q p (p + span)))) (tot + (?c - sum_u64 (layer_slice q p (p + span))))"
    using pos room by (subst fit_stages_Cons [OF span_def [unfolded assignable_def] refl]) simp
  ultimately show ?case
    using Cons.IH [OF e(4,5), of "p + span"] Cons.prems(5,6) by simp
qed

section \<open>Candidates\<close>

lemma comparator_usable_node: "comparator usable_node_cmp A"
  unfolding usable_node_cmp_def [abs_def]
  by (intro comparator_then_with comparator_cmp_key comparator_rev [of "\<lambda>x y. cmp (un_usable_vram_bytes x) (un_usable_vram_bytes y)"])

lemma sorted_usable: "sorted_wrt (\<lambda>a b. un_usable_vram_bytes b \<le> un_usable_vram_bytes a) (sort_by usable_node_cmp nodes)"
proof -
  have "sorted_wrt (\<lambda>a b. usable_node_cmp a b \<noteq> Greater) (sort_by usable_node_cmp nodes)"
    by (rule comparator.sorted_sort_by [OF comparator_usable_node, of _ UNIV]) simp
  then show ?thesis
    by (rule sorted_wrt_mono_rel [rotated]) (auto simp: usable_node_cmp_def not_less)
qed

text \<open>
  The specification of a placement of some nodes: a cut of all the layers that fits the nodes taken
  in descending order of memory.
\<close>

definition placeable :: "placement_input \<Rightarrow> usable_node list \<Rightarrow> nat \<Rightarrow> nat \<Rightarrow> nat list \<Rightarrow> bool" where
  "placeable input nodes context_length parallel_lanes ends \<longleftrightarrow>
     (\<exists>layer_required. required_for input context_length parallel_lanes = Some layer_required \<and>
        cut_fits layer_required (map un_usable_vram_bytes (sort_by usable_node_cmp nodes)) 0 ends \<and>
        List.last (0 # ends) = pi_layer_count input)"

lemma required_for_length:
  "required_for input context_length parallel_lanes = Some q \<Longrightarrow> length q = pi_layer_count input"
  by (auto simp: required_for_def layer_required_bytes_def collect_options_Some layer_weight_bytes_def
      recurrent_bytes_by_layer_def)

lemma fit_candidate_Some:
  assumes "fit_candidate input nodes context_length parallel_lanes = Some candidate"
    and "\<forall>node \<in> set nodes. un_usable_vram_bytes node < U64_MAX"
  shows "\<exists>ends mn tot. placeable input nodes context_length parallel_lanes ends \<and>
    candidate = candidate_for input nodes context_length parallel_lanes
      (cut_stages (layer_weight_bytes input) 0 0 (map un_node_id (sort_by usable_node_cmp nodes)) ends) mn tot"
proof -
  obtain q mn tot stages where q: "required_for input context_length parallel_lanes = Some q"
      "fit_stages (layer_weight_bytes input) q (pi_layer_count input) (sort_by usable_node_cmp nodes) 0 0 [] U64_MAX 0
        = Some (pi_layer_count input, stages, mn, tot)"
      "candidate = candidate_for input nodes context_length parallel_lanes stages mn tot"
    using assms(1) by (auto simp: fit_candidate_def Let_def bind_eq_Some_conv split: if_splits)
  from fit_stages_cut [OF q(2)] assms(2) obtain ends where
    "cut_fits q (map un_usable_vram_bytes (sort_by usable_node_cmp nodes)) 0 ends"
    "List.last (0 # ends) = pi_layer_count input"
    "stages = cut_stages (layer_weight_bytes input) 0 0 (map un_node_id (sort_by usable_node_cmp nodes)) ends" by auto
  then show ?thesis using q(1,3) unfolding placeable_def by blast
qed

lemma fit_candidate_None:
  assumes "fit_candidate input nodes context_length parallel_lanes = None"
    and "\<forall>node \<in> set nodes. un_usable_vram_bytes node < U64_MAX"
  shows "\<not> placeable input nodes context_length parallel_lanes ends"
proof
  assume "placeable input nodes context_length parallel_lanes ends"
  then obtain q where q: "required_for input context_length parallel_lanes = Some q"
      "cut_fits q (map un_usable_vram_bytes (sort_by usable_node_cmp nodes)) 0 ends"
      "List.last (0 # ends) = length q"
    using required_for_length unfolding placeable_def by metis
  note n = required_for_length [OF q(1)]
  have len: "length nodes \<le> length q" using cut_fits_last [OF q(2)] q(3) by simp
  have "\<exists>stages mn tot. fit_stages (layer_weight_bytes input) q (length q) (sort_by usable_node_cmp nodes) 0 0 []
      U64_MAX 0 = Some (length q, stages, mn, tot)"
    using fit_stages_complete [OF q(2,3) _ _ sorted_usable, of 0] assms(2) len by simp
  then show False using assms(1) q(1) n len by (auto simp: fit_candidate_def)
qed

end
