(* ===== verification/PlacementSearch.thy ===== *)
theory PlacementSearch
  imports PlacementFit
begin

text \<open>
  What the loops of \<open>plan_topology_with_required_stage0\<close> return: the subsets the visitor is called on
  are the subsequences of the node list of the given length; the best candidate of a shape is not
  beaten by another; the shapes are tried with the largest context first, then the fewest nodes, then
  the most lanes (\<open>shape_before\<close>); the first shape that fits is returned, or the best of all shapes
  when latencies are known.
\<close>

section \<open>Subsets\<close>

lemma subseq_Cons_iff: "subseq (x # ys) zs \<longleftrightarrow> (\<exists>i < length zs. zs ! i = x \<and> subseq ys (drop (Suc i) zs))"
proof
  assume "subseq (x # ys) zs"
  then obtain us vs where z: "zs = us @ x # vs" "subseq ys vs" by (auto dest: list_emb_ConsD)
  then show "\<exists>i < length zs. zs ! i = x \<and> subseq ys (drop (Suc i) zs)"
    by (intro exI [of _ "length us"]) (simp add: nth_append)
next
  assume "\<exists>i < length zs. zs ! i = x \<and> subseq ys (drop (Suc i) zs)"
  then obtain i where i: "i < length zs" "zs ! i = x" "subseq ys (drop (Suc i) zs)" by blast
  then have "subseq (x # ys) (x # drop (Suc i) zs)" by simp
  also have "x # drop (Suc i) zs = drop i zs" using i Cons_nth_drop_Suc by blast
  finally show "subseq (x # ys) zs" using suffix_drop suffix_imp_subseq subseq_order.order_trans by blast
qed

lemma visit_node_subsets_set:
  "length current \<le> n \<Longrightarrow> set (visit_node_subsets nodes n start current) =
     {current @ xs | xs. subseq xs (drop start nodes) \<and> length current + length xs = n}"
proof (induction nodes n start current rule: visit_node_subsets.induct)
  case (1 nodes n start current)
  show ?case
  proof (cases "length current = n")
    case True
    then show ?thesis by (auto simp: visit_node_subsets.simps)
  next
    case False
    define needed where "needed = n - length current"
    have need: "0 < needed" "length current + needed = n" using 1(2) False by (auto simp: needed_def)
    show ?thesis
    proof (cases "length nodes - start < needed")
      case True
      have "\<not> (subseq xs (drop start nodes) \<and> length current + length xs = n)" for xs
        using True need by (auto dest!: list_emb_length)
      then show ?thesis using True False by (auto simp: visit_node_subsets.simps needed_def)
    next
      case c: False
      have IH: "set (visit_node_subsets nodes n (index + 1) (current @ [nodes ! index])) =
          {(current @ [nodes ! index]) @ xs | xs. subseq xs (drop (index + 1) nodes) \<and>
             length (current @ [nodes ! index]) + length xs = n}"
        if "index \<in> set [start..<length nodes - needed + 1]" for index
        using 1(1) [OF False needed_def c that] need by simp
      have "set (visit_node_subsets nodes n start current) =
          (\<Union>index \<in> set [start..<length nodes - needed + 1].
             {(current @ [nodes ! index]) @ xs | xs. subseq xs (drop (index + 1) nodes) \<and>
                length (current @ [nodes ! index]) + length xs = n})"
        using False c IH by (subst visit_node_subsets.simps) (simp add: needed_def Let_def)
      also have "\<dots> = {current @ xs | xs. subseq xs (drop start nodes) \<and> length current + length xs = n}"
        (is "?L = ?R")
      proof
        show "?L \<subseteq> ?R"
        proof
          fix zs assume "zs \<in> ?L"
          then obtain index ys where z: "start \<le> index" "index < length nodes - needed + 1"
              "zs = current @ nodes ! index # ys" "subseq ys (drop (index + 1) nodes)"
              "length current + Suc (length ys) = n" by auto
          have "subseq (nodes ! index # ys) (drop start nodes)"
            unfolding subseq_Cons_iff
            using z need c by (intro exI [of _ "index - start"]) (auto simp: Suc_diff_le less_diff_conv)
          then show "zs \<in> ?R" using z by auto
        qed
        show "?R \<subseteq> ?L"
        proof
          fix zs assume "zs \<in> ?R"
          then obtain xs where x: "zs = current @ xs" "subseq xs (drop start nodes)"
              "length current + length xs = n" by blast
          then obtain y ys where y: "xs = y # ys" using need by (cases xs) auto
          from x(2) [unfolded y subseq_Cons_iff] obtain i where i: "i < length nodes - start"
              "nodes ! (start + i) = y" "subseq ys (drop (Suc (start + i)) nodes)"
            by (auto simp: add.commute)
          have "length ys \<le> length nodes - Suc (start + i)" using list_emb_length [OF i(3)] by simp
          then have "start + i \<in> set [start..<length nodes - needed + 1]" using i(1) x(3) y need by auto
          then show "zs \<in> ?L" using x(1,3) y i by fastforce
        qed
      qed
      finally show ?thesis .
    qed
  qed
qed

lemma for_each_node_subset_set: "set (for_each_node_subset nodes n) = {xs. subseq xs nodes \<and> length xs = n}"
  unfolding for_each_node_subset_def by (subst visit_node_subsets_set) auto

section \<open>The best of a shape\<close>

context comparator
begin

text \<open>Keeping the better of two, with a comparator's \<open>Greater\<close> as "better", ends with a greatest.\<close>

lemma keep_better_fold:
  assumes "\<And>a b. better a b \<longleftrightarrow> c a b = Greater" and "set xs \<subseteq> A"
  shows "(xs = [] \<longrightarrow> foldl (keep_better better) None xs = None) \<and>
    (xs \<noteq> [] \<longrightarrow> (\<exists>b. foldl (keep_better better) None xs = Some b \<and> b \<in> set xs \<and> (\<forall>x \<in> set xs. \<not> better x b)))"
  using assms(2)
proof (induction xs rule: rev_induct)
  case (snoc y ys)
  have yy: "\<not> better y y" using self_equal [of y] snoc.prems assms(1) by auto
  show ?case
  proof (cases "ys = []")
    case True
    then show ?thesis using yy by (simp add: keep_better_def)
  next
    case False
    then obtain b where b: "foldl (keep_better better) None ys = Some b" "b \<in> set ys" "\<forall>x \<in> set ys. \<not> better x b"
      using snoc by auto
    show ?thesis
    proof (cases "better y b")
      case True
      have A: "y \<in> A" "b \<in> A" using b(2) snoc.prems by auto
      then have "c b y \<noteq> Greater" using flip [of y b] True assms(1) by auto
      then have "\<forall>x \<in> set ys. \<not> better x y" using b(3) assms(1) trans [of _ b y] A snoc.prems by auto
      moreover have "foldl (keep_better better) None (ys @ [y]) = Some y"
        unfolding foldl_append b(1) by (simp add: keep_better_def True)
      ultimately show ?thesis using yy by simp
    next
      case False
      then have "foldl (keep_better better) None (ys @ [y]) = Some b"
        unfolding foldl_append b(1) by (simp add: keep_better_def)
      then show ?thesis using b False by simp
    qed
  qed
qed simp

end

lemma comparator_candidate_cmp: "comparator candidate_cmp A"
  unfolding candidate_cmp_def [abs_def]
  by (intro comparator_then_with comparator_cmp_key
      comparator_rev [of "\<lambda>a b. cmp (map ps_node_id (pp_stages (ca_plan a))) (map ps_node_id (pp_stages (ca_plan b)))"])

definition same_shape_cmp :: "placement_candidate \<Rightarrow> placement_candidate \<Rightarrow> ordering" where
  "same_shape_cmp a b = then_with (cmp (network_estimate b) (network_estimate a)) (candidate_cmp a b)"

lemma comparator_same_shape: "comparator same_shape_cmp A"
  unfolding same_shape_cmp_def [abs_def]
  by (intro comparator_then_with comparator_candidate_cmp comparator_rev [of "\<lambda>a b. cmp (network_estimate a) (network_estimate b)"]
      comparator_cmp_key)

lemma better_for_same_shape: "candidate_better_for_same_shape a b \<longleftrightarrow> same_shape_cmp a b = Greater"
  by (auto simp: candidate_better_for_same_shape_def same_shape_cmp_def)

lemma comparator_latency: "comparator (latency_candidate_ordering input) A"
  unfolding latency_candidate_ordering_def [abs_def]
  by (intro comparator_then_with comparator_candidate_cmp comparator_cmp_key
      comparator_rev [of "\<lambda>a b. cmp (network_estimate a) (network_estimate b)"])

text \<open>The candidates the visitor keeps, in the order of the visits.\<close>

definition admissible :: "placement_input \<Rightarrow> string option \<Rightarrow> nat \<Rightarrow> nat \<Rightarrow> usable_node list \<Rightarrow> placement_candidate option" where
  "admissible input required_stage0 context_length parallel_lanes nodes =
     (case fit_candidate input nodes context_length parallel_lanes of
        None \<Rightarrow> None
      | Some candidate \<Rightarrow> if candidate_has_required_stage0 candidate required_stage0 then Some candidate else None)"

lemma foldl_map_filter:
  assumes "\<And>best x. visit best x = (case f x of None \<Rightarrow> best | Some y \<Rightarrow> keep best y)"
  shows "foldl visit best xs = foldl keep best (List.map_filter f xs)"
  by (induction xs arbitrary: best) (auto simp: assms List.map_filter_simps split: option.splits)

lemma best_for_shape_fold:
  "best_for_shape input required_stage0 nodes context_length node_count parallel_lanes =
     foldl (keep_better candidate_better_for_same_shape) None
       (List.map_filter (admissible input required_stage0 context_length parallel_lanes)
         (for_each_node_subset nodes node_count))"
  unfolding best_for_shape_def
  by (rule foldl_map_filter) (auto simp: visit_subset_def admissible_def split: option.splits)

lemma set_map_filter: "y \<in> set (List.map_filter f xs) \<longleftrightarrow> (\<exists>x \<in> set xs. f x = Some y)"
  by (induction xs) (auto simp: List.map_filter_simps split: option.splits)

lemma best_for_shape_Some:
  assumes "best_for_shape input required_stage0 nodes context_length node_count parallel_lanes = Some candidate"
  shows "\<exists>chosen. subseq chosen nodes \<and> length chosen = node_count \<and>
      admissible input required_stage0 context_length parallel_lanes chosen = Some candidate"
    and "subseq others nodes \<Longrightarrow> length others = node_count \<Longrightarrow>
      admissible input required_stage0 context_length parallel_lanes others = Some other \<Longrightarrow>
      \<not> candidate_better_for_same_shape other candidate"
proof -
  let ?xs = "List.map_filter (admissible input required_stage0 context_length parallel_lanes)
         (for_each_node_subset nodes node_count)"
  have "candidate \<in> set ?xs \<and> (\<forall>x \<in> set ?xs. \<not> candidate_better_for_same_shape x candidate)"
    using comparator.keep_better_fold [OF comparator_same_shape better_for_same_shape, of ?xs UNIV] assms
    by (cases "?xs = []") (auto simp: best_for_shape_fold)
  then show "\<exists>chosen. subseq chosen nodes \<and> length chosen = node_count \<and>
      admissible input required_stage0 context_length parallel_lanes chosen = Some candidate"
    and "subseq others nodes \<Longrightarrow> length others = node_count \<Longrightarrow>
      admissible input required_stage0 context_length parallel_lanes others = Some other \<Longrightarrow>
      \<not> candidate_better_for_same_shape other candidate"
    by (auto simp: set_map_filter for_each_node_subset_set)
qed

lemma best_for_shape_None:
  assumes "best_for_shape input required_stage0 nodes context_length node_count parallel_lanes = None"
    and "subseq chosen nodes" "length chosen = node_count"
  shows "admissible input required_stage0 context_length parallel_lanes chosen = None"
proof (rule ccontr)
  let ?xs = "List.map_filter (admissible input required_stage0 context_length parallel_lanes)
         (for_each_node_subset nodes node_count)"
  assume "admissible input required_stage0 context_length parallel_lanes chosen \<noteq> None"
  then have "?xs \<noteq> []" using assms(2,3) set_map_filter [of _ "admissible input required_stage0 context_length parallel_lanes"]
    for_each_node_subset_set by (metis (mono_tags, lifting) empty_iff empty_set mem_Collect_eq option.exhaust)
  then show False
    using comparator.keep_better_fold [OF comparator_same_shape better_for_same_shape, of ?xs UNIV] assms(1)
    by (auto simp: best_for_shape_fold)
qed

section \<open>The order of the shapes\<close>

definition lanes_at :: "placement_input \<Rightarrow> nat \<Rightarrow> nat list" where
  "lanes_at input context_length =
     (case parallel_lane_candidates (pi_parallel_lanes_override input) context_length
             (pi_kv_bytes_per_token input) (pi_reserved_sequence_ids input) of
        Inr lanes \<Rightarrow> lanes | Inl e \<Rightarrow> [])"

text \<open>Whether the lanes are valid does not depend on the ctx.\<close>

lemma lanes_valid:
  "parallel_lane_candidates (pi_parallel_lanes_override input) a kv (pi_reserved_sequence_ids input) = Inl e \<Longrightarrow>
   parallel_lane_candidates (pi_parallel_lanes_override input) b kv (pi_reserved_sequence_ids input) = Inl e"
  by (auto simp: parallel_lane_candidates_def Let_def split: option.splits if_splits)

lemma lanes_at_eq:
  assumes "parallel_lane_candidates (pi_parallel_lanes_override input) a (pi_kv_bytes_per_token input)
    (pi_reserved_sequence_ids input) = Inr lanes"
  shows "parallel_lane_candidates (pi_parallel_lanes_override input) b (pi_kv_bytes_per_token input)
    (pi_reserved_sequence_ids input) = Inr (lanes_at input b)"
  using assms lanes_valid [of input b "pi_kv_bytes_per_token input" _ a]
  by (cases "parallel_lane_candidates (pi_parallel_lanes_override input) b (pi_kv_bytes_per_token input)
    (pi_reserved_sequence_ids input)") (auto simp: lanes_at_def)

lemma lanes_at_bounds:
  "lanes \<in> set (lanes_at input context_length) \<Longrightarrow>
     1 \<le> lanes \<and> SEQUENCE_IDS_PER_LANE_WITH_RESIDENT_CACHE * lanes + pi_reserved_sequence_ids input \<le> TOPOLOGY_LLAMA_MAX_SEQ"
proof -
  assume a: "lanes \<in> set (lanes_at input context_length)"
  then have "1 \<le> lanes \<and> lanes \<le> sequence_capacity (pi_reserved_sequence_ids input)"
    using clamp_bounds [of 1 "sequence_capacity (pi_reserved_sequence_ids input)" "context_length div FLOOR_CTX_PER_SESSION"]
    by (auto simp: lanes_at_def parallel_lane_candidates_def Let_def split: option.splits if_splits)
  then show ?thesis
    by (auto simp: sequence_capacity_def SEQUENCE_IDS_PER_LANE_WITH_RESIDENT_CACHE_def TOPOLOGY_LLAMA_MAX_SEQ_def)
qed

lemma sorted_wrt_rev_upt: "sorted_wrt (>) (rev [a..<b])" for a b :: nat
  by (simp add: sorted_wrt_rev)

lemma lanes_at_sorted: "sorted_wrt (>) (lanes_at input context_length)"
  by (auto simp: lanes_at_def parallel_lane_candidates_def Let_def sorted_wrt_rev_upt
      simp del: rev.simps upt_Suc split: option.splits if_splits)

definition shape_before :: "nat \<times> nat \<times> nat \<Rightarrow> nat \<times> nat \<times> nat \<Rightarrow> bool" where
  "shape_before s s' \<longleftrightarrow>
     (case (s, s') of ((ctx, nodes, lanes), (ctx', nodes', lanes')) \<Rightarrow>
        ctx' < ctx \<or> ctx = ctx' \<and> (nodes < nodes' \<or> nodes = nodes' \<and> lanes' < lanes))"

definition all_shapes :: "placement_input \<Rightarrow> usable_node list \<Rightarrow> nat list \<Rightarrow> (nat \<times> nat \<times> nat) list" where
  "all_shapes input nodes contexts =
     concat (map (\<lambda>ctx. map (Pair ctx) (shapes_for input nodes (lanes_at input ctx))) contexts)"

lemma sorted_wrt_concat:
  assumes "sorted_wrt P xs" and "\<And>x. x \<in> set xs \<Longrightarrow> sorted_wrt Q (f x)"
    and "\<And>x y a b. P x y \<Longrightarrow> a \<in> set (f x) \<Longrightarrow> b \<in> set (f y) \<Longrightarrow> Q a b"
  shows "sorted_wrt Q (concat (map f xs))"
  using assms(1,2)
proof (induction xs)
  case (Cons x xs)
  then show ?case using assms(3) by (auto simp: sorted_wrt_append)
qed simp

lemma all_shapes_sorted:
  assumes "sorted_wrt (>) contexts"
  shows "sorted_wrt shape_before (all_shapes input nodes contexts)"
proof -
  have s: "sorted_wrt (\<lambda>a b. fst a < fst b \<or> fst a = fst b \<and> snd b < snd a) (shapes_for input nodes lanes)"
    if "sorted_wrt (>) lanes" for lanes
    unfolding shapes_for_def
    by (rule sorted_wrt_concat [of "(<)", OF sorted_wrt_upt]) (use that in \<open>auto simp: sorted_wrt_map\<close>)
  show ?thesis
    unfolding all_shapes_def
    by (rule sorted_wrt_concat [OF assms])
      (use s [OF lanes_at_sorted] in \<open>auto simp: sorted_wrt_map shape_before_def split_beta\<close>)
qed

lemma set_all_shapes:
  "(ctx, node_count, lanes) \<in> set (all_shapes input nodes contexts) \<longleftrightarrow>
     ctx \<in> set contexts \<and> max (pi_minimum_nodes input) 1 \<le> node_count \<and>
     node_count \<le> length nodes \<and> node_count \<le> pi_layer_count input \<and> lanes \<in> set (lanes_at input ctx)"
  by (force simp: all_shapes_def shapes_for_def simp del: upt_Suc)

section \<open>The result of the search\<close>

definition shape_best :: "placement_input \<Rightarrow> string option \<Rightarrow> usable_node list \<Rightarrow> nat \<times> nat \<times> nat \<Rightarrow>
    placement_candidate option" where
  "shape_best input required_stage0 nodes shape =
     (case shape of (ctx, node_count, lanes) \<Rightarrow> best_for_shape input required_stage0 nodes ctx node_count lanes)"

lemma search_shapes_eq:
  "search_shapes input required_stage0 nodes ctx shapes best =
     (if latency_aware_planning nodes
      then Inr (foldl (keep_better (latency_candidate_better input)) best
        (List.map_filter (shape_best input required_stage0 nodes) (map (Pair ctx) shapes)))
      else case find_map (shape_best input required_stage0 nodes) (map (Pair ctx) shapes) of
             Some candidate \<Rightarrow> Inl (ca_plan candidate) | None \<Rightarrow> Inr best)"
proof (induction shapes arbitrary: best)
  case (Cons shape shapes)
  obtain node_count lanes where s: "shape = (node_count, lanes)" by (cases shape)
  have b: "shape_best input required_stage0 nodes (ctx, shape) =
      best_for_shape input required_stage0 nodes ctx node_count lanes" by (simp add: shape_best_def s)
  show ?case
    unfolding s search_shapes.simps
    using Cons.IH b s by (auto simp: List.map_filter_simps split: option.splits)
qed (simp add: List.map_filter_simps)

lemma map_filter_append: "List.map_filter f (xs @ ys) = List.map_filter f xs @ List.map_filter f ys"
  by (simp add: List.map_filter_def)

lemma search_contexts_eq:
  assumes "\<And>ctx. parallel_lane_candidates (pi_parallel_lanes_override input) ctx
    (pi_kv_bytes_per_token input) (pi_reserved_sequence_ids input) = Inr (lanes_at input ctx)"
  shows "search_contexts input required_stage0 nodes contexts best =
     (case (if latency_aware_planning nodes
            then foldl (keep_better (latency_candidate_better input)) best
              (List.map_filter (shape_best input required_stage0 nodes) (all_shapes input nodes contexts))
            else case find_map (shape_best input required_stage0 nodes) (all_shapes input nodes contexts) of
                   Some candidate \<Rightarrow> Some candidate | None \<Rightarrow> best) of
        Some candidate \<Rightarrow> Inr (ca_plan candidate)
      | None \<Rightarrow> Inl (NoValidTopology (minimum_valid_context (pi_native_context_length input))))"
proof (induction contexts arbitrary: best)
  case Nil
  then show ?case by (simp add: all_shapes_def List.map_filter_simps)
next
  case (Cons ctx contexts)
  have all: "all_shapes input nodes (ctx # contexts) =
      map (Pair ctx) (shapes_for input nodes (lanes_at input ctx)) @ all_shapes input nodes contexts"
    by (simp add: all_shapes_def)
  show ?case
    by (simp add: assms search_shapes_eq Cons.IH all map_filter_append find_map_append split: option.splits)
qed

lemma remdups_adj_strict: "sorted xs \<Longrightarrow> sorted_wrt (<) (remdups_adj xs)" for xs :: "nat list"
proof (induction xs rule: remdups_adj.induct)
  case (3 x y xs)
  then show ?case by (cases "x = y") (auto simp: less_le)
qed simp_all

lemma context_candidates_ok:
  assumes "context_candidates native minimum override = Inr contexts"
  shows "sorted_wrt (>) contexts" and "ctx \<in> set contexts \<Longrightarrow> ctx \<le> native"
    and "override = None \<Longrightarrow> ctx \<in> set contexts \<Longrightarrow> minimum \<le> native \<Longrightarrow> minimum \<le> ctx"
    and "contexts \<noteq> []"
proof -
  have s: "sorted_wrt (<) (remdups_adj (sort xs))" for xs :: "nat list"
    using remdups_adj_strict [of "sort xs"] by simp
  show "sorted_wrt (>) contexts"
    using assms s by (auto simp: context_candidates_def sorted_wrt_rev split: option.splits if_splits)
  show "ctx \<in> set contexts \<Longrightarrow> ctx \<le> native"
    "override = None \<Longrightarrow> ctx \<in> set contexts \<Longrightarrow> minimum \<le> native \<Longrightarrow> minimum \<le> ctx"
    using assms by (auto simp: context_candidates_def split: option.splits if_splits)
  show "contexts \<noteq> []"
    using assms by (auto simp: context_candidates_def remdups_adj_Nil_iff split: option.splits if_splits)
      (metis append_is_Nil_conv list.distinct(1) set_empty set_sort)
qed

text \<open>The contexts the search tries.\<close>

definition contexts_for :: "placement_input \<Rightarrow> nat list" where
  "contexts_for input =
     (case context_candidates (pi_native_context_length input)
             (minimum_valid_context (pi_native_context_length input)) (pi_context_length_override input) of
        Inr contexts \<Rightarrow> contexts | Inl e \<Rightarrow> [])"

lemma contexts_for_sorted: "sorted_wrt (>) (contexts_for input)"
  using context_candidates_ok(1) by (cases "context_candidates (pi_native_context_length input)
      (minimum_valid_context (pi_native_context_length input)) (pi_context_length_override input)")
    (auto simp: contexts_for_def)

lemma contexts_for_le: "ctx \<in> set (contexts_for input) \<Longrightarrow> ctx \<le> pi_native_context_length input"
  using context_candidates_ok(2) by (cases "context_candidates (pi_native_context_length input)
      (minimum_valid_context (pi_native_context_length input)) (pi_context_length_override input)")
    (auto simp: contexts_for_def)

text \<open>The shapes of an input, in the order of the search.\<close>

definition shapes_of :: "placement_input \<Rightarrow> (nat \<times> nat \<times> nat) list" where
  "shapes_of input = all_shapes input (usable_nodes (pi_nodes input)) (contexts_for input)"

lemma plan_search_eq:
  assumes "plan_topology_with_required_stage0 input required_stage0 = result"
    and "\<nexists>e. result = Inl e \<and> (\<forall>m. e \<noteq> NoValidTopology m)"
  shows "validate_placement_input input = Inr () \<and>
    result = (case (if latency_aware_planning (usable_nodes (pi_nodes input))
            then foldl (keep_better (latency_candidate_better input)) None
              (List.map_filter (shape_best input required_stage0 (usable_nodes (pi_nodes input))) (shapes_of input))
            else find_map (shape_best input required_stage0 (usable_nodes (pi_nodes input))) (shapes_of input)) of
        Some candidate \<Rightarrow> Inr (ca_plan candidate)
      | None \<Rightarrow> Inl (NoValidTopology (minimum_valid_context (pi_native_context_length input))))"
proof -
  have v: "validate_placement_input input = Inr ()"
    using assms by (auto simp: plan_topology_with_required_stage0_def validate_placement_input_def Let_def split: if_splits)
  obtain contexts where c: "context_candidates (pi_native_context_length input)
      (minimum_valid_context (pi_native_context_length input)) (pi_context_length_override input) = Inr contexts"
    using assms v by (auto simp: plan_topology_with_required_stage0_def context_candidates_def split: option.splits if_splits)
  have cf: "contexts_for input = contexts" using c by (simp add: contexts_for_def)
  have r: "result = search_contexts input required_stage0 (usable_nodes (pi_nodes input)) contexts None"
    using assms(1) v c by (simp add: plan_topology_with_required_stage0_def)
  obtain ctx rest where cc: "contexts = ctx # rest" using context_candidates_ok(4) [OF c] by (cases contexts) auto
  have "\<exists>lanes. parallel_lane_candidates (pi_parallel_lanes_override input) ctx (pi_kv_bytes_per_token input)
      (pi_reserved_sequence_ids input) = Inr lanes"
    using r assms(2) unfolding cc
    by (auto simp: parallel_lane_candidates_def Let_def split: option.splits if_splits)
  then have "\<And>ctx. parallel_lane_candidates (pi_parallel_lanes_override input) ctx
      (pi_kv_bytes_per_token input) (pi_reserved_sequence_ids input) = Inr (lanes_at input ctx)"
    using lanes_at_eq by blast
  from search_contexts_eq [OF this] show ?thesis
    using v r by (auto simp: shapes_of_def cf split: option.splits)
qed

lemma find_map_split:
  "find_map f xs = Some y \<Longrightarrow> \<exists>pre x post. xs = pre @ x # post \<and> f x = Some y \<and> (\<forall>z \<in> set pre. f z = None)"
proof (induction xs)
  case (Cons x xs)
  show ?case
  proof (cases "f x")
    case None
    then obtain pre z post where "xs = pre @ z # post" "f z = Some y" "\<forall>z \<in> set pre. f z = None" using Cons by auto
    then show ?thesis using None by (intro exI [of _ "x # pre"] exI [of _ z] exI [of _ post]) simp
  next
    case (Some z)
    then show ?thesis using Cons.prems by (intro exI [of _ "[]"] exI [of _ x] exI [of _ xs]) simp
  qed
qed simp

lemma plan_search_Inr:
  assumes "plan_topology_with_required_stage0 input required_stage0 = Inr plan"
  shows "validate_placement_input input = Inr () \<and>
    (\<exists>shape \<in> set (shapes_of input). \<exists>candidate.
       shape_best input required_stage0 (usable_nodes (pi_nodes input)) shape = Some candidate \<and> plan = ca_plan candidate \<and>
       (\<not> latency_aware_planning (usable_nodes (pi_nodes input)) \<longrightarrow>
          (\<forall>earlier \<in> set (shapes_of input). shape_before earlier shape \<longrightarrow>
             shape_best input required_stage0 (usable_nodes (pi_nodes input)) earlier = None)))"
proof -
  let ?nodes = "usable_nodes (pi_nodes input)"
  let ?f = "shape_best input required_stage0 ?nodes"
  note eq = plan_search_eq [OF assms, simplified]
  show ?thesis
  proof (cases "latency_aware_planning ?nodes")
    case True
    let ?xs = "List.map_filter ?f (shapes_of input)"
    obtain candidate where c: "foldl (keep_better (latency_candidate_better input)) None ?xs = Some candidate"
        "plan = ca_plan candidate"
      using eq True by (auto split: option.splits)
    have "candidate \<in> set ?xs"
      using comparator.keep_better_fold [OF comparator_latency latency_candidate_better_def, of ?xs UNIV input] c(1)
      by (cases "?xs = []") auto
    then show ?thesis using eq c(2) True by (auto simp: set_map_filter)
  next
    case False
    obtain candidate where c: "find_map ?f (shapes_of input) = Some candidate" "plan = ca_plan candidate"
      using eq False by (auto split: option.splits)
    from find_map_split [OF c(1)] obtain pre shape post where s: "shapes_of input = pre @ shape # post"
        "?f shape = Some candidate" "\<forall>z \<in> set pre. ?f z = None" by blast
    have "sorted_wrt shape_before (pre @ shape # post)"
      using all_shapes_sorted [OF contexts_for_sorted] s(1) by (metis shapes_of_def)
    then have "\<forall>later \<in> set (shape # post). \<not> shape_before later shape"
      by (auto simp: sorted_wrt_append shape_before_def)
    then show ?thesis using eq s c(2) by (intro conjI bexI [of _ shape] exI [of _ candidate]) auto
  qed
qed

lemma plan_search_Inl:
  assumes "plan_topology_with_required_stage0 input required_stage0 = Inl (NoValidTopology m)"
  shows "\<forall>shape \<in> set (shapes_of input). shape_best input required_stage0 (usable_nodes (pi_nodes input)) shape = None"
proof -
  let ?nodes = "usable_nodes (pi_nodes input)"
  let ?f = "shape_best input required_stage0 ?nodes"
  note eq = plan_search_eq [OF assms, simplified]
  show ?thesis
  proof (cases "latency_aware_planning ?nodes")
    case True
    let ?xs = "List.map_filter ?f (shapes_of input)"
    have "foldl (keep_better (latency_candidate_better input)) None ?xs = None"
      using eq True by (auto split: option.splits)
    then have "?xs = []"
      using comparator.keep_better_fold [OF comparator_latency latency_candidate_better_def, of ?xs UNIV input] by auto
    then show ?thesis using set_map_filter [of _ ?f "shapes_of input"] by (metis empty_iff empty_set option.exhaust)
  next
    case False
    then show ?thesis using eq by (auto simp: find_map_None split: option.splits)
  qed
qed

end
