(* ===== verification/PlacementProperties.thy ===== *)
theory PlacementProperties
  imports PlacementSearch
begin

text \<open>
  The properties of the memory and latency planner: every plan is a partition of the layers that fits
  its nodes; the balanced cut is optimal, so rebalancing never slows a pipeline down; pinned stages are
  kept; and the planners never panic.
\<close>

section \<open>Stages and cuts\<close>

text \<open>The stages follow one another from layer 0 to the last.\<close>

definition contiguous_stages :: "placed_stage list \<Rightarrow> nat \<Rightarrow> bool" where
  "contiguous_stages stages layer_count \<longleftrightarrow>
     map ps_layer_start stages = butlast (0 # map ps_layer_end stages) \<and>
     List.last (0 # map ps_layer_end stages) = layer_count"

text \<open>Every stage has at least one layer and its bytes fit its node.\<close>

definition memory_fits :: "usable_node list \<Rightarrow> nat list \<Rightarrow> placed_stage list \<Rightarrow> bool" where
  "memory_fits nodes layer_required stages \<longleftrightarrow>
     (\<exists>capacities. map (\<lambda>stage. map_option un_usable_vram_bytes (find_node nodes (ps_node_id stage))) stages
                     = map Some capacities \<and>
        cut_fits layer_required capacities 0 (map ps_layer_end stages))"

definition valid_placement :: "placement_input \<Rightarrow> placement_plan \<Rightarrow> bool" where
  "valid_placement input plan \<longleftrightarrow>
     contiguous_stages (pp_stages plan) (pi_layer_count input) \<and> distinct (map ps_node_id (pp_stages plan)) \<and>
     (\<exists>layer_required. required_for input (pp_context_length plan) (pp_parallel_lanes plan) = Some layer_required \<and>
        memory_fits (usable_nodes (pi_nodes input)) layer_required (pp_stages plan))"

lemma subseq_subset: "subseq xs ys \<Longrightarrow> set xs \<subseteq> set ys"
  using subseqs_powset [of ys] by (metis PowD imageI in_set_subseqs)

lemma map_node_ids: "map (\<lambda>stage. f (ps_node_id stage)) stages = map f (map ps_node_id stages)"
  by simp

lemma cut_stages_start:
  "length ends = length ids \<Longrightarrow> map ps_layer_start (cut_stages w i start ids ends) = butlast (start # ends)"
  by (induction w i start ids ends rule: cut_stages.induct) auto

lemma contiguous_cut_stages:
  "length ends = length ids \<Longrightarrow> contiguous_stages (cut_stages w i 0 ids ends) n \<longleftrightarrow> List.last (0 # ends) = n"
  by (simp add: contiguous_stages_def cut_stages_start)

lemma cut_fits_le_last: "cut_fits q capacities start ends \<Longrightarrow> stop \<in> set ends \<Longrightarrow> stop \<le> List.last (start # ends)"
proof (induction q capacities start ends rule: cut_fits.induct)
  case (3 q capacity capacities start e ends)
  then show ?case using cut_fits_last [of q capacities e ends] by auto
qed auto

lemma balanced_stages_fields:
  assumes "length ends = length stages" "start \<le> U32_MAX" "\<forall>stop \<in> set ends. stop \<le> U32_MAX"
  shows "map ps_node_id (balanced_stages wp start stages ends) = map ps_node_id stages"
    and "map ps_layer_end (balanced_stages wp start stages ends) = ends"
    and "map ps_layer_start (balanced_stages wp start stages ends) = butlast (start # ends)"
  using assms by (induction wp start stages ends rule: balanced_stages.induct) auto

lemma find_node_in: "find_node nodes node_id = Some node \<Longrightarrow> node \<in> set nodes"
  by (auto simp: find_node_def find_Some_iff)

lemma find_node_distinct:
  assumes "distinct (map un_node_id nodes)" "node \<in> set nodes"
  shows "find_node nodes (un_node_id node) = Some node"
  using assms
proof (induction nodes)
  case (Cons n nodes)
  then show ?case by (auto simp: find_node_def rev_image_eqI)
qed simp

lemma usable_nodes_ids: "mset (map un_node_id (usable_nodes nodes)) = mset (map pn_node_id nodes)"
  by (simp add: usable_nodes_def image_mset.compositionality comp_def usable_node_of_def Let_def)

lemma usable_nodes_distinct: "distinct (map pn_node_id nodes) \<Longrightarrow> distinct (map un_node_id (usable_nodes nodes))"
  using usable_nodes_ids mset_eq_imp_distinct_iff by blast

lemma usable_nodes_bound:
  "\<forall>node \<in> set nodes. pn_detected_vram_bytes node < U64_MAX \<Longrightarrow>
   \<forall>node \<in> set (usable_nodes nodes). un_usable_vram_bytes node < U64_MAX"
  by (auto simp: usable_nodes_def usable_node_of_def Let_def split: option.splits)

lemma candidate_for_simps [simp]:
  "pp_stages (ca_plan (candidate_for input nodes ctx lanes stages mn tot)) = stages"
  "pp_context_length (ca_plan (candidate_for input nodes ctx lanes stages mn tot)) = ctx"
  "pp_parallel_lanes (ca_plan (candidate_for input nodes ctx lanes stages mn tot)) = lanes"
  by (simp_all add: candidate_for_def Let_def)

text \<open>What a candidate for chosen nodes is.\<close>

lemma candidate_valid:
  assumes "fit_candidate input chosen ctx lanes = Some candidate"
    and sub: "subseq chosen (usable_nodes (pi_nodes input))"
    and ids: "distinct (map pn_node_id (pi_nodes input))"
    and vram: "\<forall>node \<in> set (pi_nodes input). pn_detected_vram_bytes node < U64_MAX"
  shows "valid_placement input (ca_plan candidate) \<and> length (pp_stages (ca_plan candidate)) = length chosen \<and>
    pp_context_length (ca_plan candidate) = ctx \<and> pp_parallel_lanes (ca_plan candidate) = lanes"
proof -
  let ?all = "usable_nodes (pi_nodes input)" and ?nodes = "sort_by usable_node_cmp chosen"
  have set: "set ?nodes \<subseteq> set ?all" using subseq_subset [OF sub] by simp
  have dist: "distinct (map un_node_id ?all)" by (rule usable_nodes_distinct [OF ids])
  have dn: "distinct (map un_node_id ?nodes)"
  proof -
    have "distinct (map un_node_id chosen)" using subseq_map [OF sub] dist by (metis in_set_subseqs subseqs_distinctD)
    then show ?thesis by (metis mset_map mset_sort_by mset_eq_imp_distinct_iff)
  qed
  have "\<forall>node \<in> set chosen. un_usable_vram_bytes node < U64_MAX" using usable_nodes_bound [OF vram] set by auto
  from fit_candidate_Some [OF assms(1) this] obtain ends mn tot where
      p: "placeable input chosen ctx lanes ends" and
      c: "candidate = candidate_for input chosen ctx lanes
        (cut_stages (layer_weight_bytes input) 0 0 (map un_node_id ?nodes) ends) mn tot" by blast
  obtain q where q: "required_for input ctx lanes = Some q" "cut_fits q (map un_usable_vram_bytes ?nodes) 0 ends"
      "List.last (0 # ends) = pi_layer_count input" using p by (auto simp: placeable_def)
  have len: "length ends = length ?nodes" using cut_fits_length [OF q(2)] by simp
  have "map (\<lambda>stage. map_option un_usable_vram_bytes (find_node ?all (ps_node_id stage)))
      (cut_stages (layer_weight_bytes input) 0 0 (map un_node_id ?nodes) ends) =
    map (\<lambda>node_id. map_option un_usable_vram_bytes (find_node ?all node_id)) (map un_node_id ?nodes)"
    using len by (subst map_node_ids, subst cut_stages_ids(1)) simp_all
  also have "\<dots> = map Some (map un_usable_vram_bytes ?nodes)"
    using set find_node_distinct [OF dist] by auto
  finally have "memory_fits ?all q (cut_stages (layer_weight_bytes input) 0 0 (map un_node_id ?nodes) ends)"
    using q(2) len unfolding memory_fits_def by (intro exI [of _ "map un_usable_vram_bytes ?nodes"]) simp
  then show ?thesis
    using q len dn by (auto simp: c valid_placement_def contiguous_cut_stages)
qed

section \<open>Rebalancing\<close>

text \<open>The speeds and capacities of the stages of a plan.\<close>

lemma stage_limits_alt:
  "stage_limits nodes stage = Some limit \<longleftrightarrow>
     node_speed nodes (ps_node_id stage) = Some (fst limit) \<and>
     map_option un_usable_vram_bytes (find_node nodes (ps_node_id stage)) = Some (snd limit)"
  by (cases limit) (auto simp: stage_limits_def node_speed_def bind_eq_Some_conv)

lemma limits_capacities:
  assumes "collect_options (stage_limits nodes) stages = Some limits"
  shows "map (\<lambda>stage. map_option un_usable_vram_bytes (find_node nodes (ps_node_id stage))) stages = map Some (map snd limits)"
    and "map (\<lambda>stage. node_speed nodes (ps_node_id stage)) stages = map Some (map fst limits)"
proof -
  have l: "length limits = length stages" "\<And>i. i < length stages \<Longrightarrow> stage_limits nodes (stages ! i) = Some (limits ! i)"
    using assms by (auto simp: collect_options_Some)
  show "map (\<lambda>stage. map_option un_usable_vram_bytes (find_node nodes (ps_node_id stage))) stages = map Some (map snd limits)"
    "map (\<lambda>stage. node_speed nodes (ps_node_id stage)) stages = map Some (map fst limits)"
    using l by (simp_all add: list_eq_iff_nth_eq stage_limits_alt)
qed

lemma map_Some_inj: "map Some xs = map Some ys \<Longrightarrow> xs = ys"
  by (simp add: inj_map_eq_map)

lemma rebalanced_fields:
  assumes "balance_stages stages nodes w q = Some balanced" "length w \<le> U32_MAX"
  shows "\<exists>limits. collect_options (stage_limits nodes) stages = Some limits \<and>
    map ps_node_id balanced = map ps_node_id stages \<and> contiguous_stages balanced (length w) \<and>
    length q = length w \<and> memory_fits nodes q balanced \<and>
    (\<forall>other. cut_fits q (map snd limits) 0 other \<and> List.last (0 # other) = length w \<longrightarrow>
       cut_bottleneck w (map fst limits) 0 (map ps_layer_end balanced) \<le> cut_bottleneck w (map fst limits) 0 other)"
proof -
  from balance_stages_Some [OF assms(1)] obtain limits ends where b:
      "collect_options (stage_limits nodes) stages = Some limits"
      "balanced = balanced_stages (prefix_sums w) 0 stages ends" "length q = length w"
      "cut_fits q (map snd limits) 0 ends" "List.last (0 # ends) = length w"
      "\<forall>other. cut_fits q (map snd limits) 0 other \<and> List.last (0 # other) = length w \<longrightarrow>
         cut_bottleneck w (map fst limits) 0 ends \<le> cut_bottleneck w (map fst limits) 0 other" by blast
  have len: "length ends = length stages" using cut_fits_length [OF b(4)] b(1) by (simp add: collect_options_Some)
  have "\<forall>stop \<in> set ends. stop \<le> U32_MAX" using cut_fits_le_last [OF b(4)] b(5) assms(2) by fastforce
  note f = balanced_stages_fields [OF len _ this, of 0 "prefix_sums w", folded b(2), simplified]
  have "map (\<lambda>stage. map_option un_usable_vram_bytes (find_node nodes (ps_node_id stage))) balanced =
      map (\<lambda>node_id. map_option un_usable_vram_bytes (find_node nodes node_id)) (map ps_node_id balanced)"
    by simp
  also have "\<dots> = map Some (map snd limits)"
    unfolding f(1) using limits_capacities(1) [OF b(1)] by (simp add: comp_def)
  finally have "memory_fits nodes q balanced"
    unfolding memory_fits_def f(2) using b(4) by blast
  then show ?thesis
    using b(1,3,5,6) f by (intro exI [of _ limits]) (simp add: contiguous_stages_def)
qed

lemma rebalanced_valid:
  assumes "rebalance_topology input current = Done (Some plan)" "pi_layer_count input \<le> U32_MAX"
    and "distinct (map ps_node_id (pp_stages current))"
  shows "valid_placement input plan \<and> map ps_node_id (pp_stages plan) = map ps_node_id (pp_stages current) \<and>
    pp_context_length plan = pp_context_length current \<and> pp_parallel_lanes plan = pp_parallel_lanes current"
proof -
  let ?nodes = "usable_nodes (pi_nodes input)" and ?w = "layer_weight_bytes input"
  obtain q stages throughput where r: "required_for input (pp_context_length current) (pp_parallel_lanes current) = Some q"
      "balance_stages (pp_stages current) ?nodes ?w q = Some stages"
      "plan = current\<lparr>pp_stages := stages, pp_throughput := throughput\<rparr>"
    using assms(1) by (auto simp: rebalance_topology_def Let_def split: if_splits option.splits)
  have w: "length ?w = pi_layer_count input" by (simp add: layer_weight_bytes_def)
  then have "length ?w \<le> U32_MAX" using assms(2) by simp
  from rebalanced_fields [OF r(2) this] have f: "map ps_node_id stages = map ps_node_id (pp_stages current)"
      "contiguous_stages stages (length ?w)" "memory_fits ?nodes q stages" by blast+
  show ?thesis
    unfolding valid_placement_def using r(1,3) f w assms(3) by simp
qed

lemma contiguous_slices:
  assumes "contiguous_stages stages n" "memory_fits nodes q stages"
  shows "\<forall>stage \<in> set stages. ps_layer_start stage < ps_layer_end stage \<and> ps_layer_end stage \<le> n"
proof -
  have *: "\<forall>stage \<in> set stages. ps_layer_start stage < ps_layer_end stage \<and>
      ps_layer_end stage \<le> List.last (start # map ps_layer_end stages)"
    if "map ps_layer_start stages = butlast (start # map ps_layer_end stages)"
      "cut_fits q capacities start (map ps_layer_end stages)" for start capacities
    using that
  proof (induction stages arbitrary: start capacities)
    case (Cons stage stages)
    then obtain c cs where c: "capacities = c # cs" by (cases capacities) auto
    have "map ps_layer_start stages = butlast (ps_layer_end stage # map ps_layer_end stages)"
      using Cons.prems(1) by simp
    from Cons.IH [OF this] Cons.prems show ?case
      using cut_fits_last [of q cs "ps_layer_end stage" "map ps_layer_end stages"] by (auto simp: c)
  qed simp
  show ?thesis using * [of 0] assms by (auto simp: contiguous_stages_def memory_fits_def)
qed

lemma estimate_stages_Done:
  assumes "\<forall>stage \<in> set stages. ps_layer_start stage \<le> ps_layer_end stage \<and> ps_layer_end stage \<le> length w"
  shows "\<exists>estimates. estimate_stages nodes w stages = Done estimates"
  using assms
proof (induction stages)
  case (Cons stage stages)
  then obtain estimates where "estimate_stages nodes w stages = Done estimates" by auto
  then show ?case using Cons.prems by (auto split: option.splits)
qed simp

lemma estimate_Done:
  assumes "valid_placement input plan" "pi_layer_count input \<noteq> 0"
  shows "\<exists>t. estimate_plan_throughput input plan = Done t"
proof -
  have "length (layer_weight_bytes input) = pi_layer_count input" by (simp add: layer_weight_bytes_def)
  then have "\<forall>stage \<in> set (pp_stages plan). ps_layer_start stage \<le> ps_layer_end stage \<and>
      ps_layer_end stage \<le> length (layer_weight_bytes input)"
    using assms(1) contiguous_slices unfolding valid_placement_def by fastforce
  from estimate_stages_Done [OF this] show ?thesis
    using assms(2) by (auto simp: estimate_plan_throughput_def estimate_throughput_def)
qed

lemma fold_max_from: "fold max xs a = max a (fold max xs 0)" for a :: nat
proof (induction xs arbitrary: a)
  case (Cons x xs)
  show ?case using Cons.IH [of "max x a"] Cons.IH [of x] by (simp add: max.commute max.left_commute)
qed simp

lemma stage_decode_nanos:
  assumes "sum_list w \<le> U64_MAX"
  shows "decode_nanos (sum_u64 (layer_slice w start stop)) speed = min U64_MAX (stage_nanos (layer_sum w start stop) speed)"
proof -
  have "sum_u64 (layer_slice w start stop) = layer_sum w start stop"
    using layer_sum_le [of w start stop] assms by (simp add: sum_u64_def sat_sum_eq layer_sum_def)
  then show ?thesis by (simp add: decode_nanos_def)
qed

lemma estimate_stages_bottleneck:
  assumes "map ps_layer_start stages = butlast (start # map ps_layer_end stages)"
    and "cut_fits q capacities start (map ps_layer_end stages)"
    and "List.last (start # map ps_layer_end stages) \<le> length w" and "sum_list w \<le> U64_MAX"
    and "map (\<lambda>stage. node_speed nodes (ps_node_id stage)) stages = map Some speeds"
  shows "\<exists>estimates. estimate_stages nodes w stages = Done (Some estimates) \<and>
    fold max (map de_decode_nanos estimates) 0 = min U64_MAX (cut_bottleneck w speeds start (map ps_layer_end stages))"
  using assms
proof (induction stages arbitrary: start capacities speeds)
  case (Cons stage stages)
  obtain c cs where c: "capacities = c # cs" using Cons.prems(2) by (cases capacities) auto
  obtain speed rest where s: "speeds = speed # rest" using Cons.prems(5) by (cases speeds) auto
  let ?stop = "ps_layer_end stage"
  have "List.last (?stop # map ps_layer_end stages) \<le> length w" using Cons.prems(3) by simp
  with Cons.IH [of ?stop cs rest] obtain estimates where e: "estimate_stages nodes w stages = Done (Some estimates)"
      "fold max (map de_decode_nanos estimates) 0 = min U64_MAX (cut_bottleneck w rest ?stop (map ps_layer_end stages))"
    using Cons.prems by (auto simp: c s)
  have stop: "?stop \<le> length w"
    using cut_fits_last [of q cs ?stop "map ps_layer_end stages"] Cons.prems(2,3) by (auto simp: c)
  have start: "ps_layer_start stage = start" "start < ?stop" using Cons.prems(1,2) by (auto simp: c)
  show ?case
  proof (intro exI conjI)
    let ?e = "estimate_stage nodes w stage speed"
    show "estimate_stages nodes w (stage # stages) = Done (Some (?e # estimates))"
      using Cons.prems(5) e(1) stop start by (simp add: s)
    have "fold max (map de_decode_nanos (?e # estimates)) 0 =
        max (de_decode_nanos ?e) (fold max (map de_decode_nanos estimates) 0)"
      by (simp add: fold_max_from [of _ "de_decode_nanos ?e"])
    also have "\<dots> = min U64_MAX (cut_bottleneck w speeds start (map ps_layer_end (stage # stages)))"
      using e(2) start
      by (simp add: s estimate_stage_def stage_decode_nanos [OF Cons.prems(4)] max_min_distrib2)
    finally show "fold max (map de_decode_nanos (?e # estimates)) 0 =
        min U64_MAX (cut_bottleneck w speeds start (map ps_layer_end (stage # stages)))" .
  qed
qed simp

text \<open>The bottleneck the estimate reports for a plan of contiguous stages that fit.\<close>

lemma estimate_throughput_bottleneck:
  assumes "contiguous_stages stages (length w)" "memory_fits nodes q stages" "sum_list w \<le> U64_MAX"
    and "map (\<lambda>stage. node_speed nodes (ps_node_id stage)) stages = map Some speeds"
  shows "\<exists>t. estimate_throughput stages nodes w = Done (Some t) \<and>
    te_bottleneck_decode_nanos t = min U64_MAX (cut_bottleneck w speeds 0 (map ps_layer_end stages))"
proof -
  obtain capacities where "cut_fits q capacities 0 (map ps_layer_end stages)" using assms(2) by (auto simp: memory_fits_def)
  from estimate_stages_bottleneck [OF _ this _ assms(3,4)] assms(1) show ?thesis
    by (fastforce simp: contiguous_stages_def estimate_throughput_def)
qed

section \<open>Pinned stages\<close>

lemma validate_locked_Inr:
  assumes "validate_locked_loop locked i start seen = Inr n"
  shows "map lk_layer_start locked = butlast (start # map lk_layer_end locked) \<and>
    List.last (start # map lk_layer_end locked) = n \<and>
    (\<forall>stage \<in> set locked. lk_layer_start stage < lk_layer_end stage) \<and>
    distinct (map lk_node_id locked) \<and> set (map lk_node_id locked) \<inter> set seen = {}"
  using assms
  by (induction locked i start seen rule: validate_locked_loop.induct) (auto split: if_splits)

lemma locked_stage_nodes_Inr:
  "locked_stage_nodes nodes locked = Inr found \<Longrightarrow>
     map (\<lambda>stage. find_node nodes (lk_node_id stage)) locked = map Some found"
  by (induction nodes locked arbitrary: found rule: locked_stage_nodes.induct) (auto split: option.splits sum.splits)

lemma fit_locked_cut:
  assumes "map lk_layer_start locked = butlast (start # map lk_layer_end locked)"
    and "\<forall>stage \<in> set locked. lk_layer_start stage < lk_layer_end stage"
    and "length nodes = length locked" and "\<forall>node \<in> set nodes. un_usable_vram_bytes node < U64_MAX"
  shows "if cut_fits q (map un_usable_vram_bytes nodes) start (map lk_layer_end locked)
    then \<exists>mn' tot'. fit_locked_stages w q (zip locked nodes) i acc mn tot =
        Some (acc @ cut_stages w i start (map lk_node_id locked) (map lk_layer_end locked), mn', tot')
    else fit_locked_stages w q (zip locked nodes) i acc mn tot = None"
  using assms
proof (induction locked arbitrary: nodes start i acc mn tot)
  case (Cons stage locked)
  obtain node rest where n: "nodes = node # rest" using Cons.prems(3) by (cases nodes) auto
  have s: "lk_layer_start stage = start" "start < lk_layer_end stage"
      "map lk_layer_start locked = butlast (lk_layer_end stage # map lk_layer_end locked)"
    using Cons.prems(1,2) by auto
  have fit: "un_usable_vram_bytes node < sum_u64 (layer_slice q start (lk_layer_end stage)) \<longleftrightarrow>
      \<not> layer_sum q start (lk_layer_end stage) \<le> un_usable_vram_bytes node"
    using Cons.prems(4) by (simp add: n sum_u64_le_iff layer_sum_def not_le [symmetric])
  let ?stop = "lk_layer_end stage" and ?sum = "sum_u64 (layer_slice q start (lk_layer_end stage))"
  let ?acc = "acc @ [\<lparr>ps_stage_id = ''stage-'' @ dec i, ps_stage_index = i, ps_node_id = lk_node_id stage,
      ps_layer_start = start, ps_layer_end = ?stop, ps_parameter_bytes = sum_u64 (layer_slice w start ?stop)\<rparr>]"
  have step: "fit_locked_stages w q (zip (stage # locked) nodes) i acc mn tot =
      (if \<not> layer_sum q start ?stop \<le> un_usable_vram_bytes node then None
       else fit_locked_stages w q (zip locked rest) (i + 1) ?acc (min mn (un_usable_vram_bytes node - ?sum))
         (tot + (un_usable_vram_bytes node - ?sum)))"
    unfolding n zip_Cons_Cons fit_locked_stages.simps Let_def split_conv s(1) fit by (rule refl)
  have IH: "if cut_fits q (map un_usable_vram_bytes rest) ?stop (map lk_layer_end locked)
    then \<exists>mn' tot'. fit_locked_stages w q (zip locked rest) (i + 1) ?acc (min mn (un_usable_vram_bytes node - ?sum))
         (tot + (un_usable_vram_bytes node - ?sum)) =
        Some (?acc @ cut_stages w (i + 1) ?stop (map lk_node_id locked) (map lk_layer_end locked), mn', tot')
    else fit_locked_stages w q (zip locked rest) (i + 1) ?acc (min mn (un_usable_vram_bytes node - ?sum))
         (tot + (un_usable_vram_bytes node - ?sum)) = None"
    using Cons.prems by (intro Cons.IH [OF s(3)]) (auto simp: n)
  show ?case
    unfolding step using IH s(2) by (auto simp: n)
qed simp

definition locked_pairs :: "placement_input \<Rightarrow> nat list \<Rightarrow> (nat \<times> nat) list" where
  "locked_pairs input contexts = concat (map (\<lambda>ctx. map (Pair ctx) (lanes_at input ctx)) contexts)"

definition pair_before :: "nat \<times> nat \<Rightarrow> nat \<times> nat \<Rightarrow> bool" where
  "pair_before a b \<longleftrightarrow> fst b < fst a \<or> fst a = fst b \<and> snd b < snd a"

lemma locked_pairs_sorted: "sorted_wrt (>) contexts \<Longrightarrow> sorted_wrt pair_before (locked_pairs input contexts)"
  unfolding locked_pairs_def
  by (rule sorted_wrt_concat [of "(>)"]) (use lanes_at_sorted in \<open>auto simp: sorted_wrt_map pair_before_def\<close>)

lemma search_locked_eq:
  assumes "\<And>ctx. parallel_lane_candidates (pi_parallel_lanes_override input) ctx
    (pi_kv_bytes_per_token input) (pi_reserved_sequence_ids input) = Inr (lanes_at input ctx)"
  shows "search_locked input locked nodes contexts =
    (case find_map (\<lambda>(ctx, lanes). fit_locked_candidate input locked nodes ctx lanes) (locked_pairs input contexts) of
       Some candidate \<Rightarrow> Inr (ca_plan candidate)
     | None \<Rightarrow> Inl (LockedTopologyDoesNotFit (minimum_valid_context (pi_native_context_length input))))"
  by (induction contexts)
    (auto simp: locked_pairs_def assms find_map_append find_map_map split: option.splits)

section \<open>Plans\<close>

lemma validated: "validate_placement_input input = Inr () \<Longrightarrow> 0 < pi_layer_count input \<and> 0 < pi_native_context_length input"
  by (auto simp: validate_placement_input_def Let_def split: if_splits)

text \<open>What the search returns before the plan is finished.\<close>

lemma searched_plan:
  assumes "plan_topology_with_required_stage0 input required_stage0 = Inr plan"
    and "distinct (map pn_node_id (pi_nodes input))"
    and "\<forall>node \<in> set (pi_nodes input). pn_detected_vram_bytes node < U64_MAX"
  shows "valid_placement input plan \<and> 0 < pi_layer_count input \<and>
    max (pi_minimum_nodes input) 1 \<le> length (pp_stages plan) \<and>
    pp_context_length plan \<le> pi_native_context_length input \<and>
    pp_parallel_lanes plan \<in> set (lanes_at input (pp_context_length plan)) \<and>
    (\<forall>node_id. required_stage0 = Some node_id \<longrightarrow> ps_node_id (hd (pp_stages plan)) = node_id)"
proof -
  from plan_search_Inr [OF assms(1)] obtain ctx node_count lanes candidate where
      v: "validate_placement_input input = Inr ()" and
      s: "(ctx, node_count, lanes) \<in> set (shapes_of input)" and
      b: "best_for_shape input required_stage0 (usable_nodes (pi_nodes input)) ctx node_count lanes = Some candidate" and
      p: "plan = ca_plan candidate"
    by (auto simp: shape_best_def)
  from best_for_shape_Some(1) [OF b] obtain chosen where c: "subseq chosen (usable_nodes (pi_nodes input))"
      "length chosen = node_count" "admissible input required_stage0 ctx lanes chosen = Some candidate" by blast
  then have f: "fit_candidate input chosen ctx lanes = Some candidate"
      and s0: "candidate_has_required_stage0 candidate required_stage0"
    by (auto simp: admissible_def split: option.splits if_splits)
  note cv = candidate_valid [OF f c(1) assms(2,3)]
  have "\<forall>node_id. required_stage0 = Some node_id \<longrightarrow> ps_node_id (hd (pp_stages plan)) = node_id"
    using s0 by (cases "pp_stages (ca_plan candidate)") (auto simp: candidate_has_required_stage0_def p)
  then show ?thesis
    using cv validated [OF v] s c(2) contexts_for_le [of ctx input] by (auto simp: p shapes_of_def set_all_shapes)
qed

lemma valid_placement_throughput [simp]:
  "valid_placement input (plan\<lparr>pp_throughput := throughput\<rparr>) = valid_placement input plan"
  by (simp add: valid_placement_def)

lemma finished_plan:
  assumes "finish_plan input searched = Done plan" "valid_placement input searched" "pi_layer_count input \<le> U32_MAX"
  shows "valid_placement input plan \<and> map ps_node_id (pp_stages plan) = map ps_node_id (pp_stages searched) \<and>
    pp_context_length plan = pp_context_length searched \<and> pp_parallel_lanes plan = pp_parallel_lanes searched"
proof -
  obtain middle throughput where m: "plan = middle\<lparr>pp_throughput := throughput\<rparr>"
      "middle = searched \<or> rebalance_topology input searched = Done (Some middle)"
    using assms(1) by (auto simp: finish_plan_def split: if_splits option.splits)
  have "distinct (map ps_node_id (pp_stages searched))" using assms(2) by (simp add: valid_placement_def)
  then have "valid_placement input middle \<and> map ps_node_id (pp_stages middle) = map ps_node_id (pp_stages searched) \<and>
      pp_context_length middle = pp_context_length searched \<and> pp_parallel_lanes middle = pp_parallel_lanes searched"
    using m(2) assms(2) rebalanced_valid [OF _ assms(3)] by blast
  then show ?thesis by (simp add: m(1))
qed

text \<open>
  (C17) Every plan of \<open>plan_topology\<close> and \<open>plan_topology_with_stage0\<close>, balanced or not, is a
  placement: the stages partition the layers into consecutive non-empty ranges on distinct nodes of
  the request, the bytes charged to each stage at the plan's context and lanes fit the node's memory,
  there are at least the requested number of stages, the context is within the model's, the lanes
  leave room for the reserved sequence ids, and a required first node is first.
\<close>

theorem placement_sound:
  assumes "plan_placement_for input required_stage0 = Done (Inr plan)"
    and "distinct (map pn_node_id (pi_nodes input))"
    and "\<forall>node \<in> set (pi_nodes input). pn_detected_vram_bytes node < U64_MAX"
    and "pi_layer_count input \<le> U32_MAX"
  shows "valid_placement input plan \<and> max (pi_minimum_nodes input) 1 \<le> length (pp_stages plan) \<and>
    pp_context_length plan \<le> pi_native_context_length input \<and> 1 \<le> pp_parallel_lanes plan \<and>
    SEQUENCE_IDS_PER_LANE_WITH_RESIDENT_CACHE * pp_parallel_lanes plan + pi_reserved_sequence_ids input \<le> TOPOLOGY_LLAMA_MAX_SEQ \<and>
    (\<forall>node_id. required_stage0 = Some node_id \<longrightarrow> ps_node_id (hd (pp_stages plan)) = node_id)"
proof -
  obtain searched where s: "plan_topology_with_required_stage0 input required_stage0 = Inr searched"
      and f: "finish_plan input searched = Done plan"
    using assms(1) by (auto simp: plan_placement_for_def split: sum.splits)
  note sp = searched_plan [OF s assms(2,3)]
  note fp = finished_plan [OF f sp [THEN conjunct1] assms(4)]
  have "length (pp_stages plan) = length (pp_stages searched)" using fp by (metis length_map)
  moreover have "pp_stages searched \<noteq> []" using sp by auto
  then have "ps_node_id (hd (pp_stages plan)) = ps_node_id (hd (pp_stages searched))"
    using fp calculation by (metis hd_map length_0_conv)
  ultimately show ?thesis using sp fp lanes_at_bounds by auto
qed

lemma collect_options_None: "collect_options f xs = None \<longleftrightarrow> (\<exists>x \<in> set xs. f x = None)"
  by (induction xs) (auto split: option.splits)

lemma weights_in_u128: "sum_list w \<le> U64_MAX \<Longrightarrow> sum_list w * NANOS_PER_SECOND < U128_MAX"
proof -
  assume "sum_list w \<le> U64_MAX"
  then have "sum_list w * NANOS_PER_SECOND \<le> U64_MAX * NANOS_PER_SECOND" by (rule mult_le_mono1)
  also have "\<dots> < U128_MAX" by (simp add: NANOS_PER_SECOND_def)
  finally show ?thesis .
qed

text \<open>
  (C18) The balanced cut is optimal. The stages \<open>balance_stages\<close> returns keep their nodes and order,
  partition the layers and fit the nodes, and the slowest of them is as fast as in any cut that fits;
  it returns none only when a stage's node has no known speed or no cut of the layers fits at all.
\<close>

theorem balanced_cut_optimal:
  assumes "length layer_required = length layer_weights" and "stages \<noteq> []"
    and "length layer_weights \<le> U32_MAX" and "sum_list layer_weights \<le> U64_MAX"
  shows "case balance_stages stages nodes layer_weights layer_required of
      None \<Rightarrow> (\<exists>stage \<in> set stages. stage_limits nodes stage = None) \<or>
        (\<exists>limits. collect_options (stage_limits nodes) stages = Some limits \<and>
           (\<nexists>ends. cut_fits layer_required (map snd limits) 0 ends \<and> List.last (0 # ends) = length layer_weights))
    | Some balanced \<Rightarrow>
        (\<exists>limits. collect_options (stage_limits nodes) stages = Some limits \<and>
           map ps_node_id balanced = map ps_node_id stages \<and> contiguous_stages balanced (length layer_weights) \<and>
           memory_fits nodes layer_required balanced \<and>
           (\<forall>ends. cut_fits layer_required (map snd limits) 0 ends \<and> List.last (0 # ends) = length layer_weights \<longrightarrow>
              cut_bottleneck layer_weights (map fst limits) 0 (map ps_layer_end balanced)
                \<le> cut_bottleneck layer_weights (map fst limits) 0 ends))"
proof (cases "balance_stages stages nodes layer_weights layer_required")
  case None
  show ?thesis
  proof (cases "collect_options (stage_limits nodes) stages")
    case (Some limits)
    then have "\<nexists>ends. cut_fits layer_required (map snd limits) 0 ends \<and> List.last (0 # ends) = length layer_weights"
      using balance_stages_None [OF None assms(2,1) Some weights_in_u128 [OF assms(4)]] by blast
    then show ?thesis unfolding None option.case using Some by blast
  qed (simp add: None collect_options_None)
next
  case (Some balanced)
  then show ?thesis using rebalanced_fields [OF Some assms(3)] by fastforce
qed

text \<open>
  Rebalancing never slows the pipeline down: when \<open>rebalance_topology\<close> replaces a plan whose
  stages fit, the new plan has the same nodes, context and lanes, it is again a placement, and the
  bottleneck it reports is at most the one of the plan it replaces.
\<close>

theorem rebalance_never_slower:
  assumes "rebalance_topology input current = Done (Some plan)" and "valid_placement input current"
    and "pi_layer_count input \<le> U32_MAX" and "sum_list (layer_weight_bytes input) \<le> U64_MAX"
  shows "valid_placement input plan \<and> map ps_node_id (pp_stages plan) = map ps_node_id (pp_stages current) \<and>
    (\<exists>before after. estimate_plan_throughput input current = Done (Some before) \<and>
       pp_throughput plan = Some after \<and>
       te_bottleneck_decode_nanos after \<le> te_bottleneck_decode_nanos before)"
proof -
  let ?nodes = "usable_nodes (pi_nodes input)" and ?w = "layer_weight_bytes input"
  obtain q stages throughput where r: "required_for input (pp_context_length current) (pp_parallel_lanes current) = Some q"
      "balance_stages (pp_stages current) ?nodes ?w q = Some stages"
      "estimate_throughput stages ?nodes ?w = Done throughput"
      "plan = current\<lparr>pp_stages := stages, pp_throughput := throughput\<rparr>"
    using assms(1) by (auto simp: rebalance_topology_def Let_def split: if_splits option.splits)
  have n: "pi_layer_count input \<noteq> 0" using assms(1) by (auto simp: rebalance_topology_def split: if_splits)
  have w: "length ?w = pi_layer_count input" by (simp add: layer_weight_bytes_def)
  have "length ?w \<le> U32_MAX" using w assms(3) by simp
  from rebalanced_fields [OF r(2) this] obtain limits where l:
      "collect_options (stage_limits ?nodes) (pp_stages current) = Some limits"
      "map ps_node_id stages = map ps_node_id (pp_stages current)" "contiguous_stages stages (length ?w)"
      "memory_fits ?nodes q stages"
      "\<forall>other. cut_fits q (map snd limits) 0 other \<and> List.last (0 # other) = length ?w \<longrightarrow>
         cut_bottleneck ?w (map fst limits) 0 (map ps_layer_end stages) \<le> cut_bottleneck ?w (map fst limits) 0 other"
    by blast
  note caps = limits_capacities [OF l(1)]
  have cur: "contiguous_stages (pp_stages current) (length ?w)" "memory_fits ?nodes q (pp_stages current)"
      "distinct (map ps_node_id (pp_stages current))"
    using assms(2) r(1) w by (auto simp: valid_placement_def)
  obtain capacities where c: "map Some (map snd limits) = map Some capacities"
      "cut_fits q capacities 0 (map ps_layer_end (pp_stages current))"
    using cur(2) caps(1) by (auto simp: memory_fits_def)
  have "cut_fits q (map snd limits) 0 (map ps_layer_end (pp_stages current))"
    using c(2) unfolding map_Some_inj [OF c(1)] .
  then have le: "cut_bottleneck ?w (map fst limits) 0 (map ps_layer_end stages)
      \<le> cut_bottleneck ?w (map fst limits) 0 (map ps_layer_end (pp_stages current))"
    using l(5) cur(1) by (simp add: contiguous_stages_def)
  obtain before where b: "estimate_throughput (pp_stages current) ?nodes ?w = Done (Some before)"
      "te_bottleneck_decode_nanos before = min U64_MAX (cut_bottleneck ?w (map fst limits) 0 (map ps_layer_end (pp_stages current)))"
    using estimate_throughput_bottleneck [OF cur(1,2) assms(4) caps(2)] by blast
  have "map (\<lambda>stage. node_speed ?nodes (ps_node_id stage)) stages = map Some (map fst limits)"
    using caps(2) l(2) map_node_ids [of "node_speed ?nodes"] by metis
  from estimate_throughput_bottleneck [OF l(3,4) assms(4) this] obtain after where
      a: "throughput = Some after"
      "te_bottleneck_decode_nanos after = min U64_MAX (cut_bottleneck ?w (map fst limits) 0 (map ps_layer_end stages))"
    using r(3) by auto
  have "estimate_plan_throughput input current = Done (Some before)" using b(1) n by (simp add: estimate_plan_throughput_def)
  moreover have "te_bottleneck_decode_nanos after \<le> te_bottleneck_decode_nanos before"
    unfolding a(2) b(2) using le by (rule min.mono [OF order_refl])
  ultimately show ?thesis
    using rebalanced_valid [OF assms(1,3) cur(3)] r(4) a(1) by auto
qed

lemma rebalance_Done:
  assumes "pi_layer_count input \<noteq> 0" "pi_layer_count input \<le> U32_MAX"
  shows "\<exists>r. rebalance_topology input current = Done r"
proof -
  let ?nodes = "usable_nodes (pi_nodes input)" and ?w = "layer_weight_bytes input"
  have "length ?w \<le> U32_MAX" using assms(2) by (simp add: layer_weight_bytes_def)
  have "\<exists>t. estimate_throughput stages ?nodes ?w = Done t"
    if "balance_stages (pp_stages current) ?nodes ?w q = Some stages" for q stages
  proof -
    from rebalanced_fields [OF that \<open>length ?w \<le> U32_MAX\<close>] have "contiguous_stages stages (length ?w)"
      "memory_fits ?nodes q stages" by blast+
    from contiguous_slices [OF this] have "\<forall>stage \<in> set stages. ps_layer_start stage \<le> ps_layer_end stage \<and>
        ps_layer_end stage \<le> length ?w" by auto
    from estimate_stages_Done [OF this] show ?thesis by (auto simp: estimate_throughput_def)
  qed
  then show ?thesis
    using assms(1) by (fastforce simp: rebalance_topology_def Let_def split: option.splits)
qed

lemma map_triple_eq:
  "map f xs = map f' ys \<Longrightarrow> map g xs = map g' ys \<Longrightarrow> map h xs = map h' ys \<Longrightarrow>
   map (\<lambda>x. (f x, g x, h x)) xs = map (\<lambda>y. (f' y, g' y, h' y)) ys"
proof (induction xs arbitrary: ys)
  case (Cons x xs)
  then show ?case by (cases ys) auto
qed simp

text \<open>The result of the pinned planner before the throughput estimate.\<close>

lemma planned_locked:
  assumes "plan_locked_topology input locked \<noteq> Done (Inl e)" "\<forall>e. plan_locked_topology input locked \<noteq> Done (Inl e)"
    and "distinct (map pn_node_id (pi_nodes input))"
    and vram: "\<forall>node \<in> set (pi_nodes input). pn_detected_vram_bytes node < U64_MAX"
  shows "\<exists>plan. plan_locked_topology input locked =
      outcome_bind (estimate_plan_throughput input plan) (\<lambda>throughput. Done (Inr (plan\<lparr>pp_throughput := throughput\<rparr>))) \<and>
    0 < pi_layer_count input \<and> valid_placement input plan \<and>
    map (\<lambda>stage. (ps_node_id stage, ps_layer_start stage, ps_layer_end stage)) (pp_stages plan) =
      map (\<lambda>stage. (lk_node_id stage, lk_layer_start stage, lk_layer_end stage)) locked \<and>
    (pp_context_length plan, pp_parallel_lanes plan) \<in> set (locked_pairs input (contexts_for input)) \<and>
    (\<forall>pair \<in> set (locked_pairs input (contexts_for input)).
       pair_before pair (pp_context_length plan, pp_parallel_lanes plan) \<longrightarrow>
       (\<forall>layer_required. required_for input (fst pair) (snd pair) = Some layer_required \<longrightarrow>
          \<not> memory_fits (usable_nodes (pi_nodes input)) layer_required (pp_stages plan)))"
proof -
  let ?all = "usable_nodes (pi_nodes input)" and ?w = "layer_weight_bytes input"
  let ?ids = "map lk_node_id locked" and ?ends = "map lk_layer_end locked"
  have v: "validate_placement_input input = Inr ()"
    using assms(2) by (cases "validate_placement_input input") (auto simp: plan_locked_topology_def)
  have vl: "validate_locked_stages input locked = Inr ()"
    using assms(2) v by (cases "validate_locked_stages input locked") (auto simp: plan_locked_topology_def)
  obtain contexts where c: "context_candidates (pi_native_context_length input)
      (minimum_valid_context (pi_native_context_length input)) (pi_context_length_override input) = Inr contexts"
    using assms(2) v vl by (cases "context_candidates (pi_native_context_length input)
      (minimum_valid_context (pi_native_context_length input)) (pi_context_length_override input)")
      (auto simp: plan_locked_topology_def)
  obtain found where f: "locked_stage_nodes ?all locked = Inr found"
    using assms(2) v vl c by (cases "locked_stage_nodes ?all locked") (auto simp: plan_locked_topology_def)
  obtain plan where p: "search_locked input locked found contexts = Inr plan"
    using assms(2) v vl c f by (cases "search_locked input locked found contexts") (auto simp: plan_locked_topology_def)
  have res: "plan_locked_topology input locked =
      outcome_bind (estimate_plan_throughput input plan) (\<lambda>throughput. Done (Inr (plan\<lparr>pp_throughput := throughput\<rparr>)))"
    by (simp add: plan_locked_topology_def v vl c f p)
  have cf: "contexts_for input = contexts" using c by (simp add: contexts_for_def)
  from vl have "validate_locked_loop locked 0 0 [] = Inr (pi_layer_count input)"
    by (auto simp: validate_locked_stages_def Let_def split: if_splits sum.splits)
  note lk = validate_locked_Inr [OF this]
  note fn = locked_stage_nodes_Inr [OF f]
  have len: "length found = length locked" using fn by (metis length_map)
  have "set found \<subseteq> set ?all"
  proof
    fix node assume "node \<in> set found"
    then have "Some node \<in> set (map Some found)" by simp
    then have "Some node \<in> set (map (\<lambda>stage. find_node ?all (lk_node_id stage)) locked)" by (simp only: fn)
    then show "node \<in> set ?all" by (auto dest: sym [THEN find_node_in])
  qed
  then have bound: "\<forall>node \<in> set found. un_usable_vram_bytes node < U64_MAX" using usable_nodes_bound [OF vram] by auto
  have fit: "if cut_fits q (map un_usable_vram_bytes found) 0 ?ends
    then \<exists>mn tot. fit_locked_candidate input locked found ctx lanes =
        Some (candidate_for input found ctx lanes (cut_stages ?w 0 0 ?ids ?ends) mn tot)
    else fit_locked_candidate input locked found ctx lanes = None"
    if "required_for input ctx lanes = Some q" for ctx lanes q
    using fit_locked_cut [of locked 0 found q ?w 0 "[]" U64_MAX 0] lk len bound that
    by (auto simp: fit_locked_candidate_def split: if_splits)
  have caps: "map (\<lambda>stage. map_option un_usable_vram_bytes (find_node ?all (ps_node_id stage)))
      (cut_stages ?w 0 0 ?ids ?ends) = map Some (map un_usable_vram_bytes found)"
  proof -
    have "map (\<lambda>node_id. map_option un_usable_vram_bytes (find_node ?all node_id)) ?ids =
        map (map_option un_usable_vram_bytes) (map (\<lambda>stage. find_node ?all (lk_node_id stage)) locked)" by simp
    also have "\<dots> = map Some (map un_usable_vram_bytes found)" unfolding fn by simp
    finally show ?thesis by (subst map_node_ids, subst cut_stages_ids(1)) simp_all
  qed
  have fits_iff: "memory_fits ?all q (cut_stages ?w 0 0 ?ids ?ends) \<longleftrightarrow> cut_fits q (map un_usable_vram_bytes found) 0 ?ends" for q
    unfolding memory_fits_def caps by (simp add: inj_map_eq_map del: map_map)
  obtain ctx rest where cc: "contexts = ctx # rest" using context_candidates_ok(4) [OF c] by (cases contexts) auto
  have "\<exists>lanes. parallel_lane_candidates (pi_parallel_lanes_override input) ctx (pi_kv_bytes_per_token input)
      (pi_reserved_sequence_ids input) = Inr lanes"
    using p unfolding cc by (auto split: sum.splits)
  then have lanes: "\<And>ctx. parallel_lane_candidates (pi_parallel_lanes_override input) ctx
    (pi_kv_bytes_per_token input) (pi_reserved_sequence_ids input) = Inr (lanes_at input ctx)"
    using lanes_at_eq by blast
  let ?fit = "\<lambda>(ctx, lanes). fit_locked_candidate input locked found ctx lanes"
  obtain candidate where cand: "find_map ?fit (locked_pairs input contexts) = Some candidate" "plan = ca_plan candidate"
    using p search_locked_eq [OF lanes] by (auto split: option.splits)
  from find_map_split [OF cand(1)] obtain pre pair post where s: "locked_pairs input contexts = pre @ pair # post"
      "?fit pair = Some candidate" "\<forall>z \<in> set pre. ?fit z = None" by blast
  obtain q where q: "required_for input (fst pair) (snd pair) = Some q"
    using s(2) by (cases pair) (auto simp: fit_locked_candidate_def bind_eq_Some_conv)
  have at: "fit_locked_candidate input locked found (fst pair) (snd pair) = Some candidate"
    using s(2) by (cases pair) simp
  then have fits: "cut_fits q (map un_usable_vram_bytes found) 0 ?ends"
    using fit [OF q] by (auto split: if_splits)
  then obtain mn tot where cd: "candidate = candidate_for input found (fst pair) (snd pair) (cut_stages ?w 0 0 ?ids ?ends) mn tot"
    using fit [OF q] at by auto
  then have ps: "pp_stages plan = cut_stages ?w 0 0 ?ids ?ends" "pp_context_length plan = fst pair"
      "pp_parallel_lanes plan = snd pair"
    using cand(2) by simp_all
  have starts: "map ps_layer_start (pp_stages plan) = map lk_layer_start locked"
    unfolding ps using lk by (simp add: cut_stages_start)
  have "map (\<lambda>stage. (ps_node_id stage, ps_layer_start stage, ps_layer_end stage)) (pp_stages plan) =
      map (\<lambda>stage. (lk_node_id stage, lk_layer_start stage, lk_layer_end stage)) locked"
    using starts ps(1) by (intro map_triple_eq) simp_all
  moreover have "valid_placement input plan"
    unfolding valid_placement_def ps using q fits fits_iff lk by (auto simp: contiguous_cut_stages)
  moreover have "\<not> memory_fits ?all layer_required (pp_stages plan)"
    if early: "z \<in> set (locked_pairs input contexts)" "pair_before z pair"
      and req: "required_for input (fst z) (snd z) = Some layer_required" for z layer_required
  proof -
    have "sorted_wrt pair_before (pre @ pair # post)"
      using locked_pairs_sorted [of contexts input] context_candidates_ok(1) [OF c] s(1) by simp
    then have "\<forall>later \<in> set (pair # post). \<not> pair_before later pair"
      by (auto simp: sorted_wrt_append pair_before_def)
    then have "z \<in> set pre" using early s(1) by auto
    then have "?fit z = None" using s(3) by blast
    then have "fit_locked_candidate input locked found (fst z) (snd z) = None" by (simp add: case_prod_beta)
    then show ?thesis using fit [OF req] fits_iff ps(1) by (auto split: if_splits)
  qed
  ultimately show ?thesis
    using res validated [OF v] s(1) ps by (intro exI [of _ plan]) (auto simp: cf)
qed

text \<open>
  Pinned stages are kept. A plan of \<open>plan_locked_topology\<close> has exactly the nodes and layer ranges
  of the lock, they are a placement at its context and lanes, and the pinned ranges do not fit at a
  larger context, nor at the same context with more lanes.
\<close>

theorem locked_plan_exact:
  assumes "plan_locked_topology input locked = Done (Inr plan)"
    and "distinct (map pn_node_id (pi_nodes input))"
    and "\<forall>node \<in> set (pi_nodes input). pn_detected_vram_bytes node < U64_MAX"
  shows "valid_placement input plan \<and>
    map (\<lambda>stage. (ps_node_id stage, ps_layer_start stage, ps_layer_end stage)) (pp_stages plan) =
      map (\<lambda>stage. (lk_node_id stage, lk_layer_start stage, lk_layer_end stage)) locked \<and>
    (\<forall>pair \<in> set (locked_pairs input (contexts_for input)).
       pair_before pair (pp_context_length plan, pp_parallel_lanes plan) \<longrightarrow>
       (\<forall>layer_required. required_for input (fst pair) (snd pair) = Some layer_required \<longrightarrow>
          \<not> memory_fits (usable_nodes (pi_nodes input)) layer_required (pp_stages plan)))"
  using planned_locked [OF _ _ assms(2,3), of locked] assms(1) by fastforce

lemma plan_placement_no_panic:
  assumes "distinct (map pn_node_id (pi_nodes input))"
    and "\<forall>node \<in> set (pi_nodes input). pn_detected_vram_bytes node < U64_MAX"
    and "pi_layer_count input \<le> U32_MAX"
  shows "plan_placement_for input required_stage0 \<noteq> Panic"
proof (cases "plan_topology_with_required_stage0 input required_stage0")
  case (Inr searched)
  note sp = searched_plan [OF Inr assms(1,2)]
  then obtain r where r: "rebalance_topology input searched = Done r" using rebalance_Done assms(3) by blast
  have "valid_placement input middle \<Longrightarrow> \<exists>t. estimate_plan_throughput input middle = Done t" for middle
    using estimate_Done sp by blast
  moreover have "distinct (map ps_node_id (pp_stages searched))" using sp by (simp add: valid_placement_def)
  then have "\<And>middle. r = Some middle \<Longrightarrow> valid_placement input middle"
    using rebalanced_valid [OF _ assms(3)] r by blast
  ultimately have "\<exists>plan. finish_plan input searched = Done plan"
    using r sp by (cases r) (fastforce simp: finish_plan_def)+
  then show ?thesis by (auto simp: plan_placement_for_def Inr)
qed (simp add: plan_placement_for_def)

text \<open>
  The planners do not panic: no slice is out of bounds and no division is by zero, for any
  request, required first node or lock.
\<close>

theorem planning_never_panics:
  assumes "distinct (map pn_node_id (pi_nodes input))"
    and "\<forall>node \<in> set (pi_nodes input). pn_detected_vram_bytes node < U64_MAX"
    and "pi_layer_count input \<le> U32_MAX"
  shows "plan_topology input \<noteq> Panic \<and> plan_topology_with_stage0 input stage0 \<noteq> Panic \<and>
    plan_locked_topology input locked \<noteq> Panic"
proof -
  have "plan_locked_topology input locked \<noteq> Panic"
  proof
    assume panic: "plan_locked_topology input locked = Panic"
    then obtain plan where "plan_locked_topology input locked =
        outcome_bind (estimate_plan_throughput input plan) (\<lambda>throughput. Done (Inr (plan\<lparr>pp_throughput := throughput\<rparr>)))"
        "0 < pi_layer_count input" "valid_placement input plan"
      using planned_locked [OF _ _ assms(1,2), of locked] by auto
    then show False using panic estimate_Done [of input plan] by auto
  qed
  then show ?thesis using plan_placement_no_panic [OF assms]
    by (simp add: plan_topology_def plan_topology_with_stage0_def)
qed

section \<open>A concrete request\<close>

text \<open>
  Three layers on two nodes: memory alone puts two layers on the slower first node, the balanced cut
  one.
\<close>


definition demo_node :: "string \<Rightarrow> nat \<Rightarrow> nat \<Rightarrow> placement_node" where
  "demo_node node_id vram speed = \<lparr>pn_node_id = node_id, pn_detected_vram_bytes = vram, pn_max_vram_bytes = None,
     pn_runtime_headroom_bytes = 0, pn_stage_transfer_latency_ms = None, pn_decode_bytes_per_second = Some speed\<rparr>"

definition demo_placement :: placement_input where
  "demo_placement = \<lparr>pi_native_context_length = 512, pi_layer_count = 3, pi_model_weight_bytes = 30,
     pi_layer_weight_bytes = [10, 10, 10], pi_kv_bytes_per_token = 3,
     pi_recurrent_bytes_per_sequence_by_layer = [], pi_reserved_sequence_ids = 0, pi_minimum_nodes = 2,
     pi_nodes = [demo_node ''a'' 1300 10, demo_node ''b'' 1250 20], pi_context_length_override = None,
     pi_parallel_lanes_override = None, pi_target_decode_tpot_ms = None, pi_auto_balance = True\<rparr>"

definition demo_usable :: "string \<Rightarrow> nat \<Rightarrow> nat \<Rightarrow> usable_node" where
  "demo_usable node_id vram speed = \<lparr>un_node_id = node_id, un_usable_vram_bytes = vram,
     un_stage_transfer_latency_ms = None, un_decode_bytes_per_second = Some speed\<rparr>"

lemma demo_nodes: "usable_nodes (pi_nodes demo_placement) = [demo_usable ''a'' 1300 10, demo_usable ''b'' 1250 20]"
  by (simp add: demo_placement_def usable_nodes_def usable_node_of_def demo_node_def demo_usable_def
      sort_by_Cons usable_node_cmp_def cmp_def)

lemma three_zeros: "replicate 3 (0::nat) = [0, 0, 0]"
  by (simp add: numeral_3_eq_3)

lemma demo_required: "required_for demo_placement 512 1 = Some [613, 613, 613]"
  by (simp add: required_for_def demo_placement_def layer_weight_bytes_def recurrent_bytes_by_layer_def
      layer_required_bytes_def layer_bytes_def candidate_bytes_per_layer_def checked_def div_ceil_def
      KV_COMPUTE_RESERVE_NUMERATOR_def KV_COMPUTE_RESERVE_DENOMINATOR_def three_zeros)

lemma demo_weights: "layer_weight_bytes demo_placement = [10, 10, 10]"
  by (simp add: demo_placement_def layer_weight_bytes_def)

lemma demo_contexts: "contexts_for demo_placement = [512]"
  by (simp add: contexts_for_def context_candidates_def demo_placement_def minimum_valid_context_def clamp_def
      MINIMUM_AUTO_CONTEXT_LENGTH_def CONTEXT_STEPS_def)

lemma demo_lanes: "lanes_at demo_placement ctx = rev [1..<clamp (ctx div 4096) 1 85 + 1]"
  by (simp add: lanes_at_def demo_placement_def parallel_lane_candidates_def sequence_capacity_def TOPOLOGY_LLAMA_MAX_SEQ_def
      SEQUENCE_IDS_PER_LANE_WITH_RESIDENT_CACHE_def FLOOR_CTX_PER_SESSION_def Let_def del: rev.simps upt_Suc)

lemma bind_simps: "Option.bind (Some x) f = f x" by simp

lemma demo_fit_stages:
  "fit_stages [10, 10, 10] [613, 613, 613] 3 [demo_usable ''a'' 1300 10, demo_usable ''b'' 1250 20] 0 0 [] U64_MAX 0 =
   Some (3, cut_stages [10, 10, 10] 0 0 [''a'', ''b''] [2, 3], 74, 711)"
  by (simp add: Let_def demo_usable_def max_contiguous_layers_from_def layer_slice_def sum_u64_def sat_sum_def sat_add_def)

lemma demo_sorted: "sort_by usable_node_cmp [demo_usable ''a'' 1300 10, demo_usable ''b'' 1250 20] =
    [demo_usable ''a'' 1300 10, demo_usable ''b'' 1250 20]"
  by (simp add: sort_by_Cons usable_node_cmp_def cmp_def demo_usable_def)

lemma demo_fit: "fit_candidate demo_placement [demo_usable ''a'' 1300 10, demo_usable ''b'' 1250 20] 512 1 =
   Some (candidate_for demo_placement [demo_usable ''a'' 1300 10, demo_usable ''b'' 1250 20] 512 1
     (cut_stages [10, 10, 10] 0 0 [''a'', ''b''] [2, 3]) 74 711)"
proof -
  have "pi_layer_count demo_placement = 3" by (simp add: demo_placement_def)
  then show ?thesis
    by (simp only: fit_candidate_def Let_def demo_required demo_weights demo_sorted bind_simps demo_fit_stages prod.case) simp
qed

lemma demo_subsets: "for_each_node_subset [x, y] 2 = [[x, y]]"
  by (simp add: for_each_node_subset_def visit_node_subsets.simps Let_def)

lemma demo_shapes: "shapes_of demo_placement = [(512, 2, 1)]"
proof -
  have "lanes_at demo_placement 512 = [1]" by (simp add: demo_lanes clamp_def)
  then show ?thesis
    unfolding shapes_of_def all_shapes_def demo_contexts demo_nodes
    by (simp add: shapes_for_def demo_placement_def)
qed

lemma demo_steps:
  "validate_placement_input demo_placement = Inr ()"
  "context_candidates (pi_native_context_length demo_placement)
      (minimum_valid_context (pi_native_context_length demo_placement)) (pi_context_length_override demo_placement) = Inr [512]"
  "parallel_lane_candidates (pi_parallel_lanes_override demo_placement) 512
      (pi_kv_bytes_per_token demo_placement) (pi_reserved_sequence_ids demo_placement) = Inr [1]"
    apply (simp add: validate_placement_input_def demo_placement_def)
   apply (simp add: context_candidates_def demo_placement_def minimum_valid_context_def clamp_def
      MINIMUM_AUTO_CONTEXT_LENGTH_def CONTEXT_STEPS_def)
  apply (simp add: demo_placement_def parallel_lane_candidates_def sequence_capacity_def TOPOLOGY_LLAMA_MAX_SEQ_def
      SEQUENCE_IDS_PER_LANE_WITH_RESIDENT_CACHE_def FLOOR_CTX_PER_SESSION_def clamp_def)
  done

lemma demo_searched: "plan_topology_with_required_stage0 demo_placement None =
    Inr (ca_plan (candidate_for demo_placement [demo_usable ''a'' 1300 10, demo_usable ''b'' 1250 20] 512 1
     (cut_stages [10, 10, 10] 0 0 [''a'', ''b''] [2, 3]) 74 711))"
proof -
  let ?ns = "[demo_usable ''a'' 1300 10, demo_usable ''b'' 1250 20]"
  have b: "best_for_shape demo_placement None ?ns 512 2 1 =
      Some (candidate_for demo_placement ?ns 512 1 (cut_stages [10, 10, 10] 0 0 [''a'', ''b''] [2, 3]) 74 711)"
    unfolding best_for_shape_def demo_subsets
    by (simp only: foldl_Cons foldl_Nil visit_subset_def demo_fit option.case) (simp add: candidate_has_required_stage0_def keep_better_def)
  have lat: "\<not> latency_aware_planning ?ns" by (simp add: latency_aware_planning_def demo_usable_def)
  have s: "shapes_for demo_placement ?ns [1] = [(2, 1)]" by (simp add: shapes_for_def demo_placement_def)
  show ?thesis
    by (simp only: plan_topology_with_required_stage0_def demo_steps s b sum.case option.case demo_nodes search_contexts.simps
        search_shapes.simps lat if_False)
qed

lemma demo_limits: "collect_options (stage_limits [demo_usable ''a'' 1300 10, demo_usable ''b'' 1250 20])
    (cut_stages [10, 10, 10] 0 0 [''a'', ''b''] [2, 3]) = Some [(10, 1300), (20, 1250)]"
  by (simp add: stage_limits_def find_node_def positive_speed_def demo_usable_def)

lemma demo_prefix:
  "prefix_sums [10, 10, 10] = [0, 10, 20, 30]" "prefix_sums [613, 613, 613] = [0, 613, 1226, 1839]"
  by (simp_all add: prefix_sums_def)

lemma demo_rows:
  "first_row [0, 10, 20, 30] [0, 613, 1226, 1839] 3 2 (10, 1300) =
     [(unreachable, 0), (1000000000, 0), (2000000000, 0), (unreachable, 0)]"
  "next_row [0, 10, 20, 30] [0, 613, 1226, 1839] 3 2 1 (20, 1250)
     [(unreachable, 0), (1000000000, 0), (2000000000, 0), (unreachable, 0)] =
     [(unreachable, 0), (unreachable, 0), (1000000000, 1), (1000000000, 1)]"
  by (simp_all add: first_row_def next_row_def range_sum_def stage_nanos_def div_ceil_def NANOS_PER_SECOND_def
      improve_cell_def unreachable_def upt_rec)

lemma demo_balanced: "balance_stages (cut_stages [10, 10, 10] 0 0 [''a'', ''b''] [2, 3])
    [demo_usable ''a'' 1300 10, demo_usable ''b'' 1250 20] [10, 10, 10] [613, 613, 613] =
    Some (balanced_stages [0, 10, 20, 30] 0 (cut_stages [10, 10, 10] 0 0 [''a'', ''b''] [2, 3]) [1, 3])"
proof -
  let ?stages = "cut_stages [10, 10, 10] 0 0 [''a'', ''b''] [2, 3]"
  have len: "length ?stages = 2" "length [10, 10, 10 :: nat] = 3" "length [613, 613, 613 :: nat] = 3"
    by (simp_all only: cut_stages.simps list.size)
  have rows: "later_rows [0, 10, 20, 30] [0, 613, 1226, 1839] 3 2 1 (tl [(10, 1300), (20, 1250)])
      [first_row [0, 10, 20, 30] [0, 613, 1226, 1839] 3 2 (hd [(10, 1300), (20, 1250)])] =
    [[(unreachable, 0), (unreachable, 0), (1000000000, 1), (1000000000, 1)],
     [(unreachable, 0), (1000000000, 0), (2000000000, 0), (unreachable, 0)]]"
    unfolding list.sel demo_rows later_rows.simps by simp
  show ?thesis
    unfolding balance_stages_def Let_def len demo_limits bind_simps demo_prefix rows
    by (simp add: unreachable_def)
qed

lemma demo_assumptions:
  "distinct (map pn_node_id (pi_nodes demo_placement))"
  "\<forall>node \<in> set (pi_nodes demo_placement). pn_detected_vram_bytes node < U64_MAX"
  "pi_layer_count demo_placement \<le> U32_MAX"
  by (simp_all add: demo_placement_def demo_node_def)

definition demo_plan :: placement_plan where
  "demo_plan = ca_plan (candidate_for demo_placement [demo_usable ''a'' 1300 10, demo_usable ''b'' 1250 20] 512 1
     (cut_stages [10, 10, 10] 0 0 [''a'', ''b''] [2, 3]) 74 711)"

lemma demo_planned: "\<exists>plan. plan_placement_for demo_placement None = Done (Inr plan)"
proof -
  have "finish_plan demo_placement demo_plan \<noteq> Panic"
    using plan_placement_no_panic [OF demo_assumptions, of None]
    by (auto simp: plan_placement_for_def demo_searched demo_plan_def)
  then show ?thesis
    by (cases "finish_plan demo_placement demo_plan") (auto simp: plan_placement_for_def demo_searched demo_plan_def)
qed

theorem placement_sound_witness: "\<exists>plan. plan_placement_for demo_placement None = Done (Inr plan) \<and> valid_placement demo_placement plan"
proof -
  obtain plan where "plan_placement_for demo_placement None = Done (Inr plan)" using demo_planned by blast
  from placement_sound [OF this demo_assumptions] this show ?thesis by blast
qed

theorem balanced_cut_optimal_witness:
  "cut_bottleneck [10, 10, 10] [10, 20] 0 [1, 3] \<le> cut_bottleneck [10, 10, 10] [10, 20] 0 [2, 3]"
proof -
  let ?stages = "cut_stages [10, 10, 10] 0 0 [''a'', ''b''] [2, 3]"
  let ?nodes = "[demo_usable ''a'' 1300 10, demo_usable ''b'' 1250 20]"
  have "cut_fits [613, 613, 613] [1300, 1250] 0 [2, 3]" by (simp add: layer_sum_def layer_slice_def)
  then show ?thesis
    using balanced_cut_optimal [of "[613, 613, 613]" "[10, 10, 10]" ?stages ?nodes]
    by (simp only: demo_balanced option.case demo_limits option.inject ex_simps)
      (auto dest!: spec [of _ "[2, 3]"])
qed

lemma demo_plan_valid: "valid_placement demo_placement demo_plan"
  using searched_plan [OF demo_searched demo_assumptions(1,2)] by (simp add: demo_plan_def)

lemma demo_rebalanced: "\<exists>plan. rebalance_topology demo_placement demo_plan = Done (Some plan)"
proof -
  obtain r where r: "rebalance_topology demo_placement demo_plan = Done r"
    using rebalance_Done [of demo_placement demo_plan] by (auto simp: demo_placement_def)
  have "pi_layer_count demo_placement = 3" by (simp add: demo_placement_def)
  with r show ?thesis
    unfolding rebalance_topology_def Let_def demo_nodes demo_weights demo_plan_def candidate_for_simps demo_required option.case
      demo_balanced by (auto split: if_splits)
qed

definition demo_lock :: "locked_topology_stage list" where
  "demo_lock = [\<lparr>lk_node_id = ''b'', lk_layer_start = 0, lk_layer_end = 1\<rparr>, \<lparr>lk_node_id = ''a'', lk_layer_start = 1, lk_layer_end = 3\<rparr>]"

lemma demo_locked: "\<exists>plan. plan_locked_topology demo_placement demo_lock = Done (Inr plan)"
proof -
  let ?ns = "[demo_usable ''b'' 1250 20, demo_usable ''a'' 1300 10]"
  have vl: "validate_locked_stages demo_placement demo_lock = Inr ()"
    by (simp add: validate_locked_stages_def demo_placement_def demo_lock_def)
  have n: "locked_stage_nodes [demo_usable ''a'' 1300 10, demo_usable ''b'' 1250 20] demo_lock = Inr ?ns"
    by (simp add: demo_lock_def find_node_def demo_usable_def)
  have "\<exists>stages mn tot. fit_locked_stages [10, 10, 10] [613, 613, 613] (zip demo_lock ?ns) 0 [] U64_MAX 0 = Some (stages, mn, tot)"
    by (simp add: demo_lock_def demo_usable_def layer_slice_def sum_u64_def sat_sum_def sat_add_def)
  then have "\<exists>candidate. fit_locked_candidate demo_placement demo_lock ?ns 512 1 = Some candidate"
    unfolding fit_locked_candidate_def demo_required demo_weights by auto
  then obtain candidate where f: "fit_locked_candidate demo_placement demo_lock ?ns 512 1 = Some candidate" ..
  have eq: "plan_locked_topology demo_placement demo_lock =
      outcome_bind (estimate_plan_throughput demo_placement (ca_plan candidate))
        (\<lambda>throughput. Done (Inr (ca_plan candidate\<lparr>pp_throughput := throughput\<rparr>)))"
    by (simp only: plan_locked_topology_def demo_steps vl n demo_nodes sum.case search_locked.simps find_map.simps f option.case)
  have "\<exists>t. estimate_plan_throughput demo_placement (ca_plan candidate) = Done t"
    using planned_locked [OF _ _ demo_assumptions(1,2), of demo_lock] eq estimate_Done by (cases "estimate_plan_throughput demo_placement (ca_plan candidate)") fastforce+
  then show ?thesis using eq by auto
qed

end
