(* ===== verification/PlacementComplete.thy ===== *)
theory PlacementComplete
  imports PlacementProperties
begin

text \<open>
  How complete the placement search is against the placements of \<open>valid_placement\<close>, whose stages may
  name their nodes in any order. The search packs each subset of nodes greedily in descending order of
  memory. When every layer requires the same bytes the order makes no difference
  (\<open>equal_layers_reorder\<close>); otherwise only placements in that order are covered, and the search does
  miss others: two layers of 7000 and 10000 bytes fit nodes of 8000 and 11000 bytes, the smaller node
  first, but not the larger first.
\<close>

section \<open>Cuts of equal layers\<close>

lemma layer_sum_equal:
  assumes "set q \<subseteq> {b}" "stop \<le> length q"
  shows "layer_sum q start stop = (stop - start) * b"
proof -
  have "set (layer_slice q start stop) \<subseteq> set q"
    unfolding layer_slice_def by (metis set_drop_subset set_take_subset subset_trans)
  then have "\<forall>x \<in> set (layer_slice q start stop). x = b" using assms(1) by blast
  then have "layer_slice q start stop = replicate (length (layer_slice q start stop)) b"
    by (simp add: replicate_length_same)
  from arg_cong [OF this, of sum_list] have "layer_sum q start stop = length (layer_slice q start stop) * b"
    by (simp add: layer_sum_def sum_list_replicate)
  then show ?thesis using assms(2) by (simp add: layer_slice_def)
qed

text \<open>A cut of equal layers is the number of layers each node takes.\<close>

lemma cut_fits_counts:
  assumes "cut_fits q capacities start ends" "set q \<subseteq> {b}" "List.last (start # ends) \<le> length q"
  shows "\<exists>counts. list_all2 (\<lambda>c k. 1 \<le> k \<and> k * b \<le> c) capacities counts \<and>
    start + sum_list counts = List.last (start # ends)"
  using assms
proof (induction q capacities start ends rule: cut_fits.induct)
  case (3 q capacity capacities start stop ends)
  have le: "stop \<le> length q" using cut_fits_last [of q capacities stop ends] 3(2,4) by simp
  obtain counts where c: "list_all2 (\<lambda>c k. 1 \<le> k \<and> k * b \<le> c) capacities counts"
      "stop + sum_list counts = List.last (stop # ends)" using 3 by auto
  then show ?case
    using 3(2) layer_sum_equal [OF 3(3) le, of start]
    by (intro exI [of _ "(stop - start) # counts"]) auto
qed auto

lemma counts_cut_fits:
  assumes "list_all2 (\<lambda>c k. 1 \<le> k \<and> k * b \<le> c) capacities counts" "set q \<subseteq> {b}"
    and "start + sum_list counts \<le> length q"
  shows "\<exists>ends. cut_fits q capacities start ends \<and> List.last (start # ends) = start + sum_list counts"
  using assms(1,3)
proof (induction arbitrary: start rule: list_all2_induct)
  case (Cons c cs k ks)
  from Cons.IH [of "start + k"] Cons.prems obtain ends where
    "cut_fits q cs (start + k) ends" "List.last ((start + k) # ends) = start + k + sum_list ks"
    by (auto simp: add.assoc)
  then show ?case
    using Cons layer_sum_equal [OF assms(2), of "start + k" start]
    by (intro exI [of _ "(start + k) # ends"]) auto
qed auto

lemma equal_layers_reorder:
  assumes "cut_fits q capacities 0 ends" "set q \<subseteq> {b}" "List.last (0 # ends) = length q"
    and "mset capacities' = mset capacities"
  shows "\<exists>ends'. cut_fits q capacities' 0 ends' \<and> List.last (0 # ends') = length q"
proof -
  obtain counts where c: "list_all2 (\<lambda>c k. 1 \<le> k \<and> k * b \<le> c) capacities counts" "sum_list counts = length q"
    using cut_fits_counts [OF assms(1,2)] assms(3) by auto
  from list_all2_reorder_left_invariance [OF c(1) assms(4)] obtain counts' where
    "list_all2 (\<lambda>c k. 1 \<le> k \<and> k * b \<le> c) capacities' counts'" "mset counts' = mset counts" by blast
  then show ?thesis
    using counts_cut_fits [of b capacities' counts' q 0] assms(2) c(2) by (metis add_0 order_refl sum_mset_sum_list)
qed

section \<open>The order of the nodes\<close>

definition capacity_of :: "usable_node list \<Rightarrow> string \<Rightarrow> nat" where
  "capacity_of nodes node_id = (case find_node nodes node_id of Some node \<Rightarrow> un_usable_vram_bytes node | None \<Rightarrow> 0)"

text \<open>The stages of a placement name their nodes in descending order of memory.\<close>

definition largest_first :: "placement_input \<Rightarrow> placement_plan \<Rightarrow> bool" where
  "largest_first input plan \<longleftrightarrow>
     sorted_wrt (\<lambda>a b. b \<le> a)
       (map (\<lambda>stage. capacity_of (usable_nodes (pi_nodes input)) (ps_node_id stage)) (pp_stages plan))"

text \<open>At the context and lanes of a placement, all layers require the same bytes.\<close>

definition equal_layers :: "placement_input \<Rightarrow> placement_plan \<Rightarrow> bool" where
  "equal_layers input plan \<longleftrightarrow>
     (case required_for input (pp_context_length plan) (pp_parallel_lanes plan) of
        Some layer_required \<Rightarrow> (\<exists>bytes. set layer_required \<subseteq> {bytes}) | None \<Rightarrow> False)"

text \<open>The shape of a placement: what the search orders its attempts by.\<close>

definition shape_of :: "placement_plan \<Rightarrow> nat \<times> nat \<times> nat" where
  "shape_of plan = (pp_context_length plan, length (pp_stages plan), pp_parallel_lanes plan)"

lemma descending_unique:
  fixes xs ys :: "nat list"
  assumes "sorted_wrt (\<lambda>a b. b \<le> a) xs" "sorted_wrt (\<lambda>a b. b \<le> a) ys" "mset xs = mset ys"
  shows "xs = ys"
proof -
  have "sorted (rev xs)" "sorted (rev ys)" "mset (rev xs) = mset (rev ys)"
    using assms by (simp_all add: sorted_wrt_rev)
  then show ?thesis by (metis properties_for_sort rev_rev_ident)
qed

lemma find_node_id: "find_node nodes node_id = Some node \<Longrightarrow> un_node_id node = node_id"
  by (auto simp: find_node_def find_Some_iff)

lemma image_filtered: "A \<subseteq> f ` B \<Longrightarrow> f ` {x \<in> B. f x \<in> A} = A"
  by auto

text \<open>The nodes of a valid placement, as the search enumerates them.\<close>

lemma placement_nodes:
  assumes "memory_fits nodes q stages" "distinct (map ps_node_id stages)" "distinct (map un_node_id nodes)"
  shows "\<exists>chosen. subseq chosen nodes \<and> length chosen = length stages \<and>
    mset (map un_usable_vram_bytes chosen) = mset (map (\<lambda>stage. capacity_of nodes (ps_node_id stage)) stages) \<and>
    cut_fits q (map (\<lambda>stage. capacity_of nodes (ps_node_id stage)) stages) 0 (map ps_layer_end stages)"
proof -
  let ?ids = "map ps_node_id stages" and ?caps = "map (\<lambda>stage. capacity_of nodes (ps_node_id stage)) stages"
  define chosen where "chosen = filter (\<lambda>node. un_node_id node \<in> set ?ids) nodes"
  obtain capacities where c: "map (\<lambda>stage. map_option un_usable_vram_bytes (find_node nodes (ps_node_id stage))) stages
      = map Some capacities" "cut_fits q capacities 0 (map ps_layer_end stages)"
    using assms(1) by (auto simp: memory_fits_def)
  have some: "\<exists>node. find_node nodes (ps_node_id stage) = Some node" if "stage \<in> set stages" for stage
  proof -
    have "map_option un_usable_vram_bytes (find_node nodes (ps_node_id stage)) \<in> set (map Some capacities)"
      using that c(1) [symmetric] by (simp add: rev_image_eqI)
    then show ?thesis by auto
  qed
  have caps: "?caps = capacities"
  proof -
    have "map Some ?caps = map Some capacities"
      unfolding c(1) [symmetric] using some by (fastforce simp: capacity_of_def)
    then show ?thesis by (metis (no_types, lifting) inj_Some list.inj_map inj_eq)
  qed
  have in_nodes: "ps_node_id stage \<in> un_node_id ` set nodes" if "stage \<in> set stages" for stage
    using some [OF that] find_node_in find_node_id by (metis imageI)
  have dist: "distinct (map un_node_id chosen)" unfolding chosen_def by (rule distinct_map_filter [OF assms(3)])
  have "set ?ids \<subseteq> un_node_id ` set nodes" using in_nodes by auto
  then have "set (map un_node_id chosen) = set ?ids" unfolding chosen_def set_map set_filter
    by (intro image_filtered) simp
  then have ids: "mset (map un_node_id chosen) = mset ?ids" using dist assms(2) set_eq_iff_mset_eq_distinct by blast
  have "map un_usable_vram_bytes chosen = map (capacity_of nodes) (map un_node_id chosen)"
    using find_node_distinct [OF assms(3)] by (auto simp: chosen_def capacity_of_def)
  then have "mset (map un_usable_vram_bytes chosen) = image_mset (capacity_of nodes) (mset ?ids)"
    using ids by (metis mset_map)
  then have "mset (map un_usable_vram_bytes chosen) = mset ?caps" by (simp add: image_mset.compositionality o_def)
  moreover have "length chosen = length stages" using ids by (metis length_map mset_eq_length)
  moreover have "subseq chosen nodes" unfolding chosen_def by simp
  ultimately show ?thesis using c(2) caps by blast
qed

lemma valid_placement_packs:
  assumes "valid_placement input other" "distinct (map pn_node_id (pi_nodes input))"
    and "largest_first input other \<or> equal_layers input other"
  shows "\<exists>chosen ends. subseq chosen (usable_nodes (pi_nodes input)) \<and> length chosen = length (pp_stages other) \<and>
    placeable input chosen (pp_context_length other) (pp_parallel_lanes other) ends"
proof -
  let ?nodes = "usable_nodes (pi_nodes input)" and ?ends = "map ps_layer_end (pp_stages other)"
  let ?caps = "map (\<lambda>stage. capacity_of ?nodes (ps_node_id stage)) (pp_stages other)"
  obtain q where q: "required_for input (pp_context_length other) (pp_parallel_lanes other) = Some q"
      "memory_fits ?nodes q (pp_stages other)" "distinct (map ps_node_id (pp_stages other))"
      "List.last (0 # ?ends) = pi_layer_count input"
    using assms(1) by (auto simp: valid_placement_def contiguous_stages_def)
  from placement_nodes [OF q(2,3) usable_nodes_distinct [OF assms(2)]] obtain chosen where
      c: "subseq chosen ?nodes" "length chosen = length (pp_stages other)"
        "mset (map un_usable_vram_bytes chosen) = mset ?caps" "cut_fits q ?caps 0 ?ends" by blast
  let ?sorted = "map un_usable_vram_bytes (sort_by usable_node_cmp chosen)"
  have same: "mset ?sorted = mset ?caps" using c(3) by simp
  have "\<exists>ends. cut_fits q ?sorted 0 ends \<and> List.last (0 # ends) = pi_layer_count input"
  proof (cases "largest_first input other")
    case True
    then have "?sorted = ?caps"
      using same sorted_usable [of chosen] by (intro descending_unique) (simp_all add: largest_first_def sorted_wrt_map)
    then show ?thesis using c(4) q(4) by metis
  next
    case False
    then obtain b where "set q \<subseteq> {b}" using assms(3) q(1) by (auto simp: equal_layers_def)
    then show ?thesis
      using equal_layers_reorder [OF c(4) _ _ same] q(4) required_for_length [OF q(1)] by metis
  qed
  then show ?thesis using c(1,2) q(1) unfolding placeable_def by blast
qed

section \<open>The search finds a placement\<close>

text \<open>A placement of some nodes makes the search find one of its shape.\<close>

lemma placeable_found:
  assumes "placeable input chosen ctx lanes ends" "subseq chosen (usable_nodes (pi_nodes input))"
    and "\<forall>node \<in> set (pi_nodes input). pn_detected_vram_bytes node < U64_MAX"
  shows "shape_best input None (usable_nodes (pi_nodes input)) (ctx, length chosen, lanes) \<noteq> None"
proof -
  have "\<forall>node \<in> set chosen. un_usable_vram_bytes node < U64_MAX"
    using usable_nodes_bound [OF assms(3)] subseq_subset [OF assms(2)] by blast
  then have "fit_candidate input chosen ctx lanes \<noteq> None"
    using fit_candidate_None assms(1) by blast
  then have "admissible input None ctx lanes chosen \<noteq> None"
    by (auto simp: admissible_def candidate_has_required_stage0_def)
  then have "best_for_shape input None (usable_nodes (pi_nodes input)) ctx (length chosen) lanes \<noteq> None"
    using best_for_shape_None [OF _ assms(2) refl, of input None ctx lanes] by (auto simp del: not_None_eq)
  then show ?thesis by (simp add: shape_best_def)
qed

text \<open>With unknown latencies the plan returned has the first shape of the search that has a candidate.\<close>

lemma first_shape_returned:
  assumes "plan_topology_with_required_stage0 input None = Inr plan"
    and "\<not> latency_aware_planning (usable_nodes (pi_nodes input))"
    and "\<forall>node \<in> set (pi_nodes input). pn_detected_vram_bytes node < U64_MAX"
    and "shape \<in> set (shapes_of input)"
    and "shape_best input None (usable_nodes (pi_nodes input)) shape \<noteq> None"
  shows "\<not> shape_before shape (shape_of plan)"
proof -
  let ?nodes = "usable_nodes (pi_nodes input)"
  from plan_search_Inr [of input None plan] assms(1,2) obtain ctx node_count lanes candidate where
      c: "shape_best input None ?nodes (ctx, node_count, lanes) = Some candidate" "plan = ca_plan candidate"
        "\<forall>earlier \<in> set (shapes_of input). shape_before earlier (ctx, node_count, lanes) \<longrightarrow>
           shape_best input None ?nodes earlier = None"
    by (metis prod_cases3)
  from best_for_shape_Some(1) [OF c(1) [unfolded shape_best_def prod.case]] obtain others where
    o: "subseq others ?nodes" "length others = node_count" "admissible input None ctx lanes others = Some candidate"
    by blast
  then have f: "fit_candidate input others ctx lanes = Some candidate"
    by (auto simp: admissible_def split: option.splits if_splits)
  have "\<forall>node \<in> set others. un_usable_vram_bytes node < U64_MAX"
    using usable_nodes_bound [OF assms(3)] subseq_subset [OF o(1)] by blast
  from fit_candidate_Some [OF f this] obtain es mn tot where
      e: "placeable input others ctx lanes es"
        "candidate = candidate_for input others ctx lanes (cut_stages (layer_weight_bytes input) 0 0
          (map un_node_id (sort_by usable_node_cmp others)) es) mn tot" by blast
  have "length es = length others" using e(1) cut_fits_length by (force simp: placeable_def)
  then have "shape_of plan = (ctx, node_count, lanes)" using e(2) c(2) o(2) by (simp add: shape_of_def)
  then show ?thesis using c(3) assms(4,5) by auto
qed

text \<open>
  (C33) How complete the search is. Take any valid placement of a shape the search may try: any context,
  number of nodes and lanes, any nodes. If all its layers require the same bytes, or its nodes come in
  descending order of memory, \<open>plan_topology\<close> does not report that no topology is valid, and when
  latencies are unknown the plan it returns has no smaller context than this placement, no more nodes
  at the same context and no fewer lanes at the same context and nodes.
\<close>

theorem placement_search_complete:
  assumes "valid_placement input other" and "shape_of other \<in> set (shapes_of input)"
    and "equal_layers input other \<or> largest_first input other"
    and "distinct (map pn_node_id (pi_nodes input))"
    and "\<forall>node \<in> set (pi_nodes input). pn_detected_vram_bytes node < U64_MAX"
  shows "plan_topology_with_required_stage0 input None \<noteq> Inl (NoValidTopology minimum) \<and>
    (\<forall>plan. plan_topology_with_required_stage0 input None = Inr plan \<and>
       \<not> latency_aware_planning (usable_nodes (pi_nodes input)) \<longrightarrow>
       pp_context_length other \<le> pp_context_length plan \<and>
       (pp_context_length other = pp_context_length plan \<longrightarrow>
          length (pp_stages plan) \<le> length (pp_stages other) \<and>
          (length (pp_stages plan) = length (pp_stages other) \<longrightarrow>
             pp_parallel_lanes other \<le> pp_parallel_lanes plan)))"
proof -
  from valid_placement_packs [OF assms(1,4)] assms(3) obtain chosen ends where
      p: "subseq chosen (usable_nodes (pi_nodes input))" "length chosen = length (pp_stages other)"
        "placeable input chosen (pp_context_length other) (pp_parallel_lanes other) ends" by blast
  have found: "shape_best input None (usable_nodes (pi_nodes input)) (shape_of other) \<noteq> None"
    using placeable_found [OF p(3,1) assms(5)] p(2) by (simp add: shape_of_def)
  then have "plan_topology_with_required_stage0 input None \<noteq> Inl (NoValidTopology minimum)"
    using plan_search_Inl [of input None minimum] assms(2) by (metis bspec)
  then show ?thesis
    using first_shape_returned [OF _ _ assms(5,2) found] by (fastforce simp: shape_before_def shape_of_def)
qed

text \<open>A placement with the smaller node first, in an order the search does not try.\<close>

definition demo_ascending :: placement_plan where
  "demo_ascending = demo_plan\<lparr>pp_stages := cut_stages [10, 10, 10] 0 0 [''b'', ''a''] [1, 3]\<rparr>"

theorem placement_search_complete_witness:
  "plan_topology_with_required_stage0 demo_placement None \<noteq> Inl (NoValidTopology 512) \<and>
   valid_placement demo_placement demo_ascending \<and> \<not> largest_first demo_placement demo_ascending"
proof -
  have caps: "find_node [demo_usable ''a'' 1300 10, demo_usable ''b'' 1250 20] ''a'' = Some (demo_usable ''a'' 1300 10)"
      "find_node [demo_usable ''a'' 1300 10, demo_usable ''b'' 1250 20] ''b'' = Some (demo_usable ''b'' 1250 20)"
    by (simp_all add: find_node_def demo_usable_def)
  have r: "required_for demo_placement 512 1 = Some [613, 613, 613]" by (rule demo_required)
  have at: "pp_context_length demo_ascending = 512" "pp_parallel_lanes demo_ascending = 1"
      "pp_stages demo_ascending = cut_stages [10, 10, 10] 0 0 [''b'', ''a''] [1, 3]"
    by (simp_all add: demo_ascending_def demo_plan_def)
  have fits: "memory_fits [demo_usable ''a'' 1300 10, demo_usable ''b'' 1250 20] [613, 613, 613] (pp_stages demo_ascending)"
    unfolding memory_fits_def at
    by (rule exI [of _ "[1250, 1300]"]) (simp add: caps, simp add: demo_usable_def layer_sum_def layer_slice_def)
  have valid: "valid_placement demo_placement demo_ascending"
    unfolding valid_placement_def demo_nodes using r fits
    by (simp add: at contiguous_stages_def demo_placement_def)
  have "shape_of demo_ascending \<in> set (shapes_of demo_placement)" by (simp add: demo_shapes shape_of_def at)
  moreover have "equal_layers demo_placement demo_ascending" using r by (simp add: equal_layers_def at)
  moreover have "\<not> largest_first demo_placement demo_ascending"
    unfolding largest_first_def demo_nodes at by (simp add: capacity_of_def caps) (simp add: demo_usable_def)
  ultimately show ?thesis
    using placement_search_complete [OF valid _ _ demo_assumptions(1,2), of 512] valid by blast
qed

end
