(* ===== verification/Float32.thy ===== *)
theory Float32
  imports ActivationExact
begin

unbundle bit_operations_syntax

text \<open>
  The arithmetic of Rust's \<open>f32\<close> on bit patterns, as the CacheGen codec uses it: IEEE 754
  subtraction, addition, multiplication and division with their special cases, comparison,
  \<open>round\<close>, \<open>clamp\<close> and the saturating cast to \<open>u8\<close>. A finite operand is its rational value; the exact
  result is rounded to nearest even by \<open>f32_of_rat\<close>. Every NaN result is the quiet NaN of payload 0.
\<close>

section \<open>Classes\<close>

definition f32_neg :: "f32 \<Rightarrow> bool" where
  "f32_neg v \<longleftrightarrow> v AND 0x80000000 \<noteq> 0"

definition f32_is_nan :: "f32 \<Rightarrow> bool" where
  "f32_is_nan v \<longleftrightarrow> \<not> is_finite v \<and> v AND 0x7FFFFF \<noteq> 0"

definition f32_is_inf :: "f32 \<Rightarrow> bool" where
  "f32_is_inf v \<longleftrightarrow> \<not> is_finite v \<and> v AND 0x7FFFFF = 0"

definition F32_NAN :: f32 where
  "F32_NAN = 0x7FC00000"

definition f32_inf :: "bool \<Rightarrow> f32" where
  "f32_inf negative = (if negative then 0xFF800000 else 0x7F800000)"

definition f32_zero :: "bool \<Rightarrow> f32" where
  "f32_zero negative = (if negative then 0x80000000 else 0)"

section \<open>Operations\<close>

definition f32_lt :: "f32 \<Rightarrow> f32 \<Rightarrow> bool" where
  "f32_lt a b \<longleftrightarrow>
     \<not> f32_is_nan a \<and> \<not> f32_is_nan b \<and>
     (if f32_is_inf a then f32_neg a \<and> \<not> (f32_is_inf b \<and> f32_neg b)
      else if f32_is_inf b then \<not> f32_neg b
      else f32_value a < f32_value b)"

definition f32_add :: "f32 \<Rightarrow> f32 \<Rightarrow> f32" where
  "f32_add a b =
     (if f32_is_nan a \<or> f32_is_nan b then F32_NAN
      else if f32_is_inf a then (if f32_is_inf b \<and> f32_neg a \<noteq> f32_neg b then F32_NAN else a)
      else if f32_is_inf b then b
      else
        let r = f32_value a + f32_value b
        in if r = 0 then f32_zero (f32_neg a \<and> f32_neg b) else f32_of_rat (r < 0) \<bar>r\<bar>)"

text \<open>\<open>a - b\<close> is \<open>a + (-b)\<close>; a NaN operand is a NaN result either way.\<close>

definition f32_sub :: "f32 \<Rightarrow> f32 \<Rightarrow> f32" where
  "f32_sub a b = f32_add a (b XOR 0x80000000)"

definition f32_mul :: "f32 \<Rightarrow> f32 \<Rightarrow> f32" where
  "f32_mul a b =
     (let s = (f32_neg a \<noteq> f32_neg b)
      in if f32_is_nan a \<or> f32_is_nan b then F32_NAN
         else if f32_is_inf a then (if \<not> f32_is_inf b \<and> f32_value b = 0 then F32_NAN else f32_inf s)
         else if f32_is_inf b then (if f32_value a = 0 then F32_NAN else f32_inf s)
         else f32_of_rat s \<bar>f32_value a * f32_value b\<bar>)"

definition f32_div :: "f32 \<Rightarrow> f32 \<Rightarrow> f32" where
  "f32_div a b =
     (let s = (f32_neg a \<noteq> f32_neg b)
      in if f32_is_nan a \<or> f32_is_nan b then F32_NAN
         else if f32_is_inf a then (if f32_is_inf b then F32_NAN else f32_inf s)
         else if f32_is_inf b then f32_zero s
         else if f32_value b = 0 then (if f32_value a = 0 then F32_NAN else f32_inf s)
         else f32_of_rat s \<bar>f32_value a / f32_value b\<bar>)"

text \<open>\<open>f32::round\<close>: ties away from zero.\<close>

definition f32_round :: "f32 \<Rightarrow> f32" where
  "f32_round v =
     (if \<not> is_finite v then v
      else f32_of_rat (f32_neg v) (of_int \<lfloor>\<bar>f32_value v\<bar> + 1 / 2\<rfloor>))"

definition f32_clamp :: "f32 \<Rightarrow> f32 \<Rightarrow> f32 \<Rightarrow> f32" where
  "f32_clamp v lo hi =
     (let v = (if f32_lt v lo then lo else v)
      in if f32_lt hi v then hi else v)"

text \<open>\<open>v as u8\<close>: NaN is 0, everything else is truncated and saturated.\<close>

definition f32_as_u8 :: "f32 \<Rightarrow> byte" where
  "f32_as_u8 v =
     (if f32_is_nan v then 0
      else if f32_is_inf v then (if f32_neg v then 0 else 255)
      else if f32_value v \<le> 0 then 0
      else word_of_int (min 255 \<lfloor>f32_value v\<rfloor>))"

definition f32_of_u8 :: "byte \<Rightarrow> f32" where
  "f32_of_u8 b = f32_of_rat False (of_nat (unat b))"

text \<open>
  \<open>f32::min\<close> and \<open>f32::max\<close> of numbers that are not NaN. When the two compare equal, which they do
  for the two zeros, the library documents that either may be returned: \<open>tie\<close> is its choice.
\<close>

definition f32_min_by :: "(f32 \<Rightarrow> f32 \<Rightarrow> bool) \<Rightarrow> f32 \<Rightarrow> f32 \<Rightarrow> f32" where
  "f32_min_by tie a b =
     (if f32_lt a b then a else if f32_lt b a then b else if tie a b then a else b)"

definition f32_max_by :: "(f32 \<Rightarrow> f32 \<Rightarrow> bool) \<Rightarrow> f32 \<Rightarrow> f32 \<Rightarrow> f32" where
  "f32_max_by tie a b =
     (if f32_lt b a then a else if f32_lt a b then b else if tie a b then a else b)"

section \<open>Powers of two and rounding\<close>

lemma pow2_pos [simp]: "0 < pow2 k"
  by (simp add: pow2_def)

lemma pow2_nonneg [simp]: "0 \<le> pow2 k"
  using pow2_pos [of k] by linarith

lemma pow2_powi: "pow2 k = 2 powi k"
  by (simp add: pow2_def power_int_def inverse_eq_divide power_one_over)

lemma pow2_add: "pow2 (a + b) = pow2 a * pow2 b"
  by (simp add: pow2_powi power_int_add)

lemma pow2_less_iff: "pow2 a < pow2 b \<longleftrightarrow> a < b"
  using power_int_strict_increasing [of a b "2 :: rat"] power_int_increasing [of b a "2 :: rat"]
  by (fastforce simp: pow2_powi not_less)

lemma pow2_le_iff: "pow2 a \<le> pow2 b \<longleftrightarrow> a \<le> b"
  using pow2_less_iff [of b a] by (simp add: not_less [symmetric])

lemma int_bits_bounds:
  assumes "0 < n"
  shows "0 < int_bits n \<and> (2 :: int) ^ nat (int_bits n - 1) \<le> n \<and> n < 2 ^ nat (int_bits n)"
  using assms
proof (induction n rule: int_bits.induct)
  case (1 n)
  show ?case
  proof (cases "n = 1")
    case True
    then show ?thesis by (simp add: int_bits.simps)
  next
    case False
    then have "0 < n div 2" using 1(2) by simp
    then have ih: "0 < int_bits (n div 2)" "(2 :: int) ^ nat (int_bits (n div 2) - 1) \<le> n div 2"
      "n div 2 < 2 ^ nat (int_bits (n div 2))"
      using 1(1) 1(2) by simp_all
    obtain k where k: "int_bits (n div 2) = int k + 1"
      using ih(1) by (metis add.commute int_one_le_iff_zero_less zle_iff_zadd)
    have "int_bits n = int k + 2" using k 1(2) by (simp add: int_bits.simps [of n])
    moreover have "nat (int k + 2 - 1) = Suc k" "nat (int k + 2) = Suc (Suc k)" by simp_all
    moreover have "(2 :: int) ^ k \<le> n div 2 \<and> n div 2 < 2 * 2 ^ k"
      using ih(2,3) k by (simp add: nat_add_distrib)
    then have "2 * (2 :: int) ^ k \<le> n \<and> n < 4 * 2 ^ k" by linarith
    ultimately show ?thesis by simp
  qed
qed

lemma pow2_int_bits:
  assumes "0 < n"
  shows "pow2 (int_bits n - 1) \<le> of_int n" and "of_int n < pow2 (int_bits n)"
proof -
  have b: "0 < int_bits n" "(2 :: int) ^ nat (int_bits n - 1) \<le> n" "n < 2 ^ nat (int_bits n)"
    using int_bits_bounds [OF assms] by auto
  have "(of_int (2 ^ nat (int_bits n - 1)) :: rat) \<le> of_int n" using b(2) by (simp only: of_int_le_iff)
  then show "pow2 (int_bits n - 1) \<le> of_int n" using b(1) by (simp add: pow2_def)
  have "(of_int n :: rat) < of_int (2 ^ nat (int_bits n))" using b(3) by (simp only: of_int_less_iff)
  then show "of_int n < pow2 (int_bits n)" using b(1) by (simp add: pow2_def)
qed

lemma binary_exponent_bounds:
  assumes "0 < x"
  shows "pow2 (binary_exponent x) \<le> x" and "x < pow2 (binary_exponent x + 1)"
proof -
  obtain n d where q: "quotient_of x = (n, d)" by fastforce
  have d: "0 < d" using quotient_of_denom_pos [OF q] .
  have x: "x = of_int n / of_int d" using quotient_of_div [OF q] .
  have n: "0 < n" using assms x d by (simp add: zero_less_divide_iff)
  let ?k = "int_bits n - int_bits d"
  note bn = pow2_int_bits [OF n] and bd = pow2_int_bits [OF d]
  have dpos: "(0 :: rat) < of_int d" using d by simp
  have "pow2 (?k - 1) * of_int d \<le> pow2 (?k - 1) * pow2 (int_bits d)"
    using bd(2) by (intro mult_left_mono) simp_all
  also have "\<dots> = pow2 (int_bits n - 1)" by (simp add: pow2_add [symmetric])
  finally have lo: "pow2 (?k - 1) \<le> x" using bn(1) dpos by (simp add: x pos_le_divide_eq)
  have "pow2 (int_bits n) = pow2 (?k + 1) * pow2 (int_bits d - 1)" by (simp add: pow2_add [symmetric])
  also have "\<dots> \<le> pow2 (?k + 1) * of_int d"
    using bd(1) by (intro mult_left_mono) simp_all
  finally have hi: "x < pow2 (?k + 1)" using bn(2) dpos by (simp add: x pos_divide_less_eq)
  have e: "binary_exponent x = (if pow2 ?k \<le> x then ?k else ?k - 1)"
    by (simp add: binary_exponent_def q Let_def)
  show "pow2 (binary_exponent x) \<le> x" using lo by (simp add: e)
  show "x < pow2 (binary_exponent x + 1)" using hi by (simp add: e not_le)
qed

lemma binary_exponent_unique:
  assumes "pow2 e \<le> x" and "x < pow2 (e + 1)"
  shows "binary_exponent x = e"
proof -
  have "0 < x" using assms(1) pow2_pos [of e] by linarith
  note b = binary_exponent_bounds [OF this]
  have "pow2 e < pow2 (binary_exponent x + 1)" using assms(1) b(2) by linarith
  moreover have "pow2 (binary_exponent x) < pow2 (e + 1)" using assms(2) b(1) by linarith
  ultimately show ?thesis by (simp add: pow2_less_iff)
qed

lemma round_half_even_bounds: "x - 1 / 2 \<le> of_int (round_half_even x)" "of_int (round_half_even x) \<le> x + 1 / 2"
proof -
  have f: "of_int \<lfloor>x\<rfloor> \<le> x" "x < of_int \<lfloor>x\<rfloor> + 1" by linarith+
  show "x - 1 / 2 \<le> of_int (round_half_even x)" "of_int (round_half_even x) \<le> x + 1 / 2"
    using f by (simp_all add: round_half_even_def Let_def, linarith+)
qed

lemma round_half_even_mono: "of_int a \<le> x \<Longrightarrow> a \<le> round_half_even x"
  unfolding round_half_even_def Let_def le_floor_iff [symmetric] by simp

lemma round_half_even_of_int [simp]: "round_half_even (of_int n) = n"
  by (simp add: round_half_even_def)

text \<open>The grid of \<open>ieee_round\<close> at a positive value and how far rounding moves it.\<close>

definition f32_grid :: "rat \<Rightarrow> int" where
  "f32_grid x = max (binary_exponent x - 23) (- 149)"

lemma ieee_round_pos:
  "0 < x \<Longrightarrow> ieee_round 24 (- 149) x = of_int (round_half_even (x / pow2 (f32_grid x))) * pow2 (f32_grid x)"
  by (simp add: ieee_round_def f32_grid_def Let_def)

lemma ieee_round_0 [simp]: "ieee_round p e 0 = 0"
  by (simp add: ieee_round_def)

lemma ieee_round_error:
  assumes "0 < x"
  shows "\<bar>ieee_round 24 (- 149) x - x\<bar> \<le> pow2 (f32_grid x) / 2"
proof -
  let ?g = "pow2 (f32_grid x)" and ?n = "of_int (round_half_even (x / pow2 (f32_grid x))) :: rat"
  have g: "0 < ?g" by simp
  have "\<bar>?n - x / ?g\<bar> \<le> 1 / 2"
    using round_half_even_bounds [of "x / ?g"] by (simp only: abs_le_iff) linarith
  then have "\<bar>?n - x / ?g\<bar> * ?g \<le> 1 / 2 * ?g" using g by (intro mult_right_mono) simp_all
  moreover have "\<bar>?n - x / ?g\<bar> * ?g = \<bar>?n * ?g - x\<bar>"
    using g by (simp add: abs_mult_pos left_diff_distrib less_imp_le less_imp_neq [symmetric])
  ultimately show ?thesis using assms by (simp add: ieee_round_pos)
qed

lemma ieee_round_nonneg:
  assumes "0 \<le> x"
  shows "0 \<le> ieee_round 24 (- 149) x"
proof (cases "x = 0")
  case False
  then have "0 < x" using assms by simp
  moreover have "0 \<le> x / pow2 (f32_grid x)" using assms by simp
  then have "0 \<le> round_half_even (x / pow2 (f32_grid x))"
    using round_half_even_mono [of 0] by simp
  ultimately show ?thesis by (simp add: ieee_round_pos)
qed simp

lemma ieee_round_upper:
  assumes "0 \<le> x"
  shows "ieee_round 24 (- 149) x \<le> 3 / 2 * x + 1"
proof (cases "x = 0")
  case False
  then have x: "0 < x" using assms by simp
  have "pow2 (binary_exponent x - 23) \<le> pow2 (binary_exponent x)" by (simp add: pow2_le_iff)
  then have "pow2 (binary_exponent x - 23) \<le> x" using binary_exponent_bounds(1) [OF x] by linarith
  moreover have "pow2 (- 149) \<le> pow2 0" by (simp only: pow2_le_iff)
  then have "pow2 (- 149) \<le> 1" by (simp add: pow2_def)
  ultimately have "pow2 (f32_grid x) \<le> x + 1"
    using x by (simp add: f32_grid_def max_def)
  then show ?thesis using ieee_round_error [OF x] by linarith
qed simp

section \<open>The fields of a result\<close>

lemma f32_masks:
  "bit (0x80000000 :: int) n \<longleftrightarrow> n = 31"
  "bit (0x7F800000 :: int) n \<longleftrightarrow> 23 \<le> n \<and> n < 31"
proof -
  show "bit (0x80000000 :: int) n \<longleftrightarrow> n = 31" using bit_exp_iff [of 31 n, where 'a = int] by auto
  have m: "(0x7F800000 :: int) = push_bit 23 (mask 8)" by (simp add: push_bit_eq_mult mask_eq_exp_minus_1)
  show "bit (0x7F800000 :: int) n \<longleftrightarrow> 23 \<le> n \<and> n < 31" unfolding m by (auto simp: bit_simps)
qed

lemma small_word_bits: "unat (w :: u32) < 2 ^ k \<Longrightarrow> bit w n \<Longrightarrow> n < k"
  by (metis bit_take_bit_iff take_bit_nat_eq_self unsigned_take_bit_eq word_unat_eq_iff)

lemma f32_pack_fields:
  fixes s :: bool
  assumes E: "unat (E :: u32) < 2 ^ 8" and X: "unat (X :: u32) < 2 ^ 23"
  defines "F \<equiv> f32_zero s OR push_bit 23 E OR X"
  shows "f32_neg F \<longleftrightarrow> s" and "drop_bit 23 F AND 0xFF = E" and "F AND 0x7FFFFF = X"
    and "F AND 0x7F800000 = push_bit 23 E"
proof -
  have c: "(0xFF :: u32) = mask 8" "(0x7FFFFF :: u32) = mask 23"
    by (simp_all add: mask_eq_exp_minus_1)
  note e = small_word_bits [OF E] and x = small_word_bits [OF X]
  have z: "bit (f32_zero s) n \<longleftrightarrow> s \<and> n = 31" for n
    by (auto simp: f32_zero_def bit_simps f32_masks)
  have "F AND 0x80000000 = f32_zero s"
    unfolding F_def by (intro bit_word_eqI) (auto simp: bit_simps f32_masks z dest: e x)
  then show "f32_neg F \<longleftrightarrow> s" by (simp add: f32_neg_def f32_zero_def)
  show "drop_bit 23 F AND 0xFF = E"
    unfolding F_def c by (intro bit_word_eqI) (auto simp: bit_simps z dest: e x)
  show "F AND 0x7FFFFF = X"
    unfolding F_def c by (intro bit_word_eqI) (auto simp: bit_simps z dest: e x)
  show "F AND 0x7F800000 = push_bit 23 E"
    unfolding F_def by (intro bit_word_eqI) (auto simp: bit_simps f32_masks z dest: e x)
qed

lemma uint_of_int_32: "0 \<le> k \<Longrightarrow> k < 2 ^ 32 \<Longrightarrow> uint (word_of_int k :: u32) = k"
  by (simp add: uint_word_of_int_eq take_bit_int_eq_self)

lemma unat_of_int_32: "0 \<le> k \<Longrightarrow> k < 2 ^ 32 \<Longrightarrow> unat (word_of_int k :: u32) = nat k"
  by (simp add: unat_eq_nat_uint uint_word_of_int_eq take_bit_int_eq_self)

text \<open>Rounding a moderate value gives a finite number of the sign asked for.\<close>

lemma f32_of_rat_fields:
  assumes "0 \<le> r" and "r \<le> pow2 126"
  shows "\<exists>E X. f32_of_rat s r = f32_zero s OR push_bit 23 E OR X \<and> unat (E :: u32) < 255 \<and> unat (X :: u32) < 2 ^ 23"
proof -
  let ?r = "ieee_round 24 (- 149) r"
  have c: "pow2 126 = 2 ^ 126" "pow2 128 = 2 ^ 128" by (simp_all add: pow2_def)
  have "?r \<le> 3 / 2 * r + 1" by (rule ieee_round_upper [OF assms(1)])
  then have hi: "?r < pow2 128" using assms(2) c by simp
  have lo: "0 \<le> ?r" by (rule ieee_round_nonneg [OF assms(1)])
  show ?thesis
  proof (cases "?r < pow2 (- 126)")
    case True
    let ?k = "\<lfloor>?r / pow2 (- 149)\<rfloor>"
    have "pow2 (- 126) = pow2 23 * pow2 (- 149)" by (simp add: pow2_add [symmetric])
    then have "?r / pow2 (- 149) < pow2 23" using True by (simp add: pos_divide_less_eq)
    then have "?k < 2 ^ 23" by (simp add: floor_less_iff pow2_def)
    moreover have "0 \<le> ?k" using lo by simp
    ultimately have "unat (word_of_int ?k :: u32) < 2 ^ 23"
      by (simp add: unat_of_int_32 nat_less_iff)
    moreover have "f32_of_rat s r = f32_zero s OR push_bit 23 0 OR word_of_int ?k"
      using True hi by (simp add: f32_of_rat_def Let_def f32_zero_def not_le)
    ultimately show ?thesis by (intro exI [of _ "0 :: u32"] exI) simp
  next
    case False
    then have pos: "0 < ?r" using pow2_pos [of "- 126"] by linarith
    define e where "e = binary_exponent ?r"
    note b = binary_exponent_bounds [OF pos, folded e_def]
    have "pow2 e < pow2 128" using b(1) hi by linarith
    then have e1: "e < 128" by (simp only: pow2_less_iff)
    have "pow2 (- 126) < pow2 (e + 1)" using b(2) False by linarith
    then have e2: "- 126 \<le> e" by (simp only: pow2_less_iff)
    let ?k = "\<lfloor>?r / pow2 (e - 23)\<rfloor> - 2 ^ 23"
    have g: "pow2 e = pow2 23 * pow2 (e - 23)" "pow2 (e + 1) = pow2 24 * pow2 (e - 23)"
      by (simp_all add: pow2_add [symmetric] add.commute)
    have "pow2 23 \<le> ?r / pow2 (e - 23)" "?r / pow2 (e - 23) < pow2 24"
      using b unfolding g by (simp_all add: pos_divide_less_eq pos_le_divide_eq)
    then have k: "0 \<le> ?k" "?k < 2 ^ 23" by (simp_all add: floor_less_iff le_floor_iff pow2_def)
    then have "unat (word_of_int ?k :: u32) = nat ?k" by (intro unat_of_int_32) simp_all
    then have "unat (word_of_int ?k :: u32) < 2 ^ 23" using k by (simp only: nat_less_iff) simp
    moreover have "unat (word_of_int (e + 127) :: u32) = nat (e + 127)"
      using e1 e2 by (intro unat_of_int_32) simp_all
    then have "unat (word_of_int (e + 127) :: u32) < 255" using e1 e2 by linarith
    moreover have "f32_of_rat s r = f32_zero s OR push_bit 23 (word_of_int (e + 127)) OR word_of_int ?k"
      using False hi by (simp add: f32_of_rat_def Let_def f32_zero_def not_le e_def)
    ultimately show ?thesis by blast
  qed
qed

lemma push_exponent_ones: "unat (E :: u32) < 2 ^ 8 \<Longrightarrow> push_bit 23 E = 0x7F800000 \<longleftrightarrow> unat E = 255"
proof -
  assume E: "unat E < 2 ^ 8"
  then have "unat (push_bit 23 E) = unat E * 8388608"
    using unat_mult_lem [of E 8388608] by (simp add: push_bit_eq_mult)
  then show ?thesis by (simp add: word_unat_eq_iff)
qed

lemma f32_of_rat_moderate:
  assumes "0 \<le> r" and "r \<le> pow2 126"
  shows "is_finite (f32_of_rat s r)" and "f32_neg (f32_of_rat s r) = s"
proof -
  obtain E X where f: "f32_of_rat s r = f32_zero s OR push_bit 23 E OR X" "unat (E :: u32) < 255"
    "unat (X :: u32) < 2 ^ 23"
    using f32_of_rat_fields [OF assms] by blast
  have E: "unat E < 2 ^ 8" using f(2) by simp
  note p = f32_pack_fields [OF E f(3), of s, folded f(1)]
  show "f32_neg (f32_of_rat s r) = s" by (rule p(1))
  show "is_finite (f32_of_rat s r)"
    using f(2) push_exponent_ones [OF E] p(4) by (simp add: is_finite_def)
qed

section \<open>Bounds of values\<close>

lemma finite_not_special: "is_finite v \<Longrightarrow> \<not> f32_is_nan v \<and> \<not> f32_is_inf v"
  by (simp add: f32_is_nan_def f32_is_inf_def)

lemma nan_or_inf: "\<not> is_finite v \<Longrightarrow> f32_is_nan v \<or> f32_is_inf v"
  by (simp add: f32_is_nan_def f32_is_inf_def)

lemma unsigned_rat_nonneg [simp]: "0 \<le> (unsigned (w :: u32) :: rat)"
proof -
  have "(0 :: rat) \<le> of_int (uint w)" by (simp only: of_int_0_le_iff unsigned_greater_eq)
  then show ?thesis by simp
qed

lemma f32_value_bound:
  assumes "uint (drop_bit 23 v AND 0xFF) \<le> e" and "1 \<le> e"
  shows "\<bar>f32_value v\<bar> \<le> pow2 (e - 126)"
proof -
  let ?e = "uint (drop_bit 23 v AND 0xFF)" and ?m = "uint (v AND 0x7FFFFF)"
  have c: "(0x7FFFFF :: u32) = mask 23" by (simp add: mask_eq_exp_minus_1)
  have "uint (v AND mask 23) < 2 ^ 23" by (metis and_mask_lt_2p)
  then have m: "?m < 2 ^ 23" "0 \<le> ?m" unfolding c by simp_all
  define a where "a = (if ?e = 0 then of_int ?m * pow2 (- 149) else of_int (?m + 2 ^ 23) * pow2 (?e - 150))"
  have a0: "0 \<le> a" using m by (simp add: a_def)
  have "a \<le> pow2 24 * pow2 (max ?e 1 - 150)"
  proof -
    have "(of_int ?m :: rat) \<le> of_int (2 ^ 24)" "(of_int (?m + 2 ^ 23) :: rat) \<le> of_int (2 ^ 24)"
      using m by (simp_all only: of_int_le_iff) simp_all
    then have w: "(of_int ?m :: rat) \<le> pow2 24" "(of_int (?m + 2 ^ 23) :: rat) \<le> pow2 24"
      by (simp_all add: pow2_def)
    have g: "0 \<le> pow2 (max ?e 1 - 150)" by simp
    show ?thesis
    proof (cases "?e = 0")
      case True
      then show ?thesis using mult_right_mono [OF w(1) g] by (simp add: a_def)
    next
      case False
      moreover have "0 \<le> ?e" by simp
      ultimately have "max ?e 1 = ?e" by linarith
      then show ?thesis using mult_right_mono [OF w(2) g] False by (simp add: a_def)
    qed
  qed
  also have "\<dots> = pow2 (max ?e 1 - 126)" by (simp add: pow2_add [symmetric])
  also have "\<dots> \<le> pow2 (e - 126)" using assms by (simp add: pow2_le_iff)
  finally have "a \<le> pow2 (e - 126)" .
  then show ?thesis using a0 by (simp add: f32_value_def Let_def a_def [symmetric])
qed

lemma exponent_le_255: "uint (drop_bit 23 (v :: f32) AND 0xFF) \<le> 255"
proof -
  have c: "(0xFF :: u32) = mask 8" by (simp add: mask_eq_exp_minus_1)
  have "uint (drop_bit 23 v AND mask 8) < 2 ^ 8" by (metis and_mask_lt_2p)
  then show ?thesis unfolding c by simp
qed

lemma finite_exponent:
  assumes "is_finite v"
  shows "uint (drop_bit 23 v AND 0xFF) \<le> 254"
proof -
  have c: "(0xFF :: u32) = mask 8" by (simp add: mask_eq_exp_minus_1)
  have "uint (drop_bit 23 v AND 0xFF) \<noteq> 255"
  proof
    assume "uint (drop_bit 23 v AND 0xFF) = 255"
    then have "drop_bit 23 v AND 0xFF = (0xFF :: u32)" by (simp add: word_uint_eq_iff)
    then have "push_bit 23 (drop_bit 23 v AND 0xFF) = (0x7F800000 :: u32)" by (simp add: push_bit_eq_mult)
    moreover have "push_bit 23 (drop_bit 23 v AND 0xFF) = v AND 0x7F800000"
      unfolding c by (intro bit_word_eqI) (auto simp: bit_simps f32_masks)
    ultimately show False using assms by (simp add: is_finite_def)
  qed
  then show ?thesis using exponent_le_255 [of v] by linarith
qed

lemma finite_value_bound: "is_finite v \<Longrightarrow> \<bar>f32_value v\<bar> \<le> pow2 128"
  using f32_value_bound [OF finite_exponent] by simp

lemma f32_value_sign:
  shows "f32_neg v \<Longrightarrow> f32_value v \<le> 0" and "\<not> f32_neg v \<Longrightarrow> 0 \<le> f32_value v"
  by (simp_all add: f32_value_def f32_neg_def Let_def)

section \<open>The values of a half-precision number\<close>

lemma f16_widened_exponent:
  assumes "drop_bit 10 b AND 0x1F \<noteq> 0x1F"
  shows "uint (drop_bit 23 (f16_bits_to_f32 b) AND 0xFF) \<le> 142"
proof -
  define e where "e = drop_bit 10 b AND 0x1F"
  define M where "M = (ucast (b AND 0x03FF) :: u32)"
  have c: "(0x1F :: u16) = mask 5" "(0x3FF :: u16) = mask 10" "(0x3FF :: u32) = mask 10"
    by (simp_all add: mask_eq_exp_minus_1)
  have M10: "M AND mask 10 = M" unfolding M_def c by (intro bit_word_eqI) (auto simp: bit_simps)
  have M3: "M AND 0x3FF = M" using M10 unfolding c .
  have shifted: "push_bit 13 (K AND 0x3FF) AND mask 23 = (push_bit 13 (K AND 0x3FF) :: u32)" for K
    unfolding c by (intro bit_word_eqI) (auto simp: bit_simps)
  consider "e = 0" "M = 0" | "e = 0" "M \<noteq> 0" | "e \<noteq> 0" by blast
  then show ?thesis
  proof cases
    case 1
    then show ?thesis
      using f32_fields(2) [of 0 0 b, simplified]
      by (simp add: f16_bits_to_f32_def e_def [symmetric] M_def [symmetric] Let_def)
  next
    case 2
    obtain d where d: "1 \<le> d" "d \<le> 10" "bit M (10 - d)" "\<forall>i. 10 - d < i \<longrightarrow> \<not> bit M i"
        "\<And>e. f16_normalize 10 M e = Some (push_bit d M, e - int d)"
      using f16_normalize_total [OF 2(2) M10] by blast
    let ?E = "word_of_int (- 14 - int d + 127) :: u32"
    have uE: "uint ?E = - 14 - int d + 127" by (rule uint_of_int_32) (use d(2) in simp_all)
    have E: "?E AND mask 8 = ?E" unfolding mask_eq_iff uE using d by simp
    have "f16_bits_to_f32 b = push_bit 16 (ucast (b AND 0x8000)) OR push_bit 23 ?E OR
        push_bit 13 (push_bit d M AND 0x03FF)"
      using 2 d(5) by (simp add: f16_bits_to_f32_def e_def [symmetric] M_def [symmetric] Let_def)
    then have "drop_bit 23 (f16_bits_to_f32 b) AND 0xFF = ?E"
      using f32_fields(2) [OF E shifted [of "push_bit d M"], of b] by (simp only:)
    then show ?thesis using uE d by (simp only:)
  next
    case 3
    have e5: "uint e < 32" unfolding e_def c using and_mask_lt_2p [of "drop_bit 10 b" 5] by simp
    have "e \<noteq> 0x1F" using assms by (simp add: e_def)
    then have "uint e \<noteq> 31" by (auto simp: word_uint_eq_iff)
    then have u: "0 \<le> uint e" "uint e \<le> 30" using e5 by simp_all
    let ?E = "ucast e + 112 :: u32"
    have uE: "uint ?E = uint e + 112"
      using u by (simp add: uint_word_ariths unsigned_ucast_eq take_bit_int_eq_self)
    have E: "?E AND mask 8 = ?E" unfolding mask_eq_iff uE using u by simp
    have "f16_bits_to_f32 b = push_bit 16 (ucast (b AND 0x8000)) OR push_bit 23 ?E OR push_bit 13 M"
      using 3 \<open>e \<noteq> 0x1F\<close> by (simp add: f16_bits_to_f32_def e_def [symmetric] M_def [symmetric] Let_def)
    then have "drop_bit 23 (f16_bits_to_f32 b) AND 0xFF = ?E"
      using f32_fields(2) [OF E shifted [of M], of b] M3 by (simp only:)
    then show ?thesis using uE u by (simp only:)
  qed
qed

text \<open>An infinity or NaN stays one.\<close>

lemma f16_widened_special:
  assumes "drop_bit 10 b AND 0x1F = 0x1F"
  shows "\<not> is_finite (f16_bits_to_f32 b)"
proof -
  have c: "(0x3FF :: u16) = mask 10" by (simp add: mask_eq_exp_minus_1)
  have X: "push_bit 13 (ucast (b AND mask 10)) AND mask 23 = (push_bit 13 (ucast (b AND mask 10)) :: u32)"
    by (intro bit_word_eqI) (auto simp: bit_simps)
  have E: "0xFF AND mask 8 = (0xFF :: u32)" by (simp add: mask_eq_exp_minus_1)
  have f: "f16_bits_to_f32 b = push_bit 16 (ucast (b AND 0x8000)) OR push_bit 23 0xFF OR
      push_bit 13 (ucast (b AND mask 10))"
    using assms by (simp add: f16_bits_to_f32_def Let_def c push_bit_eq_mult)
  have d: "drop_bit 23 (f16_bits_to_f32 b) AND 0xFF = 0xFF"
    using f32_fields(2) [OF E X, of b] by (simp only: f)
  then have "uint (drop_bit 23 (f16_bits_to_f32 b) AND 0xFF) = 255" by simp
  then show ?thesis using finite_exponent [of "f16_bits_to_f32 b"] by fastforce
qed

lemma f16_widened_bound:
  assumes "is_finite (f16_bits_to_f32 b)"
  shows "\<bar>f32_value (f16_bits_to_f32 b)\<bar> \<le> pow2 16"
proof -
  have "drop_bit 10 b AND 0x1F \<noteq> 0x1F" using assms f16_widened_special by blast
  from f32_value_bound [OF f16_widened_exponent [OF this]] show ?thesis by simp
qed

end
