(* ===== verification/CacheGen.thy ===== *)
theory CacheGen
  imports Rans Float32
begin

unbundle bit_operations_syntax

text \<open>
  The CacheGen segment codec: calibration, 4-bit quantisation, the token-axis delta and the
  frequency table (src/crates/skippy-cache/src/cachegen/reference.rs), and the container that holds
  one tile (src/crates/skippy-cache/src/cachegen/container.rs). An \<open>anyhow\<close> error is its message
  without the values printed into it. What may panic or not end (the entropy coder, \<open>expect\<close>) is an
  \<open>run_outcome\<close> of a result. BLAKE3 is a parameter; so is \<open>tie\<close>, the choice of \<open>f32::min\<close> and \<open>f32::max\<close>
  between two values that compare equal.
\<close>

type_synonym 'a any_result = "string + 'a"

section \<open>reference.rs\<close>

definition QUANT_BITS :: nat where
  "QUANT_BITS = 4"

definition TOKEN_COUNT :: nat where
  "TOKEN_COUNT = 2 ^ QUANT_BITS"

definition ALPHABET_MASK :: byte where
  "ALPHABET_MASK = 15"

text \<open>The bits of 15.0: \<open>(TOKEN_COUNT - 1) as f32\<close>.\<close>

definition F32_MAX_SYMBOL :: f32 where
  "F32_MAX_SYMBOL = 0x41700000"

record calibration =
  cal_min_bits :: u32
  cal_scale_bits :: u32

primrec calibrate_fold ::
  "(f32 \<Rightarrow> f32 \<Rightarrow> bool) \<Rightarrow> f32 \<Rightarrow> f32 \<Rightarrow> f32 list \<Rightarrow> (f32 \<times> f32) any_result"
where
  "calibrate_fold tie lo hi [] = Inr (lo, hi)"
| "calibrate_fold tie lo hi (v # vs) =
     (if \<not> is_finite v then Inl ''tile contains a non-finite value; refusing to calibrate''
      else calibrate_fold tie (f32_min_by tie lo v) (f32_max_by tie hi v) vs)"

definition calibrate :: "(f32 \<Rightarrow> f32 \<Rightarrow> bool) \<Rightarrow> f32 list \<Rightarrow> calibration any_result" where
  "calibrate tie vs =
     (case vs of
        [] \<Rightarrow> Inl ''cannot calibrate an empty tile''
      | first # _ \<Rightarrow>
          res_bind (calibrate_fold tie first first vs) (\<lambda>(lo, hi).
            let scale = f32_div (f32_sub hi lo) F32_MAX_SYMBOL
            in Inr \<lparr>cal_min_bits = lo, cal_scale_bits = scale\<rparr>))"

definition quantize_value :: "f32 \<Rightarrow> f32 \<Rightarrow> f32 \<Rightarrow> byte any_result" where
  "quantize_value lo scale v =
     (if \<not> is_finite v then Inl ''tile contains a non-finite value; refusing to quantize''
      else if \<not> f32_is_nan scale \<and> \<not> f32_is_inf scale \<and> f32_value scale = 0 then Inr 0
      else
        let scaled = f32_round (f32_div (f32_sub v lo) scale);
            clamped = f32_clamp scaled 0 F32_MAX_SYMBOL
        in Inr (f32_as_u8 clamped))"

definition quantize :: "calibration \<Rightarrow> f32 list \<Rightarrow> byte list any_result" where
  "quantize cal vs = collect_results (quantize_value (cal_min_bits cal) (cal_scale_bits cal)) vs"

definition dequantize :: "calibration \<Rightarrow> byte list \<Rightarrow> f32 list" where
  "dequantize cal symbols =
     map (\<lambda>s. f32_add (f32_mul (f32_of_u8 s) (cal_scale_bits cal)) (cal_min_bits cal)) symbols"

definition validate_shape :: "nat \<Rightarrow> nat \<Rightarrow> unit any_result" where
  "validate_shape len dims =
     (if dims = 0 \<or> \<not> dims dvd len then Inl ''tile shape mismatch'' else Inr ())"

text \<open>The two loops over rows, in place: backwards to encode, forwards to decode.\<close>

definition delta_encode :: "byte list \<Rightarrow> nat \<Rightarrow> byte list any_result" where
  "delta_encode symbols dims =
     res_bind (validate_shape (length symbols) dims) (\<lambda>_.
     Inr (fold (\<lambda>row s. s[row := (s ! row - s ! (row - dims)) AND ALPHABET_MASK])
       (rev [dims..<length symbols]) symbols))"

definition delta_decode :: "byte list \<Rightarrow> nat \<Rightarrow> byte list any_result" where
  "delta_decode symbols dims =
     res_bind (validate_shape (length symbols) dims) (\<lambda>_.
     Inr (fold (\<lambda>row s. s[row := (s ! row + s ! (row - dims)) AND ALPHABET_MASK])
       [dims..<length symbols] symbols))"

text \<open>
  \<open>iter().enumerate().max_by_key(|(i, x)| (*x, Reverse(*i)))\<close>: the greatest value, and among equal
  ones the lowest index.
\<close>

definition argmax :: "nat list \<Rightarrow> nat" where
  "argmax xs = foldl (\<lambda>best i. if xs ! best < xs ! i then i else best) 0 [1..<length xs]"

function shrink_freqs :: "nat list \<Rightarrow> nat \<Rightarrow> nat list \<times> nat" where
  "shrink_freqs freqs s =
     (if unat SCALE < s
      then let largest = argmax freqs in shrink_freqs (freqs[largest := freqs ! largest - 1]) (s - 1)
      else (freqs, s))"
  by auto
termination by (relation "measure snd") auto

declare shrink_freqs.simps [simp del]

function grow_freqs :: "nat list \<Rightarrow> nat list \<Rightarrow> nat \<Rightarrow> nat \<Rightarrow> nat list any_result" where
  "grow_freqs histogram freqs s index =
     (if s < unat SCALE
      then if unat SCALE < index then Inl ''histogram normalization failed to converge''
           else
             let candidate = argmax histogram;
                 target = (if index = 0 then candidate else (candidate + index) mod TOKEN_COUNT)
             in if freqs ! target < unat SCALE
                then grow_freqs histogram (freqs[target := freqs ! target + 1]) (s + 1) (index + 1)
                else grow_freqs histogram freqs s (index + 1)
      else Inr freqs)"
  by auto
termination by (relation "measure (\<lambda>(_, _, _, index). Suc (unat SCALE) - index)") auto

declare grow_freqs.simps [simp del]

definition histogram_to_freqs :: "nat list \<Rightarrow> nat \<Rightarrow> nat list any_result" where
  "histogram_to_freqs histogram declared =
     (if length histogram \<noteq> TOKEN_COUNT then Inl ''histogram must cover every 4-bit symbol''
      else if declared = 0 then Inl ''cannot build a symbol table for an empty tile''
      else if sum_list histogram \<noteq> declared then Inl ''histogram total disagrees with the declared symbols''
      else
        let freqs = map (\<lambda>n. n * unat SCALE div declared) histogram;
            freqs = map (\<lambda>freq. max freq 1) freqs;
            (freqs, s) = shrink_freqs freqs (sum_list freqs)
        in grow_freqs histogram freqs s 0)"

section \<open>container.rs\<close>

definition CACHEGEN_CODEC_NAME :: string where
  "CACHEGEN_CODEC_NAME = ''cachegen''"

definition CACHEGEN_CODEC_VERSION :: nat where
  "CACHEGEN_CODEC_VERSION = 1"

text \<open>\<open>*b"CGv1"\<close>.\<close>

definition CACHEGEN_MAGIC :: "byte list" where
  "CACHEGEN_MAGIC = [0x43, 0x47, 0x76, 0x31]"

definition FIXED_HEADER_LEN :: nat where
  "FIXED_HEADER_LEN = 24"

definition HISTOGRAM_LEN :: nat where
  "HISTOGRAM_LEN = TOKEN_COUNT * 4"

definition HEADER_LEN :: nat where
  "HEADER_LEN = FIXED_HEADER_LEN + HISTOGRAM_LEN"

definition MAX_DECODED_VALUES :: nat where
  "MAX_DECODED_VALUES = 2 ^ 24"

datatype codec_class = Exact | Lossy

record segment_codec_identity =
  sci_name :: string
  sci_version :: nat
  sci_class :: codec_class
  sci_decoded_len :: nat
  sci_calibration_digest :: "string option"

definition segment_identity :: "nat \<Rightarrow> string \<Rightarrow> segment_codec_identity" where
  "segment_identity decoded_len digest =
     \<lparr>sci_name = CACHEGEN_CODEC_NAME, sci_version = CACHEGEN_CODEC_VERSION, sci_class = Lossy,
      sci_decoded_len = decoded_len, sci_calibration_digest = Some digest\<rparr>"

text \<open>\<open>b"skippy-cachegen-calibration-v1"\<close>.\<close>

definition CALIBRATION_DOMAIN :: "byte list" where
  "CALIBRATION_DOMAIN = map (\<lambda>c. word_of_nat (of_char c)) ''skippy-cachegen-calibration-v1''"

text \<open>\<open>blake3_hex\<close> is the hexadecimal BLAKE3 digest of all the bytes the hasher was updated with.\<close>

definition calibration_digest :: "(byte list \<Rightarrow> string) \<Rightarrow> calibration \<Rightarrow> nat \<Rightarrow> string any_result" where
  "calibration_digest blake3_hex cal dims =
     (if dims < 2 ^ 16
      then Inr (blake3_hex (CALIBRATION_DOMAIN @ le_bytes 2 (word_of_nat dims :: u16) @
             le_bytes 4 (cal_min_bits cal) @ le_bytes 4 (cal_scale_bits cal)))
      else Inl ''dims exceed container field width'')"

definition checked_tile_len :: "nat \<Rightarrow> unit any_result" where
  "checked_tile_len n =
     (if MAX_DECODED_VALUES < n then Inl ''cachegen tile above the format ceiling'' else Inr ())"

definition decoded_byte_len :: "nat \<Rightarrow> nat any_result" where
  "decoded_byte_len n = ok_or (checked USIZE_MAX (n * 2)) ''cachegen decoded size exceeds the address space''"

text \<open>\<open>?\<close> on a call that may also panic or not end; \<open>expect\<close>.\<close>

definition run_bind :: "'a run_outcome \<Rightarrow> ('a \<Rightarrow> 'b run_outcome) \<Rightarrow> 'b run_outcome" where
  "run_bind m f = (case m of Returns x \<Rightarrow> f x | Panics \<Rightarrow> Panics | Diverges \<Rightarrow> Diverges)"

definition try_bind :: "'a any_result \<Rightarrow> ('a \<Rightarrow> 'b any_result run_outcome) \<Rightarrow> 'b any_result run_outcome" where
  "try_bind m f = (case m of Inl e \<Rightarrow> Returns (Inl e) | Inr x \<Rightarrow> f x)"

definition expect :: "'a option \<Rightarrow> ('a \<Rightarrow> 'b run_outcome) \<Rightarrow> 'b run_outcome" where
  "expect m f = (case m of None \<Rightarrow> Panics | Some x \<Rightarrow> f x)"

text \<open>\<open>histogram[usize::from(symbol)] += 1\<close> for every symbol; the index is out of bounds from 16 on.\<close>

definition count_symbols :: "byte list \<Rightarrow> nat list run_outcome" where
  "count_symbols symbols =
     (if list_ex (\<lambda>s. TOKEN_COUNT \<le> unat s) symbols then Panics
      else Returns (fold (\<lambda>s h. h[unat s := h ! unat s + 1]) symbols (replicate TOKEN_COUNT 0)))"

definition f16_values :: "byte list \<Rightarrow> f32 list" where
  "f16_values raw = map (\<lambda>bytes. f16_bits_to_f32 (le_word bytes)) (as_chunks 2 raw)"

definition f16_bytes :: "f32 list \<Rightarrow> byte list" where
  "f16_bytes vs = concat (map (\<lambda>v. le_bytes 2 (f32_to_f16_bits v)) vs)"

definition container_bytes :: "nat \<Rightarrow> nat \<Rightarrow> calibration \<Rightarrow> nat list \<Rightarrow> byte list \<Rightarrow> byte list any_result" where
  "container_bytes dims rows cal histogram stream =
     (if length stream < 2 ^ 32
      then Inr (CACHEGEN_MAGIC @ le_bytes 2 (word_of_nat dims :: u16) @ le_bytes 4 (word_of_nat rows :: u32) @
             le_bytes 4 (cal_min_bits cal) @ le_bytes 4 (cal_scale_bits cal) @
             le_bytes 4 (word_of_nat (length stream) :: u32) @ [0, 0] @
             concat (map (\<lambda>n. le_bytes 4 (word_of_nat n :: u32)) histogram) @ stream)
      else Inl ''encoded stream exceeds container field width'')"

definition encode_f16_segment ::
  "(f32 \<Rightarrow> f32 \<Rightarrow> bool) \<Rightarrow> byte list \<Rightarrow> nat \<Rightarrow> byte list any_result run_outcome"
where
  "encode_f16_segment tie raw dims =
     (if dims = 0 \<or> raw = [] \<or> odd (length raw)
      then Returns (Inl ''segment must be a non-empty run of f16 pairs'')
      else
        try_bind (checked_tile_len (length raw div 2)) (\<lambda>_.
        let vs = f16_values raw
        in if \<not> dims dvd length vs then Returns (Inl ''segment shape mismatch'')
           else if \<not> length vs div dims < 2 ^ 32
           then Returns (Inl ''segment row count exceeds container field width'')
           else if \<not> dims < 2 ^ 16 then Returns (Inl ''dims exceed container field width'')
           else
             try_bind (calibrate tie vs) (\<lambda>cal.
             try_bind (quantize cal vs) (\<lambda>symbols.
             try_bind (delta_encode symbols dims) (\<lambda>symbols.
             run_bind (count_symbols symbols) (\<lambda>histogram.
             try_bind (histogram_to_freqs histogram (length symbols)) (\<lambda>freqs.
             expect (from_freqs (map word_of_nat freqs)) (\<lambda>table.
             run_bind (rans_put_all table (map unat (rev symbols)) rans_encoder_new) (\<lambda>encoder.
             Returns (container_bytes dims (length vs div dims) cal histogram (rans_finish encoder)))))))))))"

record container_header =
  ch_dims :: nat
  ch_count :: nat
  ch_calibration :: calibration

text \<open>\<open>payload[a..b]\<close>, within bounds where it is used.\<close>

definition subslice :: "'a list \<Rightarrow> nat \<Rightarrow> nat \<Rightarrow> 'a list" where
  "subslice xs a b = take (b - a) (drop a xs)"

definition parse_container :: "byte list \<Rightarrow> (container_header \<times> nat list \<times> byte list) any_result" where
  "parse_container payload =
     (if length payload < HEADER_LEN then Inl ''cachegen container shorter than its fixed header''
      else if subslice payload 0 4 \<noteq> CACHEGEN_MAGIC then Inl ''not a cachegen container (bad magic)''
      else if subslice payload (FIXED_HEADER_LEN - 2) FIXED_HEADER_LEN \<noteq> [0, 0]
      then Inl ''cachegen container reserved bytes are not zero''
      else
        let dims = unat (le_word (subslice payload 4 6) :: u16);
            rows = unat (le_word (subslice payload 6 10) :: u32);
            lo = le_word (subslice payload 10 14) :: u32;
            scale = le_word (subslice payload 14 18) :: u32;
            stream_len = unat (le_word (subslice payload 18 22) :: u32)
        in if dims = 0 \<or> rows = 0 then Inl ''cachegen container declares an empty tile''
           else
             res_bind (ok_or (checked USIZE_MAX (rows * dims))
               ''cachegen tile shape overflows the address space'') (\<lambda>n.
             res_bind (checked_tile_len n) (\<lambda>_.
             if \<not> is_finite lo \<or> \<not> is_finite scale
             then Inl ''cachegen calibration carries a non-finite value''
             else if f32_lt scale 0 then Inl ''cachegen calibration scale is negative''
             else
               let histogram = map (\<lambda>b. unat (le_word b :: u32))
                 (as_chunks 4 (subslice payload FIXED_HEADER_LEN HEADER_LEN))
               in if sum_list histogram \<noteq> rows * dims
                  then Inl ''cachegen histogram total disagrees with the declared tile''
                  else if length payload \<noteq> HEADER_LEN + stream_len
                  then Inl ''cachegen container length disagrees with its declared stream length''
                  else Inr (\<lparr>ch_dims = dims, ch_count = n,
                         ch_calibration = \<lparr>cal_min_bits = lo, cal_scale_bits = scale\<rparr>\<rparr>,
                       histogram, drop HEADER_LEN payload))))"

definition decode_f16_segment :: "byte list \<Rightarrow> byte list any_result run_outcome" where
  "decode_f16_segment payload =
     try_bind (parse_container payload) (\<lambda>(header, histogram, stream).
     try_bind (histogram_to_freqs histogram (ch_count header)) (\<lambda>freqs.
     expect (from_freqs (map word_of_nat freqs)) (\<lambda>table.
     try_bind (ok_or (rans_decoder_new stream) ''cachegen stream shorter than its initial state'') (\<lambda>decoder.
     run_bind (rans_get_all table (ch_count header) decoder) (\<lambda>(symbols, _).
     try_bind (ok_or symbols ''cachegen stream exhausted before tile completed'') (\<lambda>symbols.
     try_bind (delta_decode (map word_of_nat symbols) (ch_dims header)) (\<lambda>symbols.
     let vs = dequantize (ch_calibration header) symbols
     in try_bind (decoded_byte_len (ch_count header)) (\<lambda>_. Returns (Inr (f16_bytes vs))))))))))"

definition decoded_value_count :: "byte list \<Rightarrow> nat any_result" where
  "decoded_value_count payload = res_bind (parse_container payload) (\<lambda>(header, _, _). Inr (ch_count header))"

definition container_calibration :: "byte list \<Rightarrow> (calibration \<times> nat) any_result" where
  "container_calibration payload =
     res_bind (parse_container payload) (\<lambda>(header, _, _). Inr (ch_calibration header, ch_dims header))"

end
