(* ===== verification/RansProps.thy ===== *)
theory RansProps
  imports Rans
begin

unbundle bit_operations_syntax

text \<open>
  Correctness of the rANS coder: a table of \<open>from_freqs\<close> partitions the slots 0 to 4095 among its
  symbols of positive frequency; putting such a symbol keeps the state between 2 to the 23 and 2 to
  the 31, emits at most two bytes and never wraps around; getting undoes it.
\<close>

section \<open>Constants and word arithmetic\<close>

lemma RANS_L_val: "RANS_L = 8388608" and SCALE_val: "SCALE = 4096"
  by (simp_all add: RANS_L_def SCALE_def SCALE_BITS_def push_bit_eq_mult)

lemma unat_RANS_L [simp]: "unat RANS_L = 8388608" and unat_SCALE [simp]: "unat SCALE = 4096"
  by (simp_all add: RANS_L_val SCALE_val)

lemma x_max_val: "push_bit 8 (drop_bit SCALE_BITS RANS_L) = (524288 :: u32)"
  by (simp add: RANS_L_def SCALE_BITS_def push_bit_eq_mult drop_bit_eq_div)

lemma unat_add_32: "unat (a :: u32) + unat b < 2 ^ 32 \<Longrightarrow> unat (a + b) = unat a + unat b"
  using unat_add_lem [of a b] by simp

lemma unat_mult_32: "unat (a :: u32) * unat b < 2 ^ 32 \<Longrightarrow> unat (a * b) = unat a * unat b"
  using unat_mult_lem [of a b] by simp

lemma unat_shift8: "unat (drop_bit 8 (x :: u32)) = unat x div 256"
  by (simp add: drop_bit_eq_div unat_div_distrib)

lemma unat_shift12: "unat (drop_bit SCALE_BITS (x :: u32)) = unat x div 4096"
  by (simp add: SCALE_BITS_def drop_bit_eq_div unat_div_distrib)

lemma unat_low12: "unat ((x :: u32) AND (SCALE - 1)) = unat x mod 4096"
proof -
  have m: "SCALE - 1 = (mask 12 :: u32)" by (simp add: SCALE_val mask_eq_exp_minus_1)
  show ?thesis unfolding m by (simp add: take_bit_eq_mask [symmetric] take_bit_eq_mod unat_mod_distrib)
qed

lemma low_byte_back: "push_bit 8 (drop_bit 8 (x :: u32)) OR ucast (ucast (x AND 0xFF) :: byte) = x"
proof -
  have m: "(0xFF :: u32) = mask 8" by (simp add: mask_eq_exp_minus_1)
  show ?thesis
    unfolding m
  proof (rule bit_word_eqI)
    fix n
    assume "n < LENGTH(32)"
    then show "bit (push_bit 8 (drop_bit 8 x) OR ucast (ucast (x AND mask 8) :: byte)) n \<longleftrightarrow> bit x n"
      by (cases "n < 8") (auto simp: bit_simps)
  qed
qed

section \<open>The table\<close>

lemma starts_from_total:
  assumes "unat r + sum_list (map unat fs) \<le> U32_MAX"
  shows "\<exists>starts. starts_from r fs = Some starts \<and> length starts = length fs \<and>
    (\<forall>i < length fs. unat (starts ! i) = unat r + sum_list (map unat (take i fs)))"
  using assms
proof (induction fs arbitrary: r)
  case Nil
  then show ?case by simp
next
  case (Cons f fs)
  have c: "checked_add_u32 r f = Some (r + f)" and u: "unat (r + f) = unat r + unat f"
    using Cons.prems by (simp_all add: checked_add_u32_def unat_add_32)
  obtain starts where s: "starts_from (r + f) fs = Some starts" "length starts = length fs"
    "\<forall>i < length fs. unat (starts ! i) = unat (r + f) + sum_list (map unat (take i fs))"
    using Cons.IH [of "r + f"] Cons.prems u by auto
  have "unat ((r # starts) ! i) = unat r + sum_list (map unat (take i (f # fs)))"
    if "i < length (f # fs)" for i
    using that s(3) u by (cases i) auto
  then show ?case using c s(1,2) by auto
qed

text \<open>The shape of every table that \<open>from_freqs\<close> gives.\<close>

definition table_ok :: "symbol_table \<Rightarrow> bool" where
  "table_ok t \<longleftrightarrow>
     st_freqs t \<noteq> [] \<and> length (st_starts t) = length (st_freqs t) \<and>
     sum_list (map unat (st_freqs t)) = 4096 \<and>
     (\<forall>i < length (st_freqs t). unat (st_starts t ! i) = sum_list (map unat (take i (st_freqs t))))"

lemma from_freqs_total:
  assumes "fs \<noteq> []" and "sum_list (map unat fs) = 4096"
  shows "\<exists>t. from_freqs fs = Some t \<and> st_freqs t = fs \<and> table_ok t"
proof -
  have "unat f \<le> 4096" if "f \<in> set fs" for f
    using member_le_sum_list [of "unat f" "map unat fs"] that assms(2) by simp
  then have small: "\<not> list_ex (\<lambda>f. SCALE < f) fs" by (auto simp: list_ex_iff word_less_nat_alt not_less)
  obtain starts where "starts_from 0 fs = Some starts" "length starts = length fs"
    "\<forall>i < length fs. unat (starts ! i) = sum_list (map unat (take i fs))"
    using starts_from_total [of 0 fs] assms(2) by auto
  then show ?thesis using assms small by (simp add: from_freqs_def table_ok_def)
qed

lemma from_freqs_ok:
  assumes "from_freqs fs = Some t"
  shows "st_freqs t = fs" and "table_ok t"
proof -
  have "fs \<noteq> []" and "sum_list (map unat fs) = 4096"
    using assms by (auto simp: from_freqs_def split: if_splits)
  from from_freqs_total [OF this] show "st_freqs t = fs" "table_ok t" using assms by auto
qed

lemma prefix_sum_mono: "i \<le> j \<Longrightarrow> sum_list (take i xs) \<le> sum_list (take j (xs :: nat list))"
proof -
  assume "i \<le> j"
  then have "take j xs = take i xs @ take (j - i) (drop i xs)"
    by (metis le_add_diff_inverse take_add)
  then show ?thesis by simp
qed

lemma prefix_sum_Suc: "i < length xs \<Longrightarrow> sum_list (take (Suc i) xs) = sum_list (take i xs) + (xs ! i :: nat)"
  by (simp add: take_Suc_conv_app_nth)

lemma prefix_sum_le: "sum_list (take i xs) \<le> sum_list (xs :: nat list)"
  by (metis append_take_drop_id le_add1 sum_list.append)

lemma table_start:
  "table_ok t \<Longrightarrow> i < length (st_freqs t) \<Longrightarrow>
   unat (st_starts t ! i) = sum_list (take i (map unat (st_freqs t)))"
  by (simp add: table_ok_def take_map)

lemma table_slot_end:
  assumes "table_ok t" and "s < length (st_freqs t)"
  shows "unat (st_starts t ! s) + unat (st_freqs t ! s) \<le> 4096"
proof -
  have "unat (st_starts t ! s) + unat (st_freqs t ! s) = sum_list (take (Suc s) (map unat (st_freqs t)))"
    using assms by (simp add: table_start prefix_sum_Suc)
  also have "\<dots> \<le> 4096" using prefix_sum_le [of "Suc s" "map unat (st_freqs t)"] assms(1)
    by (simp add: table_ok_def)
  finally show ?thesis .
qed

lemma symbol_for_slot:
  assumes t: "table_ok t" and s: "s < length (st_freqs t)"
    and lo: "unat (st_starts t ! s) \<le> unat v" and hi: "unat v < unat (st_starts t ! s) + unat (st_freqs t ! s)"
  shows "symbol_for t v = s"
proof -
  let ?ns = "map unat (st_freqs t)"
  have len: "length (st_starts t) = length (st_freqs t)" using t by (simp add: table_ok_def)
  have le: "st_starts t ! i \<le> v" if "i < Suc s" for i
    using that lo s prefix_sum_mono [of i s ?ns] by (simp add: word_le_nat_alt table_start [OF t])
  have gt: "\<not> st_starts t ! Suc s \<le> v" if "Suc s < length (st_starts t)"
    using that len hi s by (simp add: word_le_nat_alt table_start [OF t] prefix_sum_Suc)
  have "takeWhile (\<lambda>start. start \<le> v) (st_starts t) = take (Suc s) (st_starts t)"
    by (rule takeWhile_eq_take_P_nth) (use le gt in auto)
  then show ?thesis using s len by (simp add: symbol_for_def partition_point_def)
qed

text \<open>Every slot belongs to a symbol: the decoder never meets a frequency of 0.\<close>

lemma slot_cover:
  assumes "v < sum_list ns"
  shows "\<exists>s < length ns. sum_list (take s ns) \<le> v \<and> v < sum_list (take s ns) + (ns ! s :: nat)"
  using assms
proof (induction ns rule: rev_induct)
  case Nil
  then show ?case by simp
next
  case (snoc n ns)
  show ?case
  proof (cases "v < sum_list ns")
    case True
    then obtain s where "s < length ns" "sum_list (take s ns) \<le> v" "v < sum_list (take s ns) + ns ! s"
      using snoc.IH by auto
    then show ?thesis by (intro exI [of _ s]) (simp add: nth_append)
  next
    case False
    then show ?thesis using snoc.prems by (intro exI [of _ "length ns"]) simp
  qed
qed

lemma symbol_for_bounds:
  assumes t: "table_ok t" and v: "unat v < 4096"
  shows "symbol_for t v < length (st_freqs t)"
    and "unat (st_starts t ! symbol_for t v) \<le> unat v"
    and "unat v < unat (st_starts t ! symbol_for t v) + unat (st_freqs t ! symbol_for t v)"
proof -
  obtain s where s: "s < length (st_freqs t)" "unat (st_starts t ! s) \<le> unat v"
    "unat v < unat (st_starts t ! s) + unat (st_freqs t ! s)"
    using slot_cover [of "unat v" "map unat (st_freqs t)"] t v table_start [OF t]
    by (auto simp: table_ok_def)
  have "symbol_for t v = s" by (rule symbol_for_slot [OF t s])
  then show "symbol_for t v < length (st_freqs t)" "unat (st_starts t ! symbol_for t v) \<le> unat v"
    "unat v < unat (st_starts t ! symbol_for t v) + unat (st_freqs t ! symbol_for t v)"
    using s by simp_all
qed

section \<open>The encoder\<close>

text \<open>
  The renormalisation loop on a state below 2 to the 31: it ends, the emitted bytes \<open>bs\<close> are what
  the decoder needs to get the state back, and there are at most two of them.
\<close>

lemma renormalize_refill:
  assumes f: "0 < f" "f \<le> 4096" and x: "2048 * f \<le> unat x" "unat x < 2 ^ 31"
    and m: "unat m = 524288 * f"
  shows "\<exists>y bs. renormalize m x em = Some (y, em @ bs) \<and> 2048 * f \<le> unat y \<and> unat y < 524288 * f \<and>
    unat y * 256 ^ length bs \<le> unat x \<and>
    (\<forall>bytes c. length bs \<le> length (drop c bytes) \<and> take (length bs) (drop c bytes) = rev bs \<longrightarrow>
       refill bytes y c = refill bytes x (c + length bs))"
  using x
proof (induction "unat x" arbitrary: x em rule: less_induct)
  case less
  show ?case
  proof (cases "m \<le> x")
    case False
    then have "unat x < 524288 * f" using m by (simp add: word_le_nat_alt)
    then show ?thesis
      using False less.prems by (intro exI [of _ x] exI [of _ "[]"]) (simp add: renormalize.simps [of m x])
  next
    case True
    let ?x = "drop_bit 8 x" and ?b = "ucast (x AND 0xFF) :: byte"
    have big: "524288 * f \<le> unat x" using True m by (simp add: word_le_nat_alt)
    have x1: "unat ?x < unat x" "2048 * f \<le> unat ?x" "unat ?x < 8388608"
      using big f less.prems(2) by (simp_all add: unat_shift8)
    obtain y bs where y: "renormalize m ?x (em @ [?b]) = Some (y, (em @ [?b]) @ bs)"
      "2048 * f \<le> unat y" "unat y < 524288 * f" "unat y * 256 ^ length bs \<le> unat ?x"
      and undo: "\<And>bytes c. length bs \<le> length (drop c bytes) \<Longrightarrow> take (length bs) (drop c bytes) = rev bs \<Longrightarrow>
        refill bytes y c = refill bytes ?x (c + length bs)"
      using less.hyps [of ?x "em @ [?b]"] x1 by fastforce
    have "refill bytes y c = refill bytes x (c + length (?b # bs))"
      if l: "length (?b # bs) \<le> length (drop c bytes)"
        and t: "take (length (?b # bs)) (drop c bytes) = rev (?b # bs)" for bytes c
    proof -
      have tk: "take (Suc (length bs)) (drop c bytes) = rev bs @ [?b]" using t by simp
      have "take (length bs) (drop c bytes) = rev bs"
        using arg_cong [OF tk, of "take (length bs)"] by simp
      then have y_to_x: "refill bytes y c = refill bytes ?x (c + length bs)"
        using undo [of c bytes] l by simp
      have "bytes ! (c + length bs) = ?b"
        using arg_cong [OF tk, of "\<lambda>l. l ! length bs"] l by (simp add: nth_append)
      moreover have "c + length bs < length bytes" using l by simp
      ultimately have "refill bytes ?x (c + length bs) = refill bytes x (c + length bs + 1)"
        using x1(3) by (subst refill.simps) (simp add: low_byte_back word_less_nat_alt)
      then show ?thesis using y_to_x by simp
    qed
    moreover have "unat y * 256 ^ length (?b # bs) \<le> unat x"
      using y(4) by (simp add: unat_shift8)
    moreover have "renormalize m x em = Some (y, em @ ?b # bs)"
      using y(1) True by (simp add: renormalize.simps [of m x])
    ultimately show ?thesis
      using y(2,3) by (intro exI [of _ y] exI [of _ "?b # bs"]) blast
  qed
qed

text \<open>The state of an encoder between two calls.\<close>

definition enc_ok :: "rans_encoder \<Rightarrow> bool" where
  "enc_ok enc \<longleftrightarrow> 2 ^ 23 \<le> unat (enc_state enc) \<and> unat (enc_state enc) < 2 ^ 31"

lemma enc_ok_new [simp]: "enc_ok rans_encoder_new"
  by (simp add: enc_ok_def rans_encoder_new_def)

text \<open>A symbol that the table can code.\<close>

definition codable :: "symbol_table \<Rightarrow> nat \<Rightarrow> bool" where
  "codable t s \<longleftrightarrow> s < length (st_freqs t) \<and> st_freqs t ! s \<noteq> 0"

lemma next_state:
  assumes f: "0 < unat f" "unat (start :: u32) + unat f \<le> 4096"
    and y: "2048 * unat f \<le> unat y" "unat y < 524288 * unat f"
  defines "n \<equiv> unat y div unat f * 4096 + unat y mod unat f + unat start"
  shows "unat (push_bit SCALE_BITS (y div f) + (y mod f) + start) = n"
    and "2 ^ 23 \<le> n" and "n < 2 ^ 31" and "n mod 4096 = unat y mod unat f + unat start"
    and "n div 4096 = unat y div unat f"
proof -
  let ?q = "unat y div unat f" and ?r = "unat y mod unat f"
  have q: "?q < 524288" using y(2) by (simp add: less_mult_imp_div_less)
  have q': "2048 \<le> ?q" using y(1) f(1) by (simp add: less_eq_div_iff_mult_less_eq)
  have r: "?r + unat start < 4096" using f mod_less_divisor [OF f(1), of "unat y"] by linarith
  have "unat (push_bit SCALE_BITS (y div f)) = ?q * 4096"
    using q by (simp add: SCALE_BITS_def push_bit_eq_mult unat_mult_32 unat_div_distrib)
  moreover have "unat (y mod f) = ?r" by (simp add: unat_mod_distrib)
  ultimately show "unat (push_bit SCALE_BITS (y div f) + (y mod f) + start) = n"
    using q r by (simp add: n_def unat_add_32)
  have e: "n = (?r + unat start) + ?q * 4096" by (simp add: n_def)
  show "2 ^ 23 \<le> n" using q' unfolding e by simp
  show "n < 2 ^ 31" using q r unfolding e by simp
  show "n mod 4096 = ?r + unat start" using r unfolding e by simp
  show "n div 4096 = ?q" using r unfolding e by simp
qed

lemma rans_put_step:
  assumes t: "table_ok t" and c: "codable t s" and e: "enc_ok enc"
  shows "\<exists>enc' bs. rans_put t s enc = Returns enc' \<and> enc_ok enc' \<and>
    enc_emitted enc' = enc_emitted enc @ bs \<and> length bs \<le> 2 \<and>
    (\<forall>d. dec_state d = enc_state enc' \<longrightarrow>
       take (length bs) (drop (dec_cursor d) (dec_bytes d)) = rev bs \<longrightarrow>
       length bs \<le> length (drop (dec_cursor d) (dec_bytes d)) \<longrightarrow>
       rans_get t d = Returns (Some s, d\<lparr>dec_state := enc_state enc, dec_cursor := dec_cursor d + length bs\<rparr>))"
proof -
  let ?f = "st_freqs t ! s" and ?start = "st_starts t ! s" and ?x = "enc_state enc"
  have s: "s < length (st_freqs t)" "length (st_starts t) = length (st_freqs t)"
    using t c by (simp_all add: table_ok_def codable_def)
  have f: "0 < unat ?f" using c by (simp add: codable_def unat_gt_0)
  have slot: "unat ?start + unat ?f \<le> 4096" by (rule table_slot_end [OF t s(1)])
  have f4: "unat ?f \<le> 4096" using slot by simp
  have x: "2048 * unat ?f \<le> unat ?x" "unat ?x < 2 ^ 31" using e f4 by (simp_all add: enc_ok_def)
  have m: "unat (524288 * ?f) = 524288 * unat ?f" using f4 by (simp add: unat_mult_32)
  obtain y bs where y: "renormalize (524288 * ?f) ?x (enc_emitted enc) = Some (y, enc_emitted enc @ bs)"
    "2048 * unat ?f \<le> unat y" "unat y < 524288 * unat ?f" "unat y * 256 ^ length bs \<le> unat ?x"
    and undo: "\<And>bytes c. length bs \<le> length (drop c bytes) \<Longrightarrow> take (length bs) (drop c bytes) = rev bs \<Longrightarrow>
      refill bytes y c = refill bytes ?x (c + length bs)"
    using renormalize_refill [OF f f4 x m] by blast
  note st = next_state [OF f slot y(2,3)]
  define enc' where "enc' = \<lparr>enc_state = push_bit SCALE_BITS (y div ?f) + (y mod ?f) + ?start,
    enc_emitted = enc_emitted enc @ bs\<rparr>"
  have put: "rans_put t s enc = Returns enc'"
    using s y(1) by (simp add: rans_put_def x_max_val Let_def enc'_def)
  have ok: "enc_ok enc'" using st(1-3) by (simp add: enc_ok_def enc'_def)
  have short: "length bs \<le> 2"
  proof (rule ccontr)
    assume "\<not> length bs \<le> 2"
    then have "256 ^ 3 \<le> (256 :: nat) ^ length bs" by (intro power_increasing) simp_all
    then have "2048 * 256 ^ 3 \<le> unat y * 256 ^ length bs"
      using y(2) f by (intro mult_le_mono) simp_all
    then show False using y(4) x(2) by simp
  qed
  have "rans_get t d = Returns (Some s, d\<lparr>dec_state := ?x, dec_cursor := dec_cursor d + length bs\<rparr>)"
    if d: "dec_state d = enc_state enc'"
      "take (length bs) (drop (dec_cursor d) (dec_bytes d)) = rev bs"
      "length bs \<le> length (drop (dec_cursor d) (dec_bytes d))" for d
  proof -
    let ?v = "dec_state d AND (SCALE - 1)"
    have n: "unat (dec_state d) = unat y div unat ?f * 4096 + unat y mod unat ?f + unat ?start"
      using st(1) d(1) by (simp add: enc'_def)
    have v: "unat ?v = unat y mod unat ?f + unat ?start" using st(4) n by (simp add: unat_low12)
    have sym: "symbol_for t ?v = s"
      by (rule symbol_for_slot [OF t s(1)]) (use v f in simp_all)
    have "unat (drop_bit SCALE_BITS (dec_state d)) = unat y div unat ?f"
      using st(5) n by (simp add: unat_shift12)
    then have "drop_bit SCALE_BITS (dec_state d) = y div ?f"
      by (simp add: word_unat_eq_iff unat_div_distrib)
    moreover have "?v = y mod ?f + ?start"
      using v st(4) slot f mod_less_divisor [OF f, of "unat y"]
      by (simp add: word_unat_eq_iff unat_add_32 unat_mod_distrib)
    ultimately have "?f * drop_bit SCALE_BITS (dec_state d) + ?v - ?start = ?f * (y div ?f) + y mod ?f"
      by simp
    also have "\<dots> = y" by (rule mult_div_mod_eq)
    finally have x': "?f * drop_bit SCALE_BITS (dec_state d) + ?v - ?start = y" .
    have "\<not> ?x < RANS_L" using e by (simp add: enc_ok_def word_less_nat_alt)
    then have "refill (dec_bytes d) y (dec_cursor d) = (Some ?x, dec_cursor d + length bs)"
      using undo [OF d(3,2)] by (subst (asm) (2) refill.simps) simp
    then show ?thesis using s t sym x' by (simp add: rans_get_def Let_def table_ok_def)
  qed
  then show ?thesis using put ok short by (intro exI [of _ enc'] exI [of _ bs]) (simp add: enc'_def)
qed

section \<open>Whole streams\<close>

lemma dec_update_same [simp]: "dec_state (d\<lparr>dec_state := x, dec_cursor := c\<rparr>) = x"
  "dec_bytes (d\<lparr>dec_state := x, dec_cursor := c\<rparr>) = dec_bytes d"
  "dec_cursor (d\<lparr>dec_state := x, dec_cursor := c\<rparr>) = c"
  by simp_all

lemma rans_put_all_append:
  "rans_put_all t (xs @ ys) enc =
     (case rans_put_all t xs enc of Returns e \<Rightarrow> rans_put_all t ys e | Panics \<Rightarrow> Panics | Diverges \<Rightarrow> Diverges)"
  by (induction xs arbitrary: enc) (auto split: run_outcome.split)

text \<open>
  The encoder after the symbols \<open>ss\<close> in reverse: a decoder whose state is the encoder's and whose
  unread bytes start with the emitted ones in reverse reads \<open>ss\<close> and reaches the initial state.
\<close>

lemma rans_put_all_get_all:
  assumes t: "table_ok t" and c: "\<forall>s \<in> set ss. codable t s"
  shows "\<exists>enc. rans_put_all t (rev ss) rans_encoder_new = Returns enc \<and> enc_ok enc \<and>
    length (enc_emitted enc) \<le> 2 * length ss \<and>
    (\<forall>d. dec_state d = enc_state enc \<longrightarrow>
       take (length (enc_emitted enc)) (drop (dec_cursor d) (dec_bytes d)) = rev (enc_emitted enc) \<longrightarrow>
       length (enc_emitted enc) \<le> length (drop (dec_cursor d) (dec_bytes d)) \<longrightarrow>
       rans_get_all t (length ss) d =
         Returns (Some ss, d\<lparr>dec_state := RANS_L, dec_cursor := dec_cursor d + length (enc_emitted enc)\<rparr>))"
  using c
proof (induction ss)
  case Nil
  then show ?case
    by (auto simp: rans_encoder_new_def enc_ok_def)
next
  case (Cons s ss)
  obtain e where e: "rans_put_all t (rev ss) rans_encoder_new = Returns e" "enc_ok e"
    "length (enc_emitted e) \<le> 2 * length ss"
    and get: "\<And>d. dec_state d = enc_state e \<Longrightarrow>
       take (length (enc_emitted e)) (drop (dec_cursor d) (dec_bytes d)) = rev (enc_emitted e) \<Longrightarrow>
       length (enc_emitted e) \<le> length (drop (dec_cursor d) (dec_bytes d)) \<Longrightarrow>
       rans_get_all t (length ss) d =
         Returns (Some ss, d\<lparr>dec_state := RANS_L, dec_cursor := dec_cursor d + length (enc_emitted e)\<rparr>)"
    using Cons.IH Cons.prems by auto
  obtain e' bs where e': "rans_put t s e = Returns e'" "enc_ok e'"
    "enc_emitted e' = enc_emitted e @ bs" "length bs \<le> 2"
    and step: "\<And>d. dec_state d = enc_state e' \<Longrightarrow>
       take (length bs) (drop (dec_cursor d) (dec_bytes d)) = rev bs \<Longrightarrow>
       length bs \<le> length (drop (dec_cursor d) (dec_bytes d)) \<Longrightarrow>
       rans_get t d = Returns (Some s, d\<lparr>dec_state := enc_state e, dec_cursor := dec_cursor d + length bs\<rparr>)"
    using rans_put_step [OF t _ e(2), of s] Cons.prems by auto
  have "rans_get_all t (length (s # ss)) d =
      Returns (Some (s # ss), d\<lparr>dec_state := RANS_L, dec_cursor := dec_cursor d + length (enc_emitted e')\<rparr>)"
    if d: "dec_state d = enc_state e'"
      "take (length (enc_emitted e')) (drop (dec_cursor d) (dec_bytes d)) = rev (enc_emitted e')"
      "length (enc_emitted e') \<le> length (drop (dec_cursor d) (dec_bytes d))" for d
  proof -
    let ?r = "drop (dec_cursor d) (dec_bytes d)"
    have split: "take (length bs + length (enc_emitted e)) ?r = rev bs @ rev (enc_emitted e)"
      and len: "length bs + length (enc_emitted e) \<le> length ?r"
      using d(2,3) e'(3) by (simp_all add: add.commute)
    have "take (length bs) ?r = rev bs"
      using arg_cong [OF split, of "take (length bs)"] by (simp add: min_def)
    then have g: "rans_get t d =
        Returns (Some s, d\<lparr>dec_state := enc_state e, dec_cursor := dec_cursor d + length bs\<rparr>)"
      using step [OF d(1)] len by simp
    have "take (length (enc_emitted e)) (drop (length bs) ?r) = rev (enc_emitted e)"
      using arg_cong [OF split, of "drop (length bs)"] by (simp add: drop_take)
    then have "rans_get_all t (length ss) (d\<lparr>dec_state := enc_state e, dec_cursor := dec_cursor d + length bs\<rparr>) =
        Returns (Some ss, d\<lparr>dec_state := RANS_L,
          dec_cursor := dec_cursor d + length bs + length (enc_emitted e)\<rparr>)"
      using get [of "d\<lparr>dec_state := enc_state e, dec_cursor := dec_cursor d + length bs\<rparr>"] len
      by (simp add: add.commute)
    then show ?thesis using g e'(3) by (simp add: ac_simps)
  qed
  moreover have "rans_put_all t (rev (s # ss)) rans_encoder_new = Returns e'"
    using e(1) e'(1) by (simp add: rans_put_all_append)
  ultimately show ?case
    using e'(2-4) e(3) by (intro exI [of _ e']) auto
qed

lemma rans_stream_roundtrip:
  assumes t: "table_ok t" and c: "\<forall>s \<in> set ss. codable t s"
  shows "\<exists>enc d d'. rans_put_all t (rev ss) rans_encoder_new = Returns enc \<and>
    length (rans_finish enc) \<le> 4 + 2 * length ss \<and>
    rans_decoder_new (rans_finish enc @ rest) = Some d \<and>
    rans_get_all t (length ss) d = Returns (Some ss, d') \<and>
    dec_state d' = RANS_L \<and> drop (dec_cursor d') (dec_bytes d') = rest"
proof -
  obtain enc where enc: "rans_put_all t (rev ss) rans_encoder_new = Returns enc"
    "length (enc_emitted enc) \<le> 2 * length ss"
    and get: "\<And>d. dec_state d = enc_state enc \<Longrightarrow>
       take (length (enc_emitted enc)) (drop (dec_cursor d) (dec_bytes d)) = rev (enc_emitted enc) \<Longrightarrow>
       length (enc_emitted enc) \<le> length (drop (dec_cursor d) (dec_bytes d)) \<Longrightarrow>
       rans_get_all t (length ss) d =
         Returns (Some ss, d\<lparr>dec_state := RANS_L, dec_cursor := dec_cursor d + length (enc_emitted enc)\<rparr>)"
    using rans_put_all_get_all [OF t c] by blast
  define d where "d = \<lparr>dec_state = enc_state enc, dec_bytes = rans_finish enc @ rest, dec_cursor = 4\<rparr>"
  have "rans_decoder_new (rans_finish enc @ rest) = Some d"
    by (simp add: rans_decoder_new_def rans_finish_def d_def)
  moreover have "rans_get_all t (length ss) d =
      Returns (Some ss, d\<lparr>dec_state := RANS_L, dec_cursor := 4 + length (enc_emitted enc)\<rparr>)"
    using get [of d] by (simp add: d_def rans_finish_def)
  ultimately show ?thesis
    using enc by (simp add: rans_finish_def d_def)
qed

section \<open>Any stream\<close>

lemma rans_get_safe:
  assumes "table_ok t"
  shows "\<exists>s d'. rans_get t d = Returns (s, d') \<and> (\<forall>k. s = Some k \<longrightarrow> codable t k)"
proof -
  let ?v = "dec_state d AND (SCALE - 1)"
  have v: "unat ?v < 4096" by (simp add: unat_low12)
  note b = symbol_for_bounds [OF assms v]
  have "codable t (symbol_for t ?v)"
    using b by (auto simp: codable_def)
  then show ?thesis
    using assms b(1)
    by (auto simp: rans_get_def table_ok_def Let_def split: prod.split option.split)
qed

lemma rans_get_all_safe:
  assumes "table_ok t"
  shows "\<exists>ss d'. rans_get_all t n d = Returns (ss, d') \<and>
    (\<forall>xs. ss = Some xs \<longrightarrow> length xs = n \<and> (\<forall>k \<in> set xs. codable t k))"
proof (induction n arbitrary: d)
  case 0
  then show ?case by simp
next
  case (Suc n)
  obtain s d1 where g: "rans_get t d = Returns (s, d1)" "\<forall>k. s = Some k \<longrightarrow> codable t k"
    using rans_get_safe [OF assms] by blast
  obtain ss d2 where r: "rans_get_all t n d1 = Returns (ss, d2)"
    "\<forall>xs. ss = Some xs \<longrightarrow> length xs = n \<and> (\<forall>k \<in> set xs. codable t k)"
    using Suc.IH by blast
  show ?case using g r by (cases s; cases ss) auto
qed

text \<open>The renormalisation loop does not end for a symbol of frequency 0.\<close>

lemmas renormalize_induct =
  renormalize.raw_induct [where xa = "((m, x), em)" for m x em, unfolded prod.case]

lemma renormalize_below: "renormalize m x em = Some r \<Longrightarrow> fst r < m"
  by (erule renormalize_induct [rotated, where P = "\<lambda>m x em r. fst r < m"])
    (auto split: if_splits simp: not_le)

lemma renormalize_zero: "renormalize 0 x em = None"
  using renormalize_below [of 0 x em] by (cases "renormalize 0 x em") auto

lemma rans_put_zero_frequency:
  assumes "table_ok t" and "s < length (st_freqs t)" and "st_freqs t ! s = 0"
  shows "rans_put t s enc = Diverges"
  using assms by (simp add: rans_put_def Let_def renormalize_zero table_ok_def)

end
