(* ===== verification/CacheGenProps.thy ===== *)
theory CacheGenProps
  imports CacheGen RansProps
begin

unbundle bit_operations_syntax

text \<open>
  Correctness of the stages of the CacheGen codec: the token-axis delta is undone exactly, the
  frequency table is always one the entropy coder accepts and covers every symbol, quantisation
  gives 4-bit symbols, calibration of half-precision values gives a usable affine map, and parsing
  gives back the fields of a written container.
\<close>

section \<open>The delta\<close>

definition four_bit :: "byte \<Rightarrow> bool" where
  "four_bit b \<longleftrightarrow> b AND ALPHABET_MASK = b"

lemma mask4: "ALPHABET_MASK = mask 4"
  by (simp add: ALPHABET_MASK_def mask_eq_exp_minus_1)

lemma unat_masked: "unat (b AND ALPHABET_MASK) = unat b mod 16"
  by (simp add: mask4 take_bit_eq_mask [symmetric] take_bit_eq_mod unat_mod_distrib)

lemma four_bit_iff: "four_bit b \<longleftrightarrow> unat b < TOKEN_COUNT"
  unfolding four_bit_def word_unat_eq_iff unat_masked
  by (simp add: TOKEN_COUNT_def QUANT_BITS_def mod_eq_self_iff_div_eq_0 div_eq_0_iff)

lemma four_bit_masked [simp]: "four_bit (b AND ALPHABET_MASK)"
  by (simp add: four_bit_def and.assoc)

lemma masked_difference:
  assumes "four_bit x"
  shows "(((x - y) AND ALPHABET_MASK) + y) AND ALPHABET_MASK = x"
proof -
  define u where "u = x - y"
  have "unat (((u AND ALPHABET_MASK) + y) AND ALPHABET_MASK) = (unat u mod 16 + unat y) mod 256 mod 16"
    by (simp add: unat_masked unat_word_ariths)
  also have "\<dots> = (unat u + unat y) mod 256 mod 16" by (simp add: mod_mod_cancel mod_simps)
  also have "\<dots> = unat (u + y) mod 16" by (simp add: unat_word_ariths)
  also have "\<dots> = unat (x AND ALPHABET_MASK)" by (simp add: u_def unat_masked)
  also have "\<dots> = unat x" using assms by (simp add: four_bit_def)
  finally show ?thesis by (simp only: u_def word_unat_eq_iff)
qed

lemma delta_encode_fold:
  assumes "dims \<le> k" and "0 < dims" and "n \<le> length s"
  defines "e \<equiv> fold (\<lambda>row s. s[row := (s ! row - s ! (row - dims)) AND ALPHABET_MASK]) (rev [k..<n]) s"
  shows "length e = length s \<and>
    (\<forall>i < length s. e ! i = (if k \<le> i \<and> i < n then (s ! i - s ! (i - dims)) AND ALPHABET_MASK else s ! i))"
  using assms(3) unfolding e_def
proof (induction n arbitrary: s)
  case 0
  then show ?case by simp
next
  case (Suc n)
  show ?case
  proof (cases "k \<le> n")
    case False
    then show ?thesis by auto
  next
    case True
    let ?s = "s[n := (s ! n - s ! (n - dims)) AND ALPHABET_MASK]"
    have ih: "length (fold (\<lambda>row s. s[row := (s ! row - s ! (row - dims)) AND ALPHABET_MASK]) (rev [k..<n]) ?s) = length s"
      "\<forall>i < length s. fold (\<lambda>row s. s[row := (s ! row - s ! (row - dims)) AND ALPHABET_MASK]) (rev [k..<n]) ?s ! i =
        (if k \<le> i \<and> i < n then (?s ! i - ?s ! (i - dims)) AND ALPHABET_MASK else ?s ! i)"
      using Suc.IH [of ?s] Suc.prems by simp_all
    have "(if k \<le> i \<and> i < n then (?s ! i - ?s ! (i - dims)) AND ALPHABET_MASK else ?s ! i) =
        (if k \<le> i \<and> i < Suc n then (s ! i - s ! (i - dims)) AND ALPHABET_MASK else s ! i)"
      if "i < length s" for i
      using that Suc.prems True assms(1,2) by (auto simp: nth_list_update less_Suc_eq)
    then show ?thesis using ih True by simp
  qed
qed

lemma delta_decode_fold:
  assumes len: "length s = length s0" and o4: "\<forall>b \<in> set s0. four_bit b" and d: "0 < dims"
    and enc: "\<forall>i < length s0. s ! i = (if dims \<le> i then (s0 ! i - s0 ! (i - dims)) AND ALPHABET_MASK else s0 ! i)"
    and n: "n \<le> length s0"
  defines "r \<equiv> fold (\<lambda>row s. s[row := (s ! row + s ! (row - dims)) AND ALPHABET_MASK]) [dims..<n] s"
  shows "length r = length s0 \<and> (\<forall>i < length s0. r ! i = (if i < n then s0 ! i else s ! i))"
  using n unfolding r_def
proof (induction n)
  case 0
  then show ?case using len by simp
next
  case (Suc n)
  let ?r = "fold (\<lambda>row s. s[row := (s ! row + s ! (row - dims)) AND ALPHABET_MASK]) [dims..<n] s"
  have ih: "length ?r = length s0" "\<forall>i < length s0. ?r ! i = (if i < n then s0 ! i else s ! i)"
    using Suc by simp_all
  show ?case
  proof (cases "dims \<le> n")
    case False
    have "(if i < n then s0 ! i else s ! i) = (if i < Suc n then s0 ! i else s ! i)" if "i < length s0" for i
      using False enc that by (auto simp: less_Suc_eq)
    then show ?thesis using False ih by simp
  next
    case True
    have "?r ! n = (s0 ! n - s0 ! (n - dims)) AND ALPHABET_MASK" "?r ! (n - dims) = s0 ! (n - dims)"
      using ih(2) True d Suc.prems enc by auto
    moreover have "four_bit (s0 ! n)" using o4 Suc.prems by simp
    ultimately have "(?r ! n + ?r ! (n - dims)) AND ALPHABET_MASK = s0 ! n"
      by (simp add: masked_difference)
    then show ?thesis using True ih by (auto simp: nth_list_update less_Suc_eq)
  qed
qed

lemma delta_encode_total:
  assumes "0 < dims" and "dims dvd length s" and "\<forall>b \<in> set s. four_bit b"
  shows "\<exists>e. delta_encode s dims = Inr e \<and> length e = length s \<and> (\<forall>b \<in> set e. four_bit b) \<and>
    delta_decode e dims = Inr s"
proof -
  define e where "e = fold (\<lambda>row s. s[row := (s ! row - s ! (row - dims)) AND ALPHABET_MASK])
    (rev [dims..<length s]) s"
  have e: "length e = length s"
    "\<forall>i < length s. e ! i = (if dims \<le> i then (s ! i - s ! (i - dims)) AND ALPHABET_MASK else s ! i)"
    using delta_encode_fold [of dims dims "length s" s] assms(1) by (simp_all add: e_def)
  have "four_bit (e ! i)" if "i < length s" for i
    using e(2) that assms(3) by simp
  then have four: "\<forall>b \<in> set e. four_bit b" using e(1) by (auto simp: in_set_conv_nth)
  have "fold (\<lambda>row s. s[row := (s ! row + s ! (row - dims)) AND ALPHABET_MASK]) [dims..<length e] e = s"
    using delta_decode_fold [OF e(1) assms(3,1) e(2), of "length s"] e(1) by (intro nth_equalityI) simp_all
  then have "delta_decode e dims = Inr s"
    using assms(1,2) e(1) by (simp add: delta_decode_def validate_shape_def)
  moreover have "delta_encode s dims = Inr e"
    using assms(1,2) by (simp add: delta_encode_def validate_shape_def e_def)
  ultimately show ?thesis using e(1) four by blast
qed

lemma delta_decode_length: "delta_decode s dims = Inr r \<Longrightarrow> length r = length s"
proof -
  have "length (fold (\<lambda>row s. s[row := f s row]) rows s) = length s" for f rows
    by (induction rows arbitrary: s) simp_all
  then show "delta_decode s dims = Inr r \<Longrightarrow> length r = length s"
    by (auto simp: delta_decode_def res_bind_Inr)
qed

section \<open>The frequency table\<close>

lemma argmax_fold:
  assumes "best < length xs" and "n \<le> length xs" and "\<forall>i < m. xs ! i \<le> xs ! best" and "m \<le> n"
  defines "b \<equiv> foldl (\<lambda>best i. if xs ! best < xs ! i then i else best) best [m..<n]"
  shows "b < length xs \<and> (\<forall>i < n. xs ! i \<le> (xs ! b :: nat))"
  using assms(2,4) unfolding b_def
proof (induction n)
  case 0
  then show ?case using assms(1) by simp
next
  case (Suc n)
  show ?case
  proof (cases "m \<le> n")
    case True
    then have "foldl (\<lambda>best i. if xs ! best < xs ! i then i else best) best [m..<n] < length xs"
      "\<forall>i < n. xs ! i \<le> xs ! foldl (\<lambda>best i. if xs ! best < xs ! i then i else best) best [m..<n]"
      using Suc by simp_all
    then show ?thesis using True Suc.prems by (auto simp: less_Suc_eq)
  next
    case False
    then show ?thesis using assms(1,3) Suc.prems by (auto simp: le_Suc_eq)
  qed
qed

lemma argmax_max:
  assumes "xs \<noteq> []"
  shows "argmax xs < length xs" and "i < length xs \<Longrightarrow> xs ! i \<le> xs ! argmax xs"
proof -
  have "0 < length xs" using assms by simp
  then have "1 \<le> length xs" by linarith
  then have "argmax xs < length xs \<and> (\<forall>i < length xs. xs ! i \<le> xs ! argmax xs)"
    unfolding argmax_def using assms by (intro argmax_fold) simp_all
  then show "argmax xs < length xs" "i < length xs \<Longrightarrow> xs ! i \<le> xs ! argmax xs" by simp_all
qed

lemma sum_list_le_max: "\<forall>x \<in> set xs. x \<le> b \<Longrightarrow> sum_list xs \<le> length xs * (b :: nat)"
  by (induction xs) auto

lemma sum_list_dec: "i < length xs \<Longrightarrow> 0 < (xs ! i :: nat) \<Longrightarrow> sum_list (xs[i := xs ! i - 1]) = sum_list xs - 1"
  using elem_le_sum_list [of i xs] by (simp add: sum_list_update)

lemma sum_list_inc: "i < length xs \<Longrightarrow> sum_list (xs[i := xs ! i + 1]) = sum_list xs + (1 :: nat)"
  using elem_le_sum_list [of i xs] by (simp add: sum_list_update)

text \<open>A frequency list that covers the alphabet.\<close>

definition covers_alphabet :: "nat list \<Rightarrow> bool" where
  "covers_alphabet freqs \<longleftrightarrow> length freqs = TOKEN_COUNT \<and> (\<forall>f \<in> set freqs. 1 \<le> f)"

lemma TOKEN_COUNT_16 [simp]: "TOKEN_COUNT = 16"
  by (simp add: TOKEN_COUNT_def QUANT_BITS_def)

lemma covers_alphabet_update: "covers_alphabet freqs \<Longrightarrow> 1 \<le> v \<Longrightarrow> covers_alphabet (freqs[i := v])"
  by (auto simp: covers_alphabet_def dest!: set_update_subset_insert [THEN subsetD])

lemma covers_alphabet_sum_ge: "covers_alphabet freqs \<Longrightarrow> 16 \<le> sum_list freqs"
proof -
  have "\<forall>f \<in> set xs. 1 \<le> f \<Longrightarrow> length xs \<le> sum_list xs" for xs :: "nat list"
    by (induction xs) auto
  then show "covers_alphabet freqs \<Longrightarrow> 16 \<le> sum_list freqs" by (fastforce simp: covers_alphabet_def)
qed

lemma shrink_freqs_covers:
  assumes "covers_alphabet freqs" and "s = sum_list freqs"
  shows "\<exists>fs. shrink_freqs freqs s = (fs, sum_list fs) \<and> covers_alphabet fs \<and> sum_list fs \<le> 4096"
  using assms
proof (induction freqs s rule: shrink_freqs.induct)
  case (1 freqs s)
  show ?case
  proof (cases "4096 < s")
    case False
    then show ?thesis using 1(2,3) by (simp add: shrink_freqs.simps)
  next
    case True
    let ?m = "argmax freqs"
    have ne: "freqs \<noteq> []" using 1(2) by (auto simp: covers_alphabet_def)
    have big: "1 < freqs ! ?m"
    proof (rule ccontr)
      assume "\<not> 1 < freqs ! ?m"
      then have "\<forall>x \<in> set freqs. x \<le> 1"
        using argmax_max(2) [OF ne] by (fastforce simp: in_set_conv_nth)
      then have "sum_list freqs \<le> 16" using sum_list_le_max [of freqs 1] 1(2) by (simp add: covers_alphabet_def)
      then show False using True 1(3) by simp
    qed
    have "covers_alphabet (freqs[?m := freqs ! ?m - 1])" using 1(2) big by (intro covers_alphabet_update) simp_all
    moreover have "s - 1 = sum_list (freqs[?m := freqs ! ?m - 1])"
      using big 1(3) argmax_max(1) [OF ne] by (simp only: sum_list_dec)
    ultimately obtain fs where "shrink_freqs (freqs[?m := freqs ! ?m - 1]) (s - 1) = (fs, sum_list fs)"
      "covers_alphabet fs" "sum_list fs \<le> 4096"
      using 1(1) True by (auto simp: Let_def)
    then show ?thesis using True by (simp add: shrink_freqs.simps [of freqs s] Let_def)
  qed
qed

lemma grow_freqs_total:
  assumes "covers_alphabet freqs" and "s = sum_list freqs" and "s \<le> 4096" and "index \<le> s" and "length histogram = 16"
  shows "\<exists>fs. grow_freqs histogram freqs s index = Inr fs \<and> covers_alphabet fs \<and> sum_list fs = 4096"
  using assms
proof (induction histogram freqs s index rule: grow_freqs.induct)
  case (1 histogram freqs s index)
  show ?case
  proof (cases "s < 4096")
    case False
    then show ?thesis using 1(3-) by (simp add: grow_freqs.simps)
  next
    case True
    define t where "t = (if index = 0 then argmax histogram else (argmax histogram + index) mod TOKEN_COUNT)"
    have "histogram \<noteq> []" using 1(7) by auto
    then have t: "t < length freqs"
      using argmax_max(1) [of histogram] 1(3,7) by (auto simp: t_def covers_alphabet_def)
    have small: "freqs ! t < 4096" using elem_le_sum_list [OF t] True 1(4) by simp
    have "covers_alphabet (freqs[t := freqs ! t + 1])" using 1(3) by (intro covers_alphabet_update) simp_all
    moreover have "s + 1 = sum_list (freqs[t := freqs ! t + 1])"
      using t 1(4) by (simp only: sum_list_inc)
    ultimately have "\<exists>fs. grow_freqs histogram (freqs[t := freqs ! t + 1]) (s + 1) (index + 1) = Inr fs \<and>
        covers_alphabet fs \<and> sum_list fs = 4096"
      using 1(1) [OF _ _ refl refl, folded t_def] True 1(6,7) small by simp
    then show ?thesis
      using True 1(6) small
      by (subst grow_freqs.simps) (simp add: Let_def t_def [symmetric] del: TOKEN_COUNT_16)
  qed
qed

lemma histogram_to_freqs_total:
  assumes "length histogram = 16" and "sum_list histogram = n" and "0 < n"
  shows "\<exists>fs. histogram_to_freqs histogram n = Inr fs \<and> covers_alphabet fs \<and> sum_list fs = 4096"
proof -
  define f0 where "f0 = map (\<lambda>freq. max freq 1) (map (\<lambda>c. c * unat SCALE div n) histogram)"
  have c0: "covers_alphabet f0" using assms(1) by (auto simp: covers_alphabet_def f0_def)
  obtain fs where fs: "shrink_freqs f0 (sum_list f0) = (fs, sum_list fs)" "covers_alphabet fs" "sum_list fs \<le> 4096"
    using shrink_freqs_covers [OF c0 refl] by blast
  have "histogram_to_freqs histogram n = grow_freqs histogram fs (sum_list fs) 0"
    using assms fs(1) by (simp only: histogram_to_freqs_def Let_def f0_def [symmetric] TOKEN_COUNT_16) simp
  then show ?thesis using grow_freqs_total [OF fs(2) refl fs(3) _ assms(1)] by simp
qed

lemma histogram_to_freqs_Inr:
  assumes "histogram_to_freqs histogram n = Inr fs"
  shows "covers_alphabet fs" and "sum_list fs = 4096"
proof -
  have "length histogram = 16" "sum_list histogram = n" "0 < n"
    using assms by (auto simp: histogram_to_freqs_def split: if_splits)
  from histogram_to_freqs_total [OF this] show "covers_alphabet fs" "sum_list fs = 4096" using assms by auto
qed

text \<open>The \<open>expect\<close> on the table holds, and every 4-bit symbol can be coded.\<close>

lemma freqs_table:
  assumes "covers_alphabet fs" and "sum_list fs = 4096"
  shows "\<exists>t. from_freqs (map word_of_nat fs) = Some t \<and> table_ok t \<and> length (st_freqs t) = 16 \<and>
    (\<forall>s < 16. codable t s)"
proof -
  have small: "unat (word_of_nat f :: u32) = f" if "f \<in> set fs" for f
    using member_le_sum_list [OF that] assms(2) by (simp add: unat_of_nat take_bit_nat_eq_self)
  have "map unat (map word_of_nat fs :: u32 list) = fs" using small by (simp add: map_idI)
  then have "sum_list (map unat (map word_of_nat fs :: u32 list)) = 4096" using assms(2) by simp
  moreover have "fs \<noteq> []" using assms(2) by auto
  ultimately obtain t where t: "from_freqs (map word_of_nat fs) = Some t"
    "st_freqs t = map word_of_nat fs" "table_ok t"
    using from_freqs_total [of "map word_of_nat fs"] by auto
  have "codable t s" if "s < 16" for s
  proof -
    have m: "fs ! s \<in> set fs" using that assms(1) by (simp add: covers_alphabet_def)
    then have "unat (word_of_nat (fs ! s) :: u32) \<noteq> 0" using small [OF m] assms(1) by (auto simp: covers_alphabet_def)
    then have "(word_of_nat (fs ! s) :: u32) \<noteq> 0" by auto
    then show ?thesis using t(2) that assms(1) by (simp add: codable_def covers_alphabet_def)
  qed
  then show ?thesis using t assms(1) by (simp add: covers_alphabet_def)
qed

section \<open>Quantisation\<close>

lemma max_symbol: "is_finite F32_MAX_SYMBOL" "f32_value F32_MAX_SYMBOL = 15" "\<not> f32_neg F32_MAX_SYMBOL"
  by (simp_all add: F32_MAX_SYMBOL_def is_finite_def f32_value_def f32_neg_def pow2_def)

lemma zero_value: "is_finite 0" "f32_value 0 = 0"
  by (simp_all add: is_finite_def f32_value_def)

lemma f32_lt_finite: "is_finite a \<Longrightarrow> is_finite b \<Longrightarrow> f32_lt a b \<longleftrightarrow> f32_value a < f32_value b"
  by (simp add: f32_lt_def finite_not_special)

lemma clamp_symbol:
  fixes v :: f32
  defines "c \<equiv> f32_clamp v 0 F32_MAX_SYMBOL"
  shows "f32_is_nan c \<or> is_finite c \<and> 0 \<le> f32_value c \<and> f32_value c \<le> 15"
proof -
  have z: "\<not> f32_is_nan 0" "\<not> f32_is_inf 0" "\<not> f32_neg 0"
    using finite_not_special [OF zero_value(1)] by (simp_all add: f32_neg_def)
  have m: "\<not> f32_is_nan F32_MAX_SYMBOL" "\<not> f32_is_inf F32_MAX_SYMBOL"
    using finite_not_special [OF max_symbol(1)] by simp_all
  consider "f32_is_nan v" | "\<not> f32_is_nan v" "f32_is_inf v" | "is_finite v"
    using nan_or_inf by blast
  then show ?thesis
  proof cases
    case 1
    then show ?thesis by (simp add: c_def f32_clamp_def f32_lt_def)
  next
    case 2
    then show ?thesis
      using z m max_symbol zero_value by (cases "f32_neg v") (simp_all add: c_def f32_clamp_def f32_lt_def)
  next
    case 3
    then show ?thesis
      using max_symbol zero_value by (auto simp: c_def f32_clamp_def f32_lt_finite not_less)
  qed
qed

lemma f32_as_u8_symbol:
  assumes "f32_is_nan c \<or> is_finite c \<and> 0 \<le> f32_value c \<and> f32_value c \<le> 15"
  shows "four_bit (f32_as_u8 c)"
proof -
  have "unat (word_of_int (min 255 \<lfloor>f32_value c\<rfloor>) :: byte) < 16"
    if "\<not> f32_value c \<le> 0" "f32_value c \<le> 15"
  proof -
    let ?k = "min 255 \<lfloor>f32_value c\<rfloor>"
    have "\<lfloor>f32_value c\<rfloor> \<le> 15" using that(2) by linarith
    then have k: "0 \<le> ?k" "?k < 16" using that(1) by simp_all
    then have "uint (word_of_int ?k :: byte) = ?k"
      by (simp add: uint_word_of_int_eq take_bit_int_eq_self)
    then show ?thesis using k by (simp only: unat_eq_nat_uint)
  qed
  then show ?thesis
    using assms finite_not_special [of c] by (auto simp: f32_as_u8_def four_bit_iff)
qed

lemma quantize_total:
  assumes "\<forall>v \<in> set vs. is_finite v"
  shows "\<exists>symbols. quantize cal vs = Inr symbols \<and> length symbols = length vs \<and> (\<forall>b \<in> set symbols. four_bit b)"
proof -
  have "\<exists>b. quantize_value lo scale v = Inr b \<and> four_bit b" if "is_finite v" for v lo scale
    using that f32_as_u8_symbol [OF clamp_symbol]
    by (simp add: quantize_value_def Let_def four_bit_def)
  then have ex: "\<exists>b. quantize_value lo scale v = Inr b \<and> four_bit b" if "is_finite v" for v lo scale
    using that by blast
  define g where "g v = (case quantize_value (cal_min_bits cal) (cal_scale_bits cal) v of Inr b \<Rightarrow> b | Inl _ \<Rightarrow> 0)"
    for v
  have g: "quantize_value (cal_min_bits cal) (cal_scale_bits cal) v = Inr (g v) \<and> four_bit (g v)"
    if "is_finite v" for v
    using ex [OF that, of "cal_min_bits cal" "cal_scale_bits cal"] by (auto simp: g_def)
  have "collect_results (quantize_value (cal_min_bits cal) (cal_scale_bits cal)) vs = Inr (map g vs)"
    by (rule collect_results_ok) (use g assms in blast)
  then show ?thesis using g assms by (auto simp: quantize_def)
qed

section \<open>Calibration\<close>

lemma calibrate_fold_total:
  assumes "\<forall>v \<in> set vs. is_finite v" and "is_finite lo" and "is_finite hi" and "f32_value lo \<le> f32_value hi"
  shows "\<exists>lo' hi'. calibrate_fold tie lo hi vs = Inr (lo', hi') \<and> f32_value lo' \<le> f32_value hi' \<and>
    lo' \<in> insert lo (set vs) \<and> hi' \<in> insert hi (set vs)"
  using assms
proof (induction vs arbitrary: lo hi)
  case Nil
  then show ?case by simp
next
  case (Cons v vs)
  let ?lo = "f32_min_by tie lo v" and ?hi = "f32_max_by tie hi v"
  have v: "is_finite v" using Cons.prems(1) by simp
  have lo: "?lo \<in> {lo, v}" "f32_value ?lo \<le> f32_value lo" "f32_value ?lo \<le> f32_value v"
    using Cons.prems(2) v by (auto simp: f32_min_by_def f32_lt_finite)
  have hi: "?hi \<in> {hi, v}" "f32_value hi \<le> f32_value ?hi" "f32_value v \<le> f32_value ?hi"
    using Cons.prems(3) v by (auto simp: f32_max_by_def f32_lt_finite)
  have "is_finite ?lo" "is_finite ?hi" using lo(1) hi(1) v Cons.prems(2,3) by auto
  moreover have "f32_value ?lo \<le> f32_value ?hi" using lo(2) hi(2) Cons.prems(4) by linarith
  ultimately obtain lo' hi' where "calibrate_fold tie ?lo ?hi vs = Inr (lo', hi')"
    "f32_value lo' \<le> f32_value hi'" "lo' \<in> insert ?lo (set vs)" "hi' \<in> insert ?hi (set vs)"
    using Cons.IH [of ?lo ?hi] Cons.prems(1) by auto
  then show ?case using v lo(1) hi(1) by auto
qed

lemma f32_negate:
  assumes "is_finite v"
  shows "is_finite (v XOR 0x80000000)" and "f32_value (v XOR 0x80000000) = - f32_value v"
    and "f32_neg (v XOR 0x80000000) \<longleftrightarrow> \<not> f32_neg v"
proof -
  have c: "(0xFF :: u32) = mask 8" "(0x7FFFFF :: u32) = mask 23"
    by (simp_all add: mask_eq_exp_minus_1)
  let ?w = "v XOR 0x80000000"
  have z: "bit (256 :: int) n \<longleftrightarrow> n = 8" for n
    using bit_exp_iff [of 8 n, where 'a = int] by simp
  have e: "drop_bit 23 ?w AND 0xFF = drop_bit 23 v AND 0xFF"
    unfolding c by (intro bit_word_eqI) (auto simp: bit_simps f32_masks z)
  have m: "?w AND 0x7FFFFF = v AND 0x7FFFFF"
    unfolding c by (intro bit_word_eqI) (auto simp: bit_simps f32_masks)
  have f: "?w AND 0x7F800000 = v AND 0x7F800000"
    by (intro bit_word_eqI) (auto simp: bit_simps f32_masks)
  have s: "bit (x :: u32) 31 \<longleftrightarrow> x AND 0x80000000 \<noteq> 0" for x
    using bit_iff_and_push_bit_not_eq_0 [of x 31] by (simp add: push_bit_eq_mult)
  have n: "?w AND 0x80000000 = 0 \<longleftrightarrow> v AND 0x80000000 \<noteq> 0"
    using s [of ?w] s [of v] by (auto simp: bit_simps f32_masks)
  show "is_finite ?w" using assms by (simp add: is_finite_def f)
  show "f32_neg ?w \<longleftrightarrow> \<not> f32_neg v" using n by (simp add: f32_neg_def)
  show "f32_value ?w = - f32_value v" unfolding f32_value_def e m Let_def using n by simp
qed

lemma f32_of_rat_0: "f32_of_rat s 0 = f32_zero s"
  proof -
  have "\<not> pow2 128 \<le> 0" by (simp add: not_le)
  then show ?thesis by (simp add: f32_of_rat_def f32_zero_def)
qed

lemma f32_zero_value: "is_finite (f32_zero s)" "f32_value (f32_zero s) = 0"
  by (simp_all add: f32_zero_def is_finite_def f32_value_def)

text \<open>The step of a tile of moderate values is finite and not negative.\<close>

lemma calibration_scale:
  assumes fin: "is_finite lo" "is_finite hi" and le: "f32_value lo \<le> f32_value hi"
    and small: "f32_value hi - f32_value lo \<le> pow2 126"
  defines "scale \<equiv> f32_div (f32_sub hi lo) F32_MAX_SYMBOL"
  shows "is_finite scale" and "\<not> f32_lt scale 0"
proof -
  define d where "d = f32_sub hi lo"
  let ?r = "f32_value hi - f32_value lo"
  note neg = f32_negate [OF fin(1)]
  have sub: "d = (if ?r = 0 then f32_zero (f32_neg hi \<and> \<not> f32_neg lo) else f32_of_rat False ?r)"
    using fin neg le by (simp add: d_def f32_sub_def f32_add_def finite_not_special Let_def)
  have d: "is_finite d" "f32_neg d \<longrightarrow> f32_value d = 0"
    using f32_of_rat_moderate [of ?r False] le small f32_zero_value by (auto simp: sub)
  have "\<bar>f32_value d\<bar> \<le> 4 * pow2 126"
    using finite_value_bound [OF d(1)] pow2_add [of 2 126] by (simp add: pow2_def)
  then have bound: "\<bar>f32_value d / 15\<bar> \<le> pow2 126" using pow2_pos [of 126] by simp
  have scale: "scale = f32_of_rat (f32_neg d) \<bar>f32_value d / 15\<bar>"
    using d(1) max_symbol by (simp add: scale_def d_def [symmetric] f32_div_def finite_not_special)
  have s: "is_finite scale" "f32_neg scale = f32_neg d"
    using f32_of_rat_moderate [OF _ bound] by (simp_all add: scale)
  show "is_finite scale" by (rule s(1))
  have "0 \<le> f32_value scale"
  proof (cases "f32_neg d")
    case True
    then have "scale = f32_zero True" using d(2) scale by (simp add: f32_of_rat_0)
    then show ?thesis by (simp add: f32_zero_value)
  next
    case False
    then show ?thesis using f32_value_sign(2) [of scale] s(2) by simp
  qed
  then show "\<not> f32_lt scale 0" using s(1) zero_value by (simp add: f32_lt_finite)
qed

lemma calibrate_f16:
  assumes vs: "vs = map f16_bits_to_f32 hs" "vs \<noteq> []" and fin: "\<forall>v \<in> set vs. is_finite v"
  shows "\<exists>cal. calibrate tie vs = Inr cal \<and> is_finite (cal_min_bits cal) \<and>
    is_finite (cal_scale_bits cal) \<and> \<not> f32_lt (cal_scale_bits cal) 0"
proof -
  obtain v rest where v: "vs = v # rest" using vs(2) by (cases vs) auto
  obtain lo hi where f: "calibrate_fold tie v v vs = Inr (lo, hi)" "f32_value lo \<le> f32_value hi"
    "lo \<in> set vs" "hi \<in> set vs"
    using calibrate_fold_total [OF fin, of v v tie] fin by (auto simp: v)
  have bound: "\<bar>f32_value x\<bar> \<le> pow2 16" if "x \<in> set vs" for x
    using that fin f16_widened_bound by (auto simp: vs(1))
  have "pow2 17 \<le> pow2 126" by (simp add: pow2_le_iff)
  then have "f32_value hi - f32_value lo \<le> pow2 126"
    using bound [OF f(3)] bound [OF f(4)] pow2_add [of 1 16] by (simp add: pow2_def)
  then show ?thesis
    using calibration_scale [of lo hi] f fin
    by (auto simp: calibrate_def v [symmetric] Let_def split: list.split) (auto simp: v)
qed

section \<open>The container\<close>

lemma subslice_app: "subslice xs a b = take (b - a) (drop a xs)"
  by (simp add: subslice_def)

lemma HEADER_LEN_88 [simp]: "HEADER_LEN = 88" and FIXED_HEADER_LEN_24 [simp]: "FIXED_HEADER_LEN = 24"
  by (simp_all add: HEADER_LEN_def FIXED_HEADER_LEN_def HISTOGRAM_LEN_def)

lemma unat_u32_of_nat: "n < 2 ^ 32 \<Longrightarrow> unat (word_of_nat n :: u32) = n"
  by (simp add: unat_of_nat take_bit_nat_eq_self)

lemma unat_u16_of_nat: "n < 2 ^ 16 \<Longrightarrow> unat (word_of_nat n :: u16) = n"
  by (simp add: unat_of_nat take_bit_nat_eq_self)

lemma parse_container_bytes:
  assumes dims: "0 < dims" "dims < 2 ^ 16" and rows: "0 < rows" "rows < 2 ^ 32"
    and tile: "rows * dims \<le> MAX_DECODED_VALUES"
    and cal: "is_finite (cal_min_bits cal)" "is_finite (cal_scale_bits cal)" "\<not> f32_lt (cal_scale_bits cal) 0"
    and hist: "length histogram = 16" "sum_list histogram = rows * dims"
    and bytes: "container_bytes dims rows cal histogram stream = Inr payload"
  shows "parse_container payload = Inr
    (\<lparr>ch_dims = dims, ch_count = rows * dims,
      ch_calibration = \<lparr>cal_min_bits = cal_min_bits cal, cal_scale_bits = cal_scale_bits cal\<rparr>\<rparr>, histogram, stream)"
proof -
  let ?H = "concat (map (\<lambda>n. le_bytes 4 (word_of_nat n :: u32)) histogram)"
  have stream: "length stream < 2 ^ 32" and p: "payload = CACHEGEN_MAGIC @ le_bytes 2 (word_of_nat dims :: u16) @
      le_bytes 4 (word_of_nat rows :: u32) @ le_bytes 4 (cal_min_bits cal) @ le_bytes 4 (cal_scale_bits cal) @
      le_bytes 4 (word_of_nat (length stream) :: u32) @ [0, 0] @ ?H @ stream"
    using bytes by (auto simp: container_bytes_def split: if_splits)
  have H: "length ?H = 64" using hist(1) by (simp add: length_concat comp_def sum_list_triv)
  have M: "length CACHEGEN_MAGIC = 4" by (simp add: CACHEGEN_MAGIC_def)
  have s: "subslice payload 0 4 = CACHEGEN_MAGIC" "subslice payload 22 24 = [0, 0]"
    "subslice payload 4 6 = le_bytes 2 (word_of_nat dims :: u16)"
    "subslice payload 6 10 = le_bytes 4 (word_of_nat rows :: u32)"
    "subslice payload 10 14 = le_bytes 4 (cal_min_bits cal)"
    "subslice payload 14 18 = le_bytes 4 (cal_scale_bits cal)"
    "subslice payload 18 22 = le_bytes 4 (word_of_nat (length stream) :: u32)"
    "subslice payload 24 88 = ?H" "drop 88 payload = stream" "length payload = 88 + length stream"
    by (simp_all add: p subslice_def M H)
  have small: "n < 2 ^ 32" if "n \<in> set histogram" for n
    using member_le_sum_list [OF that] hist(2) tile by (simp add: MAX_DECODED_VALUES_def)
  have "map (\<lambda>b. unat (le_word b :: u32)) (as_chunks 4 ?H) = map (\<lambda>n. unat (word_of_nat n :: u32)) histogram"
    by (simp add: as_chunks_concat comp_def)
  also have "\<dots> = histogram" using small by (simp add: unat_u32_of_nat map_idI)
  finally have h: "map (\<lambda>b. unat (le_word b :: u32)) (as_chunks 4 ?H) = histogram" .
  have c: "checked USIZE_MAX (rows * dims) = Some (rows * dims)" "checked_tile_len (rows * dims) = Inr ()"
    using tile by (simp_all add: checked_def checked_tile_len_def MAX_DECODED_VALUES_def)
  show ?thesis
    using dims rows cal stream hist(2)
    by (simp add: parse_container_def s h Let_def unat_u32_of_nat unat_u16_of_nat c)
qed

lemma parse_container_Inr:
  assumes "parse_container payload = Inr (header, histogram, stream)"
  shows "0 < ch_dims header" and "ch_dims header dvd ch_count header" and "0 < ch_count header"
    and "ch_count header \<le> MAX_DECODED_VALUES"
    and "length histogram = 16" and "sum_list histogram = ch_count header"
proof -
  obtain dims rows where h: "ch_dims header = dims" "ch_count header = rows * dims" "0 < dims" "0 < rows"
    "rows * dims \<le> MAX_DECODED_VALUES" "sum_list histogram = rows * dims"
    "histogram = map (\<lambda>b. unat (le_word b :: u32)) (as_chunks 4 (subslice payload 24 88))"
    "88 \<le> length payload"
    using assms
    by (auto simp: parse_container_def Let_def res_bind_Inr checked_def checked_tile_len_def split: if_splits)
  then show "0 < ch_dims header" "ch_dims header dvd ch_count header" "0 < ch_count header"
    "ch_count header \<le> MAX_DECODED_VALUES" "sum_list histogram = ch_count header" by simp_all
  show "length histogram = 16" using h(7,8) by (simp add: length_as_chunks subslice_def)
qed

text \<open>The histogram of a tile of 4-bit symbols counts every symbol once.\<close>

lemma count_symbols_total:
  assumes "\<forall>b \<in> set symbols. four_bit b"
  shows "\<exists>h. count_symbols symbols = Returns h \<and> length h = 16 \<and> sum_list h = length symbols"
proof -
  have fold: "length (fold (\<lambda>s h. h[unat s := h ! unat s + 1]) symbols h) = 16 \<and>
      sum_list (fold (\<lambda>s h. h[unat s := h ! unat s + 1]) symbols h) = sum_list h + length symbols"
    if "length h = 16" "\<forall>b \<in> set symbols. unat b < 16" for h :: "nat list"
    using that
  proof (induction symbols arbitrary: h)
    case (Cons s symbols)
    have "sum_list (h[unat s := h ! unat s + 1]) = sum_list h + 1"
      using Cons.prems by (intro sum_list_inc) simp
    then show ?case using Cons.IH [of "h[unat s := h ! unat s + 1]"] Cons.prems by simp
  qed simp
  have small: "\<forall>b \<in> set symbols. unat b < 16" using assms by (simp add: four_bit_iff)
  then have "\<not> list_ex (\<lambda>s. TOKEN_COUNT \<le> unat s) symbols" by (auto simp: list_ex_iff)
  then show ?thesis using fold [of "replicate 16 0"] small by (simp add: count_symbols_def sum_list_replicate)
qed

end
