(* ===== verification/CacheGenProperties.thy ===== *)
theory CacheGenProperties
  imports CacheGenProps
begin

unbundle bit_operations_syntax

text \<open>
  The properties of the CacheGen codec: the entropy coder and the container give back what was
  written, every histogram becomes a table the coder accepts, and decoding any bytes returns.
\<close>

lemma run_bind_simps [simp]:
  "run_bind (Returns x) f = f x" "try_bind (Inl e) g = Returns (Inl e)" "try_bind (Inr y) g = g y"
  "expect (Some z) h = h z" "expect None h = Panics"
  by (simp_all add: run_bind_def try_bind_def expect_def)

section \<open>The entropy coder\<close>

text \<open>
  For a table that \<open>from_freqs\<close> accepts and symbols of positive frequency: putting the symbols
  in reverse order returns, the finished stream has at most two bytes for every symbol beside the
  four of the state, and a decoder on that stream, whatever follows it, reads the symbols in order,
  ends in the initial state and has consumed exactly the stream.
\<close>

theorem rans_roundtrip:
  assumes "from_freqs freqs = Some table"
    and "\<forall>s \<in> set symbols. s < length freqs \<and> freqs ! s \<noteq> 0"
  shows "\<exists>enc d d'. rans_put_all table (rev symbols) rans_encoder_new = Returns enc \<and>
    length (rans_finish enc) \<le> 4 + 2 * length symbols \<and>
    rans_decoder_new (rans_finish enc @ rest) = Some d \<and>
    rans_get_all table (length symbols) d = Returns (Some symbols, d') \<and>
    dec_state d' = RANS_L \<and> drop (dec_cursor d') (dec_bytes d') = rest"
  using rans_stream_roundtrip [OF from_freqs_ok(2) [OF assms(1)], of symbols rest] assms
    from_freqs_ok(1) [OF assms(1)] by (simp add: codable_def)

text \<open>Two symbols of the same frequency, and a stream of two symbols.\<close>

section \<open>The frequency table\<close>

text \<open>
  (C38) Every histogram of the sixteen symbols that counts a non-empty tile becomes a table: the
  normalisation converges, and \<open>from_freqs\<close> accepts the frequencies, which sum to 4096 and are at
  least 1 each, so the \<open>expect\<close> of the codec never fails and every symbol can be decoded.
\<close>

theorem histogram_gives_table:
  assumes "length histogram = TOKEN_COUNT" and "sum_list histogram = n" and "0 < n"
  shows "\<exists>freqs table. histogram_to_freqs histogram n = Inr freqs \<and>
    from_freqs (map word_of_nat freqs) = Some table \<and>
    length freqs = TOKEN_COUNT \<and> (\<forall>f \<in> set freqs. 1 \<le> f) \<and> sum_list freqs = unat SCALE"
proof -
  obtain fs where fs: "histogram_to_freqs histogram n = Inr fs" "covers_alphabet fs" "sum_list fs = 4096"
    using histogram_to_freqs_total [OF _ assms(2,3)] assms(1) by auto
  then show ?thesis using freqs_table [OF fs(2,3)] by (auto simp: covers_alphabet_def)
qed

lemma histogram_gives_table_witness:
  "\<exists>freqs table. histogram_to_freqs (1 # replicate 15 0) 1 = Inr freqs \<and>
    from_freqs (map word_of_nat freqs) = Some table \<and>
    length freqs = TOKEN_COUNT \<and> (\<forall>f \<in> set freqs. 1 \<le> f) \<and> sum_list freqs = unat SCALE"
  using histogram_gives_table [of "1 # replicate 15 0" 1] by (simp add: sum_list_replicate)

section \<open>The container\<close>

lemma f16_values_even:
  assumes "even (length raw)"
  shows "length (f16_values raw) = length raw div 2"
  using assms by (simp add: f16_values_def length_as_chunks)

lemma map_unat_word_of_nat: "\<forall>s \<in> set ss. four_bit s \<Longrightarrow> map word_of_nat (map unat ss) = (ss :: byte list)"
  by (simp add: map_idI)

text \<open>
  (C9) A segment that has the declared shape, fits the format and holds finite values is encoded,
  and decoding the container gives the half-precision bytes of the dequantised symbols: everything
  after quantisation is lossless.
\<close>

theorem cachegen_roundtrip:
  assumes shape: "0 < dims" "dims < 2 ^ 16" "raw \<noteq> []" "even (length raw)" "dims dvd length raw div 2"
    and size: "length raw div 2 \<le> MAX_DECODED_VALUES"
    and finite: "\<forall>v \<in> set (f16_values raw). is_finite v"
  shows "\<exists>cal symbols payload. calibrate tie (f16_values raw) = Inr cal \<and>
    quantize cal (f16_values raw) = Inr symbols \<and>
    encode_f16_segment tie raw dims = Returns (Inr payload) \<and>
    decode_f16_segment payload = Returns (Inr (f16_bytes (dequantize cal symbols)))"
proof -
  let ?vs = "f16_values raw"
  have len: "length ?vs = length raw div 2" by (rule f16_values_even [OF shape(4)])
  have pos: "0 < length raw div 2" using shape(3,4) by (cases raw) (auto elim: evenE)
  have vs: "?vs = map f16_bits_to_f32 (map le_word (as_chunks 2 raw))" by (simp add: f16_values_def comp_def)
  obtain cal where cal: "calibrate tie ?vs = Inr cal" "is_finite (cal_min_bits cal)"
    "is_finite (cal_scale_bits cal)" "\<not> f32_lt (cal_scale_bits cal) 0"
    using calibrate_f16 [OF vs _ finite] len pos by fastforce
  obtain symbols where q: "quantize cal ?vs = Inr symbols" "length symbols = length ?vs"
    "\<forall>b \<in> set symbols. four_bit b"
    using quantize_total [OF finite] by blast
  obtain e where e: "delta_encode symbols dims = Inr e" "length e = length symbols"
    "\<forall>b \<in> set e. four_bit b" "delta_decode e dims = Inr symbols"
    using delta_encode_total [OF shape(1) _ q(3)] q(2) len shape(5) by auto
  obtain h where h: "count_symbols e = Returns h" "length h = 16" "sum_list h = length e"
    using count_symbols_total [OF e(3)] by blast
  have n: "length e = length raw div 2" "0 < length e" using e(2) q(2) len pos by simp_all
  obtain fs where fs: "histogram_to_freqs h (length e) = Inr fs" "covers_alphabet fs" "sum_list fs = 4096"
    using histogram_to_freqs_total [OF h(2,3) n(2)] by blast
  obtain t where t: "from_freqs (map word_of_nat fs) = Some t" "table_ok t" "\<forall>s < 16. codable t s"
    using freqs_table [OF fs(2,3)] by blast
  have "\<forall>s \<in> set (map unat e). codable t s" using e(3) t(3) by (simp add: four_bit_iff)
  from rans_stream_roundtrip [OF t(2) this, of "[]"]
  obtain enc d d' where r: "rans_put_all t (rev (map unat e)) rans_encoder_new = Returns enc"
    "length (rans_finish enc) \<le> 4 + 2 * length e" "rans_decoder_new (rans_finish enc) = Some d"
    "rans_get_all t (length e) d = Returns (Some (map unat e), d')"
    by auto
  have rows: "length ?vs div dims * dims = length e" "0 < length ?vs div dims" "length ?vs div dims < 2 ^ 32"
  proof -
    show "length ?vs div dims * dims = length e" using shape(5) len n(1) by simp
    then show "0 < length ?vs div dims" using n(2) by (cases "length ?vs div dims") simp_all
    have "length ?vs div dims \<le> length ?vs" by (rule div_le_dividend)
    moreover have "length ?vs < 2 ^ 32" using size len by (simp add: MAX_DECODED_VALUES_def)
    ultimately show "length ?vs div dims < 2 ^ 32" by linarith
  qed
  have "length (rans_finish enc) < 2 ^ 32" using r(2) n(1) size by (simp add: MAX_DECODED_VALUES_def)
  then obtain payload where p: "container_bytes dims (length ?vs div dims) cal h (rans_finish enc) = Inr payload"
    by (simp add: container_bytes_def)
  have "encode_f16_segment tie raw dims = Returns (Inr payload)"
    using shape size len rows(3) cal(1) q(1) e(1) h(1) fs(1) t(1) r(1) p
    by (simp add: encode_f16_segment_def checked_tile_len_def Let_def rev_map)
  moreover have "parse_container payload = Inr (\<lparr>ch_dims = dims, ch_count = length e,
      ch_calibration = cal\<rparr>, h, rans_finish enc)"
    using parse_container_bytes [OF shape(1,2) rows(2,3) _ cal(2-4) h(2) _ p] rows(1) n(1) size h(3) by simp
  then have "decode_f16_segment payload = Returns (Inr (f16_bytes (dequantize cal symbols)))"
    using fs(1) t(1) r(3,4) e(4) n(1) size map_unat_word_of_nat [OF e(3)]
    by (simp add: decode_f16_segment_def decoded_byte_len_def checked_def MAX_DECODED_VALUES_def Let_def comp_def)
  ultimately show ?thesis using cal(1) q(1) by blast
qed

text \<open>One row of two values, 1.0 and -2.0.\<close>

lemma cachegen_roundtrip_witness:
  "\<exists>cal symbols payload. calibrate (\<lambda>_ _. True) (f16_values [0x00, 0x3C, 0x00, 0xC0]) = Inr cal \<and>
    quantize cal (f16_values [0x00, 0x3C, 0x00, 0xC0]) = Inr symbols \<and>
    encode_f16_segment (\<lambda>_ _. True) [0x00, 0x3C, 0x00, 0xC0] 2 = Returns (Inr payload) \<and>
    decode_f16_segment payload = Returns (Inr (f16_bytes (dequantize cal symbols)))"
proof (rule cachegen_roundtrip)
  show "\<forall>v \<in> set (f16_values [0x00, 0x3C, 0x00, 0xC0]). is_finite v"
    by (simp add: f16_values_def as_chunks.simps f16_bits_to_f32_def is_finite_def Let_def push_bit_eq_mult
        drop_bit_eq_div)
qed (simp_all add: MAX_DECODED_VALUES_def)

text \<open>
  (C26) Decoding is safe on any bytes: it returns, with an error or with exactly two bytes for every
  value of the tile that \<open>decoded_value_count\<close> announces, which is at most the format's ceiling.
\<close>

theorem cachegen_decode_safe:
  "(\<exists>e. decode_f16_segment payload = Returns (Inl e)) \<or>
   (\<exists>out n. decode_f16_segment payload = Returns (Inr out) \<and> decoded_value_count payload = Inr n \<and>
      n \<le> MAX_DECODED_VALUES \<and> length out = 2 * n)"
proof (cases "parse_container payload")
  case (Inl e)
  then show ?thesis by (simp add: decode_f16_segment_def)
next
  case (Inr parsed)
  obtain header histogram stream where p: "parse_container payload = Inr (header, histogram, stream)"
    using Inr by (cases parsed) auto
  note ok = parse_container_Inr [OF p]
  obtain fs where fs: "histogram_to_freqs histogram (ch_count header) = Inr fs" "covers_alphabet fs" "sum_list fs = 4096"
    using histogram_to_freqs_total [OF ok(5,6,3)] by blast
  obtain t where t: "from_freqs (map word_of_nat fs) = Some t" "table_ok t"
    using freqs_table [OF fs(2,3)] by blast
  show ?thesis
  proof (cases "rans_decoder_new stream")
    case None
    then show ?thesis using p fs(1) t(1) by (simp add: decode_f16_segment_def ok_or_def)
  next
    case (Some d)
    obtain ss d' where g: "rans_get_all t (ch_count header) d = Returns (ss, d')"
      "\<forall>xs. ss = Some xs \<longrightarrow> length xs = ch_count header"
      using rans_get_all_safe [OF t(2)] by blast
    show ?thesis
    proof (cases ss)
      case None
      then show ?thesis using p fs(1) t(1) Some g(1) by (simp add: decode_f16_segment_def ok_or_def)
    next
      case (Some xs)
      have l: "length (map word_of_nat xs :: byte list) = ch_count header" using g(2) Some by simp
      obtain ys where ys: "delta_decode (map word_of_nat xs) (ch_dims header) = Inr ys"
        using ok(1,2) l by (simp add: delta_decode_def validate_shape_def)
      have "length ys = ch_count header" using delta_decode_length [OF ys] l by simp
      then have "length (f16_bytes (dequantize (ch_calibration header) ys)) = 2 * ch_count header"
        by (simp add: f16_bytes_def dequantize_def length_concat comp_def sum_list_triv)
      moreover have "decode_f16_segment payload =
          Returns (Inr (f16_bytes (dequantize (ch_calibration header) ys)))"
        using p fs(1) t(1) \<open>rans_decoder_new stream = Some d\<close> g(1) Some ys ok(4)
        by (simp add: decode_f16_segment_def decoded_byte_len_def checked_def MAX_DECODED_VALUES_def Let_def)
      ultimately show ?thesis using p ok(4) by (simp add: decoded_value_count_def)
    qed
  qed
qed

section \<open>The tie of two zeros\<close>

text \<open>
  The choice of \<open>f32::min\<close> between the two zeros shows in the container: the calibration of a tile
  that holds both depends on it.
\<close>

lemma calibrate_depends_on_tie:
  "calibrate (\<lambda>_ _. True) [0, 0x80000000] \<noteq> calibrate (\<lambda>_ _. False) [0, 0x80000000]"
proof -
  have z: "is_finite 0" "is_finite 0x80000000" "f32_value 0 = 0" "f32_value 0x80000000 = 0"
    by (simp_all add: is_finite_def f32_value_def)
  have "\<not> f32_lt 0 0" "\<not> f32_lt 0 0x80000000" "\<not> f32_lt 0x80000000 0" "\<not> f32_lt 0x80000000 0x80000000"
    using z by (simp_all add: f32_lt_finite)
  then have "calibrate_fold (\<lambda>_ _. True) 0 0 [0, 0x80000000] = Inr (0, 0)"
    "calibrate_fold (\<lambda>_ _. False) 0 0 [0, 0x80000000] = Inr (0x80000000, 0x80000000)"
    using z by (simp_all add: f32_min_by_def f32_max_by_def)
  then show ?thesis by (simp add: calibrate_def Let_def)
qed

end
