(* ===== verification/CacheInventory.thy ===== *)
theory CacheInventory
  imports WireTypes
begin

text \<open>
  The inventory of positive cache evidence that a node keeps and gossips
  (src/crates/mesh-llm-routing/src/cache_inventory.rs): entries under a model and a prefix hash, a
  recency order in a \<open>BTreeMap\<close> from order numbers to keys, the epoch, expiry and eviction, and the
  advertisements made from it. The monotonic clock is an argument: an \<open>Instant\<close> or a \<open>Duration\<close> is its
  number of nanoseconds. BLAKE3 is a parameter. Model names are their bytes.
\<close>

section \<open>Types\<close>

definition CACHE_AFFINITY_DIGEST_BYTES :: nat where
  "CACHE_AFFINITY_DIGEST_BYTES = 16"

definition CACHE_AFFINITY_SALT_BYTES :: nat where
  "CACHE_AFFINITY_SALT_BYTES = 32"

definition CACHE_AFFINITY_MAX_ENTRIES :: nat where
  "CACHE_AFFINITY_MAX_ENTRIES = 128"

definition CACHE_AFFINITY_TTL :: nat where
  "CACHE_AFFINITY_TTL = 2 * 60 * 1000000000"

definition CACHE_AFFINITY_SALT_ROTATION_MS :: nat where
  "CACHE_AFFINITY_SALT_ROTATION_MS = 5 * 60 * 1000"

definition CACHE_AFFINITY_MAX_FUTURE_SKEW_MS :: nat where
  "CACHE_AFFINITY_MAX_FUTURE_SKEW_MS = 30000"

datatype cache_tier = L1 | L3

record cache_affinity_entry =
  ce_model :: rust_string
  ce_prefix_digest :: "byte list"
  ce_matched_tokens :: nat
  ce_suffix_prefill_tokens :: nat
  ce_tier :: cache_tier
  ce_restore_micros :: nat
  ce_queue_delay_micros :: nat
  ce_prefill_micros_per_token :: nat

record cache_affinity_advertisement =
  ad_salt :: "byte list"
  ad_epoch :: nat
  ad_generated_at_unix_ms :: nat
  ad_ttl_ms :: nat
  ad_entries :: "cache_affinity_entry list"

record cache_key =
  ck_model :: rust_string
  ck_prefix_hash :: u64

record observation =
  ob_matched_tokens :: nat
  ob_suffix_prefill_tokens :: nat
  ob_tier :: cache_tier
  ob_restore_micros :: nat
  ob_queue_delay_micros :: nat
  ob_prefill_micros_per_token :: nat
  ob_observed_at :: nat
  ob_order :: nat

record cache_inventory =
  in_entries :: "(cache_key \<times> observation) list"
  in_lru :: "(nat, cache_key) btree"
  in_epoch :: nat
  in_next_order :: nat
  in_max_entries :: nat
  in_ttl :: nat
  in_model_prefill :: "(rust_string \<times> nat) list"

definition cache_inventory_default :: cache_inventory where
  "cache_inventory_default =
     \<lparr>in_entries = [], in_lru = [], in_epoch = 0, in_next_order = 0,
      in_max_entries = CACHE_AFFINITY_MAX_ENTRIES, in_ttl = CACHE_AFFINITY_TTL, in_model_prefill = []\<rparr>"

section \<open>Digests\<close>

text \<open>
  \<open>blake3::hash\<close> and the keyed hash, of the concatenation of what the hasher is updated with; both
  give 32 bytes.
\<close>

record blake3 =
  b3_hash :: "byte list \<Rightarrow> byte list"
  b3_keyed :: "byte list \<Rightarrow> byte list \<Rightarrow> byte list"

definition prefix_digest :: "blake3 \<Rightarrow> byte list \<Rightarrow> rust_string \<Rightarrow> u64 \<Rightarrow> byte list" where
  "prefix_digest b3 salt model prefix_hash =
     (let key = b3_hash b3 salt
      in take CACHE_AFFINITY_DIGEST_BYTES
           (b3_keyed b3 key (ascii_bytes ''mesh-llm-cache-affinity-v1'' @ [0] @ model @ [0] @ le_bytes 8 prefix_hash)))"

definition rotating_salt :: "blake3 \<Rightarrow> byte list \<Rightarrow> nat \<Rightarrow> byte list" where
  "rotating_salt b3 node_id now_unix_ms =
     (let bucket = now_unix_ms div CACHE_AFFINITY_SALT_ROTATION_MS
      in b3_hash b3 (ascii_bytes ''mesh-llm-cache-affinity-salt-v1'' @ [0] @ node_id @
           le_bytes 8 (word_of_nat bucket :: u64)))"

section \<open>Advertisements\<close>

definition is_fresh_at :: "cache_affinity_advertisement \<Rightarrow> nat \<Rightarrow> bool" where
  "is_fresh_at ad now_unix_ms \<longleftrightarrow>
     ad_generated_at_unix_ms ad \<le> sat_add now_unix_ms CACHE_AFFINITY_MAX_FUTURE_SKEW_MS \<and>
     sat_sub now_unix_ms (ad_generated_at_unix_ms ad) \<le> ad_ttl_ms ad"

definition is_newer_than :: "cache_affinity_advertisement \<Rightarrow> cache_affinity_advertisement \<Rightarrow> bool" where
  "is_newer_than ad other \<longleftrightarrow>
     (ad_generated_at_unix_ms other, ad_epoch other) < (ad_generated_at_unix_ms ad, ad_epoch ad)"

definition has_same_cache_state :: "cache_affinity_advertisement \<Rightarrow> cache_affinity_advertisement \<Rightarrow> bool" where
  "has_same_cache_state ad other \<longleftrightarrow>
     ad_salt ad = ad_salt other \<and> ad_epoch ad = ad_epoch other \<and> ad_ttl_ms ad = ad_ttl_ms other \<and>
     ad_entries ad = ad_entries other"

definition ad_probe ::
  "blake3 \<Rightarrow> cache_affinity_advertisement \<Rightarrow> rust_string \<Rightarrow> u64 \<Rightarrow> nat \<Rightarrow> cache_affinity_entry option"
where
  "ad_probe b3 ad model prefix_hash now_unix_ms =
     (if \<not> is_fresh_at ad now_unix_ms then None
      else
        let digest = prefix_digest b3 (ad_salt ad) model prefix_hash
        in find (\<lambda>e. ce_model e = model \<and> ce_prefix_digest e = digest) (ad_entries ad))"

section \<open>Operations\<close>

text \<open>
  The loop of \<open>prune_expired\<close>: from the oldest entry of the recency order on, until one is not
  expired. It gives the entries, the order and whether an entry was removed.
\<close>

primrec prune_loop ::
  "nat \<Rightarrow> nat \<Rightarrow> (nat, cache_key) btree \<Rightarrow> (cache_key \<times> observation) list \<Rightarrow> bool \<Rightarrow>
   (cache_key \<times> observation) list \<times> (nat, cache_key) btree \<times> bool"
where
  "prune_loop now ttl [] entries changed = (entries, [], changed)"
| "prune_loop now ttl (x # lru) entries changed =
     (case bt_get entries (snd x) of
        None \<Rightarrow> prune_loop now ttl lru entries changed
      | Some e \<Rightarrow>
          if sat_sub now (ob_observed_at e) \<le> ttl then (entries, x # lru, changed)
          else prune_loop now ttl lru (bt_remove (snd x) entries) True)"

definition prune_expired :: "nat \<Rightarrow> cache_inventory \<Rightarrow> cache_inventory" where
  "prune_expired now ci =
     (case prune_loop now (in_ttl ci) (in_lru ci) (in_entries ci) False of
        (entries, lru, changed) \<Rightarrow>
          ci\<lparr>in_entries := entries, in_lru := lru,
            in_epoch := (if changed then sat_add (in_epoch ci) 1 else in_epoch ci)\<rparr>)"

text \<open>The renumbering of \<open>take_order\<close> when the order numbers run out.\<close>

primrec rebase_loop ::
  "(nat, cache_key) btree \<Rightarrow> nat \<Rightarrow> (cache_key \<times> observation) list \<Rightarrow> (nat, cache_key) btree \<Rightarrow>
   (cache_key \<times> observation) list \<times> (nat, cache_key) btree \<times> nat"
where
  "rebase_loop [] n entries rebased = (entries, rebased, n)"
| "rebase_loop (x # lru) n entries rebased =
     (case bt_get entries (snd x) of
        Some _ \<Rightarrow>
          rebase_loop lru (n + 1) (bt_modify (snd x) (\<lambda>e. e\<lparr>ob_order := n\<rparr>) entries) (bt_insert n (snd x) rebased)
      | None \<Rightarrow> rebase_loop lru n entries rebased)"

definition take_order :: "cache_inventory \<Rightarrow> nat \<times> cache_inventory" where
  "take_order ci =
     (let ci =
        (if in_next_order ci = U64_MAX
         then case rebase_loop (in_lru ci) 0 (in_entries ci) [] of
                (entries, lru, n) \<Rightarrow> ci\<lparr>in_entries := entries, in_lru := lru, in_next_order := n\<rparr>
         else ci)
      in (in_next_order ci, ci\<lparr>in_next_order := in_next_order ci + 1\<rparr>))"

definition observe_prefill_cost :: "rust_string \<Rightarrow> nat \<Rightarrow> cache_inventory \<Rightarrow> cache_inventory" where
  "observe_prefill_cost model micros ci =
     (if micros = 0 then ci
      else if bt_get (in_model_prefill ci) model = None \<and> in_max_entries ci \<le> length (in_model_prefill ci)
      then ci
      else ci\<lparr>in_model_prefill :=
        hl_put model
          (case bt_get (in_model_prefill ci) model of
             Some previous \<Rightarrow> sat_add (sat_mul previous 3) micros div 4
           | None \<Rightarrow> micros) (in_model_prefill ci)\<rparr>)"

definition model_prefill :: "cache_inventory \<Rightarrow> rust_string \<Rightarrow> nat" where
  "model_prefill ci model = (case bt_get (in_model_prefill ci) model of Some n \<Rightarrow> n | None \<Rightarrow> 0)"

text \<open>\<open>while self.entries.len() > self.max_entries { pop the oldest of the order, or break }\<close>\<close>

primrec inventory_evict_loop ::
  "nat \<Rightarrow> (nat, cache_key) btree \<Rightarrow> (cache_key \<times> observation) list \<Rightarrow>
   (cache_key \<times> observation) list \<times> (nat, cache_key) btree"
where
  "inventory_evict_loop limit [] entries = (entries, [])"
| "inventory_evict_loop limit (x # lru) entries =
     (if limit < length entries then inventory_evict_loop limit lru (bt_remove (snd x) entries)
      else (entries, x # lru))"

definition semantic_change ::
  "cache_inventory \<Rightarrow> cache_key \<Rightarrow> nat \<Rightarrow> nat \<Rightarrow> nat \<Rightarrow> nat \<Rightarrow> bool"
where
  "semantic_change ci key matched suff restore queue =
     (case bt_get (in_entries ci) key of
        None \<Rightarrow> True
      | Some previous \<Rightarrow>
          ob_matched_tokens previous \<noteq> matched \<or> ob_suffix_prefill_tokens previous \<noteq> suff \<or>
          ob_tier previous \<noteq> L1 \<or> ob_restore_micros previous \<noteq> restore \<or>
          ob_queue_delay_micros previous \<noteq> queue \<or>
          ob_prefill_micros_per_token previous \<noteq> model_prefill ci (ck_model key))"

text \<open>\<open>now\<close> is read by \<open>prune_expired\<close>, \<open>observed_at\<close> when the observation is stored.\<close>

definition record_l1_hit_with_cost ::
  "nat \<Rightarrow> nat \<Rightarrow> rust_string \<Rightarrow> u64 \<Rightarrow> nat \<Rightarrow> nat \<Rightarrow> nat \<Rightarrow> nat \<Rightarrow> cache_inventory \<Rightarrow> cache_inventory"
where
  "record_l1_hit_with_cost now observed_at model prefix_hash matched suff restore queue ci =
     (if matched = 0 then ci
      else
        let ci = prune_expired now ci;
            key = \<lparr>ck_model = model, ck_prefix_hash = prefix_hash\<rparr>;
            change = semantic_change ci key matched suff restore queue;
            ci = (case bt_get (in_entries ci) key of
                     Some previous \<Rightarrow> ci\<lparr>in_entries := bt_remove key (in_entries ci),
                       in_lru := bt_remove (ob_order previous) (in_lru ci)\<rparr>
                   | None \<Rightarrow> ci);
            (order, ci) = take_order ci;
            observation =
              \<lparr>ob_matched_tokens = matched, ob_suffix_prefill_tokens = suff, ob_tier = L1,
               ob_restore_micros = restore, ob_queue_delay_micros = queue,
               ob_prefill_micros_per_token = model_prefill ci model, ob_observed_at = observed_at,
               ob_order = order\<rparr>;
            ci = ci\<lparr>in_entries := hl_put key observation (in_entries ci),
              in_lru := bt_insert order key (in_lru ci),
              in_epoch := (if change then sat_add (in_epoch ci) 1 else in_epoch ci)\<rparr>;
            (entries, lru) = inventory_evict_loop (in_max_entries ci) (in_lru ci) (in_entries ci)
        in ci\<lparr>in_entries := entries, in_lru := lru\<rparr>)"

definition record_l1_hit ::
  "nat \<Rightarrow> nat \<Rightarrow> rust_string \<Rightarrow> u64 \<Rightarrow> nat \<Rightarrow> nat \<Rightarrow> nat \<Rightarrow> cache_inventory \<Rightarrow> cache_inventory"
where
  "record_l1_hit now observed_at model prefix_hash matched suff queue ci =
     record_l1_hit_with_cost now observed_at model prefix_hash matched suff 0 queue ci"

definition invalidate_key :: "rust_string \<Rightarrow> u64 \<Rightarrow> cache_inventory \<Rightarrow> bool \<times> cache_inventory" where
  "invalidate_key model prefix_hash ci =
     (let key = \<lparr>ck_model = model, ck_prefix_hash = prefix_hash\<rparr>
      in case bt_get (in_entries ci) key of
           None \<Rightarrow> (False, ci)
         | Some previous \<Rightarrow>
             (True, ci\<lparr>in_entries := bt_remove key (in_entries ci),
                in_lru := bt_remove (ob_order previous) (in_lru ci),
                in_epoch := sat_add (in_epoch ci) 1\<rparr>))"

definition entry_of :: "cache_key \<Rightarrow> byte list \<Rightarrow> observation \<Rightarrow> cache_affinity_entry" where
  "entry_of key digest ob =
     \<lparr>ce_model = ck_model key, ce_prefix_digest = digest, ce_matched_tokens = ob_matched_tokens ob,
      ce_suffix_prefill_tokens = ob_suffix_prefill_tokens ob, ce_tier = ob_tier ob,
      ce_restore_micros = ob_restore_micros ob, ce_queue_delay_micros = ob_queue_delay_micros ob,
      ce_prefill_micros_per_token = ob_prefill_micros_per_token ob\<rparr>"

definition probe_local ::
  "nat \<Rightarrow> rust_string \<Rightarrow> u64 \<Rightarrow> cache_inventory \<Rightarrow> cache_affinity_entry option \<times> cache_inventory"
where
  "probe_local now model prefix_hash ci =
     (let ci = prune_expired now ci;
          key = \<lparr>ck_model = model, ck_prefix_hash = prefix_hash\<rparr>
      in (map_option (entry_of key (replicate CACHE_AFFINITY_DIGEST_BYTES 0)) (bt_get (in_entries ci) key), ci))"

definition advertisement ::
  "blake3 \<Rightarrow> nat \<Rightarrow> byte list \<Rightarrow> nat \<Rightarrow> cache_inventory \<Rightarrow> cache_affinity_advertisement \<times> cache_inventory"
where
  "advertisement b3 now salt generated_at ci =
     (let ci = prune_expired now ci;
          entries = List.map_filter
            (\<lambda>(_, key). map_option (\<lambda>ob. entry_of key (prefix_digest b3 salt (ck_model key) (ck_prefix_hash key)) ob)
               (bt_get (in_entries ci) key)) (rev (in_lru ci));
          ttl_ms = in_ttl ci div 1000000
      in (\<lparr>ad_salt = salt, ad_epoch = in_epoch ci, ad_generated_at_unix_ms = generated_at,
            ad_ttl_ms = (if ttl_ms \<le> U32_MAX then ttl_ms else U32_MAX), ad_entries = entries\<rparr>, ci))"

section \<open>Runs\<close>

text \<open>
  The calls of a run, with the clock's readings: each reading is at or after the one before. The
  state of the relation is the last reading and the inventory.
\<close>

inductive inventory_step :: "nat \<times> cache_inventory \<Rightarrow> nat \<times> cache_inventory \<Rightarrow> bool" where
  recorded: "t \<le> now \<Longrightarrow> now \<le> observed_at \<Longrightarrow>
     inventory_step (t, ci)
       (observed_at, record_l1_hit_with_cost now observed_at model prefix_hash matched suff restore queue ci)"
| invalidated: "inventory_step (t, ci) (t, snd (invalidate_key model prefix_hash ci))"
| probed: "t \<le> now \<Longrightarrow> inventory_step (t, ci) (now, snd (probe_local now model prefix_hash ci))"
| advertised: "t \<le> now \<Longrightarrow> inventory_step (t, ci) (now, snd (advertisement b3 now salt generated_at ci))"
| observed: "inventory_step (t, ci) (t, observe_prefill_cost model micros ci)"

end
