(* ===== verification/Routing.thy ===== *)
theory Routing
  imports CacheInventory
begin

unbundle bit_operations_syntax

text \<open>
  Target selection (src/crates/mesh-llm-routing/src): the routing table with its shared round-robin
  counter (lib.rs), the choice of a target by cache evidence (cache_aware.rs), the affinity counters
  and the selection and ordering of targets by request keys (affinity.rs). An endpoint's identity is
  a type parameter. The counter and the statistics, which the code shares behind an atomic and a
  mutex, are passed and returned; one call is one step on them. The process setting read by
  \<open>prefix_only_enabled\<close> is an argument. A run's statistics stay below the maximum of their types.
\<close>

section \<open>The routing table (lib.rs)\<close>

datatype 'id inference_target = NoTarget | Local u16 | Remote 'id

record 'id model_targets =
  mt_targets :: "rust_string \<rightharpoonup> 'id inference_target list"
  mt_counter :: u64

definition mt_get :: "rust_string \<Rightarrow> 'id model_targets \<Rightarrow> 'id inference_target \<times> 'id model_targets" where
  "mt_get model mt =
     (case mt_targets mt model of
        Some targets \<Rightarrow>
          if targets \<noteq> []
          then (targets ! (unat (mt_counter mt) mod length targets), mt\<lparr>mt_counter := mt_counter mt + 1\<rparr>)
          else (NoTarget, mt)
      | None \<Rightarrow> (NoTarget, mt))"

definition mt_candidates :: "'id model_targets \<Rightarrow> rust_string \<Rightarrow> 'id inference_target list" where
  "mt_candidates mt model = (case mt_targets mt model of Some targets \<Rightarrow> targets | None \<Rightarrow> [])"

definition pick_from ::
  "'id inference_target list \<Rightarrow> 'id model_targets \<Rightarrow> 'id inference_target \<times> 'id model_targets"
where
  "pick_from candidates mt =
     (if candidates = [] then (NoTarget, mt)
      else (candidates ! (unat (mt_counter mt) mod length candidates), mt\<lparr>mt_counter := mt_counter mt + 1\<rparr>))"

definition pick_sticky_from :: "'id inference_target list \<Rightarrow> u64 \<Rightarrow> 'id inference_target" where
  "pick_sticky_from candidates sticky_key =
     (if candidates = [] then NoTarget else candidates ! (unat sticky_key mod length candidates))"

section \<open>Selection by cache evidence (cache_aware.rs)\<close>

definition DEFAULT_MIN_SAVED_TOKENS :: nat where
  "DEFAULT_MIN_SAVED_TOKENS = 256"

definition DEFAULT_PREFILL_MICROS_PER_TOKEN :: nat where
  "DEFAULT_PREFILL_MICROS_PER_TOKEN = 1000"

record cache_aware_config =
  ca_min_saved_tokens :: nat
  ca_prefill_micros_per_token :: nat

definition cache_aware_config_default :: cache_aware_config where
  "cache_aware_config_default =
     \<lparr>ca_min_saved_tokens = DEFAULT_MIN_SAVED_TOKENS,
      ca_prefill_micros_per_token = DEFAULT_PREFILL_MICROS_PER_TOKEN\<rparr>"

record 'id target_cache_evidence =
  te_target :: "'id inference_target"
  te_entry :: cache_affinity_entry

definition prefill_rate :: "cache_aware_config \<Rightarrow> cache_affinity_entry \<Rightarrow> nat" where
  "prefill_rate config entry =
     (if ce_prefill_micros_per_token entry = 0 then ca_prefill_micros_per_token config
      else ce_prefill_micros_per_token entry)"

definition estimated_cost_micros :: "cache_aware_config \<Rightarrow> 'id target_cache_evidence \<Rightarrow> nat" where
  "estimated_cost_micros config ev =
     (let entry = te_entry ev
      in sat_add (sat_add (ce_queue_delay_micros entry) (ce_restore_micros entry))
           (sat_mul (ce_suffix_prefill_tokens entry) (prefill_rate config entry)))"

text \<open>The two filters of a candidate's evidence: enough saved tokens, and cheaper than a cold prefill.\<close>

definition worthwhile :: "cache_aware_config \<Rightarrow> 'id target_cache_evidence \<Rightarrow> bool" where
  "worthwhile config item \<longleftrightarrow>
     ca_min_saved_tokens config \<le> ce_matched_tokens (te_entry item) \<and>
     estimated_cost_micros config item <
       sat_mul (sat_add (ce_matched_tokens (te_entry item)) (ce_suffix_prefill_tokens (te_entry item)))
         (prefill_rate config (te_entry item))"

definition cache_candidates ::
  "'id inference_target list \<Rightarrow> 'id target_cache_evidence list \<Rightarrow> cache_aware_config \<Rightarrow>
   (nat \<times> 'id target_cache_evidence) list"
where
  "cache_candidates candidates evidence config =
     List.map_filter
       (\<lambda>(order, candidate).
          case find (\<lambda>item. te_target item = candidate) evidence of
            None \<Rightarrow> None
          | Some item \<Rightarrow> if worthwhile config item then Some (order, item) else None)
       (enumerate 0 candidates)"

text \<open>\<open>min_by_key\<close> of the cost, the reversed number of matched tokens and the candidate order.\<close>

definition cache_order ::
  "cache_aware_config \<Rightarrow> nat \<times> 'id target_cache_evidence \<Rightarrow> nat \<times> 'id target_cache_evidence \<Rightarrow> ordering"
where
  "cache_order config x y =
     then_with (cmp (estimated_cost_micros config (snd x)) (estimated_cost_micros config (snd y)))
       (then_with (cmp (ce_matched_tokens (te_entry (snd y))) (ce_matched_tokens (te_entry (snd x))))
          (cmp (fst x) (fst y)))"

definition select_cache_target ::
  "'id inference_target list \<Rightarrow> 'id target_cache_evidence list \<Rightarrow> cache_aware_config \<Rightarrow>
   'id target_cache_evidence option"
where
  "select_cache_target candidates evidence config =
     map_option snd (min_by (cache_order config) (cache_candidates candidates evidence config))"

section \<open>Affinity (affinity.rs)\<close>

record affinity_stats =
  as_entries :: nat
  as_lookups :: nat
  as_hits :: nat
  as_misses :: nat
  as_stale :: nat
  as_routes :: nat
  as_sticky_routes :: nat
  as_session_routes :: nat
  as_learned :: nat
  as_evicted :: nat

definition affinity_stats_default :: affinity_stats where
  "affinity_stats_default =
     \<lparr>as_entries = 0, as_lookups = 0, as_hits = 0, as_misses = 0, as_stale = 0, as_routes = 0,
      as_sticky_routes = 0, as_session_routes = 0, as_learned = 0, as_evicted = 0\<rparr>"

record routing_keys =
  rk_session_hash :: "u64 option"
  rk_prefix_hash :: "u64 option"
  rk_sticky_hash :: "u64 option"

record affinity_router =
  ar_stats :: affinity_stats
  ar_prefix_enabled :: bool
  ar_sticky_enabled :: bool

definition affinity_with_config :: "bool \<Rightarrow> bool \<Rightarrow> affinity_router" where
  "affinity_with_config prefix_enabled sticky_enabled =
     \<lparr>ar_stats = affinity_stats_default, ar_prefix_enabled = prefix_enabled, ar_sticky_enabled = sticky_enabled\<rparr>"

definition record_sticky_route :: "affinity_router \<Rightarrow> affinity_router" where
  "record_sticky_route ar = ar\<lparr>ar_stats := (ar_stats ar)\<lparr>as_sticky_routes := as_sticky_routes (ar_stats ar) + 1\<rparr>\<rparr>"

definition record_session_route :: "affinity_router \<Rightarrow> affinity_router" where
  "record_session_route ar =
     ar\<lparr>ar_stats := (ar_stats ar)\<lparr>as_session_routes := as_session_routes (ar_stats ar) + 1\<rparr>\<rparr>"

definition record_cache_probe :: "bool \<Rightarrow> affinity_router \<Rightarrow> affinity_router" where
  "record_cache_probe hit ar =
     (if \<not> ar_prefix_enabled ar then ar
      else
        let stats = (ar_stats ar)\<lparr>as_lookups := as_lookups (ar_stats ar) + 1\<rparr>
        in ar\<lparr>ar_stats :=
             (if hit then stats\<lparr>as_hits := as_hits stats + 1, as_routes := as_routes stats + 1\<rparr>
              else stats\<lparr>as_misses := as_misses stats + 1\<rparr>)\<rparr>)"

record 'id target_selection =
  ts_target :: "'id inference_target"
  ts_prefix_hash :: "u64 option"
  ts_cache_target :: "'id inference_target option"
  ts_affinity_applied :: bool

record 'id prepared_targets =
  pt_ordered :: "'id inference_target list"
  pt_prefix_hash :: "u64 option"
  pt_cache_target :: "'id inference_target option"
  pt_affinity_applied :: bool

definition option_filter :: "('a \<Rightarrow> bool) \<Rightarrow> 'a option \<Rightarrow> 'a option" where
  "option_filter p x = (case x of Some y \<Rightarrow> if p y then Some y else None | None \<Rightarrow> None)"

text \<open>
  \<open>select_model_target_from_keys\<close>. The results are the selection, the routing table with its
  advanced counter and the router with its statistics.
\<close>

definition select_model_target_from_keys ::
  "bool \<Rightarrow> 'id model_targets \<Rightarrow> 'id inference_target list \<Rightarrow> routing_keys \<Rightarrow> affinity_router \<Rightarrow>
   'id inference_target option \<Rightarrow> 'id target_selection \<times> 'id model_targets \<times> affinity_router"
where
  "select_model_target_from_keys prefix_only targets candidates routing affinity cache_target =
     (case (if ar_prefix_enabled affinity
            then option_filter (\<lambda>target. target \<in> set candidates) cache_target else None) of
        Some target \<Rightarrow>
          (\<lparr>ts_target = target, ts_prefix_hash = rk_prefix_hash routing, ts_cache_target = Some target,
            ts_affinity_applied = True\<rparr>, targets, record_cache_probe True affinity)
      | None \<Rightarrow>
          let affinity = (if rk_prefix_hash routing \<noteq> None then record_cache_probe False affinity else affinity)
          in case option_filter (\<lambda>_. ar_sticky_enabled affinity) (rk_session_hash routing) of
               Some session_hash \<Rightarrow>
                 (\<lparr>ts_target = pick_sticky_from candidates session_hash, ts_prefix_hash = rk_prefix_hash routing,
                   ts_cache_target = None, ts_affinity_applied = True\<rparr>, targets, record_session_route affinity)
             | None \<Rightarrow>
                 (case rk_prefix_hash routing of
                    Some prefix_hash \<Rightarrow>
                      if prefix_only
                      then (\<lparr>ts_target = pick_sticky_from candidates prefix_hash, ts_prefix_hash = Some prefix_hash,
                              ts_cache_target = None, ts_affinity_applied = True\<rparr>, targets, affinity)
                      else
                        (case option_filter (\<lambda>_. ar_sticky_enabled affinity) (rk_sticky_hash routing) of
                           Some sticky_hash \<Rightarrow>
                             (\<lparr>ts_target = pick_sticky_from candidates sticky_hash,
                               ts_prefix_hash = Some prefix_hash, ts_cache_target = None,
                               ts_affinity_applied = True\<rparr>, targets, record_sticky_route affinity)
                         | None \<Rightarrow>
                             (case pick_from candidates targets of
                                (target, targets) \<Rightarrow>
                                  (\<lparr>ts_target = target, ts_prefix_hash = Some prefix_hash, ts_cache_target = None,
                                    ts_affinity_applied = False\<rparr>, targets, affinity)))
                  | None \<Rightarrow>
                      (case option_filter (\<lambda>_. ar_sticky_enabled affinity) (rk_sticky_hash routing) of
                         Some sticky_hash \<Rightarrow>
                           (\<lparr>ts_target = pick_sticky_from candidates sticky_hash, ts_prefix_hash = None,
                             ts_cache_target = None, ts_affinity_applied = True\<rparr>, targets,
                            record_sticky_route affinity)
                       | None \<Rightarrow>
                           (case pick_from candidates targets of
                              (target, targets) \<Rightarrow>
                                (\<lparr>ts_target = target, ts_prefix_hash = None, ts_cache_target = None,
                                  ts_affinity_applied = False\<rparr>, targets, affinity)))))"

definition rotate_targets_by_hash :: "'a list \<Rightarrow> u64 \<Rightarrow> 'a list" where
  "rotate_targets_by_hash targets key =
     (if targets = [] then targets else rotate (unat key mod length targets) targets)"

text \<open>\<open>targets[..=pos].rotate_right(1)\<close> for the first position of the target.\<close>

definition move_target_first :: "'a list \<Rightarrow> 'a \<Rightarrow> 'a list \<times> bool" where
  "move_target_first targets target =
     (if target \<in> set targets
      then
        let pos = length (takeWhile (\<lambda>c. c \<noteq> target) targets)
        in (targets ! pos # take pos targets @ drop (pos + 1) targets, True)
      else (targets, False))"

definition prepare_remote_targets_from_keys ::
  "bool \<Rightarrow> 'id list \<Rightarrow> routing_keys \<Rightarrow> affinity_router \<Rightarrow> 'id inference_target option \<Rightarrow>
   'id prepared_targets \<times> affinity_router"
where
  "prepare_remote_targets_from_keys prefix_only hosts routing affinity cache_target =
     (let ordered = map Remote hosts;
          cache_target = option_filter (\<lambda>target. target \<in> set ordered) cache_target;
          prepared = (\<lambda>ordered cache_target applied.
            \<lparr>pt_ordered = ordered, pt_prefix_hash = rk_prefix_hash routing, pt_cache_target = cache_target,
             pt_affinity_applied = applied\<rparr>)
      in case (if ar_prefix_enabled affinity then cache_target else None) of
           Some target \<Rightarrow>
             (prepared (fst (move_target_first ordered target)) cache_target True, record_cache_probe True affinity)
         | None \<Rightarrow>
             (case option_filter (\<lambda>_. ar_sticky_enabled affinity) (rk_session_hash routing) of
                Some session_hash \<Rightarrow>
                  (prepared (rotate_targets_by_hash ordered session_hash) None True, record_session_route affinity)
              | None \<Rightarrow>
                  (case rk_prefix_hash routing of
                     Some prefix_hash \<Rightarrow>
                       if prefix_only
                       then (prepared (rotate_targets_by_hash ordered prefix_hash) cache_target True, affinity)
                       else
                         (case option_filter (\<lambda>_. ar_sticky_enabled affinity) (rk_sticky_hash routing) of
                            Some sticky_hash \<Rightarrow>
                              (prepared (rotate_targets_by_hash ordered sticky_hash) cache_target True,
                               record_sticky_route affinity)
                          | None \<Rightarrow> (prepared ordered cache_target False, affinity))
                   | None \<Rightarrow>
                       (case option_filter (\<lambda>_. ar_sticky_enabled affinity) (rk_sticky_hash routing) of
                          Some sticky_hash \<Rightarrow>
                            (prepared (rotate_targets_by_hash ordered sticky_hash) cache_target True,
                             record_sticky_route affinity)
                        | None \<Rightarrow> (prepared ordered cache_target False, affinity)))))"

section \<open>Request keys (affinity.rs)\<close>

text \<open>
  A parsed body is a \<open>serde_json::Value\<close>. A number is the text that \<open>Number::to_string\<close> prints; an
  object is its entries in the order of its map, with distinct keys.
\<close>

datatype json =
    JNull
  | JBool bool
  | JNumber rust_string
  | JString rust_string
  | JArray "json list"
  | JObject "(rust_string \<times> json) list"

definition json_get :: "json \<Rightarrow> rust_string \<Rightarrow> json option" where
  "json_get v key = (case v of JObject kvs \<Rightarrow> map_of kvs key | _ \<Rightarrow> None)"

definition as_str :: "json \<Rightarrow> rust_string option" where
  "as_str v = (case v of JString s \<Rightarrow> Some s | _ \<Rightarrow> None)"

definition as_array :: "json \<Rightarrow> json list option" where
  "as_array v = (case v of JArray vs \<Rightarrow> Some vs | _ \<Rightarrow> None)"

definition hash_bytes :: "byte list \<Rightarrow> u64" where
  "hash_bytes bytes = foldl (\<lambda>acc b. (acc XOR ucast b) * 0x100000001b3) 0xcbf29ce484222325 bytes"

definition hash_combine :: "u64 \<Rightarrow> u64 \<Rightarrow> u64" where
  "hash_combine a b = a * 31 + b"

definition hash_tagged_text :: "u64 \<Rightarrow> rust_string \<Rightarrow> rust_string \<Rightarrow> u64" where
  "hash_tagged_text acc tag txt =
     (let acc = hash_combine acc (hash_bytes tag)
      in hash_combine acc (hash_bytes txt))"

definition hash_ascii :: "string \<Rightarrow> u64" where
  "hash_ascii s = hash_bytes (ascii_bytes s)"

text \<open>
  \<open>hash_json_value\<close>. The keys of an object are sorted and each key's value is looked up; with
  distinct keys that is the walk over the entries in key order.
\<close>

function hash_json_value :: "u64 \<Rightarrow> json \<Rightarrow> u64" where
  "hash_json_value acc JNull = hash_combine acc (hash_ascii ''null'')"
| "hash_json_value acc (JBool b) =
     hash_combine (hash_combine acc (hash_ascii ''bool'')) (hash_ascii (if b then ''true'' else ''false''))"
| "hash_json_value acc (JNumber n) = hash_combine (hash_combine acc (hash_ascii ''number'')) (hash_bytes n)"
| "hash_json_value acc (JString s) = hash_combine (hash_combine acc (hash_ascii ''string'')) (hash_bytes s)"
| "hash_json_value acc (JArray items) =
     foldl hash_json_value
       (hash_combine (hash_combine acc (hash_ascii ''array'')) (word_of_nat (length items))) items"
| "hash_json_value acc (JObject kvs) =
     foldl (\<lambda>acc (k, v). hash_json_value (hash_combine acc (hash_bytes k)) v)
       (hash_combine acc (hash_ascii ''object'')) (sort_key fst kvs)"
  by pat_completeness auto

lemma json_entry_size: "(k, v) \<in> set kvs \<Longrightarrow> size v < size (JObject kvs)"
  by (induction kvs) auto

lemma json_item_size: "v \<in> set items \<Longrightarrow> size v < size (JArray items)"
  by (induction items) auto

termination hash_json_value
  by (relation "measure (\<lambda>(acc, v). size v)") (auto dest: json_entry_size json_item_size)

definition hash_tagged_json :: "u64 \<Rightarrow> rust_string \<Rightarrow> json \<Rightarrow> u64" where
  "hash_tagged_json acc tag v =
     (let acc = hash_combine acc (hash_bytes tag)
      in hash_json_value acc v)"

text \<open>The texts of the blocks of a message, each followed by a line feed.\<close>

definition message_text :: "json \<Rightarrow> rust_string option" where
  "message_text msg =
     (case Option.bind (json_get msg (ascii_bytes ''content'')) as_str of
        Some s \<Rightarrow> Some s
      | None \<Rightarrow>
          (case Option.bind (json_get msg (ascii_bytes ''content'')) as_array of
             Some blocks \<Rightarrow>
               let out = concat (List.map_filter
                 (\<lambda>block. map_option (\<lambda>txt. txt @ [10])
                    (Option.bind (json_get block (ascii_bytes ''text'')) as_str)) blocks)
               in if out \<noteq> [] then Some out else None
           | None \<Rightarrow> None))"

definition extract_session_hint_from_body :: "json \<Rightarrow> rust_string list \<Rightarrow> rust_string option" where
  "extract_session_hint_from_body body keys =
     find_map (\<lambda>key. Option.bind (json_get body key) as_str) keys"

primrec first_user_message :: "json list \<Rightarrow> json option" where
  "first_user_message [] = None"
| "first_user_message (msg # msgs) =
     (if Option.bind (json_get msg (ascii_bytes ''role'')) as_str = Some (ascii_bytes ''user'')
      then Some msg else first_user_message msgs)"

definition first_user_hash_from_body :: "json \<Rightarrow> u64 option" where
  "first_user_hash_from_body body =
     (case Option.bind (Option.bind (json_get body (ascii_bytes ''messages'')) as_array) first_user_message of
        Some msg \<Rightarrow> map_option (\<lambda>txt. hash_tagged_text 0 (ascii_bytes ''user'') txt) (message_text msg)
      | None \<Rightarrow>
          map_option (\<lambda>prompt. hash_tagged_text 0 (ascii_bytes ''prompt'') prompt)
            (Option.bind (json_get body (ascii_bytes ''prompt'')) as_str))"

text \<open>The loop over the keys of the scaffold and the one over the messages, up to the first user's.\<close>

definition SCAFFOLD_KEYS :: "rust_string list" where
  "SCAFFOLD_KEYS = map ascii_bytes
     [''tools'', ''functions'', ''response_format'', ''tool_choice'', ''parallel_tool_calls'']"

primrec scaffold_keys_loop :: "json \<Rightarrow> rust_string list \<Rightarrow> u64 \<times> bool \<Rightarrow> u64 \<times> bool" where
  "scaffold_keys_loop body [] s = s"
| "scaffold_keys_loop body (key # keys) s =
     (case json_get body key of
        Some v \<Rightarrow> scaffold_keys_loop body keys (hash_tagged_json (fst s) key v, True)
      | None \<Rightarrow> scaffold_keys_loop body keys s)"

primrec scaffold_messages_loop :: "json list \<Rightarrow> u64 \<times> bool \<Rightarrow> u64 \<times> bool" where
  "scaffold_messages_loop [] s = s"
| "scaffold_messages_loop (msg # msgs) s =
     (let role = (case Option.bind (json_get msg (ascii_bytes ''role'')) as_str of Some r \<Rightarrow> r | None \<Rightarrow> [])
      in if role = ascii_bytes ''system'' \<or> role = ascii_bytes ''developer''
         then
           (case message_text msg of
              Some txt \<Rightarrow> scaffold_messages_loop msgs (hash_tagged_text (fst s) role txt, True)
            | None \<Rightarrow> scaffold_messages_loop msgs s)
         else if role = ascii_bytes ''user'' then s
         else scaffold_messages_loop msgs s)"

definition scaffold_prefix_hash_from_body :: "json \<Rightarrow> bool \<Rightarrow> u64 option" where
  "scaffold_prefix_hash_from_body body prefix_fallback_to_first_user =
     (let s = scaffold_keys_loop body SCAFFOLD_KEYS (0, False);
          s = (case Option.bind (json_get body (ascii_bytes ''messages'')) as_array of
                 Some messages \<Rightarrow> scaffold_messages_loop messages s
               | None \<Rightarrow> s);
          s = (if prefix_fallback_to_first_user \<and> \<not> snd s
               then (case first_user_hash_from_body body of
                       Some user_hash \<Rightarrow> (hash_combine (fst s) user_hash, True)
                     | None \<Rightarrow> s)
               else s)
      in if snd s then Some (fst s) else None)"

definition routing_keys_of ::
  "json option \<Rightarrow> rust_string list \<Rightarrow> rust_string list \<Rightarrow> bool \<Rightarrow> routing_keys"
where
  "routing_keys_of parsed_body cache_hint_keys session_hint_keys prefix_fallback_to_first_user =
     (case parsed_body of
        None \<Rightarrow> \<lparr>rk_session_hash = None, rk_prefix_hash = None, rk_sticky_hash = None\<rparr>
      | Some body \<Rightarrow>
          let session_hash = map_option hash_bytes (extract_session_hint_from_body body session_hint_keys);
              explicit_cache_hash = map_option hash_bytes (extract_session_hint_from_body body cache_hint_keys);
              scaffold_hash = scaffold_prefix_hash_from_body body prefix_fallback_to_first_user;
              prefix_hash = (case explicit_cache_hash of Some h \<Rightarrow> Some h | None \<Rightarrow> scaffold_hash);
              sticky_hash = session_hash
          in \<lparr>rk_session_hash = session_hash, rk_prefix_hash = prefix_hash, rk_sticky_hash = sticky_hash\<rparr>)"

end
