(* ===== verification/InventoryRefinement.thy ===== *)
theory InventoryRefinement
  imports CacheInventory
begin

text \<open>
  The inventory of cache evidence implements a bounded list of evidence in recency order: the
  abstraction reads the keys along the \<open>BTreeMap\<close> and drops the order numbers. Pruning filters
  the list by age, recording moves a key to the end and drops from the front, invalidating removes
  a key, and renumbering changes nothing. The invariant ties the two maps of the code together.
\<close>

section \<open>Consistency of the two maps\<close>

definition lru_ok :: "(cache_key \<times> observation) list \<Rightarrow> (nat, cache_key) btree \<Rightarrow> bool" where
  "lru_ok entries lru \<longleftrightarrow>
     distinct (map fst entries) \<and> bt_wf lru \<and>
     (\<forall>n k. (n, k) \<in> set lru \<longleftrightarrow> (\<exists>e. bt_get entries k = Some e \<and> ob_order e = n))"

definition obs_of :: "(cache_key \<times> observation) list \<Rightarrow> cache_key \<Rightarrow> observation" where
  "obs_of entries k = the (bt_get entries k)"

definition unordered :: "observation \<Rightarrow> observation" where
  "unordered e = e\<lparr>ob_order := 0\<rparr>"

definition recency_of ::
  "(cache_key \<times> observation) list \<Rightarrow> (nat, cache_key) btree \<Rightarrow> (cache_key \<times> observation) list"
where
  "recency_of entries lru = map (\<lambda>x. (snd x, unordered (obs_of entries (snd x)))) lru"

definition recency :: "cache_inventory \<Rightarrow> (cache_key \<times> observation) list" where
  "recency ci = recency_of (in_entries ci) (in_lru ci)"

lemma unordered_simps [simp]:
  "ob_observed_at (unordered e) = ob_observed_at e" "unordered (e\<lparr>ob_order := n\<rparr>) = unordered e"
  "unordered (unordered e) = unordered e"
  by (simp_all add: unordered_def)

lemma lru_ok_mem: "lru_ok entries lru \<Longrightarrow> x \<in> set lru \<Longrightarrow> \<exists>e. bt_get entries (snd x) = Some e \<and> ob_order e = fst x"
  unfolding lru_ok_def by (metis prod.collapse)

lemma lru_ok_get: "lru_ok entries lru \<Longrightarrow> bt_get entries k = Some e \<Longrightarrow> (ob_order e, k) \<in> set lru"
  unfolding lru_ok_def by blast

lemma lru_ok_distinct_keys:
  assumes "lru_ok entries lru"
  shows "distinct (map snd lru)"
proof -
  have "distinct (map fst lru)" using assms by (auto simp: lru_ok_def intro: bt_wf_distinct)
  then have "distinct lru" by (simp add: distinct_map)
  moreover have "inj_on snd (set lru)"
  proof (rule inj_onI)
    fix x y
    assume "x \<in> set lru" "y \<in> set lru" "snd x = snd y"
    then show "x = y" using lru_ok_mem [OF assms] by (metis option.inject prod.expand)
  qed
  ultimately show ?thesis by (simp add: distinct_map)
qed

lemma lru_ok_keys:
  assumes "lru_ok entries lru"
  shows "set (map snd lru) = set (map fst entries)"
proof
  show "set (map snd lru) \<subseteq> set (map fst entries)"
  proof
    fix k
    assume "k \<in> set (map snd lru)"
    then obtain x where "x \<in> set lru" "snd x = k" by auto
    then have "bt_get entries k \<noteq> None" using lru_ok_mem [OF assms] by fastforce
    then show "k \<in> set (map fst entries)" by (simp only: bt_get_None_iff) simp
  qed
  show "set (map fst entries) \<subseteq> set (map snd lru)"
  proof
    fix k
    assume "k \<in> set (map fst entries)"
    then obtain e where "bt_get entries k = Some e" by (metis bt_get_None_iff not_None_eq)
    from lru_ok_get [OF assms this] show "k \<in> set (map snd lru)" by force
  qed
qed

lemma lru_ok_length: "lru_ok entries lru \<Longrightarrow> length entries = length lru"
  using lru_ok_distinct_keys [of entries lru] lru_ok_keys [of entries lru]
  by (metis distinct_card length_map lru_ok_def)

text \<open>Removing a key from the one map and its order number from the other.\<close>

lemma lru_ok_remove_entry:
  assumes ok: "lru_ok entries lru" and e: "bt_get entries k = Some e"
  shows "bt_remove (ob_order e) lru = filter (\<lambda>x. snd x \<noteq> k) lru"
    and "lru_ok (bt_remove k entries) (filter (\<lambda>x. snd x \<noteq> k) lru)"
proof -
  have "fst x = ob_order e \<longleftrightarrow> snd x = k" if x: "x \<in> set lru" for x
  proof
    assume "snd x = k"
    then show "fst x = ob_order e" using lru_ok_mem [OF ok x] e by auto
  next
    assume f: "fst x = ob_order e"
    have "distinct (map fst lru)" using ok by (auto simp: lru_ok_def intro: bt_wf_distinct)
    then show "snd x = k" using x lru_ok_get [OF ok e] f
      by (metis eq_key_imp_eq_value prod.collapse)
  qed
  then show "bt_remove (ob_order e) lru = filter (\<lambda>x. snd x \<noteq> k) lru"
    unfolding bt_remove_def by (intro filter_cong) auto
  show "lru_ok (bt_remove k entries) (filter (\<lambda>x. snd x \<noteq> k) lru)"
    using ok unfolding lru_ok_def bt_wf_def
    by (auto simp: bt_get_remove sorted_wrt_map sorted_wrt_filter)
qed

lemma lru_ok_tail:
  assumes "lru_ok entries (x # lru)"
  shows "lru_ok (bt_remove (snd x) entries) lru"
proof -
  have "snd x \<notin> set (map snd lru)" using lru_ok_distinct_keys [OF assms] by simp
  then have "\<forall>y \<in> set lru. snd y \<noteq> snd x" by (metis image_eqI set_map)
  then have "filter (\<lambda>y. snd y \<noteq> snd x) (x # lru) = lru" by (simp add: filter_id_conv)
  moreover obtain e where "bt_get entries (snd x) = Some e" using lru_ok_mem [OF assms] by fastforce
  ultimately show ?thesis using lru_ok_remove_entry(2) [OF assms] by metis
qed

lemma recency_of_remove:
  "k \<notin> set (map snd lru) \<Longrightarrow> recency_of (bt_remove k entries) lru = recency_of entries lru"
  by (auto simp: recency_of_def obs_of_def bt_get_remove)

section \<open>The loops\<close>

definition alive :: "nat \<Rightarrow> nat \<Rightarrow> cache_key \<times> observation \<Rightarrow> bool" where
  "alive now ttl x \<longleftrightarrow> sat_sub now (ob_observed_at (snd x)) \<le> ttl"

definition in_time_order :: "(cache_key \<times> observation) list \<Rightarrow> bool" where
  "in_time_order xs \<longleftrightarrow> sorted (map (\<lambda>x. ob_observed_at (snd x)) xs)"

lemma alive_later: "alive now ttl x \<Longrightarrow> ob_observed_at (snd x) \<le> ob_observed_at (snd y) \<Longrightarrow> alive now ttl y"
  by (auto simp: alive_def)

lemma prune_loop_recency:
  assumes "lru_ok entries lru" and "in_time_order (recency_of entries lru)"
  shows "\<exists>entries' lru' changed'. prune_loop now ttl lru entries changed = (entries', lru', changed') \<and>
    lru_ok entries' lru' \<and> set lru' \<subseteq> set lru \<and> length lru' \<le> length lru \<and>
    recency_of entries' lru' = filter (alive now ttl) (recency_of entries lru) \<and>
    (changed' \<longleftrightarrow> changed \<or> \<not> list_all (alive now ttl) (recency_of entries lru))"
  using assms
proof (induction lru arbitrary: entries changed)
  case Nil
  then show ?case by (simp add: recency_of_def)
next
  case (Cons x lru)
  obtain e where e: "bt_get entries (snd x) = Some e" using lru_ok_mem [OF Cons.prems(1)] by fastforce
  let ?h = "(snd x, unordered (obs_of entries (snd x)))"
  have rec: "recency_of entries (x # lru) = ?h # recency_of entries lru" by (simp add: recency_of_def)
  have live: "alive now ttl ?h \<longleftrightarrow> sat_sub now (ob_observed_at e) \<le> ttl"
    by (simp add: alive_def obs_of_def e)
  show ?case
  proof (cases "alive now ttl ?h")
    case True
    have "list_all (alive now ttl) (recency_of entries (x # lru))"
      using Cons.prems(2) True unfolding rec
      by (force simp: in_time_order_def list_all_iff intro: alive_later [OF True])
    then show ?thesis
      using Cons.prems(1) True live e by (auto simp: list_all_iff filter_id_conv)
  next
    case False
    have nk: "snd x \<notin> set (map snd lru)" using lru_ok_distinct_keys [OF Cons.prems(1)] by simp
    have tail: "recency_of (bt_remove (snd x) entries) lru = recency_of entries lru"
      by (rule recency_of_remove [OF nk])
    have "in_time_order (recency_of (bt_remove (snd x) entries) lru)"
      using Cons.prems(2) unfolding rec tail by (simp add: in_time_order_def)
    from Cons.IH [OF lru_ok_tail [OF Cons.prems(1)] this, of True]
    obtain entries' lru' changed' where r: "prune_loop now ttl lru (bt_remove (snd x) entries) True =
        (entries', lru', changed')" "lru_ok entries' lru'" "set lru' \<subseteq> set lru" "length lru' \<le> length lru"
      "recency_of entries' lru' = filter (alive now ttl) (recency_of entries lru)" "changed'"
      unfolding tail by auto
    show ?thesis
      using r False live e by (intro exI [of _ entries'] exI [of _ lru'] exI [of _ True]) (auto simp: rec)
  qed
qed

lemma inventory_evict_loop_recency:
  assumes "lru_ok entries lru"
  shows "\<exists>entries' lru'. inventory_evict_loop limit lru entries = (entries', lru') \<and> lru_ok entries' lru' \<and>
    set lru' \<subseteq> set lru \<and> length lru' \<le> limit \<and>
    recency_of entries' lru' = drop (length lru - limit) (recency_of entries lru)"
  using assms
proof (induction lru arbitrary: entries)
  case Nil
  then show ?case by (simp add: recency_of_def)
next
  case (Cons x lru)
  have len: "length entries = Suc (length lru)" using lru_ok_length [OF Cons.prems] by simp
  show ?case
  proof (cases "limit < length entries")
    case False
    then show ?thesis using Cons.prems len by simp
  next
    case True
    have nk: "snd x \<notin> set (map snd lru)" using lru_ok_distinct_keys [OF Cons.prems] by simp
    from Cons.IH [OF lru_ok_tail [OF Cons.prems]]
    obtain entries' lru' where r: "inventory_evict_loop limit lru (bt_remove (snd x) entries) = (entries', lru')"
      "lru_ok entries' lru'" "set lru' \<subseteq> set lru" "length lru' \<le> limit"
      "recency_of entries' lru' = drop (length lru - limit) (recency_of entries lru)"
      using recency_of_remove [OF nk, of entries] by auto
    have "length (x # lru) - limit = Suc (length lru - limit)" using True len by simp
    then have "drop (length (x # lru) - limit) (recency_of entries (x # lru)) =
        drop (length lru - limit) (recency_of entries lru)"
      by (simp add: recency_of_def)
    then show ?thesis using r True by auto
  qed
qed

lemma bt_insert_last: "\<forall>x \<in> set m. fst x < k \<Longrightarrow> bt_insert k v m = m @ [(k, v)]"
  by (induction m) auto

lemma rebase_loop_spec:
  assumes "distinct (map snd lru)" and "\<forall>x \<in> set lru. bt_get entries (snd x) \<noteq> None"
    and "\<forall>x \<in> set rebased. fst x < n"
  shows "\<exists>entries'. rebase_loop lru n entries rebased =
      (entries', rebased @ zip [n..<n + length lru] (map snd lru), n + length lru) \<and>
    map fst entries' = map fst entries \<and>
    (\<forall>k. k \<notin> set (map snd lru) \<longrightarrow> bt_get entries' k = bt_get entries k) \<and>
    (\<forall>i < length lru. bt_get entries' (snd (lru ! i)) =
       map_option (\<lambda>e. e\<lparr>ob_order := n + i\<rparr>) (bt_get entries (snd (lru ! i))))"
  using assms
proof (induction lru arbitrary: n entries rebased)
  case Nil
  then show ?case by simp
next
  case (Cons x lru)
  obtain e where e: "bt_get entries (snd x) = Some e" using Cons.prems(2) by auto
  let ?E = "bt_modify (snd x) (\<lambda>e. e\<lparr>ob_order := n\<rparr>) entries"
  let ?R = "rebased @ [(n, snd x)]"
  have ins: "bt_insert n (snd x) rebased = ?R" using Cons.prems(3) by (rule bt_insert_last)
  have get: "bt_get ?E k = (if k = snd x then Some (e\<lparr>ob_order := n\<rparr>) else bt_get entries k)" for k
    using e by (simp add: bt_get_modify)
  have p: "distinct (map snd lru)" "\<forall>y \<in> set lru. bt_get ?E (snd y) \<noteq> None" "\<forall>y \<in> set ?R. fst y < Suc n"
    using Cons.prems by (auto simp: get less_Suc_eq)
  from Cons.IH [OF p] obtain entries' where r: "rebase_loop lru (Suc n) ?E ?R =
      (entries', ?R @ zip [Suc n..<Suc n + length lru] (map snd lru), Suc n + length lru)"
    "map fst entries' = map fst entries"
    "\<forall>k. k \<notin> set (map snd lru) \<longrightarrow> bt_get entries' k = bt_get ?E k"
    "\<forall>i < length lru. bt_get entries' (snd (lru ! i)) =
       map_option (\<lambda>e. e\<lparr>ob_order := Suc n + i\<rparr>) (bt_get ?E (snd (lru ! i)))"
    by auto
  have nk: "snd x \<notin> set (map snd lru)" using Cons.prems(1) by simp
  have "bt_get entries' (snd ((x # lru) ! i)) =
      map_option (\<lambda>e. e\<lparr>ob_order := n + i\<rparr>) (bt_get entries (snd ((x # lru) ! i)))"
    if "i < length (x # lru)" for i
  proof (cases i)
    case 0
    then show ?thesis using r(3) nk e by (simp add: get)
  next
    case (Suc j)
    then have "snd (lru ! j) \<in> set (map snd lru)" using that by simp
    then have "snd (lru ! j) \<noteq> snd x" using nk by metis
    then show ?thesis using r(4) that \<open>i = Suc j\<close> by (simp add: get)
  qed
  moreover have "rebase_loop (x # lru) n entries rebased =
      (entries', rebased @ zip [n..<n + length (x # lru)] (map snd (x # lru)), n + length (x # lru))"
  proof -
    have "[n..<n + length (x # lru)] = n # [Suc n..<Suc n + length lru]"
      by (subst upt_conv_Cons) (simp_all del: upt_Suc)
    then show ?thesis using r(1) e ins by (simp del: upt_Suc)
  qed
  moreover have "\<forall>k. k \<notin> set (map snd (x # lru)) \<longrightarrow> bt_get entries' k = bt_get entries k"
    using r(3) by (simp add: get)
  ultimately show ?case using r(2) by blast
qed

section \<open>The invariant\<close>

definition inventory_ok :: "nat \<Rightarrow> cache_inventory \<Rightarrow> bool" where
  "inventory_ok t ci \<longleftrightarrow>
     lru_ok (in_entries ci) (in_lru ci) \<and>
     (\<forall>x \<in> set (in_lru ci). fst x < in_next_order ci) \<and> in_next_order ci \<le> U64_MAX \<and>
     length (in_entries ci) \<le> in_max_entries ci \<and> in_max_entries ci < U64_MAX \<and>
     in_time_order (recency ci) \<and> (\<forall>x \<in> set (recency ci). ob_observed_at (snd x) \<le> t) \<and>
     length (in_model_prefill ci) \<le> in_max_entries ci"

lemma inventory_ok_default: "inventory_ok t cache_inventory_default"
  by (simp add: inventory_ok_def cache_inventory_default_def lru_ok_def recency_def recency_of_def
      in_time_order_def CACHE_AFFINITY_MAX_ENTRIES_def)

lemma in_time_order_filter: "in_time_order xs \<Longrightarrow> in_time_order (filter p xs)"
  by (simp add: in_time_order_def sorted_map sorted_wrt_filter)

lemma in_time_order_drop: "in_time_order xs \<Longrightarrow> in_time_order (drop n xs)"
  by (simp add: in_time_order_def drop_map [symmetric] sorted_wrt_drop)

lemma in_time_order_snoc:
  "in_time_order xs \<Longrightarrow> \<forall>x \<in> set xs. ob_observed_at (snd x) \<le> ob_observed_at (snd y) \<Longrightarrow> in_time_order (xs @ [y])"
  by (auto simp: in_time_order_def sorted_append)

lemma length_recency [simp]: "length (recency ci) = length (in_lru ci)"
  by (simp add: recency_def recency_of_def)

lemma inventory_ok_later: "inventory_ok t ci \<Longrightarrow> t \<le> t' \<Longrightarrow> inventory_ok t' ci"
  by (auto simp: inventory_ok_def)

text \<open>Pruning.\<close>

lemma prune_expired_ok:
  fixes now :: nat
  assumes ok: "inventory_ok t ci"
  defines "ci' \<equiv> prune_expired now ci"
  shows "inventory_ok t ci'" and "recency ci' = filter (alive now (in_ttl ci)) (recency ci)"
    and "in_max_entries ci' = in_max_entries ci" and "in_ttl ci' = in_ttl ci"
    and "in_model_prefill ci' = in_model_prefill ci"
    and "in_epoch ci' = (if recency ci' = recency ci then in_epoch ci else sat_add (in_epoch ci) 1)"
proof -
  have l: "lru_ok (in_entries ci) (in_lru ci)" and s: "in_time_order (recency_of (in_entries ci) (in_lru ci))"
    using ok by (simp_all add: inventory_ok_def recency_def)
  obtain entries lru changed where p: "prune_loop now (in_ttl ci) (in_lru ci) (in_entries ci) False =
      (entries, lru, changed)"
    "lru_ok entries lru" "set lru \<subseteq> set (in_lru ci)" "length lru \<le> length (in_lru ci)"
    "recency_of entries lru = filter (alive now (in_ttl ci)) (recency ci)"
    "changed \<longleftrightarrow> \<not> list_all (alive now (in_ttl ci)) (recency ci)"
    using prune_loop_recency [OF l s, of now "in_ttl ci" False] by (auto simp: recency_def)
  have d: "ci' = ci\<lparr>in_entries := entries, in_lru := lru,
      in_epoch := (if changed then sat_add (in_epoch ci) 1 else in_epoch ci)\<rparr>"
    using p(1) by (simp add: ci'_def prune_expired_def)
  show r: "recency ci' = filter (alive now (in_ttl ci)) (recency ci)"
    using p(5) by (simp add: d recency_def)
  show "in_max_entries ci' = in_max_entries ci" "in_ttl ci' = in_ttl ci"
    "in_model_prefill ci' = in_model_prefill ci"
    by (simp_all add: d)
  have "filter (alive now (in_ttl ci)) (recency ci) = recency ci \<longleftrightarrow> list_all (alive now (in_ttl ci)) (recency ci)"
    by (simp add: list_all_iff filter_id_conv)
  then show "in_epoch ci' = (if recency ci' = recency ci then in_epoch ci else sat_add (in_epoch ci) 1)"
    using p(6) unfolding r by (simp add: d)
  have "length entries \<le> length (in_entries ci)"
    using p(4) lru_ok_length [OF p(2)] lru_ok_length [OF l] by simp
  then show "inventory_ok t ci'"
    using ok p(2,3) r in_time_order_filter [of "recency ci"]
    by (auto simp: inventory_ok_def d recency_def)
qed

text \<open>Removing a key.\<close>

definition without :: "cache_key \<Rightarrow> cache_inventory \<Rightarrow> cache_inventory" where
  "without key ci = (case bt_get (in_entries ci) key of
     Some previous \<Rightarrow> ci\<lparr>in_entries := bt_remove key (in_entries ci),
       in_lru := bt_remove (ob_order previous) (in_lru ci)\<rparr>
   | None \<Rightarrow> ci)"

lemma without_fields [simp]:
  "in_epoch (without key ci) = in_epoch ci" "in_next_order (without key ci) = in_next_order ci"
  "in_max_entries (without key ci) = in_max_entries ci" "in_ttl (without key ci) = in_ttl ci"
  "in_model_prefill (without key ci) = in_model_prefill ci"
  by (simp_all add: without_def split: option.split)

lemma without_ok:
  assumes ok: "inventory_ok t ci"
  shows "recency (without key ci) = filter (\<lambda>x. fst x \<noteq> key) (recency ci)"
    and "inventory_ok t (without key ci)"
    and "bt_get (in_entries (without key ci)) key = None"
proof -
  have l: "lru_ok (in_entries ci) (in_lru ci)" using ok by (simp add: inventory_ok_def)
  show rec: "recency (without key ci) = filter (\<lambda>x. fst x \<noteq> key) (recency ci)"
  proof (cases "bt_get (in_entries ci) key")
    case None
    then have "key \<notin> set (map snd (in_lru ci))" using lru_ok_keys [OF l] by (simp add: bt_get_None_iff)
    then have "\<forall>x \<in> set (recency ci). fst x \<noteq> key" by (auto simp: recency_def recency_of_def)
    then show ?thesis using None by (simp add: without_def filter_id_conv)
  next
    case (Some e)
    have "recency_of (bt_remove key (in_entries ci)) (filter (\<lambda>x. snd x \<noteq> key) (in_lru ci)) =
        recency_of (in_entries ci) (filter (\<lambda>x. snd x \<noteq> key) (in_lru ci))"
      by (rule recency_of_remove) auto
    then show ?thesis
      using Some lru_ok_remove_entry(1) [OF l Some]
      by (simp add: without_def recency_def) (simp add: recency_of_def filter_map comp_def)
  qed
  show "bt_get (in_entries (without key ci)) key = None"
    by (simp add: without_def bt_get_remove split: option.split)
  show "inventory_ok t (without key ci)"
  proof (cases "bt_get (in_entries ci) key")
    case None
    then show ?thesis using ok by (simp add: without_def)
  next
    case (Some e)
    note r = lru_ok_remove_entry [OF l Some]
    have "in_time_order (recency (without key ci))" "\<forall>x \<in> set (recency (without key ci)). ob_observed_at (snd x) \<le> t"
      using ok in_time_order_filter [of "recency ci"] unfolding rec by (auto simp: inventory_ok_def)
    then show ?thesis
      using ok Some r length_bt_remove_le [of key "in_entries ci"]
      by (auto simp: inventory_ok_def without_def)
  qed
qed

text \<open>The next order number, with or without renumbering.\<close>

lemma rebase_ok:
  assumes l: "lru_ok entries lru"
  shows "\<exists>entries'. rebase_loop lru 0 entries [] = (entries', zip [0..<length lru] (map snd lru), length lru) \<and>
    lru_ok entries' (zip [0..<length lru] (map snd lru)) \<and> map fst entries' = map fst entries \<and>
    recency_of entries' (zip [0..<length lru] (map snd lru)) = recency_of entries lru"
proof -
  let ?lru = "zip [0..<length lru] (map snd lru)"
  have ex: "\<forall>x \<in> set lru. bt_get entries (snd x) \<noteq> None" using lru_ok_mem [OF l] by fastforce
  obtain entries' where r: "rebase_loop lru 0 entries [] = (entries', ?lru, length lru)"
    "map fst entries' = map fst entries"
    "\<forall>i < length lru. bt_get entries' (snd (lru ! i)) =
       map_option (\<lambda>e. e\<lparr>ob_order := i\<rparr>) (bt_get entries (snd (lru ! i)))"
    using rebase_loop_spec [OF lru_ok_distinct_keys [OF l] ex, of "[]" 0] by auto
  have new: "\<exists>e. bt_get entries (snd (lru ! i)) = Some e \<and> bt_get entries' (snd (lru ! i)) = Some (e\<lparr>ob_order := i\<rparr>)"
    if i: "i < length lru" for i
  proof -
    obtain e where "bt_get entries (snd (lru ! i)) = Some e" using ex nth_mem [OF i] by blast
    then show ?thesis using r(3) i by simp
  qed
  have mem: "(n, k) \<in> set ?lru \<longleftrightarrow> n < length lru \<and> k = snd (lru ! n)" for n k
    unfolding in_set_zip by (auto intro!: exI [of _ n])
  have "lru_ok entries' ?lru"
    unfolding lru_ok_def
  proof (intro conjI allI)
    show "distinct (map fst entries')" using l by (simp add: r(2) lru_ok_def)
    show "bt_wf ?lru" by (simp add: bt_wf_def)
    fix n k
    show "(n, k) \<in> set ?lru \<longleftrightarrow> (\<exists>e. bt_get entries' k = Some e \<and> ob_order e = n)"
    proof
      assume "(n, k) \<in> set ?lru"
      then show "\<exists>e. bt_get entries' k = Some e \<and> ob_order e = n" using new unfolding mem by fastforce
    next
      assume "\<exists>e. bt_get entries' k = Some e \<and> ob_order e = n"
      then obtain e where e: "bt_get entries' k = Some e" "ob_order e = n" by blast
      then have "k \<in> set (map fst entries')" by (metis bt_get_None_iff option.distinct(1))
      then have "k \<in> set (map snd lru)" using lru_ok_keys [OF l] r(2) by simp
      then obtain i where "i < length lru" "k = snd (lru ! i)" by (auto simp: in_set_conv_nth)
      then show "(n, k) \<in> set ?lru" using new [of i] e unfolding mem by auto
    qed
  qed
  moreover have "recency_of entries' ?lru = recency_of entries lru"
  proof (rule nth_equalityI)
    show "length (recency_of entries' ?lru) = length (recency_of entries lru)" by (simp add: recency_of_def)
    fix i
    assume "i < length (recency_of entries' ?lru)"
    then have i: "i < length lru" by (simp add: recency_of_def)
    show "recency_of entries' ?lru ! i = recency_of entries lru ! i"
      using new [OF i] i by (auto simp: recency_of_def obs_of_def)
  qed
  ultimately show ?thesis using r(1,2) by blast
qed

lemma take_order_ok:
  assumes ok: "inventory_ok t ci"
  shows "\<exists>n ci'. take_order ci = (n, ci') \<and> lru_ok (in_entries ci') (in_lru ci') \<and>
    recency ci' = recency ci \<and> map fst (in_entries ci') = map fst (in_entries ci) \<and>
    (\<forall>x \<in> set (in_lru ci'). fst x < n) \<and> n < U64_MAX \<and> in_next_order ci' = n + 1 \<and>
    in_max_entries ci' = in_max_entries ci \<and> in_ttl ci' = in_ttl ci \<and> in_epoch ci' = in_epoch ci \<and>
    in_model_prefill ci' = in_model_prefill ci"
proof (cases "in_next_order ci = U64_MAX")
  case False
  then show ?thesis using ok by (auto simp: take_order_def Let_def inventory_ok_def recency_def)
next
  case True
  have l: "lru_ok (in_entries ci) (in_lru ci)" using ok by (simp add: inventory_ok_def)
  obtain entries where r: "rebase_loop (in_lru ci) 0 (in_entries ci) [] =
      (entries, zip [0..<length (in_lru ci)] (map snd (in_lru ci)), length (in_lru ci))"
    "lru_ok entries (zip [0..<length (in_lru ci)] (map snd (in_lru ci)))"
    "map fst entries = map fst (in_entries ci)"
    "recency_of entries (zip [0..<length (in_lru ci)] (map snd (in_lru ci))) = recency_of (in_entries ci) (in_lru ci)"
    using rebase_ok [OF l] by blast
  have "length (in_lru ci) < U64_MAX" using ok lru_ok_length [OF l] by (simp add: inventory_ok_def)
  then show ?thesis
    using r True by (auto simp: take_order_def Let_def recency_def set_zip)
qed

text \<open>Storing an observation under a new key at the end of the order.\<close>

lemma lru_ok_append:
  assumes l: "lru_ok entries lru" and k: "bt_get entries key = None" and n: "\<forall>x \<in> set lru. fst x < n"
    and e: "ob_order e = n"
  shows "lru_ok (hl_put key e entries) (bt_insert n key lru)"
    and "recency_of (hl_put key e entries) (bt_insert n key lru) = recency_of entries lru @ [(key, unordered e)]"
    and "set (bt_insert n key lru) = insert (n, key) (set lru)"
proof -
  have ins: "bt_insert n key lru = lru @ [(n, key)]" by (rule bt_insert_last [OF n])
  have get: "bt_get (hl_put key e entries) = (bt_get entries)(key \<mapsto> e)" by (rule hl_get_put)
  have keys: "key \<notin> set (map snd lru)" using lru_ok_keys [OF l] k by (simp add: bt_get_None_iff)
  have new: "key \<notin> set (map fst entries)" using k by (simp add: bt_get_None_iff)
  have d: "distinct (map fst (hl_put key e entries))" using l new by (simp add: hl_put_def lru_ok_def)
  have w: "bt_wf (lru @ [(n, key)])" using l n by (auto simp: lru_ok_def bt_wf_def sorted_wrt_append)
  have m: "(m, k') \<in> set lru \<longleftrightarrow> (\<exists>e. bt_get entries k' = Some e \<and> ob_order e = m)" for m k'
    using l by (simp add: lru_ok_def)
  show "lru_ok (hl_put key e entries) (bt_insert n key lru)"
    unfolding lru_ok_def ins get using d w m k e by auto
  have "recency_of (hl_put key e entries) lru = recency_of entries lru"
    using keys by (auto simp: recency_of_def obs_of_def get)
  then show "recency_of (hl_put key e entries) (bt_insert n key lru) = recency_of entries lru @ [(key, unordered e)]"
    by (simp add: ins recency_of_def obs_of_def get)
  show "set (bt_insert n key lru) = insert (n, key) (set lru)" by (simp add: ins)
qed

section \<open>The operations against the list\<close>

text \<open>The abstract inventory: a list of evidence, oldest first, of at most \<open>limit\<close> entries.\<close>

definition list_record ::
  "nat \<Rightarrow> cache_key \<Rightarrow> observation \<Rightarrow> (cache_key \<times> observation) list \<Rightarrow> (cache_key \<times> observation) list"
where
  "list_record limit key e xs =
     (let ys = filter (\<lambda>x. fst x \<noteq> key) xs @ [(key, e)] in drop (length ys - limit) ys)"

definition new_observation :: "cache_inventory \<Rightarrow> rust_string \<Rightarrow> nat \<Rightarrow> nat \<Rightarrow> nat \<Rightarrow> nat \<Rightarrow> nat \<Rightarrow> observation" where
  "new_observation ci model matched suff restore queue observed_at =
     \<lparr>ob_matched_tokens = matched, ob_suffix_prefill_tokens = suff, ob_tier = L1,
      ob_restore_micros = restore, ob_queue_delay_micros = queue,
      ob_prefill_micros_per_token = model_prefill ci model, ob_observed_at = observed_at, ob_order = 0\<rparr>"

lemma model_prefill_cong: "in_model_prefill ci = in_model_prefill ci' \<Longrightarrow> model_prefill ci = model_prefill ci'"
  by (simp add: model_prefill_def fun_eq_iff)

lemma record_refines:
  fixes now observed_at suff restore queue :: nat and model :: rust_string and prefix_hash :: u64
  assumes ok: "inventory_ok t ci" and time: "t \<le> observed_at" and m: "matched \<noteq> 0"
  defines "key \<equiv> \<lparr>ck_model = model, ck_prefix_hash = prefix_hash\<rparr>"
  defines "ci' \<equiv> record_l1_hit_with_cost now observed_at model prefix_hash matched suff restore queue ci"
  shows "recency ci' = list_record (in_max_entries ci) key
      (new_observation ci model matched suff restore queue observed_at)
      (filter (alive now (in_ttl ci)) (recency ci))"
    and "inventory_ok observed_at ci'"
    and "in_max_entries ci' = in_max_entries ci" and "in_ttl ci' = in_ttl ci"
    and "in_epoch ci' = (let pruned = prune_expired now ci in
      if semantic_change pruned key matched suff restore queue then sat_add (in_epoch pruned) 1 else in_epoch pruned)"
proof -
  define c1 where "c1 = prune_expired now ci"
  note p = prune_expired_ok [OF ok, of now, folded c1_def]
  note w = without_ok [OF p(1), of key]
  obtain n c3 where o: "take_order (without key c1) = (n, c3)" "lru_ok (in_entries c3) (in_lru c3)"
    "recency c3 = recency (without key c1)" "map fst (in_entries c3) = map fst (in_entries (without key c1))"
    "\<forall>x \<in> set (in_lru c3). fst x < n" "n < U64_MAX" "in_next_order c3 = n + 1"
    "in_max_entries c3 = in_max_entries ci" "in_ttl c3 = in_ttl ci" "in_epoch c3 = in_epoch c1"
    "in_model_prefill c3 = in_model_prefill ci"
    using take_order_ok [OF w(2)] p(3,4,5) by auto
  have absent: "bt_get (in_entries c3) key = None"
    using w(3) o(4) by (simp only: bt_get_None_iff) simp
  define e where "e = (new_observation ci model matched suff restore queue observed_at)\<lparr>ob_order := n\<rparr>"
  have eo: "ob_order e = n" by (simp add: e_def)
  note a = lru_ok_append [OF o(2) absent o(5) eo]
  let ?E = "hl_put key e (in_entries c3)" and ?L = "bt_insert n key (in_lru c3)"
  obtain entries lru where ev: "inventory_evict_loop (in_max_entries ci) ?L ?E = (entries, lru)" "lru_ok entries lru"
    "set lru \<subseteq> set ?L" "length lru \<le> in_max_entries ci"
    "recency_of entries lru = drop (length ?L - in_max_entries ci) (recency_of ?E ?L)"
    using inventory_evict_loop_recency [OF a(1)] by blast
  define change where "change = semantic_change c1 key matched suff restore queue"
  have mp: "model_prefill c3 model = model_prefill ci model" using o(11) by (simp add: model_prefill_def)
  have ci': "ci' = c3\<lparr>in_entries := entries, in_lru := lru,
      in_epoch := (if change then sat_add (in_epoch c1) 1 else in_epoch c1)\<rparr>"
    unfolding ci'_def record_l1_hit_with_cost_def key_def [symmetric] c1_def [symmetric]
    using m o(1,8,10) ev(1)
    by (simp add: Let_def without_def [symmetric] change_def [symmetric] mp e_def new_observation_def)
  have prefix: "recency_of (in_entries c3) (in_lru c3) =
      filter (\<lambda>x. fst x \<noteq> key) (filter (alive now (in_ttl ci)) (recency ci))"
    using o(3) w(1) p(2) by (simp add: recency_def)
  have new: "unordered e = new_observation ci model matched suff restore queue observed_at"
    by (simp add: e_def) (simp add: unordered_def new_observation_def)
  have whole: "recency_of ?E ?L = filter (\<lambda>x. fst x \<noteq> key) (filter (alive now (in_ttl ci)) (recency ci)) @
      [(key, new_observation ci model matched suff restore queue observed_at)]"
    using a(2) prefix new by simp
  have "length ?L = length (recency_of ?E ?L)" by (simp add: recency_of_def)
  then show rec: "recency ci' = list_record (in_max_entries ci) key
      (new_observation ci model matched suff restore queue observed_at)
      (filter (alive now (in_ttl ci)) (recency ci))"
    using ev(5) unfolding whole by (simp add: ci' recency_def list_record_def Let_def)
  show "in_max_entries ci' = in_max_entries ci" "in_ttl ci' = in_ttl ci" using o(8,9) by (simp_all add: ci')
  show "in_epoch ci' = (let pruned = prune_expired now ci in
      if semantic_change pruned key matched suff restore queue then sat_add (in_epoch pruned) 1 else in_epoch pruned)"
    by (simp add: ci' change_def c1_def Let_def)
  let ?xs = "filter (\<lambda>x. fst x \<noteq> key) (filter (alive now (in_ttl ci)) (recency ci)) @
      [(key, new_observation ci model matched suff restore queue observed_at)]"
  have old: "\<forall>k e. (k, e) \<in> set (recency ci) \<longrightarrow> ob_observed_at e \<le> observed_at"
    using ok time by (fastforce simp: inventory_ok_def)
  have t1: "in_time_order ?xs" and t2: "\<forall>x \<in> set ?xs. ob_observed_at (snd x) \<le> observed_at"
    using old ok
    by (auto simp: inventory_ok_def new_observation_def intro!: in_time_order_snoc in_time_order_filter)
  have r: "recency ci' = drop (length ?xs - in_max_entries ci) ?xs"
    unfolding rec list_record_def Let_def ..
  have "in_time_order (recency ci')" unfolding r by (rule in_time_order_drop [OF t1])
  moreover have "\<forall>x \<in> set (recency ci'). ob_observed_at (snd x) \<le> observed_at"
    using t2 unfolding r by (blast dest: in_set_dropD)
  moreover have "\<forall>x \<in> set lru. fst x < n + 1"
  proof
    fix x
    assume "x \<in> set lru"
    then have "x = (n, key) \<or> x \<in> set (in_lru c3)" using ev(3) a(3) by blast
    then show "fst x < n + 1" using o(5) by (metis fst_conv less_Suc_eq Suc_eq_plus1)
  qed
  ultimately show "inventory_ok observed_at ci'"
    using ev(2,4) lru_ok_length [OF ev(2)] o(6,7,8,11) ok by (simp add: inventory_ok_def ci')
qed

text \<open>Reading evidence: the lookup in the hash map is the lookup in the list.\<close>

lemma get_recency:
  assumes "lru_ok (in_entries ci) (in_lru ci)"
  shows "map_option unordered (bt_get (in_entries ci) key) = map_of (recency ci) key"
proof -
  have g: "bt_get (in_entries ci) (snd x) \<noteq> None" if "x \<in> set (in_lru ci)" for x
    using lru_ok_mem [OF assms that] by auto
  have f: "map_of (recency_of (in_entries ci) lru) key =
      (if key \<in> set (map snd lru) then Some (unordered (obs_of (in_entries ci) key)) else None)" for lru
    by (induction lru) (auto simp: recency_of_def)
  show ?thesis
  proof (cases "bt_get (in_entries ci) key")
    case None
    then have "key \<notin> set (map snd (in_lru ci))" using lru_ok_keys [OF assms] by (simp add: bt_get_None_iff)
    then show ?thesis unfolding recency_def f using None by simp
  next
    case (Some e)
    then have "key \<in> set (map snd (in_lru ci))" using lru_ok_get [OF assms Some] by force
    then show ?thesis unfolding recency_def f using Some by (simp add: obs_of_def)
  qed
qed

lemma invalidate_refines:
  fixes model :: rust_string and prefix_hash :: u64
  assumes ok: "inventory_ok t ci"
  defines "key \<equiv> \<lparr>ck_model = model, ck_prefix_hash = prefix_hash\<rparr>"
  shows "recency (snd (invalidate_key model prefix_hash ci)) = filter (\<lambda>x. fst x \<noteq> key) (recency ci)"
    and "fst (invalidate_key model prefix_hash ci) \<longleftrightarrow> map_of (recency ci) key \<noteq> None"
    and "inventory_ok t (snd (invalidate_key model prefix_hash ci))"
    and "in_max_entries (snd (invalidate_key model prefix_hash ci)) = in_max_entries ci"
    and "in_ttl (snd (invalidate_key model prefix_hash ci)) = in_ttl ci"
proof -
  have l: "lru_ok (in_entries ci) (in_lru ci)" using ok by (simp add: inventory_ok_def)
  have s: "snd (invalidate_key model prefix_hash ci) =
      (without key ci)\<lparr>in_epoch := (if bt_get (in_entries ci) key = None then in_epoch ci else sat_add (in_epoch ci) 1)\<rparr>"
    by (simp add: invalidate_key_def without_def key_def Let_def split: option.split)
  have r: "recency (x\<lparr>in_epoch := n\<rparr>) = recency x" "inventory_ok t (x\<lparr>in_epoch := n\<rparr>) = inventory_ok t x" for x n
    by (simp_all add: recency_def inventory_ok_def)
  show "recency (snd (invalidate_key model prefix_hash ci)) = filter (\<lambda>x. fst x \<noteq> key) (recency ci)"
    "inventory_ok t (snd (invalidate_key model prefix_hash ci))"
    using without_ok(1,2) [OF ok, of key] by (simp_all add: s r)
  show "in_max_entries (snd (invalidate_key model prefix_hash ci)) = in_max_entries ci"
    "in_ttl (snd (invalidate_key model prefix_hash ci)) = in_ttl ci" by (simp_all add: s)
  show "fst (invalidate_key model prefix_hash ci) \<longleftrightarrow> map_of (recency ci) key \<noteq> None"
    using get_recency [OF l, of key, symmetric]
    by (cases "bt_get (in_entries ci) key") (auto simp: invalidate_key_def key_def [symmetric] Let_def)
qed

end
