(* ===== verification/RoutingProperties.thy ===== *)
theory RoutingProperties
  imports Routing InventoryRefinement
begin

unbundle bit_operations_syntax

text \<open>
  The properties of the mesh router: the inventory of cache evidence as a bounded list in recency
  order, its epoch and what a peer finds in its advertisement, the choice of the cheapest cached
  target, the fairness of the round robin, the completeness of the order of remote targets, and
  what the request keys depend on.
\<close>

section \<open>Runs of the inventory\<close>

lemma probe_state: "snd (probe_local now model prefix_hash ci) = prune_expired now ci"
  by (simp add: probe_local_def Let_def)

lemma advertise_state: "snd (advertisement b3 now salt generated ci) = prune_expired now ci"
  by (simp add: advertisement_def Let_def)

lemma observe_fields:
  "recency (observe_prefill_cost model micros ci) = recency ci"
  "in_max_entries (observe_prefill_cost model micros ci) = in_max_entries ci"
  "in_ttl (observe_prefill_cost model micros ci) = in_ttl ci"
  by (simp_all add: observe_prefill_cost_def recency_def)

lemma observe_inventory_ok: "inventory_ok t ci \<Longrightarrow> inventory_ok t (observe_prefill_cost model micros ci)"
  by (auto simp: inventory_ok_def observe_prefill_cost_def recency_def hl_put_def bt_get_None_iff)

lemma record_nothing [simp]:
  "record_l1_hit_with_cost now observed_at model prefix_hash 0 suff restore queue ci = ci"
  by (simp add: record_l1_hit_with_cost_def)

text \<open>A run from the default inventory: its invariant and its fixed limits.\<close>

definition run_ok :: "nat \<times> cache_inventory \<Rightarrow> bool" where
  "run_ok s \<longleftrightarrow> inventory_ok (fst s) (snd s) \<and> in_max_entries (snd s) = CACHE_AFFINITY_MAX_ENTRIES \<and>
     in_ttl (snd s) = CACHE_AFFINITY_TTL"

lemma run_step:
  assumes "inventory_step s s'" and "run_ok s"
  shows "run_ok s'"
  using assms
proof (cases rule: inventory_step.cases)
  case (recorded t now observed_at ci model prefix_hash matched suff restore queue)
  have ok: "inventory_ok t ci" and f: "in_max_entries ci = CACHE_AFFINITY_MAX_ENTRIES" "in_ttl ci = CACHE_AFFINITY_TTL"
    using assms(2) recorded by (simp_all add: run_ok_def)
  have time: "t \<le> observed_at" using recorded by simp
  show ?thesis
  proof (cases "matched = 0")
    case True
    then show ?thesis using recorded inventory_ok_later [OF ok time] f by (simp add: run_ok_def)
  next
    case False
    note r = record_refines(2-4) [OF ok time False, where now = now and model = model and
        prefix_hash = prefix_hash and suff = suff and restore = restore and queue = queue]
    then show ?thesis using recorded f by (simp add: run_ok_def)
  qed
next
  case (invalidated t ci model prefix_hash)
  then show ?thesis using assms(2) invalidate_refines(3-5) [of t ci model prefix_hash] by (simp add: run_ok_def)
next
  case (probed t now ci model prefix_hash)
  then show ?thesis
    using assms(2) prune_expired_ok(1,3,4) [of t ci now] inventory_ok_later [of t "prune_expired now ci" now]
    by (simp add: run_ok_def probe_state)
next
  case (advertised t now ci b3 salt generated_at)
  then show ?thesis
    using assms(2) prune_expired_ok(1,3,4) [of t ci now] inventory_ok_later [of t "prune_expired now ci" now]
    by (simp add: run_ok_def advertise_state)
next
  case (observed t ci model micros)
  then show ?thesis using assms(2) by (simp add: run_ok_def observe_inventory_ok observe_fields)
qed

interpretation inventory_run:
  step_invariant "\<lambda>s. s = (0, cache_inventory_default)" inventory_step run_ok
proof
  show "run_ok s" if "s = (0, cache_inventory_default)" for s
    using that inventory_ok_default by (simp add: run_ok_def) (simp add: cache_inventory_default_def)
  show "run_ok s'" if "run_ok s" "inventory_step s s'" for s s'
    using run_step [OF that(2,1)] .
qed

abbreviation inventory_run :: "nat \<Rightarrow> cache_inventory \<Rightarrow> bool" where
  "inventory_run t ci \<equiv> inventory_step\<^sup>*\<^sup>* (0, cache_inventory_default) (t, ci)"

lemma run_invariant:
  assumes "inventory_run t ci"
  shows "inventory_ok t ci" and "in_max_entries ci = CACHE_AFFINITY_MAX_ENTRIES" and "in_ttl ci = CACHE_AFFINITY_TTL"
  using inventory_run.reachable_inv [OF refl assms] by (simp_all add: run_ok_def)

section \<open>The inventory\<close>

text \<open>
  (C10) In every run of the inventory, recording a hit does to the evidence, read in recency order,
  what a list of at most 128 entries would: the expired entries are dropped, the key's old entry is
  removed, the new one is appended, and the oldest ones are dropped beyond the limit. The hash map,
  the tree of order numbers and their renumbering do not show.
\<close>

theorem inventory_is_recency_list:
  assumes "inventory_run t ci" and "t \<le> observed_at" and "matched \<noteq> 0"
  shows "recency (record_l1_hit_with_cost now observed_at model prefix_hash matched suff restore queue ci) =
    list_record CACHE_AFFINITY_MAX_ENTRIES \<lparr>ck_model = model, ck_prefix_hash = prefix_hash\<rparr>
      (new_observation ci model matched suff restore queue observed_at)
      (filter (alive now CACHE_AFFINITY_TTL) (recency ci))"
  using record_refines(1) [OF run_invariant(1) [OF assms(1)] assms(2,3)] run_invariant(2,3) [OF assms(1)]
  by simp

lemma inventory_is_recency_list_witness:
  "recency (record_l1_hit_with_cost 5 6 [109] 7 512 32 0 10 cache_inventory_default) =
    list_record CACHE_AFFINITY_MAX_ENTRIES \<lparr>ck_model = [109], ck_prefix_hash = 7\<rparr>
      (new_observation cache_inventory_default [109] 512 32 0 10 6)
      (filter (alive 5 CACHE_AFFINITY_TTL) (recency cache_inventory_default))"
  by (rule inventory_is_recency_list [where t = 0]) simp_all

text \<open>What a lookup shows of the stored evidence: everything but its age and order number.\<close>

definition shown :: "observation \<Rightarrow> nat \<times> nat \<times> cache_tier \<times> nat \<times> nat \<times> nat" where
  "shown e = (ob_matched_tokens e, ob_suffix_prefill_tokens e, ob_tier e, ob_restore_micros e,
     ob_queue_delay_micros e, ob_prefill_micros_per_token e)"

definition evidence :: "cache_inventory \<Rightarrow> cache_key \<Rightarrow> (nat \<times> nat \<times> cache_tier \<times> nat \<times> nat \<times> nat) option" where
  "evidence ci key = map_option shown (bt_get (in_entries ci) key)"

lemma evidence_recency: "inventory_ok t ci \<Longrightarrow> evidence ci key = map_option shown (map_of (recency ci) key)"
proof -
  assume "inventory_ok t ci"
  then have "map_of (recency ci) key = map_option unordered (bt_get (in_entries ci) key)"
    using get_recency [of ci key] by (simp add: inventory_ok_def)
  moreover have "shown (unordered e) = shown e" for e by (simp add: shown_def unordered_def)
  ultimately show ?thesis by (simp add: evidence_def option.map_comp comp_def)
qed

lemma evidence_cong: "inventory_ok t ci \<Longrightarrow> inventory_ok t' ci' \<Longrightarrow> recency ci' = recency ci \<Longrightarrow> evidence ci' = evidence ci"
  by (auto simp: evidence_recency fun_eq_iff)

lemma sat_add_one_neq: "n < U64_MAX \<Longrightarrow> sat_add n 1 \<noteq> n"
  by (simp add: sat_add_def min_def)

lemma pruned_epoch:
  assumes "inventory_ok t ci" and "in_epoch ci < U64_MAX"
  shows "in_epoch ci \<le> in_epoch (prune_expired now ci)"
    and "in_epoch (prune_expired now ci) = in_epoch ci \<Longrightarrow> recency (prune_expired now ci) = recency ci"
  using prune_expired_ok(6) [OF assms(1), of now] assms(2) sat_add_one_neq [OF assms(2)]
  by (auto simp: sat_add_def split: if_splits)

lemma filter_neq_length:
  "distinct (map fst xs) \<Longrightarrow> key \<in> set (map fst xs) \<Longrightarrow> Suc (length (filter (\<lambda>x. fst x \<noteq> key) xs)) = length xs"
proof (induction xs)
  case (Cons x xs)
  show ?case
  proof (cases "fst x = key")
    case True
    then have "key \<notin> fst ` set xs" using Cons.prems(1) by auto
    then have "\<forall>y \<in> set xs. fst y \<noteq> key" by (metis image_eqI)
    then have "filter (\<lambda>y. fst y \<noteq> key) xs = xs" by (simp add: filter_id_conv)
    then show ?thesis using True by simp
  next
    case False
    then show ?thesis using Cons by auto
  qed
qed simp

lemma map_of_filter_neq: "map_of (filter (\<lambda>x. fst x \<noteq> key) xs) k = (if k = key then None else map_of xs k)"
  by (induction xs) auto

lemma recency_keys: "map fst (recency ci) = map snd (in_lru ci)"
  by (simp add: recency_def recency_of_def comp_def)

text \<open>Recording what is already stored changes nothing that a lookup shows.\<close>

lemma record_same_evidence:
  assumes ok: "inventory_ok t ci" and time: "t \<le> observed_at" and m: "matched \<noteq> 0"
    and epoch: "in_epoch ci < U64_MAX"
    and same: "in_epoch (record_l1_hit_with_cost now observed_at model prefix_hash matched suff restore queue ci) =
      in_epoch ci" (is "in_epoch ?ci' = _")
  shows "evidence ?ci' = evidence ci"
proof -
  let ?key = "\<lparr>ck_model = model, ck_prefix_hash = prefix_hash\<rparr>" and ?p = "prune_expired now ci"
  let ?e = "new_observation ci model matched suff restore queue observed_at"
  note r = record_refines [OF ok time m, where now = now and model = model and
      prefix_hash = prefix_hash and suff = suff and restore = restore and queue = queue]
  have pe: "in_epoch ?p = in_epoch ci" and nc: "\<not> semantic_change ?p ?key matched suff restore queue"
    using r(5) same pruned_epoch(1) [OF ok epoch, of now] epoch
    by (auto simp: Let_def sat_add_def min_def split: if_splits)
  note prune = prune_expired_ok [OF ok, of now]
  have keep: "recency ?p = recency ci" by (rule pruned_epoch(2) [OF ok epoch pe])
  obtain old where old: "bt_get (in_entries ?p) ?key = Some old" and sh: "shown old = shown ?e"
    using nc prune(5)
    by (auto simp: semantic_change_def shown_def new_observation_def model_prefill_def split: option.splits)
  have ev: "evidence ci ?key = Some (shown ?e)"
    using fun_cong [OF evidence_cong [OF ok prune(1) keep], of ?key] old sh by (simp add: evidence_def)
  let ?xs = "recency ci"
  have l: "lru_ok (in_entries ci) (in_lru ci)" using ok by (simp add: inventory_ok_def)
  have d: "distinct (map fst ?xs)" unfolding recency_keys by (rule lru_ok_distinct_keys [OF l])
  have k: "?key \<in> set (map fst ?xs)"
    using ev evidence_recency [OF ok, of ?key] by (auto simp: map_of_eq_None_iff dest: map_of_SomeD)
      (metis map_of_SomeD fst_conv image_eqI)
  have len: "length ?xs \<le> in_max_entries ci"
    using ok lru_ok_length [OF l] by (simp add: inventory_ok_def)
  have alive: "filter (alive now (in_ttl ci)) ?xs = ?xs" using prune(2) keep by simp
  have "recency ?ci' = list_record (in_max_entries ci) ?key ?e ?xs" using r(1) unfolding alive .
  then have "recency ?ci' = filter (\<lambda>x. fst x \<noteq> ?key) ?xs @ [(?key, ?e)]"
    using filter_neq_length [OF d k] len by (simp add: list_record_def)
  then have m': "map_of (recency ?ci') k = (if k = ?key then Some ?e else map_of ?xs k)" for k
    by (auto simp: map_add_def map_of_filter_neq split: option.split)
  show ?thesis
  proof
    fix k
    show "evidence ?ci' k = evidence ci k"
      using ev evidence_recency [OF r(2), of k] evidence_recency [OF ok, of k] m' [of k] by auto
  qed
qed

text \<open>
  (C24) The epoch tracks the evidence: when a call leaves the epoch as it is, below its maximum, it
  leaves every piece of evidence as it is, up to its age. A peer that sees the same epoch misses
  nothing.
\<close>

theorem epoch_tracks_evidence:
  assumes run: "inventory_run t ci" and step: "inventory_step (t, ci) (t', ci')"
    and epoch: "in_epoch ci' = in_epoch ci" "in_epoch ci < U64_MAX"
  shows "evidence ci' = evidence ci"
proof -
  note ok = run_invariant(1) [OF run]
  have prune: "evidence (prune_expired now ci) = evidence ci" if "in_epoch (prune_expired now ci) = in_epoch ci" for now
    using evidence_cong [OF ok prune_expired_ok(1) [OF ok] pruned_epoch(2) [OF ok epoch(2) that]] .
  show ?thesis
    using step
  proof (cases rule: inventory_step.cases)
    case (recorded now model prefix_hash matched suff restore queue)
    then show ?thesis
      using record_same_evidence [OF ok _ _ epoch(2)] epoch(1) by (cases "matched = 0") auto
  next
    case (invalidated model prefix_hash)
    then show ?thesis
      using epoch sat_add_one_neq [OF epoch(2)] by (auto simp: invalidate_key_def Let_def split: option.splits)
  next
    case (probed now)
    then show ?thesis using prune epoch(1) by (simp add: probe_state)
  next
    case (advertised now)
    then show ?thesis using prune epoch(1) by (simp add: advertise_state)
  next
    case (observed model micros)
    then show ?thesis by (auto simp: evidence_def observe_prefill_cost_def)
  qed
qed

lemma epoch_tracks_evidence_witness:
  "evidence (observe_prefill_cost [109] 750 cache_inventory_default) = evidence cache_inventory_default"
proof (rule epoch_tracks_evidence)
  show "inventory_run 0 cache_inventory_default" by simp
  show "inventory_step (0, cache_inventory_default) (0, observe_prefill_cost [109] 750 cache_inventory_default)"
    by (rule inventory_step.observed)
  show "in_epoch (observe_prefill_cost [109] 750 cache_inventory_default) = in_epoch cache_inventory_default"
    by (simp add: observe_prefill_cost_def cache_inventory_default_def)
  show "in_epoch cache_inventory_default < U64_MAX" by (simp add: cache_inventory_default_def)
qed

section \<open>Advertisements\<close>

lemma find_unique: "\<forall>x \<in> set xs. P x \<longleftrightarrow> x = a \<Longrightarrow> find P xs = (if a \<in> set xs then Some a else None)"
  by (induction xs) auto

lemma find_map_eq: "find P (map f xs) = map_option f (find (\<lambda>x. P (f x)) xs)"
  by (induction xs) auto

lemma map_filter_all: "\<forall>x \<in> set xs. f x = Some (g x) \<Longrightarrow> List.map_filter f xs = map g xs"
  by (induction xs) (auto simp: List.map_filter_simps)

lemma advertised_entries:
  assumes "lru_ok (in_entries (prune_expired now ci)) (in_lru (prune_expired now ci))"
  shows "ad_entries (fst (advertisement b3 now salt generated ci)) =
    map (\<lambda>key. entry_of key (prefix_digest b3 salt (ck_model key) (ck_prefix_hash key))
        (obs_of (in_entries (prune_expired now ci)) key)) (rev (map snd (in_lru (prune_expired now ci))))"
proof -
  let ?p = "prune_expired now ci"
  have "(case x of (_, key) \<Rightarrow> map_option (entry_of key (prefix_digest b3 salt (ck_model key) (ck_prefix_hash key)))
      (bt_get (in_entries ?p) key)) =
      Some (entry_of (snd x) (prefix_digest b3 salt (ck_model (snd x)) (ck_prefix_hash (snd x)))
        (obs_of (in_entries ?p) (snd x)))" if "x \<in> set (rev (in_lru ?p))" for x
    using lru_ok_mem [OF assms, of x] that by (auto simp: obs_of_def split: prod.split)
  then show ?thesis
    by (simp add: advertisement_def Let_def map_filter_all rev_map comp_def)
qed

text \<open>
  A fresh advertisement answers a peer's probe with what the node's own probe answers, under
  the digest of the probed prefix, as long as the digest of the probed prefix is not also that of
  another stored prefix of the model.
\<close>

theorem peer_probe_agrees:
  assumes run: "inventory_run t ci" and fresh: "is_fresh_at (fst (advertisement b3 now salt generated ci)) later"
    and no_collision: "\<forall>key. bt_get (in_entries ci) key \<noteq> None \<and> ck_model key = model \<and>
      prefix_digest b3 salt model (ck_prefix_hash key) = prefix_digest b3 salt model prefix_hash \<longrightarrow>
      ck_prefix_hash key = prefix_hash"
  shows "ad_probe b3 (fst (advertisement b3 now salt generated ci)) model prefix_hash later =
    map_option (\<lambda>e. e\<lparr>ce_prefix_digest := prefix_digest b3 salt model prefix_hash\<rparr>)
      (fst (probe_local now model prefix_hash ci))"
proof -
  let ?p = "prune_expired now ci" and ?key = "\<lparr>ck_model = model, ck_prefix_hash = prefix_hash\<rparr>"
  let ?keys = "rev (map snd (in_lru ?p))"
  note ok = run_invariant(1) [OF run]
  note prune = prune_expired_ok(1,2) [OF ok, of now]
  have l: "lru_ok (in_entries ci) (in_lru ci)" and lp: "lru_ok (in_entries ?p) (in_lru ?p)"
    using ok prune(1) by (simp_all add: inventory_ok_def)
  have mem: "bt_get (in_entries ci) key \<noteq> None" if "key \<in> set ?keys" for key
  proof -
    have "key \<in> set (map fst (recency ?p))" using that by (simp add: recency_keys)
    then have "key \<in> set (map fst (recency ci))" using prune(2) by auto
    then have "key \<in> set (map fst (in_entries ci))" using lru_ok_keys [OF l] by (simp add: recency_keys)
    then show ?thesis by (simp only: bt_get_None_iff) simp
  qed
  let ?f = "\<lambda>key. entry_of key (prefix_digest b3 salt (ck_model key) (ck_prefix_hash key))
      (obs_of (in_entries ?p) key)"
  have pred: "(ce_model (?f key) = model \<and> ce_prefix_digest (?f key) = prefix_digest b3 salt model prefix_hash) \<longleftrightarrow>
      key = ?key" if "key \<in> set ?keys" for key
    using no_collision mem [OF that] by (cases key) (auto simp: entry_of_def)
  have "ad_salt (fst (advertisement b3 now salt generated ci)) = salt"
    by (simp add: advertisement_def Let_def)
  then have "ad_probe b3 (fst (advertisement b3 now salt generated ci)) model prefix_hash later =
      map_option ?f (if ?key \<in> set ?keys then Some ?key else None)"
    using fresh find_unique [of ?keys _ ?key] pred
    by (simp add: ad_probe_def Let_def advertised_entries [OF lp] find_map_eq)
  moreover have "?key \<in> set ?keys \<longleftrightarrow> bt_get (in_entries ?p) ?key \<noteq> None"
    using lru_ok_keys [OF lp] by (simp only: bt_get_None_iff) simp
  ultimately show ?thesis
    by (auto simp: probe_local_def Let_def obs_of_def entry_of_def)
qed

text \<open>One recorded hit, and a hash that keeps the last bytes.\<close>

abbreviation one_hit :: cache_inventory where
  "one_hit \<equiv> record_l1_hit_with_cost 2 2 [109] 7 512 32 0 10 cache_inventory_default"

abbreviation last_bytes :: blake3 where
  "last_bytes \<equiv> \<lparr>b3_hash = id, b3_keyed = \<lambda>k bs. rev bs\<rparr>"

lemma one_hit_run: "inventory_run 2 one_hit"
  by (rule r_into_rtranclp, rule inventory_step.recorded) simp_all

section \<open>The choice by cache evidence\<close>

lemma comparator_cache_order: "comparator (cache_order config) UNIV"
proof -
  have c: "comparator (\<lambda>x y. cmp (f x) (f y)) A" for f :: "nat \<times> 'a target_cache_evidence \<Rightarrow> nat" and A
    by (rule comparator_cmp_key)
  show ?thesis
    unfolding cache_order_def
    by (intro comparator_then_with c comparator_rev
        [of "\<lambda>x y. cmp (ce_matched_tokens (te_entry (snd x))) (ce_matched_tokens (te_entry (snd y)))"])
qed

interpretation cache_order: comparator "cache_order config" UNIV for config
  by (rule comparator_cache_order)

lemma enumerate_mem: "(i, x) \<in> set (enumerate 0 xs) \<longleftrightarrow> i < length xs \<and> xs ! i = x"
  by (auto simp: in_set_enumerate_eq)

lemma cache_candidates_mem:
  "(i, ev) \<in> set (cache_candidates candidates evid config) \<longleftrightarrow>
     i < length candidates \<and> find (\<lambda>item. te_target item = candidates ! i) evid = Some ev \<and> worthwhile config ev"
proof -
  have "(i, ev) \<in> set (cache_candidates candidates evid config) \<longleftrightarrow>
      (\<exists>c. (i, c) \<in> set (enumerate 0 candidates) \<and> find (\<lambda>item. te_target item = c) evid = Some ev \<and> worthwhile config ev)"
    unfolding cache_candidates_def List.map_filter_def
    by (force split: option.splits if_splits)
  then show ?thesis by (simp add: enumerate_mem)
qed

text \<open>
  The estimates in unbounded numbers: what serving the request from the cache of the target takes,
  and when that beats computing the whole prompt there. Exactly then the saturating estimates of
  the code agree.
\<close>

definition micros_per_token :: "cache_aware_config \<Rightarrow> cache_affinity_entry \<Rightarrow> nat" where
  "micros_per_token config e =
     (if ce_prefill_micros_per_token e = 0 then ca_prefill_micros_per_token config
      else ce_prefill_micros_per_token e)"

definition serving_micros :: "cache_aware_config \<Rightarrow> cache_affinity_entry \<Rightarrow> nat" where
  "serving_micros config e =
     ce_queue_delay_micros e + ce_restore_micros e + ce_suffix_prefill_tokens e * micros_per_token config e"

definition pays_off :: "cache_aware_config \<Rightarrow> cache_affinity_entry \<Rightarrow> bool" where
  "pays_off config e \<longleftrightarrow> ca_min_saved_tokens config \<le> ce_matched_tokens e \<and>
     ce_queue_delay_micros e + ce_restore_micros e < ce_matched_tokens e * micros_per_token config e \<and>
     serving_micros config e < U64_MAX"

lemma sat_mul_sum: "sat_mul (sat_add a b) r = min U64_MAX ((a + b) * r)"
proof (cases "a + b \<le> U64_MAX \<or> r = 0")
  case True
  then show ?thesis by (auto simp: sat_mul_def sat_add_def)
next
  case False
  then have "U64_MAX * 1 \<le> U64_MAX * r" "U64_MAX * 1 \<le> (a + b) * r" by (intro mult_le_mono; simp)+
  then show ?thesis using False by (simp add: sat_mul_def sat_add_def min_def)
qed

lemma estimated_cost_exact: "estimated_cost_micros config ev = min U64_MAX (serving_micros config (te_entry ev))"
  by (simp add: estimated_cost_micros_def Let_def serving_micros_def prefill_rate_def micros_per_token_def
      sat_add_def sat_mul_def min_def)

lemma worthwhile_iff_pays_off: "worthwhile config ev \<longleftrightarrow> pays_off config (te_entry ev)"
proof -
  let ?e = "te_entry ev"
  let ?cold = "(ce_matched_tokens ?e + ce_suffix_prefill_tokens ?e) * micros_per_token config ?e"
  have "worthwhile config ev \<longleftrightarrow> ca_min_saved_tokens config \<le> ce_matched_tokens ?e \<and>
      min U64_MAX (serving_micros config ?e) < min U64_MAX ?cold"
    unfolding worthwhile_def estimated_cost_exact sat_mul_sum by (simp add: prefill_rate_def micros_per_token_def)
  also have "min U64_MAX (serving_micros config ?e) < min U64_MAX ?cold \<longleftrightarrow>
      serving_micros config ?e < U64_MAX \<and> serving_micros config ?e < ?cold" by auto
  also have "serving_micros config ?e < ?cold \<longleftrightarrow>
      ce_queue_delay_micros ?e + ce_restore_micros ?e < ce_matched_tokens ?e * micros_per_token config ?e"
    by (simp add: serving_micros_def add_mult_distrib)
  finally show ?thesis by (auto simp: pays_off_def)
qed

text \<open>The evidence that counts for a candidate: the first one about its target.\<close>

abbreviation evidence_for :: "'id target_cache_evidence list \<Rightarrow> 'id inference_target \<Rightarrow> 'id target_cache_evidence option" where
  "evidence_for evid candidate \<equiv> find (\<lambda>item. te_target item = candidate) evid"

lemma cache_order_best:
  assumes "cache_order config (i, ev) (j, other) \<noteq> Greater"
    and "pays_off config (te_entry ev)" and "pays_off config (te_entry other)"
  shows "serving_micros config (te_entry ev) < serving_micros config (te_entry other) \<or>
    serving_micros config (te_entry ev) = serving_micros config (te_entry other) \<and>
      (ce_matched_tokens (te_entry other) < ce_matched_tokens (te_entry ev) \<or>
       ce_matched_tokens (te_entry other) = ce_matched_tokens (te_entry ev) \<and> i \<le> j)"
proof -
  have "estimated_cost_micros config ev = serving_micros config (te_entry ev)"
    "estimated_cost_micros config other = serving_micros config (te_entry other)"
    using assms(2,3) by (simp_all add: estimated_cost_exact pays_off_def)
  then show ?thesis using assms(1) by (auto simp: cache_order_def split: if_splits)
qed

text \<open>
  (C25) The choice by cache evidence. A candidate's evidence pays off when it saves the configured
  number of tokens and the queueing and the restore together take less time than prefilling the
  matched tokens would. The chosen evidence is a candidate's, pays off, and is the best of those that do:
  it takes the least time, among equals it has the most matched tokens, among equals it is the
  earliest candidate's. There is no choice only if no candidate has evidence that pays off.
\<close>

theorem cache_target_is_best:
  "case select_cache_target candidates evid config of
     None \<Rightarrow> \<forall>j < length candidates. \<forall>other.
       evidence_for evid (candidates ! j) = Some other \<longrightarrow> \<not> pays_off config (te_entry other)
   | Some ev \<Rightarrow> \<exists>i < length candidates. evidence_for evid (candidates ! i) = Some ev \<and>
       pays_off config (te_entry ev) \<and>
       (\<forall>j < length candidates. \<forall>other. evidence_for evid (candidates ! j) = Some other \<longrightarrow>
          pays_off config (te_entry other) \<longrightarrow>
          serving_micros config (te_entry ev) < serving_micros config (te_entry other) \<or>
          serving_micros config (te_entry ev) = serving_micros config (te_entry other) \<and>
            (ce_matched_tokens (te_entry other) < ce_matched_tokens (te_entry ev) \<or>
             ce_matched_tokens (te_entry other) = ce_matched_tokens (te_entry ev) \<and> i \<le> j))"
proof (cases "min_by (cache_order config) (cache_candidates candidates evid config)")
  case None
  then have "cache_candidates candidates evid config = []" by simp
  then have "\<not> pays_off config (te_entry other)"
    if "j < length candidates" "evidence_for evid (candidates ! j) = Some other" for j other
    using that cache_candidates_mem [of j other candidates evid config] by (simp add: worthwhile_iff_pays_off)
  then show ?thesis by (simp add: select_cache_target_def None)
next
  case (Some c)
  obtain i ev where c: "c = (i, ev)" by (cases c)
  have b: "(i, ev) \<in> set (cache_candidates candidates evid config)"
    "\<forall>z \<in> set (cache_candidates candidates evid config). cache_order config (i, ev) z \<noteq> Greater"
    using cache_order.min_by_least [OF _ Some] by (auto simp: c)
  then have best: "cache_order config (i, ev) (j, other) \<noteq> Greater"
    if "j < length candidates" "evidence_for evid (candidates ! j) = Some other" "pays_off config (te_entry other)"
    for j other using that by (simp add: cache_candidates_mem worthwhile_iff_pays_off)
  have ev: "i < length candidates" "evidence_for evid (candidates ! i) = Some ev" "pays_off config (te_entry ev)"
    using b(1) by (simp_all add: cache_candidates_mem worthwhile_iff_pays_off)
  show ?thesis
    unfolding select_cache_target_def Some c option.map snd_conv option.case
    using ev cache_order_best [OF best ev(3)] by blast
qed

text \<open>Three cached targets: equal cost and fewer matched tokens, the best one, and one whose queue is too long.\<close>

definition demo_evidence :: "nat \<Rightarrow> nat \<Rightarrow> nat \<Rightarrow> nat \<Rightarrow> nat target_cache_evidence" where
  "demo_evidence target matched uncached queue = \<lparr>te_target = Remote target,
     te_entry = \<lparr>ce_model = [109], ce_prefix_digest = [], ce_matched_tokens = matched,
       ce_suffix_prefill_tokens = uncached, ce_tier = L1, ce_restore_micros = 0,
       ce_queue_delay_micros = queue, ce_prefill_micros_per_token = 10\<rparr>\<rparr>"

abbreviation demo_targets :: "nat target_cache_evidence list" where
  "demo_targets \<equiv> [demo_evidence 0 10 2 0, demo_evidence 1 20 2 0, demo_evidence 2 30 0 400]"

abbreviation demo_routing :: cache_aware_config where
  "demo_routing \<equiv> \<lparr>ca_min_saved_tokens = 5, ca_prefill_micros_per_token = 500\<rparr>"

lemma cache_target_is_best_witness:
  "select_cache_target [Remote 0, Remote 1, Remote (2 :: nat)] demo_targets demo_routing =
     Some (demo_evidence 1 20 2 0)"
proof -
  let ?cs = "[Remote 0, Remote 1, Remote (2 :: nat)]"
  have pays: "pays_off demo_routing (te_entry (demo_evidence 0 10 2 0))"
    "pays_off demo_routing (te_entry (demo_evidence 1 20 2 0))"
    "\<not> pays_off demo_routing (te_entry (demo_evidence 2 30 0 400))"
    "serving_micros demo_routing (te_entry (demo_evidence 0 10 2 0)) = 20"
    "serving_micros demo_routing (te_entry (demo_evidence 1 20 2 0)) = 20"
    by (simp_all add: pays_off_def serving_micros_def micros_per_token_def demo_evidence_def)
  have find: "evidence_for demo_targets (?cs ! 0) = Some (demo_evidence 0 10 2 0)"
    "evidence_for demo_targets (?cs ! 1) = Some (demo_evidence 1 20 2 0)"
    "evidence_for demo_targets (?cs ! 2) = Some (demo_evidence 2 30 0 400)" by (simp_all add: demo_evidence_def)
  have matched: "ce_matched_tokens (te_entry (demo_evidence a b c d)) = b" for a b c d
    by (simp add: demo_evidence_def)
  note best = cache_target_is_best [of ?cs demo_targets demo_routing]
  show ?thesis
  proof (cases "select_cache_target ?cs demo_targets demo_routing")
    case None
    have "\<not> pays_off demo_routing (te_entry (demo_evidence 1 20 2 0))"
      using best [unfolded None option.case, rule_format, OF _ find(2)] by simp
    then show ?thesis using pays by blast
  next
    case (Some ev)
    let ?better = "\<lambda>i j other. serving_micros demo_routing (te_entry ev) < serving_micros demo_routing (te_entry other) \<or>
        serving_micros demo_routing (te_entry ev) = serving_micros demo_routing (te_entry other) \<and>
          (ce_matched_tokens (te_entry other) < ce_matched_tokens (te_entry ev) \<or>
           ce_matched_tokens (te_entry other) = ce_matched_tokens (te_entry ev) \<and> i \<le> j)"
    obtain i where i: "i < length ?cs" "evidence_for demo_targets (?cs ! i) = Some ev" "pays_off demo_routing (te_entry ev)"
      and best': "\<forall>j < length ?cs. \<forall>other. evidence_for demo_targets (?cs ! j) = Some other \<longrightarrow>
        pays_off demo_routing (te_entry other) \<longrightarrow> ?better i j other"
      using best [unfolded Some option.case] by blast
    have "?better i 1 (demo_evidence 1 20 2 0)"
      using best' [rule_format, of 1, OF _ find(2) pays(2)] by simp
    then have least: "ev \<noteq> demo_evidence 0 10 2 0" using pays(4,5) by (auto simp: matched)
    consider "i = 0" | "i = 1" | "i = 2" using i(1) by fastforce
    then show ?thesis
    proof cases
      case 1
      then show ?thesis using i(2) find(1) least by simp
    next
      case 2
      then show ?thesis using i(2) find(2) Some by simp
    next
      case 3
      then show ?thesis using i(2,3) find(3) pays(3) by simp
    qed
  qed
qed

section \<open>The round robin\<close>

primrec round_robin_picks :: "nat \<Rightarrow> 'id inference_target list \<Rightarrow> 'id model_targets \<Rightarrow> 'id inference_target list" where
  "round_robin_picks 0 candidates mt = []"
| "round_robin_picks (Suc n) candidates mt =
     (case pick_from candidates mt of (target, mt') \<Rightarrow> target # round_robin_picks n candidates mt')"

lemma round_robin_indices:
  assumes "cs \<noteq> []" and "unat (mt_counter mt) + n \<le> 2 ^ 64"
  shows "round_robin_picks n cs mt = map (\<lambda>i. cs ! (i mod length cs)) [unat (mt_counter mt)..<unat (mt_counter mt) + n]"
  using assms(2)
proof (induction n arbitrary: mt)
  case 0
  then show ?case by simp
next
  case (Suc n)
  let ?c = "unat (mt_counter mt)"
  show ?case
  proof (cases n)
    case 0
    then show ?thesis using assms(1) by (simp add: pick_from_def)
  next
    case (Suc m)
    then have "?c + 1 < 2 ^ 64" using Suc.prems by simp
    then have inc: "unat (mt_counter mt + 1) = ?c + 1"
      using unat_add_lem [of "mt_counter mt" 1] by simp
    have "round_robin_picks n cs (mt\<lparr>mt_counter := mt_counter mt + 1\<rparr>) =
        map (\<lambda>i. cs ! (i mod length cs)) [?c + 1..<?c + 1 + n]"
      using Suc.IH [of "mt\<lparr>mt_counter := mt_counter mt + 1\<rparr>"] Suc.prems inc by simp
    moreover have "[?c..<?c + Suc n] = ?c # [?c + 1..<?c + 1 + n]"
      by (subst upt_conv_Cons) (simp_all del: upt_Suc)
    ultimately show ?thesis using assms(1) by (simp add: pick_from_def del: upt_Suc)
  qed
qed

lemma upt_mod_mset: "0 < n \<Longrightarrow> image_mset (\<lambda>i. i mod n) (mset [c..<c + n]) = mset [0..<n]"
proof (induction c)
  case 0
  have "image_mset (\<lambda>i. i mod n) (mset [0..<n]) = image_mset id (mset [0..<n])"
    by (intro image_mset_cong) simp
  then show ?case by simp
next
  case (Suc c)
  have "[c..<c + n] = c # [Suc c..<c + n]" using Suc.prems by (intro upt_conv_Cons) simp
  moreover have "[Suc c..<Suc c + n] = [Suc c..<c + n] @ [c + n]" using Suc.prems by simp
  ultimately have "image_mset (\<lambda>i. i mod n) (mset [Suc c..<Suc c + n]) =
      image_mset (\<lambda>i. i mod n) (mset [c..<c + n])" by (simp del: upt_Suc)
  then show ?case using Suc by simp
qed

text \<open>
  The round robin is fair: as long as the shared counter does not wrap around, as many
  consecutive picks as there are candidates pick every candidate exactly once.
\<close>

theorem round_robin_is_fair:
  assumes "candidates \<noteq> []" and "unat (mt_counter mt) + length candidates \<le> 2 ^ 64"
  shows "mset (round_robin_picks (length candidates) candidates mt) = mset candidates"
proof -
  let ?n = "length candidates" and ?c = "unat (mt_counter mt)"
  have "mset (round_robin_picks ?n candidates mt) =
      image_mset ((!) candidates) (image_mset (\<lambda>i. i mod ?n) (mset [?c..<?c + ?n]))"
    by (simp add: round_robin_indices [OF assms] image_mset.compositionality comp_def del: upt_Suc)
  also have "\<dots> = mset (map ((!) candidates) [0..<?n])" 
    using assms(1) by (simp only: upt_mod_mset length_greater_0_conv mset_map not_False_eq_True)
  also have "\<dots> = mset candidates" by (simp only: map_nth)
  finally show ?thesis .
qed

section \<open>Remote targets\<close>

lemma mset_rotated: "mset (rotate n xs) = mset xs"
proof -
  have "mset (rotate n xs) = mset (take (n mod length xs) xs @ drop (n mod length xs) xs)"
    by (simp only: rotate_drop_take mset_append add.commute)
  then show ?thesis by (simp only: append_take_drop_id)
qed

lemma mset_rotate_targets [simp]: "mset (rotate_targets_by_hash xs key) = mset xs"
  by (simp add: rotate_targets_by_hash_def mset_rotated)

lemma move_target_first_spec:
  assumes "target \<in> set xs"
  shows "mset (fst (move_target_first xs target)) = mset xs" and "hd (fst (move_target_first xs target)) = target"
    and "move_target_first xs target = (target # remove1 target xs, True)"
proof -
  let ?pos = "length (takeWhile (\<lambda>c. c \<noteq> target) xs)"
  obtain ys zs where xs: "xs = ys @ target # zs" "target \<notin> set ys" using split_list_first [OF assms] by blast
  have "takeWhile (\<lambda>c. c \<noteq> target) xs = ys"
    using xs(2) by (subst xs(1), subst takeWhile_append2) auto
  then have m: "move_target_first xs target = (target # ys @ zs, True)"
    using assms by (simp add: move_target_first_def xs(1))
  then show "mset (fst (move_target_first xs target)) = mset xs" "hd (fst (move_target_first xs target)) = target"
    by (simp_all add: xs(1))
  show "move_target_first xs target = (target # remove1 target xs, True)"
    using m xs by (simp add: remove1_append)
qed

text \<open>
  Ordering the remote targets loses none and adds none, whatever the keys and the evidence,
  and with prefix affinity enabled the target of the cache evidence, when it is one of the hosts,
  comes first.
\<close>

lemma prepared_targets_complete:
  "mset (pt_ordered (fst (prepare_remote_targets_from_keys prefix_only hosts routing affinity cache_target))) =
     mset (map Remote hosts) \<and>
   (ar_prefix_enabled affinity \<and> cache_target = Some (Remote host) \<and> host \<in> set hosts \<longrightarrow>
    pt_ordered (fst (prepare_remote_targets_from_keys prefix_only hosts routing affinity cache_target)) =
      Remote host # map Remote (remove1 host hosts))"
proof -
  have r: "remove1 (Remote h) (map Remote xs) = map Remote (remove1 h xs)" for h and xs :: "'a list"
    by (induction xs) auto
  have "mset (pt_ordered (fst (prepare_remote_targets_from_keys prefix_only hosts routing affinity cache_target))) =
      mset (map Remote hosts)"
    unfolding prepare_remote_targets_from_keys_def Let_def
    by (auto simp: option_filter_def move_target_first_spec(1) split: option.splits)
  moreover have "pt_ordered (fst (prepare_remote_targets_from_keys prefix_only hosts routing affinity cache_target)) =
      Remote host # map Remote (remove1 host hosts)"
    if "ar_prefix_enabled affinity" "cache_target = Some (Remote host)" "host \<in> set hosts"
    using that move_target_first_spec(3) [of "Remote host" "map Remote hosts"]
    by (simp add: prepare_remote_targets_from_keys_def Let_def option_filter_def r)
  ultimately show ?thesis by blast
qed

section \<open>Selection\<close>

lemma pick_from_mem: "cs \<noteq> [] \<Longrightarrow> fst (pick_from cs mt) \<in> set cs"
  by (simp add: pick_from_def)

lemma pick_sticky_mem: "cs \<noteq> [] \<Longrightarrow> pick_sticky_from cs key \<in> set cs"
  by (simp add: pick_sticky_from_def)

text \<open>The selected target is a candidate; the router's settings stay.\<close>

lemma selected_target_is_candidate:
  assumes "candidates \<noteq> []"
  shows "ts_target (fst (select_model_target_from_keys prefix_only targets candidates routing affinity cache_target))
    \<in> set candidates"
  using pick_from_mem [OF assms] pick_sticky_mem [OF assms]
  unfolding select_model_target_from_keys_def Let_def
  by (auto simp: option_filter_def case_prod_beta split: option.splits)

section \<open>Request keys\<close>

text \<open>Two JSON values that differ in the order of the keys of their objects only.\<close>

inductive same_json :: "json \<Rightarrow> json \<Rightarrow> bool" where
  same: "same_json v v"
| arrays: "list_all2 same_json xs ys \<Longrightarrow> same_json (JArray xs) (JArray ys)"
| objects: "distinct (map fst kvs) \<Longrightarrow> mset kvs = mset kvs' \<Longrightarrow>
     list_all2 (\<lambda>x y. fst x = fst y \<and> same_json (snd x) (snd y)) kvs' kvs'' \<Longrightarrow>
     same_json (JObject kvs) (JObject kvs'')"

lemma sort_key_permuted: "distinct (map fst kvs) \<Longrightarrow> mset kvs = mset kvs' \<Longrightarrow> sort_key fst kvs = sort_key fst kvs'"
  by (rule sort_key_inj_key_eq) (auto simp: distinct_map)

lemma insort_key_all2:
  assumes "list_all2 (\<lambda>x y. fst x = fst y \<and> R x y) xs ys" and "fst x = fst y" and "R x y"
  shows "list_all2 (\<lambda>x y. fst x = fst y \<and> R x y) (insort_key fst x xs) (insort_key fst y ys)"
  using assms by (induction xs ys rule: list_all2_induct) auto

lemma sort_key_all2:
  "list_all2 (\<lambda>x y. fst x = fst y \<and> R x y) xs ys \<Longrightarrow>
   list_all2 (\<lambda>x y. fst x = fst y \<and> R x y) (sort_key fst xs) (sort_key fst ys)"
  by (induction xs ys rule: list_all2_induct) (simp_all add: insort_key_all2)

lemma foldl_all2:
  "list_all2 R xs ys \<Longrightarrow> (\<And>acc x y. R x y \<Longrightarrow> f acc x = f acc y) \<Longrightarrow> foldl f acc xs = foldl f acc ys"
  by (induction xs ys arbitrary: acc rule: list_all2_induct) auto

text \<open>
  (C39) The hash of a JSON value does not depend on the order in which its objects list their keys,
  at any depth: two requests that serialise the same scaffold differently share one prefix hash.
\<close>

theorem json_hash_ignores_key_order:
  assumes "same_json v w"
  shows "hash_json_value acc v = hash_json_value acc w"
  using assms
proof (induction arbitrary: acc rule: same_json.induct)
  case (same v)
  show ?case ..
next
  case (arrays xs ys)
  have "list_all2 (\<lambda>x y. \<forall>acc. hash_json_value acc x = hash_json_value acc y) xs ys"
    using arrays by (rule list_all2_mono) simp
  then have "foldl hash_json_value a xs = foldl hash_json_value a ys" for a
    by (rule foldl_all2) simp
  moreover have "length xs = length ys" using arrays by (rule list_all2_lengthD)
  ultimately show ?case by simp
next
  case (objects kvs kvs' kvs'')
  let ?R = "\<lambda>x y. fst x = fst y \<and> (\<forall>acc. hash_json_value acc (snd x) = hash_json_value acc (snd y))"
  have "list_all2 ?R kvs' kvs''" using objects(3) by (rule list_all2_mono) simp
  then have "list_all2 ?R (sort_key fst kvs') (sort_key fst kvs'')" by (rule sort_key_all2)
  then have "foldl (\<lambda>acc (k, v). hash_json_value (hash_combine acc (hash_bytes k)) v) a (sort_key fst kvs') =
      foldl (\<lambda>acc (k, v). hash_json_value (hash_combine acc (hash_bytes k)) v) a (sort_key fst kvs'')" for a
    by (rule foldl_all2) (simp add: case_prod_beta)
  then show ?case using sort_key_permuted [OF objects(1,2)] by simp
qed

lemma json_hash_ignores_key_order_witness:
  "hash_json_value 0 (JObject [([97], JNull), ([98], JBool True)]) =
   hash_json_value 0 (JObject [([98], JBool True), ([97], JNull)])"
proof (rule json_hash_ignores_key_order, rule same_json.objects)
  show "distinct (map fst [([97] :: rust_string, JNull), ([98], JBool True)])" by simp
  show "mset [([97] :: rust_string, JNull), ([98], JBool True)] = mset [([98], JBool True), ([97], JNull)]" by simp
qed (simp add: same_json.same)

text \<open>
  Cache evidence follows the reusable prefix, not the conversation: for two requests with the
  same explicit cache hint, the same scaffold fields and the same messages up to the first one of
  the user, the prefix hash is the same, whatever their session hints and the rest of their messages.
\<close>

theorem prefix_hash_ignores_conversation:
  assumes hint: "extract_session_hint_from_body b1 cache_keys = extract_session_hint_from_body b2 cache_keys"
    and scaffold: "\<forall>key \<in> set SCAFFOLD_KEYS. json_get b1 key = json_get b2 key"
    and messages: "json_get b1 (ascii_bytes ''messages'') = Some (JArray (pre @ u1 # rest1))"
      "json_get b2 (ascii_bytes ''messages'') = Some (JArray (pre @ u2 # rest2))"
    and user: "json_get u1 (ascii_bytes ''role'') = Some (JString (ascii_bytes ''user''))"
      "json_get u2 (ascii_bytes ''role'') = Some (JString (ascii_bytes ''user''))"
  shows "rk_prefix_hash (routing_keys_of (Some b1) cache_keys session_keys1 False) =
    rk_prefix_hash (routing_keys_of (Some b2) cache_keys session_keys2 False)"
proof -
  have keys: "scaffold_keys_loop b1 ks s = scaffold_keys_loop b2 ks s" if "set ks \<subseteq> set SCAFFOLD_KEYS" for ks s
    using that scaffold by (induction ks arbitrary: s) (auto split: option.split)
  have msgs: "scaffold_messages_loop (pre @ u # rest) s = scaffold_messages_loop (pre @ u' # rest') s"
    if "json_get u (ascii_bytes ''role'') = Some (JString (ascii_bytes ''user''))"
      "json_get u' (ascii_bytes ''role'') = Some (JString (ascii_bytes ''user''))" for u u' rest rest' s
    using that by (induction pre arbitrary: s) (auto simp: Let_def as_str_def ascii_bytes_def split: option.split)
  have m: "scaffold_messages_loop (pre @ u1 # rest1) s = scaffold_messages_loop (pre @ u2 # rest2) s" for s
    by (rule msgs [OF user])
  have "scaffold_prefix_hash_from_body b1 False = scaffold_prefix_hash_from_body b2 False"
    using messages keys [of SCAFFOLD_KEYS]
    by (simp add: scaffold_prefix_hash_from_body_def Let_def as_array_def m)
  then show ?thesis using hint by (simp add: routing_keys_of_def Let_def)
qed

end
