(* ===== verification/Float64.thy ===== *)
theory Float64
  imports Float32
begin

text \<open>
  Rust's \<open>f64\<close> by value, as the admission policy of the cache uses it. A finite number is its
  rational value, with the negative zero apart; every operation rounds its exact result to nearest
  even (\<open>f64_round\<close>) and overflows to an infinity, as IEEE 754 prescribes. The code never looks at the
  bits of a NaN, so there is one NaN. The facts at the end bound a rounded result.
\<close>

section \<open>Values\<close>

datatype f64 = F64_NaN | F64_Inf bool | F64_NegZero | F64_Finite rat

abbreviation F64_ZERO :: f64 where
  "F64_ZERO \<equiv> F64_Finite 0"

abbreviation F64_ONE :: f64 where
  "F64_ONE \<equiv> F64_Finite 1"

fun f64_value :: "f64 \<Rightarrow> rat" where
  "f64_value (F64_Finite v) = v"
| "f64_value _ = 0"

fun f64_neg :: "f64 \<Rightarrow> bool" where
  "f64_neg F64_NaN = False"
| "f64_neg (F64_Inf s) = s"
| "f64_neg F64_NegZero = True"
| "f64_neg (F64_Finite v) = (v < 0)"

fun f64_finite :: "f64 \<Rightarrow> bool" where
  "f64_finite F64_NaN = False"
| "f64_finite (F64_Inf _) = False"
| "f64_finite _ = True"

definition f64_signed_zero :: "bool \<Rightarrow> f64" where
  "f64_signed_zero negative = (if negative then F64_NegZero else F64_ZERO)"

text \<open>The \<open>f64\<close> of a sign and a non-negative exact result.\<close>

definition f64_of_rat :: "bool \<Rightarrow> rat \<Rightarrow> f64" where
  "f64_of_rat negative x =
     (let r = f64_round x
      in if pow2 1024 \<le> r then F64_Inf negative
         else if r = 0 then f64_signed_zero negative
         else F64_Finite (if negative then - r else r))"

text \<open>The same with the limit as a numeral, for evaluation.\<close>

lemma pow2_1024:
  "pow2 1024 = 179769313486231590772930519078902473361797697894230657273430081157732675805500963132708477322407536021120113879871393357658789768814416622492847430639474124377767893424865485276302219601246094119453082952085005768838150682342462881473913110540827237163350510684586298239947245938479716304835356329624224137216"
  by (simp add: pow2_def)

lemmas f64_of_rat_code [code] = f64_of_rat_def [unfolded pow2_1024]

section \<open>Operations\<close>

fun f64_lt :: "f64 \<Rightarrow> f64 \<Rightarrow> bool" where
  "f64_lt F64_NaN _ = False"
| "f64_lt _ F64_NaN = False"
| "f64_lt (F64_Inf s) (F64_Inf t) = (s \<and> \<not> t)"
| "f64_lt (F64_Inf s) _ = s"
| "f64_lt _ (F64_Inf t) = (\<not> t)"
| "f64_lt a b = (f64_value a < f64_value b)"

definition f64_le :: "f64 \<Rightarrow> f64 \<Rightarrow> bool" where
  "f64_le a b \<longleftrightarrow> a \<noteq> F64_NaN \<and> b \<noteq> F64_NaN \<and> \<not> f64_lt b a"

fun f64_add :: "f64 \<Rightarrow> f64 \<Rightarrow> f64" where
  "f64_add F64_NaN _ = F64_NaN"
| "f64_add _ F64_NaN = F64_NaN"
| "f64_add (F64_Inf s) (F64_Inf t) = (if s = t then F64_Inf s else F64_NaN)"
| "f64_add (F64_Inf s) _ = F64_Inf s"
| "f64_add _ (F64_Inf t) = F64_Inf t"
| "f64_add a b =
     (let r = f64_value a + f64_value b
      in if r = 0 then f64_signed_zero (f64_neg a \<and> f64_neg b) else f64_of_rat (r < 0) \<bar>r\<bar>)"

fun f64_opp :: "f64 \<Rightarrow> f64" where
  "f64_opp F64_NaN = F64_NaN"
| "f64_opp (F64_Inf s) = F64_Inf (\<not> s)"
| "f64_opp F64_NegZero = F64_ZERO"
| "f64_opp (F64_Finite v) = (if v = 0 then F64_NegZero else F64_Finite (- v))"

definition f64_sub :: "f64 \<Rightarrow> f64 \<Rightarrow> f64" where
  "f64_sub a b = f64_add a (f64_opp b)"

definition f64_mul :: "f64 \<Rightarrow> f64 \<Rightarrow> f64" where
  "f64_mul a b =
     (let s = (f64_neg a \<noteq> f64_neg b)
      in if a = F64_NaN \<or> b = F64_NaN then F64_NaN
         else if f64_finite a \<and> f64_finite b then f64_of_rat s \<bar>f64_value a * f64_value b\<bar>
         else if f64_finite a \<and> f64_value a = 0 \<or> f64_finite b \<and> f64_value b = 0 then F64_NaN
         else F64_Inf s)"

definition f64_div :: "f64 \<Rightarrow> f64 \<Rightarrow> f64" where
  "f64_div a b =
     (let s = (f64_neg a \<noteq> f64_neg b)
      in if a = F64_NaN \<or> b = F64_NaN then F64_NaN
         else if \<not> f64_finite a then (if f64_finite b then F64_Inf s else F64_NaN)
         else if \<not> f64_finite b then f64_signed_zero s
         else if f64_value b = 0 then (if f64_value a = 0 then F64_NaN else F64_Inf s)
         else f64_of_rat s \<bar>f64_value a / f64_value b\<bar>)"

text \<open>
  \<open>f64::max\<close>: a NaN operand is ignored. When the two compare equal, which they do for the two zeros,
  the library documents that either may be returned: \<open>tie\<close> is its choice.
\<close>

definition f64_max :: "(f64 \<Rightarrow> f64 \<Rightarrow> bool) \<Rightarrow> f64 \<Rightarrow> f64 \<Rightarrow> f64" where
  "f64_max tie a b =
     (if a = F64_NaN then b else if b = F64_NaN then a
      else if f64_lt b a then a else if f64_lt a b then b else if tie a b then a else b)"

definition f64_clamp :: "f64 \<Rightarrow> f64 \<Rightarrow> f64 \<Rightarrow> f64" where
  "f64_clamp v lo hi =
     (let v = (if f64_lt v lo then lo else v)
      in if f64_lt hi v then hi else v)"

text \<open>\<open>n as f64\<close> for an unsigned integer, \<open>f64::ceil\<close>, and \<open>v as u64\<close>, which truncates and saturates.\<close>

definition f64_of_nat :: "nat \<Rightarrow> f64" where
  "f64_of_nat n = f64_of_rat False (of_nat n)"

fun f64_ceil :: "f64 \<Rightarrow> f64" where
  "f64_ceil (F64_Finite v) =
     (if v < 0 \<and> \<lceil>v\<rceil> = 0 then F64_NegZero else F64_Finite (of_int \<lceil>v\<rceil>))"
| "f64_ceil v = v"

fun f64_as_u64 :: "f64 \<Rightarrow> nat" where
  "f64_as_u64 F64_NaN = 0"
| "f64_as_u64 (F64_Inf s) = (if s then 0 else U64_MAX)"
| "f64_as_u64 F64_NegZero = 0"
| "f64_as_u64 (F64_Finite v) = min U64_MAX (nat \<lfloor>v\<rfloor>)"

lemma f64_as_u64_code [code]:
  "f64_as_u64 v =
     (case v of F64_NaN \<Rightarrow> 0 | F64_Inf s \<Rightarrow> if s then 0 else U64_MAX | F64_NegZero \<Rightarrow> 0
      | F64_Finite r \<Rightarrow> if 18446744073709551615 < \<lfloor>r\<rfloor> then U64_MAX else nat \<lfloor>r\<rfloor>)"
  by (cases v) (simp_all add: min_def le_nat_iff, linarith+)

text \<open>\<open>Iterator::sum\<close> starts from the neutral element of addition, the negative zero.\<close>

definition f64_sum :: "f64 list \<Rightarrow> f64" where
  "f64_sum xs = foldl f64_add F64_NegZero xs"

text \<open>\<open>f64::total_cmp\<close>: by class, by value, and the negative zero below the positive one.\<close>

fun f64_class :: "f64 \<Rightarrow> nat" where
  "f64_class F64_NaN = 3"
| "f64_class (F64_Inf s) = (if s then 0 else 2)"
| "f64_class _ = 1"

definition f64_total_cmp :: "f64 \<Rightarrow> f64 \<Rightarrow> ordering" where
  "f64_total_cmp a b =
     then_with (cmp (f64_class a) (f64_class b))
       (then_with (cmp (f64_value a) (f64_value b)) (cmp (a \<noteq> F64_NegZero) (b \<noteq> F64_NegZero)))"

section \<open>Bounds of rounded results\<close>

lemma round_half_even_upper:
  assumes "x \<le> of_int a + 1 / 2" and "even a"
  shows "round_half_even x \<le> a"
proof (rule ccontr)
  assume "\<not> round_half_even x \<le> a"
  then have gt: "a + 1 \<le> round_half_even x" by simp
  consider "\<lfloor>x\<rfloor> \<le> a - 1" | "\<lfloor>x\<rfloor> = a" | "a + 1 \<le> \<lfloor>x\<rfloor>" by linarith
  then show False
  proof cases
    case 1
    then show False using gt by (simp add: round_half_even_def Let_def split: if_splits)
  next
    case 2
    then have "x - of_int \<lfloor>x\<rfloor> \<le> 1 / 2" using assms(1) by simp
    then show False using gt assms(2) 2 by (simp add: round_half_even_def Let_def split: if_splits)
  next
    case 3
    then have "of_int (a + 1) \<le> x" by (simp add: le_floor_iff)
    then show False using assms(1) by simp
  qed
qed

definition f64_grid :: "rat \<Rightarrow> int" where
  "f64_grid x = max (binary_exponent x - 52) (- 1074)"

lemma f64_round_pos:
  "0 < x \<Longrightarrow> f64_round x = of_int (round_half_even (x / pow2 (f64_grid x))) * pow2 (f64_grid x)"
  by (simp add: f64_round_def ieee_round_def f64_grid_def Let_def)

lemma f64_round_zero [simp]: "f64_round 0 = 0"
  by (simp add: f64_round_def)

lemma f64_round_nonneg: "0 \<le> x \<Longrightarrow> 0 \<le> f64_round x"
proof (cases "x = 0")
  case False
  assume "0 \<le> x"
  then have x: "0 < x" using False by simp
  have "0 \<le> round_half_even (x / pow2 (f64_grid x))"
    using round_half_even_mono [of 0 "x / pow2 (f64_grid x)"] x by simp
  then show ?thesis using x by (simp add: f64_round_pos)
qed simp

text \<open>Up to half a unit above a power of two, a result rounds to at most that power.\<close>

lemma f64_round_le_pow2:
  assumes x: "0 \<le> x" "x \<le> pow2 k + pow2 (k - 53)" and k: "- 1000 \<le> k"
  shows "f64_round x \<le> pow2 k"
proof (cases "x = 0")
  case False
  then have pos: "0 < x" using x by simp
  let ?e = "f64_grid x" and ?b = "binary_exponent x"
  have "pow2 (k - 53) < pow2 k" by (simp add: pow2_less_iff)
  moreover have "pow2 (k + 1) = 2 * pow2 k" by (simp add: pow2_add) (simp add: pow2_def)
  ultimately have "x < pow2 (k + 1)" using x by linarith
  then have "pow2 ?b < pow2 (k + 1)" using binary_exponent_bounds(1) [OF pos] by linarith
  then have b: "?b \<le> k" by (simp add: pow2_less_iff)
  then have e: "?e \<le> k - 52" using k by (simp add: f64_grid_def)
  define a where "a = (2 :: int) ^ nat (k - ?e)"
  have a: "pow2 k = of_int a * pow2 ?e" "even a"
  proof -
    have "pow2 (k - ?e) = of_int a" using e by (simp add: pow2_def a_def)
    moreover have "pow2 k = pow2 ((k - ?e) + ?e)" by simp
    ultimately show "pow2 k = of_int a * pow2 ?e" by (simp only: pow2_add)
    show "even a" using e by (simp add: a_def)
  qed
  have "x / pow2 ?e \<le> of_int a + 1 / 2"
  proof (cases "?b = k")
    case True
    then have "?e = k - 52" using k by (simp add: f64_grid_def)
    then have "pow2 (k - 53) = pow2 (?e + - 1)" by simp
    also have "\<dots> = pow2 ?e / 2" by (simp only: pow2_add) (simp add: pow2_def)
    finally have "pow2 (k - 53) = pow2 ?e / 2" .
    then have "x \<le> (of_int a + 1 / 2) * pow2 ?e" using x(2) a(1) by (simp add: distrib_right)
    then show ?thesis by (simp add: pos_divide_le_eq)
  next
    case False
    then have "pow2 (?b + 1) \<le> pow2 k" using b by (simp add: pow2_le_iff)
    then have "x \<le> of_int a * pow2 ?e" using binary_exponent_bounds(2) [OF pos] a(1) by linarith
    then have "x / pow2 ?e \<le> of_int a" by (simp add: pos_divide_le_eq)
    then show ?thesis by simp
  qed
  then have "round_half_even (x / pow2 ?e) \<le> a" by (rule round_half_even_upper) (rule a(2))
  then have "(of_int (round_half_even (x / pow2 ?e)) :: rat) \<le> of_int a" by (simp only: of_int_le_iff)
  then have "of_int (round_half_even (x / pow2 ?e)) * pow2 ?e \<le> of_int a * pow2 ?e"
    by (intro mult_right_mono) simp_all
  then show ?thesis by (simp add: f64_round_pos [OF pos] a(1))
qed simp

lemma f64_round_le_pow2_exact: "0 \<le> x \<Longrightarrow> x \<le> pow2 k \<Longrightarrow> - 1000 \<le> k \<Longrightarrow> f64_round x \<le> pow2 k"
  by (rule f64_round_le_pow2) (simp_all add: add_increasing2)

text \<open>In the unit interval, rounding moves a value by at most \<open>2 ^ - 54\<close>.\<close>

lemma f64_round_unit_error:
  assumes x: "0 \<le> x" "x \<le> 1"
  shows "f64_round x \<le> x + pow2 (- 54)"
proof -
  consider "x = 0" | "x = 1" | "0 < x" "x < 1" using x by linarith
  then show ?thesis
  proof cases
    case 1
    then show ?thesis by simp
  next
    case 2
    have "f64_round 1 \<le> pow2 0" by (rule f64_round_le_pow2_exact) (simp_all add: pow2_def)
    then show ?thesis using 2 by (simp add: pow2_def)
  next
    case 3
    let ?e = "f64_grid x" and ?n = "of_int (round_half_even (x / pow2 (f64_grid x))) :: rat"
    have "pow2 (binary_exponent x) < pow2 0"
      using binary_exponent_bounds(1) [OF 3(1)] 3(2) by (simp add: pow2_def [of 0])
    then have "?e \<le> - 53" by (simp add: f64_grid_def pow2_less_iff)
    then have g: "pow2 ?e \<le> pow2 (- 53)" by (simp add: pow2_le_iff)
    have "pow2 (- 53) = 2 * pow2 (- 54)" by (simp add: pow2_def)
    moreover have "?n \<le> x / pow2 ?e + 1 / 2" by (rule round_half_even_bounds)
    then have "?n * pow2 ?e \<le> (x / pow2 ?e + 1 / 2) * pow2 ?e" by (intro mult_right_mono) simp_all
    then have "f64_round x \<le> x + pow2 ?e / 2"
      using 3(1) by (simp add: f64_round_pos distrib_right less_imp_neq [OF pow2_pos, symmetric])
    ultimately show ?thesis using g by linarith
  qed
qed

section \<open>Numbers between bounds\<close>

text \<open>A finite number that is not negative, the negative zero included, and at most \<open>b\<close>.\<close>

definition f64_within :: "rat \<Rightarrow> f64 \<Rightarrow> bool" where
  "f64_within b v \<longleftrightarrow> f64_finite v \<and> 0 \<le> f64_value v \<and> f64_value v \<le> b"

lemma f64_within_finite: "f64_within b v \<Longrightarrow> f64_finite v"
  by (simp add: f64_within_def)

lemma f64_not_NaN: "f64_finite v \<Longrightarrow> v \<noteq> F64_NaN"
  by auto

lemma f64_of_rat_value:
  assumes "f64_round x < pow2 1024"
  shows "f64_finite (f64_of_rat s x)" and "f64_value (f64_of_rat s x) = (if s then - f64_round x else f64_round x)"
  using assms by (auto simp: f64_of_rat_def Let_def f64_signed_zero_def)

lemma f64_add_finite:
  assumes "f64_finite a" and "f64_finite b"
  shows "f64_add a b =
    (let r = f64_value a + f64_value b
     in if r = 0 then f64_signed_zero (f64_neg a \<and> f64_neg b) else f64_of_rat (r < 0) \<bar>r\<bar>)"
  using assms by (cases a; cases b) (simp_all add: Let_def)

lemma f64_add_within:
  assumes a: "f64_within x a" and b: "f64_within y b"
    and k: "x + y \<le> pow2 k + pow2 (k - 53)" "- 1000 \<le> k" "k < 1024"
  shows "f64_within (pow2 k) (f64_add a b)"
proof -
  let ?r = "f64_value a + f64_value b"
  have r: "0 \<le> ?r" "?r \<le> pow2 k + pow2 (k - 53)" using a b k(1) by (auto simp: f64_within_def)
  have le: "f64_round ?r \<le> pow2 k" by (rule f64_round_le_pow2 [OF r k(2)])
  moreover have "pow2 k < pow2 1024" using k(3) by (simp add: pow2_less_iff)
  ultimately have "f64_round ?r < pow2 1024" by linarith
  note v = f64_of_rat_value [OF this, of False]
  have "f64_within (pow2 k) (f64_signed_zero s)" for s by (simp add: f64_within_def f64_signed_zero_def)
  then show ?thesis
    using f64_add_finite [of a b] a b v le r(1) f64_round_nonneg [OF r(1)]
    by (auto simp: f64_within_def Let_def f64_signed_zero_def)
qed

lemma f64_mul_within:
  assumes a: "f64_within x a" and b: "f64_within 1 b" and x: "x \<le> pow2 k" and k: "- 1000 \<le> k" "k < 1024"
  shows "f64_within (pow2 k) (f64_mul a b)"
proof -
  let ?r = "f64_value a * f64_value b"
  have fin: "f64_finite a" "f64_finite b" using a b by (auto simp: f64_within_def)
  have r: "0 \<le> ?r" using a b by (simp add: f64_within_def)
  have "?r \<le> f64_value a * 1" using a b by (intro mult_left_mono) (auto simp: f64_within_def)
  then have "?r \<le> pow2 k" using a x by (simp add: f64_within_def)
  then have le: "f64_round ?r \<le> pow2 k" using r k(1) by (intro f64_round_le_pow2_exact)
  moreover have "pow2 k < pow2 1024" using k(2) by (simp add: pow2_less_iff)
  ultimately have lt: "f64_round ?r < pow2 1024" by linarith
  have s: "f64_of_rat s ?r = f64_signed_zero s" if "?r = 0" for s
    using pow2_pos [of 1024, unfolded linorder_not_le [symmetric]]
    by (simp only: that f64_of_rat_def Let_def f64_round_zero simp_thms if_True if_False)
  have neg: "(f64_neg a \<noteq> f64_neg b) \<longrightarrow> ?r = 0"
    using a b by (cases a; cases b) (auto simp: f64_within_def)
  have "f64_mul a b = f64_of_rat (f64_neg a \<noteq> f64_neg b) ?r"
    using fin r by (auto simp: f64_mul_def Let_def f64_not_NaN)
  then show ?thesis
    using f64_of_rat_value [OF lt, of False] le f64_round_nonneg [OF r] neg s
    by (cases "f64_neg a \<noteq> f64_neg b") (auto simp: f64_within_def f64_signed_zero_def)
qed

lemma comparator_total_cmp: "comparator (\<lambda>x y. f64_total_cmp (f x) (f y)) A"
  unfolding f64_total_cmp_def
  by (intro comparator_then_with comparator_cmp_key)

end
