(* ===== verification/SegmentLedger.thy ===== *)
theory SegmentLedger
  imports Prelude Float64
begin

text \<open>
  The accounting of shared segments in the admission policy
  (src/crates/skippy-cache/src/policy/accounting.rs): which entries reference a segment, the bytes an
  entry is charged for it, and the locale \<open>reference_ledger\<close>, the contract the policy relies on.
  Identities of entries and segments are \<open>u64\<close>; a \<open>BTreeSet\<close> whose order is never observed is a set.
\<close>

type_synonym entry_key = nat
type_synonym segment_id = nat

text \<open>The wrapping sum of two \<open>u64\<close> (a build with overflow checks panics instead).\<close>

definition wrap_add :: "nat \<Rightarrow> nat \<Rightarrow> nat" where
  "wrap_add a b = (a + b) mod 2 ^ 64"

text \<open>For evaluation: the limit is compared as an integer.\<close>

lemma wrap_add_code [code]:
  "wrap_add a b = (let s = a + b in
     if int s < 18446744073709551616 then s else nat (int s mod 18446744073709551616))"
  by (simp add: wrap_add_def Let_def nat_mod_distrib flip: of_nat_add)

lemma wrap_add_exact: "a + b \<le> U64_MAX \<Longrightarrow> wrap_add a b = a + b"
  by (simp add: wrap_add_def)

section \<open>The ledger\<close>

record segment_record =
  sr_size :: nat
  sr_references :: "entry_key set"

type_synonym segment_ledger = "(segment_id, segment_record) btree"

definition segment_record :: "segment_ledger \<Rightarrow> segment_id \<Rightarrow> segment_record option" where
  "segment_record l segment = bt_get l segment"

definition ledger_add :: "segment_id \<Rightarrow> nat \<Rightarrow> entry_key \<Rightarrow> segment_ledger \<Rightarrow> segment_ledger" where
  "ledger_add segment bytes entry l =
     (case bt_get l segment of
        None \<Rightarrow> bt_insert segment \<lparr>sr_size = bytes, sr_references = {entry}\<rparr> l
      | Some _ \<Rightarrow> bt_modify segment (sr_references_update (insert entry)) l)"

definition ledger_release_one :: "entry_key \<Rightarrow> segment_ledger \<Rightarrow> segment_id \<Rightarrow> segment_ledger" where
  "ledger_release_one entry l segment =
     (case bt_get l segment of
        None \<Rightarrow> l
      | Some r \<Rightarrow>
          let references = sr_references r - {entry}
          in if references = {} then bt_remove segment l
             else bt_modify segment (sr_references_update (\<lambda>_. references)) l)"

definition ledger_release :: "segment_id list \<Rightarrow> entry_key \<Rightarrow> segment_ledger \<Rightarrow> segment_ledger" where
  "ledger_release segments entry l = foldl (ledger_release_one entry) l segments"

definition fractional_bytes :: "segment_ledger \<Rightarrow> entry_key \<Rightarrow> segment_id list \<Rightarrow> f64" where
  "fractional_bytes l entry segments =
     f64_sum (map (\<lambda>r. f64_div (f64_of_nat (sr_size r)) (f64_of_nat (card (sr_references r))))
       (filter (\<lambda>r. entry \<in> sr_references r) (List.map_filter (bt_get l) segments)))"

definition marginal_physical_bytes :: "segment_ledger \<Rightarrow> entry_key \<Rightarrow> segment_id list \<Rightarrow> nat" where
  "marginal_physical_bytes l entry segments =
     wrap_sum (map sr_size
       (filter (\<lambda>r. card (sr_references r) = 1 \<and> entry \<in> sr_references r)
         (List.map_filter (bt_get l) segments)))"

definition ledger_total_bytes :: "segment_ledger \<Rightarrow> nat" where
  "ledger_total_bytes l = wrap_sum (map sr_size (bt_values l))"

definition segment_count :: "segment_ledger \<Rightarrow> nat" where
  "segment_count l = length l"

section \<open>The contract of a ledger\<close>

text \<open>
  \<open>refs l s\<close> are the entries that reference the segment \<open>s\<close>. The client's lemmas say that the ledger
  follows the segment lists of a changing set of entries: \<open>tracks l m\<close> holds when the references of
  every segment are the entries whose list in \<open>m\<close> names it.
\<close>

locale reference_ledger =
  fixes refs :: "'l \<Rightarrow> segment_id \<Rightarrow> entry_key set"
    and add :: "segment_id \<Rightarrow> nat \<Rightarrow> entry_key \<Rightarrow> 'l \<Rightarrow> 'l"
    and release :: "segment_id list \<Rightarrow> entry_key \<Rightarrow> 'l \<Rightarrow> 'l"
    and wf :: "'l \<Rightarrow> bool"
  assumes refs_add: "wf l \<Longrightarrow> refs (add s bytes k l) = (refs l)(s := insert k (refs l s))"
    and refs_release: "wf l \<Longrightarrow> refs (release ss k l) s = (if s \<in> set ss then refs l s - {k} else refs l s)"
    and wf_add: "wf l \<Longrightarrow> wf (add s bytes k l)"
    and wf_release: "wf l \<Longrightarrow> wf (release ss k l)"
begin

definition tracks :: "'l \<Rightarrow> (entry_key \<rightharpoonup> segment_id list) \<Rightarrow> bool" where
  "tracks l m \<longleftrightarrow> (\<forall>s. refs l s = {k. \<exists>ss. m k = Some ss \<and> s \<in> set ss})"

lemma wf_add_all: "wf l \<Longrightarrow> wf (foldl (\<lambda>l (s, bytes). add s bytes k l) l shared)"
  by (induction shared arbitrary: l) (auto simp: wf_add)

lemma refs_add_all:
  "wf l \<Longrightarrow> refs (foldl (\<lambda>l (s, bytes). add s bytes k l) l shared) s =
     (if s \<in> fst ` set shared then insert k (refs l s) else refs l s)"
proof (induction shared arbitrary: l)
  case Nil
  then show ?case by simp
next
  case (Cons e shared)
  obtain t b where e: "e = (t, b)" by fastforce
  show ?case using Cons.IH [OF wf_add [OF Cons.prems]] Cons.prems by (simp add: e refs_add)
qed

lemma tracks_add_all:
  assumes "wf l" and "tracks l m" and "m k = None"
  shows "tracks (foldl (\<lambda>l (s, bytes). add s bytes k l) l shared) (m(k \<mapsto> map fst shared))"
  using assms by (auto simp: tracks_def refs_add_all image_iff)

lemma tracks_release:
  assumes "wf l" and "tracks l m" and "m k = Some ss"
  shows "tracks (release ss k l) (m(k := None))"
  using assms by (auto simp: tracks_def refs_release)

end

definition ledger_refs :: "segment_ledger \<Rightarrow> segment_id \<Rightarrow> entry_key set" where
  "ledger_refs l s = (case bt_get l s of Some r \<Rightarrow> sr_references r | None \<Rightarrow> {})"

text \<open>A well-formed ledger is ordered and keeps no segment without a reference.\<close>

definition ledger_wf :: "segment_ledger \<Rightarrow> bool" where
  "ledger_wf l \<longleftrightarrow> bt_wf l \<and> (\<forall>s r. bt_get l s = Some r \<longrightarrow> sr_references r \<noteq> {})"

lemma ledger_wf_empty [simp]: "ledger_wf []"
  by (simp add: ledger_wf_def)

lemma get_ledger_add:
  assumes "bt_wf l"
  shows "bt_get (ledger_add s bytes k l) = (bt_get l)(s \<mapsto>
    (case bt_get l s of None \<Rightarrow> \<lparr>sr_size = bytes, sr_references = {k}\<rparr>
       | Some r \<Rightarrow> r\<lparr>sr_references := insert k (sr_references r)\<rparr>))"
  using assms by (auto simp: ledger_add_def bt_get_insert bt_get_modify fun_eq_iff split: option.split)

lemma ledger_wf_add: "ledger_wf l \<Longrightarrow> ledger_wf (ledger_add s bytes k l)"
proof -
  assume l: "ledger_wf l"
  then have "bt_wf (ledger_add s bytes k l)"
    by (auto simp: ledger_wf_def ledger_add_def split: option.split)
  then show ?thesis using l
    by (auto simp: ledger_wf_def get_ledger_add split: if_splits option.splits)
qed

lemma ledger_refs_add:
  "ledger_wf l \<Longrightarrow> ledger_refs (ledger_add s bytes k l) = (ledger_refs l)(s := insert k (ledger_refs l s))"
  by (auto simp: ledger_wf_def ledger_refs_def get_ledger_add fun_eq_iff split: option.splits)

lemma get_release_one:
  "bt_get (ledger_release_one k l s) = (bt_get l)(s :=
     (case bt_get l s of None \<Rightarrow> None
      | Some r \<Rightarrow> if sr_references r - {k} = {} then None
                  else Some (r\<lparr>sr_references := sr_references r - {k}\<rparr>)))"
  by (auto simp: ledger_release_one_def Let_def bt_get_remove bt_get_modify fun_eq_iff split: option.split)

lemma ledger_wf_release_one: "ledger_wf l \<Longrightarrow> ledger_wf (ledger_release_one k l s)"
proof -
  assume l: "ledger_wf l"
  then have "bt_wf (ledger_release_one k l s)"
    by (auto simp: ledger_wf_def ledger_release_one_def Let_def split: option.split)
  then show ?thesis using l
    by (auto simp: ledger_wf_def get_release_one split: if_splits option.splits)
qed

lemma ledger_refs_release_one:
  "ledger_refs (ledger_release_one k l s) t = (if t = s then ledger_refs l t - {k} else ledger_refs l t)"
  by (auto simp: ledger_refs_def get_release_one split: option.splits)

lemma ledger_release_Nil [simp]: "ledger_release [] k l = l"
  by (simp add: ledger_release_def)

lemma ledger_release_Cons: "ledger_release (s # ss) k l = ledger_release ss k (ledger_release_one k l s)"
  by (simp add: ledger_release_def)

lemma ledger_wf_release: "ledger_wf l \<Longrightarrow> ledger_wf (ledger_release ss k l)"
  by (induction ss arbitrary: l) (auto simp: ledger_release_Cons ledger_wf_release_one)

lemma ledger_refs_release:
  "ledger_refs (ledger_release ss k l) s = (if s \<in> set ss then ledger_refs l s - {k} else ledger_refs l s)"
  by (induction ss arbitrary: l) (auto simp: ledger_release_Cons ledger_refs_release_one)

interpretation ledger: reference_ledger ledger_refs ledger_add ledger_release ledger_wf
  by unfold_locales
    (simp_all add: ledger_refs_add ledger_refs_release ledger_wf_add ledger_wf_release)

section \<open>Bytes\<close>

text \<open>The bytes of the segments of a ledger, without wrap-around.\<close>

definition ledger_bytes :: "segment_ledger \<Rightarrow> nat" where
  "ledger_bytes l = sum_list (map (\<lambda>(s, r). sr_size r) l)"

lemma ledger_total_bytes_exact: "ledger_bytes l \<le> U64_MAX \<Longrightarrow> ledger_total_bytes l = ledger_bytes l"
  unfolding ledger_total_bytes_def ledger_bytes_def wrap_sum_def bt_values_def map_map comp_def split_beta
  by (rule mod_less) simp

lemma ledger_bytes_remove:
  assumes "bt_wf l" and "bt_get l s = Some r"
  shows "ledger_bytes l = sr_size r + ledger_bytes (bt_remove s l)"
proof -
  have "mset l = add_mset (s, r) (mset (bt_remove s l))" by (rule mset_bt_remove [OF assms])
  then have "mset (map (\<lambda>(s, r). sr_size r) l) =
      add_mset (sr_size r) (mset (map (\<lambda>(s, r). sr_size r) (bt_remove s l)))" by simp
  then have "sum_mset (mset (map (\<lambda>(s, r). sr_size r) l)) =
      sr_size r + sum_mset (mset (map (\<lambda>(s, r). sr_size r) (bt_remove s l)))" by simp
  then show ?thesis by (simp only: sum_mset_sum_list ledger_bytes_def)
qed

lemma ledger_bytes_modify:
  "(\<And>r. sr_size (f r) = sr_size r) \<Longrightarrow> ledger_bytes (bt_modify s f l) = ledger_bytes l"
  by (induction l) (auto simp: ledger_bytes_def bt_modify_def)

lemma sr_size_references [simp]: "sr_size (sr_references_update f r) = sr_size r"
  by (cases r) simp

text \<open>What releasing \<open>k\<close> frees: the segments of which it is the only reference.\<close>

definition last_reference :: "segment_ledger \<Rightarrow> entry_key \<Rightarrow> segment_id \<Rightarrow> nat" where
  "last_reference l k s =
     (case bt_get l s of Some r \<Rightarrow> if sr_references r - {k} = {} then sr_size r else 0 | None \<Rightarrow> 0)"

lemma ledger_bytes_release_one:
  assumes "bt_wf l"
  shows "ledger_bytes l = last_reference l k s + ledger_bytes (ledger_release_one k l s)"
  using assms by (auto simp: ledger_release_one_def last_reference_def Let_def ledger_bytes_modify
      ledger_bytes_remove split: option.split)

lemma last_reference_other: "t \<noteq> s \<Longrightarrow> last_reference (ledger_release_one k l s) k t = last_reference l k t"
  by (simp add: last_reference_def get_release_one)

lemma ledger_bytes_release:
  assumes "ledger_wf l" and "distinct ss"
  shows "ledger_bytes l = sum_list (map (last_reference l k) ss) + ledger_bytes (ledger_release ss k l)"
  using assms
proof (induction ss arbitrary: l)
  case Nil
  then show ?case by simp
next
  case (Cons s ss)
  let ?l = "ledger_release_one k l s"
  have m: "map (last_reference ?l k) ss = map (last_reference l k) ss"
    using Cons.prems(2) by (intro map_cong refl last_reference_other) auto
  have "ledger_bytes l = last_reference l k s + ledger_bytes ?l"
    using Cons.prems(1) by (intro ledger_bytes_release_one) (simp add: ledger_wf_def)
  moreover have "ledger_bytes ?l = sum_list (map (last_reference l k) ss) + ledger_bytes (ledger_release ss k ?l)"
    using Cons.IH [OF ledger_wf_release_one [OF Cons.prems(1)]] Cons.prems(2) by (simp only: m distinct.simps)
  ultimately show ?case by (simp add: ledger_release_Cons)
qed

end
