(* ===== verification/BenefitPolicy.thy ===== *)
theory BenefitPolicy
  imports SegmentLedger
begin

text \<open>
  The benefit-per-byte admission and eviction policy of the cache (src/crates/skippy-cache/src/policy:
  mod.rs, admission.rs, score.rs, decay.rs). The policy holds statistics of resident entries, the ledger
  of shared segments, a clock that counts observations, and ghosts, the statistics of evicted entries.
  It decides admission, promotion out of probation, eviction victims and the repair of the probation
  cap; it commits a removal only when its caller says so. Counters are \<open>u64\<close>: \<open>+= 1\<close> wraps, as in the
  release build. \<open>tie\<close> is the choice of \<open>f64::max\<close> between two zeros.
\<close>

section \<open>Configuration and state\<close>

record decay_config =
  dc_factor :: f64

record policy_config =
  pc_probation_byte_budget :: nat
  pc_persistence_hit_threshold :: nat
  pc_min_reuse_probability :: f64
  pc_decay :: decay_config
  pc_grace_observations :: nat
  pc_ghost_capacity :: nat
  pc_ghost_max_age_observations :: nat

record cost_sample =
  cs_cold_prefill_cost :: f64
  cs_restore_cost :: f64

datatype policy_entry_state = Probation | Admitted

record policy_entry =
  pe_state :: policy_entry_state
  pe_hits :: nat
  pe_misses :: nat
  pe_reuse_weight :: f64
  pe_observation_weight :: f64
  pe_last_cost :: "cost_sample option"
  pe_exclusive_bytes :: nat
  pe_segments :: "segment_id list"
  pe_last_observation :: nat

record ghost_stats =
  gs_hits :: nat
  gs_reuse_weight :: f64
  gs_observation_weight :: f64
  gs_last_observation :: nat

record benefit_policy =
  bp_config :: policy_config
  bp_entries :: "(entry_key, policy_entry) btree"
  bp_segments :: segment_ledger
  bp_clock :: nat
  bp_ghosts :: "(entry_key, ghost_stats) btree"

datatype eviction_verdict = KeepEntry | Evict

datatype cap_repair = Satisfied "entry_key list" | Deferred "entry_key list" nat

fun cap_victims :: "cap_repair \<Rightarrow> entry_key list" where
  "cap_victims (Satisfied victims) = victims"
| "cap_victims (Deferred victims shortfall) = victims"

fun shortfall_bytes :: "cap_repair \<Rightarrow> nat" where
  "shortfall_bytes (Satisfied victims) = 0"
| "shortfall_bytes (Deferred victims shortfall) = shortfall"

fun is_deferred :: "cap_repair \<Rightarrow> bool" where
  "is_deferred (Satisfied victims) = False"
| "is_deferred (Deferred victims shortfall) = True"

datatype admission_decision_kind = AdmitProbation | AdmitPersist | Promote | RejectOffer

datatype admission_verdict = AdmitVerdict | RejectVerdict

record admission_decision =
  ad_kind :: admission_decision_kind
  ad_verdict :: admission_verdict
  ad_reasons :: "string list"
  ad_probation_cap_repair :: cap_repair

record removal_outcome =
  ro_entry :: policy_entry
  ro_probation_cap_repair :: cap_repair

definition decay_default :: decay_config where
  "decay_default = \<lparr>dc_factor = f64_of_rat False (9 / 10)\<rparr>"

definition decay_is_valid :: "decay_config \<Rightarrow> bool" where
  "decay_is_valid d \<longleftrightarrow>
     f64_finite (dc_factor d) \<and> f64_lt F64_ZERO (dc_factor d) \<and> f64_lt (dc_factor d) F64_ONE"

definition policy_config_default :: policy_config where
  "policy_config_default =
     \<lparr>pc_probation_byte_budget = 256 * 2 ^ 20, pc_persistence_hit_threshold = 2,
      pc_min_reuse_probability = f64_of_rat False (1 / 100), pc_decay = decay_default,
      pc_grace_observations = 32, pc_ghost_capacity = 4096, pc_ghost_max_age_observations = 1024\<rparr>"

definition policy_config_is_valid :: "policy_config \<Rightarrow> bool" where
  "policy_config_is_valid c \<longleftrightarrow>
     f64_finite (pc_min_reuse_probability c) \<and>
     f64_le F64_ZERO (pc_min_reuse_probability c) \<and> f64_le (pc_min_reuse_probability c) F64_ONE \<and>
     decay_is_valid (pc_decay c) \<and> 1 \<le> pc_persistence_hit_threshold c"

definition cost_is_valid :: "cost_sample \<Rightarrow> bool" where
  "cost_is_valid c \<longleftrightarrow>
     f64_finite (cs_cold_prefill_cost c) \<and> f64_finite (cs_restore_cost c) \<and>
     f64_le F64_ZERO (cs_cold_prefill_cost c) \<and> f64_le F64_ZERO (cs_restore_cost c)"

definition net_benefit :: "(f64 \<Rightarrow> f64 \<Rightarrow> bool) \<Rightarrow> cost_sample \<Rightarrow> f64" where
  "net_benefit tie c = f64_max tie (f64_sub (cs_cold_prefill_cost c) (cs_restore_cost c)) F64_ZERO"

definition reuse_probability :: "policy_entry \<Rightarrow> f64" where
  "reuse_probability e =
     (if f64_le (pe_observation_weight e) F64_ZERO then F64_ZERO
      else f64_clamp (f64_div (pe_reuse_weight e) (pe_observation_weight e)) F64_ZERO F64_ONE)"

text \<open>\<open>BenefitPolicy::new\<close> panics on an invalid configuration: \<open>None\<close>.\<close>

definition policy_new :: "policy_config \<Rightarrow> benefit_policy option" where
  "policy_new config =
     (if policy_config_is_valid config
      then Some \<lparr>bp_config = config, bp_entries = [], bp_segments = [], bp_clock = 0, bp_ghosts = []\<rparr>
      else None)"

text \<open>One decayed observation: \<open>weight * factor + 1.0\<close>.\<close>

definition decayed :: "benefit_policy \<Rightarrow> f64 \<Rightarrow> f64" where
  "decayed p weight = f64_add (f64_mul weight (dc_factor (pc_decay (bp_config p)))) F64_ONE"

section \<open>Ghosts\<close>

text \<open>The order of \<open>(last_observation, key)\<close> pairs.\<close>

definition age_cmp :: "nat \<times> entry_key \<Rightarrow> nat \<times> entry_key \<Rightarrow> ordering" where
  "age_cmp a b = then_with (cmp (fst a) (fst b)) (cmp (snd a) (snd b))"

definition oldest_ghost :: "(entry_key, ghost_stats) btree \<Rightarrow> entry_key option" where
  "oldest_ghost gs = map_option fst
     (min_by (\<lambda>a b. age_cmp (gs_last_observation (snd a), fst a) (gs_last_observation (snd b), fst b)) gs)"

lemma comparator_age_cmp: "comparator (\<lambda>x y. age_cmp (f x) (f y)) A"
  unfolding age_cmp_def by (intro comparator_then_with comparator_cmp_key)

lemma oldest_ghost_mem: "oldest_ghost gs = Some k \<Longrightarrow> k \<in> set (map fst gs)"
  by (auto simp: oldest_ghost_def image_iff intro: rev_bexI
      dest!: comparator.min_by_least [OF comparator_age_cmp subset_UNIV])

lemma removal_shorter: "k \<in> set (map fst m) \<Longrightarrow> length (bt_remove k m) < length m"
  by (auto simp: bt_remove_def intro: length_filter_less)

text \<open>The loop of \<open>insert_ghost\<close>: it ends because every round removes a ghost.\<close>

function drop_oldest_ghosts :: "nat \<Rightarrow> (entry_key, ghost_stats) btree \<Rightarrow> (entry_key, ghost_stats) btree" where
  "drop_oldest_ghosts capacity gs =
     (if capacity \<le> length gs then
        (case oldest_ghost gs of
           Some k \<Rightarrow> drop_oldest_ghosts capacity (bt_remove k gs)
         | None \<Rightarrow> gs)
      else gs)"
  by pat_completeness auto
termination drop_oldest_ghosts
  by (relation "measure (\<lambda>(capacity, gs). length gs)")
    (auto dest: oldest_ghost_mem intro: removal_shorter simp del: set_map)

declare drop_oldest_ghosts.simps [simp del]

definition insert_ghost :: "entry_key \<Rightarrow> ghost_stats \<Rightarrow> benefit_policy \<Rightarrow> benefit_policy" where
  "insert_ghost key stats p =
     (if pc_ghost_capacity (bp_config p) = 0 then p
      else p\<lparr>bp_ghosts := bt_insert key stats
               (drop_oldest_ghosts (pc_ghost_capacity (bp_config p)) (bp_ghosts p))\<rparr>)"

definition expire_ghosts :: "benefit_policy \<Rightarrow> benefit_policy" where
  "expire_ghosts p =
     (let horizon = sat_sub (bp_clock p) (pc_ghost_max_age_observations (bp_config p))
      in p\<lparr>bp_ghosts := filter (\<lambda>(_, g). horizon \<le> gs_last_observation g) (bp_ghosts p)\<rparr>)"

section \<open>The score\<close>

record score_inputs =
  si_reuse_probability :: f64
  si_net_benefit :: f64
  si_exclusive_bytes :: f64

record benefit_score =
  bs_value :: f64
  bs_inputs :: score_inputs

definition score_compute ::
    "(f64 \<Rightarrow> f64 \<Rightarrow> bool) \<Rightarrow> policy_config \<Rightarrow> entry_key \<Rightarrow> policy_entry \<Rightarrow> segment_ledger \<Rightarrow>
     benefit_score option" where
  "score_compute tie config key entry l =
     (case pe_last_cost entry of
        None \<Rightarrow> None
      | Some cost \<Rightarrow>
          if \<not> cost_is_valid cost then None
          else
            let reuse = f64_max tie (reuse_probability entry) (pc_min_reuse_probability config);
                shared = fractional_bytes l key (pe_segments entry);
                exclusive = f64_add (f64_of_nat (pe_exclusive_bytes entry)) shared
            in if f64_le exclusive F64_ZERO then None
               else
                 let net = net_benefit tie cost;
                     v = f64_div (f64_mul reuse net) exclusive
                 in if \<not> f64_finite v then None
                    else Some \<lparr>bs_value = v,
                               bs_inputs = \<lparr>si_reuse_probability = reuse, si_net_benefit = net,
                                            si_exclusive_bytes = exclusive\<rparr>\<rparr>)"

definition policy_score ::
    "(f64 \<Rightarrow> f64 \<Rightarrow> bool) \<Rightarrow> benefit_policy \<Rightarrow> entry_key \<Rightarrow> benefit_score option" where
  "policy_score tie p key =
     Option.bind (bt_get (bp_entries p) key)
       (\<lambda>entry. score_compute tie (bp_config p) key entry (bp_segments p))"

section \<open>Repair of the probation cap\<close>

definition entry_charge :: "segment_ledger \<Rightarrow> entry_key \<times> policy_entry \<Rightarrow> f64" where
  "entry_charge l ke =
     f64_add (f64_of_nat (pe_exclusive_bytes (snd ke))) (fractional_bytes l (fst ke) (pe_segments (snd ke)))"

definition probation_bytes :: "benefit_policy \<Rightarrow> nat" where
  "probation_bytes p =
     f64_as_u64 (f64_ceil (foldl (\<lambda>exact ke.
       if pe_state (snd ke) = Probation then f64_add exact (entry_charge (bp_segments p) ke) else exact)
       F64_ZERO (bp_entries p)))"

text \<open>The charge of the class without the entries already removed, against the scratch ledger.\<close>

definition scratch_charge :: "benefit_policy \<Rightarrow> segment_ledger \<Rightarrow> entry_key set \<Rightarrow> nat" where
  "scratch_charge p scratch removed =
     f64_as_u64 (f64_ceil (f64_sum (map (entry_charge scratch)
       (filter (\<lambda>ke. pe_state (snd ke) = Probation \<and> fst ke \<notin> removed) (bp_entries p)))))"

definition by_age :: "(entry_key \<times> policy_entry) list \<Rightarrow> entry_key list" where
  "by_age kes = map snd (sort_by age_cmp (map (\<lambda>ke. (pe_last_observation (snd ke), fst ke)) kes))"

definition repair_candidates :: "benefit_policy \<Rightarrow> entry_key list \<Rightarrow> entry_key list" where
  "repair_candidates p pinned =
     by_age (filter (\<lambda>(k, e). pe_state e = Probation \<and> pe_hits e = 0 \<and> k \<notin> set pinned) (bp_entries p)) @
     by_age (filter (\<lambda>(k, e). pe_state e = Probation \<and> 0 < pe_hits e \<and> k \<notin> set pinned) (bp_entries p))"

primrec repair_loop ::
    "benefit_policy \<Rightarrow> entry_key list \<Rightarrow> segment_ledger \<times> entry_key set \<times> entry_key list \<Rightarrow>
     segment_ledger \<times> entry_key set \<times> entry_key list" where
  "repair_loop p [] acc = acc"
| "repair_loop p (key # keys) acc =
     (case bt_get (bp_entries p) key of
        None \<Rightarrow> repair_loop p keys acc
      | Some entry \<Rightarrow>
          (case acc of (scratch, removed, victims) \<Rightarrow>
             let scratch = ledger_release (pe_segments entry) key scratch;
                 removed = insert key removed;
                 victims = victims @ [key]
             in if scratch_charge p scratch removed \<le> pc_probation_byte_budget (bp_config p)
                then (scratch, removed, victims)
                else repair_loop p keys (scratch, removed, victims)))"

definition select_probation_cap_victims :: "benefit_policy \<Rightarrow> entry_key list \<Rightarrow> cap_repair" where
  "select_probation_cap_victims p pinned =
     (let cap = pc_probation_byte_budget (bp_config p)
      in if probation_bytes p \<le> cap then Satisfied []
         else
           case repair_loop p (repair_candidates p pinned) (bp_segments p, {}, []) of
             (scratch, removed, victims) \<Rightarrow>
               let final_charge = scratch_charge p scratch removed
               in if final_charge \<le> cap then Satisfied victims
                  else Deferred victims (final_charge - cap))"

section \<open>Admission\<close>

definition rejected :: "string \<Rightarrow> admission_decision" where
  "rejected reason =
     \<lparr>ad_kind = RejectOffer, ad_verdict = RejectVerdict, ad_reasons = [reason],
      ad_probation_cap_repair = Satisfied []\<rparr>"

definition size_conflict :: "benefit_policy \<Rightarrow> entry_key \<Rightarrow> (segment_id \<times> nat) list \<Rightarrow> bool" where
  "size_conflict p key shared \<longleftrightarrow>
     list_ex (\<lambda>(segment, bytes). case segment_record (bp_segments p) segment of
         Some r \<Rightarrow> key \<notin> sr_references r \<and> sr_size r \<noteq> bytes
       | None \<Rightarrow> False) shared"

definition no_ghost :: ghost_stats where
  "no_ghost = \<lparr>gs_hits = 0, gs_reuse_weight = F64_ZERO, gs_observation_weight = F64_ZERO,
               gs_last_observation = 0\<rparr>"

text \<open>The history an offer starts with: that of its ghost, with this offer as one more reuse.\<close>

definition recurrence :: "benefit_policy \<Rightarrow> entry_key \<Rightarrow> ghost_stats" where
  "recurrence p key =
     (case bt_get (bp_ghosts p) key of
        None \<Rightarrow> no_ghost
      | Some g \<Rightarrow> g\<lparr>gs_hits := wrap_add (gs_hits g) 1,
                    gs_reuse_weight := decayed p (gs_reuse_weight g),
                    gs_observation_weight := decayed p (gs_observation_weight g)\<rparr>)"

definition consider_offer ::
    "(f64 \<Rightarrow> f64 \<Rightarrow> bool) \<Rightarrow> entry_key \<Rightarrow> nat \<Rightarrow> (segment_id \<times> nat) list \<Rightarrow> cost_sample \<Rightarrow> benefit_policy \<Rightarrow>
     admission_decision \<times> benefit_policy" where
  "consider_offer tie key exclusive_bytes shared cost p =
     (if \<not> cost_is_valid cost then (rejected ''invalid-cost-sample'', p)
      else if \<not> distinct (map fst shared) then (rejected ''duplicate-segment-reference'', p)
      else if size_conflict p key shared then (rejected ''segment-size-conflict'', p)
      else if f64_le (net_benefit tie cost) F64_ZERO then (rejected ''no-net-benefit'', p)
      else
        let reasons = (if exclusive_bytes = 0 \<and> shared = [] then [''zero-exclusive-bytes'']
                       else [''probation-new-entry'']);
            ghost = recurrence p key;
            ghost_promoted = pc_persistence_hit_threshold (bp_config p) \<le> gs_hits ghost;
            entry = \<lparr>pe_state = (if ghost_promoted then Admitted else Probation),
                     pe_hits = gs_hits ghost, pe_misses = 0,
                     pe_reuse_weight = gs_reuse_weight ghost,
                     pe_observation_weight = gs_observation_weight ghost,
                     pe_last_cost = Some cost, pe_exclusive_bytes = exclusive_bytes,
                     pe_segments = map fst shared, pe_last_observation = bp_clock p\<rparr>
        in (\<lparr>ad_kind = (if ghost_promoted then AdmitPersist else AdmitProbation),
             ad_verdict = AdmitVerdict, ad_reasons = reasons, ad_probation_cap_repair = Satisfied []\<rparr>,
            p\<lparr>bp_ghosts := bt_remove key (bp_ghosts p),
              bp_segments := foldl (\<lambda>l (segment, bytes). ledger_add segment bytes key l) (bp_segments p) shared,
              bp_entries := bt_insert key entry (bp_entries p)\<rparr>))"

definition tick_clock :: "benefit_policy \<Rightarrow> benefit_policy" where
  "tick_clock p = p\<lparr>bp_clock := wrap_add (bp_clock p) 1\<rparr>"

definition consider_admission ::
    "(f64 \<Rightarrow> f64 \<Rightarrow> bool) \<Rightarrow> entry_key \<Rightarrow> nat \<Rightarrow> (segment_id \<times> nat) list \<Rightarrow> cost_sample \<Rightarrow> entry_key list \<Rightarrow>
     benefit_policy \<Rightarrow> admission_decision \<times> benefit_policy" where
  "consider_admission tie key exclusive_bytes shared cost pinned p =
     (if \<not> cost_is_valid cost then (rejected ''invalid-cost-sample'', p)
      else if bt_get (bp_entries p) key \<noteq> None then (rejected ''already-resident-key'', p)
      else if \<not> distinct (map fst shared) then (rejected ''duplicate-segment-reference'', p)
      else if size_conflict p key shared then (rejected ''segment-size-conflict'', p)
      else
        case consider_offer tie key exclusive_bytes shared cost (expire_ghosts (tick_clock p)) of
          (decision, p') \<Rightarrow>
            (if ad_verdict decision = AdmitVerdict
             then decision\<lparr>ad_probation_cap_repair := select_probation_cap_victims p' pinned\<rparr>
             else decision, p'))"

section \<open>Hits, misses and pressure\<close>

definition hit_entry :: "benefit_policy \<Rightarrow> cost_sample \<Rightarrow> policy_entry \<Rightarrow> policy_entry" where
  "hit_entry p cost e =
     (let hits = wrap_add (pe_hits e) 1
      in e\<lparr>pe_hits := hits, pe_last_observation := bp_clock p, pe_last_cost := Some cost,
           pe_reuse_weight := decayed p (pe_reuse_weight e),
           pe_observation_weight := decayed p (pe_observation_weight e),
           pe_state := (if pe_state e = Probation \<and> pc_persistence_hit_threshold (bp_config p) \<le> hits
                        then Admitted else pe_state e)\<rparr>)"

definition record_hit ::
    "entry_key \<Rightarrow> cost_sample \<Rightarrow> benefit_policy \<Rightarrow> admission_decision option \<times> benefit_policy" where
  "record_hit key cost p =
     (if \<not> cost_is_valid cost then (None, p)
      else
        let p = tick_clock p
        in case bt_get (bp_entries p) key of
             None \<Rightarrow> (None, p)
           | Some e \<Rightarrow>
               (if pe_state e = Probation \<and> pe_state (hit_entry p cost e) = Admitted
                then Some \<lparr>ad_kind = Promote, ad_verdict = AdmitVerdict,
                           ad_reasons = [''probation-second-hit''],
                           ad_probation_cap_repair = Satisfied []\<rparr>
                else None,
                p\<lparr>bp_entries := bt_modify key (hit_entry p cost) (bp_entries p)\<rparr>))"

definition record_miss :: "entry_key \<Rightarrow> benefit_policy \<Rightarrow> benefit_policy" where
  "record_miss key p =
     (let p = tick_clock p
      in p\<lparr>bp_entries := bt_modify key (\<lambda>e. e\<lparr>pe_misses := wrap_add (pe_misses e) 1,
             pe_observation_weight := decayed p (pe_observation_weight e)\<rparr>) (bp_entries p)\<rparr>)"

definition observe_pressure :: "f64 \<Rightarrow> benefit_policy \<Rightarrow> benefit_policy" where
  "observe_pressure pressure p =
     (if pressure = F64_NaN then p
      else
        let pressure = (if pressure = F64_Inf False then F64_ONE
                        else if pressure = F64_Inf True then F64_ZERO
                        else f64_clamp pressure F64_ZERO F64_ONE);
            base = dc_factor (pc_decay (bp_config p));
            reuse_factor = f64_mul base (f64_sub F64_ONE pressure);
            observation_factor = f64_add base (f64_mul (f64_sub F64_ONE base) pressure)
        in expire_ghosts
             (p\<lparr>bp_entries := map (\<lambda>(k, e). (k, e\<lparr>pe_reuse_weight := f64_mul (pe_reuse_weight e) reuse_factor,
                  pe_observation_weight := f64_mul (pe_observation_weight e) observation_factor\<rparr>)) (bp_entries p),
                bp_ghosts := map (\<lambda>(k, g). (k, g\<lparr>gs_reuse_weight := f64_mul (gs_reuse_weight g) reuse_factor,
                  gs_observation_weight := f64_mul (gs_observation_weight g) observation_factor\<rparr>)) (bp_ghosts p)\<rparr>))"

section \<open>Removal and eviction\<close>

definition policy_remove ::
    "entry_key \<Rightarrow> entry_key list \<Rightarrow> benefit_policy \<Rightarrow> removal_outcome option \<times> benefit_policy" where
  "policy_remove key pinned p =
     (case bt_get (bp_entries p) key of
        None \<Rightarrow> (None, p)
      | Some entry \<Rightarrow>
          let p = p\<lparr>bp_entries := bt_remove key (bp_entries p),
                    bp_segments := ledger_release (pe_segments entry) key (bp_segments p)\<rparr>;
              p = insert_ghost key
                    \<lparr>gs_hits = pe_hits entry, gs_reuse_weight = pe_reuse_weight entry,
                     gs_observation_weight = pe_observation_weight entry,
                     gs_last_observation = bp_clock p\<rparr> p
          in (Some \<lparr>ro_entry = entry, ro_probation_cap_repair = select_probation_cap_victims p pinned\<rparr>, p))"

definition in_grace :: "benefit_policy \<Rightarrow> policy_entry \<Rightarrow> bool" where
  "in_grace p e \<longleftrightarrow> sat_sub (bp_clock p) (pe_last_observation e) < pc_grace_observations (bp_config p)"

text \<open>The bytes that removing \<open>key\<close> releases once the entries of \<open>selected\<close> are gone.\<close>

definition segment_released :: "benefit_policy \<Rightarrow> entry_key \<Rightarrow> entry_key set \<Rightarrow> segment_id \<Rightarrow> nat" where
  "segment_released p key selected segment =
     (case segment_record (bp_segments p) segment of
        Some r \<Rightarrow>
          if \<exists>other \<in> sr_references r. other \<noteq> key \<and> other \<notin> selected then 0 else sr_size r
      | None \<Rightarrow> 0)"

definition marginal_release :: "benefit_policy \<Rightarrow> entry_key \<Rightarrow> policy_entry \<Rightarrow> entry_key set \<Rightarrow> nat" where
  "marginal_release p key entry selected =
     foldl (\<lambda>release segment. wrap_add release (segment_released p key selected segment))
       (pe_exclusive_bytes entry) (pe_segments entry)"

definition score_cmp :: "f64 \<times> entry_key \<Rightarrow> f64 \<times> entry_key \<Rightarrow> ordering" where
  "score_cmp a b = then_with (f64_total_cmp (fst a) (fst b)) (cmp (snd a) (snd b))"

definition scored_candidates ::
    "(f64 \<Rightarrow> f64 \<Rightarrow> bool) \<Rightarrow> benefit_policy \<Rightarrow> entry_key list \<Rightarrow> (f64 \<times> entry_key) list" where
  "scored_candidates tie p pinned =
     List.map_filter (\<lambda>(k, e). map_option (\<lambda>s. (bs_value s, k))
         (score_compute tie (bp_config p) k e (bp_segments p)))
       (filter (\<lambda>(k, e). k \<notin> set pinned) (bp_entries p))"

definition eviction_order ::
    "(f64 \<Rightarrow> f64 \<Rightarrow> bool) \<Rightarrow> benefit_policy \<Rightarrow> entry_key list \<Rightarrow> entry_key list" where
  "eviction_order tie p pinned =
     by_age (filter (\<lambda>(k, e). k \<notin> set pinned \<and> pe_state e = Probation \<and> pe_hits e = 0) (bp_entries p)) @
     map snd (sort_by score_cmp (scored_candidates tie p pinned))"

type_synonym victim_state = "nat \<times> entry_key list \<times> entry_key set"

primrec eviction_pass ::
    "benefit_policy \<Rightarrow> nat \<Rightarrow> bool \<Rightarrow> entry_key list \<Rightarrow> victim_state \<Rightarrow> victim_state" where
  "eviction_pass p bytes_to_free waive_grace [] s = s"
| "eviction_pass p bytes_to_free waive_grace (key # keys) s =
     (case s of (freed, victims, selected) \<Rightarrow>
        if bytes_to_free \<le> freed then s
        else if key \<in> selected then eviction_pass p bytes_to_free waive_grace keys s
        else
          case bt_get (bp_entries p) key of
            None \<Rightarrow> eviction_pass p bytes_to_free waive_grace keys s
          | Some e \<Rightarrow>
              if \<not> (waive_grace \<or> \<not> in_grace p e) then eviction_pass p bytes_to_free waive_grace keys s
              else eviction_pass p bytes_to_free waive_grace keys
                     (wrap_add freed (marginal_release p key e selected), victims @ [key],
                      insert key selected))"

definition choose_victims ::
    "(f64 \<Rightarrow> f64 \<Rightarrow> bool) \<Rightarrow> nat \<Rightarrow> entry_key list \<Rightarrow> benefit_policy \<Rightarrow> (entry_key \<times> eviction_verdict) list" where
  "choose_victims tie bytes_to_free pinned p =
     (let order = eviction_order tie p pinned;
          s = eviction_pass p bytes_to_free False order (0, [], {});
          s = (if bytes_to_free \<le> fst s then s else eviction_pass p bytes_to_free True order s)
      in map (\<lambda>key. (key, Evict)) (fst (snd s)))"

end
