(* ===== verification/PolicyInvariant.thy ===== *)
theory PolicyInvariant
  imports BenefitPolicy
begin

text \<open>
  The invariant of the admission policy and that every operation keeps it: the ledger follows the
  segment lists of the resident entries, a key is resident or a ghost but not both, ghosts stay within
  their capacity, an entry is admitted exactly when its hits reach the threshold, and the decayed
  weights stay finite.
\<close>

section \<open>Traces\<close>

text \<open>
  One call of a mutating operation. \<open>policy_reach tie config n p\<close>: \<open>p\<close> is reached from \<open>new(config)\<close> in
  \<open>n\<close> calls.
\<close>

datatype policy_event =
    OfferEvent entry_key nat "(segment_id \<times> nat) list" cost_sample "entry_key list"
  | HitEvent entry_key cost_sample
  | MissEvent entry_key
  | PressureEvent f64
  | RemoveEvent entry_key "entry_key list"

fun policy_apply :: "(f64 \<Rightarrow> f64 \<Rightarrow> bool) \<Rightarrow> policy_event \<Rightarrow> benefit_policy \<Rightarrow> benefit_policy" where
  "policy_apply tie (OfferEvent key exclusive_bytes shared cost pinned) p =
     snd (consider_admission tie key exclusive_bytes shared cost pinned p)"
| "policy_apply tie (HitEvent key cost) p = snd (record_hit key cost p)"
| "policy_apply tie (MissEvent key) p = record_miss key p"
| "policy_apply tie (PressureEvent pressure) p = observe_pressure pressure p"
| "policy_apply tie (RemoveEvent key pinned) p = snd (policy_remove key pinned p)"

inductive policy_reach :: "(f64 \<Rightarrow> f64 \<Rightarrow> bool) \<Rightarrow> policy_config \<Rightarrow> nat \<Rightarrow> benefit_policy \<Rightarrow> bool" for tie config where
  policy_start: "policy_new config = Some p \<Longrightarrow> policy_reach tie config 0 p"
| policy_event: "policy_reach tie config n p \<Longrightarrow> policy_reach tie config (Suc n) (policy_apply tie ev p)"

section \<open>The invariant\<close>

abbreviation entry_segments :: "benefit_policy \<Rightarrow> entry_key \<Rightarrow> segment_id list option" where
  "entry_segments p k \<equiv> map_option pe_segments (bt_get (bp_entries p) k)"

abbreviation bounded_weight :: "f64 \<Rightarrow> bool" where
  "bounded_weight \<equiv> f64_within (pow2 54)"

definition entry_inv :: "policy_config \<Rightarrow> nat \<Rightarrow> nat \<Rightarrow> policy_entry \<Rightarrow> bool" where
  "entry_inv config n clock e \<longleftrightarrow>
     distinct (pe_segments e) \<and> bounded_weight (pe_reuse_weight e) \<and> bounded_weight (pe_observation_weight e) \<and>
     (\<exists>cost. pe_last_cost e = Some cost \<and> cost_is_valid cost) \<and>
     (n \<le> U64_MAX \<longrightarrow> pe_hits e \<le> n \<and> pe_last_observation e \<le> clock \<and>
        (pe_state e = Admitted \<longleftrightarrow> pc_persistence_hit_threshold config \<le> pe_hits e))"

definition ghost_inv :: "nat \<Rightarrow> ghost_stats \<Rightarrow> bool" where
  "ghost_inv n g \<longleftrightarrow>
     bounded_weight (gs_reuse_weight g) \<and> bounded_weight (gs_observation_weight g) \<and>
     (n \<le> U64_MAX \<longrightarrow> gs_hits g \<le> n)"

text \<open>The structure of the maps, and what is known of the statistics after \<open>n\<close> calls.\<close>

definition policy_wf :: "benefit_policy \<Rightarrow> bool" where
  "policy_wf p \<longleftrightarrow>
     policy_config_is_valid (bp_config p) \<and> bt_wf (bp_entries p) \<and> bt_wf (bp_ghosts p) \<and>
     ledger_wf (bp_segments p) \<and> ledger.tracks (bp_segments p) (entry_segments p) \<and>
     length (bp_ghosts p) \<le> pc_ghost_capacity (bp_config p) \<and>
     (\<forall>k. bt_get (bp_entries p) k \<noteq> None \<longrightarrow> bt_get (bp_ghosts p) k = None)"

definition policy_stats :: "nat \<Rightarrow> benefit_policy \<Rightarrow> bool" where
  "policy_stats n p \<longleftrightarrow>
     (\<forall>k e. bt_get (bp_entries p) k = Some e \<longrightarrow> entry_inv (bp_config p) n (bp_clock p) e) \<and>
     (\<forall>k g. bt_get (bp_ghosts p) k = Some g \<longrightarrow> ghost_inv n g) \<and>
     (n \<le> U64_MAX \<longrightarrow> bp_clock p \<le> n)"

definition policy_inv :: "nat \<Rightarrow> benefit_policy \<Rightarrow> bool" where
  "policy_inv n p \<longleftrightarrow> policy_wf p \<and> policy_stats n p"

lemmas policy_invD = policy_inv_def policy_wf_def policy_stats_def

section \<open>Weights\<close>

lemma decay_factor_within:
  assumes "policy_config_is_valid config"
  shows "f64_within 1 (dc_factor (pc_decay config))"
  using assms
  by (cases "dc_factor (pc_decay config)")
    (auto simp: policy_config_is_valid_def decay_is_valid_def f64_within_def)

lemma pow2_0 [simp]: "pow2 0 = 1"
  by (simp add: pow2_def)

lemma f64_one_within [simp]: "f64_within 1 F64_ONE"
  by (simp add: f64_within_def)

lemma decayed_bounded:
  assumes "policy_config_is_valid (bp_config p)" and "bounded_weight w"
  shows "bounded_weight (decayed p w)"
proof -
  have "bounded_weight (f64_mul w (dc_factor (pc_decay (bp_config p))))"
    by (rule f64_mul_within [OF assms(2) decay_factor_within [OF assms(1)]]) simp_all
  then show ?thesis unfolding decayed_def
    by (rule f64_add_within [OF _ f64_one_within]) (simp_all add: pow2_def)
qed

lemma f64_opp_finite: "f64_finite v \<Longrightarrow> f64_finite (f64_opp v) \<and> f64_value (f64_opp v) = - f64_value v"
  by (cases v) auto

lemma f64_one_minus:
  assumes v: "f64_within 1 v"
  shows "f64_within 1 (f64_sub F64_ONE v)" and "f64_value (f64_sub F64_ONE v) \<le> 1 - f64_value v + pow2 (- 54)"
proof -
  let ?r = "1 - f64_value v"
  have fin: "f64_finite (f64_opp v)" "f64_value (f64_opp v) = - f64_value v"
    using f64_opp_finite v by (auto simp: f64_within_def)
  have r: "0 \<le> ?r" "?r \<le> 1" using v by (auto simp: f64_within_def)
  have le: "f64_round ?r \<le> pow2 0" using r by (intro f64_round_le_pow2_exact) simp_all
  moreover have "pow2 0 < pow2 1024" by (simp only: pow2_less_iff)
  ultimately have lt: "f64_round ?r < pow2 1024" by simp
  have "f64_sub F64_ONE v = (if ?r = 0 then f64_signed_zero (f64_neg F64_ONE \<and> f64_neg (f64_opp v))
      else f64_of_rat (?r < 0) \<bar>?r\<bar>)"
    using fin by (simp add: f64_sub_def f64_add_finite Let_def del: f64_add.simps)
  then have s: "f64_sub F64_ONE v = (if ?r = 0 then F64_ZERO else f64_of_rat False ?r)"
    using r by (auto simp: f64_signed_zero_def)
  note val = f64_of_rat_value [OF lt, of False]
  show "f64_within 1 (f64_sub F64_ONE v)"
    using s val le f64_round_nonneg [OF r(1)] by (auto simp: f64_within_def)
  show "f64_value (f64_sub F64_ONE v) \<le> 1 - f64_value v + pow2 (- 54)"
    using s val f64_round_unit_error [OF r] r by (auto split: if_splits)
qed

lemma f64_mul_unit_error:
  assumes a: "f64_within 1 a" and b: "f64_within 1 b"
  shows "f64_value (f64_mul a b) \<le> f64_value a + pow2 (- 54)"
proof -
  let ?r = "f64_value a * f64_value b"
  have fin: "f64_finite a" "f64_finite b" using a b by (auto simp: f64_within_def)
  have "?r \<le> f64_value a * 1" using a b by (intro mult_left_mono) (auto simp: f64_within_def)
  then have r: "0 \<le> ?r" "?r \<le> 1" "?r \<le> f64_value a" using a b by (auto simp: f64_within_def)
  have "f64_round ?r \<le> pow2 0" using r by (intro f64_round_le_pow2_exact) simp_all
  moreover have "pow2 0 < pow2 1024" by (simp only: pow2_less_iff)
  ultimately have lt: "f64_round ?r < pow2 1024" by simp
  have "f64_mul a b = f64_of_rat (f64_neg a \<noteq> f64_neg b) ?r"
    using fin r(1) by (auto simp: f64_mul_def Let_def f64_not_NaN)
  then have "f64_value (f64_mul a b) \<le> f64_round ?r"
    using f64_of_rat_value(2) [OF lt] f64_round_nonneg [OF r(1)] by (auto split: if_splits)
  then show ?thesis using f64_round_unit_error [OF r(1,2)] r(3) by linarith
qed

text \<open>The factors of \<open>observe_pressure\<close> are in the unit interval, in spite of rounding.\<close>

definition pressure_level :: "f64 \<Rightarrow> f64" where
  "pressure_level pressure =
     (if pressure = F64_Inf False then F64_ONE
      else if pressure = F64_Inf True then F64_ZERO
      else f64_clamp pressure F64_ZERO F64_ONE)"

lemma pressure_level_within: "pressure \<noteq> F64_NaN \<Longrightarrow> f64_within 1 (pressure_level pressure)"
  by (cases pressure) (auto simp: pressure_level_def f64_clamp_def f64_within_def Let_def)

lemma observation_factor_within:
  assumes base: "f64_within 1 base" and level: "f64_within 1 level"
  shows "f64_within 1 (f64_add base (f64_mul (f64_sub F64_ONE base) level))"
proof -
  let ?d = "f64_sub F64_ONE base" and ?m = "f64_mul (f64_sub F64_ONE base) level"
  note d = f64_one_minus [OF base]
  have m: "f64_within (pow2 0) ?m" by (rule f64_mul_within [OF d(1) level]) simp_all
  have "f64_value ?m \<le> f64_value ?d + pow2 (- 54)" by (rule f64_mul_unit_error [OF d(1) level])
  moreover have "pow2 (- 53) = 2 * pow2 (- 54)" by (simp add: pow2_def)
  ultimately have le: "f64_value ?m \<le> 1 - f64_value base + pow2 (- 53)" using d(2) by linarith
  have "f64_within (f64_value base) base" using base by (simp add: f64_within_def)
  moreover have "f64_within (1 - f64_value base + pow2 (- 53)) ?m" using m le by (simp add: f64_within_def)
  ultimately have "f64_within (pow2 0) (f64_add base ?m)" by (rule f64_add_within) simp_all
  then show ?thesis by simp
qed

lemma scaled_bounded: "bounded_weight w \<Longrightarrow> f64_within 1 v \<Longrightarrow> bounded_weight (f64_mul w v)"
  by (rule f64_mul_within [OF _ _ order_refl]) simp_all

section \<open>Maps\<close>

lemma bt_get_map_values: "bt_get (map (\<lambda>(k, v). (k, f v)) m) k = map_option f (bt_get m k)"
  by (induction m) (auto simp: bt_get_Cons)

lemma keys_map_values: "map fst (map (\<lambda>(k, v). (k, f v)) m) = map fst m"
  by (induction m) auto

lemma bt_wf_map_values [simp]: "bt_wf (map (\<lambda>(k, v). (k, f v)) m) = bt_wf m"
  unfolding bt_wf_def keys_map_values ..

lemma bt_wf_filter [simp]: "bt_wf m \<Longrightarrow> bt_wf (filter Q m)"
  by (induction m) (auto simp: bt_wf_Cons)

lemma get_filtered:
  assumes "bt_wf m" and "bt_get (filter Q m) k = Some v"
  shows "bt_get m k = Some v"
  using assms by (simp add: bt_get_Some_iff)

section \<open>Ghosts\<close>

lemma drop_oldest_ghosts_spec:
  assumes "bt_wf gs"
  shows "bt_wf (drop_oldest_ghosts c gs) \<and> set (drop_oldest_ghosts c gs) \<subseteq> set gs \<and>
    (0 < c \<longrightarrow> length (drop_oldest_ghosts c gs) < c)"
  using assms
proof (induction c gs rule: drop_oldest_ghosts.induct)
  case (1 c gs)
  show ?case
  proof (cases "c \<le> length gs")
    case True
    show ?thesis
    proof (cases "oldest_ghost gs")
      case None
      then have "gs = []" by (simp add: oldest_ghost_def)
      then show ?thesis using True None by (simp add: drop_oldest_ghosts.simps)
    next
      case (Some k)
      have "set (bt_remove k gs) \<subseteq> set gs" by (auto simp: set_bt_remove)
      then show ?thesis using 1(1) [OF True Some] 1(2) True Some
        by (auto simp: drop_oldest_ghosts.simps [of c gs])
    qed
  next
    case False
    then show ?thesis using 1(2) by (simp add: drop_oldest_ghosts.simps [of c gs])
  qed
qed

lemma insert_ghost_fields [simp]:
  "bp_config (insert_ghost k g p) = bp_config p" "bp_entries (insert_ghost k g p) = bp_entries p"
  "bp_segments (insert_ghost k g p) = bp_segments p" "bp_clock (insert_ghost k g p) = bp_clock p"
  by (simp_all add: insert_ghost_def)

lemma insert_ghost_ghosts:
  assumes "bt_wf (bp_ghosts p)" and "length (bp_ghosts p) \<le> pc_ghost_capacity (bp_config p)"
  shows "bt_wf (bp_ghosts (insert_ghost k g p)) \<and>
    length (bp_ghosts (insert_ghost k g p)) \<le> pc_ghost_capacity (bp_config p) \<and>
    (\<forall>k' g'. bt_get (bp_ghosts (insert_ghost k g p)) k' = Some g' \<longrightarrow>
       k' = k \<and> g' = g \<or> bt_get (bp_ghosts p) k' = Some g')"
proof (cases "pc_ghost_capacity (bp_config p) = 0")
  case True
  then show ?thesis using assms by (simp add: insert_ghost_def)
next
  case False
  let ?c = "pc_ghost_capacity (bp_config p)"
  let ?gs = "drop_oldest_ghosts ?c (bp_ghosts p)"
  have gs: "bt_wf ?gs" "set ?gs \<subseteq> set (bp_ghosts p)" "length ?gs < ?c"
    using drop_oldest_ghosts_spec [OF assms(1), of ?c] False by auto
  have "bt_get (bp_ghosts p) k' = Some g'" if "bt_get ?gs k' = Some g'" for k' g'
    using that gs(1,2) assms(1) by (auto simp: bt_get_Some_iff)
  then show ?thesis using gs False
    by (auto simp: insert_ghost_def length_bt_insert bt_get_insert)
qed

lemma expire_ghosts_fields [simp]:
  "bp_config (expire_ghosts p) = bp_config p" "bp_entries (expire_ghosts p) = bp_entries p"
  "bp_segments (expire_ghosts p) = bp_segments p" "bp_clock (expire_ghosts p) = bp_clock p"
  by (simp_all add: expire_ghosts_def Let_def)

lemma expire_ghosts_get:
  "bt_wf (bp_ghosts p) \<Longrightarrow> bt_get (bp_ghosts (expire_ghosts p)) k = Some g \<Longrightarrow> bt_get (bp_ghosts p) k = Some g"
  by (auto simp: expire_ghosts_def Let_def intro: get_filtered)

lemma policy_wf_expire: "policy_wf p \<Longrightarrow> policy_wf (expire_ghosts p)"
proof -
  assume wf: "policy_wf p"
  have "bt_get (bp_ghosts (expire_ghosts p)) k = None" if "bt_get (bp_entries p) k \<noteq> None" for k
    using that wf expire_ghosts_get [of p k] unfolding policy_wf_def
    by (cases "bt_get (bp_ghosts (expire_ghosts p)) k") auto
  moreover have "bt_wf (bp_ghosts (expire_ghosts p))"
    "length (bp_ghosts (expire_ghosts p)) \<le> pc_ghost_capacity (bp_config p)"
    using wf by (auto simp: policy_wf_def expire_ghosts_def Let_def intro: le_trans [OF length_filter_le])
  ultimately show ?thesis using wf by (simp add: policy_wf_def)
qed

lemma policy_stats_expire: "policy_wf p \<Longrightarrow> policy_stats n p \<Longrightarrow> policy_stats n (expire_ghosts p)"
  by (auto simp: policy_stats_def policy_wf_def dest: expire_ghosts_get)

section \<open>The clock\<close>

lemma tick_fields [simp]:
  "bp_config (tick_clock p) = bp_config p" "bp_entries (tick_clock p) = bp_entries p"
  "bp_segments (tick_clock p) = bp_segments p" "bp_ghosts (tick_clock p) = bp_ghosts p"
  by (simp_all add: tick_clock_def)

lemma tick_clock_exact:
  "policy_stats n p \<Longrightarrow> Suc n \<le> U64_MAX \<Longrightarrow> bp_clock (tick_clock p) = Suc (bp_clock p) \<and> bp_clock p \<le> n"
  using wrap_add_exact [of "bp_clock p" 1] by (simp add: tick_clock_def policy_stats_def)

lemma entry_inv_mono:
  "entry_inv config n clock e \<Longrightarrow> n \<le> m \<Longrightarrow> (m \<le> U64_MAX \<Longrightarrow> clock \<le> clock') \<Longrightarrow> entry_inv config m clock' e"
  by (auto simp: entry_inv_def)

lemma entry_inv_Suc: "entry_inv config n clock e \<Longrightarrow> entry_inv config (Suc n) clock e"
  by (auto simp: entry_inv_def)

lemma ghost_inv_Suc: "ghost_inv n g \<Longrightarrow> ghost_inv (Suc n) g"
  by (auto simp: ghost_inv_def)

lemma policy_wf_tick: "policy_wf p \<Longrightarrow> policy_wf (tick_clock p)"
  by (simp add: policy_wf_def)

lemma policy_stats_Suc: "policy_stats n p \<Longrightarrow> policy_stats (Suc n) p"
  by (auto simp: policy_stats_def intro: entry_inv_Suc ghost_inv_Suc)

lemma policy_stats_tick:
  assumes p: "policy_stats n p"
  shows "policy_stats (Suc n) (tick_clock p)"
proof -
  note t = tick_clock_exact [OF p]
  have "entry_inv (bp_config p) (Suc n) (bp_clock (tick_clock p)) e" if "bt_get (bp_entries p) k = Some e" for k e
  proof (rule entry_inv_mono)
    show "entry_inv (bp_config p) n (bp_clock p) e" using p that by (simp add: policy_stats_def)
    show "Suc n \<le> U64_MAX \<Longrightarrow> bp_clock p \<le> bp_clock (tick_clock p)" using t by simp
  qed simp
  moreover have "ghost_inv (Suc n) g" if "bt_get (bp_ghosts p) k = Some g" for k g
    using p that by (auto simp: policy_stats_def intro: ghost_inv_Suc)
  moreover have "bp_clock (tick_clock p) \<le> Suc n" if "Suc n \<le> U64_MAX" using t [OF that] by simp
  ultimately show ?thesis by (simp add: policy_stats_def)
qed

end
