(* ===== verification/PolicySteps.thy ===== *)
theory PolicySteps
  imports PolicyInvariant
begin

text \<open>
  Every operation of the admission policy keeps its invariant, so every reachable policy has it
  (\<open>policy_reach_inv\<close>).
\<close>

section \<open>Offers\<close>

text \<open>The entry an accepted offer creates.\<close>

definition offered_entry ::
    "benefit_policy \<Rightarrow> entry_key \<Rightarrow> nat \<Rightarrow> (segment_id \<times> nat) list \<Rightarrow> cost_sample \<Rightarrow> policy_entry" where
  "offered_entry p key exclusive_bytes shared cost =
     (let ghost = recurrence p key
      in \<lparr>pe_state = (if pc_persistence_hit_threshold (bp_config p) \<le> gs_hits ghost then Admitted else Probation),
          pe_hits = gs_hits ghost, pe_misses = 0, pe_reuse_weight = gs_reuse_weight ghost,
          pe_observation_weight = gs_observation_weight ghost, pe_last_cost = Some cost,
          pe_exclusive_bytes = exclusive_bytes, pe_segments = map fst shared,
          pe_last_observation = bp_clock p\<rparr>)"

definition admit_offer ::
    "entry_key \<Rightarrow> nat \<Rightarrow> (segment_id \<times> nat) list \<Rightarrow> cost_sample \<Rightarrow> benefit_policy \<Rightarrow> benefit_policy" where
  "admit_offer key exclusive_bytes shared cost p =
     p\<lparr>bp_ghosts := bt_remove key (bp_ghosts p),
       bp_segments := foldl (\<lambda>l (segment, bytes). ledger_add segment bytes key l) (bp_segments p) shared,
       bp_entries := bt_insert key (offered_entry p key exclusive_bytes shared cost) (bp_entries p)\<rparr>"

lemma admit_offer_fields [simp]:
  "bp_config (admit_offer key b shared cost p) = bp_config p"
  "bp_clock (admit_offer key b shared cost p) = bp_clock p"
  "bp_ghosts (admit_offer key b shared cost p) = bt_remove key (bp_ghosts p)"
  "bp_entries (admit_offer key b shared cost p) =
     bt_insert key (offered_entry p key b shared cost) (bp_entries p)"
  by (simp_all add: admit_offer_def)

lemma offered_entry_segments [simp]: "pe_segments (offered_entry p key b shared cost) = map fst shared"
  by (simp add: offered_entry_def Let_def)

text \<open>Every way an offer can end.\<close>

lemma consider_admission_cases:
  assumes "consider_admission tie key b shared cost pinned p = (d, p')"
  obtains (structural) reason where "d = rejected reason" "p' = p"
      "\<not> cost_is_valid cost \<or> bt_get (bp_entries p) key \<noteq> None \<or> \<not> distinct (map fst shared) \<or>
       size_conflict p key shared"
    | (no_benefit) "d = rejected ''no-net-benefit''" "p' = expire_ghosts (tick_clock p)"
      "cost_is_valid cost" "f64_le (net_benefit tie cost) F64_ZERO"
    | (admitted) "ad_verdict d = AdmitVerdict"
      "ad_kind d = (if pe_state (offered_entry (expire_ghosts (tick_clock p)) key b shared cost) = Admitted
                    then AdmitPersist else AdmitProbation)"
      "ad_probation_cap_repair d = select_probation_cap_victims p' pinned"
      "p' = admit_offer key b shared cost (expire_ghosts (tick_clock p))"
      "cost_is_valid cost" "bt_get (bp_entries p) key = None" "distinct (map fst shared)"
      "\<not> size_conflict p key shared" "\<not> f64_le (net_benefit tie cost) F64_ZERO"
proof -
  let ?q = "expire_ghosts (tick_clock p)"
  have sc: "size_conflict ?q key shared = size_conflict p key shared" by (simp add: size_conflict_def)
  consider (s) "\<not> cost_is_valid cost \<or> bt_get (bp_entries p) key \<noteq> None \<or> \<not> distinct (map fst shared) \<or>
      size_conflict p key shared"
    | (n) "cost_is_valid cost" "bt_get (bp_entries p) key = None" "distinct (map fst shared)"
      "\<not> size_conflict p key shared" "f64_le (net_benefit tie cost) F64_ZERO"
    | (a) "cost_is_valid cost" "bt_get (bp_entries p) key = None" "distinct (map fst shared)"
      "\<not> size_conflict p key shared" "\<not> f64_le (net_benefit tie cost) F64_ZERO"
    by blast
  then show ?thesis
  proof cases
    case s
    then show ?thesis using assms structural by (auto simp: consider_admission_def split: if_splits)
  next
    case n
    then show ?thesis
      using assms sc by (intro no_benefit) (auto simp: consider_admission_def consider_offer_def rejected_def)
  next
    case a
    have c: "consider_offer tie key b shared cost ?q =
      (\<lparr>ad_kind = (if pe_state (offered_entry ?q key b shared cost) = Admitted then AdmitPersist else AdmitProbation),
        ad_verdict = AdmitVerdict,
        ad_reasons = (if b = 0 \<and> shared = [] then [''zero-exclusive-bytes''] else [''probation-new-entry'']),
        ad_probation_cap_repair = Satisfied []\<rparr>, admit_offer key b shared cost ?q)"
      using a sc by (simp add: consider_offer_def admit_offer_def offered_entry_def Let_def)
    show ?thesis using assms a c by (intro admitted) (auto simp: consider_admission_def)
  qed
qed

lemma policy_wf_admit:
  assumes wf: "policy_wf q" and new: "bt_get (bp_entries q) key = None"
  shows "policy_wf (admit_offer key b shared cost q)"
proof -
  let ?p = "admit_offer key b shared cost q"
  have e: "bt_wf (bp_entries q)" "ledger_wf (bp_segments q)" using wf by (auto simp: policy_wf_def)
  have seg: "bp_segments ?p = foldl (\<lambda>l (segment, bytes). ledger_add segment bytes key l) (bp_segments q) shared"
    by (simp add: admit_offer_def)
  have "entry_segments ?p = (entry_segments q)(key \<mapsto> map fst shared)"
    using e by (auto simp: bt_get_insert fun_eq_iff)
  moreover have "ledger.tracks (bp_segments ?p) ((entry_segments q)(key \<mapsto> map fst shared))"
    unfolding seg using wf new by (intro ledger.tracks_add_all) (auto simp: policy_wf_def)
  moreover have "ledger_wf (bp_segments ?p)" unfolding seg by (rule ledger.wf_add_all [OF e(2)])
  moreover have "length (bt_remove key (bp_ghosts q)) \<le> pc_ghost_capacity (bp_config q)"
    using wf length_bt_remove_le [of key "bp_ghosts q"] by (simp add: policy_wf_def)
  ultimately show ?thesis using wf e
    by (auto simp: policy_wf_def bt_get_insert bt_get_remove)
qed

lemma recurrence_inv:
  assumes p: "policy_wf p" and st: "policy_stats n p"
  shows "ghost_inv (Suc n) (recurrence p key)"
proof (cases "bt_get (bp_ghosts p) key")
  case None
  then show ?thesis by (simp add: recurrence_def no_ghost_def ghost_inv_def f64_within_def)
next
  case (Some g)
  have g: "ghost_inv n g" using st Some by (simp add: policy_stats_def)
  have v: "policy_config_is_valid (bp_config p)" using p by (simp add: policy_wf_def)
  have "wrap_add (gs_hits g) 1 \<le> Suc n" if "Suc n \<le> U64_MAX"
    using that g by (simp add: ghost_inv_def wrap_add_exact)
  then show ?thesis using g decayed_bounded [OF v] by (simp add: recurrence_def Some ghost_inv_def)
qed

lemma recurrence_tick [simp]: "recurrence (tick_clock p) key = recurrence p key"
  by (simp add: recurrence_def decayed_def split: option.split)

lemma policy_inv_offer:
  assumes inv: "policy_inv n p"
  shows "policy_inv (Suc n) (snd (consider_admission tie key b shared cost pinned p))"
proof -
  obtain d p' where c: "consider_admission tie key b shared cost pinned p = (d, p')" by fastforce
  let ?q = "expire_ghosts (tick_clock p)"
  have wf: "policy_wf ?q" and st: "policy_stats (Suc n) ?q"
    using inv by (auto simp: policy_inv_def intro: policy_wf_expire policy_wf_tick policy_stats_expire policy_stats_tick)
  from c show ?thesis
  proof (cases rule: consider_admission_cases)
    case structural
    then show ?thesis using c inv policy_stats_Suc by (simp add: policy_inv_def)
  next
    case no_benefit
    then show ?thesis using c wf st by (simp add: policy_inv_def)
  next
    case admitted
    have new: "bt_get (bp_entries ?q) key = None" using admitted by simp
    have bt: "bt_wf (bp_entries p)" using inv by (simp add: policy_invD)
    have rec: "ghost_inv (Suc n) (recurrence ?q key)"
    proof -
      have "ghost_inv (Suc n) (recurrence p key)"
        using inv by (intro recurrence_inv) (auto simp: policy_inv_def)
      moreover have "recurrence ?q key = recurrence p key \<or> recurrence ?q key = no_ghost"
      proof (cases "bt_get (bp_ghosts ?q) key")
        case None
        then show ?thesis by (simp add: recurrence_def)
      next
        case (Some g)
        then have "bt_get (bp_ghosts p) key = Some g"
          using expire_ghosts_get [of "tick_clock p" key g] inv by (simp add: policy_invD)
        then show ?thesis using Some by (simp add: recurrence_def decayed_def)
      qed
      moreover have "ghost_inv (Suc n) no_ghost" by (simp add: no_ghost_def ghost_inv_def f64_within_def)
      ultimately show ?thesis by auto
    qed
    have "entry_inv (bp_config p) (Suc n) (bp_clock ?q) (offered_entry ?q key b shared cost)"
      using rec admitted by (auto simp: entry_inv_def offered_entry_def Let_def ghost_inv_def)
    then have "policy_stats (Suc n) (admit_offer key b shared cost ?q)"
      using st bt by (auto simp: policy_stats_def bt_get_insert bt_get_remove split: if_splits)
    then show ?thesis using c admitted policy_wf_admit [OF wf new] by (simp add: policy_inv_def)
  qed
qed

section \<open>Hits, misses and pressure\<close>

text \<open>An operation that only rewrites the statistics of entries and ghosts keeps the structure.\<close>

lemma policy_wf_stats_only:
  assumes wf: "policy_wf p" and same: "bp_config p' = bp_config p" "bp_segments p' = bp_segments p"
    and e: "map fst (bp_entries p') = map fst (bp_entries p)" "entry_segments p' = entry_segments p"
    and g: "map fst (bp_ghosts p') = map fst (bp_ghosts p)"
  shows "policy_wf p'"
proof -
  have "bt_wf (bp_entries p')" "bt_wf (bp_ghosts p')" "length (bp_ghosts p') = length (bp_ghosts p)"
    using wf e g by (auto simp: policy_wf_def bt_wf_def dest: map_eq_imp_length_eq)
  moreover have "bt_get (bp_ghosts p') k = None \<longleftrightarrow> bt_get (bp_ghosts p) k = None" for k
    by (simp only: bt_get_None_iff g)
  moreover have "bt_get (bp_entries p') k = None \<longleftrightarrow> bt_get (bp_entries p) k = None" for k
    by (simp only: bt_get_None_iff e)
  ultimately show ?thesis using wf same e(2) by (simp add: policy_wf_def)
qed

lemma hit_entry_segments [simp]: "pe_segments (hit_entry p cost e) = pe_segments e"
  by (simp add: hit_entry_def Let_def)

lemma entry_inv_hit:
  assumes v: "policy_config_is_valid (bp_config p)" and e: "entry_inv (bp_config p) n clock e"
    and cost: "cost_is_valid cost"
  shows "entry_inv (bp_config p) (Suc n) (bp_clock p) (hit_entry p cost e)"
proof -
  have "wrap_add (pe_hits e) 1 = Suc (pe_hits e)" "pe_hits e \<le> n" if "Suc n \<le> U64_MAX"
    using that e by (auto simp: entry_inv_def wrap_add_exact)
  then show ?thesis using e cost decayed_bounded [OF v]
    by (cases "pe_state e") (auto simp: entry_inv_def hit_entry_def Let_def)
qed

lemma policy_inv_hit:
  assumes inv: "policy_inv n p"
  shows "policy_inv (Suc n) (snd (record_hit key cost p))"
proof (cases "cost_is_valid cost")
  case False
  then show ?thesis using inv policy_stats_Suc by (simp add: record_hit_def policy_inv_def)
next
  case cost: True
  let ?q = "tick_clock p"
  have wf: "policy_wf ?q" and st: "policy_stats (Suc n) ?q"
    using inv by (auto simp: policy_inv_def intro: policy_wf_tick policy_stats_tick)
  show ?thesis
  proof (cases "bt_get (bp_entries p) key")
    case None
    then show ?thesis using wf st cost by (simp add: record_hit_def Let_def policy_inv_def)
  next
    case (Some e)
    let ?p = "?q\<lparr>bp_entries := bt_modify key (hit_entry ?q cost) (bp_entries p)\<rparr>"
    have r: "snd (record_hit key cost p) = ?p" using cost Some by (simp add: record_hit_def Let_def)
    have "policy_wf ?p"
      by (rule policy_wf_stats_only [OF wf]) (auto simp: bt_get_modify fun_eq_iff Some split: option.split)
    moreover have "entry_inv (bp_config p) (Suc n) (bp_clock ?q) (hit_entry ?q cost e)"
      using entry_inv_hit [of ?q n "bp_clock p" e cost] inv Some cost by (auto simp: policy_invD)
    then have "policy_stats (Suc n) ?p"
      using st Some by (auto simp: policy_stats_def bt_get_modify split: if_splits)
    ultimately show ?thesis by (simp add: r policy_inv_def)
  qed
qed

lemma policy_inv_miss:
  assumes inv: "policy_inv n p"
  shows "policy_inv (Suc n) (record_miss key p)"
proof -
  let ?q = "tick_clock p"
  let ?f = "\<lambda>e. e\<lparr>pe_misses := wrap_add (pe_misses e) 1,
    pe_observation_weight := decayed ?q (pe_observation_weight e)\<rparr>"
  let ?p = "?q\<lparr>bp_entries := bt_modify key ?f (bp_entries p)\<rparr>"
  have wf: "policy_wf ?q" and st: "policy_stats (Suc n) ?q"
    using inv by (auto simp: policy_inv_def intro: policy_wf_tick policy_stats_tick)
  have v: "policy_config_is_valid (bp_config ?q)" using wf by (simp add: policy_wf_def)
  have "policy_wf ?p"
    by (rule policy_wf_stats_only [OF wf]) (auto simp: bt_get_modify fun_eq_iff option.map_comp comp_def)
  moreover have "entry_inv c m t (?f e)" if "entry_inv c m t e" for c m t e
    using that decayed_bounded [OF v] by (simp add: entry_inv_def)
  then have "policy_stats (Suc n) ?p"
    using st by (auto simp: policy_stats_def bt_get_modify split: if_splits)
  ultimately show ?thesis by (simp add: record_miss_def Let_def policy_inv_def)
qed

lemma policy_inv_pressure:
  assumes inv: "policy_inv n p"
  shows "policy_inv (Suc n) (observe_pressure pressure p)"
proof (cases "pressure = F64_NaN")
  case True
  then show ?thesis using inv policy_stats_Suc by (simp add: observe_pressure_def policy_inv_def)
next
  case False
  let ?base = "dc_factor (pc_decay (bp_config p))" and ?level = "pressure_level pressure"
  let ?r = "f64_mul ?base (f64_sub F64_ONE ?level)"
  let ?o = "f64_add ?base (f64_mul (f64_sub F64_ONE ?base) ?level)"
  let ?f = "\<lambda>e. e\<lparr>pe_reuse_weight := f64_mul (pe_reuse_weight e) ?r,
    pe_observation_weight := f64_mul (pe_observation_weight e) ?o\<rparr>"
  let ?g = "\<lambda>g. g\<lparr>gs_reuse_weight := f64_mul (gs_reuse_weight g) ?r,
    gs_observation_weight := f64_mul (gs_observation_weight g) ?o\<rparr>"
  let ?p = "p\<lparr>bp_entries := map (\<lambda>(k, e). (k, ?f e)) (bp_entries p),
    bp_ghosts := map (\<lambda>(k, g). (k, ?g g)) (bp_ghosts p)\<rparr>"
  have wf: "policy_wf p" and st: "policy_stats (Suc n) p"
    using inv policy_stats_Suc by (auto simp: policy_inv_def)
  have base: "f64_within 1 ?base" using wf by (intro decay_factor_within) (simp add: policy_wf_def)
  have level: "f64_within 1 ?level" by (rule pressure_level_within [OF False])
  have r: "f64_within 1 ?r" using f64_mul_within [OF base f64_one_minus(1) [OF level], of 0] by simp
  have o: "f64_within 1 ?o" by (rule observation_factor_within [OF base level])
  have "policy_wf ?p"
    by (rule policy_wf_stats_only [OF wf])
      (auto simp: bt_get_map_values keys_map_values fun_eq_iff option.map_comp comp_def)
  moreover have "policy_stats (Suc n) ?p"
    using st scaled_bounded [OF _ r] scaled_bounded [OF _ o]
    by (auto simp: policy_stats_def bt_get_map_values entry_inv_def ghost_inv_def)
  moreover have "observe_pressure pressure p = expire_ghosts ?p"
    using False by (simp add: observe_pressure_def Let_def pressure_level_def)
  ultimately show ?thesis
    by (simp add: policy_inv_def policy_wf_expire policy_stats_expire)
qed

section \<open>Removal\<close>

text \<open>The state after a committed removal.\<close>

definition removed_state :: "entry_key \<Rightarrow> policy_entry \<Rightarrow> benefit_policy \<Rightarrow> benefit_policy" where
  "removed_state key entry p =
     insert_ghost key
       \<lparr>gs_hits = pe_hits entry, gs_reuse_weight = pe_reuse_weight entry,
        gs_observation_weight = pe_observation_weight entry, gs_last_observation = bp_clock p\<rparr>
       (p\<lparr>bp_entries := bt_remove key (bp_entries p),
          bp_segments := ledger_release (pe_segments entry) key (bp_segments p)\<rparr>)"

lemma removed_state_fields [simp]:
  "bp_config (removed_state key e p) = bp_config p" "bp_clock (removed_state key e p) = bp_clock p"
  "bp_entries (removed_state key e p) = bt_remove key (bp_entries p)"
  "bp_segments (removed_state key e p) = ledger_release (pe_segments e) key (bp_segments p)"
  by (simp_all add: removed_state_def)

lemma policy_remove_eq:
  "policy_remove key pinned p =
     (case bt_get (bp_entries p) key of
        None \<Rightarrow> (None, p)
      | Some entry \<Rightarrow>
          (Some \<lparr>ro_entry = entry,
                 ro_probation_cap_repair = select_probation_cap_victims (removed_state key entry p) pinned\<rparr>,
           removed_state key entry p))"
  by (simp add: policy_remove_def removed_state_def Let_def split: option.split)

lemma policy_inv_removed:
  assumes inv: "policy_inv n p" and e: "bt_get (bp_entries p) key = Some e"
  shows "policy_inv n (removed_state key e p)"
proof -
  let ?p = "removed_state key e p"
  let ?g = "\<lparr>gs_hits = pe_hits e, gs_reuse_weight = pe_reuse_weight e,
    gs_observation_weight = pe_observation_weight e, gs_last_observation = bp_clock p\<rparr>"
  have wf: "policy_wf p" and st: "policy_stats n p" using inv by (auto simp: policy_inv_def)
  have g: "bt_wf (bp_ghosts ?p)" "length (bp_ghosts ?p) \<le> pc_ghost_capacity (bp_config p)"
    and gg: "\<And>k' g'. bt_get (bp_ghosts ?p) k' = Some g' \<Longrightarrow> k' = key \<and> g' = ?g \<or> bt_get (bp_ghosts p) k' = Some g'"
    unfolding removed_state_def
    using insert_ghost_ghosts [of "p\<lparr>bp_entries := bt_remove key (bp_entries p),
          bp_segments := ledger_release (pe_segments e) key (bp_segments p)\<rparr>" key ?g] wf
    by (simp_all add: policy_wf_def)
  have "entry_segments ?p = (entry_segments p)(key := None)" by (auto simp: bt_get_remove fun_eq_iff)
  moreover have "ledger.tracks (bp_segments ?p) ((entry_segments p)(key := None))"
    unfolding removed_state_fields using wf e by (intro ledger.tracks_release) (auto simp: policy_wf_def)
  moreover have "bt_get (bp_ghosts ?p) k = None" if "bt_get (bp_entries ?p) k \<noteq> None" for k
  proof (rule ccontr)
    assume "bt_get (bp_ghosts ?p) k \<noteq> None"
    then obtain g' where "bt_get (bp_ghosts ?p) k = Some g'" by auto
    then show False using gg [of k g'] that wf by (auto simp: bt_get_remove policy_wf_def split: if_splits)
  qed
  ultimately have "policy_wf ?p" using wf g by (simp add: policy_wf_def ledger_wf_release)
  moreover have g0: "ghost_inv n ?g" using st e by (auto simp: policy_stats_def entry_inv_def ghost_inv_def)
  have "ghost_inv n g'" if "bt_get (bp_ghosts ?p) k = Some g'" for k g'
    using gg [OF that] g0 st by (auto simp: policy_stats_def)
  then have "policy_stats n ?p"
    using st by (auto simp: policy_stats_def bt_get_remove split: if_splits)
  ultimately show ?thesis by (simp add: policy_inv_def)
qed

lemma policy_inv_remove:
  "policy_inv n p \<Longrightarrow> policy_inv n (snd (policy_remove key pinned p))"
  by (auto simp: policy_remove_eq policy_inv_removed split: option.split)

section \<open>Reachable policies\<close>

lemma policy_inv_new: "policy_new config = Some p \<Longrightarrow> policy_inv 0 p"
  by (auto simp: policy_new_def policy_invD ledger.tracks_def ledger_refs_def split: if_splits)

lemma policy_inv_apply: "policy_inv n p \<Longrightarrow> policy_inv (Suc n) (policy_apply tie ev p)"
proof (cases ev)
  case (RemoveEvent key pinned)
  assume "policy_inv n p"
  then show ?thesis
    using RemoveEvent policy_inv_remove [of n p key pinned] policy_stats_Suc by (auto simp: policy_inv_def)
qed (simp_all add: policy_inv_offer policy_inv_hit policy_inv_miss policy_inv_pressure)

text \<open>The contract of an invariant of a step relation, on policies with the number of calls so far.\<close>

interpretation policy: step_invariant
  "\<lambda>(n, p). n = 0 \<and> policy_new config = Some p"
  "\<lambda>(n, p) (m, q). \<exists>ev. m = Suc n \<and> q = policy_apply tie ev p"
  "\<lambda>(n, p). policy_inv n p" for config tie
  by unfold_locales (auto intro: policy_inv_new policy_inv_apply)

lemma policy_reach_steps:
  "policy_reach tie config n p \<Longrightarrow>
   \<exists>p0. policy_new config = Some p0 \<and>
     (\<lambda>(n, p) (m, q). \<exists>ev. m = Suc n \<and> q = policy_apply tie ev p)\<^sup>*\<^sup>* (0, p0) (n, p)"
proof (induction rule: policy_reach.induct)
  case (policy_start p)
  then show ?case by blast
next
  case (policy_event n p ev)
  then obtain p0 where "policy_new config = Some p0"
    "(\<lambda>(n, p) (m, q). \<exists>ev. m = Suc n \<and> q = policy_apply tie ev p)\<^sup>*\<^sup>* (0, p0) (n, p)" by blast
  then show ?case by (intro exI [of _ p0]) (auto intro: rtranclp.rtrancl_into_rtrancl)
qed

lemma policy_reach_inv:
  assumes "policy_reach tie config n p"
  shows "policy_inv n p"
proof -
  obtain p0 where p0: "policy_new config = Some p0"
    "(\<lambda>(n, p) (m, q). \<exists>ev. m = Suc n \<and> q = policy_apply tie ev p)\<^sup>*\<^sup>* (0, p0) (n, p)"
    using policy_reach_steps [OF assms] by blast
  have "case (n, p) of (n, p) \<Rightarrow> policy_inv n p"
    by (rule policy.reachable_inv [where config = config, OF _ p0(2)]) (simp add: p0(1))
  then show ?thesis by simp
qed

lemma policy_apply_config [simp]: "bp_config (policy_apply tie ev p) = bp_config p"
proof (cases ev)
  case (OfferEvent key b shared cost pinned)
  obtain d p' where c: "consider_admission tie key b shared cost pinned p = (d, p')" by fastforce
  then have "bp_config p' = bp_config p" by (cases rule: consider_admission_cases) auto
  then show ?thesis using OfferEvent c by simp
qed (auto simp: record_hit_def record_miss_def observe_pressure_def policy_remove_eq Let_def split: option.split)

lemma policy_reach_config: "policy_reach tie config n p \<Longrightarrow> bp_config p = config"
  by (induction rule: policy_reach.induct) (auto simp: policy_new_def split: if_splits)

end
