(* ===== verification/PolicyEviction.thy ===== *)
theory PolicyEviction
  imports PolicySteps
begin

text \<open>
  What a selection of victims promises about the removals its caller commits: the marginal releases of
  the eviction loop are the physical bytes the removals free, and the scratch ledger of the cap repair
  is the ledger after them.
\<close>

section \<open>Committed removals\<close>

definition commit_removals :: "entry_key list \<Rightarrow> entry_key list \<Rightarrow> benefit_policy \<Rightarrow> benefit_policy" where
  "commit_removals pinned keys p = foldl (\<lambda>p k. snd (policy_remove k pinned p)) p keys"

text \<open>The bytes a policy accounts for: exclusive bytes and every shared segment once.\<close>

definition physical_bytes :: "benefit_policy \<Rightarrow> nat" where
  "physical_bytes p =
     sum_list (map (\<lambda>(k, e). pe_exclusive_bytes e) (bp_entries p)) + ledger_bytes (bp_segments p)"

lemma commit_Nil [simp]: "commit_removals pinned [] p = p"
  by (simp add: commit_removals_def)

lemma commit_snoc: "commit_removals pinned (ks @ [k]) p = snd (policy_remove k pinned (commit_removals pinned ks p))"
  by (simp add: commit_removals_def)

lemma commit_Cons: "commit_removals pinned (k # ks) p = commit_removals pinned ks (snd (policy_remove k pinned p))"
  by (simp add: commit_removals_def)

lemma commit_fields [simp]:
  "bp_config (commit_removals pinned ks p) = bp_config p"
  "bp_clock (commit_removals pinned ks p) = bp_clock p"
  by (induction ks arbitrary: p) (auto simp: commit_Cons policy_remove_eq split: option.split)

lemma policy_inv_commit: "policy_inv n p \<Longrightarrow> policy_inv n (commit_removals pinned ks p)"
  by (induction ks arbitrary: p) (auto simp: commit_Cons policy_inv_remove)

lemma commit_entries:
  "bp_entries (commit_removals pinned ks p) = filter (\<lambda>ke. fst ke \<notin> set ks) (bp_entries p)"
proof (induction ks arbitrary: p)
  case Nil
  then show ?case by simp
next
  case (Cons k ks)
  have "bp_entries (snd (policy_remove k pinned p)) = bt_remove k (bp_entries p)"
  proof (cases "bt_get (bp_entries p) k")
    case None
    then have "filter (\<lambda>e. fst e \<noteq> k) (bp_entries p) = bp_entries p"
      by (auto simp: bt_get_None_iff intro: filter_True)
    then show ?thesis using None by (simp add: policy_remove_eq bt_remove_def)
  qed (simp add: policy_remove_eq)
  then show ?case by (simp add: commit_Cons Cons.IH bt_remove_def conj_commute)
qed

lemma commit_entry:
  assumes "policy_inv n p"
  shows "bt_get (bp_entries (commit_removals pinned ks p)) k =
    (if k \<in> set ks then None else bt_get (bp_entries p) k)"
proof -
  have wf: "bt_wf (bp_entries p)" using assms by (simp add: policy_invD)
  have "(k, e) \<in> set (bp_entries (commit_removals pinned ks p)) \<longleftrightarrow> k \<notin> set ks \<and> (k, e) \<in> set (bp_entries p)" for e
    by (auto simp: commit_entries)
  then have "bt_get (bp_entries (commit_removals pinned ks p)) k = Some e \<longleftrightarrow>
      k \<notin> set ks \<and> bt_get (bp_entries p) k = Some e" for e
    using wf by (simp add: bt_get_Some_iff commit_entries)
  then show ?thesis by (metis not_None_eq)
qed

text \<open>The segments after a commit: the references of the removed entries are gone, sizes stay.\<close>

lemma policy_refs:
  "policy_inv n p \<Longrightarrow> ledger_refs (bp_segments p) s =
     {k. \<exists>e. bt_get (bp_entries p) k = Some e \<and> s \<in> set (pe_segments e)}"
  by (auto simp: policy_invD ledger.tracks_def)

lemma commit_refs:
  assumes "policy_inv n p"
  shows "ledger_refs (bp_segments (commit_removals pinned ks p)) s = ledger_refs (bp_segments p) s - set ks"
  using policy_refs [OF policy_inv_commit [OF assms]] policy_refs [OF assms]
  by (auto simp: commit_entry [OF assms] split: if_splits)

lemma release_one_size:
  "bt_get (ledger_release_one k l s) t = Some r \<Longrightarrow> \<exists>r0. bt_get l t = Some r0 \<and> sr_size r = sr_size r0"
  by (auto simp: get_release_one split: if_splits option.splits)

lemma release_size:
  "bt_get (ledger_release ss k l) t = Some r \<Longrightarrow> \<exists>r0. bt_get l t = Some r0 \<and> sr_size r = sr_size r0"
proof (induction ss arbitrary: l)
  case (Cons s ss)
  then show ?case using release_one_size by (fastforce simp: ledger_release_Cons)
qed simp

lemma commit_size:
  "bt_get (bp_segments (commit_removals pinned ks p)) t = Some r \<Longrightarrow>
   \<exists>r0. bt_get (bp_segments p) t = Some r0 \<and> sr_size r = sr_size r0"
proof (induction ks arbitrary: p)
  case (Cons k ks)
  let ?q = "snd (policy_remove k pinned p)"
  obtain r1 where r1: "bt_get (bp_segments ?q) t = Some r1" "sr_size r = sr_size r1"
    using Cons by (auto simp: commit_Cons)
  then show ?case
    by (cases "bt_get (bp_entries p) k") (auto simp: policy_remove_eq dest: release_size)
qed simp

section \<open>Released bytes\<close>

lemma ledger_get_refs:
  "ledger_wf l \<Longrightarrow> ledger_refs l s \<noteq> {} \<Longrightarrow> \<exists>r. bt_get l s = Some r \<and> sr_references r = ledger_refs l s"
  by (auto simp: ledger_refs_def split: option.splits)

text \<open>What the loop computes for a victim is what the removal after the earlier victims frees.\<close>

lemma segment_released_last_reference:
  assumes inv: "policy_inv n p" and e: "bt_get (bp_entries p) key = Some e"
    and new: "key \<notin> set ks" and s: "s \<in> set (pe_segments e)"
  shows "segment_released p key (set ks) s = last_reference (bp_segments (commit_removals pinned ks p)) key s"
proof -
  let ?l = "bp_segments p" and ?m = "bp_segments (commit_removals pinned ks p)"
  have wf: "ledger_wf ?l" "ledger_wf ?m"
    using inv policy_inv_commit [OF inv] by (auto simp: policy_invD)
  have key: "key \<in> ledger_refs ?l s" using policy_refs [OF inv] e s by auto
  then obtain r where r: "bt_get ?l s = Some r" "sr_references r = ledger_refs ?l s"
    using ledger_get_refs [OF wf(1)] by blast
  have m: "ledger_refs ?m s = ledger_refs ?l s - set ks" by (rule commit_refs [OF inv])
  then obtain r' where r': "bt_get ?m s = Some r'" "sr_references r' = ledger_refs ?l s - set ks"
    using ledger_get_refs [OF wf(2), of s] key new by auto
  have "sr_size r' = sr_size r" using commit_size [OF r'(1)] r(1) by auto
  then show ?thesis using r r'
    by (auto simp: segment_released_def segment_record_def last_reference_def)
qed

lemma foldl_wrap_add:
  "a + sum_list (map f xs) \<le> U64_MAX \<Longrightarrow> foldl (\<lambda>r x. wrap_add r (f x)) a xs = a + sum_list (map f xs)"
proof (induction xs arbitrary: a)
  case (Cons x xs)
  then have "wrap_add a (f x) = a + f x" by (intro wrap_add_exact) simp
  then show ?case using Cons by simp
qed simp

lemma physical_bytes_removed:
  assumes inv: "policy_inv n p" and e: "bt_get (bp_entries p) key = Some e"
  shows "physical_bytes p = pe_exclusive_bytes e +
      sum_list (map (last_reference (bp_segments p) key) (pe_segments e)) +
      physical_bytes (snd (policy_remove key pinned p))"
proof -
  have wf: "bt_wf (bp_entries p)" "ledger_wf (bp_segments p)" using inv by (auto simp: policy_invD)
  have d: "distinct (pe_segments e)" using inv e by (auto simp: policy_invD entry_inv_def)
  let ?f = "\<lambda>(k, e). pe_exclusive_bytes e"
  have "mset (bp_entries p) = add_mset (key, e) (mset (bt_remove key (bp_entries p)))"
    by (rule mset_bt_remove [OF wf(1) e])
  then have "sum_mset (image_mset ?f (mset (bp_entries p))) =
      pe_exclusive_bytes e + sum_mset (image_mset ?f (mset (bt_remove key (bp_entries p))))" by simp
  then have "sum_list (map ?f (bp_entries p)) = pe_exclusive_bytes e + sum_list (map ?f (bt_remove key (bp_entries p)))"
    by (simp only: mset_map [symmetric] sum_mset_sum_list)
  then show ?thesis
    using ledger_bytes_release [OF wf(2) d, of key] e by (simp add: physical_bytes_def policy_remove_eq)
qed

lemma marginal_release_exact:
  assumes inv: "policy_inv n p" and e: "bt_get (bp_entries p) key = Some e" and new: "key \<notin> set ks"
    and small: "physical_bytes p \<le> U64_MAX"
    and acc: "freed + physical_bytes (commit_removals pinned ks p) = physical_bytes p"
  shows "wrap_add freed (marginal_release p key e (set ks)) +
    physical_bytes (commit_removals pinned (ks @ [key]) p) = physical_bytes p"
proof -
  let ?q = "commit_removals pinned ks p"
  let ?sum = "pe_exclusive_bytes e + sum_list (map (last_reference (bp_segments ?q) key) (pe_segments e))"
  have q: "policy_inv n ?q" "bt_get (bp_entries ?q) key = Some e"
    using policy_inv_commit [OF inv] commit_entry [OF inv] e new by auto
  note r = physical_bytes_removed [OF q, of pinned]
  have m: "map (segment_released p key (set ks)) (pe_segments e) = map (last_reference (bp_segments ?q) key) (pe_segments e)"
    using segment_released_last_reference [OF inv e new] by (intro map_cong) auto
  have le: "?sum \<le> U64_MAX" using r acc small by linarith
  have "marginal_release p key e (set ks) = ?sum"
    unfolding marginal_release_def m [symmetric]
    by (rule foldl_wrap_add) (simp only: m le)
  moreover have "wrap_add freed ?sum = freed + ?sum" by (rule wrap_add_exact) (use r acc small in simp)
  ultimately show ?thesis using r acc by (simp add: commit_snoc)
qed

section \<open>The eviction passes\<close>

lemma set_by_age [simp]: "set (by_age kes) = fst ` set kes"
  by (force simp: by_age_def)

lemma mset_by_age: "mset (by_age kes) = mset (map fst kes)"
  by (simp add: by_age_def multiset.map_comp comp_def)

text \<open>An entry eviction may take: unpinned, and a probationer without a hit or one with a score.\<close>

definition evictable :: "(f64 \<Rightarrow> f64 \<Rightarrow> bool) \<Rightarrow> benefit_policy \<Rightarrow> entry_key list \<Rightarrow> entry_key \<Rightarrow> bool" where
  "evictable tie p pinned key \<longleftrightarrow>
     key \<notin> set pinned \<and>
     (case bt_get (bp_entries p) key of
        None \<Rightarrow> False
      | Some e \<Rightarrow> pe_state e = Probation \<and> pe_hits e = 0 \<or> policy_score tie p key \<noteq> None)"

lemma set_filter_map: "set (List.map_filter f xs) = {y. \<exists>x \<in> set xs. f x = Some y}"
  by (force simp: List.map_filter_def)

lemma set_eviction_order:
  assumes "policy_inv n p"
  shows "set (eviction_order tie p pinned) = {k. evictable tie p pinned k}"
proof -
  have wf: "bt_wf (bp_entries p)" using assms by (simp add: policy_invD)
  have get: "bt_get (bp_entries p) k = Some e \<longleftrightarrow> (k, e) \<in> set (bp_entries p)" for k e
    by (rule bt_get_Some_iff [OF wf])
  have "snd ` set (scored_candidates tie p pinned) =
      {k. k \<notin> set pinned \<and> (\<exists>e. bt_get (bp_entries p) k = Some e \<and> policy_score tie p k \<noteq> None)}"
    unfolding get by (auto simp: scored_candidates_def set_filter_map policy_score_def get [symmetric] image_iff) force+
  then show ?thesis
    by (auto simp: eviction_order_def evictable_def get [symmetric] image_iff split: option.splits)
qed

text \<open>
  What holds of the accumulators of the loop: the victims are distinct residents from the candidates,
  \<open>freed\<close> is what committing them frees, and it was below the target before the last one.
\<close>

definition evict_acc :: "benefit_policy \<Rightarrow> nat \<Rightarrow> entry_key list \<Rightarrow> entry_key set \<Rightarrow> victim_state \<Rightarrow> bool" where
  "evict_acc p need pinned cands s \<longleftrightarrow>
     (case s of (freed, victims, selected) \<Rightarrow>
        selected = set victims \<and> distinct victims \<and> set victims \<subseteq> cands \<and>
        freed + physical_bytes (commit_removals pinned victims p) = physical_bytes p \<and>
        (victims \<noteq> [] \<longrightarrow>
           physical_bytes p < need + physical_bytes (commit_removals pinned (butlast victims) p)))"

lemma eviction_pass_acc:
  assumes inv: "policy_inv n p" and small: "physical_bytes p \<le> U64_MAX"
  shows "evict_acc p need pinned cands s \<Longrightarrow> set keys \<subseteq> cands \<Longrightarrow>
    evict_acc p need pinned cands (eviction_pass p need w keys s)"
proof (induction keys arbitrary: s)
  case Nil
  then show ?case by simp
next
  case (Cons key keys)
  obtain freed vs sel where s: "s = (freed, vs, sel)" by (cases s)
  have acc: "sel = set vs" "distinct vs" "set vs \<subseteq> cands"
      "freed + physical_bytes (commit_removals pinned vs p) = physical_bytes p"
    using Cons.prems(1) by (auto simp: evict_acc_def s)
  have ks: "set keys \<subseteq> cands" using Cons.prems(2) by simp
  show ?case
  proof (cases "need \<le> freed \<or> key \<in> sel \<or> bt_get (bp_entries p) key = None")
    case True
    then show ?thesis using Cons.prems Cons.IH [OF Cons.prems(1) ks] by (auto simp: s split: option.split)
  next
    case False
    then obtain e where e: "bt_get (bp_entries p) key = Some e" by auto
    let ?s = "(wrap_add freed (marginal_release p key e sel), vs @ [key], insert key sel)"
    have "wrap_add freed (marginal_release p key e sel) +
        physical_bytes (commit_removals pinned (vs @ [key]) p) = physical_bytes p"
      using marginal_release_exact [OF inv e _ small acc(4)] False acc(1) by simp
    then have "evict_acc p need pinned cands ?s"
      using acc False Cons.prems(2) by (auto simp: evict_acc_def)
    then have "evict_acc p need pinned cands (eviction_pass p need w keys ?s)"
      by (rule Cons.IH [OF _ ks])
    moreover have "evict_acc p need pinned cands (eviction_pass p need w keys s)"
      by (rule Cons.IH [OF Cons.prems(1) ks])
    ultimately show ?thesis using False e by (auto simp: s)
  qed
qed

text \<open>A pass ends with the target met or with every candidate it may take selected.\<close>

lemma eviction_pass_keeps:
  "snd (snd s) \<subseteq> snd (snd (eviction_pass p need w keys s))"
proof (induction keys arbitrary: s)
  case (Cons key keys)
  obtain freed vs sel where s: "s = (freed, vs, sel)" by (cases s)
  show ?case
    using Cons.IH [of s]
      Cons.IH [of "(wrap_add freed (marginal_release p key e sel), vs @ [key], insert key sel)" for e]
    by (auto simp: s Let_def split: option.split)
qed simp

lemma eviction_pass_complete:
  assumes "\<not> need \<le> fst (eviction_pass p need w keys s)" and "key \<in> set keys"
    and "bt_get (bp_entries p) key = Some e" and "w \<or> \<not> in_grace p e"
  shows "key \<in> snd (snd (eviction_pass p need w keys s))"
  using assms
proof (induction keys arbitrary: s)
  case Nil
  then show ?case by simp
next
  case (Cons k keys)
  obtain freed vs sel where s: "s = (freed, vs, sel)" by (cases s)
  have below: "\<not> need \<le> freed" using Cons.prems(1) by (auto simp: s)
  show ?case
  proof (cases "key = k")
    case True
    let ?s = "(wrap_add freed (marginal_release p k e sel), vs @ [k], insert k sel)"
    show ?thesis
      using Cons.prems True below eviction_pass_keeps [of s p need w keys] eviction_pass_keeps [of ?s p need w keys]
      by (auto simp: s)
  next
    case False
    then have k: "key \<in> set keys" using Cons.prems(2) by simp
    show ?thesis
      using Cons.IH [OF _ k Cons.prems(3,4)] Cons.prems(1) below by (auto simp: s split: option.splits if_splits)
  qed
qed

text \<open>The first pass takes no entry in grace.\<close>

lemma eviction_pass_grace:
  assumes "key \<in> snd (snd (eviction_pass p need False keys s))" and "key \<notin> snd (snd s)"
    and "bt_get (bp_entries p) key = Some e"
  shows "\<not> in_grace p e"
  using assms
proof (induction keys arbitrary: s)
  case (Cons k keys)
  obtain freed vs sel where s: "s = (freed, vs, sel)" by (cases s)
  show ?case
  proof (cases "need \<le> freed \<or> k \<in> sel \<or> bt_get (bp_entries p) k = None")
    case True
    then show ?thesis using Cons.prems Cons.IH [of s] by (auto simp: s split: option.splits if_splits)
  next
    case False
    then obtain e' where e': "bt_get (bp_entries p) k = Some e'" by auto
    let ?s = "(wrap_add freed (marginal_release p k e' sel), vs @ [k], insert k sel)"
    show ?thesis
    proof (cases "in_grace p e'")
      case True
      then show ?thesis using Cons.prems Cons.IH [of s] False e' by (simp add: s)
    next
      case g: False
      then have "eviction_pass p need False (k # keys) s = eviction_pass p need False keys ?s"
        using False e' by (simp add: s)
      then show ?thesis using Cons.IH [of ?s] Cons.prems g e' by (cases "key = k") (auto simp: s)
    qed
  qed
qed simp

end
