(* ===== verification/PolicyRepair.thy ===== *)
theory PolicyRepair
  imports PolicyEviction
begin

text \<open>
  The repair of the probation cap: the simulation on the scratch ledger follows the removals it
  proposes, and its charge is what \<open>probation_bytes\<close> reports after them.
\<close>

section \<open>The two sums of the charge\<close>

text \<open>
  The simulation sums from the negative zero, \<open>probation_bytes\<close> from the positive one; the results
  are equal or both zero.
\<close>

definition same_number :: "f64 \<Rightarrow> f64 \<Rightarrow> bool" where
  "same_number a b \<longleftrightarrow> a = b \<or> a \<in> {F64_ZERO, F64_NegZero} \<and> b \<in> {F64_ZERO, F64_NegZero}"

lemma same_number_add: "same_number a b \<Longrightarrow> same_number (f64_add a x) (f64_add b x)"
proof -
  assume ab: "same_number a b"
  show ?thesis
  proof (cases "a = b")
    case False
    then have z: "a \<in> {F64_ZERO, F64_NegZero}" "b \<in> {F64_ZERO, F64_NegZero}"
      using ab by (auto simp: same_number_def)
    then show ?thesis by (cases x) (auto simp: same_number_def Let_def f64_signed_zero_def)
  qed (simp add: same_number_def)
qed

lemma same_number_foldl: "same_number a b \<Longrightarrow> same_number (foldl f64_add a xs) (foldl f64_add b xs)"
  by (induction xs arbitrary: a b) (auto intro: same_number_add)

lemma same_number_u64: "same_number a b \<Longrightarrow> f64_as_u64 (f64_ceil a) = f64_as_u64 (f64_ceil b)"
  by (auto simp: same_number_def)

lemma foldl_filter: "foldl (\<lambda>a x. if P x then f a (g x) else a) z xs = foldl f z (map g (filter P xs))"
  by (induction xs arbitrary: z) auto

lemma probation_bytes_sum:
  "probation_bytes p = f64_as_u64 (f64_ceil (f64_sum (map (entry_charge (bp_segments p))
     (filter (\<lambda>ke. pe_state (snd ke) = Probation) (bp_entries p)))))"
proof -
  have "probation_bytes p = f64_as_u64 (f64_ceil (foldl f64_add F64_ZERO (map (entry_charge (bp_segments p))
      (filter (\<lambda>ke. pe_state (snd ke) = Probation) (bp_entries p)))))"
    unfolding probation_bytes_def
    by (subst foldl_filter [where P = "\<lambda>ke. pe_state (snd ke) = Probation" and f = f64_add
          and g = "entry_charge (bp_segments p)"]) (rule refl)
  also have "\<dots> = f64_as_u64 (f64_ceil (f64_sum (map (entry_charge (bp_segments p))
      (filter (\<lambda>ke. pe_state (snd ke) = Probation) (bp_entries p)))))"
    unfolding f64_sum_def by (intro same_number_u64 same_number_foldl) (simp add: same_number_def)
  finally show ?thesis .
qed

text \<open>After the commit, the class is charged what the simulation computed.\<close>

lemma scratch_charge_commit:
  "scratch_charge p (bp_segments (commit_removals pinned ks p)) (set ks) = probation_bytes (commit_removals pinned ks p)"
  by (simp add: scratch_charge_def probation_bytes_sum commit_entries conj_commute)

section \<open>The simulation\<close>

definition repair_acc ::
    "benefit_policy \<Rightarrow> entry_key list \<Rightarrow> segment_ledger \<times> entry_key set \<times> entry_key list \<Rightarrow> bool" where
  "repair_acc p pinned acc \<longleftrightarrow>
     (case acc of (scratch, removed, victims) \<Rightarrow>
        scratch = bp_segments (commit_removals pinned victims p) \<and> removed = set victims \<and> distinct victims \<and>
        (victims \<noteq> [] \<longrightarrow>
           pc_probation_byte_budget (bp_config p) < probation_bytes (commit_removals pinned (butlast victims) p)))"

lemma repair_acc_step:
  assumes inv: "policy_inv n p" and acc: "repair_acc p pinned (scratch, removed, victims)"
    and e: "bt_get (bp_entries p) key = Some e" and new: "key \<notin> set victims"
    and over: "pc_probation_byte_budget (bp_config p) < probation_bytes (commit_removals pinned victims p)"
  shows "repair_acc p pinned (ledger_release (pe_segments e) key scratch, insert key removed, victims @ [key])"
proof -
  have "bt_get (bp_entries (commit_removals pinned victims p)) key = Some e"
    using commit_entry [OF inv] e new by simp
  then show ?thesis using acc new over by (simp add: repair_acc_def commit_snoc policy_remove_eq)
qed

lemma repair_loop_spec:
  assumes inv: "policy_inv n p"
  shows "repair_acc p pinned acc \<Longrightarrow> distinct keys \<Longrightarrow> set keys \<inter> set (snd (snd acc)) = {} \<Longrightarrow>
    (\<And>k. k \<in> set keys \<Longrightarrow> bt_get (bp_entries p) k \<noteq> None) \<Longrightarrow>
    pc_probation_byte_budget (bp_config p) < probation_bytes (commit_removals pinned (snd (snd acc)) p) \<Longrightarrow>
    repair_loop p keys acc = (scratch, removed, victims) \<Longrightarrow>
    repair_acc p pinned (scratch, removed, victims) \<and>
    set victims \<subseteq> set (snd (snd acc)) \<union> set keys \<and>
    (pc_probation_byte_budget (bp_config p) < probation_bytes (commit_removals pinned victims p) \<longrightarrow>
       set keys \<subseteq> set victims \<and> set (snd (snd acc)) \<subseteq> set victims)"
proof (induction keys arbitrary: acc)
  case Nil
  then show ?case by auto
next
  case (Cons key keys)
  obtain sc rm vs where a: "acc = (sc, rm, vs)" by (cases acc)
  obtain e where e: "bt_get (bp_entries p) key = Some e" using Cons.prems(4) [of key] by auto
  let ?acc = "(ledger_release (pe_segments e) key sc, insert key rm, vs @ [key])"
  have step: "repair_acc p pinned ?acc"
    using repair_acc_step [OF inv _ e] Cons.prems(1,3,5) by (simp add: a)
  then have charge: "scratch_charge p (fst ?acc) (fst (snd ?acc)) = probation_bytes (commit_removals pinned (vs @ [key]) p)"
    by (simp add: repair_acc_def scratch_charge_commit [of p pinned "vs @ [key]", symmetric])
  show ?case
  proof (cases "scratch_charge p (fst ?acc) (fst (snd ?acc)) \<le> pc_probation_byte_budget (bp_config p)")
    case True
    then have "(scratch, removed, victims) = ?acc" using Cons.prems(6) e by (simp add: a Let_def)
    then show ?thesis using step True charge by (auto simp: a)
  next
    case False
    then have loop: "repair_loop p keys ?acc = (scratch, removed, victims)"
      using Cons.prems(6) e by (simp add: a Let_def)
    have "pc_probation_byte_budget (bp_config p) < probation_bytes (commit_removals pinned (snd (snd ?acc)) p)"
      using False charge by simp
    from Cons.IH [OF step _ _ _ this loop] show ?thesis
      using Cons.prems(2,3,4) by (auto simp: a)
  qed
qed

lemma repair_candidates_mset:
  "mset (repair_candidates p pinned) =
   mset (map fst (filter (\<lambda>(k, e). pe_state e = Probation \<and> k \<notin> set pinned) (bp_entries p)))"
proof -
  have "mset (map fst (filter (\<lambda>(k, e). pe_state e = Probation \<and> pe_hits e = 0 \<and> k \<notin> set pinned) es)) +
      mset (map fst (filter (\<lambda>(k, e). pe_state e = Probation \<and> 0 < pe_hits e \<and> k \<notin> set pinned) es)) =
      mset (map fst (filter (\<lambda>(k, e). pe_state e = Probation \<and> k \<notin> set pinned) es))" for es :: "(nat \<times> policy_entry) list"
    by (induction es) auto
  then show ?thesis by (simp add: repair_candidates_def mset_by_age del: mset_map)
qed

lemma repair_candidates:
  assumes inv: "policy_inv n p"
  shows "distinct (repair_candidates p pinned)"
    and "k \<in> set (repair_candidates p pinned) \<longleftrightarrow>
      k \<notin> set pinned \<and> (\<exists>e. bt_get (bp_entries p) k = Some e \<and> pe_state e = Probation)"
proof -
  have wf: "bt_wf (bp_entries p)" using inv by (simp add: policy_invD)
  let ?f = "filter (\<lambda>(k, e). pe_state e = Probation \<and> k \<notin> set pinned) (bp_entries p)"
  have "distinct (map fst ?f)" using bt_wf_distinct [OF wf] by (rule distinct_map_filter)
  then show "distinct (repair_candidates p pinned)"
    using repair_candidates_mset [of p pinned] mset_eq_imp_distinct_iff by blast
  have "set (repair_candidates p pinned) = set (map fst ?f)"
    using repair_candidates_mset [of p pinned] by (rule mset_eq_setD)
  then show "k \<in> set (repair_candidates p pinned) \<longleftrightarrow>
      k \<notin> set pinned \<and> (\<exists>e. bt_get (bp_entries p) k = Some e \<and> pe_state e = Probation)"
    by (auto simp: bt_get_Some_iff [OF wf] image_iff)
qed

text \<open>The result of the selection against the state after its removals.\<close>

lemma select_cap_spec:
  assumes inv: "policy_inv n p" and r: "r = select_probation_cap_victims p pinned"
    and q: "q = commit_removals pinned (cap_victims r) p"
  shows "distinct (cap_victims r)"
    and "set (cap_victims r) \<subseteq> {k. k \<notin> set pinned \<and> (\<exists>e. bt_get (bp_entries p) k = Some e \<and> pe_state e = Probation)}"
    and "is_deferred r \<longleftrightarrow> pc_probation_byte_budget (bp_config p) < probation_bytes q"
    and "shortfall_bytes r = probation_bytes q - pc_probation_byte_budget (bp_config p)"
    and "is_deferred r \<Longrightarrow> set (cap_victims r) = set (repair_candidates p pinned)"
    and "cap_victims r \<noteq> [] \<Longrightarrow>
      pc_probation_byte_budget (bp_config p) < probation_bytes (commit_removals pinned (butlast (cap_victims r)) p)"
proof -
  let ?cap = "pc_probation_byte_budget (bp_config p)"
  let ?cands = "{k. k \<notin> set pinned \<and> (\<exists>e. bt_get (bp_entries p) k = Some e \<and> pe_state e = Probation)}"
  have "distinct (cap_victims r) \<and> set (cap_victims r) \<subseteq> ?cands \<and>
    (is_deferred r \<longleftrightarrow> ?cap < probation_bytes q) \<and> shortfall_bytes r = probation_bytes q - ?cap \<and>
    (is_deferred r \<longrightarrow> set (cap_victims r) = set (repair_candidates p pinned)) \<and>
    (cap_victims r \<noteq> [] \<longrightarrow> ?cap < probation_bytes (commit_removals pinned (butlast (cap_victims r)) p))"
  proof (cases "probation_bytes p \<le> ?cap")
    case True
    then have "r = Satisfied []" using r by (simp add: select_probation_cap_victims_def)
    then show ?thesis using True q by simp
  next
    case over: False
    obtain sc rm vs where loop: "repair_loop p (repair_candidates p pinned) (bp_segments p, {}, []) = (sc, rm, vs)"
      by (metis prod_cases3)
    have acc0: "repair_acc p pinned (bp_segments p, {}, [])" by (simp add: repair_acc_def)
    have spec: "repair_acc p pinned (sc, rm, vs)" "set vs \<subseteq> set (repair_candidates p pinned)"
      "?cap < probation_bytes (commit_removals pinned vs p) \<longrightarrow> set (repair_candidates p pinned) \<subseteq> set vs"
      using repair_loop_spec [OF inv acc0 repair_candidates(1) [OF inv] _ _ _ loop] over
      by (auto simp: repair_candidates(2) [OF inv])
    have "scratch_charge p sc rm = probation_bytes (commit_removals pinned vs p)"
      using spec(1) by (simp add: repair_acc_def scratch_charge_commit)
    then have r': "r = (if probation_bytes (commit_removals pinned vs p) \<le> ?cap then Satisfied vs
        else Deferred vs (probation_bytes (commit_removals pinned vs p) - ?cap))"
      using over loop r by (simp add: select_probation_cap_victims_def Let_def)
    then have v: "cap_victims r = vs" by simp
    show ?thesis using spec r' q v repair_candidates(2) [OF inv, of _ pinned]
      by (auto simp: repair_acc_def)
  qed
  then show "distinct (cap_victims r)" "set (cap_victims r) \<subseteq> ?cands"
    "is_deferred r \<longleftrightarrow> ?cap < probation_bytes q" "shortfall_bytes r = probation_bytes q - ?cap"
    "is_deferred r \<Longrightarrow> set (cap_victims r) = set (repair_candidates p pinned)"
    "cap_victims r \<noteq> [] \<Longrightarrow> ?cap < probation_bytes (commit_removals pinned (butlast (cap_victims r)) p)"
    by blast+
qed

end
