(* ===== verification/PolicyProperties.thy ===== *)
theory PolicyProperties
  imports PolicyRepair
begin

text \<open>
  The properties of the admission policy in every state that calls of its operations can reach, with
  their witnesses on a small cache.
\<close>

section \<open>Single facts\<close>

lemma f64_of_rat_not_NaN [simp]: "f64_of_rat s x \<noteq> F64_NaN"
  by (simp add: f64_of_rat_def f64_signed_zero_def Let_def)

lemma f64_clamp_unit:
  "v \<noteq> F64_NaN \<Longrightarrow> f64_le F64_ZERO (f64_clamp v F64_ZERO F64_ONE) \<and> f64_le (f64_clamp v F64_ZERO F64_ONE) F64_ONE"
  by (cases v) (auto simp: f64_clamp_def f64_le_def Let_def)

lemma reuse_probability_unit:
  assumes "f64_finite (pe_reuse_weight e)" and "f64_finite (pe_observation_weight e)"
  shows "f64_le F64_ZERO (reuse_probability e) \<and> f64_le (reuse_probability e) F64_ONE"
proof (cases "f64_le (pe_observation_weight e) F64_ZERO")
  case True
  then show ?thesis by (simp add: reuse_probability_def f64_le_def)
next
  case False
  have "f64_value (pe_observation_weight e) \<noteq> 0"
    using False assms(2) by (cases "pe_observation_weight e") (auto simp: f64_le_def)
  then have "f64_div (pe_reuse_weight e) (pe_observation_weight e) \<noteq> F64_NaN"
    using assms by (auto simp: f64_div_def Let_def)
  then show ?thesis using False f64_clamp_unit by (simp add: reuse_probability_def)
qed

lemma commit_shrinks:
  "policy_inv n p \<Longrightarrow> physical_bytes (commit_removals pinned ks p) \<le> physical_bytes p"
proof (induction ks arbitrary: p)
  case (Cons k ks)
  let ?q = "snd (policy_remove k pinned p)"
  have "physical_bytes (commit_removals pinned ks ?q) \<le> physical_bytes ?q"
    using Cons.IH [OF policy_inv_remove [OF Cons.prems]] .
  moreover have "physical_bytes ?q \<le> physical_bytes p"
    using physical_bytes_removed [OF Cons.prems, of k _ pinned]
    by (cases "bt_get (bp_entries p) k") (simp_all add: policy_remove_eq)
  ultimately show ?case by (simp add: commit_Cons)
qed simp

text \<open>What \<open>choose_victims\<close> returns.\<close>

lemma choose_victims_spec:
  assumes inv: "policy_inv n p" and small: "physical_bytes p \<le> U64_MAX"
    and vs: "vs = map fst (choose_victims tie need pinned p)"
  shows "distinct vs" and "set vs \<subseteq> {k. evictable tie p pinned k}"
    and "vs \<noteq> [] \<Longrightarrow> physical_bytes p < need + physical_bytes (commit_removals pinned (butlast vs) p)"
    and "need + physical_bytes (commit_removals pinned vs p) \<le> physical_bytes p \<or>
      set vs = {k. evictable tie p pinned k}"
    and "k \<in> set vs \<Longrightarrow> bt_get (bp_entries p) k = Some e \<Longrightarrow> in_grace p e \<Longrightarrow>
      evictable tie p pinned k' \<Longrightarrow> bt_get (bp_entries p) k' = Some e' \<Longrightarrow> \<not> in_grace p e' \<Longrightarrow> k' \<in> set vs"
proof -
  let ?order = "eviction_order tie p pinned" and ?C = "{k. evictable tie p pinned k}"
  define s1 where "s1 = eviction_pass p need False ?order (0, [], {})"
  define s where "s = (if need \<le> fst s1 then s1 else eviction_pass p need True ?order s1)"
  have C: "set ?order = ?C" by (rule set_eviction_order [OF inv])
  have "evict_acc p need pinned ?C (0, [], {})" by (simp add: evict_acc_def)
  then have a1: "evict_acc p need pinned ?C s1"
    unfolding s1_def by (rule eviction_pass_acc [OF inv small]) (simp add: C)
  then have a: "evict_acc p need pinned ?C s"
    unfolding s_def using eviction_pass_acc [OF inv small a1, of ?order True] by (simp add: C)
  have v: "vs = fst (snd s)" by (simp add: vs choose_victims_def Let_def s_def s1_def comp_def)
  have sel: "snd (snd s) = set vs" and sel1: "snd (snd s1) = set (fst (snd s1))"
    using a a1 by (auto simp: evict_acc_def v split: prod.splits)
  show "distinct vs" "set vs \<subseteq> ?C"
    "vs \<noteq> [] \<Longrightarrow> physical_bytes p < need + physical_bytes (commit_removals pinned (butlast vs) p)"
    using a by (auto simp: evict_acc_def v split: prod.splits)
  have freed: "fst s + physical_bytes (commit_removals pinned vs p) = physical_bytes p"
    using a by (auto simp: evict_acc_def v split: prod.splits)
  have resident: "\<exists>e. bt_get (bp_entries p) k = Some e" if "evictable tie p pinned k" for k
    using that by (auto simp: evictable_def split: option.splits)
  have "?C \<subseteq> set vs" if "\<not> need \<le> fst s"
  proof
    fix k assume k: "k \<in> ?C"
    then obtain e where e: "bt_get (bp_entries p) k = Some e" using resident by blast
    have s2: "s = eviction_pass p need True ?order s1" using that by (auto simp: s_def split: if_splits)
    have "k \<in> snd (snd (eviction_pass p need True ?order s1))"
      by (rule eviction_pass_complete [OF _ _ e]) (use that s2 k C in auto)
    then show "k \<in> set vs" using sel s2 by simp
  qed
  then show "need + physical_bytes (commit_removals pinned vs p) \<le> physical_bytes p \<or> set vs = ?C"
    using freed \<open>set vs \<subseteq> ?C\<close> by (cases "need \<le> fst s") auto
  assume k: "k \<in> set vs" "bt_get (bp_entries p) k = Some e" "in_grace p e"
    and k': "evictable tie p pinned k'" "bt_get (bp_entries p) k' = Some e'" "\<not> in_grace p e'"
  have "k \<notin> snd (snd s1)"
    using eviction_pass_grace [of k p need ?order "(0, [], {})" e] k by (auto simp: s1_def)
  then have "s \<noteq> s1" using k(1) sel by auto
  then have low: "\<not> need \<le> fst s1" and s2: "s = eviction_pass p need True ?order s1"
    by (auto simp: s_def split: if_splits)
  have "k' \<in> snd (snd s1)"
    unfolding s1_def by (rule eviction_pass_complete [OF _ _ k'(2)]) (use low k' C s1_def in auto)
  then have "k' \<in> snd (snd s)" using eviction_pass_keeps [of s1 p need True ?order] s2 by auto
  then show "k' \<in> set vs" using sel by simp
qed

section \<open>A small cache\<close>

text \<open>
  Two probationers share a segment of four bytes; the second has been hit once. The witnesses apply the
  properties to this state.
\<close>

definition small_config :: policy_config where
  "small_config =
     \<lparr>pc_probation_byte_budget = 5, pc_persistence_hit_threshold = 2,
      pc_min_reuse_probability = F64_ZERO, pc_decay = \<lparr>dc_factor = F64_Finite (1 / 2)\<rparr>,
      pc_grace_observations = 1, pc_ghost_capacity = 1, pc_ghost_max_age_observations = 5\<rparr>"

definition small_cost :: cost_sample where
  "small_cost = \<lparr>cs_cold_prefill_cost = F64_Finite 5, cs_restore_cost = F64_ONE\<rparr>"

definition any_tie :: "f64 \<Rightarrow> f64 \<Rightarrow> bool" where
  "any_tie a b = True"

definition small_policy :: benefit_policy where
  "small_policy =
     \<lparr>bp_config = small_config,
      bp_entries =
        [(7, \<lparr>pe_state = Probation, pe_hits = 0, pe_misses = 0, pe_reuse_weight = F64_ZERO,
              pe_observation_weight = F64_ZERO, pe_last_cost = Some small_cost, pe_exclusive_bytes = 3,
              pe_segments = [9], pe_last_observation = 1\<rparr>),
         (8, \<lparr>pe_state = Probation, pe_hits = 1, pe_misses = 0, pe_reuse_weight = F64_ONE,
              pe_observation_weight = F64_ONE, pe_last_cost = Some small_cost, pe_exclusive_bytes = 2,
              pe_segments = [9], pe_last_observation = 3\<rparr>)],
      bp_segments = [(9, \<lparr>sr_size = 4, sr_references = {7, 8}\<rparr>)], bp_clock = 3, bp_ghosts = []\<rparr>"

text \<open>Two offers and a hit lead to it.\<close>

lemma small_run:
  "foldl (\<lambda>p ev. policy_apply any_tie ev p) (the (policy_new small_config))
     [OfferEvent 7 3 [(9, 4)] small_cost [], OfferEvent 8 2 [(9, 4)] small_cost [], HitEvent 8 small_cost] =
   small_policy"
  by code_simp

lemma small_reach: "policy_reach any_tie small_config 3 small_policy"
proof -
  have "policy_new small_config \<noteq> None" by code_simp
  then have "policy_reach any_tie small_config 0 (the (policy_new small_config))"
    by (auto intro: policy_start)
  then have "policy_reach any_tie small_config (Suc (Suc (Suc 0))) small_policy"
    unfolding small_run [symmetric] foldl.simps by (intro policy_event)
  then show ?thesis by (simp add: numeral_3_eq_3)
qed

section \<open>Properties\<close>

text \<open>
  (C27) The ledger of shared segments is exact: a segment is registered when some resident entry lists
  it, its references are then exactly those entries, and it disappears with the last of them.
\<close>

lemma ledger_references_exact:
  assumes "policy_reach tie config n p"
  shows "(case segment_record (bp_segments p) s of
            None \<Rightarrow> \<not> (\<exists>k e. bt_get (bp_entries p) k = Some e \<and> s \<in> set (pe_segments e))
          | Some r \<Rightarrow> sr_references r = {k. \<exists>e. bt_get (bp_entries p) k = Some e \<and> s \<in> set (pe_segments e)} \<and>
                      sr_references r \<noteq> {})"
proof -
  have inv: "policy_inv n p" by (rule policy_reach_inv [OF assms])
  have "ledger_wf (bp_segments p)" using inv by (simp add: policy_invD)
  then show ?thesis
    using policy_refs [OF inv, of s]
    by (auto simp: segment_record_def ledger_refs_def ledger_wf_def split: option.splits)
qed

lemma ledger_references_exact_witness:
  "{k. \<exists>e. bt_get (bp_entries small_policy) k = Some e \<and> 9 \<in> set (pe_segments e)} = {7, 8}"
proof -
  have "map_option sr_references (segment_record (bp_segments small_policy) 9) = Some {7, 8}" by code_simp
  then obtain r where r: "segment_record (bp_segments small_policy) 9 = Some r" "sr_references r = {7, 8}"
    by auto
  show ?thesis using ledger_references_exact [OF small_reach, of 9] unfolding r option.case by simp
qed

text \<open>
  In a trace short enough not to overflow a counter, an entry is admitted exactly when its hits,
  those of its ghosts included, reach the threshold, and its last observation is not in the future.
\<close>

lemma admitted_iff_threshold:
  assumes "policy_reach tie config n p" and "n \<le> U64_MAX" and "bt_get (bp_entries p) k = Some e"
  shows "(pe_state e = Admitted \<longleftrightarrow> pc_persistence_hit_threshold (bp_config p) \<le> pe_hits e) \<and>
    pe_hits e \<le> n \<and> pe_last_observation e \<le> bp_clock p \<and> bp_clock p \<le> n"
  using policy_reach_inv [OF assms(1)] assms(2,3) by (auto simp: policy_invD entry_inv_def)

text \<open>
  (C40) Statistics stay bounded: there are never more ghosts than their capacity, no key is both resident
  and a ghost, and the reuse probability of an entry is a number between 0 and 1, whatever hits,
  misses and pressure came before.
\<close>

lemma policy_statistics_bounded:
  assumes "policy_reach tie config n p"
  shows "length (bp_ghosts p) \<le> pc_ghost_capacity (bp_config p) \<and>
    (\<forall>k e. bt_get (bp_entries p) k = Some e \<longrightarrow>
       bt_get (bp_ghosts p) k = None \<and>
       f64_le F64_ZERO (reuse_probability e) \<and> f64_le (reuse_probability e) F64_ONE)"
proof -
  have inv: "policy_inv n p" by (rule policy_reach_inv [OF assms])
  have "f64_le F64_ZERO (reuse_probability e) \<and> f64_le (reuse_probability e) F64_ONE"
    if "bt_get (bp_entries p) k = Some e" for k e
    using inv that by (intro reuse_probability_unit) (auto simp: policy_invD entry_inv_def f64_within_def)
  then show ?thesis using inv by (simp add: policy_invD)
qed

lemma policy_statistics_bounded_witness:
  "bt_get (bp_ghosts small_policy) 7 = None \<and> length (bp_ghosts small_policy) \<le> 1"
proof -
  have "bt_get (bp_entries small_policy) 7 \<noteq> None" "pc_ghost_capacity (bp_config small_policy) = 1"
    by code_simp+
  then show ?thesis using policy_statistics_bounded [OF small_reach] by auto
qed

text \<open>
  Exactly which offers are refused, and what a refusal leaves behind: an invalid cost, a resident
  key, a repeated segment or a size that contradicts the ledger change nothing at all; an offer without
  net benefit is an observation, which advances the clock and expires ghosts. No refusal touches an
  entry or a segment.
\<close>

lemma refused_offer_is_neutral:
  assumes "consider_admission tie key b shared cost pinned p = (d, p')"
  shows "(ad_verdict d = RejectVerdict \<longleftrightarrow>
      \<not> cost_is_valid cost \<or> bt_get (bp_entries p) key \<noteq> None \<or> \<not> distinct (map fst shared) \<or>
      size_conflict p key shared \<or> f64_le (net_benefit tie cost) F64_ZERO) \<and>
    (ad_verdict d = RejectVerdict \<longrightarrow>
      bp_entries p' = bp_entries p \<and> bp_segments p' = bp_segments p \<and>
      (p' = p \<or> d = rejected ''no-net-benefit'' \<and> p' = expire_ghosts (tick_clock p)))"
  using assms by (cases rule: consider_admission_cases) (auto simp: rejected_def)

text \<open>
  (C11) Eviction frees what was asked for. The victims are distinct, unpinned residents; committing
  their removals releases at least the requested physical bytes, a shared segment counting once and
  only with its last reference, unless every evictable entry is already a victim; and without the last
  victim the request was not met.
\<close>

lemma eviction_frees_request:
  assumes reach: "policy_reach tie config n p" and small: "physical_bytes p \<le> U64_MAX"
    and vs: "vs = map fst (choose_victims tie need pinned p)"
  shows "distinct vs \<and> set vs \<inter> set pinned = {} \<and> set vs \<subseteq> set (map fst (bp_entries p)) \<and>
    (physical_bytes (commit_removals pinned vs p) + need \<le> physical_bytes p \<or>
       set vs = {k. evictable tie p pinned k}) \<and>
    (vs \<noteq> [] \<longrightarrow> physical_bytes p < physical_bytes (commit_removals pinned (butlast vs) p) + need)"
proof -
  note spec = choose_victims_spec [OF policy_reach_inv [OF reach] small vs]
  have "k \<notin> set pinned \<and> k \<in> set (map fst (bp_entries p))" if "evictable tie p pinned k" for k
    using that bt_get_None_iff [of "bp_entries p" k] by (auto simp: evictable_def split: option.splits)
  then show ?thesis using spec(1-4) by (auto simp: add.commute)
qed

lemma eviction_frees_request_witness:
  "physical_bytes (commit_removals [] [7, 8] small_policy) + 6 \<le> physical_bytes small_policy"
proof -
  have "physical_bytes small_policy = 9" by code_simp
  then have small: "physical_bytes small_policy \<le> U64_MAX" by simp
  have vs: "[7, 8] = map fst (choose_victims any_tie 6 [] small_policy)" by code_simp
  have "physical_bytes (commit_removals [] [7, 8] small_policy) = 0" by code_simp
  then show ?thesis using eviction_frees_request [OF small_reach small vs] \<open>physical_bytes small_policy = 9\<close> by simp
qed

text \<open>
  Grace is waived last: an entry observed within the grace window is a victim only if every
  evictable entry outside it is a victim too.
\<close>

lemma grace_waived_last:
  assumes "policy_reach tie config n p" and "physical_bytes p \<le> U64_MAX"
    and "(k, Evict) \<in> set (choose_victims tie need pinned p)"
    and "bt_get (bp_entries p) k = Some e" and "in_grace p e"
    and "evictable tie p pinned k'" and "bt_get (bp_entries p) k' = Some e'" and "\<not> in_grace p e'"
  shows "(k', Evict) \<in> set (choose_victims tie need pinned p)"
proof -
  have "k \<in> set (map fst (choose_victims tie need pinned p))" using assms(3) by force
  then have "k' \<in> set (map fst (choose_victims tie need pinned p))"
    by (rule choose_victims_spec(5) [OF policy_reach_inv [OF assms(1)] assms(2) refl _ assms(4-8)])
  then show ?thesis by (auto simp: choose_victims_def Let_def)
qed

text \<open>
  (C12) The repair plan of the probation cap is what its commit achieves. Removing the planned victims
  brings the class to or under its cap exactly when the plan says so; the shortfall of a deferred plan
  is the excess left, and then every remaining probationer is pinned. A pin is never planned, and one
  victim fewer would leave the class over its cap.
\<close>

lemma cap_repair_plan_exact:
  assumes reach: "policy_reach tie config n p" and r: "r = select_probation_cap_victims p pinned"
    and q: "q = commit_removals pinned (cap_victims r) p"
  shows "set (cap_victims r) \<inter> set pinned = {} \<and>
    (is_deferred r \<longleftrightarrow> pc_probation_byte_budget (bp_config p) < probation_bytes q) \<and>
    shortfall_bytes r = probation_bytes q - pc_probation_byte_budget (bp_config p) \<and>
    (is_deferred r \<longrightarrow> (\<forall>k e. bt_get (bp_entries q) k = Some e \<and> pe_state e = Probation \<longrightarrow> k \<in> set pinned)) \<and>
    (cap_victims r \<noteq> [] \<longrightarrow>
       pc_probation_byte_budget (bp_config p) < probation_bytes (commit_removals pinned (butlast (cap_victims r)) p))"
proof -
  have inv: "policy_inv n p" by (rule policy_reach_inv [OF reach])
  note spec = select_cap_spec [OF inv r q]
  have "k \<in> set pinned" if "is_deferred r" "bt_get (bp_entries q) k = Some e" "pe_state e = Probation" for k e
    using that spec(5) repair_candidates(2) [OF inv, of k pinned] commit_entry [OF inv, of pinned "cap_victims r" k]
    by (auto simp: q split: if_splits)
  then show ?thesis using spec by blast
qed

lemma cap_repair_plan_exact_witness:
  "probation_bytes (commit_removals [8] [7] small_policy) = 6 \<and>
   select_probation_cap_victims small_policy [8] = Deferred [7] 1"
proof -
  have r: "Deferred [7] 1 = select_probation_cap_victims small_policy [8]" by code_simp
  have "pc_probation_byte_budget (bp_config small_policy) = 5" by code_simp
  then have "5 < probation_bytes (commit_removals [8] [7] small_policy) \<and>
      1 = probation_bytes (commit_removals [8] [7] small_policy) - 5"
    using cap_repair_plan_exact [OF small_reach r refl] by auto
  then show ?thesis using r by auto
qed

text \<open>
  History survives eviction: an entry that is removed and offered again at once comes back with
  one hit more than it had, admitted exactly when that reaches the threshold, and its ghost is consumed.
\<close>

lemma recurrence_carries_history:
  assumes reach: "policy_reach tie config n p" and short: "n < U64_MAX"
    and e: "bt_get (bp_entries p) key = Some e"
    and q: "q = snd (policy_remove key pins p)"
    and keep: "0 < pc_ghost_capacity (bp_config p)" "0 < pc_ghost_max_age_observations (bp_config p)"
    and offer: "consider_admission tie key b shared cost pinned q = (d, p')" "ad_verdict d = AdmitVerdict"
  shows "\<exists>e'. bt_get (bp_entries p') key = Some e' \<and> pe_hits e' = Suc (pe_hits e) \<and>
    (pe_state e' = Admitted \<longleftrightarrow> pc_persistence_hit_threshold (bp_config p) \<le> Suc (pe_hits e)) \<and>
    (ad_kind d = AdmitPersist \<longleftrightarrow> pe_state e' = Admitted) \<and> bt_get (bp_ghosts p') key = None"
proof -
  have inv: "policy_inv n p" by (rule policy_reach_inv [OF reach])
  have invq: "policy_inv n q" unfolding q by (rule policy_inv_remove [OF inv])
  have q': "q = removed_state key e p" using q e by (simp add: policy_remove_eq)
  let ?q = "expire_ghosts (tick_clock q)"
  let ?g = "\<lparr>gs_hits = pe_hits e, gs_reuse_weight = pe_reuse_weight e,
    gs_observation_weight = pe_observation_weight e, gs_last_observation = bp_clock p\<rparr>"
  have wf: "bt_wf (bp_ghosts p)" "bt_wf (bp_ghosts q)" using inv invq by (auto simp: policy_invD)
  have "bt_get (bp_ghosts q) key = Some ?g"
    using keep(1) drop_oldest_ghosts_spec [OF wf(1)]
    by (simp add: q' removed_state_def insert_ghost_def bt_get_insert)
  moreover have "bp_clock (tick_clock q) = Suc (bp_clock p)"
    using tick_clock_exact [of n q] invq short by (simp add: policy_invD q')
  ultimately have "(key, ?g) \<in> set (bp_ghosts ?q)"
    using wf(2) keep(2) by (auto simp: expire_ghosts_def Let_def bt_get_Some_iff q')
  then have g: "bt_get (bp_ghosts ?q) key = Some ?g"
    using bt_wf_filter [OF wf(2)] by (simp add: bt_get_Some_iff expire_ghosts_def Let_def)
  have hits: "wrap_add (pe_hits e) 1 = Suc (pe_hits e)"
    using inv e short wrap_add_exact [of "pe_hits e" 1] by (force simp: policy_invD entry_inv_def)
  have cfg: "bp_config q = bp_config p" by (simp add: q')
  from offer(1) show ?thesis
  proof (cases rule: consider_admission_cases)
    case admitted
    have "bt_wf (bp_entries q)" using invq by (simp add: policy_invD)
    then have "bt_get (bp_entries p') key = Some (offered_entry ?q key b shared cost)"
      using admitted(4) by (simp add: bt_get_insert)
    moreover have "pe_hits (offered_entry ?q key b shared cost) = Suc (pe_hits e)"
      and "pe_state (offered_entry ?q key b shared cost) =
        (if pc_persistence_hit_threshold (bp_config p) \<le> Suc (pe_hits e) then Admitted else Probation)"
      using g hits by (simp_all add: offered_entry_def recurrence_def Let_def cfg)
    ultimately show ?thesis using admitted(2,4) by (auto simp: bt_get_remove)
  qed (use offer(2) in \<open>simp_all add: rejected_def\<close>)
qed

end
