(* ===== verification/BenefitAdmission.thy ===== *)
theory BenefitAdmission
  imports BenefitPolicy
begin

text \<open>
  What the owner of a cache root does with the admission policy (src/crates/skippy-cache/src/manager.rs):
  it decides which payloads are written to disk, feeds the measured costs back, and makes room before a
  write; and the effective status of the root with its bounded queue of pending transitions. The store
  behind it is a parameter: its usage, its budget, which manifests are pinned, and the manifests an
  eviction removed. Every call holds the lock of the state it changes.
\<close>

section \<open>State\<close>

text \<open>\<open>restore_cost_ewma\<close> is only looked up and updated by key.\<close>

record benefit_admission =
  ba_policy :: benefit_policy
  ba_manifests :: "(entry_key, rust_string) btree"
  ba_restore_cost_ewma :: "rust_string \<rightharpoonup> f64"

text \<open>The counters of \<open>L3Activity\<close> that the policy moves; \<open>fetch_add\<close> wraps.\<close>

record benefit_activity =
  act_probation :: nat
  act_persist :: nat
  act_lru_fallback :: nat
  act_evictions :: nat

record l3_benefit =
  lb_admission :: benefit_admission
  lb_activity :: benefit_activity

record restore_observation =
  ob_state_identity :: rust_string
  ob_key :: entry_key
  ob_manifest :: rust_string
  ob_exclusive_bytes :: nat
  ob_shared :: "(segment_id \<times> nat) list"
  ob_cold_prefill_cost :: "f64 option"
  ob_restore_cost :: f64

text \<open>\<open>BenefitPolicy::new\<close> of the default configuration does not panic (\<open>default_config_valid\<close>).\<close>

definition benefit_admission_default :: benefit_admission where
  "benefit_admission_default =
     \<lparr>ba_policy = the (policy_new policy_config_default), ba_manifests = [], ba_restore_cost_ewma = (\<lambda>_. None)\<rparr>"

definition l3_benefit_default :: l3_benefit where
  "l3_benefit_default =
     \<lparr>lb_admission = benefit_admission_default,
      lb_activity = \<lparr>act_probation = 0, act_persist = 0, act_lru_fallback = 0, act_evictions = 0\<rparr>\<rparr>"

definition count_probation :: "l3_benefit \<Rightarrow> l3_benefit" where
  "count_probation s = s\<lparr>lb_activity := (lb_activity s)\<lparr>act_probation := wrap_add (act_probation (lb_activity s)) 1\<rparr>\<rparr>"

definition count_persist :: "nat \<Rightarrow> l3_benefit \<Rightarrow> l3_benefit" where
  "count_persist n s = s\<lparr>lb_activity := (lb_activity s)\<lparr>act_persist := wrap_add (act_persist (lb_activity s)) n\<rparr>\<rparr>"

definition count_lru_fallback :: "l3_benefit \<Rightarrow> l3_benefit" where
  "count_lru_fallback s =
     s\<lparr>lb_activity := (lb_activity s)\<lparr>act_lru_fallback := wrap_add (act_lru_fallback (lb_activity s)) 1\<rparr>\<rparr>"

definition count_evictions :: "nat \<Rightarrow> l3_benefit \<Rightarrow> l3_benefit" where
  "count_evictions n s =
     s\<lparr>lb_activity := (lb_activity s)\<lparr>act_evictions := wrap_add (act_evictions (lb_activity s)) n\<rparr>\<rparr>"

definition with_policy :: "benefit_policy \<Rightarrow> l3_benefit \<Rightarrow> l3_benefit" where
  "with_policy p s = s\<lparr>lb_admission := (lb_admission s)\<lparr>ba_policy := p\<rparr>\<rparr>"

abbreviation lb_policy :: "l3_benefit \<Rightarrow> benefit_policy" where
  "lb_policy s \<equiv> ba_policy (lb_admission s)"

abbreviation lb_manifests :: "l3_benefit \<Rightarrow> (entry_key, rust_string) btree" where
  "lb_manifests s \<equiv> ba_manifests (lb_admission s)"

section \<open>Operations\<close>

definition benefit_tracks :: "l3_benefit \<Rightarrow> entry_key \<Rightarrow> bool" where
  "benefit_tracks s key \<longleftrightarrow> bt_get (bp_entries (lb_policy s)) key \<noteq> None"

text \<open>
  A missing or invalid cost selects the write-through path. A known key is a hit: it persists when the
  hit promotes it or it is admitted already. A new key is an offer.
\<close>

definition benefit_should_persist ::
    "(f64 \<Rightarrow> f64 \<Rightarrow> bool) \<Rightarrow> entry_key \<Rightarrow> nat \<Rightarrow> (segment_id \<times> nat) list \<Rightarrow> cost_sample option \<Rightarrow>
     l3_benefit \<Rightarrow> bool \<times> l3_benefit" where
  "benefit_should_persist tie key exclusive_bytes shared cost s =
     (case cost of
        None \<Rightarrow> (True, count_lru_fallback s)
      | Some cost \<Rightarrow>
          if \<not> cost_is_valid cost then (True, count_lru_fallback s)
          else if bt_get (bp_entries (lb_policy s)) key \<noteq> None then
            (case record_hit key cost (lb_policy s) of
               (decision, p) \<Rightarrow>
                 let persist = (case decision of Some d \<Rightarrow> ad_kind d = Promote \<or> ad_kind d = AdmitPersist
                                | None \<Rightarrow> False) \<or>
                               (case bt_get (bp_entries p) key of Some e \<Rightarrow> pe_state e = Admitted | None \<Rightarrow> False)
                 in (persist, count_persist (if persist then 1 else 0) (with_policy p s)))
          else
            (case consider_admission tie key exclusive_bytes shared cost [] (lb_policy s) of
               (decision, p) \<Rightarrow>
                 let persist = (ad_kind decision = AdmitPersist); s = with_policy p s
                 in (persist,
                     if persist then count_persist 1 s
                     else if ad_kind decision = AdmitProbation then count_probation s
                     else s)))"

definition usable_cost :: "f64 option \<Rightarrow> f64 option" where
  "usable_cost cost =
     (case cost of Some c \<Rightarrow> if f64_finite c \<and> f64_le F64_ZERO c then Some c else None | None \<Rightarrow> None)"

definition benefit_candidate_cost :: "l3_benefit \<Rightarrow> rust_string \<Rightarrow> f64 option \<Rightarrow> cost_sample option" where
  "benefit_candidate_cost s state_identity cold_prefill_cost =
     Option.bind (usable_cost cold_prefill_cost) (\<lambda>cold.
     Option.bind (ba_restore_cost_ewma (lb_admission s) state_identity) (\<lambda>restore.
     Some \<lparr>cs_cold_prefill_cost = cold, cs_restore_cost = restore\<rparr>))"

text \<open>The moving average: \<open>estimate * 0.8 + observed * 0.2\<close>.\<close>

definition ewma :: "f64 \<Rightarrow> f64 \<Rightarrow> f64" where
  "ewma estimate observed =
     f64_add (f64_mul estimate (f64_of_rat False (8 / 10))) (f64_mul observed (f64_of_rat False (2 / 10)))"

definition benefit_observe_restore ::
    "(f64 \<Rightarrow> f64 \<Rightarrow> bool) \<Rightarrow> restore_observation \<Rightarrow> l3_benefit \<Rightarrow> l3_benefit" where
  "benefit_observe_restore tie ob s =
     (case usable_cost (ob_cold_prefill_cost ob) of
        None \<Rightarrow> s
      | Some cold \<Rightarrow>
          if \<not> f64_finite (ob_restore_cost ob) \<or> f64_lt (ob_restore_cost ob) F64_ZERO then s
          else
            let cost = \<lparr>cs_cold_prefill_cost = cold, cs_restore_cost = ob_restore_cost ob\<rparr>;
                a = lb_admission s;
                estimate = (case ba_restore_cost_ewma a (ob_state_identity ob) of
                   Some estimate \<Rightarrow> ewma estimate (ob_restore_cost ob)
                 | None \<Rightarrow> ob_restore_cost ob);
                a = a\<lparr>ba_restore_cost_ewma := (ba_restore_cost_ewma a)(ob_state_identity ob \<mapsto> estimate)\<rparr>;
                a = (if bt_get (bp_entries (ba_policy a)) (ob_key ob) = None then
                       (case consider_admission tie (ob_key ob) (ob_exclusive_bytes ob) (ob_shared ob) cost []
                               (ba_policy a) of
                          (decision, p) \<Rightarrow>
                            a\<lparr>ba_policy := p,
                              ba_manifests := (if ad_kind decision \<noteq> RejectOffer
                                then bt_insert (ob_key ob) (ob_manifest ob) (ba_manifests a)
                                else ba_manifests a)\<rparr>)
                     else a)
            in s\<lparr>lb_admission := a\<lparr>ba_policy := snd (record_hit (ob_key ob) cost (ba_policy a))\<rparr>\<rparr>)"

definition benefit_observe_memory_hit ::
    "rust_string \<Rightarrow> entry_key \<Rightarrow> f64 option \<Rightarrow> l3_benefit \<Rightarrow> bool \<times> l3_benefit" where
  "benefit_observe_memory_hit state_identity key cold_prefill_cost s =
     (case benefit_candidate_cost s state_identity cold_prefill_cost of
        None \<Rightarrow> (False, s)
      | Some cost \<Rightarrow>
          let already_persisted = (bt_get (lb_manifests s) key \<noteq> None)
          in case record_hit key cost (lb_policy s) of
               (decision, p) \<Rightarrow>
                 ((case decision of Some d \<Rightarrow> ad_kind d = Promote \<and> \<not> already_persisted | None \<Rightarrow> False),
                  with_policy p s))"

text \<open>The store an eviction works on: what it uses, its budget, its pins, and its eviction.\<close>

record 'e l3_store =
  st_usage :: "'e + nat"
  st_budget :: nat
  st_is_pinned :: "rust_string \<Rightarrow> bool"
  st_evict :: "rust_string list \<Rightarrow> 'e + rust_string list"

definition write_pins :: "'e l3_store \<Rightarrow> entry_key \<Rightarrow> l3_benefit \<Rightarrow> entry_key list" where
  "write_pins store candidate s =
     List.map_filter (\<lambda>(key, manifest). if st_is_pinned store manifest then Some key else None) (lb_manifests s) @
     filter (\<lambda>key. key \<noteq> candidate \<and> bt_get (lb_manifests s) key = None) (bt_keys (bp_entries (lb_policy s)))"

text \<open>The loop that commits the removals of the victims whose manifest the store removed.\<close>

definition commit_evicted :: "entry_key list \<Rightarrow> rust_string list \<Rightarrow> entry_key list \<Rightarrow> l3_benefit \<Rightarrow> l3_benefit" where
  "commit_evicted pinned removed victims s =
     foldl (\<lambda>s key.
       case bt_get (lb_manifests s) key of
         Some manifest \<Rightarrow>
           if manifest \<in> set removed then
             s\<lparr>lb_admission := (lb_admission s)
                 \<lparr>ba_manifests := bt_remove key (lb_manifests s),
                  ba_policy := snd (policy_remove key pinned (lb_policy s))\<rparr>\<rparr>
           else s
       | None \<Rightarrow> s) s victims"

definition benefit_prepare_write ::
    "(f64 \<Rightarrow> f64 \<Rightarrow> bool) \<Rightarrow> 'e l3_store \<Rightarrow> entry_key \<Rightarrow> nat \<Rightarrow> l3_benefit \<Rightarrow> ('e + bool) \<times> l3_benefit" where
  "benefit_prepare_write tie store candidate growth_bytes s =
     (case st_usage store of
        Inl e \<Rightarrow> (Inl e, s)
      | Inr usage \<Rightarrow>
          let budget = st_budget store
          in if budget = 0 then (Inr True, s)
             else
               let bytes_to_free = sat_sub (sat_add usage growth_bytes) budget
               in if bytes_to_free = 0 then (Inr True, s)
                  else
                    let s = with_policy (observe_pressure (f64_div (f64_of_nat usage) (f64_of_nat budget))
                              (lb_policy s)) s;
                        pinned = write_pins store candidate s;
                        victims = List.map_filter (\<lambda>(key, verdict). if verdict = Evict then Some key else None)
                          (choose_victims tie bytes_to_free pinned (lb_policy s))
                    in if candidate \<in> set victims then
                         (Inr False, with_policy (snd (policy_remove candidate pinned (lb_policy s))) s)
                       else
                         case st_evict store (List.map_filter (bt_get (lb_manifests s)) victims) of
                           Inl e \<Rightarrow> (Inl e, s)
                         | Inr removed \<Rightarrow>
                             (Inr True,
                              commit_evicted pinned removed victims (count_evictions (length removed) s)))"

definition benefit_record_manifest :: "entry_key \<Rightarrow> rust_string \<Rightarrow> l3_benefit \<Rightarrow> l3_benefit" where
  "benefit_record_manifest key manifest s =
     s\<lparr>lb_admission := (lb_admission s)\<lparr>ba_manifests := bt_insert key manifest (lb_manifests s)\<rparr>\<rparr>"

section \<open>The effective status of a root\<close>

datatype l3_effective_state = L3Active | L3ReadOnlyLowSpace | L3Degraded

datatype l3_state_reason = ReasonReadOnlyLowSpace | ReasonInsufficientSpace | ReasonStorageError

record l3_effective_status =
  es_state :: l3_effective_state
  es_reason :: "l3_state_reason option"

record l3_state_transition =
  tr_previous :: l3_effective_status
  tr_current :: l3_effective_status

datatype write_refusal = SkippedOversize | RefusedReadOnlyLowSpace | RefusedInsufficientSpace

definition MAX_PENDING_STATE_TRANSITIONS :: nat where
  "MAX_PENDING_STATE_TRANSITIONS = 64"

record l3_status =
  ls_effective :: l3_effective_status
  ls_transitions :: "l3_state_transition list"

definition effective_default :: l3_effective_status where
  "effective_default = \<lparr>es_state = L3Active, es_reason = None\<rparr>"

definition l3_status_default :: l3_status where
  "l3_status_default = \<lparr>ls_effective = effective_default, ls_transitions = []\<rparr>"

definition transition_to :: "l3_effective_status \<Rightarrow> l3_status \<Rightarrow> l3_status" where
  "transition_to new_status s =
     (if ls_effective s = new_status then s
      else
        let pending = (if length (ls_transitions s) = MAX_PENDING_STATE_TRANSITIONS
                       then tl (ls_transitions s) else ls_transitions s)
        in \<lparr>ls_effective = new_status,
            ls_transitions = pending @ [\<lparr>tr_previous = ls_effective s, tr_current = new_status\<rparr>]\<rparr>)"

definition record_write_refusal :: "write_refusal \<Rightarrow> l3_status \<Rightarrow> l3_status" where
  "record_write_refusal refusal s =
     (case refusal of
        SkippedOversize \<Rightarrow> s
      | RefusedReadOnlyLowSpace \<Rightarrow>
          transition_to \<lparr>es_state = L3ReadOnlyLowSpace, es_reason = Some ReasonReadOnlyLowSpace\<rparr> s
      | RefusedInsufficientSpace \<Rightarrow>
          transition_to \<lparr>es_state = L3Degraded, es_reason = Some ReasonInsufficientSpace\<rparr> s)"

definition record_successful_write :: "l3_status \<Rightarrow> l3_status" where
  "record_successful_write s =
     (if es_reason (ls_effective s) = Some ReasonReadOnlyLowSpace \<or>
         es_reason (ls_effective s) = Some ReasonInsufficientSpace
      then transition_to effective_default s else s)"

definition record_storage_error :: "l3_status \<Rightarrow> l3_status" where
  "record_storage_error s = transition_to \<lparr>es_state = L3Degraded, es_reason = Some ReasonStorageError\<rparr> s"

definition take_state_transitions :: "l3_status \<Rightarrow> l3_state_transition list \<times> l3_status" where
  "take_state_transitions s = (ls_transitions s, s\<lparr>ls_transitions := []\<rparr>)"

end
