(* ===== verification/AdmissionProperties.thy ===== *)
theory AdmissionProperties
  imports PolicyProperties BenefitAdmission
begin

text \<open>
  The owner of a cache root against the policy it drives: its policy is always a reachable one, making
  room never drops what the store still holds, a payload is persisted from its second hit on, and the
  pending status transitions form a chain that ends in the effective status.
\<close>

section \<open>The policy of a root is a reachable policy\<close>

lemma default_config_valid: "policy_config_is_valid policy_config_default"
proof -
  have "f64_finite (f64_of_rat False (1 / 100)) \<and> f64_le F64_ZERO (f64_of_rat False (1 / 100)) \<and>
      f64_le (f64_of_rat False (1 / 100)) F64_ONE" by code_simp
  moreover have "decay_is_valid decay_default" by code_simp
  ultimately show ?thesis by (simp add: policy_config_is_valid_def policy_config_default_def)
qed

inductive l3_reach :: "(f64 \<Rightarrow> f64 \<Rightarrow> bool) \<Rightarrow> l3_benefit \<Rightarrow> bool" for tie where
  l3_start: "l3_reach tie l3_benefit_default"
| l3_should_persist: "l3_reach tie s \<Longrightarrow> l3_reach tie (snd (benefit_should_persist tie key b shared cost s))"
| l3_observe_restore: "l3_reach tie s \<Longrightarrow> l3_reach tie (benefit_observe_restore tie ob s)"
| l3_memory_hit: "l3_reach tie s \<Longrightarrow> l3_reach tie (snd (benefit_observe_memory_hit identity key cold s))"
| l3_prepare_write: "l3_reach tie s \<Longrightarrow>
    l3_reach tie (snd (benefit_prepare_write tie (store :: string l3_store) candidate growth s))"
| l3_record_manifest: "l3_reach tie s \<Longrightarrow> l3_reach tie (benefit_record_manifest key manifest s)"

definition policy_reachable :: "(f64 \<Rightarrow> f64 \<Rightarrow> bool) \<Rightarrow> benefit_policy \<Rightarrow> bool" where
  "policy_reachable tie p \<longleftrightarrow> (\<exists>n. policy_reach tie policy_config_default n p)"

lemma policy_reachable_event: "policy_reachable tie p \<Longrightarrow> policy_reachable tie (policy_apply tie ev p)"
  unfolding policy_reachable_def using policy_event by blast

lemma policy_reachable_calls:
  assumes "policy_reachable tie p"
  shows "policy_reachable tie (snd (consider_admission tie key b shared cost pinned p))"
    and "policy_reachable tie (snd (record_hit key cost p))"
    and "policy_reachable tie (observe_pressure pressure p)"
    and "policy_reachable tie (snd (policy_remove key pinned p))"
  using policy_reachable_event [OF assms, of "OfferEvent key b shared cost pinned"]
    policy_reachable_event [OF assms, of "HitEvent key cost"]
    policy_reachable_event [OF assms, of "PressureEvent pressure"]
    policy_reachable_event [OF assms, of "RemoveEvent key pinned"]
  by simp_all

lemma policy_reachable_start: "policy_reachable tie (lb_policy l3_benefit_default)"
proof -
  have "policy_new policy_config_default = Some (lb_policy l3_benefit_default)"
    using default_config_valid by (simp add: l3_benefit_default_def benefit_admission_default_def policy_new_def)
  then show ?thesis unfolding policy_reachable_def using policy_start by blast
qed

lemma counters_keep [simp]:
  "lb_admission (count_probation s) = lb_admission s" "lb_admission (count_persist n s) = lb_admission s"
  "lb_admission (count_lru_fallback s) = lb_admission s" "lb_admission (count_evictions n s) = lb_admission s"
  by (simp_all add: count_probation_def count_persist_def count_lru_fallback_def count_evictions_def)

lemma with_policy_fields [simp]:
  "lb_policy (with_policy p s) = p" "lb_manifests (with_policy p s) = lb_manifests s"
  "ba_restore_cost_ewma (lb_admission (with_policy p s)) = ba_restore_cost_ewma (lb_admission s)"
  by (simp_all add: with_policy_def)

lemma commit_evicted_reachable:
  "policy_reachable tie (lb_policy s) \<Longrightarrow> policy_reachable tie (lb_policy (commit_evicted pinned removed ks s))"
proof (induction ks arbitrary: s)
  case Nil
  then show ?case by (simp add: commit_evicted_def)
next
  case (Cons k ks)
  then show ?case
    using policy_reachable_calls(4) [OF Cons.prems, of k pinned]
    by (auto simp: commit_evicted_def split: option.split)
qed

lemma l3_reach_policy: "l3_reach tie s \<Longrightarrow> policy_reachable tie (lb_policy s)"
proof (induction rule: l3_reach.induct)
  case l3_start
  show ?case by (rule policy_reachable_start)
next
  case (l3_should_persist s key b shared cost)
  then show ?case
    using policy_reachable_calls(1,2) [OF l3_should_persist.IH]
    by (auto simp: benefit_should_persist_def Let_def split: option.split prod.split) (metis snd_conv)+
next
  case (l3_observe_restore s ob)
  let ?offer = "\<lambda>cost. snd (consider_admission tie (ob_key ob) (ob_exclusive_bytes ob) (ob_shared ob) cost [] (lb_policy s))"
  have "policy_reachable tie (snd (record_hit (ob_key ob) cost (?offer cost)))"
    and "policy_reachable tie (snd (record_hit (ob_key ob) cost (lb_policy s)))" for cost
    using policy_reachable_calls(1,2) l3_observe_restore.IH by blast+
  then show ?case
    using l3_observe_restore.IH by (simp add: benefit_observe_restore_def Let_def split: option.split prod.split) (metis snd_conv)
next
  case (l3_memory_hit s identity key cold)
  then show ?case
    using policy_reachable_calls(2) [OF l3_memory_hit.IH, of key]
    by (auto simp: benefit_observe_memory_hit_def Let_def split: option.split prod.split) (metis snd_conv)
next
  case (l3_prepare_write s store candidate growth)
  have p: "policy_reachable tie (observe_pressure v (lb_policy s))" for v
    by (rule policy_reachable_calls(3) [OF l3_prepare_write.IH])
  show ?case
    using l3_prepare_write.IH p policy_reachable_calls(4) [OF p] commit_evicted_reachable
    by (simp add: benefit_prepare_write_def Let_def split: sum.split)
next
  case (l3_record_manifest s key manifest)
  then show ?case by (simp add: benefit_record_manifest_def)
qed

section \<open>Making room\<close>

lemma eviction_pass_mem:
  "set (fst (snd (eviction_pass p need w keys s))) \<subseteq> set (fst (snd s)) \<union> set keys"
proof (induction keys arbitrary: s)
  case (Cons key keys)
  obtain freed vs sel where s: "s = (freed, vs, sel)" by (cases s)
  show ?case
    using Cons.IH [of s]
      Cons.IH [of "(wrap_add freed (marginal_release p key e sel), vs @ [key], insert key sel)" for e]
    by (auto simp: s split: option.split)
qed simp

lemma choose_victims_evictable:
  assumes "policy_inv n p" and "(k, v) \<in> set (choose_victims tie need pinned p)"
  shows "evictable tie p pinned k"
proof -
  let ?order = "eviction_order tie p pinned"
  let ?s = "eviction_pass p need False ?order (0, [], {})"
  have "k \<in> set ?order"
    using assms(2) eviction_pass_mem [of p need False ?order "(0, [], {})"] eviction_pass_mem [of p need True ?order ?s]
    by (auto simp: choose_victims_def Let_def split: if_splits)
  then show ?thesis by (simp add: set_eviction_order [OF assms(1)])
qed

text \<open>What leaves with \<open>commit_evicted\<close>: keys whose manifest the store removed.\<close>

lemma commit_evicted_lost:
  assumes "bt_get (bp_entries (lb_policy s)) k \<noteq> None"
    and "bt_get (bp_entries (lb_policy (commit_evicted pinned removed ks s))) k = None"
  shows "k \<in> set ks \<and> (\<exists>m. bt_get (lb_manifests s) k = Some m \<and> m \<in> set removed)"
  using assms
proof (induction ks arbitrary: s)
  case Nil
  then show ?case by (simp add: commit_evicted_def)
next
  case (Cons x ks)
  let ?s = "s\<lparr>lb_admission := (lb_admission s)\<lparr>ba_manifests := bt_remove x (lb_manifests s),
     ba_policy := snd (policy_remove x pinned (lb_policy s))\<rparr>\<rparr>"
  define t where "t = (case bt_get (lb_manifests s) x of
      Some m \<Rightarrow> if m \<in> set removed then ?s else s | None \<Rightarrow> s)"
  have step: "commit_evicted pinned removed (x # ks) s = commit_evicted pinned removed ks t"
    by (simp add: commit_evicted_def t_def)
  have other: "bt_get (bp_entries (lb_policy ?s)) k = (if k = x then None else bt_get (bp_entries (lb_policy s)) k)"
    by (cases "bt_get (bp_entries (lb_policy s)) x") (auto simp: policy_remove_eq bt_get_remove)
  show ?case
  proof (cases "bt_get (bp_entries (lb_policy t)) k = None")
    case True
    then have "k = x" "\<exists>m. bt_get (lb_manifests s) x = Some m \<and> m \<in> set removed"
      using Cons.prems(1) other by (auto simp: t_def split: option.splits if_splits)
    then show ?thesis by auto
  next
    case False
    have "bt_get (bp_entries (lb_policy (commit_evicted pinned removed ks t))) k = None"
      using Cons.prems(2) by (simp only: step)
    from Cons.IH [OF False this]
    have "k \<in> set ks" and m: "\<exists>m. bt_get (lb_manifests t) k = Some m \<and> m \<in> set removed" by auto
    moreover have "lb_manifests t = lb_manifests s \<or> lb_manifests t = bt_remove x (lb_manifests s)"
      by (auto simp: t_def split: option.split)
    ultimately show ?thesis by (auto simp: bt_get_remove split: if_splits)
  qed
qed

lemma observe_pressure_entries: "bt_get (bp_entries (observe_pressure v p)) k = None \<longleftrightarrow> bt_get (bp_entries p) k = None"
  by (auto simp: observe_pressure_def Let_def bt_get_map_values)

text \<open>
  (C28) Making room for a write drops an entry only in two ways. The candidate itself may be refused: it
  leaves the policy and nothing else happens. Any other entry that leaves had a manifest that was not
  pinned, that the store was asked to evict and reports as removed. Entries without a manifest stay,
  and a failing store leaves every entry in place.
\<close>

lemma make_room_drops_only_removed:
  assumes reach: "l3_reach tie s"
    and call: "benefit_prepare_write tie (store :: string l3_store) candidate growth s = (r, s')"
    and lost: "bt_get (bp_entries (lb_policy s)) k \<noteq> None" "bt_get (bp_entries (lb_policy s')) k = None"
  shows "k = candidate \<and> r = Inr False \<and> lb_manifests s' = lb_manifests s \<or>
    (\<exists>m asked removed. r = Inr True \<and> bt_get (lb_manifests s) k = Some m \<and> \<not> st_is_pinned store m \<and>
       st_evict store asked = Inr removed \<and> m \<in> set asked \<and> m \<in> set removed)"
proof -
  obtain usage where usage: "st_usage store = Inr usage"
    using call lost by (cases "st_usage store") (auto simp: benefit_prepare_write_def)
  define t where "t = with_policy (observe_pressure (f64_div (f64_of_nat usage) (f64_of_nat (st_budget store))) (lb_policy s)) s"
  define need where "need = sat_sub (sat_add usage growth) (st_budget store)"
  let ?pins = "write_pins store candidate t"
  define victims where "victims = List.map_filter (\<lambda>(key, verdict). if verdict = Evict then Some key else None)
     (choose_victims tie need ?pins (lb_policy t))"
  let ?asked = "List.map_filter (bt_get (lb_manifests t)) victims"
  have idle: "benefit_prepare_write tie store candidate growth s = (Inr True, s)" if "st_budget store = 0 \<or> need = 0"
    using that by (auto simp: benefit_prepare_write_def usage need_def Let_def)
  have go: "\<not> (st_budget store = 0 \<or> need = 0)"
  proof
    assume "st_budget store = 0 \<or> need = 0"
    from idle [OF this] show False using call lost by simp
  qed
  then have eq: "(r, s') =
      (if candidate \<in> set victims then
         (Inr False, with_policy (snd (policy_remove candidate ?pins (lb_policy t))) t)
       else case st_evict store ?asked of
              Inl e \<Rightarrow> (Inl e, t)
            | Inr removed \<Rightarrow> (Inr True, commit_evicted ?pins removed victims (count_evictions (length removed) t)))"
    using call go unfolding victims_def t_def need_def by (simp add: benefit_prepare_write_def usage Let_def)
  have man: "lb_manifests t = lb_manifests s" by (simp add: t_def)
  have kt: "bt_get (bp_entries (lb_policy t)) k \<noteq> None"
    using lost(1) by (simp add: t_def observe_pressure_entries del: not_None_eq)
  show ?thesis
  proof (cases "candidate \<in> set victims")
    case True
    then have "r = Inr False" "s' = with_policy (snd (policy_remove candidate ?pins (lb_policy t))) t"
      using eq by auto
    moreover have "k = candidate"
    proof (rule ccontr)
      assume "k \<noteq> candidate"
      then have "bt_get (bp_entries (lb_policy s')) k = bt_get (bp_entries (lb_policy t)) k"
        using \<open>s' = _\<close> by (cases "bt_get (bp_entries (lb_policy t)) candidate") (auto simp: policy_remove_eq bt_get_remove)
      then show False using kt lost(2) by simp
    qed
    ultimately show ?thesis by (simp add: man)
  next
    case False
    have "\<exists>removed. st_evict store ?asked = Inr removed"
      using eq False kt lost(2) by (cases "st_evict store ?asked") auto
    then obtain removed where removed: "st_evict store ?asked = Inr removed" by blast
    then have r: "r = Inr True" and s': "s' = commit_evicted ?pins removed victims (count_evictions (length removed) t)"
      using eq False by auto
    have "bt_get (bp_entries (lb_policy (count_evictions (length removed) t))) k \<noteq> None" using kt by simp
    from commit_evicted_lost [OF this, of ?pins removed victims] lost(2) s'
    obtain m where m: "k \<in> set victims" "bt_get (lb_manifests t) k = Some m" "m \<in> set removed" by auto
    obtain v where "(k, v) \<in> set (choose_victims tie need ?pins (lb_policy t))"
      using m(1) by (auto simp: victims_def set_filter_map split: if_splits)
    moreover have "policy_reachable tie (lb_policy t)"
      using policy_reachable_calls(3) [OF l3_reach_policy [OF reach]] by (simp add: t_def)
    then obtain n where "policy_inv n (lb_policy t)" by (auto simp: policy_reachable_def dest: policy_reach_inv)
    ultimately have "k \<notin> set ?pins" using choose_victims_evictable by (auto simp: evictable_def)
    then have "\<not> st_is_pinned store m"
      using m(2) bt_get_Some_mem [OF m(2)] by (auto simp: write_pins_def set_filter_map)
    moreover have "m \<in> set ?asked" using m by (auto simp: set_filter_map)
    ultimately show ?thesis using r m removed man by auto
  qed
qed

lemma observe_pressure_keeps:
  "\<exists>f. bp_entries (observe_pressure v p) = map (\<lambda>(k, e). (k, f e)) (bp_entries p) \<and>
     bp_segments (observe_pressure v p) = bp_segments p \<and>
     (\<forall>e. pe_state (f e) = pe_state e \<and> pe_hits (f e) = pe_hits e \<and>
          pe_exclusive_bytes (f e) = pe_exclusive_bytes e)"
proof (cases "v = F64_NaN")
  case True
  then show ?thesis by (intro exI [of _ "\<lambda>e. e"]) (simp add: observe_pressure_def)
next
  case False
  let ?base = "dc_factor (pc_decay (bp_config p))"
  let ?f = "\<lambda>e. e\<lparr>pe_reuse_weight := f64_mul (pe_reuse_weight e) (f64_mul ?base (f64_sub F64_ONE (pressure_level v))),
    pe_observation_weight := f64_mul (pe_observation_weight e)
      (f64_add ?base (f64_mul (f64_sub F64_ONE ?base) (pressure_level v)))\<rparr>"
  have "bp_entries (observe_pressure v p) = map (\<lambda>(k, e). (k, ?f e)) (bp_entries p)"
    "bp_segments (observe_pressure v p) = bp_segments p"
    using False by (simp_all add: observe_pressure_def Let_def pressure_level_def)
  then show ?thesis by (intro exI [of _ ?f]) simp
qed

text \<open>
  A root that tracks one new payload of three bytes and no manifest. With a budget of five bytes and ten
  in use, the payload itself is the candidate that gives way.
\<close>

definition small_root :: l3_benefit where
  "small_root = snd (benefit_should_persist any_tie 7 3 [] (Some small_cost) l3_benefit_default)"

definition small_store :: "string l3_store" where
  "small_store = \<lparr>st_usage = Inr 10, st_budget = 5, st_is_pinned = (\<lambda>_. False), st_evict = Inr\<rparr>"

lemma small_cost_facts: "cost_is_valid small_cost" "\<not> f64_le (net_benefit any_tie small_cost) F64_ZERO"
  by code_simp+

lemma small_root_policy:
  "\<exists>e. bp_entries (lb_policy small_root) = [(7, e)] \<and> pe_state e = Probation \<and> pe_hits e = 0 \<and>
     pe_exclusive_bytes e = 3 \<and> bp_segments (lb_policy small_root) = [] \<and> lb_manifests small_root = []"
proof -
  let ?p = "lb_policy l3_benefit_default"
  have p: "bp_entries ?p = []" "bp_segments ?p = []" "bp_ghosts ?p = []" "bp_config ?p = policy_config_default"
    using default_config_valid by (simp_all add: l3_benefit_default_def benefit_admission_default_def policy_new_def)
  obtain d p' where c: "consider_admission any_tie 7 3 [] small_cost [] ?p = (d, p')" by fastforce
  then have p': "p' = admit_offer 7 3 [] small_cost (expire_ghosts (tick_clock ?p))"
    by (cases rule: consider_admission_cases) (use p small_cost_facts in \<open>auto simp: size_conflict_def\<close>)
  have "lb_policy small_root = p'" "lb_manifests small_root = []"
    using c p small_cost_facts
    by (auto simp: small_root_def benefit_should_persist_def Let_def l3_benefit_default_def benefit_admission_default_def)
  then show ?thesis using p
    by (auto simp: p' admit_offer_def offered_entry_def recurrence_def expire_ghosts_def no_ghost_def
        policy_config_default_def Let_def)
qed

lemma make_room_drops_only_removed_witness:
  "fst (benefit_prepare_write any_tie small_store 7 0 small_root) = Inr False"
proof -
  obtain e where root: "bp_entries (lb_policy small_root) = [(7, e)]" "pe_state e = Probation" "pe_hits e = 0"
      "pe_exclusive_bytes e = 3" "bp_segments (lb_policy small_root) = []" "lb_manifests small_root = []"
    using small_root_policy by blast
  have reach: "l3_reach any_tie small_root"
    unfolding small_root_def by (intro l3_should_persist l3_start)
  define v where "v = f64_div (f64_of_nat 10) (f64_of_nat 5)"
  define t where "t = observe_pressure v (lb_policy small_root)"
  obtain e' where t: "bp_entries t = [(7, e')]" "pe_state e' = Probation" "pe_hits e' = 0"
      "pe_exclusive_bytes e' = 3" "bp_segments t = []"
    using root observe_pressure_keeps [of v "lb_policy small_root"] by (auto simp: t_def)
  have "policy_reachable any_tie t"
    unfolding t_def by (rule policy_reachable_calls(3) [OF l3_reach_policy [OF reach]])
  then obtain n where n: "policy_inv n t" by (auto simp: policy_reachable_def dest: policy_reach_inv)
  have phys: "physical_bytes t = 3" using t by (simp add: physical_bytes_def ledger_bytes_def)
  have small: "physical_bytes t \<le> U64_MAX" using phys by simp
  have "evictable any_tie t [] 7" using t by (simp add: evictable_def bt_get_Cons)
  then have vs: "7 \<in> set (map fst (choose_victims any_tie 5 [] t))"
    using choose_victims_spec(4) [OF n small refl, of 5 "[]" any_tie] phys by auto
  then have victims: "7 \<in> set (List.map_filter (\<lambda>(key, verdict). if verdict = Evict then Some key else None)
      (choose_victims any_tie 5 [] t))"
    by (force simp: choose_victims_def Let_def set_filter_map)
  have pins: "write_pins small_store 7 (with_policy t small_root) = []"
    using root t by (simp add: write_pins_def List.map_filter_def bt_keys_def)
  have call: "benefit_prepare_write any_tie small_store 7 0 small_root =
      (Inr False, with_policy (snd (policy_remove 7 [] t)) (with_policy t small_root))"
    using victims pins by (simp add: benefit_prepare_write_def small_store_def Let_def t_def v_def sat_add_def)
  have "bt_get (bp_entries (lb_policy small_root)) 7 \<noteq> None"
    and "bt_get (bp_entries (lb_policy (with_policy (snd (policy_remove 7 [] t)) (with_policy t small_root)))) 7 = None"
    using root t by (simp_all add: bt_get_Cons policy_remove_eq bt_remove_def)
  from make_room_drops_only_removed [OF reach call this] show ?thesis using call by simp
qed

section \<open>Second-hit persistence\<close>

text \<open>The answers to a series of observations of one payload.\<close>

fun observe_payload ::
    "(f64 \<Rightarrow> f64 \<Rightarrow> bool) \<Rightarrow> entry_key \<Rightarrow> nat \<Rightarrow> (segment_id \<times> nat) list \<Rightarrow> cost_sample list \<Rightarrow> l3_benefit \<Rightarrow>
     bool list" where
  "observe_payload tie key b shared [] s = []"
| "observe_payload tie key b shared (cost # costs) s =
     (case benefit_should_persist tie key b shared (Some cost) s of
        (persist, s) \<Rightarrow> persist # observe_payload tie key b shared costs s)"

text \<open>A known payload with \<open>h\<close> hits is persisted once the hits reach the threshold.\<close>

lemma observe_resident:
  assumes "bt_get (bp_entries (lb_policy s)) key = Some e" and "\<forall>c \<in> set costs. cost_is_valid c"
    and "pe_hits e + length costs \<le> U64_MAX"
    and "pe_state e = Admitted \<longleftrightarrow> pc_persistence_hit_threshold (bp_config (lb_policy s)) \<le> pe_hits e"
  shows "observe_payload tie key b shared costs s =
    map (\<lambda>i. pc_persistence_hit_threshold (bp_config (lb_policy s)) \<le> pe_hits e + Suc i) [0..<length costs]"
  using assms
proof (induction costs arbitrary: s e)
  case Nil
  then show ?case by simp
next
  case (Cons c costs)
  let ?p = "tick_clock (lb_policy s)" and ?thr = "pc_persistence_hit_threshold (bp_config (lb_policy s))"
  let ?e = "hit_entry ?p c e" and ?q = "snd (record_hit key c (lb_policy s))"
  have hits: "pe_hits ?e = Suc (pe_hits e)"
    using Cons.prems(3) wrap_add_exact [of "pe_hits e" 1] by (simp add: hit_entry_def Let_def)
  have state: "pe_state ?e = Admitted \<longleftrightarrow> ?thr \<le> Suc (pe_hits e)"
    using Cons.prems(4) hits by (cases "pe_state e") (auto simp: hit_entry_def Let_def)
  have q: "?q = ?p\<lparr>bp_entries := bt_modify key (hit_entry ?p c) (bp_entries (lb_policy s))\<rparr>"
    using Cons.prems(1,2) by (simp add: record_hit_def Let_def)
  have e: "bt_get (bp_entries ?q) key = Some ?e" using Cons.prems(1) by (simp add: q bt_get_modify)
  have d: "fst (record_hit key c (lb_policy s)) =
      (if pe_state e = Probation \<and> pe_state ?e = Admitted
       then Some \<lparr>ad_kind = Promote, ad_verdict = AdmitVerdict, ad_reasons = [''probation-second-hit''],
                  ad_probation_cap_repair = Satisfied []\<rparr> else None)"
    using Cons.prems(1,2) by (simp add: record_hit_def Let_def)
  obtain s2 where step: "benefit_should_persist tie key b shared (Some c) s = (?thr \<le> Suc (pe_hits e), s2)"
    and s2: "lb_policy s2 = ?q"
  proof -
    let ?b = "pe_state ?e = Admitted"
    have "benefit_should_persist tie key b shared (Some c) s =
        (?b, count_persist (if ?b then 1 else 0) (with_policy ?q s))"
      using Cons.prems(1,2) d e
      by (simp add: benefit_should_persist_def Let_def prod.case_eq_if)
    then show ?thesis using that state by simp
  qed
  have cfg: "bp_config ?q = bp_config (lb_policy s)" by (simp add: q)
  have "observe_payload tie key b shared costs s2 = map (\<lambda>i. ?thr \<le> pe_hits ?e + Suc i) [0..<length costs]"
    using Cons.IH [of s2 ?e] e s2 Cons.prems(2,3) hits state cfg by simp
  then show ?case
    using step hits by (simp add: map_upt_Suc del: upt_Suc)
qed

text \<open>
  Second-hit persistence: a payload not seen before, with a measured cost that makes restoring it
  worthwhile, is written to disk from its third observation on: the first is its offer, the next two
  are its hits, and the default threshold is two.
\<close>

lemma persisted_from_second_hit:
  assumes reach: "l3_reach tie s"
    and new: "bt_get (bp_entries (lb_policy s)) key = None" "bt_get (bp_ghosts (lb_policy s)) key = None"
    and offer: "distinct (map fst shared)" "\<not> size_conflict (lb_policy s) key shared"
      "\<not> f64_le (net_benefit tie cost) F64_ZERO"
    and valid: "cost_is_valid cost" "\<forall>c \<in> set costs. cost_is_valid c" and short: "length costs \<le> U64_MAX"
  shows "observe_payload tie key b shared (cost # costs) s = map (\<lambda>i. 2 \<le> i) [0..<Suc (length costs)]"
proof -
  let ?p = "lb_policy s"
  let ?q = "expire_ghosts (tick_clock ?p)"
  obtain n where n: "policy_reach tie policy_config_default n ?p"
    using l3_reach_policy [OF reach] by (auto simp: policy_reachable_def)
  have inv: "policy_inv n ?p" by (rule policy_reach_inv [OF n])
  have thr: "pc_persistence_hit_threshold (bp_config ?p) = 2"
  proof -
    have "bp_config ?p = policy_config_default" by (rule policy_reach_config [OF n])
    then show ?thesis by (simp add: policy_config_default_def)
  qed
  have "bt_get (bp_ghosts ?q) key = None"
    using expire_ghosts_get [of "tick_clock ?p" key] inv new(2)
    by (cases "bt_get (bp_ghosts ?q) key") (auto simp: policy_invD)
  then have e0: "offered_entry ?q key b shared cost =
      \<lparr>pe_state = Probation, pe_hits = 0, pe_misses = 0, pe_reuse_weight = F64_ZERO,
       pe_observation_weight = F64_ZERO, pe_last_cost = Some cost, pe_exclusive_bytes = b,
       pe_segments = map fst shared, pe_last_observation = bp_clock ?q\<rparr>" (is "_ = ?e0")
    by (simp add: offered_entry_def recurrence_def no_ghost_def thr)
  obtain d p' where c: "consider_admission tie key b shared cost [] ?p = (d, p')" by fastforce
  then have p': "p' = admit_offer key b shared cost ?q" "ad_kind d = AdmitProbation"
    by (cases rule: consider_admission_cases; use new offer valid e0 in auto)+
  have step: "benefit_should_persist tie key b shared (Some cost) s = (False, count_probation (with_policy p' s))"
    using valid new c p'(2) by (simp add: benefit_should_persist_def Let_def)
  have "bt_get (bp_entries p') key = Some ?e0"
    using inv e0 p'(1) by (simp add: policy_invD bt_get_insert)
  then have "observe_payload tie key b shared costs (count_probation (with_policy p' s)) =
      map (\<lambda>i. 2 \<le> Suc i) [0..<length costs]"
    using observe_resident [of "count_probation (with_policy p' s)" key ?e0 costs tie b shared] valid short thr p'(1)
    by simp
  then show ?thesis using step by (simp add: map_upt_Suc del: upt_Suc)
qed

section \<open>Status transitions\<close>

datatype status_call = CallRefusal write_refusal | CallSuccess | CallError | CallTake

fun status_apply :: "status_call \<Rightarrow> l3_status \<Rightarrow> l3_status" where
  "status_apply (CallRefusal refusal) s = record_write_refusal refusal s"
| "status_apply CallSuccess s = record_successful_write s"
| "status_apply CallError s = record_storage_error s"
| "status_apply CallTake s = snd (take_state_transitions s)"

fun chained :: "l3_state_transition list \<Rightarrow> l3_effective_status \<Rightarrow> bool" where
  "chained [] status = True"
| "chained (t # ts) status =
     (tr_previous t \<noteq> tr_current t \<and>
      tr_current t = (case ts of [] \<Rightarrow> status | u # us \<Rightarrow> tr_previous u) \<and> chained ts status)"

lemma chained_snoc:
  "chained ts status \<Longrightarrow> status \<noteq> new_status \<Longrightarrow>
   chained (ts @ [\<lparr>tr_previous = status, tr_current = new_status\<rparr>]) new_status"
proof (induction ts)
  case (Cons t ts)
  then show ?case by (cases ts) auto
qed simp

lemma chained_tl: "chained ts status \<Longrightarrow> chained (tl ts) status"
  by (cases ts) auto

text \<open>The states a root can show: active without a reason, or a state with its own reason.\<close>

definition known_statuses :: "l3_effective_status set" where
  "known_statuses =
     {effective_default,
      \<lparr>es_state = L3ReadOnlyLowSpace, es_reason = Some ReasonReadOnlyLowSpace\<rparr>,
      \<lparr>es_state = L3Degraded, es_reason = Some ReasonInsufficientSpace\<rparr>,
      \<lparr>es_state = L3Degraded, es_reason = Some ReasonStorageError\<rparr>}"

definition status_inv :: "l3_status \<Rightarrow> bool" where
  "status_inv s \<longleftrightarrow>
     ls_effective s \<in> known_statuses \<and> chained (ls_transitions s) (ls_effective s) \<and>
     length (ls_transitions s) \<le> MAX_PENDING_STATE_TRANSITIONS"

lemma status_inv_transition:
  assumes "status_inv s" and "new_status \<in> known_statuses"
  shows "status_inv (transition_to new_status s)"
proof (cases "ls_effective s = new_status")
  case False
  then show ?thesis
    using assms chained_snoc [OF _ False] chained_tl [of "ls_transitions s" "ls_effective s"]
    by (auto simp: status_inv_def transition_to_def Let_def MAX_PENDING_STATE_TRANSITIONS_def)
qed (use assms in \<open>simp add: transition_to_def\<close>)

lemma status_inv_apply: "status_inv s \<Longrightarrow> status_inv (status_apply call s)"
  by (cases call)
    (auto simp: record_write_refusal_def record_successful_write_def record_storage_error_def known_statuses_def
      take_state_transitions_def intro: status_inv_transition split: write_refusal.split;
      simp add: status_inv_def)+

lemma status_inv_default: "status_inv l3_status_default"
  by (simp add: status_inv_def l3_status_default_def known_statuses_def)

interpretation status: step_invariant "\<lambda>s. s = l3_status_default" "\<lambda>s t. \<exists>call. t = status_apply call s" status_inv
  by unfold_locales (auto intro: status_inv_apply status_inv_default)

lemma status_run: "(\<lambda>s t. \<exists>call. t = status_apply call s)\<^sup>*\<^sup>* s (foldl (\<lambda>s call. status_apply call s) s calls)"
proof (induction calls rule: rev_induct)
  case (snoc call calls)
  then show ?case by (auto intro: rtranclp.rtrancl_into_rtrancl)
qed simp

text \<open>
  The pending transitions of a root are a chain: whatever refusals, errors, successful writes and
  reads of the queue came before, at most 64 are pending, each one starts where the one before it
  ended and changes the status, the last ends in the effective status, and that status is one of the
  four the code defines.
\<close>

lemma status_transitions_chained:
  "length (ls_transitions (foldl (\<lambda>s call. status_apply call s) l3_status_default calls)) \<le> 64 \<and>
   chained (ls_transitions (foldl (\<lambda>s call. status_apply call s) l3_status_default calls))
     (ls_effective (foldl (\<lambda>s call. status_apply call s) l3_status_default calls)) \<and>
   ls_effective (foldl (\<lambda>s call. status_apply call s) l3_status_default calls) \<in> known_statuses"
  using status.reachable_inv [OF refl status_run, of calls]
  by (simp add: status_inv_def MAX_PENDING_STATE_TRANSITIONS_def)

end
