(* ===== verification/L2Tier.thy ===== *)
theory L2Tier
  imports WireBase
begin

text \<open>
  The host-memory tier of the cache (src/crates/skippy-cache/src/l2/mod.rs) with the payload views it
  hands out (payload/mod.rs, payload/bytes.rs): a pool of immutable segments addressed by their digest,
  the entries that list them, admission as a journaled transaction with rollback, reads, removal and
  eviction in least-recently-used order. BLAKE3 in hexadecimal is the argument \<open>hash\<close>. The \<open>HashMap\<close>s are
  the lists of their entries in iteration order. The value of a refusal's message is the constructor
  with the values the text prints. An \<open>Arc\<close> of bytes is the bytes.
\<close>

type_synonym digest = rust_string
type_synonym cache_key = rust_string
type_synonym byte_range = "nat \<times> nat"

definition sub_list :: "'a list \<Rightarrow> nat \<Rightarrow> nat \<Rightarrow> 'a list" where
  "sub_list xs start stop = take (stop - start) (drop start xs)"

section \<open>Payload bytes\<close>

record cache_block =
  cb_hash :: digest
  cb_storage :: "byte list"
  cb_range :: byte_range

datatype cache_bytes_repr =
    InlineBytes "byte list"
  | BlockBytes "cache_block list" "byte list option"

record cache_bytes =
  by_len :: nat
  by_repr :: cache_bytes_repr

definition cache_bytes_inline :: "byte list \<Rightarrow> cache_bytes" where
  "cache_bytes_inline bytes = \<lparr>by_len = length bytes, by_repr = InlineBytes bytes\<rparr>"

definition from_shared_blocks :: "nat \<Rightarrow> (digest \<times> byte list \<times> byte_range) list \<Rightarrow> cache_bytes" where
  "from_shared_blocks len blocks =
     (let refs = map (\<lambda>(hash, storage, range). \<lparr>cb_hash = hash, cb_storage = storage, cb_range = range\<rparr>) blocks;
          contiguous = (case refs of
             [single] \<Rightarrow> if fst (cb_range single) = 0 \<and> snd (cb_range single) = length (cb_storage single)
                         then Some (cb_storage single) else None
           | _ \<Rightarrow> None)
      in \<lparr>by_len = len, by_repr = BlockBytes refs contiguous\<rparr>)"

definition block_slice :: "cache_block \<Rightarrow> byte list" where
  "block_slice b = sub_list (cb_storage b) (fst (cb_range b)) (snd (cb_range b))"

text \<open>\<open>as_cow\<close>: the bytes, or the expected and the actual length of a view that does not add up.\<close>

definition as_cow :: "cache_bytes \<Rightarrow> (nat \<times> nat) + byte list" where
  "as_cow b =
     (case by_repr b of
        InlineBytes bytes \<Rightarrow> Inr bytes
      | BlockBytes blocks contiguous \<Rightarrow>
          (case contiguous of
             Some bytes \<Rightarrow> Inr bytes
           | None \<Rightarrow>
               let out = concat (map block_slice blocks)
               in if length out \<noteq> by_len b then Inl (by_len b, length out) else Inr out))"

datatype payload_kind = KindFullState | KindRecurrentOnly | KindKvRecurrent

datatype exact_state_payload =
    PayloadFullState cache_bytes
  | PayloadRecurrentOnly cache_bytes
  | PayloadKvRecurrent cache_bytes cache_bytes

fun payload_kind_of :: "exact_state_payload \<Rightarrow> payload_kind" where
  "payload_kind_of (PayloadFullState bytes) = KindFullState"
| "payload_kind_of (PayloadRecurrentOnly recurrent) = KindRecurrentOnly"
| "payload_kind_of (PayloadKvRecurrent kv recurrent) = KindKvRecurrent"

definition text_bytes :: "string \<Rightarrow> rust_string" where
  "text_bytes s = map (\<lambda>c. word_of_nat (of_char c)) s"

fun payload_kind_str :: "payload_kind \<Rightarrow> rust_string" where
  "payload_kind_str KindFullState = text_bytes ''full-state''"
| "payload_kind_str KindRecurrentOnly = text_bytes ''recurrent-only''"
| "payload_kind_str KindKvRecurrent = text_bytes ''kv-recurrent''"

section \<open>Refusals\<close>

datatype manifest_defect =
    SegmentIndex digest nat nat
  | SegmentOffset digest nat nat
  | TilingOverflow
  | TilingTotal nat nat
  | NoSegments
  | WireLength nat nat
  | KvRecurrentTotal nat nat nat
  | SegmentDigestFormat digest
  | SegmentRange byte_range nat
  | MirrorLength nat nat
  | Reconstruction nat nat

datatype l2_insert_refusal =
    EmptyPayload
  | OverBudget nat
  | ProtectedOvercommit nat nat
  | MalformedDigest
  | DigestMismatch digest digest
  | SegmentDigestMismatch digest digest digest
  | ConflictingSegment digest
  | UnknownPayloadKind rust_string
  | MalformedManifest manifest_defect

section \<open>Layouts and mirrors\<close>

record l2_layout =
  la_payload_kind :: payload_kind
  la_total_bytes :: nat
  la_kv_bytes :: nat
  la_recurrent_bytes :: nat
  la_kv_desc_json :: "rust_string option"
  la_segments :: "(digest \<times> byte_range) list"

datatype payload_mirror =
    FullStateMirror l2_layout
  | RecurrentOnlyMirror l2_layout
  | KvRecurrentMirror l2_layout

fun mirror_kind :: "payload_mirror \<Rightarrow> payload_kind" where
  "mirror_kind (FullStateMirror layout) = KindFullState"
| "mirror_kind (RecurrentOnlyMirror layout) = KindRecurrentOnly"
| "mirror_kind (KvRecurrentMirror layout) = KindKvRecurrent"

fun mirror_layout :: "payload_mirror \<Rightarrow> l2_layout" where
  "mirror_layout (FullStateMirror layout) = layout"
| "mirror_layout (RecurrentOnlyMirror layout) = layout"
| "mirror_layout (KvRecurrentMirror layout) = layout"

definition mirror_byte_len :: "payload_mirror \<Rightarrow> nat" where
  "mirror_byte_len m = la_total_bytes (mirror_layout m)"

text \<open>The digests in wire order, each once: the first occurrences.\<close>

primrec first_occurrences :: "'a list \<Rightarrow> 'a list \<Rightarrow> 'a list" where
  "first_occurrences seen [] = seen"
| "first_occurrences seen (x # xs) = first_occurrences (if x \<in> set seen then seen else seen @ [x]) xs"

definition segment_digests :: "payload_mirror \<Rightarrow> digest list" where
  "segment_digests m = first_occurrences [] (map fst (la_segments (mirror_layout m)))"

text \<open>The fields of a manifest that the tier reads.\<close>

record handoff_segment_ref =
  hs_index :: nat
  hs_offset :: nat
  hs_bytes :: nat
  hs_digest :: digest

record handoff_manifest =
  hm_payload_kind :: rust_string
  hm_total_bytes :: nat
  hm_segments :: "handoff_segment_ref list"
  hm_kv_bytes :: nat
  hm_recurrent_bytes :: nat
  hm_kv_desc_json :: "rust_string option"

fun tile_segments ::
    "nat \<Rightarrow> nat \<Rightarrow> handoff_segment_ref list \<Rightarrow> l2_insert_refusal + ((digest \<times> byte_range) list \<times> nat)" where
  "tile_segments index offset [] = Inr ([], offset)"
| "tile_segments index offset (segment # segments) =
     (if hs_index segment \<noteq> index mod 2 ^ 32 then
        Inl (MalformedManifest (SegmentIndex (hs_digest segment) (hs_index segment) index))
      else if hs_offset segment \<noteq> offset then
        Inl (MalformedManifest (SegmentOffset (hs_digest segment) (hs_offset segment) offset))
      else if U64_MAX < offset + hs_bytes segment then Inl (MalformedManifest TilingOverflow)
      else
        res_bind (tile_segments (Suc index) (offset + hs_bytes segment) segments) (\<lambda>(rest, stop).
        Inr ((hs_digest segment, (offset, offset + hs_bytes segment)) # rest, stop)))"

definition parse_payload_kind :: "rust_string \<Rightarrow> payload_kind option" where
  "parse_payload_kind kind =
     (if kind = payload_kind_str KindFullState then Some KindFullState
      else if kind = payload_kind_str KindRecurrentOnly then Some KindRecurrentOnly
      else if kind = payload_kind_str KindKvRecurrent then Some KindKvRecurrent
      else None)"

definition mirror_from_manifest :: "handoff_manifest \<Rightarrow> l2_insert_refusal + payload_mirror" where
  "mirror_from_manifest manifest =
     (case parse_payload_kind (hm_payload_kind manifest) of
        None \<Rightarrow> Inl (UnknownPayloadKind (hm_payload_kind manifest))
      | Some kind \<Rightarrow>
          res_bind (tile_segments 0 0 (hm_segments manifest)) (\<lambda>(segments, offset).
          if offset \<noteq> hm_total_bytes manifest then
            Inl (MalformedManifest (TilingTotal offset (hm_total_bytes manifest)))
          else
            let layout = \<lparr>la_payload_kind = kind, la_total_bytes = hm_total_bytes manifest,
                  la_kv_bytes = hm_kv_bytes manifest, la_recurrent_bytes = hm_recurrent_bytes manifest,
                  la_kv_desc_json = hm_kv_desc_json manifest, la_segments = segments\<rparr>
            in Inr (case kind of
                  KindFullState \<Rightarrow> FullStateMirror layout
                | KindRecurrentOnly \<Rightarrow> RecurrentOnlyMirror layout
                | KindKvRecurrent \<Rightarrow> KvRecurrentMirror layout)))"

section \<open>The tier\<close>

datatype l2_origin = FromL3 | DirectOrigin

record l2_eviction =
  ev_cache_key :: cache_key
  ev_freed_bytes :: nat
  ev_retained_bytes :: nat

record l2_entry =
  le_payload :: payload_mirror
  le_token_count :: nat
  le_payload_digest :: digest
  le_origin :: l2_origin
  le_last_used :: nat
  le_charge_bytes :: nat
  le_payload_bytes :: nat

record l2_inner =
  li_map :: "(cache_key \<times> l2_entry) list"
  li_segments :: "(digest \<times> byte list) list"
  li_bytes :: nat
  li_clock :: nat

record admit_journal =
  aj_reserved :: "digest list"
  aj_overwrites :: "(digest \<times> byte list) list"
  aj_overwritten_bytes :: nat
  aj_released_orphans :: "(digest \<times> byte list) list"
  aj_removed_entries :: "(cache_key \<times> l2_entry) list"
  aj_reserved_bytes :: nat
  aj_released_bytes :: nat

definition journal_default :: admit_journal where
  "journal_default =
     \<lparr>aj_reserved = [], aj_overwrites = [], aj_overwritten_bytes = 0, aj_released_orphans = [],
      aj_removed_entries = [], aj_reserved_bytes = 0, aj_released_bytes = 0\<rparr>"

text \<open>The counters are atomics; \<open>fetch_add\<close> and \<open>fetch_sub\<close> wrap.\<close>

record l2_counters =
  ct_hits :: nat
  ct_misses :: nat
  ct_inserts :: nat
  ct_evictions :: nat
  ct_admission_rejects :: nat
  ct_refused_bytes :: nat
  ct_shared_bytes_admitted :: nat

record l2_tier =
  lt_inner :: l2_inner
  lt_budget_bytes :: nat
  lt_stats :: l2_counters

definition fetch_add :: "nat \<Rightarrow> nat \<Rightarrow> nat" where
  "fetch_add n counter = (counter + n) mod 2 ^ 64"

definition fetch_sub :: "nat \<Rightarrow> nat \<Rightarrow> nat" where
  "fetch_sub n counter = (counter + (2 ^ 64 - n mod 2 ^ 64)) mod 2 ^ 64"

definition tier_new :: "nat \<Rightarrow> l2_tier" where
  "tier_new budget_bytes =
     \<lparr>lt_inner = \<lparr>li_map = [], li_segments = [], li_bytes = 0, li_clock = 0\<rparr>,
      lt_budget_bytes = budget_bytes,
      lt_stats = \<lparr>ct_hits = 0, ct_misses = 0, ct_inserts = 0, ct_evictions = 0, ct_admission_rejects = 0,
                  ct_refused_bytes = 0, ct_shared_bytes_admitted = 0\<rparr>\<rparr>"

definition with_stats :: "(l2_counters \<Rightarrow> l2_counters) \<Rightarrow> l2_tier \<Rightarrow> l2_tier" where
  "with_stats f t = t\<lparr>lt_stats := f (lt_stats t)\<rparr>"

section \<open>References and charges\<close>

definition still_referenced :: "(cache_key \<times> l2_entry) list \<Rightarrow> digest \<Rightarrow> bool" where
  "still_referenced m digest \<longleftrightarrow> list_ex (\<lambda>(k, e). digest \<in> set (segment_digests (le_payload e))) m"

text \<open>The owner of a segment: its live reference of the lowest key.\<close>

definition segment_owner :: "(cache_key \<times> l2_entry) list \<Rightarrow> digest \<Rightarrow> cache_key option" where
  "segment_owner m digest =
     min_by cmp (map fst (filter (\<lambda>(k, e). digest \<in> set (segment_digests (le_payload e))) m))"

definition owned_bytes :: "l2_inner \<Rightarrow> cache_key \<Rightarrow> nat" where
  "owned_bytes inner key =
     wrap_sum (map (\<lambda>(d, bytes). length bytes)
       (filter (\<lambda>(d, bytes). segment_owner (li_map inner) d = Some key) (li_segments inner)))"

definition recompute_all_charges :: "l2_inner \<Rightarrow> l2_inner" where
  "recompute_all_charges inner =
     inner\<lparr>li_map := map (\<lambda>(key, e). (key, e\<lparr>le_charge_bytes := owned_bytes inner key\<rparr>)) (li_map inner)\<rparr>"

text \<open>
  The loop that drops the segments of a removed entry, unless another entry references them or the
  admission in flight pins them; it records what it drops.
\<close>

definition release_digest :: "digest list \<Rightarrow> l2_inner \<times> admit_journal \<Rightarrow> digest \<Rightarrow> l2_inner \<times> admit_journal" where
  "release_digest pinned s digest =
     (case s of (inner, journal) \<Rightarrow>
        if digest \<in> set pinned then s
        else if still_referenced (li_map inner) digest then s
        else
          case bt_get (li_segments inner) digest of
            None \<Rightarrow> s
          | Some handle \<Rightarrow>
              (inner\<lparr>li_segments := bt_remove digest (li_segments inner),
                     li_bytes := sat_sub (li_bytes inner) (length handle)\<rparr>,
               journal\<lparr>aj_released_bytes := sat_add (aj_released_bytes journal) (length handle),
                       aj_released_orphans := aj_released_orphans journal @ [(digest, handle)]\<rparr>))"

definition release_digests ::
    "digest list \<Rightarrow> digest list \<Rightarrow> l2_inner \<times> admit_journal \<Rightarrow> l2_inner \<times> admit_journal" where
  "release_digests pinned digests s = foldl (release_digest pinned) s digests"

definition release_entry_segments :: "l2_inner \<Rightarrow> l2_entry \<Rightarrow> digest list \<Rightarrow> l2_inner" where
  "release_entry_segments inner e pinned =
     fst (release_digests pinned (segment_digests (le_payload e)) (inner, journal_default))"

text \<open>The bytes of a removed entry that stay, for other entries or for the admission in flight.\<close>

definition retained_bytes :: "l2_inner \<Rightarrow> l2_entry \<Rightarrow> digest list \<Rightarrow> nat" where
  "retained_bytes inner e pinned =
     foldl (\<lambda>retained digest.
       if still_referenced (li_map inner) digest \<or> digest \<in> set pinned then
         sat_add retained (case bt_get (li_segments inner) digest of Some h \<Rightarrow> length h | None \<Rightarrow> 0)
       else retained) 0 (segment_digests (le_payload e))"

section \<open>Eviction\<close>

definition lru_cmp :: "cache_key \<times> l2_entry \<Rightarrow> cache_key \<times> l2_entry \<Rightarrow> ordering" where
  "lru_cmp a b = then_with (cmp (le_last_used (snd a)) (le_last_used (snd b))) (cmp (fst a) (fst b))"

definition l2_victim :: "l2_inner \<Rightarrow> cache_key \<Rightarrow> (cache_key \<times> l2_entry) option" where
  "l2_victim inner protect_key = min_by lru_cmp (filter (\<lambda>ke. fst ke \<noteq> protect_key) (li_map inner))"

text \<open>One round of the eviction loop.\<close>

definition evict_victim ::
    "digest list \<Rightarrow> cache_key \<times> l2_entry \<Rightarrow> l2_inner \<times> admit_journal \<Rightarrow>
     (l2_inner \<times> admit_journal) \<times> l2_eviction" where
  "evict_victim pinned victim s =
     (case s of (inner, journal) \<Rightarrow>
        let inner = inner\<lparr>li_map := bt_remove (fst victim) (li_map inner)\<rparr>;
            retained = retained_bytes inner (snd victim) pinned;
            bytes_before = li_bytes inner;
            inner = recompute_all_charges inner
        in case release_digests pinned (segment_digests (le_payload (snd victim))) (inner, journal) of
             (inner, journal) \<Rightarrow>
               ((inner, journal\<lparr>aj_removed_entries := aj_removed_entries journal @ [victim]\<rparr>),
                \<lparr>ev_cache_key = fst victim, ev_freed_bytes = sat_sub bytes_before (li_bytes inner),
                 ev_retained_bytes = retained\<rparr>))"

lemma comparator_lru_cmp: "comparator lru_cmp A"
  unfolding lru_cmp_def by (intro comparator_then_with comparator_cmp_key)

lemma l2_victim_mem: "l2_victim inner key = Some v \<Longrightarrow> v \<in> set (li_map inner) \<and> fst v \<noteq> key"
  using comparator.min_by_least [OF comparator_lru_cmp subset_UNIV] by (fastforce simp: l2_victim_def)

lemma release_digest_map: "li_map (fst (release_digest pinned s d)) = li_map (fst s)"
  by (auto simp: release_digest_def split: prod.split option.split)

lemma release_digests_map: "li_map (fst (release_digests pinned ds s)) = li_map (fst s)"
  by (induction ds arbitrary: s) (auto simp: release_digests_def release_digest_map)

lemma evict_victim_map:
  "li_map (fst (fst (evict_victim pinned v (inner, journal)))) =
     map (\<lambda>(key, e). (key, e\<lparr>le_charge_bytes :=
       owned_bytes (inner\<lparr>li_map := bt_remove (fst v) (li_map inner)\<rparr>) key\<rparr>)) (bt_remove (fst v) (li_map inner))"
proof -
  define i where "i = recompute_all_charges (inner\<lparr>li_map := bt_remove (fst v) (li_map inner)\<rparr>)"
  define ds where "ds = segment_digests (le_payload (snd v))"
  obtain i' j' where r: "release_digests pinned ds (i, journal) = (i', j')" by (cases "release_digests pinned ds (i, journal)")
  then have "li_map i' = li_map i" using release_digests_map [of pinned ds "(i, journal)"] by simp
  then show ?thesis
    by (simp add: evict_victim_def Let_def r [unfolded i_def ds_def])
      (simp add: i_def recompute_all_charges_def)
qed

lemma bt_remove_length_less: "v \<in> set m \<Longrightarrow> length (bt_remove (fst v) m) < length m"
  by (auto simp: bt_remove_def intro: length_filter_less)

lemma evict_victim_shorter:
  assumes "l2_victim (fst s) key = Some v" and r: "(s', ev) = evict_victim pinned v s"
  shows "length (li_map (fst s')) < length (li_map (fst s))"
proof -
  have "li_map (fst s') = li_map (fst (fst (evict_victim pinned v (fst s, snd s))))"
    using r by (metis fst_conv prod.collapse)
  then have "length (li_map (fst s')) = length (bt_remove (fst v) (li_map (fst s)))"
    by (simp only: evict_victim_map length_map)
  then show ?thesis
    using bt_remove_length_less [of v "li_map (fst s)"] l2_victim_mem [OF assms(1)] by simp
qed

function evict_to_limit ::
    "nat \<Rightarrow> cache_key \<Rightarrow> digest list \<Rightarrow> l2_inner \<times> admit_journal \<Rightarrow>
     (l2_inner \<times> admit_journal) \<times> l2_eviction list" where
  "evict_to_limit limit protect_key pinned s =
     (if li_bytes (fst s) \<le> limit then (s, [])
      else
        case l2_victim (fst s) protect_key of
          None \<Rightarrow> (s, [])
        | Some victim \<Rightarrow>
            (case evict_victim pinned victim s of
               (s', eviction) \<Rightarrow>
                 (case evict_to_limit limit protect_key pinned s' of
                    (s'', evictions) \<Rightarrow> (s'', eviction # evictions))))"
  by pat_completeness auto
termination evict_to_limit
  by (relation "measure (\<lambda>(limit, key, pinned, s). length (li_map (fst s)))")
    (auto dest!: evict_victim_shorter)

declare evict_to_limit.simps [simp del]

section \<open>Admission\<close>

definition is_hex_digit :: "byte \<Rightarrow> bool" where
  "is_hex_digit b \<longleftrightarrow> 48 \<le> b \<and> b \<le> 57 \<or> 65 \<le> b \<and> b \<le> 70 \<or> 97 \<le> b \<and> b \<le> 102"

definition is_valid_digest :: "digest \<Rightarrow> bool" where
  "is_valid_digest digest \<longleftrightarrow>
     (let prefix = text_bytes ''blake3:'';
          hex = (if take (length prefix) digest = prefix then drop (length prefix) digest else digest)
      in length hex = 64 \<and> list_all is_hex_digit hex)"

fun validate_segments ::
    "(byte list \<Rightarrow> digest) \<Rightarrow> byte list \<Rightarrow> nat \<Rightarrow> (digest \<times> byte_range) list \<Rightarrow>
     l2_insert_refusal + ((digest \<times> byte list) list \<times> nat)" where
  "validate_segments hash wire expected_start [] = Inr ([], expected_start)"
| "validate_segments hash wire expected_start ((digest, start, stop) # segments) =
     (if \<not> is_valid_digest digest then Inl (MalformedManifest (SegmentDigestFormat digest))
      else if start \<noteq> expected_start \<or> stop < start \<or> length wire < stop then
        Inl (MalformedManifest (SegmentRange (start, stop) expected_start))
      else
        let part = sub_list wire start stop;
            actual = hash part
        in if actual \<noteq> digest then Inl (SegmentDigestMismatch digest digest actual)
           else
             res_bind (validate_segments hash wire stop segments) (\<lambda>(rest, total).
             Inr ((digest, part) # rest, total)))"

definition validate_layout ::
    "(byte list \<Rightarrow> digest) \<Rightarrow> payload_mirror \<Rightarrow> byte list \<Rightarrow> l2_insert_refusal + (digest \<times> byte list) list" where
  "validate_layout hash mirror wire =
     (let layout = mirror_layout mirror
      in if la_segments layout = [] then Inl (MalformedManifest NoSegments)
         else if la_total_bytes layout \<noteq> length wire then
           Inl (MalformedManifest (WireLength (la_total_bytes layout) (length wire)))
         else if sat_add (la_kv_bytes layout) (la_recurrent_bytes layout) \<noteq> la_total_bytes layout then
           Inl (MalformedManifest (KvRecurrentTotal (la_kv_bytes layout) (la_recurrent_bytes layout)
             (la_total_bytes layout)))
         else
           res_bind (validate_segments hash wire 0 (la_segments layout)) (\<lambda>(validated, expected_start).
           if expected_start \<noteq> la_total_bytes layout then
             Inl (MalformedManifest (TilingTotal expected_start (la_total_bytes layout)))
           else Inr validated))"

text \<open>What the admission adds and what it shares: the loop over the validated segments.\<close>

record admit_plan =
  ap_shared :: "digest list"
  ap_new_segments :: "(digest \<times> byte list) list"
  ap_new_bytes :: nat
  ap_shared_bytes :: nat

fun plan_segments ::
    "l2_inner \<Rightarrow> cache_key \<Rightarrow> (digest \<times> byte list) list \<Rightarrow> admit_plan \<Rightarrow> l2_insert_refusal + admit_plan" where
  "plan_segments inner cache_key [] p = Inr p"
| "plan_segments inner cache_key ((digest, part) # segments) p =
     (let share = p\<lparr>ap_shared_bytes := (ap_shared_bytes p + length part) mod 2 ^ 64\<rparr>;
          reserve = p\<lparr>ap_new_bytes := sat_add (ap_new_bytes p) (length part),
                      ap_new_segments := ap_new_segments p @ [(digest, part)]\<rparr>
      in if digest \<in> set (map fst (ap_new_segments p)) then plan_segments inner cache_key segments share
         else
           case bt_get (li_segments inner) digest of
             Some handle \<Rightarrow>
               if handle = part then
                 plan_segments inner cache_key segments (share\<lparr>ap_shared := ap_shared p @ [digest]\<rparr>)
               else if (case bt_get (li_map inner) cache_key of
                          Some e \<Rightarrow> digest \<in> set (segment_digests (le_payload e)) | None \<Rightarrow> False) then
                 plan_segments inner cache_key segments reserve
               else Inl (ConflictingSegment digest)
           | None \<Rightarrow> plan_segments inner cache_key segments reserve)"

text \<open>Reserving one new handle in the pool.\<close>

definition reserve_segment ::
    "l2_inner \<times> admit_journal \<Rightarrow> digest \<times> byte list \<Rightarrow> l2_inner \<times> admit_journal" where
  "reserve_segment s new =
     (case s of (inner, journal) \<Rightarrow>
        case new of (digest, handle) \<Rightarrow>
          let len = length handle;
              previous = bt_get (li_segments inner) digest;
              inner = inner\<lparr>li_bytes := sat_add (li_bytes inner) len,
                            li_segments := hl_put digest handle (li_segments inner)\<rparr>;
              journal = journal\<lparr>aj_reserved_bytes := sat_add (aj_reserved_bytes journal) len\<rparr>
          in case previous of
               Some previous \<Rightarrow>
                 (inner\<lparr>li_bytes := sat_sub (li_bytes inner) (length previous)\<rparr>,
                  journal\<lparr>aj_overwritten_bytes := sat_add (aj_overwritten_bytes journal) (length previous),
                          aj_overwrites := aj_overwrites journal @ [(digest, previous)]\<rparr>)
             | None \<Rightarrow> (inner, journal\<lparr>aj_reserved := aj_reserved journal @ [digest]\<rparr>))"

text \<open>Releasing the entry that the admission replaces.\<close>

definition release_replaced ::
    "cache_key \<Rightarrow> digest list \<Rightarrow> l2_inner \<times> admit_journal \<Rightarrow> l2_inner \<times> admit_journal" where
  "release_replaced cache_key pinned s =
     (case s of (inner, journal) \<Rightarrow>
        case bt_get (li_map inner) cache_key of
          None \<Rightarrow> s
        | Some existing \<Rightarrow>
            let inner = recompute_all_charges (inner\<lparr>li_map := bt_remove cache_key (li_map inner)\<rparr>)
            in case release_digests pinned (segment_digests (le_payload existing)) (inner, journal) of
                 (inner, journal) \<Rightarrow>
                   (inner, journal\<lparr>aj_removed_entries := aj_removed_entries journal @ [(cache_key, existing)]\<rparr>))"

definition rollback :: "admit_journal \<Rightarrow> l2_inner \<Rightarrow> l2_inner" where
  "rollback journal inner =
     (let segments = foldl (\<lambda>m (d, h). hl_put d h m) (li_segments inner) (aj_overwrites journal);
          segments = foldl (\<lambda>m d. bt_remove d m) segments (aj_reserved journal);
          segments = foldl (\<lambda>m (d, h). hl_put d h m) segments (aj_released_orphans journal);
          entries = foldl (\<lambda>m (k, e). hl_put k e m) (li_map inner) (aj_removed_entries journal)
      in inner\<lparr>li_segments := segments, li_map := entries,
               li_bytes := sat_sub (sat_add (sat_add (li_bytes inner) (aj_released_bytes journal))
                 (aj_overwritten_bytes journal)) (aj_reserved_bytes journal)\<rparr>)"

definition count_reject :: "l2_tier \<Rightarrow> l2_tier" where
  "count_reject = with_stats (\<lambda>c. c\<lparr>ct_admission_rejects := fetch_add 1 (ct_admission_rejects c)\<rparr>)"

definition count_refused :: "nat \<Rightarrow> l2_tier \<Rightarrow> l2_tier" where
  "count_refused n = with_stats (\<lambda>c. c\<lparr>ct_refused_bytes := fetch_add n (ct_refused_bytes c)\<rparr>)"

definition count_evicted :: "nat \<Rightarrow> l2_tier \<Rightarrow> l2_tier" where
  "count_evicted n = with_stats (\<lambda>c. c\<lparr>ct_evictions := fetch_add n (ct_evictions c)\<rparr>)"

text \<open>The part of \<open>admit\<close> that holds the lock.\<close>

definition admit_locked ::
    "cache_key \<Rightarrow> nat \<Rightarrow> digest \<Rightarrow> (digest \<times> byte list) list \<Rightarrow> payload_mirror \<Rightarrow> l2_origin \<Rightarrow> l2_tier \<Rightarrow>
     (l2_insert_refusal + l2_eviction list) \<times> l2_tier" where
  "admit_locked cache_key token_count payload_digest segments mirror origin t =
     (let inner = lt_inner t; budget = lt_budget_bytes t
      in case plan_segments inner cache_key segments
                \<lparr>ap_shared = [], ap_new_segments = [], ap_new_bytes = 0, ap_shared_bytes = 0\<rparr> of
           Inl refusal \<Rightarrow> (Inl refusal, t)
         | Inr p \<Rightarrow>
             if budget < ap_new_bytes p then (Inl (OverBudget (ap_new_bytes p)), count_refused (ap_new_bytes p) t)
             else
               let pinned = map fst (ap_new_segments p) @ ap_shared p;
                   s = foldl reserve_segment (inner, journal_default) (ap_new_segments p);
                   s = release_replaced cache_key pinned s
               in case evict_to_limit budget cache_key pinned s of
                    ((inner, journal), evictions) \<Rightarrow>
                      let t = count_evicted (length evictions) t
                      in if budget < li_bytes inner then
                           (Inl (ProtectedOvercommit (li_bytes inner) budget),
                            count_refused (sat_sub (li_bytes inner) budget)
                              (with_stats (\<lambda>c. c\<lparr>ct_evictions := fetch_sub (length evictions) (ct_evictions c)\<rparr>)
                                (t\<lparr>lt_inner := recompute_all_charges (rollback journal inner)\<rparr>)))
                         else
                           let clock = (li_clock inner + 1) mod 2 ^ 64;
                               e = \<lparr>le_payload = mirror, le_token_count = token_count,
                                    le_payload_digest = payload_digest, le_origin = origin,
                                    le_last_used = clock, le_charge_bytes = 0,
                                    le_payload_bytes = mirror_byte_len mirror\<rparr>;
                               inner = recompute_all_charges
                                 (inner\<lparr>li_clock := clock, li_map := hl_put cache_key e (li_map inner)\<rparr>)
                           in (Inr evictions,
                               with_stats (\<lambda>c. c\<lparr>ct_shared_bytes_admitted :=
                                     fetch_add (ap_shared_bytes p) (ct_shared_bytes_admitted c),
                                   ct_inserts := fetch_add 1 (ct_inserts c)\<rparr>)
                                 (t\<lparr>lt_inner := inner\<rparr>)))"

definition admit ::
    "(byte list \<Rightarrow> digest) \<Rightarrow> cache_key \<Rightarrow> nat \<Rightarrow> digest \<Rightarrow> byte list \<Rightarrow> payload_mirror \<Rightarrow> l2_origin \<Rightarrow> l2_tier \<Rightarrow>
     (l2_insert_refusal + l2_eviction list) \<times> l2_tier" where
  "admit hash cache_key token_count payload_digest wire mirror origin t =
     (if \<not> is_valid_digest payload_digest then (Inl MalformedDigest, count_reject t)
      else
        let actual = hash wire
        in if actual \<noteq> payload_digest then (Inl (DigestMismatch payload_digest actual), count_reject t)
           else if mirror_byte_len mirror = 0 then (Inl EmptyPayload, t)
           else if mirror_byte_len mirror \<noteq> length wire then
             (Inl (MalformedManifest (MirrorLength (mirror_byte_len mirror) (length wire))), t)
           else
             case validate_layout hash mirror wire of
               Inl refusal \<Rightarrow> (Inl refusal, t)
             | Inr segments \<Rightarrow> admit_locked cache_key token_count payload_digest segments mirror origin t)"

definition DIRECT_SEGMENT_BYTES :: nat where
  "DIRECT_SEGMENT_BYTES = 1024 * 1024"

definition payload_wire :: "exact_state_payload \<Rightarrow> l2_insert_refusal + (byte list \<times> nat \<times> nat)" where
  "payload_wire payload =
     (let cow = (\<lambda>b. case as_cow b of
            Inl (expected, got) \<Rightarrow> Inl (MalformedManifest (Reconstruction expected got))
          | Inr bytes \<Rightarrow> Inr bytes)
      in case payload of
           PayloadFullState bytes \<Rightarrow> res_bind (cow bytes) (\<lambda>wire. Inr (wire, length wire, 0))
         | PayloadRecurrentOnly recurrent \<Rightarrow> res_bind (cow recurrent) (\<lambda>wire. Inr (wire, 0, length wire))
         | PayloadKvRecurrent kv recurrent \<Rightarrow>
             res_bind (cow kv) (\<lambda>kv. res_bind (cow recurrent) (\<lambda>recurrent.
             Inr (kv @ recurrent, length kv, length recurrent))))"

text \<open>The segment list of a payload cut into chunks: the \<open>scan\<close> over offsets.\<close>

primrec chunk_refs ::
    "(byte list \<Rightarrow> digest) \<Rightarrow> nat \<Rightarrow> nat \<Rightarrow> byte list list \<Rightarrow> handoff_segment_ref list" where
  "chunk_refs hash index offset [] = []"
| "chunk_refs hash index offset (bytes # chunks) =
     \<lparr>hs_index = index mod 2 ^ 32, hs_offset = offset, hs_bytes = length bytes, hs_digest = hash bytes\<rparr>
       # chunk_refs hash (Suc index) (sat_add offset (length bytes)) chunks"

definition admit_payload ::
    "(byte list \<Rightarrow> digest) \<Rightarrow> cache_key \<Rightarrow> nat \<Rightarrow> digest \<Rightarrow> exact_state_payload \<Rightarrow> rust_string option \<Rightarrow>
     l2_origin \<Rightarrow> l2_tier \<Rightarrow> (l2_insert_refusal + l2_eviction list) \<times> l2_tier" where
  "admit_payload hash cache_key token_count expected_payload_digest payload kv_desc_json origin t =
     (case payload_wire payload of
        Inl refusal \<Rightarrow> (Inl refusal, t)
      | Inr (wire, kv_bytes, recurrent_bytes) \<Rightarrow>
          let payload_digest = hash wire
          in if payload_digest \<noteq> expected_payload_digest then
               (Inl (DigestMismatch expected_payload_digest payload_digest), count_reject t)
             else
               case mirror_from_manifest
                      \<lparr>hm_payload_kind = payload_kind_str (payload_kind_of payload),
                       hm_total_bytes = length wire,
                       hm_segments = chunk_refs hash 0 0 (chunks_of DIRECT_SEGMENT_BYTES wire),
                       hm_kv_bytes = kv_bytes, hm_recurrent_bytes = recurrent_bytes,
                       hm_kv_desc_json = kv_desc_json\<rparr> of
                 Inl refusal \<Rightarrow> (Inl refusal, t)
               | Inr mirror \<Rightarrow> admit hash cache_key token_count expected_payload_digest wire mirror origin t)"

section \<open>Reads and removal\<close>

record l2_hit =
  ht_payload :: payload_mirror
  ht_token_count :: nat
  ht_payload_digest :: digest
  ht_segments :: "digest \<rightharpoonup> byte list"

definition wire_view :: "l2_hit \<Rightarrow> nat \<Rightarrow> nat \<Rightarrow> cache_bytes" where
  "wire_view hit from_byte to_byte =
     (let layout = mirror_layout (ht_payload hit);
          start = min from_byte (la_total_bytes layout);
          stop = min to_byte (la_total_bytes layout);
          blocks = List.map_filter (\<lambda>(digest, segment_start, segment_stop).
            let block_start = max segment_start start; block_stop = min segment_stop stop
            in if block_stop \<le> block_start then None
               else
                 let storage = (case ht_segments hit digest of Some h \<Rightarrow> h | None \<Rightarrow> []);
                     len = length storage
                 in Some (digest, storage, (min (block_start - segment_start) len, min (block_stop - segment_start) len)))
            (la_segments layout)
      in from_shared_blocks (stop - start) blocks)"

definition to_payload :: "l2_hit \<Rightarrow> exact_state_payload" where
  "to_payload hit =
     (let layout = mirror_layout (ht_payload hit);
          wire = wire_view hit 0 (la_total_bytes layout)
      in case mirror_kind (ht_payload hit) of
           KindFullState \<Rightarrow> PayloadFullState wire
         | KindRecurrentOnly \<Rightarrow> PayloadRecurrentOnly wire
         | KindKvRecurrent \<Rightarrow>
             let kv_len = min (la_kv_bytes layout) (la_total_bytes layout)
             in PayloadKvRecurrent (wire_view hit 0 kv_len) (wire_view hit kv_len (la_total_bytes layout)))"

definition count_miss :: "l2_tier \<Rightarrow> l2_tier" where
  "count_miss = with_stats (\<lambda>c. c\<lparr>ct_misses := fetch_add 1 (ct_misses c)\<rparr>)"

definition l2_get :: "cache_key \<Rightarrow> l2_tier \<Rightarrow> l2_hit option \<times> l2_tier" where
  "l2_get cache_key t =
     (let inner = lt_inner t
      in case bt_get (li_map inner) cache_key of
           None \<Rightarrow> (None, count_miss t)
         | Some e \<Rightarrow>
             let digests = segment_digests (le_payload e)
             in if list_ex (\<lambda>d. bt_get (li_segments inner) d = None) digests then
                  (None, count_miss (t\<lparr>lt_inner :=
                     release_entry_segments
                       (recompute_all_charges (inner\<lparr>li_map := bt_remove cache_key (li_map inner)\<rparr>)) e []\<rparr>))
                else
                  let now = (li_clock inner + 1) mod 2 ^ 64
                  in (Some \<lparr>ht_payload = le_payload e, ht_token_count = le_token_count e,
                            ht_payload_digest = le_payload_digest e,
                            ht_segments = (\<lambda>d. if d \<in> set digests then bt_get (li_segments inner) d else None)\<rparr>,
                      with_stats (\<lambda>c. c\<lparr>ct_hits := fetch_add 1 (ct_hits c)\<rparr>)
                        (t\<lparr>lt_inner := inner\<lparr>li_clock := now,
                             li_map := bt_modify cache_key (le_last_used_update (\<lambda>_. now)) (li_map inner)\<rparr>\<rparr>)))"

record l2_peek =
  pk_token_count :: nat
  pk_payload_digest :: digest
  pk_payload_bytes :: nat
  pk_distinct_bytes :: nat
  pk_origin :: l2_origin

definition peek :: "cache_key \<Rightarrow> l2_tier \<Rightarrow> l2_peek option" where
  "peek cache_key t =
     map_option (\<lambda>e. \<lparr>pk_token_count = le_token_count e, pk_payload_digest = le_payload_digest e,
         pk_payload_bytes = le_payload_bytes e, pk_distinct_bytes = le_charge_bytes e, pk_origin = le_origin e\<rparr>)
       (bt_get (li_map (lt_inner t)) cache_key)"

definition remove_entry :: "cache_key \<Rightarrow> l2_inner \<Rightarrow> l2_eviction option \<times> l2_inner" where
  "remove_entry cache_key inner =
     (case bt_get (li_map inner) cache_key of
        None \<Rightarrow> (None, inner)
      | Some removed \<Rightarrow>
          let inner = inner\<lparr>li_map := bt_remove cache_key (li_map inner)\<rparr>;
              retained = retained_bytes inner removed [];
              inner = recompute_all_charges inner;
              bytes_before = li_bytes inner;
              inner = release_entry_segments inner removed []
          in (Some \<lparr>ev_cache_key = cache_key, ev_freed_bytes = sat_sub bytes_before (li_bytes inner),
                    ev_retained_bytes = retained\<rparr>, inner))"

definition l2_remove :: "cache_key \<Rightarrow> l2_tier \<Rightarrow> l2_eviction option \<times> l2_tier" where
  "l2_remove cache_key t =
     (case remove_entry cache_key (lt_inner t) of (eviction, inner) \<Rightarrow> (eviction, t\<lparr>lt_inner := inner\<rparr>))"

definition clear :: "l2_tier \<Rightarrow> nat \<times> l2_tier" where
  "clear t = (li_bytes (lt_inner t), t\<lparr>lt_inner := (lt_inner t)\<lparr>li_map := [], li_segments := [], li_bytes := 0\<rparr>\<rparr>)"

primrec remove_entries :: "cache_key list \<Rightarrow> l2_inner \<Rightarrow> l2_eviction list \<times> l2_inner" where
  "remove_entries [] inner = ([], inner)"
| "remove_entries (key # keys) inner =
     (case remove_entry key inner of
        (None, inner) \<Rightarrow> remove_entries keys inner
      | (Some eviction, inner) \<Rightarrow>
          (case remove_entries keys inner of (evictions, inner) \<Rightarrow> (eviction # evictions, inner)))"

definition remove_by_digest :: "digest \<Rightarrow> l2_tier \<Rightarrow> l2_eviction list \<times> l2_tier" where
  "remove_by_digest payload_digest t =
     (let keys = map fst (filter (\<lambda>(k, e). le_payload_digest e = payload_digest) (li_map (lt_inner t)))
      in case remove_entries keys (lt_inner t) of (evictions, inner) \<Rightarrow> (evictions, t\<lparr>lt_inner := inner\<rparr>))"

definition shrink_to :: "nat \<Rightarrow> l2_tier \<Rightarrow> l2_eviction list \<times> l2_tier" where
  "shrink_to target_bytes t =
     (case evict_to_limit (min target_bytes (lt_budget_bytes t)) [] [] (lt_inner t, journal_default) of
        ((inner, journal), evictions) \<Rightarrow>
          (evictions, count_evicted (length evictions) (t\<lparr>lt_inner := inner\<rparr>)))"

record l2_stats =
  st_entries :: nat
  st_bytes :: nat
  st_logical_bytes :: nat
  st_segments :: nat
  st_segment_bytes :: nat
  st_counters :: l2_counters
  st_budget_bytes :: nat

definition stats :: "l2_tier \<Rightarrow> l2_stats" where
  "stats t =
     \<lparr>st_entries = length (li_map (lt_inner t)), st_bytes = li_bytes (lt_inner t),
      st_logical_bytes = wrap_sum (map (\<lambda>(k, e). le_payload_bytes e) (li_map (lt_inner t))),
      st_segments = length (li_segments (lt_inner t)), st_segment_bytes = li_bytes (lt_inner t),
      st_counters = lt_stats t, st_budget_bytes = lt_budget_bytes t\<rparr>"

end
