(* ===== verification/L2Lemmas.thy ===== *)
theory L2Lemmas
  imports L2Tier
begin

text \<open>
  The pool of the L2 tier: what it weighs, which digests the entries reference, and what releasing the
  segments of a removed entry leaves; the charges, which share the pool out among the entries.
\<close>

named_theorems l2_simps "the accounting of the L2 pool"

section \<open>Tables with distinct keys\<close>

lemma set_eq_of_get_eq:
  assumes "distinct (map fst m)" "distinct (map fst m')" "bt_get m = bt_get m'"
  shows "set m = set m'"
  using assms by (metis bt_get_def map_of_inject_set ext)

lemma mset_eq_of_get_eq:
  assumes "distinct (map fst m)" "distinct (map fst m')" "bt_get m = bt_get m'"
  shows "mset m = mset m'"
  using set_eq_of_get_eq [OF assms] assms(1,2) by (metis distinct_map set_eq_iff_mset_eq_distinct)

lemma get_mem: "distinct (map fst m) \<Longrightarrow> (k, v) \<in> set m \<longleftrightarrow> bt_get m k = Some v"
  by (simp add: bt_get_def)

lemma set_without_key [simp]: "set (bt_remove k m) = {e \<in> set m. fst e \<noteq> k}"
  by (simp add: bt_remove_def)

lemma bt_remove_absent: "k \<notin> fst ` set m \<Longrightarrow> bt_remove k m = m"
  unfolding bt_remove_def by (rule filter_True) force

section \<open>The weight of the pool\<close>

definition pool_bytes :: "(digest \<times> byte list) list \<Rightarrow> nat" where
  "pool_bytes segs = (\<Sum>s \<leftarrow> segs. length (snd s))"

lemma pool_bytes_simps [simp]:
  "pool_bytes [] = 0"
  "pool_bytes (s # segs) = length (snd s) + pool_bytes segs"
  "pool_bytes (segs @ segs') = pool_bytes segs + pool_bytes segs'"
  by (simp_all add: pool_bytes_def)

lemma pool_bytes_mset: "mset segs = mset segs' \<Longrightarrow> pool_bytes segs = pool_bytes segs'"
  unfolding pool_bytes_def by (simp flip: sum_mset_sum_list)

lemma pool_bytes_remove:
  "distinct (map fst segs) \<Longrightarrow> bt_get segs d = Some h \<Longrightarrow>
   length h + pool_bytes (bt_remove d segs) = pool_bytes segs"
proof (induction segs)
  case Nil
  then show ?case by simp
next
  case (Cons s segs)
  show ?case
  proof (cases "fst s = d")
    case True
    then have "bt_remove d segs = segs" using Cons.prems(1) by (intro bt_remove_absent) auto
    then show ?thesis using Cons.prems(2) True by (simp add: bt_remove_def bt_get_Cons)
  next
    case False
    then show ?thesis using Cons by (simp add: bt_remove_def bt_get_Cons)
  qed
qed

lemma pool_bytes_filter_le: "pool_bytes (filter P segs) \<le> pool_bytes segs"
  by (induction segs) auto

lemma pool_bytes_get_le: "bt_get segs d = Some h \<Longrightarrow> length h \<le> pool_bytes segs"
  by (induction segs) (auto simp: bt_get_Cons split: if_splits)

lemma pool_bytes_modify:
  "distinct (map fst segs) \<Longrightarrow> bt_get segs d = Some old \<Longrightarrow>
   pool_bytes (bt_modify d (\<lambda>_. h) segs) + length old = pool_bytes segs + length h"
proof (induction segs)
  case (Cons s segs)
  have "bt_modify d (\<lambda>_. h) segs = segs" if "d \<notin> fst ` set segs"
    unfolding bt_modify_def by (rule map_idI) (use that in force)
  then show ?case using Cons by (auto simp: bt_modify_def bt_get_Cons split: if_splits)
qed simp

lemma pool_bytes_put:
  assumes "distinct (map fst segs)"
  shows "pool_bytes (hl_put d h segs) + (case bt_get segs d of Some old \<Rightarrow> length old | None \<Rightarrow> 0) =
         pool_bytes segs + length h"
proof (cases "bt_get segs d")
  case None
  then have "d \<notin> set (map fst segs)" by (simp only: bt_get_None_iff not_False_eq_True)
  then show ?thesis using None by (simp add: hl_put_def)
next
  case (Some old)
  then have "d \<in> set (map fst segs)" by (metis bt_get_None_iff option.distinct(1))
  then show ?thesis using pool_bytes_modify [OF assms Some] Some by (simp add: hl_put_def)
qed

section \<open>References\<close>

lemma set_first_occurrences: "set (first_occurrences seen xs) = set seen \<union> set xs"
  by (induction xs arbitrary: seen) auto

lemma distinct_first_occurrences: "distinct seen \<Longrightarrow> distinct (first_occurrences seen xs)"
  by (induction xs arbitrary: seen) auto

lemma set_segment_digests: "set (segment_digests m) = fst ` set (la_segments (mirror_layout m))"
  by (simp add: segment_digests_def set_first_occurrences)

lemma distinct_segment_digests [simp]: "distinct (segment_digests m)"
  by (simp add: segment_digests_def distinct_first_occurrences)

definition digests_of :: "l2_entry \<Rightarrow> digest set" where
  "digests_of e = set (segment_digests (le_payload e))"

definition referenced :: "(cache_key \<times> l2_entry) list \<Rightarrow> digest set" where
  "referenced m = (\<Union>ke \<in> set m. digests_of (snd ke))"

lemma referenced_iff: "d \<in> referenced m \<longleftrightarrow> (\<exists>k e. (k, e) \<in> set m \<and> d \<in> digests_of e)"
  by (force simp: referenced_def)

lemma still_referenced_iff [simp]: "still_referenced m d \<longleftrightarrow> d \<in> referenced m"
  by (simp add: still_referenced_def referenced_iff digests_of_def list_ex_iff) blast

lemma referenced_Nil [simp]: "referenced [] = {}"
  by (simp add: referenced_def)

lemma referenced_remove_get:
  assumes "distinct (map fst m)" "bt_get m k = Some e"
  shows "referenced m = referenced (bt_remove k m) \<union> digests_of e"
proof -
  have r: "distinct (map fst (bt_remove k m))" using assms(1) by (rule hl.wf_del)
  have "(x, y) \<in> set m \<longleftrightarrow> (x, y) \<in> set (bt_remove k m) \<or> x = k \<and> y = e" for x y
    unfolding get_mem [OF assms(1)] get_mem [OF r] bt_get_remove using assms(2) by auto
  then have "set m = insert (k, e) (set (bt_remove k m))" by (intro set_eqI) (simp only: split_paired_all insert_iff prod.inject disj_commute)
  then show ?thesis unfolding referenced_def by (simp del: set_without_key add: Un_commute)
qed

lemma referenced_put:
  assumes d: "distinct (map fst m)"
  shows "referenced (hl_put k e m) = referenced (bt_remove k m) \<union> digests_of e"
proof -
  have p: "distinct (map fst (hl_put k e m))" using d by (rule hl.wf_put)
  have r: "distinct (map fst (bt_remove k m))" using d by (rule hl.wf_del)
  have "(x, y) \<in> set (hl_put k e m) \<longleftrightarrow> (x, y) \<in> set (bt_remove k m) \<or> x = k \<and> y = e" for x y
    unfolding get_mem [OF p] get_mem [OF r] bt_get_remove hl_get_put by auto
  then have "set (hl_put k e m) = insert (k, e) (set (bt_remove k m))" by (intro set_eqI) (simp only: split_paired_all insert_iff prod.inject disj_commute)
  then show ?thesis unfolding referenced_def by (simp del: set_without_key add: Un_commute)
qed

lemma segment_owner_cong:
  assumes "\<And>k. (\<exists>e. (k, e) \<in> set m \<and> d \<in> digests_of e) \<longleftrightarrow> (\<exists>e. (k, e) \<in> set m' \<and> d \<in> digests_of e)"
  shows "segment_owner m d = segment_owner m' d"
proof -
  have least: "min_by cmp xs = Some b \<Longrightarrow> b \<in> set xs \<and> (\<forall>z \<in> set xs. b \<le> z)" for xs :: "cache_key list" and b
    using comparator.min_by_least [OF comparator_cmp_key [of "\<lambda>x. x"] subset_UNIV, of xs b] by auto
  have same: "min_by cmp xs = min_by cmp ys" if "set xs = set ys" for xs ys :: "cache_key list"
  proof (cases "min_by cmp xs")
    case None
    then show ?thesis using that by simp
  next
    case (Some b)
    then have "ys \<noteq> []" using least [OF Some] that by auto
    then obtain c where c: "min_by cmp ys = Some c" by (cases "min_by cmp ys") auto
    have "b = c" using least [OF Some] least [OF c] that by (intro order_antisym) auto
    then show ?thesis using Some c by simp
  qed
  have "set (map fst (filter (\<lambda>(k, e). d \<in> set (segment_digests (le_payload e))) n)) =
        {k. \<exists>e. (k, e) \<in> set n \<and> d \<in> digests_of e}" for n :: "(cache_key \<times> l2_entry) list"
    by (force simp: digests_of_def)
  then show ?thesis unfolding segment_owner_def using assms by (intro same) (simp only:)
qed

lemma segment_owner_cases:
  "case segment_owner m d of
     None \<Rightarrow> d \<notin> referenced m
   | Some k \<Rightarrow> k \<in> fst ` set m \<and> d \<in> referenced m"
proof (cases "segment_owner m d")
  case None
  then show ?thesis
    by (auto simp: segment_owner_def referenced_iff digests_of_def filter_empty_conv)
next
  case (Some k)
  have "k \<in> fst ` {ke \<in> set m. d \<in> digests_of (snd ke)}"
    using Some comparator.min_by_least [OF comparator_cmp_key [of "\<lambda>x. x"] subset_UNIV]
    unfolding segment_owner_def digests_of_def by fastforce
  then show ?thesis using Some by (auto simp: referenced_def)
qed

section \<open>Releasing the segments of a removed entry\<close>

text \<open>What stays of a pool when the digests \<open>ds\<close> are released.\<close>

definition released :: "digest list \<Rightarrow> (cache_key \<times> l2_entry) list \<Rightarrow> digest set \<Rightarrow> (digest \<times> byte list) list \<Rightarrow>
    (digest \<times> byte list) list" where
  "released pinned m ds segs = filter (\<lambda>s. fst s \<in> set pinned \<or> fst s \<in> referenced m \<or> fst s \<notin> ds) segs"

definition with_pool :: "l2_inner \<Rightarrow> (digest \<times> byte list) list \<Rightarrow> l2_inner" where
  "with_pool inner segs = inner\<lparr>li_segments := segs, li_bytes := pool_bytes segs\<rparr>"

definition weighed :: "l2_inner \<Rightarrow> bool" where
  "weighed inner \<longleftrightarrow> distinct (map fst (li_map inner)) \<and> distinct (map fst (li_segments inner)) \<and>
     li_bytes inner = pool_bytes (li_segments inner)"

lemma with_pool_simps [simp]:
  "li_map (with_pool inner segs) = li_map inner"
  "li_segments (with_pool inner segs) = segs"
  "li_bytes (with_pool inner segs) = pool_bytes segs"
  "li_clock (with_pool inner segs) = li_clock inner"
  "with_pool (with_pool inner segs) segs' = with_pool inner segs'"
  by (simp_all add: with_pool_def)

lemma with_pool_id: "weighed inner \<Longrightarrow> with_pool inner (li_segments inner) = inner"
  by (simp add: with_pool_def weighed_def)

lemma released_empty [simp]: "released pinned m {} segs = segs"
  by (simp add: released_def)

lemma released_insert:
  "released pinned m (insert d ds) segs =
     released pinned m ds (if d \<in> set pinned \<or> d \<in> referenced m then segs else bt_remove d segs)"
  by (auto simp: released_def bt_remove_def intro: filter_cong)

lemma released_distinct: "distinct (map fst segs) \<Longrightarrow> distinct (map fst (released pinned m ds segs))"
  by (simp add: released_def distinct_map_filter)

lemma released_keys:
  "fst ` set (released pinned m ds segs) = {d \<in> fst ` set segs. d \<in> set pinned \<or> d \<in> referenced m \<or> d \<notin> ds}"
  by (auto simp: released_def)

lemma release_digest_pool:
  assumes w: "weighed inner"
  shows "fst (release_digest pinned (inner, j) d) = with_pool inner (released pinned (li_map inner) {d} (li_segments inner))"
proof (cases "d \<in> set pinned \<or> d \<in> referenced (li_map inner)")
  case True
  then show ?thesis using with_pool_id [OF w] by (auto simp: release_digest_def released_insert)
next
  case False
  show ?thesis
  proof (cases "bt_get (li_segments inner) d")
    case None
    then have "bt_remove d (li_segments inner) = li_segments inner"
      by (intro bt_remove_absent) (auto simp: bt_get_None_iff)
    then show ?thesis using False None with_pool_id [OF w] by (simp add: release_digest_def released_insert)
  next
    case (Some h)
    then have "li_bytes inner - length h = pool_bytes (bt_remove d (li_segments inner))"
      using pool_bytes_remove [of "li_segments inner" d h] w by (simp add: weighed_def)
    then show ?thesis using False Some
      by (simp add: release_digest_def released_insert with_pool_def)
  qed
qed

lemma weighed_with_pool: "weighed inner \<Longrightarrow> distinct (map fst segs) \<Longrightarrow> weighed (with_pool inner segs)"
  by (simp add: weighed_def)

lemma release_digests_pool:
  "weighed inner \<Longrightarrow>
   fst (release_digests pinned ds (inner, j)) = with_pool inner (released pinned (li_map inner) (set ds) (li_segments inner))"
proof (induction ds arbitrary: inner j)
  case Nil
  then show ?case using with_pool_id by (simp add: release_digests_def)
next
  case (Cons d ds)
  let ?segs = "released pinned (li_map inner) {d} (li_segments inner)"
  obtain i' j' where step: "release_digest pinned (inner, j) d = (i', j')" by (cases "release_digest pinned (inner, j) d")
  then have i': "i' = with_pool inner ?segs" using release_digest_pool [OF Cons.prems, of pinned j d] by simp
  have "weighed i'" using Cons.prems unfolding i'
    by (intro weighed_with_pool released_distinct) (simp_all add: weighed_def)
  then have "fst (release_digests pinned ds (i', j')) = with_pool i' (released pinned (li_map i') (set ds) (li_segments i'))"
    by (rule Cons.IH)
  then show ?case using step i' by (simp add: release_digests_def released_insert)
qed

section \<open>The charges\<close>

definition charged :: "l2_inner \<Rightarrow> bool" where
  "charged inner \<longleftrightarrow> (\<forall>(k, e) \<in> set (li_map inner). le_charge_bytes e = owned_bytes inner k)"

text \<open>The map without its charges: what the rest of the tier reads.\<close>

abbreviation uncharged_entry :: "l2_entry \<Rightarrow> l2_entry" where
  "uncharged_entry e \<equiv> e\<lparr>le_charge_bytes := 0\<rparr>"

definition uncharged :: "(cache_key \<times> l2_entry) list \<Rightarrow> (cache_key \<times> l2_entry) list" where
  "uncharged m = map (apsnd uncharged_entry) m"

lemma uncharged_get: "bt_get (uncharged m) k = map_option uncharged_entry (bt_get m k)"
  by (induction m) (auto simp: uncharged_def bt_get_Cons)

lemma uncharged_keys [simp]: "map fst (uncharged m) = map fst m"
  by (simp add: uncharged_def)

lemma uncharged_remove: "uncharged (bt_remove k m) = bt_remove k (uncharged m)"
  by (simp add: uncharged_def bt_remove_def filter_map o_def)

lemma digests_of_uncharged [simp]: "digests_of (e\<lparr>le_charge_bytes := c\<rparr>) = digests_of e"
  by (simp add: digests_of_def)

lemma referenced_uncharged: "referenced (uncharged m) = referenced m"
  by (auto simp: referenced_def uncharged_def)

lemma segment_owner_uncharged: "segment_owner (uncharged m) d = segment_owner m d"
  by (rule segment_owner_cong) (force simp: uncharged_def)

lemma uncharged_recompute [simp]: "uncharged (li_map (recompute_all_charges inner)) = uncharged (li_map inner)"
  by (simp add: recompute_all_charges_def uncharged_def split_def apsnd_def map_prod_def)

lemma recompute_simps [simp]:
  "li_segments (recompute_all_charges inner) = li_segments inner"
  "li_bytes (recompute_all_charges inner) = li_bytes inner"
  "li_clock (recompute_all_charges inner) = li_clock inner"
  "map fst (li_map (recompute_all_charges inner)) = map fst (li_map inner)"
  by (simp_all add: recompute_all_charges_def split_def)

lemma referenced_recompute [simp]: "referenced (li_map (recompute_all_charges inner)) = referenced (li_map inner)"
  by (metis referenced_uncharged uncharged_recompute)

lemma weighed_recompute [simp]: "weighed (recompute_all_charges inner) = weighed inner"
  by (simp add: weighed_def)

lemma owned_bytes_cong:
  assumes "uncharged (li_map inner) = uncharged (li_map inner')" "li_segments inner = li_segments inner'"
  shows "owned_bytes inner k = owned_bytes inner' k"
proof -
  have "segment_owner (li_map inner) = segment_owner (li_map inner')"
    using assms(1) segment_owner_uncharged by (metis ext)
  then show ?thesis by (simp add: owned_bytes_def assms(2))
qed

lemma charged_recompute: "charged (recompute_all_charges inner)"
proof -
  have "owned_bytes (recompute_all_charges inner) k = owned_bytes inner k" for k
    by (rule owned_bytes_cong) simp_all
  then show ?thesis unfolding charged_def by (auto simp: recompute_all_charges_def)
qed

text \<open>A segment nobody references has no owner, so releasing it moves no charge.\<close>

lemma owned_bytes_released:
  "owned_bytes (with_pool inner (released pinned (li_map inner) ds (li_segments inner))) k = owned_bytes inner k"
proof -
  have "segment_owner (li_map inner) d = Some k \<Longrightarrow> d \<in> referenced (li_map inner)" for d
    using segment_owner_cases [of d "li_map inner"] by simp
  then have "filter (\<lambda>(d, bytes). segment_owner (li_map inner) d = Some k) (released pinned (li_map inner) ds (li_segments inner)) =
      filter (\<lambda>(d, bytes). segment_owner (li_map inner) d = Some k) (li_segments inner)"
    by (auto simp: released_def intro!: filter_cong)
  then show ?thesis by (simp add: owned_bytes_def)
qed

lemma sum_partition:
  fixes g :: "'a \<Rightarrow> nat"
  assumes "finite K" "\<forall>x \<in> set xs. \<exists>k \<in> K. f x = Some k"
  shows "(\<Sum>k \<in> K. sum_list (map g (filter (\<lambda>x. f x = Some k) xs))) = sum_list (map g xs)"
  using assms(2)
proof (induction xs)
  case (Cons x xs)
  obtain k where k: "k \<in> K" "f x = Some k" using Cons.prems by auto
  have "(\<Sum>k' \<in> K. sum_list (map g (filter (\<lambda>x. f x = Some k') (x # xs)))) =
      (\<Sum>k' \<in> K. (if k' = k then g x else 0) + sum_list (map g (filter (\<lambda>x. f x = Some k') xs)))"
    by (rule sum.cong) (use k in auto)
  also have "\<dots> = g x + (\<Sum>k' \<in> K. sum_list (map g (filter (\<lambda>x. f x = Some k') xs)))"
    using k(1) assms(1) by (simp add: sum.distrib)
  finally show ?case using Cons by simp
qed simp

lemma owned_bytes_exact:
  assumes "pool_bytes (li_segments inner) \<le> U64_MAX"
  shows "owned_bytes inner k = sum_list (map (\<lambda>s. length (snd s))
      (filter (\<lambda>s. segment_owner (li_map inner) (fst s) = Some k) (li_segments inner)))"
proof -
  have "pool_bytes (filter (\<lambda>s. segment_owner (li_map inner) (fst s) = Some k) (li_segments inner)) < 2 ^ 64"
    by (rule le_less_trans [OF le_trans [OF pool_bytes_filter_le assms]]) simp
  then show ?thesis by (simp add: owned_bytes_def wrap_sum_def pool_bytes_def split_def)
qed

lemma charges_sum:
  assumes w: "weighed inner" and c: "charged inner" and r: "fst ` set (li_segments inner) \<subseteq> referenced (li_map inner)"
    and b: "li_bytes inner \<le> U64_MAX"
  shows "(\<Sum>ke \<leftarrow> li_map inner. le_charge_bytes (snd ke)) = li_bytes inner"
proof -
  have pb: "pool_bytes (li_segments inner) = li_bytes inner" using w by (simp add: weighed_def)
  have owner: "\<forall>s \<in> set (li_segments inner). \<exists>k \<in> fst ` set (li_map inner). segment_owner (li_map inner) (fst s) = Some k"
  proof
    fix s assume "s \<in> set (li_segments inner)"
    then have "fst s \<in> referenced (li_map inner)" using r by blast
    then show "\<exists>k \<in> fst ` set (li_map inner). segment_owner (li_map inner) (fst s) = Some k"
      using segment_owner_cases [of "fst s" "li_map inner"] by (auto split: option.splits)
  qed
  have "(\<Sum>ke \<leftarrow> li_map inner. le_charge_bytes (snd ke)) = (\<Sum>k \<leftarrow> map fst (li_map inner). owned_bytes inner k)"
    using c by (fastforce simp: charged_def o_def intro!: arg_cong [where f = sum_list])
  also have "\<dots> = (\<Sum>k \<in> fst ` set (li_map inner). owned_bytes inner k)"
    using w sum_list_distinct_conv_sum_set [of "map fst (li_map inner)" "owned_bytes inner"] by (simp add: weighed_def)
  also have "\<dots> = li_bytes inner"
    using sum_partition [OF _ owner, of "\<lambda>s. length (snd s)"] b pb
    by (simp add: owned_bytes_exact) (simp add: pool_bytes_def)
  finally show ?thesis .
qed

end
