(* ===== verification/L2Eviction.thy ===== *)
theory L2Eviction
  imports L2Lemmas
begin

text \<open>
  Dropping an entry of the L2 tier, and the eviction loop: both keep the pool equal to the pinned and
  the referenced digests, the loop takes the victims in least-recently-used order, and the journal of
  an admission undoes every step of them.
\<close>

section \<open>The pool during an admission\<close>

definition pool_ok :: "digest set \<Rightarrow> l2_inner \<Rightarrow> bool" where
  "pool_ok pinned inner \<longleftrightarrow>
     weighed inner \<and> fst ` set (li_segments inner) = pinned \<union> referenced (li_map inner)"

lemma pool_okD:
  assumes "pool_ok pinned inner"
  shows "weighed inner" "distinct (map fst (li_map inner))" "distinct (map fst (li_segments inner))"
    "li_bytes inner = pool_bytes (li_segments inner)"
    "fst ` set (li_segments inner) = pinned \<union> referenced (li_map inner)"
  using assms by (auto simp: pool_ok_def weighed_def)

lemma pool_ok_recompute [simp]: "pool_ok pinned (recompute_all_charges inner) = pool_ok pinned inner"
  by (simp add: pool_ok_def)

text \<open>An entry leaves the map, the charges are recomputed, and its segments are released.\<close>

definition without_entry :: "cache_key \<Rightarrow> l2_inner \<Rightarrow> l2_inner" where
  "without_entry key inner = recompute_all_charges (inner\<lparr>li_map := bt_remove key (li_map inner)\<rparr>)"

lemma without_entry_simps [simp]:
  "li_segments (without_entry key inner) = li_segments inner"
  "li_bytes (without_entry key inner) = li_bytes inner"
  "li_clock (without_entry key inner) = li_clock inner"
  "map fst (li_map (without_entry key inner)) = filter (\<lambda>k. k \<noteq> key) (map fst (li_map inner))"
  "uncharged (li_map (without_entry key inner)) = bt_remove key (uncharged (li_map inner))"
  "referenced (li_map (without_entry key inner)) = referenced (bt_remove key (li_map inner))"
  unfolding without_entry_def by (simp_all add: uncharged_remove)

lemma weighed_without_entry: "weighed inner \<Longrightarrow> weighed (without_entry key inner)"
  by (simp add: without_entry_def weighed_def)

lemma release_dropped:
  assumes ok: "pool_ok (set pinned) inner" and e: "bt_get (li_map inner) key = Some e"
    and r: "release_digests pinned (segment_digests (le_payload e)) (without_entry key inner, j) = (inner', j')"
  shows "pool_ok (set pinned) inner'" "charged inner'" "uncharged (li_map inner') = bt_remove key (uncharged (li_map inner))"
    "li_clock inner' = li_clock inner" "li_bytes inner' \<le> li_bytes inner" "li_map inner' = li_map (without_entry key inner)"
proof -
  let ?i = "without_entry key inner"
  have w: "weighed ?i" using pool_okD(1) [OF ok] by (rule weighed_without_entry)
  have inner': "inner' = with_pool ?i (released pinned (li_map ?i) (digests_of e) (li_segments inner))"
    using release_digests_pool [OF w, of pinned "segment_digests (le_payload e)" j] r by (simp add: digests_of_def)
  have ref: "referenced (li_map inner) = referenced (li_map ?i) \<union> digests_of e"
    using referenced_remove_get [OF pool_okD(2) [OF ok] e] by simp
  have "weighed inner'" unfolding inner' using w pool_okD(3) [OF ok]
    by (intro weighed_with_pool released_distinct) simp_all
  then show "pool_ok (set pinned) inner'"
    using pool_okD(5) [OF ok] ref by (auto simp: pool_ok_def inner' released_keys)
  have "owned_bytes inner' k = owned_bytes ?i k" for k
    using owned_bytes_released [of ?i pinned "digests_of e" k] by (simp add: inner')
  then show "charged inner'"
    using charged_recompute [of "inner\<lparr>li_map := bt_remove key (li_map inner)\<rparr>"] by (simp add: charged_def inner' without_entry_def)
  show "uncharged (li_map inner') = bt_remove key (uncharged (li_map inner))" by (simp add: inner')
  show "li_clock inner' = li_clock inner" by (simp add: inner')
  show "li_bytes inner' \<le> li_bytes inner"
    by (simp add: inner' released_def pool_bytes_filter_le pool_okD(4) [OF ok])
  show "li_map inner' = li_map ?i" by (simp add: inner')
qed

section \<open>One round\<close>

lemma evict_victim_drop:
  "evict_victim pinned v (inner, j) =
     (case release_digests pinned (segment_digests (le_payload (snd v))) (without_entry (fst v) inner, j) of
        (inner', j') \<Rightarrow>
          ((inner', j'\<lparr>aj_removed_entries := aj_removed_entries j' @ [v]\<rparr>),
           \<lparr>ev_cache_key = fst v, ev_freed_bytes = li_bytes inner - li_bytes inner',
            ev_retained_bytes = retained_bytes (inner\<lparr>li_map := bt_remove (fst v) (li_map inner)\<rparr>) (snd v) pinned\<rparr>))"
  by (simp add: evict_victim_def without_entry_def Let_def)

text \<open>The order of eviction, on the keys of a map.\<close>

definition lru_before :: "(cache_key \<times> l2_entry) list \<Rightarrow> cache_key \<Rightarrow> cache_key \<Rightarrow> bool" where
  "lru_before m k k' \<longleftrightarrow>
     (case (bt_get m k, bt_get m k') of
        (Some e, Some e') \<Rightarrow> le_last_used e < le_last_used e' \<or> le_last_used e = le_last_used e' \<and> k < k'
      | _ \<Rightarrow> False)"

lemma lru_before_uncharged: "lru_before (uncharged m) k k' = lru_before m k k'"
  by (simp add: lru_before_def uncharged_get split: option.split)

lemma lru_before_remove: "lru_before (bt_remove key m) k k' \<longleftrightarrow> lru_before m k k' \<and> k \<noteq> key \<and> k' \<noteq> key"
  by (auto simp: lru_before_def bt_get_remove split: option.splits)

lemma l2_victim_least:
  assumes d: "distinct (map fst (li_map inner))" and v: "l2_victim inner protect_key = Some v"
  shows "bt_get (li_map inner) (fst v) = Some (snd v)" "fst v \<noteq> protect_key"
    "k \<in> fst ` set (li_map inner) \<Longrightarrow> k \<noteq> protect_key \<Longrightarrow> k \<noteq> fst v \<Longrightarrow> lru_before (li_map inner) (fst v) k"
proof -
  have least: "v \<in> set (li_map inner)" "fst v \<noteq> protect_key"
    "\<forall>z \<in> set (filter (\<lambda>ke. fst ke \<noteq> protect_key) (li_map inner)). lru_cmp v z \<noteq> Greater"
    using comparator.min_by_least [OF comparator_lru_cmp subset_UNIV v [unfolded l2_victim_def]] by auto
  show v_get: "bt_get (li_map inner) (fst v) = Some (snd v)" using least(1) d by (simp flip: get_mem)
  show "fst v \<noteq> protect_key" by (rule least(2))
  assume k: "k \<in> fst ` set (li_map inner)" "k \<noteq> protect_key" "k \<noteq> fst v"
  then obtain e where e: "(k, e) \<in> set (li_map inner)" by force
  then have "lru_cmp v (k, e) \<noteq> Greater" using least(3) k(2) by auto
  then have "le_last_used (snd v) < le_last_used e \<or> le_last_used (snd v) = le_last_used e \<and> fst v < k"
    using k(3) by (auto simp: lru_cmp_def)
  then show "lru_before (li_map inner) (fst v) k" using v_get e d by (simp add: lru_before_def get_mem)
qed

lemma l2_victim_None: "l2_victim inner protect_key = None \<longleftrightarrow> fst ` set (li_map inner) \<subseteq> {protect_key}"
  by (auto simp: l2_victim_def filter_empty_conv)

section \<open>The loop\<close>

lemma evict_to_limit_cases:
  assumes "evict_to_limit limit protect_key pinned s = (s', evs)"
  obtains (stop) "s' = s" "evs = []" "li_bytes (fst s) \<le> limit \<or> l2_victim (fst s) protect_key = None"
  | (round) v s1 ev evs1 where "limit < li_bytes (fst s)" "l2_victim (fst s) protect_key = Some v"
      "evict_victim pinned v s = (s1, ev)" "evict_to_limit limit protect_key pinned s1 = (s', evs1)" "evs = ev # evs1"
  using assms evict_to_limit.simps [of limit protect_key pinned s]
  by (auto split: if_splits option.splits prod.splits simp: not_le)

text \<open>What one round does to the state, and what the loop does to the map, the pool and the order.\<close>

lemma evict_victim_spec:
  assumes ok: "pool_ok (set pinned) inner" and v: "l2_victim inner protect_key = Some v"
    and r: "evict_victim pinned v (inner, j) = ((inner1, j1), ev)"
  shows "pool_ok (set pinned) inner1" "charged inner1" "li_clock inner1 = li_clock inner"
    "uncharged (li_map inner1) = bt_remove (fst v) (uncharged (li_map inner))"
    "ev_cache_key ev = fst v" "ev_freed_bytes ev + li_bytes inner1 = li_bytes inner"
proof -
  obtain i' j' where rel: "release_digests pinned (segment_digests (le_payload (snd v))) (without_entry (fst v) inner, j) = (i', j')"
    by (cases "release_digests pinned (segment_digests (le_payload (snd v))) (without_entry (fst v) inner, j)")
  note dropped = release_dropped [OF ok l2_victim_least(1) [OF pool_okD(2) [OF ok] v] rel]
  have i: "inner1 = i'" "ev_cache_key ev = fst v" "ev_freed_bytes ev = li_bytes inner - li_bytes i'"
    using r rel by (auto simp: evict_victim_drop)
  show "pool_ok (set pinned) inner1" "charged inner1" "li_clock inner1 = li_clock inner"
    "uncharged (li_map inner1) = bt_remove (fst v) (uncharged (li_map inner))"
    using dropped i by simp_all
  show "ev_cache_key ev = fst v" by (rule i(2))
  show "ev_freed_bytes ev + li_bytes inner1 = li_bytes inner" using dropped(5) i by simp
qed

abbreviation evicted_keys :: "l2_eviction list \<Rightarrow> cache_key list" where
  "evicted_keys evs \<equiv> map ev_cache_key evs"

definition evicted_from :: "cache_key \<Rightarrow> l2_inner \<Rightarrow> l2_inner \<Rightarrow> l2_eviction list \<Rightarrow> bool" where
  "evicted_from protect_key inner inner' evs \<longleftrightarrow>
     uncharged (li_map inner') = filter (\<lambda>ke. fst ke \<notin> set (evicted_keys evs)) (uncharged (li_map inner)) \<and>
     sorted_wrt (lru_before (li_map inner)) (evicted_keys evs) \<and>
     (\<forall>k \<in> set (evicted_keys evs). k \<in> fst ` set (li_map inner) \<and> k \<noteq> protect_key \<and>
        (\<forall>k' \<in> fst ` set (li_map inner'). k' \<noteq> protect_key \<longrightarrow> lru_before (li_map inner) k k')) \<and>
     (\<Sum>ev \<leftarrow> evs. ev_freed_bytes ev) + li_bytes inner' = li_bytes inner"

lemma evicted_from_Nil: "evicted_from protect_key inner inner []"
  by (simp add: evicted_from_def)

lemma uncharged_key_set: "fst ` set (uncharged m) = fst ` set m"
  by (metis uncharged_keys set_map)

lemma keys_of_removed: "uncharged m' = bt_remove k (uncharged m) \<Longrightarrow> fst ` set m' = fst ` set m - {k}"
proof -
  assume "uncharged m' = bt_remove k (uncharged m)"
  then have "map fst (uncharged m') = map fst (bt_remove k (uncharged m))" by simp
  then have "map fst m' = filter (\<lambda>x. x \<noteq> k) (map fst m)" by simp
  then have "set (map fst m') = set (filter (\<lambda>x. x \<noteq> k) (map fst m))" by (rule arg_cong)
  then show ?thesis by auto
qed

lemma evicted_from_Cons:
  assumes d: "distinct (map fst (li_map inner))" and v: "l2_victim inner protect_key = Some v"
    and m: "uncharged (li_map inner1) = bt_remove (fst v) (uncharged (li_map inner))"
    and ev: "ev_cache_key ev = fst v" "ev_freed_bytes ev + li_bytes inner1 = li_bytes inner"
    and rest: "evicted_from protect_key inner1 inner' evs"
  shows "evicted_from protect_key inner inner' (ev # evs)"
proof -
  have before: "lru_before (li_map inner1) k k' \<longleftrightarrow> lru_before (li_map inner) k k' \<and> k \<noteq> fst v \<and> k' \<noteq> fst v" for k k'
    using lru_before_remove [of "fst v" "uncharged (li_map inner)" k k'] by (simp add: lru_before_uncharged flip: m)
  have keys: "fst ` set (li_map inner1) = fst ` set (li_map inner) - {fst v}" by (rule keys_of_removed [OF m])
  have v_mem: "fst v \<in> fst ` set (li_map inner)" using l2_victim_mem [OF v] by simp
  have keys': "fst ` set (li_map inner') = fst ` set (li_map inner1) - set (evicted_keys evs)"
  proof -
    have "fst ` set (uncharged (li_map inner')) = fst ` set (uncharged (li_map inner1)) - set (evicted_keys evs)"
      using rest by (auto simp: evicted_from_def)
    then show ?thesis by (simp add: uncharged_key_set)
  qed
  have first: "lru_before (li_map inner) (fst v) k" if "k \<in> fst ` set (li_map inner1)" "k \<noteq> protect_key" for k
    using l2_victim_least(3) [OF d v, of k] that keys by simp
  have rest': "uncharged (li_map inner') = filter (\<lambda>ke. fst ke \<notin> set (evicted_keys evs)) (uncharged (li_map inner1))"
    "sorted_wrt (lru_before (li_map inner1)) (evicted_keys evs)"
    "(\<Sum>ev \<leftarrow> evs. ev_freed_bytes ev) + li_bytes inner' = li_bytes inner1"
    using rest by (simp_all add: evicted_from_def)
  have mem: "k \<in> fst ` set (li_map inner1) \<and> k \<noteq> protect_key" if "k \<in> set (evicted_keys evs)" for k
    using rest that unfolding evicted_from_def by blast
  have later: "lru_before (li_map inner) k k'"
    if "k \<in> set (evicted_keys evs)" "k' \<in> fst ` set (li_map inner')" "k' \<noteq> protect_key" for k k'
    using rest that before unfolding evicted_from_def by blast
  have "uncharged (li_map inner') = filter (\<lambda>ke. fst ke \<notin> set (evicted_keys (ev # evs))) (uncharged (li_map inner))"
    by (simp add: rest'(1) m bt_remove_def ev(1) conj_commute)
  moreover have "sorted_wrt (lru_before (li_map inner)) (evicted_keys (ev # evs))"
    using sorted_wrt_mono_rel [OF _ rest'(2), of "lru_before (li_map inner)"] first mem before by (simp add: ev(1))
  moreover have "k \<in> fst ` set (li_map inner) \<and> k \<noteq> protect_key \<and>
      (\<forall>k' \<in> fst ` set (li_map inner'). k' \<noteq> protect_key \<longrightarrow> lru_before (li_map inner) k k')"
    if k: "k \<in> set (evicted_keys (ev # evs))" for k
  proof (cases "k = fst v")
    case True
    have "lru_before (li_map inner) k k'" if "k' \<in> fst ` set (li_map inner')" "k' \<noteq> protect_key" for k'
      unfolding True using first that keys' by blast
    then show ?thesis using True v_mem l2_victim_mem [OF v] by blast
  next
    case False
    then have "k \<in> set (evicted_keys evs)" using k ev(1) by simp
    then show ?thesis using mem [of k] later [of k] keys by blast
  qed
  ultimately show ?thesis using rest'(3) ev(2) unfolding evicted_from_def by auto
qed

theorem evict_to_limit_spec:
  assumes "pool_ok (set pinned) (fst s)" "evict_to_limit limit protect_key pinned s = (s', evs)"
  shows "pool_ok (set pinned) (fst s') \<and> (charged (fst s) \<longrightarrow> charged (fst s')) \<and> li_clock (fst s') = li_clock (fst s) \<and>
    evicted_from protect_key (fst s) (fst s') evs \<and>
    (li_bytes (fst s') \<le> limit \<or> fst ` set (li_map (fst s')) \<subseteq> {protect_key})"
  using assms
proof (induction limit protect_key pinned s arbitrary: evs rule: evict_to_limit.induct)
  case (1 limit protect_key pinned s)
  from 1(3) show ?case
  proof (cases rule: evict_to_limit_cases)
    case stop
    then show ?thesis using 1(2) by (auto simp: evicted_from_Nil l2_victim_None)
  next
    case (round v s1 ev evs1)
    obtain inner j inner1 j1 where s: "s = (inner, j)" "s1 = (inner1, j1)" by (metis surj_pair)
    have ok: "pool_ok (set pinned) inner" using 1(2) s by simp
    have v: "l2_victim inner protect_key = Some v" using round(2) s by simp
    note spec = evict_victim_spec [OF ok v round(3) [unfolded s]]
    have IH: "pool_ok (set pinned) (fst s') \<and> (charged inner1 \<longrightarrow> charged (fst s')) \<and> li_clock (fst s') = li_clock inner1 \<and>
      evicted_from protect_key inner1 (fst s') evs1 \<and>
      (li_bytes (fst s') \<le> limit \<or> fst ` set (li_map (fst s')) \<subseteq> {protect_key})"
      using 1(1) [of v s1 ev evs1] round spec(1) s by simp
    moreover have "evicted_from protect_key inner (fst s') evs"
      unfolding round(5) using IH spec pool_okD(2) [OF ok] v by (intro evicted_from_Cons) auto
    ultimately show ?thesis using spec s by simp
  qed
qed

section \<open>The journal\<close>

text \<open>
  \<open>undoes j inner inner0\<close>: rolling \<open>j\<close> back from \<open>inner\<close> gives the tables, the bytes and the clock of
  \<open>inner0\<close>; the conditions on the keys say which parts of the journal may overlap.
\<close>

definition undoes_pool :: "digest set \<Rightarrow> admit_journal \<Rightarrow> l2_inner \<Rightarrow> l2_inner \<Rightarrow> bool" where
  "undoes_pool pinned j inner inner0 \<longleftrightarrow>
     fst ` set (aj_overwrites j) \<union> set (aj_reserved j) \<subseteq> pinned \<and>
     fst ` set (aj_released_orphans j) \<inter> (pinned \<union> fst ` set (li_segments inner)) = {} \<and>
     ((bt_get (li_segments inner) ++ map_of (rev (aj_overwrites j))) |` (- set (aj_reserved j)))
       ++ map_of (rev (aj_released_orphans j)) = bt_get (li_segments inner0) \<and>
     li_bytes inner + aj_released_bytes j + aj_overwritten_bytes j = li_bytes inner0 + aj_reserved_bytes j \<and>
     li_bytes inner0 + aj_reserved_bytes j \<le> U64_MAX"

definition undoes_map :: "admit_journal \<Rightarrow> l2_inner \<Rightarrow> l2_inner \<Rightarrow> bool" where
  "undoes_map j inner inner0 \<longleftrightarrow>
     fst ` set (aj_removed_entries j) \<inter> fst ` set (li_map inner) = {} \<and>
     bt_get (uncharged (li_map inner)) ++ map_of (rev (uncharged (aj_removed_entries j))) =
       bt_get (uncharged (li_map inner0)) \<and>
     li_clock inner = li_clock inner0"

abbreviation undoes :: "digest set \<Rightarrow> admit_journal \<Rightarrow> l2_inner \<Rightarrow> l2_inner \<Rightarrow> bool" where
  "undoes pinned j inner inner0 \<equiv> undoes_pool pinned j inner inner0 \<and> undoes_map j inner inner0"

lemma release_digest_map_unchanged:
  "release_digest pinned (inner, j) d = (inner', j') \<Longrightarrow>
   li_map inner' = li_map inner \<and> li_clock inner' = li_clock inner \<and> aj_removed_entries j' = aj_removed_entries j"
  by (auto simp: release_digest_def split: if_splits option.splits)

lemma release_digest_undoes:
  assumes u: "undoes_pool (set pinned) j inner inner0" and w: "weighed inner"
    and r: "release_digest pinned (inner, j) d = (inner', j')"
  shows "undoes_pool (set pinned) j' inner' inner0 \<and> weighed inner'"
proof (cases "d \<in> set pinned \<or> d \<in> referenced (li_map inner) \<or> bt_get (li_segments inner) d = None")
  case True
  then have "inner' = inner" "j' = j" using r by (auto simp: release_digest_def split: option.splits if_splits)
  then show ?thesis using u w by simp
next
  case False
  then obtain h where h: "bt_get (li_segments inner) d = Some h" and np: "d \<notin> set pinned" by auto
  have inner': "inner' = inner\<lparr>li_segments := bt_remove d (li_segments inner), li_bytes := li_bytes inner - length h\<rparr>"
    and j': "j' = j\<lparr>aj_released_bytes := sat_add (aj_released_bytes j) (length h),
                    aj_released_orphans := aj_released_orphans j @ [(d, h)]\<rparr>"
    using r False h by (auto simp: release_digest_def)
  have pb: "length h + pool_bytes (bt_remove d (li_segments inner)) = li_bytes inner"
    using pool_bytes_remove [OF _ h] w by (simp add: weighed_def)
  have "weighed inner'" using w pb by (auto simp: weighed_def inner')
  moreover have bytes: "sat_add (aj_released_bytes j) (length h) = aj_released_bytes j + length h"
    using u pb by (intro sat_add_exact) (auto simp: undoes_pool_def)
  moreover have "((bt_get (bt_remove d (li_segments inner)) ++ map_of (rev (aj_overwrites j))) |` (- set (aj_reserved j)))
       ++ map_of (rev (aj_released_orphans j @ [(d, h)])) =
     ((bt_get (li_segments inner) ++ map_of (rev (aj_overwrites j))) |` (- set (aj_reserved j)))
       ++ map_of (rev (aj_released_orphans j))" (is "?new = ?old")
  proof
    fix x
    have "d \<notin> fst ` set (aj_overwrites j)" "d \<notin> set (aj_reserved j)" using u np by (auto simp: undoes_pool_def)
    then have "map_of (rev (aj_overwrites j)) d = None" by (simp add: map_of_eq_None_iff)
    moreover have "d \<in> fst ` set (li_segments inner)" using bt_get_Some_mem [OF h] by force
    then have "d \<notin> fst ` set (aj_released_orphans j)" using u by (auto simp: undoes_pool_def)
    then have "map_of (rev (aj_released_orphans j)) d = None" by (simp add: map_of_eq_None_iff)
    ultimately show "?new x = ?old x"
      using h \<open>d \<notin> set (aj_reserved j)\<close> by (auto simp: bt_get_remove map_add_def restrict_map_def split: option.split)
  qed
  ultimately show ?thesis using u np pb by (auto simp: undoes_pool_def inner' j')
qed

lemma release_digests_undoes:
  "undoes_pool (set pinned) j inner inner0 \<Longrightarrow> weighed inner \<Longrightarrow>
   release_digests pinned ds (inner, j) = (inner', j') \<Longrightarrow>
   undoes_pool (set pinned) j' inner' inner0 \<and> li_clock inner' = li_clock inner \<and> aj_removed_entries j' = aj_removed_entries j"
proof (induction ds arbitrary: inner j)
  case Nil
  then show ?case by (simp add: release_digests_def)
next
  case (Cons d ds)
  obtain i1 j1 where step: "release_digest pinned (inner, j) d = (i1, j1)" by (cases "release_digest pinned (inner, j) d")
  have "release_digests pinned ds (i1, j1) = (inner', j')" using Cons.prems(3) step by (simp add: release_digests_def)
  then show ?case
    using Cons.IH [of j1 i1] release_digest_undoes [OF Cons.prems(1,2) step] release_digest_map_unchanged [OF step] by simp
qed

lemma uncharged_snoc: "uncharged (m @ [(k, e)]) = uncharged m @ [(k, uncharged_entry e)]"
  by (simp add: uncharged_def)

text \<open>Dropping an entry and writing it down, as the replacement and the eviction loop do.\<close>

lemma drop_undoes:
  assumes ok: "pool_ok (set pinned) inner" and u: "undoes (set pinned) j inner inner0"
    and e: "bt_get (li_map inner) key = Some e"
    and r: "release_digests pinned (segment_digests (le_payload e)) (without_entry key inner, j) = (inner', j')"
  shows "undoes (set pinned) (j'\<lparr>aj_removed_entries := aj_removed_entries j' @ [(key, e)]\<rparr>) inner' inner0"
proof
  have u1: "undoes_pool (set pinned) j (without_entry key inner) inner0" using u by (simp add: undoes_pool_def)
  have rel: "undoes_pool (set pinned) j' inner' inner0 \<and> li_clock inner' = li_clock (without_entry key inner) \<and>
      aj_removed_entries j' = aj_removed_entries j"
    by (rule release_digests_undoes [OF u1 weighed_without_entry [OF pool_okD(1) [OF ok]] r])
  then show "undoes_pool (set pinned) (j'\<lparr>aj_removed_entries := aj_removed_entries j' @ [(key, e)]\<rparr>) inner' inner0"
    by (simp add: undoes_pool_def)
  note dropped = release_dropped [OF ok e r]
  have keys: "fst ` set (li_map inner') = fst ` set (li_map inner) - {key}"
    by (rule keys_of_removed [OF dropped(3)])
  have disj: "fst ` set (aj_removed_entries j) \<inter> fst ` set (li_map inner) = {}"
    and base: "bt_get (uncharged (li_map inner)) ++ map_of (rev (uncharged (aj_removed_entries j))) =
       bt_get (uncharged (li_map inner0))" and clock: "li_clock inner = li_clock inner0"
    using u by (auto simp: undoes_map_def)
  have "key \<in> fst ` set (li_map inner)" using bt_get_Some_mem [OF e] by force
  then have "key \<notin> fst ` set (aj_removed_entries j)" using disj by auto
  then have "map_of (rev (uncharged (aj_removed_entries j))) key = None"
    by (simp add: map_of_eq_None_iff uncharged_key_set)
  then have "bt_get (bt_remove key (uncharged (li_map inner))) ++
        map_of (rev (uncharged (aj_removed_entries j @ [(key, e)]))) =
      bt_get (uncharged (li_map inner)) ++ map_of (rev (uncharged (aj_removed_entries j)))"
    using e by (simp add: fun_eq_iff bt_get_remove map_add_def uncharged_snoc uncharged_get split: option.split)
  then show "undoes_map (j'\<lparr>aj_removed_entries := aj_removed_entries j' @ [(key, e)]\<rparr>) inner' inner0"
    using rel dropped(3) base clock keys disj by (auto simp: undoes_map_def)
qed

lemma evict_victim_undoes:
  assumes ok: "pool_ok (set pinned) inner" and u: "undoes (set pinned) j inner inner0"
    and v: "l2_victim inner protect_key = Some v" and r: "evict_victim pinned v (inner, j) = ((inner1, j1), ev)"
  shows "undoes (set pinned) j1 inner1 inner0"
proof -
  obtain i' j' where rel: "release_digests pinned (segment_digests (le_payload (snd v))) (without_entry (fst v) inner, j) = (i', j')"
    by (cases "release_digests pinned (segment_digests (le_payload (snd v))) (without_entry (fst v) inner, j)")
  have "inner1 = i'" "j1 = j'\<lparr>aj_removed_entries := aj_removed_entries j' @ [(fst v, snd v)]\<rparr>"
    using r rel by (auto simp: evict_victim_drop)
  then show ?thesis using drop_undoes [OF ok u l2_victim_least(1) [OF pool_okD(2) [OF ok] v] rel] by simp
qed

lemma evict_to_limit_undoes:
  assumes "pool_ok (set pinned) (fst s)" "undoes (set pinned) (snd s) (fst s) inner0"
    "evict_to_limit limit protect_key pinned s = (s', evs)"
  shows "undoes (set pinned) (snd s') (fst s') inner0"
  using assms
proof (induction limit protect_key pinned s arbitrary: evs rule: evict_to_limit.induct)
  case (1 limit protect_key pinned s)
  from 1(4) show ?case
  proof (cases rule: evict_to_limit_cases)
    case stop
    then show ?thesis using 1(3) by simp
  next
    case (round v s1 ev evs1)
    obtain inner j inner1 j1 where s: "s = (inner, j)" "s1 = (inner1, j1)" by (metis surj_pair)
    have ok: "pool_ok (set pinned) inner" and u: "undoes (set pinned) j inner inner0" using 1(2,3) s by simp_all
    have v: "l2_victim inner protect_key = Some v" using round(2) s by simp
    have r: "evict_victim pinned v (inner, j) = ((inner1, j1), ev)" using round(3) s by simp
    have "pool_ok (set pinned) (fst s1)" "undoes (set pinned) (snd s1) (fst s1) inner0"
      using evict_victim_spec(1) [OF ok v r] evict_victim_undoes [OF ok u v r] s by simp_all
    then show ?thesis using 1(1) [of v s1 ev evs1] round by simp
  qed
qed

end
