(* ===== verification/L2Admission.thy ===== *)
theory L2Admission
  imports L2Eviction
begin

text \<open>
  Admission to the L2 tier: what the plan of an admission pins, that reserving and releasing keep the
  pool exact and can be undone, that a refusal restores the tier, and when an admission succeeds.
\<close>

section \<open>The invariant of the tier\<close>

definition l2_ok :: "nat \<Rightarrow> l2_inner \<Rightarrow> bool" where
  "l2_ok budget inner \<longleftrightarrow> pool_ok {} inner \<and> charged inner \<and> li_bytes inner \<le> budget"

text \<open>Two states that no reader of the tables can tell apart.\<close>

definition same_state :: "l2_inner \<Rightarrow> l2_inner \<Rightarrow> bool" where
  "same_state a b \<longleftrightarrow> bt_get (li_map a) = bt_get (li_map b) \<and> bt_get (li_segments a) = bt_get (li_segments b) \<and>
     li_bytes a = li_bytes b \<and> li_clock a = li_clock b"

lemma same_state_refl [simp]: "same_state a a"
  by (simp add: same_state_def)

section \<open>The validated layout\<close>

lemma sub_list_append: "a \<le> b \<Longrightarrow> b \<le> length xs \<Longrightarrow> take a xs @ sub_list xs a b = take b xs"
  unfolding sub_list_def by (metis le_add_diff_inverse take_add)

lemma validate_segments_spec:
  "validate_segments hash wire start segs = Inr (parts, stop) \<Longrightarrow> start \<le> length wire \<Longrightarrow>
   map fst parts = map fst segs \<and> (\<forall>(d, h) \<in> set parts. hash h = d) \<and> start \<le> stop \<and> stop \<le> length wire \<and>
   take start wire @ concat (map snd parts) = take stop wire"
proof (induction hash wire start segs arbitrary: parts rule: validate_segments.induct)
  case (2 hash wire expected_start digest start stop' segs)
  then obtain rest where ok: "start = expected_start" "start \<le> stop'" "stop' \<le> length wire"
      "hash (sub_list wire start stop') = digest"
      "validate_segments hash wire stop' segs = Inr (rest, stop)" "parts = (digest, sub_list wire start stop') # rest"
    by (auto simp: Let_def res_bind_def split: if_splits sum.splits)
  have valid: "is_valid_digest digest" using 2(2) by (simp split: if_splits)
  have IH: "map fst rest = map fst segs \<and> (\<forall>(d, h) \<in> set rest. hash h = d) \<and> stop' \<le> stop \<and> stop \<le> length wire \<and>
      take stop' wire @ concat (map snd rest) = take stop wire"
    by (rule 2(1) [OF _ _ refl refl _ ok(5) ok(3)]) (use valid ok(1-4) in simp_all)
  have "take start wire @ concat (map snd parts) = (take start wire @ sub_list wire start stop') @ concat (map snd rest)"
    by (simp add: ok(6))
  also have "\<dots> = take stop wire" using IH sub_list_append [OF ok(2,3)] by simp
  finally show ?case using IH ok by simp
qed simp

lemma validate_layout_spec:
  assumes "validate_layout hash mirror wire = Inr parts"
  shows "map fst parts = map fst (la_segments (mirror_layout mirror))" "\<forall>(d, h) \<in> set parts. hash h = d"
    "concat (map snd parts) = wire" "la_total_bytes (mirror_layout mirror) = length wire"
proof -
  obtain stop where v: "validate_segments hash wire 0 (la_segments (mirror_layout mirror)) = Inr (parts, stop)"
    and t: "stop = la_total_bytes (mirror_layout mirror)" "la_total_bytes (mirror_layout mirror) = length wire"
    using assms by (auto simp: validate_layout_def Let_def res_bind_def split: if_splits sum.splits)
  from validate_segments_spec [OF v] t
  show "map fst parts = map fst (la_segments (mirror_layout mirror))" "\<forall>(d, h) \<in> set parts. hash h = d"
    "concat (map snd parts) = wire" "la_total_bytes (mirror_layout mirror) = length wire"
    by simp_all
qed

section \<open>The plan\<close>

definition empty_plan :: admit_plan where
  "empty_plan = \<lparr>ap_shared = [], ap_new_segments = [], ap_new_bytes = 0, ap_shared_bytes = 0\<rparr>"

abbreviation pinned_by :: "admit_plan \<Rightarrow> digest list" where
  "pinned_by p \<equiv> map fst (ap_new_segments p) @ ap_shared p"

text \<open>What holds of the plan after the segments \<open>parts\<close> have been looked at.\<close>

definition plan_ok :: "l2_inner \<Rightarrow> (digest \<times> byte list) list \<Rightarrow> admit_plan \<Rightarrow> bool" where
  "plan_ok inner parts p \<longleftrightarrow>
     set (pinned_by p) = fst ` set parts \<and> distinct (map fst (ap_new_segments p)) \<and>
     set (ap_new_segments p) \<subseteq> set parts \<and>
     (\<forall>d \<in> set (ap_shared p). \<exists>h. bt_get (li_segments inner) d = Some h \<and> (d, h) \<in> set parts) \<and>
     ap_new_bytes p = min U64_MAX (pool_bytes (ap_new_segments p))"

lemma plan_segments_spec:
  "plan_segments inner key parts p = Inr p' \<Longrightarrow> plan_ok inner seen p \<Longrightarrow> plan_ok inner (seen @ parts) p'"
proof (induction inner key parts p arbitrary: seen rule: plan_segments.induct)
  case (2 inner key d part parts p)
  let ?share = "p\<lparr>ap_shared_bytes := (ap_shared_bytes p + length part) mod 2 ^ 64\<rparr>"
  let ?reserve = "p\<lparr>ap_new_bytes := sat_add (ap_new_bytes p) (length part),
                    ap_new_segments := ap_new_segments p @ [(d, part)]\<rparr>"
  show ?case
  proof (cases "d \<in> set (map fst (ap_new_segments p))")
    case True
    then have "plan_ok inner (seen @ [(d, part)]) ?share"
      using 2(6) unfolding plan_ok_def by (simp add: insert_absorb subset_insertI2) blast
    then show ?thesis using 2(1) [OF refl refl True, of "seen @ [(d, part)]"] 2(5) True by simp
  next
    case new: False
    have reserve: "plan_ok inner (seen @ [(d, part)]) ?reserve"
      using 2(6) new by (fastforce simp: plan_ok_def sat_add_def)
    show ?thesis
    proof (cases "bt_get (li_segments inner) d")
      case None
      then show ?thesis using 2(2) [OF refl refl new None, of "seen @ [(d, part)]"] 2(5) reserve new by simp
    next
      case (Some h)
      show ?thesis
      proof (cases "h = part")
        case True
        have "plan_ok inner (seen @ [(d, part)]) (?share\<lparr>ap_shared := ap_shared p @ [d]\<rparr>)"
          using 2(6) new Some True by (fastforce simp: plan_ok_def)
        then show ?thesis using 2(3) [OF refl refl new Some True, of "seen @ [(d, part)]"] 2(5) new Some True by simp
      next
        case False
        then show ?thesis using 2(4) [OF refl refl new Some False, of "seen @ [(d, part)]"] 2(5) reserve new Some
          by (simp split: if_splits)
      qed
    qed
  qed
qed simp

lemma plan_ok_empty: "plan_ok inner [] empty_plan"
  by (simp add: plan_ok_def empty_plan_def)

section \<open>Reserving the new segments\<close>

lemma dom_bt_get: "dom (bt_get m) = fst ` set m"
  using dom_map_of_conv_image_fst [of m] by (simp add: bt_get_def dom_def)

lemma reserve_segment_spec:
  assumes ok: "pool_ok P inner" and u: "undoes P j inner inner0" and orph: "aj_released_orphans j = []"
    and fresh: "d \<notin> fst ` set (aj_overwrites j) \<union> set (aj_reserved j)"
    and room: "li_bytes inner0 + aj_reserved_bytes j + length h \<le> U64_MAX"
    and r: "reserve_segment (inner, j) (d, h) = (inner', j')"
  shows "pool_ok (insert d P) inner'" "undoes (insert d P) j' inner' inner0" "aj_released_orphans j' = []"
    "fst ` set (aj_overwrites j') \<union> set (aj_reserved j') = insert d (fst ` set (aj_overwrites j) \<union> set (aj_reserved j))"
    "aj_reserved_bytes j' = aj_reserved_bytes j + length h" "li_map inner' = li_map inner"
    "li_segments inner' = hl_put d h (li_segments inner)"
proof -
  have dist: "distinct (map fst (li_segments inner))" by (rule pool_okD(3) [OF ok])
  have le: "li_bytes inner \<le> li_bytes inner0 + aj_reserved_bytes j" using u by (auto simp: undoes_pool_def)
  have add: "sat_add (li_bytes inner) (length h) = li_bytes inner + length h"
    "sat_add (aj_reserved_bytes j) (length h) = aj_reserved_bytes j + length h"
    using le room by (auto intro!: sat_add_exact)
  have put: "distinct (map fst (hl_put d h (li_segments inner)))" using dist by (rule hl.wf_put)
  have get: "bt_get (hl_put d h (li_segments inner)) = (bt_get (li_segments inner))(d \<mapsto> h)" by (rule hl_get_put)
  have keys: "fst ` set (hl_put d h (li_segments inner)) = insert d (fst ` set (li_segments inner))"
    by (simp only: get dom_fun_upd flip: dom_bt_get) simp
  have no_ow: "map_of (rev (aj_overwrites j)) d = None" using fresh by (simp add: map_of_eq_None_iff)
  note weight = pool_bytes_put [OF dist, of d h]
  have "pool_ok (insert d P) inner' \<and> undoes_pool (insert d P) j' inner' inner0 \<and> aj_released_orphans j' = [] \<and>
    fst ` set (aj_overwrites j') \<union> set (aj_reserved j') = insert d (fst ` set (aj_overwrites j) \<union> set (aj_reserved j)) \<and>
    aj_reserved_bytes j' = aj_reserved_bytes j + length h \<and> li_map inner' = li_map inner \<and>
    li_segments inner' = hl_put d h (li_segments inner) \<and> li_clock inner' = li_clock inner \<and>
    aj_removed_entries j' = aj_removed_entries j"
  proof (cases "bt_get (li_segments inner) d")
    case None
    have i: "inner' = inner\<lparr>li_bytes := li_bytes inner + length h, li_segments := hl_put d h (li_segments inner)\<rparr>"
      and j: "j' = j\<lparr>aj_reserved_bytes := aj_reserved_bytes j + length h, aj_reserved := aj_reserved j @ [d]\<rparr>"
      using r None add by (auto simp: reserve_segment_def Let_def)
    have "((bt_get (hl_put d h (li_segments inner)) ++ map_of (rev (aj_overwrites j))) |` (- set (aj_reserved j @ [d]))) =
        ((bt_get (li_segments inner) ++ map_of (rev (aj_overwrites j))) |` (- set (aj_reserved j)))"
      using None no_ow by (auto simp: fun_eq_iff get restrict_map_def map_add_def split: option.split)
    moreover have "weighed inner'" using pool_okD(1) [OF ok] weight None put by (simp add: i weighed_def)
    ultimately show ?thesis
      using ok u room orph keys weight None by (auto simp: i j pool_ok_def undoes_pool_def)
  next
    case (Some old)
    then have mem: "d \<in> fst ` set (li_segments inner)" using bt_get_Some_mem by force
    have old_le: "length old \<le> li_bytes inner" using pool_bytes_get_le [OF Some] pool_okD(4) [OF ok] by simp
    then have ow: "sat_add (aj_overwritten_bytes j) (length old) = aj_overwritten_bytes j + length old"
      using u by (intro sat_add_exact) (auto simp: undoes_pool_def)
    have i: "inner' = inner\<lparr>li_bytes := li_bytes inner + length h - length old, li_segments := hl_put d h (li_segments inner)\<rparr>"
      and j: "j' = j\<lparr>aj_reserved_bytes := aj_reserved_bytes j + length h,
                    aj_overwritten_bytes := aj_overwritten_bytes j + length old,
                    aj_overwrites := aj_overwrites j @ [(d, old)]\<rparr>"
      using r Some add ow by (auto simp: reserve_segment_def Let_def)
    have "((bt_get (hl_put d h (li_segments inner)) ++ map_of (rev (aj_overwrites j @ [(d, old)]))) |` (- set (aj_reserved j))) =
        ((bt_get (li_segments inner) ++ map_of (rev (aj_overwrites j))) |` (- set (aj_reserved j)))"
      using Some no_ow fresh by (auto simp: fun_eq_iff get restrict_map_def map_add_def split: option.split)
    moreover have "weighed inner'" using pool_okD(1) [OF ok] weight Some put by (auto simp: i weighed_def)
    ultimately show ?thesis
      using ok u room orph keys weight Some mem old_le by (auto simp: i j pool_ok_def undoes_pool_def)
  qed
  then show "pool_ok (insert d P) inner'" "undoes (insert d P) j' inner' inner0" "aj_released_orphans j' = []"
    "fst ` set (aj_overwrites j') \<union> set (aj_reserved j') = insert d (fst ` set (aj_overwrites j) \<union> set (aj_reserved j))"
    "aj_reserved_bytes j' = aj_reserved_bytes j + length h" "li_map inner' = li_map inner"
    "li_segments inner' = hl_put d h (li_segments inner)"
    using u by (simp_all add: undoes_map_def)
qed

lemma reserve_all_spec:
  assumes "pool_ok P inner" "undoes P j inner inner0" "aj_released_orphans j = []" "distinct (map fst new)"
    "fst ` set new \<inter> (fst ` set (aj_overwrites j) \<union> set (aj_reserved j)) = {}"
    "li_bytes inner0 + aj_reserved_bytes j + pool_bytes new \<le> U64_MAX"
    "foldl reserve_segment (inner, j) new = (inner', j')"
  shows "pool_ok (fst ` set new \<union> P) inner' \<and> undoes (fst ` set new \<union> P) j' inner' inner0 \<and>
    aj_released_orphans j' = [] \<and> li_map inner' = li_map inner \<and>
    bt_get (li_segments inner') = bt_get (li_segments inner) ++ map_of new"
  using assms
proof (induction new arbitrary: inner j P)
  case (Cons x new)
  obtain d h where x: "x = (d, h)" by fastforce
  obtain i1 j1 where r: "reserve_segment (inner, j) (d, h) = (i1, j1)" by (cases "reserve_segment (inner, j) (d, h)")
  have "d \<notin> fst ` set (aj_overwrites j) \<union> set (aj_reserved j)" "li_bytes inner0 + aj_reserved_bytes j + length h \<le> U64_MAX"
    using Cons.prems(5,6) x by auto
  note step = reserve_segment_spec [OF Cons.prems(1-3) this r]
  have "pool_ok (fst ` set new \<union> insert d P) inner' \<and> undoes (fst ` set new \<union> insert d P) j' inner' inner0 \<and>
    aj_released_orphans j' = [] \<and> li_map inner' = li_map i1 \<and> bt_get (li_segments inner') = bt_get (li_segments i1) ++ map_of new"
    using Cons.prems(4-7) step x r by (intro Cons.IH [of "insert d P" i1 j1]) (auto simp: step(4))
  moreover have "map_of new d = None" using Cons.prems(4) x by (simp add: map_of_eq_None_iff)
  ultimately show ?case using step x by (auto simp: hl_get_put fun_eq_iff map_add_def split: option.splits)
qed simp

end
