(* ===== verification/L2Transaction.thy ===== *)
theory L2Transaction
  imports L2Admission
begin

text \<open>
  The admission transaction of the L2 tier as a whole: the replaced entry, the rollback, and what the
  locked part of \<open>admit\<close> returns and leaves, on every branch.
\<close>

section \<open>The replaced entry\<close>

lemma release_replaced_spec:
  assumes ok: "pool_ok (set pinned) inner" and u: "undoes (set pinned) j inner inner0"
    and r: "release_replaced key pinned (inner, j) = (inner', j')"
  shows "pool_ok (set pinned) inner'" "undoes (set pinned) j' inner' inner0" "key \<notin> fst ` set (li_map inner')"
    "set (li_segments inner') \<subseteq> set (li_segments inner)" "uncharged (li_map inner') = bt_remove key (uncharged (li_map inner))"
    "li_clock inner' = li_clock inner"
proof -
  have "pool_ok (set pinned) inner' \<and> undoes (set pinned) j' inner' inner0 \<and> key \<notin> fst ` set (li_map inner') \<and>
    set (li_segments inner') \<subseteq> set (li_segments inner) \<and> uncharged (li_map inner') = bt_remove key (uncharged (li_map inner)) \<and>
    li_clock inner' = li_clock inner"
  proof (cases "bt_get (li_map inner) key")
    case None
    then have "key \<notin> fst ` set (uncharged (li_map inner))" using bt_get_None_iff [of "li_map inner" key] uncharged_key_set by simp
    then show ?thesis using r None ok u by (simp add: release_replaced_def bt_remove_absent uncharged_key_set)
  next
    case (Some e)
    obtain i1 j1 where rel: "release_digests pinned (segment_digests (le_payload e)) (without_entry key inner, j) = (i1, j1)"
      by (cases "release_digests pinned (segment_digests (le_payload e)) (without_entry key inner, j)")
    then have i: "inner' = i1" "j' = j1\<lparr>aj_removed_entries := aj_removed_entries j1 @ [(key, e)]\<rparr>"
      using r Some by (auto simp: release_replaced_def without_entry_def)
    have "inner' = with_pool (without_entry key inner) (released pinned (li_map (without_entry key inner)) (digests_of e) (li_segments inner))"
      using release_digests_pool [OF weighed_without_entry [OF pool_okD(1) [OF ok]], of pinned "segment_digests (le_payload e)" key j] rel i
      by (simp add: digests_of_def)
    then have "set (li_segments inner') \<subseteq> set (li_segments inner)" by (auto simp: released_def)
    then show ?thesis
      using release_dropped [OF ok Some rel] drop_undoes [OF ok u Some rel] keys_of_removed i by auto
  qed
  then show "pool_ok (set pinned) inner'" "undoes (set pinned) j' inner' inner0" "key \<notin> fst ` set (li_map inner')"
    "set (li_segments inner') \<subseteq> set (li_segments inner)" "uncharged (li_map inner') = bt_remove key (uncharged (li_map inner))"
    "li_clock inner' = li_clock inner" by simp_all
qed

lemma evict_victim_pool_subset:
  assumes ok: "pool_ok (set pinned) inner" and v: "l2_victim inner protect_key = Some v"
    and r: "evict_victim pinned v (inner, j) = ((inner1, j1), ev)"
  shows "set (li_segments inner1) \<subseteq> set (li_segments inner)"
proof -
  obtain i' j' where rel: "release_digests pinned (segment_digests (le_payload (snd v))) (without_entry (fst v) inner, j) = (i', j')"
    by (cases "release_digests pinned (segment_digests (le_payload (snd v))) (without_entry (fst v) inner, j)")
  then have "inner1 = i'" using r by (simp add: evict_victim_drop)
  then have "li_segments inner1 =
      released pinned (li_map (without_entry (fst v) inner)) (digests_of (snd v)) (li_segments inner)"
    using release_digests_pool [OF weighed_without_entry [OF pool_okD(1) [OF ok]], of pinned "segment_digests (le_payload (snd v))" "fst v" j] rel
    by (simp add: digests_of_def)
  then show ?thesis by (auto simp: released_def)
qed

lemma evict_to_limit_pool_subset:
  "pool_ok (set pinned) (fst s) \<Longrightarrow> evict_to_limit limit protect_key pinned s = (s', evs) \<Longrightarrow>
   set (li_segments (fst s')) \<subseteq> set (li_segments (fst s))"
proof (induction limit protect_key pinned s arbitrary: evs rule: evict_to_limit.induct)
  case (1 limit protect_key pinned s)
  from 1(3) show ?case
  proof (cases rule: evict_to_limit_cases)
    case (round v s1 ev evs1)
    obtain inner j inner1 j1 where s: "s = (inner, j)" "s1 = (inner1, j1)" by (metis surj_pair)
    have ok: "pool_ok (set pinned) inner" using 1(2) s by simp
    have v: "l2_victim inner protect_key = Some v" using round(2) s by simp
    have r: "evict_victim pinned v (inner, j) = ((inner1, j1), ev)" using round(3) s by simp
    have "set (li_segments (fst s')) \<subseteq> set (li_segments (fst s1))"
      using 1(1) [of v s1 ev evs1] round evict_victim_spec(1) [OF ok v r] s by simp
    then show ?thesis using evict_victim_pool_subset [OF ok v r] s by auto
  qed simp
qed

section \<open>The rollback\<close>

lemma get_put_all: "bt_get (foldl (\<lambda>m (k, v). hl_put k v m) m xs) = bt_get m ++ map_of (rev xs)"
proof (induction xs arbitrary: m)
  case (Cons x xs)
  obtain k v where "x = (k, v)" by fastforce
  then show ?case using Cons [of "hl_put k v m"] by (auto simp: hl_get_put map_add_def fun_eq_iff split: option.split)
qed simp

lemma get_remove_all: "bt_get (foldl (\<lambda>m k. bt_remove k m) m ks) = bt_get m |` (- set ks)"
  by (induction ks arbitrary: m) (auto simp: bt_get_remove restrict_map_def fun_eq_iff)

lemma distinct_put_all:
  "distinct (map fst m) \<Longrightarrow> distinct (map fst (foldl (\<lambda>m (k, v). hl_put k v m) m xs))"
  by (induction xs arbitrary: m) (auto intro: hl.wf_put)

lemma distinct_remove_all: "distinct (map fst m) \<Longrightarrow> distinct (map fst (foldl (\<lambda>m k. bt_remove k m) m ks))"
  by (induction ks arbitrary: m) (auto intro: hl.wf_del)

lemma uncharged_put: "uncharged (hl_put k e m) = hl_put k (uncharged_entry e) (uncharged m)"
proof -
  have "uncharged (bt_modify k (\<lambda>_. e) m) = bt_modify k (\<lambda>_. uncharged_entry e) (uncharged m)"
    by (induction m) (auto simp: uncharged_def bt_modify_def)
  then show ?thesis by (simp add: hl_put_def uncharged_snoc uncharged_key_set)
qed

lemma uncharged_put_all:
  "uncharged (foldl (\<lambda>m (k, e). hl_put k e m) m xs) = foldl (\<lambda>m (k, e). hl_put k e m) (uncharged m) (uncharged xs)"
proof (induction xs arbitrary: m)
  case (Cons x xs)
  obtain k e where "x = (k, e)" by fastforce
  moreover have "uncharged ((k, e) # xs) = (k, uncharged_entry e) # uncharged xs" by (simp add: uncharged_def)
  ultimately show ?case using Cons [of "hl_put k e m"] by (simp add: uncharged_put)
qed (simp add: uncharged_def)

lemma rollback_spec:
  assumes ok: "pool_ok P inner" and u: "undoes P j inner inner0"
  shows "bt_get (li_segments (rollback j inner)) = bt_get (li_segments inner0)"
    "bt_get (uncharged (li_map (rollback j inner))) = bt_get (uncharged (li_map inner0))"
    "li_bytes (rollback j inner) = li_bytes inner0" "li_clock (rollback j inner) = li_clock inner0"
    "distinct (map fst (li_map (rollback j inner)))" "distinct (map fst (li_segments (rollback j inner)))"
proof -
  show "bt_get (li_segments (rollback j inner)) = bt_get (li_segments inner0)"
    using u by (simp add: rollback_def Let_def get_put_all get_remove_all undoes_pool_def)
  show "bt_get (uncharged (li_map (rollback j inner))) = bt_get (uncharged (li_map inner0))"
    using u by (simp add: rollback_def Let_def uncharged_put_all get_put_all undoes_map_def)
  have "li_bytes inner + aj_released_bytes j + aj_overwritten_bytes j \<le> U64_MAX"
    "li_bytes inner + aj_released_bytes j + aj_overwritten_bytes j = li_bytes inner0 + aj_reserved_bytes j"
    using u by (auto simp: undoes_pool_def)
  then show "li_bytes (rollback j inner) = li_bytes inner0"
    by (simp add: rollback_def Let_def sat_add_exact)
  show "li_clock (rollback j inner) = li_clock inner0" using u by (simp add: rollback_def Let_def undoes_map_def)
  show "distinct (map fst (li_map (rollback j inner)))"
    unfolding rollback_def Let_def using pool_okD(2) [OF ok] by (simp add: distinct_put_all)
  show "distinct (map fst (li_segments (rollback j inner)))"
    unfolding rollback_def Let_def using pool_okD(3) [OF ok] by (simp add: distinct_put_all distinct_remove_all)
qed

text \<open>Charges are a function of the tables, so recomputing them restores them.\<close>

lemma owned_bytes_same:
  assumes d: "distinct (map fst (li_map a))" "distinct (map fst (li_map b))"
      "distinct (map fst (li_segments a))" "distinct (map fst (li_segments b))"
    and m: "bt_get (uncharged (li_map a)) = bt_get (uncharged (li_map b))"
    and s: "bt_get (li_segments a) = bt_get (li_segments b)"
  shows "owned_bytes a = owned_bytes b"
proof
  fix k
  have "set (uncharged (li_map a)) = set (uncharged (li_map b))"
    using d(1,2) m by (intro set_eq_of_get_eq) simp_all
  then have "segment_owner (uncharged (li_map a)) = segment_owner (uncharged (li_map b))"
    by (intro ext segment_owner_cong) simp
  then have owner: "segment_owner (li_map a) = segment_owner (li_map b)" by (simp add: segment_owner_uncharged fun_eq_iff)
  have "mset (li_segments a) = mset (li_segments b)" using mset_eq_of_get_eq [OF d(3,4) s] .
  then have "mset (map (\<lambda>(d, bytes). length bytes) (filter (\<lambda>(d, bytes). segment_owner (li_map b) d = Some k) (li_segments a))) =
      mset (map (\<lambda>(d, bytes). length bytes) (filter (\<lambda>(d, bytes). segment_owner (li_map b) d = Some k) (li_segments b)))"
    by simp
  then show "owned_bytes a k = owned_bytes b k"
    by (simp add: owned_bytes_def wrap_sum_def owner flip: sum_mset_sum_list)
qed

lemma recompute_get:
  "bt_get (li_map (recompute_all_charges inner)) k =
     map_option (\<lambda>e. e\<lparr>le_charge_bytes := owned_bytes inner k\<rparr>) (bt_get (uncharged (li_map inner)) k)"
proof -
  have "bt_get (map (\<lambda>(key, e). (key, e\<lparr>le_charge_bytes := owned_bytes inner key\<rparr>)) m) k =
      map_option (\<lambda>e. e\<lparr>le_charge_bytes := owned_bytes inner k\<rparr>) (bt_get (uncharged m) k)" for m
    by (induction m) (auto simp: bt_get_Cons uncharged_def)
  then show ?thesis by (simp add: recompute_all_charges_def)
qed

lemma charged_get:
  assumes "charged inner" "distinct (map fst (li_map inner))"
  shows "bt_get (li_map inner) k = map_option (\<lambda>e. e\<lparr>le_charge_bytes := owned_bytes inner k\<rparr>) (bt_get (uncharged (li_map inner)) k)"
proof (cases "bt_get (li_map inner) k")
  case (Some e)
  then have "le_charge_bytes e = owned_bytes inner k" using assms(1) bt_get_Some_mem [OF Some] by (auto simp: charged_def)
  then show ?thesis using Some by (cases e) (simp add: uncharged_get)
qed (simp add: uncharged_get)

lemma rolled_back_same:
  assumes ok: "pool_ok P inner" and u: "undoes P j inner inner0" and ok0: "l2_ok budget inner0"
  shows "same_state (recompute_all_charges (rollback j inner)) inner0" "l2_ok budget (recompute_all_charges (rollback j inner))"
proof -
  note rb = rollback_spec [OF ok u]
  have ok0': "pool_ok {} inner0" "charged inner0" "li_bytes inner0 \<le> budget" using ok0 by (simp_all add: l2_ok_def)
  note d0 = pool_okD(2,3) [OF ok0'(1)]
  have owned: "owned_bytes (rollback j inner) = owned_bytes inner0"
    using owned_bytes_same [OF rb(5) d0(1) rb(6) d0(2) rb(2) rb(1)] .
  have "bt_get (li_map (recompute_all_charges (rollback j inner))) = bt_get (li_map inner0)"
    by (rule ext) (simp only: recompute_get rb(2) owned charged_get [OF ok0'(2) d0(1)])
  then show "same_state (recompute_all_charges (rollback j inner)) inner0"
    using rb by (simp add: same_state_def)
  have "pool_bytes (li_segments (rollback j inner)) = pool_bytes (li_segments inner0)"
    by (rule pool_bytes_mset [OF mset_eq_of_get_eq [OF rb(6) d0(2) rb(1)]])
  moreover have "set (uncharged (li_map (rollback j inner))) = set (uncharged (li_map inner0))"
    using rb(2,5) d0 by (intro set_eq_of_get_eq) simp_all
  then have "referenced (li_map (rollback j inner)) = referenced (li_map inner0)"
    using referenced_uncharged [of "li_map (rollback j inner)"] referenced_uncharged [of "li_map inner0"]
    by (simp add: referenced_def)
  moreover have "fst ` set (li_segments (rollback j inner)) = fst ` set (li_segments inner0)"
    using rb(1) by (metis dom_bt_get)
  ultimately have "pool_ok {} (rollback j inner)"
    using rb pool_okD [OF ok0'(1)] by (auto simp: pool_ok_def weighed_def)
  then show "l2_ok budget (recompute_all_charges (rollback j inner))"
    using rb(3) ok0' charged_recompute by (simp add: l2_ok_def)
qed

section \<open>The steps of an admission\<close>

lemma nothing_undone:
  "li_bytes inner \<le> U64_MAX \<Longrightarrow> undoes P journal_default inner inner"
  by (simp add: undoes_pool_def undoes_map_def journal_default_def uncharged_def restrict_map_def)

lemma admission_steps:
  assumes ok: "l2_ok budget inner" and b: "2 * budget \<le> U64_MAX"
    and plan: "plan_segments inner key parts empty_plan = Inr p" and fits: "ap_new_bytes p \<le> budget"
    and run: "evict_to_limit budget key (pinned_by p) (release_replaced key (pinned_by p)
        (foldl reserve_segment (inner, journal_default) (ap_new_segments p))) = ((inner', j'), evs)"
  shows "pool_ok (fst ` set parts) inner'" "undoes (fst ` set parts) j' inner' inner" "key \<notin> fst ` set (li_map inner')"
    "li_bytes inner' \<le> budget \<or> li_map inner' = []"
    "\<And>d h. (d, h) \<in> set (li_segments inner') \<Longrightarrow> (bt_get (li_segments inner) ++ map_of (ap_new_segments p)) d = Some h"
    "uncharged (li_map inner') = filter (\<lambda>ke. fst ke \<notin> set (key # evicted_keys evs)) (uncharged (li_map inner))"
proof -
  have ok0: "pool_ok {} inner" "li_bytes inner \<le> budget" using ok by (simp_all add: l2_ok_def)
  have po: "plan_ok inner parts p" using plan_segments_spec [OF plan plan_ok_empty] by simp
  then have new: "distinct (map fst (ap_new_segments p))" and pins: "set (pinned_by p) = fst ` set parts"
    unfolding plan_ok_def by blast+
  have shared: "set (ap_shared p) \<subseteq> fst ` set (li_segments inner)"
  proof
    fix d assume "d \<in> set (ap_shared p)"
    then obtain h where "bt_get (li_segments inner) d = Some h" using po unfolding plan_ok_def by blast
    then show "d \<in> fst ` set (li_segments inner)" using bt_get_Some_mem by force
  qed
  have "pool_bytes (ap_new_segments p) \<le> budget" using po fits b by (auto simp: plan_ok_def min_def split: if_splits)
  then have room: "li_bytes inner + aj_reserved_bytes journal_default + pool_bytes (ap_new_segments p) \<le> U64_MAX"
    using ok0(2) b by (simp add: journal_default_def)
  have "pool_ok (set (ap_shared p)) inner" using ok0(1) shared by (auto simp: pool_ok_def)
  moreover have "undoes (set (ap_shared p)) journal_default inner inner" using ok0(2) b by (intro nothing_undone) simp
  moreover obtain i1 j1 where r1: "foldl reserve_segment (inner, journal_default) (ap_new_segments p) = (i1, j1)"
    by (cases "foldl reserve_segment (inner, journal_default) (ap_new_segments p)")
  ultimately have s1: "pool_ok (set (pinned_by p)) i1 \<and> undoes (set (pinned_by p)) j1 i1 inner \<and> li_map i1 = li_map inner \<and>
      bt_get (li_segments i1) = bt_get (li_segments inner) ++ map_of (ap_new_segments p)"
    using reserve_all_spec [OF _ _ _ new _ room r1] by (simp add: journal_default_def)
  obtain i2 j2 where r2: "release_replaced key (pinned_by p) (i1, j1) = (i2, j2)"
    by (cases "release_replaced key (pinned_by p) (i1, j1)")
  note s2 = release_replaced_spec [OF conjunct1 [OF s1] _ r2, of inner]
  have u2: "undoes (set (pinned_by p)) j2 i2 inner" and k2: "key \<notin> fst ` set (li_map i2)"
    and p2: "pool_ok (set (pinned_by p)) i2" and sub2: "set (li_segments i2) \<subseteq> set (li_segments i1)"
    and m2: "uncharged (li_map i2) = bt_remove key (uncharged (li_map inner))"
    using s2 s1 by simp_all
  have r3: "evict_to_limit budget key (pinned_by p) (i2, j2) = ((inner', j'), evs)" using run r1 r2 by simp
  note s3 = evict_to_limit_spec [OF _ r3, simplified, OF p2 [simplified]]
  have m3: "uncharged (li_map inner') = filter (\<lambda>ke. fst ke \<notin> set (evicted_keys evs)) (uncharged (li_map i2))"
    using s3 by (simp add: evicted_from_def)
  then show "uncharged (li_map inner') = filter (\<lambda>ke. fst ke \<notin> set (key # evicted_keys evs)) (uncharged (li_map inner))"
    by (simp add: m2 bt_remove_def conj_commute)
  have p3: "pool_ok (set (pinned_by p)) inner'" using s3 by simp
  then show "pool_ok (fst ` set parts) inner'" by (simp only: pins)
  have "undoes (set (pinned_by p)) j' inner' inner" using evict_to_limit_undoes [OF _ _ r3] p2 u2 by simp
  then show "undoes (fst ` set parts) j' inner' inner" by (simp only: pins)
  have "fst ` set (li_map inner') \<subseteq> fst ` set (li_map i2)"
  proof -
    have "fst ` set (uncharged (li_map inner')) \<subseteq> fst ` set (uncharged (li_map i2))" by (auto simp: m3)
    then show ?thesis by (simp add: uncharged_key_set)
  qed
  then show k3: "key \<notin> fst ` set (li_map inner')" using k2 by blast
  have "li_bytes inner' \<le> budget \<or> fst ` set (li_map inner') \<subseteq> {key}" using s3 by simp
  then show "li_bytes inner' \<le> budget \<or> li_map inner' = []" using k3 by (cases "li_map inner'") auto
  fix d h assume "(d, h) \<in> set (li_segments inner')"
  then have "(d, h) \<in> set (li_segments i1)" using evict_to_limit_pool_subset [OF _ r3] p2 sub2 by auto
  then have "bt_get (li_segments i1) d = Some h" using get_mem [OF pool_okD(3)] s1 by blast
  then show "(bt_get (li_segments inner) ++ map_of (ap_new_segments p)) d = Some h" using s1 by simp
qed

section \<open>The locked part of admit\<close>

definition new_entry :: "payload_mirror \<Rightarrow> nat \<Rightarrow> digest \<Rightarrow> l2_origin \<Rightarrow> nat \<Rightarrow> l2_entry" where
  "new_entry mirror token_count payload_digest origin clock =
     \<lparr>le_payload = mirror, le_token_count = token_count, le_payload_digest = payload_digest, le_origin = origin,
      le_last_used = clock, le_charge_bytes = 0, le_payload_bytes = mirror_byte_len mirror\<rparr>"

definition landed :: "cache_key \<Rightarrow> l2_entry \<Rightarrow> l2_inner \<Rightarrow> l2_inner" where
  "landed key e inner = recompute_all_charges (inner\<lparr>li_clock := le_last_used e, li_map := hl_put key e (li_map inner)\<rparr>)"

lemma landed_ok:
  assumes ok: "pool_ok (digests_of e) inner" and k: "key \<notin> fst ` set (li_map inner)" and b: "li_bytes inner \<le> budget"
  shows "l2_ok budget (landed key e inner)"
proof -
  have d: "distinct (map fst (li_map inner))" by (rule pool_okD(2) [OF ok])
  have "referenced (hl_put key e (li_map inner)) = referenced (li_map inner) \<union> digests_of e"
    by (simp add: referenced_put [OF d] bt_remove_absent [OF k])
  moreover have "distinct (map fst (hl_put key e (li_map inner)))" using d by (rule hl.wf_put)
  ultimately have "pool_ok {} (landed key e inner)"
    using pool_okD [OF ok] by (auto simp: landed_def pool_ok_def weighed_def)
  then show ?thesis using b charged_recompute by (simp add: l2_ok_def landed_def)
qed

text \<open>Every branch of the locked part: refused in the plan, over the budget, rolled back, or landed.\<close>

lemma admit_locked_branches:
  assumes "admit_locked key tokens digest parts mirror origin t = (r, t')"
  obtains (conflict) refusal where "plan_segments (lt_inner t) key parts empty_plan = Inl refusal" "r = Inl refusal" "t' = t"
  | (over) p where "plan_segments (lt_inner t) key parts empty_plan = Inr p" "lt_budget_bytes t < ap_new_bytes p"
      "r = Inl (OverBudget (ap_new_bytes p))" "lt_inner t' = lt_inner t" "lt_budget_bytes t' = lt_budget_bytes t"
  | (rolled) p inner j evs where "plan_segments (lt_inner t) key parts empty_plan = Inr p" "ap_new_bytes p \<le> lt_budget_bytes t"
      "evict_to_limit (lt_budget_bytes t) key (pinned_by p) (release_replaced key (pinned_by p)
        (foldl reserve_segment (lt_inner t, journal_default) (ap_new_segments p))) = ((inner, j), evs)"
      "lt_budget_bytes t < li_bytes inner" "r = Inl (ProtectedOvercommit (li_bytes inner) (lt_budget_bytes t))"
      "lt_inner t' = recompute_all_charges (rollback j inner)" "lt_budget_bytes t' = lt_budget_bytes t"
  | (admitted) p inner j evs where "plan_segments (lt_inner t) key parts empty_plan = Inr p" "ap_new_bytes p \<le> lt_budget_bytes t"
      "evict_to_limit (lt_budget_bytes t) key (pinned_by p) (release_replaced key (pinned_by p)
        (foldl reserve_segment (lt_inner t, journal_default) (ap_new_segments p))) = ((inner, j), evs)"
      "li_bytes inner \<le> lt_budget_bytes t" "r = Inr evs" "lt_budget_bytes t' = lt_budget_bytes t"
      "lt_inner t' = landed key (new_entry mirror tokens digest origin ((li_clock inner + 1) mod 2 ^ 64)) inner"
proof (cases "plan_segments (lt_inner t) key parts empty_plan")
  case (Inl refusal)
  then have "(r, t') = (Inl refusal, t)" using assms by (simp add: admit_locked_def empty_plan_def)
  then show ?thesis by (intro conflict [OF Inl]) simp_all
next
  case p: (Inr p)
  show ?thesis
  proof (cases "lt_budget_bytes t < ap_new_bytes p")
    case True
    then show ?thesis using assms p
      by (intro over [OF p]) (auto simp: admit_locked_def empty_plan_def count_refused_def with_stats_def)
  next
    case fits: False
    let ?loop = "evict_to_limit (lt_budget_bytes t) key (pinned_by p) (release_replaced key (pinned_by p)
        (foldl reserve_segment (lt_inner t, journal_default) (ap_new_segments p)))"
    obtain inner j evs where run: "?loop = ((inner, j), evs)"
      using prod.collapse [of ?loop] prod.collapse [of "fst ?loop"] by metis
    have eq: "(r, t') = (if lt_budget_bytes t < li_bytes inner then
        (Inl (ProtectedOvercommit (li_bytes inner) (lt_budget_bytes t)),
         count_refused (sat_sub (li_bytes inner) (lt_budget_bytes t))
           (with_stats (\<lambda>c. c\<lparr>ct_evictions := fetch_sub (length evs) (ct_evictions c)\<rparr>)
             ((count_evicted (length evs) t)\<lparr>lt_inner := recompute_all_charges (rollback j inner)\<rparr>)))
      else (Inr evs, with_stats (\<lambda>c. c\<lparr>ct_shared_bytes_admitted := fetch_add (ap_shared_bytes p) (ct_shared_bytes_admitted c),
                   ct_inserts := fetch_add 1 (ct_inserts c)\<rparr>)
         ((count_evicted (length evs) t)\<lparr>lt_inner :=
            landed key (new_entry mirror tokens digest origin ((li_clock inner + 1) mod 2 ^ 64)) inner\<rparr>)))"
      using assms p fits run
      by (simp add: admit_locked_def empty_plan_def landed_def new_entry_def Let_def split: if_splits)
    show ?thesis
    proof (cases "lt_budget_bytes t < li_bytes inner")
      case True
      then show ?thesis using eq fits
        by (intro rolled [OF p _ run]) (auto simp: count_refused_def with_stats_def count_evicted_def)
    next
      case False
      then show ?thesis using eq fits
        by (intro admitted [OF p _ run]) (auto simp: with_stats_def count_evicted_def)
    qed
  qed
qed

end
