(* ===== verification/L2Serving.thy ===== *)
theory L2Serving
  imports L2Transaction
begin

text \<open>
  What a hit of the L2 tier serves: the views of a layout over the pooled segments are the slices of
  the wire that was admitted; and when an admission of consistent segments succeeds.
\<close>

section \<open>Layouts that tile a wire\<close>

text \<open>\<open>parts\<close> are the contents of the segments, laid end to end from \<open>offset\<close>.\<close>

fun tiles :: "nat \<Rightarrow> (digest \<times> byte_range) list \<Rightarrow> (digest \<times> byte list) list \<Rightarrow> bool" where
  "tiles offset [] parts \<longleftrightarrow> parts = []"
| "tiles offset ((d, start, stop) # segs) parts \<longleftrightarrow>
     (\<exists>part rest. parts = (d, part) # rest \<and> start = offset \<and> stop = offset + length part \<and> tiles stop segs rest)"

lemma validate_segments_tiles:
  "validate_segments hash wire start segs = Inr (parts, stop) \<Longrightarrow> tiles start segs parts"
proof (induction hash wire start segs arbitrary: parts rule: validate_segments.induct)
  case (2 hash wire expected_start digest start stop' segs)
  then obtain rest where ok: "start = expected_start" "start \<le> stop'" "stop' \<le> length wire"
      "validate_segments hash wire stop' segs = Inr (rest, stop)" "parts = (digest, sub_list wire start stop') # rest"
      "hash (sub_list wire start stop') = digest"
    by (auto simp: Let_def res_bind_def split: if_splits sum.splits)
  have valid: "is_valid_digest digest" using 2(2) by (simp split: if_splits)
  have "tiles stop' segs rest" by (rule 2(1) [OF _ _ refl refl _ ok(4)]) (use valid ok in simp_all)
  then show ?case using ok by (simp add: sub_list_def)
qed simp

lemma validate_layout_tiles:
  "validate_layout hash mirror wire = Inr parts \<Longrightarrow> tiles 0 (la_segments (mirror_layout mirror)) parts"
  by (auto simp: validate_layout_def Let_def res_bind_def split: if_splits sum.splits dest: validate_segments_tiles)

lemma sub_list_cons: "sub_list (p @ rest) a b = sub_list p a b @ sub_list rest (a - length p) (b - length p)"
proof -
  have "b - a - (length p - a) = (b - length p) - (a - length p) \<or> length p - a = 0 \<and> b - a \<le> (b - length p) - (a - length p)
    \<or> b - a - (length p - a) = (b - length p) - (a - length p)" by arith
  then show ?thesis by (auto simp: sub_list_def)
qed

lemma sub_list_full: "sub_list xs 0 (length xs) = xs"
  by (simp add: sub_list_def)

section \<open>The view of a hit\<close>

definition view_blocks :: "(digest \<rightharpoonup> byte list) \<Rightarrow> nat \<Rightarrow> nat \<Rightarrow> (digest \<times> byte_range) list \<Rightarrow>
    (digest \<times> byte list \<times> byte_range) list" where
  "view_blocks pool start stop segs = List.map_filter (\<lambda>(digest, segment_start, segment_stop).
     let block_start = max segment_start start; block_stop = min segment_stop stop
     in if block_stop \<le> block_start then None
        else
          let storage = (case pool digest of Some h \<Rightarrow> h | None \<Rightarrow> []);
              len = length storage
          in Some (digest, storage, (min (block_start - segment_start) len, min (block_stop - segment_start) len))) segs"

lemma view_blocks_slice:
  "tiles offset segs parts \<Longrightarrow> (\<forall>(d, h) \<in> set parts. pool d = Some h) \<Longrightarrow> x \<le> y \<Longrightarrow>
   concat (map (\<lambda>(d, storage, a, b). sub_list storage a b) (view_blocks pool x y segs)) =
     sub_list (concat (map snd parts)) (x - offset) (y - offset)"
proof (induction offset segs parts rule: tiles.induct)
  case (1 offset parts)
  then show ?case by (simp add: view_blocks_def sub_list_def)
next
  case (2 offset d start stop segs parts)
  then obtain part rest where p: "parts = (d, part) # rest" "start = offset" "stop = offset + length part" "tiles stop segs rest"
    by auto
  have IH: "concat (map (\<lambda>(d, storage, a, b). sub_list storage a b) (view_blocks pool x y segs)) =
      sub_list (concat (map snd rest)) (x - stop) (y - stop)"
    using 2 p by auto
  have pool: "pool d = Some part" using 2(3) p by simp
  have "concat (map (\<lambda>(d, storage, a, b). sub_list storage a b) (view_blocks pool x y [(d, start, stop)])) =
      sub_list part (x - offset) (y - offset)"
  proof (cases "min stop y \<le> max start x")
    case True
    then have "y - offset \<le> x - offset \<or> length part \<le> x - offset" using p 2(4) by (auto simp: min_def max_def split: if_splits)
    then show ?thesis using True by (auto simp: view_blocks_def map_filter_simps sub_list_def)
  next
    case False
    then have "x < stop" by (simp add: not_le)
    then have "min (max start x - start) (length part) = x - offset" "min (min stop y - start) (length part) = min (y - offset) (length part)"
      using p(2,3) by (simp_all add: max_def min_def) arith
    moreover have "sub_list part (x - offset) (min (y - offset) (length part)) = sub_list part (x - offset) (y - offset)"
      by (auto simp: sub_list_def min_def)
    ultimately show ?thesis using False pool by (simp add: view_blocks_def map_filter_simps Let_def)
  qed
  moreover have "view_blocks pool x y ((d, start, stop) # segs) = view_blocks pool x y [(d, start, stop)] @ view_blocks pool x y segs"
    by (simp add: view_blocks_def List.map_filter_def)
  ultimately show ?case using IH p by (simp add: sub_list_cons)
qed

lemma as_cow_shared_blocks:
  assumes "concat (map (\<lambda>(d, storage, a, b). sub_list storage a b) blocks) = bytes" "length bytes = len"
  shows "as_cow (from_shared_blocks len blocks) = Inr bytes"
proof -
  let ?refs = "map (\<lambda>(hash, storage, range). \<lparr>cb_hash = hash, cb_storage = storage, cb_range = range\<rparr>) blocks"
  have slices: "concat (map block_slice ?refs) = bytes"
    unfolding assms(1) [symmetric] by (rule arg_cong [where f = concat]) (auto simp: block_slice_def)
  show ?thesis
  proof (cases "\<exists>single. ?refs = [single] \<and> fst (cb_range single) = 0 \<and> snd (cb_range single) = length (cb_storage single)")
    case True
    then obtain single where s: "?refs = [single]" "fst (cb_range single) = 0" "snd (cb_range single) = length (cb_storage single)"
      by (elim exE conjE)
    then have "bytes = cb_storage single" using slices by (simp add: block_slice_def sub_list_full)
    then show ?thesis using s by (simp add: as_cow_def from_shared_blocks_def Let_def)
  next
    case False
    then have "(case ?refs of
             [single] \<Rightarrow> if fst (cb_range single) = 0 \<and> snd (cb_range single) = length (cb_storage single)
                         then Some (cb_storage single) else None
           | _ \<Rightarrow> None) = None"
      by (auto split: list.split)
    then show ?thesis using slices assms(2) by (simp add: as_cow_def from_shared_blocks_def Let_def)
  qed
qed

text \<open>The pool of a hit holds the contents of its layout.\<close>

definition hit_holds :: "byte list \<Rightarrow> l2_hit \<Rightarrow> bool" where
  "hit_holds wire hit \<longleftrightarrow>
     (\<exists>parts. tiles 0 (la_segments (mirror_layout (ht_payload hit))) parts \<and> concat (map snd parts) = wire \<and>
       (\<forall>(d, h) \<in> set parts. ht_segments hit d = Some h) \<and> la_total_bytes (mirror_layout (ht_payload hit)) = length wire)"

lemma wire_view_slice:
  assumes h: "hit_holds wire hit" and xy: "x \<le> y" "y \<le> length wire"
  shows "as_cow (wire_view hit x y) = Inr (sub_list wire x y)"
proof -
  obtain parts where p: "tiles 0 (la_segments (mirror_layout (ht_payload hit))) parts" "concat (map snd parts) = wire"
      "\<forall>(d, h) \<in> set parts. ht_segments hit d = Some h" and t: "la_total_bytes (mirror_layout (ht_payload hit)) = length wire"
    using h unfolding hit_holds_def by blast
  have "wire_view hit x y = from_shared_blocks (y - x) (view_blocks (ht_segments hit) x y (la_segments (mirror_layout (ht_payload hit))))"
    unfolding wire_view_def view_blocks_def Let_def t
    by (simp only: min_absorb1 [OF xy(2)] min_absorb1 [OF le_trans [OF xy]])
  moreover have "concat (map (\<lambda>(d, storage, a, b). sub_list storage a b)
      (view_blocks (ht_segments hit) x y (la_segments (mirror_layout (ht_payload hit))))) = sub_list wire x y"
    using view_blocks_slice [OF p(1,3) xy(1)] p(2) by simp
  ultimately show ?thesis using as_cow_shared_blocks xy by (simp add: sub_list_def)
qed

text \<open>The wire of a payload, whatever its kind.\<close>

definition payload_bytes :: "exact_state_payload \<Rightarrow> l2_insert_refusal + byte list" where
  "payload_bytes payload = map_sum id fst (payload_wire payload)"

lemma to_payload_bytes:
  assumes h: "hit_holds wire hit"
  shows "payload_bytes (to_payload hit) = Inr wire"
proof -
  have t: "la_total_bytes (mirror_layout (ht_payload hit)) = length wire" using h by (auto simp: hit_holds_def)
  define n where "n = min (la_kv_bytes (mirror_layout (ht_payload hit))) (length wire)"
  have views: "as_cow (wire_view hit 0 (length wire)) = Inr wire" "as_cow (wire_view hit 0 n) = Inr (take n wire)"
    "as_cow (wire_view hit n (length wire)) = Inr (drop n wire)"
    using wire_view_slice [OF h, of 0 "length wire"] wire_view_slice [OF h, of 0 n] wire_view_slice [OF h, of n "length wire"]
    by (simp_all add: n_def sub_list_def)
  show ?thesis
    by (cases "mirror_kind (ht_payload hit)")
      (simp_all add: to_payload_def payload_bytes_def payload_wire_def t views Let_def res_bind_def flip: n_def)
qed

section \<open>When an admission succeeds\<close>

text \<open>No digest stands for two contents: neither among the offered segments nor with the pool.\<close>

definition consistent :: "l2_inner \<Rightarrow> (digest \<times> byte list) list \<Rightarrow> bool" where
  "consistent inner parts \<longleftrightarrow>
     (\<forall>(d, h) \<in> set parts. (\<forall>h'. bt_get (li_segments inner) d = Some h' \<longrightarrow> h' = h) \<and>
        (\<forall>(d', h') \<in> set parts. d' = d \<longrightarrow> h' = h))"

definition distinct_bytes :: "(digest \<times> byte list) list \<Rightarrow> nat" where
  "distinct_bytes parts = pool_bytes (remdups parts)"

lemma plan_segments_total:
  "(\<forall>(d, h) \<in> set parts. \<forall>h'. bt_get (li_segments inner) d = Some h' \<longrightarrow> h' = h) \<Longrightarrow>
   \<exists>p'. plan_segments inner key parts p = Inr p'"
proof (induction parts arbitrary: p)
  case (Cons x parts)
  obtain d part where x: "x = (d, part)" by fastforce
  have "\<exists>p'. plan_segments inner key parts p1 = Inr p'" for p1 using Cons by simp
  then show ?case using Cons.prems x by (cases "bt_get (li_segments inner) d") (simp_all add: Let_def)
qed simp

lemma pool_bytes_mono:
  assumes "distinct segs" "distinct segs'" "set segs \<subseteq> set segs'"
  shows "pool_bytes segs \<le> pool_bytes segs'"
proof -
  have "pool_bytes xs = (\<Sum>s \<in> set xs. length (snd s))" if "distinct xs" for xs :: "(digest \<times> byte list) list"
    using that by (simp add: pool_bytes_def sum_list_distinct_conv_sum_set)
  then show ?thesis using assms by (simp add: sum_mono2)
qed

text \<open>The pinned segments are in the pool, with the offered contents, when the eviction loop stops.\<close>

lemma pinned_contents:
  assumes ok: "l2_ok budget inner" and b: "2 * budget \<le> U64_MAX"
    and plan: "plan_segments inner key parts empty_plan = Inr p" and fits: "ap_new_bytes p \<le> budget"
    and run: "evict_to_limit budget key (pinned_by p) (release_replaced key (pinned_by p)
        (foldl reserve_segment (inner, journal_default) (ap_new_segments p))) = ((inner', j'), evs)"
    and cons: "consistent inner parts"
  shows "set parts \<subseteq> set (li_segments inner')"
    "\<And>d h. (d, h) \<in> set (li_segments inner') \<Longrightarrow> (d, h) \<in> set parts \<or> (d, h) \<in> set (li_segments inner)"
proof -
  note steps = admission_steps [OF ok b plan fits run]
  have po: "plan_ok inner parts p" using plan_segments_spec [OF plan plan_ok_empty] by simp
  have new: "map_of (ap_new_segments p) d = Some h \<Longrightarrow> (d, h) \<in> set parts" for d h
    using po map_of_SomeD [of "ap_new_segments p" d h] by (auto simp: plan_ok_def)
  show sub: "(d, h) \<in> set (li_segments inner') \<Longrightarrow> (d, h) \<in> set parts \<or> (d, h) \<in> set (li_segments inner)" for d h
    using steps(5) [of d h] new bt_get_Some_mem by (fastforce simp: map_add_Some_iff)
  show "set parts \<subseteq> set (li_segments inner')"
  proof
    fix x assume x: "x \<in> set parts"
    obtain d h where xd: "x = (d, h)" by fastforce
    have "d \<in> fst ` set (li_segments inner')" using pool_okD(5) [OF steps(1)] x xd by force
    then obtain h' where h': "(d, h') \<in> set (li_segments inner')" by force
    then have "h' = h" using sub [OF h'] cons x xd pool_okD(3) [of "{}" inner] ok
      by (auto simp: consistent_def get_mem l2_ok_def)
    then show "x \<in> set (li_segments inner')" using h' xd by simp
  qed
qed

theorem admit_locked_exact:
  assumes ok: "l2_ok (lt_budget_bytes t) (lt_inner t)" and b: "2 * lt_budget_bytes t \<le> U64_MAX"
    and cons: "consistent (lt_inner t) parts"
  shows "(\<exists>evs. fst (admit_locked key tokens digest parts mirror origin t) = Inr evs) \<longleftrightarrow>
    distinct_bytes parts \<le> lt_budget_bytes t"
proof -
  let ?budget = "lt_budget_bytes t"
  obtain r t' where r: "admit_locked key tokens digest parts mirror origin t = (r, t')"
    by (cases "admit_locked key tokens digest parts mirror origin t")
  have fits_pool: "\<forall>(d, h) \<in> set parts. \<forall>h'. bt_get (li_segments (lt_inner t)) d = Some h' \<longrightarrow> h' = h"
    using cons unfolding consistent_def by fast
  obtain p where p: "plan_segments (lt_inner t) key parts empty_plan = Inr p"
    using plan_segments_total [OF fits_pool] by blast
  have po: "plan_ok (lt_inner t) parts p" using plan_segments_spec [OF p plan_ok_empty] by simp
  have over: "ap_new_bytes p \<le> distinct_bytes parts"
  proof -
    have "distinct (ap_new_segments p)" "set (ap_new_segments p) \<subseteq> set (remdups parts)"
      using po by (auto simp: plan_ok_def distinct_map)
    then have "pool_bytes (ap_new_segments p) \<le> distinct_bytes parts"
      unfolding distinct_bytes_def by (intro pool_bytes_mono) auto
    then show ?thesis using po by (simp add: plan_ok_def min_def)
  qed
  have weights: "distinct_bytes parts \<le> li_bytes inner \<and> (li_bytes inner \<le> ?budget \<or> li_bytes inner = distinct_bytes parts)"
    if fits: "ap_new_bytes p \<le> ?budget" and run: "evict_to_limit ?budget key (pinned_by p) (release_replaced key (pinned_by p)
        (foldl reserve_segment (lt_inner t, journal_default) (ap_new_segments p))) = ((inner, j), evs)" for inner j evs
  proof -
    note steps = admission_steps [OF ok b p fits run]
    note d = pool_okD(3) [OF steps(1)]
    have sub: "set parts \<subseteq> set (li_segments inner)" by (rule pinned_contents(1) [OF ok b p fits run cons])
    have le: "distinct_bytes parts \<le> li_bytes inner"
      unfolding pool_okD(4) [OF steps(1)] distinct_bytes_def using sub d by (intro pool_bytes_mono) (auto simp: distinct_map)
    have "li_bytes inner \<le> distinct_bytes parts" if "li_map inner = []"
    proof -
      have keys: "fst ` set (li_segments inner) = fst ` set parts" using pool_okD(5) [OF steps(1)] that by simp
      have "set (li_segments inner) \<subseteq> set parts"
      proof
        fix x assume x: "x \<in> set (li_segments inner)"
        then obtain y where y: "y \<in> set parts" "fst y = fst x" using keys by force
        have "y \<in> set (li_segments inner)" using sub y(1) by blast
        then have "bt_get (li_segments inner) (fst y) = Some (snd y)" "bt_get (li_segments inner) (fst x) = Some (snd x)"
          using x by (simp_all flip: get_mem [OF d])
        then have "x = y" using y(2) by (simp add: prod_eq_iff)
        then show "x \<in> set parts" using y by simp
      qed
      then show ?thesis unfolding pool_okD(4) [OF steps(1)] distinct_bytes_def
        using d by (intro pool_bytes_mono) (auto simp: distinct_map)
    qed
    then show ?thesis using le steps(4) by auto
  qed
  from r show ?thesis
  proof (cases rule: admit_locked_branches)
    case conflict
    then show ?thesis using p by simp
  next
    case (over p')
    then show ?thesis using r p \<open>ap_new_bytes p \<le> distinct_bytes parts\<close> by simp
  next
    case (rolled p' inner j evs)
    then show ?thesis using r p weights [of inner j evs] by simp
  next
    case (admitted p' inner j evs)
    then show ?thesis using r p weights [of inner j evs] by simp
  qed
qed

end
