(* ===== verification/L2Runs.thy ===== *)
theory L2Runs
  imports L2Serving
begin

text \<open>
  Runs of the L2 tier: any sequence of its operations, with a record of the last admission at every
  key. The accounting holds after every operation, and every entry still stands for the last wire
  admitted at its key.
\<close>

section \<open>The operations\<close>

record admission =
  ad_token_count :: nat
  ad_digest :: digest
  ad_mirror :: payload_mirror
  ad_wire :: "byte list"

datatype l2_op =
    OpAdmit cache_key nat digest "byte list" payload_mirror l2_origin
  | OpGet cache_key
  | OpRemove cache_key
  | OpRemoveDigest digest
  | OpShrink nat
  | OpClear

type_synonym admissions = "cache_key \<rightharpoonup> admission"

fun l2_step :: "(byte list \<Rightarrow> digest) \<Rightarrow> l2_op \<Rightarrow> l2_tier \<times> admissions \<Rightarrow> l2_tier \<times> admissions" where
  "l2_step hash (OpAdmit key tokens digest wire mirror origin) (t, g) =
     (case admit hash key tokens digest wire mirror origin t of
        (Inl refusal, t') \<Rightarrow> (t', g)
      | (Inr evictions, t') \<Rightarrow>
          (t', g(key \<mapsto> \<lparr>ad_token_count = tokens, ad_digest = digest, ad_mirror = mirror, ad_wire = wire\<rparr>)))"
| "l2_step hash (OpGet key) (t, g) = (snd (l2_get key t), g)"
| "l2_step hash (OpRemove key) (t, g) = (snd (l2_remove key t), g)"
| "l2_step hash (OpRemoveDigest digest) (t, g) = (snd (remove_by_digest digest t), g)"
| "l2_step hash (OpShrink target) (t, g) = (snd (shrink_to target t), g)"
| "l2_step hash OpClear (t, g) = (snd (clear t), g)"

definition l2_run :: "(byte list \<Rightarrow> digest) \<Rightarrow> nat \<Rightarrow> l2_op list \<Rightarrow> l2_tier \<times> admissions" where
  "l2_run hash budget ops = foldl (\<lambda>s op. l2_step hash op s) (tier_new budget, Map.empty) ops"

section \<open>Entries and segments that only go\<close>

text \<open>What an entry serves, without its recency and its charge.\<close>

definition serves :: "l2_entry \<Rightarrow> payload_mirror \<times> nat \<times> digest" where
  "serves e = (le_payload e, le_token_count e, le_payload_digest e)"

lemma serves_uncharged [simp]: "serves (e\<lparr>le_charge_bytes := c\<rparr>) = serves e"
  by (simp add: serves_def)

definition served :: "l2_inner \<Rightarrow> (cache_key \<times> payload_mirror \<times> nat \<times> digest) set" where
  "served inner = (\<lambda>ke. (fst ke, serves (snd ke))) ` set (li_map inner)"

definition shrinks :: "l2_inner \<Rightarrow> l2_inner \<Rightarrow> bool" where
  "shrinks inner inner' \<longleftrightarrow> served inner' \<subseteq> served inner \<and> set (li_segments inner') \<subseteq> set (li_segments inner)"

lemma shrinks_refl [simp]: "shrinks inner inner"
  by (simp add: shrinks_def)

lemma shrinks_trans: "shrinks a b \<Longrightarrow> shrinks b c \<Longrightarrow> shrinks a c"
  by (auto simp: shrinks_def)

lemma served_uncharged: "served inner = (\<lambda>ke. (fst ke, serves (snd ke))) ` set (uncharged (li_map inner))"
  by (simp add: served_def uncharged_def serves_def image_image)

lemma served_subset: "set (uncharged (li_map a)) \<subseteq> set (uncharged (li_map b)) \<Longrightarrow> served a \<subseteq> served b"
  unfolding served_uncharged by (rule image_mono)

lemma shrinks_same_state:
  assumes "same_state a b" "distinct (map fst (li_map a))" "distinct (map fst (li_map b))"
    "distinct (map fst (li_segments a))" "distinct (map fst (li_segments b))"
  shows "shrinks b a"
  using set_eq_of_get_eq [OF assms(2,3)] set_eq_of_get_eq [OF assms(4,5)] assms(1)
  by (simp add: shrinks_def served_def same_state_def)

section \<open>The operations that remove\<close>

text \<open>An operation on the tables is safe when it keeps the accounting and adds nothing.\<close>

definition safe :: "nat \<Rightarrow> l2_inner \<Rightarrow> l2_inner \<Rightarrow> bool" where
  "safe budget inner inner' \<longleftrightarrow> l2_ok budget inner' \<and> shrinks inner inner'"

lemma safe_refl: "l2_ok budget inner \<Longrightarrow> safe budget inner inner"
  by (simp add: safe_def)

lemma safe_trans: "safe budget a b \<Longrightarrow> safe budget b c \<Longrightarrow> safe budget a c"
  using shrinks_trans by (auto simp: safe_def)

lemma release_dropped_safe:
  assumes ok: "l2_ok budget inner" and e: "bt_get (li_map inner) key = Some e"
  shows "safe budget inner (release_entry_segments (without_entry key inner) e [])"
proof -
  obtain inner' j' where r: "release_digests [] (segment_digests (le_payload e)) (without_entry key inner, journal_default) = (inner', j')"
    by (cases "release_digests [] (segment_digests (le_payload e)) (without_entry key inner, journal_default)")
  then have i: "release_entry_segments (without_entry key inner) e [] = inner'" by (simp add: release_entry_segments_def)
  have p: "pool_ok (set []) inner" using ok by (simp add: l2_ok_def)
  note dropped = release_dropped [OF p e r]
  have "inner' = with_pool (without_entry key inner) (released [] (li_map (without_entry key inner)) (digests_of e) (li_segments inner))"
    using release_digests_pool [OF weighed_without_entry [OF pool_okD(1) [OF p]], of "[]" "segment_digests (le_payload e)" key journal_default] r
    by (simp add: digests_of_def)
  then have "set (li_segments inner') \<subseteq> set (li_segments inner)" by (auto simp: released_def)
  moreover have "served inner' \<subseteq> served inner" by (rule served_subset) (auto simp: dropped(3))
  ultimately show ?thesis using dropped ok unfolding i safe_def l2_ok_def shrinks_def by simp
qed

lemma remove_entry_safe: "l2_ok budget inner \<Longrightarrow> safe budget inner (snd (remove_entry key inner))"
  using release_dropped_safe [of budget inner key]
  by (auto simp: remove_entry_def without_entry_def Let_def safe_refl split: option.split)

lemma remove_entries_safe: "l2_ok budget inner \<Longrightarrow> safe budget inner (snd (remove_entries keys inner))"
proof (induction keys arbitrary: inner)
  case (Cons key keys)
  obtain r inner1 where r: "remove_entry key inner = (r, inner1)" by (cases "remove_entry key inner")
  have s1: "safe budget inner inner1" using remove_entry_safe [OF Cons.prems, of key] r by simp
  then have "safe budget inner1 (snd (remove_entries keys inner1))" using Cons.IH by (simp add: safe_def)
  then show ?case using safe_trans [OF s1] r by (auto split: option.split prod.split)
qed (simp add: safe_refl)

lemma evicted_safe:
  assumes ok: "l2_ok budget inner" and r: "evict_to_limit limit key [] (inner, j) = ((inner', j'), evs)"
  shows "safe budget inner inner'"
proof -
  have p: "pool_ok (set []) (fst (inner, j))" using ok by (simp add: l2_ok_def)
  note spec = evict_to_limit_spec [OF p r, simplified]
  have "served inner' \<subseteq> served inner" using spec by (intro served_subset) (auto simp: evicted_from_def)
  then show ?thesis
    using spec ok evict_to_limit_pool_subset [OF p r] by (simp add: safe_def l2_ok_def shrinks_def evicted_from_def)
qed

section \<open>Reads\<close>

lemma entry_digests_pooled:
  assumes "l2_ok budget inner" "bt_get (li_map inner) key = Some e"
  shows "d \<in> digests_of e \<Longrightarrow> bt_get (li_segments inner) d \<noteq> None"
proof -
  assume "d \<in> digests_of e"
  then have "d \<in> referenced (li_map inner)" using bt_get_Some_mem [OF assms(2)] by (auto simp: referenced_iff)
  then have "d \<in> fst ` set (li_segments inner)" using assms(1) by (simp add: l2_ok_def pool_ok_def)
  then show ?thesis by (auto simp: bt_get_None_iff)
qed

definition touched :: "cache_key \<Rightarrow> l2_inner \<Rightarrow> l2_inner" where
  "touched key inner = inner\<lparr>li_clock := (li_clock inner + 1) mod 2 ^ 64,
     li_map := bt_modify key (le_last_used_update (\<lambda>_. (li_clock inner + 1) mod 2 ^ 64)) (li_map inner)\<rparr>"

definition hit_of :: "l2_inner \<Rightarrow> l2_entry \<Rightarrow> l2_hit" where
  "hit_of inner e = \<lparr>ht_payload = le_payload e, ht_token_count = le_token_count e, ht_payload_digest = le_payload_digest e,
     ht_segments = (\<lambda>d. if d \<in> digests_of e then bt_get (li_segments inner) d else None)\<rparr>"

text \<open>With the accounting intact a read hits exactly the entries of the map; the repair path of \<open>get\<close> is dead.\<close>

lemma l2_get_ok:
  assumes ok: "l2_ok budget (lt_inner t)"
  shows "l2_get key t =
    (case bt_get (li_map (lt_inner t)) key of
       None \<Rightarrow> (None, count_miss t)
     | Some e \<Rightarrow> (Some (hit_of (lt_inner t) e),
         with_stats (\<lambda>c. c\<lparr>ct_hits := fetch_add 1 (ct_hits c)\<rparr>) (t\<lparr>lt_inner := touched key (lt_inner t)\<rparr>)))"
proof (cases "bt_get (li_map (lt_inner t)) key")
  case (Some e)
  then have "\<not> list_ex (\<lambda>d. bt_get (li_segments (lt_inner t)) d = None) (segment_digests (le_payload e))"
    using entry_digests_pooled [OF ok Some] by (auto simp: list_ex_iff digests_of_def)
  then show ?thesis using Some by (simp add: l2_get_def hit_of_def touched_def digests_of_def Let_def)
qed (simp add: l2_get_def)

lemma touched_safe:
  assumes ok: "l2_ok budget inner"
  shows "safe budget inner (touched key inner)"
proof -
  define now where "now = (li_clock inner + 1) mod 2 ^ 64"
  let ?f = "le_last_used_update (\<lambda>_. now)"
  let ?m = "bt_modify key ?f (li_map inner)"
  have touched: "touched key inner = inner\<lparr>li_clock := now, li_map := ?m\<rparr>" by (simp add: touched_def now_def)
  have map_eq: "(\<lambda>ke. (fst ke, g (snd ke))) ` set ?m = (\<lambda>ke. (fst ke, g (snd ke))) ` set (li_map inner)"
    if "\<And>e. g (?f e) = g e" for g :: "l2_entry \<Rightarrow> 'z"
    unfolding bt_modify_def set_map image_image by (rule image_cong) (auto simp: that)
  have "(\<lambda>ke. (fst ke, digests_of (snd ke))) ` set ?m = (\<lambda>ke. (fst ke, digests_of (snd ke))) ` set (li_map inner)"
    by (rule map_eq) (simp add: digests_of_def)
  moreover have by_image: "(\<exists>e. (k, e) \<in> set m \<and> d \<in> digests_of e) \<longleftrightarrow>
      (\<exists>D. (k, D) \<in> (\<lambda>ke. (fst ke, digests_of (snd ke))) ` set m \<and> d \<in> D)" for k d and m :: "(cache_key \<times> l2_entry) list"
    by force
  ultimately have dig: "(\<exists>e. (k, e) \<in> set ?m \<and> d \<in> digests_of e) \<longleftrightarrow> (\<exists>e. (k, e) \<in> set (li_map inner) \<and> d \<in> digests_of e)" for k d
    unfolding by_image by simp
  then have ref: "referenced ?m = referenced (li_map inner)" by (auto simp: referenced_iff)
  have "segment_owner ?m = segment_owner (li_map inner)" using dig by (intro ext segment_owner_cong) simp
  then have owned: "owned_bytes (touched key inner) = owned_bytes inner" by (simp add: fun_eq_iff owned_bytes_def touched)
  have "charged (touched key inner)"
    using ok unfolding charged_def owned by (auto simp: touched bt_modify_def l2_ok_def charged_def split: if_splits)
  moreover have "pool_ok {} (touched key inner)"
    using ok ref by (simp add: l2_ok_def pool_ok_def weighed_def touched)
  moreover have "served (touched key inner) = served inner"
    using map_eq [of serves] by (simp add: served_def touched serves_def)
  ultimately show ?thesis using ok by (simp add: safe_def l2_ok_def shrinks_def touched)
qed

section \<open>Admissions\<close>

lemma admit_early:
  assumes "admit hash key tokens digest wire mirror origin t = (r, t')"
  obtains (refused) refusal where "r = Inl refusal" "lt_inner t' = lt_inner t" "lt_budget_bytes t' = lt_budget_bytes t"
  | (locked) parts where "is_valid_digest digest" "hash wire = digest" "validate_layout hash mirror wire = Inr parts"
      "admit_locked key tokens digest parts mirror origin t = (r, t')"
proof (cases "is_valid_digest digest \<and> hash wire = digest \<and> mirror_byte_len mirror \<noteq> 0 \<and> mirror_byte_len mirror = length wire")
  case True
  show ?thesis
  proof (cases "validate_layout hash mirror wire")
    case (Inl refusal)
    then show ?thesis using assms True by (intro refused [of refusal]) (auto simp: admit_def Let_def)
  next
    case (Inr parts)
    then show ?thesis using assms True by (intro locked [of parts]) (auto simp: admit_def Let_def)
  qed
next
  case False
  then show ?thesis using assms refused
    by (auto simp: admit_def Let_def count_reject_def with_stats_def split: if_splits)
qed

lemma admit_locked_refused:
  assumes ok: "l2_ok (lt_budget_bytes t) (lt_inner t)" and b: "2 * lt_budget_bytes t \<le> U64_MAX"
    and r: "admit_locked key tokens digest parts mirror origin t = (Inl refusal, t')"
  shows "same_state (lt_inner t') (lt_inner t)" "l2_ok (lt_budget_bytes t) (lt_inner t')" "lt_budget_bytes t' = lt_budget_bytes t"
proof -
  from r have "same_state (lt_inner t') (lt_inner t) \<and> l2_ok (lt_budget_bytes t) (lt_inner t') \<and> lt_budget_bytes t' = lt_budget_bytes t"
  proof (cases rule: admit_locked_branches)
    case (rolled p inner j evs)
    note steps = admission_steps [OF ok b rolled(1,2,3)]
    show ?thesis using rolled_back_same [OF steps(1,2) ok] rolled by simp
  qed (use ok in simp_all)
  then show "same_state (lt_inner t') (lt_inner t)" "l2_ok (lt_budget_bytes t) (lt_inner t')" "lt_budget_bytes t' = lt_budget_bytes t"
    by blast+
qed

lemma digests_of_new_entry:
  "map fst parts = map fst (la_segments (mirror_layout mirror)) \<Longrightarrow>
   digests_of (new_entry mirror tokens digest origin clock) = fst ` set parts"
  by (metis digests_of_def new_entry_def l2_entry.select_convs(1) list.set_map set_segment_digests)

lemma admit_locked_admitted:
  assumes ok: "l2_ok (lt_budget_bytes t) (lt_inner t)" and b: "2 * lt_budget_bytes t \<le> U64_MAX"
    and parts: "map fst parts = map fst (la_segments (mirror_layout mirror))"
    and r: "admit_locked key tokens digest parts mirror origin t = (Inr evs, t')"
  shows "l2_ok (lt_budget_bytes t) (lt_inner t')" "lt_budget_bytes t' = lt_budget_bytes t"
    "set (li_segments (lt_inner t')) \<subseteq> set parts \<union> set (li_segments (lt_inner t))"
    "served (lt_inner t') \<subseteq> {s \<in> served (lt_inner t). fst s \<noteq> key} \<union> {(key, mirror, tokens, digest)}"
    "\<exists>e. bt_get (li_map (lt_inner t')) key = Some e \<and> serves e = (mirror, tokens, digest)"
proof -
  from r obtain p inner j where a: "plan_segments (lt_inner t) key parts empty_plan = Inr p" "ap_new_bytes p \<le> lt_budget_bytes t"
      "evict_to_limit (lt_budget_bytes t) key (pinned_by p) (release_replaced key (pinned_by p)
        (foldl reserve_segment (lt_inner t, journal_default) (ap_new_segments p))) = ((inner, j), evs)"
      "li_bytes inner \<le> lt_budget_bytes t" "lt_budget_bytes t' = lt_budget_bytes t"
      "lt_inner t' = landed key (new_entry mirror tokens digest origin ((li_clock inner + 1) mod 2 ^ 64)) inner"
    by (cases rule: admit_locked_branches) auto
  define e where "e = new_entry mirror tokens digest origin ((li_clock inner + 1) mod 2 ^ 64)"
  have e_serves: "serves e = (mirror, tokens, digest)" by (simp add: e_def serves_def new_entry_def)
  note steps = admission_steps [OF ok b a(1,2,3)]
  have e_digests: "digests_of e = fst ` set parts" unfolding e_def by (rule digests_of_new_entry [OF parts])
  show "l2_ok (lt_budget_bytes t) (lt_inner t')"
    unfolding a(6) e_def [symmetric] by (rule landed_ok [OF _ steps(3) a(4)]) (simp only: e_digests steps(1))
  show "lt_budget_bytes t' = lt_budget_bytes t" by (rule a(5))
  have po: "plan_ok (lt_inner t) parts p" using plan_segments_spec [OF a(1) plan_ok_empty] by simp
  show "set (li_segments (lt_inner t')) \<subseteq> set parts \<union> set (li_segments (lt_inner t))"
  proof
    fix x assume x: "x \<in> set (li_segments (lt_inner t'))"
    obtain d h where xd: "x = (d, h)" by fastforce
    have "(d, h) \<in> set (li_segments inner)" using x xd by (simp add: a(6) landed_def)
    from steps(5) [OF this] have "map_of (ap_new_segments p) d = Some h \<or> bt_get (li_segments (lt_inner t)) d = Some h"
      by (auto simp: map_add_Some_iff)
    then have "(d, h) \<in> set (ap_new_segments p) \<or> (d, h) \<in> set (li_segments (lt_inner t))"
      using map_of_SomeD bt_get_Some_mem by fast
    then show "x \<in> set parts \<union> set (li_segments (lt_inner t))" using po xd unfolding plan_ok_def by blast
  qed
  have get: "bt_get (uncharged (li_map (lt_inner t'))) = (bt_get (uncharged (li_map inner)))(key \<mapsto> uncharged_entry e)"
    unfolding a(6) e_def [symmetric] landed_def by (simp add: uncharged_put hl_get_put)
  then have "bt_get (uncharged (li_map (lt_inner t'))) key = Some (uncharged_entry e)" by simp
  then show "\<exists>e. bt_get (li_map (lt_inner t')) key = Some e \<and> serves e = (mirror, tokens, digest)"
    using e_serves by (auto simp: uncharged_get dest!: arg_cong [where f = serves])
  show "served (lt_inner t') \<subseteq> {s \<in> served (lt_inner t). fst s \<noteq> key} \<union> {(key, mirror, tokens, digest)}"
  proof
    fix s assume "s \<in> served (lt_inner t')"
    then obtain k e' where s: "s = (k, serves e')" and mem: "(k, e') \<in> set (uncharged (li_map (lt_inner t')))"
      by (auto simp: served_uncharged)
    have "distinct (map fst (li_map (lt_inner t')))"
      using \<open>l2_ok (lt_budget_bytes t) (lt_inner t')\<close> pool_okD(2) by (auto simp: l2_ok_def)
    then have got: "bt_get (uncharged (li_map (lt_inner t'))) k = Some e'" using mem by (simp flip: get_mem)
    show "s \<in> {s \<in> served (lt_inner t). fst s \<noteq> key} \<union> {(key, mirror, tokens, digest)}"
    proof (cases "k = key")
      case True
      then have "serves e' = (mirror, tokens, digest)" using got get e_serves by (auto simp: serves_def)
      then show ?thesis using s True by simp
    next
      case False
      then have "(k, e') \<in> set (uncharged (li_map inner))" using got get bt_get_Some_mem by fastforce
      then have "(k, e') \<in> set (uncharged (li_map (lt_inner t)))" by (simp add: steps(6))
      then have "s \<in> served (lt_inner t)" unfolding s served_uncharged by force
      then show ?thesis using s False by simp
    qed
  qed
qed

section \<open>The slices of the admitted wires\<close>

definition slices :: "byte list set \<Rightarrow> byte list set" where
  "slices wires = {sub_list w i j | w i j. w \<in> wires}"

lemma validated_slices:
  "validate_segments hash wire start segs = Inr (parts, stop) \<Longrightarrow> (d, h) \<in> set parts \<Longrightarrow> \<exists>i j. h = sub_list wire i j"
proof (induction hash wire start segs arbitrary: parts rule: validate_segments.induct)
  case (2 hash wire expected_start digest start stop' segs)
  then obtain rest where ok: "start = expected_start" "start \<le> stop'" "stop' \<le> length wire"
      "validate_segments hash wire stop' segs = Inr (rest, stop)" "parts = (digest, sub_list wire start stop') # rest"
      "hash (sub_list wire start stop') = digest"
    by (auto simp: Let_def res_bind_def split: if_splits sum.splits)
  have valid: "is_valid_digest digest" using 2(2) by (simp split: if_splits)
  show ?case
  proof (cases "(d, h) \<in> set rest")
    case True
    show ?thesis by (rule 2(1) [OF _ _ refl refl _ ok(4) True]) (use valid ok in simp_all)
  next
    case False
    then show ?thesis using 2(3) ok(5) by auto
  qed
qed simp

fun op_wires :: "l2_op \<Rightarrow> byte list set" where
  "op_wires (OpAdmit key tokens digest wire mirror origin) = {wire}"
| "op_wires _ = {}"

definition offered :: "l2_op list \<Rightarrow> byte list set" where
  "offered ops = slices (\<Union>op \<in> set ops. op_wires op)"

end
