(* ===== verification/L2Contents.thy ===== *)
theory L2Contents
  imports L2Runs
begin

text \<open>
  The two invariants of the runs of the L2 tier, the accounting and the contents, and the payloads that
  are cut into chunks by \<open>admit_payload\<close>.
\<close>

section \<open>The accounting of a run\<close>

lemma admit_keeps_accounting:
  assumes ok: "l2_ok (lt_budget_bytes t) (lt_inner t)" and b: "2 * lt_budget_bytes t \<le> U64_MAX"
    and r: "admit hash key tokens digest wire mirror origin t = (r, t')"
  shows "l2_ok (lt_budget_bytes t) (lt_inner t') \<and> lt_budget_bytes t' = lt_budget_bytes t"
  using r
proof (cases rule: admit_early)
  case (locked parts)
  then show ?thesis
    using admit_locked_refused [OF ok b, of key tokens digest parts mirror origin _ t']
      admit_locked_admitted [OF ok b validate_layout_spec(1) [OF locked(3)], of key tokens digest origin _ t']
    by (cases r) simp_all
qed (use ok in simp)

lemma shrink_to_run:
  obtains inner' j' evs where "evict_to_limit (min target (lt_budget_bytes t)) [] [] (lt_inner t, journal_default) = ((inner', j'), evs)"
    "fst (shrink_to target t) = evs" "lt_inner (snd (shrink_to target t)) = inner'"
    "lt_budget_bytes (snd (shrink_to target t)) = lt_budget_bytes t"
proof -
  let ?loop = "evict_to_limit (min target (lt_budget_bytes t)) [] [] (lt_inner t, journal_default)"
  obtain inner' j' evs where run: "?loop = ((inner', j'), evs)"
    using prod.collapse [of ?loop] prod.collapse [of "fst ?loop"] by metis
  then show ?thesis by (intro that [OF run]) (simp_all add: shrink_to_def count_evicted_def with_stats_def)
qed

lemma removal_safe:
  assumes ok: "l2_ok (lt_budget_bytes t) (lt_inner t)" and op: "\<forall>key tokens digest wire mirror origin. op \<noteq> OpAdmit key tokens digest wire mirror origin"
  shows "safe (lt_budget_bytes t) (lt_inner t) (lt_inner (fst (l2_step hash op (t, g))))"
    "lt_budget_bytes (fst (l2_step hash op (t, g))) = lt_budget_bytes t" "snd (l2_step hash op (t, g)) = g"
proof -
  have "safe (lt_budget_bytes t) (lt_inner t) (lt_inner (fst (l2_step hash op (t, g)))) \<and>
    lt_budget_bytes (fst (l2_step hash op (t, g))) = lt_budget_bytes t \<and> snd (l2_step hash op (t, g)) = g"
  proof (cases op)
    case (OpGet key)
    then show ?thesis using touched_safe [OF ok] safe_refl [OF ok]
      by (auto simp: l2_get_ok [OF ok] count_miss_def with_stats_def split: option.split)
  next
    case (OpRemove key)
    then show ?thesis using remove_entry_safe [OF ok, of key] by (cases "remove_entry key (lt_inner t)") (simp add: l2_remove_def)
  next
    case (OpRemoveDigest digest)
    let ?keys = "map fst (filter (\<lambda>(k, e). le_payload_digest e = digest) (li_map (lt_inner t)))"
    show ?thesis using OpRemoveDigest remove_entries_safe [OF ok, of ?keys]
      by (cases "remove_entries ?keys (lt_inner t)") (simp add: remove_by_digest_def)
  next
    case (OpShrink target)
    show ?thesis
      by (rule shrink_to_run [of target t]) (use evicted_safe [OF ok] OpShrink in auto)
  next
    case OpClear
    then show ?thesis
      by (simp add: clear_def safe_def l2_ok_def pool_ok_def weighed_def charged_def shrinks_def served_def)
  qed (use op in simp)
  then show "safe (lt_budget_bytes t) (lt_inner t) (lt_inner (fst (l2_step hash op (t, g))))"
    "lt_budget_bytes (fst (l2_step hash op (t, g))) = lt_budget_bytes t" "snd (l2_step hash op (t, g)) = g" by blast+
qed

lemma l2_step_accounting:
  assumes "l2_ok (lt_budget_bytes t) (lt_inner t)" "2 * lt_budget_bytes t \<le> U64_MAX" "l2_step hash op (t, g) = (t', g')"
  shows "l2_ok (lt_budget_bytes t) (lt_inner t') \<and> lt_budget_bytes t' = lt_budget_bytes t"
proof (cases "\<exists>key tokens digest wire mirror origin. op = OpAdmit key tokens digest wire mirror origin")
  case True
  then obtain key tokens digest wire mirror origin where op: "op = OpAdmit key tokens digest wire mirror origin" by blast
  obtain r t1 where r: "admit hash key tokens digest wire mirror origin t = (r, t1)" by fastforce
  then have "t' = t1" using assms(3) op by (auto split: sum.splits)
  then show ?thesis using admit_keeps_accounting [OF assms(1,2) r] by simp
next
  case False
  then show ?thesis using removal_safe [OF assms(1), of op hash g] assms(3) by (simp add: safe_def)
qed

lemma l2_run_snoc: "l2_run hash budget (ops @ [op]) = l2_step hash op (l2_run hash budget ops)"
  by (simp add: l2_run_def)

lemma tier_new_ok: "l2_ok budget (lt_inner (tier_new budget)) \<and> lt_budget_bytes (tier_new budget) = budget"
  by (simp add: tier_new_def l2_ok_def pool_ok_def weighed_def charged_def)

theorem l2_run_accounting:
  assumes "2 * budget \<le> U64_MAX" "l2_run hash budget ops = (t, g)"
  shows "l2_ok budget (lt_inner t) \<and> lt_budget_bytes t = budget"
  using assms(2)
proof (induction ops arbitrary: t g rule: rev_induct)
  case Nil
  then show ?case using tier_new_ok by (auto simp: l2_run_def)
next
  case (snoc op ops)
  obtain t0 g0 where r: "l2_run hash budget ops = (t0, g0)" by fastforce
  then have "l2_ok (lt_budget_bytes t0) (lt_inner t0)" "lt_budget_bytes t0 = budget" using snoc.IH by auto
  then show ?case using l2_step_accounting [of t0 hash op g0 t g] snoc.prems r assms(1) by (simp add: l2_run_snoc)
qed

section \<open>The contents of a run\<close>

definition stands :: "(byte list \<Rightarrow> digest) \<Rightarrow> byte list set \<Rightarrow> admission \<Rightarrow> bool" where
  "stands hash A a \<longleftrightarrow>
     (\<exists>parts. tiles 0 (la_segments (mirror_layout (ad_mirror a))) parts \<and> concat (map snd parts) = ad_wire a \<and>
       (\<forall>(d, h) \<in> set parts. hash h = d \<and> h \<in> A)) \<and>
     la_total_bytes (mirror_layout (ad_mirror a)) = length (ad_wire a) \<and> hash (ad_wire a) = ad_digest a"

definition entry_stands ::
    "(byte list \<Rightarrow> digest) \<Rightarrow> byte list set \<Rightarrow> admissions \<Rightarrow> cache_key \<times> payload_mirror \<times> nat \<times> digest \<Rightarrow> bool" where
  "entry_stands hash A g s \<longleftrightarrow>
     (\<exists>a. g (fst s) = Some a \<and> snd s = (ad_mirror a, ad_token_count a, ad_digest a) \<and> stands hash A a)"

definition contents_ok :: "(byte list \<Rightarrow> digest) \<Rightarrow> byte list set \<Rightarrow> l2_inner \<Rightarrow> admissions \<Rightarrow> bool" where
  "contents_ok hash A inner g \<longleftrightarrow>
     (\<forall>s \<in> set (li_segments inner). hash (snd s) = fst s \<and> snd s \<in> A) \<and> (\<forall>s \<in> served inner. entry_stands hash A g s)"

lemma contents_shrink: "contents_ok hash A inner g \<Longrightarrow> shrinks inner inner' \<Longrightarrow> contents_ok hash A inner' g"
  unfolding contents_ok_def shrinks_def by blast

lemma stands_mono: "stands hash A a \<Longrightarrow> A \<subseteq> B \<Longrightarrow> stands hash B a"
  unfolding stands_def by fast

lemma contents_mono: "contents_ok hash A inner g \<Longrightarrow> A \<subseteq> B \<Longrightarrow> contents_ok hash B inner g"
  unfolding contents_ok_def entry_stands_def using stands_mono by (meson subsetD)

lemma validated_stands:
  assumes v: "validate_layout hash mirror wire = Inr parts" and h: "hash wire = digest"
  shows "stands hash (slices {wire}) \<lparr>ad_token_count = tokens, ad_digest = digest, ad_mirror = mirror, ad_wire = wire\<rparr>"
    "\<forall>(d, h) \<in> set parts. hash h = d \<and> h \<in> slices {wire}"
proof -
  obtain stop where seg: "validate_segments hash wire 0 (la_segments (mirror_layout mirror)) = Inr (parts, stop)"
    using v by (auto simp: validate_layout_def Let_def res_bind_def split: if_splits sum.splits)
  have "h \<in> slices {wire}" if "(d, h) \<in> set parts" for d h
    using validated_slices [OF seg that] by (auto simp: slices_def)
  then show p: "\<forall>(d, h) \<in> set parts. hash h = d \<and> h \<in> slices {wire}" using validate_layout_spec(2) [OF v] by blast
  show "stands hash (slices {wire}) \<lparr>ad_token_count = tokens, ad_digest = digest, ad_mirror = mirror, ad_wire = wire\<rparr>"
    unfolding stands_def using validate_layout_tiles [OF v] validate_layout_spec(3,4) [OF v] p h by auto
qed

lemma l2_step_contents:
  assumes ok: "l2_ok (lt_budget_bytes t) (lt_inner t)" and b: "2 * lt_budget_bytes t \<le> U64_MAX"
    and c: "contents_ok hash A (lt_inner t) g" and sub: "slices (op_wires op) \<subseteq> A"
    and step: "l2_step hash op (t, g) = (t', g')"
  shows "contents_ok hash A (lt_inner t') g'"
proof (cases "\<exists>key tokens digest wire mirror origin. op = OpAdmit key tokens digest wire mirror origin")
  case False
  then show ?thesis using removal_safe [OF ok, of op hash g] step contents_shrink [OF c] by (simp add: safe_def)
next
  case True
  then obtain key tokens digest wire mirror origin where op: "op = OpAdmit key tokens digest wire mirror origin" by blast
  obtain r t1 where r: "admit hash key tokens digest wire mirror origin t = (r, t1)" by fastforce
  then have t': "t' = t1" using step op by (auto split: sum.splits)
  from r show ?thesis
  proof (cases rule: admit_early)
    case (refused refusal)
    then show ?thesis using c step op r t' by simp
  next
    case (locked parts)
    show ?thesis
    proof (cases r)
      case (Inl refusal)
      note restored = admit_locked_refused [OF ok b, of key tokens digest parts mirror origin refusal t1]
      have "same_state (lt_inner t1) (lt_inner t)" "l2_ok (lt_budget_bytes t) (lt_inner t1)" using restored locked(4) Inl by simp_all
      then have "shrinks (lt_inner t) (lt_inner t1)" using ok by (intro shrinks_same_state) (auto simp: l2_ok_def dest: pool_okD)
      then show ?thesis using contents_shrink [OF c] step op r t' Inl by simp
    next
      case (Inr evs)
      have "admit_locked key tokens digest parts mirror origin t = (Inr evs, t1)" using locked(4) Inr by simp
      note adm = admit_locked_admitted [OF ok b validate_layout_spec(1) [OF locked(3)] this]
      let ?a = "\<lparr>ad_token_count = tokens, ad_digest = digest, ad_mirror = mirror, ad_wire = wire\<rparr>"
      have g': "g' = g(key \<mapsto> ?a)" using step op r Inr by simp
      have A: "slices {wire} \<subseteq> A" using sub op by simp
      have a: "stands hash A ?a" using stands_mono [OF validated_stands(1) [OF locked(3,2)] A] .
      have parts: "\<forall>s \<in> set parts. hash (snd s) = fst s \<and> snd s \<in> A"
        using validated_stands(2) [OF locked(3,2)] A by auto
      then have segs: "\<forall>s \<in> set (li_segments (lt_inner t1)). hash (snd s) = fst s \<and> snd s \<in> A"
        using adm(3) c unfolding contents_ok_def by blast
      have "entry_stands hash A g' s" if s: "s \<in> served (lt_inner t1)" for s
      proof (cases "fst s = key")
        case True
        then have "s = (key, mirror, tokens, digest)" using subsetD [OF adm(4) s] by blast
        then have "snd s = (mirror, tokens, digest)" by simp
        then show ?thesis using a by (simp add: g' True entry_stands_def)
      next
        case False
        then have "s \<in> served (lt_inner t)" using subsetD [OF adm(4) s] by auto
        then have "entry_stands hash A g s" using c by (simp add: contents_ok_def)
        then show ?thesis using False by (simp add: entry_stands_def g')
      qed
      then show ?thesis using segs unfolding contents_ok_def t' by blast
    qed
  qed
qed

theorem l2_run_contents:
  assumes b: "2 * budget \<le> U64_MAX" and r: "l2_run hash budget ops = (t, g)"
  shows "contents_ok hash (offered ops) (lt_inner t) g"
  using r
proof (induction ops arbitrary: t g rule: rev_induct)
  case Nil
  then show ?case by (auto simp: l2_run_def tier_new_def contents_ok_def served_def)
next
  case (snoc op ops)
  obtain t0 g0 where r: "l2_run hash budget ops = (t0, g0)" by fastforce
  have "l2_ok (lt_budget_bytes t0) (lt_inner t0)" "lt_budget_bytes t0 = budget" using l2_run_accounting [OF b r] by auto
  moreover have "contents_ok hash (offered (ops @ [op])) (lt_inner t0) g0"
    by (rule contents_mono [OF snoc.IH [OF r]]) (auto simp: offered_def slices_def)
  moreover have "slices (op_wires op) \<subseteq> offered (ops @ [op])" by (auto simp: offered_def slices_def)
  ultimately show ?case using l2_step_contents [of t0] snoc.prems r b by (simp add: l2_run_snoc)
qed

text \<open>What a read finds, in a pool whose digests stand for one content each.\<close>

lemma hit_of_holds:
  assumes ok: "l2_ok budget inner" and c: "contents_ok hash A inner g" and inj: "inj_on hash A"
    and e: "bt_get (li_map inner) key = Some e"
  shows "\<exists>a. g key = Some a \<and> serves e = (ad_mirror a, ad_token_count a, ad_digest a) \<and> hash (ad_wire a) = ad_digest a \<and>
    hit_holds (ad_wire a) (hit_of inner e)"
proof -
  have "(key, le_payload e, le_token_count e, le_payload_digest e) \<in> served inner"
    using bt_get_Some_mem [OF e] by (force simp: served_def serves_def)
  then have "entry_stands hash A g (key, le_payload e, le_token_count e, le_payload_digest e)"
    using c unfolding contents_ok_def by blast
  then obtain a where a: "g key = Some a" "ad_mirror a = le_payload e" "ad_token_count a = le_token_count e"
      "ad_digest a = le_payload_digest e" "stands hash A a"
    by (auto simp: entry_stands_def)
  then obtain parts where p: "tiles 0 (la_segments (mirror_layout (le_payload e))) parts" "concat (map snd parts) = ad_wire a"
      "\<forall>(d, h) \<in> set parts. hash h = d \<and> h \<in> A"
    and t: "la_total_bytes (mirror_layout (le_payload e)) = length (ad_wire a)" "hash (ad_wire a) = ad_digest a"
    unfolding stands_def by auto
  have keys: "fst ` set parts = digests_of e"
  proof -
    have "tiles off segs parts \<Longrightarrow> map fst segs = map fst parts" for off segs parts
      by (induction off segs parts rule: tiles.induct) auto
    then show ?thesis using p(1) by (simp add: digests_of_def set_segment_digests) (metis list.set_map)
  qed
  have "bt_get (li_segments inner) d = Some h" if dh: "(d, h) \<in> set parts" for d h
  proof -
    obtain h' where h': "bt_get (li_segments inner) d = Some h'"
      using entry_digests_pooled [OF ok e, of d] keys dh by force
    then have "hash h' = d" "h' \<in> A" using c bt_get_Some_mem [OF h'] unfolding contents_ok_def by force+
    moreover have "hash h = d" "h \<in> A" using p(3) dh by auto
    ultimately show ?thesis using inj h' by (metis inj_onD)
  qed
  then have "\<forall>(d, h) \<in> set parts. ht_segments (hit_of inner e) d = Some h" using keys by (force simp: hit_of_def)
  then have "hit_holds (ad_wire a) (hit_of inner e)"
    unfolding hit_holds_def using p t by (intro exI [of _ parts]) (simp add: hit_of_def)
  then show ?thesis using a t by (auto simp: serves_def)
qed

end
