(* ===== verification/L2Payloads.thy ===== *)
theory L2Payloads
  imports L2Contents
begin

text \<open>
  Payloads that \<open>admit_payload\<close> cuts into chunks of one MiB: the manifest it builds always passes the
  checks of the layout, and what is admitted is read back as the same payload.
\<close>

definition chunk_parts :: "(byte list \<Rightarrow> digest) \<Rightarrow> byte list \<Rightarrow> (digest \<times> byte list) list" where
  "chunk_parts hash wire = map (\<lambda>c. (hash c, c)) (chunks_of DIRECT_SEGMENT_BYTES wire)"

lemma concat_chunk_parts: "concat (map snd (chunk_parts hash wire)) = wire"
  by (simp add: chunk_parts_def o_def concat_chunks_of DIRECT_SEGMENT_BYTES_def)

text \<open>The layout of the chunks, from an offset on.\<close>

fun chunk_layout :: "(byte list \<Rightarrow> digest) \<Rightarrow> nat \<Rightarrow> byte list list \<Rightarrow> (digest \<times> byte_range) list" where
  "chunk_layout hash offset [] = []"
| "chunk_layout hash offset (c # cs) =
     (hash c, (offset, offset + length c)) # chunk_layout hash (offset + length c) cs"

lemma tile_chunk_refs:
  "offset + length (concat cs) \<le> U64_MAX \<Longrightarrow>
   tile_segments index offset (chunk_refs hash index offset cs) =
     Inr (chunk_layout hash offset cs, offset + length (concat cs))"
proof (induction cs arbitrary: index offset)
  case (Cons c cs)
  then have "sat_add offset (length c) = offset + length c" by (intro sat_add_exact) simp
  then show ?case using Cons by (simp add: res_bind_def add.assoc)
qed simp

lemma validate_chunk_layout:
  assumes "\<forall>h. is_valid_digest (hash h)"
  shows "wire = front @ concat cs \<Longrightarrow>
    validate_segments hash wire (length front) (chunk_layout hash (length front) cs) =
      Inr (map (\<lambda>c. (hash c, c)) cs, length wire)"
proof (induction cs arbitrary: front)
  case (Cons c cs)
  have IH: "validate_segments hash wire (length (front @ c)) (chunk_layout hash (length (front @ c)) cs) =
      Inr (map (\<lambda>c. (hash c, c)) cs, length wire)"
    using Cons.prems by (intro Cons.IH) simp
  have "sub_list wire (length front) (length front + length c) = c" using Cons.prems by (simp add: sub_list_def)
  then show ?case using IH Cons.prems assms by (simp add: Let_def res_bind_def)
qed simp

definition chunk_manifest :: "(byte list \<Rightarrow> digest) \<Rightarrow> exact_state_payload \<Rightarrow> byte list \<Rightarrow> nat \<Rightarrow> nat \<Rightarrow>
    rust_string option \<Rightarrow> handoff_manifest" where
  "chunk_manifest hash payload wire kv_bytes recurrent_bytes desc =
     \<lparr>hm_payload_kind = payload_kind_str (payload_kind_of payload), hm_total_bytes = length wire,
      hm_segments = chunk_refs hash 0 0 (chunks_of DIRECT_SEGMENT_BYTES wire),
      hm_kv_bytes = kv_bytes, hm_recurrent_bytes = recurrent_bytes, hm_kv_desc_json = desc\<rparr>"

lemma payload_kind_str_inject: "payload_kind_str a = payload_kind_str b \<longleftrightarrow> a = b"
  by (cases a; cases b) (simp_all add: text_bytes_def)

lemma parse_payload_kind_str: "parse_payload_kind (payload_kind_str kind) = Some kind"
  by (cases kind) (simp_all only: parse_payload_kind_def payload_kind_str_inject payload_kind.distinct if_True if_False simp_thms)

lemma payload_wire_lengths:
  "payload_wire payload = Inr (wire, kv, recurrent) \<Longrightarrow> kv + recurrent = length wire"
  by (cases payload) (auto simp: payload_wire_def Let_def res_bind_def split: sum.splits)

lemma chunk_mirror:
  assumes hash: "\<forall>h. is_valid_digest (hash h)" and w: "payload_wire payload = Inr (wire, kv, recurrent)"
    and ne: "wire \<noteq> []" and len: "length wire \<le> U64_MAX"
  obtains mirror where "mirror_from_manifest (chunk_manifest hash payload wire kv recurrent desc) = Inr mirror"
    "mirror_kind mirror = payload_kind_of payload" "la_kv_bytes (mirror_layout mirror) = kv"
    "mirror_byte_len mirror = length wire" "validate_layout hash mirror wire = Inr (chunk_parts hash wire)"
proof -
  let ?cs = "chunks_of DIRECT_SEGMENT_BYTES wire"
  define layout where "layout = \<lparr>la_payload_kind = payload_kind_of payload, la_total_bytes = length wire,
     la_kv_bytes = kv, la_recurrent_bytes = recurrent, la_kv_desc_json = desc, la_segments = chunk_layout hash 0 ?cs\<rparr>"
  define mirror where "mirror = (case payload_kind_of payload of
      KindFullState \<Rightarrow> FullStateMirror layout
    | KindRecurrentOnly \<Rightarrow> RecurrentOnlyMirror layout
    | KindKvRecurrent \<Rightarrow> KvRecurrentMirror layout)"
  have cs: "concat ?cs = wire" by (simp add: concat_chunks_of DIRECT_SEGMENT_BYTES_def)
  then have "tile_segments 0 0 (chunk_refs hash 0 0 ?cs) = Inr (chunk_layout hash 0 ?cs, length wire)"
    using tile_chunk_refs [of 0 ?cs 0 hash] len by simp
  then have m: "mirror_from_manifest (chunk_manifest hash payload wire kv recurrent desc) = Inr mirror"
    by (simp add: mirror_from_manifest_def chunk_manifest_def parse_payload_kind_str res_bind_def mirror_def layout_def Let_def
      split: payload_kind.split)
  have lay: "mirror_layout mirror = layout" "mirror_kind mirror = payload_kind_of payload"
    by (simp_all add: mirror_def split: payload_kind.split)
  have "?cs \<noteq> []" using cs ne by auto
  then have segs: "la_segments layout \<noteq> []" by (cases ?cs) (simp_all add: layout_def)
  have "sat_add kv recurrent = length wire"
    using payload_wire_lengths [OF w] len by (simp add: sat_add_exact)
  moreover have "validate_segments hash wire 0 (chunk_layout hash 0 ?cs) = Inr (chunk_parts hash wire, length wire)"
    using validate_chunk_layout [OF hash, of wire "[]" ?cs] cs by (simp add: chunk_parts_def)
  ultimately have "validate_layout hash mirror wire = Inr (chunk_parts hash wire)"
    using segs by (simp add: validate_layout_def lay Let_def res_bind_def) (simp add: layout_def)
  then show ?thesis using m lay by (intro that) (simp_all add: layout_def mirror_byte_len_def)
qed

text \<open>The parts of the payload that a hit gives back, with the split at the key-value bytes.\<close>

lemma to_payload_wire:
  assumes h: "hit_holds wire hit" and k: "mirror_kind (ht_payload hit) = payload_kind_of payload"
    and kv: "la_kv_bytes (mirror_layout (ht_payload hit)) = kv" and w: "payload_wire payload = Inr (wire, kv, recurrent)"
  shows "payload_wire (to_payload hit) = Inr (wire, kv, recurrent)" "payload_kind_of (to_payload hit) = payload_kind_of payload"
proof -
  have t: "la_total_bytes (mirror_layout (ht_payload hit)) = length wire" using h by (auto simp: hit_holds_def)
  have sum: "kv + recurrent = length wire" by (rule payload_wire_lengths [OF w])
  have views: "as_cow (wire_view hit 0 (length wire)) = Inr wire" "as_cow (wire_view hit 0 kv) = Inr (take kv wire)"
    "as_cow (wire_view hit kv (length wire)) = Inr (drop kv wire)"
    using wire_view_slice [OF h, of 0 "length wire"] wire_view_slice [OF h, of 0 kv] wire_view_slice [OF h, of kv "length wire"] sum
    by (simp_all add: sub_list_def)
  have "min kv (length wire) = kv" using sum by simp
  then show "payload_wire (to_payload hit) = Inr (wire, kv, recurrent)"
    using w sum k
    by (cases payload)
      (auto simp: to_payload_def payload_wire_def t kv views Let_def res_bind_def split: sum.splits)
  show "payload_kind_of (to_payload hit) = payload_kind_of payload"
    using k by (cases payload) (simp_all add: to_payload_def Let_def)
qed

text \<open>An admission that succeeds pools the offered contents.\<close>

lemma admitted_contents:
  assumes ok: "l2_ok (lt_budget_bytes t) (lt_inner t)" and b: "2 * lt_budget_bytes t \<le> U64_MAX"
    and cons: "consistent (lt_inner t) parts"
    and r: "admit_locked key tokens digest parts mirror origin t = (Inr evs, t')"
  shows "set parts \<subseteq> set (li_segments (lt_inner t'))"
  using r
proof (cases rule: admit_locked_branches)
  case (admitted p inner j evs')
  then show ?thesis using pinned_contents(1) [OF ok b admitted(1-3) cons] by (simp add: landed_def)
qed simp_all

end
