(* ===== verification/L2Properties.thy ===== *)
theory L2Properties
  imports L2Payloads
begin

text \<open>The properties of the host-memory tier, with runs of it on which they apply.\<close>

section \<open>Admission\<close>

lemma admit_locked_of_admit:
  assumes "is_valid_digest digest" "hash wire = digest" "wire \<noteq> []" "validate_layout hash mirror wire = Inr parts"
  shows "admit hash key tokens digest wire mirror origin t = admit_locked key tokens digest parts mirror origin t"
proof -
  have "mirror_byte_len mirror = length wire"
    using validate_layout_spec(4) [OF assms(4)] by (simp add: mirror_byte_len_def)
  then show ?thesis using assms by (simp add: admit_def)
qed

text \<open>Every eviction of the loop was needed: what the ones before it left did not fit.\<close>

lemma evictions_needed:
  "pool_ok (set pinned) (fst s) \<Longrightarrow> evict_to_limit limit key pinned s = (s', evs) \<Longrightarrow> n < length evs \<Longrightarrow>
   limit + (\<Sum>ev \<leftarrow> take n evs. ev_freed_bytes ev) < li_bytes (fst s)"
proof (induction limit key pinned s arbitrary: evs n rule: evict_to_limit.induct)
  case (1 limit key pinned s)
  from 1(3) show ?case
  proof (cases rule: evict_to_limit_cases)
    case stop
    then show ?thesis using 1(4) by simp
  next
    case (round v s1 ev evs1)
    obtain inner j inner1 j1 where s: "s = (inner, j)" "s1 = (inner1, j1)" by (metis surj_pair)
    have v: "l2_victim inner key = Some v" and ok: "pool_ok (set pinned) inner" using round(2) 1(2) s by simp_all
    note spec = evict_victim_spec [OF ok v round(3) [unfolded s]]
    show ?thesis
    proof (cases n)
      case 0
      then show ?thesis using round(1) by simp
    next
      case (Suc m)
      then have "limit + (\<Sum>ev \<leftarrow> take m evs1. ev_freed_bytes ev) < li_bytes (fst s1)"
        using 1(1) [of v s1 ev evs1 m] round spec(1) s 1(4) by simp
      then show ?thesis using spec(6) Suc round(5) s by simp
    qed
  qed
qed

section \<open>Runs for the witnesses\<close>

text \<open>A hash that tells the slices of short wires apart, in place of BLAKE3.\<close>

definition demo_hash :: "byte list \<Rightarrow> digest" where
  "demo_hash bytes = replicate 64
     (if bytes = [] then 48 else if bytes = [1] then 49 else if bytes = [2] then 50
      else if bytes = [1, 2] then 51 else if bytes = [3] then 52 else 53)"

definition demo_mirror :: "byte list list \<Rightarrow> payload_mirror" where
  "demo_mirror cs = FullStateMirror
     \<lparr>la_payload_kind = KindFullState, la_total_bytes = length (concat cs), la_kv_bytes = length (concat cs),
      la_recurrent_bytes = 0, la_kv_desc_json = None, la_segments = chunk_layout demo_hash 0 cs\<rparr>"

definition demo_admit :: "cache_key \<Rightarrow> byte list list \<Rightarrow> l2_op" where
  "demo_admit key cs = OpAdmit key 1 (demo_hash (concat cs)) (concat cs) (demo_mirror cs) DirectOrigin"

lemma demo_hash_valid: "is_valid_digest (demo_hash bytes)"
proof -
  obtain b where b: "demo_hash bytes = replicate 64 b" "b \<in> {48, 49, 50, 51, 52, 53}"
    by (simp add: demo_hash_def)
  have "take 7 (replicate 64 b) \<noteq> text_bytes ''blake3:''"
  proof
    assume "take 7 (replicate 64 b) = text_bytes ''blake3:''"
    then have "take 7 (replicate 64 b) ! 0 = text_bytes ''blake3:'' ! 0" by simp
    then show False using b(2) by (auto simp: text_bytes_def)
  qed
  then show ?thesis
    using b by (auto simp: is_valid_digest_def Let_def text_bytes_def is_hex_digit_def list_all_iff)
qed

lemma demo_layout:
  assumes "cs \<noteq> []" "length (concat cs) \<le> U64_MAX"
  shows "validate_layout demo_hash (demo_mirror cs) (concat cs) = Inr (map (\<lambda>c. (demo_hash c, c)) cs)"
proof -
  have v: "validate_segments demo_hash (concat cs) 0 (chunk_layout demo_hash 0 cs) =
      Inr (map (\<lambda>c. (demo_hash c, c)) cs, length (concat cs))"
    using validate_chunk_layout [of demo_hash "concat cs" "[]" cs] demo_hash_valid by simp
  have "chunk_layout demo_hash 0 cs \<noteq> []" using assms(1) by (cases cs) simp_all
  then show ?thesis using v assms(2) by (simp add: validate_layout_def demo_mirror_def sat_add_exact res_bind_def)
qed

lemma consistent_of_contents:
  assumes c: "contents_ok hash A inner g" and inj: "inj_on hash A" and p: "\<forall>(d, h) \<in> set parts. hash h = d \<and> h \<in> A"
  shows "consistent inner parts"
proof -
  have "h' = h" if "(d, h) \<in> set parts" "bt_get (li_segments inner) d = Some h'" for d h h'
  proof -
    have "hash h' = d" "h' \<in> A" using c bt_get_Some_mem [OF that(2)] unfolding contents_ok_def by force+
    moreover have "hash h = d" "h \<in> A" using p that(1) by auto
    ultimately show ?thesis using inj by (metis inj_onD)
  qed
  moreover have "h' = h" if "(d, h) \<in> set parts" "(d, h') \<in> set parts" for d h h'
  proof -
    have "hash h = d" "h \<in> A" "hash h' = d" "h' \<in> A" using p that by auto
    then show ?thesis using inj by (metis inj_onD)
  qed
  ultimately show ?thesis unfolding consistent_def by blast
qed

lemma demo_slices: "slices {[1, 2]} = {[], [1], [2], [1, 2 :: byte]}"
proof -
  have "sub_list [1, 2 :: byte] i j \<in> {[], [1], [2], [1, 2]}" for i j
  proof (cases i)
    case 0
    then show ?thesis by (cases j; cases "j - 1") (auto simp: sub_list_def)
  next
    case (Suc k)
    then show ?thesis by (cases k; cases "j - 1") (auto simp: sub_list_def)
  qed
  moreover have "[] = sub_list [1, 2 :: byte] 0 0" "[1] = sub_list [1, 2 :: byte] 0 1"
    "[2] = sub_list [1, 2 :: byte] 1 2" "[1, 2] = sub_list [1, 2 :: byte] 0 2" by (simp_all add: sub_list_def)
  ultimately show ?thesis unfolding slices_def by blast
qed

lemma replicate_eq_64: "replicate 64 a = replicate 64 b \<longleftrightarrow> a = (b :: byte)"
  by simp

lemma demo_inj: "inj_on demo_hash {[], [1], [2], [1, 2]}"
  by (simp add: inj_on_def demo_hash_def)

text \<open>One wire of two segments under one key.\<close>

definition demo_ops :: "l2_op list" where
  "demo_ops = [demo_admit [107] [[1], [2]]]"

lemma demo_offered: "offered demo_ops = {[], [1], [2], [1, 2]}"
  by (simp add: offered_def demo_ops_def demo_admit_def demo_slices)

lemma demo_run:
  assumes "2 \<le> budget" "2 * budget \<le> U64_MAX"
  obtains evs t' where "admit demo_hash [107] 1 (demo_hash [1, 2]) [1, 2] (demo_mirror [[1], [2]]) DirectOrigin (tier_new budget) = (Inr evs, t')"
    "l2_run demo_hash budget demo_ops = (t', [[107] \<mapsto> \<lparr>ad_token_count = 1, ad_digest = demo_hash [1, 2],
       ad_mirror = demo_mirror [[1], [2]], ad_wire = [1, 2]\<rparr>])"
    "\<exists>e. bt_get (li_map (lt_inner t')) [107] = Some e"
proof -
  let ?parts = "[(demo_hash [1], [1]), (demo_hash [2], [2])]" and ?m = "demo_mirror [[1], [2]]"
  have v: "validate_layout demo_hash ?m [1, 2] = Inr ?parts" using demo_layout [of "[[1], [2]]"] by simp
  then have a: "admit demo_hash [107] 1 (demo_hash [1, 2]) [1, 2] ?m DirectOrigin (tier_new budget) =
      admit_locked [107] 1 (demo_hash [1, 2]) ?parts ?m DirectOrigin (tier_new budget)"
    by (intro admit_locked_of_admit) (simp_all add: demo_hash_valid)
  have cons: "consistent (lt_inner (tier_new budget)) ?parts"
    by (simp add: consistent_def tier_new_def demo_hash_def)
  have ok: "l2_ok (lt_budget_bytes (tier_new budget)) (lt_inner (tier_new budget))" "2 * lt_budget_bytes (tier_new budget) \<le> U64_MAX"
    using tier_new_ok assms(2) by simp_all
  have "distinct_bytes ?parts \<le> lt_budget_bytes (tier_new budget)"
    using assms(1) by (simp add: distinct_bytes_def tier_new_def)
  then obtain evs where "fst (admit_locked [107] 1 (demo_hash [1, 2]) ?parts ?m DirectOrigin (tier_new budget)) = Inr evs"
    using admit_locked_exact [OF ok cons] by blast
  then obtain t' where r: "admit_locked [107] 1 (demo_hash [1, 2]) ?parts ?m DirectOrigin (tier_new budget) = (Inr evs, t')"
    by (metis prod.collapse)
  have "map fst ?parts = map fst (la_segments (mirror_layout ?m))" by (simp add: demo_mirror_def)
  from admit_locked_admitted(5) [OF ok this r] have "\<exists>e. bt_get (li_map (lt_inner t')) [107] = Some e" by blast
  then show ?thesis using a r
    by (intro that [of evs t']) (simp_all add: l2_run_def demo_ops_def demo_admit_def)
qed

section \<open>The properties\<close>

text \<open>
  (C14) The accounting of the tier is exact after every sequence of operations: the byte count is the
  weight of the pool and the sum of the charges, it fits the budget, and the pool holds exactly the
  segments that some entry lists.
\<close>

theorem l2_accounting_exact:
  fixes ops :: "l2_op list"
  assumes "2 * budget \<le> U64_MAX" and "inner = lt_inner (fst (l2_run hash budget ops))"
  shows "li_bytes inner = (\<Sum>s \<leftarrow> li_segments inner. length (snd s)) \<and>
    li_bytes inner = (\<Sum>ke \<leftarrow> li_map inner. le_charge_bytes (snd ke)) \<and> li_bytes inner \<le> budget \<and>
    distinct (map fst (li_map inner)) \<and> distinct (map fst (li_segments inner)) \<and>
    set (map fst (li_segments inner)) = (\<Union>ke \<in> set (li_map inner). set (segment_digests (le_payload (snd ke))))"
proof -
  have ok: "l2_ok budget inner" using l2_run_accounting [OF assms(1)] assms(2) by (metis prod.collapse)
  then have p: "pool_ok {} inner" "charged inner" "li_bytes inner \<le> budget" by (simp_all add: l2_ok_def)
  then have "(\<Sum>ke \<leftarrow> li_map inner. le_charge_bytes (snd ke)) = li_bytes inner"
    using pool_okD(1,5) [OF p(1)] assms(1) by (intro charges_sum) simp_all
  then show ?thesis
    using p pool_okD [OF p(1)] by (simp add: pool_bytes_def referenced_def digests_of_def)
qed

theorem l2_accounting_exact_witness:
  "let inner = lt_inner (fst (l2_run demo_hash 2 (demo_ops @ [OpShrink 1]))) in
   li_bytes inner = (\<Sum>ke \<leftarrow> li_map inner. le_charge_bytes (snd ke)) \<and> li_bytes inner \<le> 2"
  using l2_accounting_exact [of 2 _ demo_hash "demo_ops @ [OpShrink 1]"] by (simp add: Let_def)

text \<open>
  (C13) A refused admission leaves the tier as it was: the same entry at every key with the same charge
  and recency, the same bytes under every digest, the same count and clock. This includes the refusal
  after evictions, which the journal undoes.
\<close>

theorem l2_refusal_restores:
  assumes "2 * budget \<le> U64_MAX" and "t = fst (l2_run hash budget ops)"
    and "admit hash key tokens digest wire mirror origin t = (Inl refusal, t')"
  shows "bt_get (li_map (lt_inner t')) = bt_get (li_map (lt_inner t)) \<and>
    bt_get (li_segments (lt_inner t')) = bt_get (li_segments (lt_inner t)) \<and>
    li_bytes (lt_inner t') = li_bytes (lt_inner t) \<and> li_clock (lt_inner t') = li_clock (lt_inner t)"
proof -
  have ok: "l2_ok (lt_budget_bytes t) (lt_inner t)" "2 * lt_budget_bytes t \<le> U64_MAX"
    using l2_run_accounting [OF assms(1), of hash ops] assms(1,2) by (metis prod.collapse)+
  from assms(3) have "same_state (lt_inner t') (lt_inner t)"
  proof (cases rule: admit_early)
    case (locked parts)
    then show ?thesis by (intro admit_locked_refused [OF ok])
  qed simp
  then show ?thesis by (simp add: same_state_def)
qed

text \<open>The third segment does not fit beside the two that are shared and pinned: the admission is rolled back.\<close>

lemma demo_refused:
  "\<exists>refusal t'. admit demo_hash [108] 1 (demo_hash [1, 2, 3]) [1, 2, 3] (demo_mirror [[1], [2], [3]]) DirectOrigin
     (fst (l2_run demo_hash 2 demo_ops)) = (Inl refusal, t')"
proof -
  let ?parts = "[(demo_hash [1], [1]), (demo_hash [2], [2]), (demo_hash [3], [3])]" and ?t = "fst (l2_run demo_hash 2 demo_ops)"
  let ?m = "demo_mirror [[1], [2], [3]]"
  obtain t g where r: "l2_run demo_hash 2 demo_ops = (t, g)" by fastforce
  then have t: "l2_ok (lt_budget_bytes t) (lt_inner t)" "lt_budget_bytes t = 2"
    using l2_run_accounting [OF _ r] by simp_all
  have v: "validate_layout demo_hash ?m [1, 2, 3] = Inr ?parts" using demo_layout [of "[[1], [2], [3]]"] by simp
  have c: "contents_ok demo_hash {[], [1], [2], [1, 2], [3]} (lt_inner t) g"
    by (rule contents_mono [OF l2_run_contents [OF _ r]]) (auto simp: demo_offered)
  have inj: "inj_on demo_hash {[], [1], [2], [1, 2], [3]}" by (simp add: inj_on_def demo_hash_def)
  have "consistent (lt_inner t) ?parts" by (rule consistent_of_contents [OF c inj]) simp
  then have "\<not> (\<exists>evs. fst (admit_locked [108] 1 (demo_hash [1, 2, 3]) ?parts ?m DirectOrigin t) = Inr evs)"
    using admit_locked_exact [OF t(1)] t(2) by (simp add: distinct_bytes_def demo_hash_def)
  then obtain refusal where "fst (admit_locked [108] 1 (demo_hash [1, 2, 3]) ?parts ?m DirectOrigin t) = Inl refusal"
    by (metis sum.exhaust)
  moreover have "admit demo_hash [108] 1 (demo_hash [1, 2, 3]) [1, 2, 3] ?m DirectOrigin t =
      admit_locked [108] 1 (demo_hash [1, 2, 3]) ?parts ?m DirectOrigin t"
    using v by (intro admit_locked_of_admit) (simp_all add: demo_hash_valid)
  ultimately show ?thesis using r by (metis fst_conv prod.collapse)
qed

theorem l2_refusal_restores_witness:
  "\<exists>refusal t'. admit demo_hash [108] 1 (demo_hash [1, 2, 3]) [1, 2, 3] (demo_mirror [[1], [2], [3]]) DirectOrigin
      (fst (l2_run demo_hash 2 demo_ops)) = (Inl refusal, t') \<and>
    bt_get (li_map (lt_inner t')) = bt_get (li_map (lt_inner (fst (l2_run demo_hash 2 demo_ops))))"
proof -
  obtain refusal t' where r: "admit demo_hash [108] 1 (demo_hash [1, 2, 3]) [1, 2, 3] (demo_mirror [[1], [2], [3]]) DirectOrigin
      (fst (l2_run demo_hash 2 demo_ops)) = (Inl refusal, t')"
    using demo_refused by blast
  then show ?thesis using l2_refusal_restores [OF _ refl r] by auto
qed

text \<open>
  (C29) A valid layout whose digests stand for one content each, among themselves and with the pool, is
  admitted exactly when the bytes of its distinct segments fit the whole budget: sharing and eviction
  make room whenever room can be made.
\<close>

theorem l2_admission_exact:
  assumes "2 * budget \<le> U64_MAX" and "t = fst (l2_run hash budget ops)"
    and "is_valid_digest digest" "hash wire = digest" "wire \<noteq> []"
    and "validate_layout hash mirror wire = Inr parts" and "consistent (lt_inner t) parts"
  shows "(\<exists>evs t'. admit hash key tokens digest wire mirror origin t = (Inr evs, t')) \<longleftrightarrow> distinct_bytes parts \<le> budget"
proof -
  have t: "l2_ok (lt_budget_bytes t) (lt_inner t)" "lt_budget_bytes t = budget"
    using l2_run_accounting [OF assms(1), of hash ops] assms(2) by (metis prod.collapse)+
  have "(\<exists>evs. fst (admit_locked key tokens digest parts mirror origin t) = Inr evs) \<longleftrightarrow> distinct_bytes parts \<le> budget"
    using admit_locked_exact [OF t(1) _ assms(7)] t(2) assms(1) by simp
  then show ?thesis using admit_locked_of_admit [OF assms(3-6)] by (metis fst_conv prod.collapse)
qed

theorem l2_admission_exact_witness:
  "\<not> (\<exists>evs t'. admit demo_hash [107] 1 (demo_hash [1, 2]) [1, 2] (demo_mirror [[1], [2]]) DirectOrigin
         (fst (l2_run demo_hash 1 [])) = (Inr evs, t')) \<and>
   (\<exists>evs t'. admit demo_hash [107] 1 (demo_hash [1, 2]) [1, 2] (demo_mirror [[1], [2]]) DirectOrigin
         (fst (l2_run demo_hash 2 [])) = (Inr evs, t'))"
proof -
  let ?parts = "[(demo_hash [1], [1]), (demo_hash [2], [2])]"
  have v: "validate_layout demo_hash (demo_mirror [[1], [2]]) [1, 2] = Inr ?parts" using demo_layout [of "[[1], [2]]"] by simp
  have cons: "consistent (lt_inner (fst (l2_run demo_hash b []))) ?parts" for b
    by (simp add: consistent_def l2_run_def tier_new_def demo_hash_def)
  have "distinct_bytes ?parts = 2" by (simp add: distinct_bytes_def demo_hash_def)
  then show ?thesis
    using l2_admission_exact [OF _ refl demo_hash_valid refl _ v cons, of 1]
      l2_admission_exact [OF _ refl demo_hash_valid refl _ v cons, of 2] by simp
qed

text \<open>
  (C15) When BLAKE3 does not collide on the slices of the offered wires, a hit after any sequence of
  operations is the last successful admission at its key: its metadata, its payload, and every slice
  of its wire that a view asks for.
\<close>

theorem l2_hit_serves_last_admission:
  assumes "2 * budget \<le> U64_MAX" and "inj_on hash (offered ops)"
    and "l2_run hash budget ops = (t, g)" and "l2_get key t = (Some hit, t')"
  shows "\<exists>a. g key = Some a \<and> ht_payload hit = ad_mirror a \<and> ht_token_count hit = ad_token_count a \<and>
    ht_payload_digest hit = ad_digest a \<and> hash (ad_wire a) = ad_digest a \<and>
    payload_bytes (to_payload hit) = Inr (ad_wire a) \<and>
    (\<forall>x y. x \<le> y \<and> y \<le> length (ad_wire a) \<longrightarrow> as_cow (wire_view hit x y) = Inr (sub_list (ad_wire a) x y))"
proof -
  have ok: "l2_ok budget (lt_inner t)" using l2_run_accounting [OF assms(1,3)] by simp
  have c: "contents_ok hash (offered ops) (lt_inner t) g" by (rule l2_run_contents [OF assms(1,3)])
  obtain e where e: "bt_get (li_map (lt_inner t)) key = Some e" "hit = hit_of (lt_inner t) e"
    using assms(4) l2_get_ok [OF ok] by (auto split: option.splits)
  obtain a where a: "g key = Some a" "serves e = (ad_mirror a, ad_token_count a, ad_digest a)" "hash (ad_wire a) = ad_digest a"
      "hit_holds (ad_wire a) hit"
    using hit_of_holds [OF ok c assms(2) e(1)] e(2) by blast
  then show ?thesis
    using to_payload_bytes [OF a(4)] wire_view_slice [OF a(4)] e(2) by (auto simp: hit_of_def serves_def)
qed

theorem l2_hit_serves_last_admission_witness:
  "\<exists>hit t'. l2_get [107] (fst (l2_run demo_hash 2 demo_ops)) = (Some hit, t') \<and> payload_bytes (to_payload hit) = Inr [1, 2]"
proof -
  obtain evs t where r: "l2_run demo_hash 2 demo_ops = (t, [[107] \<mapsto> \<lparr>ad_token_count = 1, ad_digest = demo_hash [1, 2],
       ad_mirror = demo_mirror [[1], [2]], ad_wire = [1, 2]\<rparr>])" and e: "\<exists>e. bt_get (li_map (lt_inner t)) [107] = Some e"
    by (rule demo_run [of 2]) simp_all
  have ok: "l2_ok 2 (lt_inner t)" using l2_run_accounting [OF _ r] by simp
  obtain hit t' where h: "l2_get [107] t = (Some hit, t')" using l2_get_ok [OF ok, of "[107]"] e by auto
  have inj: "inj_on demo_hash (offered demo_ops)" unfolding demo_offered by (rule demo_inj)
  have "payload_bytes (to_payload hit) = Inr [1, 2]" using l2_hit_serves_last_admission [OF _ inj r h] by auto
  then show ?thesis using h r by auto
qed

text \<open>
  (C31) Shrinking evicts in least-recently-used order, ties by key, until the pool fits the target and
  no further: every victim is older than every survivor, each eviction was needed, the freed bytes add
  up, and the pool fits unless the only entry left is the one with the empty key.
\<close>

theorem l2_shrink_evicts_lru:
  assumes "2 * budget \<le> U64_MAX" and "t = fst (l2_run hash budget ops)" and "shrink_to target t = (evs, t')"
  shows "(li_bytes (lt_inner t') \<le> min target budget \<or> set (map fst (li_map (lt_inner t'))) \<subseteq> {[]}) \<and>
    map fst (li_map (lt_inner t')) = filter (\<lambda>k. k \<notin> set (map ev_cache_key evs)) (map fst (li_map (lt_inner t))) \<and>
    sorted_wrt (lru_before (li_map (lt_inner t))) (map ev_cache_key evs) \<and>
    (\<forall>k \<in> set (map ev_cache_key evs). \<forall>k' \<in> set (map fst (li_map (lt_inner t'))). k' \<noteq> [] \<longrightarrow> lru_before (li_map (lt_inner t)) k k') \<and>
    (\<Sum>ev \<leftarrow> evs. ev_freed_bytes ev) + li_bytes (lt_inner t') = li_bytes (lt_inner t) \<and>
    (\<forall>n < length evs. min target budget + (\<Sum>ev \<leftarrow> take n evs. ev_freed_bytes ev) < li_bytes (lt_inner t))"
proof -
  have ok: "l2_ok budget (lt_inner t)" "lt_budget_bytes t = budget"
    using l2_run_accounting [OF assms(1), of hash ops] assms(2) by (metis prod.collapse)+
  obtain inner' j' where run: "evict_to_limit (min target budget) [] [] (lt_inner t, journal_default) = ((inner', j'), evs)"
    and t': "lt_inner t' = inner'"
    by (rule shrink_to_run [of target t]) (use assms(3) ok(2) in auto)
  have p: "pool_ok (set []) (fst (lt_inner t, journal_default))" using ok(1) by (simp add: l2_ok_def)
  note spec = evict_to_limit_spec [OF p run, simplified]
  then have from_t: "evicted_from [] (lt_inner t) inner' evs" by simp
  have gen: "map fst (filter (\<lambda>ke. fst ke \<notin> S) m) = filter (\<lambda>k. k \<notin> S) (map fst m)"
    for S and m :: "(cache_key \<times> l2_entry) list" by (simp add: filter_map o_def)
  have "uncharged (li_map inner') = filter (\<lambda>ke. fst ke \<notin> set (evicted_keys evs)) (uncharged (li_map (lt_inner t)))"
    using from_t by (simp only: evicted_from_def)
  from arg_cong [OF this, of "map fst"]
  have kept: "map fst (li_map inner') = filter (\<lambda>k. k \<notin> set (evicted_keys evs)) (map fst (li_map (lt_inner t)))"
    by (simp only: uncharged_keys gen)
  have fits: "li_bytes inner' \<le> min target budget \<or> set (map fst (li_map inner')) \<subseteq> {[]}" using spec by simp
  have order: "sorted_wrt (lru_before (li_map (lt_inner t))) (evicted_keys evs)"
    "\<forall>k \<in> set (evicted_keys evs). \<forall>k' \<in> set (map fst (li_map inner')). k' \<noteq> [] \<longrightarrow> lru_before (li_map (lt_inner t)) k k'"
    "(\<Sum>ev \<leftarrow> evs. ev_freed_bytes ev) + li_bytes inner' = li_bytes (lt_inner t)"
    using from_t by (simp_all add: evicted_from_def)
  have "\<forall>n < length evs. min target budget + (\<Sum>ev \<leftarrow> take n evs. ev_freed_bytes ev) < li_bytes (lt_inner t)"
    using evictions_needed [OF p run] by simp
  then show ?thesis unfolding t' using kept fits order by blast
qed

theorem l2_shrink_evicts_lru_witness:
  "(\<Sum>ev \<leftarrow> fst (shrink_to 0 (fst (l2_run demo_hash 2 demo_ops))). ev_freed_bytes ev)
     + li_bytes (lt_inner (snd (shrink_to 0 (fst (l2_run demo_hash 2 demo_ops)))))
   = li_bytes (lt_inner (fst (l2_run demo_hash 2 demo_ops)))"
  using l2_shrink_evicts_lru [OF _ refl prod.collapse [symmetric], of 2 0 demo_hash demo_ops] by simp

text \<open>
  (C30) An exact-state payload that fits the budget is admitted and read back: the hit gives a payload of
  the same kind with the same bytes in the same parts, whatever its kind and its number of chunks.
\<close>

theorem l2_payload_roundtrip:
  assumes "2 * budget \<le> U64_MAX" and "t = fst (l2_run hash budget ops)" and "\<forall>bytes. is_valid_digest (hash bytes)"
    and "payload_wire payload = Inr (wire, kv, recurrent)" "wire \<noteq> []" "length wire \<le> U64_MAX"
    and "consistent (lt_inner t) (chunk_parts hash wire)" "distinct_bytes (chunk_parts hash wire) \<le> budget"
  shows "\<exists>evs t' hit t''. admit_payload hash key tokens (hash wire) payload desc origin t = (Inr evs, t') \<and>
    l2_get key t' = (Some hit, t'') \<and> ht_token_count hit = tokens \<and> ht_payload_digest hit = hash wire \<and>
    payload_kind_of (to_payload hit) = payload_kind_of payload \<and>
    payload_wire (to_payload hit) = Inr (wire, kv, recurrent)"
proof -
  have ok: "l2_ok (lt_budget_bytes t) (lt_inner t)" "lt_budget_bytes t = budget"
    using l2_run_accounting [OF assms(1), of hash ops] assms(2) by (metis prod.collapse)+
  have b: "2 * lt_budget_bytes t \<le> U64_MAX" using ok(2) assms(1) by simp
  let ?parts = "chunk_parts hash wire"
  obtain mirror where m: "mirror_from_manifest (chunk_manifest hash payload wire kv recurrent desc) = Inr mirror"
    "mirror_kind mirror = payload_kind_of payload" "la_kv_bytes (mirror_layout mirror) = kv"
    "mirror_byte_len mirror = length wire" "validate_layout hash mirror wire = Inr ?parts"
    by (rule chunk_mirror [OF assms(3-6)])
  have pay: "admit_payload hash key tokens (hash wire) payload desc origin t =
      admit_locked key tokens (hash wire) ?parts mirror origin t"
    using assms(4) m(1) admit_locked_of_admit [OF _ refl assms(5) m(5)] assms(3)
    by (simp add: admit_payload_def chunk_manifest_def)
  obtain evs where "fst (admit_locked key tokens (hash wire) ?parts mirror origin t) = Inr evs"
    using admit_locked_exact [OF ok(1) b assms(7)] assms(8) ok(2) by blast
  then obtain t' where r: "admit_locked key tokens (hash wire) ?parts mirror origin t = (Inr evs, t')"
    by (metis prod.collapse)
  note adm = admit_locked_admitted [OF ok(1) b validate_layout_spec(1) [OF m(5)] r]
  obtain e where e: "bt_get (li_map (lt_inner t')) key = Some e" "serves e = (mirror, tokens, hash wire)" using adm(5) by blast
  define hit where "hit = hit_of (lt_inner t') e"
  obtain t'' where get: "l2_get key t' = (Some hit, t'')" using l2_get_ok [OF adm(1), of key] e(1) by (simp add: hit_def)
  have hit: "ht_payload hit = mirror" "ht_token_count hit = tokens" "ht_payload_digest hit = hash wire"
    using e(2) by (simp_all add: hit_def hit_of_def serves_def)
  have keys: "fst ` set ?parts = digests_of e"
    using validate_layout_spec(1) [OF m(5)] e(2) by (simp add: digests_of_def set_segment_digests serves_def) (metis list.set_map)
  have pooled: "\<forall>(d, h) \<in> set ?parts. bt_get (li_segments (lt_inner t')) d = Some h"
    using admitted_contents [OF ok(1) b assms(7) r] adm(1) by (auto simp: l2_ok_def dest: pool_okD(3) get_mem)
  then have "\<forall>(d, h) \<in> set ?parts. ht_segments hit d = Some h" using keys by (force simp: hit_def hit_of_def)
  then have "hit_holds wire hit"
    unfolding hit_holds_def using validate_layout_tiles [OF m(5)] validate_layout_spec(3,4) [OF m(5)] hit(1)
    by (intro exI [of _ ?parts]) simp
  then show ?thesis using to_payload_wire [OF _ _ _ assms(4)] m hit pay r get by auto
qed

theorem l2_payload_roundtrip_witness:
  "\<exists>evs t' hit t''. admit_payload demo_hash [107] 1 (demo_hash [1, 2])
      (PayloadKvRecurrent (cache_bytes_inline [1]) (cache_bytes_inline [2])) None FromL3 (tier_new 2) = (Inr evs, t') \<and>
    l2_get [107] t' = (Some hit, t'') \<and> payload_wire (to_payload hit) = Inr ([1, 2], 1, 1)"
proof -
  have parts: "chunk_parts demo_hash [1, 2] = [(demo_hash [1, 2], [1, 2])]"
    by (simp add: chunk_parts_def chunks_of.simps DIRECT_SEGMENT_BYTES_def)
  have w: "payload_wire (PayloadKvRecurrent (cache_bytes_inline [1]) (cache_bytes_inline [2])) = Inr ([1, 2], 1, 1)"
    by (simp add: payload_wire_def cache_bytes_inline_def as_cow_def res_bind_def Let_def)
  have t: "tier_new 2 = fst (l2_run demo_hash 2 [])" by (simp add: l2_run_def)
  have cons: "consistent (lt_inner (tier_new 2)) (chunk_parts demo_hash [1, 2])" by (simp add: parts consistent_def tier_new_def)
  have "distinct_bytes (chunk_parts demo_hash [1, 2]) \<le> 2" by (simp add: parts distinct_bytes_def)
  then show ?thesis
    using l2_payload_roundtrip [OF _ t _ w _ _ cons, of "[107]" 1 None FromL3] demo_hash_valid by auto
qed

end
