(* ===== verification/Spec2Isabelle.thy ===== *)
theory Spec2Isabelle
  imports
    ClaimFence
    SchedConfig
    Capacity
    CachePolicy
    SchedulerRuns
    PlanningProperties
    FamilyProperties
    RadixProperties
    WireProperties
    PlacementComplete
    CacheGenProperties
    RoutingProperties
    AdmissionProperties
    L2Properties
begin

text \<open>
  A verification development for the decision logic of mesh-llm, which pools the machines of a mesh
  behind one OpenAI-compatible API and splits a model that is too large for one machine into stages
  of consecutive layers. The development covers the parts that decide: which node serves a request,
  and, in the staged runtime Skippy, who may load a stage, where the layers go, what runs next, which
  cached prefix is reused or evicted, and what travels between two stages or into a cache archive. All
  paths below are under \<open>src/crates/\<close>.

  How the parts interact. A node routes a request by the keys hashed from its body and by the cache
  evidence that the nodes record and gossip (\<open>mesh-llm-routing\<close>). The placement planner (\<open>skippy-coordinator/src/topology.rs\<close>) or, for a
  reviewed family with boundary constraints, the stage planner (\<open>skippy-topology\<close>) gives each node a
  range of layers. A coordinator claims the topology under a term and a lease, and a stage accepts a
  load only under the claim its fence holds (\<open>skippy-coordinator/src/lib.rs\<close>). The loaded stages
  exchange messages and activation frames (\<open>skippy-protocol/src/binary\<close>). On the first stage a
  continuous-batching scheduler (\<open>skippy-scheduler\<close>) admits requests, orders them by what the prefix
  cache (\<open>skippy-cache/src/radix.rs\<close>) saves them, plans each iteration, and preempts when memory runs
  out. Cached segments can be stored compressed by a lossy codec (\<open>skippy-cache/src/cachegen\<close>); which
  payloads are written to disk, and which give way, is decided by the policy of \<open>skippy-cache/src/policy\<close>,
  driven by the owner of the cache root (\<open>skippy-cache/src/manager.rs\<close>). Payloads restored from disk are
  mirrored in host memory (\<open>skippy-cache/src/l2\<close>), segment by segment, within a budget.

  Theories and sources, in the order of the imports:
  \<^item> \<open>Prelude\<close>: machine integers with their saturation and checks, \<open>Ordering\<close> and the stable sort, ordered
    maps; the locales \<open>comparator\<close> (what a sort asks of its argument), \<open>keyed_map\<close> (what a lookup
    returns after an update) and \<open>step_invariant\<close> (invariants of reachable states).
  \<^item> \<open>ClaimFence\<close> (\<open>skippy-coordinator/src/lib.rs\<close>): claims, terms, leases; agreement per term and fencing
    of superseded loads.
  \<^item> \<open>SchedConfig\<close>, \<open>Capacity\<close>, \<open>CachePolicy\<close>, \<open>Sequences\<close>, \<open>SchedulerEngine\<close>, \<open>SchedulerInvariant\<close>,
    \<open>SchedulerMemory\<close>, \<open>SchedulerPlan\<close>, \<open>SchedulerRuns\<close> (\<open>skippy-scheduler/src\<close>: \<open>config.rs\<close>,
    \<open>capacity.rs\<close>, \<open>cache_policy.rs\<close>, \<open>sequence.rs\<close>, \<open>iteration.rs\<close>, \<open>engine.rs\<close>): the state of the
    scheduler with every operation; the state invariant, correctness of each planned row and of its
    completion, progress, admission and eviction against their exact conditions. \<open>SchedulerRuns\<close> follows
    runs from the empty scheduler: which requests each operation removes, the recorded memory use as
    the exact sum of the reservations while no pressure is reported (and how a report moves it,
    \<open>memory_use_laws\<close>), and that a fully restored request which is preempted before its first token
    never runs again.
  \<^item> \<open>TopologyTypes\<close>, \<open>EdgeOrder\<close>, \<open>Planning\<close>, \<open>PlanningProperties\<close>, \<open>FamilyCapability\<close>, \<open>FamilyProperties\<close>
    (\<open>skippy-topology/src\<close>): requests, planners, boundary rules and family capabilities; plans partition
    the layers, the balanced planner and the exhaustive pipeline order are optimal.
  \<^item> \<open>RadixTree\<close>, \<open>RadixTreeProps\<close>, \<open>RadixSearch\<close>, \<open>RadixExact\<close>, \<open>RadixCache\<close>, \<open>RadixRefinement\<close>,
    \<open>RadixProperties\<close> (\<open>skippy-cache/src/radix.rs\<close>): the compressed radix tree, its refinement to a plain
    map with a clock, LRU eviction, the safety of references, and exactly what the searches find: the
    longest stored prefix for recurrent entries, and for resident ones a match at the depth where the
    query leaves the tree or else a whole stored prefix (\<open>resident_search_exact\<close>).
  \<^item> \<open>WireBase\<close>, \<open>WireTypes\<close>, \<open>WireCodec\<close>, \<open>ActivationCodec\<close>, \<open>ActivationExact\<close>, \<open>ActivationFrame\<close>,
    \<open>FrameProps\<close>, \<open>StageMessage\<close>, \<open>MessageProps\<close>, \<open>WireProperties\<close> (\<open>skippy-protocol/src/binary\<close> and the
    codec enumerations of \<open>config.rs\<close>): readers and writers over byte streams, activation codecs and
    frames; round trips, self-delimitation, exact sizes, losslessness of the selected codec. The locales
    \<open>wire_format\<close> and \<open>delimited_format\<close> are the contract of a format; every scalar, list and record format
    is an interpretation.
  \<^item> \<open>Placement\<close>, \<open>PlacementBalance\<close>, \<open>PlacementFit\<close>, \<open>PlacementSearch\<close>, \<open>PlacementProperties\<close>,
    \<open>PlacementComplete\<close> (\<open>skippy-coordinator/src/topology.rs\<close>, \<open>topology/performance.rs\<close>,
    \<open>topology/locked.rs\<close>): placement by memory and latency, the balancing dynamic program, pinned stages;
    soundness, optimality of the cut, absence of panics, and completeness of the search. The search
    packs nodes in descending order of memory, so completeness is for placements in that order or
    with equal layers; it misses others.
  \<^item> \<open>Rans\<close>, \<open>RansProps\<close>, \<open>Float32\<close>, \<open>CacheGen\<close>, \<open>CacheGenProps\<close>, \<open>CacheGenProperties\<close>
    (\<open>skippy-cache/src/cachegen\<close>: \<open>rans.rs\<close>, \<open>reference.rs\<close>, \<open>container.rs\<close>): the entropy coder on 32-bit
    words, IEEE 754 single precision on bit patterns, and the segment codec; the coder and everything
    after quantisation are lossless, every histogram becomes a table, decoding any bytes returns.
  \<^item> \<open>CacheInventory\<close>, \<open>InventoryRefinement\<close>, \<open>Routing\<close>, \<open>RoutingProperties\<close> (\<open>mesh-llm-routing/src\<close>:
    \<open>cache_inventory.rs\<close>, \<open>cache_aware.rs\<close>, \<open>affinity.rs\<close>, \<open>lib.rs\<close>): the inventory of cache evidence as a
    bounded list in recency order, its epoch and its advertisements, the cached target that is served
    fastest (against a specification in plain arithmetic), the round robin, and the hashes of request bodies.
  \<^item> \<open>Float64\<close>, \<open>SegmentLedger\<close>, \<open>BenefitPolicy\<close>, \<open>PolicyInvariant\<close>, \<open>PolicySteps\<close>, \<open>PolicyEviction\<close>,
    \<open>PolicyRepair\<close>, \<open>PolicyProperties\<close> (\<open>skippy-cache/src/policy\<close>): IEEE 754 double precision by value, the
    ledger of shared segments behind the locale \<open>reference_ledger\<close>, and the admission policy with every
    operation; its invariant over all traces, exact accounting of what an eviction frees, and the repair
    of the probation cap against the removals it plans.
  \<^item> \<open>BenefitAdmission\<close>, \<open>AdmissionProperties\<close> (\<open>skippy-cache/src/manager.rs\<close>): the decisions of the owner
    of a cache root over that policy, with the store as a parameter, and its effective status; its policy
    is always a reachable one, room is made only by what the store removed, a payload is persisted from
    its second hit, status transitions form a chain.
  \<^item> \<open>L2Tier\<close>, \<open>L2Lemmas\<close>, \<open>L2Eviction\<close>, \<open>L2Admission\<close>, \<open>L2Transaction\<close>, \<open>L2Serving\<close>, \<open>L2Runs\<close>,
    \<open>L2Contents\<close>, \<open>L2Payloads\<close>, \<open>L2Properties\<close> (\<open>skippy-cache/src/l2/mod.rs\<close>, \<open>payload\<close>): the host-memory
    tier with every operation; exact accounting of its pool after any run, rollback of refused admissions,
    when an admission succeeds, least-recently-used eviction, and that a hit serves the last payload
    admitted at its key. The bound \<open>2 * budget \<le> U64_MAX\<close> keeps the saturating counters exact: a pool
    never holds more than the budget and one admission on top of it.

  State and errors. A Rust struct is a \<open>record\<close> with a prefix on its fields, an enum a \<open>datatype\<close>; a
  \<open>Result\<close> is a sum whose left side is the error of the source, an \<open>Option\<close> an \<open>option\<close>; a mutating
  method returns the new state. A panic that a public function can reach is the value \<open>Panic\<close> of an
  \<open>outcome\<close>; in the segment codec a call returns, \<open>Panics\<close> or \<open>Diverges\<close>; a panic that validation
  excludes is described where the function is defined. Integers are natural numbers with every
  saturation, check and truncation written out in the planners, the scheduler and the inventory (the
  casts of stage indices and layer counts to 32 bits apart, which lose nothing below 2^32 layers), and
  words in the wire protocol, the codecs and the hashes, where bits matter. A loop that returns from its
  body is \<open>find_map\<close> or a recursive function. One loop can run forever, the renormalisation of the
  entropy coder for a symbol of frequency 0 (\<open>rans_put_zero_frequency\<close>): it is a partial function, and
  \<open>rans_roundtrip\<close> and \<open>cachegen_roundtrip\<close> state that it returns where it is used. All other
  definitions are total. The only fuel is that of \<open>f16_normalize\<close>: ten shifts bring any non-zero
  ten-bit mantissa to its leading bit (\<open>f16_exact\<close> covers every value).

  Parameters. Clock readings are arguments, and so are settings read from the environment. A scheduler
  request is polymorphic in its sampling parameters, a routing target in the identity of its endpoint.
  The registry of reviewed families is a list argument. The byte stream under a reader or writer never
  fails by itself: a reader sees the bytes that arrive, and the end of the stream is an error value.
  BLAKE3 is a function argument: \<open>peer_probe_agrees\<close> assumes of it only that the probed prefix does not
  collide with a stored one, \<open>l2_hit_serves_last_admission\<close> that it does not collide on the slices of the
  wires offered in the run. The choice of \<open>f32::min\<close> between equal values, which Rust leaves open,
  is the argument \<open>tie\<close>. The disk store under the admission policy is its usage, its budget, its pins and
  the manifests an eviction removed. A parsed request body is a \<open>json\<close> value whose numbers are their
  printed text.

  Not modelled: network and process orchestration (\<open>mesh-llm-host-runtime\<close>, \<open>skippy-server\<close>), the
  native runtime behind FFI, HTTP and JSON translation, configuration files, user interfaces, SQLite
  stores, payments, file formats and downloads: they are I/O around these decisions or depend on
  third-party code that is not part of the repository.
\<close>

end
